(* ===== verification/Prelude.thy ===== *)
theory Prelude
  imports Main "HOL-Library.AList" "HOL-Library.Sublist" "HOL-Library.Code_Target_Numeral"
begin

text \<open>
  The vocabulary the component theories share: Python strings as lists of Unicode code
  points with the string methods the source calls, dictionaries as insertion-ordered
  association lists (\<open>AList.update\<close> replaces in place and appends new keys, which is what
  a Python dict does), and the collections of rewrite rules the proofs use.
\<close>

named_theorems str_eval \<open>rules that evaluate string literals and string methods\<close>
named_theorems dict_simps \<open>lookup, keys and distinctness of updated dictionaries\<close>

section \<open>Strings\<close>

text \<open>A Python \<open>str\<close> is a sequence of code points; \<open>u ''abc''\<close> is the literal.\<close>

type_synonym pystr = "nat list"

definition u :: "string \<Rightarrow> pystr" where
  "u s = map of_char s"

lemma u_eq_iff [simp]: "u a = u b \<longleftrightarrow> a = b"
  by (simp add: u_def inj_def)

lemma u_eq_Nil [simp]: "u a = [] \<longleftrightarrow> a = []" "[] = u a \<longleftrightarrow> a = []"
  by (auto simp: u_def)

lemma u_Nil [simp]: "u [] = []"
  by (simp add: u_def)

lemma length_u [simp]: "length (u s) = length s"
  by (simp add: u_def)

lemma u_append: "u (a @ b) = u a @ u b"
  by (simp add: u_def)

declare u_def [str_eval]

text \<open>Membership of the literals in the printable ASCII range, for literals only.\<close>

definition ascii_printable :: "nat \<Rightarrow> bool" where
  "ascii_printable c \<longleftrightarrow> 32 \<le> c \<and> c < 127"

subsection \<open>Searching\<close>

text \<open>
  \<open>s.find(sub)\<close> and \<open>s.rfind(sub)\<close>, with \<open>None\<close> for Python's \<open>-1\<close>; \<open>sub in s\<close> is
  \<open>str_contains\<close>.
\<close>

fun str_find :: "pystr \<Rightarrow> pystr \<Rightarrow> nat option" where
  "str_find sub [] = (if sub = [] then Some 0 else None)"
| "str_find sub (c # s) =
     (if prefix sub (c # s) then Some 0 else map_option Suc (str_find sub s))"

fun str_rfind :: "pystr \<Rightarrow> pystr \<Rightarrow> nat option" where
  "str_rfind sub [] = (if sub = [] then Some 0 else None)"
| "str_rfind sub (c # s) =
     (case str_rfind sub s of
        Some i \<Rightarrow> Some (Suc i)
      | None \<Rightarrow> if prefix sub (c # s) then Some 0 else None)"

definition str_contains :: "pystr \<Rightarrow> pystr \<Rightarrow> bool" where
  "str_contains sub s \<longleftrightarrow> str_find sub s \<noteq> None"

lemma str_find_SomeD:
  "str_find sub s = Some i \<Longrightarrow> i \<le> length s \<and> prefix sub (drop i s)"
  by (induction s arbitrary: i) (auto split: if_splits)

lemma str_find_Some_first:
  "str_find sub s = Some i \<Longrightarrow> j < i \<Longrightarrow> \<not> prefix sub (drop j s)"
proof (induction s arbitrary: i j)
  case Nil
  then show ?case by (auto split: if_splits)
next
  case (Cons c s)
  then show ?case by (cases j) (auto split: if_splits)
qed

lemma str_find_NoneD: "str_find sub s = None \<Longrightarrow> j \<le> length s \<Longrightarrow> \<not> prefix sub (drop j s)"
proof (induction s arbitrary: j)
  case Nil
  then show ?case by (auto split: if_splits)
next
  case (Cons c s)
  then show ?case by (cases j) (auto split: if_splits)
qed

lemma str_find_le_length: "str_find sub s = Some i \<Longrightarrow> i + length sub \<le> length s"
  using str_find_SomeD [of sub s i] by (auto dest: prefix_length_le)

lemma str_find_split:
  assumes "str_find sub s = Some i"
  shows "s = take i s @ sub @ drop (i + length sub) s"
proof -
  obtain r where "drop i s = sub @ r"
    using str_find_SomeD [OF assms] by (auto simp: prefix_def)
  then have "s = take i s @ sub @ r" and "r = drop (length sub) (drop i s)"
    by (metis append_take_drop_id) (simp add: \<open>drop i s = sub @ r\<close>)
  then show ?thesis by (simp add: add.commute)
qed

lemma str_rfind_SomeD:
  "str_rfind sub s = Some i \<Longrightarrow> i \<le> length s \<and> prefix sub (drop i s)"
  by (induction s arbitrary: i) (auto split: if_splits option.splits)

lemma str_rfind_Some_last:
  "str_rfind sub s = Some i \<Longrightarrow> i < j \<Longrightarrow> j \<le> length s \<Longrightarrow> \<not> prefix sub (drop j s)"
proof (induction s arbitrary: i j)
  case Nil
  then show ?case by (auto split: if_splits)
next
  case (Cons c s)
  have none: "str_rfind sub s = None \<Longrightarrow> k \<le> length s \<Longrightarrow> \<not> prefix sub (drop k s)" for k
    by (induction s arbitrary: k) (auto split: if_splits option.splits simp: drop_Cons' nat.split)
  show ?case
    using Cons none by (cases j) (auto split: if_splits option.splits)
qed

lemma str_rfind_NoneD: "str_rfind sub s = None \<Longrightarrow> k \<le> length s \<Longrightarrow> \<not> prefix sub (drop k s)"
  by (induction s arbitrary: k) (auto split: if_splits option.splits simp: drop_Cons')

subsection \<open>White space, splitting, joining\<close>

text \<open>\<open>str.isspace\<close> on one code point: the characters \<open>str.strip()\<close> removes.\<close>

definition is_space :: "nat \<Rightarrow> bool" where
  "is_space c \<longleftrightarrow>
     c \<in> {9, 10, 11, 12, 13, 28, 29, 30, 31, 32, 133, 160, 5760, 8232, 8233, 8239, 8287, 12288}
     \<or> (8192 \<le> c \<and> c \<le> 8202)"

definition str_lstrip :: "pystr \<Rightarrow> pystr" where
  "str_lstrip s = dropWhile is_space s"

definition str_rstrip :: "pystr \<Rightarrow> pystr" where
  "str_rstrip s = rev (dropWhile is_space (rev s))"

definition str_strip :: "pystr \<Rightarrow> pystr" where
  "str_strip s = str_rstrip (str_lstrip s)"

text \<open>The line boundaries of \<open>str.splitlines()\<close>; \<open>\\r\\n\<close> counts as one.\<close>

definition is_linebreak :: "nat \<Rightarrow> bool" where
  "is_linebreak c \<longleftrightarrow> c \<in> {10, 11, 12, 13, 28, 29, 30, 133, 8232, 8233}"

fun splitlines_aux :: "pystr \<Rightarrow> pystr \<Rightarrow> pystr list" where
  "splitlines_aux acc [] = (if acc = [] then [] else [rev acc])"
| "splitlines_aux acc (c # s) =
     (if c = 13 \<and> s \<noteq> [] \<and> hd s = 10 then rev acc # splitlines_aux [] (tl s)
      else if is_linebreak c then rev acc # splitlines_aux [] s
      else splitlines_aux (c # acc) s)"

definition str_splitlines :: "pystr \<Rightarrow> pystr list" where
  "str_splitlines s = splitlines_aux [] s"

fun str_join :: "pystr \<Rightarrow> pystr list \<Rightarrow> pystr" where
  "str_join sep [] = []"
| "str_join sep [x] = x"
| "str_join sep (x # y # xs) = x @ sep @ str_join sep (y # xs)"

text \<open>\<open>s.split(sep, 1)\<close> as used after a membership test, and \<open>s.partition(sep)\<close>.\<close>

definition str_partition :: "pystr \<Rightarrow> pystr \<Rightarrow> pystr \<times> bool \<times> pystr" where
  "str_partition sep s =
     (case str_find sep s of
        None \<Rightarrow> (s, False, [])
      | Some i \<Rightarrow> (take i s, True, drop (i + length sep) s))"

lemma str_partition_join:
  "str_partition sep s = (a, True, b) \<Longrightarrow> s = a @ sep @ b"
  by (auto simp: str_partition_def dest: str_find_split split: option.splits)

lemma splitlines_no_break:
  "\<forall>c \<in> set s. \<not> is_linebreak c \<Longrightarrow>
     splitlines_aux acc s = (if acc = [] \<and> s = [] then [] else [rev acc @ s])"
  by (induction s arbitrary: acc) (auto simp: is_linebreak_def)

lemma splitlines_line:
  "\<forall>c \<in> set s. \<not> is_linebreak c \<Longrightarrow>
     splitlines_aux acc (s @ 10 # r) = (rev acc @ s) # splitlines_aux [] r"
proof (induction s arbitrary: acc)
  case Nil
  then show ?case by (simp add: is_linebreak_def)
next
  case (Cons c s)
  then show ?case by (auto simp: is_linebreak_def)
qed

text \<open>\<open>s.rstrip("\\r\\n")\<close>, \<open>s.startswith(t)\<close>, \<open>s.endswith(t)\<close>.\<close>

definition rstrip_crlf :: "pystr \<Rightarrow> pystr" where
  "rstrip_crlf s = rev (dropWhile (\<lambda>c. c = 13 \<or> c = 10) (rev s))"

abbreviation str_startswith :: "pystr \<Rightarrow> pystr \<Rightarrow> bool" where
  "str_startswith s t \<equiv> prefix t s"

abbreviation str_endswith :: "pystr \<Rightarrow> pystr \<Rightarrow> bool" where
  "str_endswith s t \<equiv> suffix t s"

lemma strip_plain_ends:
  "s \<noteq> [] \<Longrightarrow> \<not> is_space (hd s) \<Longrightarrow> \<not> is_space (last s) \<Longrightarrow> str_strip s = s"
  by (simp add: str_strip_def str_lstrip_def str_rstrip_def dropWhile_eq_self_iff hd_rev
      dropWhile_eq_self_iff [THEN iffD2])

lemma strip_space_Cons [simp]: "str_strip (32 # s) = str_strip s"
  by (simp add: str_strip_def str_lstrip_def is_space_def)

section \<open>Exceptions\<close>

text \<open>
  The exceptions the source tells apart (\<open>is_retryable_stream_error\<close>, the guards around
  \<open>json.loads\<close>), and those its own expressions can raise.
\<close>

datatype py_exn =
    TruncatedProviderStreamError
  | AuthenticationError
  | BadRequestError
  | HTTPStatusError int
  | RateLimitError
  | APIStatusError "int option"
  | TimeoutException
  | ReadTimeout
  | ReadError
  | RemoteProtocolError
  | ConnectError
  | NetworkError
  | APITimeoutError
  | APIConnectionError
  | AttributeError
  | KeyError
  | ValueError
  | TypeError
  | OtherException pystr

text \<open>Going on with the value of a step that did not raise.\<close>

definition and_then :: "py_exn + 'a \<Rightarrow> ('a \<Rightarrow> py_exn + 'b) \<Rightarrow> py_exn + 'b" where
  "and_then r f = (case r of Inl e \<Rightarrow> Inl e | Inr x \<Rightarrow> f x)"

lemma and_then_simps [simp]: "and_then (Inr x) f = f x" "and_then (Inl e) f = Inl e"
  by (simp_all add: and_then_def)

lemma and_then_Inr: "and_then r f = Inr y \<longleftrightarrow> (\<exists>x. r = Inr x \<and> f x = Inr y)"
  by (cases r) simp_all

section \<open>Dictionaries\<close>

type_synonym ('k, 'v) dict = "('k \<times> 'v) list"

abbreviation dict_get :: "('k, 'v) dict \<Rightarrow> 'k \<Rightarrow> 'v option" where
  "dict_get \<equiv> map_of"

abbreviation dict_set :: "'k \<Rightarrow> 'v \<Rightarrow> ('k, 'v) dict \<Rightarrow> ('k, 'v) dict" where
  "dict_set \<equiv> AList.update"

abbreviation dict_pop :: "'k \<Rightarrow> ('k, 'v) dict \<Rightarrow> ('k, 'v) dict" where
  "dict_pop \<equiv> AList.delete"

abbreviation dict_keys :: "('k, 'v) dict \<Rightarrow> 'k list" where
  "dict_keys d \<equiv> map fst d"

abbreviation dict_values :: "('k, 'v) dict \<Rightarrow> 'v list" where
  "dict_values d \<equiv> map snd d"

abbreviation dict_wf :: "('k, 'v) dict \<Rightarrow> bool" where
  "dict_wf d \<equiv> distinct (map fst d)"

text \<open>Python's \<open>d.get(k, default)\<close>.\<close>

definition dict_get_default :: "('k, 'v) dict \<Rightarrow> 'k \<Rightarrow> 'v \<Rightarrow> 'v" where
  "dict_get_default d k v = (case dict_get d k of None \<Rightarrow> v | Some w \<Rightarrow> w)"

lemma dict_get_set [dict_simps]: "dict_get (dict_set k v d) k' = (if k' = k then Some v else dict_get d k')"
  by (simp add: update_conv')

lemma dict_get_pop [dict_simps]: "dict_get (dict_pop k d) k' = (if k' = k then None else dict_get d k')"
  by (simp add: delete_conv')

lemma dict_wf_set [dict_simps]: "dict_wf d \<Longrightarrow> dict_wf (dict_set k v d)"
  by (rule distinct_update)

lemma dict_wf_pop [dict_simps]: "dict_wf d \<Longrightarrow> dict_wf (dict_pop k d)"
  by (rule distinct_delete)

lemma set_keys_set [dict_simps]: "fst ` set (dict_set k v d) = insert k (fst ` set d)"
  by (simp add: dom_update)

lemma set_keys_pop [dict_simps]: "fst ` set (dict_pop k d) = fst ` set d - {k}"
  by (metis AList.delete_keys list.set_map set_removeAll)

lemma dict_get_None_iff: "dict_get d k = None \<longleftrightarrow> k \<notin> fst ` set d"
  by (rule map_of_eq_None_iff)

lemma dict_get_in_set: "dict_get d k = Some v \<Longrightarrow> (k, v) \<in> set d"
  by (rule map_of_SomeD)

lemma dict_wf_get: "dict_wf d \<Longrightarrow> (k, v) \<in> set d \<Longrightarrow> dict_get d k = Some v"
  by (rule map_of_is_SomeI)

lemma dict_wf_set_iff: "dict_wf d \<Longrightarrow> ((k, v) \<in> set d) = (dict_get d k = Some v)"
  using map_of_SomeD map_of_is_SomeI by fast

lemma dict_set_new: "k \<notin> fst ` set d \<Longrightarrow> dict_set k v d = d @ [(k, v)]"
  by (induction d) auto

lemma dict_set_same: "dict_get d k = Some v \<Longrightarrow> dict_set k v d = d"
  by (induction d) auto

text \<open>Updating every stored value in place leaves the keys alone.\<close>

lemma map_fst_map_snd [simp]: "map fst (map (\<lambda>(k, v). (k, f k v)) d) = map fst d"
  by (induction d) auto

end
