(* ===== verification/Thinking.thy ===== *)
theory Thinking
  imports Prelude
begin

text \<open>
  The streaming parser for provider-emitted \<open>think\<close> tags
  (\<open>core/anthropic/thinking.py\<close>): \<open>ThinkTagParser\<close> with its buffer and its mode, one
  definition per method.  The reference \<open>strip_tags\<close> reads a whole text at once, one
  character at a time; the theorem is that feeding any sequence of chunks and flushing
  classifies every character as the reference does, wherever the chunk boundaries fall.
\<close>

section \<open>The parser\<close>

datatype content_type = TEXT | THINKING

datatype content_chunk = ContentChunk content_type pystr

record think_parser =
  tp_buffer :: pystr
  tp_in_think_tag :: bool

definition OPEN_TAG :: pystr where
  "OPEN_TAG = u ''<think>''"

definition CLOSE_TAG :: pystr where
  "CLOSE_TAG = u ''</think>''"

definition ThinkTagParser_init :: think_parser where
  "ThinkTagParser_init = \<lparr>tp_buffer = [], tp_in_think_tag = False\<rparr>"

definition chunk_unless_empty :: "content_type \<Rightarrow> pystr \<Rightarrow> content_chunk option" where
  "chunk_unless_empty ty s = (if s = [] then None else Some (ContentChunk ty s))"

text \<open>
  \<open>_parse_outside_think\<close>.  The first test of the source,
  \<open>orphan_close != -1 and (think_start == -1 or orphan_close < think_start)\<close>, and the
  branches in its order.
\<close>

definition parse_outside_think :: "think_parser \<Rightarrow> content_chunk option \<times> think_parser" where
  "parse_outside_think p =
     (let buf = tp_buffer p;
          think_start = str_find OPEN_TAG buf;
          orphan_close = str_find CLOSE_TAG buf
      in case orphan_close of
           Some oc \<Rightarrow>
             if think_start = None \<or> oc < the think_start then
               (chunk_unless_empty TEXT (take oc buf),
                p\<lparr>tp_buffer := drop (oc + length CLOSE_TAG) buf\<rparr>)
             else
               (chunk_unless_empty TEXT (take (the think_start) buf),
                p\<lparr>tp_buffer := drop (the think_start + length OPEN_TAG) buf, tp_in_think_tag := True\<rparr>)
         | None \<Rightarrow>
             (case think_start of
                None \<Rightarrow>
                  (case str_rfind (u ''<'') buf of
                     Some last_bracket \<Rightarrow>
                       let potential_tag = drop last_bracket buf
                       in if (length potential_tag < length OPEN_TAG \<and> prefix potential_tag OPEN_TAG)
                            \<or> (length potential_tag < length CLOSE_TAG \<and> prefix potential_tag CLOSE_TAG)
                          then (chunk_unless_empty TEXT (take last_bracket buf),
                                p\<lparr>tp_buffer := potential_tag\<rparr>)
                          else (chunk_unless_empty TEXT buf, p\<lparr>tp_buffer := []\<rparr>)
                   | None \<Rightarrow> (chunk_unless_empty TEXT buf, p\<lparr>tp_buffer := []\<rparr>))
              | Some ts \<Rightarrow>
                  (chunk_unless_empty TEXT (take ts buf),
                   p\<lparr>tp_buffer := drop (ts + length OPEN_TAG) buf, tp_in_think_tag := True\<rparr>)))"

definition parse_inside_think :: "think_parser \<Rightarrow> content_chunk option \<times> think_parser" where
  "parse_inside_think p =
     (let buf = tp_buffer p
      in case str_find CLOSE_TAG buf of
           None \<Rightarrow>
             (case str_rfind (u ''<'') buf of
                Some last_bracket \<Rightarrow>
                  if length buf - last_bracket < length CLOSE_TAG
                     \<and> prefix (drop last_bracket buf) CLOSE_TAG
                  then (chunk_unless_empty THINKING (take last_bracket buf),
                        p\<lparr>tp_buffer := drop last_bracket buf\<rparr>)
                  else (chunk_unless_empty THINKING buf, p\<lparr>tp_buffer := []\<rparr>)
              | None \<Rightarrow> (chunk_unless_empty THINKING buf, p\<lparr>tp_buffer := []\<rparr>))
         | Some think_end \<Rightarrow>
             (chunk_unless_empty THINKING (take think_end buf),
              p\<lparr>tp_buffer := drop (think_end + length CLOSE_TAG) buf, tp_in_think_tag := False\<rparr>))"

definition parse_step :: "think_parser \<Rightarrow> content_chunk option \<times> think_parser" where
  "parse_step p = (if tp_in_think_tag p then parse_inside_think p else parse_outside_think p)"

text \<open>
  The \<open>while self._buffer\<close> loop of \<open>feed\<close>: it stops when the buffer is empty, or when a
  step neither yields a chunk nor shortens the buffer.
\<close>

lemma chunk_shortens:
  assumes "parse_step p = (c, p')" "tp_buffer p \<noteq> []" "c \<noteq> None \<or> length (tp_buffer p') \<noteq> length (tp_buffer p)"
  shows "length (tp_buffer p') < length (tp_buffer p)"
  using assms
  by (auto simp: parse_step_def parse_outside_think_def parse_inside_think_def Let_def
      chunk_unless_empty_def OPEN_TAG_def CLOSE_TAG_def split: if_splits option.splits)

function feed_loop :: "think_parser \<Rightarrow> content_chunk list \<times> think_parser" where
  "feed_loop p =
     (if tp_buffer p = [] then ([], p)
      else (case parse_step p of
              (Some c, p') \<Rightarrow> (case feed_loop p' of (cs, q) \<Rightarrow> (c # cs, q))
            | (None, p') \<Rightarrow>
                if length (tp_buffer p') = length (tp_buffer p) then ([], p') else feed_loop p'))"
  by pat_completeness auto
termination
  by (relation "measure (\<lambda>p. length (tp_buffer p))") (auto dest!: chunk_shortens [OF sym])

declare feed_loop.simps [simp del]

definition feed :: "pystr \<Rightarrow> think_parser \<Rightarrow> content_chunk list \<times> think_parser" where
  "feed content p = feed_loop (p\<lparr>tp_buffer := tp_buffer p @ content\<rparr>)"

definition flush :: "think_parser \<Rightarrow> content_chunk option \<times> think_parser" where
  "flush p =
     (if tp_buffer p \<noteq> [] then
        (Some (ContentChunk (if tp_in_think_tag p then THINKING else TEXT) (tp_buffer p)),
         p\<lparr>tp_buffer := []\<rparr>)
      else (None, p))"

fun feed_all :: "pystr list \<Rightarrow> think_parser \<Rightarrow> content_chunk list \<times> think_parser" where
  "feed_all [] p = ([], p)"
| "feed_all (s # ss) p =
     (case feed s p of (cs, p1) \<Rightarrow> case feed_all ss p1 of (ds, p2) \<Rightarrow> (cs @ ds, p2))"

text \<open>A whole stream: feed every delta, then flush.\<close>

definition parse_stream :: "pystr list \<Rightarrow> content_chunk list" where
  "parse_stream ss =
     (case feed_all ss ThinkTagParser_init of
        (cs, p) \<Rightarrow> cs @ (case fst (flush p) of None \<Rightarrow> [] | Some c \<Rightarrow> [c]))"

section \<open>The reference\<close>

text \<open>Every character with its type; tags removed, an orphan closing tag too.\<close>

function strip_tags :: "bool \<Rightarrow> pystr \<Rightarrow> (content_type \<times> nat) list" where
  "strip_tags m [] = []"
| "strip_tags m (c # s) =
     (if prefix CLOSE_TAG (c # s) then strip_tags False (drop 7 s)
      else if \<not> m \<and> prefix OPEN_TAG (c # s) then strip_tags True (drop 6 s)
      else (if m then THINKING else TEXT, c) # strip_tags m s)"
  by pat_completeness auto
termination
  by (relation "measure (\<lambda>(m, s). length s)") auto

declare strip_tags.simps(2) [simp del]

fun chunk_chars :: "content_chunk \<Rightarrow> (content_type \<times> nat) list" where
  "chunk_chars (ContentChunk ty s) = map (Pair ty) s"

definition chars :: "content_chunk list \<Rightarrow> (content_type \<times> nat) list" where
  "chars cs = concat (map chunk_chars cs)"

lemma chars_simps [simp]:
  "chars [] = []" "chars (c # cs) = chunk_chars c @ chars cs" "chars (cs @ ds) = chars cs @ chars ds"
  by (simp_all add: chars_def)

section \<open>Chunk boundaries do not matter\<close>

abbreviation type_of_mode :: "bool \<Rightarrow> content_type" where
  "type_of_mode m \<equiv> (if m then THINKING else TEXT)"

lemma length_tags [simp]: "length OPEN_TAG = 7" "length CLOSE_TAG = 8"
  by (simp_all add: OPEN_TAG_def CLOSE_TAG_def)

lemma tags_nonempty [simp]: "OPEN_TAG \<noteq> []" "CLOSE_TAG \<noteq> []"
  by (simp_all add: OPEN_TAG_def CLOSE_TAG_def)

lemma tags_disjoint: "\<not> (prefix OPEN_TAG s \<and> prefix CLOSE_TAG s)"
  by (auto simp: OPEN_TAG_def CLOSE_TAG_def str_eval prefix_def)

lemma strip_close: "prefix CLOSE_TAG s \<Longrightarrow> strip_tags m s = strip_tags False (drop 8 s)"
  by (cases s) (auto simp: strip_tags.simps(2))

lemma strip_open: "prefix OPEN_TAG s \<Longrightarrow> strip_tags False s = strip_tags True (drop 7 s)"
  using tags_disjoint by (cases s) (auto simp: strip_tags.simps(2))

definition no_tag_at :: "bool \<Rightarrow> pystr \<Rightarrow> nat \<Rightarrow> bool" where
  "no_tag_at m s i \<longleftrightarrow> \<not> prefix CLOSE_TAG (drop i s) \<and> (m \<or> \<not> prefix OPEN_TAG (drop i s))"

lemma strip_plain:
  "\<forall>i < k. no_tag_at m s i \<Longrightarrow> k \<le> length s \<Longrightarrow>
     strip_tags m s = map (Pair (type_of_mode m)) (take k s) @ strip_tags m (drop k s)"
proof (induction k arbitrary: s)
  case (Suc k)
  then obtain c s' where s: "s = c # s'" by (cases s) auto
  have "no_tag_at m s 0" using Suc.prems by blast
  then have "strip_tags m s = (type_of_mode m, c) # strip_tags m s'"
    by (auto simp: no_tag_at_def s strip_tags.simps(2))
  moreover have "\<forall>i < k. no_tag_at m s' i"
    using Suc.prems(1) by (force simp: no_tag_at_def s)
  ultimately show ?case
    using Suc.IH [of s'] Suc.prems(2) by (simp add: s)
qed simp

text \<open>An occurrence that ends inside the buffer is an occurrence in the buffer.\<close>

lemma prefix_in_buffer:
  assumes "prefix t (drop i (buf @ y))" "i + length t \<le> length buf"
  shows "prefix t (drop i buf)"
proof -
  have "length t \<le> length (drop i buf)" using assms(2) by simp
  moreover have "prefix t (drop i buf @ y)" using assms by simp
  ultimately show ?thesis by (metis prefix_length_prefix prefixI)
qed

text \<open>An occurrence that reaches past the buffer starts at its last \<open><\<close>.\<close>

lemma tag_tail_no_bracket:
  assumes "t = OPEN_TAG \<or> t = CLOSE_TAG" "0 < j" "j < length t"
  shows "t ! j \<noteq> 60"
proof -
  have "t ! 0 = 60 \<and> 60 \<notin> set (tl t)"
    using assms(1) by (auto simp: OPEN_TAG_def CLOSE_TAG_def str_eval)
  moreover have "tl t ! (j - 1) = t ! j" and "j - 1 < length (tl t)"
    using assms(2,3) by (simp_all add: nth_tl)
  then have "t ! j \<in> set (tl t)" by (metis nth_mem)
  ultimately show ?thesis by auto
qed

lemma tag_head: "t = OPEN_TAG \<or> t = CLOSE_TAG \<Longrightarrow> t ! 0 = 60"
  by (auto simp: OPEN_TAG_def CLOSE_TAG_def str_eval)

lemma bracket_at: "prefix (u ''<'') (drop r s) \<longleftrightarrow> r < length s \<and> s ! r = 60"
proof (cases "r < length s")
  case True
  then show ?thesis by (simp add: str_eval flip: Cons_nth_drop_Suc)
qed (simp add: str_eval)

lemma partial_tag:
  assumes t: "t = OPEN_TAG \<or> t = CLOSE_TAG" and p: "prefix t (drop i (buf @ y))"
    and i: "i < length buf" and over: "length buf < i + length t"
  shows "str_rfind (u ''<'') buf = Some i" "prefix (drop i buf) t" "length buf - i < length t"
proof -
  have "prefix t (drop i buf @ y)" using p i by simp
  moreover have "length (drop i buf) < length t" using i over by simp
  ultimately show pre: "prefix (drop i buf) t"
    by (metis less_imp_le prefix_length_prefix prefixI)
  show "length buf - i < length t" using i over by simp
  have nth: "buf ! (i + j) = t ! j" if "i + j < length buf" for j
    using pre that i by (auto simp: prefix_def nth_append)
  have hd: "buf ! i = 60" using nth [of 0] i tag_head [OF t] by simp
  have tl: "buf ! r \<noteq> 60" if "i < r" "r < length buf" for r
    using nth [of "r - i"] tag_tail_no_bracket [OF t, of "r - i"] that over by simp
  show "str_rfind (u ''<'') buf = Some i"
  proof (cases "str_rfind (u ''<'') buf")
    case None
    then show ?thesis using str_rfind_NoneD [OF None, of i] hd i by (simp add: bracket_at)
  next
    case (Some r)
    have "r < length buf \<and> buf ! r = 60"
      using str_rfind_SomeD [OF Some] by (simp add: bracket_at)
    moreover have "\<not> r < i"
      using str_rfind_Some_last [OF Some, of i] hd i by (auto simp: bracket_at)
    ultimately show ?thesis using tl [of r] Some by (cases "r = i") auto
  qed
qed

lemma no_tag_inside:
  assumes "str_find CLOSE_TAG buf = None"
    and "\<And>lb. str_rfind (u ''<'') buf = Some lb \<Longrightarrow> length buf - lb < 8 \<Longrightarrow>
           prefix (drop lb buf) CLOSE_TAG \<Longrightarrow> k \<le> lb"
    and "k \<le> length buf" "i < k"
  shows "no_tag_at True (buf @ y) i"
proof -
  have "\<not> prefix CLOSE_TAG (drop i (buf @ y))"
  proof
    assume p: "prefix CLOSE_TAG (drop i (buf @ y))"
    show False
    proof (cases "i + 8 \<le> length buf")
      case True
      then have "prefix CLOSE_TAG (drop i buf)" using prefix_in_buffer [OF p] by simp
      then show False using str_find_NoneD [OF assms(1), of i] True by simp
    next
      case False
      then have "str_rfind (u ''<'') buf = Some i" "prefix (drop i buf) CLOSE_TAG" "length buf - i < 8"
        using partial_tag [of CLOSE_TAG i buf y] p assms(3,4) by simp_all
      then have "k \<le> i" using assms(2) by blast
      with assms(4) show False by simp
    qed
  qed
  then show ?thesis by (simp add: no_tag_at_def)
qed

lemma no_tag_outside:
  assumes "str_find CLOSE_TAG buf = None" "str_find OPEN_TAG buf = None"
    and "\<And>lb. str_rfind (u ''<'') buf = Some lb \<Longrightarrow>
           (length buf - lb < 7 \<and> prefix (drop lb buf) OPEN_TAG) \<or>
           (length buf - lb < 8 \<and> prefix (drop lb buf) CLOSE_TAG) \<Longrightarrow> k \<le> lb"
    and "k \<le> length buf" "i < k"
  shows "no_tag_at False (buf @ y) i"
proof -
  have "\<not> prefix CLOSE_TAG (drop i (buf @ y))"
    using no_tag_inside [OF assms(1) _ assms(4,5), where y = y] assms(3) by (simp add: no_tag_at_def)
  moreover have "\<not> prefix OPEN_TAG (drop i (buf @ y))"
  proof
    assume p: "prefix OPEN_TAG (drop i (buf @ y))"
    show False
    proof (cases "i + 7 \<le> length buf")
      case True
      then have "prefix OPEN_TAG (drop i buf)" using prefix_in_buffer [OF p] by simp
      then show False using str_find_NoneD [OF assms(2), of i] True by simp
    next
      case False
      then have "str_rfind (u ''<'') buf = Some i" "prefix (drop i buf) OPEN_TAG" "length buf - i < 7"
        using partial_tag [of OPEN_TAG i buf y] p assms(4,5) by simp_all
      then have "k \<le> i" using assms(3) by blast
      with assms(5) show False by simp
    qed
  qed
  ultimately show ?thesis by (simp add: no_tag_at_def)
qed

lemma found_no_tag:
  assumes "str_find t buf = Some k" "i < k" "length t' \<le> Suc (length t)" "str_find t' buf = None \<or> i < the (str_find t' buf)"
  shows "\<not> prefix t' (drop i (buf @ y))"
proof
  assume p: "prefix t' (drop i (buf @ y))"
  have "k + length t \<le> length buf" by (rule str_find_le_length [OF assms(1)])
  then have "prefix t' (drop i buf)"
    using assms(2,3) prefix_in_buffer [OF p] by simp
  then show False
    using assms(4) str_find_NoneD [of t' buf i] str_find_Some_first [of t' buf _ i]
      \<open>k + length t \<le> length buf\<close> assms(2) by (cases "str_find t' buf") auto
qed

definition opt_chars :: "content_chunk option \<Rightarrow> (content_type \<times> nat) list" where
  "opt_chars c = (case c of None \<Rightarrow> [] | Some c \<Rightarrow> chunk_chars c)"

lemma opt_chars_simps [simp]:
  "opt_chars None = []" "opt_chars (Some c) = chunk_chars c"
  "opt_chars (chunk_unless_empty ty s) = map (Pair ty) s"
  by (simp_all add: opt_chars_def chunk_unless_empty_def)

text \<open>One step hands on exactly what the reference says about the text it consumes.\<close>

abbreviation still_to_read :: "think_parser \<Rightarrow> pystr \<Rightarrow> (content_type \<times> nat) list" where
  "still_to_read p y \<equiv> strip_tags (tp_in_think_tag p) (tp_buffer p @ y)"

lemma strip_until:
  assumes "\<forall>i < k. no_tag_at m (buf @ y) i" "k \<le> length buf"
  shows "strip_tags m (buf @ y) =
           map (Pair (type_of_mode m)) (take k buf) @ strip_tags m (drop k buf @ y)"
  using strip_plain [of k m "buf @ y"] assms by simp

lemma prefix_found: "str_find t buf = Some k \<Longrightarrow> prefix t (drop k buf @ y)"
  using str_find_SomeD [of t buf k] by (auto simp: prefix_def)

lemma parse_inside_correct:
  assumes "tp_in_think_tag p" "parse_inside_think p = (c, p')"
  shows "still_to_read p y = opt_chars c @ still_to_read p' y"
proof (cases "str_find CLOSE_TAG (tp_buffer p)")
  case None
  let ?buf = "tp_buffer p"
  show ?thesis
  proof (cases "\<exists>lb. str_rfind (u ''<'') ?buf = Some lb \<and> length ?buf - lb < 8 \<and>
      prefix (drop lb ?buf) CLOSE_TAG")
    case True
    then obtain lb where lb: "str_rfind (u ''<'') ?buf = Some lb" "length ?buf - lb < 8"
        "prefix (drop lb ?buf) CLOSE_TAG" by blast
    have "lb \<le> length ?buf" using str_rfind_SomeD [OF lb(1)] by blast
    then have "\<forall>i < lb. no_tag_at True (?buf @ y) i"
      using no_tag_inside [OF None, where k = lb and y = y] lb(1) by fastforce
    then show ?thesis
      using assms None lb \<open>lb \<le> length ?buf\<close> strip_until [of lb True ?buf y]
      by (auto simp: parse_inside_think_def Let_def)
  next
    case False
    then have "\<forall>i < length ?buf. no_tag_at True (?buf @ y) i"
      using no_tag_inside [OF None, of "length ?buf"] by blast
    then show ?thesis
      using assms None False strip_until [of "length ?buf" True ?buf y]
      by (auto simp: parse_inside_think_def Let_def split: option.splits)
  qed
next
  case (Some k)
  have "\<forall>i < k. no_tag_at True (tp_buffer p @ y) i"
    using found_no_tag [OF Some, of _ CLOSE_TAG] Some by (simp add: no_tag_at_def)
  moreover have "k + 8 \<le> length (tp_buffer p)" using str_find_le_length [OF Some] by simp
  ultimately show ?thesis
    using assms Some strip_until [of k True "tp_buffer p" y] strip_close [OF prefix_found [OF Some], of True y]
    by (auto simp: parse_inside_think_def Let_def add.commute)
qed

lemma parse_outside_found:
  assumes "\<not> tp_in_think_tag p" "parse_outside_think p = (c, p')"
    and "str_find CLOSE_TAG (tp_buffer p) \<noteq> None \<or> str_find OPEN_TAG (tp_buffer p) \<noteq> None"
  shows "still_to_read p y = opt_chars c @ still_to_read p' y"
proof (cases "\<exists>oc. str_find CLOSE_TAG (tp_buffer p) = Some oc \<and>
    (str_find OPEN_TAG (tp_buffer p) = None \<or> oc < the (str_find OPEN_TAG (tp_buffer p)))")
  case True
  let ?buf = "tp_buffer p"
  from True obtain oc where oc: "str_find CLOSE_TAG ?buf = Some oc"
      "str_find OPEN_TAG ?buf = None \<or> oc < the (str_find OPEN_TAG ?buf)" by blast
  then have "\<forall>i < oc. no_tag_at False (?buf @ y) i"
    using found_no_tag [OF oc(1), of _ CLOSE_TAG y] found_no_tag [OF oc(1), of _ OPEN_TAG y]
    by (auto simp: no_tag_at_def)
  moreover have "oc + 8 \<le> length ?buf" using str_find_le_length [OF oc(1)] by simp
  ultimately show ?thesis
    using assms(1,2) oc strip_until [of oc False ?buf y] strip_close [OF prefix_found [OF oc(1)], of False y]
    by (auto simp: parse_outside_think_def Let_def add.commute)
next
  case False
  let ?buf = "tp_buffer p"
  from False assms(3) obtain ts where ts: "str_find OPEN_TAG ?buf = Some ts"
      "str_find CLOSE_TAG ?buf = None \<or> ts \<le> the (str_find CLOSE_TAG ?buf)" by fastforce
  then have "\<forall>i < ts. no_tag_at False (?buf @ y) i"
    using found_no_tag [OF ts(1), of _ CLOSE_TAG y] found_no_tag [OF ts(1), of _ OPEN_TAG y]
    by (auto simp: no_tag_at_def)
  moreover have "ts + 7 \<le> length ?buf" using str_find_le_length [OF ts(1)] by simp
  ultimately show ?thesis
    using assms(1,2) ts strip_until [of ts False ?buf y] strip_open [OF prefix_found [OF ts(1)], of y]
    by (auto simp: parse_outside_think_def Let_def add.commute split: option.splits)
qed

lemma parse_outside_correct:
  assumes "\<not> tp_in_think_tag p" "parse_outside_think p = (c, p')"
  shows "still_to_read p y = opt_chars c @ still_to_read p' y"
proof (cases "str_find CLOSE_TAG (tp_buffer p) = None \<and> str_find OPEN_TAG (tp_buffer p) = None")
  case True
  let ?buf = "tp_buffer p"
  let ?part = "\<lambda>lb. (length ?buf - lb < 7 \<and> prefix (drop lb ?buf) OPEN_TAG) \<or>
      (length ?buf - lb < 8 \<and> prefix (drop lb ?buf) CLOSE_TAG)"
  note none = no_tag_outside [OF conjunct1 [OF True] conjunct2 [OF True]]
  show ?thesis
  proof (cases "\<exists>lb. str_rfind (u ''<'') ?buf = Some lb \<and> ?part lb")
    case True
    then obtain lb where lb: "str_rfind (u ''<'') ?buf = Some lb" "?part lb" by blast
    have le: "lb \<le> length ?buf" using str_rfind_SomeD [OF lb(1)] by blast
    then have "\<forall>i < lb. no_tag_at False (?buf @ y) i"
      using none [of lb] lb by simp
    then have "still_to_read p y = map (Pair TEXT) (take lb ?buf) @ strip_tags False (drop lb ?buf @ y)"
      using assms(1) le strip_until [of lb False ?buf y] by simp
    moreover have "c = chunk_unless_empty TEXT (take lb ?buf)" "p' = p\<lparr>tp_buffer := drop lb ?buf\<rparr>"
      using assms(2) \<open>_ = None \<and> _ = None\<close> lb by (simp_all add: parse_outside_think_def Let_def)
    ultimately show ?thesis using assms(1) by simp
  next
    case False
    then have "\<forall>i < length ?buf. no_tag_at False (?buf @ y) i"
      using none [of "length ?buf"] by blast
    then have "still_to_read p y = map (Pair TEXT) ?buf @ strip_tags False y"
      using assms(1) strip_until [of "length ?buf" False ?buf y] by simp
    moreover have "c = chunk_unless_empty TEXT ?buf" "p' = p\<lparr>tp_buffer := []\<rparr>"
      using assms(2) True False by (auto simp: parse_outside_think_def Let_def split: option.splits)
    ultimately show ?thesis using assms(1) by simp
  qed
qed (use assms parse_outside_found in blast)

lemma parse_step_correct:
  "parse_step p = (c, p') \<Longrightarrow> still_to_read p y = opt_chars c @ still_to_read p' y"
  using parse_inside_correct parse_outside_correct by (simp add: parse_step_def split: if_splits)

lemma feed_loop_cases:
  assumes "feed_loop p = (cs, q)"
  obtains "tp_buffer p = []" "cs = []" "q = p"
  | c p' ds where "tp_buffer p \<noteq> []" "parse_step p = (Some c, p')" "feed_loop p' = (ds, q)"
      "cs = c # ds" "length (tp_buffer p') < length (tp_buffer p)"
  | p' where "tp_buffer p \<noteq> []" "parse_step p = (None, p')" "cs = []" "q = p'"
      "length (tp_buffer p') = length (tp_buffer p)"
  | p' where "tp_buffer p \<noteq> []" "parse_step p = (None, p')" "feed_loop p' = (cs, q)"
      "length (tp_buffer p') < length (tp_buffer p)"
proof -
  obtain c p' where step: "parse_step p = (c, p')" by fastforce
  show thesis
    using that assms step chunk_shortens [OF step]
    by (auto simp: feed_loop.simps [of p] split: if_splits option.splits prod.splits)
qed

lemma feed_loop_correct:
  "feed_loop p = (cs, q) \<Longrightarrow> still_to_read p y = chars cs @ still_to_read q y"
proof (induction "length (tp_buffer p)" arbitrary: p cs rule: less_induct)
  case less
  from less.prems show ?case
  proof (cases rule: feed_loop_cases)
    case (2 c p' ds)
    then show ?thesis using less.hyps [of p' ds] parse_step_correct [of p "Some c" p' y] by simp
  next
    case (3 p')
    then show ?thesis using parse_step_correct [of p None p' y] by simp
  next
    case (4 p')
    then show ?thesis using less.hyps [of p' cs] parse_step_correct [of p None p' y] by simp
  qed simp
qed

lemma feed_correct:
  "feed s p = (cs, q) \<Longrightarrow> still_to_read p (s @ y) = chars cs @ still_to_read q y"
  using feed_loop_correct [of "p\<lparr>tp_buffer := tp_buffer p @ s\<rparr>" cs q y] by (simp add: feed_def)

lemma feed_all_correct:
  "feed_all ss p = (cs, q) \<Longrightarrow> still_to_read p (concat ss @ y) = chars cs @ still_to_read q y"
proof (induction ss arbitrary: p cs)
  case (Cons s ss)
  obtain c1 p1 where 1: "feed s p = (c1, p1)" by fastforce
  obtain c2 p2 where 2: "feed_all ss p1 = (c2, p2)" by fastforce
  have "q = p2" "cs = c1 @ c2" using Cons.prems 1 2 by simp_all
  then show ?case
    using Cons.IH [of p1 c2] feed_correct [OF 1, of "concat ss @ y"] 2 by simp
qed simp

text \<open>What a feed leaves in the buffer holds no complete tag, so flushing it as it is is right.\<close>

definition settled :: "think_parser \<Rightarrow> bool" where
  "settled p \<longleftrightarrow> str_find CLOSE_TAG (tp_buffer p) = None \<and>
     (tp_in_think_tag p \<or> str_find OPEN_TAG (tp_buffer p) = None)"

lemma stuck_settled:
  assumes "parse_step p = (None, p')" "length (tp_buffer p') = length (tp_buffer p)" "tp_buffer p \<noteq> []"
  shows "settled p'"
  using assms
  by (auto simp: parse_step_def parse_outside_think_def parse_inside_think_def Let_def settled_def
      chunk_unless_empty_def split: if_splits option.splits)

lemma settled_empty: "tp_buffer p = [] \<Longrightarrow> settled p"
  by (simp add: settled_def OPEN_TAG_def CLOSE_TAG_def)

lemma feed_loop_settled: "feed_loop p = (cs, q) \<Longrightarrow> settled q"
proof (induction "length (tp_buffer p)" arbitrary: p cs rule: less_induct)
  case less
  from less.prems show ?case
    by (cases rule: feed_loop_cases)
      (auto intro: settled_empty stuck_settled less.hyps)
qed

lemma feed_all_settled: "settled p \<Longrightarrow> feed_all ss p = (cs, q) \<Longrightarrow> settled q"
  by (induction ss arbitrary: p cs) (auto simp: feed_def split: prod.splits dest: feed_loop_settled)

lemma strip_settled:
  assumes "settled p"
  shows "strip_tags (tp_in_think_tag p) (tp_buffer p)
           = map (Pair (type_of_mode (tp_in_think_tag p))) (tp_buffer p)"
proof -
  have "\<forall>i < length (tp_buffer p). no_tag_at (tp_in_think_tag p) (tp_buffer p) i"
    using assms str_find_NoneD by (fastforce simp: settled_def no_tag_at_def)
  from strip_plain [OF this] show ?thesis by simp
qed

text \<open>
  C2 (equivalence): a stream of deltas, fed one after the other and flushed at the end,
  yields exactly the characters of the whole text outside the tags, each classified as
  text or thinking as the one-pass reference classifies it; so where the deltas split the
  text, even in the middle of a tag, never matters.
\<close>

theorem think_parser_matches_reference: "chars (parse_stream ss) = strip_tags False (concat ss)"
proof -
  obtain cs q where q: "feed_all ss ThinkTagParser_init = (cs, q)" by fastforce
  have "settled q"
    by (rule feed_all_settled [OF settled_empty q]) (simp add: ThinkTagParser_init_def)
  then have "still_to_read q [] = (case fst (flush q) of None \<Rightarrow> [] | Some c \<Rightarrow> chunk_chars c)"
    using strip_settled by (simp add: flush_def)
  moreover have "strip_tags False (concat ss) = chars cs @ still_to_read q []"
    using feed_all_correct [OF q, of "[]"] by (simp add: ThinkTagParser_init_def)
  ultimately show ?thesis
    by (simp add: parse_stream_def q split: option.splits)
qed

end
