(* ===== verification/PyJson.thy ===== *)
theory PyJson
  imports Prelude
begin

text \<open>
  The part of Python's \<open>json\<close> module the source calls: \<open>json.dumps\<close> (with
  \<open>ensure_ascii\<close> and the separators as arguments) and \<open>json.loads\<close> (\<open>None\<close> for
  \<open>JSONDecodeError\<close>), over a datatype of JSON values.  Objects keep their key order, as
  dicts do.  A float is carried as the text of its literal (\<open>JReal\<close>): the normalisation
  that \<open>float.__repr__\<close> performs is not modelled.  The main result is that reading back a
  printed value gives that value.
\<close>

section \<open>Values\<close>

datatype json =
    JNull
  | JBool bool
  | JInt int
  | JReal pystr
  | JStr pystr
  | JArr "json list"
  | JObj "(pystr, json) dict"

text \<open>\<open>isinstance(v, dict)\<close>, \<open>isinstance(v, str)\<close> and so on; a bool is an int in Python.\<close>

fun is_dict :: "json \<Rightarrow> bool" where
  "is_dict (JObj _) = True"
| "is_dict _ = False"

fun is_str :: "json \<Rightarrow> bool" where
  "is_str (JStr _) = True"
| "is_str _ = False"

fun as_int :: "json \<Rightarrow> int option" where
  "as_int (JInt i) = Some i"
| "as_int (JBool b) = Some (if b then 1 else 0)"
| "as_int _ = None"

text \<open>\<open>v.get(k)\<close> on a dict; \<open>None\<close> for a missing key, as for the value \<open>None\<close>.\<close>

fun jget :: "pystr \<Rightarrow> json \<Rightarrow> json" where
  "jget k (JObj d) = (case dict_get d k of None \<Rightarrow> JNull | Some v \<Rightarrow> v)"
| "jget k _ = JNull"

fun jget_default :: "pystr \<Rightarrow> json \<Rightarrow> json \<Rightarrow> json" where
  "jget_default k dflt (JObj d) = (case dict_get d k of None \<Rightarrow> dflt | Some v \<Rightarrow> v)"
| "jget_default k dflt _ = dflt"

fun jset :: "pystr \<Rightarrow> json \<Rightarrow> json \<Rightarrow> json" where
  "jset k v (JObj d) = JObj (dict_set k v d)"
| "jset k v j = j"

fun jpop :: "pystr \<Rightarrow> json \<Rightarrow> json" where
  "jpop k (JObj d) = JObj (dict_pop k d)"
| "jpop k j = j"

text \<open>The characters of a string value.\<close>

definition text_of :: "json \<Rightarrow> pystr" where
  "text_of v = (case v of JStr s \<Rightarrow> s | _ \<Rightarrow> [])"

lemma strs_back [simp]: "map (text_of \<circ> JStr) xs = xs" "list_all is_str (map JStr xs)"
  by (induction xs) (auto simp: text_of_def)

text \<open>Python truth of a value.\<close>

fun truthy :: "json \<Rightarrow> bool" where
  "truthy JNull = False"
| "truthy (JBool b) = b"
| "truthy (JInt i) = (i \<noteq> 0)"
| "truthy (JReal s) = (\<exists>c \<in> set (takeWhile (\<lambda>c. c \<noteq> 101 \<and> c \<noteq> 69) s). c \<noteq> 48 \<and> c \<noteq> 46 \<and> c \<noteq> 45)"
| "truthy (JStr s) = (s \<noteq> [])"
| "truthy (JArr xs) = (xs \<noteq> [])"
| "truthy (JObj d) = (d \<noteq> [])"

lemma jget_jset [simp]: "jget k (jset k' v (JObj d)) = (if k = k' then v else jget k (JObj d))"
  by (simp add: dict_simps)

section \<open>Printing\<close>

definition hex_digit :: "nat \<Rightarrow> nat" where
  "hex_digit n = (if n < 10 then 48 + n else 87 + n)"

definition hex4 :: "nat \<Rightarrow> pystr" where
  "hex4 n = [hex_digit (n div 4096 mod 16), hex_digit (n div 256 mod 16),
             hex_digit (n div 16 mod 16), hex_digit (n mod 16)]"

definition u_escape :: "nat \<Rightarrow> pystr" where
  "u_escape n = 92 # 117 # hex4 n"

text \<open>One character of a string literal; \<open>ensure_ascii\<close> escapes everything above \<open>~\<close>.\<close>

definition escape_char :: "bool \<Rightarrow> nat \<Rightarrow> pystr" where
  "escape_char ascii c =
     (if c = 34 then [92, 34]
      else if c = 92 then [92, 92]
      else if c = 10 then [92, 110]
      else if c = 13 then [92, 114]
      else if c = 9 then [92, 116]
      else if c = 12 then [92, 102]
      else if c = 8 then [92, 98]
      else if 32 \<le> c \<and> (c < 127 \<or> \<not> ascii) then [c]
      else if c < 65536 then u_escape c
      else u_escape (55296 + (c - 65536) div 1024) @ u_escape (56320 + (c - 65536) mod 1024))"

definition json_string :: "bool \<Rightarrow> pystr \<Rightarrow> pystr" where
  "json_string ascii s = 34 # concat (map (escape_char ascii) s) @ [34]"

fun show_nat :: "nat \<Rightarrow> pystr" where
  "show_nat n = (if n < 10 then [48 + n] else show_nat (n div 10) @ [48 + n mod 10])"

declare show_nat.simps [simp del]

definition show_int :: "int \<Rightarrow> pystr" where
  "show_int i = (if i < 0 then 45 # show_nat (nat (- i)) else show_nat (nat i))"

fun json_encode :: "bool \<Rightarrow> pystr \<Rightarrow> pystr \<Rightarrow> json \<Rightarrow> pystr" where
  "json_encode a isep ksep JNull = u ''null''"
| "json_encode a isep ksep (JBool b) = (if b then u ''true'' else u ''false'')"
| "json_encode a isep ksep (JInt i) = show_int i"
| "json_encode a isep ksep (JReal s) = s"
| "json_encode a isep ksep (JStr s) = json_string a s"
| "json_encode a isep ksep (JArr xs) =
     91 # str_join isep (map (json_encode a isep ksep) xs) @ [93]"
| "json_encode a isep ksep (JObj d) =
     123 # str_join isep (map (\<lambda>(k, v). json_string a k @ ksep @ json_encode a isep ksep v) d) @ [125]"

text \<open>\<open>json.dumps(v)\<close>, \<open>json.dumps(v, ensure_ascii=False)\<close>, \<open>json.dumps(v, separators=(",", ":"))\<close>.\<close>

definition json_dumps :: "json \<Rightarrow> pystr" where
  "json_dumps = json_encode True [44, 32] [58, 32]"

definition json_dumps_unicode :: "json \<Rightarrow> pystr" where
  "json_dumps_unicode = json_encode False [44, 32] [58, 32]"

definition json_dumps_compact :: "json \<Rightarrow> pystr" where
  "json_dumps_compact = json_encode True [44] [58]"

section \<open>Reading\<close>

definition json_ws :: "nat \<Rightarrow> bool" where
  "json_ws c \<longleftrightarrow> c = 32 \<or> c = 9 \<or> c = 10 \<or> c = 13"

definition skip_ws :: "pystr \<Rightarrow> pystr" where
  "skip_ws s = dropWhile json_ws s"

definition hex_value :: "nat \<Rightarrow> nat option" where
  "hex_value c =
     (if 48 \<le> c \<and> c \<le> 57 then Some (c - 48)
      else if 97 \<le> c \<and> c \<le> 102 then Some (c - 87)
      else if 65 \<le> c \<and> c \<le> 70 then Some (c - 55)
      else None)"

definition read_hex4 :: "nat \<Rightarrow> nat \<Rightarrow> nat \<Rightarrow> nat \<Rightarrow> nat option" where
  "read_hex4 a b c d =
     (case (hex_value a, hex_value b, hex_value c, hex_value d) of
        (Some w, Some x, Some y, Some z) \<Rightarrow> Some (((w * 16 + x) * 16 + y) * 16 + z)
      | _ \<Rightarrow> None)"

text \<open>A low surrogate escape directly after a high one, as \<open>py_scanstring\<close> looks for it.\<close>

definition low_surrogate_escape :: "pystr \<Rightarrow> nat option" where
  "low_surrogate_escape s =
     (case s of
        b # v # d0 # d1 # d2 # d3 # _ \<Rightarrow>
          if b = 92 \<and> v = 117 then
            (case read_hex4 d0 d1 d2 d3 of
               Some n \<Rightarrow> if 56320 \<le> n \<and> n \<le> 57343 then Some n else None
             | None \<Rightarrow> None)
          else None
      | _ \<Rightarrow> None)"

definition simple_escape :: "nat \<Rightarrow> nat option" where
  "simple_escape e =
     (if e = 34 then Some 34 else if e = 92 then Some 92 else if e = 47 then Some 47
      else if e = 98 then Some 8 else if e = 102 then Some 12 else if e = 110 then Some 10
      else if e = 114 then Some 13 else if e = 116 then Some 9 else None)"

definition cons_fst :: "'a \<Rightarrow> ('a list \<times> 'b) option \<Rightarrow> ('a list \<times> 'b) option" where
  "cons_fst x r = map_option (\<lambda>(xs, b). (x # xs, b)) r"

text \<open>The rest of a string literal, after its opening quote.\<close>

function scan_string :: "pystr \<Rightarrow> (pystr \<times> pystr) option" where
  "scan_string [] = None"
| "scan_string (c # s) =
     (if c = 34 then Some ([], s)
      else if c = 92 then
        (case s of
           [] \<Rightarrow> None
         | e # s1 \<Rightarrow>
             if e = 117 then
               (case s1 of
                  d0 # d1 # d2 # d3 # s2 \<Rightarrow>
                    (case read_hex4 d0 d1 d2 d3 of
                       None \<Rightarrow> None
                     | Some n \<Rightarrow>
                         (case (if 55296 \<le> n \<and> n \<le> 56319 then low_surrogate_escape s2 else None) of
                            Some m \<Rightarrow>
                              cons_fst (65536 + (n - 55296) * 1024 + (m - 56320))
                                (scan_string (drop 6 s2))
                          | None \<Rightarrow> cons_fst n (scan_string s2)))
                | _ \<Rightarrow> None)
             else
               (case simple_escape e of
                  Some x \<Rightarrow> cons_fst x (scan_string s1)
                | None \<Rightarrow> None))
      else if c < 32 then None
      else cons_fst c (scan_string s))"
  by pat_completeness auto
termination
  by (relation "measure length") auto

declare scan_string.simps [simp del]

definition is_digit :: "nat \<Rightarrow> bool" where
  "is_digit c \<longleftrightarrow> 48 \<le> c \<and> c \<le> 57"

definition read_nat :: "pystr \<Rightarrow> nat" where
  "read_nat ds = foldl (\<lambda>n c. n * 10 + (c - 48)) 0 ds"

text \<open>The number literal: integer part, then an optional fraction and an optional exponent.\<close>

definition scan_frac :: "pystr \<Rightarrow> pystr" where
  "scan_frac s =
     (case s of
        c # r \<Rightarrow> if c = 46 \<and> takeWhile is_digit r \<noteq> [] then 46 # takeWhile is_digit r else []
      | [] \<Rightarrow> [])"

definition scan_exp :: "pystr \<Rightarrow> pystr" where
  "scan_exp s =
     (case s of
        c # r \<Rightarrow>
          if c = 101 \<or> c = 69 then
            (let sg = (if r \<noteq> [] \<and> (hd r = 43 \<or> hd r = 45) then [hd r] else []);
                 ds = takeWhile is_digit (drop (length sg) r)
             in if ds = [] then [] else c # sg @ ds)
          else []
      | [] \<Rightarrow> [])"

definition scan_int_digits :: "pystr \<Rightarrow> pystr" where
  "scan_int_digits s = (if s \<noteq> [] \<and> hd s = 48 then [48] else takeWhile is_digit s)"

definition scan_number :: "pystr \<Rightarrow> (json \<times> pystr) option" where
  "scan_number s =
     (let neg = (s \<noteq> [] \<and> hd s = 45);
          s1 = (if neg then tl s else s);
          ds = scan_int_digits s1;
          s2 = drop (length ds) s1;
          fr = scan_frac s2;
          s3 = drop (length fr) s2;
          ex = scan_exp s3;
          s4 = drop (length ex) s3
      in if ds = [] then None
         else if fr = [] \<and> ex = [] then
           Some (JInt (if neg then - int (read_nat ds) else int (read_nat ds)), s4)
         else Some (JReal ((if neg then [45] else []) @ ds @ fr @ ex), s4))"

text \<open>The words \<open>null\<close>, \<open>true\<close>, \<open>false\<close>, \<open>NaN\<close>, \<open>Infinity\<close>, \<open>-Infinity\<close>.\<close>

definition scan_word :: "pystr \<Rightarrow> (json \<times> pystr) option" where
  "scan_word s =
     (if prefix (u ''null'') s then Some (JNull, drop 4 s)
      else if prefix (u ''true'') s then Some (JBool True, drop 4 s)
      else if prefix (u ''false'') s then Some (JBool False, drop 5 s)
      else if prefix (u ''NaN'') s then Some (JReal (u ''NaN''), drop 3 s)
      else if prefix (u ''Infinity'') s then Some (JReal (u ''Infinity''), drop 8 s)
      else if prefix (u ''-Infinity'') s then Some (JReal (u ''-Infinity''), drop 9 s)
      else None)"

text \<open>Repeated keys: the last value wins, at the first position.\<close>

definition dict_of_pairs :: "('k \<times> 'v) list \<Rightarrow> ('k, 'v) dict" where
  "dict_of_pairs kvs = foldl (\<lambda>d (k, v). dict_set k v d) [] kvs"

text \<open>
  \<open>scan_value\<close> is \<open>scan_once\<close>; \<open>scan_items\<close> and \<open>scan_members\<close> are the loops over the
  elements of an array and of an object, after the bracket and its white space.  The
  first argument bounds the recursion: \<open>scan_fuel_enough\<close> shows that one more than
  twice the length of the text is always enough.
\<close>

fun scan_value :: "nat \<Rightarrow> pystr \<Rightarrow> (json \<times> pystr) option"
and scan_items :: "nat \<Rightarrow> pystr \<Rightarrow> (json list \<times> pystr) option"
and scan_members :: "nat \<Rightarrow> pystr \<Rightarrow> ((pystr \<times> json) list \<times> pystr) option" where
  "scan_value 0 s = None"
| "scan_value (Suc n) s =
     (case s of
        [] \<Rightarrow> None
      | c # r \<Rightarrow>
          if c = 34 then map_option (\<lambda>(x, t). (JStr x, t)) (scan_string r)
          else if c = 123 then
            (case skip_ws r of
               [] \<Rightarrow> None
             | c1 # r1 \<Rightarrow>
                 if c1 = 125 then Some (JObj [], r1)
                 else map_option (\<lambda>(kvs, t). (JObj (dict_of_pairs kvs), t)) (scan_members n (c1 # r1)))
          else if c = 91 then
            (case skip_ws r of
               [] \<Rightarrow> None
             | c1 # r1 \<Rightarrow>
                 if c1 = 93 then Some (JArr [], r1)
                 else map_option (\<lambda>(xs, t). (JArr xs, t)) (scan_items n (c1 # r1)))
          else (case scan_number s of Some x \<Rightarrow> Some x | None \<Rightarrow> scan_word s))"
| "scan_items 0 s = None"
| "scan_items (Suc n) s =
     (case scan_value n s of
        None \<Rightarrow> None
      | Some (x, r) \<Rightarrow>
          (case skip_ws r of
             [] \<Rightarrow> None
           | c # r1 \<Rightarrow>
               if c = 93 then Some ([x], r1)
               else if c = 44 then cons_fst x (scan_items n (skip_ws r1))
               else None))"
| "scan_members 0 s = None"
| "scan_members (Suc n) s =
     (case s of
        [] \<Rightarrow> None
      | q # s1 \<Rightarrow>
          if q \<noteq> 34 then None
          else (case scan_string s1 of
             None \<Rightarrow> None
           | Some (k, s2) \<Rightarrow>
               (case skip_ws s2 of
                  [] \<Rightarrow> None
                | c2 # s3 \<Rightarrow>
                    if c2 \<noteq> 58 then None
                    else (case scan_value n (skip_ws s3) of
                       None \<Rightarrow> None
                     | Some (v, s4) \<Rightarrow>
                         (case skip_ws s4 of
                            [] \<Rightarrow> None
                          | c4 # s5 \<Rightarrow>
                              if c4 = 125 then Some ([(k, v)], s5)
                              else if c4 = 44 then cons_fst (k, v) (scan_members n (skip_ws s5))
                              else None)))))"

definition json_loads :: "pystr \<Rightarrow> json option" where
  "json_loads s =
     (let t = skip_ws s in
      case scan_value (Suc (2 * length t)) t of
        Some (j, r) \<Rightarrow> if skip_ws r = [] then Some j else None
      | None \<Rightarrow> None)"

section \<open>Round trip\<close>

subsection \<open>Characters and strings\<close>

text \<open>A Unicode scalar value: a code point that is not a surrogate.\<close>

definition scalar_value :: "nat \<Rightarrow> bool" where
  "scalar_value c \<longleftrightarrow> c < 1114112 \<and> \<not> (55296 \<le> c \<and> c \<le> 57343)"

abbreviation scalar_str :: "pystr \<Rightarrow> bool" where
  "scalar_str s \<equiv> list_all scalar_value s"

lemma hex_value_digit: "k < 16 \<Longrightarrow> hex_value (hex_digit k) = Some k"
  by (auto simp: hex_value_def hex_digit_def)

lemma hex_sum:
  assumes "n < 65536"
  shows "((n div 4096 * 16 + n div 256 mod 16) * 16 + n div 16 mod 16) * 16 + n mod 16 = (n::nat)"
proof -
  define a where "a = n div 16"
  define b where "b = a div 16"
  define c where "c = b div 16"
  have eqs: "n div 256 = b" "n div 4096 = c"
    by (simp_all add: a_def b_def c_def flip: div_mult2_eq)
  have "n = a * 16 + n mod 16" "a = b * 16 + a mod 16" "b = c * 16 + b mod 16"
    by (simp_all add: a_def b_def c_def div_mult_mod_eq)
  then show ?thesis
    unfolding eqs a_def [symmetric] by simp
qed

lemma hex4_top: "n < 65536 \<Longrightarrow> n div 4096 mod 16 = (n div 4096 :: nat)"
  by (simp add: div_less_iff_less_mult)

lemma read_hex4_hex4:
  assumes "n < 65536"
  shows "read_hex4 (hex_digit (n div 4096)) (hex_digit (n div 256 mod 16))
           (hex_digit (n div 16 mod 16)) (hex_digit (n mod 16)) = Some n"
proof -
  have "n div 4096 < 16" using assms by (simp add: div_less_iff_less_mult)
  then have "read_hex4 (hex_digit (n div 4096)) (hex_digit (n div 256 mod 16))
           (hex_digit (n div 16 mod 16)) (hex_digit (n mod 16))
         = Some (((n div 4096 * 16 + n div 256 mod 16) * 16 + n div 16 mod 16) * 16 + n mod 16)"
    unfolding read_hex4_def by (simp add: hex_value_digit)
  then show ?thesis by (simp only: hex_sum [OF assms])
qed

lemma scan_plain: "c \<noteq> 34 \<Longrightarrow> c \<noteq> 92 \<Longrightarrow> 32 \<le> c \<Longrightarrow>
    scan_string (c # s) = cons_fst c (scan_string s)"
  by (simp add: scan_string.simps)

lemma scan_simple: "e \<noteq> 117 \<Longrightarrow> simple_escape e = Some x \<Longrightarrow>
    scan_string (92 # e # s) = cons_fst x (scan_string s)"
  by (simp add: scan_string.simps(2) [of 92])

lemma scan_u_escape:
  "n < 65536 \<Longrightarrow> \<not> (55296 \<le> n \<and> n \<le> 56319) \<Longrightarrow>
     scan_string (u_escape n @ s) = cons_fst n (scan_string s)"
  by (auto simp add: u_escape_def hex4_def scan_string.simps(2) [of 92] hex4_top read_hex4_hex4)

lemma low_surrogate_u_escape:
  "56320 \<le> m \<Longrightarrow> m \<le> 57343 \<Longrightarrow> low_surrogate_escape (u_escape m @ s) = Some m"
  by (simp add: low_surrogate_escape_def u_escape_def hex4_def hex4_top read_hex4_hex4)

lemma scan_surrogate_pair:
  assumes "55296 \<le> n" "n \<le> 56319" "56320 \<le> m" "m \<le> 57343"
  shows "scan_string (u_escape n @ u_escape m @ s) =
           cons_fst (65536 + (n - 55296) * 1024 + (m - 56320)) (scan_string s)"
proof -
  have len: "drop 6 (u_escape m @ s) = s"
    by (simp add: u_escape_def hex4_def)
  have "scan_string (u_escape n @ t) =
      (case low_surrogate_escape t of
         Some m' \<Rightarrow> cons_fst (65536 + (n - 55296) * 1024 + (m' - 56320)) (scan_string (drop 6 t))
       | None \<Rightarrow> cons_fst n (scan_string t))" for t
    using assms by (simp add: u_escape_def hex4_def scan_string.simps(2) [of 92] hex4_top read_hex4_hex4)
  then show ?thesis
    using assms low_surrogate_u_escape [of m s] by (simp del: drop_append add: len)
qed

lemma scan_escape_char:
  assumes "scalar_value c"
  shows "scan_string (escape_char a c @ s) = cons_fst c (scan_string s)"
proof (cases "c < 65536")
  case True
  with assms show ?thesis
    unfolding escape_char_def scalar_value_def
    by (auto simp: scan_simple scan_plain scan_u_escape simple_escape_def)
next
  case False
  define d where "d = c - 65536"
  from False have c: "c = 65536 + d" by (simp add: d_def)
  from assms have d: "d < 1048576" by (simp add: scalar_value_def c)
  then have hi: "d div 1024 < 1024" by (simp add: div_less_iff_less_mult)
  have "scan_string ((u_escape (55296 + d div 1024) @ u_escape (56320 + d mod 1024)) @ s) =
      cons_fst (65536 + (d div 1024) * 1024 + d mod 1024) (scan_string s)"
    using hi scan_surrogate_pair [of "55296 + d div 1024" "56320 + d mod 1024" s]
    by (simp add: less_Suc_eq_le [symmetric])
  then show ?thesis
    using False by (cases a) (simp_all add: escape_char_def c scan_plain add.commute)
qed

lemma scan_json_string:
  assumes "scalar_str s"
  shows "scan_string (concat (map (escape_char a) s) @ 34 # rest) = Some (s, rest)"
  using assms
proof (induction s)
  case Nil
  then show ?case by (simp add: scan_string.simps)
next
  case (Cons c s)
  then show ?case by (simp add: scan_escape_char cons_fst_def)
qed

subsection \<open>Numbers\<close>

text \<open>What may follow a number without being read as part of it.\<close>

definition number_end :: "pystr \<Rightarrow> bool" where
  "number_end r \<longleftrightarrow> (case r of [] \<Rightarrow> True | c # _ \<Rightarrow> \<not> is_digit c \<and> c \<noteq> 46 \<and> c \<noteq> 101 \<and> c \<noteq> 69)"

lemma show_nat_digits: "\<forall>c \<in> set (show_nat n). is_digit c"
  by (induction n rule: show_nat.induct) (subst show_nat.simps, auto simp: is_digit_def)

lemma show_nat_nonempty: "show_nat n \<noteq> []"
  by (subst show_nat.simps) simp

lemma read_nat_snoc: "read_nat (ds @ [48 + d]) = read_nat ds * 10 + d"
  by (simp add: read_nat_def)

lemma read_show_nat: "read_nat (show_nat n) = n"
proof (induction n rule: show_nat.induct)
  case (1 n)
  show ?case
    by (subst show_nat.simps) (use 1 in \<open>auto simp: read_nat_snoc read_nat_def\<close>)
qed

lemma hd_show_nat: "hd (show_nat n) = 48 \<longleftrightarrow> n = 0"
proof (induction n rule: show_nat.induct)
  case (1 n)
  show ?case
    by (subst show_nat.simps) (use 1 in \<open>auto simp: show_nat_nonempty\<close>)
qed

lemma show_nat_0: "show_nat 0 = [48]"
  by (simp add: show_nat.simps)

lemma takeWhile_show_nat: "number_end r \<Longrightarrow> takeWhile is_digit (show_nat n @ r) = show_nat n"
  using show_nat_digits [of n]
  by (auto simp: number_end_def takeWhile_append split: list.splits)

lemma scan_tail_none: "number_end r \<Longrightarrow> scan_frac r = [] \<and> scan_exp r = []"
  by (auto simp: number_end_def scan_frac_def scan_exp_def split: list.splits)

lemma int_part: "number_end r \<Longrightarrow> scan_int_digits (show_nat n @ r) = show_nat n"
  using hd_show_nat [of n] show_nat_nonempty [of n]
  by (auto simp: scan_int_digits_def takeWhile_show_nat show_nat_0 hd_append)

lemma hd_show_nat_not_minus: "hd (show_nat n) \<noteq> 45"
  using show_nat_digits [of n] show_nat_nonempty [of n] by (cases "show_nat n") (auto simp: is_digit_def)

lemma scan_show_int:
  assumes "number_end r"
  shows "scan_number (show_int i @ r) = Some (JInt i, r)"
proof (cases "i < 0")
  case True
  then show ?thesis
    using int_part [OF assms, of "nat (- i)"] scan_tail_none [OF assms] show_nat_nonempty [of "nat (- i)"]
    by (simp add: scan_number_def show_int_def Let_def read_show_nat)
next
  case False
  then show ?thesis
    using int_part [OF assms, of "nat i"] scan_tail_none [OF assms] show_nat_nonempty [of "nat i"]
      hd_show_nat_not_minus [of "nat i"]
    by (simp add: scan_number_def show_int_def Let_def read_show_nat hd_append)
qed

subsection \<open>Values\<close>

text \<open>Values whose text determines them: no floats, no surrogates, no repeated keys.\<close>

fun json_ok :: "json \<Rightarrow> bool" where
  "json_ok (JReal _) = False"
| "json_ok (JStr s) = scalar_str s"
| "json_ok (JArr xs) = (\<forall>x \<in> set xs. json_ok x)"
| "json_ok (JObj d) = (dict_wf d \<and> (\<forall>kv \<in> set d. scalar_str (fst kv) \<and> json_ok (snd kv)))"
| "json_ok _ = True"

definition head_ok :: "pystr \<Rightarrow> bool" where
  "head_ok s \<longleftrightarrow> (case s of [] \<Rightarrow> False | c # _ \<Rightarrow> \<not> json_ws c \<and> c \<noteq> 93 \<and> c \<noteq> 125)"

lemma head_ok_append: "head_ok s \<Longrightarrow> head_ok (s @ t)"
  by (auto simp: head_ok_def split: list.splits)

lemma head_ok_skip: "head_ok s \<Longrightarrow> skip_ws s = s"
  by (auto simp: head_ok_def skip_ws_def split: list.splits)

lemma head_ok_json_string: "head_ok (json_string a s)"
  by (simp add: head_ok_def json_string_def json_ws_def)

lemma show_int_head: "\<exists>c t. show_int i = c # t \<and> (c = 45 \<or> is_digit c)"
proof (cases "i < 0")
  case False
  then show ?thesis
    using show_nat_digits [of "nat i"] show_nat_nonempty [of "nat i"]
    by (cases "show_nat (nat i)") (auto simp: show_int_def)
qed (simp add: show_int_def)

lemma head_ok_encode: "json_ok j \<Longrightarrow> head_ok (json_encode a isep ksep j)"
proof (cases j)
  case (JInt i)
  then show ?thesis
    using show_int_head [of i] by (auto simp: head_ok_def json_ws_def is_digit_def)
qed (auto simp: head_ok_def json_ws_def json_string_def str_eval)

lemma encode_nonempty: "json_ok j \<Longrightarrow> 0 < length (json_encode a isep ksep j)"
  using head_ok_encode [of j a isep ksep] by (auto simp: head_ok_def split: list.splits)

lemma dict_of_pairs_wf: "dict_wf d \<Longrightarrow> dict_of_pairs d = d"
proof -
  have upd: "k \<notin> set (map fst acc) \<Longrightarrow> dict_set k v acc = acc @ [(k, v)]" for k v and acc :: "('k, 'v) dict"
    by (induction acc) auto
  have "distinct (map fst (acc @ kvs)) \<Longrightarrow>
      foldl (\<lambda>d (k, v). dict_set k v d) acc kvs = acc @ kvs" for acc kvs :: "('k, 'v) dict"
  proof (induction kvs arbitrary: acc)
    case (Cons kv kvs)
    moreover obtain k v where kv: "kv = (k, v)" by fastforce
    ultimately have "k \<notin> set (map fst acc)" by auto
    then have "dict_set k v acc = acc @ [(k, v)]" by (rule upd)
    then show ?case using Cons.IH [of "acc @ [(k, v)]"] Cons.prems by (simp add: kv)
  qed simp
  from this [of "[]" d] show "dict_wf d \<Longrightarrow> dict_of_pairs d = d"
    by (simp add: dict_of_pairs_def)
qed

lemma number_end_sep [simp]:
  "number_end (44 # r)" "number_end (93 # r)" "number_end (125 # r)" "number_end []"
  by (simp_all add: number_end_def is_digit_def)

lemma skip_ws_sep [simp]:
  "skip_ws (44 # r) = 44 # r" "skip_ws (93 # r) = 93 # r" "skip_ws (125 # r) = 125 # r"
  "skip_ws (58 # r) = 58 # r"
  by (simp_all add: skip_ws_def json_ws_def)

lemma skip_ws_append: "list_all json_ws w \<Longrightarrow> skip_ws (w @ s) = skip_ws s"
  by (induction w) (auto simp: skip_ws_def)

definition reads_back :: "(json \<Rightarrow> pystr) \<Rightarrow> json \<Rightarrow> bool" where
  "reads_back enc j \<longleftrightarrow>
     (\<forall>n rest. length (enc j) \<le> n \<longrightarrow> number_end rest \<longrightarrow>
        scan_value n (enc j @ rest) = Some (j, rest))"

lemma reads_backD:
  "reads_back enc j \<Longrightarrow> length (enc j) \<le> n \<Longrightarrow> number_end rest \<Longrightarrow>
     scan_value n (enc j @ rest) = Some (j, rest)"
  by (simp add: reads_back_def)

lemma scan_items_encode:
  assumes "list_all json_ws w"
    and "xs \<noteq> []" "\<forall>x \<in> set xs. reads_back enc x \<and> head_ok (enc x)"
    and "Suc (length (str_join (44 # w) (map enc xs))) \<le> n"
  shows "scan_items n (str_join (44 # w) (map enc xs) @ 93 # rest) = Some (xs, rest)"
  using assms(2-)
proof (induction xs arbitrary: n rule: induct_list012)
  case (2 x)
  then show ?case
    by (cases n) (auto simp: reads_backD)
next
  case (3 x y ys)
  then obtain m where n: "n = Suc m" by (cases n) auto
  let ?tl = "str_join (44 # w) (map enc (y # ys)) @ 93 # rest"
  have "head_ok ?tl"
    using 3 by (cases ys) (auto intro: head_ok_append)
  then have "skip_ws (w @ ?tl) = ?tl"
    by (simp only: skip_ws_append [OF assms(1)] head_ok_skip)
  moreover have "scan_items m ?tl = Some (y # ys, rest)"
    using 3 by (intro "3.IH") (auto simp: n)
  moreover have "scan_value m (enc x @ 44 # w @ ?tl) = Some (x, 44 # w @ ?tl)"
    using 3 by (intro reads_backD) (auto simp: n)
  ultimately show ?case by (simp add: n cons_fst_def)
qed simp

lemma scan_members_encode:
  fixes a :: bool
  defines "mem enc wk \<equiv> (\<lambda>(k, v). json_string a k @ (58 # wk) @ enc v)"
  assumes "list_all json_ws w" "list_all json_ws wk"
    and "d \<noteq> []" "\<forall>kv \<in> set d. scalar_str (fst kv) \<and> reads_back enc (snd kv) \<and> head_ok (enc (snd kv))"
    and "Suc (length (str_join (44 # w) (map (mem enc wk) d))) \<le> n"
  shows "scan_members n (str_join (44 # w) (map (mem enc wk) d) @ 125 # rest) = Some (d, rest)"
  using assms(4-)
proof (induction d arbitrary: n rule: induct_list012)
  case (2 kv)
  obtain k v where kv: "kv = (k, v)" by fastforce
  from 2 obtain m where n: "n = Suc m" by (cases n) auto
  have str: "scan_string (concat (map (escape_char a) k) @ 34 # t) = Some (k, t)" for t
    using 2 by (intro scan_json_string) (simp add: kv)
  have "skip_ws (wk @ enc v @ 125 # rest) = enc v @ 125 # rest"
    using 2 by (simp add: kv skip_ws_append [OF assms(3)] head_ok_skip head_ok_append)
  moreover have "scan_value m (enc v @ 125 # rest) = Some (v, 125 # rest)"
    using 2 by (intro reads_backD) (auto simp: n kv mem_def)
  ultimately show ?case
    by (simp add: n kv mem_def json_string_def str)
next
  case (3 kv kv' d)
  obtain k v where kv: "kv = (k, v)" by fastforce
  from 3 obtain m where n: "n = Suc m" by (cases n) auto
  let ?tl = "str_join (44 # w) (map (mem enc wk) (kv' # d)) @ 125 # rest"
  have str: "scan_string (concat (map (escape_char a) k) @ 34 # t) = Some (k, t)" for t
    using 3 by (intro scan_json_string) (simp add: kv)
  have "skip_ws (wk @ enc v @ 44 # w @ ?tl) = enc v @ 44 # w @ ?tl"
    using 3 by (simp add: kv skip_ws_append [OF assms(3)] head_ok_skip head_ok_append)
  moreover have "scan_value m (enc v @ 44 # w @ ?tl) = Some (v, 44 # w @ ?tl)"
    using 3 by (intro reads_backD) (auto simp: n kv mem_def)
  moreover have "head_ok ?tl"
    by (cases d) (auto simp: mem_def head_ok_append head_ok_json_string split: prod.splits)
  then have "skip_ws (w @ ?tl) = ?tl"
    by (simp only: skip_ws_append [OF assms(2)] head_ok_skip)
  moreover have "scan_members m ?tl = Some (kv' # d, rest)"
    using 3 by (intro "3.IH") (auto simp: n)
  ultimately show ?case
    by (simp add: n kv json_string_def str cons_fst_def mem_def)
qed simp


lemma scan_value_encode:
  assumes "list_all json_ws w" "list_all json_ws wk"
  shows "json_ok j \<Longrightarrow> reads_back (json_encode a (44 # w) (58 # wk)) j"
proof (induction j)
  case (JInt i)
  show ?case
    unfolding reads_back_def
  proof (intro allI impI)
    fix n and rest :: pystr
    assume n: "length (json_encode a (44 # w) (58 # wk) (JInt i)) \<le> n" and r: "number_end rest"
    obtain c t where c: "show_int i = c # t" "c = 45 \<or> is_digit c"
      using show_int_head by blast
    with n obtain m where "n = Suc m" by (cases n) auto
    then show "scan_value n (json_encode a (44 # w) (58 # wk) (JInt i) @ rest) = Some (JInt i, rest)"
      using c scan_show_int [OF r, of i] by (auto simp: is_digit_def)
  qed
next
  case (JStr s)
  show ?case
    unfolding reads_back_def
  proof (intro allI impI)
    fix n and rest :: pystr
    assume "length (json_encode a (44 # w) (58 # wk) (JStr s)) \<le> n"
    then obtain m where "n = Suc m" by (cases n) (auto simp: json_string_def)
    then show "scan_value n (json_encode a (44 # w) (58 # wk) (JStr s) @ rest) = Some (JStr s, rest)"
      using JStr by (simp add: json_string_def scan_json_string)
  qed
next
  case (JArr xs)
  show ?case
    unfolding reads_back_def
  proof (intro allI impI)
    fix n and rest :: pystr
    let ?e = "json_encode a (44 # w) (58 # wk)"
    assume n: "length (?e (JArr xs)) \<le> n" and r: "number_end rest"
    then obtain m where m: "n = Suc m" by (cases n) auto
    show "scan_value n (?e (JArr xs) @ rest) = Some (JArr xs, rest)"
    proof (cases "xs = []")
      case True
      then show ?thesis by (simp add: m)
    next
      case False
      have ok: "\<forall>x \<in> set xs. reads_back ?e x \<and> head_ok (?e x)"
        using JArr by (auto intro: head_ok_encode)
      have items: "scan_items m (str_join (44 # w) (map ?e xs) @ 93 # rest) = Some (xs, rest)"
        by (rule scan_items_encode [OF assms(1) False ok]) (use n in \<open>simp add: m\<close>)
      have "head_ok (str_join (44 # w) (map ?e xs) @ 93 # rest)"
        using False ok by (cases xs rule: list.exhaust, simp, cases "tl xs") (auto intro: head_ok_append)
      then obtain c t where "str_join (44 # w) (map ?e xs) @ 93 # rest = c # t" "c \<noteq> 93"
          "skip_ws (c # t) = c # t"
        using head_ok_skip by (fastforce simp: head_ok_def split: list.splits)
      with items show ?thesis by (simp add: m)
    qed
  qed
next
  case (JObj d)
  show ?case
    unfolding reads_back_def
  proof (intro allI impI)
    fix n and rest :: pystr
    let ?e = "json_encode a (44 # w) (58 # wk)"
    let ?m = "\<lambda>(k, v). json_string a k @ (58 # wk) @ ?e v"
    assume n: "length (?e (JObj d)) \<le> n" and r: "number_end rest"
    then obtain m where m: "n = Suc m" by (cases n) auto
    show "scan_value n (?e (JObj d) @ rest) = Some (JObj d, rest)"
    proof (cases "d = []")
      case True
      then show ?thesis by (simp add: m)
    next
      case False
      have ok: "\<forall>kv \<in> set d. scalar_str (fst kv) \<and> reads_back ?e (snd kv) \<and> head_ok (?e (snd kv))"
        using JObj by (fastforce intro: head_ok_encode)
      have mems: "scan_members m (str_join (44 # w) (map ?m d) @ 125 # rest) = Some (d, rest)"
        by (rule scan_members_encode [OF assms False ok]) (use n in \<open>simp add: m\<close>)
      obtain t where "str_join (44 # w) (map ?m d) @ 125 # rest = 34 # t"
        using False by (cases d rule: list.exhaust, simp, cases "tl d") (auto simp: json_string_def)
      moreover have "skip_ws (34 # t) = 34 # t" for t by (simp add: skip_ws_def json_ws_def)
      ultimately show ?thesis
        using mems JObj.prems by (simp add: m dict_of_pairs_wf)
    qed
  qed
qed (auto simp: reads_back_def str_eval scan_number_def scan_int_digits_def is_digit_def scan_word_def
       Let_def dest!: Suc_le_D)

lemma encode_loads:
  assumes "list_all json_ws w" "list_all json_ws wk" "json_ok j"
  shows "json_loads (json_encode a (44 # w) (58 # wk) j) = Some j"
proof -
  let ?t = "json_encode a (44 # w) (58 # wk) j"
  have "skip_ws ?t = ?t"
    using assms by (intro head_ok_skip head_ok_encode)
  moreover have "scan_value (Suc (2 * length ?t)) (?t @ []) = Some (j, [])"
    using scan_value_encode [OF assms(1,2,3), of a] by (rule reads_backD) simp_all
  ultimately show ?thesis
    by (simp add: json_loads_def Let_def skip_ws_def del: scan_value.simps)
qed

lemma dumps_loads: "json_ok j \<Longrightarrow> json_loads (json_dumps j) = Some j"
  unfolding json_dumps_def by (rule encode_loads) (simp_all add: json_ws_def)


section \<open>The reader consumes text, and its fuel is enough\<close>

lemma scan_string_shorter: "scan_string s = Some (x, r) \<Longrightarrow> length r < length s"
proof (induction s arbitrary: x r rule: length_induct)
  case (1 s)
  then have IH: "scan_string t = Some (x, r) \<Longrightarrow> length t < length s \<Longrightarrow> length r < length t" for t x r
    by blast
  have drop6: "length r < length t - 6 \<Longrightarrow> length r < length t" for t :: pystr by simp
  show ?case
  proof (cases s)
    case Nil
    with 1 show ?thesis by (simp add: scan_string.simps)
  next
    case (Cons c s')
    with "1.prems" show ?thesis
      by (auto simp: scan_string.simps(2) cons_fst_def split: if_splits list.splits option.splits
          dest!: IH drop6)
  qed
qed

lemma skip_ws_length: "length (skip_ws s) \<le> length s"
  by (simp add: skip_ws_def length_dropWhile_le)

lemma skip_ws_Cons_length: "skip_ws s = c # r \<Longrightarrow> length r < length s"
  using skip_ws_length [of s] by simp

lemma skip_ws_less: "length r < length (skip_ws t) \<Longrightarrow> length r < length t"
  using skip_ws_length [of t] by simp

lemma scan_int_digits_Nil: "scan_int_digits [] = []"
  by (simp add: scan_int_digits_def)

lemma scan_number_shorter: "scan_number s = Some (j, r) \<Longrightarrow> length r < length s"
proof -
  assume *: "scan_number s = Some (j, r)"
  define s1 where "s1 = (if s \<noteq> [] \<and> hd s = 45 then tl s else s)"
  have "length r \<le> length s1 - length (scan_int_digits s1)" and "scan_int_digits s1 \<noteq> []"
    using * unfolding scan_number_def Let_def s1_def [symmetric] by (auto split: if_splits)
  moreover from this have "s1 \<noteq> []" by (auto simp: scan_int_digits_Nil)
  ultimately have "length r < length s1"
    by (cases s1; cases "scan_int_digits s1") auto
  moreover have "length s1 \<le> length s" by (simp add: s1_def)
  ultimately show ?thesis by simp
qed

lemma scan_word_shorter: "scan_word s = Some (j, r) \<Longrightarrow> length r < length s"
  by (auto simp: scan_word_def str_eval prefix_def split: if_splits)

lemma scan_shorter_all:
  "(\<forall>s j r. scan_value n s = Some (j, r) \<longrightarrow> length r < length s) \<and>
   (\<forall>s js r. scan_items n s = Some (js, r) \<longrightarrow> length r < length s) \<and>
   (\<forall>s ms r. scan_members n s = Some (ms, r) \<longrightarrow> length r < length s)"
proof (induction n)
  case (Suc n)
  then have IH: "scan_value n s = Some (j, r) \<Longrightarrow> length r < length s"
      "scan_items n s = Some (js, r) \<Longrightarrow> length r < length s"
      "scan_members n s = Some (ms, r) \<Longrightarrow> length r < length s" for s j js ms r
    by blast+
  have "scan_value (Suc n) s = Some (j, r) \<Longrightarrow> length r < length s" for s j r
    using scan_number_shorter [of s j r] scan_word_shorter [of s j r]
    by (auto split: list.splits if_splits option.splits
        dest!: IH scan_string_shorter skip_ws_Cons_length)
  moreover have "scan_items (Suc n) s = Some (js, r) \<Longrightarrow> length r < length s" for s js r
    by (auto simp: cons_fst_def split: list.splits if_splits option.splits
        dest!: IH skip_ws_Cons_length skip_ws_less)
  moreover have "scan_members (Suc n) s = Some (ms, r) \<Longrightarrow> length r < length s" for s ms r
    by (auto simp: cons_fst_def split: list.splits if_splits option.splits
        dest!: IH scan_string_shorter skip_ws_Cons_length skip_ws_less)
  ultimately show ?case by blast
qed simp

lemma scan_shorter:
  "scan_value n s = Some (j, r) \<Longrightarrow> length r < length s"
  "scan_items n s = Some (js, r) \<Longrightarrow> length r < length s"
  "scan_members n s = Some (ms, r) \<Longrightarrow> length r < length s"
  using scan_shorter_all [of n] by blast+

text \<open>Raising the fuel past that bound changes nothing.\<close>

lemma scan_fuel_step:
  "(\<forall>s. 2 * length s < n \<longrightarrow> scan_value (Suc n) s = scan_value n s) \<and>
   (\<forall>s. Suc (2 * length s) < n \<longrightarrow> scan_items (Suc n) s = scan_items n s) \<and>
   (\<forall>s. 2 * length s < n \<longrightarrow> scan_members (Suc n) s = scan_members n s)"
proof (induction n)
  case (Suc n)
  then have IH: "2 * length s < n \<Longrightarrow> scan_value (Suc n) s = scan_value n s"
      "Suc (2 * length s) < n \<Longrightarrow> scan_items (Suc n) s = scan_items n s"
      "2 * length s < n \<Longrightarrow> scan_members (Suc n) s = scan_members n s" for s
    by blast+
  have len: "length t < length s \<Longrightarrow> 2 * length s < Suc n \<Longrightarrow> 2 * length t < n" for s t :: pystr
    by simp
  have "scan_value (Suc (Suc n)) s = scan_value (Suc n) s" if *: "2 * length s < Suc n" for s
  proof (cases s)
    case (Cons c r)
    have "skip_ws r = c1 # r1 \<Longrightarrow> Suc (2 * length (c1 # r1)) < n" for c1 r1
      using * skip_ws_length [of r] by (simp add: Cons)
    then show ?thesis
      by (auto simp: Cons IH simp del: scan_items.simps scan_members.simps split: list.split)
  qed simp
  moreover have "scan_items (Suc (Suc n)) s = scan_items (Suc n) s" if *: "Suc (2 * length s) < Suc n" for s
  proof -
    have "scan_value (Suc n) s = scan_value n s" using * by (intro IH) simp
    moreover have "scan_items (Suc n) (skip_ws r1) = scan_items n (skip_ws r1)"
      if "scan_value n s = Some (x, r)" "skip_ws r = c # r1" for x r c r1
      using scan_shorter(1) [OF that(1)] skip_ws_Cons_length [OF that(2)] skip_ws_length [of r1] *
      by (intro IH) simp
    ultimately show ?thesis
      by (auto split: option.split list.split simp del: scan_value.simps)
  qed
  moreover have "scan_members (Suc (Suc n)) s = scan_members (Suc n) s" if *: "2 * length s < Suc n" for s
  proof -
    have 1: "scan_value (Suc n) (skip_ws s3) = scan_value n (skip_ws s3)"
      if "s = q # s1" "scan_string s1 = Some (k, s2)" "skip_ws s2 = c2 # s3" for q s1 k s2 c2 s3
      using scan_string_shorter [OF that(2)] skip_ws_Cons_length [OF that(3)] skip_ws_length [of s3] * that(1)
      by (intro IH) simp
    have 2: "scan_members (Suc n) (skip_ws s5) = scan_members n (skip_ws s5)"
      if "s = q # s1" "scan_string s1 = Some (k, s2)" "skip_ws s2 = c2 # s3"
        "scan_value n (skip_ws s3) = Some (v, s4)" "skip_ws s4 = c4 # s5" for q s1 k s2 c2 s3 v s4 c4 s5
      using scan_string_shorter [OF that(2)] skip_ws_Cons_length [OF that(3)] skip_ws_length [of s3]
        scan_shorter(1) [OF that(4)] skip_ws_Cons_length [OF that(5)] skip_ws_length [of s5] * that(1)
      by (intro IH) simp
    show ?thesis
      using 1 2 by (auto split: option.split list.split simp del: scan_value.simps)
  qed
  ultimately show ?case by blast
qed simp

lemma scan_fuel_enough:
  assumes "2 * length s < n"
  shows "scan_value n s = scan_value (Suc (2 * length s)) s"
proof -
  have "scan_value (Suc (2 * length s) + k) s = scan_value (Suc (2 * length s)) s" for k
  proof (induction k)
    case (Suc k)
    then show ?case using scan_fuel_step [of "Suc (2 * length s) + k"] by simp
  qed simp
  from this [of "n - Suc (2 * length s)"] show ?thesis using assms by simp
qed

section \<open>The default output is printable ASCII\<close>

lemma ascii_printable_numeral [simp]:
  "ascii_printable (numeral k) \<longleftrightarrow> 32 \<le> (numeral k :: nat) \<and> numeral k < (127 :: nat)"
  by (simp add: ascii_printable_def)

lemma printable_hex_digit: "k < 16 \<Longrightarrow> ascii_printable (hex_digit k)"
  by (simp add: ascii_printable_def hex_digit_def)

lemma printable_u_escape: "list_all ascii_printable (u_escape n)"
  by (simp add: u_escape_def hex4_def printable_hex_digit)

lemma printable_escape: "list_all ascii_printable (escape_char True c)"
  unfolding escape_char_def
  by (simp add: printable_u_escape ascii_printable_def [of c])

lemma printable_string: "list_all ascii_printable (json_string True s)"
  using printable_escape by (auto simp: json_string_def list_all_iff)

lemma printable_show_int: "list_all ascii_printable (show_int i)"
  using show_nat_digits [of "nat i"] show_nat_digits [of "nat (- i)"]
  by (force simp: show_int_def list_all_iff is_digit_def ascii_printable_def)

lemma printable_join:
  "list_all ascii_printable sep \<Longrightarrow> \<forall>x \<in> set xs. list_all ascii_printable x \<Longrightarrow>
     list_all ascii_printable (str_join sep xs)"
  by (induction sep xs rule: str_join.induct) auto

lemma printable_encode:
  "list_all ascii_printable isep \<Longrightarrow> list_all ascii_printable ksep \<Longrightarrow> json_ok j \<Longrightarrow>
     list_all ascii_printable (json_encode True isep ksep j)"
proof (induction j)
  case (JArr xs)
  then have "list_all ascii_printable (str_join isep (map (json_encode True isep ksep) xs))"
    by (intro printable_join) auto
  then show ?case by simp
next
  case (JObj d)
  then have "list_all ascii_printable
      (str_join isep (map (\<lambda>(k, v). json_string True k @ ksep @ json_encode True isep ksep v) d))"
    by (intro printable_join) (fastforce simp: printable_string)+
  then show ?case by simp
qed (auto simp: printable_string printable_show_int str_eval)

lemma printable_dumps: "json_ok j \<Longrightarrow> list_all ascii_printable (json_dumps j)"
  unfolding json_dumps_def by (rule printable_encode) simp_all

end
