(* ===== verification/StreamContract.thy ===== *)
theory StreamContract
  imports PyJson
begin

text \<open>
  The shape an Anthropic event stream must have
  (\<open>core/anthropic/stream_contracts.py\<close>): the line parser that reads a wire text back into
  events, and \<open>assert_anthropic_stream_contract\<close>, whose every assertion is an error value.
  The contract is the specification the emitting components are proved against.
\<close>

section \<open>Events\<close>

record sse_event =
  ev_name :: pystr
  ev_data :: json
  ev_raw :: pystr

text \<open>\<open>_append_event\<close>: nothing for an empty record, the raw text when the data is no JSON.\<close>

definition event_data :: "pystr \<Rightarrow> json" where
  "event_data data_text =
     (if data_text = [] then JObj []
      else case json_loads data_text of
             None \<Rightarrow> JObj [(u ''raw'', JStr data_text)]
           | Some parsed \<Rightarrow> if is_dict parsed then parsed else JObj [(u ''value'', parsed)])"

definition append_event :: "pystr \<Rightarrow> pystr list \<Rightarrow> pystr list \<Rightarrow> sse_event list" where
  "append_event current_event data_parts raw_parts =
     (if current_event = [] \<and> data_parts = [] then []
      else [\<lparr>ev_name = current_event, ev_data = event_data (str_join [10] data_parts),
             ev_raw = str_join [10] raw_parts\<rparr>])"

definition after_colon :: "pystr \<Rightarrow> pystr" where
  "after_colon s = str_strip (tl (dropWhile (\<lambda>c. c \<noteq> 58) s))"

fun parse_sse_lines_loop ::
  "pystr \<Rightarrow> pystr list \<Rightarrow> pystr list \<Rightarrow> pystr list \<Rightarrow> sse_event list" where
  "parse_sse_lines_loop cur parts raw [] = append_event cur parts raw"
| "parse_sse_lines_loop cur parts raw (line # ls) =
     (let stripped = rstrip_crlf line in
      if stripped = [] then append_event cur parts raw @ parse_sse_lines_loop [] [] [] ls
      else if str_startswith stripped (u ''event:'') then
        parse_sse_lines_loop (after_colon stripped) parts (raw @ [stripped]) ls
      else if str_startswith stripped (u ''data:'') then
        parse_sse_lines_loop cur (parts @ [after_colon stripped]) (raw @ [stripped]) ls
      else parse_sse_lines_loop cur parts (raw @ [stripped]) ls)"

definition parse_sse_lines :: "pystr list \<Rightarrow> sse_event list" where
  "parse_sse_lines ls = parse_sse_lines_loop [] [] [] ls"

definition parse_sse_text :: "pystr \<Rightarrow> sse_event list" where
  "parse_sse_text t = parse_sse_lines (str_splitlines t)"

section \<open>The contract\<close>

text \<open>
  \<open>str(v)\<close> as the contract uses it: compared with plain words and tested for being blank.
  The \<open>repr\<close> of a list or a dict is neither such a word nor blank, and is \<open>None\<close> here.
\<close>

fun text_of :: "json \<Rightarrow> pystr option" where
  "text_of (JStr s) = Some s"
| "text_of JNull = Some (u ''None'')"
| "text_of (JBool b) = Some (if b then u ''True'' else u ''False'')"
| "text_of (JInt i) = Some (show_int i)"
| "text_of (JReal s) = Some s"
| "text_of (JArr _) = None"
| "text_of (JObj _) = None"

definition SERVER_TOOL_USE :: pystr where "SERVER_TOOL_USE = u ''server_tool_use''"

definition WEB_SEARCH_TOOL_RESULT :: pystr where
  "WEB_SEARCH_TOOL_RESULT = u ''web_search_tool_result''"

definition WEB_FETCH_TOOL_RESULT :: pystr where
  "WEB_FETCH_TOOL_RESULT = u ''web_fetch_tool_result''"

definition NO_DELTA_BLOCK_KINDS :: "pystr list" where
  "NO_DELTA_BLOCK_KINDS =
     [SERVER_TOOL_USE, WEB_SEARCH_TOOL_RESULT, WEB_FETCH_TOOL_RESULT, u ''text_eager'', u ''redacted_thinking'']"

definition ALLOWED_BLOCK_START_TYPES :: "pystr list" where
  "ALLOWED_BLOCK_START_TYPES =
     [u ''text'', u ''thinking'', u ''tool_use'', u ''redacted_thinking'',
      SERVER_TOOL_USE, WEB_SEARCH_TOOL_RESULT, WEB_FETCH_TOOL_RESULT]"

text \<open>One constructor per assertion of the source, and the \<open>KeyError\<close> of its table lookup.\<close>

datatype contract_error =
    NoEvents | NoMessageStart | LastNotMessageStop | UnexpectedError
  | IndexNotInt | BlockNotDict | BlockTypeNotAllowed | StartedTwice | ReusedAfterStop
  | DeltaForUnopened | DeltaForStartStopBlock | DeltaNotDict | WrongDeltaType | NoDeltaRule
  | StopForUnopened | UnclosedBlocks | NoBlocks

record contract_state =
  open_blocks :: "(int, pystr) dict"
  seen_blocks :: "int set"

definition event_index :: "json \<Rightarrow> contract_error + int" where
  "event_index data =
     (case as_int (jget (u ''index'') data) of None \<Rightarrow> Inl IndexNotInt | Some i \<Rightarrow> Inr i)"

definition block_storage :: "pystr \<Rightarrow> json \<Rightarrow> pystr" where
  "block_storage block_type block =
     (if block_type = u ''text'' \<and>
         (case text_of (jget_default (u ''text'') (JStr []) block) of
            None \<Rightarrow> True | Some t \<Rightarrow> str_strip t \<noteq> [])
      then u ''text_eager'' else block_type)"

definition contract_start :: "json \<Rightarrow> contract_state \<Rightarrow> contract_error + contract_state" where
  "contract_start data st =
     (case event_index data of
        Inl e \<Rightarrow> Inl e
      | Inr index \<Rightarrow>
          let block = jget_default (u ''content_block'') (JObj []) data in
          if \<not> is_dict block then Inl BlockNotDict
          else case text_of (jget_default (u ''type'') (JStr []) block) of
                 None \<Rightarrow> Inl BlockTypeNotAllowed
               | Some block_type \<Rightarrow>
                   if block_type \<notin> set ALLOWED_BLOCK_START_TYPES then Inl BlockTypeNotAllowed
                   else if dict_get (open_blocks st) index \<noteq> None then Inl StartedTwice
                   else if index \<in> seen_blocks st then Inl ReusedAfterStop
                   else Inr (st\<lparr>open_blocks := dict_set index (block_storage block_type block) (open_blocks st),
                                seen_blocks := insert index (seen_blocks st)\<rparr>))"

definition expected_delta :: "pystr \<Rightarrow> pystr option" where
  "expected_delta kind =
     (if kind = u ''text'' then Some (u ''text_delta'')
      else if kind = u ''tool_use'' then Some (u ''input_json_delta'') else None)"

definition contract_delta :: "json \<Rightarrow> contract_state \<Rightarrow> contract_error + contract_state" where
  "contract_delta data st =
     (case event_index data of
        Inl e \<Rightarrow> Inl e
      | Inr index \<Rightarrow>
          (case dict_get (open_blocks st) index of
             None \<Rightarrow> Inl DeltaForUnopened
           | Some kind \<Rightarrow>
               let delta = jget_default (u ''delta'') (JObj []) data;
                   delta_type = text_of (jget_default (u ''type'') (JStr []) delta) in
               if kind \<in> set NO_DELTA_BLOCK_KINDS then Inl DeltaForStartStopBlock
               else if \<not> is_dict delta then Inl DeltaNotDict
               else if kind = u ''thinking'' then
                 (if delta_type \<in> {Some (u ''thinking_delta''), Some (u ''signature_delta'')}
                  then Inr st else Inl WrongDeltaType)
               else (case expected_delta kind of
                       None \<Rightarrow> Inl NoDeltaRule
                     | Some expected \<Rightarrow>
                         if delta_type = Some expected then Inr st else Inl WrongDeltaType)))"

definition contract_stop :: "json \<Rightarrow> contract_state \<Rightarrow> contract_error + contract_state" where
  "contract_stop data st =
     (case event_index data of
        Inl e \<Rightarrow> Inl e
      | Inr index \<Rightarrow>
          (case dict_get (open_blocks st) index of
             None \<Rightarrow> Inl StopForUnopened
           | Some _ \<Rightarrow> Inr (st\<lparr>open_blocks := dict_pop index (open_blocks st)\<rparr>)))"

definition contract_step ::
  "bool \<Rightarrow> pystr \<times> json \<Rightarrow> contract_state \<Rightarrow> contract_error + contract_state" where
  "contract_step allow_error ev st =
     (case ev of (name, data) \<Rightarrow>
        if name = u ''error'' \<and> \<not> allow_error then Inl UnexpectedError
        else if name = u ''content_block_start'' then contract_start data st
        else if name = u ''content_block_delta'' then contract_delta data st
        else if name = u ''content_block_stop'' then contract_stop data st
        else Inr st)"

fun contract_run ::
  "bool \<Rightarrow> (pystr \<times> json) list \<Rightarrow> contract_state \<Rightarrow> contract_error + contract_state" where
  "contract_run allow [] st = Inr st"
| "contract_run allow (e # es) st =
     (case contract_step allow e st of Inl err \<Rightarrow> Inl err | Inr st' \<Rightarrow> contract_run allow es st')"

definition contract_init :: contract_state where
  "contract_init = \<lparr>open_blocks = [], seen_blocks = {}\<rparr>"

definition check_contract :: "bool \<Rightarrow> (pystr \<times> json) list \<Rightarrow> contract_error + unit" where
  "check_contract allow_error evs =
     (if evs = [] then Inl NoEvents
      else if u ''message_start'' \<notin> set (map fst evs) then Inl NoMessageStart
      else if fst (last evs) \<noteq> u ''message_stop'' then Inl LastNotMessageStop
      else case contract_run allow_error evs contract_init of
             Inl err \<Rightarrow> Inl err
           | Inr st \<Rightarrow>
               if open_blocks st \<noteq> [] then Inl UnclosedBlocks
               else if seen_blocks st = {} then Inl NoBlocks
               else Inr ())"

definition assert_anthropic_stream_contract :: "bool \<Rightarrow> sse_event list \<Rightarrow> contract_error + unit" where
  "assert_anthropic_stream_contract allow_error events =
     check_contract allow_error (map (\<lambda>e. (ev_name e, ev_data e)) events)"

section \<open>Reading a stream\<close>

definition text_parts_of :: "pystr \<times> json \<Rightarrow> pystr list" where
  "text_parts_of ev =
     (case ev of (name, data) \<Rightarrow>
        (if name = u ''content_block_start'' then
           let block = jget_default (u ''content_block'') (JObj []) data in
           if is_dict block \<and> jget (u ''type'') block = JStr (u ''text'') then
             (case jget_default (u ''text'') (JStr []) block of JStr t \<Rightarrow> if t \<noteq> [] then [t] else [] | _ \<Rightarrow> [])
           else []
         else []) @
        (let delta = jget_default (u ''delta'') (JObj []) data in
         if is_dict delta \<and> jget (u ''type'') delta = JStr (u ''text_delta'') then
           (case jget_default (u ''text'') (JStr []) delta of JStr t \<Rightarrow> [t] | _ \<Rightarrow> [])
         else []))"

text \<open>
  \<open>text_content\<close> and \<open>thinking_content\<close>, for streams whose text fields are strings (as all
  those emitted here are); \<open>has_tool_use\<close>.
\<close>

definition text_content :: "(pystr \<times> json) list \<Rightarrow> pystr" where
  "text_content evs = concat (concat (map text_parts_of evs))"

definition thinking_parts_of :: "pystr \<times> json \<Rightarrow> pystr list" where
  "thinking_parts_of ev =
     (let delta = jget_default (u ''delta'') (JObj []) (snd ev) in
      if is_dict delta \<and> jget (u ''type'') delta = JStr (u ''thinking_delta'') then
        (case jget_default (u ''thinking'') (JStr []) delta of JStr t \<Rightarrow> [t] | _ \<Rightarrow> [])
      else [])"

definition thinking_content :: "(pystr \<times> json) list \<Rightarrow> pystr" where
  "thinking_content evs = concat (concat (map thinking_parts_of evs))"

definition has_tool_use :: "(pystr \<times> json) list \<Rightarrow> bool" where
  "has_tool_use evs \<longleftrightarrow>
     (\<exists>ev \<in> set evs. jget (u ''type'') (jget_default (u ''content_block'') (JObj []) (snd ev)) = JStr (u ''tool_use''))"

section \<open>Running the contract over pieces of a stream\<close>

lemma contract_run_append:
  "contract_run a (xs @ ys) st =
     (case contract_run a xs st of Inl e \<Rightarrow> Inl e | Inr st' \<Rightarrow> contract_run a ys st')"
  by (induction xs arbitrary: st) (auto split: sum.split)

lemma contract_run_appendI:
  "contract_run a xs st = Inr st1 \<Longrightarrow> contract_run a ys st1 = Inr st2 \<Longrightarrow>
     contract_run a (xs @ ys) st = Inr st2"
  by (simp add: contract_run_append)

lemma contract_run_Cons: "contract_step a f c = Inr c1 \<Longrightarrow> contract_run a (f # fs) c = contract_run a fs c1"
  by simp

text \<open>Allowing error events only turns failures into successes.\<close>

lemma contract_step_allow: "contract_step False e st = Inr st' \<Longrightarrow> contract_step True e st = Inr st'"
  by (cases e) (auto simp: contract_step_def split: if_splits)

lemma contract_run_allow: "contract_run False es st = Inr st' \<Longrightarrow> contract_run True es st = Inr st'"
  by (induction es arbitrary: st) (auto split: sum.splits dest: contract_step_allow)

end
