(* ===== verification/Sse.thy ===== *)
theory Sse
  imports StreamContract "HOL-Library.Multiset"
begin

text \<open>
  The event builder (\<open>core/anthropic/sse.py\<close>): \<open>ContentBlockManager\<close>, \<open>ToolCallState\<close>
  and \<open>SSEBuilder\<close>.  A method that returns or yields event strings is an emitter: from
  the builder to the frames it hands out, in order, the changed builder, and the exception
  that cut it short, if any.  A frame is the event's name and payload; \<open>wire\<close> is the text
  \<open>format_sse_event\<close> makes of it.  The invariant relates the builder to the contract's
  checker: the blocks the builder thinks open are those the checker has open.
\<close>

section \<open>Frames\<close>

type_synonym frame = "pystr \<times> json"

definition format_sse_event :: "pystr \<Rightarrow> json \<Rightarrow> pystr" where
  "format_sse_event event_type data =
     u ''event: '' @ event_type @ [10] @ u ''data: '' @ json_dumps data @ [10, 10]"

definition wire :: "frame list \<Rightarrow> pystr" where
  "wire fs = concat (map (\<lambda>(e, d). format_sse_event e d) fs)"

definition STOP_REASON_MAP :: "(pystr, pystr) dict" where
  "STOP_REASON_MAP =
     [(u ''stop'', u ''end_turn''), (u ''length'', u ''max_tokens''),
      (u ''tool_calls'', u ''tool_use''), (u ''content_filter'', u ''end_turn'')]"

definition map_stop_reason :: "pystr option \<Rightarrow> pystr" where
  "map_stop_reason openai_reason =
     (case openai_reason of
        None \<Rightarrow> u ''end_turn''
      | Some r \<Rightarrow> if r = [] then u ''end_turn'' else dict_get_default STOP_REASON_MAP r (u ''end_turn''))"

text \<open>\<open>value if isinstance(value, int) else 0\<close>; a \<open>bool\<close> passes as it is.\<close>

definition safe_usage_int :: "json \<Rightarrow> json" where
  "safe_usage_int v = (case as_int v of Some _ \<Rightarrow> v | None \<Rightarrow> JInt 0)"

section \<open>State\<close>

record tool_call_state =
  block_index :: int
  tool_id :: pystr
  tool_name :: pystr
  extra_content :: "json option"
  contents :: "pystr list"
  started :: bool
  task_arg_buffer :: pystr
  task_args_emitted :: bool
  pre_start_args :: pystr

definition ToolCallState :: "int \<Rightarrow> pystr \<Rightarrow> pystr \<Rightarrow> tool_call_state" where
  "ToolCallState i tid nm =
     \<lparr>block_index = i, tool_id = tid, tool_name = nm, extra_content = None, contents = [],
      started = False, task_arg_buffer = [], task_args_emitted = False, pre_start_args = []\<rparr>"

record content_blocks =
  next_index :: int
  thinking_index :: int
  text_index :: int
  thinking_started :: bool
  text_started :: bool
  tool_states :: "(int, tool_call_state) dict"

definition ContentBlockManager_init :: content_blocks where
  "ContentBlockManager_init =
     \<lparr>next_index = 0, thinking_index = - 1, text_index = - 1, thinking_started = False,
      text_started = False, tool_states = []\<rparr>"

record sse_builder =
  message_id :: pystr
  model :: pystr
  input_tokens :: json
  blocks :: content_blocks
  accumulated_text_parts :: "pystr list"
  accumulated_reasoning_parts :: "pystr list"

definition SSEBuilder_init :: "pystr \<Rightarrow> pystr \<Rightarrow> json \<Rightarrow> sse_builder" where
  "SSEBuilder_init mid mdl toks =
     \<lparr>message_id = mid, model = mdl, input_tokens = toks, blocks = ContentBlockManager_init,
      accumulated_text_parts = [], accumulated_reasoning_parts = []\<rparr>"

section \<open>Content blocks\<close>

definition allocate_index :: "content_blocks \<Rightarrow> int \<times> content_blocks" where
  "allocate_index b = (next_index b, b\<lparr>next_index := next_index b + 1\<rparr>)"

definition tool_state :: "content_blocks \<Rightarrow> int \<Rightarrow> tool_call_state option" where
  "tool_state b i = dict_get (tool_states b) i"

definition set_tool_state :: "int \<Rightarrow> tool_call_state \<Rightarrow> content_blocks \<Rightarrow> content_blocks" where
  "set_tool_state i st b = b\<lparr>tool_states := dict_set i st (tool_states b)\<rparr>"

definition ensure_tool_state :: "int \<Rightarrow> content_blocks \<Rightarrow> tool_call_state \<times> content_blocks" where
  "ensure_tool_state i b =
     (case tool_state b i of
        Some st \<Rightarrow> (st, b)
      | None \<Rightarrow> (ToolCallState (- 1) [] [], set_tool_state i (ToolCallState (- 1) [] []) b))"

definition set_stream_tool_id :: "int \<Rightarrow> pystr option \<Rightarrow> content_blocks \<Rightarrow> content_blocks" where
  "set_stream_tool_id i tid b =
     (case tid of
        None \<Rightarrow> b
      | Some t \<Rightarrow>
          if t = [] then b
          else case ensure_tool_state i b of (st, b1) \<Rightarrow> set_tool_state i (st\<lparr>tool_id := t\<rparr>) b1)"

definition set_tool_extra_content :: "int \<Rightarrow> json option \<Rightarrow> content_blocks \<Rightarrow> content_blocks" where
  "set_tool_extra_content i extra b =
     (case extra of
        None \<Rightarrow> b
      | Some x \<Rightarrow>
          if \<not> truthy x then b
          else case ensure_tool_state i b of
                 (st, b1) \<Rightarrow> set_tool_state i (st\<lparr>extra_content := Some x\<rparr>) b1)"

text \<open>Name fragments: a longer repetition replaces, a repetition is dropped, the rest is appended.\<close>

definition merge_name :: "pystr \<Rightarrow> pystr \<Rightarrow> pystr" where
  "merge_name prev name =
     (if prev = [] \<or> str_startswith name prev then name
      else if \<not> str_startswith prev name then prev @ name else prev)"

definition register_tool_name :: "int \<Rightarrow> pystr \<Rightarrow> content_blocks \<Rightarrow> content_blocks" where
  "register_tool_name i name b =
     (case tool_state b i of
        None \<Rightarrow> set_tool_state i (ToolCallState (- 1) [] name) b
      | Some st \<Rightarrow> set_tool_state i (st\<lparr>tool_name := merge_name (tool_name st) name\<rparr>) b)"

text \<open>\<open>_normalize_task_run_in_background\<close>; \<open>args_json.get\<close> on anything but a dict raises.\<close>

definition normalize_task_run_in_background :: "json \<Rightarrow> py_exn + json" where
  "normalize_task_run_in_background args =
     (if \<not> is_dict args then Inl AttributeError
      else if jget (u ''run_in_background'') args \<noteq> JBool False
           then Inr (jset (u ''run_in_background'') (JBool False) args) else Inr args)"

text \<open>
  \<open>buffer_task_args\<close>: the manager keeps the appended buffer also when normalising raises.
\<close>

definition buffer_task_args ::
  "int \<Rightarrow> pystr \<Rightarrow> content_blocks \<Rightarrow> (py_exn + json option) \<times> content_blocks" where
  "buffer_task_args i args b =
     (case tool_state b i of
        None \<Rightarrow> (Inr None, b)
      | Some st \<Rightarrow>
          if task_args_emitted st then (Inr None, b)
          else let st1 = st\<lparr>task_arg_buffer := task_arg_buffer st @ args\<rparr>;
                   b1 = set_tool_state i st1 b in
               case json_loads (task_arg_buffer st1) of
                 None \<Rightarrow> (Inr None, b1)
               | Some j \<Rightarrow>
                   (case normalize_task_run_in_background j of
                      Inl e \<Rightarrow> (Inl e, b1)
                    | Inr j' \<Rightarrow>
                        (Inr (Some j'),
                         set_tool_state i (st1\<lparr>task_args_emitted := True, task_arg_buffer := []\<rparr>) b1)))"

definition has_emitted_tool_block :: "content_blocks \<Rightarrow> bool" where
  "has_emitted_tool_block b = list_ex started (dict_values (tool_states b))"

text \<open>
  \<open>flush_task_arg_buffers\<close>: the loop over a snapshot of the items; the \<open>except\<close> clause names
  \<open>JSONDecodeError\<close>, \<open>TypeError\<close> and \<open>ValueError\<close>, so an \<open>AttributeError\<close> leaves the loop.
\<close>

fun flush_task_loop ::
  "(int \<times> tool_call_state) list \<Rightarrow> content_blocks \<Rightarrow>
     (py_exn + (int \<times> pystr) list) \<times> content_blocks" where
  "flush_task_loop [] b = (Inr [], b)"
| "flush_task_loop ((i, st) # items) b =
     (if task_arg_buffer st = [] \<or> task_args_emitted st then flush_task_loop items b
      else let out = (case json_loads (task_arg_buffer st) of
                        None \<Rightarrow> Inr (u ''{}'')
                      | Some j \<Rightarrow> map_sum id json_dumps (normalize_task_run_in_background j)) in
           case out of
             Inl e \<Rightarrow> (Inl e, b)
           | Inr txt \<Rightarrow>
               (case flush_task_loop items
                       (set_tool_state i (st\<lparr>task_args_emitted := True, task_arg_buffer := []\<rparr>) b) of
                  (Inl e, b1) \<Rightarrow> (Inl e, b1)
                | (Inr rs, b1) \<Rightarrow> (Inr ((i, txt) # rs), b1)))"

definition flush_task_arg_buffers ::
  "content_blocks \<Rightarrow> (py_exn + (int \<times> pystr) list) \<times> content_blocks" where
  "flush_task_arg_buffers b = flush_task_loop (tool_states b) b"

section \<open>Emitters\<close>

type_synonym 's emitter = "'s \<Rightarrow> frame list \<times> 's \<times> py_exn option"

definition emit_none :: "'s emitter" where
  "emit_none s = ([], s, None)"

definition emit_raise :: "py_exn \<Rightarrow> 's emitter" where
  "emit_raise e s = ([], s, Some e)"

definition emit_update :: "('s \<Rightarrow> 's) \<Rightarrow> 's emitter" where
  "emit_update f s = ([], f s, None)"

definition emit_frame :: "frame \<Rightarrow> 's emitter" where
  "emit_frame f s = ([f], s, None)"

definition emit_seq :: "'s emitter \<Rightarrow> 's emitter \<Rightarrow> 's emitter" where
  "emit_seq f g s =
     (case f s of
        (xs, s1, Some e) \<Rightarrow> (xs, s1, Some e)
      | (xs, s1, None) \<Rightarrow> (case g s1 of (ys, s2, e) \<Rightarrow> (xs @ ys, s2, e)))"

definition emit_if :: "('s \<Rightarrow> bool) \<Rightarrow> 's emitter \<Rightarrow> 's emitter" where
  "emit_if c f s = (if c s then f s else ([], s, None))"

fun emit_list :: "('a \<Rightarrow> 's emitter) \<Rightarrow> 'a list \<Rightarrow> 's emitter" where
  "emit_list f [] = emit_none"
| "emit_list f (x # xs) = emit_seq (f x) (emit_list f xs)"

section \<open>The builder\<close>

definition message_start :: "sse_builder emitter" where
  "message_start s =
     emit_frame (u ''message_start'',
       JObj [(u ''type'', JStr (u ''message_start'')),
             (u ''message'', JObj
               [(u ''id'', JStr (message_id s)), (u ''type'', JStr (u ''message'')),
                (u ''role'', JStr (u ''assistant'')), (u ''content'', JArr []),
                (u ''model'', JStr (model s)), (u ''stop_reason'', JNull),
                (u ''stop_sequence'', JNull),
                (u ''usage'', JObj [(u ''input_tokens'', safe_usage_int (input_tokens s)),
                                    (u ''output_tokens'', JInt 1)])])]) s"

definition message_delta :: "pystr \<Rightarrow> int option \<Rightarrow> sse_builder emitter" where
  "message_delta stop_reason output_tokens s =
     emit_frame (u ''message_delta'',
       JObj [(u ''type'', JStr (u ''message_delta'')),
             (u ''delta'', JObj [(u ''stop_reason'', JStr stop_reason), (u ''stop_sequence'', JNull)]),
             (u ''usage'', JObj [(u ''input_tokens'', safe_usage_int (input_tokens s)),
                                 (u ''output_tokens'', JInt (case output_tokens of Some n \<Rightarrow> n | None \<Rightarrow> 0))])]) s"

definition message_stop :: "sse_builder emitter" where
  "message_stop = emit_frame (u ''message_stop'', JObj [(u ''type'', JStr (u ''message_stop''))])"

text \<open>
  \<open>content_block_start\<close>: the keyword arguments are an assoc list of the ones given.
\<close>

definition start_content_block :: "pystr \<Rightarrow> (pystr, json) dict \<Rightarrow> json" where
  "start_content_block block_type kwargs =
     (let get = dict_get_default kwargs;
          head = [(u ''type'', JStr block_type)] in
      JObj (if block_type = u ''thinking'' then
              head @ [(u ''thinking'', get (u ''thinking'') (JStr []))]
            else if block_type = u ''text'' then
              head @ [(u ''text'', get (u ''text'') (JStr []))]
            else if block_type = u ''tool_use'' then
              head @ [(u ''id'', get (u ''id'') (JStr [])), (u ''name'', get (u ''name'') (JStr [])),
                      (u ''input'', get (u ''input'') (JObj []))] @
              (let extra = get (u ''extra_content'') JNull in
               if is_dict extra \<and> truthy extra then [(u ''extra_content'', extra)] else [])
            else head))"

definition content_block_start :: "int \<Rightarrow> pystr \<Rightarrow> (pystr, json) dict \<Rightarrow> frame" where
  "content_block_start index block_type kwargs =
     (u ''content_block_start'',
      JObj [(u ''type'', JStr (u ''content_block_start'')), (u ''index'', JInt index),
            (u ''content_block'', start_content_block block_type kwargs)])"

definition content_block_delta :: "int \<Rightarrow> pystr \<Rightarrow> pystr \<Rightarrow> frame" where
  "content_block_delta index delta_type content =
     (u ''content_block_delta'',
      JObj [(u ''type'', JStr (u ''content_block_delta'')), (u ''index'', JInt index),
            (u ''delta'', JObj ((u ''type'', JStr delta_type) #
               (if delta_type = u ''thinking_delta'' then [(u ''thinking'', JStr content)]
                else if delta_type = u ''text_delta'' then [(u ''text'', JStr content)]
                else if delta_type = u ''input_json_delta'' then [(u ''partial_json'', JStr content)]
                else [])))])"

definition content_block_stop :: "int \<Rightarrow> frame" where
  "content_block_stop index =
     (u ''content_block_stop'',
      JObj [(u ''type'', JStr (u ''content_block_stop'')), (u ''index'', JInt index)])"

definition start_thinking_block :: "sse_builder emitter" where
  "start_thinking_block s =
     (case allocate_index (blocks s) of (i, b) \<Rightarrow>
        ([content_block_start i (u ''thinking'') []],
         s\<lparr>blocks := b\<lparr>thinking_index := i, thinking_started := True\<rparr>\<rparr>, None))"

definition emit_thinking_delta :: "pystr \<Rightarrow> sse_builder emitter" where
  "emit_thinking_delta content s =
     ([content_block_delta (thinking_index (blocks s)) (u ''thinking_delta'') content],
      s\<lparr>accumulated_reasoning_parts := accumulated_reasoning_parts s @ [content]\<rparr>, None)"

definition stop_thinking_block :: "sse_builder emitter" where
  "stop_thinking_block s =
     ([content_block_stop (thinking_index (blocks s))],
      s\<lparr>blocks := (blocks s)\<lparr>thinking_started := False\<rparr>\<rparr>, None)"

definition start_text_block :: "sse_builder emitter" where
  "start_text_block s =
     (case allocate_index (blocks s) of (i, b) \<Rightarrow>
        ([content_block_start i (u ''text'') []],
         s\<lparr>blocks := b\<lparr>text_index := i, text_started := True\<rparr>\<rparr>, None))"

definition emit_text_delta :: "pystr \<Rightarrow> sse_builder emitter" where
  "emit_text_delta content s =
     ([content_block_delta (text_index (blocks s)) (u ''text_delta'') content],
      s\<lparr>accumulated_text_parts := accumulated_text_parts s @ [content]\<rparr>, None)"

definition stop_text_block :: "sse_builder emitter" where
  "stop_text_block s =
     ([content_block_stop (text_index (blocks s))],
      s\<lparr>blocks := (blocks s)\<lparr>text_started := False\<rparr>\<rparr>, None)"

definition start_tool_block :: "int \<Rightarrow> pystr \<Rightarrow> pystr \<Rightarrow> json option \<Rightarrow> sse_builder emitter" where
  "start_tool_block tool_index tid name extra s =
     (case allocate_index (blocks s) of (i, b) \<Rightarrow>
        let st = (case tool_state b tool_index of
                    Some st \<Rightarrow>
                      st\<lparr>block_index := i, tool_id := tid,
                         extra_content := (case extra of Some x \<Rightarrow> if truthy x then extra else extra_content st
                                                       | None \<Rightarrow> extra_content st),
                         started := True\<rparr>
                  | None \<Rightarrow> (ToolCallState i tid name)\<lparr>extra_content := extra, started := True\<rparr>) in
        ([content_block_start i (u ''tool_use'')
            [(u ''id'', JStr tid), (u ''name'', JStr name),
             (u ''extra_content'', case extra of Some x \<Rightarrow> x | None \<Rightarrow> JNull)]],
         s\<lparr>blocks := set_tool_state tool_index st b\<rparr>, None))"

definition emit_tool_delta :: "int \<Rightarrow> pystr \<Rightarrow> sse_builder emitter" where
  "emit_tool_delta tool_index partial_json s =
     (case tool_state (blocks s) tool_index of
        None \<Rightarrow> ([], s, Some KeyError)
      | Some st \<Rightarrow>
          ([content_block_delta (block_index st) (u ''input_json_delta'') partial_json],
           s\<lparr>blocks := set_tool_state tool_index (st\<lparr>contents := contents st @ [partial_json]\<rparr>) (blocks s)\<rparr>,
           None))"

definition stop_tool_block :: "int \<Rightarrow> sse_builder emitter" where
  "stop_tool_block tool_index s =
     (case tool_state (blocks s) tool_index of
        None \<Rightarrow> ([], s, Some KeyError)
      | Some st \<Rightarrow> ([content_block_stop (block_index st)], s, None))"

definition ensure_thinking_block :: "sse_builder emitter" where
  "ensure_thinking_block =
     emit_seq (emit_if (\<lambda>s. text_started (blocks s)) stop_text_block)
              (emit_if (\<lambda>s. \<not> thinking_started (blocks s)) start_thinking_block)"

definition ensure_text_block :: "sse_builder emitter" where
  "ensure_text_block =
     emit_seq (emit_if (\<lambda>s. thinking_started (blocks s)) stop_thinking_block)
              (emit_if (\<lambda>s. \<not> text_started (blocks s)) start_text_block)"

definition close_content_blocks :: "sse_builder emitter" where
  "close_content_blocks =
     emit_seq (emit_if (\<lambda>s. thinking_started (blocks s)) stop_thinking_block)
              (emit_if (\<lambda>s. text_started (blocks s)) stop_text_block)"

text \<open>\<open>close_all_blocks\<close>: the tools' \<open>started\<close> flags stay set.\<close>

definition close_tool_blocks :: "sse_builder emitter" where
  "close_tool_blocks s =
     emit_list (\<lambda>(i, st). if started st then stop_tool_block i else emit_none) (tool_states (blocks s)) s"

definition close_all_blocks :: "sse_builder emitter" where
  "close_all_blocks = emit_seq close_content_blocks close_tool_blocks"

definition emit_error :: "pystr \<Rightarrow> sse_builder emitter" where
  "emit_error msg s =
     (case allocate_index (blocks s) of (i, b) \<Rightarrow>
        ([content_block_start i (u ''text'') [], content_block_delta i (u ''text_delta'') msg,
          content_block_stop i], s\<lparr>blocks := b\<rparr>, None))"

definition emit_top_level_error :: "pystr \<Rightarrow> sse_builder emitter" where
  "emit_top_level_error msg =
     emit_frame (u ''error'',
       JObj [(u ''type'', JStr (u ''error'')),
             (u ''error'', JObj [(u ''type'', JStr (u ''api_error'')), (u ''message'', JStr msg)])])"

definition accumulated_text :: "sse_builder \<Rightarrow> pystr" where
  "accumulated_text s = concat (accumulated_text_parts s)"

definition accumulated_reasoning :: "sse_builder \<Rightarrow> pystr" where
  "accumulated_reasoning s = concat (accumulated_reasoning_parts s)"

text \<open>
  \<open>estimate_output_tokens\<close>; the \<open>tiktoken\<close> encoder is a parameter: \<open>None\<close> when it could not
  be imported, else the number of tokens of a text.
\<close>

definition estimate_output_tokens :: "(pystr \<Rightarrow> nat) option \<Rightarrow> sse_builder \<Rightarrow> nat" where
  "estimate_output_tokens encoder s =
     (let text = accumulated_text s; reasoning = accumulated_reasoning s;
          states = dict_values (tool_states (blocks s)) in
      case encoder of
        Some enc \<Rightarrow>
          let tool_tokens = sum_list (map (\<lambda>st. enc (tool_name st) + enc (concat (contents st)) + 15) states);
              block_count = (if reasoning \<noteq> [] then 1 else 0) + (if text \<noteq> [] then 1 else 0)
                              + length (filter started states)
          in enc text + enc reasoning + tool_tokens + block_count * 4
      | None \<Rightarrow>
          length text div 4 + length reasoning div 4 + length (filter started states) * 50)"

section \<open>The builder against the contract\<close>

text \<open>The blocks the builder holds open, with the kind the checker stores for each.\<close>

definition block_list :: "sse_builder \<Rightarrow> (int \<times> pystr) list" where
  "block_list s =
     (let b = blocks s in
      (if thinking_started b then [(thinking_index b, u ''thinking'')] else []) @
      (if text_started b then [(text_index b, u ''text'')] else []) @
      map (\<lambda>(i, st). (block_index st, u ''tool_use'')) (filter (started \<circ> snd) (tool_states b)))"

definition builder_inv :: "sse_builder \<Rightarrow> contract_state \<Rightarrow> bool" where
  "builder_inv s c \<longleftrightarrow>
     mset (open_blocks c) = mset (block_list s) \<and>
     dict_wf (open_blocks c) \<and> fst ` set (open_blocks c) \<subseteq> seen_blocks c \<and>
     (\<forall>i \<in> seen_blocks c. 0 \<le> i \<and> i < next_index (blocks s)) \<and> 0 \<le> next_index (blocks s) \<and>
     dict_wf (tool_states (blocks s)) \<and>
     (text_index (blocks s) \<noteq> - 1 \<longrightarrow> text_index (blocks s) \<in> seen_blocks c) \<and>
     (thinking_index (blocks s) \<noteq> - 1 \<longrightarrow> thinking_index (blocks s) \<in> seen_blocks c)"

text \<open>
  The reasoning rules for emitters: a simulation invariant between the emitter's state and
  the checker's, with a precondition and a postcondition on the emitter's state.
\<close>

locale contract_emitter =
  fixes inv :: "'s \<Rightarrow> contract_state \<Rightarrow> bool"
    and allow :: bool
  assumes inv_seen: "inv s c \<Longrightarrow> fst ` set (open_blocks c) \<subseteq> seen_blocks c"
begin

definition emits :: "('s \<Rightarrow> bool) \<Rightarrow> 's emitter \<Rightarrow> ('s \<Rightarrow> bool) \<Rightarrow> bool" where
  "emits P f Q \<longleftrightarrow>
     (\<forall>s c fs s' e. inv s c \<longrightarrow> P s \<longrightarrow> f s = (fs, s', e) \<longrightarrow>
        (\<exists>c'. contract_run allow fs c = Inr c' \<and> inv s' c') \<and> (e = None \<longrightarrow> Q s'))"

lemma emitsI:
  assumes "\<And>s c fs s' e. inv s c \<Longrightarrow> P s \<Longrightarrow> f s = (fs, s', e) \<Longrightarrow>
     (\<exists>c'. contract_run allow fs c = Inr c' \<and> inv s' c') \<and> (e = None \<longrightarrow> Q s')"
  shows "emits P f Q"
  using assms by (simp add: emits_def)

lemma emitsD:
  "emits P f Q \<Longrightarrow> inv s c \<Longrightarrow> P s \<Longrightarrow> f s = (fs, s', e) \<Longrightarrow>
     \<exists>c'. contract_run allow fs c = Inr c' \<and> inv s' c' \<and> (e = None \<longrightarrow> Q s')"
  unfolding emits_def by blast

lemma emits_none: "(\<And>s. P s \<Longrightarrow> Q s) \<Longrightarrow> emits P emit_none Q"
  by (auto simp: emits_def emit_none_def)

lemma emits_raise: "emits P (emit_raise e) Q"
  by (auto simp: emits_def emit_raise_def)

lemma emits_seq:
  assumes "emits P f Q" "emits Q g R"
  shows "emits P (emit_seq f g) R"
proof (rule emitsI)
  fix s c fs s' e
  assume inv: "inv s c" and P: "P s" and run: "emit_seq f g s = (fs, s', e)"
  obtain xs s1 e1 where f: "f s = (xs, s1, e1)" by (metis prod_cases3)
  obtain c1 where c1: "contract_run allow xs c = Inr c1" "inv s1 c1" "e1 = None \<longrightarrow> Q s1"
    using emitsD [OF assms(1) inv P f] by blast
  show "(\<exists>c'. contract_run allow fs c = Inr c' \<and> inv s' c') \<and> (e = None \<longrightarrow> R s')"
  proof (cases e1)
    case (Some e')
    then show ?thesis using run f c1 by (auto simp: emit_seq_def)
  next
    case None
    obtain ys s2 e2 where g: "g s1 = (ys, s2, e2)" by (metis prod_cases3)
    obtain c2 where c2: "contract_run allow ys c1 = Inr c2" "inv s2 c2" "e2 = None \<longrightarrow> R s2"
      using emitsD [OF assms(2) c1(2) _ g] c1(3) None by blast
    then show ?thesis using run f g None contract_run_appendI [OF c1(1) c2(1)]
      by (auto simp: emit_seq_def)
  qed
qed

lemma emits_if:
  assumes "emits (\<lambda>s. P s \<and> b s) f Q" "\<And>s. P s \<Longrightarrow> \<not> b s \<Longrightarrow> Q s"
  shows "emits P (emit_if b f) Q"
  using assms unfolding emits_def emit_if_def by (auto split: if_splits)

lemma emits_weaken:
  "emits P f Q \<Longrightarrow> (\<And>s. P' s \<Longrightarrow> P s) \<Longrightarrow> (\<And>s. Q s \<Longrightarrow> Q' s) \<Longrightarrow> emits P' f Q'"
  unfolding emits_def by blast

lemma emits_list:
  "(\<And>x. x \<in> set xs \<Longrightarrow> emits P (f x) P) \<Longrightarrow> emits P (emit_list f xs) P"
  by (induction xs) (auto intro!: emits_none emits_seq)

text \<open>An emitter may depend on the state it starts from.\<close>

lemma emits_state: "(\<And>s0. P s0 \<Longrightarrow> emits (\<lambda>s. s = s0) (f s0) Q) \<Longrightarrow> emits P (\<lambda>s. f s s) Q"
  unfolding emits_def by blast

lemma emits_seen_mono:
  assumes "emits P f Q" "inv s c" "P s" "f s = (fs, s', e)"
  shows "\<exists>c'. contract_run allow fs c = Inr c' \<and> inv s' c' \<and> fst ` set (open_blocks c') \<subseteq> seen_blocks c'"
  using emitsD [OF assms] inv_seen by metis

end

lemma contract_seen_mono: "contract_run a fs c = Inr c' \<Longrightarrow> seen_blocks c \<subseteq> seen_blocks c'"
proof (induction fs arbitrary: c)
  case (Cons f fs)
  have "contract_step a f c = Inr c1 \<Longrightarrow> seen_blocks c \<subseteq> seen_blocks c1" for c1
    by (auto simp: contract_step_def contract_start_def contract_delta_def contract_stop_def Let_def
        split: prod.splits if_splits sum.splits option.splits)
  with Cons show ?case by (fastforce split: sum.splits)
qed simp

subsection \<open>The frames and the checker\<close>

lemmas frame_defs = content_block_start_def content_block_delta_def content_block_stop_def
  start_content_block_def emit_frame_def

lemma start_frame_step:
  assumes "ty = u ''text'' \<or> ty = u ''thinking'' \<or> ty = u ''tool_use''" and "dict_get kw (u ''text'') = None"
    and "i \<notin> fst ` set (open_blocks c)" "i \<notin> seen_blocks c"
  shows "contract_step a (content_block_start i ty kw) c
           = Inr (c\<lparr>open_blocks := open_blocks c @ [(i, ty)], seen_blocks := insert i (seen_blocks c)\<rparr>)"
proof -
  have "dict_get (open_blocks c) i = None" using assms(3) by (simp add: dict_get_None_iff)
  then have "dict_set i ty (open_blocks c) = open_blocks c @ [(i, ty)]"
    by (simp add: dict_set_new dict_get_None_iff)
  with \<open>dict_get (open_blocks c) i = None\<close> show ?thesis
    using assms(1,2,4)
    by (auto simp: contract_step_def contract_start_def event_index_def frame_defs Let_def
        ALLOWED_BLOCK_START_TYPES_def block_storage_def dict_get_default_def str_strip_def
        str_lstrip_def str_rstrip_def)
qed

lemma delta_frame_step:
  assumes "dict_get (open_blocks c) i = Some k"
    and "(k, ty) \<in> {(u ''text'', u ''text_delta''), (u ''thinking'', u ''thinking_delta''),
                    (u ''tool_use'', u ''input_json_delta'')}"
  shows "contract_step a (content_block_delta i ty t) c = Inr c"
  using assms
  by (auto simp: contract_step_def contract_delta_def event_index_def frame_defs Let_def
      NO_DELTA_BLOCK_KINDS_def expected_delta_def SERVER_TOOL_USE_def WEB_SEARCH_TOOL_RESULT_def
      WEB_FETCH_TOOL_RESULT_def)

lemma stop_frame_step:
  "dict_get (open_blocks c) i = Some k \<Longrightarrow>
     contract_step a (content_block_stop i) c = Inr (c\<lparr>open_blocks := dict_pop i (open_blocks c)\<rparr>)"
  by (simp add: contract_step_def contract_stop_def event_index_def frame_defs)


subsection \<open>The builder's methods\<close>

interpretation bld: contract_emitter builder_inv allow for allow
  by unfold_locales (simp add: builder_inv_def)

lemma builder_open:
  assumes "builder_inv s c" "(i, k) \<in> set (block_list s)"
  shows "dict_get (open_blocks c) i = Some k"
proof -
  have "(i, k) \<in> set (open_blocks c)"
    using assms unfolding builder_inv_def by (metis set_mset_mset)
  then show ?thesis using assms(1) by (simp add: builder_inv_def)
qed

lemma thinking_open:
  "builder_inv s c \<Longrightarrow> thinking_started (blocks s) \<Longrightarrow>
     dict_get (open_blocks c) (thinking_index (blocks s)) = Some (u ''thinking'')"
  by (erule builder_open) (simp add: block_list_def Let_def)

lemma text_open:
  "builder_inv s c \<Longrightarrow> text_started (blocks s) \<Longrightarrow>
     dict_get (open_blocks c) (text_index (blocks s)) = Some (u ''text'')"
  by (erule builder_open) (simp add: block_list_def Let_def)

lemma tool_open:
  assumes "builder_inv s c" "tool_state (blocks s) t = Some st" "started st"
  shows "dict_get (open_blocks c) (block_index st) = Some (u ''tool_use'')"
proof (rule builder_open [OF assms(1)])
  have "(t, st) \<in> set (tool_states (blocks s))"
    using assms(2) by (simp add: tool_state_def dict_get_in_set)
  then show "(block_index st, u ''tool_use'') \<in> set (block_list s)"
    using assms(3) by (force simp: block_list_def Let_def)
qed

lemma fresh_index:
  "builder_inv s c \<Longrightarrow> next_index (blocks s) \<notin> seen_blocks c \<and> next_index (blocks s) \<notin> fst ` set (open_blocks c)"
  unfolding builder_inv_def by (meson less_irrefl subsetD)

abbreviation with_block :: "int \<Rightarrow> pystr \<Rightarrow> contract_state \<Rightarrow> contract_state" where
  "with_block i k c \<equiv> c\<lparr>open_blocks := open_blocks c @ [(i, k)], seen_blocks := insert i (seen_blocks c)\<rparr>"

abbreviation without_block :: "int \<Rightarrow> contract_state \<Rightarrow> contract_state" where
  "without_block i c \<equiv> c\<lparr>open_blocks := dict_pop i (open_blocks c)\<rparr>"

lemma start_block_run:
  assumes "builder_inv s c" "ty = u ''text'' \<or> ty = u ''thinking'' \<or> ty = u ''tool_use''"
    and "dict_get kw (u ''text'') = None"
  shows "contract_run a [content_block_start (next_index (blocks s)) ty kw] c
           = Inr (with_block (next_index (blocks s)) ty c)"
  using start_frame_step [OF assms(2,3)] fresh_index [OF assms(1)] by simp

text \<open>What opening and closing one block does to the invariant.\<close>

lemma builder_inv_opened:
  assumes "builder_inv s c" and "mset (block_list s') = add_mset (i, k) (mset (block_list s))"
    and "i = next_index (blocks s)" "next_index (blocks s') = i + 1" "dict_wf (tool_states (blocks s'))"
    and "text_index (blocks s') \<in> {text_index (blocks s), i}"
    and "thinking_index (blocks s') \<in> {thinking_index (blocks s), i}"
  shows "builder_inv s' (with_block i k c)"
proof -
  have "i \<notin> seen_blocks c" "i \<notin> fst ` set (open_blocks c)"
    using fresh_index [OF assms(1)] assms(3) by simp_all
  moreover have "mset (open_blocks c) = mset (block_list s)" "dict_wf (open_blocks c)"
      "fst ` set (open_blocks c) \<subseteq> seen_blocks c" "0 \<le> i"
      "\<forall>j \<in> seen_blocks c. 0 \<le> j \<and> j < i"
      "text_index (blocks s) \<noteq> - 1 \<longrightarrow> text_index (blocks s) \<in> seen_blocks c"
      "thinking_index (blocks s) \<noteq> - 1 \<longrightarrow> thinking_index (blocks s) \<in> seen_blocks c"
    using assms(1,3) unfolding builder_inv_def by blast+
  ultimately show ?thesis
    using assms(2,4-7) unfolding builder_inv_def by (simp add: less_imp_le) fastforce
qed

lemma dict_pop_mset: "dict_wf d \<Longrightarrow> (i, k) \<in> set d \<Longrightarrow> mset d = add_mset (i, k) (mset (dict_pop i d))"
proof (induction d)
  case (Cons x d)
  show ?case
  proof (cases "fst x = i")
    case True
    then have "dict_pop i d = d" using Cons.prems(1)
      by (simp add: AList.delete_id image_iff)
    then show ?thesis using True Cons.prems by (cases x) force
  next
    case False
    then show ?thesis using Cons by (cases x) auto
  qed
qed simp

lemma builder_inv_closed:
  assumes "builder_inv s c" and "mset (block_list s) = add_mset (i, k) (mset (block_list s'))"
    and "next_index (blocks s') = next_index (blocks s)" "dict_wf (tool_states (blocks s'))"
    and "text_index (blocks s') = text_index (blocks s)"
    and "thinking_index (blocks s') = thinking_index (blocks s)"
  shows "builder_inv s' (without_block i c)"
proof -
  have "(i, k) \<in> set (open_blocks c)"
    using assms(1,2) unfolding builder_inv_def by (metis set_mset_mset union_single_eq_member)
  then have "mset (open_blocks c) = add_mset (i, k) (mset (dict_pop i (open_blocks c)))"
    by (rule dict_pop_mset [rotated]) (use assms(1) in \<open>simp add: builder_inv_def\<close>)
  then show ?thesis
    using assms unfolding builder_inv_def by (auto simp: dict_simps)
qed

lemma start_thinking_ok: "bld.emits a (\<lambda>s. \<not> thinking_started (blocks s)) start_thinking_block
    (\<lambda>s. thinking_started (blocks s))"
proof (rule bld.emitsI)
  fix s :: sse_builder and c fs s' e
  let ?i = "next_index (blocks s)"
  assume inv: "builder_inv s c" and new: "\<not> thinking_started (blocks s)"
    and run: "start_thinking_block s = (fs, s', e)"
  have s': "s' = s\<lparr>blocks := (blocks s)\<lparr>next_index := ?i + 1, thinking_index := ?i, thinking_started := True\<rparr>\<rparr>"
      and fs: "fs = [content_block_start ?i (u ''thinking'') []]" and e: "e = None"
    using run by (simp_all add: start_thinking_block_def allocate_index_def)
  have "builder_inv s' (with_block ?i (u ''thinking'') c)"
    by (rule builder_inv_opened [OF inv])
      (use inv new in \<open>simp_all add: s' block_list_def Let_def builder_inv_def\<close>)
  then show "(\<exists>c'. contract_run a fs c = Inr c' \<and> builder_inv s' c') \<and>
      (e = None \<longrightarrow> thinking_started (blocks s'))"
    using start_block_run [OF inv, of "u ''thinking''" "[]" a] unfolding fs by (simp add: s')
qed

lemma start_text_ok: "bld.emits a (\<lambda>s. \<not> text_started (blocks s)) start_text_block
    (\<lambda>s. text_started (blocks s))"
proof (rule bld.emitsI)
  fix s :: sse_builder and c fs s' e
  let ?i = "next_index (blocks s)"
  assume inv: "builder_inv s c" and new: "\<not> text_started (blocks s)"
    and run: "start_text_block s = (fs, s', e)"
  have s': "s' = s\<lparr>blocks := (blocks s)\<lparr>next_index := ?i + 1, text_index := ?i, text_started := True\<rparr>\<rparr>"
      and fs: "fs = [content_block_start ?i (u ''text'') []]" and e: "e = None"
    using run by (simp_all add: start_text_block_def allocate_index_def)
  have "builder_inv s' (with_block ?i (u ''text'') c)"
    by (rule builder_inv_opened [OF inv])
      (use inv new in \<open>simp_all add: s' block_list_def Let_def builder_inv_def\<close>)
  then show "(\<exists>c'. contract_run a fs c = Inr c' \<and> builder_inv s' c') \<and>
      (e = None \<longrightarrow> text_started (blocks s'))"
    using start_block_run [OF inv, of "u ''text''" "[]" a] unfolding fs by (simp add: s')
qed


lemma stop_thinking_ok: "bld.emits a (\<lambda>s. thinking_started (blocks s)) stop_thinking_block
    (\<lambda>s. \<not> thinking_started (blocks s))"
proof (rule bld.emitsI)
  fix s :: sse_builder and c fs s' e
  assume inv: "builder_inv s c" and on: "thinking_started (blocks s)"
    and run: "stop_thinking_block s = (fs, s', e)"
  have s': "s' = s\<lparr>blocks := (blocks s)\<lparr>thinking_started := False\<rparr>\<rparr>"
      and fs: "fs = [content_block_stop (thinking_index (blocks s))]"
    using run by (simp_all add: stop_thinking_block_def)
  have "builder_inv s' (without_block (thinking_index (blocks s)) c)"
    by (rule builder_inv_closed [OF inv, of _ "u ''thinking''"])
      (use inv on in \<open>simp_all add: s' block_list_def Let_def builder_inv_def\<close>)
  then show "(\<exists>c'. contract_run a fs c = Inr c' \<and> builder_inv s' c') \<and>
      (e = None \<longrightarrow> \<not> thinking_started (blocks s'))"
    using stop_frame_step [OF thinking_open [OF inv on]] unfolding fs by (simp add: s')
qed

lemma stop_text_ok: "bld.emits a (\<lambda>s. text_started (blocks s)) stop_text_block
    (\<lambda>s. \<not> text_started (blocks s))"
proof (rule bld.emitsI)
  fix s :: sse_builder and c fs s' e
  assume inv: "builder_inv s c" and on: "text_started (blocks s)"
    and run: "stop_text_block s = (fs, s', e)"
  have s': "s' = s\<lparr>blocks := (blocks s)\<lparr>text_started := False\<rparr>\<rparr>"
      and fs: "fs = [content_block_stop (text_index (blocks s))]"
    using run by (simp_all add: stop_text_block_def)
  have "builder_inv s' (without_block (text_index (blocks s)) c)"
    by (rule builder_inv_closed [OF inv, of _ "u ''text''"])
      (use inv on in \<open>simp_all add: s' block_list_def Let_def builder_inv_def\<close>)
  then show "(\<exists>c'. contract_run a fs c = Inr c' \<and> builder_inv s' c') \<and>
      (e = None \<longrightarrow> \<not> text_started (blocks s'))"
    using stop_frame_step [OF text_open [OF inv on]] unfolding fs by (simp add: s')
qed

text \<open>A change of state that no block depends on.\<close>

lemma builder_inv_same:
  "builder_inv s c \<Longrightarrow> block_list s' = block_list s \<Longrightarrow> next_index (blocks s') = next_index (blocks s) \<Longrightarrow>
     text_index (blocks s') = text_index (blocks s) \<Longrightarrow> thinking_index (blocks s') = thinking_index (blocks s) \<Longrightarrow>
     dict_wf (tool_states (blocks s')) \<Longrightarrow> builder_inv s' c"
  by (simp add: builder_inv_def)

lemma inv_tools_wf [intro]: "builder_inv s c \<Longrightarrow> dict_wf (tool_states (blocks s))"
  by (simp add: builder_inv_def)

lemma thinking_delta_ok: "bld.emits a (\<lambda>s. thinking_started (blocks s)) (emit_thinking_delta t)
    (\<lambda>s. thinking_started (blocks s))"
proof (rule bld.emitsI)
  fix s :: sse_builder and c fs s' e
  assume inv: "builder_inv s c" and on: "thinking_started (blocks s)"
    and run: "emit_thinking_delta t s = (fs, s', e)"
  have "builder_inv s' c"
    by (rule builder_inv_same [OF inv])
      (use run inv in \<open>auto simp: emit_thinking_delta_def block_list_def\<close>)
  then show "(\<exists>c'. contract_run a fs c = Inr c' \<and> builder_inv s' c') \<and>
      (e = None \<longrightarrow> thinking_started (blocks s'))"
    using delta_frame_step [OF thinking_open [OF inv on], of "u ''thinking_delta''" a t] run on
    by (auto simp: emit_thinking_delta_def)
qed

lemma text_delta_ok: "bld.emits a (\<lambda>s. text_started (blocks s)) (emit_text_delta t)
    (\<lambda>s. text_started (blocks s))"
proof (rule bld.emitsI)
  fix s :: sse_builder and c fs s' e
  assume inv: "builder_inv s c" and on: "text_started (blocks s)"
    and run: "emit_text_delta t s = (fs, s', e)"
  have "builder_inv s' c"
    by (rule builder_inv_same [OF inv])
      (use run inv in \<open>auto simp: emit_text_delta_def block_list_def\<close>)
  then show "(\<exists>c'. contract_run a fs c = Inr c' \<and> builder_inv s' c') \<and>
      (e = None \<longrightarrow> text_started (blocks s'))"
    using delta_frame_step [OF text_open [OF inv on], of "u ''text_delta''" a t] run on
    by (auto simp: emit_text_delta_def)
qed

lemma ensure_text_ok: "bld.emits a (\<lambda>_. True) ensure_text_block (\<lambda>s. text_started (blocks s))"
  unfolding ensure_text_block_def
  by (intro bld.emits_seq [where Q = "\<lambda>_. True"] bld.emits_if bld.emits_weaken [OF stop_thinking_ok]
      bld.emits_weaken [OF start_text_ok]) simp_all

lemma ensure_thinking_ok:
  "bld.emits a (\<lambda>_. True) ensure_thinking_block (\<lambda>s. thinking_started (blocks s))"
  unfolding ensure_thinking_block_def
  by (intro bld.emits_seq [where Q = "\<lambda>_. True"] bld.emits_if bld.emits_weaken [OF stop_text_ok]
      bld.emits_weaken [OF start_thinking_ok]) simp_all


subsection \<open>Tool blocks\<close>

abbreviation tool_blocks :: "(int, tool_call_state) dict \<Rightarrow> (int \<times> pystr) list" where
  "tool_blocks ts \<equiv> map (\<lambda>(i, st). (block_index st, u ''tool_use'')) (filter (started \<circ> snd) ts)"

definition not_started :: "(int, tool_call_state) dict \<Rightarrow> int \<Rightarrow> bool" where
  "not_started ts t \<longleftrightarrow> (case dict_get ts t of None \<Rightarrow> True | Some st \<Rightarrow> \<not> started st)"

lemma tool_blocks_start:
  "not_started ts t \<Longrightarrow> dict_wf ts \<Longrightarrow> started st \<Longrightarrow>
     mset (tool_blocks (dict_set t st ts)) = add_mset (block_index st, u ''tool_use'') (mset (tool_blocks ts))"
  by (induction ts) (auto simp: not_started_def split: if_splits)

lemma tool_blocks_quiet:
  "not_started ts t \<Longrightarrow> \<not> started st \<Longrightarrow> tool_blocks (dict_set t st ts) = tool_blocks ts"
  by (induction ts) (auto simp: not_started_def split: if_splits)

lemma tool_blocks_same:
  "dict_get ts t = Some old \<Longrightarrow> started st = started old \<Longrightarrow> block_index st = block_index old \<Longrightarrow>
     tool_blocks (dict_set t st ts) = tool_blocks ts"
  by (induction ts) (auto split: if_splits)

text \<open>
  The bookkeeping methods of \<open>ContentBlockManager\<close> touch neither the open blocks nor the
  indexes: they may change a tool's state, not its block nor its \<open>started\<close> flag.
\<close>

definition same_blocks :: "content_blocks \<Rightarrow> content_blocks \<Rightarrow> bool" where
  "same_blocks b b' \<longleftrightarrow>
     next_index b' = next_index b \<and> thinking_index b' = thinking_index b \<and>
     text_index b' = text_index b \<and> thinking_started b' = thinking_started b \<and>
     text_started b' = text_started b \<and> tool_blocks (tool_states b') = tool_blocks (tool_states b) \<and>
     (\<forall>t. not_started (tool_states b') t = not_started (tool_states b) t) \<and>
     (dict_wf (tool_states b) \<longrightarrow> dict_wf (tool_states b'))"

lemma same_blocks_refl [simp]: "same_blocks b b"
  by (simp add: same_blocks_def)

lemma same_blocks_trans: "same_blocks a b \<Longrightarrow> same_blocks b c \<Longrightarrow> same_blocks a c"
  by (simp add: same_blocks_def)

lemma same_blocks_update:
  assumes "tool_state b t = Some old" "started st = started old" "block_index st = block_index old"
  shows "same_blocks b (set_tool_state t st b)"
  using assms tool_blocks_same [of "tool_states b" t old st]
  by (auto simp: same_blocks_def set_tool_state_def tool_state_def not_started_def dict_simps)

lemma same_blocks_new:
  assumes "tool_state b t = None" "\<not> started st"
  shows "same_blocks b (set_tool_state t st b)"
  using assms tool_blocks_quiet [of "tool_states b" t st]
  by (auto simp: same_blocks_def set_tool_state_def tool_state_def not_started_def dict_simps)

lemma same_blocks_then:
  "tool_state b t = Some old \<Longrightarrow> same_blocks a b \<Longrightarrow> started st = started old \<Longrightarrow>
     block_index st = block_index old \<Longrightarrow> same_blocks a (set_tool_state t st b)"
  using same_blocks_trans same_blocks_update by blast

lemma started_ToolCallState [simp]: "\<not> started (ToolCallState i t n)"
  by (simp add: ToolCallState_def)

lemma tool_state_set [simp]:
  "tool_state (set_tool_state t st b) t' = (if t' = t then Some st else tool_state b t')"
  by (simp add: tool_state_def set_tool_state_def dict_simps)

lemma same_blocks_ensure: "ensure_tool_state t b = (st, b') \<Longrightarrow> same_blocks b b' \<and> tool_state b' t = Some st"
  by (auto simp: ensure_tool_state_def same_blocks_new split: option.splits)

lemma same_blocks_set_id: "same_blocks b (set_stream_tool_id t tid b)"
  by (auto simp: set_stream_tool_id_def split: option.split prod.split
      dest!: same_blocks_ensure elim: same_blocks_then)

lemma same_blocks_set_extra: "same_blocks b (set_tool_extra_content t x b)"
  by (auto simp: set_tool_extra_content_def split: option.split prod.split
      dest!: same_blocks_ensure elim: same_blocks_then)

lemma same_blocks_name: "same_blocks b (register_tool_name t n b)"
  by (auto simp: register_tool_name_def split: option.split elim: same_blocks_then intro: same_blocks_new)

lemma same_blocks_task:
  assumes "buffer_task_args t args b = (r, b')"
  shows "same_blocks b b'"
proof (cases "tool_state b t")
  case (Some st)
  let ?st = "st\<lparr>task_arg_buffer := task_arg_buffer st @ args\<rparr>"
  have 1: "same_blocks b (set_tool_state t ?st b)"
    by (rule same_blocks_update [OF Some]) simp_all
  have 2: "same_blocks b (set_tool_state t (?st\<lparr>task_args_emitted := True, task_arg_buffer := []\<rparr>)
      (set_tool_state t ?st b))"
    by (rule same_blocks_then [where old = ?st]) (use 1 in simp_all)
  show ?thesis
    using assms Some 1 2 by (auto simp: buffer_task_args_def Let_def split: option.splits if_splits sum.splits)
qed (use assms in \<open>simp add: buffer_task_args_def\<close>)

lemma builder_inv_blocks:
  assumes "builder_inv s c" "same_blocks (blocks s) (blocks s')"
  shows "builder_inv s' c"
  by (rule builder_inv_same [OF assms(1)])
    (use assms in \<open>auto simp: same_blocks_def block_list_def Let_def builder_inv_def\<close>)

lemma quiet_ok:
  assumes "\<And>s. same_blocks (blocks s) (blocks (f s))" "\<And>s. P s \<Longrightarrow> Q (f s)"
  shows "bld.emits a P (emit_update f) Q"
  by (rule bld.emitsI) (use assms builder_inv_blocks in \<open>fastforce simp: emit_update_def\<close>)

definition tool_open_for :: "int \<Rightarrow> sse_builder \<Rightarrow> bool" where
  "tool_open_for t s \<longleftrightarrow> \<not> not_started (tool_states (blocks s)) t"

lemma tool_open_forD: "tool_open_for t s \<Longrightarrow> \<exists>st. tool_state (blocks s) t = Some st \<and> started st"
  by (auto simp: tool_open_for_def not_started_def tool_state_def split: option.splits)

lemma start_tool_ok: "bld.emits a (\<lambda>s. \<not> tool_open_for t s) (start_tool_block t tid name x) (tool_open_for t)"
proof (rule bld.emitsI)
  fix s :: sse_builder and c fs s' e
  let ?i = "next_index (blocks s)"
  assume inv: "builder_inv s c" and new: "\<not> tool_open_for t s"
    and run: "start_tool_block t tid name x s = (fs, s', e)"
  obtain st kw where s': "s' = s\<lparr>blocks := set_tool_state t st ((blocks s)\<lparr>next_index := ?i + 1\<rparr>)\<rparr>"
      and st: "started st" "block_index st = ?i"
      and fs: "fs = [content_block_start ?i (u ''tool_use'') kw]" and kw: "dict_get kw (u ''text'') = None"
    using run by (auto simp: start_tool_block_def allocate_index_def Let_def ToolCallState_def split: option.splits)
  have ts: "mset (tool_blocks (dict_set t st (tool_states (blocks s))))
      = add_mset (?i, u ''tool_use'') (mset (tool_blocks (tool_states (blocks s))))"
    using tool_blocks_start [of "tool_states (blocks s)" t st] new inv_tools_wf [OF inv] st
    by (simp add: tool_open_for_def)
  have "builder_inv s' (with_block ?i (u ''tool_use'') c)"
    by (rule builder_inv_opened [OF inv])
      (use inv_tools_wf [OF inv] ts in \<open>simp_all add: s' block_list_def Let_def set_tool_state_def dict_wf_set\<close>)
  moreover have "tool_open_for t s'"
    by (simp add: s' tool_open_for_def not_started_def set_tool_state_def dict_simps st)
  ultimately show "(\<exists>c'. contract_run a fs c = Inr c' \<and> builder_inv s' c') \<and> (e = None \<longrightarrow> tool_open_for t s')"
    using start_block_run [OF inv _ kw, of "u ''tool_use''" a] unfolding fs by simp
qed

lemma tool_delta_ok: "bld.emits a (tool_open_for t) (emit_tool_delta t j) (tool_open_for t)"
proof (rule bld.emitsI)
  fix s :: sse_builder and c fs s' e
  assume inv: "builder_inv s c" and on: "tool_open_for t s" and run: "emit_tool_delta t j s = (fs, s', e)"
  obtain st where st: "tool_state (blocks s) t = Some st" "started st"
    using tool_open_forD [OF on] by blast
  let ?b = "set_tool_state t (st\<lparr>contents := contents st @ [j]\<rparr>) (blocks s)"
  have s': "s' = s\<lparr>blocks := ?b\<rparr>"
      and fs: "fs = [content_block_delta (block_index st) (u ''input_json_delta'') j]"
    using run st by (simp_all add: emit_tool_delta_def)
  have same: "same_blocks (blocks s) ?b"
    by (rule same_blocks_update [OF st(1)]) simp_all
  have "builder_inv s' c"
    by (rule builder_inv_blocks [OF inv]) (simp add: s' same)
  moreover have "tool_open_for t s'"
    using on same by (simp add: s' same_blocks_def tool_open_for_def)
  ultimately show "(\<exists>c'. contract_run a fs c = Inr c' \<and> builder_inv s' c') \<and> (e = None \<longrightarrow> tool_open_for t s')"
    using delta_frame_step [OF tool_open [OF inv st], of "u ''input_json_delta''" a j] by (simp add: fs)
qed


subsection \<open>Closing\<close>

definition all_closed :: "sse_builder \<Rightarrow> contract_state \<Rightarrow> bool" where
  "all_closed s c \<longleftrightarrow> open_blocks c = [] \<and> (\<forall>i \<in> seen_blocks c. i < next_index (blocks s))"

lemma close_content_ok: "bld.emits a (\<lambda>_. True) close_content_blocks
    (\<lambda>s. \<not> thinking_started (blocks s) \<and> \<not> text_started (blocks s))"
proof (rule bld.emitsI)
  fix s :: sse_builder and c fs s' e
  assume inv: "builder_inv s c" and run: "close_content_blocks s = (fs, s', e)"
  have "bld.emits a (\<lambda>_. True) close_content_blocks (\<lambda>s. \<not> text_started (blocks s))"
    unfolding close_content_blocks_def
    by (intro bld.emits_seq [where Q = "\<lambda>_. True"] bld.emits_if bld.emits_weaken [OF stop_thinking_ok]
        bld.emits_weaken [OF stop_text_ok]) simp_all
  moreover have "\<not> thinking_started (blocks s')"
    using run by (auto simp: close_content_blocks_def emit_seq_def emit_if_def stop_thinking_block_def
        stop_text_block_def split: if_splits)
  ultimately show "(\<exists>c'. contract_run a fs c = Inr c' \<and> builder_inv s' c') \<and>
      (e = None \<longrightarrow> \<not> thinking_started (blocks s') \<and> \<not> text_started (blocks s'))"
    using bld.emitsD [of a "\<lambda>_. True" close_content_blocks "\<lambda>s. \<not> text_started (blocks s)" s c, OF _ inv TrueI run]
    by blast
qed

lemma close_content_exn: "close_content_blocks s = (fs, s', e) \<Longrightarrow> e = None"
  by (auto simp: close_content_blocks_def emit_seq_def emit_if_def stop_thinking_block_def
      stop_text_block_def split: if_splits)

lemma close_content_state:
  "close_content_blocks s = (fs, s', e) \<Longrightarrow>
     tool_states (blocks s') = tool_states (blocks s) \<and> next_index (blocks s') = next_index (blocks s)"
  by (auto simp: close_content_blocks_def emit_seq_def emit_if_def stop_thinking_block_def
      stop_text_block_def split: if_splits)

lemma close_tools_frames:
  assumes "\<And>i st. (i, st) \<in> set items \<Longrightarrow> tool_state (blocks s) i = Some st"
  shows "emit_list (\<lambda>(i, st). if started st then stop_tool_block i else emit_none) items s
           = (map (content_block_stop \<circ> fst) (tool_blocks items), s, None)"
  using assms
proof (induction items)
  case (Cons x items)
  obtain i st where x: "x = (i, st)" by (cases x)
  have "tool_state (blocks s) i = Some st" by (rule Cons.prems) (simp add: x)
  moreover have "emit_list (\<lambda>(i, st). if started st then stop_tool_block i else emit_none) items s
      = (map (content_block_stop \<circ> fst) (tool_blocks items), s, None)"
    by (rule Cons.IH) (use Cons.prems in auto)
  ultimately show ?case by (simp add: emit_seq_def stop_tool_block_def emit_none_def x comp_def)
qed (simp add: emit_none_def)

lemma stop_frames_run:
  "dict_wf (open_blocks c) \<Longrightarrow> mset (open_blocks c) = mset bl \<Longrightarrow>
     contract_run a (map (content_block_stop \<circ> fst) bl) c = Inr (c\<lparr>open_blocks := []\<rparr>)"
proof (induction bl arbitrary: c)
  case (Cons x bl)
  have x: "(fst x, snd x) \<in> set (open_blocks c)"
    using Cons.prems(2) by (metis list.set_intros(1) prod.collapse set_mset_mset)
  then have "dict_get (open_blocks c) (fst x) = Some (snd x)" using Cons.prems(1) by simp
  moreover have "mset (dict_pop (fst x) (open_blocks c)) = mset bl"
    using dict_pop_mset [OF Cons.prems(1) x] Cons.prems(2) by simp
  ultimately show ?case
    using Cons.IH [of "without_block (fst x) c"] Cons.prems(1) stop_frame_step [of c "fst x" "snd x" a]
    by (simp add: dict_wf_pop)
qed simp

lemma close_tools_ok:
  assumes "builder_inv s c" "\<not> thinking_started (blocks s)" "\<not> text_started (blocks s)"
  shows "\<exists>fs. close_tool_blocks s = (fs, s, None) \<and> contract_run a fs c = Inr (c\<lparr>open_blocks := []\<rparr>)"
proof -
  have "tool_state (blocks s) i = Some st" if "(i, st) \<in> set (tool_states (blocks s))" for i st
    using that inv_tools_wf [OF assms(1)] by (simp add: tool_state_def)
  then have "close_tool_blocks s = (map (content_block_stop \<circ> fst) (tool_blocks (tool_states (blocks s))), s, None)"
    using close_tools_frames [of "tool_states (blocks s)" s] by (simp add: close_tool_blocks_def)
  moreover have "dict_wf (open_blocks c)" "mset (open_blocks c) = mset (tool_blocks (tool_states (blocks s)))"
    using assms by (simp_all add: builder_inv_def block_list_def Let_def)
  ultimately show ?thesis using stop_frames_run by blast
qed

lemma close_all_ok:
  assumes "builder_inv s c" "close_all_blocks s = (fs, s', e)"
  shows "e = None \<and> tool_states (blocks s') = tool_states (blocks s) \<and>
    (\<exists>c'. contract_run a fs c = Inr c' \<and> all_closed s' c' \<and> seen_blocks c \<subseteq> seen_blocks c')"
proof -
  obtain xs s1 e1 where 1: "close_content_blocks s = (xs, s1, e1)" by (metis prod_cases3)
  have e1: "e1 = None" by (rule close_content_exn [OF 1])
  obtain c1 where c1: "contract_run a xs c = Inr c1" "builder_inv s1 c1"
      "\<not> thinking_started (blocks s1)" "\<not> text_started (blocks s1)"
    using bld.emitsD [OF close_content_ok assms(1) TrueI 1] e1 by auto
  obtain ys where 2: "close_tool_blocks s1 = (ys, s1, None)"
      "contract_run a ys c1 = Inr (c1\<lparr>open_blocks := []\<rparr>)"
    using close_tools_ok [OF c1(2-4)] by blast
  have "fs = xs @ ys" "s' = s1" "e = None"
    using assms(2) 1 2 e1 by (simp_all add: close_all_blocks_def emit_seq_def)
  moreover have "all_closed s1 (c1\<lparr>open_blocks := []\<rparr>)"
    using c1(2) by (simp add: all_closed_def builder_inv_def)
  ultimately show ?thesis
    using contract_run_appendI [OF c1(1) 2(2)] contract_seen_mono [OF c1(1)]
      close_content_state [OF 1] by auto
qed

text \<open>Once everything is closed, an error text is a block of its own.\<close>

lemma emit_error_ok:
  assumes "all_closed s c" "emit_error msg s = (fs, s', e)"
  shows "e = None \<and> (\<exists>c'. contract_run a fs c = Inr c' \<and> all_closed s' c' \<and> seen_blocks c' \<noteq> {})"
proof -
  let ?i = "next_index (blocks s)"
  let ?c1 = "c\<lparr>open_blocks := [(?i, u ''text'')], seen_blocks := insert ?i (seen_blocks c)\<rparr>"
  have fs: "fs = [content_block_start ?i (u ''text'') [], content_block_delta ?i (u ''text_delta'') msg,
      content_block_stop ?i]" and s': "next_index (blocks s') = ?i + 1" and e: "e = None"
    using assms(2) by (auto simp: emit_error_def allocate_index_def)
  have "?i \<notin> seen_blocks c" "open_blocks c = []"
    using assms(1) by (auto simp: all_closed_def)
  then have "contract_step a (content_block_start ?i (u ''text'') []) c = Inr ?c1"
    using start_frame_step [of "u ''text''" "[]" ?i c a] by simp
  moreover have "contract_step a (content_block_delta ?i (u ''text_delta'') msg) ?c1 = Inr ?c1"
    by (rule delta_frame_step [where k = "u ''text''"]) simp_all
  moreover have "contract_step a (content_block_stop ?i) ?c1 = Inr (without_block ?i ?c1)"
    by (rule stop_frame_step [where k = "u ''text''"]) simp
  ultimately have "contract_run a fs c = Inr (without_block ?i ?c1)" by (simp add: fs)
  moreover have "all_closed s' (without_block ?i ?c1)"
    using assms(1) by (auto simp: all_closed_def s')
  ultimately show ?thesis using e by auto
qed

definition neutral :: "frame \<Rightarrow> bool" where
  "neutral f \<longleftrightarrow> fst f \<notin> {u ''error'', u ''content_block_start'', u ''content_block_delta'', u ''content_block_stop''}"

lemma neutral_step: "neutral f \<Longrightarrow> contract_step a f c = Inr c"
  by (cases f) (auto simp: neutral_def contract_step_def)

lemma neutral_run: "list_all neutral fs \<Longrightarrow> contract_run a fs c = Inr c"
  by (induction fs) (auto simp: neutral_step)

lemma neutral_ok: "(\<And>s. P s \<Longrightarrow> Q s) \<Longrightarrow> neutral f \<Longrightarrow> bld.emits a P (emit_frame f) Q"
  by (rule bld.emitsI) (auto simp: emit_frame_def neutral_step)

text \<open>The builder at its start.\<close>

lemma builder_inv_init: "builder_inv (SSEBuilder_init mid mdl toks) contract_init"
  by (simp add: builder_inv_def SSEBuilder_init_def ContentBlockManager_init_def block_list_def contract_init_def)

section \<open>The wire\<close>

definition frame_event :: "frame \<Rightarrow> sse_event" where
  "frame_event f =
     \<lparr>ev_name = fst f, ev_data = snd f,
      ev_raw = u ''event: '' @ fst f @ [10] @ u ''data: '' @ json_dumps (snd f)\<rparr>"

text \<open>A frame whose name is a printable word and whose payload is a dict of JSON values.\<close>

definition frame_ok :: "frame \<Rightarrow> bool" where
  "frame_ok f \<longleftrightarrow>
     fst f \<noteq> [] \<and> list_all ascii_printable (fst f) \<and> hd (fst f) \<noteq> 32 \<and> last (fst f) \<noteq> 32 \<and>
     is_dict (snd f) \<and> json_ok (snd f)"

lemma printable_no_linebreak: "ascii_printable c \<Longrightarrow> \<not> is_linebreak c"
  by (auto simp: ascii_printable_def is_linebreak_def)

lemma printable_space: "ascii_printable c \<Longrightarrow> is_space c \<longleftrightarrow> c = 32"
  by (auto simp: ascii_printable_def is_space_def)

lemma rstrip_crlf_printable: "list_all ascii_printable s \<Longrightarrow> rstrip_crlf s = s"
proof (cases s rule: rev_cases)
  case (snoc t c)
  assume "list_all ascii_printable s"
  then show ?thesis by (simp add: snoc rstrip_crlf_def ascii_printable_def)
qed (simp add: rstrip_crlf_def)

lemma printable_line: "list_all ascii_printable s \<Longrightarrow>
    str_splitlines (s @ 10 # r) = s # str_splitlines r"
  using splitlines_line [of s "[]" r] printable_no_linebreak
  by (simp add: str_splitlines_def list_all_iff)

lemma dumps_dict_ends:
  "is_dict d \<Longrightarrow> json_dumps d \<noteq> [] \<and> hd (json_dumps d) = 123 \<and> last (json_dumps d) = 125"
  by (cases d) (simp_all add: json_dumps_def)

lemma strip_dumps: "is_dict d \<Longrightarrow> str_strip (json_dumps d) = json_dumps d"
  using dumps_dict_ends [of d] by (intro strip_plain_ends) (auto simp: is_space_def)

lemma after_colon_event: "after_colon (u ''event: '' @ s) = str_strip s"
  by (simp add: after_colon_def str_eval)

lemma after_colon_data: "after_colon (u ''data: '' @ s) = str_strip s"
  by (simp add: after_colon_def str_eval)

lemma line_prefixes:
  "prefix (u ''event:'') (u ''event: '' @ s)" "prefix (u ''data:'') (u ''data: '' @ s)"
  "\<not> prefix (u ''event:'') (u ''data: '' @ s)"
  by (simp_all add: str_eval)

lemma printable_prefix: "list_all ascii_printable (u ''event: '')" "list_all ascii_printable (u ''data: '')"
  by (simp_all add: str_eval)

lemma event_data_dumps: "is_dict d \<Longrightarrow> json_ok d \<Longrightarrow> event_data (json_dumps d) = d"
  using dumps_dict_ends [of d] by (simp add: event_data_def dumps_loads)

lemma parse_one_frame:
  assumes "frame_ok f"
  shows "parse_sse_text (format_sse_event (fst f) (snd f) @ r) = frame_event f # parse_sse_text r"
proof -
  obtain e d where f: "f = (e, d)" by (cases f)
  note ok = assms [unfolded frame_ok_def f fst_conv snd_conv]
  let ?l1 = "u ''event: '' @ e" and ?l2 = "u ''data: '' @ json_dumps d"
  have p1: "list_all ascii_printable ?l1" using ok printable_prefix by simp
  have p2: "list_all ascii_printable ?l2" using ok printable_prefix printable_dumps by simp
  have "format_sse_event e d @ r = ?l1 @ 10 # ?l2 @ 10 # [] @ 10 # r"
    by (simp add: format_sse_event_def)
  then have lines: "str_splitlines (format_sse_event e d @ r) = ?l1 # ?l2 # [] # str_splitlines r"
    using printable_line [OF p1] printable_line [OF p2] printable_line [of "[]" r] by simp
  have "list_all ascii_printable e" "e \<noteq> []" using ok by simp_all
  then have "\<not> is_space (hd e) \<and> \<not> is_space (last e)"
    using ok printable_space by (metis last_in_set list.pred_set list.set_sel(1))
  then have "str_strip e = e" using ok strip_plain_ends by blast
  moreover have "str_strip (json_dumps d) = json_dumps d" using ok strip_dumps by blast
  moreover have "rstrip_crlf [] = []" by (simp add: rstrip_crlf_def)
  moreover have "?l1 \<noteq> []" "?l2 \<noteq> []" by simp_all
  ultimately show ?thesis
    using ok
    by (simp add: f parse_sse_text_def parse_sse_lines_def lines Let_def rstrip_crlf_printable [OF p1]
        rstrip_crlf_printable [OF p2] line_prefixes after_colon_event after_colon_data append_event_def
        event_data_dumps frame_event_def)
qed

text \<open>
  C22 (roundtrip): parsing the wire text of any list of frames gives back exactly those
  events, in order: no payload can break the framing, whatever characters its strings hold.
\<close>

theorem wire_roundtrip:
  "list_all frame_ok fs \<Longrightarrow> parse_sse_text (wire fs) = map frame_event fs"
proof (induction fs)
  case Nil
  then show ?case
    by (simp add: wire_def parse_sse_text_def parse_sse_lines_def str_splitlines_def append_event_def)
next
  case (Cons f fs)
  then have "parse_sse_text (wire fs) = map frame_event fs" by simp
  then show ?case using parse_one_frame [of f "wire fs"] Cons.prems
    by (simp add: wire_def case_prod_beta)
qed

lemma wire_roundtrip_witness:
  "parse_sse_text (wire [(u ''ping'', JObj [(u ''k'', JStr [10, 34, 8232])])])
     = [frame_event (u ''ping'', JObj [(u ''k'', JStr [10, 34, 8232])])]"
  using wire_roundtrip [of "[(u ''ping'', JObj [(u ''k'', JStr [10, 34, 8232])])]"]
  by (simp add: frame_ok_def scalar_value_def u_def ascii_printable_def)

lemma contract_on_wire:
  "list_all frame_ok fs \<Longrightarrow> assert_anthropic_stream_contract a (map frame_event fs) = check_contract a fs"
  by (simp add: assert_anthropic_stream_contract_def comp_def frame_event_def)

end
