(* ===== verification/Recovery.thy ===== *)
theory Recovery
  imports Complex_Main PyJson "HOL-Library.Sublist"
begin

text \<open>
  Recovery from truncated provider streams (\<open>core/anthropic/stream_recovery.py\<close>): the
  holdback buffer that delays the first events so that an early cut can be retried unseen,
  the classification of errors, the append-only repair of cut tool arguments and text, and
  the continuation requests.  The JSON-schema validator is a parameter.
\<close>

definition EARLY_TRANSPARENT_TOTAL_ATTEMPTS :: nat where
  "EARLY_TRANSPARENT_TOTAL_ATTEMPTS = 5"

definition EARLY_TRANSPARENT_MAX_RETRIES :: nat where
  "EARLY_TRANSPARENT_MAX_RETRIES = EARLY_TRANSPARENT_TOTAL_ATTEMPTS - 1"

definition MIDSTREAM_RECOVERY_ATTEMPTS :: nat where
  "MIDSTREAM_RECOVERY_ATTEMPTS = 5"

definition EARLY_HOLDBACK_SECONDS :: rat where
  "EARLY_HOLDBACK_SECONDS = 3 / 4"

definition RECOVERY_BUFFER_MAX_BYTES :: nat where
  "RECOVERY_BUFFER_MAX_BYTES = 65536"

section \<open>The holdback buffer\<close>

text \<open>
  The length of \<open>event.encode("utf-8", errors="replace")\<close>: a lone surrogate becomes one
  question mark.
\<close>

definition utf8_size :: "nat \<Rightarrow> nat" where
  "utf8_size c =
     (if c < 128 then 1 else if c < 2048 then 2 else if 55296 \<le> c \<and> c \<le> 57343 then 1
      else if c < 65536 then 3 else 4)"

definition utf8_len :: "pystr \<Rightarrow> nat" where
  "utf8_len s = sum_list (map utf8_size s)"

text \<open>
  The buffer, for any kind of event whose size in bytes is known.  The clock is the sequence
  of the readings \<open>now()\<close> gives; the index of the next reading is threaded through.
\<close>

record 'e holdback =
  hb_seconds :: rat
  hb_max_bytes :: nat
  hb_events :: "'e list"
  hb_bytes :: nat
  hb_started_at :: "rat option"
  hb_committed :: bool

definition RecoveryHoldbackBuffer :: "'e holdback" where
  "RecoveryHoldbackBuffer =
     \<lparr>hb_seconds = EARLY_HOLDBACK_SECONDS, hb_max_bytes = RECOVERY_BUFFER_MAX_BYTES,
      hb_events = [], hb_bytes = 0, hb_started_at = None, hb_committed = False\<rparr>"

definition hb_flush :: "'e holdback \<Rightarrow> 'e list \<times> 'e holdback" where
  "hb_flush h =
     (if hb_committed h then ([], h)
      else (hb_events h, h\<lparr>hb_committed := True, hb_events := [], hb_bytes := 0, hb_started_at := None\<rparr>))"

definition hb_discard :: "'e holdback \<Rightarrow> 'e holdback" where
  "hb_discard h = h\<lparr>hb_events := [], hb_bytes := 0, hb_started_at := None\<rparr>"

definition hb_has_buffered :: "'e holdback \<Rightarrow> bool" where
  "hb_has_buffered h \<longleftrightarrow> hb_events h \<noteq> []"

definition hb_push ::
  "(nat \<Rightarrow> rat) \<Rightarrow> ('e \<Rightarrow> nat) \<Rightarrow> 'e \<Rightarrow> 'e holdback \<times> nat \<Rightarrow> 'e list \<times> 'e holdback \<times> nat" where
  "hb_push now bytes event hn =
     (case hn of (h, n) \<Rightarrow>
        if hb_committed h then ([event], h, n)
        else
          let (started, n1) = (case hb_started_at h of Some t \<Rightarrow> (t, n) | None \<Rightarrow> (now n, Suc n));
              h1 = h\<lparr>hb_started_at := Some started, hb_events := hb_events h @ [event],
                     hb_bytes := hb_bytes h + bytes event\<rparr> in
          if hb_max_bytes h1 \<le> hb_bytes h1 then (case hb_flush h1 of (out, h2) \<Rightarrow> (out, h2, n1))
          else if hb_seconds h1 \<le> now n1 - started then (case hb_flush h1 of (out, h2) \<Rightarrow> (out, h2, Suc n1))
          else ([], h1, Suc n1))"

fun hb_push_all ::
  "(nat \<Rightarrow> rat) \<Rightarrow> ('e \<Rightarrow> nat) \<Rightarrow> 'e list \<Rightarrow> 'e holdback \<times> nat \<Rightarrow> 'e list \<times> 'e holdback \<times> nat" where
  "hb_push_all now bytes [] hn = ([], hn)"
| "hb_push_all now bytes (e # es) hn =
     (case hb_push now bytes e hn of
        (out, hn1) \<Rightarrow> (case hb_push_all now bytes es hn1 of (out2, hn2) \<Rightarrow> (out @ out2, hn2)))"

definition hb_ok :: "'e holdback \<Rightarrow> bool" where
  "hb_ok h \<longleftrightarrow> (hb_committed h \<longrightarrow> hb_events h = [])"

lemma hb_ok_init [simp]: "hb_ok RecoveryHoldbackBuffer" "hb_events RecoveryHoldbackBuffer = []"
  "\<not> hb_committed RecoveryHoldbackBuffer"
  by (simp_all add: hb_ok_def RecoveryHoldbackBuffer_def)

text \<open>Nothing is lost, duplicated or reordered between what comes out and what is held.\<close>

lemma hb_push_conserves:
  assumes "hb_push now bytes e (h, n) = (out, h', n')" "hb_ok h"
  shows "hb_ok h' \<and> out @ hb_events h' = hb_events h @ [e] \<and> (\<not> hb_committed h' \<longrightarrow> out = []) \<and>
    (hb_committed h \<longrightarrow> hb_committed h')"
  using assms
  by (auto simp: hb_push_def hb_flush_def hb_ok_def Let_def split: if_splits option.splits prod.splits)

lemma hb_push_all_conserves:
  "hb_push_all now bytes es (h, n) = (out, h', n') \<Longrightarrow> hb_ok h \<Longrightarrow>
     hb_ok h' \<and> out @ hb_events h' = hb_events h @ es \<and> (\<not> hb_committed h' \<longrightarrow> out = []) \<and>
     (hb_committed h \<longrightarrow> hb_committed h')"
proof (induction es arbitrary: h n out h' n')
  case (Cons e es)
  obtain o1 h1 n1 where 1: "hb_push now bytes e (h, n) = (o1, h1, n1)" by (metis prod_cases3)
  obtain o2 h2 n2 where 2: "hb_push_all now bytes es (h1, n1) = (o2, h2, n2)" by (metis prod_cases3)
  have "out = o1 @ o2" "h' = h2" using Cons.prems(1) 1 2 by simp_all
  then show ?case
    using hb_push_conserves [OF 1 Cons.prems(2)] Cons.IH [OF 2] by auto
qed simp

lemma hb_flush_conserves: "hb_flush h = (out, h') \<Longrightarrow> hb_ok h \<Longrightarrow> hb_ok h' \<and> out = hb_events h \<and> hb_events h' = []"
  by (auto simp: hb_flush_def hb_ok_def split: if_splits)


section \<open>Retryable errors\<close>

definition is_retryable_stream_error :: "py_exn \<Rightarrow> bool" where
  "is_retryable_stream_error e =
     (case e of
        TruncatedProviderStreamError \<Rightarrow> True
      | AuthenticationError \<Rightarrow> False
      | BadRequestError \<Rightarrow> False
      | HTTPStatusError status \<Rightarrow> status = 429 \<or> (500 \<le> status \<and> status \<le> 599)
      | RateLimitError \<Rightarrow> True
      | APIStatusError status \<Rightarrow>
          (case status of None \<Rightarrow> False | Some n \<Rightarrow> n = 429 \<or> (500 \<le> n \<and> n \<le> 599))
      | TimeoutException \<Rightarrow> True
      | ReadTimeout \<Rightarrow> True
      | ReadError \<Rightarrow> True
      | RemoteProtocolError \<Rightarrow> True
      | ConnectError \<Rightarrow> True
      | NetworkError \<Rightarrow> True
      | APITimeoutError \<Rightarrow> True
      | APIConnectionError \<Rightarrow> True
      | _ \<Rightarrow> False)"

section \<open>Tool schemas\<close>

record tool_schema =
  ts_name :: pystr
  ts_input_schema :: json

definition default_schema :: json where
  "default_schema = JObj [(u ''type'', JStr (u ''object''))]"

text \<open>\<open>tool_schemas_by_name\<close>, over the request's tools as dicts.\<close>

definition add_tool_schema :: "(pystr, tool_schema) dict \<Rightarrow> json \<Rightarrow> (pystr, tool_schema) dict" where
  "add_tool_schema d tool =
     (case jget (u ''name'') tool of
        JStr name \<Rightarrow>
          if name = [] then d
          else let schema = jget (u ''input_schema'') tool in
               dict_set name \<lparr>ts_name = name, ts_input_schema = (if is_dict schema then schema else default_schema)\<rparr> d
      | _ \<Rightarrow> d)"

definition tool_schemas_by_name :: "json list \<Rightarrow> (pystr, tool_schema) dict" where
  "tool_schemas_by_name tools = foldl add_tool_schema [] tools"

text \<open>
  The validator: \<open>None\<close> when the schema itself is invalid (\<open>SchemaError\<close>), else whether the
  input satisfies it.
\<close>

type_synonym validator = "json \<Rightarrow> json \<Rightarrow> bool option"

definition validate_tool_input ::
  "validator \<Rightarrow> pystr \<Rightarrow> json \<Rightarrow> (pystr, tool_schema) dict \<Rightarrow> bool" where
  "validate_tool_input validates name input schemas =
     (case dict_get schemas name of
        None \<Rightarrow> True
      | Some sc \<Rightarrow> (case validates (ts_input_schema sc) input of None \<Rightarrow> True | Some b \<Rightarrow> b))"

definition parse_complete_tool_input ::
  "validator \<Rightarrow> pystr \<Rightarrow> pystr \<Rightarrow> (pystr, tool_schema) dict \<Rightarrow> json option" where
  "parse_complete_tool_input validates raw name schemas =
     (case json_loads raw of
        None \<Rightarrow> None
      | Some parsed \<Rightarrow>
          if \<not> is_dict parsed then None
          else if \<not> validate_tool_input validates name parsed schemas then None
          else Some parsed)"

section \<open>Repairs\<close>

definition FENCE :: pystr where "FENCE = u ''```''"

definition unfence :: "pystr \<Rightarrow> pystr" where
  "unfence raw =
     (if str_startswith raw FENCE then
        let ls = str_splitlines raw;
            ls1 = (if ls \<noteq> [] \<and> str_startswith (hd ls) FENCE then tl ls else ls);
            ls2 = (if ls1 \<noteq> [] \<and> str_strip (last ls1) = FENCE then butlast ls1 else ls1)
        in str_strip (str_join [10] ls2)
      else raw)"

text \<open>\<open>_repair_suffix_candidates\<close>; \<open>dict.fromkeys\<close> drops repetitions.\<close>

definition repair_suffix_candidates :: "pystr \<Rightarrow> pystr \<Rightarrow> pystr list" where
  "repair_suffix_candidates prefx candidate =
     (let raw = str_strip candidate in
      if raw = [] then []
      else let raw1 = unfence raw;
               cut = drop (length prefx) raw1 in
           if str_startswith raw1 prefx \<and> cut \<noteq> raw1 then [raw1, cut] else [raw1])"

record tool_repair =
  tr_suffix :: pystr
  tr_parsed_input :: json

fun first_repair ::
  "validator \<Rightarrow> pystr \<Rightarrow> pystr \<Rightarrow> (pystr, tool_schema) dict \<Rightarrow> pystr list \<Rightarrow> tool_repair option" where
  "first_repair v prefx name schemas [] = None"
| "first_repair v prefx name schemas (s # ss) =
     (case parse_complete_tool_input v (prefx @ s) name schemas of
        Some parsed \<Rightarrow> Some \<lparr>tr_suffix = s, tr_parsed_input = parsed\<rparr>
      | None \<Rightarrow> first_repair v prefx name schemas ss)"

definition accept_tool_json_repair ::
  "validator \<Rightarrow> pystr \<Rightarrow> pystr \<Rightarrow> pystr \<Rightarrow> (pystr, tool_schema) dict \<Rightarrow> tool_repair option" where
  "accept_tool_json_repair v prefx candidate name schemas =
     first_repair v prefx name schemas (repair_suffix_candidates prefx candidate)"

lemma first_repair_sound:
  "first_repair v prefx name schemas ss = Some r \<Longrightarrow>
     tr_suffix r \<in> set ss \<and>
     parse_complete_tool_input v (prefx @ tr_suffix r) name schemas = Some (tr_parsed_input r)"
  by (induction ss) (auto split: option.splits)

lemma parse_complete_sound:
  "parse_complete_tool_input v raw name schemas = Some j \<Longrightarrow>
     json_loads raw = Some j \<and> is_dict j \<and> validate_tool_input v name j schemas"
  by (auto simp: parse_complete_tool_input_def split: option.splits if_splits)

text \<open>
  An accepted repair only appends: what was already emitted, followed by the
  accepted suffix, is a complete JSON object the tool's schema does not reject, and the
  suffix comes from the model's reply.
\<close>

theorem accepted_repair_completes:
  "accept_tool_json_repair v prefx candidate name schemas = Some r \<Longrightarrow>
     json_loads (prefx @ tr_suffix r) = Some (tr_parsed_input r) \<and> is_dict (tr_parsed_input r) \<and>
     validate_tool_input v name (tr_parsed_input r) schemas \<and>
     tr_suffix r \<in> set (repair_suffix_candidates prefx candidate)"
  using first_repair_sound [of v prefx name schemas] parse_complete_sound
  by (fastforce simp: accept_tool_json_repair_def)

lemma accepted_repair_completes_witness:
  "json_loads (u ''{\"a\":1'' @ u ''}'') = Some (JObj [(u ''a'', JInt 1)]) \<and> is_dict (JObj [(u ''a'', JInt 1)]) \<and>
     validate_tool_input (\<lambda>_ _. Some True) (u ''t'') (JObj [(u ''a'', JInt 1)]) [] \<and>
     u ''}'' \<in> set (repair_suffix_candidates (u ''{\"a\":1'') (u ''}''))"
proof -
  have "accept_tool_json_repair (\<lambda>_ _. Some True) (u ''{\"a\":1'') (u ''}'') (u ''t'') []
      = Some \<lparr>tr_suffix = u ''}'', tr_parsed_input = JObj [(u ''a'', JInt 1)]\<rparr>"
    by code_simp
  from accepted_repair_completes [OF this] show ?thesis by simp
qed

text \<open>
  The reply is stripped before it is taken as a suffix: a string argument that was cut
  before a space is repaired without the space.
\<close>

lemma repair_drops_space:
  "accept_tool_json_repair (\<lambda>_ _. Some True) (u ''{\"a\":\"x'') (u '' y\"}'') (u ''t'') []
     = Some \<lparr>tr_suffix = u ''y\"}'', tr_parsed_input = JObj [(u ''a'', JStr (u ''xy''))]\<rparr>"
  by code_simp

text \<open>\<open>continuation_suffix\<close>: the loop tries the overlaps from the longest down.\<close>

fun overlap_from :: "pystr \<Rightarrow> pystr \<Rightarrow> nat \<Rightarrow> nat option" where
  "overlap_from existing candidate 0 = None"
| "overlap_from existing candidate (Suc n) =
     (if str_endswith existing (take (Suc n) candidate) then Some (Suc n)
      else overlap_from existing candidate n)"

definition continuation_suffix :: "pystr \<Rightarrow> pystr \<Rightarrow> pystr option" where
  "continuation_suffix existing candidate =
     (if candidate = [] then Some []
      else if existing = [] then Some candidate
      else if str_startswith candidate existing then Some (drop (length existing) candidate)
      else case overlap_from existing candidate (min (length existing) (length candidate)) of
             Some n \<Rightarrow> Some (drop n candidate)
           | None \<Rightarrow>
               if length candidate < max 200 (length existing div 2) then Some candidate else None)"

lemma overlap_from_Some:
  "overlap_from e c n = Some k \<Longrightarrow>
     k \<le> n \<and> 0 < k \<and> suffix (take k c) e \<and> (\<forall>j. k < j \<longrightarrow> j \<le> n \<longrightarrow> \<not> suffix (take j c) e)"
  by (induction n) (auto split: if_splits simp: le_Suc_eq)

lemma overlap_from_None: "overlap_from e c n = None \<Longrightarrow> 0 < j \<Longrightarrow> j \<le> n \<Longrightarrow> \<not> suffix (take j c) e"
  by (induction n) (auto split: if_splits simp: le_Suc_eq)

text \<open>
  The suffix taken from a continuation is the candidate without its longest
  overlap with the end of what was already written, so nothing is repeated and nothing of
  the continuation is skipped.
\<close>

theorem continuation_suffix_longest_overlap:
  assumes "continuation_suffix existing candidate = Some s"
  shows "\<exists>overlap. candidate = overlap @ s \<and> suffix overlap existing \<and>
    (\<forall>o'. prefix o' candidate \<longrightarrow> suffix o' existing \<longrightarrow> length o' \<le> length overlap)"
proof -
  let ?m = "min (length existing) (length candidate)"
  have bound: "prefix o' candidate \<Longrightarrow> suffix o' existing \<Longrightarrow> length o' \<le> ?m \<and> take (length o') candidate = o'" for o'
    by (auto simp: suffix_length_le prefix_length_le prefix_def)
  consider "candidate = []" | "existing = []"
    | "existing \<noteq> []" "candidate \<noteq> []" "prefix existing candidate"
    | k where "existing \<noteq> []" "candidate \<noteq> []" "\<not> prefix existing candidate"
        "overlap_from existing candidate ?m = Some k"
    | "existing \<noteq> []" "candidate \<noteq> []" "\<not> prefix existing candidate"
        "overlap_from existing candidate ?m = None" by fastforce
  then show ?thesis
  proof cases
    case 1
    then show ?thesis using assms by (simp add: continuation_suffix_def)
  next
    case 2
    then show ?thesis using assms by (auto simp: continuation_suffix_def split: if_splits)
  next
    case 3
    then have "candidate = existing @ s"
      using assms by (auto simp: continuation_suffix_def prefix_def)
    then show ?thesis by (auto dest: suffix_length_le)
  next
    case 4
    then have s: "s = drop k candidate" using assms by (simp add: continuation_suffix_def)
    note k = overlap_from_Some [OF 4(4)]
    have "length (take k candidate) = k" using k by simp
    moreover have "length o' \<le> k" if "prefix o' candidate" "suffix o' existing" for o'
      using k bound [OF that] that(2) by (metis not_le_imp_less)
    ultimately show ?thesis using s k by (intro exI [of _ "take k candidate"]) simp
  next
    case 5
    then have s: "s = candidate"
      using assms by (simp add: continuation_suffix_def split: if_splits)
    have "o' = []" if "prefix o' candidate" "suffix o' existing" for o'
      using overlap_from_None [OF 5(4), of "length o'"] bound [OF that] that(2) by fastforce
    then show ?thesis using s by (intro exI [of _ "[]"]) auto
  qed
qed

lemma continuation_suffix_longest_overlap_witness:
  "\<exists>overlap. u ''lo world'' = overlap @ u '' world'' \<and> suffix overlap (u ''hello'') \<and>
    (\<forall>o'. prefix o' (u ''lo world'') \<longrightarrow> suffix o' (u ''hello'') \<longrightarrow> length o' \<le> length overlap)"
  by (rule continuation_suffix_longest_overlap)
    (simp add: continuation_suffix_def str_eval eval_nat_numeral suffix_def)


section \<open>Continuation requests\<close>

text \<open>
  The request bodies, as dicts.  The OpenAI and the native variants of the source have the
  same code; \<open>deepcopy\<close> is the identity on values.
\<close>

definition RECOVERY_USER_PREFIX :: pystr where
  "RECOVERY_USER_PREFIX =
     u ''The previous provider stream was interrupted. Continue the assistant response '' @
     u ''exactly where it stopped. Do not repeat text already written.''"

definition copied_messages :: "json \<Rightarrow> json list" where
  "copied_messages body = (case jget (u ''messages'') body of JArr ms \<Rightarrow> ms | _ \<Rightarrow> [])"

definition role_message :: "pystr \<Rightarrow> pystr \<Rightarrow> json" where
  "role_message role content = JObj [(u ''role'', JStr role), (u ''content'', JStr content)]"

definition recovery_base :: "json \<Rightarrow> json" where
  "recovery_base body =
     jset (u ''stream'') (JBool True) (jpop (u ''tool_choice'') (jpop (u ''tools'') body))"

definition make_openai_text_recovery_body :: "json \<Rightarrow> pystr \<Rightarrow> json" where
  "make_openai_text_recovery_body body partial =
     (let recovery = recovery_base body;
          messages = copied_messages recovery @
            (if partial \<noteq> [] then [role_message (u ''assistant'') partial] else []) @
            [role_message (u ''user'') RECOVERY_USER_PREFIX]
      in jset (u ''messages'') (JArr messages) recovery)"

definition make_native_text_recovery_body :: "json \<Rightarrow> pystr \<Rightarrow> json" where
  "make_native_text_recovery_body = make_openai_text_recovery_body"

definition tool_repair_prompt :: "pystr \<Rightarrow> pystr \<Rightarrow> json option \<Rightarrow> pystr" where
  "tool_repair_prompt tool_name prefx input_schema =
     (let schema = (case input_schema of Some sc \<Rightarrow> if truthy sc then sc else default_schema | None \<Rightarrow> default_schema) in
      u ''A streamed tool call was interrupted while writing JSON arguments.'' @ [10] @
      u ''Tool name: '' @ tool_name @ [10] @
      u ''JSON schema: '' @ json_dumps_compact schema @ [10] @
      u ''Already emitted JSON prefix: '' @ prefx @ [10, 10] @
      u ''Return only the exact missing JSON suffix needed to complete the same object. '' @
      u ''Do not repeat the prefix. Do not include markdown or explanation.'')"

definition make_openai_tool_repair_body :: "json \<Rightarrow> pystr \<Rightarrow> pystr \<Rightarrow> json option \<Rightarrow> json" where
  "make_openai_tool_repair_body body tool_name prefx input_schema =
     (let recovery = recovery_base body in
      jset (u ''messages'')
        (JArr (copied_messages recovery @ [role_message (u ''user'') (tool_repair_prompt tool_name prefx input_schema)]))
        recovery)"

definition make_native_tool_repair_body :: "json \<Rightarrow> pystr \<Rightarrow> pystr \<Rightarrow> json option \<Rightarrow> json" where
  "make_native_tool_repair_body = make_openai_tool_repair_body"

lemma recovery_base_get:
  "recovery_base (JObj d) = JObj (dict_set (u ''stream'') (JBool True) (dict_pop (u ''tool_choice'') (dict_pop (u ''tools'') d)))"
  by (simp add: recovery_base_def)

text \<open>
  A text continuation request asks for a stream, offers no tools, keeps every
  other field of the original request, and appends to its conversation the partial answer (if
  there is one) and the instruction to continue.
\<close>

theorem text_recovery_body:
  "jget (u ''tools'') (make_openai_text_recovery_body (JObj d) partial) = JNull \<and>
   jget (u ''tool_choice'') (make_openai_text_recovery_body (JObj d) partial) = JNull \<and>
   jget (u ''stream'') (make_openai_text_recovery_body (JObj d) partial) = JBool True \<and>
   copied_messages (make_openai_text_recovery_body (JObj d) partial) =
     copied_messages (JObj d) @
     (if partial = [] then [] else [role_message (u ''assistant'') partial]) @
     [role_message (u ''user'') RECOVERY_USER_PREFIX] \<and>
   (k \<in> {u ''tools'', u ''tool_choice'', u ''stream'', u ''messages''} \<or>
    jget k (make_openai_text_recovery_body (JObj d) partial) = jget k (JObj d))"
  by (auto simp: make_openai_text_recovery_body_def recovery_base_get copied_messages_def Let_def dict_simps)

end
