(* ===== verification/ToolText.thy ===== *)
theory ToolText
  imports PyJson
begin

text \<open>
  The heuristic parser for tool calls that a model writes as text
  (\<open>core/anthropic/tools.py\<close>): \<open>HeuristicToolParser\<close> with its three states.  Each regular
  expression of the source is a function that finds its leftmost match and returns the
  groups the source reads; the ids drawn from \<open>uuid4\<close> come from a supply \<open>uuid\<close>, and
  which non-ASCII characters count as word characters (\<open>\\w\<close>) is a parameter.
\<close>

section \<open>The patterns\<close>

definition BULLET :: pystr where "BULLET = [9679]"

definition CONTROL_TOKEN_START :: pystr where "CONTROL_TOKEN_START = u ''<|''"

definition CONTROL_TOKEN_END :: pystr where "CONTROL_TOKEN_END = u ''|>''"

text \<open>\<open><\|[^|>]{1,80}\|>\<close> at the start of the text: the length of the match.\<close>

definition control_token :: "pystr \<Rightarrow> nat option" where
  "control_token s =
     (let run = takeWhile (\<lambda>c. c \<noteq> 124 \<and> c \<noteq> 62) (drop 2 s) in
      if prefix CONTROL_TOKEN_START s \<and> 1 \<le> length run \<and> length run \<le> 80
         \<and> prefix CONTROL_TOKEN_END (drop (2 + length run) s)
      then Some (length run + 4) else None)"

function strip_control_tokens :: "pystr \<Rightarrow> pystr" where
  "strip_control_tokens [] = []"
| "strip_control_tokens (c # s) =
     (case control_token (c # s) of
        Some n \<Rightarrow> strip_control_tokens (drop n (c # s))
      | None \<Rightarrow> c # strip_control_tokens s)"
  by pat_completeness auto
termination
  by (relation "measure length") (auto simp: control_token_def Let_def split: if_splits)

declare strip_control_tokens.simps(2) [simp del]

text \<open>A tag \<open>prefix=([^>]+)>\<close> at the start: its group and the text after it.\<close>

definition tag_at :: "pystr \<Rightarrow> pystr \<Rightarrow> (pystr \<times> pystr) option" where
  "tag_at t s =
     (let r = drop (length t) s; k = takeWhile (\<lambda>c. c \<noteq> 62) r in
      if prefix t s \<and> k \<noteq> [] \<and> length k < length r then Some (k, drop (Suc (length k)) r) else None)"

text \<open>\<open>_FUNC_START_PATTERN.search\<close>: \<open>match.group(1)\<close> and \<open>buffer[match.end():]\<close>.\<close>

fun func_start :: "pystr \<Rightarrow> (pystr \<times> pystr) option" where
  "func_start [] = None"
| "func_start (c # s) =
     (case (if c = 9679 then tag_at (u ''<function='') (dropWhile is_space s) else None) of
        Some m \<Rightarrow> Some m
      | None \<Rightarrow> func_start s)"

definition PARAM_OPEN :: pystr where "PARAM_OPEN = u ''<parameter=''"

definition PARAM_CLOSE :: pystr where "PARAM_CLOSE = u ''</parameter>''"

record param_match =
  pm_before :: pystr
  pm_key :: pystr
  pm_value :: pystr
  pm_closed :: bool
  pm_rest :: pystr

text \<open>
  \<open>_PARAM_PATTERN.search\<close>: the value runs to the first closing tag, else to the \<open>$\<close>, which
  also matches before a final newline.  \<open>pm_closed\<close> is the source's test
  \<open>"</parameter>" in match.group(0)\<close>.
\<close>

definition param_here :: "pystr \<Rightarrow> pystr \<Rightarrow> param_match option" where
  "param_here before s =
     (case tag_at PARAM_OPEN s of
        None \<Rightarrow> None
      | Some (key, r) \<Rightarrow>
          (case str_find PARAM_CLOSE r of
             Some c \<Rightarrow>
               Some \<lparr>pm_before = before, pm_key = key, pm_value = take c r, pm_closed = True,
                     pm_rest = drop (c + length PARAM_CLOSE) r\<rparr>
           | None \<Rightarrow>
               let d = (if r \<noteq> [] \<and> last r = 10 then length r - 1 else length r) in
               Some \<lparr>pm_before = before, pm_key = key, pm_value = take d r,
                     pm_closed = str_contains PARAM_CLOSE (PARAM_OPEN @ key @ [62] @ take d r),
                     pm_rest = drop d r\<rparr>))"

fun param_search :: "pystr \<Rightarrow> pystr \<Rightarrow> param_match option" where
  "param_search before [] = None"
| "param_search before (c # s) =
     (case param_here before (c # s) of
        Some m \<Rightarrow> Some m
      | None \<Rightarrow> param_search (before @ [c]) s)"

text \<open>
  \<open>\b(?:use\s+)?(?P<tool>WebFetch|WebSearch)\b.*?(?P<json>\{.*?\})\<close>, ignoring case.  Without
  case, \<open>s\<close> is also U+017F.
\<close>

definition is_word :: "(nat \<Rightarrow> bool) \<Rightarrow> nat \<Rightarrow> bool" where
  "is_word alnum c \<longleftrightarrow>
     (if c < 128 then (48 \<le> c \<and> c \<le> 57) \<or> (65 \<le> c \<and> c \<le> 90) \<or> (97 \<le> c \<and> c \<le> 122) \<or> c = 95
      else alnum c)"

definition word_at :: "(nat \<Rightarrow> bool) \<Rightarrow> pystr \<Rightarrow> bool" where
  "word_at alnum s \<longleftrightarrow> s \<noteq> [] \<and> is_word alnum (hd s)"

definition fold_case :: "nat \<Rightarrow> nat" where
  "fold_case c = (if 65 \<le> c \<and> c \<le> 90 then c + 32 else if c = 383 then 115 else c)"

definition prefix_nocase :: "pystr \<Rightarrow> pystr \<Rightarrow> bool" where
  "prefix_nocase t s \<longleftrightarrow> prefix t (map fold_case s)"

definition web_tool_name :: "(nat \<Rightarrow> bool) \<Rightarrow> pystr \<Rightarrow> (pystr \<times> pystr) option" where
  "web_tool_name alnum s =
     (if prefix_nocase (u ''webfetch'') s \<and> \<not> word_at alnum (drop 8 s) then Some (take 8 s, drop 8 s)
      else if prefix_nocase (u ''websearch'') s \<and> \<not> word_at alnum (drop 9 s) then Some (take 9 s, drop 9 s)
      else None)"

definition web_json :: "pystr \<Rightarrow> (pystr \<times> pystr) option" where
  "web_json s =
     (let r = dropWhile (\<lambda>c. c \<noteq> 123) s; body = takeWhile (\<lambda>c. c \<noteq> 125) r in
      if r \<noteq> [] \<and> length body < length r then Some (body @ [125], drop (Suc (length body)) r) else None)"

definition web_call_from :: "(nat \<Rightarrow> bool) \<Rightarrow> pystr \<Rightarrow> (pystr \<times> pystr \<times> pystr) option" where
  "web_call_from alnum s =
     (case web_tool_name alnum s of
        None \<Rightarrow> None
      | Some (tool, r) \<Rightarrow> map_option (\<lambda>(j, r'). (tool, j, r')) (web_json r))"

definition web_match :: "(nat \<Rightarrow> bool) \<Rightarrow> nat option \<Rightarrow> pystr \<Rightarrow> (pystr \<times> pystr \<times> pystr) option" where
  "web_match alnum prev s =
     (if (case prev of None \<Rightarrow> False | Some c \<Rightarrow> is_word alnum c) = word_at alnum s then None
      else case (if prefix_nocase (u ''use'') s \<and> is_space (hd (drop 3 s @ [0]))
                 then web_call_from alnum (dropWhile is_space (drop 3 s)) else None) of
             Some m \<Rightarrow> Some m
           | None \<Rightarrow> web_call_from alnum s)"

lemma web_json_shorter: "web_json s = Some (j, r) \<Longrightarrow> length r < length s"
  using length_dropWhile_le [of "\<lambda>c. c \<noteq> 123" s] by (auto simp: web_json_def Let_def split: if_splits)

lemma web_call_shorter:
  assumes "web_call_from alnum s = Some (t, j, r)"
  shows "length r < length s"
proof -
  obtain r1 where "web_json r1 = Some (j, r)" "length r1 \<le> length s"
    using assms by (auto simp: web_call_from_def web_tool_name_def split: option.splits if_splits)
  then show ?thesis using web_json_shorter [of r1 j r] by simp
qed

lemma web_match_shorter:
  assumes "web_match alnum prev s = Some (t, j, r)"
  shows "length r < length s"
proof -
  consider "web_call_from alnum (dropWhile is_space (drop 3 s)) = Some (t, j, r)"
    | "web_call_from alnum s = Some (t, j, r)"
    using assms by (auto simp: web_match_def split: if_splits option.splits)
  then show ?thesis
  proof cases
    case 1
    have "length (dropWhile is_space (drop 3 s)) \<le> length s"
      using length_dropWhile_le [of is_space "drop 3 s"] by simp
    with web_call_shorter [OF 1] show ?thesis by simp
  qed (rule web_call_shorter)
qed

lemma web_match_Cons: "web_match alnum prev (c # s) = Some (t, j, r) \<Longrightarrow> length r < Suc (length s)"
  using web_match_shorter [of alnum prev "c # s" t j r] by simp

text \<open>\<open>_WEB_TOOL_JSON_PATTERN.finditer\<close>: tool and JSON text of every match.\<close>

function web_calls :: "(nat \<Rightarrow> bool) \<Rightarrow> nat option \<Rightarrow> pystr \<Rightarrow> (pystr \<times> pystr) list" where
  "web_calls alnum prev [] = []"
| "web_calls alnum prev (c # s) =
     (case web_match alnum prev (c # s) of
        Some (tool, js, r) \<Rightarrow> (tool, js) # web_calls alnum (Some 125) r
      | None \<Rightarrow> web_calls alnum (Some c) s)"
  by pat_completeness auto
termination
  by (relation "measure (\<lambda>(a, p, s). length s)") (auto dest: web_match_Cons)

declare web_calls.simps(2) [simp del]

section \<open>The parser\<close>

datatype parser_state = TEXT_STATE | MATCHING_FUNCTION | PARSING_PARAMETERS

record heur_parser =
  hp_state :: parser_state
  hp_buffer :: pystr
  hp_tool_id :: pystr
  hp_function_name :: pystr
  hp_parameters :: "(pystr, pystr) dict"
  hp_uuids :: nat

record tool_use =
  tu_id :: pystr
  tu_name :: pystr
  tu_input :: json

text \<open>The current id and name start as \<open>None\<close>; they are read only once they have been set.\<close>

definition HeuristicToolParser_init :: heur_parser where
  "HeuristicToolParser_init =
     \<lparr>hp_state = TEXT_STATE, hp_buffer = [], hp_tool_id = [], hp_function_name = [],
      hp_parameters = [], hp_uuids = 0\<rparr>"

definition heuristic_id :: "(nat \<Rightarrow> pystr) \<Rightarrow> nat \<Rightarrow> pystr" where
  "heuristic_id uuid n = u ''toolu_heuristic_'' @ uuid n"

definition web_input :: "pystr \<Rightarrow> pystr \<Rightarrow> json option" where
  "web_input tool js =
     (case json_loads js of
        Some (JObj d) \<Rightarrow>
          if tool = u ''WebFetch'' \<and> dict_get d (u ''url'') = None then None
          else if tool = u ''WebSearch'' \<and> dict_get d (u ''query'') = None then None
          else Some (JObj d)
      | _ \<Rightarrow> None)"

fun web_tools :: "(nat \<Rightarrow> pystr) \<Rightarrow> (pystr \<times> pystr) list \<Rightarrow> nat \<Rightarrow> tool_use list \<times> nat" where
  "web_tools uuid [] n = ([], n)"
| "web_tools uuid ((tool, js) # ms) n =
     (case web_input tool js of
        None \<Rightarrow> web_tools uuid ms n
      | Some inp \<Rightarrow>
          (case web_tools uuid ms (Suc n) of
             (ts, n') \<Rightarrow> (\<lparr>tu_id = heuristic_id uuid n, tu_name = tool, tu_input = inp\<rparr> # ts, n')))"

text \<open>\<open>_extract_web_tool_json_calls\<close>: the whole buffer goes when a call is detected.\<close>

definition extract_web_tool_json_calls ::
  "(nat \<Rightarrow> pystr) \<Rightarrow> (nat \<Rightarrow> bool) \<Rightarrow> heur_parser \<Rightarrow> tool_use list \<times> heur_parser" where
  "extract_web_tool_json_calls uuid alnum p =
     (case web_tools uuid (web_calls alnum None (hp_buffer p)) (hp_uuids p) of
        (ts, n) \<Rightarrow>
          (ts, p\<lparr>hp_buffer := (if ts = [] then hp_buffer p else []), hp_uuids := n\<rparr>))"

definition split_incomplete_control_token_tail :: "pystr \<Rightarrow> pystr \<times> pystr" where
  "split_incomplete_control_token_tail buf =
     (case str_rfind CONTROL_TOKEN_START buf of
        None \<Rightarrow> ([], buf)
      | Some start \<Rightarrow>
          if str_find CONTROL_TOKEN_END (drop start buf) \<noteq> None then ([], buf)
          else (take start buf, drop start buf))"

text \<open>The inner loop of the parameter state: text before a closed parameter is passed on.\<close>

lemma tag_at_shorter: "tag_at t s = Some (k, r) \<Longrightarrow> length r < length s"
  by (auto simp: tag_at_def Let_def split: if_splits)

lemma param_here_shorter: "param_here b s = Some m \<Longrightarrow> length (pm_rest m) < length s"
  by (auto simp: param_here_def Let_def dest!: tag_at_shorter split: option.splits prod.splits)

lemma param_search_shorter: "param_search b s = Some m \<Longrightarrow> length (pm_rest m) < length s"
  by (induction b s rule: param_search.induct) (auto split: option.splits dest: param_here_shorter)

function param_loop ::
  "(pystr, pystr) dict \<Rightarrow> pystr \<Rightarrow> pystr list \<times> (pystr, pystr) dict \<times> pystr" where
  "param_loop ps buf =
     (case param_search [] buf of
        Some m \<Rightarrow>
          if pm_closed m then
            (case param_loop (dict_set (str_strip (pm_key m)) (str_strip (pm_value m)) ps) (pm_rest m) of
               (out, ps', buf') \<Rightarrow> ((if pm_before m = [] then [] else [pm_before m]) @ out, ps', buf'))
          else ([], ps, buf)
      | None \<Rightarrow> ([], ps, buf))"
  by pat_completeness auto
termination
  by (relation "measure (\<lambda>(ps, b). length b)") (auto dest: param_search_shorter)

declare param_loop.simps [simp del]

definition current_tool :: "heur_parser \<Rightarrow> tool_use" where
  "current_tool p =
     \<lparr>tu_id = hp_tool_id p, tu_name = hp_function_name p,
      tu_input = JObj (map (\<lambda>(k, v). (k, JStr v)) (hp_parameters p))\<rparr>"

text \<open>
  One turn of the \<open>while True\<close> of \<open>feed\<close>, split at its three \<open>if\<close> statements: what each
  appends to the output, the tools it detects, the parser, and whether the loop goes on
  (\<open>False\<close> is \<open>break\<close>).
\<close>

definition text_turn :: "heur_parser \<Rightarrow> pystr list \<times> heur_parser \<times> bool" where
  "text_turn p =
     (case str_find BULLET (hp_buffer p) of
        Some idx \<Rightarrow>
          ([take idx (hp_buffer p)],
           p\<lparr>hp_buffer := drop idx (hp_buffer p), hp_state := MATCHING_FUNCTION\<rparr>, True)
      | None \<Rightarrow>
          (case split_incomplete_control_token_tail (hp_buffer p) of
             (safe, rest) \<Rightarrow>
               if safe \<noteq> [] then ([safe], p\<lparr>hp_buffer := rest\<rparr>, False)
               else ([rest], p\<lparr>hp_buffer := []\<rparr>, False)))"

definition matching_turn :: "(nat \<Rightarrow> pystr) \<Rightarrow> heur_parser \<Rightarrow> pystr list \<times> heur_parser \<times> bool" where
  "matching_turn uuid p =
     (case func_start (hp_buffer p) of
        Some (name, rest) \<Rightarrow>
          ([], p\<lparr>hp_function_name := str_strip name, hp_tool_id := heuristic_id uuid (hp_uuids p),
                hp_uuids := Suc (hp_uuids p), hp_parameters := [], hp_buffer := rest,
                hp_state := PARSING_PARAMETERS\<rparr>, True)
      | None \<Rightarrow>
          if 100 < length (hp_buffer p) then
            ([take 1 (hp_buffer p)], p\<lparr>hp_buffer := drop 1 (hp_buffer p), hp_state := TEXT_STATE\<rparr>, True)
          else ([], p, False))"

definition params_turn :: "heur_parser \<Rightarrow> pystr list \<times> tool_use list \<times> heur_parser \<times> bool" where
  "params_turn p =
     (case param_loop (hp_parameters p) (hp_buffer p) of
        (out, ps, buf) \<Rightarrow>
          let p1 = p\<lparr>hp_parameters := ps, hp_buffer := buf\<rparr> in
          (case str_find BULLET buf of
             Some idx \<Rightarrow>
               (out @ (if 0 < idx then [take idx buf] else []), [current_tool p1],
                p1\<lparr>hp_buffer := drop idx buf, hp_state := TEXT_STATE\<rparr>, True)
           | None \<Rightarrow>
               if buf \<noteq> [] \<and> \<not> str_startswith (str_strip buf) (u ''<'') \<and> \<not> str_contains PARAM_OPEN buf
               then (out @ [buf], [current_tool p1], p1\<lparr>hp_buffer := [], hp_state := TEXT_STATE\<rparr>, True)
               else (out, [], p1, False)))"

definition turn :: "(nat \<Rightarrow> pystr) \<Rightarrow> heur_parser \<Rightarrow> pystr list \<times> tool_use list \<times> heur_parser \<times> bool" where
  "turn uuid p0 =
     (case (if hp_state p0 = TEXT_STATE then text_turn p0 else ([], p0, True)) of
        (o1, p1, False) \<Rightarrow> (o1, [], p1, False)
      | (o1, p1, True) \<Rightarrow>
          (case (if hp_state p1 = MATCHING_FUNCTION then matching_turn uuid p1 else ([], p1, True)) of
             (o2, p2, False) \<Rightarrow> (o1 @ o2, [], p2, False)
           | (o2, p2, True) \<Rightarrow>
               if hp_state p2 = PARSING_PARAMETERS then
                 (case params_turn p2 of (o3, ts, p3, go) \<Rightarrow> (o1 @ o2 @ o3, ts, p3, go))
               else (o1 @ o2, [], p2, True)))"


text \<open>Every turn that goes on makes the buffer shorter, or leaves the parameter state.\<close>

lemma func_start_shorter: "func_start s = Some (k, r) \<Longrightarrow> length r < length s"
proof (induction s)
  case (Cons c s)
  have "length r < length (c # s)" if "tag_at t (dropWhile is_space s) = Some (k, r)" for t
    using tag_at_shorter [OF that] length_dropWhile_le [of is_space s] by simp
  with Cons show ?case by (auto split: option.splits if_splits)
qed simp

lemma param_loop_shorter: "param_loop ps buf = (out, ps', buf') \<Longrightarrow> length buf' \<le> length buf"
proof (induction ps buf arbitrary: out ps' buf' rule: param_loop.induct)
  case (1 ps buf)
  show ?case
  proof (cases "\<exists>m. param_search [] buf = Some m \<and> pm_closed m")
    case True
    then obtain m where m: "param_search [] buf = Some m" "pm_closed m" by blast
    obtain o2 ps2 b2 where rec: "param_loop (dict_set (str_strip (pm_key m)) (str_strip (pm_value m)) ps)
        (pm_rest m) = (o2, ps2, b2)" by (metis prod_cases3)
    have "length b2 \<le> length (pm_rest m)" by (rule "1.IH" [OF m(1,2) rec])
    then show ?thesis
      using "1.prems" m rec param_search_shorter [OF m(1)] by (simp add: param_loop.simps [of ps buf])
  next
    case False
    then show ?thesis
      using "1.prems" by (auto simp: param_loop.simps [of ps buf] split: option.splits)
  qed
qed

definition turn_measure :: "heur_parser \<Rightarrow> nat" where
  "turn_measure p = 2 * length (hp_buffer p) + (if hp_state p = PARSING_PARAMETERS then 1 else 0)"

lemma text_turn_measure:
  "text_turn p = (out, p', True) \<Longrightarrow> length (hp_buffer p') \<le> length (hp_buffer p) \<and> hp_state p' = MATCHING_FUNCTION"
  by (auto simp: text_turn_def split: option.splits prod.splits if_splits)

lemma matching_turn_measure:
  "matching_turn uuid p = (out, p', True) \<Longrightarrow> length (hp_buffer p') < length (hp_buffer p)"
  by (auto simp: matching_turn_def dest: func_start_shorter split: option.splits prod.splits if_splits)

lemma params_turn_measure:
  "params_turn p = (out, ts, p', True) \<Longrightarrow> length (hp_buffer p') \<le> length (hp_buffer p) \<and> hp_state p' = TEXT_STATE"
  using param_loop_shorter
  by (fastforce simp: params_turn_def Let_def split: option.splits prod.splits if_splits)

lemma matching_turn_state:
  "matching_turn uuid p = (out, p', True) \<Longrightarrow> hp_state p' \<noteq> PARSING_PARAMETERS \<Longrightarrow> hp_state p' = TEXT_STATE"
  by (auto simp: matching_turn_def split: option.splits prod.splits if_splits)

lemma turn_decreases:
  assumes "turn uuid p = (out, ts, p', True)"
  shows "turn_measure p' < turn_measure p"
proof -
  obtain o1 p1 g1 where 1: "(if hp_state p = TEXT_STATE then text_turn p else ([], p, True)) = (o1, p1, g1)"
    by (metis prod_cases3)
  obtain o2 p2 g2 where 2: "(if hp_state p1 = MATCHING_FUNCTION then matching_turn uuid p1 else ([], p1, True))
      = (o2, p2, g2)" by (metis prod_cases3)
  have g: "g1" "g2" using assms 1 2 by (cases g1; cases g2; auto simp: turn_def)+
  have l1: "length (hp_buffer p1) \<le> length (hp_buffer p)"
      "hp_state p = TEXT_STATE \<Longrightarrow> hp_state p1 = MATCHING_FUNCTION" "hp_state p \<noteq> TEXT_STATE \<Longrightarrow> p1 = p"
    using 1 g text_turn_measure [of p o1 p1] by (auto split: if_splits)
  have l2: "hp_state p1 = MATCHING_FUNCTION \<Longrightarrow> length (hp_buffer p2) < length (hp_buffer p1)"
      "hp_state p1 \<noteq> MATCHING_FUNCTION \<Longrightarrow> p2 = p1"
    using 2 g matching_turn_measure [of uuid p1 o2 p2] by (auto split: if_splits)
  show ?thesis
  proof (cases "hp_state p2 = PARSING_PARAMETERS")
    case True
    obtain o3 t3 p3 g3 where 3: "params_turn p2 = (o3, t3, p3, g3)" by (metis prod_cases4)
    have "p' = p3" "g3" using assms 1 2 3 g True by (auto simp: turn_def)
    then have l3: "length (hp_buffer p') \<le> length (hp_buffer p2)" "hp_state p' = TEXT_STATE"
      using params_turn_measure [of p2 o3 t3 p3] 3 by auto
    show ?thesis
    proof (cases "hp_state p1 = MATCHING_FUNCTION")
      case True
      then show ?thesis using l1(1) l2(1) l3 by (simp add: turn_measure_def)
    next
      case False
      then have "p2 = p" using l1 l2 by (cases "hp_state p = TEXT_STATE") auto
      with True l3 show ?thesis by (simp add: turn_measure_def)
    qed
  next
    case False
    then have p': "p' = p2" using assms 1 2 g by (auto simp: turn_def)
    have "hp_state p1 = MATCHING_FUNCTION"
      using l1 l2 False by (cases "hp_state p"; cases "hp_state p1") auto
    then show ?thesis using l1(1) l2(1) False by (simp add: p' turn_measure_def)
  qed
qed

function feed_turns :: "(nat \<Rightarrow> pystr) \<Rightarrow> heur_parser \<Rightarrow> pystr list \<times> tool_use list \<times> heur_parser" where
  "feed_turns uuid p =
     (case turn uuid p of
        (out, ts, p', go) \<Rightarrow>
          if go then (case feed_turns uuid p' of (out2, ts2, q) \<Rightarrow> (out @ out2, ts @ ts2, q))
          else (out, ts, p'))"
  by pat_completeness auto
termination
  by (relation "measure (\<lambda>(u, p). turn_measure p)") (auto dest: turn_decreases [OF sym])

declare feed_turns.simps [simp del]

lemma feed_turns_stop: "turn uuid p = (out, ts, q, False) \<Longrightarrow> feed_turns uuid p = (out, ts, q)"
  by (subst feed_turns.simps) simp

definition heur_feed ::
  "(nat \<Rightarrow> pystr) \<Rightarrow> (nat \<Rightarrow> bool) \<Rightarrow> pystr \<Rightarrow> heur_parser \<Rightarrow> pystr \<times> tool_use list \<times> heur_parser" where
  "heur_feed uuid alnum text p =
     (case extract_web_tool_json_calls uuid alnum
             (p\<lparr>hp_buffer := strip_control_tokens (hp_buffer p @ text)\<rparr>) of
        (ts, p1) \<Rightarrow> (case feed_turns uuid p1 of (out, ts2, q) \<Rightarrow> (concat out, ts @ ts2, q)))"

text \<open>
  \<open>flush\<close>: \<open><parameter=([^>]+)>(.*)$\<close> runs to the end of the buffer, so there is one match at
  most.
\<close>

fun open_param :: "pystr \<Rightarrow> (pystr \<times> pystr) option" where
  "open_param [] = None"
| "open_param (c # s) = (case tag_at PARAM_OPEN (c # s) of Some m \<Rightarrow> Some m | None \<Rightarrow> open_param s)"

definition heur_flush :: "heur_parser \<Rightarrow> tool_use list \<times> heur_parser" where
  "heur_flush p =
     (let p1 = p\<lparr>hp_buffer := strip_control_tokens (hp_buffer p)\<rparr> in
      if hp_state p1 = PARSING_PARAMETERS then
        let ps = (case open_param (hp_buffer p1) of
                    None \<Rightarrow> hp_parameters p1
                  | Some (k, v) \<Rightarrow> dict_set (str_strip k) (str_strip v) (hp_parameters p1));
            p2 = p1\<lparr>hp_parameters := ps\<rparr>
        in ([current_tool p2], p2\<lparr>hp_state := TEXT_STATE, hp_buffer := []\<rparr>)
      else ([], p1))"


section \<open>Plain text\<close>

lemma strip_control_plain: "\<not> str_contains CONTROL_TOKEN_START s \<Longrightarrow> strip_control_tokens s = s"
proof (induction s)
  case (Cons c s)
  have "\<not> prefix CONTROL_TOKEN_START (c # s)" "\<not> str_contains CONTROL_TOKEN_START s"
    using Cons.prems by (auto simp: str_contains_def split: if_splits)
  then show ?case
    using Cons.IH by (simp add: strip_control_tokens.simps(2) control_token_def Let_def)
qed simp

lemma rfind_absent: "\<not> str_contains t s \<Longrightarrow> str_rfind t s = None"
proof (cases "str_rfind t s")
  case (Some i)
  assume "\<not> str_contains t s"
  then show ?thesis
    using str_find_NoneD [of t s i] str_rfind_SomeD [OF Some] by (simp add: str_contains_def)
qed simp

text \<open>
  Text with no bullet, no start of a control token and no web tool call goes
  through the parser unchanged and at once, and no tool call is made of it.
\<close>

theorem heuristic_plain_text:
  assumes "hp_state p = TEXT_STATE" "hp_buffer p = []"
    and "\<not> str_contains BULLET t" "\<not> str_contains CONTROL_TOKEN_START t" "web_calls alnum None t = []"
  shows "heur_feed uuid alnum t p = (t, [], p)"
proof -
  have p: "p\<lparr>hp_buffer := []\<rparr> = p" using assms(2) by simp
  have "text_turn (p\<lparr>hp_buffer := t\<rparr>) = ([t], p, False)"
    using assms(3,4) by (simp add: text_turn_def str_contains_def split_incomplete_control_token_tail_def
        rfind_absent p)
  then have "turn uuid (p\<lparr>hp_buffer := t\<rparr>) = ([t], [], p, False)"
    using assms(1) by (simp add: turn_def)
  then have "feed_turns uuid (p\<lparr>hp_buffer := t\<rparr>) = ([t], [], p)"
    by (rule feed_turns_stop)
  then show ?thesis
    using assms(2,4,5) by (simp add: heur_feed_def strip_control_plain extract_web_tool_json_calls_def)
qed

lemma heuristic_plain_text_witness:
  "heur_feed (\<lambda>_. []) (\<lambda>_. False) (u ''a < b'') HeuristicToolParser_init
     = (u ''a < b'', [], HeuristicToolParser_init)"
  by (rule heuristic_plain_text) code_simp+

section \<open>A bullet near the end of the reply\<close>

text \<open>
  Text that follows a bullet, no function tag in it and at most 100 characters
  long, is withheld by the feed and given up by the flush: if the reply ends there, its last
  list item reaches nobody.
\<close>

theorem heuristic_bullet_tail_lost:
  assumes "hp_state p = TEXT_STATE" "hp_buffer p = []" and t: "t = 9679 # r" "length t \<le> 100"
    and "func_start t = None" "\<not> str_contains CONTROL_TOKEN_START t" "web_calls alnum None t = []"
  shows "\<exists>q. heur_feed uuid alnum t p = ([], [], q) \<and> hp_buffer q = t \<and> heur_flush q = ([], q)"
proof -
  let ?q = "p\<lparr>hp_buffer := t, hp_state := MATCHING_FUNCTION\<rparr>"
  have "str_find BULLET t = Some 0" by (simp add: t(1) BULLET_def)
  then have "text_turn (p\<lparr>hp_buffer := t\<rparr>) = ([[]], ?q, True)" by (simp add: text_turn_def)
  moreover have "matching_turn uuid ?q = ([], ?q, False)"
    using assms(5) t(2) by (simp add: matching_turn_def)
  ultimately have "turn uuid (p\<lparr>hp_buffer := t\<rparr>) = ([[]], [], ?q, False)"
    using assms(1) by (simp add: turn_def)
  then have "feed_turns uuid (p\<lparr>hp_buffer := t\<rparr>) = ([[]], [], ?q)"
    by (rule feed_turns_stop)
  then have "heur_feed uuid alnum t p = ([], [], ?q)"
    using assms(2,6,7) by (simp add: heur_feed_def strip_control_plain extract_web_tool_json_calls_def)
  moreover have "heur_flush ?q = ([], ?q)"
    using assms(6) by (simp add: heur_flush_def Let_def strip_control_plain)
  ultimately show ?thesis by auto
qed

lemma heuristic_bullet_tail_lost_witness:
  "\<exists>q. heur_feed (\<lambda>_. []) (\<lambda>_. False) [9679, 32, 104, 105] HeuristicToolParser_init = ([], [], q) \<and>
     hp_buffer q = [9679, 32, 104, 105] \<and> heur_flush q = ([], q)"
  by (rule heuristic_bullet_tail_lost [where r = "[32, 104, 105]"])
    (simp_all add: HeuristicToolParser_init_def str_eval CONTROL_TOKEN_START_def str_contains_def
      web_calls.simps(2) web_match_def word_at_def is_word_def web_call_from_def web_tool_name_def
      prefix_nocase_def fold_case_def tag_at_def is_space_def)

text \<open>
  A control token that starts a delta and is cut there is not held back: the incomplete tail
  at position 0 leaves an empty safe prefix, which the source takes for no tail at all.
\<close>

lemma cut_control_token_not_held:
  assumes "hp_state p = TEXT_STATE" "hp_buffer p = []" "\<not> str_contains BULLET t"
    and "str_rfind CONTROL_TOKEN_START t = Some 0" "strip_control_tokens t = t" "web_calls alnum None t = []"
  shows "heur_feed uuid alnum t p = (t, [], p)"
proof -
  have p: "p\<lparr>hp_buffer := []\<rparr> = p" using assms(2) by simp
  have "split_incomplete_control_token_tail t = ([], t)"
    using assms(4) by (simp add: split_incomplete_control_token_tail_def)
  then have "turn uuid (p\<lparr>hp_buffer := t\<rparr>) = ([t], [], p, False)"
    using assms(1,3) by (simp add: turn_def text_turn_def str_contains_def p)
  then show ?thesis
    using assms(2,5,6) by (simp add: heur_feed_def extract_web_tool_json_calls_def feed_turns_stop)
qed

section \<open>A whole call\<close>

definition param_text :: "pystr \<times> pystr \<Rightarrow> pystr" where
  "param_text kv = PARAM_OPEN @ fst kv @ [62] @ snd kv @ PARAM_CLOSE"

definition call_text :: "pystr \<Rightarrow> (pystr \<times> pystr) list \<Rightarrow> pystr" where
  "call_text name ps = BULLET @ [32] @ u ''<function='' @ name @ [62] @ concat (map param_text ps)"

definition plain_key :: "pystr \<Rightarrow> bool" where
  "plain_key k \<longleftrightarrow> k \<noteq> [] \<and> 62 \<notin> set k \<and> str_strip k = k"

definition plain_value :: "pystr \<Rightarrow> bool" where
  "plain_value v \<longleftrightarrow> 60 \<notin> set v \<and> str_strip v = v"

lemma takeWhile_key: "62 \<notin> set k \<Longrightarrow> takeWhile (\<lambda>c. c \<noteq> 62) (k @ 62 # r) = k"
  by (induction k) auto

lemma tag_at_here: "62 \<notin> set k \<Longrightarrow> k \<noteq> [] \<Longrightarrow> tag_at t (t @ k @ 62 # r) = Some (k, r)"
  by (simp add: tag_at_def Let_def takeWhile_key)

lemma find_after: "hd t \<notin> set v \<Longrightarrow> t \<noteq> [] \<Longrightarrow> str_find t (v @ t @ r) = Some (length v)"
proof (induction v)
  case Nil
  then show ?case by (cases t) auto
next
  case (Cons c v)
  then show ?case by (cases t) auto
qed

lemma param_search_here:
  assumes "plain_key k" "plain_value v"
  shows "param_search [] (param_text (k, v) @ r)
    = Some \<lparr>pm_before = [], pm_key = k, pm_value = v, pm_closed = True, pm_rest = r\<rparr>"
proof -
  have "tag_at PARAM_OPEN (param_text (k, v) @ r) = Some (k, v @ PARAM_CLOSE @ r)"
    using tag_at_here [of k PARAM_OPEN "v @ PARAM_CLOSE @ r"] assms(1) by (simp add: param_text_def plain_key_def)
  moreover have "str_find PARAM_CLOSE (v @ PARAM_CLOSE @ r) = Some (length v)"
    using assms(2) by (intro find_after) (simp_all add: PARAM_CLOSE_def plain_value_def str_eval)
  moreover have "length PARAM_CLOSE = 12" by (simp add: PARAM_CLOSE_def)
  ultimately have "param_here [] (param_text (k, v) @ r)
      = Some \<lparr>pm_before = [], pm_key = k, pm_value = v, pm_closed = True, pm_rest = r\<rparr>"
    by (simp add: param_here_def)
  moreover obtain c s where "param_text (k, v) @ r = c # s"
    by (auto simp: param_text_def PARAM_OPEN_def str_eval)
  ultimately show ?thesis by simp
qed

lemma param_loop_params:
  "list_all (\<lambda>(k, v). plain_key k \<and> plain_value v) ps \<Longrightarrow>
     param_loop d (concat (map param_text ps)) = ([], foldl (\<lambda>d (k, v). dict_set k v d) d ps, [])"
proof (induction ps arbitrary: d)
  case Nil
  then show ?case by (simp add: param_loop.simps)
next
  case (Cons kv ps)
  obtain k v where kv: "kv = (k, v)" by (cases kv)
  have ok: "plain_key k" "plain_value v" using Cons.prems by (simp_all add: kv)
  then have "str_strip k = k" "str_strip v = v" by (simp_all add: plain_key_def plain_value_def)
  then show ?case
    using Cons param_search_here [OF ok, of "concat (map param_text ps)"]
    by (subst param_loop.simps) (simp add: kv)
qed

lemma func_start_call:
  "plain_key name \<Longrightarrow> func_start (call_text name ps) = Some (name, concat (map param_text ps))"
  using tag_at_here [of name "u ''<function=''" "concat (map param_text ps)"]
  by (simp add: call_text_def BULLET_def plain_key_def is_space_def str_eval)

text \<open>
  A tool call written in the textual form, with its parameters, comes back as
  exactly one tool use with that name and those parameters, once the reply is flushed.
\<close>

theorem heuristic_call_roundtrip:
  assumes "plain_key name" and ps: "list_all (\<lambda>(k, v). plain_key k \<and> plain_value v) ps" "dict_wf ps"
    and "\<not> str_contains CONTROL_TOKEN_START (call_text name ps)" "web_calls alnum None (call_text name ps) = []"
  shows "\<exists>p q. heur_feed uuid alnum (call_text name ps) HeuristicToolParser_init = ([], [], p) \<and>
     heur_flush p = ([\<lparr>tu_id = heuristic_id uuid 0, tu_name = name,
                       tu_input = JObj (map (\<lambda>(k, v). (k, JStr v)) ps)\<rparr>], q)"
proof -
  let ?t = "call_text name ps" and ?i = "HeuristicToolParser_init"
  let ?p2 = "\<lparr>hp_state = PARSING_PARAMETERS, hp_buffer = concat (map param_text ps),
    hp_tool_id = heuristic_id uuid 0, hp_function_name = name, hp_parameters = [], hp_uuids = 1\<rparr>"
  let ?p3 = "?p2\<lparr>hp_parameters := ps, hp_buffer := []\<rparr>"
  have "str_find BULLET ?t = Some 0" by (simp add: call_text_def BULLET_def)
  then have "text_turn (?i\<lparr>hp_buffer := ?t\<rparr>) = ([[]], ?i\<lparr>hp_buffer := ?t, hp_state := MATCHING_FUNCTION\<rparr>, True)"
    by (simp add: text_turn_def)
  moreover have "matching_turn uuid (?i\<lparr>hp_buffer := ?t, hp_state := MATCHING_FUNCTION\<rparr>) = ([], ?p2, True)"
    using func_start_call [OF assms(1)] assms(1)
    by (simp add: matching_turn_def HeuristicToolParser_init_def plain_key_def)
  moreover have "foldl (\<lambda>d (k, v). dict_set k v d) [] ps = ps"
    using dict_of_pairs_wf [OF ps(2)] by (simp add: dict_of_pairs_def)
  then have "params_turn ?p2 = ([], [], ?p3, False)"
    using param_loop_params [OF ps(1)] by (simp add: params_turn_def BULLET_def)
  ultimately have "turn uuid (?i\<lparr>hp_buffer := ?t\<rparr>) = ([[]], [], ?p3, False)"
    by (simp add: turn_def HeuristicToolParser_init_def)
  then have "feed_turns uuid (?i\<lparr>hp_buffer := ?t\<rparr>) = ([[]], [], ?p3)"
    by (rule feed_turns_stop)
  then have "heur_feed uuid alnum ?t ?i = ([], [], ?p3)"
    using assms(4,5) by (simp add: heur_feed_def strip_control_plain extract_web_tool_json_calls_def
        HeuristicToolParser_init_def)
  then show ?thesis by (simp add: heur_flush_def Let_def current_tool_def)
qed


lemma heuristic_call_roundtrip_witness:
  "\<exists>p q. heur_feed (\<lambda>_. []) (\<lambda>_. False) (call_text (u ''f'') [(u ''k'', u ''v'')]) HeuristicToolParser_init
       = ([], [], p) \<and>
     heur_flush p = ([\<lparr>tu_id = heuristic_id (\<lambda>_. []) 0, tu_name = u ''f'',
                       tu_input = JObj [(u ''k'', JStr (u ''v''))]\<rparr>], q)"
  using heuristic_call_roundtrip [of "u ''f''" "[(u ''k'', u ''v'')]" "\<lambda>_. False" "\<lambda>_. []"]
  by (simp add: plain_key_def plain_value_def str_eval str_strip_def str_lstrip_def str_rstrip_def is_space_def
      call_text_def param_text_def BULLET_def PARAM_OPEN_def PARAM_CLOSE_def CONTROL_TOKEN_START_def
      str_contains_def web_calls.simps(2) web_match_def word_at_def is_word_def web_call_from_def
      web_tool_name_def prefix_nocase_def fold_case_def)

end
