(* ===== verification/OpenAIStream.thy ===== *)
theory OpenAIStream
  imports Thinking Sse Recovery ToolText
begin

text \<open>
  The bridge from OpenAI chat streams to Anthropic event streams
  (\<open>providers/openai_compat.py\<close>, \<open>OpenAIChatTransport\<close>): tool-call deltas, the stream loop
  with its holdback, transparent early retries, mid-stream recovery and the error tail.  What
  the provider answers, the clock, the ids and the tokenizer are parameters, so a theorem
  about \<open>stream_response\<close> speaks of every provider behaviour.  Logging, tracing and the rate
  limiter's slot are left out; the hooks \<open>_handle_extra_reasoning\<close> (never overridden) and
  \<open>_record_tool_call_extra_content\<close> (no effect on the stream) are left out too.
\<close>

section \<open>Tool calls\<close>

type_synonym tool_aliases = "(pystr, (pystr, pystr) dict) dict"

record tool_call_delta =
  tc_index :: "int option"
  tc_id :: "pystr option"
  tc_name :: "pystr option"
  tc_arguments :: "pystr option"
  tc_extra :: "json option"

text \<open>The builder with the per-request buffers of aliased arguments and the id supply.\<close>

record bridge =
  br_sse :: sse_builder
  br_alias_buffers :: "(int, pystr) dict"
  br_uuids :: nat

abbreviation br_blocks :: "bridge \<Rightarrow> content_blocks" where
  "br_blocks b \<equiv> blocks (br_sse b)"

definition set_blocks :: "content_blocks \<Rightarrow> bridge \<Rightarrow> bridge" where
  "set_blocks blk b = b\<lparr>br_sse := (br_sse b)\<lparr>blocks := blk\<rparr>\<rparr>"

definition on_sse :: "sse_builder emitter \<Rightarrow> bridge emitter" where
  "on_sse f b = (case f (br_sse b) of (fs, s, e) \<Rightarrow> (fs, b\<lparr>br_sse := s\<rparr>, e))"

text \<open>\<open>_restore_aliased_tool_argument_value\<close> and \<open>_restore_aliased_tool_arguments\<close>.\<close>

fun restore_value :: "(pystr, pystr) dict \<Rightarrow> json \<Rightarrow> json" where
  "restore_value al (JObj d) =
     JObj (dict_of_pairs (map (\<lambda>(k, v). (dict_get_default al k k, restore_value al v)) d))"
| "restore_value al (JArr xs) = JArr (map (restore_value al) xs)"
| "restore_value al j = j"

definition restore_aliased_tool_arguments :: "pystr \<Rightarrow> (pystr, pystr) dict \<Rightarrow> pystr option" where
  "restore_aliased_tool_arguments argument_json al =
     (case json_loads argument_json of
        None \<Rightarrow> None
      | Some parsed \<Rightarrow>
          if \<not> is_dict parsed then Some argument_json
          else Some (json_dumps (restore_value al parsed)))"

text \<open>\<open>_emit_tool_arg_delta\<close>, with the alias buffers given (as the stream loop gives them).\<close>

definition emit_tool_arg_delta :: "tool_aliases \<Rightarrow> int \<Rightarrow> pystr \<Rightarrow> bridge emitter" where
  "emit_tool_arg_delta al t args b =
     (if args = [] then ([], b, None)
      else case tool_state (br_blocks b) t of
        None \<Rightarrow> ([], b, None)
      | Some st \<Rightarrow>
          if tool_name st = u ''Task'' then
            (case buffer_task_args t args (br_blocks b) of
               (Inl e, blk) \<Rightarrow> ([], set_blocks blk b, Some e)
             | (Inr None, blk) \<Rightarrow> ([], set_blocks blk b, None)
             | (Inr (Some parsed), blk) \<Rightarrow>
                 on_sse (emit_tool_delta t (json_dumps parsed)) (set_blocks blk b))
          else
            (let aliases = dict_get_default al (tool_name st) [] in
             if aliases = [] then on_sse (emit_tool_delta t args) b
             else
               let buffered = dict_get_default (br_alias_buffers b) t [] @ args in
               case restore_aliased_tool_arguments buffered aliases of
                 None \<Rightarrow> ([], b\<lparr>br_alias_buffers := dict_set t buffered (br_alias_buffers b)\<rparr>, None)
               | Some restored \<Rightarrow>
                   on_sse (emit_tool_delta t restored)
                     (b\<lparr>br_alias_buffers := dict_pop t (br_alias_buffers b)\<rparr>)))"

text \<open>\<open>_process_tool_call\<close>, in its steps.\<close>

definition resolve_index :: "tool_call_delta \<Rightarrow> content_blocks \<Rightarrow> int" where
  "resolve_index tc blk =
     (let i = (case tc_index tc of Some i \<Rightarrow> i | None \<Rightarrow> 0) in
      if i < 0 then int (length (tool_states blk)) else i)"

definition usable_extra :: "tool_call_delta \<Rightarrow> json option" where
  "usable_extra tc =
     (case tc_extra tc of Some x \<Rightarrow> if is_dict x \<and> truthy x then Some x else None | None \<Rightarrow> None)"

definition record_tool_call :: "int \<Rightarrow> tool_call_delta \<Rightarrow> content_blocks \<Rightarrow> content_blocks" where
  "record_tool_call t tc blk =
     (let b1 = set_stream_tool_id t (tc_id tc) blk;
          b2 = set_tool_extra_content t (usable_extra tc) b1
      in case tc_name tc of None \<Rightarrow> b2 | Some name \<Rightarrow> register_tool_name t name b2)"

definition resolved_name :: "int \<Rightarrow> content_blocks \<Rightarrow> pystr" where
  "resolved_name t blk = (case tool_state blk t of Some st \<Rightarrow> tool_name st | None \<Rightarrow> [])"

definition resolved_id :: "int \<Rightarrow> tool_call_delta \<Rightarrow> content_blocks \<Rightarrow> pystr" where
  "resolved_id t tc blk =
     (case tool_state blk t of
        Some st \<Rightarrow> if tool_id st \<noteq> [] then tool_id st else (case tc_id tc of Some i \<Rightarrow> i | None \<Rightarrow> [])
      | None \<Rightarrow> (case tc_id tc of Some i \<Rightarrow> i | None \<Rightarrow> []))"

definition flush_pre_start_args :: "tool_aliases \<Rightarrow> int \<Rightarrow> bridge emitter" where
  "flush_pre_start_args al t b =
     (case tool_state (br_blocks b) t of
        None \<Rightarrow> ([], b, Some KeyError)
      | Some st \<Rightarrow>
          if pre_start_args st = [] then ([], b, None)
          else emit_tool_arg_delta al t (pre_start_args st)
                 (set_blocks (set_tool_state t (st\<lparr>pre_start_args := []\<rparr>) (br_blocks b)) b))"

definition start_named_tool ::
  "(nat \<Rightarrow> pystr) \<Rightarrow> tool_aliases \<Rightarrow> int \<Rightarrow> tool_call_delta \<Rightarrow> bridge emitter" where
  "start_named_tool uuid al t tc b =
     (let blk = br_blocks b; st = tool_state blk t;
          name = resolved_name t blk; rid = resolved_id t tc blk in
      if (case st of Some st \<Rightarrow> started st | None \<Rightarrow> False) \<or> str_strip name = [] then ([], b, None)
      else
        let tid = (if rid \<noteq> [] then rid else u ''tool_'' @ uuid (br_uuids b));
            b1 = (if rid \<noteq> [] then b else b\<lparr>br_uuids := Suc (br_uuids b)\<rparr>);
            extra = (case st of Some st \<Rightarrow> extra_content st | None \<Rightarrow> usable_extra tc)
        in emit_seq (on_sse (start_tool_block t tid (str_strip name) extra)) (flush_pre_start_args al t) b1)"

definition send_arguments :: "tool_aliases \<Rightarrow> int \<Rightarrow> pystr \<Rightarrow> pystr \<Rightarrow> bridge emitter" where
  "send_arguments al t name arguments b =
     (if arguments = [] then ([], b, None)
      else if (case tool_state (br_blocks b) t of Some st \<Rightarrow> started st | None \<Rightarrow> False)
      then emit_tool_arg_delta al t arguments b
      else case ensure_tool_state t (br_blocks b) of
        (st, blk) \<Rightarrow>
          if str_strip name = [] then
            ([], set_blocks (set_tool_state t (st\<lparr>pre_start_args := pre_start_args st @ arguments\<rparr>) blk) b, None)
          else emit_tool_arg_delta al t arguments (set_blocks blk b))"

definition process_tool_call ::
  "(nat \<Rightarrow> pystr) \<Rightarrow> tool_aliases \<Rightarrow> tool_call_delta \<Rightarrow> bridge emitter" where
  "process_tool_call uuid al tc b0 =
     (let t = resolve_index tc (br_blocks b0);
          b = set_blocks (record_tool_call t tc (br_blocks b0)) b0;
          name = resolved_name t (br_blocks b);
          arguments = (case tc_arguments tc of Some a \<Rightarrow> a | None \<Rightarrow> [])
      in emit_seq (start_named_tool uuid al t tc) (send_arguments al t name arguments) b)"

definition flush_task_buffers :: "bridge emitter" where
  "flush_task_buffers b =
     (case flush_task_arg_buffers (br_blocks b) of
        (Inl e, blk) \<Rightarrow> ([], set_blocks blk b, Some e)
      | (Inr outs, blk) \<Rightarrow>
          emit_list (\<lambda>(t, out). on_sse (emit_tool_delta t out)) outs (set_blocks blk b))"

definition flush_alias_buffer :: "tool_aliases \<Rightarrow> int \<times> pystr \<Rightarrow> bridge emitter" where
  "flush_alias_buffer al item b =
     (case item of (t, buffered) \<Rightarrow>
        if buffered = [] then ([], b\<lparr>br_alias_buffers := dict_pop t (br_alias_buffers b)\<rparr>, None)
        else case tool_state (br_blocks b) t of
          None \<Rightarrow> ([], b, None)
        | Some st \<Rightarrow>
            let aliases = dict_get_default al (tool_name st) [] in
            if tool_name st = u ''Task'' \<or> aliases = [] then ([], b, None)
            else
              emit_seq (on_sse (emit_tool_delta t
                          (case restore_aliased_tool_arguments buffered aliases of
                             Some restored \<Rightarrow> restored | None \<Rightarrow> buffered)))
                (emit_update (\<lambda>b. b\<lparr>br_alias_buffers := dict_pop t (br_alias_buffers b)\<rparr>)) b)"

definition flush_alias_buffers :: "tool_aliases \<Rightarrow> bridge emitter" where
  "flush_alias_buffers al b = emit_list (flush_alias_buffer al) (br_alias_buffers b) b"

text \<open>\<open>_iter_heuristic_tool_use_sse\<close>: a detected call is a complete block of its own.\<close>

definition heuristic_input :: "tool_use \<Rightarrow> json" where
  "heuristic_input tu =
     (if tu_name tu = u ''Task'' \<and> is_dict (tu_input tu)
         \<and> jget (u ''run_in_background'') (tu_input tu) \<noteq> JBool False
      then jset (u ''run_in_background'') (JBool False) (tu_input tu) else tu_input tu)"

definition heuristic_block :: "tool_use \<Rightarrow> sse_builder emitter" where
  "heuristic_block tu s =
     (case allocate_index (blocks s) of (i, blk) \<Rightarrow>
        ([content_block_start i (u ''tool_use'') [(u ''id'', JStr (tu_id tu)), (u ''name'', JStr (tu_name tu))],
          content_block_delta i (u ''input_json_delta'') (json_dumps (heuristic_input tu)),
          content_block_stop i], s\<lparr>blocks := blk\<rparr>, None))"

definition iter_heuristic_tool_use :: "tool_use \<Rightarrow> bridge emitter" where
  "iter_heuristic_tool_use tu = on_sse (emit_seq close_content_blocks (heuristic_block tu))"

section \<open>The stream\<close>

record stream_delta =
  d_reasoning :: "pystr option"
  d_content :: "pystr option"
  d_tool_calls :: "tool_call_delta list"

record choice =
  c_delta :: "stream_delta option"
  c_finish_reason :: "pystr option"

text \<open>\<open>chunk.usage\<close>: its \<open>completion_tokens\<close> when that is an int.\<close>

record chunk =
  k_usage :: "int option option"
  k_choice :: "choice option"

text \<open>A stream: its chunks, and the exception it ends with, if it does not end normally.\<close>

type_synonym stream_attempt = "chunk list \<times> py_exn option"

text \<open>
  The parameters: what \<open>_create_stream\<close> answers to a body at its n-th call (an exception, or
  a stream and the body it was opened with), the clock, the ids, and the configuration.
\<close>

record stream_env =
  e_create :: "json \<Rightarrow> nat \<Rightarrow> py_exn + stream_attempt \<times> json"
  e_now :: "nat \<Rightarrow> rat"
  e_uuid :: "nat \<Rightarrow> pystr"
  e_alnum :: "nat \<Rightarrow> bool"
  e_encoder :: "(pystr \<Rightarrow> nat) option"
  e_thinking :: bool
  e_validates :: validator
  e_tools :: "json list"
  e_aliases :: "json \<Rightarrow> tool_aliases"
  e_error_message :: "py_exn \<Rightarrow> pystr"
  e_message_id :: pystr
  e_model :: pystr
  e_input_tokens :: json

record strm =
  s_bridge :: bridge
  s_hold :: "frame holdback"
  s_now :: nat
  s_out :: "frame list"
  s_think :: think_parser
  s_heur :: heur_parser
  s_finish :: "pystr option"
  s_usage :: "int option option"
  s_aliases :: tool_aliases

text \<open>A step of the generator: the state after it, and the exception it raised.\<close>

type_synonym action = "strm \<Rightarrow> strm \<times> py_exn option"

definition act_seq :: "action \<Rightarrow> action \<Rightarrow> action" where
  "act_seq f g st = (case f st of (st1, None) \<Rightarrow> g st1 | (st1, Some e) \<Rightarrow> (st1, Some e))"

definition act_if :: "bool \<Rightarrow> action \<Rightarrow> action" where
  "act_if c f st = (if c then f st else (st, None))"

fun act_list :: "('a \<Rightarrow> action) \<Rightarrow> 'a list \<Rightarrow> action" where
  "act_list f [] st = (st, None)"
| "act_list f (x # xs) st = act_seq (f x) (act_list f xs) st"

definition frame_bytes :: "frame \<Rightarrow> nat" where
  "frame_bytes f = utf8_len (format_sse_event (fst f) (snd f))"

text \<open>\<open>hold_events\<close>: every event goes through the holdback; what comes out is yielded.\<close>

definition hold_events :: "stream_env \<Rightarrow> bridge emitter \<Rightarrow> action" where
  "hold_events env f st =
     (case f (s_bridge st) of
        (fs, b, e) \<Rightarrow>
          (case hb_push_all (e_now env) frame_bytes fs (s_hold st, s_now st) of
             (out, h, n) \<Rightarrow> (st\<lparr>s_bridge := b, s_hold := h, s_now := n, s_out := s_out st @ out\<rparr>, e)))"

definition hold_thinking :: "stream_env \<Rightarrow> pystr \<Rightarrow> action" where
  "hold_thinking env t =
     act_seq (hold_events env (on_sse ensure_thinking_block)) (hold_events env (on_sse (emit_thinking_delta t)))"

definition hold_text :: "stream_env \<Rightarrow> pystr \<Rightarrow> action" where
  "hold_text env t =
     act_seq (hold_events env (on_sse ensure_text_block)) (hold_events env (on_sse (emit_text_delta t)))"

fun process_part :: "stream_env \<Rightarrow> content_chunk \<Rightarrow> action" where
  "process_part env (ContentChunk THINKING t) st = act_if (e_thinking env) (hold_thinking env t) st"
| "process_part env (ContentChunk TEXT t) st =
     (case heur_feed (e_uuid env) (e_alnum env) t (s_heur st) of
        (filtered_text, tools, hp) \<Rightarrow>
          act_seq (act_if (filtered_text \<noteq> []) (hold_text env filtered_text))
            (act_list (\<lambda>tu. hold_events env (iter_heuristic_tool_use tu)) tools) (st\<lparr>s_heur := hp\<rparr>))"

definition process_content :: "stream_env \<Rightarrow> pystr \<Rightarrow> action" where
  "process_content env content st =
     (case feed content (s_think st) of
        (parts, tp) \<Rightarrow> act_list (process_part env) parts (st\<lparr>s_think := tp\<rparr>))"

definition nonempty_str :: "pystr option \<Rightarrow> bool" where
  "nonempty_str s \<longleftrightarrow> (case s of Some t \<Rightarrow> t \<noteq> [] | None \<Rightarrow> False)"

definition process_delta :: "stream_env \<Rightarrow> stream_delta \<Rightarrow> action" where
  "process_delta env d =
     act_seq (act_if (e_thinking env \<and> nonempty_str (d_reasoning d)) (hold_thinking env (the (d_reasoning d))))
       (act_seq (act_if (nonempty_str (d_content d)) (process_content env (the (d_content d))))
          (act_if (d_tool_calls d \<noteq> [])
             (act_seq (hold_events env (on_sse close_content_blocks))
                (act_list (\<lambda>tc st. hold_events env (process_tool_call (e_uuid env) (s_aliases st) tc) st)
                   (d_tool_calls d)))))"

definition process_chunk :: "stream_env \<Rightarrow> chunk \<Rightarrow> action" where
  "process_chunk env k st =
     (let st1 = (case k_usage k of Some us \<Rightarrow> st\<lparr>s_usage := Some us\<rparr> | None \<Rightarrow> st) in
      case k_choice k of
        None \<Rightarrow> (st1, None)
      | Some c \<Rightarrow>
          (case c_delta c of
             None \<Rightarrow> (st1, None)
           | Some d \<Rightarrow>
               process_delta env d
                 (if nonempty_str (c_finish_reason c) then st1\<lparr>s_finish := c_finish_reason c\<rparr> else st1)))"

definition end_of_stream :: "py_exn option \<Rightarrow> action" where
  "end_of_stream ending st =
     (st, case ending of Some e \<Rightarrow> Some e
          | None \<Rightarrow> if s_finish st = None then Some TruncatedProviderStreamError else None)"

definition new_bridge :: "stream_env \<Rightarrow> bridge" where
  "new_bridge env =
     \<lparr>br_sse = SSEBuilder_init (e_message_id env) (e_model env) (e_input_tokens env),
      br_alias_buffers = [], br_uuids = 0\<rparr>"

text \<open>The reset before a transparent retry; the id supply goes on.\<close>

definition reset_stream :: "stream_env \<Rightarrow> strm \<Rightarrow> strm" where
  "reset_stream env st =
     st\<lparr>s_bridge := (new_bridge env)\<lparr>br_uuids := br_uuids (s_bridge st)\<rparr>,
        s_hold := RecoveryHoldbackBuffer, s_think := ThinkTagParser_init,
        s_heur := HeuristicToolParser_init\<lparr>hp_uuids := hp_uuids (s_heur st)\<rparr>,
        s_finish := None, s_usage := None, s_aliases := []\<rparr>"

definition has_committed_sse_output :: "sse_builder \<Rightarrow> bool" where
  "has_committed_sse_output s \<longleftrightarrow>
     text_index (blocks s) \<noteq> - 1 \<or> thinking_index (blocks s) \<noteq> - 1 \<or> has_emitted_tool_block (blocks s)"

definition started_tool_states :: "sse_builder \<Rightarrow> (int \<times> tool_call_state) list" where
  "started_tool_states s = filter (started \<circ> snd) (tool_states (blocks s))"

definition env_schemas :: "stream_env \<Rightarrow> (pystr, tool_schema) dict" where
  "env_schemas env = tool_schemas_by_name (e_tools env)"

definition all_started_tools_complete :: "stream_env \<Rightarrow> sse_builder \<Rightarrow> bool" where
  "all_started_tools_complete env s \<longleftrightarrow>
     started_tool_states s \<noteq> [] \<and>
     list_all (\<lambda>(i, st). parse_complete_tool_input (e_validates env) (concat (contents st)) (tool_name st)
                 (env_schemas env) \<noteq> None) (started_tool_states s)"

section \<open>Recovery\<close>

definition chunk_delta :: "chunk \<Rightarrow> stream_delta option" where
  "chunk_delta k = (case k_choice k of None \<Rightarrow> None | Some c \<Rightarrow> c_delta c)"

definition recovery_strings :: "(stream_delta \<Rightarrow> pystr option) \<Rightarrow> chunk list \<Rightarrow> pystr" where
  "recovery_strings sel ks =
     concat (map (\<lambda>k. case chunk_delta k of None \<Rightarrow> [] | Some d \<Rightarrow> (case sel d of Some t \<Rightarrow> t | None \<Rightarrow> [])) ks)"

text \<open>\<open>_collect_recovery_text\<close>: at most five requests; \<open>n\<close> counts the calls made so far.\<close>

fun collect_recovery_text ::
  "stream_env \<Rightarrow> json \<Rightarrow> nat \<Rightarrow> py_exn option \<Rightarrow> nat \<Rightarrow> (py_exn + pystr \<times> pystr) \<times> nat" where
  "collect_recovery_text env body 0 last_error n =
     ((case last_error of Some e \<Rightarrow> Inl e | None \<Rightarrow> Inr ([], [])), n)"
| "collect_recovery_text env body (Suc k) last_error n =
     (let failed = (\<lambda>e. if is_retryable_stream_error e
                        then collect_recovery_text env body k (Some e) (Suc n) else (Inl e, Suc n)) in
      case e_create env body n of
        Inl e \<Rightarrow> failed e
      | Inr ((ks, Some e), _) \<Rightarrow> failed e
      | Inr ((ks, None), _) \<Rightarrow> (Inr (recovery_strings d_content ks, recovery_strings d_reasoning ks), Suc n))"

fun repair_attempts ::
  "stream_env \<Rightarrow> json \<Rightarrow> pystr \<Rightarrow> pystr \<Rightarrow> nat \<Rightarrow> nat \<Rightarrow> (py_exn + pystr option) \<times> nat" where
  "repair_attempts env body prefx name 0 n = (Inr None, n)"
| "repair_attempts env body prefx name (Suc k) n =
     (case collect_recovery_text env body MIDSTREAM_RECOVERY_ATTEMPTS None n of
        (Inl e, n1) \<Rightarrow> (Inl e, n1)
      | (Inr (text, _), n1) \<Rightarrow>
          (case accept_tool_json_repair (e_validates env) prefx text name (env_schemas env) of
             Some repair \<Rightarrow> (Inr (Some (tr_suffix repair)), n1)
           | None \<Rightarrow> repair_attempts env body prefx name k n1))"

definition repair_prefix :: "(int, pystr) dict \<Rightarrow> int \<Rightarrow> tool_call_state \<Rightarrow> pystr" where
  "repair_prefix buffers i st =
     (let p1 = concat (contents st);
          p2 = (if p1 = [] \<and> tool_name st = u ''Task'' then task_arg_buffer st else p1)
      in if p2 = [] then dict_get_default buffers i [] else p2)"

text \<open>
  \<open>_repair_openai_tool_args\<close>: \<open>Inr None\<close> when a tool cannot be repaired.  The builder keeps
  the contents of deltas whose events are thrown away.
\<close>

fun repair_tools ::
  "stream_env \<Rightarrow> json \<Rightarrow> (int, pystr) dict \<Rightarrow> (int \<times> tool_call_state) list \<Rightarrow> sse_builder \<Rightarrow> nat \<Rightarrow>
     (py_exn + frame list option) \<times> sse_builder \<times> nat" where
  "repair_tools env body buffers [] s n = (Inr (Some []), s, n)"
| "repair_tools env body buffers ((i, st) # items) s n =
     (let emitted = concat (contents st); prefx = repair_prefix buffers i st;
          emit_rest = (\<lambda>to_emit n1.
            if to_emit = [] then repair_tools env body buffers items s n1
            else case emit_tool_delta i to_emit s of
                (fs, s1, Some e) \<Rightarrow> (Inl e, s1, n1)
              | (fs, s1, None) \<Rightarrow>
                  (case repair_tools env body buffers items s1 n1 of
                     (Inr (Some gs), s2, n2) \<Rightarrow> (Inr (Some (fs @ gs)), s2, n2)
                   | r \<Rightarrow> r)) in
      if parse_complete_tool_input (e_validates env) prefx (tool_name st) (env_schemas env) \<noteq> None
      then emit_rest (if emitted = [] then prefx else []) n
      else
        let schema = map_option ts_input_schema (dict_get (env_schemas env) (tool_name st)) in
        case repair_attempts env (make_openai_tool_repair_body body (tool_name st) prefx schema)
               prefx (tool_name st) MIDSTREAM_RECOVERY_ATTEMPTS n of
          (Inl e, n1) \<Rightarrow> (Inl e, s, n1)
        | (Inr None, n1) \<Rightarrow> (Inr None, s, n1)
        | (Inr (Some sfx), n1) \<Rightarrow> emit_rest (if emitted = [] then prefx @ sfx else sfx) n1)"

definition repair_openai_tool_args ::
  "stream_env \<Rightarrow> json \<Rightarrow> (int, pystr) dict \<Rightarrow> sse_builder \<Rightarrow> nat \<Rightarrow>
     (py_exn + frame list option) \<times> sse_builder \<times> nat" where
  "repair_openai_tool_args env body buffers s n =
     (case repair_tools env body buffers (started_tool_states s) s n of
        (Inr (Some fs), s1, n1) \<Rightarrow>
          if all_started_tools_complete env s1 then (Inr (Some fs), s1, n1) else (Inr None, s1, n1)
      | r \<Rightarrow> r)"

text \<open>The last events of a recovered stream: close everything, then delta and stop.\<close>

definition closing_events :: "stream_env \<Rightarrow> pystr \<Rightarrow> sse_builder emitter" where
  "closing_events env reason =
     emit_seq close_all_blocks
       (emit_seq (\<lambda>s. message_delta reason (Some (int (estimate_output_tokens (e_encoder env) s))) s)
          message_stop)"

definition suffix_events :: "pystr option \<Rightarrow> pystr option \<Rightarrow> sse_builder emitter" where
  "suffix_events thinking text =
     emit_seq (emit_if (\<lambda>_. nonempty_str thinking)
                 (emit_seq ensure_thinking_block (emit_thinking_delta (the thinking))))
              (emit_if (\<lambda>_. nonempty_str text)
                 (emit_seq ensure_text_block (emit_text_delta (the text))))"

definition text_recovery ::
  "stream_env \<Rightarrow> json \<Rightarrow> sse_builder \<Rightarrow> nat \<Rightarrow> (py_exn + frame list option) \<times> sse_builder" where
  "text_recovery env body s n =
     (let partial_text = accumulated_text s; partial_thinking = accumulated_reasoning s in
      if partial_text = [] \<and> partial_thinking = [] then (Inr None, s)
      else case fst (collect_recovery_text env (make_openai_text_recovery_body body partial_text)
                       MIDSTREAM_RECOVERY_ATTEMPTS None n) of
          Inl e \<Rightarrow> (Inl e, s)
        | Inr (text, thinking) \<Rightarrow>
            (case suffix_events (continuation_suffix partial_thinking thinking)
                    (continuation_suffix partial_text text) s of
               (fs, s1, _) \<Rightarrow>
                 if fs = [] then (Inr None, s1)
                 else case closing_events env (u ''end_turn'') s1 of (gs, s2, _) \<Rightarrow> (Inr (Some (fs @ gs)), s2)))"

definition tool_recovery ::
  "stream_env \<Rightarrow> json \<Rightarrow> (int, pystr) dict \<Rightarrow> sse_builder \<Rightarrow> nat \<Rightarrow> (py_exn + frame list option) \<times> sse_builder" where
  "tool_recovery env body buffers s n =
     (case (if all_started_tools_complete env s then (Inr (Some []), s, n)
            else repair_openai_tool_args env body buffers s n) of
        (Inl e, s1, _) \<Rightarrow> (Inl e, s1)
      | (Inr None, s1, _) \<Rightarrow> (Inr None, s1)
      | (Inr (Some fs), s1, _) \<Rightarrow>
          (case closing_events env (u ''tool_use'') s1 of (gs, s2, _) \<Rightarrow> (Inr (Some (fs @ gs)), s2)))"

text \<open>\<open>_openai_recovery_events\<close>, called for retryable errors only.\<close>

definition openai_recovery_events ::
  "stream_env \<Rightarrow> json \<Rightarrow> py_exn \<Rightarrow> bridge \<Rightarrow> nat \<Rightarrow> (py_exn + frame list option) \<times> sse_builder" where
  "openai_recovery_events env body e b n =
     (if \<not> is_retryable_stream_error e then (Inr None, br_sse b)
      else if has_emitted_tool_block (br_blocks b) then tool_recovery env body (br_alias_buffers b) (br_sse b) n
      else text_recovery env body (br_sse b) n)"

definition emit_openai_error_tail :: "pystr \<Rightarrow> sse_builder emitter" where
  "emit_openai_error_tail msg =
     emit_seq close_all_blocks
       (emit_seq (\<lambda>s. if has_emitted_tool_block (blocks s) then emit_top_level_error msg s else emit_error msg s)
          (emit_seq (message_delta (u ''end_turn'') (Some 1)) message_stop))"

text \<open>Yielding past the holdback: what is held goes first, when it has not been committed.\<close>

definition yield_tail :: "sse_builder emitter \<Rightarrow> sse_builder \<Rightarrow> strm \<Rightarrow> strm" where
  "yield_tail f s st =
     (case f s of (fs, s', _) \<Rightarrow> st\<lparr>s_bridge := (s_bridge st)\<lparr>br_sse := s'\<rparr>, s_out := s_out st @ fs\<rparr>)"

definition flush_held :: "strm \<Rightarrow> strm" where
  "flush_held st = (case hb_flush (s_hold st) of (out, h) \<Rightarrow> st\<lparr>s_hold := h, s_out := s_out st @ out\<rparr>)"

text \<open>The error path of the \<open>except Exception\<close> clause, when no transparent retry is made.\<close>

definition error_path :: "stream_env \<Rightarrow> py_exn \<Rightarrow> sse_builder \<Rightarrow> strm \<Rightarrow> strm" where
  "error_path env e s st =
     (let tail = emit_openai_error_tail (e_error_message env e) in
      if hb_committed (s_hold st) then yield_tail tail s st
      else if hb_has_buffered (s_hold st) then yield_tail tail s (flush_held st)
      else yield_tail tail (br_sse (new_bridge env)) (st\<lparr>s_hold := hb_discard (s_hold st)\<rparr>))"

definition fail_stream :: "stream_env \<Rightarrow> json \<Rightarrow> nat \<Rightarrow> py_exn \<Rightarrow> strm \<Rightarrow> strm" where
  "fail_stream env body n e st =
     (if has_committed_sse_output (br_sse (s_bridge st)) \<and> is_retryable_stream_error e then
        (case openai_recovery_events env body e (s_bridge st) n of
           (Inr (Some events), s) \<Rightarrow>
             let st1 = (if hb_committed (s_hold st) then st else flush_held st)
             in st1\<lparr>s_bridge := (s_bridge st1)\<lparr>br_sse := s\<rparr>, s_out := s_out st1 @ events\<rparr>
         | (_, s) \<Rightarrow> error_path env e s st)
      else error_path env e (br_sse (s_bridge st)) st)"

text \<open>
  One pass of the \<open>while True\<close> body up to its \<open>break\<close> or exception: whether the stream was
  opened, and the body in use afterwards.
\<close>

definition run_attempt :: "stream_env \<Rightarrow> json \<Rightarrow> nat \<Rightarrow> strm \<Rightarrow> strm \<times> py_exn option \<times> bool \<times> json" where
  "run_attempt env body n st =
     (case e_create env body n of
        Inl e \<Rightarrow> (st, Some e, False, body)
      | Inr ((ks, ending), body') \<Rightarrow>
          (case act_seq (act_list (process_chunk env) ks) (end_of_stream ending)
                  (st\<lparr>s_aliases := e_aliases env body'\<rparr>) of
             (st', e) \<Rightarrow> (st', e, True, body')))"

definition may_retry :: "stream_env \<Rightarrow> py_exn \<Rightarrow> bool \<Rightarrow> strm \<Rightarrow> bool" where
  "may_retry env e opened st \<longleftrightarrow>
     (let s = br_sse (s_bridge st);
          salvageable = has_committed_sse_output s \<and> has_emitted_tool_block (blocks s)
                        \<and> all_started_tools_complete env s
      in \<not> hb_committed (s_hold st) \<and> opened \<and> is_retryable_stream_error e \<and> \<not> salvageable)"

text \<open>The loop, with the retries left; \<open>True\<close> when a stream ran to its normal end.\<close>

function stream_loop :: "stream_env \<Rightarrow> nat \<Rightarrow> json \<Rightarrow> nat \<Rightarrow> strm \<Rightarrow> strm \<times> bool" where
  "stream_loop env retries body n st =
     (case run_attempt env body n st of
        (st1, None, _) \<Rightarrow> (st1, True)
      | (st1, Some e, opened, body1) \<Rightarrow>
          if may_retry env e opened st1 \<and> 0 < retries
          then stream_loop env (retries - 1) body1 (Suc n) (reset_stream env st1)
          else (fail_stream env body1 (Suc n) e st1, False))"
  by pat_completeness auto
termination
  by (relation "measure (\<lambda>(env, r, body, n, st). r)") auto

declare stream_loop.simps [simp del]

section \<open>The end of the stream\<close>

definition flush_remaining :: "stream_env \<Rightarrow> action" where
  "flush_remaining env st =
     (case flush (s_think st) of
        (None, tp) \<Rightarrow> (st\<lparr>s_think := tp\<rparr>, None)
      | (Some (ContentChunk THINKING t), tp) \<Rightarrow>
          act_if (e_thinking env) (hold_thinking env t) (st\<lparr>s_think := tp\<rparr>)
      | (Some (ContentChunk TEXT t), tp) \<Rightarrow> hold_text env t (st\<lparr>s_think := tp\<rparr>))"

definition flush_heuristic :: "stream_env \<Rightarrow> action" where
  "flush_heuristic env st =
     (case heur_flush (s_heur st) of
        (tools, hp) \<Rightarrow> act_list (\<lambda>tu. hold_events env (iter_heuristic_tool_use tu)) tools (st\<lparr>s_heur := hp\<rparr>))"

text \<open>A message with no block, or with thinking only, gets a minimal text block.\<close>

definition needs_filler :: "sse_builder \<Rightarrow> bool" where
  "needs_filler s \<longleftrightarrow>
     (let has_tool = has_emitted_tool_block (blocks s) in
      \<not> (text_index (blocks s) \<noteq> - 1 \<or> thinking_index (blocks s) \<noteq> - 1 \<or> has_tool)
      \<or> (\<not> has_tool \<and> str_strip (accumulated_text s) = [] \<and> str_strip (accumulated_reasoning s) \<noteq> []))"

definition filler :: "stream_env \<Rightarrow> action" where
  "filler env st = act_if (needs_filler (br_sse (s_bridge st))) (hold_text env [32]) st"

definition final_events :: "stream_env \<Rightarrow> action" where
  "final_events env st =
     hold_events env
       (on_sse (emit_seq (\<lambda>s. message_delta (map_stop_reason (s_finish st))
          (Some (case s_usage st of Some (Some n) \<Rightarrow> n | _ \<Rightarrow> int (estimate_output_tokens (e_encoder env) s))) s)
          message_stop)) st"

definition finish_stream :: "stream_env \<Rightarrow> action" where
  "finish_stream env =
     act_seq (flush_remaining env)
       (act_seq (flush_heuristic env)
          (act_seq (filler env)
             (act_seq (\<lambda>st. hold_events env (flush_alias_buffers (s_aliases st)) st)
                (act_seq (hold_events env flush_task_buffers)
                   (act_seq (hold_events env (on_sse close_all_blocks)) (final_events env))))))"

text \<open>
  \<open>_stream_response_impl\<close>: the events the client receives, and the exception that escapes
  the generator, if any.
\<close>

definition initial_stream :: "stream_env \<Rightarrow> strm" where
  "initial_stream env =
     \<lparr>s_bridge = new_bridge env, s_hold = RecoveryHoldbackBuffer, s_now = 0,
      s_out = fst (message_start (br_sse (new_bridge env))),
      s_think = ThinkTagParser_init, s_heur = HeuristicToolParser_init, s_finish = None,
      s_usage = None, s_aliases = []\<rparr>"

definition stream_response :: "stream_env \<Rightarrow> json \<Rightarrow> frame list \<times> py_exn option" where
  "stream_response env body =
     (case stream_loop env EARLY_TRANSPARENT_MAX_RETRIES body 0 (initial_stream env) of
        (st, False) \<Rightarrow> (s_out st, None)
      | (st, True) \<Rightarrow>
          (case finish_stream env st of
             (st1, None) \<Rightarrow> (s_out (flush_held st1), None)
           | (st1, Some e) \<Rightarrow> (s_out st1, Some e)))"

end
