(* ===== verification/OpenAIContract.thy ===== *)
theory OpenAIContract
  imports OpenAIStream
begin

text \<open>
  The stream the bridge emits satisfies the Anthropic stream contract: first each emitter of
  the bridge, by the rules of the \<open>contract_emitter\<close> locale interpreted on the bridge, then
  the actions of the stream loop, then the loop with its error, retry and recovery paths.
\<close>

section \<open>Every step keeps to the contract\<close>

text \<open>
  Arguments are only ever buffered for tools whose block is open, and a buffered Task
  argument text is no JSON document yet.
\<close>

definition pending_started :: "bridge \<Rightarrow> bool" where
  "pending_started b \<longleftrightarrow>
     (\<forall>t st. tool_state (br_blocks b) t = Some st \<longrightarrow> task_arg_buffer st \<noteq> [] \<longrightarrow> started st) \<and>
     (\<forall>t \<in> fst ` set (br_alias_buffers b). tool_open_for t (br_sse b))"

definition pending_incomplete :: "bridge \<Rightarrow> bool" where
  "pending_incomplete b \<longleftrightarrow>
     (\<forall>t st. tool_state (br_blocks b) t = Some st \<longrightarrow> task_arg_buffer st \<noteq> [] \<longrightarrow>
        json_loads (task_arg_buffer st) = None)"

definition bridge_inv :: "bridge \<Rightarrow> contract_state \<Rightarrow> bool" where
  "bridge_inv b c \<longleftrightarrow> builder_inv (br_sse b) c \<and> pending_started b"

interpretation brg: contract_emitter bridge_inv allow for allow
  using bld.inv_seen by unfold_locales (force simp: bridge_inv_def)

text \<open>Changes of the tools' states that open no tool's arguments to doubt.\<close>

definition keeps_pending :: "content_blocks \<Rightarrow> content_blocks \<Rightarrow> bool" where
  "keeps_pending b b' \<longleftrightarrow>
     (\<forall>t st'. tool_state b' t = Some st' \<longrightarrow> task_arg_buffer st' \<noteq> [] \<longrightarrow>
        (\<exists>st. tool_state b t = Some st \<and> task_arg_buffer st = task_arg_buffer st' \<and>
              (started st \<longrightarrow> started st'))) \<and>
     (\<forall>t. not_started (tool_states b') t \<longrightarrow> not_started (tool_states b) t)"

lemma keeps_pending_refl [simp]: "keeps_pending b b"
  by (simp add: keeps_pending_def)

lemma keeps_pending_trans: "keeps_pending a b \<Longrightarrow> keeps_pending b c \<Longrightarrow> keeps_pending a c"
  unfolding keeps_pending_def by metis

lemma keeps_pending_tools: "tool_states b' = tool_states b \<Longrightarrow> keeps_pending b b'"
  by (simp add: keeps_pending_def tool_state_def)

lemma keeps_pending_set:
  assumes "task_arg_buffer st = [] \<or> (\<exists>old. tool_state b t = Some old \<and> task_arg_buffer st = task_arg_buffer old)"
    and "\<And>old. tool_state b t = Some old \<Longrightarrow> started old \<Longrightarrow> started st"
  shows "keeps_pending b (set_tool_state t st b)"
  using assms unfolding keeps_pending_def not_started_def
  by (auto simp: tool_state_def set_tool_state_def dict_simps split: option.splits if_splits)

lemma pending_kept:
  assumes "keeps_pending (br_blocks b) (br_blocks b')" "br_alias_buffers b' = br_alias_buffers b"
  shows "pending_started b \<Longrightarrow> pending_started b'" "pending_incomplete b \<Longrightarrow> pending_incomplete b'"
  using assms unfolding pending_started_def pending_incomplete_def keeps_pending_def tool_open_for_def
  by metis+

lemma on_sse_ok:
  assumes "bld.emits a P f Q" "\<And>s fs s' e. f s = (fs, s', e) \<Longrightarrow> keeps_pending (blocks s) (blocks s')"
  shows "brg.emits a (\<lambda>b. P (br_sse b) \<and> pending_incomplete b) (on_sse f) (\<lambda>b. Q (br_sse b) \<and> pending_incomplete b)"
proof (rule brg.emitsI)
  fix b c fs b' e
  assume inv: "bridge_inv b c" and P: "P (br_sse b) \<and> pending_incomplete b" and run: "on_sse f b = (fs, b', e)"
  obtain s' where f: "f (br_sse b) = (fs, s', e)" and b': "b' = b\<lparr>br_sse := s'\<rparr>"
    using run by (auto simp: on_sse_def split: prod.splits)
  have "builder_inv (br_sse b) c" using inv by (simp add: bridge_inv_def)
  then obtain c' where "contract_run a fs c = Inr c'" "builder_inv s' c'" "e = None \<longrightarrow> Q s'"
    using bld.emitsD [OF assms(1) _ _ f] P by blast
  moreover have "pending_started b'" "pending_incomplete b'"
    using pending_kept [of b b'] assms(2) [OF f] inv P by (simp_all add: b' bridge_inv_def)
  ultimately show "(\<exists>c'. contract_run a fs c = Inr c' \<and> bridge_inv b' c') \<and>
      (e = None \<longrightarrow> Q (br_sse b') \<and> pending_incomplete b')"
    by (auto simp: b' bridge_inv_def)
qed

subsection \<open>Builder methods keep the pending arguments\<close>

lemma keeps_seq:
  assumes "\<And>s fs s' e. f s = (fs, s', e) \<Longrightarrow> keeps_pending (blocks s) (blocks s')"
    and "\<And>s fs s' e. g s = (fs, s', e) \<Longrightarrow> keeps_pending (blocks s) (blocks s')"
    and "emit_seq f g s = (fs, s', e)"
  shows "keeps_pending (blocks s) (blocks s')"
proof -
  obtain xs s1 e1 where f: "f s = (xs, s1, e1)" by (metis prod_cases3)
  obtain ys s2 e2 where g: "g s1 = (ys, s2, e2)" by (metis prod_cases3)
  show ?thesis
    using assms(3) f g assms(1) [OF f] assms(2) [OF g]
    by (cases e1) (auto simp: emit_seq_def intro: keeps_pending_trans)
qed

named_theorems keeps \<open>emitters that keep the pending arguments\<close>

lemma keeps_methods [keeps]:
  "ensure_thinking_block s = (fs, s', e) \<Longrightarrow> keeps_pending (blocks s) (blocks s')"
  "ensure_text_block s = (fs, s', e) \<Longrightarrow> keeps_pending (blocks s) (blocks s')"
  "close_content_blocks s = (fs, s', e) \<Longrightarrow> keeps_pending (blocks s) (blocks s')"
  "emit_thinking_delta t s = (fs, s', e) \<Longrightarrow> keeps_pending (blocks s) (blocks s')"
  "emit_text_delta t s = (fs, s', e) \<Longrightarrow> keeps_pending (blocks s) (blocks s')"
  "heuristic_block tu s = (fs, s', e) \<Longrightarrow> keeps_pending (blocks s) (blocks s')"
  by (rule keeps_pending_tools;
      auto simp: ensure_thinking_block_def ensure_text_block_def close_content_blocks_def emit_seq_def
        emit_if_def stop_thinking_block_def stop_text_block_def start_thinking_block_def
        start_text_block_def allocate_index_def emit_thinking_delta_def emit_text_delta_def
        heuristic_block_def split: if_splits)+

lemma keeps_start_tool [keeps]:
  "start_tool_block t tid name x s = (fs, s', e) \<Longrightarrow> keeps_pending (blocks s) (blocks s')"
  using keeps_pending_set [where b = "blocks s"]
  by (auto simp: start_tool_block_def allocate_index_def Let_def ToolCallState_def set_tool_state_def
      keeps_pending_def tool_state_def not_started_def dict_simps split: option.splits if_splits)

lemma keeps_tool_delta [keeps]:
  "emit_tool_delta t j s = (fs, s', e) \<Longrightarrow> keeps_pending (blocks s) (blocks s')"
  by (auto simp: emit_tool_delta_def split: option.splits intro!: keeps_pending_set)

lemma heuristic_block_ok: "bld.emits a (\<lambda>_. True) (heuristic_block tu) (\<lambda>_. True)"
proof (rule bld.emitsI)
  fix s :: sse_builder and c fs s' e
  let ?i = "next_index (blocks s)" and ?u = "u ''tool_use''"
  assume inv: "builder_inv s c" and run: "heuristic_block tu s = (fs, s', e)"
  obtain kw where fs: "fs = [content_block_start ?i ?u kw,
        content_block_delta ?i (u ''input_json_delta'') (json_dumps (heuristic_input tu)), content_block_stop ?i]"
      and kw: "dict_get kw (u ''text'') = None"
      and s': "s' = s\<lparr>blocks := (blocks s)\<lparr>next_index := ?i + 1\<rparr>\<rparr>"
    using run by (auto simp: heuristic_block_def allocate_index_def)
  let ?c1 = "with_block ?i ?u c"
  have fresh: "?i \<notin> seen_blocks c" "?i \<notin> fst ` set (open_blocks c)" using fresh_index [OF inv] by simp_all
  then have get: "dict_get (open_blocks ?c1) ?i = Some ?u"
    by (simp add: map_add_def dict_get_None_iff [THEN iffD2] split: option.split)
  have "contract_step a (content_block_start ?i ?u kw) c = Inr ?c1"
    by (rule start_frame_step) (use kw fresh in simp_all)
  moreover have "contract_step a (content_block_delta ?i (u ''input_json_delta'') t) ?c1 = Inr ?c1" for t
    by (rule delta_frame_step [OF get]) simp
  ultimately have "contract_run a fs c = Inr (without_block ?i ?c1)"
    using stop_frame_step [OF get, of a] by (simp only: fs contract_run_Cons contract_run.simps(1))
  moreover have "dict_pop ?i (open_blocks c @ [(?i, ?u)]) = open_blocks c"
    using fresh(2) by (simp add: AList.delete_eq filter_id_conv) force
  ultimately have "contract_run a fs c = Inr (c\<lparr>seen_blocks := insert ?i (seen_blocks c)\<rparr>)" by simp
  moreover have "builder_inv s' (c\<lparr>seen_blocks := insert ?i (seen_blocks c)\<rparr>)"
    using inv by (auto simp: builder_inv_def s' block_list_def Let_def)
  ultimately show "(\<exists>c'. contract_run a fs c = Inr c' \<and> builder_inv s' c') \<and> (e = None \<longrightarrow> True)"
    by blast
qed


subsection \<open>Lifting\<close>

abbreviation calm :: "bridge \<Rightarrow> bool" where
  "calm \<equiv> pending_incomplete"

definition tool_ready :: "int \<Rightarrow> bridge \<Rightarrow> bool" where
  "tool_ready t b \<longleftrightarrow> tool_open_for t (br_sse b)"

lemma lift_seq_blocks:
  assumes "bld.emits a (\<lambda>_. True) f (\<lambda>_. True)" "\<And>s fs s' e. f s = (fs, s', e) \<Longrightarrow> keeps_pending (blocks s) (blocks s')"
  shows "brg.emits a calm (on_sse f) calm"
  by (rule brg.emits_weaken [OF on_sse_ok [OF assms]]) simp_all

lemma iter_heuristic_ok: "brg.emits a calm (iter_heuristic_tool_use tu) calm"
  unfolding iter_heuristic_tool_use_def
proof (rule lift_seq_blocks)
  show "bld.emits a (\<lambda>_. True) (emit_seq close_content_blocks (heuristic_block tu)) (\<lambda>_. True)"
    by (intro bld.emits_seq [where Q = "\<lambda>_. True"] bld.emits_weaken [OF close_content_ok] heuristic_block_ok) simp_all
qed (erule keeps_seq [rotated 2]; rule keeps; assumption)

lemma lifted_text:
  "brg.emits a calm (on_sse ensure_text_block) (\<lambda>b. text_started (br_blocks b) \<and> calm b)"
  "brg.emits a (\<lambda>b. text_started (br_blocks b) \<and> calm b) (on_sse (emit_text_delta t)) calm"
  "brg.emits a calm (on_sse ensure_thinking_block) (\<lambda>b. thinking_started (br_blocks b) \<and> calm b)"
  "brg.emits a (\<lambda>b. thinking_started (br_blocks b) \<and> calm b) (on_sse (emit_thinking_delta t)) calm"
  "brg.emits a calm (on_sse close_content_blocks) calm"
proof -
  show "brg.emits a calm (on_sse ensure_text_block) (\<lambda>b. text_started (br_blocks b) \<and> calm b)"
    by (rule brg.emits_weaken [OF on_sse_ok [OF ensure_text_ok keeps_methods(2)]]) simp_all
  show "brg.emits a (\<lambda>b. text_started (br_blocks b) \<and> calm b) (on_sse (emit_text_delta t)) calm"
    by (rule brg.emits_weaken [OF on_sse_ok [OF text_delta_ok keeps_methods(5)]]) simp_all
  show "brg.emits a calm (on_sse ensure_thinking_block) (\<lambda>b. thinking_started (br_blocks b) \<and> calm b)"
    by (rule brg.emits_weaken [OF on_sse_ok [OF ensure_thinking_ok keeps_methods(1)]]) simp_all
  show "brg.emits a (\<lambda>b. thinking_started (br_blocks b) \<and> calm b) (on_sse (emit_thinking_delta t)) calm"
    by (rule brg.emits_weaken [OF on_sse_ok [OF thinking_delta_ok keeps_methods(4)]]) simp_all
  show "brg.emits a calm (on_sse close_content_blocks) calm"
    by (rule brg.emits_weaken [OF on_sse_ok [OF close_content_ok keeps_methods(3)]]) simp_all
qed

lemma lifted_tool_delta:
  "brg.emits a (\<lambda>b. tool_ready t b \<and> calm b) (on_sse (emit_tool_delta t j)) (\<lambda>b. tool_ready t b \<and> calm b)"
  unfolding tool_ready_def by (rule on_sse_ok [OF tool_delta_ok keeps_tool_delta])

lemma lifted_tool_start:
  "brg.emits a (\<lambda>b. \<not> tool_ready t b \<and> calm b) (on_sse (start_tool_block t tid n x)) (\<lambda>b. tool_ready t b \<and> calm b)"
  unfolding tool_ready_def by (rule on_sse_ok [OF start_tool_ok keeps_start_tool])

text \<open>A silent change of the bridge that keeps the invariant.\<close>

lemma silent_inv:
  assumes "bridge_inv b c" "same_blocks (br_blocks b) (br_blocks b')"
    and "pending_started b \<Longrightarrow> pending_started b'"
  shows "bridge_inv b' c"
  using assms builder_inv_blocks [of "br_sse b" c "br_sse b'"] by (simp add: bridge_inv_def)

lemma ready_same: "same_blocks (br_blocks b) (br_blocks b') \<Longrightarrow> tool_ready t b' = tool_ready t b"
  by (simp add: tool_ready_def tool_open_for_def same_blocks_def)

lemma ready_state: "tool_ready t b \<Longrightarrow> \<exists>st. tool_state (br_blocks b) t = Some st \<and> started st"
  unfolding tool_ready_def by (rule tool_open_forD)

lemma tool_stateI: "tool_state (br_blocks b) t = Some st \<Longrightarrow> started st \<Longrightarrow> tool_ready t b"
  by (simp add: tool_ready_def tool_open_for_def not_started_def tool_state_def)

text \<open>Buffering Task arguments.\<close>

lemma task_args_effect:
  assumes "buffer_task_args t args blk = (r, blk')" "tool_state blk t = Some st" "started st"
  shows "\<exists>st'. tool_state blk' t = Some st' \<and> started st' \<and> (\<forall>t'. t' \<noteq> t \<longrightarrow> tool_state blk' t' = tool_state blk t') \<and>
    (\<forall>x. r = Inr x \<longrightarrow> task_arg_buffer st' \<noteq> [] \<longrightarrow>
        json_loads (task_arg_buffer st') = None \<or> task_arg_buffer st' = task_arg_buffer st)"
  using assms
  by (auto simp: buffer_task_args_def Let_def split: option.splits if_splits sum.splits)

lemma buffer_task_pending:
  assumes "buffer_task_args t args (br_blocks b) = (r, blk)" "tool_ready t b" "pending_started b"
  shows "pending_started (set_blocks blk b)" "calm b \<Longrightarrow> r = Inr x \<Longrightarrow> calm (set_blocks blk b)"
proof -
  obtain st where st: "tool_state (br_blocks b) t = Some st" "started st" using ready_state [OF assms(2)] by blast
  obtain st' where st': "tool_state blk t = Some st'" "started st'"
      "\<And>t'. t' \<noteq> t \<Longrightarrow> tool_state blk t' = tool_state (br_blocks b) t'"
      "\<And>x. r = Inr x \<Longrightarrow> task_arg_buffer st' \<noteq> [] \<Longrightarrow>
         json_loads (task_arg_buffer st') = None \<or> task_arg_buffer st' = task_arg_buffer st"
    using task_args_effect [OF assms(1) st] by blast
  have same: "same_blocks (br_blocks b) (br_blocks (set_blocks blk b))"
    using same_blocks_task [OF assms(1)] by (simp add: set_blocks_def)
  show "pending_started (set_blocks blk b)"
    unfolding pending_started_def
  proof (intro conjI allI ballI impI)
    fix t' st0
    assume "tool_state (br_blocks (set_blocks blk b)) t' = Some st0" "task_arg_buffer st0 \<noteq> []"
    then show "started st0"
      using st' assms(3) by (cases "t' = t") (auto simp: set_blocks_def pending_started_def)
  next
    fix t'
    assume "t' \<in> fst ` set (br_alias_buffers (set_blocks blk b))"
    then have "tool_ready t' b" using assms(3) unfolding pending_started_def by (auto simp: set_blocks_def tool_ready_def)
    then have "tool_ready t' (set_blocks blk b)" using ready_same [OF same] by simp
    then show "tool_open_for t' (br_sse (set_blocks blk b))" by (simp add: tool_ready_def)
  qed
  show "calm (set_blocks blk b)" if calm: "calm b" and r: "r = Inr x"
    unfolding pending_incomplete_def
  proof (intro allI impI)
    fix t' st0
    assume "tool_state (br_blocks (set_blocks blk b)) t' = Some st0" "task_arg_buffer st0 \<noteq> []"
    then show "json_loads (task_arg_buffer st0) = None"
      using st' st(1) r calm by (cases "t' = t") (fastforce simp: set_blocks_def pending_incomplete_def)+
  qed
qed


subsection \<open>Argument deltas\<close>

lemma emits_at:
  assumes "brg.emits a P f Q" "bridge_inv b c" "P b"
  shows "f b = (fs, b', e) \<Longrightarrow>
    (\<exists>c'. contract_run a fs c = Inr c' \<and> bridge_inv b' c') \<and> (e = None \<longrightarrow> Q b')"
  using brg.emitsD [OF assms(1,2,3)] by blast

lemma alias_buffer_ok:
  assumes "bridge_inv b c" "tool_ready t b"
  shows "bridge_inv (b\<lparr>br_alias_buffers := dict_set t x (br_alias_buffers b)\<rparr>) c"
    "bridge_inv (b\<lparr>br_alias_buffers := dict_pop t (br_alias_buffers b)\<rparr>) c"
  using assms unfolding bridge_inv_def pending_started_def tool_ready_def
  by (auto simp: dict_simps)

lemma arg_delta_ok:
  "brg.emits a (\<lambda>b. tool_ready t b \<and> calm b) (emit_tool_arg_delta al t args) (\<lambda>b. tool_ready t b \<and> calm b)"
proof (rule brg.emitsI)
  fix b c fs b' e
  assume inv: "bridge_inv b c" and P: "tool_ready t b \<and> calm b" and run: "emit_tool_arg_delta al t args b = (fs, b', e)"
  obtain st where st: "tool_state (br_blocks b) t = Some st" "started st" using ready_state P by blast
  let ?goal = "(\<exists>c'. contract_run a fs c = Inr c' \<and> bridge_inv b' c') \<and> (e = None \<longrightarrow> tool_ready t b' \<and> calm b')"
  note delta = emits_at [OF lifted_tool_delta]
  show ?goal
  proof (cases "args = [] \<or> tool_name st = u ''Task''")
    case True
    show ?thesis
    proof (cases "args = []")
      case True
      then show ?thesis using run inv P by (auto simp: emit_tool_arg_delta_def)
    next
      case False
      obtain r blk where buf: "buffer_task_args t args (br_blocks b) = (r, blk)" by fastforce
      let ?b1 = "set_blocks blk b"
      have same: "same_blocks (br_blocks b) (br_blocks ?b1)"
        using same_blocks_task [OF buf] by (simp add: set_blocks_def)
      have pend: "pending_started b" using inv by (simp add: bridge_inv_def)
      have inv1: "bridge_inv ?b1 c"
        using silent_inv [OF inv same] buffer_task_pending(1) [OF buf _ pend] P by blast
      have ready1: "tool_ready t ?b1" using ready_same [OF same] P by blast
      have calm1: "r = Inr x \<Longrightarrow> calm ?b1" for x using buffer_task_pending(2) [OF buf _ pend] P by blast
      have task: "tool_name st = u ''Task''" using False True by simp
      consider ex where "r = Inl ex" | "r = Inr None" | j where "r = Inr (Some j)"
        by (metis option.exhaust sum.exhaust)
      then show ?thesis
      proof cases
        case 1
        then have "fs = []" "b' = ?b1" "e = Some ex"
          using run st False task buf by (simp_all add: emit_tool_arg_delta_def)
        then show ?thesis using inv1 by simp
      next
        case 2
        then have "fs = []" "b' = ?b1"
          using run st False task buf by (simp_all add: emit_tool_arg_delta_def)
        then show ?thesis using inv1 ready1 calm1 [OF 2] by simp
      next
        case 3
        then have "on_sse (emit_tool_delta t (json_dumps j)) ?b1 = (fs, b', e)"
          using run st False task buf by (simp add: emit_tool_arg_delta_def)
        then show ?thesis using delta [OF inv1] ready1 calm1 [OF 3] by blast
      qed
    qed
  next
    case False
    let ?al = "dict_get_default al (tool_name st) []"
    let ?buf = "dict_get_default (br_alias_buffers b) t [] @ args"
    show ?thesis
    proof (cases "?al = []")
      case True
      then have "on_sse (emit_tool_delta t args) b = (fs, b', e)"
        using run st False by (simp add: emit_tool_arg_delta_def)
      then show ?thesis using delta [OF inv P] by blast
    next
      case al: False
      show ?thesis
      proof (cases "restore_aliased_tool_arguments ?buf ?al")
        case None
        then have "fs = []" "b' = b\<lparr>br_alias_buffers := dict_set t ?buf (br_alias_buffers b)\<rparr>"
          using run st False al by (simp_all add: emit_tool_arg_delta_def)
        then show ?thesis
          using alias_buffer_ok(1) [OF inv, of t ?buf] P by (auto simp: tool_ready_def pending_incomplete_def)
      next
        case (Some r)
        let ?b1 = "b\<lparr>br_alias_buffers := dict_pop t (br_alias_buffers b)\<rparr>"
        have "on_sse (emit_tool_delta t r) ?b1 = (fs, b', e)"
          using run st False al Some by (simp add: emit_tool_arg_delta_def)
        moreover have "bridge_inv ?b1 c" using alias_buffer_ok(2) [OF inv] P by blast
        moreover have "tool_ready t ?b1 \<and> calm ?b1" using P by (simp add: tool_ready_def pending_incomplete_def)
        ultimately show ?thesis using delta by blast
      qed
    qed
  qed
qed


subsection \<open>Tool-call deltas\<close>

text \<open>A change of one tool's state that touches neither its block nor its Task buffer.\<close>

lemma silent_tool_update:
  assumes "bridge_inv b c" "calm b" "same_blocks (br_blocks b) blk" "keeps_pending (br_blocks b) blk"
  shows "bridge_inv (set_blocks blk b) c" "calm (set_blocks blk b)" "tool_ready t (set_blocks blk b) = tool_ready t b"
proof -
  have b: "br_blocks (set_blocks blk b) = blk" "br_alias_buffers (set_blocks blk b) = br_alias_buffers b"
    by (simp_all add: set_blocks_def)
  show "bridge_inv (set_blocks blk b) c"
    using silent_inv [OF assms(1), of "set_blocks blk b"] pending_kept(1) [of b "set_blocks blk b"] assms(3,4)
    by (simp add: b)
  show "calm (set_blocks blk b)"
    using pending_kept(2) [of b "set_blocks blk b"] assms(2,4) by (simp add: b)
  show "tool_ready t (set_blocks blk b) = tool_ready t b"
    using ready_same [of b "set_blocks blk b"] assms(3) by (simp add: b)
qed

lemma keeps_ensure: "ensure_tool_state t b = (st, b') \<Longrightarrow> keeps_pending b b' \<and> tool_state b' t = Some st"
  by (auto simp: ensure_tool_state_def ToolCallState_def intro!: keeps_pending_set split: option.splits)

lemma keeps_record: "keeps_pending b (record_tool_call t tc b)"
proof -
  have id: "keeps_pending b (set_stream_tool_id t tid b)" for b tid
    by (auto simp: set_stream_tool_id_def split: option.split prod.split dest!: keeps_ensure
        intro!: keeps_pending_trans [OF _ keeps_pending_set])
  have ex: "keeps_pending b (set_tool_extra_content t x b)" for b x
    by (auto simp: set_tool_extra_content_def split: option.split prod.split dest!: keeps_ensure
        intro!: keeps_pending_trans [OF _ keeps_pending_set])
  have nm: "keeps_pending b (register_tool_name t n b)" for b n
    by (auto simp: register_tool_name_def ToolCallState_def split: option.split intro!: keeps_pending_set)
  show ?thesis
    using keeps_pending_trans [OF keeps_pending_trans [OF id ex] nm] keeps_pending_trans [OF id ex]
    by (simp add: record_tool_call_def Let_def split: option.split)
qed

lemma same_record: "same_blocks b (record_tool_call t tc b)"
  using same_blocks_trans [OF same_blocks_trans [OF same_blocks_set_id same_blocks_set_extra] same_blocks_name]
    same_blocks_trans [OF same_blocks_set_id same_blocks_set_extra]
  by (simp add: record_tool_call_def Let_def split: option.split)

lemma pre_start_ok:
  "brg.emits a (\<lambda>b. tool_ready t b \<and> calm b) (flush_pre_start_args al t) (\<lambda>b. tool_ready t b \<and> calm b)"
proof (rule brg.emitsI)
  fix b c fs b' e
  assume inv: "bridge_inv b c" and P: "tool_ready t b \<and> calm b" and run: "flush_pre_start_args al t b = (fs, b', e)"
  obtain st where st: "tool_state (br_blocks b) t = Some st" "started st" using ready_state P by blast
  let ?b1 = "set_blocks (set_tool_state t (st\<lparr>pre_start_args := []\<rparr>) (br_blocks b)) b"
  show "(\<exists>c'. contract_run a fs c = Inr c' \<and> bridge_inv b' c') \<and> (e = None \<longrightarrow> tool_ready t b' \<and> calm b')"
  proof (cases "pre_start_args st = []")
    case True
    then show ?thesis using run st inv P by (auto simp: flush_pre_start_args_def)
  next
    case False
    then have "emit_tool_arg_delta al t (pre_start_args st) ?b1 = (fs, b', e)"
      using run st by (simp add: flush_pre_start_args_def)
    moreover have same: "same_blocks (br_blocks b) (set_tool_state t (st\<lparr>pre_start_args := []\<rparr>) (br_blocks b))"
      by (rule same_blocks_update [OF st(1)]) simp_all
    moreover have keep: "keeps_pending (br_blocks b) (set_tool_state t (st\<lparr>pre_start_args := []\<rparr>) (br_blocks b))"
      by (rule keeps_pending_set) (use st in auto)
    ultimately show ?thesis
      using emits_at [OF arg_delta_ok] silent_tool_update [OF inv conjunct2 [OF P] same keep] P by blast
  qed
qed

lemma start_named_ok:
  "brg.emits a (\<lambda>b. b = b0 \<and> calm b) (start_named_tool uuid al t tc)
     (\<lambda>b. calm b \<and> (tool_ready t b \<or> str_strip (resolved_name t (br_blocks b0)) = []))"
proof (rule brg.emitsI)
  fix b c fs b' e
  assume inv: "bridge_inv b c" and P: "b = b0 \<and> calm b" and run: "start_named_tool uuid al t tc b = (fs, b', e)"
  let ?name = "resolved_name t (br_blocks b)" and ?rid = "resolved_id t tc (br_blocks b)"
  let ?b1 = "if ?rid \<noteq> [] then b else b\<lparr>br_uuids := Suc (br_uuids b)\<rparr>"
  have ready: "tool_ready t b \<longleftrightarrow> (case tool_state (br_blocks b) t of Some st \<Rightarrow> started st | None \<Rightarrow> False)"
    by (auto simp: tool_ready_def tool_open_for_def not_started_def tool_state_def split: option.split)
  show "(\<exists>c'. contract_run a fs c = Inr c' \<and> bridge_inv b' c') \<and>
      (e = None \<longrightarrow> calm b' \<and> (tool_ready t b' \<or> str_strip (resolved_name t (br_blocks b0)) = []))"
  proof (cases "tool_ready t b \<or> str_strip ?name = []")
    case True
    then have "fs = []" "b' = b" using run by (auto simp: start_named_tool_def Let_def ready)
    then show ?thesis using inv P True by auto
  next
    case False
    obtain tid x where "emit_seq (on_sse (start_tool_block t tid (str_strip ?name) x)) (flush_pre_start_args al t) ?b1
        = (fs, b', e)"
      using run False by (auto simp: start_named_tool_def Let_def ready split: if_splits)
    moreover have "bridge_inv ?b1 c" using inv by (simp add: bridge_inv_def pending_started_def)
    moreover have "\<not> tool_ready t ?b1 \<and> calm ?b1" using False P by (simp add: tool_ready_def pending_incomplete_def)
    ultimately show ?thesis
      using emits_at [OF brg.emits_seq [OF lifted_tool_start pre_start_ok]] by blast
  qed
qed

lemma send_arguments_ok:
  "brg.emits a (\<lambda>b. calm b \<and> (tool_ready t b \<or> str_strip name = [])) (send_arguments al t name args) calm"
proof (rule brg.emitsI)
  fix b c fs b' e
  assume inv: "bridge_inv b c" and P: "calm b \<and> (tool_ready t b \<or> str_strip name = [])"
    and run: "send_arguments al t name args b = (fs, b', e)"
  have ready: "tool_ready t b \<longleftrightarrow> (case tool_state (br_blocks b) t of Some st \<Rightarrow> started st | None \<Rightarrow> False)"
    by (auto simp: tool_ready_def tool_open_for_def not_started_def tool_state_def split: option.split)
  show "(\<exists>c'. contract_run a fs c = Inr c' \<and> bridge_inv b' c') \<and> (e = None \<longrightarrow> calm b')"
  proof (cases "args = []")
    case True
    then show ?thesis using run inv P by (auto simp: send_arguments_def)
  next
    case args: False
    show ?thesis
    proof (cases "tool_ready t b")
      case True
      then have "emit_tool_arg_delta al t args b = (fs, b', e)"
        using run args ready by (simp add: send_arguments_def)
      then show ?thesis using emits_at [OF arg_delta_ok inv] True P by blast
    next
      case False
      obtain st blk where en: "ensure_tool_state t (br_blocks b) = (st, blk)" by fastforce
      let ?blk = "set_tool_state t (st\<lparr>pre_start_args := pre_start_args st @ args\<rparr>) blk"
      have "fs = [] \<and> b' = set_blocks ?blk b"
        using run args False ready P en by (simp add: send_arguments_def)
      moreover have "same_blocks (br_blocks b) ?blk"
        by (rule same_blocks_then) (use same_blocks_ensure [OF en] in simp_all)
      moreover have "keeps_pending blk ?blk"
        by (rule keeps_pending_set) (use keeps_ensure [OF en] in auto)
      then have "keeps_pending (br_blocks b) ?blk"
        using keeps_ensure [OF en] keeps_pending_trans by blast
      ultimately show ?thesis using silent_tool_update [OF inv, of ?blk] P by simp
    qed
  qed
qed

lemma process_tool_call_ok: "brg.emits a calm (process_tool_call uuid al tc) calm"
proof (rule brg.emitsI)
  fix b c fs b' e
  assume inv: "bridge_inv b c" and P: "calm b" and run: "process_tool_call uuid al tc b = (fs, b', e)"
  let ?t = "resolve_index tc (br_blocks b)"
  let ?b1 = "set_blocks (record_tool_call ?t tc (br_blocks b)) b"
  let ?name = "resolved_name ?t (br_blocks ?b1)"
  obtain args where "emit_seq (start_named_tool uuid al ?t tc) (send_arguments al ?t ?name args) ?b1 = (fs, b', e)"
    using run by (simp add: process_tool_call_def Let_def)
  moreover have "brg.emits a (\<lambda>b. b = ?b1 \<and> calm b)
      (emit_seq (start_named_tool uuid al ?t tc) (send_arguments al ?t ?name args)) calm"
    by (rule brg.emits_seq [OF start_named_ok send_arguments_ok])
  moreover note silent_tool_update [OF inv P same_record keeps_record]
  ultimately show "(\<exists>c'. contract_run a fs c = Inr c' \<and> bridge_inv b' c') \<and> (e = None \<longrightarrow> calm b')"
    using emits_at by blast
qed


subsection \<open>Flushing what is still buffered\<close>

abbreviation all_ready :: "int set \<Rightarrow> bridge \<Rightarrow> bool" where
  "all_ready K b \<equiv> \<forall>t \<in> K. tool_ready t b"

lemma tool_delta_all_ready:
  assumes "t \<in> K"
  shows "brg.emits a (\<lambda>b. all_ready K b \<and> calm b) (on_sse (emit_tool_delta t j)) (\<lambda>b. all_ready K b \<and> calm b)"
proof -
  have "bld.emits a (\<lambda>s. \<forall>t \<in> K. tool_open_for t s) (emit_tool_delta t j) (\<lambda>s. \<forall>t \<in> K. tool_open_for t s)"
  proof (rule bld.emitsI)
    fix s :: sse_builder and c fs s' e
    assume inv: "builder_inv s c" and P: "\<forall>t \<in> K. tool_open_for t s" and run: "emit_tool_delta t j s = (fs, s', e)"
    have "\<forall>t \<in> K. tool_open_for t s'"
      using keeps_tool_delta [OF run] P by (auto simp: keeps_pending_def tool_open_for_def)
    then show "(\<exists>c'. contract_run a fs c = Inr c' \<and> builder_inv s' c') \<and> (e = None \<longrightarrow> (\<forall>t \<in> K. tool_open_for t s'))"
      using bld.emitsD [OF tool_delta_ok [where a = a] inv _ run] P assms by blast
  qed
  then show ?thesis unfolding tool_ready_def by (rule on_sse_ok [OF _ keeps_tool_delta])
qed

lemma alias_pop_ok:
  assumes "bridge_inv b c"
  shows "bridge_inv (b\<lparr>br_alias_buffers := dict_pop t (br_alias_buffers b)\<rparr>) c"
proof -
  let ?b = "b\<lparr>br_alias_buffers := dict_pop t (br_alias_buffers b)\<rparr>"
  have "tool_open_for k (br_sse b)" if "k \<in> fst ` set (dict_pop t (br_alias_buffers b))" for k
  proof -
    have "k \<in> fst ` set (br_alias_buffers b)"
      using that set_keys_pop [of t "br_alias_buffers b"] by blast
    then show ?thesis using assms unfolding bridge_inv_def pending_started_def by blast
  qed
  then have "pending_started ?b"
    using assms unfolding bridge_inv_def pending_started_def by simp
  then show ?thesis using assms by (simp add: bridge_inv_def)
qed

lemma flush_alias_buffer_ok:
  assumes "fst item \<in> K"
  shows "brg.emits a (\<lambda>b. all_ready K b \<and> calm b) (flush_alias_buffer al item) (\<lambda>b. all_ready K b \<and> calm b)"
proof (rule brg.emitsI)
  fix b :: bridge and c fs b' e
  obtain t buffered where item: "item = (t, buffered)" by (cases item)
  assume inv: "bridge_inv b c" and P: "all_ready K b \<and> calm b" and run: "flush_alias_buffer al item b = (fs, b', e)"
  have pop: "brg.emits a (\<lambda>b. all_ready K b \<and> calm b)
      (emit_update (\<lambda>b. b\<lparr>br_alias_buffers := dict_pop t (br_alias_buffers b)\<rparr>)) (\<lambda>b. all_ready K b \<and> calm b)"
  proof (rule brg.emitsI)
    fix b :: bridge and c fs b' e
    assume "bridge_inv b c" "all_ready K b \<and> calm b"
      and "emit_update (\<lambda>b. b\<lparr>br_alias_buffers := dict_pop t (br_alias_buffers b)\<rparr>) b = (fs, b', e)"
    then show "(\<exists>c'. contract_run a fs c = Inr c' \<and> bridge_inv b' c') \<and> (e = None \<longrightarrow> all_ready K b' \<and> calm b')"
      using alias_pop_ok [of b c t] by (auto simp: emit_update_def pending_incomplete_def tool_ready_def)
  qed
  obtain st where st: "tool_state (br_blocks b) t = Some st"
    using P ready_state [of t b] assms unfolding item fst_conv by blast
  let ?al = "dict_get_default al (tool_name st) []"
  consider "buffered = []" | "buffered \<noteq> []" "tool_name st = u ''Task'' \<or> ?al = []"
    | "buffered \<noteq> []" "\<not> (tool_name st = u ''Task'' \<or> ?al = [])" by blast
  then show "(\<exists>c'. contract_run a fs c = Inr c' \<and> bridge_inv b' c') \<and> (e = None \<longrightarrow> all_ready K b' \<and> calm b')"
  proof cases
    case 1
    then show ?thesis
      using emits_at [OF pop inv P] run by (simp add: flush_alias_buffer_def item emit_update_def)
  next
    case 2
    then show ?thesis using run st inv P by (auto simp: flush_alias_buffer_def item Let_def)
  next
    case 3
    obtain j where "emit_seq (on_sse (emit_tool_delta t j))
        (emit_update (\<lambda>b. b\<lparr>br_alias_buffers := dict_pop t (br_alias_buffers b)\<rparr>)) b = (fs, b', e)"
      using run st 3 by (auto simp: flush_alias_buffer_def item Let_def)
    then show ?thesis
      using emits_at [OF brg.emits_seq [OF tool_delta_all_ready pop] inv P] assms item by simp
  qed
qed

lemma flush_alias_buffers_ok: "brg.emits a calm (flush_alias_buffers al) calm"
proof (rule brg.emitsI)
  fix b :: bridge and c fs b' e
  let ?K = "fst ` set (br_alias_buffers b)"
  assume inv: "bridge_inv b c" and "calm b" and run: "flush_alias_buffers al b = (fs, b', e)"
  then have ready: "all_ready ?K b \<and> calm b" by (auto simp: bridge_inv_def pending_started_def tool_ready_def)
  have em: "brg.emits a (\<lambda>b. all_ready ?K b \<and> calm b) (emit_list (flush_alias_buffer al) (br_alias_buffers b))
      (\<lambda>b. all_ready ?K b \<and> calm b)"
    by (rule brg.emits_list, rule flush_alias_buffer_ok) simp
  show "(\<exists>c'. contract_run a fs c = Inr c' \<and> bridge_inv b' c') \<and> (e = None \<longrightarrow> calm b')"
    using emits_at [OF em inv ready run [unfolded flush_alias_buffers_def]] by blast
qed

text \<open>The Task buffers left at the end are incomplete, so each becomes an empty object.\<close>

lemma flush_task_loop_ok:
  "dict_wf items \<Longrightarrow> (\<And>i st. (i, st) \<in> set items \<Longrightarrow> tool_state blk i = Some st) \<Longrightarrow>
   (\<And>i st. (i, st) \<in> set items \<Longrightarrow> task_arg_buffer st \<noteq> [] \<Longrightarrow> started st \<and> json_loads (task_arg_buffer st) = None) \<Longrightarrow>
   \<exists>rs blk'. flush_task_loop items blk = (Inr rs, blk') \<and> same_blocks blk blk' \<and> keeps_pending blk blk' \<and>
     (\<forall>t \<in> fst ` set rs. \<not> not_started (tool_states blk) t)"
proof (induction items arbitrary: blk)
  case (Cons x items)
  obtain i st where x: "x = (i, st)" by (cases x)
  have look: "tool_state blk i = Some st" by (rule Cons.prems(2)) (simp add: x)
  show ?case
  proof (cases "task_arg_buffer st = [] \<or> task_args_emitted st")
    case True
    have "\<exists>rs blk'. flush_task_loop items blk = (Inr rs, blk') \<and> same_blocks blk blk' \<and> keeps_pending blk blk' \<and>
        (\<forall>t \<in> fst ` set rs. \<not> not_started (tool_states blk) t)"
    proof (rule Cons.IH)
      show "dict_wf items" using Cons.prems(1) by simp
      show "tool_state blk j = Some sj" if "(j, sj) \<in> set items" for j sj
        using Cons.prems(2) [of j sj] that by simp
      show "started sj \<and> json_loads (task_arg_buffer sj) = None"
        if "(j, sj) \<in> set items" "task_arg_buffer sj \<noteq> []" for j sj
        using Cons.prems(3) [of j sj] that by simp
    qed
    then show ?thesis using True by (auto simp: x)
  next
    case False
    then have st: "started st" "json_loads (task_arg_buffer st) = None"
      using Cons.prems(3) [of i st] by (simp_all add: x)
    let ?st = "st\<lparr>task_args_emitted := True, task_arg_buffer := []\<rparr>"
    let ?blk = "set_tool_state i ?st blk"
    have same: "same_blocks blk ?blk" by (rule same_blocks_update [OF look]) simp_all
    have keep: "keeps_pending blk ?blk" by (rule keeps_pending_set) (use look st in auto)
    have "\<exists>rs blk'. flush_task_loop items ?blk = (Inr rs, blk') \<and> same_blocks ?blk blk' \<and> keeps_pending ?blk blk' \<and>
        (\<forall>t \<in> fst ` set rs. \<not> not_started (tool_states ?blk) t)"
    proof (rule Cons.IH)
      show "dict_wf items" using Cons.prems(1) by simp
      show "tool_state ?blk j = Some sj" if "(j, sj) \<in> set items" for j sj
        using Cons.prems(1) Cons.prems(2) [of j sj] that by (auto simp: x image_iff)
      show "started sj \<and> json_loads (task_arg_buffer sj) = None"
        if "(j, sj) \<in> set items" "task_arg_buffer sj \<noteq> []" for j sj
        using Cons.prems(3) [of j sj] that by simp
    qed
    then obtain rs blk' where rs: "flush_task_loop items ?blk = (Inr rs, blk')" "same_blocks ?blk blk'"
        "keeps_pending ?blk blk'" "\<forall>t \<in> fst ` set rs. \<not> not_started (tool_states ?blk) t" by blast
    have "\<not> not_started (tool_states blk) i" using look st by (simp add: not_started_def tool_state_def)
    moreover have "not_started (tool_states ?blk) t = not_started (tool_states blk) t" for t
      using same by (simp add: same_blocks_def)
    ultimately show ?thesis
      using rs same keep False st same_blocks_trans [of blk ?blk blk'] keeps_pending_trans [of blk ?blk blk']
      by (auto simp: x)
  qed
qed simp

lemma flush_task_result:
  assumes inv: "bridge_inv b c" and P: "calm b"
  obtains rs blk where "flush_task_arg_buffers (br_blocks b) = (Inr rs, blk)" "bridge_inv (set_blocks blk b) c"
    "all_ready (fst ` set rs) (set_blocks blk b)" "calm (set_blocks blk b)"
proof -
  have wf: "dict_wf (tool_states (br_blocks b))" using inv inv_tools_wf unfolding bridge_inv_def by blast
  then have "tool_state (br_blocks b) i = Some st" if "(i, st) \<in> set (tool_states (br_blocks b))" for i st
    using that by (simp add: tool_state_def)
  then have "\<exists>rs blk'. flush_task_loop (tool_states (br_blocks b)) (br_blocks b) = (Inr rs, blk') \<and>
      same_blocks (br_blocks b) blk' \<and> keeps_pending (br_blocks b) blk' \<and>
      (\<forall>t \<in> fst ` set rs. \<not> not_started (tool_states (br_blocks b)) t)"
    using inv P unfolding bridge_inv_def pending_started_def pending_incomplete_def
    by (intro flush_task_loop_ok wf) blast+
  then obtain rs blk' where rs: "flush_task_arg_buffers (br_blocks b) = (Inr rs, blk')"
      "same_blocks (br_blocks b) blk'" "keeps_pending (br_blocks b) blk'"
      "\<forall>t \<in> fst ` set rs. \<not> not_started (tool_states (br_blocks b)) t"
    by (auto simp: flush_task_arg_buffers_def)
  note quiet = silent_tool_update [OF inv P rs(2,3)]
  show thesis
    by (rule that [OF rs(1) quiet(1) _ quiet(2)])
      (use rs(4) quiet(3) in \<open>auto simp: tool_ready_def tool_open_for_def\<close>)
qed

lemma flush_task_ok: "brg.emits a calm flush_task_buffers calm"
proof (rule brg.emitsI)
  fix b :: bridge and c fs b' e
  assume inv: "bridge_inv b c" and P: "calm b" and run: "flush_task_buffers b = (fs, b', e)"
  obtain rs blk where rs: "flush_task_arg_buffers (br_blocks b) = (Inr rs, blk)" "bridge_inv (set_blocks blk b) c"
    "all_ready (fst ` set rs) (set_blocks blk b)" "calm (set_blocks blk b)"
    by (rule flush_task_result [OF inv P])
  let ?K = "fst ` set rs"
  have em: "brg.emits a (\<lambda>b. all_ready ?K b \<and> calm b) (emit_list (\<lambda>(t, out). on_sse (emit_tool_delta t out)) rs)
      (\<lambda>b. all_ready ?K b \<and> calm b)"
  proof (rule brg.emits_list)
    fix x
    assume "x \<in> set rs"
    then have "fst x \<in> ?K" by (rule imageI)
    from tool_delta_all_ready [OF this, of a "snd x"]
    show "brg.emits a (\<lambda>b. all_ready ?K b \<and> calm b) (case x of (t, out) \<Rightarrow> on_sse (emit_tool_delta t out))
        (\<lambda>b. all_ready ?K b \<and> calm b)" by (simp only: case_prod_beta)
  qed
  have run': "emit_list (\<lambda>(t, out). on_sse (emit_tool_delta t out)) rs (set_blocks blk b) = (fs, b', e)"
    using run rs(1) by (simp add: flush_task_buffers_def)
  show "(\<exists>c'. contract_run a fs c = Inr c' \<and> bridge_inv b' c') \<and> (e = None \<longrightarrow> calm b')"
    using emits_at [OF em rs(2) conjI [OF rs(3,4)] run'] by blast
qed

text \<open>Nor does flushing raise.\<close>

lemma quiet_list:
  assumes "\<And>x b. x \<in> set xs \<Longrightarrow> P b \<Longrightarrow> snd (snd (f x b)) = None \<and> P (fst (snd (f x b)))"
  shows "P b \<Longrightarrow> snd (snd (emit_list f xs b)) = None \<and> P (fst (snd (emit_list f xs b)))"
  using assms
proof (induction xs arbitrary: b)
  case (Cons x xs)
  obtain ys b1 e where f: "f x b = (ys, b1, e)" by (metis prod_cases3)
  have 1: "e = None" "P b1" using Cons.prems(2) [of x b] Cons.prems(1) f by simp_all
  have "snd (snd (emit_list f xs b1)) = None \<and> P (fst (snd (emit_list f xs b1)))"
    by (rule Cons.IH [OF 1(2)]) (use Cons.prems(2) in simp)
  then show ?case using f 1 by (simp add: emit_seq_def case_prod_beta)
qed (simp add: emit_none_def)

lemma tool_delta_quiet:
  assumes "tool_ready t b" "all_ready K b"
  shows "snd (snd (on_sse (emit_tool_delta t j) b)) = None \<and> all_ready K (fst (snd (on_sse (emit_tool_delta t j) b)))"
proof -
  obtain fs s e where run: "emit_tool_delta t j (br_sse b) = (fs, s, e)" by (metis prod_cases3)
  have "e = None" using ready_state [OF assms(1)] run by (auto simp: emit_tool_delta_def)
  moreover have "all_ready K (b\<lparr>br_sse := s\<rparr>)"
    using keeps_tool_delta [OF run] assms(2) by (auto simp: tool_ready_def tool_open_for_def keeps_pending_def)
  ultimately show ?thesis by (simp add: on_sse_def run)
qed

lemma flush_alias_quiet:
  assumes "bridge_inv b c"
  shows "snd (snd (flush_alias_buffers al b)) = None"
proof -
  let ?K = "fst ` set (br_alias_buffers b)"
  have "all_ready ?K b" using assms by (auto simp: bridge_inv_def pending_started_def tool_ready_def)
  moreover have "snd (snd (flush_alias_buffer al x b)) = None \<and> all_ready ?K (fst (snd (flush_alias_buffer al x b)))"
    if x: "x \<in> set (br_alias_buffers b0)" "br_alias_buffers b0 = br_alias_buffers b1" "fst x \<in> ?K" "all_ready ?K b" for x b b0 b1
  proof -
    obtain t buffered where item: "x = (t, buffered)" by (cases x)
    have t: "tool_ready t b" using x(3,4) unfolding item fst_conv by blast
    obtain st where st: "tool_state (br_blocks b) t = Some st" using ready_state [OF t] by blast
    show ?thesis
      using tool_delta_quiet [OF t x(4)] x(4)
      by (auto simp: flush_alias_buffer_def item st Let_def emit_seq_def emit_update_def case_prod_beta
          tool_ready_def split: option.splits)
  qed
  ultimately show ?thesis
    unfolding flush_alias_buffers_def
    using quiet_list [of "br_alias_buffers b" "all_ready ?K" "flush_alias_buffer al" b] by blast
qed


lemma flush_task_quiet:
  assumes "bridge_inv b c" "calm b"
  shows "snd (snd (flush_task_buffers b)) = None"
proof -
  obtain rs blk where rs: "flush_task_arg_buffers (br_blocks b) = (Inr rs, blk)"
    "all_ready (fst ` set rs) (set_blocks blk b)"
    by (rule flush_task_result [OF assms])
  have "snd (snd (case x of (t, out) \<Rightarrow> on_sse (emit_tool_delta t out) b)) = None \<and>
      all_ready (fst ` set rs) (fst (snd (case x of (t, out) \<Rightarrow> on_sse (emit_tool_delta t out) b)))"
    if "x \<in> set rs" "all_ready (fst ` set rs) b" for x b
    using tool_delta_quiet [OF _ that(2), of "fst x" "snd x"] that imageI [OF that(1), of fst]
    by (simp only: case_prod_beta) blast
  then show ?thesis
    using quiet_list [of rs "all_ready (fst ` set rs)" "\<lambda>(t, out). on_sse (emit_tool_delta t out)"] rs
    by (simp add: flush_task_buffers_def case_prod_beta)
qed

section \<open>The stream loop\<close>

text \<open>
  What the client has and what is still held are, together, the frames emitted since the
  last reset; before the holdback commits, the client has the message start only.
\<close>

definition start_frames :: "stream_env \<Rightarrow> frame list" where
  "start_frames env = fst (message_start (br_sse (new_bridge env)))"

definition delivered :: "stream_env \<Rightarrow> strm \<Rightarrow> frame list \<Rightarrow> bool" where
  "delivered env st X \<longleftrightarrow>
     (\<exists>D. s_out st = start_frames env @ D \<and> D @ hb_events (s_hold st) = X \<and> hb_ok (s_hold st) \<and>
          (\<not> hb_committed (s_hold st) \<longrightarrow> D = []))"

definition stream_at :: "stream_env \<Rightarrow> strm \<Rightarrow> contract_state \<Rightarrow> bool" where
  "stream_at env st c \<longleftrightarrow>
     (\<exists>X. delivered env st X \<and> contract_run True X contract_init = Inr c) \<and> bridge_inv (s_bridge st) c"

lemma hold_events_delivered:
  assumes "delivered env st X" "f (s_bridge st) = (fs, b, e)" "hold_events env f st = (st', e')"
  shows "delivered env st' (X @ fs) \<and> s_bridge st' = b \<and> e' = e"
proof -
  obtain out h n where push: "hb_push_all (e_now env) frame_bytes fs (s_hold st, s_now st) = (out, h, n)"
    by (metis prod_cases3)
  have st': "st' = st\<lparr>s_bridge := b, s_hold := h, s_now := n, s_out := s_out st @ out\<rparr>" "e' = e"
    using assms(2,3) push by (simp_all add: hold_events_def)
  obtain D where D: "s_out st = start_frames env @ D" "D @ hb_events (s_hold st) = X" "hb_ok (s_hold st)"
      "\<not> hb_committed (s_hold st) \<longrightarrow> D = []"
    using assms(1) by (auto simp: delivered_def)
  have "hb_ok h \<and> out @ hb_events h = hb_events (s_hold st) @ fs \<and> (\<not> hb_committed h \<longrightarrow> out = []) \<and>
      (hb_committed (s_hold st) \<longrightarrow> hb_committed h)"
    by (rule hb_push_all_conserves [OF push D(3)])
  then show ?thesis
    using D by (auto simp: st' delivered_def intro!: exI [of _ "D @ out"])
qed

definition acts :: "stream_env \<Rightarrow> (bridge \<Rightarrow> bool) \<Rightarrow> action \<Rightarrow> (bridge \<Rightarrow> bool) \<Rightarrow> bool" where
  "acts env P f Q \<longleftrightarrow>
     (\<forall>st c st' e. stream_at env st c \<longrightarrow> P (s_bridge st) \<longrightarrow> f st = (st', e) \<longrightarrow>
        (\<exists>c'. stream_at env st' c' \<and> seen_blocks c \<subseteq> seen_blocks c') \<and> (e = None \<longrightarrow> Q (s_bridge st')))"

lemma actsI:
  assumes "\<And>st c st' e. stream_at env st c \<Longrightarrow> P (s_bridge st) \<Longrightarrow> f st = (st', e) \<Longrightarrow>
     (\<exists>c'. stream_at env st' c' \<and> seen_blocks c \<subseteq> seen_blocks c') \<and> (e = None \<longrightarrow> Q (s_bridge st'))"
  shows "acts env P f Q"
  using assms unfolding acts_def by blast

lemma actsD:
  "acts env P f Q \<Longrightarrow> stream_at env st c \<Longrightarrow> P (s_bridge st) \<Longrightarrow> f st = (st', e) \<Longrightarrow>
     \<exists>c'. stream_at env st' c' \<and> seen_blocks c \<subseteq> seen_blocks c' \<and> (e = None \<longrightarrow> Q (s_bridge st'))"
  unfolding acts_def by blast

lemma acts_hold:
  assumes "brg.emits True P f Q"
  shows "acts env P (hold_events env f) Q"
proof (rule actsI)
  fix st c st' e
  assume at: "stream_at env st c" and P: "P (s_bridge st)" and run: "hold_events env f st = (st', e)"
  obtain X where X: "delivered env st X" "contract_run True X contract_init = Inr c" "bridge_inv (s_bridge st) c"
    using at by (auto simp: stream_at_def)
  obtain fs b e1 where f: "f (s_bridge st) = (fs, b, e1)" by (metis prod_cases3)
  obtain c' where c': "contract_run True fs c = Inr c'" "bridge_inv b c'" "e1 = None \<longrightarrow> Q b"
    using emits_at [OF assms X(3) P f] by blast
  have st': "delivered env st' (X @ fs)" "s_bridge st' = b" "e = e1"
    using hold_events_delivered [OF X(1) f run] by simp_all
  have "stream_at env st' c'"
    using st' c'(2) contract_run_appendI [OF X(2) c'(1)] by (auto simp: stream_at_def)
  then show "(\<exists>c'. stream_at env st' c' \<and> seen_blocks c \<subseteq> seen_blocks c') \<and> (e = None \<longrightarrow> Q (s_bridge st'))"
    using contract_seen_mono [OF c'(1)] st' c'(3) by blast
qed

lemma acts_seq:
  assumes "acts env P f Q" "acts env Q g R"
  shows "acts env P (act_seq f g) R"
proof (rule actsI)
  fix st c st' e
  assume at: "stream_at env st c" and P: "P (s_bridge st)" and run: "act_seq f g st = (st', e)"
  obtain st1 e1 where f: "f st = (st1, e1)" by fastforce
  obtain c1 where c1: "stream_at env st1 c1" "seen_blocks c \<subseteq> seen_blocks c1" "e1 = None \<longrightarrow> Q (s_bridge st1)"
    using actsD [OF assms(1) at P f] by blast
  show "(\<exists>c'. stream_at env st' c' \<and> seen_blocks c \<subseteq> seen_blocks c') \<and> (e = None \<longrightarrow> R (s_bridge st'))"
  proof (cases e1)
    case None
    then have g: "g st1 = (st', e)" using run f by (simp add: act_seq_def)
    have "Q (s_bridge st1)" using c1(3) None by simp
    from actsD [OF assms(2) c1(1) this g] show ?thesis using c1(2) by blast
  next
    case (Some x)
    then show ?thesis using run f c1 by (auto simp: act_seq_def)
  qed
qed

lemma acts_none: "acts env P (\<lambda>st. (st, None)) P"
  by (rule actsI) auto

lemma acts_if: "acts env P f P \<Longrightarrow> acts env P (act_if b f) P"
  unfolding acts_def act_if_def by (auto split: if_splits)

lemma acts_list: "(\<And>x. x \<in> set xs \<Longrightarrow> acts env P (f x) P) \<Longrightarrow> acts env P (act_list f xs) P"
proof (induction xs)
  case Nil
  then show ?case using acts_none by (simp add: acts_def)
next
  case (Cons x xs)
  have "act_list f (x # xs) = act_seq (f x) (act_list f xs)" by (rule ext) simp
  then show ?case using Cons acts_seq [of env P "f x" P "act_list f xs" P] by simp
qed

text \<open>An action may read the state, and change the fields the client does not see.\<close>

lemma acts_update:
  assumes "\<And>st. \<exists>g st1. f st = g st1 \<and> s_bridge st1 = s_bridge st \<and> s_out st1 = s_out st \<and>
      s_hold st1 = s_hold st \<and> acts env P g Q"
  shows "acts env P f Q"
proof (rule actsI)
  fix st c st' e
  assume at: "stream_at env st c" and P: "P (s_bridge st)" and run: "f st = (st', e)"
  obtain g st1 where st1: "f st = g st1" "s_bridge st1 = s_bridge st" "s_out st1 = s_out st" "s_hold st1 = s_hold st"
      "acts env P g Q" using assms by blast
  have "stream_at env st1 c" using at st1(2-4) by (simp add: stream_at_def delivered_def)
  moreover have "P (s_bridge st1)" "g st1 = (st', e)" using P run st1(1,2) by simp_all
  ultimately show "(\<exists>c'. stream_at env st' c' \<and> seen_blocks c \<subseteq> seen_blocks c') \<and> (e = None \<longrightarrow> Q (s_bridge st'))"
    using actsD [OF st1(5)] by blast
qed

lemma hold_text_ok: "acts env calm (hold_text env t) calm"
  unfolding hold_text_def by (rule acts_seq [OF acts_hold [OF lifted_text(1)] acts_hold [OF lifted_text(2)]])

lemma hold_thinking_ok: "acts env calm (hold_thinking env t) calm"
  unfolding hold_thinking_def by (rule acts_seq [OF acts_hold [OF lifted_text(3)] acts_hold [OF lifted_text(4)]])

lemma hold_heuristic_ok: "acts env calm (act_list (\<lambda>tu. hold_events env (iter_heuristic_tool_use tu)) tools) calm"
  by (rule acts_list) (rule acts_hold [OF iter_heuristic_ok])

lemma process_part_ok: "acts env calm (process_part env part) calm"
proof (cases part)
  case (ContentChunk ty t)
  show ?thesis
  proof (cases ty)
    case THINKING
    have "process_part env part = act_if (e_thinking env) (hold_thinking env t)"
      by (rule ext) (simp add: ContentChunk THINKING)
    then show ?thesis using acts_if [OF hold_thinking_ok] by simp
  next
    case TEXT
    show ?thesis
    proof (rule acts_update)
      fix st :: strm
      obtain ft tools hp where heur: "heur_feed (e_uuid env) (e_alnum env) t (s_heur st) = (ft, tools, hp)"
        by (metis prod_cases3)
      let ?g = "act_seq (act_if (ft \<noteq> []) (hold_text env ft))
          (act_list (\<lambda>tu. hold_events env (iter_heuristic_tool_use tu)) tools)"
      have "process_part env part st = ?g (st\<lparr>s_heur := hp\<rparr>)"
        by (simp add: ContentChunk TEXT heur)
      moreover have "acts env calm ?g calm" by (rule acts_seq [OF acts_if [OF hold_text_ok] hold_heuristic_ok])
      ultimately show "\<exists>g st1. process_part env part st = g st1 \<and> s_bridge st1 = s_bridge st \<and>
          s_out st1 = s_out st \<and> s_hold st1 = s_hold st \<and> acts env calm g calm"
        by (intro exI [of _ ?g] exI [of _ "st\<lparr>s_heur := hp\<rparr>"]) simp
    qed
  qed
qed

lemma process_content_ok: "acts env calm (process_content env t) calm"
proof (rule acts_update)
  fix st :: strm
  obtain parts tp where "feed t (s_think st) = (parts, tp)" by fastforce
  then have "process_content env t st = act_list (process_part env) parts (st\<lparr>s_think := tp\<rparr>)"
    by (simp add: process_content_def)
  moreover have "acts env calm (act_list (process_part env) parts) calm"
    by (rule acts_list) (rule process_part_ok)
  ultimately show "\<exists>g st1. process_content env t st = g st1 \<and> s_bridge st1 = s_bridge st \<and>
      s_out st1 = s_out st \<and> s_hold st1 = s_hold st \<and> acts env calm g calm"
    by (intro exI [of _ "act_list (process_part env) parts"] exI [of _ "st\<lparr>s_think := tp\<rparr>"]) simp
qed

lemma process_delta_ok: "acts env calm (process_delta env d) calm"
proof -
  have tool: "acts env calm (\<lambda>st. hold_events env (process_tool_call (e_uuid env) (s_aliases st) tc) st) calm" for tc
  proof (rule acts_update)
    fix st :: strm
    show "\<exists>g st1. hold_events env (process_tool_call (e_uuid env) (s_aliases st) tc) st = g st1 \<and>
        s_bridge st1 = s_bridge st \<and> s_out st1 = s_out st \<and> s_hold st1 = s_hold st \<and> acts env calm g calm"
      using acts_hold [OF process_tool_call_ok] by blast
  qed
  show ?thesis
    unfolding process_delta_def
    by (intro acts_seq [where Q = calm] acts_if acts_list hold_thinking_ok process_content_ok
        acts_hold [OF lifted_text(5)] tool)
qed

lemma process_chunk_ok: "acts env calm (process_chunk env k) calm"
proof (rule acts_update)
  fix st :: strm
  show "\<exists>g st1. process_chunk env k st = g st1 \<and> s_bridge st1 = s_bridge st \<and> s_out st1 = s_out st \<and>
      s_hold st1 = s_hold st \<and> acts env calm g calm"
  proof (cases "\<exists>c d. k_choice k = Some c \<and> c_delta c = Some d")
    case True
    then obtain c d where cd: "k_choice k = Some c" "c_delta c = Some d" by blast
    let ?st1 = "case k_usage k of Some us \<Rightarrow> st\<lparr>s_usage := Some us\<rparr> | None \<Rightarrow> st"
    let ?st2 = "if nonempty_str (c_finish_reason c) then ?st1\<lparr>s_finish := c_finish_reason c\<rparr> else ?st1"
    have "process_chunk env k st = process_delta env d ?st2" by (simp add: process_chunk_def cd Let_def)
    then show ?thesis
      by (intro exI [of _ "process_delta env d"] exI [of _ ?st2])
        (auto simp: process_delta_ok split: option.split)
  next
    case False
    let ?st1 = "case k_usage k of Some us \<Rightarrow> st\<lparr>s_usage := Some us\<rparr> | None \<Rightarrow> st"
    have "process_chunk env k st = (?st1, None)"
      using False by (auto simp: process_chunk_def Let_def split: option.split)
    then show ?thesis
      by (intro exI [of _ "\<lambda>st. (st, None)"] exI [of _ ?st1]) (auto simp: acts_none split: option.split)
  qed
qed

lemma run_attempt_ok:
  assumes "stream_at env st c" "calm (s_bridge st)" "run_attempt env body n st = (st', e, opened, body')"
  shows "(\<exists>c'. stream_at env st' c') \<and> (e = None \<longrightarrow> calm (s_bridge st'))"
proof (cases "e_create env body n")
  case (Inl x)
  then show ?thesis using assms by (auto simp: run_attempt_def)
next
  case (Inr r)
  obtain ks ending b where r: "r = ((ks, ending), b)" by (metis prod.collapse)
  let ?st = "st\<lparr>s_aliases := e_aliases env b\<rparr>"
  have run: "act_seq (act_list (process_chunk env) ks) (end_of_stream ending) ?st = (st', e)"
    using assms(3) by (auto simp: run_attempt_def Inr r split: prod.splits)
  have "acts env calm (end_of_stream ending) calm"
    by (rule actsI) (auto simp: end_of_stream_def)
  then have "acts env calm (act_seq (act_list (process_chunk env) ks) (end_of_stream ending)) calm"
    by (intro acts_seq [where Q = calm] acts_list process_chunk_ok)
  moreover have "stream_at env ?st c" "calm (s_bridge ?st)"
    using assms(1,2) by (simp_all add: stream_at_def delivered_def)
  ultimately show ?thesis using actsD run by blast
qed


section \<open>Endings\<close>

lemma start_frames_neutral: "list_all neutral (start_frames env)" "start_frames env \<noteq> []"
  "u ''message_start'' \<in> set (map fst (start_frames env))"
  by (simp_all add: start_frames_def message_start_def emit_frame_def neutral_def)

lemma check_final:
  assumes "out = start_frames env @ X" "contract_run True X contract_init = Inr c"
    and "open_blocks c = []" "seen_blocks c \<noteq> {}" "X \<noteq> []" "fst (last X) = u ''message_stop''"
  shows "check_contract True out = Inr ()"
proof -
  have "contract_run True out contract_init = Inr c"
    using assms(1,2) neutral_run [OF start_frames_neutral(1)] by (simp add: contract_run_append)
  moreover have "fst (last out) = u ''message_stop''" "out \<noteq> []" "u ''message_start'' \<in> set (map fst out)"
    using assms(1,5,6) start_frames_neutral(3) by auto
  ultimately show ?thesis using assms(3,4) by (simp add: check_contract_def)
qed

text \<open>The last two events, after everything is closed.\<close>

lemma last_events:
  assumes "\<And>s. \<exists>f. g s = emit_frame f s \<and> neutral f"
  shows "\<exists>f fs. emit_seq g message_stop s = (f # fs, s, None) \<and> list_all neutral (f # fs) \<and>
     fst (last (f # fs)) = u ''message_stop''"
proof -
  obtain f where "g s = emit_frame f s" "neutral f" using assms by blast
  then show ?thesis
    by (simp add: emit_seq_def emit_frame_def message_stop_def neutral_def)
qed

lemma message_delta_neutral: "\<exists>f. message_delta r n s = emit_frame f s \<and> neutral f"
  by (auto simp: message_delta_def neutral_def)

lemma closing_events_ok:
  assumes "builder_inv s c" "closing_events env r s = (fs, s', e)"
  shows "\<exists>c'. contract_run a fs c = Inr c' \<and> open_blocks c' = [] \<and> seen_blocks c \<subseteq> seen_blocks c' \<and>
     fs \<noteq> [] \<and> fst (last fs) = u ''message_stop''"
proof -
  obtain xs s1 e1 where 1: "close_all_blocks s = (xs, s1, e1)" by (metis prod_cases3)
  obtain c1 where c1: "e1 = None" "contract_run a xs c = Inr c1" "all_closed s1 c1" "seen_blocks c \<subseteq> seen_blocks c1"
    using close_all_ok [OF assms(1) 1] by blast
  obtain f gs where g: "emit_seq (\<lambda>s. message_delta r (Some (int (estimate_output_tokens (e_encoder env) s))) s)
      message_stop s1 = (f # gs, s1, None)" "list_all neutral (f # gs)" "fst (last (f # gs)) = u ''message_stop''"
    using last_events [of "\<lambda>s. message_delta r (Some (int (estimate_output_tokens (e_encoder env) s))) s" s1]
      message_delta_neutral by blast
  have fs: "fs = xs @ f # gs" using assms(2) 1 c1(1) g(1) by (auto simp: closing_events_def emit_seq_def [of close_all_blocks])
  show ?thesis
    using contract_run_appendI [OF c1(2) neutral_run [OF g(2)]] c1(3,4) g(3)
    by (auto simp: fs all_closed_def)
qed

lemma started_seen:
  assumes "builder_inv s c" "has_emitted_tool_block (blocks s)"
  shows "seen_blocks c \<noteq> {}"
proof -
  obtain t st where "(t, st) \<in> set (tool_states (blocks s))" "started st"
    using assms(2) by (auto simp: has_emitted_tool_block_def list_ex_iff)
  moreover have "dict_wf (tool_states (blocks s))" by (rule inv_tools_wf [OF assms(1)])
  ultimately have "dict_get (open_blocks c) (block_index st) = Some (u ''tool_use'')"
    using tool_open [OF assms(1), of t st] by (simp add: tool_state_def)
  then have "block_index st \<in> fst ` set (open_blocks c)" by (metis dict_get_None_iff option.distinct(1))
  then show ?thesis using bld.inv_seen [OF assms(1)] by blast
qed

lemma committed_seen:
  assumes "builder_inv s c" "has_committed_sse_output s"
  shows "seen_blocks c \<noteq> {}"
  using assms started_seen [OF assms(1)] unfolding has_committed_sse_output_def builder_inv_def by blast

lemma error_tail_ok:
  assumes "builder_inv s c" "emit_openai_error_tail msg s = (fs, s', e)"
  shows "\<exists>c'. contract_run True fs c = Inr c' \<and> open_blocks c' = [] \<and> seen_blocks c' \<noteq> {} \<and>
     fs \<noteq> [] \<and> fst (last fs) = u ''message_stop''"
proof -
  obtain xs s1 e1 where 1: "close_all_blocks s = (xs, s1, e1)" by (metis prod_cases3)
  obtain c1 where c1: "e1 = None" "contract_run True xs c = Inr c1" "all_closed s1 c1" "seen_blocks c \<subseteq> seen_blocks c1"
      "tool_states (blocks s1) = tool_states (blocks s)"
    using close_all_ok [OF assms(1) 1] by blast
  let ?g = "\<lambda>s. if has_emitted_tool_block (blocks s) then emit_top_level_error msg s else emit_error msg s"
  obtain ys s2 e2 where 2: "?g s1 = (ys, s2, e2)" by (metis prod_cases3)
  have "e2 = None \<and> (\<exists>c2. contract_run True ys c1 = Inr c2 \<and> open_blocks c2 = [] \<and> seen_blocks c2 \<noteq> {})"
  proof (cases "has_emitted_tool_block (blocks s1)")
    case True
    then have ys: "ys = fst (emit_top_level_error msg s1)" "e2 = None"
      using 2 by (simp_all add: emit_top_level_error_def emit_frame_def)
    have "contract_run True ys c1 = Inr c1"
      by (simp add: ys emit_top_level_error_def emit_frame_def contract_step_def)
    moreover have "has_emitted_tool_block (blocks s)" using True c1(5) by (simp add: has_emitted_tool_block_def)
    ultimately show ?thesis
      using ys(2) c1(3,4) started_seen [OF assms(1)] by (auto simp: all_closed_def)
  next
    case False
    then have "emit_error msg s1 = (ys, s2, e2)" using 2 by simp
    from emit_error_ok [OF c1(3) this, of True] show ?thesis by (auto simp: all_closed_def)
  qed
  then obtain c2 where c2: "e2 = None" "contract_run True ys c1 = Inr c2" "open_blocks c2 = []" "seen_blocks c2 \<noteq> {}"
    by blast
  obtain f gs where g: "emit_seq (message_delta (u ''end_turn'') (Some 1)) message_stop s2 = (f # gs, s2, None)"
      "list_all neutral (f # gs)" "fst (last (f # gs)) = u ''message_stop''"
    using last_events [of "message_delta (u ''end_turn'') (Some 1)" s2] message_delta_neutral by blast
  have fs: "fs = xs @ ys @ f # gs"
    using assms(2) 1 2 c1(1) c2(1) g(1)
    by (auto simp: emit_openai_error_tail_def emit_seq_def [of close_all_blocks] emit_seq_def [of ?g])
  show ?thesis
    using contract_run_appendI [OF c1(2) contract_run_appendI [OF c2(2) neutral_run [OF g(2)]]] c2(3,4) g(3)
    by (auto simp: fs)
qed

subsection \<open>Recovery keeps to the contract\<close>

lemma tool_delta_same:
  assumes inv: "builder_inv s c" and on: "tool_open_for t s" and run: "emit_tool_delta t j s = (fs, s', e)"
  shows "e = None \<and> contract_run a fs c = Inr c \<and> builder_inv s' c \<and> same_blocks (blocks s) (blocks s')"
proof -
  obtain st where st: "tool_state (blocks s) t = Some st" "started st" using tool_open_forD [OF on] by blast
  let ?b = "set_tool_state t (st\<lparr>contents := contents st @ [j]\<rparr>) (blocks s)"
  have eqs: "s' = s\<lparr>blocks := ?b\<rparr>" "fs = [content_block_delta (block_index st) (u ''input_json_delta'') j]" "e = None"
    using run st by (simp_all add: emit_tool_delta_def)
  have same: "same_blocks (blocks s) ?b" by (rule same_blocks_update [OF st(1)]) simp_all
  have "contract_step a (content_block_delta (block_index st) (u ''input_json_delta'') j) c = Inr c"
    by (rule delta_frame_step [OF tool_open [OF inv st]]) simp
  then show ?thesis
    using builder_inv_blocks [OF inv, of s'] same by (simp add: eqs)
qed

text \<open>Argument repairs emit deltas only: events that are thrown away leave no open block behind.\<close>

lemma repair_tools_ok:
  assumes "builder_inv s c" "\<forall>x \<in> set items. tool_open_for (fst x) s"
    and "repair_tools env body buffers items s n = (r, s', n')"
  shows "builder_inv s' c \<and> same_blocks (blocks s) (blocks s') \<and>
     (\<forall>fs. r = Inr (Some fs) \<longrightarrow> contract_run a fs c = Inr c)"
  using assms
proof (induction items arbitrary: s n r s' n')
  case Nil
  then show ?case by auto
next
  case (Cons x items)
  obtain i st where x: "x = (i, st)" by (cases x)
  have open_i: "tool_open_for i s" and open_items: "\<forall>x \<in> set items. tool_open_for (fst x) s"
    using Cons.prems(2) x by simp_all
  define go where "go = (\<lambda>to_emit n1.
            if to_emit = [] then repair_tools env body buffers items s n1
            else case emit_tool_delta i to_emit s of
                (fs, s1, Some e) \<Rightarrow> (Inl e, s1, n1)
              | (fs, s1, None) \<Rightarrow>
                  (case repair_tools env body buffers items s1 n1 of
                     (Inr (Some gs), s2, n2) \<Rightarrow> (Inr (Some (fs @ gs)), s2, n2)
                   | r \<Rightarrow> r))"
  have go_ok: "builder_inv s' c \<and> same_blocks (blocks s) (blocks s') \<and>
     (\<forall>fs. r = Inr (Some fs) \<longrightarrow> contract_run a fs c = Inr c)"
    if go: "go to_emit n1 = (r, s', n')" for to_emit n1 r s' n'
  proof (cases "to_emit = []")
    case True
    then show ?thesis using Cons.IH [OF Cons.prems(1) open_items] go by (simp add: go_def)
  next
    case False
    obtain fs s1 e1 where 1: "emit_tool_delta i to_emit s = (fs, s1, e1)" by (metis prod_cases3)
    have s1: "e1 = None" "contract_run a fs c = Inr c" "builder_inv s1 c" "same_blocks (blocks s) (blocks s1)"
      using tool_delta_same [OF Cons.prems(1) open_i 1] by simp_all
    have open1: "\<forall>x \<in> set items. tool_open_for (fst x) s1"
      using open_items s1(4) by (simp add: tool_open_for_def same_blocks_def)
    obtain r2 s2 n2 where 2: "repair_tools env body buffers items s1 n1 = (r2, s2, n2)" by (metis prod_cases3)
    have IH: "builder_inv s2 c \<and> same_blocks (blocks s1) (blocks s2) \<and>
        (\<forall>fs. r2 = Inr (Some fs) \<longrightarrow> contract_run a fs c = Inr c)"
      by (rule Cons.IH [OF s1(3) open1 2])
    have "s' = s2" using go False 1 2 s1(1) by (auto simp: go_def split: sum.splits option.splits)
    moreover have "r = Inr (Some gs) \<Longrightarrow> \<exists>hs. r2 = Inr (Some hs) \<and> gs = fs @ hs" for gs
      using go False 1 2 s1(1) by (auto simp: go_def split: sum.splits option.splits)
    ultimately show ?thesis
      using IH same_blocks_trans [OF s1(4), of "blocks s2"] contract_run_appendI [OF s1(2), of _ c] by auto
  qed
  let ?emitted = "concat (contents st)" and ?prefx = "repair_prefix buffers i st"
  have step: "repair_tools env body buffers ((i, st) # items) s n =
      (if parse_complete_tool_input (e_validates env) ?prefx (tool_name st) (env_schemas env) \<noteq> None
       then go (if ?emitted = [] then ?prefx else []) n
       else case repair_attempts env (make_openai_tool_repair_body body (tool_name st) ?prefx
               (map_option ts_input_schema (dict_get (env_schemas env) (tool_name st))))
               ?prefx (tool_name st) MIDSTREAM_RECOVERY_ATTEMPTS n of
          (Inl e, n1) \<Rightarrow> (Inl e, s, n1)
        | (Inr None, n1) \<Rightarrow> (Inr None, s, n1)
        | (Inr (Some sfx), n1) \<Rightarrow> go (if ?emitted = [] then ?prefx @ sfx else sfx) n1)"
    unfolding go_def by (simp add: Let_def)
  show ?case
    using Cons.prems(3) Cons.prems(1) go_ok unfolding x step
    by (auto split: if_splits prod.splits sum.splits option.splits)
qed


lemma started_tools_open:
  assumes "builder_inv s c"
  shows "\<forall>x \<in> set (started_tool_states s). tool_open_for (fst x) s"
  using inv_tools_wf [OF assms]
  by (auto simp: started_tool_states_def tool_open_for_def not_started_def)

definition recovered :: "contract_state \<Rightarrow> (py_exn + frame list option) \<times> sse_builder \<Rightarrow> bool" where
  "recovered c r \<longleftrightarrow>
     (case r of
        (Inr (Some fs), s) \<Rightarrow>
          (\<exists>c'. contract_run True fs c = Inr c' \<and> open_blocks c' = [] \<and> seen_blocks c \<subseteq> seen_blocks c' \<and>
                fs \<noteq> [] \<and> fst (last fs) = u ''message_stop'')
      | (_, s) \<Rightarrow> builder_inv s c)"

lemma closing_recovered:
  assumes "contract_run True fs c = Inr c1" "builder_inv s c1" "closing_events env r s = (gs, s', e)"
    and "seen_blocks c \<subseteq> seen_blocks c1"
  shows "recovered c (Inr (Some (fs @ gs)), s')"
  using closing_events_ok [OF assms(2,3), of True] contract_run_appendI [OF assms(1)] assms(4)
  by (fastforce simp: recovered_def)

lemma tool_recovery_ok:
  assumes "builder_inv s c"
  shows "recovered c (tool_recovery env body buffers s n)"
proof -
  let ?r = "if all_started_tools_complete env s then (Inr (Some []), s, n)
            else repair_openai_tool_args env body buffers s n"
  obtain r s1 n1 where r: "?r = (r, s1, n1)" by (metis prod_cases3)
  have "builder_inv s1 c \<and> (\<forall>fs. r = Inr (Some fs) \<longrightarrow> contract_run True fs c = Inr c)"
  proof (cases "all_started_tools_complete env s")
    case True
    then show ?thesis using r assms by auto
  next
    case False
    obtain r2 s2 n2 where 2: "repair_tools env body buffers (started_tool_states s) s n = (r2, s2, n2)"
      by (metis prod_cases3)
    have "builder_inv s2 c \<and> (\<forall>fs. r2 = Inr (Some fs) \<longrightarrow> contract_run True fs c = Inr c)"
      using repair_tools_ok [OF assms started_tools_open [OF assms] 2, where a = True] by blast
    then show ?thesis
      using r False 2 by (auto simp: repair_openai_tool_args_def split: sum.splits option.splits if_splits)
  qed
  moreover obtain gs s2 e2 where "closing_events env (u ''tool_use'') s1 = (gs, s2, e2)" by (metis prod_cases3)
  ultimately show ?thesis
    using closing_recovered [of _ c c s1 env "u ''tool_use''" gs s2 e2]
    by (auto simp: tool_recovery_def r recovered_def [of c "(Inl _, _)"] recovered_def [of c "(Inr None, _)"]
        split: sum.splits option.splits)
qed

lemma suffix_events_ok: "bld.emits a (\<lambda>_. True) (suffix_events th tx) (\<lambda>_. True)"
proof -
  have th: "bld.emits a (\<lambda>_. True) (emit_seq ensure_thinking_block (emit_thinking_delta t)) (\<lambda>_. True)" for t
    by (rule bld.emits_weaken [OF bld.emits_seq [OF ensure_thinking_ok thinking_delta_ok]]) simp_all
  have tx: "bld.emits a (\<lambda>_. True) (emit_seq ensure_text_block (emit_text_delta t)) (\<lambda>_. True)" for t
    by (rule bld.emits_weaken [OF bld.emits_seq [OF ensure_text_ok text_delta_ok]]) simp_all
  show ?thesis
    unfolding suffix_events_def
    by (intro bld.emits_seq [where Q = "\<lambda>_. True"] bld.emits_if bld.emits_weaken [OF th] bld.emits_weaken [OF tx]) simp_all
qed

lemma suffix_events_none: "suffix_events th tx s = ([], s', e) \<Longrightarrow> s' = s"
  by (auto simp: suffix_events_def emit_seq_def emit_if_def ensure_thinking_block_def ensure_text_block_def
      emit_thinking_delta_def emit_text_delta_def stop_text_block_def stop_thinking_block_def
      start_text_block_def start_thinking_block_def allocate_index_def split: if_splits)

lemma text_recovery_ok:
  assumes "builder_inv s c"
  shows "recovered c (text_recovery env body s n)"
proof (cases "accumulated_text s = [] \<and> accumulated_reasoning s = []")
  case True
  then show ?thesis using assms by (simp add: text_recovery_def recovered_def)
next
  case False
  show ?thesis
  proof (cases "fst (collect_recovery_text env (make_openai_text_recovery_body body (accumulated_text s))
                       MIDSTREAM_RECOVERY_ATTEMPTS None n)")
    case (Inl e)
    with False assms show ?thesis by (simp add: text_recovery_def recovered_def Let_def)
  next
    case (Inr tt)
    let ?f = "suffix_events (continuation_suffix (accumulated_reasoning s) (snd tt))
                (continuation_suffix (accumulated_text s) (fst tt))"
    obtain fs s1 e1 where 1: "?f s = (fs, s1, e1)" by (metis prod_cases3)
    obtain c1 where c1: "contract_run True fs c = Inr c1" "builder_inv s1 c1"
      using bld.emitsD [OF suffix_events_ok [where a = True] assms TrueI 1] by blast
    obtain gs s2 e2 where 2: "closing_events env (u ''end_turn'') s1 = (gs, s2, e2)" by (metis prod_cases3)
    have "text_recovery env body s n = (if fs = [] then (Inr None, s1) else (Inr (Some (fs @ gs)), s2))"
      using False Inr 1 2 by (auto simp: text_recovery_def Let_def case_prod_beta)
    moreover have "fs = [] \<Longrightarrow> builder_inv s1 c" using suffix_events_none 1 assms by blast
    ultimately show ?thesis
      using closing_recovered [OF c1 2 contract_seen_mono [OF c1(1)]]
      by (cases "fs = []") (simp_all add: recovered_def)
  qed
qed

lemma recovery_ok:
  "builder_inv (br_sse b) c \<Longrightarrow> recovered c (openai_recovery_events env body e b n)"
  using tool_recovery_ok text_recovery_ok
  by (auto simp: openai_recovery_events_def recovered_def [of c "(Inr None, _)"])

subsection \<open>The error path\<close>

abbreviation complete :: "stream_env \<Rightarrow> strm \<Rightarrow> bool" where
  "complete env st \<equiv> check_contract True (s_out st) = Inr ()"

lemma flush_held_delivered:
  assumes "delivered env st X"
  shows "s_out (flush_held st) = start_frames env @ X" "s_bridge (flush_held st) = s_bridge st"
  using assms by (auto simp: delivered_def flush_held_def hb_flush_def hb_ok_def split: if_splits)

lemma committed_delivered: "delivered env st X \<Longrightarrow> hb_committed (s_hold st) \<Longrightarrow> s_out st = start_frames env @ X"
  by (auto simp: delivered_def hb_ok_def)

lemma error_path_ok:
  assumes X: "delivered env st X" "contract_run True X contract_init = Inr c" and s: "builder_inv s c"
  shows "complete env (error_path env e s st)"
proof -
  let ?tail = "emit_openai_error_tail (e_error_message env e)"
  have fin: "complete env (yield_tail ?tail s0 st0)"
    if st0: "s_out st0 = start_frames env @ Y" "contract_run True Y contract_init = Inr c0" "builder_inv s0 c0" for s0 st0 Y c0
  proof -
    obtain fs s1 e1 where 1: "?tail s0 = (fs, s1, e1)" by (metis prod_cases3)
    obtain c' where c': "contract_run True fs c0 = Inr c'" "open_blocks c' = []" "seen_blocks c' \<noteq> {}"
        "fs \<noteq> []" "fst (last fs) = u ''message_stop''"
      using error_tail_ok [OF st0(3) 1] by blast
    have "s_out (yield_tail ?tail s0 st0) = start_frames env @ (Y @ fs)" by (simp add: yield_tail_def 1 st0(1))
    then show ?thesis
      by (rule check_final [OF _ contract_run_appendI [OF st0(2) c'(1)]]) (use c' in simp_all)
  qed
  have new: "builder_inv (br_sse (new_bridge env)) contract_init"
    by (simp add: new_bridge_def builder_inv_init)
  show ?thesis
  proof (cases "hb_committed (s_hold st)")
    case True
    then show ?thesis using fin [OF committed_delivered [OF X(1) True] X(2) s] by (simp add: error_path_def)
  next
    case False
    show ?thesis
    proof (cases "hb_has_buffered (s_hold st)")
      case True
      then show ?thesis
        using fin [OF flush_held_delivered(1) [OF X(1)] X(2) s] False by (simp add: error_path_def)
    next
      case empty: False
      have "s_out (st\<lparr>s_hold := hb_discard (s_hold st)\<rparr>) = start_frames env @ []"
        using X(1) False by (auto simp: delivered_def)
      from fin [OF this _ new] show ?thesis using False empty by (simp add: error_path_def)
    qed
  qed
qed

lemma fail_stream_ok:
  assumes "stream_at env st c"
  shows "complete env (fail_stream env body n e st)"
proof -
  obtain X where X: "delivered env st X" "contract_run True X contract_init = Inr c" and b: "bridge_inv (s_bridge st) c"
    using assms by (auto simp: stream_at_def)
  have inv: "builder_inv (br_sse (s_bridge st)) c" using b by (simp add: bridge_inv_def)
  show ?thesis
  proof (cases "has_committed_sse_output (br_sse (s_bridge st)) \<and> is_retryable_stream_error e")
    case False
    then show ?thesis using error_path_ok [OF X inv] by (auto simp: fail_stream_def)
  next
    case True
    obtain r s where r: "openai_recovery_events env body e (s_bridge st) n = (r, s)" by fastforce
    have rec: "recovered c (r, s)" using recovery_ok [OF inv, of env body e n] by (simp add: r)
    show ?thesis
    proof (cases "\<exists>fs. r = Inr (Some fs)")
      case False
      then have "builder_inv s c" using rec by (auto simp: recovered_def split: sum.splits option.splits)
      then show ?thesis
        using error_path_ok [OF X] False True r by (auto simp: fail_stream_def split: sum.splits option.splits)
    next
      case some: True
      then obtain fs c' where fs: "r = Inr (Some fs)" "contract_run True fs c = Inr c'" "open_blocks c' = []"
          "seen_blocks c \<subseteq> seen_blocks c'" "fs \<noteq> []" "fst (last fs) = u ''message_stop''"
        using rec by (auto simp: recovered_def)
      have "s_out (fail_stream env body n e st) = start_frames env @ (X @ fs)"
        using True r fs(1) committed_delivered [OF X(1)] flush_held_delivered [OF X(1)]
        by (simp add: fail_stream_def Let_def)
      then show ?thesis
        by (rule check_final [OF _ contract_run_appendI [OF X(2) fs(2)]])
          (use fs committed_seen [OF inv] True in auto)
    qed
  qed
qed


subsection \<open>The loop\<close>

lemma fresh_bridge:
  "bridge_inv ((new_bridge env)\<lparr>br_uuids := k\<rparr>) contract_init" "calm ((new_bridge env)\<lparr>br_uuids := k\<rparr>)"
proof -
  have "tool_states (br_blocks (new_bridge env)) = []"
    by (simp add: new_bridge_def SSEBuilder_init_def ContentBlockManager_init_def)
  then show "bridge_inv ((new_bridge env)\<lparr>br_uuids := k\<rparr>) contract_init" "calm ((new_bridge env)\<lparr>br_uuids := k\<rparr>)"
    using builder_inv_init
    by (simp_all add: bridge_inv_def pending_started_def pending_incomplete_def tool_state_def new_bridge_def)
qed

lemma new_bridge_uuids: "(new_bridge env)\<lparr>br_uuids := 0\<rparr> = new_bridge env"
  by (simp add: new_bridge_def)

lemma initial_ok: "stream_at env (initial_stream env) contract_init" "calm (s_bridge (initial_stream env))"
  using fresh_bridge [where env = env and k = 0]
  by (auto simp: stream_at_def delivered_def initial_stream_def start_frames_def new_bridge_uuids)

lemma reset_ok:
  assumes "stream_at env st c" "\<not> hb_committed (s_hold st)"
  shows "stream_at env (reset_stream env st) contract_init" "calm (s_bridge (reset_stream env st))"
  using assms fresh_bridge [where env = env]
  by (auto simp: stream_at_def delivered_def reset_stream_def)

lemma stream_loop_ok:
  "stream_at env st c \<Longrightarrow> calm (s_bridge st) \<Longrightarrow> stream_loop env retries body n st = (st', ended) \<Longrightarrow>
     if ended then (\<exists>c'. stream_at env st' c') \<and> calm (s_bridge st') else complete env st'"
proof (induction retries arbitrary: body n st c rule: less_induct)
  case (less retries)
  obtain st1 e opened body1 where 1: "run_attempt env body n st = (st1, e, opened, body1)"
    by (metis prod_cases4)
  obtain c1 where c1: "stream_at env st1 c1" "e = None \<longrightarrow> calm (s_bridge st1)"
    using run_attempt_ok [OF less.prems(1,2) 1] by blast
  show ?case
  proof (cases e)
    case None
    then show ?thesis using less.prems(3) 1 c1 by (subst (asm) stream_loop.simps) auto
  next
    case (Some x)
    show ?thesis
    proof (cases "may_retry env x opened st1 \<and> 0 < retries")
      case True
      then have again: "stream_loop env (retries - 1) body1 (Suc n) (reset_stream env st1) = (st', ended)"
        using less.prems(3) 1 Some by (subst (asm) stream_loop.simps) simp
      have "\<not> hb_committed (s_hold st1)" using True by (simp add: may_retry_def Let_def)
      note reset = reset_ok [OF c1(1) this]
      have "retries - 1 < retries" using True by simp
      from less.IH [OF this reset again] show ?thesis .
    next
      case False
      then have "st' = fail_stream env body1 (Suc n) x st1" "\<not> ended"
        using less.prems(3) 1 Some by (subst (asm) stream_loop.simps, auto)+
      then show ?thesis using fail_stream_ok [OF c1(1)] by simp
    qed
  qed
qed

subsection \<open>The end\<close>

lemma hold_text_quiet: "snd (hold_text env t st) = None"
  by (simp add: hold_text_def act_seq_def hold_events_def on_sse_def ensure_text_block_def emit_seq_def
      emit_if_def stop_thinking_block_def start_text_block_def emit_text_delta_def allocate_index_def
      case_prod_beta)

lemma hold_thinking_quiet: "snd (hold_thinking env t st) = None"
  by (simp add: hold_thinking_def act_seq_def hold_events_def on_sse_def ensure_thinking_block_def emit_seq_def
      emit_if_def stop_text_block_def start_thinking_block_def emit_thinking_delta_def allocate_index_def
      case_prod_beta)


lemma act_seq_quiet:
  assumes "acts env P f Q" "stream_at env st c" "P (s_bridge st)" "snd (f st) = None"
  obtains st1 c1 where "f st = (st1, None)" "act_seq f g st = g st1" "stream_at env st1 c1"
    "Q (s_bridge st1)" "seen_blocks c \<subseteq> seen_blocks c1"
proof -
  obtain st1 where f: "f st = (st1, None)" using assms(4) by (metis prod.collapse)
  show thesis
    using actsD [OF assms(1,2,3) f] that [OF f] by (auto simp: act_seq_def f)
qed

lemma flush_remaining_ok: "acts env calm (flush_remaining env) calm" "snd (flush_remaining env st) = None"
proof -
  show "acts env calm (flush_remaining env) calm"
  proof (rule acts_update)
    fix st :: strm
    obtain r tp where fl: "flush (s_think st) = (r, tp)" by fastforce
    consider "r = None" | t where "r = Some (ContentChunk THINKING t)" | t where "r = Some (ContentChunk TEXT t)"
      by (metis content_chunk.exhaust content_type.exhaust option.exhaust)
    then show "\<exists>g st1. flush_remaining env st = g st1 \<and> s_bridge st1 = s_bridge st \<and> s_out st1 = s_out st \<and>
        s_hold st1 = s_hold st \<and> acts env calm g calm"
    proof cases
      case 1
      then show ?thesis
        by (intro exI [of _ "\<lambda>st. (st, None)"] exI [of _ "st\<lparr>s_think := tp\<rparr>"])
          (simp add: flush_remaining_def fl acts_none)
    next
      case 2
      then show ?thesis
        by (intro exI [of _ "act_if (e_thinking env) (hold_thinking env t)"] exI [of _ "st\<lparr>s_think := tp\<rparr>"])
          (simp add: flush_remaining_def fl acts_if [OF hold_thinking_ok])
    next
      case 3
      then show ?thesis
        by (intro exI [of _ "hold_text env t"] exI [of _ "st\<lparr>s_think := tp\<rparr>"])
          (simp add: flush_remaining_def fl hold_text_ok)
    qed
  qed
  show "snd (flush_remaining env st) = None"
    by (auto simp: flush_remaining_def act_if_def hold_text_quiet hold_thinking_quiet
        split: prod.split option.split content_chunk.split content_type.split)
qed

lemma iter_heuristic_quiet: "snd (hold_events env (iter_heuristic_tool_use tu) st) = None"
  by (simp add: hold_events_def iter_heuristic_tool_use_def on_sse_def emit_seq_def close_content_blocks_def
      emit_if_def stop_thinking_block_def stop_text_block_def heuristic_block_def allocate_index_def case_prod_beta)

lemma act_list_quiet: "(\<And>x st. snd (f x st) = None) \<Longrightarrow> snd (act_list f xs st) = None"
proof (induction xs arbitrary: st)
  case (Cons x xs)
  have "snd (f x st) = None" by (rule Cons.prems)
  then obtain st1 where "f x st = (st1, None)" by (metis prod.collapse)
  then show ?case using Cons.IH [of st1] Cons.prems by (simp add: act_seq_def)
qed simp

lemma flush_heuristic_ok: "acts env calm (flush_heuristic env) calm" "snd (flush_heuristic env st) = None"
proof -
  show "acts env calm (flush_heuristic env) calm"
  proof (rule acts_update)
    fix st :: strm
    obtain tools hp where fl: "heur_flush (s_heur st) = (tools, hp)" by fastforce
    let ?g = "act_list (\<lambda>tu. hold_events env (iter_heuristic_tool_use tu)) tools"
    show "\<exists>g st1. flush_heuristic env st = g st1 \<and> s_bridge st1 = s_bridge st \<and> s_out st1 = s_out st \<and>
        s_hold st1 = s_hold st \<and> acts env calm g calm"
      by (intro exI [of _ ?g] exI [of _ "st\<lparr>s_heur := hp\<rparr>"]) (simp add: flush_heuristic_def fl hold_heuristic_ok)
  qed
  show "snd (flush_heuristic env st) = None"
    by (auto simp: flush_heuristic_def intro: act_list_quiet iter_heuristic_quiet split: prod.split)
qed

lemma text_open_seen: "builder_inv s c \<Longrightarrow> text_started (blocks s) \<Longrightarrow> seen_blocks c \<noteq> {}"
  using text_open [of s c] bld.inv_seen [of s c] dict_get_None_iff [of "open_blocks c" "text_index (blocks s)"] by fastforce

lemma text_started_delta:
  "hold_events env (on_sse (emit_text_delta t)) st = (st', e) \<Longrightarrow> text_started (br_blocks (s_bridge st')) = text_started (br_blocks (s_bridge st))"
  by (auto simp: hold_events_def on_sse_def emit_text_delta_def split: prod.splits)

lemma filler_ok:
  assumes "stream_at env st c" "calm (s_bridge st)"
  obtains st1 c1 where "filler env st = (st1, None)" "stream_at env st1 c1" "calm (s_bridge st1)" "seen_blocks c1 \<noteq> {}"
proof (cases "needs_filler (br_sse (s_bridge st))")
  case False
  then have "has_committed_sse_output (br_sse (s_bridge st))"
    by (auto simp: needs_filler_def has_committed_sse_output_def Let_def)
  moreover have "builder_inv (br_sse (s_bridge st)) c" using assms(1) by (simp add: stream_at_def bridge_inv_def)
  ultimately have "seen_blocks c \<noteq> {}" by (rule committed_seen [rotated])
  moreover have "filler env st = (st, None)" using False by (simp add: filler_def act_if_def)
  ultimately show thesis using that assms by blast
next
  case True
  have fill: "filler env st = hold_text env [32] st" using True by (simp add: filler_def act_if_def)
  have act: "acts env calm (hold_events env (on_sse ensure_text_block)) (\<lambda>b. text_started (br_blocks b) \<and> calm b)"
    by (rule acts_hold [OF lifted_text(1)])
  have quiet: "snd (hold_events env (on_sse ensure_text_block) st) = None"
    by (simp add: hold_events_def on_sse_def ensure_text_block_def emit_seq_def emit_if_def stop_thinking_block_def
        start_text_block_def allocate_index_def case_prod_beta)
  obtain st1 c1 where 1: "act_seq (hold_events env (on_sse ensure_text_block))
      (hold_events env (on_sse (emit_text_delta [32]))) st = hold_events env (on_sse (emit_text_delta [32])) st1"
      "stream_at env st1 c1" "text_started (br_blocks (s_bridge st1)) \<and> calm (s_bridge st1)"
    by (rule act_seq_quiet [OF act assms quiet])
  have seen: "seen_blocks c1 \<noteq> {}"
    using 1(2,3) text_open_seen by (auto simp: stream_at_def bridge_inv_def)
  obtain st2 e2 where 2: "hold_events env (on_sse (emit_text_delta [32])) st1 = (st2, e2)" by fastforce
  obtain c2 where c2: "stream_at env st2 c2" "seen_blocks c1 \<subseteq> seen_blocks c2" "e2 = None \<longrightarrow> calm (s_bridge st2)"
    using actsD [OF acts_hold [OF lifted_text(2)] 1(2,3) 2] by blast
  have "filler env st = (st2, e2)" using fill 1(1) 2 by (simp add: hold_text_def)
  moreover from this have "e2 = None" using hold_text_quiet [of env "[32]" st] fill by (metis snd_conv)
  ultimately show thesis using that c2 seen by blast
qed


lemma closing_delivered:
  assumes "stream_at env st c" "seen_blocks c \<noteq> {}"
    and run: "act_seq (hold_events env (on_sse close_all_blocks)) (final_events env) st = (st', e)"
  shows "e = None \<and> complete env (flush_held st')"
proof -
  obtain X where X: "delivered env st X" "contract_run True X contract_init = Inr c" and b: "bridge_inv (s_bridge st) c"
    using assms(1) by (auto simp: stream_at_def)
  obtain fs s1 e1 where 1: "close_all_blocks (br_sse (s_bridge st)) = (fs, s1, e1)" by (metis prod_cases3)
  have "builder_inv (br_sse (s_bridge st)) c" using b by (simp add: bridge_inv_def)
  then obtain c1 where c1: "e1 = None" "contract_run True fs c = Inr c1" "all_closed s1 c1"
      "seen_blocks c \<subseteq> seen_blocks c1"
    using close_all_ok [OF _ 1] by blast
  let ?b1 = "(s_bridge st)\<lparr>br_sse := s1\<rparr>"
  have f1: "on_sse close_all_blocks (s_bridge st) = (fs, ?b1, None)" using 1 c1(1) by (simp add: on_sse_def)
  obtain st1 e2 where h1: "hold_events env (on_sse close_all_blocks) st = (st1, e2)" by fastforce
  have d1: "delivered env st1 (X @ fs)" "s_bridge st1 = ?b1" "e2 = None"
    using hold_events_delivered [OF X(1) f1 h1] by simp_all
  have run2: "final_events env st1 = (st', e)" using run h1 d1(3) by (simp add: act_seq_def)
  let ?g = "\<lambda>s. message_delta (map_stop_reason (s_finish st1))
          (Some (case s_usage st1 of Some (Some n) \<Rightarrow> n | _ \<Rightarrow> int (estimate_output_tokens (e_encoder env) s))) s"
  obtain f gs where g: "emit_seq ?g message_stop s1 = (f # gs, s1, None)" "list_all neutral (f # gs)"
      "fst (last (f # gs)) = u ''message_stop''"
    using last_events [of ?g s1] message_delta_neutral by blast
  have f2: "on_sse (emit_seq ?g message_stop) (s_bridge st1) = (f # gs, ?b1, None)"
    using g(1) d1(2) by (simp add: on_sse_def)
  have "hold_events env (on_sse (emit_seq ?g message_stop)) st1 = (st', e)" using run2 by (simp add: final_events_def)
  from hold_events_delivered [OF d1(1) f2 this]
  have d2: "delivered env st' ((X @ fs) @ f # gs)" "e = None" by simp_all
  have "contract_run True ((X @ fs) @ f # gs) contract_init = Inr c1"
    using contract_run_appendI [OF contract_run_appendI [OF X(2) c1(2)] neutral_run [OF g(2)]] .
  then have "complete env (flush_held st')"
    by (rule check_final [OF flush_held_delivered(1) [OF d2(1)]])
      (use c1(3,4) assms(2) g(3) in \<open>auto simp: all_closed_def\<close>)
  then show ?thesis using d2(2) by simp
qed

lemma finish_stream_ok:
  assumes "stream_at env st c" "calm (s_bridge st)" "finish_stream env st = (st', e)"
  shows "e = None \<and> complete env (flush_held st')"
proof -
  let ?close = "act_seq (hold_events env (on_sse close_all_blocks)) (final_events env)"
  let ?tasks = "act_seq (hold_events env flush_task_buffers) ?close"
  let ?aliases = "\<lambda>st. hold_events env (flush_alias_buffers (s_aliases st)) st"
  obtain st1 c1 where 1: "finish_stream env st = act_seq (flush_heuristic env)
        (act_seq (filler env) (act_seq ?aliases ?tasks)) st1" "stream_at env st1 c1" "calm (s_bridge st1)"
    unfolding finish_stream_def by (rule act_seq_quiet [OF flush_remaining_ok(1) assms(1,2) flush_remaining_ok(2)])
  obtain st2 c2 where 2: "act_seq (flush_heuristic env) (act_seq (filler env) (act_seq ?aliases ?tasks)) st1
        = act_seq (filler env) (act_seq ?aliases ?tasks) st2" "stream_at env st2 c2" "calm (s_bridge st2)"
    by (rule act_seq_quiet [OF flush_heuristic_ok(1) 1(2,3) flush_heuristic_ok(2)])
  obtain st3 c3 where 3: "filler env st2 = (st3, None)" "stream_at env st3 c3" "calm (s_bridge st3)" "seen_blocks c3 \<noteq> {}"
    by (rule filler_ok [OF 2(2,3)])
  have inv3: "bridge_inv (s_bridge st3) c3" using 3(2) by (simp add: stream_at_def)
  have "snd (?aliases st3) = None"
    using flush_alias_quiet [OF inv3] by (simp add: hold_events_def case_prod_beta)
  then obtain st4 c4 where 4: "act_seq (hold_events env (flush_alias_buffers (s_aliases st3))) ?tasks st3 = ?tasks st4"
      "stream_at env st4 c4" "calm (s_bridge st4)" "seen_blocks c3 \<subseteq> seen_blocks c4"
    by (rule act_seq_quiet [OF acts_hold [OF flush_alias_buffers_ok] 3(2,3)])
  have inv4: "bridge_inv (s_bridge st4) c4" using 4(2) by (simp add: stream_at_def)
  have "snd (hold_events env flush_task_buffers st4) = None"
    using flush_task_quiet [OF inv4 4(3)] by (simp add: hold_events_def case_prod_beta)
  then obtain st5 c5 where 5: "?tasks st4 = ?close st5" "stream_at env st5 c5" "seen_blocks c4 \<subseteq> seen_blocks c5"
    by (rule act_seq_quiet [OF acts_hold [OF flush_task_ok] 4(2,3)])
  have "act_seq ?aliases ?tasks st3 = act_seq (hold_events env (flush_alias_buffers (s_aliases st3))) ?tasks st3"
    by (simp add: act_seq_def)
  then have run: "?close st5 = (st', e)"
    using assms(3) 1(1) 2(1) 3(1) 4(1) 5(1) by (simp add: act_seq_def [of "filler env"])
  have "seen_blocks c5 \<noteq> {}" using 3(4) 4(4) 5(3) by blast
  then show ?thesis by (rule closing_delivered [OF 5(2) _ run])
qed

section \<open>The result\<close>

lemma stream_response_complete:
  "case stream_response env body of
     (out, e) \<Rightarrow> e = None \<and> assert_anthropic_stream_contract True (map frame_event out) = Inr ()"
proof -
  obtain st ended where 1: "stream_loop env EARLY_TRANSPARENT_MAX_RETRIES body 0 (initial_stream env) = (st, ended)"
    by fastforce
  note loop = stream_loop_ok [OF initial_ok 1]
  have eq: "assert_anthropic_stream_contract True (map frame_event out) = check_contract True out" for out
    by (simp add: assert_anthropic_stream_contract_def comp_def frame_event_def)
  show ?thesis
  proof (cases ended)
    case False
    then show ?thesis using loop 1 by (simp add: stream_response_def eq)
  next
    case True
    then obtain c where "stream_at env st c" "calm (s_bridge st)" using loop by auto
    moreover obtain st1 e where 2: "finish_stream env st = (st1, e)" by fastforce
    ultimately have "e = None \<and> complete env (flush_held st1)" by (rule finish_stream_ok)
    then show ?thesis using 1 True 2 by (simp add: stream_response_def eq)
  qed
qed


section \<open>Thinking that was disabled\<close>

text \<open>
  A scenario: thinking is disabled, the first stream is cut after some text has been
  committed, and the continuation carries reasoning besides its text.
\<close>

definition text_chunk :: "pystr option \<Rightarrow> pystr option \<Rightarrow> pystr option \<Rightarrow> chunk" where
  "text_chunk reasoning content finish =
     \<lparr>k_usage = None,
      k_choice = Some \<lparr>c_delta = Some \<lparr>d_reasoning = reasoning, d_content = content, d_tool_calls = []\<rparr>,
                       c_finish_reason = finish\<rparr>\<rparr>"

definition cut_stream_env :: stream_env where
  "cut_stream_env =
     \<lparr>e_create = (\<lambda>b n. if n = 0 then Inr (([text_chunk None (Some (u ''Hi'')) None], Some ReadError), b)
                      else Inr (([text_chunk (Some (u ''secret'')) (Some (u '' you'')) (Some (u ''stop''))], None), b)),
      e_now = (\<lambda>n. of_nat n), e_uuid = (\<lambda>_. []), e_alnum = (\<lambda>_. False), e_encoder = None, e_thinking = False,
      e_validates = (\<lambda>_ _. Some True), e_tools = [], e_aliases = (\<lambda>_. []), e_error_message = (\<lambda>_. []),
      e_message_id = [], e_model = [], e_input_tokens = JInt 0\<rparr>"

text \<open>
  The mid-stream recovery does not ask whether thinking is enabled: in the
  scenario above the client is sent the reasoning of the continuation.
\<close>

theorem recovery_sends_disabled_thinking:
  "\<not> e_thinking cut_stream_env \<and>
   thinking_content (fst (stream_response cut_stream_env (JObj []))) = u ''secret'' \<and>
   text_content (fst (stream_response cut_stream_env (JObj []))) = u ''Hi you''"
  by code_simp

end
