(* ===== verification/Conversion.thy ===== *)
theory Conversion
  imports PyJson "HOL-Library.Multiset"
begin

text \<open>
  From Anthropic's messages to OpenAI's (\<open>core/anthropic/conversion.py\<close>, \<open>content.py\<close>, \<open>utils.py\<close>): messages
  with their tool calls and tool results, assistant text that follows a tool call and is put off
  until the results have been replayed, tools, the system prompt and the request body.  Content
  blocks are JSON values; \<open>repr\<close> is \<open>str(v)\<close> for a value that is no string.
\<close>

section \<open>Blocks\<close>

definition get_block_attr :: "pystr \<Rightarrow> json \<Rightarrow> json \<Rightarrow> json" where
  "get_block_attr attr dflt block = jget_default attr dflt block"

definition get_block_type :: "json \<Rightarrow> json" where
  "get_block_type block = get_block_attr (u ''type'') JNull block"

abbreviation has_type :: "string \<Rightarrow> json \<Rightarrow> bool" where
  "has_type t block \<equiv> get_block_type block = JStr (u t)"

definition set_if_not_none :: "pystr \<Rightarrow> json \<Rightarrow> (pystr, json) dict \<Rightarrow> (pystr, json) dict" where
  "set_if_not_none key v body = (if v = JNull then body else dict_set key v body)"

definition py_str :: "(json \<Rightarrow> pystr) \<Rightarrow> json \<Rightarrow> pystr" where
  "py_str repr v = (case v of JStr s \<Rightarrow> s | _ \<Rightarrow> repr v)"

definition OpenAIConversionError :: py_exn where
  "OpenAIConversionError = OtherException (u ''OpenAIConversionError'')"

text \<open>\<open>sep.join(parts)\<close> raises unless every part is a string.\<close>

definition join_texts :: "pystr \<Rightarrow> json list \<Rightarrow> py_exn + pystr" where
  "join_texts sep parts = (if list_all is_str parts then Inr (str_join sep (map text_of parts)) else Inl TypeError)"

datatype reasoning_replay = DISABLED | THINK_TAGS | REASONING_CONTENT

fun tool_result_part :: "(json \<Rightarrow> pystr) \<Rightarrow> json \<Rightarrow> pystr" where
  "tool_result_part repr (JObj d) =
     (if jget (u ''type'') (JObj d) = JStr (u ''text'') then py_str repr (jget_default (u ''text'') (JStr []) (JObj d))
      else json_dumps_unicode (JObj d))"
| "tool_result_part repr v = py_str repr v"

fun serialize_tool_result_content :: "(json \<Rightarrow> pystr) \<Rightarrow> json \<Rightarrow> pystr" where
  "serialize_tool_result_content repr JNull = []"
| "serialize_tool_result_content repr (JStr s) = s"
| "serialize_tool_result_content repr (JObj d) = json_dumps_unicode (JObj d)"
| "serialize_tool_result_content repr (JArr items) = str_join [10] (map (tool_result_part repr) items)"
| "serialize_tool_result_content repr v = repr v"

fun clean_reasoning_content :: "json \<Rightarrow> pystr option" where
  "clean_reasoning_content (JStr s) = (if s = [] then None else Some s)"
| "clean_reasoning_content _ = None"

definition think_tag_content :: "pystr \<Rightarrow> pystr" where
  "think_tag_content reasoning = u ''<think>'' @ [10] @ reasoning @ [10] @ u ''</think>''"

definition tool_call_from_tool_use :: "(json \<Rightarrow> pystr) \<Rightarrow> json \<Rightarrow> json" where
  "tool_call_from_tool_use repr block =
     (let tool_input = get_block_attr (u ''input'') (JObj []) block;
          tool_call =
            [(u ''id'', get_block_attr (u ''id'') JNull block), (u ''type'', JStr (u ''function'')),
             (u ''function'', JObj
               [(u ''name'', get_block_attr (u ''name'') JNull block),
                (u ''arguments'', JStr (if is_dict tool_input then json_dumps tool_input else py_str repr tool_input))])]
      in case get_block_attr (u ''extra_content'') JNull block of
           JObj d \<Rightarrow> JObj (if d = [] then tool_call else tool_call @ [(u ''extra_content'', JObj d)])
         | _ \<Rightarrow> JObj tool_call)"

record pending_after_tools =
  remaining_tool_ids :: "pystr list"
  deferred_blocks :: "json list"
  top_level_reasoning :: "pystr option"
  pending_replay :: reasoning_replay
  deferred_emitted :: bool

definition needs_deferred :: "pending_after_tools \<Rightarrow> bool" where
  "needs_deferred p \<longleftrightarrow> deferred_blocks p \<noteq> [] \<and> \<not> deferred_emitted p"

fun index_first_tool_use :: "json list \<Rightarrow> nat option" where
  "index_first_tool_use [] = None"
| "index_first_tool_use (b # bs) = (if has_type ''tool_use'' b then Some 0 else map_option Suc (index_first_tool_use bs))"

definition iter_tool_uses_in_order :: "(json \<Rightarrow> pystr) \<Rightarrow> json list \<Rightarrow> json list" where
  "iter_tool_uses_in_order repr blocks = map (tool_call_from_tool_use repr) (filter (has_type ''tool_use'') blocks)"

definition deferred_post_tool_blocks :: "json list \<Rightarrow> nat \<Rightarrow> json list" where
  "deferred_post_tool_blocks content first = filter (\<lambda>b. \<not> has_type ''tool_use'' b) (drop (Suc first) content)"

definition forbidden_assistant_block :: "json \<Rightarrow> bool" where
  "forbidden_assistant_block b \<longleftrightarrow> has_type ''image'' b \<or> has_type ''server_tool_use'' b \<or>
     has_type ''web_search_tool_result'' b \<or> has_type ''web_fetch_tool_result'' b"

definition assert_no_forbidden_assistant_block :: "json \<Rightarrow> py_exn + unit" where
  "assert_no_forbidden_assistant_block b = (if forbidden_assistant_block b then Inl OpenAIConversionError else Inr ())"

fun assert_blocks :: "json list \<Rightarrow> py_exn + unit" where
  "assert_blocks [] = Inr ()"
| "assert_blocks (b # bs) = and_then (assert_no_forbidden_assistant_block b) (\<lambda>_. assert_blocks bs)"

section \<open>Assistant messages\<close>

text \<open>What one block adds to the text parts, the reasoning parts and the tool calls.\<close>

definition assistant_block ::
    "(json \<Rightarrow> pystr) \<Rightarrow> pystr option \<Rightarrow> reasoning_replay \<Rightarrow> json \<Rightarrow> py_exn + json list \<times> json list \<times> json list" where
  "assistant_block repr reasoning replay b =
     (if has_type ''text'' b then Inr ([get_block_attr (u ''text'') (JStr []) b], [], [])
      else if has_type ''thinking'' b then
        (let thinking = get_block_attr (u ''thinking'') (JStr []) b in
         case replay of
           DISABLED \<Rightarrow> Inr ([], [], [])
         | THINK_TAGS \<Rightarrow> Inr ([JStr (think_tag_content (py_str repr thinking))], [], [])
         | REASONING_CONTENT \<Rightarrow> Inr ([], (if reasoning = None then [thinking] else []), []))
      else if has_type ''redacted_thinking'' b then Inr ([], [], [])
      else if has_type ''tool_use'' b then Inr ([], [], [tool_call_from_tool_use repr b])
      else map_sum id (\<lambda>_. ([], [], [])) (assert_no_forbidden_assistant_block b))"

fun assistant_blocks ::
    "(json \<Rightarrow> pystr) \<Rightarrow> pystr option \<Rightarrow> reasoning_replay \<Rightarrow> json list \<Rightarrow> py_exn + json list \<times> json list \<times> json list" where
  "assistant_blocks repr reasoning replay [] = Inr ([], [], [])"
| "assistant_blocks repr reasoning replay (b # bs) =
     and_then (assistant_block repr reasoning replay b) (\<lambda>(texts, thinks, calls).
     and_then (assistant_blocks repr reasoning replay bs) (\<lambda>(texts', thinks', calls').
       Inr (texts @ texts', thinks @ thinks', calls @ calls')))"

text \<open>The one message of \<open>_convert_assistant_message\<close>, as the dict it is built as.\<close>

definition convert_assistant_message ::
    "(json \<Rightarrow> pystr) \<Rightarrow> pystr option \<Rightarrow> reasoning_replay \<Rightarrow> json list \<Rightarrow> py_exn + (pystr, json) dict" where
  "convert_assistant_message repr reasoning replay content =
     and_then (assistant_blocks repr reasoning replay content) (\<lambda>(texts, thinks, calls).
     and_then (join_texts [10, 10] texts) (\<lambda>text.
       let content_str = (if text = [] \<and> calls = [] then u '' '' else text);
           msg = [(u ''role'', JStr (u ''assistant'')), (u ''content'', JStr content_str)] @
             (if calls = [] then [] else [(u ''tool_calls'', JArr calls)])
       in if replay = REASONING_CONTENT then
            and_then (case reasoning of Some r \<Rightarrow> if r = [] then join_texts [10] thinks else Inr r | None \<Rightarrow> join_texts [10] thinks)
              (\<lambda>r. Inr (if r = [] then msg else msg @ [(u ''reasoning_content'', JStr r)]))
          else Inr msg))"

definition tool_use_ids :: "(json \<Rightarrow> pystr) \<Rightarrow> json list \<Rightarrow> pystr list" where
  "tool_use_ids repr calls =
     remdups (map (py_str repr) (filter (\<lambda>i. i \<noteq> JNull \<and> str_strip (py_str repr i) \<noteq> []) (map (jget (u ''id'')) calls)))"

definition convert_assistant_message_with_split ::
    "(json \<Rightarrow> pystr) \<Rightarrow> pystr option \<Rightarrow> reasoning_replay \<Rightarrow> json list \<Rightarrow> nat \<Rightarrow> py_exn + json list \<times> pending_after_tools option" where
  "convert_assistant_message_with_split repr reasoning replay content first =
     (let pre = take first content; calls = iter_tool_uses_in_order repr content in
      if calls = [] then map_sum id (\<lambda>m. ([JObj m], None)) (convert_assistant_message repr reasoning replay content)
      else
        let deferred = deferred_post_tool_blocks content first in
        and_then
          (if pre = [] then
             Inr ([(u ''role'', JStr (u ''assistant'')), (u ''content'', JStr [])] @
               (case reasoning of
                  Some r \<Rightarrow> if replay = REASONING_CONTENT \<and> r \<noteq> [] then [(u ''reasoning_content'', JStr r)] else []
                | None \<Rightarrow> []))
           else convert_assistant_message repr reasoning replay pre)
          (\<lambda>msg.
            let msg1 = dict_set (u ''tool_calls'') (JArr calls) msg;
                msg2 = (if dict_get msg1 (u ''content'') = Some (JStr (u '' '')) then dict_set (u ''content'') (JStr []) msg1 else msg1)
            in Inr ([JObj msg2],
                 if deferred = [] then None
                 else Some \<lparr>remaining_tool_ids = tool_use_ids repr calls, deferred_blocks = deferred, top_level_reasoning = reasoning,
                      pending_replay = replay, deferred_emitted = False\<rparr>)))"

definition deferred_post_tool_to_messages :: "(json \<Rightarrow> pystr) \<Rightarrow> pending_after_tools \<Rightarrow> py_exn + json list" where
  "deferred_post_tool_to_messages repr p =
     (if deferred_blocks p = [] then Inr []
      else map_sum id (\<lambda>m. [JObj m]) (convert_assistant_message repr (top_level_reasoning p) (pending_replay p) (deferred_blocks p)))"

section \<open>User messages\<close>

definition flush_text :: "json list \<Rightarrow> py_exn + json list" where
  "flush_text texts =
     (if texts = [] then Inr []
      else map_sum id (\<lambda>s. [JObj [(u ''role'', JStr (u ''user'')), (u ''content'', JStr s)]]) (join_texts [10] texts))"

definition tool_message :: "(json \<Rightarrow> pystr) \<Rightarrow> json \<Rightarrow> json" where
  "tool_message repr b = JObj
     [(u ''role'', JStr (u ''tool'')), (u ''tool_call_id'', get_block_attr (u ''tool_use_id'') JNull b),
      (u ''content'', JStr (serialize_tool_result_content repr (get_block_attr (u ''content'') (JStr []) b)))]"

fun user_blocks :: "(json \<Rightarrow> pystr) \<Rightarrow> json list \<Rightarrow> json list \<Rightarrow> py_exn + json list" where
  "user_blocks repr texts [] = flush_text texts"
| "user_blocks repr texts (b # bs) =
     (if has_type ''text'' b then user_blocks repr (texts @ [get_block_attr (u ''text'') (JStr []) b]) bs
      else if has_type ''image'' b then Inl OpenAIConversionError
      else if has_type ''tool_result'' b then
        and_then (flush_text texts) (\<lambda>before.
        and_then (user_blocks repr [] bs) (\<lambda>rest. Inr (before @ tool_message repr b # rest)))
      else user_blocks repr texts bs)"

definition convert_user_message :: "(json \<Rightarrow> pystr) \<Rightarrow> json list \<Rightarrow> py_exn + json list" where
  "convert_user_message repr content = user_blocks repr [] content"

text \<open>The answer and the pending state after the blocks; its \<open>deferred_emitted\<close> is the flag \<open>cleared\<close>.\<close>

fun inject_blocks ::
    "(json \<Rightarrow> pystr) \<Rightarrow> json list \<Rightarrow> pending_after_tools \<Rightarrow> json list \<Rightarrow> py_exn + json list \<times> pending_after_tools" where
  "inject_blocks repr texts p [] = map_sum id (\<lambda>ms. (ms, p)) (flush_text texts)"
| "inject_blocks repr texts p (b # bs) =
     (if has_type ''text'' b then inject_blocks repr (texts @ [get_block_attr (u ''text'') (JStr []) b]) p bs
      else if has_type ''image'' b then Inl OpenAIConversionError
      else if has_type ''tool_result'' b then
        and_then (flush_text texts) (\<lambda>before.
          let tuid = get_block_attr (u ''tool_use_id'') JNull b;
              tuid_s = (if tuid = JNull then [] else py_str repr tuid);
              p1 = p\<lparr>remaining_tool_ids := removeAll tuid_s (remaining_tool_ids p)\<rparr>
          in if remaining_tool_ids p1 = [] then
               and_then (deferred_post_tool_to_messages repr p1) (\<lambda>deferred.
               and_then (inject_blocks repr [] (p1\<lparr>deferred_emitted := True\<rparr>) bs) (\<lambda>(rest, p2).
                 Inr (before @ tool_message repr b # deferred @ rest, p2)))
             else
               and_then (inject_blocks repr [] p1 bs) (\<lambda>(rest, p2). Inr (before @ tool_message repr b # rest, p2)))
      else inject_blocks repr texts p bs)"

definition convert_user_message_with_injection ::
    "(json \<Rightarrow> pystr) \<Rightarrow> json list \<Rightarrow> pending_after_tools \<Rightarrow> py_exn + json list \<times> bool \<times> pending_after_tools" where
  "convert_user_message_with_injection repr content p =
     (if \<not> needs_deferred p \<or> remaining_tool_ids p = [] then map_sum id (\<lambda>ms. (ms, False, p)) (convert_user_message repr content)
      else map_sum id (\<lambda>(ms, p1). (ms, deferred_emitted p1, p1)) (inject_blocks repr [] p content))"

section \<open>Conversations\<close>

record chat_message =
  cm_role :: pystr
  cm_content :: json
  cm_reasoning_content :: json

definition waits :: "pending_after_tools option \<Rightarrow> bool" where
  "waits pending = (case pending of None \<Rightarrow> False | Some p \<Rightarrow> needs_deferred p)"

text \<open>The deferred text of a pending assistant message, sent before the next message.\<close>

definition send_deferred ::
    "(json \<Rightarrow> pystr) \<Rightarrow> pending_after_tools option \<Rightarrow> py_exn + json list \<times> pending_after_tools option" where
  "send_deferred repr pending =
     (case pending of
        Some p \<Rightarrow> if needs_deferred p then map_sum id (\<lambda>ms. (ms, None)) (deferred_post_tool_to_messages repr p) else Inr ([], pending)
      | None \<Rightarrow> Inr ([], None))"

definition assistant_list ::
    "(json \<Rightarrow> pystr) \<Rightarrow> pystr option \<Rightarrow> reasoning_replay \<Rightarrow> json list \<Rightarrow> pending_after_tools option \<Rightarrow> py_exn + json list \<times> pending_after_tools option" where
  "assistant_list repr reasoning replay content pending =
     and_then (send_deferred repr pending) (\<lambda>(before, pending1).
       case index_first_tool_use content of
         Some first \<Rightarrow>
           and_then (assert_blocks (filter (\<lambda>b. \<not> has_type ''tool_use'' b) content)) (\<lambda>_.
           and_then (convert_assistant_message_with_split repr reasoning replay content first) (\<lambda>(out, new).
             Inr (before @ out, case new of None \<Rightarrow> pending1 | Some p \<Rightarrow> Some p)))
       | None \<Rightarrow>
           and_then (assert_blocks content) (\<lambda>_.
           and_then (convert_assistant_message repr reasoning replay content) (\<lambda>m. Inr (before @ [JObj m], pending1))))"

definition string_message ::
    "(json \<Rightarrow> pystr) \<Rightarrow> pystr option \<Rightarrow> reasoning_replay \<Rightarrow> pystr \<Rightarrow> pystr \<Rightarrow> pending_after_tools option \<Rightarrow> py_exn + json list \<times> pending_after_tools option" where
  "string_message repr reasoning replay role content pending =
     and_then (if role = u ''user'' then send_deferred repr pending else Inr ([], pending)) (\<lambda>(before, pending1).
       let head = (u ''role'', JStr role) in
       Inr (before @ [JObj
         (if role = u ''assistant'' then
            (case reasoning of
               Some r \<Rightarrow>
                 if replay = REASONING_CONTENT then [head, (u ''content'', JStr content), (u ''reasoning_content'', JStr r)]
                 else if replay = THINK_TAGS then
                   [head, (u ''content'', JStr (str_join [10, 10] (think_tag_content r # (if content = [] then [] else [content]))))]
                 else [head, (u ''content'', JStr content)]
             | None \<Rightarrow> [head, (u ''content'', JStr content)])
          else [head, (u ''content'', JStr content)])], pending1))"

definition user_list ::
    "(json \<Rightarrow> pystr) \<Rightarrow> json list \<Rightarrow> pending_after_tools option \<Rightarrow> py_exn + json list \<times> pending_after_tools option" where
  "user_list repr content pending =
     (case pending of
        Some p \<Rightarrow>
          if needs_deferred p then
            if remaining_tool_ids p = [] then
              and_then (deferred_post_tool_to_messages repr p) (\<lambda>before.
              and_then (convert_user_message repr content) (\<lambda>ms. Inr (before @ ms, None)))
            else
              and_then (convert_user_message_with_injection repr content p) (\<lambda>(ms, cleared, p1).
                Inr (ms, if cleared then None else Some p1))
          else map_sum id (\<lambda>ms. (ms, pending)) (convert_user_message repr content)
      | None \<Rightarrow> map_sum id (\<lambda>ms. (ms, None)) (convert_user_message repr content))"

definition convert_message ::
    "(json \<Rightarrow> pystr) \<Rightarrow> reasoning_replay \<Rightarrow> chat_message \<Rightarrow> pending_after_tools option \<Rightarrow> py_exn + json list \<times> pending_after_tools option" where
  "convert_message repr replay msg pending =
     (let role = cm_role msg; reasoning = clean_reasoning_content (cm_reasoning_content msg) in
      case cm_content msg of
        JArr blocks \<Rightarrow>
          if role = u ''assistant'' then assistant_list repr reasoning replay blocks pending
          else if role = u ''user'' then user_list repr blocks pending
          else Inr ([], pending)
      | JStr s \<Rightarrow> string_message repr reasoning replay role s pending
      | v \<Rightarrow>
          and_then (if role = u ''user'' then send_deferred repr pending else Inr ([], pending)) (\<lambda>(before, pending1).
            Inr (before @ [JObj [(u ''role'', JStr role), (u ''content'', JStr (repr v))]], pending1)))"

fun convert_loop ::
    "(json \<Rightarrow> pystr) \<Rightarrow> reasoning_replay \<Rightarrow> chat_message list \<Rightarrow> pending_after_tools option \<Rightarrow> py_exn + json list" where
  "convert_loop repr replay [] pending = map_sum id fst (send_deferred repr pending)"
| "convert_loop repr replay (m # ms) pending =
     and_then (convert_message repr replay m pending) (\<lambda>(out, pending1).
     and_then (convert_loop repr replay ms pending1) (\<lambda>rest. Inr (out @ rest)))"

definition convert_messages :: "(json \<Rightarrow> pystr) \<Rightarrow> reasoning_replay \<Rightarrow> chat_message list \<Rightarrow> py_exn + json list" where
  "convert_messages repr replay messages = convert_loop repr replay messages None"

section \<open>Tools, system prompt and request body\<close>

text \<open>A tool as the request model has it; \<open>description\<close> and \<open>input_schema\<close> may be absent or \<open>None\<close>.\<close>

record request_tool =
  rt_name :: pystr
  rt_description :: json
  rt_input_schema :: json

definition tool_input_schema :: "request_tool \<Rightarrow> json" where
  "tool_input_schema t =
     (if is_dict (rt_input_schema t) then rt_input_schema t
      else JObj [(u ''type'', JStr (u ''object'')), (u ''properties'', JObj [])])"

definition convert_tool :: "request_tool \<Rightarrow> json" where
  "convert_tool t = JObj
     [(u ''type'', JStr (u ''function'')),
      (u ''function'', JObj
        [(u ''name'', JStr (rt_name t)),
         (u ''description'', if truthy (rt_description t) then rt_description t else JStr []),
         (u ''parameters'', tool_input_schema t)])]"

definition convert_tools :: "request_tool list \<Rightarrow> json list" where
  "convert_tools tools = map convert_tool tools"

text \<open>Looking up an unhashable type in a set raises.\<close>

definition convert_tool_choice :: "json \<Rightarrow> py_exn + json" where
  "convert_tool_choice c =
     (if \<not> is_dict c then Inr c
      else
        let choice_type = jget (u ''type'') c; name = jget (u ''name'') c in
        if choice_type = JStr (u ''tool'') \<and> truthy name
        then Inr (JObj [(u ''type'', JStr (u ''function'')), (u ''function'', JObj [(u ''name'', name)])])
        else if choice_type = JStr (u ''any'') then Inr (JStr (u ''required''))
        else (case choice_type of
            JObj _ \<Rightarrow> Inl TypeError
          | JArr _ \<Rightarrow> Inl TypeError
          | _ \<Rightarrow> Inr (if choice_type \<in> {JStr (u ''auto''), JStr (u ''none''), JStr (u ''required'')} then choice_type else c)))"

definition convert_system_prompt :: "json \<Rightarrow> py_exn + json option" where
  "convert_system_prompt system =
     (case system of
        JStr s \<Rightarrow> Inr (Some (JObj [(u ''role'', JStr (u ''system'')), (u ''content'', JStr s)]))
      | JArr blocks \<Rightarrow>
          (let texts = map (get_block_attr (u ''text'') (JStr [])) (filter (has_type ''text'') blocks) in
           if texts = [] then Inr None
           else map_sum id (\<lambda>s. Some (JObj [(u ''role'', JStr (u ''system'')), (u ''content'', JStr (str_strip s))]))
                  (join_texts [10, 10] texts))
      | _ \<Rightarrow> Inr None)"

text \<open>The request model; an absent field is \<open>JNull\<close>, \<open>rd_extra\<close> holds the keys pydantic does not know.\<close>

record request_data =
  rd_model :: pystr
  rd_messages :: "chat_message list"
  rd_system :: json
  rd_max_tokens :: json
  rd_temperature :: json
  rd_top_p :: json
  rd_stop_sequences :: json
  rd_tools :: "request_tool list"
  rd_tool_choice :: json
  rd_extra :: "pystr list"

definition reject_native_only_fields :: "request_data \<Rightarrow> py_exn + unit" where
  "reject_native_only_fields r = (if rd_extra r = [] then Inr () else Inl OpenAIConversionError)"

definition build_base_request_body ::
    "(json \<Rightarrow> pystr) \<Rightarrow> json \<Rightarrow> reasoning_replay \<Rightarrow> request_data \<Rightarrow> py_exn + (pystr, json) dict" where
  "build_base_request_body repr default_max_tokens replay r =
     and_then (reject_native_only_fields r) (\<lambda>_.
     and_then (convert_messages repr replay (rd_messages r)) (\<lambda>messages.
     and_then (if truthy (rd_system r) then convert_system_prompt (rd_system r) else Inr None) (\<lambda>system_msg.
       let messages1 = (case system_msg of None \<Rightarrow> messages | Some m \<Rightarrow> m # messages);
           body = [(u ''model'', JStr (rd_model r)), (u ''messages'', JArr messages1)];
           body1 = set_if_not_none (u ''max_tokens'') (if truthy (rd_max_tokens r) then rd_max_tokens r else default_max_tokens) body;
           body2 = set_if_not_none (u ''top_p'') (rd_top_p r) (set_if_not_none (u ''temperature'') (rd_temperature r) body1);
           body3 = (if truthy (rd_stop_sequences r) then dict_set (u ''stop'') (rd_stop_sequences r) body2 else body2);
           body4 = (if rd_tools r = [] then body3 else dict_set (u ''tools'') (JArr (convert_tools (rd_tools r))) body3)
       in if truthy (rd_tool_choice r)
          then and_then (convert_tool_choice (rd_tool_choice r)) (\<lambda>c. Inr (dict_set (u ''tool_choice'') c body4))
          else Inr body4)))"

section \<open>Tool calls and tool results\<close>

definition use_id :: "json \<Rightarrow> json" where
  "use_id b = get_block_attr (u ''id'') JNull b"

definition result_id :: "json \<Rightarrow> json" where
  "result_id b = get_block_attr (u ''tool_use_id'') JNull b"

text \<open>The tool calls of a converted message, and the call a converted tool message answers.\<close>

definition call_ids :: "json \<Rightarrow> json list" where
  "call_ids m = (case jget (u ''tool_calls'') m of JArr cs \<Rightarrow> map (jget (u ''id'')) cs | _ \<Rightarrow> [])"

definition result_ids :: "json \<Rightarrow> json list" where
  "result_ids m = (case m of JObj d \<Rightarrow> (case dict_get d (u ''tool_call_id'') of None \<Rightarrow> [] | Some v \<Rightarrow> [v]) | _ \<Rightarrow> [])"

text \<open>The same of an incoming message.\<close>

definition calls_in :: "chat_message \<Rightarrow> json list" where
  "calls_in m =
     (case cm_content m of
        JArr bs \<Rightarrow> if cm_role m = u ''assistant'' then map use_id (filter (has_type ''tool_use'') bs) else []
      | _ \<Rightarrow> [])"

definition results_in :: "chat_message \<Rightarrow> json list" where
  "results_in m =
     (case cm_content m of
        JArr bs \<Rightarrow> if cm_role m = u ''user'' then map result_id (filter (has_type ''tool_result'') bs) else []
      | _ \<Rightarrow> [])"

definition plain :: "json \<Rightarrow> bool" where
  "plain m \<longleftrightarrow> call_ids m = [] \<and> result_ids m = []"

lemma call_of_use: "jget (u ''id'') (tool_call_from_tool_use repr b) = use_id b"
  by (simp add: tool_call_from_tool_use_def use_id_def Let_def split: json.split)

lemma assistant_block_ok:
  "assistant_block repr reasoning replay b = Inr (texts, thinks, calls) \<Longrightarrow>
     calls = (if has_type ''tool_use'' b then [tool_call_from_tool_use repr b] else []) \<and> \<not> forbidden_assistant_block b"
  by (auto simp: assistant_block_def assert_no_forbidden_assistant_block_def forbidden_assistant_block_def Let_def
      split: if_splits reasoning_replay.splits)

lemma assistant_blocks_ok:
  "assistant_blocks repr reasoning replay bs = Inr (texts, thinks, calls) \<Longrightarrow>
     calls = iter_tool_uses_in_order repr bs \<and> (\<forall>b \<in> set bs. \<not> forbidden_assistant_block b)"
proof (induction bs arbitrary: texts thinks calls)
  case (Cons b bs)
  obtain t1 k1 c1 where b: "assistant_block repr reasoning replay b = Inr (t1, k1, c1)"
    using Cons.prems by (auto simp: and_then_Inr)
  obtain t2 k2 c2 where bs: "assistant_blocks repr reasoning replay bs = Inr (t2, k2, c2)" "calls = c1 @ c2"
    using Cons.prems b by (auto simp: and_then_Inr)
  show ?case using assistant_block_ok [OF b] Cons.IH [OF bs(1)] bs(2) by (simp add: iter_tool_uses_in_order_def)
qed (simp add: iter_tool_uses_in_order_def)

lemma assistant_message_ok:
  assumes "convert_assistant_message repr reasoning replay bs = Inr d"
  shows "call_ids (JObj d) = map use_id (filter (has_type ''tool_use'') bs) \<and> result_ids (JObj d) = [] \<and>
    (\<forall>b \<in> set bs. \<not> forbidden_assistant_block b)"
proof -
  obtain texts thinks calls where a: "assistant_blocks repr reasoning replay bs = Inr (texts, thinks, calls)"
    using assms by (auto simp: convert_assistant_message_def and_then_Inr)
  obtain joined where joined: "join_texts [10, 10] texts = Inr joined"
    using assms a by (auto simp: convert_assistant_message_def and_then_Inr)
  define msg where "msg = [(u ''role'', JStr (u ''assistant'')), (u ''content'', JStr (if joined = [] \<and> calls = [] then u '' '' else joined))] @
      (if calls = [] then [] else [(u ''tool_calls'', JArr calls)])"
  have "d = msg \<or> (\<exists>r. d = msg @ [(u ''reasoning_content'', JStr r)])"
    using assms a joined by (auto simp: convert_assistant_message_def msg_def Let_def and_then_Inr split: if_splits)
  then have "call_ids (JObj d) = map (jget (u ''id'')) calls" "result_ids (JObj d) = []"
    by (auto simp: msg_def call_ids_def result_ids_def)
  then show ?thesis using assistant_blocks_ok [OF a] by (simp add: iter_tool_uses_in_order_def call_of_use comp_def)
qed

lemma index_first_None: "index_first_tool_use bs = None \<longleftrightarrow> filter (has_type ''tool_use'') bs = []"
  by (induction bs) auto

lemma index_first_pre: "index_first_tool_use bs = Some i \<Longrightarrow> filter (has_type ''tool_use'') (take i bs) = []"
  by (induction bs arbitrary: i) (auto split: if_splits)

lemma split_ok:
  assumes "convert_assistant_message_with_split repr reasoning replay bs first = Inr (out, new)" "index_first_tool_use bs = Some first"
  shows "\<exists>d. out = [JObj d] \<and> call_ids (JObj d) = map use_id (filter (has_type ''tool_use'') bs) \<and> result_ids (JObj d) = [] \<and>
    (\<forall>p. new = Some p \<longrightarrow> needs_deferred p \<and> filter (has_type ''tool_use'') (deferred_blocks p) = [] \<and>
      remaining_tool_ids p = tool_use_ids repr (iter_tool_uses_in_order repr bs))"
proof -
  let ?calls = "iter_tool_uses_in_order repr bs" and ?pre = "take first bs"
  have calls: "?calls \<noteq> []" using assms(2) index_first_None [of bs] by (auto simp: iter_tool_uses_in_order_def)
  obtain msg where msg: "(if ?pre = [] then
             Inr ([(u ''role'', JStr (u ''assistant'')), (u ''content'', JStr [])] @
               (case reasoning of
                  Some r \<Rightarrow> if replay = REASONING_CONTENT \<and> r \<noteq> [] then [(u ''reasoning_content'', JStr r)] else []
                | None \<Rightarrow> []))
           else convert_assistant_message repr reasoning replay ?pre) = Inr msg"
    using assms(1) calls unfolding convert_assistant_message_with_split_def Let_def by (auto simp: and_then_Inr)
  define msg1 where "msg1 = dict_set (u ''tool_calls'') (JArr ?calls) msg"
  define msg2 where "msg2 = (if dict_get msg1 (u ''content'') = Some (JStr (u '' '')) then dict_set (u ''content'') (JStr []) msg1 else msg1)"
  have res: "out = [JObj msg2]" "new = (if deferred_post_tool_blocks bs first = [] then None
      else Some \<lparr>remaining_tool_ids = tool_use_ids repr ?calls, deferred_blocks = deferred_post_tool_blocks bs first,
        top_level_reasoning = reasoning, pending_replay = replay, deferred_emitted = False\<rparr>)"
    using assms(1) calls msg unfolding convert_assistant_message_with_split_def Let_def msg2_def msg1_def by (simp_all split: if_splits)
  have "result_ids (JObj msg) = []"
    using msg assistant_message_ok [of repr reasoning replay ?pre msg]
    by (auto simp: result_ids_def split: if_splits option.splits)
  then have "dict_get msg2 (u ''tool_calls'') = Some (JArr ?calls)" "result_ids (JObj msg2) = []"
    by (auto simp: msg2_def msg1_def result_ids_def dict_simps)
  then have "call_ids (JObj msg2) = map use_id (filter (has_type ''tool_use'') bs)" "result_ids (JObj msg2) = []"
    by (simp_all add: call_ids_def iter_tool_uses_in_order_def call_of_use comp_def)
  then show ?thesis using res by (auto simp: needs_deferred_def deferred_post_tool_blocks_def)
qed

lemma deferred_plain:
  assumes "deferred_post_tool_to_messages repr p = Inr ms" "filter (has_type ''tool_use'') (deferred_blocks p) = []"
  shows "\<forall>m \<in> set ms. plain m"
proof (cases "deferred_blocks p = []")
  case False
  then obtain d where "convert_assistant_message repr (top_level_reasoning p) (pending_replay p) (deferred_blocks p) = Inr d" "ms = [JObj d]"
    using assms(1) by (cases "convert_assistant_message repr (top_level_reasoning p) (pending_replay p) (deferred_blocks p)")
      (auto simp: deferred_post_tool_to_messages_def)
  then show ?thesis using assistant_message_ok assms(2) by (fastforce simp: plain_def)
qed (use assms in \<open>simp add: deferred_post_tool_to_messages_def\<close>)

lemma flush_plain: "flush_text texts = Inr ms \<Longrightarrow> \<forall>m \<in> set ms. plain m"
  by (cases "join_texts [10] texts") (auto simp: flush_text_def plain_def call_ids_def result_ids_def split: if_splits)

lemma tool_message_ids: "call_ids (tool_message repr b) = []" "result_ids (tool_message repr b) = [result_id b]"
  by (simp_all add: tool_message_def call_ids_def result_ids_def result_id_def)

abbreviation all_calls :: "json list \<Rightarrow> json list" where
  "all_calls ms \<equiv> concat (map call_ids ms)"

abbreviation all_results :: "json list \<Rightarrow> json list" where
  "all_results ms \<equiv> concat (map result_ids ms)"

lemma plain_ids: "\<forall>m \<in> set ms. plain m \<Longrightarrow> all_calls ms = [] \<and> all_results ms = []"
  by (simp add: plain_def)

lemma user_blocks_ok:
  "user_blocks repr texts bs = Inr ms \<Longrightarrow>
     all_calls ms = [] \<and> all_results ms = map result_id (filter (has_type ''tool_result'') bs) \<and> (\<forall>b \<in> set bs. \<not> has_type ''image'' b)"
proof (induction bs arbitrary: texts ms)
  case Nil
  then show ?case using plain_ids [OF flush_plain] by simp
next
  case (Cons b bs)
  show ?case
  proof (cases "has_type ''tool_result'' b")
    case True
    then obtain before rest where ms: "flush_text texts = Inr before" "user_blocks repr [] bs = Inr rest" "ms = before @ tool_message repr b # rest"
      using Cons.prems by (auto simp: and_then_Inr)
    then show ?thesis using Cons.IH [OF ms(2)] plain_ids [OF flush_plain [OF ms(1)]] True by (simp add: tool_message_ids del: concat_eq_Nil_conv)
  next
    case False
    then show ?thesis using Cons.prems Cons.IH by (auto split: if_splits)
  qed
qed

lemma inject_blocks_ok:
  "inject_blocks repr texts p bs = Inr (ms, p') \<Longrightarrow> filter (has_type ''tool_use'') (deferred_blocks p) = [] \<Longrightarrow>
     all_calls ms = [] \<and> all_results ms = map result_id (filter (has_type ''tool_result'') bs) \<and> (\<forall>b \<in> set bs. \<not> has_type ''image'' b) \<and>
     deferred_blocks p' = deferred_blocks p"
proof (induction bs arbitrary: texts p ms)
  case Nil
  then show ?case using plain_ids [OF flush_plain] by (cases "flush_text texts") auto
next
  case (Cons b bs)
  show ?case
  proof (cases "has_type ''tool_result'' b")
    case True
    let ?id = "if result_id b = JNull then [] else py_str repr (result_id b)"
    define p1 where "p1 = p\<lparr>remaining_tool_ids := removeAll ?id (remaining_tool_ids p)\<rparr>"
    have same: "deferred_blocks p1 = deferred_blocks p" by (simp add: p1_def)
    obtain before where before: "flush_text texts = Inr before" using Cons.prems(1) True by (auto simp: and_then_Inr)
    note run = Cons.prems(1) [unfolded inject_blocks.simps Let_def, folded result_id_def, folded p1_def]
    show ?thesis
    proof (cases "remaining_tool_ids p1 = []")
      case empty: True
      obtain deferred rest where r: "deferred_post_tool_to_messages repr p1 = Inr deferred"
        "inject_blocks repr [] (p1\<lparr>deferred_emitted := True\<rparr>) bs = Inr (rest, p')" "ms = before @ tool_message repr b # deferred @ rest"
        using run before True empty by (auto simp: and_then_Inr)
      have "\<forall>m \<in> set deferred. plain m" using deferred_plain [OF r(1)] same Cons.prems(2) by simp
      then show ?thesis
        using Cons.IH [OF r(2)] same Cons.prems(2) plain_ids [OF flush_plain [OF before]] plain_ids [of deferred] True r(3)
        by (simp add: tool_message_ids del: concat_eq_Nil_conv)
    next
      case False
      obtain rest where r: "inject_blocks repr [] p1 bs = Inr (rest, p')" "ms = before @ tool_message repr b # rest"
        using run before True False by (auto simp: and_then_Inr)
      then show ?thesis
        using Cons.IH [OF r(1)] same Cons.prems(2) plain_ids [OF flush_plain [OF before]] True by (simp add: tool_message_ids del: concat_eq_Nil_conv)
    qed
  next
    case False
    then show ?thesis using Cons.prems Cons.IH by (auto split: if_splits)
  qed
qed

subsection \<open>One message\<close>

text \<open>No tool call is put off.\<close>

definition pending_ok :: "pending_after_tools option \<Rightarrow> bool" where
  "pending_ok pending \<longleftrightarrow> (\<forall>p. pending = Some p \<longrightarrow> filter (has_type ''tool_use'') (deferred_blocks p) = [])"

lemma pending_ok_simps [simp]: "pending_ok None" "pending_ok (Some p) \<longleftrightarrow> filter (has_type ''tool_use'') (deferred_blocks p) = []"
  by (simp_all add: pending_ok_def)

text \<open>What a step says of its output: the calls and results it carries, and that the pending state stays good.\<close>

definition step_ok :: "json list \<Rightarrow> json list \<Rightarrow> py_exn + json list \<times> pending_after_tools option \<Rightarrow> bool" where
  "step_ok calls results r \<longleftrightarrow>
     (\<forall>out p. r = Inr (out, p) \<longrightarrow> all_calls out = calls \<and> all_results out = results \<and> pending_ok p)"

lemma send_deferred_ok:
  assumes "pending_ok pending" "send_deferred repr pending = Inr (before, pending1)"
  shows "all_calls before = []" "all_results before = []" "pending_ok pending1" "pending1 = None \<or> pending1 = pending"
proof -
  have "(\<forall>m \<in> set before. plain m) \<and> pending_ok pending1 \<and> (pending1 = None \<or> pending1 = pending)"
  proof (cases pending)
    case None
    then show ?thesis using assms by (simp add: send_deferred_def)
  next
    case (Some p)
    then show ?thesis
    proof (cases "needs_deferred p")
      case True
      then show ?thesis using assms Some deferred_plain [of repr p]
        by (cases "deferred_post_tool_to_messages repr p") (auto simp: send_deferred_def)
    next
      case False
      then show ?thesis using assms Some by (auto simp: send_deferred_def)
    qed
  qed
  then show "all_calls before = []" "all_results before = []" "pending_ok pending1" "pending1 = None \<or> pending1 = pending"
    using plain_ids by blast+
qed

lemma assistant_list_ok:
  assumes "pending_ok pending"
  shows "step_ok (map use_id (filter (has_type ''tool_use'') bs)) [] (assistant_list repr reasoning replay bs pending)"
  unfolding step_ok_def
proof (intro allI impI)
  fix out p
  assume run: "assistant_list repr reasoning replay bs pending = Inr (out, p)"
  then obtain before pending1 where b: "send_deferred repr pending = Inr (before, pending1)"
    by (auto simp: assistant_list_def and_then_Inr)
  note sent = send_deferred_ok [OF assms b]
  show "all_calls out = map use_id (filter (has_type ''tool_use'') bs) \<and> all_results out = [] \<and> pending_ok p"
  proof (cases "index_first_tool_use bs")
    case None
    then obtain d where "convert_assistant_message repr reasoning replay bs = Inr d" "out = before @ [JObj d]" "p = pending1"
      using run b by (auto simp: assistant_list_def and_then_Inr)
    then show ?thesis using assistant_message_ok sent by (simp del: concat_eq_Nil_conv)
  next
    case (Some i)
    then obtain new out1 where n: "convert_assistant_message_with_split repr reasoning replay bs i = Inr (out1, new)"
      "out = before @ out1" "p = (case new of None \<Rightarrow> pending1 | Some q \<Rightarrow> Some q)"
      using run b by (auto simp: assistant_list_def and_then_Inr)
    from split_ok [OF n(1) Some] obtain d where d: "out1 = [JObj d]"
      "call_ids (JObj d) = map use_id (filter (has_type ''tool_use'') bs)" "result_ids (JObj d) = []"
      "\<forall>q. new = Some q \<longrightarrow> filter (has_type ''tool_use'') (deferred_blocks q) = []" by blast
    have "pending_ok p" using n(3) d(4) sent(3) by (cases new) simp_all
    then show ?thesis using d n(2) sent(1,2) by (simp del: concat_eq_Nil_conv)
  qed
qed

lemma user_list_ok:
  assumes "pending_ok pending"
  shows "step_ok [] (map result_id (filter (has_type ''tool_result'') bs)) (user_list repr bs pending)"
  unfolding step_ok_def
proof (intro allI impI)
  fix out q
  assume run: "user_list repr bs pending = Inr (out, q)"
  have user: "all_calls ms = [] \<and> all_results ms = map result_id (filter (has_type ''tool_result'') bs)"
    if "convert_user_message repr bs = Inr ms" for ms
    using user_blocks_ok that unfolding convert_user_message_def by blast
  consider "pending = None \<or> (\<exists>p. pending = Some p \<and> \<not> needs_deferred p)"
    | p where "pending = Some p" "needs_deferred p" "remaining_tool_ids p = []"
    | p where "pending = Some p" "needs_deferred p" "remaining_tool_ids p \<noteq> []" by (cases pending) auto
  then show "all_calls out = [] \<and> all_results out = map result_id (filter (has_type ''tool_result'') bs) \<and> pending_ok q"
  proof cases
    case 1
    then have "convert_user_message repr bs = Inr out \<and> q = pending"
      using run by (cases "convert_user_message repr bs") (auto simp: user_list_def)
    then show ?thesis using user assms by blast
  next
    case (2 p)
    then obtain before ms where r: "deferred_post_tool_to_messages repr p = Inr before" "convert_user_message repr bs = Inr ms" "out = before @ ms" "q = None"
      using run by (auto simp: user_list_def and_then_Inr)
    have "\<forall>m \<in> set before. plain m" using deferred_plain [OF r(1)] assms 2(1) by simp
    then show ?thesis using user [OF r(2)] plain_ids [of before] r(3,4) by (simp del: concat_eq_Nil_conv)
  next
    case (3 p)
    then obtain p1 where r: "inject_blocks repr [] p bs = Inr (out, p1)" "q = (if deferred_emitted p1 then None else Some p1)"
      using run by (cases "inject_blocks repr [] p bs") (auto simp: user_list_def convert_user_message_with_injection_def)
    then show ?thesis using inject_blocks_ok [OF r(1)] assms 3(1) by simp
  qed
qed

lemma string_message_ok:
  assumes "pending_ok pending"
  shows "step_ok [] [] (string_message repr reasoning replay role s pending)"
  unfolding step_ok_def
proof (intro allI impI)
  fix out p
  assume run: "string_message repr reasoning replay role s pending = Inr (out, p)"
  then obtain before where b: "(if role = u ''user'' then send_deferred repr pending else Inr ([], pending)) = Inr (before, p)"
    by (auto simp: string_message_def and_then_Inr Let_def)
  have sent: "all_calls before = []" "all_results before = []" "pending_ok p"
    using b send_deferred_ok [OF assms, of repr before p] assms by (auto split: if_splits)
  obtain m where "out = before @ [m]" "plain m"
    using run b by (auto simp: string_message_def and_then_Inr Let_def plain_def call_ids_def result_ids_def split: option.splits)
  then show "all_calls out = [] \<and> all_results out = [] \<and> pending_ok p"
    using sent by (simp add: plain_def del: concat_eq_Nil_conv)
qed

lemma other_message_ok:
  assumes "pending_ok pending"
  shows "step_ok [] [] (and_then (if role = u ''user'' then send_deferred repr pending else Inr ([], pending)) (\<lambda>(before, pending1).
            Inr (before @ [JObj [(u ''role'', JStr role), (u ''content'', JStr t)]], pending1)))"
  unfolding step_ok_def
proof (intro allI impI)
  fix out p
  assume "and_then (if role = u ''user'' then send_deferred repr pending else Inr ([], pending)) (\<lambda>(before, pending1).
            Inr (before @ [JObj [(u ''role'', JStr role), (u ''content'', JStr t)]], pending1)) = Inr (out, p)"
  then obtain before where b: "(if role = u ''user'' then send_deferred repr pending else Inr ([], pending)) = Inr (before, p)"
    "out = before @ [JObj [(u ''role'', JStr role), (u ''content'', JStr t)]]"
    by (auto simp: and_then_Inr)
  have "all_calls before = []" "all_results before = []" "pending_ok p"
    using b(1) send_deferred_ok [OF assms, of repr before p] assms by (auto split: if_splits)
  then show "all_calls out = [] \<and> all_results out = [] \<and> pending_ok p"
    by (simp add: b(2) call_ids_def result_ids_def del: concat_eq_Nil_conv)
qed

lemma convert_message_ok:
  assumes "pending_ok pending"
  shows "step_ok (calls_in m) (results_in m) (convert_message repr replay m pending)"
proof (cases "cm_content m")
  case (JArr bs)
  then show ?thesis
    using assistant_list_ok [OF assms] user_list_ok [OF assms] assms
    by (auto simp: convert_message_def calls_in_def results_in_def step_ok_def)
qed (use string_message_ok [OF assms] other_message_ok [OF assms] in \<open>simp_all add: convert_message_def calls_in_def results_in_def Let_def\<close>)

lemma convert_loop_ok:
  "convert_loop repr replay ms pending = Inr out \<Longrightarrow> pending_ok pending \<Longrightarrow>
     all_calls out = concat (map calls_in ms) \<and> all_results out = concat (map results_in ms)"
proof (induction ms arbitrary: pending out)
  case Nil
  then obtain p where "send_deferred repr pending = Inr (out, p)" by (cases "send_deferred repr pending") auto
  then show ?case using send_deferred_ok Nil.prems(2) by (simp del: concat_eq_Nil_conv)
next
  case (Cons m ms)
  obtain out1 pending1 rest where r: "convert_message repr replay m pending = Inr (out1, pending1)"
    "convert_loop repr replay ms pending1 = Inr rest" "out = out1 @ rest"
    using Cons.prems(1) by (auto simp: and_then_Inr)
  have "all_calls out1 = calls_in m \<and> all_results out1 = results_in m \<and> pending_ok pending1"
    using convert_message_ok [OF Cons.prems(2)] r(1) unfolding step_ok_def by blast
  then show ?case using Cons.IH [OF r(2)] r(3) by simp
qed

text \<open>
  Whatever the conversation looks like, a conversion that succeeds keeps every tool call and
  every tool result: the converted messages carry the ids of the \<open>tool_use\<close> blocks of the assistant and of the
  \<open>tool_result\<close> blocks of the user, in their order, each once.
\<close>

theorem tools_kept_in_order:
  assumes "convert_messages repr replay messages = Inr out"
  shows "all_calls out = concat (map calls_in messages) \<and> all_results out = concat (map results_in messages)"
  using convert_loop_ok [of repr replay messages None out] assms by (simp add: convert_messages_def)

section \<open>Every call is answered where OpenAI expects it\<close>

text \<open>
  OpenAI's rule: a message with tool calls is followed at once by one tool message for each of them,
  and there are no other tool messages.
\<close>

inductive paired :: "json list \<Rightarrow> bool" where
  none: "paired []"
| other: "plain m \<Longrightarrow> paired ms \<Longrightarrow> paired (m # ms)"
| call: "call_ids m \<noteq> [] \<Longrightarrow> result_ids m = [] \<Longrightarrow> \<forall>t \<in> set ts. call_ids t = [] \<and> length (result_ids t) = 1 \<Longrightarrow>
    mset (all_results ts) = mset (call_ids m) \<Longrightarrow> paired ms \<Longrightarrow> paired (m # ts @ ms)"

text \<open>
  Anthropic's rule: an assistant message with tool uses is followed by a user message that starts
  with the results of all of them.
\<close>

definition answers :: "chat_message \<Rightarrow> chat_message \<Rightarrow> bool" where
  "answers m v \<longleftrightarrow> cm_role v = u ''user'' \<and>
     (\<exists>rs others. cm_content v = JArr (rs @ others) \<and> (\<forall>b \<in> set rs. has_type ''tool_result'' b) \<and>
        (\<forall>b \<in> set others. \<not> has_type ''tool_result'' b) \<and> mset (map result_id rs) = mset (calls_in m)) \<and>
     distinct (calls_in m) \<and> (\<forall>i \<in> set (calls_in m). \<exists>s. i = JStr s \<and> str_strip s \<noteq> [])"

inductive turns_ok :: "chat_message list \<Rightarrow> bool" where
  none: "turns_ok []"
| other: "calls_in m = [] \<Longrightarrow> results_in m = [] \<Longrightarrow> turns_ok ms \<Longrightarrow> turns_ok (m # ms)"
| call: "calls_in m \<noteq> [] \<Longrightarrow> answers m v \<Longrightarrow> turns_ok ms \<Longrightarrow> turns_ok (m # v # ms)"

lemma paired_plain: "\<forall>m \<in> set xs. plain m \<Longrightarrow> paired ms \<Longrightarrow> paired (xs @ ms)"
  by (induction xs) (auto intro: paired.other)

lemma plain_of_none: "all_calls ms = [] \<Longrightarrow> all_results ms = [] \<Longrightarrow> \<forall>m \<in> set ms. plain m"
  by (simp add: plain_def)

lemma no_call_no_pending:
  assumes "convert_message repr replay m None = Inr (out, p)" "calls_in m = []"
  shows "p = None"
proof (cases "cm_content m")
  case (JArr bs)
  show ?thesis
  proof (cases "cm_role m = u ''assistant''")
    case True
    then have "index_first_tool_use bs = None" using assms(2) JArr by (simp add: index_first_None calls_in_def)
    then show ?thesis using assms(1) JArr True
      by (auto simp: convert_message_def assistant_list_def send_deferred_def and_then_Inr)
  next
    case False
    then show ?thesis using assms(1) JArr
      by (cases "convert_user_message repr bs") (auto simp: convert_message_def user_list_def split: if_splits)
  qed
qed (use assms(1) in \<open>auto simp: convert_message_def string_message_def send_deferred_def and_then_Inr Let_def split: if_splits\<close>)

lemma user_blocks_results:
  "\<forall>b \<in> set rs. has_type ''tool_result'' b \<Longrightarrow>
     user_blocks repr [] (rs @ others) = map_sum id (\<lambda>rest. map (tool_message repr) rs @ rest) (user_blocks repr [] others)"
proof (induction rs)
  case Nil
  then show ?case by (cases "user_blocks repr [] others") simp_all
next
  case (Cons b rs)
  then show ?case by (cases "user_blocks repr [] others") (simp_all add: flush_text_def)
qed

lemma inject_no_results:
  "\<forall>b \<in> set bs. \<not> has_type ''tool_result'' b \<Longrightarrow>
     inject_blocks repr texts p bs = map_sum id (\<lambda>ms. (ms, p)) (user_blocks repr texts bs)"
  by (induction bs arbitrary: texts) simp_all

lemma plain_user_blocks:
  "user_blocks repr texts bs = Inr ms \<Longrightarrow> \<forall>b \<in> set bs. \<not> has_type ''tool_result'' b \<Longrightarrow> \<forall>m \<in> set ms. plain m"
proof -
  assume run: "user_blocks repr texts bs = Inr ms" and none: "\<forall>b \<in> set bs. \<not> has_type ''tool_result'' b"
  have "filter (has_type ''tool_result'') bs = []" using none by (simp add: filter_empty_conv)
  then show ?thesis using user_blocks_ok [OF run] by (intro plain_of_none) simp_all
qed

lemma inject_results:
  "\<forall>b \<in> set rs. has_type ''tool_result'' b \<Longrightarrow> rs \<noteq> [] \<Longrightarrow> distinct (map result_id rs) \<Longrightarrow>
     \<forall>b \<in> set rs. \<exists>s. result_id b = JStr s \<Longrightarrow> JStr ` set (remaining_tool_ids p) = result_id ` set rs \<Longrightarrow>
     \<forall>b \<in> set others. \<not> has_type ''tool_result'' b \<Longrightarrow> filter (has_type ''tool_use'') (deferred_blocks p) = [] \<Longrightarrow>
     inject_blocks repr [] p (rs @ others) = Inr (out, q) \<Longrightarrow>
     \<exists>rest. out = map (tool_message repr) rs @ rest \<and> (\<forall>m \<in> set rest. plain m) \<and> deferred_emitted q"
proof (induction rs arbitrary: p out)
  case (Cons b rs)
  obtain s where s: "result_id b = JStr s" using Cons.prems(4) by auto
  define p1 where "p1 = p\<lparr>remaining_tool_ids := removeAll s (remaining_tool_ids p)\<rparr>"
  have b: "has_type ''tool_result'' b" using Cons.prems(1) by simp
  have left: "JStr ` set (remaining_tool_ids p1) = result_id ` set rs"
  proof -
    have "JStr ` set (remaining_tool_ids p1) = JStr ` set (remaining_tool_ids p) - {JStr s}" by (auto simp: p1_def)
    also have "\<dots> = result_id ` set rs" using Cons.prems(3,5) s by auto
    finally show ?thesis .
  qed
  have step: "inject_blocks repr [] p ((b # rs) @ others) =
      (if remaining_tool_ids p1 = [] then
         and_then (deferred_post_tool_to_messages repr p1) (\<lambda>deferred.
         and_then (inject_blocks repr [] (p1\<lparr>deferred_emitted := True\<rparr>) (rs @ others)) (\<lambda>(rest, p2).
           Inr (tool_message repr b # deferred @ rest, p2)))
       else and_then (inject_blocks repr [] p1 (rs @ others)) (\<lambda>(rest, p2). Inr (tool_message repr b # rest, p2)))"
    using b s by (simp add: flush_text_def Let_def result_id_def [symmetric] p1_def py_str_def)
  note run = Cons.prems(8) [unfolded step]
  show ?case
  proof (cases "rs = []")
    case True
    then have "remaining_tool_ids p1 = []" using left by simp
    then obtain deferred rest where r: "deferred_post_tool_to_messages repr p1 = Inr deferred"
      "inject_blocks repr [] (p1\<lparr>deferred_emitted := True\<rparr>) others = Inr (rest, q)" "out = tool_message repr b # deferred @ rest"
      using run True by (auto simp: and_then_Inr)
    have "user_blocks repr [] others = Inr rest \<and> q = p1\<lparr>deferred_emitted := True\<rparr>"
      using r(2) inject_no_results [OF Cons.prems(6)] by (cases "user_blocks repr [] others") auto
    moreover have "\<forall>m \<in> set deferred. plain m" using deferred_plain [OF r(1)] Cons.prems(7) by (simp add: p1_def)
    ultimately show ?thesis using r(3) True plain_user_blocks Cons.prems(6) by (intro exI [of _ "deferred @ rest"]) auto
  next
    case False
    then have "remaining_tool_ids p1 \<noteq> []" using left by auto
    then obtain rest where r: "inject_blocks repr [] p1 (rs @ others) = Inr (rest, q)" "out = tool_message repr b # rest"
      using run by (auto simp: and_then_Inr)
    have "\<exists>rest'. rest = map (tool_message repr) rs @ rest' \<and> (\<forall>m \<in> set rest'. plain m) \<and> deferred_emitted q"
      using Cons.IH [OF _ False _ _ left Cons.prems(6) _ r(1)] Cons.prems by (simp add: p1_def)
    then show ?thesis using r(2) by auto
  qed
qed simp

lemma tool_use_ids_strings:
  assumes "\<forall>i \<in> set ids. \<exists>s. i = JStr s \<and> str_strip s \<noteq> []" "map (jget (u ''id'')) calls = ids"
  shows "JStr ` set (tool_use_ids repr calls) = set ids"
proof -
  have "filter (\<lambda>i. i \<noteq> JNull \<and> str_strip (py_str repr i) \<noteq> []) ids = ids"
    using assms(1) by (intro filter_True) (auto simp: py_str_def)
  moreover have "(JStr \<circ> py_str repr) ` set ids = set ids"
    using assms(1) by (force simp: py_str_def)
  ultimately show ?thesis using assms(2) by (simp add: tool_use_ids_def image_comp)
qed

lemma tool_messages_results: "concat (map (result_ids \<circ> tool_message repr) rs) = map result_id rs"
  by (induction rs) (simp_all add: tool_message_ids)

text \<open>One assistant turn and its answer, from no pending state to none.\<close>

lemma answered_turn:
  assumes m: "convert_message repr replay m None = Inr (out1, p1)" and v: "convert_message repr replay v p1 = Inr (out2, p2)"
    and calls: "calls_in m \<noteq> []" and ans: "answers m v"
  shows "p2 = None \<and> (paired rest \<longrightarrow> paired (out1 @ out2 @ rest))"
proof -
  obtain bs where bs: "cm_content m = JArr bs" "cm_role m = u ''assistant''" "calls_in m = map use_id (filter (has_type ''tool_use'') bs)"
    using calls by (auto simp: calls_in_def split: json.splits if_splits)
  obtain rs others where w: "cm_content v = JArr (rs @ others)" "cm_role v = u ''user''"
    "\<forall>b \<in> set rs. has_type ''tool_result'' b" "\<forall>b \<in> set others. \<not> has_type ''tool_result'' b" "mset (map result_id rs) = mset (calls_in m)"
    and ids: "distinct (calls_in m)" "\<forall>i \<in> set (calls_in m). \<exists>s. i = JStr s \<and> str_strip s \<noteq> []"
    using ans unfolding answers_def by blast
  obtain i where i: "index_first_tool_use bs = Some i" using calls bs(3) index_first_None [of bs] by auto
  obtain new where n: "convert_assistant_message_with_split repr (clean_reasoning_content (cm_reasoning_content m)) replay bs i = Inr (out1, new)"
    "p1 = new"
    using m bs i by (auto simp: convert_message_def assistant_list_def send_deferred_def and_then_Inr split: option.splits)
  from split_ok [OF n(1) i] obtain d where d: "out1 = [JObj d]" "call_ids (JObj d) = calls_in m" "result_ids (JObj d) = []"
    "\<And>p. new = Some p \<Longrightarrow> needs_deferred p \<and> filter (has_type ''tool_use'') (deferred_blocks p) = [] \<and>
       remaining_tool_ids p = tool_use_ids repr (iter_tool_uses_in_order repr bs)"
    using bs(3) by metis
  have set_ids: "set (calls_in m) = result_id ` set rs" using mset_eq_setD [OF w(5)] by simp
  have "\<exists>rest'. out2 = map (tool_message repr) rs @ rest' \<and> (\<forall>x \<in> set rest'. plain x) \<and> p2 = None"
  proof (cases p1)
    case None
    then have "user_blocks repr [] (rs @ others) = Inr out2 \<and> p2 = None"
      using v w(1,2) by (cases "user_blocks repr [] (rs @ others)") (auto simp: convert_message_def user_list_def convert_user_message_def)
    then obtain rest' where r: "user_blocks repr [] others = Inr rest'" "out2 = map (tool_message repr) rs @ rest'" "p2 = None"
      using user_blocks_results [OF w(3), of repr others] by (cases "user_blocks repr [] others") auto
    then show ?thesis using plain_user_blocks [OF r(1) w(4)] by blast
  next
    case (Some p)
    have calls_ids: "map (jget (u ''id'')) (iter_tool_uses_in_order repr bs) = calls_in m"
      by (simp add: bs(3) iter_tool_uses_in_order_def call_of_use comp_def)
    have p: "needs_deferred p" "filter (has_type ''tool_use'') (deferred_blocks p) = []" "JStr ` set (remaining_tool_ids p) = result_id ` set rs"
      using d(4) [of p] n(2) Some tool_use_ids_strings [OF ids(2) calls_ids] set_ids by auto
    have rs: "rs \<noteq> []" "distinct (map result_id rs)" "\<forall>b \<in> set rs. \<exists>s. result_id b = JStr s"
    proof -
      show "rs \<noteq> []" using calls w(5) by auto
      show "distinct (map result_id rs)" using mset_eq_imp_distinct_iff [OF w(5)] ids(1) by simp
      show "\<forall>b \<in> set rs. \<exists>s. result_id b = JStr s"
      proof
        fix b
        assume "b \<in> set rs"
        then have "result_id b \<in> set (calls_in m)" unfolding set_ids by simp
        then show "\<exists>s. result_id b = JStr s" using ids(2) by blast
      qed
    qed
    have "remaining_tool_ids p \<noteq> []" using p(3) rs(1) by auto
    then obtain q where q: "inject_blocks repr [] p (rs @ others) = Inr (out2, q)" "p2 = (if deferred_emitted q then None else Some q)"
      using v w(1,2) Some p(1) by (cases "inject_blocks repr [] p (rs @ others)")
        (auto simp: convert_message_def user_list_def convert_user_message_with_injection_def)
    from inject_results [OF w(3) rs p(3) w(4) p(2) q(1)] q(2) show ?thesis by auto
  qed
  then obtain rest' where out2: "out2 = map (tool_message repr) rs @ rest'" "\<forall>x \<in> set rest'. plain x" "p2 = None" by blast
  have "paired (JObj d # map (tool_message repr) rs @ rest' @ rest)" if "paired rest"
    using calls d(2,3) w(5) paired_plain [OF out2(2) that]
    by (intro paired.call) (auto simp: tool_message_ids tool_messages_results)
  then show ?thesis using d(1) out2 by simp
qed

lemma turns_paired:
  "turns_ok ms \<Longrightarrow> convert_loop repr replay ms None = Inr out \<Longrightarrow> paired out"
proof (induction ms arbitrary: out rule: turns_ok.induct)
  case none
  then show ?case by (simp add: send_deferred_def paired.none)
next
  case (other m ms)
  obtain out1 p1 rest where r: "convert_message repr replay m None = Inr (out1, p1)" "convert_loop repr replay ms p1 = Inr rest" "out = out1 @ rest"
    using other.prems by (auto simp: and_then_Inr)
  have "p1 = None" using no_call_no_pending [OF r(1) other.hyps(1)] .
  moreover have "\<forall>x \<in> set out1. plain x"
    using convert_message_ok [of None m repr replay] r(1) other.hyps(1,2) by (intro plain_of_none) (simp_all add: step_ok_def)
  ultimately show ?case using other.IH r(2,3) paired_plain by simp
next
  case (call m v ms)
  obtain out1 p1 out2 p2 rest where r: "convert_message repr replay m None = Inr (out1, p1)" "convert_message repr replay v p1 = Inr (out2, p2)"
    "convert_loop repr replay ms p2 = Inr rest" "out = out1 @ out2 @ rest"
    using call.prems by (auto simp: and_then_Inr)
  note turn = answered_turn [OF r(1,2) call.hyps(1,2), of rest]
  then show ?case using call.IH r(3,4) by simp
qed

text \<open>
  C7 (safety): a conversation in which every assistant turn with tool uses is answered by a user message that
  starts with all the results converts into one in which every message with tool calls is followed
  at once by its tool messages: assistant text after a tool use, thinking and user text never come between.
\<close>

theorem converted_calls_answered:
  assumes "turns_ok messages" "convert_messages repr replay messages = Inr out"
  shows "paired out"
  using turns_paired [OF assms(1)] assms(2) by (simp add: convert_messages_def)

text \<open>A conversation with a tool use, text after it, and its result.\<close>

definition text_block :: "string \<Rightarrow> json" where
  "text_block t = JObj [(u ''type'', JStr (u ''text'')), (u ''text'', JStr (u t))]"

definition use_block :: "string \<Rightarrow> json" where
  "use_block i = JObj [(u ''type'', JStr (u ''tool_use'')), (u ''id'', JStr (u i)), (u ''name'', JStr (u ''Read'')), (u ''input'', JObj [])]"

definition result_block :: "string \<Rightarrow> json" where
  "result_block i = JObj [(u ''type'', JStr (u ''tool_result'')), (u ''tool_use_id'', JStr (u i)), (u ''content'', JStr (u ''ok''))]"

definition said :: "string \<Rightarrow> json list \<Rightarrow> chat_message" where
  "said role bs = \<lparr>cm_role = u role, cm_content = JArr bs, cm_reasoning_content = JNull\<rparr>"

definition one_tool_turn :: "chat_message list" where
  "one_tool_turn =
     [said ''user'' [text_block ''go''], said ''assistant'' [use_block ''t1'', text_block ''then'', use_block ''t2''],
      said ''user'' [result_block ''t2'', result_block ''t1'', text_block ''on'']]"

definition one_tool_output :: "json list" where
  "one_tool_output = projr (convert_messages (\<lambda>_. []) THINK_TAGS one_tool_turn)"

lemma one_tool_run: "convert_messages (\<lambda>_. []) THINK_TAGS one_tool_turn = Inr one_tool_output"
proof -
  have "isl (convert_messages (\<lambda>_. []) THINK_TAGS one_tool_turn) = False" by code_simp
  then show ?thesis by (cases "convert_messages (\<lambda>_. []) THINK_TAGS one_tool_turn") (simp_all add: one_tool_output_def)
qed

lemma one_tool_turns_ok: "turns_ok one_tool_turn"
proof -
  have calls: "calls_in (said ''assistant'' [use_block ''t1'', text_block ''then'', use_block ''t2'']) = [JStr (u ''t1''), JStr (u ''t2'')]"
    by code_simp
  have "answers (said ''assistant'' [use_block ''t1'', text_block ''then'', use_block ''t2''])
      (said ''user'' [result_block ''t2'', result_block ''t1'', text_block ''on''])"
    unfolding answers_def calls
  proof (intro conjI)
    have "map result_id [result_block ''t2'', result_block ''t1''] = [JStr (u ''t2''), JStr (u ''t1'')]" by code_simp
    moreover have "list_all (has_type ''tool_result'') [result_block ''t2'', result_block ''t1''] \<and> \<not> has_type ''tool_result'' (text_block ''on'')" by code_simp
    ultimately show "\<exists>rs others. cm_content (said ''user'' [result_block ''t2'', result_block ''t1'', text_block ''on'']) = JArr (rs @ others) \<and>
        (\<forall>b \<in> set rs. has_type ''tool_result'' b) \<and> (\<forall>b \<in> set others. \<not> has_type ''tool_result'' b) \<and>
        mset (map result_id rs) = mset [JStr (u ''t1''), JStr (u ''t2'')]"
      by (intro exI [of _ "[result_block ''t2'', result_block ''t1'']"] exI [of _ "[text_block ''on'']"]) (simp add: said_def add_mset_commute)
    have "str_strip (u ''t1'') \<noteq> [] \<and> str_strip (u ''t2'') \<noteq> []" by code_simp
    then show "\<forall>i \<in> set [JStr (u ''t1''), JStr (u ''t2'')]. \<exists>s. i = JStr s \<and> str_strip s \<noteq> []" by simp
  qed (simp_all add: said_def)
  moreover have "calls_in (said ''user'' [text_block ''go'']) = []" "results_in (said ''user'' [text_block ''go'']) = []" by code_simp+
  ultimately show ?thesis
    unfolding one_tool_turn_def using calls by (intro turns_ok.other turns_ok.call turns_ok.none) simp_all
qed

theorem converted_calls_answered_witness: "paired one_tool_output"
  by (rule converted_calls_answered [OF one_tool_turns_ok one_tool_run])

theorem tools_kept_in_order_witness: "all_results one_tool_output = [JStr (u ''t2''), JStr (u ''t1'')]"
proof -
  have "concat (map results_in one_tool_turn) = [JStr (u ''t2''), JStr (u ''t1'')]" by code_simp
  then show ?thesis using tools_kept_in_order [OF one_tool_run] by simp
qed

text \<open>The text after the tool use comes after both results, before the user's own text.\<close>

lemma one_tool_roles:
  "map (jget (u ''role'')) one_tool_output =
     map (\<lambda>r. JStr (u r)) [''user'', ''assistant'', ''tool'', ''tool'', ''assistant'', ''user'']"
  by code_simp

section \<open>What is refused, and what is lost\<close>

definition refused :: "chat_message \<Rightarrow> bool" where
  "refused m \<longleftrightarrow>
     (\<exists>bs b. cm_content m = JArr bs \<and> b \<in> set bs \<and>
        (cm_role m = u ''assistant'' \<and> forbidden_assistant_block b \<or> cm_role m = u ''user'' \<and> has_type ''image'' b))"

lemma assert_blocks_ok: "assert_blocks bs = Inr x \<longleftrightarrow> (\<forall>b \<in> set bs. \<not> forbidden_assistant_block b)"
  by (induction bs) (auto simp: and_then_Inr assert_no_forbidden_assistant_block_def split: if_splits)

lemma converted_not_refused:
  assumes "convert_message repr replay m pending = Inr (out, p)" "pending_ok pending"
  shows "\<not> refused m"
proof
  assume "refused m"
  then obtain bs b where b: "cm_content m = JArr bs" "b \<in> set bs"
    "cm_role m = u ''assistant'' \<and> forbidden_assistant_block b \<or> cm_role m = u ''user'' \<and> has_type ''image'' b"
    unfolding refused_def by blast
  from b(3) show False
  proof
    assume a: "cm_role m = u ''assistant'' \<and> forbidden_assistant_block b"
    then obtain before pending1 where "send_deferred repr pending = Inr (before, pending1)"
      using assms(1) b(1) by (auto simp: convert_message_def assistant_list_def and_then_Inr)
    then have "assert_blocks (filter (\<lambda>b. \<not> has_type ''tool_use'' b) bs) = Inr () \<or> assert_blocks bs = Inr ()"
      using assms(1) b(1) a by (auto simp: convert_message_def assistant_list_def and_then_Inr split: option.splits)
    then show False using a b(2) by (auto simp: assert_blocks_ok forbidden_assistant_block_def)
  next
    assume a: "cm_role m = u ''user'' \<and> has_type ''image'' b"
    then have run: "user_list repr bs pending = Inr (out, p)" using assms(1) b(1) by (simp add: convert_message_def)
    have "(\<exists>ms. convert_user_message repr bs = Inr ms) \<or> (\<exists>q ms p'. pending = Some q \<and> inject_blocks repr [] q bs = Inr (ms, p'))"
    proof (cases pending)
      case None
      then show ?thesis using run by (cases "convert_user_message repr bs") (simp_all add: user_list_def)
    next
      case (Some q)
      then show ?thesis
        using run
        by (cases "convert_user_message repr bs"; cases "inject_blocks repr [] q bs")
          (simp_all add: user_list_def convert_user_message_with_injection_def and_then_Inr split: if_splits)
    qed
    then show False
      using user_blocks_ok inject_blocks_ok assms(2) a b(2) unfolding convert_user_message_def by (metis pending_ok_simps(2))
  qed
qed

lemma converted_none_refused:
  "convert_loop repr replay ms pending = Inr out \<Longrightarrow> pending_ok pending \<Longrightarrow> \<forall>m \<in> set ms. \<not> refused m"
proof (induction ms arbitrary: pending out)
  case (Cons m ms)
  obtain out1 pending1 rest where r: "convert_message repr replay m pending = Inr (out1, pending1)"
    "convert_loop repr replay ms pending1 = Inr rest"
    using Cons.prems(1) by (auto simp: and_then_Inr)
  have "pending_ok pending1" using convert_message_ok [OF Cons.prems(2)] r(1) unfolding step_ok_def by blast
  then show ?case using Cons.IH [OF r(2)] converted_not_refused [OF r(1) Cons.prems(2)] by simp
qed simp

text \<open>
  A conversation with an image in a user or assistant turn, or a server tool block in an assistant
  turn, is never converted: it raises.
\<close>

theorem images_refused:
  assumes "m \<in> set messages" "refused m"
  shows "\<exists>e. convert_messages repr replay messages = Inl e"
proof (cases "convert_messages repr replay messages")
  case (Inr out)
  then have "convert_loop repr replay messages None = Inr out" by (simp add: convert_messages_def)
  from converted_none_refused [OF this] show ?thesis using assms by simp
qed simp

definition image_turn :: chat_message where
  "image_turn = said ''user'' [text_block ''look'', JObj [(u ''type'', JStr (u ''image'')), (u ''source'', JObj [])]]"

theorem images_refused_witness: "\<exists>e. convert_messages (\<lambda>_. []) DISABLED [image_turn] = Inl e"
proof (rule images_refused)
  show "refused image_turn"
    unfolding refused_def image_turn_def said_def
    by (intro exI [of _ "[text_block ''look'', JObj [(u ''type'', JStr (u ''image'')), (u ''source'', JObj [])]]"]
        exI [of _ "JObj [(u ''type'', JStr (u ''image'')), (u ''source'', JObj [])]"]) (simp add: get_block_type_def get_block_attr_def)
qed simp

text \<open>Other user blocks are dropped without an error: a document never reaches the provider.\<close>

lemma document_dropped:
  "convert_messages (\<lambda>_. []) DISABLED
     [said ''user'' [JObj [(u ''type'', JStr (u ''document'')), (u ''source'', JObj [])]]] = Inr []"
  by code_simp

text \<open>A tool result after the last awaited one sends the deferred text again.\<close>

lemma deferred_sent_twice:
  "map_sum id (map (jget (u ''content'')))
     (convert_messages (\<lambda>_. []) DISABLED
        [said ''assistant'' [use_block ''t1'', text_block ''then''], said ''user'' [result_block ''t1'', result_block ''t0'']]) =
   Inr (map (\<lambda>t. JStr (u t)) [[], ''ok'', ''then'', ''ok'', ''then''])"
  by code_simp

end
