(* ===== verification/NativePolicy.thy ===== *)
theory NativePolicy
  imports Sse
begin

text \<open>
  The block policy of native Anthropic streams (\<open>core/anthropic/native_sse_block_policy.py\<close>, and the filter
  of \<open>providers/open_router/client.py\<close> around it): thinking blocks are dropped when thinking is disabled,
  blocks that overlap are closed and reopened under fresh indexes, stops the policy has already sent are
  suppressed.  An event is its name and payload; the last section reads and writes its text.
\<close>

section \<open>State\<close>

record upstream_block =
  ub_type :: pystr
  down_index :: int
  ub_open :: bool
  last_start_block :: json

record block_policy =
  np_next :: int
  by_upstream :: "(int, upstream_block) dict"
  dropped_indexes :: "int set"
  pending_suppressed_stops :: "int set"
  np_message_stopped :: bool

definition NativeSseBlockPolicyState :: block_policy where
  "NativeSseBlockPolicyState =
     \<lparr>np_next = 0, by_upstream = [], dropped_indexes = {}, pending_suppressed_stops = {}, np_message_stopped = False\<rparr>"

section \<open>Operations\<close>

fun delta_type_to_block_kind :: "json \<Rightarrow> pystr option" where
  "delta_type_to_block_kind (JStr t) =
     (if t = u ''thinking_delta'' \<or> t = u ''signature_delta'' then Some (u ''thinking'')
      else if t = u ''text_delta'' then Some (u ''text'')
      else if t = u ''input_json_delta'' then Some (u ''tool_use'')
      else None)"
| "delta_type_to_block_kind _ = None"

text \<open>\<open>f"toolu_or_{upstream_index}"\<close>; an index \<open>True\<close> is an int too.\<close>

definition fallback_tool_id :: "json \<Rightarrow> pystr" where
  "fallback_tool_id upstream =
     u ''toolu_or_'' @
       (case upstream of JBool b \<Rightarrow> if b then u ''True'' else u ''False'' | JInt i \<Rightarrow> show_int i | _ \<Rightarrow> [])"

definition synthetic_start_content_block :: "pystr \<Rightarrow> json \<Rightarrow> json \<Rightarrow> json" where
  "synthetic_start_content_block kind upstream stored =
     (if kind = u ''tool_use'' then
        if is_dict stored \<and> jget (u ''type'') stored = JStr (u ''tool_use'') then
          JObj [(u ''type'', JStr (u ''tool_use'')),
                (u ''id'', case jget (u ''id'') stored of
                   JStr i \<Rightarrow> if i = [] then JStr (fallback_tool_id upstream) else JStr i
                 | _ \<Rightarrow> JStr (fallback_tool_id upstream)),
                (u ''name'', if is_str (jget (u ''name'') stored) then jget (u ''name'') stored else JStr []),
                (u ''input'', if is_dict (jget (u ''input'') stored) then jget (u ''input'') stored else JObj [])]
        else
          JObj [(u ''type'', JStr (u ''tool_use'')), (u ''id'', JStr (fallback_tool_id upstream)),
                (u ''name'', JStr []), (u ''input'', JObj [])]
      else if kind = u ''thinking'' then JObj [(u ''type'', JStr (u ''thinking'')), (u ''thinking'', JStr [])]
      else JObj [(u ''type'', JStr (u ''text'')), (u ''text'', JStr [])])"

fun should_drop_block_type :: "bool \<Rightarrow> json \<Rightarrow> bool" where
  "should_drop_block_type thinking_enabled (JStr t) =
     (if str_startswith t (u ''redacted_thinking'') then \<not> thinking_enabled
      else \<not> thinking_enabled \<and> str_contains (u ''thinking'') t)"
| "should_drop_block_type thinking_enabled _ = False"

definition synthetic_close_other_open_blocks :: "block_policy \<Rightarrow> int \<Rightarrow> frame list \<times> block_policy" where
  "synthetic_close_other_open_blocks st current =
     (let others = filter (\<lambda>(i, b). i \<noteq> current \<and> ub_open b) (by_upstream st) in
      (map (\<lambda>(i, b). content_block_stop (down_index b)) others,
       st\<lparr>by_upstream := map (\<lambda>(i, b). (i, if i = current then b else b\<lparr>ub_open := False\<rparr>)) (by_upstream st),
          pending_suppressed_stops := pending_suppressed_stops st \<union> set (map fst others)\<rparr>))"

definition allocate_new_segment :: "block_policy \<Rightarrow> int \<Rightarrow> pystr \<Rightarrow> json \<Rightarrow> int \<times> block_policy" where
  "allocate_new_segment st upstream ty block =
     (np_next st,
      st\<lparr>np_next := np_next st + 1,
         by_upstream := dict_set upstream
           \<lparr>ub_type = ty, down_index = np_next st, ub_open = True, last_start_block = block\<rparr> (by_upstream st)\<rparr>)"

text \<open>What becomes of an event: sent on as it came, dropped, or replaced.\<close>

datatype policy_out = PassOn | Dropped | Sent "frame list"

definition policy_start :: "bool \<Rightarrow> json \<Rightarrow> block_policy \<Rightarrow> policy_out \<times> block_policy" where
  "policy_start thinking_enabled payload st =
     (let block = jget (u ''content_block'') payload in
      if \<not> is_dict block then (PassOn, st)
      else case as_int (jget (u ''index'') payload) of
        None \<Rightarrow> (PassOn, st)
      | Some upstream \<Rightarrow>
          if should_drop_block_type thinking_enabled (jget (u ''type'') block)
          then (Dropped, st\<lparr>dropped_indexes := insert upstream (dropped_indexes st)\<rparr>)
          else case jget (u ''type'') block of
            JStr ty \<Rightarrow>
              (case synthetic_close_other_open_blocks st upstream of (stops, st1) \<Rightarrow>
                 case allocate_new_segment st1 upstream ty block of (new, st2) \<Rightarrow>
                   (Sent (stops @ [(u ''content_block_start'', jset (u ''index'') (JInt new) payload)]), st2))
          | _ \<Rightarrow> (PassOn, st))"

definition synthetic_start :: "int \<Rightarrow> json \<Rightarrow> frame" where
  "synthetic_start new block =
     (u ''content_block_start'',
      JObj [(u ''type'', JStr (u ''content_block_start'')), (u ''index'', JInt new), (u ''content_block'', block)])"

definition policy_delta :: "bool \<Rightarrow> json \<Rightarrow> block_policy \<Rightarrow> policy_out \<times> block_policy" where
  "policy_delta thinking_enabled payload st =
     (let delta = jget (u ''delta'') payload; renumbered = \<lambda>i. (u ''content_block_delta'', jset (u ''index'') (JInt i) payload) in
      if \<not> is_dict delta then (PassOn, st)
      else case as_int (jget (u ''index'') payload) of
        None \<Rightarrow> (PassOn, st)
      | Some upstream \<Rightarrow>
          if upstream \<in> dropped_indexes st \<or> should_drop_block_type thinking_enabled (jget (u ''type'') delta) then (Dropped, st)
          else case delta_type_to_block_kind (jget (u ''type'') delta) of
            None \<Rightarrow> (PassOn, st)
          | Some kind \<Rightarrow>
              (case dict_get (by_upstream st) upstream of
                 Some seg \<Rightarrow>
                   if ub_open seg then (Sent [renumbered (down_index seg)], st)
                   else
                     let carry = last_start_block seg;
                         stored = (if is_dict carry \<and> jget (u ''type'') carry = JStr (u ''tool_use'') then carry else JNull)
                     in (case allocate_new_segment
                           (st\<lparr>pending_suppressed_stops := pending_suppressed_stops st - {upstream}\<rparr>) upstream kind carry of
                           (new, st1) \<Rightarrow>
                             (Sent [synthetic_start new (synthetic_start_content_block kind (jget (u ''index'') payload) stored),
                                    renumbered new], st1))
               | None \<Rightarrow>
                   if kind = u ''text'' \<or> kind = u ''tool_use'' then
                     let block = synthetic_start_content_block kind (jget (u ''index'') payload) JNull
                     in (case allocate_new_segment st upstream kind block of
                           (new, st1) \<Rightarrow> (Sent [synthetic_start new block, renumbered new], st1))
                   else (PassOn, st)))"

definition policy_stop :: "bool \<Rightarrow> json \<Rightarrow> block_policy \<Rightarrow> policy_out \<times> block_policy" where
  "policy_stop thinking_enabled payload st =
     (case as_int (jget (u ''index'') payload) of
        None \<Rightarrow> (PassOn, st)
      | Some upstream \<Rightarrow>
          if upstream \<in> dropped_indexes st then (Dropped, st)
          else if upstream \<in> pending_suppressed_stops st
          then (Dropped, st\<lparr>pending_suppressed_stops := pending_suppressed_stops st - {upstream}\<rparr>)
          else case dict_get (by_upstream st) upstream of
            Some seg \<Rightarrow>
              if ub_open seg
              then (Sent [(u ''content_block_stop'', jset (u ''index'') (JInt (down_index seg)) payload)],
                    st\<lparr>by_upstream := dict_set upstream (seg\<lparr>ub_open := False\<rparr>) (by_upstream st)\<rparr>)
              else (Dropped, st)
          | None \<Rightarrow> if thinking_enabled then (PassOn, st) else (Dropped, st))"

definition policy_event :: "bool \<Rightarrow> frame \<Rightarrow> block_policy \<Rightarrow> policy_out \<times> block_policy" where
  "policy_event thinking_enabled ev st =
     (case ev of (name, payload) \<Rightarrow>
        if name = u ''content_block_start'' then policy_start thinking_enabled payload st
        else if name = u ''content_block_delta'' then policy_delta thinking_enabled payload st
        else if name = u ''content_block_stop'' then policy_stop thinking_enabled payload st
        else (PassOn, st))"

fun policy_frames :: "frame \<Rightarrow> policy_out \<Rightarrow> frame list" where
  "policy_frames ev PassOn = [ev]"
| "policy_frames ev Dropped = []"
| "policy_frames ev (Sent fs) = fs"

text \<open>A whole stream through the policy: the frames that go out and the final state.\<close>

fun policy_run :: "bool \<Rightarrow> frame list \<Rightarrow> block_policy \<Rightarrow> frame list \<times> block_policy" where
  "policy_run thinking_enabled [] st = ([], st)"
| "policy_run thinking_enabled (ev # evs) st =
     (case policy_event thinking_enabled ev st of (out, st1) \<Rightarrow>
        case policy_run thinking_enabled evs st1 of (fs, st2) \<Rightarrow> (policy_frames ev out @ fs, st2))"


section \<open>What the contract says of block events\<close>

lemma is_dictE: "is_dict j \<Longrightarrow> (\<And>d. j = JObj d \<Longrightarrow> P) \<Longrightarrow> P"
  by (cases j) auto

lemma json_ok_jget: "json_ok (JObj d) \<Longrightarrow> json_ok (jget k (JObj d))"
  by (auto split: option.splits dest!: dict_get_in_set)

text \<open>\<open>str(v)\<close> is a word that starts in lower case only for a string.\<close>

lemma text_of_word:
  assumes "StreamContract.text_of j = Some t" "json_ok j" "hd t \<in> set (u ''tirsw'')"
  shows "j = JStr t"
proof (cases j)
  case (JBool b)
  then show ?thesis using assms by (cases b) (auto simp: u_def)
next
  case (JInt i)
  then show ?thesis using assms show_int_head [of i] by (auto simp: is_digit_def u_def)
qed (use assms in \<open>auto simp: u_def\<close>)

lemma typed_text:
  assumes "json_ok (JObj d)" "StreamContract.text_of (jget_default (u ''type'') (JStr []) (JObj d)) = Some t"
    and "t \<noteq> []" "hd t \<in> set (u ''tirsw'')"
  shows "jget (u ''type'') (JObj d) = JStr t"
proof (cases "dict_get d (u ''type'')")
  case (Some v)
  then have "json_ok v" using json_ok_jget [OF assms(1), of "u ''type''"] by simp
  then show ?thesis using text_of_word assms(2,4) Some by simp
qed (use assms in simp)

definition delta_rules :: "(pystr \<times> pystr) set" where
  "delta_rules = {(u ''thinking'', u ''thinking_delta''), (u ''thinking'', u ''signature_delta''),
     (u ''text'', u ''text_delta''), (u ''tool_use'', u ''input_json_delta'')}"

definition starts_block :: "json \<Rightarrow> int \<Rightarrow> json \<Rightarrow> pystr \<Rightarrow> bool" where
  "starts_block data i block t \<longleftrightarrow>
     as_int (jget (u ''index'') data) = Some i \<and> jget (u ''content_block'') data = block \<and> is_dict block \<and>
     jget (u ''type'') block = JStr t \<and> t \<in> set ALLOWED_BLOCK_START_TYPES"

definition sends_delta :: "json \<Rightarrow> int \<Rightarrow> json \<Rightarrow> pystr \<Rightarrow> bool" where
  "sends_delta data i delta t \<longleftrightarrow>
     as_int (jget (u ''index'') data) = Some i \<and> jget (u ''delta'') data = delta \<and> is_dict delta \<and> jget (u ''type'') delta = JStr t"

lemma jget_default_dict: "is_dict (jget_default k (JObj []) (JObj d)) \<Longrightarrow> jget_default k (JObj []) (JObj d) \<noteq> JObj [] \<Longrightarrow>
    jget_default k (JObj []) (JObj d) = jget k (JObj d)"
  by (auto split: option.splits)

lemma index_is_dict: "as_int (jget k data) = Some i \<Longrightarrow> is_dict data"
  by (cases data) auto

lemma start_okD:
  assumes "contract_step a (u ''content_block_start'', data) c = Inr c'" "json_ok data"
  obtains i block t where "starts_block data i block t" "dict_get (open_blocks c) i = None" "i \<notin> seen_blocks c"
    "c' = c\<lparr>open_blocks := dict_set i (block_storage t block) (open_blocks c), seen_blocks := insert i (seen_blocks c)\<rparr>"
proof -
  let ?block = "jget_default (u ''content_block'') (JObj []) data"
  obtain i t where r: "as_int (jget (u ''index'') data) = Some i" "is_dict ?block"
    "StreamContract.text_of (jget_default (u ''type'') (JStr []) ?block) = Some t" "t \<in> set ALLOWED_BLOCK_START_TYPES"
    "dict_get (open_blocks c) i = None" "i \<notin> seen_blocks c"
    "c' = c\<lparr>open_blocks := dict_set i (block_storage t ?block) (open_blocks c), seen_blocks := insert i (seen_blocks c)\<rparr>"
    using assms(1) by (auto simp: contract_step_def contract_start_def event_index_def Let_def split: option.splits if_splits)
  have t: "t \<noteq> []" "hd t \<in> set (u ''tirsw'')"
    using r(4) by (auto simp: ALLOWED_BLOCK_START_TYPES_def SERVER_TOOL_USE_def WEB_SEARCH_TOOL_RESULT_def WEB_FETCH_TOOL_RESULT_def u_def)
  obtain d where d: "data = JObj d" using index_is_dict [OF r(1)] by (cases data) auto
  have "?block \<noteq> JObj []" using r(3) t(1) by auto
  then have block: "?block = jget (u ''content_block'') data" using jget_default_dict r(2) d by blast
  moreover have "json_ok (jget (u ''content_block'') data)" using json_ok_jget assms(2) d by blast
  moreover obtain bd where "?block = JObj bd" using r(2) by (rule is_dictE)
  ultimately have "?block = JObj bd" "json_ok (JObj bd)" by simp_all
  then have "jget (u ''type'') ?block = JStr t" using typed_text r(3) t by metis
  then have "starts_block data i ?block t" using r block unfolding starts_block_def by simp
  with r(5-7) that show ?thesis by blast
qed

lemma start_at:
  assumes "starts_block data i block t" "dict_get (open_blocks c) i = None" "i \<notin> seen_blocks c"
  shows "contract_step a (u ''content_block_start'', data) c =
    Inr (c\<lparr>open_blocks := dict_set i (block_storage t block) (open_blocks c), seen_blocks := insert i (seen_blocks c)\<rparr>)"
proof -
  obtain d bd where "data = JObj d" "block = JObj bd"
    using assms(1) unfolding starts_block_def by (cases data; cases block) auto
  then show ?thesis
    using assms unfolding starts_block_def
    by (auto simp: contract_step_def contract_start_def event_index_def Let_def split: option.splits)
qed

lemma delta_okD:
  assumes "contract_step a (u ''content_block_delta'', data) c = Inr c'" "json_ok data"
  obtains i delta t k where "sends_delta data i delta t" "dict_get (open_blocks c) i = Some k" "(k, t) \<in> delta_rules" "c' = c"
proof -
  let ?delta = "jget_default (u ''delta'') (JObj []) data"
  let ?t = "StreamContract.text_of (jget_default (u ''type'') (JStr []) ?delta)"
  have run: "contract_delta data c = Inr c'" using assms(1) by (simp add: contract_step_def)
  obtain i where i: "as_int (jget (u ''index'') data) = Some i"
    using run by (cases "as_int (jget (u ''index'') data)") (simp_all add: contract_delta_def event_index_def)
  obtain k where k: "dict_get (open_blocks c) i = Some k"
    using run i by (cases "dict_get (open_blocks c) i") (simp_all add: contract_delta_def event_index_def)
  have "is_dict ?delta \<and> c' = c \<and>
      (if k = u ''thinking'' then ?t \<in> {Some (u ''thinking_delta''), Some (u ''signature_delta'')}
       else expected_delta k \<noteq> None \<and> ?t = expected_delta k)"
    using run i k by (simp add: contract_delta_def event_index_def Let_def split: if_splits option.splits)
  moreover from this obtain t where t: "?t = Some t" by (cases ?t) (simp_all split: if_splits)
  ultimately have "is_dict ?delta" "c' = c" "(k, t) \<in> delta_rules"
    by (simp_all add: delta_rules_def expected_delta_def split: if_splits)
  note r = i k this(1) t this(3,2)
  have t: "t \<noteq> []" "hd t \<in> set (u ''tirsw'')" using r(5) by (auto simp: delta_rules_def u_def)
  obtain d where d: "data = JObj d" using index_is_dict [OF r(1)] by (cases data) auto
  have "?delta \<noteq> JObj []" using r(4) t(1) by auto
  then have delta: "?delta = jget (u ''delta'') data" using jget_default_dict r(3) d by blast
  moreover have "json_ok (jget (u ''delta'') data)" using json_ok_jget assms(2) d by blast
  moreover obtain bd where "?delta = JObj bd" using r(3) by (rule is_dictE)
  ultimately have "?delta = JObj bd" "json_ok (JObj bd)" by simp_all
  then have "jget (u ''type'') ?delta = JStr t" using typed_text r(4) t by metis
  then have "sends_delta data i ?delta t" using r delta unfolding sends_delta_def by simp
  with r(2,5,6) that show ?thesis by blast
qed

lemma delta_at:
  assumes "sends_delta data i delta t" "dict_get (open_blocks c) i = Some k" "(k, t) \<in> delta_rules"
  shows "contract_step a (u ''content_block_delta'', data) c = Inr c"
proof -
  obtain d bd where "data = JObj d" "delta = JObj bd"
    using assms(1) unfolding sends_delta_def by (cases data; cases delta) auto
  then show ?thesis
    using assms unfolding sends_delta_def delta_rules_def
    by (auto simp: contract_step_def contract_delta_def event_index_def Let_def expected_delta_def NO_DELTA_BLOCK_KINDS_def
        SERVER_TOOL_USE_def WEB_SEARCH_TOOL_RESULT_def WEB_FETCH_TOOL_RESULT_def split: option.splits)
qed

lemma stop_okD:
  assumes "contract_step a (u ''content_block_stop'', data) c = Inr c'"
  obtains i k where "as_int (jget (u ''index'') data) = Some i" "dict_get (open_blocks c) i = Some k"
    "c' = c\<lparr>open_blocks := dict_pop i (open_blocks c)\<rparr>"
  using assms by (auto simp: contract_step_def contract_stop_def event_index_def split: option.splits)

lemma stop_at:
  "as_int (jget (u ''index'') data) = Some i \<Longrightarrow> dict_get (open_blocks c) i = Some k \<Longrightarrow>
     contract_step a (u ''content_block_stop'', data) c = Inr (c\<lparr>open_blocks := dict_pop i (open_blocks c)\<rparr>)"
  by (simp add: contract_step_def contract_stop_def event_index_def)

lemma jget_renumbered: "is_dict data \<Longrightarrow> jget k (jset k' v data) = (if k = k' then v else jget k data)"
  by (cases data) (simp_all add: dict_simps)

lemma renumbered_starts: "starts_block data i block t \<Longrightarrow> starts_block (jset (u ''index'') (JInt n) data) n block t"
  unfolding starts_block_def using index_is_dict [of "u ''index''" data i] by (simp add: jget_renumbered)

lemma renumbered_delta: "sends_delta data i delta t \<Longrightarrow> sends_delta (jset (u ''index'') (JInt n) data) n delta t"
  unfolding sends_delta_def using index_is_dict [of "u ''index''" data i] by (simp add: jget_renumbered)


section \<open>The policy against the contract\<close>

text \<open>
  What ties the provider's blocks to the client's, on the maps: \<open>ou\<close> and \<open>su\<close> are the open and the
  seen blocks of the provider's stream, \<open>od\<close> and \<open>sd\<close> those of the client's, \<open>B\<close>, \<open>D\<close>, \<open>P\<close>, \<open>n\<close> the policy's state.
\<close>

definition tracked :: "bool \<Rightarrow> (int \<Rightarrow> pystr option) \<Rightarrow> int set \<Rightarrow> (int \<Rightarrow> upstream_block option) \<Rightarrow> int set \<Rightarrow> int set \<Rightarrow>
    int \<Rightarrow> (int \<Rightarrow> pystr option) \<Rightarrow> int set \<Rightarrow> bool" where
  "tracked thinking_enabled ou su B D P n od sd \<longleftrightarrow>
     su = dom B \<union> D \<and> dom B \<inter> D = {} \<and> dom ou \<subseteq> su \<and> 0 \<le> n \<and> sd = {0..<n} \<and>
     (\<forall>i seg. B i = Some seg \<longrightarrow> down_index seg \<in> sd) \<and>
     (\<forall>i i' seg seg'. B i = Some seg \<longrightarrow> B i' = Some seg' \<longrightarrow> down_index seg = down_index seg' \<longrightarrow> i = i') \<and>
     (\<forall>i seg. B i = Some seg \<longrightarrow> ub_open seg \<longrightarrow> ou i \<noteq> None \<and> od (down_index seg) = ou i) \<and>
     (\<forall>j. od j \<noteq> None \<longrightarrow> (\<exists>i seg. B i = Some seg \<and> ub_open seg \<and> down_index seg = j)) \<and>
     (\<forall>i. i \<in> P \<longleftrightarrow> (\<exists>seg. B i = Some seg \<and> \<not> ub_open seg \<and> ou i \<noteq> None)) \<and>
     (\<not> thinking_enabled \<longrightarrow> (\<forall>i \<in> dom B. ou i \<noteq> Some (u ''thinking''))) \<and>
     (\<forall>i \<in> D. \<not> thinking_enabled \<and> ou i \<in> {None, Some (u ''thinking''), Some (u ''redacted_thinking'')})"

lemma trackedI:
  assumes "su = dom B \<union> D" "dom B \<inter> D = {}" "dom ou \<subseteq> su" "0 \<le> n" "sd = {0..<n}"
    and "\<And>i seg. B i = Some seg \<Longrightarrow> down_index seg \<in> sd"
    and "\<And>i i' seg seg'. B i = Some seg \<Longrightarrow> B i' = Some seg' \<Longrightarrow> down_index seg = down_index seg' \<Longrightarrow> i = i'"
    and "\<And>i seg. B i = Some seg \<Longrightarrow> ub_open seg \<Longrightarrow> ou i \<noteq> None \<and> od (down_index seg) = ou i"
    and "\<And>j. od j \<noteq> None \<Longrightarrow> \<exists>i seg. B i = Some seg \<and> ub_open seg \<and> down_index seg = j"
    and "\<And>i. i \<in> P \<longleftrightarrow> (\<exists>seg. B i = Some seg \<and> \<not> ub_open seg \<and> ou i \<noteq> None)"
    and "\<And>i seg. \<not> th \<Longrightarrow> B i = Some seg \<Longrightarrow> ou i \<noteq> Some (u ''thinking'')"
    and "\<And>i. i \<in> D \<Longrightarrow> \<not> th \<and> ou i \<in> {None, Some (u ''thinking''), Some (u ''redacted_thinking'')}"
  shows "tracked th ou su B D P n od sd"
  unfolding tracked_def using assms by (intro conjI allI impI ballI) (blast | simp)+

lemma trackedD:
  assumes "tracked th ou su B D P n od sd"
  shows "su = dom B \<union> D" "dom B \<inter> D = {}" "dom ou \<subseteq> su" "0 \<le> n" "sd = {0..<n}"
    and "\<And>i seg. B i = Some seg \<Longrightarrow> down_index seg \<in> sd"
    and "\<And>i i' seg seg'. B i = Some seg \<Longrightarrow> B i' = Some seg' \<Longrightarrow> down_index seg = down_index seg' \<Longrightarrow> i = i'"
    and "\<And>i seg. B i = Some seg \<Longrightarrow> ub_open seg \<Longrightarrow> ou i \<noteq> None \<and> od (down_index seg) = ou i"
    and "\<And>j. od j \<noteq> None \<Longrightarrow> \<exists>i seg. B i = Some seg \<and> ub_open seg \<and> down_index seg = j"
    and "\<And>i. i \<in> P \<longleftrightarrow> (\<exists>seg. B i = Some seg \<and> \<not> ub_open seg \<and> ou i \<noteq> None)"
    and "\<And>i seg. \<not> th \<Longrightarrow> B i = Some seg \<Longrightarrow> ou i \<noteq> Some (u ''thinking'')"
    and "\<And>i. i \<in> D \<Longrightarrow> \<not> th \<and> ou i \<in> {None, Some (u ''thinking''), Some (u ''redacted_thinking'')}"
  using assms unfolding tracked_def by (blast | simp)+

lemma tracked_init: "tracked th (\<lambda>_. None) {} (\<lambda>_. None) {} {} 0 (\<lambda>_. None) {}"
  by (simp add: tracked_def)

lemma tracked_drop:
  assumes "tracked th ou su B D P n od sd" "i \<notin> su" "\<not> th" "k \<in> {u ''thinking'', u ''redacted_thinking''}"
  shows "tracked th (ou(i \<mapsto> k)) (insert i su) B (insert i D) P n od sd"
proof -
  note d = trackedD [OF assms(1)]
  have i: "B i = None" using assms(2) d(1) by auto
  show ?thesis
  proof (rule trackedI)
    show "j \<in> P \<longleftrightarrow> (\<exists>seg. B j = Some seg \<and> \<not> ub_open seg \<and> (ou(i \<mapsto> k)) j \<noteq> None)" for j using d(10) [of j] i by auto
    show "(ou(i \<mapsto> k)) j \<noteq> None \<and> od (down_index seg) = (ou(i \<mapsto> k)) j" if "B j = Some seg" "ub_open seg" for j seg
      using d(8) [OF that] i that by auto
    show "(ou(i \<mapsto> k)) j \<noteq> Some (u ''thinking'')" if "\<not> th" "B j = Some seg" for j seg using d(11) [OF that] i that by auto
    show "\<not> th \<and> (ou(i \<mapsto> k)) j \<in> {None, Some (u ''thinking''), Some (u ''redacted_thinking'')}" if "j \<in> insert i D" for j
      using that d(12) [of j] assms(3,4) by auto
  qed (use d(1-7,9) i in auto)
qed

lemma tracked_close:
  assumes "tracked th ou su B D P n od sd"
  shows "tracked th ou su (\<lambda>i. map_option (\<lambda>b. if i = cur then b else b\<lparr>ub_open := False\<rparr>) (B i)) D
     (P \<union> {i. i \<noteq> cur \<and> (\<exists>b. B i = Some b \<and> ub_open b)}) n
     (\<lambda>j. if \<exists>i b. i \<noteq> cur \<and> B i = Some b \<and> ub_open b \<and> down_index b = j then None else od j) sd"
    (is "tracked th ou su ?B D ?P n ?od sd")
proof -
  note d = trackedD [OF assms]
  have B: "?B i = Some seg \<longleftrightarrow> (\<exists>b. B i = Some b \<and> seg = (if i = cur then b else b\<lparr>ub_open := False\<rparr>))" for i seg by auto
  show ?thesis
  proof (rule trackedI)
    show "su = dom ?B \<union> D" "dom ?B \<inter> D = {}" using d(1,2) by (auto simp: dom_def)
    show "down_index seg \<in> sd" if "?B i = Some seg" for i seg using that d(6) unfolding B by (auto split: if_splits)
    show "i = i'" if "?B i = Some seg" "?B i' = Some seg'" "down_index seg = down_index seg'" for i i' seg seg'
    proof -
      have "\<exists>b. B i = Some b \<and> down_index b = down_index seg" if "?B i = Some seg" for i seg
        using that unfolding B by auto
      with that obtain b b' where "B i = Some b" "B i' = Some b'" "down_index b = down_index b'" by metis
      then show ?thesis by (rule d(7))
    qed
    show "ou i \<noteq> None \<and> ?od (down_index seg) = ou i" if got: "?B i = Some seg" "ub_open seg" for i seg
    proof -
      obtain b where b: "B i = Some b" "seg = (if i = cur then b else b\<lparr>ub_open := False\<rparr>)" using got(1) unfolding B by blast
      have i: "i = cur" "B i = Some seg" using got(2) b by (simp_all split: if_splits)
      then have "\<not> (\<exists>i' b. i' \<noteq> cur \<and> B i' = Some b \<and> ub_open b \<and> down_index b = down_index seg)" using d(7) by blast
      then have "?od (down_index seg) = od (down_index seg)" by (rule if_not_P)
      then show ?thesis using d(8) [OF i(2) got(2)] by metis
    qed
    show "\<exists>i seg. ?B i = Some seg \<and> ub_open seg \<and> down_index seg = j" if got: "?od j \<noteq> None" for j
    proof -
      obtain i seg where i: "B i = Some seg" "ub_open seg" "down_index seg = j" using got d(9) [of j] by (auto split: if_splits)
      then have "i = cur" using got by (auto split: if_splits)
      with i show ?thesis unfolding B by auto
    qed
    show "i \<in> ?P \<longleftrightarrow> (\<exists>seg. ?B i = Some seg \<and> \<not> ub_open seg \<and> ou i \<noteq> None)" for i
    proof (cases "B i")
      case (Some b)
      then show ?thesis using d(8) [of i b] d(10) [of i] by auto
    qed (use d(10) [of i] in auto)
    show "ou i \<noteq> Some (u ''thinking'')" if "\<not> th" "?B i = Some seg" for i seg using that d(11) unfolding B by auto
  qed (use d(3-5,12) in auto)
qed

lemma segment_start:
  assumes "tracked th ou su B D P n od sd" "i \<notin> su" "th \<or> k \<noteq> u ''thinking''"
  shows "tracked th (ou(i \<mapsto> k)) (insert i su) (B(i \<mapsto> \<lparr>ub_type = ty, down_index = n, ub_open = True, last_start_block = b\<rparr>))
     D P (n + 1) (od(n \<mapsto> k)) (insert n sd)"
    (is "tracked th ?ou _ ?B D P _ ?od _")
proof -
  note d = trackedD [OF assms(1)]
  have i: "B i = None" "i \<notin> D" using assms(2) d(1) by auto
  have low: "down_index seg \<noteq> n" if "B j = Some seg" for j seg using d(5) d(6) [OF that] by simp
  show ?thesis
  proof (rule trackedI)
    show "down_index seg \<in> insert n sd" if "?B j = Some seg" for j seg using that d(6) [of j] by (cases "j = i") auto
    show "j = j'" if "?B j = Some seg" "?B j' = Some seg'" "down_index seg = down_index seg'" for j j' seg seg'
      using that low [of j seg] low [of j' seg'] d(7) [of j seg j' seg'] by (cases "j = i"; cases "j' = i") auto
    show "?ou j \<noteq> None \<and> ?od (down_index seg) = ?ou j" if "?B j = Some seg" "ub_open seg" for j seg
      using that low [of j seg] d(8) [of j seg] by (cases "j = i") auto
    show "\<exists>j' seg. ?B j' = Some seg \<and> ub_open seg \<and> down_index seg = j" if got: "?od j \<noteq> None" for j
    proof (cases "j = n")
      case False
      then obtain j' seg where "B j' = Some seg" "ub_open seg" "down_index seg = j" using got d(9) [of j] by auto
      then show ?thesis using i(1) by (intro exI [of _ j']) auto
    qed (auto intro!: exI [of _ i])
    show "j \<in> P \<longleftrightarrow> (\<exists>seg. ?B j = Some seg \<and> \<not> ub_open seg \<and> ?ou j \<noteq> None)" for j
      using d(10) [of j] i by (cases "j = i") auto
    show "?ou j \<noteq> Some (u ''thinking'')" if "\<not> th" "?B j = Some seg" for j seg
      using that assms(3) d(11) [of j seg] by (cases "j = i") auto
    show "\<not> th \<and> ?ou j \<in> {None, Some (u ''thinking''), Some (u ''redacted_thinking'')}" if "j \<in> D" for j
      using that d(12) [of j] i by auto
  qed (use d(1-5) i in auto)
qed

lemma tracked_reopen:
  assumes "tracked th ou su B D P n od sd" "B i = Some seg" "\<not> ub_open seg" "ou i = Some k"
  shows "tracked th ou su (B(i \<mapsto> \<lparr>ub_type = ty, down_index = n, ub_open = True, last_start_block = b\<rparr>))
     D (P - {i}) (n + 1) (od(n \<mapsto> k)) (insert n sd)"
    (is "tracked th ou su ?B D _ _ ?od _")
proof -
  note d = trackedD [OF assms(1)]
  have low: "down_index seg \<noteq> n" if "B j = Some seg" for j seg using d(5) d(6) [OF that] by simp
  show ?thesis
  proof (rule trackedI)
    show "down_index seg \<in> insert n sd" if "?B j = Some seg" for j seg using that d(6) [of j] by (cases "j = i") auto
    show "j = j'" if "?B j = Some seg" "?B j' = Some seg'" "down_index seg = down_index seg'" for j j' seg seg'
      using that low [of j seg] low [of j' seg'] d(7) [of j seg j' seg'] by (cases "j = i"; cases "j' = i") auto
    show "ou j \<noteq> None \<and> ?od (down_index seg) = ou j" if "?B j = Some seg" "ub_open seg" for j seg
      using that low [of j seg] d(8) [of j seg] assms(4) by (cases "j = i") auto
    show "\<exists>j' seg. ?B j' = Some seg \<and> ub_open seg \<and> down_index seg = j" if got: "?od j \<noteq> None" for j
    proof (cases "j = n")
      case False
      then obtain j' seg' where "B j' = Some seg'" "ub_open seg'" "down_index seg' = j" using got d(9) [of j] by auto
      then show ?thesis using assms(2,3) by (intro exI [of _ j']) auto
    qed (auto intro!: exI [of _ i])
    show "j \<in> P - {i} \<longleftrightarrow> (\<exists>seg. ?B j = Some seg \<and> \<not> ub_open seg \<and> ou j \<noteq> None)" for j
      using d(10) [of j] by (cases "j = i") auto
    show "ou j \<noteq> Some (u ''thinking'')" if "\<not> th" "?B j = Some seg'" for j seg'
      using that d(11) [of j seg'] d(11) [of i seg] assms(2) by (cases "j = i") auto
  qed (use d(1-5,12) assms(2) in auto)
qed

lemma tracked_stop_dropped:
  assumes "tracked th ou su B D P n od sd" "i \<in> D"
  shows "tracked th (ou(i := None)) su B D P n od sd"
proof -
  note d = trackedD [OF assms(1)]
  have i: "B i = None" using assms(2) d(2) by auto
  show ?thesis
  proof (rule trackedI)
    show "j \<in> P \<longleftrightarrow> (\<exists>seg. B j = Some seg \<and> \<not> ub_open seg \<and> (ou(i := None)) j \<noteq> None)" for j
      using d(10) [of j] i by auto
    show "(ou(i := None)) j \<noteq> None \<and> od (down_index seg) = (ou(i := None)) j" if "B j = Some seg" "ub_open seg" for j seg
      using d(8) [OF that] that i by auto
  qed (use d(1-7,9,11,12) in auto)
qed

lemma tracked_stop_pending:
  assumes "tracked th ou su B D P n od sd" "i \<in> P"
  shows "tracked th (ou(i := None)) su B D (P - {i}) n od sd"
proof -
  note d = trackedD [OF assms(1)]
  obtain b where b: "B i = Some b" "\<not> ub_open b" using assms(2) d(10) by blast
  show ?thesis
  proof (rule trackedI)
    show "j \<in> P - {i} \<longleftrightarrow> (\<exists>seg. B j = Some seg \<and> \<not> ub_open seg \<and> (ou(i := None)) j \<noteq> None)" for j
      using d(10) [of j] by auto
    show "(ou(i := None)) j \<noteq> None \<and> od (down_index seg) = (ou(i := None)) j" if "B j = Some seg" "ub_open seg" for j seg
      using d(8) [OF that] that b by auto
  qed (use d(1-7,9,11,12) in auto)
qed

lemma segment_stop:
  assumes "tracked th ou su B D P n od sd" "B i = Some seg" "ub_open seg"
  shows "tracked th (ou(i := None)) su (B(i \<mapsto> seg\<lparr>ub_open := False\<rparr>)) D P n (od(down_index seg := None)) sd"
    (is "tracked th ?ou su ?B D P n ?od sd")
proof -
  note d = trackedD [OF assms(1)]
  show ?thesis
  proof (rule trackedI)
    show "down_index seg' \<in> sd" if "?B j = Some seg'" for j seg' using that d(6) [of j] d(6) [OF assms(2)] by (cases "j = i") auto
    show "j = j'" if "?B j = Some s1" "?B j' = Some s2" "down_index s1 = down_index s2" for j j' s1 s2
    proof -
      have "\<exists>b. B j = Some b \<and> down_index b = down_index s" if "?B j = Some s" for j s
        using that assms(2) by (cases "j = i") auto
      with that obtain b b' where "B j = Some b" "B j' = Some b'" "down_index b = down_index b'" by metis
      then show ?thesis by (rule d(7))
    qed
    show "?ou j \<noteq> None \<and> ?od (down_index seg') = ?ou j" if "?B j = Some seg'" "ub_open seg'" for j seg'
      using that d(8) [of j seg'] d(7) [OF assms(2), of j seg'] by (cases "j = i") auto
    show "\<exists>j' seg'. ?B j' = Some seg' \<and> ub_open seg' \<and> down_index seg' = j" if "?od j \<noteq> None" for j
    proof -
      have "j \<noteq> down_index seg" "od j \<noteq> None" using that by (auto split: if_splits)
      then obtain j' seg' where j': "B j' = Some seg'" "ub_open seg'" "down_index seg' = j" using d(9) by blast
      then have "j' \<noteq> i" using assms(2) \<open>j \<noteq> down_index seg\<close> by auto
      then show ?thesis using j' by (intro exI [of _ j']) auto
    qed
    show "j \<in> P \<longleftrightarrow> (\<exists>seg'. ?B j = Some seg' \<and> \<not> ub_open seg' \<and> ?ou j \<noteq> None)" for j
      using d(10) [of j] assms(2,3) by (cases "j = i") auto
    show "?ou j \<noteq> Some (u ''thinking'')" if "\<not> th" "?B j = Some seg'" for j seg'
      using that d(11) [of j seg'] by (cases "j = i") auto
  qed (use d(1-5,12) assms(2) in auto)
qed

definition tracks :: "bool \<Rightarrow> contract_state \<Rightarrow> block_policy \<Rightarrow> contract_state \<Rightarrow> bool" where
  "tracks thinking_enabled cu st cd \<longleftrightarrow>
     dict_wf (by_upstream st) \<and>
     tracked thinking_enabled (dict_get (open_blocks cu)) (seen_blocks cu) (dict_get (by_upstream st)) (dropped_indexes st)
       (pending_suppressed_stops st) (np_next st) (dict_get (open_blocks cd)) (seen_blocks cd)"

lemma tracks_init: "tracks th contract_init NativeSseBlockPolicyState contract_init"
  by (simp add: tracks_def contract_init_def NativeSseBlockPolicyState_def tracked_def)

lemma stops_run:
  "distinct js \<Longrightarrow> \<forall>j \<in> set js. dict_get (open_blocks c) j \<noteq> None \<Longrightarrow>
     \<exists>c'. contract_run a (map content_block_stop js) c = Inr c' \<and> seen_blocks c' = seen_blocks c \<and>
       dict_get (open_blocks c') = (\<lambda>j. if j \<in> set js then None else dict_get (open_blocks c) j)"
proof (induction js arbitrary: c)
  case (Cons j js)
  let ?c = "c\<lparr>open_blocks := dict_pop j (open_blocks c)\<rparr>"
  obtain k where "dict_get (open_blocks c) j = Some k" using Cons.prems(2) by auto
  then have step: "contract_step a (content_block_stop j) c = Inr ?c" by (rule stop_frame_step)
  have "\<forall>j' \<in> set js. dict_get (open_blocks ?c) j' \<noteq> None" using Cons.prems by (auto simp: dict_simps)
  then obtain c' where "contract_run a (map content_block_stop js) ?c = Inr c'" "seen_blocks c' = seen_blocks ?c"
    "dict_get (open_blocks c') = (\<lambda>j'. if j' \<in> set js then None else dict_get (open_blocks ?c) j')"
    using Cons.IH [of ?c] Cons.prems(1) by auto
  then show ?case using step by (intro exI [of _ c']) (auto simp: dict_simps)
qed simp

lemma close_others_run:
  assumes "tracks th cu st cd" "synthetic_close_other_open_blocks st cur = (stops, st1)"
  shows "\<exists>cd1. contract_run a stops cd = Inr cd1 \<and> tracks th cu st1 cd1 \<and> np_next st1 = np_next st \<and>
    dict_keys (by_upstream st1) = dict_keys (by_upstream st)"
proof -
  let ?B = "by_upstream st" let ?others = "filter (\<lambda>(i, b). i \<noteq> cur \<and> ub_open b) ?B"
  have wf: "dict_wf ?B" and tr: "tracked th (dict_get (open_blocks cu)) (seen_blocks cu) (dict_get ?B) (dropped_indexes st)
      (pending_suppressed_stops st) (np_next st) (dict_get (open_blocks cd)) (seen_blocks cd)"
    using assms(1) by (simp_all add: tracks_def)
  note d = trackedD [OF tr]
  have mem: "(i, b) \<in> set ?others \<longleftrightarrow> dict_get ?B i = Some b \<and> i \<noteq> cur \<and> ub_open b" for i b
    by (simp only: set_filter mem_Collect_eq split_conv dict_wf_set_iff [OF wf])
  have "distinct ?others" using wf by (simp add: distinct_map)
  moreover have "inj_on (\<lambda>(i, b). down_index b) (set ?others)"
  proof (rule inj_onI)
    fix x y
    assume xy: "x \<in> set ?others" "y \<in> set ?others" "(\<lambda>(i, b). down_index b) x = (\<lambda>(i, b). down_index b) y"
    obtain i b where x: "x = (i, b)" by (cases x)
    obtain i' b' where y: "y = (i', b')" by (cases y)
    have "dict_get ?B i = Some b" "dict_get ?B i' = Some b'" using xy(1,2) unfolding x y mem by blast+
    moreover have "down_index b = down_index b'" using xy(3) unfolding x y by simp
    ultimately show "x = y" using d(7) [of i b i' b'] unfolding x y by simp
  qed
  ultimately have dist: "distinct (map (\<lambda>(i, b). down_index b) ?others)" by (simp only: distinct_map)
  have "\<forall>j \<in> set (map (\<lambda>(i, b). down_index b) ?others). dict_get (open_blocks cd) j \<noteq> None"
  proof
    fix j
    assume "j \<in> set (map (\<lambda>(i, b). down_index b) ?others)"
    then obtain i b where "(i, b) \<in> set ?others" "j = down_index b" by auto
    then show "dict_get (open_blocks cd) j \<noteq> None" using d(8) [of i b] mem by auto
  qed
  from stops_run [OF dist this, of a] obtain cd1 where run: "contract_run a (map content_block_stop (map (\<lambda>(i, b). down_index b) ?others)) cd = Inr cd1"
    and seen: "seen_blocks cd1 = seen_blocks cd"
    and opens: "dict_get (open_blocks cd1) = (\<lambda>j. if j \<in> set (map (\<lambda>(i, b). down_index b) ?others) then None else dict_get (open_blocks cd) j)"
    by blast
  have stops: "stops = map content_block_stop (map (\<lambda>(i, b). down_index b) ?others)"
    and st1: "st1 = st\<lparr>by_upstream := map (\<lambda>(i, b). (i, if i = cur then b else b\<lparr>ub_open := False\<rparr>)) ?B,
        pending_suppressed_stops := pending_suppressed_stops st \<union> set (map fst ?others)\<rparr>"
    using assms(2) unfolding synthetic_close_other_open_blocks_def Let_def by (auto simp: comp_def case_prod_beta)
  have B1: "dict_get (map (\<lambda>(i, b). (i, f i b)) B) = (\<lambda>i. map_option (f i) (dict_get B i))"
    for f :: "int \<Rightarrow> upstream_block \<Rightarrow> upstream_block" and B
    by (induction B) auto
  have "j \<in> set (map (\<lambda>(i, b). down_index b) ?others) \<longleftrightarrow>
      (\<exists>i b. i \<noteq> cur \<and> dict_get ?B i = Some b \<and> ub_open b \<and> down_index b = j)" for j
  proof -
    have "j \<in> set (map (\<lambda>(i, b). down_index b) ?others) \<longleftrightarrow> (\<exists>i b. (i, b) \<in> set ?others \<and> down_index b = j)" by auto
    then show ?thesis unfolding mem by auto
  qed
  then have opens1: "dict_get (open_blocks cd1) = (\<lambda>j. if \<exists>i b. i \<noteq> cur \<and> dict_get ?B i = Some b \<and> ub_open b \<and> down_index b = j
      then None else dict_get (open_blocks cd) j)" unfolding opens by simp
  have "i \<in> set (map fst ?others) \<longleftrightarrow> i \<noteq> cur \<and> (\<exists>b. dict_get ?B i = Some b \<and> ub_open b)" for i
  proof -
    have "i \<in> set (map fst ?others) \<longleftrightarrow> (\<exists>b. (i, b) \<in> set ?others)" by force
    then show ?thesis unfolding mem by auto
  qed
  then have pend: "set (map fst ?others) = {i. i \<noteq> cur \<and> (\<exists>b. dict_get ?B i = Some b \<and> ub_open b)}" by blast
  have fields: "by_upstream st1 = map (\<lambda>(i, b). (i, if i = cur then b else b\<lparr>ub_open := False\<rparr>)) ?B"
    "dropped_indexes st1 = dropped_indexes st" "np_next st1 = np_next st"
    "pending_suppressed_stops st1 = pending_suppressed_stops st \<union> {i. i \<noteq> cur \<and> (\<exists>b. dict_get ?B i = Some b \<and> ub_open b)}"
    unfolding st1 pend by simp_all
  have "tracks th cu st1 cd1"
    unfolding tracks_def fields seen opens1 B1 map_fst_map_snd using tracked_close [OF tr, of cur] wf by blast
  moreover have "np_next st1 = np_next st" "dict_keys (by_upstream st1) = dict_keys (by_upstream st)"
    unfolding fields by (simp_all add: map_fst_map_snd del: map_map)
  moreover have "contract_run a stops cd = Inr cd1" using run unfolding stops .
  ultimately show ?thesis by blast
qed

lemma drop_allowed:
  assumes "t \<in> set ALLOWED_BLOCK_START_TYPES"
  shows "should_drop_block_type th (JStr t) \<longleftrightarrow> \<not> th \<and> t \<in> {u ''thinking'', u ''redacted_thinking''}"
proof -
  have "list_all (\<lambda>t. should_drop_block_type False (JStr t) = (t \<in> {u ''thinking'', u ''redacted_thinking''})
      \<and> \<not> should_drop_block_type True (JStr t)) ALLOWED_BLOCK_START_TYPES"
    by code_simp
  with assms show ?thesis by (cases th) (auto simp: list_all_iff)
qed

lemma storage_thinking: "t \<in> {u ''thinking'', u ''redacted_thinking''} \<Longrightarrow> block_storage t block = t"
  by (auto simp: block_storage_def)

lemma storage_not_thinking: "t \<noteq> u ''thinking'' \<Longrightarrow> block_storage t block \<noteq> u ''thinking''"
  by (auto simp: block_storage_def)

lemma drop_deltas:
  assumes "(k, t) \<in> delta_rules"
  shows "should_drop_block_type th (JStr t) \<longleftrightarrow> \<not> th \<and> t = u ''thinking_delta''"
    and "delta_type_to_block_kind (JStr t) = Some k"
proof -
  have drops: "\<not> should_drop_block_type False (JStr (u ''signature_delta''))" "should_drop_block_type False (JStr (u ''thinking_delta''))"
    "\<not> should_drop_block_type False (JStr (u ''text_delta''))" "\<not> should_drop_block_type False (JStr (u ''input_json_delta''))"
    by code_simp+
  show "should_drop_block_type th (JStr t) \<longleftrightarrow> \<not> th \<and> t = u ''thinking_delta''"
  proof (cases th)
    case False
    then show ?thesis using assms drops unfolding delta_rules_def by (elim insertE) (simp_all del: should_drop_block_type.simps)
  qed simp
  show "delta_type_to_block_kind (JStr t) = Some k"
    using assms unfolding delta_rules_def by (elim insertE) simp_all
qed

lemma delta_kinds: "(k, t) \<in> delta_rules \<Longrightarrow> k \<in> {u ''thinking'', u ''text'', u ''tool_use''}"
  by (auto simp: delta_rules_def)

lemma rule_thinking: "(k, u ''thinking_delta'') \<in> delta_rules \<Longrightarrow> k = u ''thinking''"
  by (simp add: delta_rules_def)

text \<open>A synthetic start opens a block of its kind that takes deltas.\<close>

lemma synthetic_starts:
  assumes "k \<in> {u ''thinking'', u ''text'', u ''tool_use''}"
  shows "starts_block (snd (synthetic_start n (synthetic_start_content_block k i b))) n (synthetic_start_content_block k i b) k"
    and "block_storage k (synthetic_start_content_block k i b) = k"
  using assms
  by (auto simp: starts_block_def synthetic_start_def synthetic_start_content_block_def block_storage_def ALLOWED_BLOCK_START_TYPES_def
      str_strip_def str_lstrip_def str_rstrip_def)

lemma fresh_segment:
  assumes "tracked th ou su B D P n od sd"
  shows "od n = None" "n \<notin> sd"
  using trackedD(5,6,9) [OF assms] by (auto, metis atLeastLessThan_iff less_irrefl)

lemma policy_start_step:
  assumes t: "tracks th cu st cd" and ok: "contract_step a (u ''content_block_start'', data) cu = Inr cu'" "json_ok data"
    and run: "policy_start th data st = (out, st')"
  shows "\<exists>cd'. contract_run a (policy_frames (u ''content_block_start'', data) out) cd = Inr cd' \<and> tracks th cu' st' cd'"
proof -
  obtain i block ty where s: "starts_block data i block ty" "dict_get (open_blocks cu) i = None" "i \<notin> seen_blocks cu"
    and cu': "cu' = cu\<lparr>open_blocks := dict_set i (block_storage ty block) (open_blocks cu), seen_blocks := insert i (seen_blocks cu)\<rparr>"
    using start_okD [OF ok] by blast
  have f: "as_int (jget (u ''index'') data) = Some i" "jget (u ''content_block'') data = block" "is_dict block"
    "jget (u ''type'') block = JStr ty" "ty \<in> set ALLOWED_BLOCK_START_TYPES"
    using s(1) by (simp_all add: starts_block_def)
  show ?thesis
  proof (cases "should_drop_block_type th (JStr ty)")
    case True
    then have drop: "\<not> th" "ty \<in> {u ''thinking'', u ''redacted_thinking''}" using drop_allowed [OF f(5)] by simp_all
    have "out = Dropped" "st' = st\<lparr>dropped_indexes := insert i (dropped_indexes st)\<rparr>"
      using run f True by (simp_all add: policy_start_def del: should_drop_block_type.simps)
    moreover have "tracks th cu' (st\<lparr>dropped_indexes := insert i (dropped_indexes st)\<rparr>) cd"
      using t tracked_drop [OF _ s(3) drop(1), of _ _ _ _ _ _ _ ty] drop(2) storage_thinking [OF drop(2), of block]
      by (simp add: tracks_def cu' update_conv')
    ultimately show ?thesis by simp
  next
    case False
    obtain stops st1 where close: "synthetic_close_other_open_blocks st i = (stops, st1)" by fastforce
    obtain cd1 where cd1: "contract_run a stops cd = Inr cd1" "tracks th cu st1 cd1" "np_next st1 = np_next st"
      using close_others_run [OF t close] by blast
    define n where "n = np_next st1"
    have out: "out = Sent (stops @ [(u ''content_block_start'', jset (u ''index'') (JInt n) data)])"
      and st': "st' = snd (allocate_new_segment st1 i ty block)"
      using run f False close by (simp_all add: policy_start_def allocate_new_segment_def n_def del: should_drop_block_type.simps)
    have tr: "tracked th (dict_get (open_blocks cu)) (seen_blocks cu) (dict_get (by_upstream st1)) (dropped_indexes st1)
        (pending_suppressed_stops st1) n (dict_get (open_blocks cd1)) (seen_blocks cd1)"
      using cd1(2) by (simp add: tracks_def n_def)
    have fresh: "dict_get (open_blocks cd1) n = None" "n \<notin> seen_blocks cd1"
      using fresh_segment [OF tr] by simp_all
    have kind: "th \<or> block_storage ty block \<noteq> u ''thinking''"
      using False drop_allowed [OF f(5), of th] storage_not_thinking [of ty block] by auto
    let ?cd = "cd1\<lparr>open_blocks := dict_set n (block_storage ty block) (open_blocks cd1), seen_blocks := insert n (seen_blocks cd1)\<rparr>"
    have "contract_run a [(u ''content_block_start'', jset (u ''index'') (JInt n) data)] cd1 = Inr ?cd"
      using start_at [OF renumbered_starts [OF s(1)] fresh] by simp
    then have "contract_run a (policy_frames (u ''content_block_start'', data) out) cd = Inr ?cd"
      using contract_run_appendI [OF cd1(1)] out by simp
    moreover have "tracks th cu' st' ?cd"
      using cd1(2) segment_start [OF tr s(3) kind, of ty block]
      by (simp add: tracks_def cu' st' allocate_new_segment_def update_conv' dict_wf_set n_def [symmetric])
    ultimately show ?thesis by blast
  qed
qed

lemma policy_delta_step:
  assumes t: "tracks th cu st cd" and ok: "contract_step a (u ''content_block_delta'', data) cu = Inr cu'" "json_ok data"
    and run: "policy_delta th data st = (out, st')"
  shows "\<exists>cd'. contract_run a (policy_frames (u ''content_block_delta'', data) out) cd = Inr cd' \<and> tracks th cu' st' cd'"
proof -
  obtain i delta ty k where s: "sends_delta data i delta ty" "dict_get (open_blocks cu) i = Some k" "(k, ty) \<in> delta_rules" "cu' = cu"
    using delta_okD [OF ok] by blast
  have f: "as_int (jget (u ''index'') data) = Some i" "jget (u ''delta'') data = delta" "is_dict delta" "jget (u ''type'') delta = JStr ty"
    using s(1) by (simp_all add: sends_delta_def)
  have tr: "tracked th (dict_get (open_blocks cu)) (seen_blocks cu) (dict_get (by_upstream st)) (dropped_indexes st)
      (pending_suppressed_stops st) (np_next st) (dict_get (open_blocks cd)) (seen_blocks cd)"
    using t by (simp add: tracks_def)
  note d = trackedD [OF tr] and kind = drop_deltas [OF s(3)]
  show ?thesis
  proof (cases "i \<in> dropped_indexes st \<or> should_drop_block_type th (JStr ty)")
    case True
    then have "out = Dropped \<and> st' = st"
      using run f by (simp add: policy_delta_def del: should_drop_block_type.simps)
    then show ?thesis using t s(4) by simp
  next
    case False
    have "i \<in> seen_blocks cu" using d(3) s(2) by auto
    then obtain seg where seg: "dict_get (by_upstream st) i = Some seg" using d(1) False by auto
    let ?frame = "\<lambda>n. (u ''content_block_delta'', jset (u ''index'') (JInt n) data)"
    note renumbered = delta_at [OF renumbered_delta [OF s(1)] _ s(3)]
    show ?thesis
    proof (cases "ub_open seg")
      case True
      then have "out = Sent [?frame (down_index seg)]" "st' = st"
        using run f False kind(2) seg
        by (simp_all add: policy_delta_def Let_def del: should_drop_block_type.simps delta_type_to_block_kind.simps)
      moreover have "dict_get (open_blocks cd) (down_index seg) = Some k" using d(8) [OF seg True] s(2) by simp
      then have "contract_run a [?frame (down_index seg)] cd = Inr cd" using renumbered by simp
      ultimately show ?thesis using t s(4) by simp
    next
      case closed: False
      let ?n = "np_next st" and ?carry = "last_start_block seg"
      let ?stored = "if is_dict ?carry \<and> jget (u ''type'') ?carry = JStr (u ''tool_use'') then ?carry else JNull"
      let ?block = "synthetic_start_content_block k (jget (u ''index'') data) ?stored"
      have out: "out = Sent [synthetic_start ?n ?block, ?frame ?n]"
        and st': "st' = snd (allocate_new_segment (st\<lparr>pending_suppressed_stops := pending_suppressed_stops st - {i}\<rparr>) i k ?carry)"
        using run f False kind(2) seg closed
        by (simp_all add: policy_delta_def Let_def allocate_new_segment_def del: should_drop_block_type.simps delta_type_to_block_kind.simps)
      note new = synthetic_starts(1) [OF delta_kinds [OF s(3)], of ?n "jget (u ''index'') data" ?stored]
        synthetic_starts(2) [OF delta_kinds [OF s(3)], of "jget (u ''index'') data" ?stored]
      note fresh = fresh_segment [OF tr]
      let ?cd = "cd\<lparr>open_blocks := dict_set ?n k (open_blocks cd), seen_blocks := insert ?n (seen_blocks cd)\<rparr>"
      have "fst (synthetic_start ?n ?block) = u ''content_block_start''" by (simp add: synthetic_start_def)
      then have "contract_step a (synthetic_start ?n ?block) cd = Inr ?cd"
        using start_at [OF new(1) fresh, of a] new(2) by (metis prod.collapse)
      moreover have "dict_get (open_blocks ?cd) ?n = Some k" by (simp add: dict_simps)
      then have "contract_step a (?frame ?n) ?cd = Inr ?cd" by (rule renumbered)
      ultimately have "contract_run a (policy_frames (u ''content_block_delta'', data) out) cd = Inr ?cd" using out by simp
      moreover have "tracks th cu st' ?cd"
        using t tracked_reopen [OF tr seg closed s(2), of k ?carry]
        by (simp add: tracks_def st' allocate_new_segment_def update_conv' dict_wf_set)
      ultimately show ?thesis using s(4) by blast
    qed
  qed
qed

lemma policy_stop_step:
  assumes t: "tracks th cu st cd" and ok: "contract_step a (u ''content_block_stop'', data) cu = Inr cu'"
    and run: "policy_stop th data st = (out, st')"
  shows "\<exists>cd'. contract_run a (policy_frames (u ''content_block_stop'', data) out) cd = Inr cd' \<and> tracks th cu' st' cd'"
proof -
  obtain i k where s: "as_int (jget (u ''index'') data) = Some i" "dict_get (open_blocks cu) i = Some k"
    and cu': "cu' = cu\<lparr>open_blocks := dict_pop i (open_blocks cu)\<rparr>"
    using stop_okD [OF ok] by blast
  have tr: "tracked th (dict_get (open_blocks cu)) (seen_blocks cu) (dict_get (by_upstream st)) (dropped_indexes st)
      (pending_suppressed_stops st) (np_next st) (dict_get (open_blocks cd)) (seen_blocks cd)"
    using t by (simp add: tracks_def)
  note d = trackedD [OF tr]
  consider (dropped) "i \<in> dropped_indexes st" | (pending) "i \<notin> dropped_indexes st" "i \<in> pending_suppressed_stops st"
    | (seg) seg where "i \<notin> dropped_indexes st" "i \<notin> pending_suppressed_stops st" "dict_get (by_upstream st) i = Some seg"
  proof -
    have "i \<in> seen_blocks cu" using d(3) s(2) by auto
    then show ?thesis using that d(1) by blast
  qed
  then show ?thesis
  proof cases
    case dropped
    then have "out = Dropped" "st' = st" using run s(1) by (simp_all add: policy_stop_def)
    then show ?thesis using t tracked_stop_dropped [OF tr dropped] by (simp add: tracks_def cu' delete_conv')
  next
    case pending
    then have "out = Dropped" "st' = st\<lparr>pending_suppressed_stops := pending_suppressed_stops st - {i}\<rparr>"
      using run s(1) by (simp_all add: policy_stop_def)
    then show ?thesis using t tracked_stop_pending [OF tr pending(2)] by (simp add: tracks_def cu' delete_conv')
  next
    case seg
    have op: "ub_open seg" using d(10) [of i] seg(2,3) s(2) by simp
    let ?cd = "cd\<lparr>open_blocks := dict_pop (down_index seg) (open_blocks cd)\<rparr>"
    have out: "out = Sent [(u ''content_block_stop'', jset (u ''index'') (JInt (down_index seg)) data)]"
      and st': "st' = st\<lparr>by_upstream := dict_set i (seg\<lparr>ub_open := False\<rparr>) (by_upstream st)\<rparr>"
      using run s(1) seg op by (simp_all add: policy_stop_def)
    have "dict_get (open_blocks cd) (down_index seg) = Some k" using d(8) [OF seg(3) op] s(2) by simp
    moreover have "as_int (jget (u ''index'') (jset (u ''index'') (JInt (down_index seg)) data)) = Some (down_index seg)"
      using jget_renumbered index_is_dict [OF s(1)] by simp
    ultimately have "contract_run a (policy_frames (u ''content_block_stop'', data) out) cd = Inr ?cd" using stop_at out by simp
    moreover have "tracks th cu' st' ?cd"
      using t segment_stop [OF tr seg(3) op] by (simp add: tracks_def cu' st' update_conv' delete_conv' dict_wf_set)
    ultimately show ?thesis by blast
  qed
qed

lemma policy_step:
  assumes t: "tracks th cu st cd" and ok: "contract_step a ev cu = Inr cu'" "json_ok (snd ev)"
    and run: "policy_event th ev st = (out, st')"
  shows "\<exists>cd'. contract_run a (policy_frames ev out) cd = Inr cd' \<and> tracks th cu' st' cd'"
proof -
  obtain name data where ev: "ev = (name, data)" by (cases ev)
  show ?thesis
  proof (cases "name \<in> {u ''content_block_start'', u ''content_block_delta'', u ''content_block_stop''}")
    case True
    then show ?thesis
      using policy_start_step [OF t] policy_delta_step [OF t] policy_stop_step [OF t] ok run ev
      by (auto simp: policy_event_def)
  next
    case False
    then have "out = PassOn" "st' = st" using run by (simp_all add: policy_event_def ev)
    moreover have "contract_step a ev cd = Inr cd" "cu' = cu"
      using ok(1) False by (auto simp: contract_step_def ev split: if_splits)
    ultimately show ?thesis using t by simp
  qed
qed

lemma policy_run_tracks:
  assumes "tracks th cu st cd" "contract_run a evs cu = Inr cu'" "list_all (json_ok \<circ> snd) evs"
    and "policy_run th evs st = (fs, st')"
  shows "\<exists>cd'. contract_run a fs cd = Inr cd' \<and> tracks th cu' st' cd'"
  using assms
proof (induction evs arbitrary: cu st cd fs)
  case (Cons ev evs)
  obtain cu1 where cu1: "contract_step a ev cu = Inr cu1" "contract_run a evs cu1 = Inr cu'"
    using Cons.prems(2) by (cases "contract_step a ev cu") auto
  obtain out st1 where out: "policy_event th ev st = (out, st1)" by fastforce
  obtain fs1 where fs1: "policy_run th evs st1 = (fs1, st')" "fs = policy_frames ev out @ fs1"
    using Cons.prems(4) out by (auto split: prod.splits)
  obtain cd1 where cd1: "contract_run a (policy_frames ev out) cd = Inr cd1" "tracks th cu1 st1 cd1"
    using policy_step [OF Cons.prems(1) cu1(1) _ out] Cons.prems(3) by auto
  obtain cd' where "contract_run a fs1 cd1 = Inr cd'" "tracks th cu' st' cd'"
    using Cons.IH [OF cd1(2) cu1(2) _ fs1(1)] Cons.prems(3) by auto
  then show ?case using contract_run_appendI [OF cd1(1)] fs1(2) by blast
qed simp

lemma dict_set_nonempty [simp]: "dict_set k v d \<noteq> []"
  by (cases d) auto

lemma policy_event_nonempty:
  "policy_event th ev st = (out, st') \<Longrightarrow> by_upstream st \<noteq> [] \<Longrightarrow> by_upstream st' \<noteq> []"
  by (cases ev)
    (auto simp: policy_event_def policy_start_def policy_delta_def policy_stop_def Let_def allocate_new_segment_def
      synthetic_close_other_open_blocks_def split: if_splits option.splits json.splits)

text \<open>A block the client sees: one the policy does not drop.\<close>

definition visible_start :: "bool \<Rightarrow> frame \<Rightarrow> bool" where
  "visible_start th ev \<longleftrightarrow>
     fst ev = u ''content_block_start'' \<and> \<not> should_drop_block_type th (jget (u ''type'') (jget (u ''content_block'') (snd ev)))"

lemma visible_nonempty:
  assumes "contract_step a ev c = Inr c'" "json_ok (snd ev)" "visible_start th ev" "policy_event th ev st = (out, st')"
  shows "by_upstream st' \<noteq> []"
proof -
  obtain data where ev: "ev = (u ''content_block_start'', data)" using assms(3) by (cases ev) (simp add: visible_start_def)
  obtain i block ty where s: "starts_block data i block ty" using start_okD assms(1,2) ev by (metis snd_conv)
  then show ?thesis
    using assms(3,4) ev
    by (auto simp: visible_start_def starts_block_def policy_event_def policy_start_def Let_def allocate_new_segment_def
        simp del: should_drop_block_type.simps split: prod.splits)
qed

lemma policy_run_nonempty:
  assumes "contract_run a evs c = Inr c'" "list_all (json_ok \<circ> snd) evs" "policy_run th evs st = (fs, st')"
    and "by_upstream st \<noteq> [] \<or> list_ex (visible_start th) evs"
  shows "by_upstream st' \<noteq> []"
  using assms
proof (induction evs arbitrary: c st fs)
  case (Cons ev evs)
  obtain c1 where c1: "contract_step a ev c = Inr c1" "contract_run a evs c1 = Inr c'"
    using Cons.prems(1) by (cases "contract_step a ev c") auto
  obtain out st1 where out: "policy_event th ev st = (out, st1)" by fastforce
  obtain fs1 where fs1: "policy_run th evs st1 = (fs1, st')" using Cons.prems(3) out by (auto split: prod.splits)
  have "by_upstream st1 \<noteq> [] \<or> list_ex (visible_start th) evs"
    using Cons.prems(4) policy_event_nonempty [OF out] visible_nonempty [OF c1(1) _ _ out] Cons.prems(2) by auto
  then show ?case using Cons.IH [OF c1(2) _ fs1] Cons.prems(2) by simp
qed simp

lemma policy_names:
  "policy_event th ev st = (out, st') \<Longrightarrow> f \<in> set (policy_frames ev out) \<Longrightarrow> fst f \<noteq> fst ev \<Longrightarrow>
     fst f \<in> {u ''content_block_start'', u ''content_block_stop''}"
  by (cases ev)
    (auto simp: policy_event_def policy_start_def policy_delta_def policy_stop_def Let_def allocate_new_segment_def
      synthetic_close_other_open_blocks_def synthetic_start_def content_block_stop_def split: if_splits option.splits json.splits)

lemma policy_passes_other:
  "fst ev \<notin> {u ''content_block_start'', u ''content_block_delta'', u ''content_block_stop''} \<Longrightarrow> policy_event th ev st = (PassOn, st)"
  by (cases ev) (simp add: policy_event_def)

lemma policy_run_append:
  "policy_run th (xs @ ys) st =
     (case policy_run th xs st of (fs, st1) \<Rightarrow> case policy_run th ys st1 of (gs, st2) \<Rightarrow> (fs @ gs, st2))"
  by (induction xs arbitrary: st) (auto split: prod.splits)

lemma policy_run_keeps:
  "ev \<in> set evs \<Longrightarrow> fst ev \<notin> {u ''content_block_start'', u ''content_block_delta'', u ''content_block_stop''} \<Longrightarrow>
     ev \<in> set (fst (policy_run th evs st))"
proof (induction evs arbitrary: st)
  case (Cons e evs)
  then show ?case using policy_passes_other [of e th st] by (auto split: prod.splits) (metis fst_conv)
qed simp


section \<open>Every delta reaches its block\<close>

text \<open>
  What the client knows of the block a delta belongs to: its type and, for a tool use, its id and name.
  The deltas of a stream, each with the block it extends.
\<close>

type_synonym block_ident = "json \<times> json \<times> json"

definition block_ident :: "json \<Rightarrow> block_ident" where
  "block_ident block =
     (let ty = jget (u ''type'') block in
      if ty = JStr (u ''tool_use'') then (ty, jget (u ''id'') block, jget (u ''name'') block) else (ty, JNull, JNull))"

definition event_block :: "frame \<Rightarrow> int" where
  "event_block ev = (case as_int (jget (u ''index'') (snd ev)) of Some i \<Rightarrow> i | None \<Rightarrow> - 1)"

definition idents_after :: "(int \<Rightarrow> block_ident) \<Rightarrow> frame \<Rightarrow> int \<Rightarrow> block_ident" where
  "idents_after m ev =
     (if fst ev = u ''content_block_start'' then m(event_block ev := block_ident (jget (u ''content_block'') (snd ev))) else m)"

definition deltas_at :: "(int \<Rightarrow> block_ident) \<Rightarrow> frame \<Rightarrow> (block_ident \<times> json) list" where
  "deltas_at m ev = (if fst ev = u ''content_block_delta'' then [(m (event_block ev), jget (u ''delta'') (snd ev))] else [])"

fun attributed :: "(int \<Rightarrow> block_ident) \<Rightarrow> frame list \<Rightarrow> (block_ident \<times> json) list" where
  "attributed m [] = []"
| "attributed m (ev # evs) = deltas_at m ev @ attributed (idents_after m ev) evs"

definition stream_deltas :: "frame list \<Rightarrow> (block_ident \<times> json) list" where
  "stream_deltas evs = attributed (\<lambda>_. (JNull, JNull, JNull)) evs"

definition shown :: "bool \<Rightarrow> block_ident \<Rightarrow> bool" where
  "shown th b \<longleftrightarrow> th \<or> fst b \<notin> {JStr (u ''thinking''), JStr (u ''redacted_thinking'')}"

text \<open>A tool use whose start carries its id and its name, as Anthropic's protocol has it.\<close>

definition tool_named :: "frame \<Rightarrow> bool" where
  "tool_named ev \<longleftrightarrow>
     (let block = jget (u ''content_block'') (snd ev) in
      fst ev = u ''content_block_start'' \<and> jget (u ''type'') block = JStr (u ''tool_use'') \<longrightarrow>
        is_str (jget (u ''id'') block) \<and> jget (u ''id'') block \<noteq> JStr [] \<and> is_str (jget (u ''name'') block))"

lemma attributed_append: "attributed m (xs @ ys) = attributed m xs @ attributed (foldl idents_after m xs) ys"
  by (induction xs arbitrary: m) simp_all

text \<open>The blocks the policy knows, as the provider and as the client know them.\<close>

definition carries :: "json \<Rightarrow> block_ident \<Rightarrow> bool" where
  "carries block b \<longleftrightarrow> block_ident block = b \<and> is_dict block \<and>
     (jget (u ''type'') block = JStr (u ''tool_use'') \<longrightarrow>
        is_str (jget (u ''id'') block) \<and> jget (u ''id'') block \<noteq> JStr [] \<and> is_str (jget (u ''name'') block))"

definition same_idents :: "bool \<Rightarrow> (int \<Rightarrow> pystr option) \<Rightarrow> block_policy \<Rightarrow> (int \<Rightarrow> block_ident) \<Rightarrow> (int \<Rightarrow> block_ident) \<Rightarrow> bool" where
  "same_idents th ou st mu md \<longleftrightarrow>
     (\<forall>i seg. dict_get (by_upstream st) i = Some seg \<longrightarrow>
        carries (last_start_block seg) (mu i) \<and> shown th (mu i) \<and> (ub_open seg \<longrightarrow> md (down_index seg) = mu i) \<and>
        (\<forall>k \<in> {u ''thinking'', u ''text'', u ''tool_use''}. ou i = Some k \<longrightarrow> fst (mu i) = JStr k)) \<and>
     (\<forall>i \<in> dropped_indexes st. \<not> shown th (mu i))"

lemma same_identsD:
  assumes "same_idents th ou st mu md"
  shows "\<And>i seg. dict_get (by_upstream st) i = Some seg \<Longrightarrow> carries (last_start_block seg) (mu i)"
    and "\<And>i seg. dict_get (by_upstream st) i = Some seg \<Longrightarrow> shown th (mu i)"
    and "\<And>i seg. dict_get (by_upstream st) i = Some seg \<Longrightarrow> ub_open seg \<Longrightarrow> md (down_index seg) = mu i"
    and "\<And>i seg k. dict_get (by_upstream st) i = Some seg \<Longrightarrow> k \<in> {u ''thinking'', u ''text'', u ''tool_use''} \<Longrightarrow>
      ou i = Some k \<Longrightarrow> fst (mu i) = JStr k"
    and "\<And>i. i \<in> dropped_indexes st \<Longrightarrow> \<not> shown th (mu i)"
  using assms unfolding same_idents_def by blast+

lemma same_identsI:
  assumes "\<And>i seg. dict_get (by_upstream st) i = Some seg \<Longrightarrow> carries (last_start_block seg) (mu i)"
    and "\<And>i seg. dict_get (by_upstream st) i = Some seg \<Longrightarrow> shown th (mu i)"
    and "\<And>i seg. dict_get (by_upstream st) i = Some seg \<Longrightarrow> ub_open seg \<Longrightarrow> md (down_index seg) = mu i"
    and "\<And>i seg k. dict_get (by_upstream st) i = Some seg \<Longrightarrow> k \<in> {u ''thinking'', u ''text'', u ''tool_use''} \<Longrightarrow>
      ou i = Some k \<Longrightarrow> fst (mu i) = JStr k"
    and "\<And>i. i \<in> dropped_indexes st \<Longrightarrow> \<not> shown th (mu i)"
  shows "same_idents th ou st mu md"
  using assms unfolding same_idents_def by blast

lemma event_block_at: "as_int (jget (u ''index'') data) = Some i \<Longrightarrow> event_block (n, data) = i"
  by (simp add: event_block_def)

lemma idents_after_other: "fst ev \<noteq> u ''content_block_start'' \<Longrightarrow> idents_after m ev = m"
  by (simp add: idents_after_def)

lemma deltas_at_other: "fst ev \<noteq> u ''content_block_delta'' \<Longrightarrow> deltas_at m ev = []"
  by (simp add: deltas_at_def)

lemma idents_after_start:
  "as_int (jget (u ''index'') data) = Some i \<Longrightarrow>
     idents_after m (u ''content_block_start'', data) = m(i := block_ident (jget (u ''content_block'') data))"
  by (simp add: idents_after_def event_block_at)

lemma deltas_at_delta:
  "as_int (jget (u ''index'') data) = Some i \<Longrightarrow> deltas_at m (u ''content_block_delta'', data) = [(m i, jget (u ''delta'') data)]"
  by (simp add: deltas_at_def event_block_at)

lemma stops_quiet:
  "attributed m (map content_block_stop js) = []" "foldl idents_after m (map content_block_stop js) = m"
  by (induction js) (simp_all add: content_block_stop_def idents_after_other deltas_at_other)

text \<open>A reopened block has the identity of the one it goes on with.\<close>

lemma synthetic_ident:
  assumes "carries carry b" "fst b = JStr k" "k \<in> {u ''thinking'', u ''text'', u ''tool_use''}"
  shows "block_ident (synthetic_start_content_block k i
    (if is_dict carry \<and> jget (u ''type'') carry = JStr (u ''tool_use'') then carry else JNull)) = b"
proof (cases "k = u ''tool_use''")
  case True
  then have ty: "jget (u ''type'') carry = JStr (u ''tool_use'')" using assms(1,2) by (auto simp: carries_def block_ident_def Let_def split: if_splits)
  have named: "is_dict carry" "is_str (jget (u ''id'') carry)" "jget (u ''id'') carry \<noteq> JStr []" "is_str (jget (u ''name'') carry)"
    "b = (JStr (u ''tool_use''), jget (u ''id'') carry, jget (u ''name'') carry)"
    using assms(1) ty by (auto simp: carries_def block_ident_def)
  obtain t where "jget (u ''id'') carry = JStr t" "t \<noteq> []" using named(2,3) by (cases "jget (u ''id'') carry") auto
  then show ?thesis using ty named True by (simp add: synthetic_start_content_block_def block_ident_def)
next
  case False
  then have "b = (JStr k, JNull, JNull)" using assms(1,2) by (auto simp: carries_def block_ident_def Let_def split: if_splits)
  then show ?thesis using assms(3) False by (auto simp: synthetic_start_content_block_def block_ident_def)
qed

lemma start_idents:
  assumes t: "tracks th cu st cd" and ok: "contract_step a (u ''content_block_start'', data) cu = Inr cu'" "json_ok data"
    and run: "policy_start th data st = (out, st')" and named: "tool_named (u ''content_block_start'', data)"
    and same: "same_idents th (dict_get (open_blocks cu)) st mu md"
  shows "attributed md (policy_frames (u ''content_block_start'', data) out) = [] \<and>
    same_idents th (dict_get (open_blocks cu')) st' (idents_after mu (u ''content_block_start'', data))
      (foldl idents_after md (policy_frames (u ''content_block_start'', data) out))"
proof -
  obtain i block ty where s: "starts_block data i block ty" "i \<notin> seen_blocks cu"
    and cu': "cu' = cu\<lparr>open_blocks := dict_set i (block_storage ty block) (open_blocks cu), seen_blocks := insert i (seen_blocks cu)\<rparr>"
    using start_okD [OF ok] by blast
  have f: "as_int (jget (u ''index'') data) = Some i" "jget (u ''content_block'') data = block" "is_dict block"
    "jget (u ''type'') block = JStr ty" "ty \<in> set ALLOWED_BLOCK_START_TYPES"
    using s(1) by (simp_all add: starts_block_def)
  have tr: "tracked th (dict_get (open_blocks cu)) (seen_blocks cu) (dict_get (by_upstream st)) (dropped_indexes st)
      (pending_suppressed_stops st) (np_next st) (dict_get (open_blocks cd)) (seen_blocks cd)"
    using t by (simp add: tracks_def)
  note d = trackedD [OF tr] and sd = same_identsD [OF same]
  have new: "dict_get (by_upstream st) i = None" "i \<notin> dropped_indexes st" using d(1) s(2) by auto
  have other: "j \<noteq> i" if "dict_get (by_upstream st) j = Some seg" for j seg using new(1) that by auto
  have mu': "idents_after mu (u ''content_block_start'', data) = mu(i := block_ident block)"
    using idents_after_start [OF f(1)] f(2) by simp
  have fst_id: "fst (block_ident block) = JStr ty" using f(4) by (simp add: block_ident_def Let_def)
  show ?thesis
  proof (cases "should_drop_block_type th (JStr ty)")
    case True
    have out: "out = Dropped" and st': "st' = st\<lparr>dropped_indexes := insert i (dropped_indexes st)\<rparr>"
      using run f True by (simp_all add: policy_start_def del: should_drop_block_type.simps)
    have hidden: "\<not> shown th (block_ident block)" using True drop_allowed [OF f(5)] fst_id by (auto simp: shown_def)
    have "same_idents th (dict_get (open_blocks cu')) st' (mu(i := block_ident block)) md"
    proof (rule same_identsI)
      show "fst ((mu(i := block_ident block)) j) = JStr k"
        if "dict_get (by_upstream st') j = Some seg" "k \<in> {u ''thinking'', u ''text'', u ''tool_use''}" "dict_get (open_blocks cu') j = Some k"
        for j seg k using that sd(4) [of j seg k] other [of j seg] by (simp add: st' cu' dict_simps)
      show "\<not> shown th ((mu(i := block_ident block)) j)" if "j \<in> dropped_indexes st'" for j
        using that sd(5) [of j] hidden by (auto simp: st')
    qed (use sd other in \<open>auto simp: st'\<close>)
    then show ?thesis using mu' out by simp
  next
    case False
    obtain stops st1 where close: "synthetic_close_other_open_blocks st i = (stops, st1)" by fastforce
    have st1: "dict_get (by_upstream st1) j = map_option (\<lambda>b. if j = i then b else b\<lparr>ub_open := False\<rparr>) (dict_get (by_upstream st) j)"
      "dropped_indexes st1 = dropped_indexes st" for j
    proof -
      have "dict_get (map (\<lambda>(i, b). (i, f i b)) B) j = map_option (f j) (dict_get B j)"
        for f :: "int \<Rightarrow> upstream_block \<Rightarrow> upstream_block" and B
        by (induction B) auto
      then show "dict_get (by_upstream st1) j = map_option (\<lambda>b. if j = i then b else b\<lparr>ub_open := False\<rparr>) (dict_get (by_upstream st) j)"
        using close by (auto simp: synthetic_close_other_open_blocks_def Let_def)
      show "dropped_indexes st1 = dropped_indexes st" using close by (auto simp: synthetic_close_other_open_blocks_def Let_def)
    qed
    obtain js where stops: "stops = map content_block_stop js"
    proof -
      have "stops = map content_block_stop (map (\<lambda>(i, b). down_index b) (filter (\<lambda>(j, b). j \<noteq> i \<and> ub_open b) (by_upstream st)))"
        using close by (auto simp: synthetic_close_other_open_blocks_def Let_def comp_def case_prod_beta)
      then show ?thesis by (rule that)
    qed
    define n where "n = np_next st1"
    let ?frame = "(u ''content_block_start'', jset (u ''index'') (JInt n) data)"
    have out: "out = Sent (stops @ [?frame])" and st': "st' = snd (allocate_new_segment st1 i ty block)"
      using run f False close by (simp_all add: policy_start_def allocate_new_segment_def n_def del: should_drop_block_type.simps)
    have "is_dict data" using index_is_dict [OF f(1)] .
    then have md': "idents_after md ?frame = md(n := block_ident block)"
      using idents_after_start [of "jset (u ''index'') (JInt n) data" n md] f(2) by (simp add: jget_renumbered)
    have visible: "shown th (block_ident block)" using False drop_allowed [OF f(5)] fst_id by (auto simp: shown_def)
    have carry: "carries block (block_ident block)"
      using named f(2,3) by (simp add: carries_def tool_named_def Let_def)
    have storage: "k = ty" if "block_storage ty block = k" "k \<in> {u ''thinking'', u ''text'', u ''tool_use''}" for k
      using that by (auto simp: block_storage_def split: if_splits)
    have closed: "\<not> ub_open seg" "dict_get (by_upstream st) j \<noteq> None" "carries (last_start_block seg) (mu j)"
      if "dict_get (by_upstream st1) j = Some seg" "j \<noteq> i" for j seg
      using that sd(1) [of j] by (auto simp: st1)
    have "same_idents th (dict_get (open_blocks cu')) st' (mu(i := block_ident block)) (md(n := block_ident block))"
    proof (rule same_identsI)
      fix j seg
      assume j: "dict_get (by_upstream st') j = Some seg"
      have js: "j = i \<and> last_start_block seg = block \<and> down_index seg = n \<or> j \<noteq> i \<and> dict_get (by_upstream st1) j = Some seg"
        using j by (auto simp: st' allocate_new_segment_def dict_simps n_def split: if_splits)
      show "carries (last_start_block seg) ((mu(i := block_ident block)) j)" using js carry closed(3) by auto
      show "shown th ((mu(i := block_ident block)) j)" using js visible closed(2) [of j seg] sd(2) [of j] by auto
      show "(md(n := block_ident block)) (down_index seg) = (mu(i := block_ident block)) j" if "ub_open seg"
        using js closed(1) [of j seg] that by auto
      show "fst ((mu(i := block_ident block)) j) = JStr k"
        if "k \<in> {u ''thinking'', u ''text'', u ''tool_use''}" "dict_get (open_blocks cu') j = Some k" for k
        using js that storage [of k] fst_id closed(2) [of j seg] sd(4) [of j _ k] by (auto simp: cu' dict_simps split: if_splits)
    next
      show "\<not> shown th ((mu(i := block_ident block)) j)" if "j \<in> dropped_indexes st'" for j
        using that sd(5) [of j] new(2) st1(2) by (auto simp: st' allocate_new_segment_def)
    qed
    then show ?thesis
      by (simp add: out stops attributed_append stops_quiet mu' md' deltas_at_other)
  qed
qed

lemma delta_idents:
  assumes t: "tracks th cu st cd" and ok: "contract_step a (u ''content_block_delta'', data) cu = Inr cu'" "json_ok data"
    and run: "policy_delta th data st = (out, st')" and same: "same_idents th (dict_get (open_blocks cu)) st mu md"
  shows "attributed md (policy_frames (u ''content_block_delta'', data) out) =
      filter (shown th \<circ> fst) (deltas_at mu (u ''content_block_delta'', data)) \<and>
    same_idents th (dict_get (open_blocks cu')) st' mu (foldl idents_after md (policy_frames (u ''content_block_delta'', data) out))"
proof -
  obtain i delta ty k where s: "sends_delta data i delta ty" "dict_get (open_blocks cu) i = Some k" "(k, ty) \<in> delta_rules" "cu' = cu"
    using delta_okD [OF ok] by blast
  have f: "as_int (jget (u ''index'') data) = Some i" "jget (u ''delta'') data = delta" "is_dict delta" "jget (u ''type'') delta = JStr ty"
    using s(1) by (simp_all add: sends_delta_def)
  have tr: "tracked th (dict_get (open_blocks cu)) (seen_blocks cu) (dict_get (by_upstream st)) (dropped_indexes st)
      (pending_suppressed_stops st) (np_next st) (dict_get (open_blocks cd)) (seen_blocks cd)"
    using t by (simp add: tracks_def)
  note d = trackedD [OF tr] and kind = drop_deltas [OF s(3)] and sd = same_identsD [OF same]
  note k = delta_kinds [OF s(3)]
  have deltas: "deltas_at mu (u ''content_block_delta'', data) = [(mu i, delta)]" using deltas_at_delta [OF f(1)] f(2) by simp
  show ?thesis
  proof (cases "i \<in> dropped_indexes st")
    case True
    then have "out = Dropped \<and> st' = st"
      using run f by (simp add: policy_delta_def del: should_drop_block_type.simps)
    then show ?thesis using deltas sd(5) [OF True] same s(4) by simp
  next
    case False
    have "i \<in> seen_blocks cu" using d(3) s(2) by auto
    then obtain seg where seg: "dict_get (by_upstream st) i = Some seg" using d(1) False by auto
    have vis: "shown th (mu i)" "fst (mu i) = JStr k" using sd(2,4) [OF seg] k s(2) by simp_all
    have keep: "\<not> should_drop_block_type th (JStr ty)" using vis rule_thinking [of k] s(3) kind(1) by (auto simp: shown_def)
    have dict: "is_dict data" using index_is_dict [OF f(1)] .
    let ?frame = "\<lambda>n. (u ''content_block_delta'', jset (u ''index'') (JInt n) data)"
    have at: "deltas_at m (?frame n) = [(m n, delta)]" for m n
      using deltas_at_delta [of "jset (u ''index'') (JInt n) data" n m] dict f(2) by (simp add: jget_renumbered)
    show ?thesis
    proof (cases "ub_open seg")
      case True
      have "out = Sent [?frame (down_index seg)]" "st' = st"
        using run f False keep kind(2) seg True
        by (simp_all add: policy_delta_def Let_def del: should_drop_block_type.simps delta_type_to_block_kind.simps)
      then show ?thesis using deltas vis(1) at sd(3) [OF seg True] same s(4) by (simp add: idents_after_other)
    next
      case closed: False
      let ?n = "np_next st" and ?carry = "last_start_block seg"
      let ?stored = "if is_dict ?carry \<and> jget (u ''type'') ?carry = JStr (u ''tool_use'') then ?carry else JNull"
      let ?block = "synthetic_start_content_block k (jget (u ''index'') data) ?stored"
      have out: "out = Sent [synthetic_start ?n ?block, ?frame ?n]"
        and st': "st' = snd (allocate_new_segment (st\<lparr>pending_suppressed_stops := pending_suppressed_stops st - {i}\<rparr>) i k ?carry)"
        using run f False keep kind(2) seg closed
        by (simp_all add: policy_delta_def Let_def allocate_new_segment_def del: should_drop_block_type.simps delta_type_to_block_kind.simps)
      have ident: "block_ident ?block = mu i" by (rule synthetic_ident [OF sd(1) [OF seg] vis(2) k])
      have md': "idents_after md (synthetic_start ?n ?block) = md(?n := mu i)"
        by (simp add: idents_after_def synthetic_start_def event_block_def ident)
      have "same_idents th (dict_get (open_blocks cu)) st' mu (md(?n := mu i))"
      proof (rule same_identsI)
        fix j seg'
        assume j: "dict_get (by_upstream st') j = Some seg'"
        have js: "j = i \<and> last_start_block seg' = ?carry \<and> down_index seg' = ?n \<or> j \<noteq> i \<and> dict_get (by_upstream st) j = Some seg'"
          using j by (auto simp: st' allocate_new_segment_def dict_simps split: if_splits)
        show "carries (last_start_block seg') (mu j)" using js sd(1) [of j seg'] sd(1) [OF seg] by auto
        show "shown th (mu j)" using js sd(2) [of j seg'] vis(1) by auto
        show "(md(?n := mu i)) (down_index seg') = mu j" if "ub_open seg'"
        proof -
          have "down_index seg' \<noteq> ?n" if "dict_get (by_upstream st) j = Some seg'" using d(5) d(6) [OF that] by simp
          then show ?thesis using js sd(3) [of j seg'] that by auto
        qed
        show "fst (mu j) = JStr k'" if "k' \<in> {u ''thinking'', u ''text'', u ''tool_use''}" "dict_get (open_blocks cu) j = Some k'" for k'
          using js sd(4) [OF seg that(1)] sd(4) [of j seg' k'] that by auto
      next
        show "\<not> shown th (mu j)" if "j \<in> dropped_indexes st'" for j using that sd(5) [of j] by (simp add: st' allocate_new_segment_def)
      qed
      moreover have "fst (synthetic_start ?n ?block) \<noteq> u ''content_block_delta''" by (simp add: synthetic_start_def)
      ultimately show ?thesis using deltas vis(1) at md' s(4) by (simp add: out idents_after_other deltas_at_other)
    qed
  qed
qed

lemma stop_idents:
  assumes t: "tracks th cu st cd" and ok: "contract_step a (u ''content_block_stop'', data) cu = Inr cu'"
    and run: "policy_stop th data st = (out, st')" and same: "same_idents th (dict_get (open_blocks cu)) st mu md"
  shows "attributed md (policy_frames (u ''content_block_stop'', data) out) = [] \<and>
    same_idents th (dict_get (open_blocks cu')) st' mu (foldl idents_after md (policy_frames (u ''content_block_stop'', data) out))"
proof -
  obtain i k where s: "as_int (jget (u ''index'') data) = Some i" "dict_get (open_blocks cu) i = Some k"
    and cu': "cu' = cu\<lparr>open_blocks := dict_pop i (open_blocks cu)\<rparr>"
    using stop_okD [OF ok] by blast
  note sd = same_identsD [OF same]
  have quiet: "attributed md (policy_frames (u ''content_block_stop'', data) out) = [] \<and>
      foldl idents_after md (policy_frames (u ''content_block_stop'', data) out) = md"
    using run by (auto simp: policy_stop_def idents_after_other deltas_at_other split: option.splits if_splits)
  have D: "dropped_indexes st' = dropped_indexes st" using run by (auto simp: policy_stop_def split: option.splits if_splits)
  have B: "\<exists>seg. dict_get (by_upstream st) j = Some seg \<and> last_start_block seg' = last_start_block seg \<and>
      down_index seg' = down_index seg \<and> (ub_open seg' \<longrightarrow> ub_open seg)"
    if "dict_get (by_upstream st') j = Some seg'" for j seg'
    using run that by (auto simp: policy_stop_def dict_simps split: option.splits if_splits)
  have "same_idents th (dict_get (open_blocks cu')) st' mu md"
  proof (rule same_identsI)
    fix j seg'
    assume "dict_get (by_upstream st') j = Some seg'"
    then obtain seg where seg: "dict_get (by_upstream st) j = Some seg" "last_start_block seg' = last_start_block seg"
      "down_index seg' = down_index seg" "ub_open seg' \<longrightarrow> ub_open seg"
      using B by blast
    show "carries (last_start_block seg') (mu j)" "shown th (mu j)" using sd(1,2) [OF seg(1)] seg(2) by simp_all
    show "md (down_index seg') = mu j" if "ub_open seg'" using sd(3) [OF seg(1)] seg(3,4) that by simp
    show "fst (mu j) = JStr k'" if "k' \<in> {u ''thinking'', u ''text'', u ''tool_use''}" "dict_get (open_blocks cu') j = Some k'" for k'
      using sd(4) [OF seg(1) that(1)] that(2) by (simp add: cu' dict_simps split: if_splits)
  qed (use sd(5) D in simp)
  then show ?thesis using quiet by simp
qed

lemma policy_step_idents:
  assumes t: "tracks th cu st cd" and ok: "contract_step a ev cu = Inr cu'" "json_ok (snd ev)"
    and run: "policy_event th ev st = (out, st')" and named: "tool_named ev"
    and same: "same_idents th (dict_get (open_blocks cu)) st mu md"
  shows "attributed md (policy_frames ev out) = filter (shown th \<circ> fst) (deltas_at mu ev) \<and>
    same_idents th (dict_get (open_blocks cu')) st' (idents_after mu ev) (foldl idents_after md (policy_frames ev out))"
proof -
  obtain name data where ev: "ev = (name, data)" by (cases ev)
  consider (start) "name = u ''content_block_start''" | (delta) "name = u ''content_block_delta''"
    | (stop) "name = u ''content_block_stop''"
    | (other) "name \<notin> {u ''content_block_start'', u ''content_block_delta'', u ''content_block_stop''}" by blast
  then show ?thesis
  proof cases
    case start
    then show ?thesis using start_idents [OF t, of a data cu' out st' mu md] ok run named same ev
      by (simp add: policy_event_def deltas_at_other)
  next
    case delta
    then show ?thesis using delta_idents [OF t, of a data cu' out st' mu md] ok run same ev
      by (simp add: policy_event_def idents_after_other)
  next
    case stop
    then show ?thesis using stop_idents [OF t, of a data cu' out st' mu md] ok run same ev
      by (simp add: policy_event_def idents_after_other deltas_at_other)
  next
    case other
    then have "out = PassOn" "st' = st" using run by (simp_all add: policy_event_def ev)
    moreover have "cu' = cu" using ok(1) other by (auto simp: contract_step_def ev split: if_splits)
    ultimately show ?thesis using same other by (simp add: ev idents_after_other deltas_at_other)
  qed
qed

lemma policy_run_idents:
  assumes "tracks th cu st cd" "contract_run a evs cu = Inr cu'" "list_all (\<lambda>ev. json_ok (snd ev) \<and> tool_named ev) evs"
    and "policy_run th evs st = (fs, st')" "same_idents th (dict_get (open_blocks cu)) st mu md"
  shows "attributed md fs = filter (shown th \<circ> fst) (attributed mu evs)"
  using assms
proof (induction evs arbitrary: cu st cd fs mu md)
  case (Cons ev evs)
  obtain cu1 where cu1: "contract_step a ev cu = Inr cu1" "contract_run a evs cu1 = Inr cu'"
    using Cons.prems(2) by (cases "contract_step a ev cu") auto
  obtain out st1 where out: "policy_event th ev st = (out, st1)" by fastforce
  obtain fs1 where fs1: "policy_run th evs st1 = (fs1, st')" "fs = policy_frames ev out @ fs1"
    using Cons.prems(4) out by (auto split: prod.splits)
  have ev: "json_ok (snd ev)" "tool_named ev" using Cons.prems(3) by simp_all
  obtain cd1 where cd1: "tracks th cu1 st1 cd1" using policy_step [OF Cons.prems(1) cu1(1) ev(1) out] by auto
  have step: "attributed md (policy_frames ev out) = filter (shown th \<circ> fst) (deltas_at mu ev)"
    "same_idents th (dict_get (open_blocks cu1)) st1 (idents_after mu ev) (foldl idents_after md (policy_frames ev out))"
    using policy_step_idents [OF Cons.prems(1) cu1(1) ev(1) out ev(2) Cons.prems(5)] by simp_all
  have "attributed (foldl idents_after md (policy_frames ev out)) fs1 =
      filter (shown th \<circ> fst) (attributed (idents_after mu ev) evs)"
    using Cons.IH [OF cd1 cu1(2) _ fs1(1) step(2)] Cons.prems(3) by (simp add: comp_def)
  then show ?case using step(1) fs1(2) by (simp add: attributed_append comp_def)
qed simp


section \<open>Event texts\<close>

definition format_native_sse_event :: "pystr option \<Rightarrow> pystr \<Rightarrow> pystr" where
  "format_native_sse_event event_name data_text =
     (let name_lines = (case event_name of Some n \<Rightarrow> if n = [] then [] else [u ''event: '' @ n] | None \<Rightarrow> []) in
      str_join [10] (name_lines @ map (\<lambda>line. u ''data: '' @ line) (str_splitlines data_text)) @ [10, 10])"

fun native_lines :: "pystr option \<Rightarrow> pystr list \<Rightarrow> pystr list \<Rightarrow> pystr option \<times> pystr list" where
  "native_lines name parts [] = (name, parts)"
| "native_lines name parts (line # ls) =
     (if str_startswith line (u ''event:'') then native_lines (Some (str_strip (drop 6 line))) parts ls
      else if str_startswith line (u ''data:'') then native_lines name (parts @ [str_lstrip (drop 5 line)]) ls
      else native_lines name parts ls)"

definition parse_native_sse_event :: "pystr \<Rightarrow> pystr option \<times> pystr" where
  "parse_native_sse_event event =
     (case native_lines None [] (str_splitlines (str_strip event)) of (name, parts) \<Rightarrow> (name, str_join [10] parts))"

text \<open>\<open>data_text.strip().upper() == "[DONE]"\<close>: no other letter has one of these as its upper case.\<close>

definition is_terminal_openrouter_done_event :: "pystr option \<Rightarrow> pystr \<Rightarrow> bool" where
  "is_terminal_openrouter_done_event event_name data_text \<longleftrightarrow>
     (event_name = None \<or> event_name = Some (u ''data'') \<or> event_name = Some (u ''done'')) \<and>
     map (\<lambda>c. if 97 \<le> c \<and> c \<le> 122 then c - 32 else c) (str_strip data_text) = u ''[DONE]''"

definition block_event :: "pystr \<Rightarrow> bool" where
  "block_event name \<longleftrightarrow> name \<in> {u ''content_block_start'', u ''content_block_delta'', u ''content_block_stop''}"

definition transform_native_sse_block_event ::
    "bool \<Rightarrow> pystr \<Rightarrow> block_policy \<Rightarrow> py_exn + pystr option \<times> block_policy" where
  "transform_native_sse_block_event thinking_enabled event st =
     (case parse_native_sse_event event of (event_name, data_text) \<Rightarrow>
        case event_name of
          None \<Rightarrow> Inr (Some event, st)
        | Some name \<Rightarrow>
            if name = [] \<or> data_text = [] then Inr (Some event, st)
            else case json_loads data_text of
              None \<Rightarrow> Inr (Some event, st)
            | Some payload \<Rightarrow>
                if block_event name \<and> \<not> is_dict payload then Inl AttributeError
                else case policy_event thinking_enabled (name, payload) st of
                  (PassOn, st1) \<Rightarrow> Inr (Some event, st1)
                | (Dropped, st1) \<Rightarrow> Inr (None, st1)
                | (Sent fs, st1) \<Rightarrow>
                    Inr (Some (concat (map (\<lambda>(n, d). format_native_sse_event (Some n) (json_dumps d)) fs)), st1))"

text \<open>\<open>OpenRouterProvider._transform_stream_event\<close>: the end marker and everything after \<open>message_stop\<close> is dropped.\<close>

definition openrouter_transform :: "bool \<Rightarrow> pystr \<Rightarrow> block_policy \<Rightarrow> py_exn + pystr option \<times> block_policy" where
  "openrouter_transform thinking_enabled event st =
     (case parse_native_sse_event event of (event_name, data_text) \<Rightarrow>
        if np_message_stopped st \<or> is_terminal_openrouter_done_event event_name data_text then Inr (None, st)
        else transform_native_sse_block_event thinking_enabled event
          (if event_name = Some (u ''message_stop'') then st\<lparr>np_message_stopped := True\<rparr> else st))"

lemma format_native_dumps:
  assumes "name \<noteq> []" "json_ok d" "is_dict d"
  shows "format_native_sse_event (Some name) (json_dumps d) = format_sse_event name d"
proof -
  have "\<forall>c \<in> set (json_dumps d). \<not> is_linebreak c"
    using printable_dumps [OF assms(2)] printable_no_linebreak by (auto simp: list_all_iff)
  then have "str_splitlines (json_dumps d) = [json_dumps d]"
    using splitlines_no_break [of "json_dumps d" "[]"] dumps_dict_ends [OF assms(3)] by (simp add: str_splitlines_def)
  then show ?thesis using assms(1) by (simp add: format_native_sse_event_def format_sse_event_def)
qed

lemma strip_trailing:
  assumes "s \<noteq> []" "\<not> is_space (hd s)" "\<not> is_space (last s)" "\<forall>c \<in> set t. is_space c"
  shows "str_strip (s @ t) = s"
proof -
  have "str_lstrip (s @ t) = s @ t" using assms(1,2) by (cases s) (simp_all add: str_lstrip_def)
  moreover have "dropWhile is_space (rev t @ rev s) = rev s"
    using assms by (simp add: dropWhile_append dropWhile_eq_self_iff hd_rev)
  ultimately show ?thesis by (simp add: str_strip_def str_rstrip_def)
qed

lemma parse_native_frame:
  assumes "frame_ok (name, d)"
  shows "parse_native_sse_event (format_sse_event name d) = (Some name, json_dumps d)"
proof -
  note ok = assms [unfolded frame_ok_def fst_conv snd_conv]
  let ?l1 = "u ''event: '' @ name" and ?l2 = "u ''data: '' @ json_dumps d"
  have p1: "list_all ascii_printable ?l1" using ok printable_prefix by simp
  have p2: "list_all ascii_printable ?l2" using ok printable_prefix printable_dumps by simp
  have ends: "json_dumps d \<noteq> []" "hd (json_dumps d) = 123" "last (json_dumps d) = 125" using dumps_dict_ends ok by blast+
  have "str_strip ((?l1 @ 10 # ?l2) @ [10, 10]) = ?l1 @ 10 # ?l2"
  proof (rule strip_trailing)
    show "\<not> is_space (hd (?l1 @ 10 # ?l2))" by (simp add: is_space_def u_def)
    show "\<not> is_space (last (?l1 @ 10 # ?l2))" using ends by (simp add: is_space_def)
  qed (simp_all add: is_space_def)
  moreover have "str_splitlines (?l1 @ 10 # ?l2) = [?l1, ?l2]"
  proof -
    have "\<forall>c \<in> set ?l2. \<not> is_linebreak c" using p2 printable_no_linebreak by (auto simp: list_all_iff)
    then have "str_splitlines ?l2 = [?l2]" using splitlines_no_break [of ?l2 "[]"] by (simp add: str_splitlines_def)
    then show ?thesis using printable_line [OF p1, of ?l2] by simp
  qed
  moreover have "str_strip (32 # name) = name"
  proof -
    have "list_all ascii_printable name" "name \<noteq> []" using ok by simp_all
    then have "\<not> is_space (hd name) \<and> \<not> is_space (last name)"
      using ok printable_space by (metis last_in_set list.pred_set list.set_sel(1))
    then show ?thesis using ok strip_plain_ends by simp
  qed
  moreover have "str_lstrip (32 # json_dumps d) = json_dumps d"
    using ends by (cases "json_dumps d") (simp_all add: str_lstrip_def is_space_def)
  moreover have "format_sse_event name d = (?l1 @ 10 # ?l2) @ [10, 10]" by (simp add: format_sse_event_def)
  moreover have "drop 6 ?l1 = 32 # name" "drop 5 ?l2 = 32 # json_dumps d" by (simp_all add: u_def)
  ultimately show ?thesis by (simp add: parse_native_sse_event_def line_prefixes)
qed

text \<open>What the policy sends are frames that read back.\<close>

definition policy_ok :: "block_policy \<Rightarrow> bool" where
  "policy_ok st \<longleftrightarrow> (\<forall>i seg. dict_get (by_upstream st) i = Some seg \<longrightarrow> json_ok (last_start_block seg))"

lemma policy_ok_init: "policy_ok NativeSseBlockPolicyState"
  by (simp add: policy_ok_def NativeSseBlockPolicyState_def)

lemma json_ok_jset:
  assumes "is_dict j" "json_ok j" "json_ok v" "scalar_str k"
  shows "is_dict (jset k v j)" "json_ok (jset k v j)"
proof -
  have mem: "kv = (k, v) \<or> kv \<in> set d" if "kv \<in> set (dict_set k v d)" for kv and d :: "(pystr, json) dict"
    using that by (induction d) (auto split: if_splits)
  obtain d where d: "j = JObj d" using assms(1) by (rule is_dictE)
  show "is_dict (jset k v j)" by (simp add: d)
  show "json_ok (jset k v j)" using assms(2-4) mem [of _ d] by (force simp: d dict_wf_set)
qed

lemma scalar_index [simp]: "scalar_str (u ''index'')"
  by (simp add: u_def scalar_value_def)

lemma block_names_ok:
  assumes "name \<in> {u ''content_block_start'', u ''content_block_delta'', u ''content_block_stop''}" "is_dict d" "json_ok d"
  shows "frame_ok (name, d)"
  using assms by (auto simp: frame_ok_def u_def ascii_printable_def)

lemma frame_ok_renumbered:
  assumes "frame_ok (name, d)" "name \<in> {u ''content_block_start'', u ''content_block_delta'', u ''content_block_stop''}"
  shows "frame_ok (name, jset (u ''index'') (JInt i) d)"
proof (rule block_names_ok [OF assms(2)])
  have d: "is_dict d" "json_ok d" using assms(1) by (simp_all add: frame_ok_def)
  then show "is_dict (jset (u ''index'') (JInt i) d)" "json_ok (jset (u ''index'') (JInt i) d)"
    using json_ok_jset [OF d, of "JInt i" "u ''index''"] by simp_all
qed

lemma stop_frame_ok: "frame_ok (content_block_stop i)"
  unfolding content_block_stop_def by (rule block_names_ok) (simp_all add: u_def scalar_value_def)

lemma json_ok_get: "is_dict j \<Longrightarrow> json_ok j \<Longrightarrow> json_ok (jget k j)"
  using json_ok_jget by (elim is_dictE) simp

lemma scalar_digits: "scalar_str (show_int i)"
  using printable_show_int [of i] by (auto simp: list_all_iff ascii_printable_def scalar_value_def)

lemma scalar_fallback: "scalar_str (fallback_tool_id i)"
  using scalar_digits by (cases i) (auto simp: fallback_tool_id_def u_def scalar_value_def)

lemma synthetic_block_ok:
  assumes "json_ok b"
  shows "is_dict (synthetic_start_content_block k i b)" "json_ok (synthetic_start_content_block k i b)"
proof -
  have get: "json_ok (jget key b)" for key using json_ok_get [OF _ assms] by (cases b) simp_all
  have words: "scalar_str (u ''type'')" "scalar_str (u ''id'')" "scalar_str (u ''name'')" "scalar_str (u ''input'')"
    "scalar_str (u ''tool_use'')" "scalar_str (u ''thinking'')" "scalar_str (u ''text'')"
    by (simp_all add: u_def scalar_value_def)
  show "is_dict (synthetic_start_content_block k i b)" by (simp add: synthetic_start_content_block_def)
  have id: "json_ok (case jget (u ''id'') b of JStr t \<Rightarrow> if t = [] then JStr (fallback_tool_id i) else JStr t
      | _ \<Rightarrow> JStr (fallback_tool_id i))"
    using get [of "u ''id''"] scalar_fallback by (cases "jget (u ''id'') b") simp_all
  show "json_ok (synthetic_start_content_block k i b)"
    using get [of "u ''name''"] get [of "u ''input''"] id words scalar_fallback
    by (simp add: synthetic_start_content_block_def)
qed

lemma synthetic_frame_ok: "is_dict b \<Longrightarrow> json_ok b \<Longrightarrow> frame_ok (synthetic_start n b)"
  unfolding synthetic_start_def by (rule block_names_ok) (simp_all add: u_def scalar_value_def)

lemma policy_ok_set: "policy_ok st \<Longrightarrow> json_ok (last_start_block seg) \<Longrightarrow> policy_ok (st\<lparr>by_upstream := dict_set i seg (by_upstream st)\<rparr>)"
  by (simp add: policy_ok_def dict_simps)

lemma policy_ok_same: "by_upstream st' = by_upstream st \<Longrightarrow> policy_ok st \<Longrightarrow> policy_ok st'"
  by (simp add: policy_ok_def)

lemma policy_ok_close:
  "policy_ok st \<Longrightarrow> policy_ok (snd (synthetic_close_other_open_blocks st i))"
proof -
  have B: "dict_get (map (\<lambda>(i, b). (i, f i b)) B) j = map_option (f j) (dict_get B j)"
    for f :: "int \<Rightarrow> upstream_block \<Rightarrow> upstream_block" and B j
    by (induction B) auto
  assume "policy_ok st"
  then show ?thesis by (auto simp: policy_ok_def synthetic_close_other_open_blocks_def Let_def B)
qed

lemma close_frames_ok: "\<forall>f \<in> set (fst (synthetic_close_other_open_blocks st i)). frame_ok f"
  by (auto simp: synthetic_close_other_open_blocks_def Let_def stop_frame_ok)

lemma policy_start_cases:
  assumes "policy_start th d st = (out, st')"
  shows "out \<in> {PassOn, Dropped} \<and> by_upstream st' = by_upstream st \<or>
    (\<exists>i n ty. out = Sent (fst (synthetic_close_other_open_blocks st i) @ [(u ''content_block_start'', jset (u ''index'') (JInt n) d)]) \<and>
       st' = snd (allocate_new_segment (snd (synthetic_close_other_open_blocks st i)) i ty (jget (u ''content_block'') d)))"
  using assms
  by (auto simp: policy_start_def Let_def case_prod_beta simp del: should_drop_block_type.simps
      split: if_splits option.splits json.splits)

lemma policy_event_ok:
  assumes ok: "policy_ok st" "frame_ok ev" and run: "policy_event th ev st = (out, st')"
  shows "list_all frame_ok (policy_frames ev out) \<and> policy_ok st'"
proof -
  obtain name d where ev: "ev = (name, d)" by (cases ev)
  have d: "is_dict d" "json_ok d" using ok(2) by (simp_all add: frame_ok_def ev)
  note renumbered = frame_ok_renumbered [OF ok(2) [unfolded ev]]
  consider (start) "name = u ''content_block_start''" | (delta) "name = u ''content_block_delta''"
    | (stop) "name = u ''content_block_stop''"
    | (other) "name \<notin> {u ''content_block_start'', u ''content_block_delta'', u ''content_block_stop''}" by blast
  then show ?thesis
  proof cases
    case start
    have block: "json_ok (jget (u ''content_block'') d)" by (rule json_ok_get [OF d])
    from run start have "policy_start th d st = (out, st')" by (simp add: ev policy_event_def)
    from policy_start_cases [OF this] show ?thesis
    proof (elim disjE exE conjE)
      fix i n ty
      assume out: "out = Sent (fst (synthetic_close_other_open_blocks st i) @ [(u ''content_block_start'', jset (u ''index'') (JInt n) d)])"
        and st': "st' = snd (allocate_new_segment (snd (synthetic_close_other_open_blocks st i)) i ty (jget (u ''content_block'') d))"
      have "frame_ok (u ''content_block_start'', jset (u ''index'') (JInt n) d)" using renumbered start by simp
      moreover have "policy_ok st'"
        using policy_ok_close [OF ok(1), of i] block by (simp add: st' allocate_new_segment_def policy_ok_def dict_simps)
      ultimately show ?thesis using close_frames_ok [of st i] by (simp add: out list_all_iff)
    next
      assume "out \<in> {PassOn, Dropped}" "by_upstream st' = by_upstream st"
      then show ?thesis using ok(2) policy_ok_same [OF _ ok(1), of st'] by auto
    qed
  next
    case delta
    have frame: "frame_ok (u ''content_block_delta'', jset (u ''index'') (JInt n) d)" for n using renumbered delta by simp
    have stored: "json_ok (if is_dict b \<and> jget (u ''type'') b = JStr (u ''tool_use'') then b else JNull)" if "json_ok b" for b
      using that by simp
    show ?thesis
    proof (cases "out \<in> {PassOn, Dropped} \<or> (\<exists>n. out = Sent [(u ''content_block_delta'', jset (u ''index'') (JInt n) d)])")
      case True
      then have "by_upstream st' = by_upstream st"
        using run delta by (auto simp: ev policy_event_def policy_delta_def Let_def allocate_new_segment_def
            simp del: should_drop_block_type.simps delta_type_to_block_kind.simps split: if_splits option.splits prod.splits)
      then show ?thesis using True ok(2) frame policy_ok_same [OF _ ok(1), of st'] by auto
    next
      case False
      then obtain n k i b where out: "out = Sent [synthetic_start n (synthetic_start_content_block k (jget (u ''index'') d) b),
            (u ''content_block_delta'', jset (u ''index'') (JInt n) d)]"
        and b: "json_ok b" and st': "policy_ok st'"
      proof -
        obtain i k where i: "as_int (jget (u ''index'') d) = Some i" "delta_type_to_block_kind (jget (u ''type'') (jget (u ''delta'') d)) = Some k"
          using run delta False by (auto simp: ev policy_event_def policy_delta_def Let_def
              simp del: should_drop_block_type.simps delta_type_to_block_kind.simps split: if_splits option.splits)
        show ?thesis
        proof (cases "dict_get (by_upstream st) i")
          case None
          let ?b = "synthetic_start_content_block k (jget (u ''index'') d) JNull"
          have "out = Sent [synthetic_start (np_next st) ?b, (u ''content_block_delta'', jset (u ''index'') (JInt (np_next st)) d)]"
            "st' = snd (allocate_new_segment st i k ?b)"
            using run delta False None i
            by (auto simp: ev policy_event_def policy_delta_def Let_def allocate_new_segment_def
                simp del: should_drop_block_type.simps delta_type_to_block_kind.simps split: if_splits)
          moreover have "policy_ok (snd (allocate_new_segment st i k ?b))"
            using ok(1) synthetic_block_ok [of JNull] by (simp add: allocate_new_segment_def policy_ok_def dict_simps)
          ultimately show ?thesis using that [of "np_next st" k JNull] by simp
        next
          case (Some seg)
          let ?c = "last_start_block seg"
          let ?b = "if is_dict ?c \<and> jget (u ''type'') ?c = JStr (u ''tool_use'') then ?c else JNull"
          have c: "json_ok ?c" using ok(1) Some by (auto simp: policy_ok_def)
          have "out = Sent [synthetic_start (np_next st) (synthetic_start_content_block k (jget (u ''index'') d) ?b),
              (u ''content_block_delta'', jset (u ''index'') (JInt (np_next st)) d)]"
            "st' = snd (allocate_new_segment (st\<lparr>pending_suppressed_stops := pending_suppressed_stops st - {i}\<rparr>) i k ?c)"
            using run delta False Some i
            by (auto simp: ev policy_event_def policy_delta_def Let_def allocate_new_segment_def
                simp del: should_drop_block_type.simps delta_type_to_block_kind.simps split: if_splits)
          moreover have "policy_ok (snd (allocate_new_segment (st\<lparr>pending_suppressed_stops := pending_suppressed_stops st - {i}\<rparr>) i k ?c))"
            using ok(1) c by (simp add: allocate_new_segment_def policy_ok_def dict_simps)
          ultimately show ?thesis using that [of "np_next st" k ?b] stored [OF c] by simp
        qed
      qed
      have "frame_ok (synthetic_start n (synthetic_start_content_block k (jget (u ''index'') d) b))"
        using synthetic_block_ok [OF b] by (rule synthetic_frame_ok)
      then show ?thesis using frame st' by (simp add: out)
    qed
  next
    case stop
    then show ?thesis
      using run ok renumbered
      by (auto simp: ev policy_event_def policy_stop_def policy_ok_def dict_simps split: if_splits option.splits)
  next
    case other
    then show ?thesis using run ok by (simp add: ev policy_event_def)
  qed
qed

text \<open>On the text of a frame the transformation does what the policy does on the frame.\<close>

lemma transform_frame:
  assumes "frame_ok ev" "policy_ok st" "policy_event th ev st = (out, st')"
  shows "transform_native_sse_block_event th (format_sse_event (fst ev) (snd ev)) st =
    Inr (if out = Dropped then None else Some (wire (policy_frames ev out)), st')"
proof -
  obtain name d where ev: "ev = (name, d)" by (cases ev)
  have d: "name \<noteq> []" "is_dict d" "json_ok d" using assms(1) by (simp_all add: frame_ok_def ev)
  note parse = parse_native_frame [OF assms(1) [unfolded ev]]
  have dumped: "json_dumps d \<noteq> []" "json_loads (json_dumps d) = Some d" using dumps_dict_ends dumps_loads d by blast+
  have frames: "list_all frame_ok (policy_frames ev out)" using policy_event_ok [OF assms(2,1,3)] ..
  have "format_native_sse_event (Some n) (json_dumps p) = format_sse_event n p" if "frame_ok (n, p)" for n p
    using that format_native_dumps by (simp add: frame_ok_def)
  then have "concat (map (\<lambda>(n, d). format_native_sse_event (Some n) (json_dumps d)) fs) = wire fs" if "list_all frame_ok fs" for fs
    using that by (induction fs) (auto simp: wire_def)
  then show ?thesis
    using d parse dumped assms(3) frames
    by (cases out) (simp_all add: transform_native_sse_block_event_def ev wire_def)
qed

section \<open>Examples\<close>

definition block_start_frame :: "int \<Rightarrow> (string \<times> json) list \<Rightarrow> frame" where
  "block_start_frame i block = (u ''content_block_start'',
     JObj [(u ''index'', JInt i), (u ''content_block'', JObj (map (\<lambda>(k, v). (u k, v)) block))])"

definition block_delta_frame :: "int \<Rightarrow> string \<Rightarrow> string \<Rightarrow> string \<Rightarrow> frame" where
  "block_delta_frame i ty key t = (u ''content_block_delta'',
     JObj [(u ''index'', JInt i), (u ''delta'', JObj [(u ''type'', JStr (u ty)), (u key, JStr (u t))])])"

definition block_stop_frame :: "int \<Rightarrow> frame" where
  "block_stop_frame i = (u ''content_block_stop'', JObj [(u ''index'', JInt i)])"

text \<open>Thinking, cut by a tool use, goes on under its old index.\<close>

definition cut_thinking :: "frame list" where
  "cut_thinking =
     [(u ''message_start'', JObj []),
      block_start_frame 0 [(''type'', JStr (u ''thinking'')), (''thinking'', JStr [])],
      block_delta_frame 0 ''thinking_delta'' ''thinking'' ''I should'',
      block_start_frame 1 [(''type'', JStr (u ''tool_use'')), (''id'', JStr (u ''toolu_1'')), (''name'', JStr (u ''Read'')), (''input'', JObj [])],
      block_delta_frame 1 ''input_json_delta'' ''partial_json'' ''{}'',
      block_delta_frame 0 ''thinking_delta'' ''thinking'' ''read'',
      block_stop_frame 0, block_stop_frame 1, (u ''message_stop'', JObj [])]"

lemma cut_thinking_ok:
  "check_contract False cut_thinking = Inr ()" "list_all (json_ok \<circ> snd) cut_thinking"
  "list_all (\<lambda>ev. json_ok (snd ev) \<and> tool_named ev) cut_thinking" "list_ex (visible_start False) cut_thinking"
  "list_ex (visible_start True) cut_thinking"
  by code_simp+



text \<open>
  A start closes the other open blocks, but the reopening of a block does not: the tool use that
  cut the thinking is still open when the thinking is reopened, so the client has two open blocks.
\<close>

lemma reopened_overlaps:
  "map_sum id (\<lambda>c. map fst (open_blocks c))
     (contract_run False (fst (policy_run True (take 6 cut_thinking) NativeSseBlockPolicyState)) contract_init) = Inr [1, 2]"
  by code_simp

end
