(* ===== verification/EmittedSse.thy ===== *)
theory EmittedSse
  imports NativePolicy Recovery
begin

text \<open>
  The tracker of emitted events (\<open>core/anthropic/emitted_sse_tracker.py\<close>): it reads back what a native stream
  has sent to the client, so that a stream that breaks off can be closed, continued or ended with an
  error text at a fresh index; and the standard error stream of \<open>core/anthropic/provider_stream_error.py\<close>.
\<close>

section \<open>State\<close>

record emitted_block =
  eb_index :: int
  eb_type :: pystr
  eb_open :: bool
  eb_tool_id :: pystr
  eb_name :: pystr
  eb_parts :: "pystr list"

definition EmittedBlockState :: "int \<Rightarrow> pystr \<Rightarrow> emitted_block" where
  "EmittedBlockState i ty =
     \<lparr>eb_index = i, eb_type = ty, eb_open = True, eb_tool_id = [], eb_name = [], eb_parts = []\<rparr>"

definition eb_content :: "emitted_block \<Rightarrow> pystr" where
  "eb_content b = concat (eb_parts b)"

text \<open>\<open>open_stack\<close> is in Python's order: its last element is the top.\<close>

record tracker =
  tk_buf :: pystr
  open_stack :: "int list"
  max_index :: int
  tk_blocks :: "(int, emitted_block) dict"
  tk_message_id :: "pystr option"
  tk_model :: pystr
  tk_stop_reason :: "pystr option"
  tk_message_stopped :: bool

definition EmittedNativeSseTracker :: tracker where
  "EmittedNativeSseTracker =
     \<lparr>tk_buf = [], open_stack = [], max_index = - 1, tk_blocks = [], tk_message_id = None, tk_model = [],
      tk_stop_reason = None, tk_message_stopped = False\<rparr>"

section \<open>Observing events\<close>

definition nonempty :: "json \<Rightarrow> pystr option" where
  "nonempty v = (case v of JStr s \<Rightarrow> if s = [] then None else Some s | _ \<Rightarrow> None)"

definition observe_message_start :: "json \<Rightarrow> tracker \<Rightarrow> tracker" where
  "observe_message_start data tr =
     (let message = jget (u ''message'') data in
      if \<not> is_dict message then tr
      else
        let tr1 = (case nonempty (jget (u ''id'') message) of Some i \<Rightarrow> tr\<lparr>tk_message_id := Some i\<rparr> | None \<Rightarrow> tr)
        in case nonempty (jget (u ''model'') message) of Some m \<Rightarrow> tr1\<lparr>tk_model := m\<rparr> | None \<Rightarrow> tr1)"

text \<open>\<open>str(block.get("type", ""))\<close>; the \<open>repr\<close> of a list or dict is none of the known types, and is empty here.\<close>

definition block_state :: "int \<Rightarrow> json \<Rightarrow> emitted_block" where
  "block_state i block =
     (let ty = (case StreamContract.text_of (jget_default (u ''type'') (JStr []) block) of Some t \<Rightarrow> t | None \<Rightarrow> []);
          state = EmittedBlockState i ty
      in if ty = u ''tool_use'' then
           state\<lparr>eb_tool_id := PyJson.text_of (jget (u ''id'') block), eb_name := PyJson.text_of (jget (u ''name'') block)\<rparr>
         else if ty = u ''text'' then
           state\<lparr>eb_parts := (case nonempty (jget (u ''text'') block) of Some t \<Rightarrow> [t] | None \<Rightarrow> [])\<rparr>
         else if ty = u ''thinking'' then
           state\<lparr>eb_parts := (case nonempty (jget (u ''thinking'') block) of Some t \<Rightarrow> [t] | None \<Rightarrow> [])\<rparr>
         else state)"

definition observe_start :: "json \<Rightarrow> tracker \<Rightarrow> tracker" where
  "observe_start data tr =
     (case as_int (jget (u ''index'') data) of
        None \<Rightarrow> tr
      | Some i \<Rightarrow>
          let tr1 = tr\<lparr>max_index := max (max_index tr) i, open_stack := open_stack tr @ [i]\<rparr>;
              block = jget (u ''content_block'') data
          in if is_dict block then tr1\<lparr>tk_blocks := dict_set i (block_state i block) (tk_blocks tr1)\<rparr> else tr1)"

definition add_part :: "json \<Rightarrow> emitted_block \<Rightarrow> emitted_block" where
  "add_part v b = (case v of JStr s \<Rightarrow> b\<lparr>eb_parts := eb_parts b @ [s]\<rparr> | _ \<Rightarrow> b)"

definition observe_delta :: "json \<Rightarrow> tracker \<Rightarrow> tracker" where
  "observe_delta data tr =
     (case as_int (jget (u ''index'') data) of
        None \<Rightarrow> tr
      | Some i \<Rightarrow>
          (case dict_get (tk_blocks tr) i of
             None \<Rightarrow> tr
           | Some b \<Rightarrow>
               let delta = jget (u ''delta'') data in
               if \<not> is_dict delta then tr
               else tr\<lparr>tk_blocks := dict_set i
                 (if eb_type b = u ''text'' then add_part (jget (u ''text'') delta) b
                  else if eb_type b = u ''thinking'' then add_part (jget (u ''thinking'') delta) b
                  else if eb_type b = u ''tool_use'' then add_part (jget (u ''partial_json'') delta) b
                  else b) (tk_blocks tr)\<rparr>))"

definition close_block :: "int \<Rightarrow> (int, emitted_block) dict \<Rightarrow> (int, emitted_block) dict" where
  "close_block i d = (case dict_get d i of None \<Rightarrow> d | Some b \<Rightarrow> dict_set i (b\<lparr>eb_open := False\<rparr>) d)"

text \<open>The top of the stack is popped, another open block removed at its first place.\<close>

definition observe_stop :: "json \<Rightarrow> tracker \<Rightarrow> tracker" where
  "observe_stop data tr =
     (case as_int (jget (u ''index'') data) of
        None \<Rightarrow> tr
      | Some i \<Rightarrow>
          tr\<lparr>open_stack :=
               (if open_stack tr \<noteq> [] \<and> last (open_stack tr) = i then butlast (open_stack tr) else remove1 i (open_stack tr)),
             tk_blocks := close_block i (tk_blocks tr)\<rparr>)"

definition observe_message_delta :: "json \<Rightarrow> tracker \<Rightarrow> tracker" where
  "observe_message_delta data tr =
     (case jget (u ''delta'') data of
        JObj d \<Rightarrow> (case jget (u ''stop_reason'') (JObj d) of JStr r \<Rightarrow> tr\<lparr>tk_stop_reason := Some r\<rparr> | _ \<Rightarrow> tr)
      | _ \<Rightarrow> tr)"

definition observe :: "frame \<Rightarrow> tracker \<Rightarrow> tracker" where
  "observe ev tr =
     (case ev of (name, data) \<Rightarrow>
        if name = u ''message_start'' then observe_message_start data tr
        else if name = u ''content_block_start'' then observe_start data tr
        else if name = u ''content_block_delta'' then observe_delta data tr
        else if name = u ''content_block_stop'' then observe_stop data tr
        else if name = u ''message_delta'' then observe_message_delta data tr
        else if name = u ''message_stop'' then tr\<lparr>tk_message_stopped := True\<rparr>
        else tr)"

definition observe_all :: "frame list \<Rightarrow> tracker \<Rightarrow> tracker" where
  "observe_all evs tr = foldl (\<lambda>tr ev. observe ev tr) tr evs"

text \<open>The events of one frame's text.\<close>

definition frame_text_events :: "pystr \<Rightarrow> frame list" where
  "frame_text_events frame =
     (if str_strip frame = [] then []
      else map (\<lambda>e. (ev_name e, ev_data e)) (parse_sse_lines (str_splitlines frame)))"

function feed_frames :: "pystr \<Rightarrow> tracker \<Rightarrow> tracker" where
  "feed_frames buf tr =
     (case str_find [10, 10] buf of
        None \<Rightarrow> tr\<lparr>tk_buf := buf\<rparr>
      | Some sep \<Rightarrow> feed_frames (drop (sep + 2) buf) (observe_all (frame_text_events (take sep buf)) tr))"
  by pat_completeness auto
termination
  by (relation "measure (\<lambda>(buf, _). length buf)") (auto dest: str_find_le_length)

declare feed_frames.simps [simp del]

definition tracker_feed :: "pystr \<Rightarrow> tracker \<Rightarrow> tracker" where
  "tracker_feed chunk tr = feed_frames (tk_buf tr @ chunk) tr"

section \<open>Queries\<close>

definition next_content_index :: "tracker \<Rightarrow> int" where
  "next_content_index tr = max_index tr + 1"

definition iter_close_unclosed_blocks :: "tracker emitter" where
  "iter_close_unclosed_blocks tr =
     (map content_block_stop (rev (open_stack tr)),
      tr\<lparr>open_stack := [], tk_blocks := foldl (\<lambda>d i. close_block i d) (tk_blocks tr) (rev (open_stack tr))\<rparr>, None)"

definition blocks_of_type :: "string \<Rightarrow> tracker \<Rightarrow> emitted_block list" where
  "blocks_of_type ty tr = filter (\<lambda>b. eb_type b = u ty) (dict_values (tk_blocks tr))"

definition emitted_text :: "tracker \<Rightarrow> pystr" where
  "emitted_text tr = concat (map eb_content (blocks_of_type ''text'' tr))"

definition emitted_thinking :: "tracker \<Rightarrow> pystr" where
  "emitted_thinking tr = concat (map eb_content (blocks_of_type ''thinking'' tr))"

definition tk_tool_blocks :: "tracker \<Rightarrow> emitted_block list" where
  "tk_tool_blocks tr = blocks_of_type ''tool_use'' tr"

definition has_tool_block :: "tracker \<Rightarrow> bool" where
  "has_tool_block tr \<longleftrightarrow> tk_tool_blocks tr \<noteq> []"

definition has_content_block :: "tracker \<Rightarrow> bool" where
  "has_content_block tr \<longleftrightarrow> tk_blocks tr \<noteq> []"

definition tool_block_complete :: "validator \<Rightarrow> (pystr, tool_schema) dict \<Rightarrow> emitted_block \<Rightarrow> bool" where
  "tool_block_complete validates schemas b \<longleftrightarrow>
     eb_tool_id b \<noteq> [] \<and> eb_name b \<noteq> [] \<and> parse_complete_tool_input validates (eb_content b) (eb_name b) schemas \<noteq> None"

definition can_salvage_tool_use :: "validator \<Rightarrow> (pystr, tool_schema) dict \<Rightarrow> tracker \<Rightarrow> bool" where
  "can_salvage_tool_use validates schemas tr \<longleftrightarrow>
     tk_tool_blocks tr \<noteq> [] \<and> list_all (tool_block_complete validates schemas) (tk_tool_blocks tr)"

definition last_open_block :: "pystr \<Rightarrow> tracker \<Rightarrow> (int \<times> emitted_block) option" where
  "last_open_block ty tr =
     List.find (\<lambda>(i, b). eb_type b = ty \<and> eb_open b)
       (List.map_filter (\<lambda>i. map_option (Pair i) (dict_get (tk_blocks tr) i)) (rev (open_stack tr)))"

section \<open>Continuing and ending a stream\<close>

text \<open>\<open>append_text_suffix\<close> and \<open>append_thinking_suffix\<close> differ in the names only: the block type and its delta type.\<close>

definition append_suffix :: "pystr \<Rightarrow> pystr \<Rightarrow> pystr \<Rightarrow> tracker emitter" where
  "append_suffix ty delta_type sfx tr =
     (if sfx = [] then ([], tr, None)
      else case last_open_block ty tr of
        Some (i, b) \<Rightarrow>
          ([content_block_delta (eb_index b) delta_type sfx],
           tr\<lparr>tk_blocks := dict_set i (b\<lparr>eb_parts := eb_parts b @ [sfx]\<rparr>) (tk_blocks tr)\<rparr>, None)
      | None \<Rightarrow>
          let i = next_content_index tr in
          ([content_block_start i ty [], content_block_delta i delta_type sfx],
           tr\<lparr>max_index := max (max_index tr) i, open_stack := open_stack tr @ [i],
              tk_blocks := dict_set i ((EmittedBlockState i ty)\<lparr>eb_parts := [sfx]\<rparr>) (tk_blocks tr)\<rparr>, None))"

definition append_text_suffix :: "pystr \<Rightarrow> tracker emitter" where
  "append_text_suffix = append_suffix (u ''text'') (u ''text_delta'')"

definition append_thinking_suffix :: "pystr \<Rightarrow> tracker emitter" where
  "append_thinking_suffix = append_suffix (u ''thinking'') (u ''thinking_delta'')"

text \<open>The block a tool index names; a block is found in the dict under its own index.\<close>

definition append_tool_repair_suffix :: "nat \<Rightarrow> pystr \<Rightarrow> tracker emitter" where
  "append_tool_repair_suffix tool_index sfx tr =
     (if length (tk_tool_blocks tr) \<le> tool_index \<or> sfx = [] then ([], tr, None)
      else
        let b = tk_tool_blocks tr ! tool_index in
        ([content_block_delta (eb_index b) (u ''input_json_delta'') sfx],
         tr\<lparr>tk_blocks := dict_set (eb_index b) (b\<lparr>eb_parts := eb_parts b @ [sfx]\<rparr>) (tk_blocks tr)\<rparr>, None))"

definition success_delta :: "pystr \<Rightarrow> frame" where
  "success_delta stop_reason =
     (u ''message_delta'',
      JObj [(u ''type'', JStr (u ''message_delta'')),
            (u ''delta'', JObj [(u ''stop_reason'', JStr stop_reason), (u ''stop_sequence'', JNull)]),
            (u ''usage'', JObj [(u ''input_tokens'', JInt 0), (u ''output_tokens'', JInt 1)])])"

definition iter_success_tail :: "pystr \<Rightarrow> tracker emitter" where
  "iter_success_tail stop_reason =
     emit_seq iter_close_unclosed_blocks
       (emit_seq (emit_if (\<lambda>tr. tk_stop_reason tr = None) (emit_frame (success_delta stop_reason)))
         (emit_if (\<lambda>tr. \<not> tk_message_stopped tr)
           (emit_frame (u ''message_stop'', JObj [(u ''type'', JStr (u ''message_stop''))]))))"

definition accept_tool_repair :: "validator \<Rightarrow> nat \<Rightarrow> pystr \<Rightarrow> (pystr, tool_schema) dict \<Rightarrow> tracker \<Rightarrow> pystr option" where
  "accept_tool_repair validates tool_index candidate schemas tr =
     (if length (tk_tool_blocks tr) \<le> tool_index then None
      else
        let b = tk_tool_blocks tr ! tool_index in
        map_option tr_suffix (accept_tool_json_repair validates (eb_content b) candidate (eb_name b) schemas))"

definition continuation_text_suffix :: "pystr \<Rightarrow> tracker \<Rightarrow> pystr option" where
  "continuation_text_suffix candidate tr = continuation_suffix (emitted_text tr) candidate"

definition continuation_thinking_suffix :: "pystr \<Rightarrow> tracker \<Rightarrow> pystr option" where
  "continuation_thinking_suffix candidate tr = continuation_suffix (emitted_thinking tr) candidate"

text \<open>An error text in a block of its own, then the end of the message.\<close>

definition error_text_and_stop :: "pystr \<Rightarrow> sse_builder emitter" where
  "error_text_and_stop message =
     emit_seq (emit_error message) (emit_seq (message_delta (u ''end_turn'') (Some 1)) message_stop)"

definition iter_midstream_error_tail :: "pystr \<Rightarrow> pystr \<Rightarrow> pystr \<Rightarrow> json \<Rightarrow> tracker \<Rightarrow> frame list" where
  "iter_midstream_error_tail fresh_id request_model message tokens tr =
     (let mid = (case tk_message_id tr of Some i \<Rightarrow> if i = [] then fresh_id else i | None \<Rightarrow> fresh_id);
          mdl = (if tk_model tr = [] then request_model else tk_model tr);
          sse = SSEBuilder_init mid mdl tokens
      in fst (error_text_and_stop message (sse\<lparr>blocks := (blocks sse)\<lparr>next_index := next_content_index tr\<rparr>\<rparr>)))"

definition iter_provider_stream_error_sse_events :: "pystr \<Rightarrow> pystr \<Rightarrow> json \<Rightarrow> pystr \<Rightarrow> bool \<Rightarrow> frame list" where
  "iter_provider_stream_error_sse_events mid request_model tokens message sent_any_event =
     fst (emit_seq (emit_if (\<lambda>_. \<not> sent_any_event) message_start) (error_text_and_stop message)
       (SSEBuilder_init mid request_model tokens))"

section \<open>Chunks do not matter\<close>

text \<open>Observing an event neither reads nor writes the buffer.\<close>

lemma observe_buf: "observe ev (tr\<lparr>tk_buf := x\<rparr>) = (observe ev tr)\<lparr>tk_buf := x\<rparr>"
proof -
  have start: "observe_message_start d (tr\<lparr>tk_buf := x\<rparr>) = (observe_message_start d tr)\<lparr>tk_buf := x\<rparr>" for d
    by (cases "nonempty (jget (u ''id'') (jget (u ''message'') d))"; cases "nonempty (jget (u ''model'') (jget (u ''message'') d))")
      (simp_all add: observe_message_start_def Let_def)
  have block_start: "observe_start d (tr\<lparr>tk_buf := x\<rparr>) = (observe_start d tr)\<lparr>tk_buf := x\<rparr>" for d
    by (cases "as_int (jget (u ''index'') d)") (simp_all add: observe_start_def Let_def)
  have delta: "observe_delta d (tr\<lparr>tk_buf := x\<rparr>) = (observe_delta d tr)\<lparr>tk_buf := x\<rparr>" for d
    by (cases "as_int (jget (u ''index'') d)"; cases "dict_get (tk_blocks tr) (the (as_int (jget (u ''index'') d)))")
      (simp_all add: observe_delta_def Let_def)
  have stop: "observe_stop d (tr\<lparr>tk_buf := x\<rparr>) = (observe_stop d tr)\<lparr>tk_buf := x\<rparr>" for d
    by (cases "as_int (jget (u ''index'') d)") (simp_all add: observe_stop_def)
  have message: "observe_message_delta d (tr\<lparr>tk_buf := x\<rparr>) = (observe_message_delta d tr)\<lparr>tk_buf := x\<rparr>" for d
    by (simp add: observe_message_delta_def split: json.split)
  obtain name d where "ev = (name, d)" by (cases ev)
  then show ?thesis by (simp add: observe_def start block_start delta stop message)
qed

lemma observe_all_buf: "observe_all evs (tr\<lparr>tk_buf := x\<rparr>) = (observe_all evs tr)\<lparr>tk_buf := x\<rparr>"
  by (induction evs arbitrary: tr) (simp_all add: observe_all_def observe_buf)

lemma feed_frames_buf: "feed_frames buf (tr\<lparr>tk_buf := x\<rparr>) = feed_frames buf tr"
proof (induction buf tr rule: feed_frames.induct)
  case (1 buf tr)
  show ?case
  proof (cases "str_find [10, 10] buf")
    case None
    then show ?thesis by (simp add: feed_frames.simps [of buf])
  next
    case (Some sep)
    show ?thesis
      using 1 [OF Some] Some
      by (simp only: feed_frames.simps [of buf tr] feed_frames.simps [of buf "tr\<lparr>tk_buf := x\<rparr>"] observe_all_buf option.case)
  qed
qed

lemma str_find_append: "str_find sub a = Some i \<Longrightarrow> str_find sub (a @ b) = Some i"
proof (induction a arbitrary: i)
  case Nil
  then show ?case by (cases b) (auto split: if_splits)
next
  case (Cons c a)
  show ?case
  proof (cases "prefix sub (c # a)")
    case True
    then have "prefix sub (c # a @ b)" using prefix_prefix [of sub "c # a" b] by simp
    then show ?thesis using Cons.prems True by simp
  next
    case False
    then obtain j where j: "str_find sub a = Some j" "i = Suc j" using Cons.prems by auto
    have "\<not> prefix sub (c # a @ b)"
      using False str_find_le_length [OF j(1)] prefix_length_prefix [of sub "c # a @ b" "c # a"] by auto
    then show ?thesis using Cons.IH [OF j(1)] j(2) by simp
  qed
qed

lemma feed_frames_append: "feed_frames (a @ b) tr = feed_frames (tk_buf (feed_frames a tr) @ b) (feed_frames a tr)"
proof (induction a tr rule: feed_frames.induct)
  case (1 a tr)
  show ?case
  proof (cases "str_find [10, 10] a")
    case None
    then have "feed_frames a tr = tr\<lparr>tk_buf := a\<rparr>" by (simp add: feed_frames.simps)
    then show ?thesis by (simp add: feed_frames_buf)
  next
    case (Some sep)
    let ?tr = "observe_all (frame_text_events (take sep a)) tr"
    have le: "sep + 2 \<le> length a" using str_find_le_length [OF Some] by simp
    have "feed_frames (a @ b) tr = feed_frames (drop (sep + 2) a @ b) ?tr"
      using str_find_append [OF Some, of b] le by (simp add: feed_frames.simps [of "a @ b"])
    moreover have "feed_frames a tr = feed_frames (drop (sep + 2) a) ?tr" using Some by (simp add: feed_frames.simps [of a])
    ultimately show ?thesis using 1 [OF Some] by simp
  qed
qed

text \<open>
  However the emitted text is cut into chunks, the tracker ends in the same state.
\<close>

theorem tracker_chunks: "foldl (\<lambda>tr chunk. tracker_feed chunk tr) EmittedNativeSseTracker chunks =
    tracker_feed (concat chunks) EmittedNativeSseTracker"
proof -
  have feed: "foldl (\<lambda>tr chunk. tracker_feed chunk tr) (feed_frames a tr) chunks = feed_frames (a @ concat chunks) tr" for a tr
  proof (induction chunks arbitrary: a)
    case (Cons c cs)
    have "tracker_feed c (feed_frames a tr) = feed_frames (a @ c) tr" by (simp add: tracker_feed_def feed_frames_append [of a c])
    then show ?case using Cons.IH [of "a @ c"] by simp
  qed simp
  have start: "feed_frames [] EmittedNativeSseTracker = EmittedNativeSseTracker"
    by (simp add: feed_frames.simps EmittedNativeSseTracker_def)
  from feed [of "[]" EmittedNativeSseTracker] show ?thesis
    unfolding start by (simp add: tracker_feed_def EmittedNativeSseTracker_def)
qed

section \<open>Reading back frames\<close>

lemma find_blank_skip: "10 \<notin> set l \<Longrightarrow> str_find [10, 10] (l @ s) = map_option ((+) (length l)) (str_find [10, 10] s)"
  by (induction l; cases "str_find [10, 10] s") auto

lemma printable_no_newline: "list_all ascii_printable s \<Longrightarrow> 10 \<notin> set s"
  by (auto simp: list_all_iff ascii_printable_def)

lemma feed_one_frame:
  assumes "frame_ok (name, d)"
  shows "feed_frames (format_sse_event name d @ r) tr = feed_frames r (observe (name, d) tr)"
proof -
  note ok = assms [unfolded frame_ok_def fst_conv snd_conv]
  let ?l1 = "u ''event: '' @ name" and ?l2 = "u ''data: '' @ json_dumps d"
  have p1: "list_all ascii_printable ?l1" using ok printable_prefix by simp
  have p2: "list_all ascii_printable ?l2" using ok printable_prefix printable_dumps by simp
  have split: "format_sse_event name d @ r = ?l1 @ 10 # ?l2 @ 10 # 10 # r" by (simp add: format_sse_event_def)
  obtain c t where l2: "?l2 = c # t" "c \<noteq> 10" by (simp add: u_def)
  have "str_find [10, 10] (?l2 @ 10 # 10 # r) = Some (length ?l2)"
    using find_blank_skip [OF printable_no_newline [OF p2]] by simp
  moreover have "\<not> prefix [10, 10] (10 # ?l2 @ 10 # 10 # r)" unfolding l2(1) using l2(2) by simp
  ultimately have "str_find [10, 10] (10 # ?l2 @ 10 # 10 # r) = Some (Suc (length ?l2))" by (simp del: prefix_code)
  then have found: "str_find [10, 10] (format_sse_event name d @ r) = Some (length (?l1 @ 10 # ?l2))"
    unfolding split using find_blank_skip [OF printable_no_newline [OF p1]] by simp
  have taken: "take (length (?l1 @ 10 # ?l2)) (format_sse_event name d @ r) = ?l1 @ 10 # ?l2"
    "drop (length (?l1 @ 10 # ?l2) + 2) (format_sse_event name d @ r) = r"
  proof -
    have "take (length m) (m @ 10 # 10 # r) = m" "drop (length m + 2) (m @ 10 # 10 # r) = r" for m :: pystr by simp_all
    from this [of "?l1 @ 10 # ?l2"] show "take (length (?l1 @ 10 # ?l2)) (format_sse_event name d @ r) = ?l1 @ 10 # ?l2"
      "drop (length (?l1 @ 10 # ?l2) + 2) (format_sse_event name d @ r) = r"
      unfolding split append_assoc append_Cons by blast+
  qed
  have "frame_text_events (?l1 @ 10 # ?l2) = [(name, d)]"
  proof -
    have "\<forall>c \<in> set ?l2. \<not> is_linebreak c" using p2 printable_no_linebreak by (auto simp: list_all_iff)
    then have "str_splitlines ?l2 = [?l2]" using splitlines_no_break [of ?l2 "[]"] by (simp add: str_splitlines_def)
    then have lines: "str_splitlines (?l1 @ 10 # ?l2) = [?l1, ?l2]" using printable_line [OF p1, of ?l2] by simp
    have "list_all ascii_printable name" "name \<noteq> []" using ok by simp_all
    then have "\<not> is_space (hd name) \<and> \<not> is_space (last name)"
      using ok printable_space by (metis last_in_set list.pred_set list.set_sel(1))
    then have "str_strip name = name" using ok strip_plain_ends by blast
    moreover have "str_strip (json_dumps d) = json_dumps d" using ok strip_dumps by blast
    moreover have "str_strip (?l1 @ 10 # ?l2) \<noteq> []"
    proof -
      have "is_dict d" using ok by simp
      then have "\<not> is_space (hd (?l1 @ 10 # ?l2)) \<and> \<not> is_space (last (?l1 @ 10 # ?l2))"
        using dumps_dict_ends [of d] by (simp add: is_space_def u_def)
      then show ?thesis using strip_plain_ends [of "?l1 @ 10 # ?l2"] by simp
    qed
    ultimately show ?thesis
      using ok unfolding frame_text_events_def parse_sse_lines_def lines
      by (simp add: Let_def rstrip_crlf_printable [OF p1]
          rstrip_crlf_printable [OF p2] line_prefixes after_colon_event after_colon_data append_event_def event_data_dumps)
  qed
  then show ?thesis using found taken by (simp add: feed_frames.simps [of "format_sse_event name d @ r"] observe_all_def)
qed

lemma feed_wire: "list_all frame_ok fs \<Longrightarrow> tracker_feed (wire fs) EmittedNativeSseTracker = observe_all fs EmittedNativeSseTracker"
proof -
  have "list_all frame_ok fs \<Longrightarrow> feed_frames (wire fs) tr = (observe_all fs tr)\<lparr>tk_buf := []\<rparr>" for tr
  proof (induction fs arbitrary: tr)
    case Nil
    then show ?case by (simp add: wire_def feed_frames.simps observe_all_def)
  next
    case (Cons f fs)
    obtain name d where f: "f = (name, d)" by (cases f)
    have "feed_frames (wire (f # fs)) tr = feed_frames (wire fs) (observe f tr)"
      using feed_one_frame [of name d "wire fs" tr] Cons.prems by (simp add: wire_def f)
    then show ?case using Cons by (simp add: observe_all_def)
  qed
  moreover have "tk_buf (observe_all fs EmittedNativeSseTracker) = []"
    using observe_all_buf [where tr = EmittedNativeSseTracker and x = "[]"] by (simp add: EmittedNativeSseTracker_def) (metis tracker.select_convs(1) tracker.surjective tracker.update_convs(1))
  ultimately show "list_all frame_ok fs \<Longrightarrow> tracker_feed (wire fs) EmittedNativeSseTracker = observe_all fs EmittedNativeSseTracker"
    by (simp add: tracker_feed_def) (simp add: EmittedNativeSseTracker_def)
qed

section \<open>The tracker against the contract\<close>

definition tracker_inv :: "tracker \<Rightarrow> contract_state \<Rightarrow> bool" where
  "tracker_inv tr c \<longleftrightarrow>
     distinct (open_stack tr) \<and> set (open_stack tr) = dom (dict_get (open_blocks c)) \<and>
     fst ` set (open_blocks c) \<subseteq> seen_blocks c \<and> (\<forall>i \<in> seen_blocks c. i \<le> max_index tr) \<and>
     (\<forall>i k. dict_get (open_blocks c) i = Some k \<longrightarrow> (\<exists>b. dict_get (tk_blocks tr) i = Some b \<and> eb_open b \<and>
        (eb_type b = k \<or> k = u ''text_eager'' \<and> eb_type b = u ''text''))) \<and>
     dict_wf (tk_blocks tr) \<and>
     (\<forall>i b. dict_get (tk_blocks tr) i = Some b \<longrightarrow> eb_index b = i \<and> (eb_open b \<longrightarrow> dict_get (open_blocks c) i \<noteq> None))"

lemma tracker_invI:
  assumes "distinct (open_stack tr)" "set (open_stack tr) = dom (dict_get (open_blocks c))"
    and "fst ` set (open_blocks c) \<subseteq> seen_blocks c" "\<And>i. i \<in> seen_blocks c \<Longrightarrow> i \<le> max_index tr"
    and "\<And>i k. dict_get (open_blocks c) i = Some k \<Longrightarrow> \<exists>b. dict_get (tk_blocks tr) i = Some b \<and> eb_open b \<and>
        (eb_type b = k \<or> k = u ''text_eager'' \<and> eb_type b = u ''text'')"
    and "dict_wf (tk_blocks tr)"
    and "\<And>i b. dict_get (tk_blocks tr) i = Some b \<Longrightarrow> eb_index b = i \<and> (eb_open b \<longrightarrow> dict_get (open_blocks c) i \<noteq> None)"
  shows "tracker_inv tr c"
  using assms unfolding tracker_inv_def by blast

lemma tracker_invD:
  assumes "tracker_inv tr c"
  shows "distinct (open_stack tr)" "set (open_stack tr) = dom (dict_get (open_blocks c))"
    and "fst ` set (open_blocks c) \<subseteq> seen_blocks c" "\<And>i. i \<in> seen_blocks c \<Longrightarrow> i \<le> max_index tr"
    and "\<And>i k. dict_get (open_blocks c) i = Some k \<Longrightarrow> \<exists>b. dict_get (tk_blocks tr) i = Some b \<and> eb_open b \<and>
        (eb_type b = k \<or> k = u ''text_eager'' \<and> eb_type b = u ''text'')"
    and "dict_wf (tk_blocks tr)"
    and "\<And>i b. dict_get (tk_blocks tr) i = Some b \<Longrightarrow> eb_index b = i \<and> (eb_open b \<longrightarrow> dict_get (open_blocks c) i \<noteq> None)"
  using assms unfolding tracker_inv_def by blast+

lemma tracker_inv_init: "tracker_inv EmittedNativeSseTracker contract_init"
  by (simp add: tracker_inv_def EmittedNativeSseTracker_def contract_init_def)

text \<open>The parts the invariant reads; the others may change at will.\<close>

lemma tracker_inv_same:
  assumes "tracker_inv tr c" "open_stack tr' = open_stack tr" "max_index tr' = max_index tr" "tk_blocks tr' = tk_blocks tr"
  shows "tracker_inv tr' c"
  using assms(1) unfolding tracker_inv_def assms(2-4) .

text \<open>A block opened at an index above all others.\<close>

lemma tracker_inv_open:
  assumes inv: "tracker_inv tr c" and "i \<notin> seen_blocks c" and b: "eb_index b = i" "eb_open b"
    and ty: "eb_type b = k \<or> k = u ''text_eager'' \<and> eb_type b = u ''text''"
    and tr': "open_stack tr' = open_stack tr @ [i]" "max_index tr' = max (max_index tr) i" "tk_blocks tr' = dict_set i b (tk_blocks tr)"
    and c': "dict_get (open_blocks c') = (dict_get (open_blocks c))(i \<mapsto> k)" "seen_blocks c' = insert i (seen_blocks c)"
  shows "tracker_inv tr' c'"
proof -
  note d = tracker_invD [OF inv]
  have new: "dict_get (open_blocks c) i = None" using assms(2) d(3) by (auto simp: dict_get_None_iff)
  have keys: "fst ` set (open_blocks c') = dom (dict_get (open_blocks c'))" by (simp add: dom_map_of_conv_image_fst)
  show ?thesis
  proof (rule tracker_invI)
    show "distinct (open_stack tr')" using d(1,2) new tr'(1) by auto
    show "set (open_stack tr') = dom (dict_get (open_blocks c'))" using d(2) tr'(1) c'(1) by auto
    show "fst ` set (open_blocks c') \<subseteq> seen_blocks c'"
      using d(3) unfolding keys c' by (auto simp: dom_map_of_conv_image_fst)
    show "j \<le> max_index tr'" if "j \<in> seen_blocks c'" for j using that d(4) [of j] tr'(2) c'(2) by auto
    show "\<exists>b. dict_get (tk_blocks tr') j = Some b \<and> eb_open b \<and> (eb_type b = k' \<or> k' = u ''text_eager'' \<and> eb_type b = u ''text'')"
      if "dict_get (open_blocks c') j = Some k'" for j k'
      using that d(5) [of j k'] b ty by (cases "j = i") (auto simp: tr' c' dict_simps)
    show "dict_wf (tk_blocks tr')" using d(6) tr'(3) by (simp add: dict_wf_set)
    show "eb_index b' = j \<and> (eb_open b' \<longrightarrow> dict_get (open_blocks c') j \<noteq> None)" if "dict_get (tk_blocks tr') j = Some b'" for j b'
      using that d(7) [of j b'] b by (cases "j = i") (auto simp: tr' c' dict_simps)
  qed
qed

text \<open>A block that keeps its index, type and state.\<close>

lemma tracker_inv_block:
  assumes inv: "tracker_inv tr c" and b: "dict_get (tk_blocks tr) i = Some b"
    and same: "eb_index b' = eb_index b" "eb_type b' = eb_type b" "eb_open b' = eb_open b"
  shows "tracker_inv (tr\<lparr>tk_blocks := dict_set i b' (tk_blocks tr)\<rparr>) c"
proof -
  note d = tracker_invD [OF inv]
  show ?thesis
  proof (rule tracker_invI)
    show "\<exists>b. dict_get (tk_blocks (tr\<lparr>tk_blocks := dict_set i b' (tk_blocks tr)\<rparr>)) j = Some b \<and> eb_open b \<and>
        (eb_type b = k \<or> k = u ''text_eager'' \<and> eb_type b = u ''text'')" if "dict_get (open_blocks c) j = Some k" for j k
      using d(5) [OF that] same b by (cases "j = i") (auto simp: dict_simps)
    show "eb_index b2 = j \<and> (eb_open b2 \<longrightarrow> dict_get (open_blocks c) j \<noteq> None)"
      if "dict_get (tk_blocks (tr\<lparr>tk_blocks := dict_set i b' (tk_blocks tr)\<rparr>)) j = Some b2" for j b2
      using that d(7) [of j b2] d(7) [OF b] same by (cases "j = i") (auto simp: dict_simps)
  qed (use d(1-4,6) in \<open>simp_all add: dict_wf_set\<close>)
qed

lemma dict_get_close: "dict_get (close_block i d) j = (if j = i then map_option (\<lambda>b. b\<lparr>eb_open := False\<rparr>) (dict_get d i) else dict_get d j)"
  by (simp add: close_block_def dict_simps split: option.split)

lemma dict_wf_close: "dict_wf d \<Longrightarrow> dict_wf (close_block i d)"
  by (simp add: close_block_def dict_wf_set split: option.split)

lemma tracker_inv_stop:
  assumes inv: "tracker_inv tr c" and tr': "distinct (open_stack tr')" "set (open_stack tr') = set (open_stack tr) - {i}"
      "max_index tr' = max_index tr" "tk_blocks tr' = close_block i (tk_blocks tr)"
  shows "tracker_inv tr' (c\<lparr>open_blocks := dict_pop i (open_blocks c)\<rparr>)"
proof -
  note d = tracker_invD [OF inv]
  show ?thesis
  proof (rule tracker_invI)
    show "set (open_stack tr') = dom (dict_get (open_blocks (c\<lparr>open_blocks := dict_pop i (open_blocks c)\<rparr>)))"
      using d(2) tr'(2) by (auto simp: delete_conv')
    show "fst ` set (open_blocks (c\<lparr>open_blocks := dict_pop i (open_blocks c)\<rparr>)) \<subseteq> seen_blocks (c\<lparr>open_blocks := dict_pop i (open_blocks c)\<rparr>)"
      using d(3) by (auto simp: set_keys_pop)
    show "\<exists>b. dict_get (tk_blocks tr') j = Some b \<and> eb_open b \<and> (eb_type b = k \<or> k = u ''text_eager'' \<and> eb_type b = u ''text'')"
      if "dict_get (open_blocks (c\<lparr>open_blocks := dict_pop i (open_blocks c)\<rparr>)) j = Some k" for j k
      using that d(5) [of j k] by (auto simp: tr'(4) dict_simps dict_get_close split: if_splits)
    show "eb_index b = j \<and> (eb_open b \<longrightarrow> dict_get (open_blocks (c\<lparr>open_blocks := dict_pop i (open_blocks c)\<rparr>)) j \<noteq> None)"
      if "dict_get (tk_blocks tr') j = Some b" for j b
      using that d(7) [of j] by (auto simp: tr'(4) dict_simps dict_get_close split: if_splits)
  qed (use d(4,6) tr' in \<open>simp_all add: dict_wf_close\<close>)
qed

text \<open>Observing an event the checker accepts keeps the two in step.\<close>

lemma add_part_same [simp]: "eb_index (add_part v b) = eb_index b" "eb_type (add_part v b) = eb_type b" "eb_open (add_part v b) = eb_open b"
  by (simp_all add: add_part_def split: json.split)

lemma block_state_fields [simp]: "eb_index (block_state i block) = i" "eb_open (block_state i block)"
  by (simp_all add: block_state_def Let_def EmittedBlockState_def)

lemma observe_start_step:
  assumes "tracker_inv tr c" "contract_step a (u ''content_block_start'', data) c = Inr c'" "json_ok data"
  shows "tracker_inv (observe_start data tr) c'"
proof -
  obtain i block ty where s: "starts_block data i block ty" "i \<notin> seen_blocks c"
    and c': "c' = c\<lparr>open_blocks := dict_set i (block_storage ty block) (open_blocks c), seen_blocks := insert i (seen_blocks c)\<rparr>"
    using start_okD [OF assms(2,3)] by blast
  have f: "as_int (jget (u ''index'') data) = Some i" "jget (u ''content_block'') data = block" "is_dict block" "jget (u ''type'') block = JStr ty"
    using s(1) by (simp_all add: starts_block_def)
  obtain bd where bd: "block = JObj bd" using f(3) by (rule is_dictE)
  have "jget_default (u ''type'') (JStr []) block = JStr ty" using f(4) by (simp add: bd split: option.splits)
  then have "eb_type (block_state i block) = ty" by (simp add: block_state_def EmittedBlockState_def Let_def)
  then have ty: "eb_type (block_state i block) = block_storage ty block \<or>
      block_storage ty block = u ''text_eager'' \<and> eb_type (block_state i block) = u ''text''"
    by (simp add: block_storage_def)
  show ?thesis
    by (rule tracker_inv_open [OF assms(1) s(2), of "block_state i block"])
      (use f ty in \<open>simp_all add: observe_start_def c' update_conv'\<close>)
qed

lemma observe_delta_step:
  assumes "tracker_inv tr c"
  shows "tracker_inv (observe_delta data tr) c"
proof (cases "as_int (jget (u ''index'') data)")
  case (Some i)
  show ?thesis
  proof (cases "dict_get (tk_blocks tr) i")
    case b: (Some b)
    have "tracker_inv (tr\<lparr>tk_blocks := dict_set i b' (tk_blocks tr)\<rparr>) c" if "eb_index b' = eb_index b" "eb_type b' = eb_type b" "eb_open b' = eb_open b" for b'
      using tracker_inv_block [OF assms b] that by blast
    then show ?thesis using assms Some b by (simp add: observe_delta_def Let_def)
  qed (use assms Some in \<open>simp add: observe_delta_def\<close>)
qed (use assms in \<open>simp add: observe_delta_def\<close>)

lemma observe_stop_step:
  assumes "tracker_inv tr c" "contract_step a (u ''content_block_stop'', data) c = Inr c'"
  shows "tracker_inv (observe_stop data tr) c'"
proof -
  obtain i where i: "as_int (jget (u ''index'') data) = Some i" and c': "c' = c\<lparr>open_blocks := dict_pop i (open_blocks c)\<rparr>"
    using stop_okD [OF assms(2)] by blast
  have dist: "distinct (open_stack tr)" using tracker_invD(1) [OF assms(1)] .
  have "distinct (butlast (open_stack tr)) \<and> set (butlast (open_stack tr)) = set (open_stack tr) - {i}"
    if "open_stack tr \<noteq> []" "last (open_stack tr) = i"
    using that dist by (cases "open_stack tr" rule: rev_cases) auto
  moreover have "distinct (remove1 i (open_stack tr)) \<and> set (remove1 i (open_stack tr)) = set (open_stack tr) - {i}"
    using dist by simp
  ultimately show ?thesis unfolding c'
    by (intro tracker_inv_stop [OF assms(1)]) (auto simp: observe_stop_def i)
qed

lemma observe_step:
  assumes "tracker_inv tr c" "contract_step a ev c = Inr c'" "json_ok (snd ev)"
  shows "tracker_inv (observe ev tr) c'"
proof -
  obtain name data where ev: "ev = (name, data)" by (cases ev)
  consider (start) "name = u ''content_block_start''" | (delta) "name = u ''content_block_delta''"
    | (stop) "name = u ''content_block_stop''"
    | (other) "name \<notin> {u ''content_block_start'', u ''content_block_delta'', u ''content_block_stop''}" by blast
  then show ?thesis
  proof cases
    case start
    then show ?thesis using observe_start_step [OF assms(1)] assms(2,3) ev by (simp add: observe_def)
  next
    case delta
    have "c' = c" using delta_okD assms(2,3) unfolding ev delta by (metis snd_conv)
    then show ?thesis using observe_delta_step [OF assms(1)] delta ev by (simp add: observe_def)
  next
    case stop
    then show ?thesis using observe_stop_step [OF assms(1)] assms(2) ev by (simp add: observe_def)
  next
    case other
    have "c' = c" using assms(2) other by (auto simp: contract_step_def ev split: if_splits)
    moreover have "open_stack (observe ev tr) = open_stack tr \<and> max_index (observe ev tr) = max_index tr \<and> tk_blocks (observe ev tr) = tk_blocks tr"
      using other by (simp add: ev observe_def observe_message_start_def observe_message_delta_def Let_def split: option.split json.split)
    ultimately show ?thesis using tracker_inv_same [OF assms(1)] by simp
  qed
qed

lemma observe_all_step:
  "tracker_inv tr c \<Longrightarrow> contract_run a evs c = Inr c' \<Longrightarrow> list_all (json_ok \<circ> snd) evs \<Longrightarrow> tracker_inv (observe_all evs tr) c'"
proof (induction evs arbitrary: tr c)
  case (Cons ev evs)
  obtain c1 where c1: "contract_step a ev c = Inr c1" "contract_run a evs c1 = Inr c'"
    using Cons.prems(2) by (cases "contract_step a ev c") auto
  have "tracker_inv (observe ev tr) c1" using observe_step [OF Cons.prems(1) c1(1)] Cons.prems(3) by simp
  then show ?case using Cons.IH [OF _ c1(2)] Cons.prems(3) by (simp add: observe_all_def)
qed (simp add: observe_all_def)

section \<open>A legal end\<close>

lemma no_open: "(\<And>i. dict_get (open_blocks c) i = None) \<Longrightarrow> open_blocks c = []"
  by (metis dict_get_None_iff image_is_empty set_empty2 all_not_in_conv)

lemma close_unclosed_run:
  assumes "tracker_inv tr c" "iter_close_unclosed_blocks tr = (fs, tr', e)"
  shows "\<exists>c'. contract_run a fs c = Inr c' \<and> open_blocks c' = [] \<and> seen_blocks c' = seen_blocks c \<and> tracker_inv tr' c' \<and>
    max_index tr' = max_index tr \<and> e = None"
proof -
  note d = tracker_invD [OF assms(1)]
  have js: "distinct (rev (open_stack tr))" "\<forall>j \<in> set (rev (open_stack tr)). dict_get (open_blocks c) j \<noteq> None"
    using d(1,2) by auto
  from stops_run [OF js, of a] obtain c' where run: "contract_run a (map content_block_stop (rev (open_stack tr))) c = Inr c'"
    and seen: "seen_blocks c' = seen_blocks c"
    and opens: "dict_get (open_blocks c') = (\<lambda>j. if j \<in> set (rev (open_stack tr)) then None else dict_get (open_blocks c) j)" by blast
  have closed: "open_blocks c' = []" by (rule no_open) (use d(2) in \<open>auto simp: opens\<close>)
  have blocks: "dict_get (foldl (\<lambda>d i. close_block i d) d js) j =
      (if j \<in> set js then map_option (\<lambda>b. b\<lparr>eb_open := False\<rparr>) (dict_get d j) else dict_get d j)" for d js j
  proof (induction js arbitrary: d)
    case (Cons i js)
    then show ?case by (auto simp: dict_get_close option.map_comp comp_def)
  qed simp
  have wf: "dict_wf (foldl (\<lambda>d i. close_block i d) d js)" if "dict_wf d" for d js
    using that by (induction js arbitrary: d) (simp_all add: dict_wf_close)
  have "tracker_inv (tr\<lparr>open_stack := [], tk_blocks := foldl (\<lambda>d i. close_block i d) (tk_blocks tr) (rev (open_stack tr))\<rparr>) c'"
  proof (rule tracker_invI)
    show "eb_index b = i \<and> (eb_open b \<longrightarrow> dict_get (open_blocks c') i \<noteq> None)"
      if "dict_get (tk_blocks (tr\<lparr>open_stack := [], tk_blocks := foldl (\<lambda>d i. close_block i d) (tk_blocks tr) (rev (open_stack tr))\<rparr>)) i = Some b" for i b
    proof -
      have got: "(if i \<in> set (open_stack tr) then map_option (\<lambda>b. b\<lparr>eb_open := False\<rparr>) (dict_get (tk_blocks tr) i) else dict_get (tk_blocks tr) i) = Some b"
        using that by (simp add: blocks)
      show ?thesis
      proof (cases "i \<in> set (open_stack tr)")
        case True
        then show ?thesis using got d(7) [of i] by auto
      next
        case False
        then show ?thesis using got d(7) [of i b] d(2) by auto
      qed
    qed
  qed (use d(3,4,6) closed seen wf in simp_all)
  then show ?thesis using assms(2) run closed seen by (auto simp: iter_close_unclosed_blocks_def)
qed

lemma error_text_run:
  assumes "open_blocks c = []" "n \<notin> seen_blocks c"
    and "error_text_and_stop message (s\<lparr>blocks := (blocks s)\<lparr>next_index := n\<rparr>\<rparr>) = (fs, s', e)"
  shows "\<exists>c'. contract_run a fs c = Inr c' \<and> open_blocks c' = [] \<and> seen_blocks c' \<noteq> {} \<and> fst (last fs) = u ''message_stop'' \<and> fs \<noteq> []"
proof -
  let ?c1 = "c\<lparr>open_blocks := [(n, u ''text'')], seen_blocks := insert n (seen_blocks c)\<rparr>"
  obtain d d' where fs: "fs = [content_block_start n (u ''text'') [], content_block_delta n (u ''text_delta'') message, content_block_stop n] @
      [(u ''message_delta'', d), (u ''message_stop'', d')]"
    using assms(3)
    by (auto simp: error_text_and_stop_def emit_seq_def emit_error_def allocate_index_def message_delta_def message_stop_def emit_frame_def)
  have "contract_step a (content_block_start n (u ''text'') []) c = Inr ?c1"
    using start_frame_step [of "u ''text''" "[]" n c a] assms(1,2) by simp
  moreover have "contract_step a (content_block_delta n (u ''text_delta'') message) ?c1 = Inr ?c1"
    by (rule delta_frame_step [where k = "u ''text''"]) simp_all
  moreover have "contract_step a (content_block_stop n) ?c1 = Inr (without_block n ?c1)"
    by (rule stop_frame_step [where k = "u ''text''"]) simp
  moreover have "contract_run a [(u ''message_delta'', d), (u ''message_stop'', d')] c2 = Inr c2" for c2
    by (rule neutral_run) (simp add: neutral_def)
  ultimately have "contract_run a fs c = Inr (without_block n ?c1)" by (simp add: fs)
  then show ?thesis by (auto simp: fs)
qed

lemma error_tail_run:
  assumes "tracker_inv tr c" "iter_close_unclosed_blocks tr = (closing, tr', e)"
  shows "\<exists>c'. contract_run a (closing @ iter_midstream_error_tail fresh_id request_model message tokens tr') c = Inr c' \<and>
    open_blocks c' = [] \<and> seen_blocks c' \<noteq> {} \<and>
    fst (last (iter_midstream_error_tail fresh_id request_model message tokens tr')) = u ''message_stop'' \<and>
    iter_midstream_error_tail fresh_id request_model message tokens tr' \<noteq> []"
proof -
  from close_unclosed_run [OF assms, of a] obtain c1 where c1: "contract_run a closing c = Inr c1" "open_blocks c1 = []"
    "tracker_inv tr' c1" by blast
  let ?tail = "iter_midstream_error_tail fresh_id request_model message tokens tr'"
  have "next_content_index tr' \<notin> seen_blocks c1" using tracker_invD(4) [OF c1(3)] by (force simp: next_content_index_def)
  moreover obtain s where s: "?tail = fst (error_text_and_stop message (s\<lparr>blocks := (blocks s)\<lparr>next_index := next_content_index tr'\<rparr>\<rparr>))"
    unfolding iter_midstream_error_tail_def Let_def by blast
  obtain s' e' where "error_text_and_stop message (s\<lparr>blocks := (blocks s)\<lparr>next_index := next_content_index tr'\<rparr>\<rparr>) = (?tail, s', e')"
    unfolding s by (cases "error_text_and_stop message (s\<lparr>blocks := (blocks s)\<lparr>next_index := next_content_index tr'\<rparr>\<rparr>)") simp
  ultimately obtain c2 where c2: "contract_run a ?tail c1 = Inr c2" "open_blocks c2 = []" "seen_blocks c2 \<noteq> {}"
    "fst (last ?tail) = u ''message_stop''" "?tail \<noteq> []"
    using error_text_run [OF c1(2), where a = a] by blast
  then show ?thesis using contract_run_appendI [OF c1(1) c2(1)] by blast
qed

text \<open>
  C10 (safety): whatever legal prefix of a native stream has been sent when it breaks off, closing the blocks the
  tracker knows to be open and sending the error tail ends it as a stream that meets the contract.
\<close>

theorem error_tail_legal:
  assumes "list_all frame_ok fs" "contract_run allow fs contract_init = Inr c" "u ''message_start'' \<in> set (map fst fs)"
    and "iter_close_unclosed_blocks (tracker_feed (wire fs) EmittedNativeSseTracker) = (closing, tr, e)"
  shows "check_contract allow (fs @ closing @ iter_midstream_error_tail fresh_id request_model message tokens tr) = Inr ()"
proof -
  have json: "list_all (json_ok \<circ> snd) fs" using assms(1) by (auto simp: list_all_iff frame_ok_def)
  have "tracker_inv (tracker_feed (wire fs) EmittedNativeSseTracker) c"
    unfolding feed_wire [OF assms(1)] by (rule observe_all_step [OF tracker_inv_init assms(2) json])
  from error_tail_run [OF this assms(4), of allow fresh_id request_model message tokens]
  show ?thesis using contract_run_appendI [OF assms(2)] assms(3) by (auto simp: check_contract_def)
qed

text \<open>A stream that breaks off inside a text block.\<close>

definition cut_text :: "frame list" where
  "cut_text =
     [(u ''message_start'', JObj [(u ''type'', JStr (u ''message_start'')),
         (u ''message'', JObj [(u ''id'', JStr (u ''msg_1'')), (u ''model'', JStr (u ''m''))])]),
      content_block_start 0 (u ''text'') [], content_block_delta 0 (u ''text_delta'') (u ''Hel'')]"

lemma cut_text_ok:
  "list_all frame_ok cut_text" "u ''message_start'' \<in> set (map fst cut_text)"
  "contract_run False cut_text contract_init = Inr \<lparr>open_blocks = [(0, u ''text'')], seen_blocks = {0}\<rparr>"
  by (simp_all add: cut_text_def, code_simp+)

definition cut_text_tracker :: tracker where
  "cut_text_tracker =
     \<lparr>tk_buf = [], open_stack = [], max_index = 0,
      tk_blocks = [(0, \<lparr>eb_index = 0, eb_type = u ''text'', eb_open = False, eb_tool_id = [], eb_name = [], eb_parts = [u ''Hel'']\<rparr>)],
      tk_message_id = Some (u ''msg_1''), tk_model = u ''m'', tk_stop_reason = None, tk_message_stopped = False\<rparr>"

lemma cut_text_close:
  "iter_close_unclosed_blocks (tracker_feed (wire cut_text) EmittedNativeSseTracker) = ([content_block_stop 0], cut_text_tracker, None)"
  unfolding feed_wire [OF cut_text_ok(1)] by code_simp

theorem error_tail_legal_witness:
  "check_contract False (cut_text @ [content_block_stop 0] @
     iter_midstream_error_tail (u ''msg_x'') (u ''m'') (u ''down'') (JInt 1) cut_text_tracker) = Inr ()"
  by (rule error_tail_legal [OF cut_text_ok(1) cut_text_ok(3) cut_text_ok(2) cut_text_close])

section \<open>Recovery\<close>

text \<open>The tracker in step with the checker, which holds no text block that began with its text.\<close>

definition plain_inv :: "tracker \<Rightarrow> contract_state \<Rightarrow> bool" where
  "plain_inv tr c \<longleftrightarrow> tracker_inv tr c \<and> (\<forall>i. dict_get (open_blocks c) i \<noteq> Some (u ''text_eager''))"

interpretation trk: contract_emitter plain_inv allow for allow
  by unfold_locales (simp add: plain_inv_def tracker_inv_def)

lemma plain_openD:
  assumes "plain_inv tr c" "dict_get (tk_blocks tr) i = Some b" "eb_open b"
  shows "eb_index b = i" "dict_get (open_blocks c) i = Some (eb_type b)"
proof -
  have t: "tracker_inv tr c" and noeager: "dict_get (open_blocks c) i \<noteq> Some (u ''text_eager'')"
    using assms(1) by (auto simp: plain_inv_def)
  show "eb_index b = i" using tracker_invD(7) [OF t assms(2)] by simp
  obtain k where k: "dict_get (open_blocks c) i = Some k" using tracker_invD(7) [OF t assms(2)] assms(3) by auto
  then show "dict_get (open_blocks c) i = Some (eb_type b)" using tracker_invD(5) [OF t k] assms(2) noeager by auto
qed

lemma find_SomeD: "List.find P xs = Some x \<Longrightarrow> x \<in> set xs \<and> P x"
  by (induction xs) (auto split: if_splits)

lemma last_open_blockD:
  assumes "last_open_block ty tr = Some (i, b)"
  shows "dict_get (tk_blocks tr) i = Some b" "eb_type b = ty" "eb_open b"
proof -
  have "(i, b) \<in> set (List.map_filter (\<lambda>i. map_option (Pair i) (dict_get (tk_blocks tr) i)) (rev (open_stack tr)))"
    "eb_type b = ty \<and> eb_open b"
    using find_SomeD [OF assms [unfolded last_open_block_def]] by simp_all
  then show "dict_get (tk_blocks tr) i = Some b" "eb_type b = ty" "eb_open b"
    by (auto simp: List.map_filter_def)
qed

lemma plain_inv_block:
  assumes "plain_inv tr c" "dict_get (tk_blocks tr) i = Some b"
  shows "plain_inv (tr\<lparr>tk_blocks := dict_set i (b\<lparr>eb_parts := ps\<rparr>) (tk_blocks tr)\<rparr>) c"
  using assms tracker_inv_block [of tr c i b "b\<lparr>eb_parts := ps\<rparr>"] by (simp add: plain_inv_def)

lemma emits_suffix:
  assumes "(ty, dt) \<in> {(u ''text'', u ''text_delta''), (u ''thinking'', u ''thinking_delta'')}"
  shows "trk.emits allow (\<lambda>_. True) (append_suffix ty dt sfx) (\<lambda>_. True)"
proof (rule trk.emitsI)
  fix tr c fs tr' e
  assume inv: "plain_inv tr c" and run: "append_suffix ty dt sfx tr = (fs, tr', e)"
  have "\<exists>c'. contract_run allow fs c = Inr c' \<and> plain_inv tr' c'"
  proof (cases "sfx = []")
    case True
    then show ?thesis using run inv by (auto simp: append_suffix_def)
  next
    case False
    show ?thesis
    proof (cases "last_open_block ty tr")
      case None
      let ?i = "next_content_index tr"
      let ?c1 = "c\<lparr>open_blocks := open_blocks c @ [(?i, ty)], seen_blocks := insert ?i (seen_blocks c)\<rparr>"
      have t: "tracker_inv tr c" using inv by (simp add: plain_inv_def)
      note d = tracker_invD [OF t]
      have new: "?i \<notin> seen_blocks c" using d(4) by (force simp: next_content_index_def)
      then have new2: "?i \<notin> fst ` set (open_blocks c)" using d(3) by blast
      have get: "dict_get (open_blocks ?c1) = (dict_get (open_blocks c))(?i \<mapsto> ty)"
        using iffD2 [OF dict_get_None_iff new2] by (intro ext) (simp add: map_add_def split: option.split)
      have "contract_step allow (content_block_start ?i ty []) c = Inr ?c1"
        by (rule start_frame_step) (use assms new new2 in auto)
      moreover have "contract_step allow (content_block_delta ?i dt sfx) ?c1 = Inr ?c1"
        by (rule delta_frame_step [where k = ty]) (use assms get in \<open>auto simp del: map_of_append\<close>)
      ultimately have step: "contract_run allow fs c = Inr ?c1" using run False None by (auto simp: append_suffix_def Let_def)
      have "tracker_inv tr' ?c1"
        by (rule tracker_inv_open [OF t new, of "(EmittedBlockState ?i ty)\<lparr>eb_parts := [sfx]\<rparr>" ty])
          (use run False None get in \<open>auto simp: append_suffix_def Let_def EmittedBlockState_def\<close>)
      moreover have "dict_get (open_blocks ?c1) j \<noteq> Some (u ''text_eager'')" for j
        using inv assms unfolding get plain_inv_def by auto
      ultimately show ?thesis using step unfolding plain_inv_def by blast
    next
      case (Some ib)
      obtain i b where ib: "ib = (i, b)" by (cases ib)
      note b = last_open_blockD [OF Some [unfolded ib]]
      note o = plain_openD [OF inv b(1,3)]
      have "contract_step allow (content_block_delta (eb_index b) dt sfx) c = Inr c"
        by (rule delta_frame_step [where k = ty]) (use assms o b(2) in auto)
      then show ?thesis
        using run False Some ib plain_inv_block [OF inv b(1)] by (auto simp: append_suffix_def)
    qed
  qed
  then show "(\<exists>c'. contract_run allow fs c = Inr c' \<and> plain_inv tr' c') \<and> (e = None \<longrightarrow> True)" by simp
qed

text \<open>What a repair leaves of a tool block.\<close>

definition tool_marks :: "tracker \<Rightarrow> (int \<times> pystr \<times> bool) list" where
  "tool_marks tr = map (\<lambda>b. (eb_index b, eb_name b, eb_open b)) (tk_tool_blocks tr)"

lemma dict_values_set:
  "dict_get d i = Some b \<Longrightarrow> f b' = f b \<Longrightarrow> P b' = P b \<Longrightarrow>
     map f (filter P (dict_values (dict_set i b' d))) = map f (filter P (dict_values d))"
  by (induction d) (auto split: if_splits)

lemma tool_blockD:
  assumes "plain_inv tr c" "k < length (tk_tool_blocks tr)"
  shows "dict_get (tk_blocks tr) (eb_index (tk_tool_blocks tr ! k)) = Some (tk_tool_blocks tr ! k)"
    "eb_type (tk_tool_blocks tr ! k) = u ''tool_use''"
proof -
  let ?b = "tk_tool_blocks tr ! k"
  have mem: "?b \<in> set (tk_tool_blocks tr)" using assms(2) by simp
  then show "eb_type ?b = u ''tool_use''" by (simp add: tk_tool_blocks_def blocks_of_type_def)
  obtain i where i: "(i, ?b) \<in> set (tk_blocks tr)" using mem by (auto simp: tk_tool_blocks_def blocks_of_type_def)
  have t: "tracker_inv tr c" using assms(1) by (simp add: plain_inv_def)
  have "dict_get (tk_blocks tr) i = Some ?b" using i tracker_invD(6) [OF t] dict_wf_get by metis
  then show "dict_get (tk_blocks tr) (eb_index ?b) = Some ?b" using tracker_invD(7) [OF t] by auto
qed

lemma repair_run:
  assumes inv: "plain_inv tr c" and op: "k < length (tool_marks tr) \<Longrightarrow> snd (snd (tool_marks tr ! k))"
    and run: "append_tool_repair_suffix k sfx tr = (fs, tr', e)"
  shows "contract_run a fs c = Inr c" "plain_inv tr' c" "tool_marks tr' = tool_marks tr"
    "tk_message_stopped tr' = tk_message_stopped tr"
proof -
  have "contract_run a fs c = Inr c \<and> plain_inv tr' c \<and> tool_marks tr' = tool_marks tr \<and> tk_message_stopped tr' = tk_message_stopped tr"
  proof (cases "length (tk_tool_blocks tr) \<le> k \<or> sfx = []")
    case True
    then show ?thesis using run inv by (auto simp: append_tool_repair_suffix_def)
  next
    case False
    define b where "b = tk_tool_blocks tr ! k"
    have k: "k < length (tk_tool_blocks tr)" using False by simp
    note b = tool_blockD [OF inv k, folded b_def]
    have open_b: "eb_open b" using op k by (simp add: tool_marks_def b_def)
    have fs: "fs = [content_block_delta (eb_index b) (u ''input_json_delta'') sfx]"
      and tr': "tr' = tr\<lparr>tk_blocks := dict_set (eb_index b) (b\<lparr>eb_parts := eb_parts b @ [sfx]\<rparr>) (tk_blocks tr)\<rparr>"
      using run False by (auto simp: append_tool_repair_suffix_def Let_def b_def)
    have "contract_step a (content_block_delta (eb_index b) (u ''input_json_delta'') sfx) c = Inr c"
      by (rule delta_frame_step [where k = "u ''tool_use''"]) (use plain_openD(2) [OF inv b(1) open_b] b(2) in auto)
    moreover have "tool_marks tr' = tool_marks tr"
      using dict_values_set [OF b(1), of "\<lambda>b. (eb_index b, eb_name b, eb_open b)" "b\<lparr>eb_parts := eb_parts b @ [sfx]\<rparr>" "\<lambda>b. eb_type b = u ''tool_use''"]
      by (simp add: tr' tool_marks_def tk_tool_blocks_def blocks_of_type_def)
    ultimately show ?thesis using plain_inv_block [OF inv b(1)] by (simp add: fs tr')
  qed
  then show "contract_run a fs c = Inr c" "plain_inv tr' c" "tool_marks tr' = tool_marks tr"
    "tk_message_stopped tr' = tk_message_stopped tr" by blast+
qed

text \<open>The success tail closes every block; it ends the stream unless the end was seen.\<close>

lemma success_tail_run:
  assumes "plain_inv tr c" "iter_success_tail sr tr = (fs, tr', e)"
  shows "\<exists>c'. contract_run a fs c = Inr c' \<and> open_blocks c' = [] \<and> seen_blocks c' = seen_blocks c"
    and "\<not> tk_message_stopped tr \<Longrightarrow> fs \<noteq> [] \<and> fst (last fs) = u ''message_stop''"
proof -
  obtain gs tr1 e1 where close: "iter_close_unclosed_blocks tr = (gs, tr1, e1)" by (metis prod_cases3)
  then have tr1: "e1 = None" "tk_message_stopped tr1 = tk_message_stopped tr"
    by (auto simp: iter_close_unclosed_blocks_def)
  let ?mstop = "(u ''message_stop'', JObj [(u ''type'', JStr (u ''message_stop''))]) :: frame"
  have fs: "fs = gs @ (if tk_stop_reason tr1 = None then [success_delta sr] else []) @ (if tk_message_stopped tr then [] else [?mstop])"
    using assms(2) close tr1 by (auto simp: iter_success_tail_def emit_seq_def emit_if_def emit_frame_def emit_none_def split: if_splits)
  show "fs \<noteq> [] \<and> fst (last fs) = u ''message_stop''" if "\<not> tk_message_stopped tr" using that by (simp add: fs)
  obtain c1 where c1: "contract_run a gs c = Inr c1" "open_blocks c1 = []" "seen_blocks c1 = seen_blocks c"
    using close_unclosed_run [OF _ close, of c a] assms(1) by (auto simp: plain_inv_def)
  have "contract_run a ((if tk_stop_reason tr1 = None then [success_delta sr] else []) @ (if tk_message_stopped tr then [] else [?mstop])) c1 = Inr c1"
    by (rule neutral_run) (simp add: neutral_def success_delta_def)
  then show "\<exists>c'. contract_run a fs c = Inr c' \<and> open_blocks c' = [] \<and> seen_blocks c' = seen_blocks c"
    using contract_run_appendI [OF c1(1)] c1 fs by blast
qed

end
