(* ===== verification/NativeStream.thy ===== *)
theory NativeStream
  imports EmittedSse
begin

text \<open>
  The stream of a provider with a native Anthropic endpoint (\<open>providers/anthropic_messages.py\<close>,
  \<open>AnthropicMessagesTransport\<close>, and the subclass \<open>OpenRouterProvider\<close>): the provider's lines are grouped into
  events, pass the block policy, are held back and tracked; a stream that breaks off is retried,
  recovered or ended with an error.  What the provider answers, the clock and the ids are
  parameters; the rate limiter's slot, tracing and logging are left out.
\<close>

section \<open>The provider's lines\<close>

text \<open>
  \<open>_iter_sse_events\<close>: the lines up to a blank one are an event; the last lines count only if the
  response ends normally.
\<close>

fun group_events :: "bool \<Rightarrow> pystr list \<Rightarrow> pystr list \<Rightarrow> pystr list" where
  "group_events ended acc [] = (if ended \<and> acc \<noteq> [] then [str_join [10] acc @ [10, 10]] else [])"
| "group_events ended acc (line # ls) =
     (if line \<noteq> [] then group_events ended (acc @ [line]) ls
      else if acc \<noteq> [] then (str_join [10] acc @ [10, 10]) # group_events ended [] ls
      else group_events ended [] ls)"

definition iter_sse_events :: "bool \<Rightarrow> pystr list \<Rightarrow> pystr list" where
  "iter_sse_events ended ls = group_events ended [] ls"

definition iter_sse_lines :: "pystr list \<Rightarrow> pystr list" where
  "iter_sse_lines ls = map (\<lambda>line. if line \<noteq> [] then line @ [10] else [10]) ls"

text \<open>\<open>s.splitlines(keepends=True)\<close>.\<close>

fun splitlines_keep :: "pystr \<Rightarrow> pystr \<Rightarrow> pystr list" where
  "splitlines_keep acc [] = (if acc = [] then [] else [acc])"
| "splitlines_keep acc (c # s) =
     (if c = 13 \<and> s \<noteq> [] \<and> hd s = 10 then (acc @ [13, 10]) # splitlines_keep [] (tl s)
      else if is_linebreak c then (acc @ [c]) # splitlines_keep [] s
      else splitlines_keep (acc @ [c]) s)"

lemma concat_splitlines_keep: "concat (splitlines_keep acc s) = acc @ s"
  by (induction acc s rule: splitlines_keep.induct) (auto simp: neq_Nil_conv)

section \<open>Parameters and state\<close>

text \<open>
  \<open>n_send body n\<close> is what the n-th request answers: an exception before the stream is open, or the
  lines of the response and the exception it ends with.  \<open>n_openrouter\<close> selects the subclass's
  overrides of \<open>_new_stream_state\<close> and \<open>_transform_stream_event\<close>.
\<close>

record native_env =
  n_send :: "json \<Rightarrow> nat \<Rightarrow> py_exn + pystr list \<times> py_exn option"
  n_line_mode :: bool
  n_openrouter :: bool
  n_thinking :: bool
  n_now :: "nat \<Rightarrow> rat"
  n_validates :: validator
  n_tools :: "json list"
  n_error_message :: "py_exn \<Rightarrow> pystr"
  n_fresh_id :: pystr
  n_model :: pystr
  n_input_tokens :: json

definition new_stream_state :: "native_env \<Rightarrow> block_policy option" where
  "new_stream_state env = (if n_openrouter env \<or> n_line_mode env then Some NativeSseBlockPolicyState else None)"

definition transform_stream_event :: "native_env \<Rightarrow> pystr \<Rightarrow> block_policy option \<Rightarrow> py_exn + pystr option \<times> block_policy option" where
  "transform_stream_event env event state =
     (case state of
        None \<Rightarrow> Inr (Some event, None)
      | Some st \<Rightarrow>
          map_sum id (\<lambda>(out, st1). (out, Some st1))
            (if n_openrouter env then openrouter_transform (n_thinking env) event st
             else transform_native_sse_block_event (n_thinking env) event st))"

text \<open>The chunks the transformed events give, and the exception that ended them.\<close>

definition output_chunks :: "native_env \<Rightarrow> pystr \<Rightarrow> pystr list" where
  "output_chunks env event = (if n_line_mode env then splitlines_keep [] event else [event])"

fun transform_events :: "native_env \<Rightarrow> pystr list \<Rightarrow> block_policy option \<Rightarrow> pystr list \<times> block_policy option \<times> py_exn option" where
  "transform_events env [] state = ([], state, None)"
| "transform_events env (event # events) state =
     (case transform_stream_event env event state of
        Inl e \<Rightarrow> ([], state, Some e)
      | Inr (out, state1) \<Rightarrow>
          (case transform_events env events state1 of (chunks, state2, e) \<Rightarrow>
             ((case out of None \<Rightarrow> [] | Some text \<Rightarrow> output_chunks env text) @ chunks, state2, e)))"

definition iter_stream_chunks ::
    "native_env \<Rightarrow> pystr list \<times> py_exn option \<Rightarrow> block_policy option \<Rightarrow> pystr list \<times> block_policy option \<times> py_exn option" where
  "iter_stream_chunks env response state =
     (case response of (ls, ending) \<Rightarrow>
        if n_line_mode env \<and> state = None then (iter_sse_lines ls, state, ending)
        else case transform_events env (iter_sse_events (ending = None) ls) state of
          (chunks, state1, None) \<Rightarrow> (chunks, state1, ending)
        | (chunks, state1, Some e) \<Rightarrow> (chunks, state1, Some e))"

record native_strm =
  ns_policy :: "block_policy option"
  ns_tracker :: tracker
  ns_hold :: "pystr holdback"
  ns_now :: nat
  ns_out :: "pystr list"

definition n_schemas :: "native_env \<Rightarrow> (pystr, tool_schema) dict" where
  "n_schemas env = tool_schemas_by_name (n_tools env)"

section \<open>Recovery\<close>

definition delta_strings :: "string \<Rightarrow> sse_event list \<Rightarrow> pystr" where
  "delta_strings key events =
     concat (map (\<lambda>e. case jget (u ''delta'') (ev_data e) of
        JObj d \<Rightarrow> PyJson.text_of (jget (u key) (JObj d)) | _ \<Rightarrow> []) events)"

fun collect_native_recovery_text :: "native_env \<Rightarrow> json \<Rightarrow> nat \<Rightarrow> py_exn option \<Rightarrow> nat \<Rightarrow> (py_exn + pystr \<times> pystr) \<times> nat" where
  "collect_native_recovery_text env body 0 last_error n =
     ((case last_error of Some e \<Rightarrow> Inl e | None \<Rightarrow> Inr ([], [])), n)"
| "collect_native_recovery_text env body (Suc k) last_error n =
     (let failed = (\<lambda>e. if is_retryable_stream_error e
                        then collect_native_recovery_text env body k (Some e) (Suc n) else (Inl e, Suc n)) in
      case n_send env body n of
        Inl e \<Rightarrow> failed e
      | Inr response \<Rightarrow>
          (case iter_stream_chunks env response (new_stream_state env) of
             (_, _, Some e) \<Rightarrow> failed e
           | (chunks, _, None) \<Rightarrow>
               let events = parse_sse_text (concat chunks)
               in (Inr (delta_strings ''text'' events, delta_strings ''thinking'' events), Suc n)))"

fun native_repair_attempts :: "native_env \<Rightarrow> json \<Rightarrow> emitted_block \<Rightarrow> nat \<Rightarrow> nat \<Rightarrow> (py_exn + pystr option) \<times> nat" where
  "native_repair_attempts env body block 0 n = (Inr None, n)"
| "native_repair_attempts env body block (Suc k) n =
     (case collect_native_recovery_text env body MIDSTREAM_RECOVERY_ATTEMPTS None n of
        (Inl e, n1) \<Rightarrow> (Inl e, n1)
      | (Inr (text, _), n1) \<Rightarrow>
          (case accept_tool_json_repair (n_validates env) (eb_content block) text (eb_name block) (n_schemas env) of
             Some repair \<Rightarrow> (Inr (Some (tr_suffix repair)), n1)
           | None \<Rightarrow> native_repair_attempts env body block k n1))"

text \<open>The loop over the tool blocks, with the index of the next; \<open>Inr None\<close> when one cannot be repaired.\<close>

fun native_repair_tools :: "native_env \<Rightarrow> json \<Rightarrow> nat \<Rightarrow> emitted_block list \<Rightarrow> tracker \<Rightarrow> nat \<Rightarrow>
    (py_exn + frame list option) \<times> tracker" where
  "native_repair_tools env body index [] tr n = (Inr (Some []), tr)"
| "native_repair_tools env body index (block # bs) tr n =
     (if tool_block_complete (n_validates env) (n_schemas env) block
      then native_repair_tools env body (Suc index) bs tr n
      else
        let schema = map_option ts_input_schema (dict_get (n_schemas env) (eb_name block)) in
        case native_repair_attempts env (make_native_tool_repair_body body (eb_name block) (eb_content block) schema)
               block MIDSTREAM_RECOVERY_ATTEMPTS n of
          (Inl e, _) \<Rightarrow> (Inl e, tr)
        | (Inr None, _) \<Rightarrow> (Inr None, tr)
        | (Inr (Some sfx), n1) \<Rightarrow>
            (case append_tool_repair_suffix index sfx tr of (fs, tr1, _) \<Rightarrow>
               case native_repair_tools env body (Suc index) bs tr1 n1 of
                 (Inr (Some gs), tr2) \<Rightarrow> (Inr (Some (fs @ gs)), tr2)
               | r \<Rightarrow> r))"

definition native_tool_recovery :: "native_env \<Rightarrow> json \<Rightarrow> tracker \<Rightarrow> nat \<Rightarrow> (py_exn + frame list option) \<times> tracker" where
  "native_tool_recovery env body tr n =
     (case native_repair_tools env body 0 (tk_tool_blocks tr) tr n of
        (Inr (Some fs), tr1) \<Rightarrow>
          if can_salvage_tool_use (n_validates env) (n_schemas env) tr1
          then (case iter_success_tail (u ''tool_use'') tr1 of (gs, tr2, _) \<Rightarrow> (Inr (Some (fs @ gs)), tr2))
          else (Inr None, tr1)
      | r \<Rightarrow> r)"

definition opt_suffix :: "pystr option \<Rightarrow> pystr" where
  "opt_suffix s = (case s of Some t \<Rightarrow> t | None \<Rightarrow> [])"

definition native_text_recovery :: "native_env \<Rightarrow> json \<Rightarrow> tracker \<Rightarrow> nat \<Rightarrow> (py_exn + frame list option) \<times> tracker" where
  "native_text_recovery env body tr n =
     (let partial_text = emitted_text tr; partial_thinking = emitted_thinking tr in
      if partial_text = [] \<and> partial_thinking = [] then (Inr None, tr)
      else case fst (collect_native_recovery_text env (make_native_text_recovery_body body partial_text)
                       MIDSTREAM_RECOVERY_ATTEMPTS None n) of
          Inl e \<Rightarrow> (Inl e, tr)
        | Inr (text, thinking) \<Rightarrow>
            (case emit_seq (append_thinking_suffix (opt_suffix (continuation_suffix partial_thinking thinking)))
                    (append_text_suffix (opt_suffix (continuation_suffix partial_text text))) tr of
               (fs, tr1, _) \<Rightarrow>
                 if fs = [] then (Inr None, tr1)
                 else case iter_success_tail (u ''end_turn'') tr1 of (gs, tr2, _) \<Rightarrow> (Inr (Some (fs @ gs)), tr2)))"

definition native_recovery_events :: "native_env \<Rightarrow> json \<Rightarrow> py_exn \<Rightarrow> tracker \<Rightarrow> nat \<Rightarrow> (py_exn + frame list option) \<times> tracker" where
  "native_recovery_events env body e tr n =
     (if \<not> is_retryable_stream_error e then (Inr None, tr)
      else if has_tool_block tr then native_tool_recovery env body tr n
      else native_text_recovery env body tr n)"

section \<open>The stream\<close>

fun push_chunks :: "native_env \<Rightarrow> pystr list \<Rightarrow> native_strm \<Rightarrow> native_strm" where
  "push_chunks env [] st = st"
| "push_chunks env (chunk # chunks) st =
     (case hb_push (n_now env) utf8_len chunk (ns_hold st, ns_now st) of
        (out, h, n) \<Rightarrow>
          push_chunks env chunks
            (st\<lparr>ns_tracker := tracker_feed chunk (ns_tracker st), ns_hold := h, ns_now := n, ns_out := ns_out st @ out\<rparr>))"

text \<open>One pass of the loop: the state after it, the exception, and whether the stream was opened.\<close>

definition native_attempt :: "native_env \<Rightarrow> json \<Rightarrow> nat \<Rightarrow> native_strm \<Rightarrow> native_strm \<times> py_exn option \<times> bool" where
  "native_attempt env body n st =
     (case n_send env body n of
        Inl e \<Rightarrow> (st, Some e, False)
      | Inr response \<Rightarrow>
          (case iter_stream_chunks env response (ns_policy st) of
             (chunks, state, ending) \<Rightarrow>
               let st1 = (push_chunks env chunks st)\<lparr>ns_policy := state\<rparr>
               in (st1,
                   (case ending of Some e \<Rightarrow> Some e
                    | None \<Rightarrow> if tk_message_stopped (ns_tracker st1) then None else Some TruncatedProviderStreamError),
                   True)))"

definition native_flush :: "native_strm \<Rightarrow> native_strm" where
  "native_flush st = (case hb_flush (ns_hold st) of (out, h) \<Rightarrow> st\<lparr>ns_hold := h, ns_out := ns_out st @ out\<rparr>)"

definition send_frames :: "frame list \<Rightarrow> native_strm \<Rightarrow> native_strm" where
  "send_frames fs st = st\<lparr>ns_out := ns_out st @ map (\<lambda>(n, d). format_sse_event n d) fs\<rparr>"

definition native_may_retry :: "native_env \<Rightarrow> py_exn \<Rightarrow> bool \<Rightarrow> native_strm \<Rightarrow> bool" where
  "native_may_retry env e opened st \<longleftrightarrow>
     \<not> hb_committed (ns_hold st) \<and> opened \<and> is_retryable_stream_error e \<and>
     \<not> (has_content_block (ns_tracker st) \<and> can_salvage_tool_use (n_validates env) (n_schemas env) (ns_tracker st))"

definition native_reset :: "native_env \<Rightarrow> native_strm \<Rightarrow> native_strm" where
  "native_reset env st =
     st\<lparr>ns_policy := new_stream_state env, ns_tracker := EmittedNativeSseTracker, ns_hold := RecoveryHoldbackBuffer\<rparr>"

definition native_error_path :: "native_env \<Rightarrow> py_exn \<Rightarrow> native_strm \<Rightarrow> native_strm" where
  "native_error_path env e st =
     (if hb_committed (ns_hold st) \<or> hb_has_buffered (ns_hold st) then
        (case iter_close_unclosed_blocks (ns_tracker st) of (closing, tr, _) \<Rightarrow>
           send_frames (closing @ iter_midstream_error_tail (n_fresh_id env) (n_model env) (n_error_message env e) (n_input_tokens env) tr)
             (if hb_committed (ns_hold st) then st else native_flush st))
      else
        send_frames (iter_provider_stream_error_sse_events (n_fresh_id env) (n_model env) (n_input_tokens env) (n_error_message env e) False)
          (st\<lparr>ns_hold := hb_discard (ns_hold st)\<rparr>))"

definition native_fail :: "native_env \<Rightarrow> json \<Rightarrow> nat \<Rightarrow> py_exn \<Rightarrow> native_strm \<Rightarrow> native_strm" where
  "native_fail env body n e st =
     (if has_content_block (ns_tracker st) \<and> is_retryable_stream_error e then
        (case native_recovery_events env body e (ns_tracker st) n of
           (Inr (Some events), tr) \<Rightarrow>
             send_frames events (if hb_committed (ns_hold st) then st else native_flush st)
         | (_, tr) \<Rightarrow> native_error_path env e (st\<lparr>ns_tracker := tr\<rparr>))
      else native_error_path env e st)"

function native_loop :: "native_env \<Rightarrow> json \<Rightarrow> nat \<Rightarrow> nat \<Rightarrow> native_strm \<Rightarrow> native_strm" where
  "native_loop env body retries n st =
     (case native_attempt env body n st of
        (st1, None, _) \<Rightarrow> native_flush st1
      | (st1, Some e, opened) \<Rightarrow>
          if native_may_retry env e opened st1 \<and> 0 < retries
          then native_loop env body (retries - 1) (Suc n) (native_reset env st1)
          else native_fail env body (Suc n) e st1)"
  by pat_completeness auto
termination
  by (relation "measure (\<lambda>(env, body, r, n, st). r)") auto

declare native_loop.simps [simp del]

definition initial_native :: "native_env \<Rightarrow> native_strm" where
  "initial_native env =
     \<lparr>ns_policy = new_stream_state env, ns_tracker = EmittedNativeSseTracker, ns_hold = RecoveryHoldbackBuffer,
      ns_now = 0, ns_out = []\<rparr>"

definition native_stream_response :: "native_env \<Rightarrow> json \<Rightarrow> pystr list" where
  "native_stream_response env body = ns_out (native_loop env body EARLY_TRANSPARENT_MAX_RETRIES 0 (initial_native env))"

section \<open>Legal replies\<close>

text \<open>
  What the contract asks of a provider: after the policy, a reply gives nothing, or frames that
  begin with \<open>message_start\<close> and that the checker accepts so far; a \<open>message_stop\<close> ends a complete
  reply that meets the contract; a text block still open did not begin with its text, and a tool block that
  was closed has complete arguments.
\<close>

definition read_frames :: "pystr \<Rightarrow> frame list" where
  "read_frames s = map (\<lambda>e. (ev_name e, ev_data e)) (parse_sse_text s)"

definition legal_frames :: "bool \<Rightarrow> native_env \<Rightarrow> bool \<Rightarrow> frame list \<Rightarrow> bool" where
  "legal_frames allow env ended fs \<longleftrightarrow>
     list_all frame_ok fs \<and>
     (case contract_run allow fs contract_init of Inl _ \<Rightarrow> False
      | Inr c \<Rightarrow> list_all (\<lambda>(i, k). k \<noteq> u ''text_eager'') (open_blocks c)) \<and>
     (if u ''message_stop'' \<in> set (map fst fs) then ended \<and> check_contract allow fs = Inr () else True) \<and>
     list_all (\<lambda>b. eb_open b \<or> tool_block_complete (n_validates env) (n_schemas env) b)
       (tk_tool_blocks (observe_all fs EmittedNativeSseTracker))"

definition legal_reply :: "bool \<Rightarrow> native_env \<Rightarrow> pystr list \<times> py_exn option \<Rightarrow> bool" where
  "legal_reply allow env response \<longleftrightarrow>
     (case iter_stream_chunks env response (new_stream_state env) of (chunks, _, ending) \<Rightarrow>
        let fs = read_frames (concat chunks) in
        wire fs = concat chunks \<and> legal_frames allow env (ending = None) fs \<and>
        (chunks = [] \<or> fs \<noteq> [] \<and> fst (hd fs) = u ''message_start''))"

definition legal_provider :: "bool \<Rightarrow> native_env \<Rightarrow> json \<Rightarrow> bool" where
  "legal_provider allow env body \<longleftrightarrow>
     (\<forall>n. case n_send env body n of Inl _ \<Rightarrow> True | Inr response \<Rightarrow> legal_reply allow env response)"

section \<open>What an attempt leaves\<close>

lemma push_chunks_conserves:
  assumes "hb_ok (ns_hold st)"
  shows "hb_ok (ns_hold (push_chunks env chunks st)) \<and>
    ns_out (push_chunks env chunks st) @ hb_events (ns_hold (push_chunks env chunks st)) = ns_out st @ hb_events (ns_hold st) @ chunks \<and>
    (\<not> hb_committed (ns_hold (push_chunks env chunks st)) \<longrightarrow> ns_out (push_chunks env chunks st) = ns_out st) \<and>
    (hb_committed (ns_hold st) \<longrightarrow> hb_committed (ns_hold (push_chunks env chunks st))) \<and>
    ns_tracker (push_chunks env chunks st) = foldl (\<lambda>tr chunk. tracker_feed chunk tr) (ns_tracker st) chunks"
  using assms
proof (induction chunks arbitrary: st)
  case (Cons chunk chunks)
  obtain out h n where push: "hb_push (n_now env) utf8_len chunk (ns_hold st, ns_now st) = (out, h, n)" by (metis prod_cases3)
  note c = hb_push_conserves [OF push Cons.prems]
  let ?st = "st\<lparr>ns_tracker := tracker_feed chunk (ns_tracker st), ns_hold := h, ns_now := n, ns_out := ns_out st @ out\<rparr>"
  have ih: "hb_ok (ns_hold ?st)" using c by simp
  show ?case using Cons.IH [OF ih] c by (auto simp: push)
qed simp

lemma observe_stopped: "tk_message_stopped (observe ev tr) \<longleftrightarrow> tk_message_stopped tr \<or> fst ev = u ''message_stop''"
  by (cases ev) (simp add: observe_def observe_message_start_def observe_start_def observe_delta_def observe_stop_def
      observe_message_delta_def Let_def split: option.split json.split)

lemma observe_all_stopped: "tk_message_stopped (observe_all fs tr) \<longleftrightarrow> tk_message_stopped tr \<or> u ''message_stop'' \<in> set (map fst fs)"
proof (induction fs arbitrary: tr)
  case (Cons f fs)
  then show ?case by (auto simp: observe_all_def observe_stopped)
qed (simp add: observe_all_def)

lemma wire_empty: "wire fs = [] \<Longrightarrow> fs = []"
  by (cases fs) (auto simp: wire_def format_sse_event_def u_def)

text \<open>A tracked block was started, and a started block is never forgotten.\<close>

lemma observe_no_start: "tk_blocks tr = [] \<Longrightarrow> fst ev \<noteq> u ''content_block_start'' \<Longrightarrow> tk_blocks (observe ev tr) = []"
  by (cases ev) (simp add: observe_def observe_message_start_def observe_delta_def observe_stop_def close_block_def
      observe_message_delta_def Let_def split: option.split json.split)

lemma observe_all_no_start:
  "tk_blocks tr = [] \<Longrightarrow> u ''content_block_start'' \<notin> set (map fst fs) \<Longrightarrow> tk_blocks (observe_all fs tr) = []"
proof (induction fs arbitrary: tr)
  case (Cons f fs)
  have "tk_blocks (observe f tr) = []" by (rule observe_no_start) (use Cons.prems in auto)
  from Cons.IH [OF this] show ?case using Cons.prems(2) by (simp add: observe_all_def)
qed (simp add: observe_all_def)

lemma start_seen:
  "contract_run a fs c = Inr c' \<Longrightarrow> u ''content_block_start'' \<in> set (map fst fs) \<Longrightarrow> seen_blocks c' \<noteq> {}"
proof (induction fs arbitrary: c)
  case (Cons f fs)
  obtain c1 where c1: "contract_step a f c = Inr c1" "contract_run a fs c1 = Inr c'"
    using Cons.prems(1) by (cases "contract_step a f c") auto
  show ?case
  proof (cases "fst f = u ''content_block_start''")
    case True
    then have "seen_blocks c1 \<noteq> {}"
      using c1(1) by (cases f) (auto simp: contract_step_def contract_start_def Let_def split: if_splits sum.splits option.splits)
    then show ?thesis using contract_seen_mono [OF c1(2)] by auto
  qed (use Cons.IH [OF c1(2)] Cons.prems(2) in auto)
qed simp

text \<open>The state in which an attempt from a fresh state ends, with the frames it was given.\<close>

definition after :: "bool \<Rightarrow> native_env \<Rightarrow> native_strm \<Rightarrow> frame list \<Rightarrow> contract_state \<Rightarrow> bool" where
  "after allow env st fs c \<longleftrightarrow>
     hb_ok (ns_hold st) \<and> concat (ns_out st @ hb_events (ns_hold st)) = wire fs \<and>
     (\<not> hb_committed (ns_hold st) \<longrightarrow> ns_out st = []) \<and>
     (hb_committed (ns_hold st) \<or> hb_has_buffered (ns_hold st) \<longrightarrow> fs \<noteq> []) \<and>
     (fs \<noteq> [] \<longrightarrow> fst (hd fs) = u ''message_start'') \<and>
     contract_run allow fs contract_init = Inr c \<and> plain_inv (ns_tracker st) c \<and>
     (has_content_block (ns_tracker st) \<longrightarrow> fs \<noteq> [] \<and> seen_blocks c \<noteq> {}) \<and>
     (tk_message_stopped (ns_tracker st) \<longrightarrow> check_contract allow fs = Inr ()) \<and>
     (\<forall>b \<in> set (tk_tool_blocks (ns_tracker st)). eb_open b \<or> tool_block_complete (n_validates env) (n_schemas env) b)"

definition fresh :: "native_env \<Rightarrow> native_strm \<Rightarrow> bool" where
  "fresh env st \<longleftrightarrow> ns_policy st = new_stream_state env \<and> ns_tracker st = EmittedNativeSseTracker \<and>
     ns_hold st = RecoveryHoldbackBuffer \<and> ns_out st = []"

lemma plain_init: "plain_inv EmittedNativeSseTracker contract_init"
  by (simp add: plain_inv_def tracker_inv_init) (simp add: contract_init_def)

lemma after_fresh: "fresh env st \<Longrightarrow> after allow env st [] contract_init"
  by (simp add: after_def fresh_def plain_init wire_def hb_has_buffered_def)
    (simp add: EmittedNativeSseTracker_def has_content_block_def tk_tool_blocks_def blocks_of_type_def)

lemma legal_framesD:
  assumes "legal_frames allow env ended fs"
  obtains c where "list_all frame_ok fs" "contract_run allow fs contract_init = Inr c"
    "plain_inv (observe_all fs EmittedNativeSseTracker) c"
    "u ''message_stop'' \<in> set (map fst fs) \<Longrightarrow> ended \<and> check_contract allow fs = Inr ()"
    "\<forall>b \<in> set (tk_tool_blocks (observe_all fs EmittedNativeSseTracker)). eb_open b \<or> tool_block_complete (n_validates env) (n_schemas env) b"
proof -
  have ok: "list_all frame_ok fs" using assms by (simp add: legal_frames_def)
  then have json: "list_all (json_ok \<circ> snd) fs" by (auto simp: list_all_iff frame_ok_def)
  obtain c where c: "contract_run allow fs contract_init = Inr c" "list_all (\<lambda>(i, k). k \<noteq> u ''text_eager'') (open_blocks c)"
    using assms unfolding legal_frames_def by (cases "contract_run allow fs contract_init") auto
  have "\<forall>i. dict_get (open_blocks c) i \<noteq> Some (u ''text_eager'')"
  proof (intro allI notI)
    fix i assume "dict_get (open_blocks c) i = Some (u ''text_eager'')"
    from dict_get_in_set [OF this] show False using c(2) by (auto simp: list_all_iff)
  qed
  then have "plain_inv (observe_all fs EmittedNativeSseTracker) c"
    using observe_all_step [OF tracker_inv_init c(1) json] unfolding plain_inv_def by blast
  then show ?thesis using that ok c(1) assms by (simp add: legal_frames_def list_all_iff split: if_splits)
qed

lemma attempt_after:
  assumes fresh: "fresh env st" and legal: "legal_provider allow env body"
    and run: "native_attempt env body n st = (st1, e, opened)"
  obtains fs c where "after allow env st1 fs c" "(e = None) = tk_message_stopped (ns_tracker st1)"
proof (cases "n_send env body n")
  case (Inl err)
  then have st1: "st1 = st" "e = Some err" using run by (auto simp: native_attempt_def)
  have "\<not> tk_message_stopped (ns_tracker st)" using fresh by (simp add: fresh_def EmittedNativeSseTracker_def)
  then show ?thesis using that after_fresh [OF fresh] st1 by auto
next
  case (Inr response)
  obtain chunks state ending where it: "iter_stream_chunks env response (new_stream_state env) = (chunks, state, ending)"
    by (metis prod_cases3)
  let ?fs = "read_frames (concat chunks)"
  have "legal_reply allow env response" using legal [unfolded legal_provider_def, rule_format, of n] Inr by simp
  then have l: "wire ?fs = concat chunks" "legal_frames allow env (ending = None) ?fs"
      "chunks = [] \<or> ?fs \<noteq> [] \<and> fst (hd ?fs) = u ''message_start''"
    by (simp_all add: legal_reply_def it Let_def)
  obtain c where c: "list_all frame_ok ?fs" "contract_run allow ?fs contract_init = Inr c"
    "plain_inv (observe_all ?fs EmittedNativeSseTracker) c"
    "u ''message_stop'' \<in> set (map fst ?fs) \<Longrightarrow> ending = None \<and> check_contract allow ?fs = Inr ()"
    "\<forall>b \<in> set (tk_tool_blocks (observe_all ?fs EmittedNativeSseTracker)). eb_open b \<or> tool_block_complete (n_validates env) (n_schemas env) b"
    using legal_framesD [OF l(2)] by blast
  let ?st = "push_chunks env chunks st"
  have st: "ns_policy st = new_stream_state env" "ns_tracker st = EmittedNativeSseTracker" "ns_hold st = RecoveryHoldbackBuffer" "ns_out st = []"
    using fresh by (simp_all add: fresh_def)
  have hold: "hb_ok (ns_hold st)" by (simp add: st)
  note p = push_chunks_conserves [OF hold, of env chunks]
  have tr: "ns_tracker ?st = observe_all ?fs EmittedNativeSseTracker"
    using p tracker_chunks [of chunks] feed_wire [OF c(1)] l(1) st(2) by simp
  have stopped: "tk_message_stopped (ns_tracker ?st) \<longleftrightarrow> u ''message_stop'' \<in> set (map fst ?fs)"
    unfolding tr observe_all_stopped by (simp add: EmittedNativeSseTracker_def)
  have st1: "st1 = ?st\<lparr>ns_policy := state\<rparr>" and e: "e = (case ending of Some x \<Rightarrow> Some x
      | None \<Rightarrow> if tk_message_stopped (ns_tracker ?st) then None else Some TruncatedProviderStreamError)"
    using run Inr it st(1) by (auto simp: native_attempt_def Let_def)
  show ?thesis
  proof (rule that)
    show "(e = None) = tk_message_stopped (ns_tracker st1)" using c(4) stopped by (auto simp: st1 e split: option.split)
    have buffered: "chunks \<noteq> []" if "hb_committed (ns_hold ?st) \<or> hb_has_buffered (ns_hold ?st)"
      using that st by (cases chunks) (simp_all add: hb_has_buffered_def)
    have started: "u ''content_block_start'' \<in> set (map fst ?fs)" if "has_content_block (ns_tracker ?st)"
      using that observe_all_no_start [of EmittedNativeSseTracker ?fs] unfolding tr has_content_block_def
      by (auto simp: EmittedNativeSseTracker_def)
    show "after allow env st1 ?fs c"
      unfolding after_def
    proof (intro conjI impI)
      show "seen_blocks c \<noteq> {}" if "has_content_block (ns_tracker st1)"
        using start_seen [OF c(2) started] that by (simp add: st1)
      show "?fs \<noteq> []" if "has_content_block (ns_tracker st1)" using started that by (auto simp: st1)
      show "?fs \<noteq> []" if "hb_committed (ns_hold st1) \<or> hb_has_buffered (ns_hold st1)"
        using buffered that l(3) by (auto simp: st1)
      show "fst (hd ?fs) = u ''message_start''" if "?fs \<noteq> []" using l(1,3) that wire_empty by auto
      show "check_contract allow ?fs = Inr ()" if "tk_message_stopped (ns_tracker st1)" using that stopped c(4) by (simp add: st1)
    qed (use p l(1) c tr st in \<open>auto simp: st1\<close>)
  qed
qed

section \<open>What recovery sends\<close>

lemma repair_tools_run:
  assumes "plain_inv tr c" "tool_marks tr = ms" "index + length bs = length ms"
    and "\<And>k. k < length bs \<Longrightarrow> snd (snd (ms ! (index + k))) \<or> tool_block_complete (n_validates env) (n_schemas env) (bs ! k)"
    and "native_repair_tools env body index bs tr n = (r, tr')"
  shows "plain_inv tr' c \<and> tk_message_stopped tr' = tk_message_stopped tr \<and> (\<forall>fs. r = Inr (Some fs) \<longrightarrow> contract_run a fs c = Inr c)"
  using assms
proof (induction bs arbitrary: index tr n r tr')
  case (Cons b bs)
  have rest: "Suc index + length bs = length ms" using Cons.prems(3) by simp
  have rest2: "snd (snd (ms ! (Suc index + k))) \<or> tool_block_complete (n_validates env) (n_schemas env) (bs ! k)" if "k < length bs" for k
    using Cons.prems(4) [of "Suc k"] that by simp
  show ?case
  proof (cases "tool_block_complete (n_validates env) (n_schemas env) b")
    case True
    then have "native_repair_tools env body (Suc index) bs tr n = (r, tr')" using Cons.prems(5) by simp
    from Cons.IH [OF Cons.prems(1,2) rest rest2 this] show ?thesis .
  next
    case False
    let ?schema = "map_option ts_input_schema (dict_get (n_schemas env) (eb_name b))"
    obtain q n1 where q: "native_repair_attempts env (make_native_tool_repair_body body (eb_name b) (eb_content b) ?schema)
        b MIDSTREAM_RECOVERY_ATTEMPTS n = (q, n1)" by fastforce
    consider "\<exists>e. q = Inl e" | "q = Inr None" | sfx where "q = Inr (Some sfx)" by (cases q) auto
    then show ?thesis
    proof cases
      case 3
      obtain fs tr1 e where rep: "append_tool_repair_suffix index sfx tr = (fs, tr1, e)" by (metis prod_cases3)
      have "snd (snd (ms ! index))" using Cons.prems(4) [of 0] False by simp
      then have op: "snd (snd (tool_marks tr ! index))" using Cons.prems(2) by simp
      note rr = repair_run [OF Cons.prems(1) op rep]
      obtain r2 tr2 where r2: "native_repair_tools env body (Suc index) bs tr1 n1 = (r2, tr2)" by fastforce
      have ms: "tool_marks tr1 = ms" using rr(3) Cons.prems(2) by simp
      note ih = Cons.IH [OF rr(2) ms rest rest2 r2]
      show ?thesis
        using Cons.prems(5) False q 3 rep r2 ih rr(1,4) contract_run_appendI [OF rr(1) [of a]]
        by (auto simp: Let_def split: sum.splits option.splits)
    qed (use Cons.prems False q in \<open>auto simp: Let_def\<close>)
  qed
qed auto

text \<open>Frames that end a stream: the checker accepts them and is left with nothing open.\<close>

definition ends_stream :: "bool \<Rightarrow> contract_state \<Rightarrow> frame list \<Rightarrow> bool" where
  "ends_stream a c fs \<longleftrightarrow> fs \<noteq> [] \<and> fst (last fs) = u ''message_stop'' \<and>
     (\<exists>c'. contract_run a fs c = Inr c' \<and> open_blocks c' = [] \<and> seen_blocks c' \<noteq> {})"

lemma ends_streamI:
  assumes "contract_run a gs c = Inr c1" "plain_inv tr1 c1" "seen_blocks c \<noteq> {}" "\<not> tk_message_stopped tr1"
    and "iter_success_tail sr tr1 = (fs, tr2, e)"
  shows "ends_stream a c (gs @ fs)"
proof -
  obtain c' where "contract_run a fs c1 = Inr c'" "open_blocks c' = []" "seen_blocks c' = seen_blocks c1"
    using success_tail_run(1) [OF assms(2,5), of a] by blast
  moreover have "seen_blocks c1 \<noteq> {}" using contract_seen_mono [OF assms(1)] assms(3) by auto
  ultimately show ?thesis
    using success_tail_run(2) [OF assms(2,5,4)] contract_run_appendI [OF assms(1)] unfolding ends_stream_def by force
qed

lemma suffix_stopped: "append_suffix ty dt sfx tr = (fs, tr', e) \<Longrightarrow> tk_message_stopped tr' = tk_message_stopped tr \<and> e = None \<and> (fs = [] \<longrightarrow> tr' = tr)"
  by (auto simp: append_suffix_def Let_def split: if_splits option.splits prod.splits)

lemma recovery_run:
  assumes inv: "plain_inv tr c" and seen: "seen_blocks c \<noteq> {}" and stop: "\<not> tk_message_stopped tr"
    and tools: "\<forall>b \<in> set (tk_tool_blocks tr). eb_open b \<or> tool_block_complete (n_validates env) (n_schemas env) b"
    and run: "native_recovery_events env body e tr n = (r, tr')"
  shows "(\<forall>fs. r = Inr (Some fs) \<longrightarrow> ends_stream a c fs) \<and> ((\<forall>fs. r \<noteq> Inr (Some fs)) \<longrightarrow> plain_inv tr' c)"
proof -
  consider (none) "r = Inr None" "tr' = tr" | (tool) "native_tool_recovery env body tr n = (r, tr')"
    | (words) "native_text_recovery env body tr n = (r, tr')"
    using run unfolding native_recovery_events_def by (metis prod.inject)
  then show ?thesis
  proof cases
    case none
    then show ?thesis using inv by simp
  next
    case tool
    obtain q tr1 where q: "native_repair_tools env body 0 (tk_tool_blocks tr) tr n = (q, tr1)" by fastforce
    have "snd (snd (tool_marks tr ! (0 + k))) \<or> tool_block_complete (n_validates env) (n_schemas env) (tk_tool_blocks tr ! k)"
      if "k < length (tk_tool_blocks tr)" for k
      using tools that by (auto simp: tool_marks_def)
    then have rt: "plain_inv tr1 c \<and> tk_message_stopped tr1 = tk_message_stopped tr \<and> (\<forall>fs. q = Inr (Some fs) \<longrightarrow> contract_run a fs c = Inr c)"
      by (intro repair_tools_run [OF inv refl _ _ q]) (simp_all add: tool_marks_def)
    obtain gs tr2 e2 where tail: "iter_success_tail (u ''tool_use'') tr1 = (gs, tr2, e2)" by (metis prod_cases3)
    show ?thesis
    proof (cases "\<exists>fs. q = Inr (Some fs)")
      case True
      then obtain fs where fs: "q = Inr (Some fs)" by blast
      have "ends_stream a c (fs @ gs)" by (rule ends_streamI [OF _ _ seen _ tail]) (use rt stop fs in auto)
      then show ?thesis using tool q fs tail rt by (auto simp: native_tool_recovery_def split: if_splits)
    next
      case False
      then have "r = q \<and> tr' = tr1" using tool q by (auto simp: native_tool_recovery_def split: sum.splits option.splits)
      then show ?thesis using False rt by auto
    qed
  next
    case words
    let ?q = "fst (collect_native_recovery_text env (make_native_text_recovery_body body (emitted_text tr)) MIDSTREAM_RECOVERY_ATTEMPTS None n)"
    show ?thesis
    proof (cases "emitted_text tr = [] \<and> emitted_thinking tr = []")
      case True
      then show ?thesis using words inv by (auto simp: native_text_recovery_def Let_def)
    next
      case False
      show ?thesis
      proof (cases ?q)
        case (Inl x)
        then show ?thesis using words False inv by (auto simp: native_text_recovery_def Let_def)
      next
        case (Inr tt)
        obtain ct thk where tt: "tt = (ct, thk)" by (cases tt)
        let ?f = "append_thinking_suffix (opt_suffix (continuation_suffix (emitted_thinking tr) thk))"
        let ?g = "append_text_suffix (opt_suffix (continuation_suffix (emitted_text tr) ct))"
        obtain fs tr1 e1 where seq: "emit_seq ?f ?g tr = (fs, tr1, e1)" by (metis prod_cases3)
        have emits: "trk.emits a (\<lambda>_. True) (emit_seq ?f ?g) (\<lambda>_. True)"
          unfolding append_thinking_suffix_def append_text_suffix_def by (rule trk.emits_seq [OF emits_suffix emits_suffix]) simp_all
        obtain c1 where c1: "contract_run a fs c = Inr c1" "plain_inv tr1 c1" using trk.emitsD [OF emits inv TrueI seq] by blast
        have stop1: "tk_message_stopped tr1 = tk_message_stopped tr"
          using seq unfolding append_thinking_suffix_def append_text_suffix_def
          by (auto simp: emit_seq_def split: prod.splits option.splits dest: suffix_stopped)
        obtain gs tr2 e2 where tail: "iter_success_tail (u ''end_turn'') tr1 = (gs, tr2, e2)" by (metis prod_cases3)
        have "ends_stream a c (fs @ gs)" by (rule ends_streamI [OF c1 seen _ tail]) (use stop stop1 in simp)
        then show ?thesis
          using words False Inr tt seq tail c1 by (auto simp: native_text_recovery_def Let_def split: if_splits)
      qed
    qed
  qed
qed

section \<open>The stream meets the contract\<close>

lemma afterD:
  assumes "after allow env st fs c"
  shows "hb_ok (ns_hold st)" "concat (ns_out st @ hb_events (ns_hold st)) = wire fs"
    "\<not> hb_committed (ns_hold st) \<Longrightarrow> ns_out st = []"
    "hb_committed (ns_hold st) \<or> hb_has_buffered (ns_hold st) \<Longrightarrow> fs \<noteq> []"
    "fs \<noteq> [] \<Longrightarrow> fst (hd fs) = u ''message_start''"
    "contract_run allow fs contract_init = Inr c" "plain_inv (ns_tracker st) c"
    "has_content_block (ns_tracker st) \<Longrightarrow> fs \<noteq> [] \<and> seen_blocks c \<noteq> {}"
    "tk_message_stopped (ns_tracker st) \<Longrightarrow> check_contract allow fs = Inr ()"
    "\<forall>b \<in> set (tk_tool_blocks (ns_tracker st)). eb_open b \<or> tool_block_complete (n_validates env) (n_schemas env) b"
  using assms unfolding after_def by blast+

lemma wire_append: "wire (fs @ gs) = wire fs @ wire gs"
  by (simp add: wire_def)

lemma sent_out:
  assumes "after allow env st fs c"
  shows "concat (ns_out (send_frames gs (if hb_committed (ns_hold st) then st else native_flush st))) = wire (fs @ gs)"
    and "concat (ns_out (native_flush st)) = wire fs"
proof -
  note a = afterD(1-3) [OF assms]
  obtain out h where fl: "hb_flush (ns_hold st) = (out, h)" by fastforce
  have out: "out = hb_events (ns_hold st)" using hb_flush_conserves [OF fl a(1)] by simp
  show flush: "concat (ns_out (native_flush st)) = wire fs" using a(2) by (simp add: native_flush_def fl out)
  have "concat (ns_out st) = wire fs" if "hb_committed (ns_hold st)" using a(1,2) that by (simp add: hb_ok_def)
  then show "concat (ns_out (send_frames gs (if hb_committed (ns_hold st) then st else native_flush st))) = wire (fs @ gs)"
    using flush by (simp add: send_frames_def wire_append) (simp add: wire_def)
qed

lemma ends_after:
  assumes "after allow env st fs c" "fs \<noteq> []" "ends_stream allow c gs"
  shows "check_contract allow (fs @ gs) = Inr ()"
proof -
  obtain c' where c': "contract_run allow gs c = Inr c'" "open_blocks c' = []" "seen_blocks c' \<noteq> {}" "gs \<noteq> []"
    "fst (last gs) = u ''message_stop''" using assms(3) unfolding ends_stream_def by blast
  have "u ''message_start'' \<in> set (map fst fs)"
    using afterD(5) [OF assms(1,2)] assms(2) by (metis imageI list.set_map list.set_sel(1))
  then show ?thesis
    using contract_run_appendI [OF afterD(6) [OF assms(1)] c'(1)] c' by (simp add: check_contract_def)
qed

lemma error_events_legal: "check_contract a (iter_provider_stream_error_sse_events mid mdl tokens message False) = Inr ()"
proof -
  let ?s = "SSEBuilder_init mid mdl tokens"
  obtain d where start: "message_start ?s = ([(u ''message_start'', d)], ?s, None)"
    by (simp add: message_start_def emit_frame_def)
  have s: "?s = ?s\<lparr>blocks := (blocks ?s)\<lparr>next_index := 0\<rparr>\<rparr>" by (simp add: SSEBuilder_init_def ContentBlockManager_init_def)
  obtain fs s' e where run: "error_text_and_stop message ?s = (fs, s', e)" by (metis prod_cases3)
  obtain c' where c': "contract_run a fs contract_init = Inr c'" "open_blocks c' = []" "seen_blocks c' \<noteq> {}"
      "fst (last fs) = u ''message_stop''" "fs \<noteq> []"
    using error_text_run [of contract_init 0 message ?s fs s' e a] run s by (auto simp: contract_init_def)
  have "iter_provider_stream_error_sse_events mid mdl tokens message False = (u ''message_start'', d) # fs"
    by (simp add: iter_provider_stream_error_sse_events_def emit_seq_def emit_if_def start run)
  moreover have "contract_step a (u ''message_start'', d) contract_init = Inr contract_init" by (simp add: contract_step_def)
  ultimately show ?thesis using c' by (simp add: check_contract_def)
qed

lemma error_path_legal:
  assumes aft: "after allow env st fs c" and inv: "tracker_inv tr c"
  shows "\<exists>gs. concat (ns_out (native_error_path env e (st\<lparr>ns_tracker := tr\<rparr>))) = wire gs \<and> check_contract allow gs = Inr ()"
proof (cases "hb_committed (ns_hold st) \<or> hb_has_buffered (ns_hold st)")
  case True
  obtain closing tr' x where close: "iter_close_unclosed_blocks tr = (closing, tr', x)" by (metis prod_cases3)
  define tail where "tail = iter_midstream_error_tail (n_fresh_id env) (n_model env) (n_error_message env e) (n_input_tokens env) tr'"
  from error_tail_run [OF inv close, of allow "n_fresh_id env" "n_model env" "n_error_message env e" "n_input_tokens env"]
  have "ends_stream allow c (closing @ tail)" unfolding ends_stream_def tail_def [symmetric] by auto
  from ends_after [OF aft afterD(4) [OF aft True] this] have legal: "check_contract allow (fs @ closing @ tail) = Inr ()" .
  have flush: "ns_out (native_flush (st\<lparr>ns_tracker := tr\<rparr>)) = ns_out (native_flush st)"
    by (simp add: native_flush_def split: prod.split)
  have "concat (ns_out (native_error_path env e (st\<lparr>ns_tracker := tr\<rparr>))) = wire (fs @ closing @ tail)"
    using sent_out(1) [OF aft, of "closing @ tail"] True close flush
    by (simp add: native_error_path_def send_frames_def tail_def split: if_splits)
  then show ?thesis using legal by blast
next
  case False
  then have "concat (ns_out (native_error_path env e (st\<lparr>ns_tracker := tr\<rparr>))) =
      wire (iter_provider_stream_error_sse_events (n_fresh_id env) (n_model env) (n_input_tokens env) (n_error_message env e) False)"
    using afterD(3) [OF aft] by (simp add: native_error_path_def send_frames_def wire_def)
  then show ?thesis using error_events_legal by blast
qed

lemma fail_legal:
  assumes aft: "after allow env st fs c" and stop: "\<not> tk_message_stopped (ns_tracker st)"
  shows "\<exists>gs. concat (ns_out (native_fail env body n e st)) = wire gs \<and> check_contract allow gs = Inr ()"
proof (cases "has_content_block (ns_tracker st) \<and> is_retryable_stream_error e")
  case True
  obtain r tr where r: "native_recovery_events env body e (ns_tracker st) n = (r, tr)" by fastforce
  have seen: "fs \<noteq> []" "seen_blocks c \<noteq> {}" using afterD(8) [OF aft] True by simp_all
  note rec = recovery_run [OF afterD(7) [OF aft] seen(2) stop afterD(10) [OF aft] r, of allow]
  show ?thesis
  proof (cases "\<exists>es. r = Inr (Some es)")
    case got: True
    then obtain es where es: "r = Inr (Some es)" by blast
    then have "check_contract allow (fs @ es) = Inr ()" using ends_after [OF aft seen(1)] rec by simp
    moreover have "concat (ns_out (native_fail env body n e st)) = wire (fs @ es)"
      using sent_out(1) [OF aft, of es] True r es by (simp add: native_fail_def)
    ultimately show ?thesis by blast
  next
    case False
    then have "tracker_inv tr c" using rec by (simp add: plain_inv_def)
    moreover have "native_fail env body n e st = native_error_path env e (st\<lparr>ns_tracker := tr\<rparr>)"
      using True r False by (auto simp: native_fail_def split: sum.split option.split)
    ultimately show ?thesis using error_path_legal [OF aft] by simp
  qed
next
  case False
  have "tracker_inv (ns_tracker st) c" using afterD(7) [OF aft] by (simp add: plain_inv_def)
  from error_path_legal [OF aft this] show ?thesis using False by (auto simp: native_fail_def)
qed

lemma less_induct_pred:
  assumes "\<And>n. (0 < n \<Longrightarrow> P (n - 1)) \<Longrightarrow> P (n :: nat)"
  shows "P n"
proof (induction n)
  case 0
  show ?case by (rule assms) simp
next
  case (Suc n)
  show ?case by (rule assms) (use Suc in simp)
qed

lemma loop_legal:
  assumes "legal_provider allow env body" "fresh env st"
  shows "\<exists>gs. concat (ns_out (native_loop env body retries n st)) = wire gs \<and> check_contract allow gs = Inr ()"
  using assms(2)
proof (induction retries arbitrary: n st rule: less_induct_pred)
  fix retries n st
  assume IH: "\<And>n st. 0 < retries \<Longrightarrow> fresh env st \<Longrightarrow>
      \<exists>gs. concat (ns_out (native_loop env body (retries - 1) n st)) = wire gs \<and> check_contract allow gs = Inr ()"
    and fresh: "fresh env st"
  obtain st1 e opened where run: "native_attempt env body n st = (st1, e, opened)" by (metis prod_cases3)
  obtain fs c where aft: "after allow env st1 fs c" and stopped: "(e = None) = tk_message_stopped (ns_tracker st1)"
    using attempt_after [OF fresh assms(1) run] by blast
  show "\<exists>gs. concat (ns_out (native_loop env body retries n st)) = wire gs \<and> check_contract allow gs = Inr ()"
  proof (cases e)
    case None
    then show ?thesis
      using sent_out(2) [OF aft] afterD(9) [OF aft] stopped run by (auto simp: native_loop.simps [of env body retries])
  next
    case (Some x)
    show ?thesis
    proof (cases "native_may_retry env x opened st1 \<and> 0 < retries")
      case True
      then have "\<not> hb_committed (ns_hold st1)" by (simp add: native_may_retry_def)
      then have "fresh env (native_reset env st1)" using afterD(3) [OF aft] by (simp add: fresh_def native_reset_def)
      then show ?thesis using IH True run Some by (simp add: native_loop.simps [of env body retries])
    next
      case False
      then have "native_loop env body retries n st = native_fail env body (Suc n) x st1"
        using run Some False by (auto simp: native_loop.simps [of env body retries])
      then show ?thesis using fail_legal [OF aft] stopped Some by simp
    qed
  qed
qed


text \<open>
  C12 (functional): a first reply that is read to its \<open>message_stop\<close> is what the client gets, chunk by chunk, however
  the holdback buffer delays it.
\<close>

theorem native_complete_unchanged:
  assumes "n_send env body 0 = Inr response"
    and "iter_stream_chunks env response (new_stream_state env) = (chunks, state, None)"
    and "tk_message_stopped (tracker_feed (concat chunks) EmittedNativeSseTracker)"
  shows "native_stream_response env body = chunks"
proof -
  let ?st = "initial_native env" let ?st1 = "push_chunks env chunks ?st"
  have hold: "hb_ok (ns_hold ?st)" by (simp add: initial_native_def)
  note p = push_chunks_conserves [OF hold, of env chunks]
  have "tk_message_stopped (ns_tracker ?st1)" using p assms(3) tracker_chunks [of chunks] by (simp add: initial_native_def)
  then have "native_attempt env body 0 ?st = (?st1\<lparr>ns_policy := state\<rparr>, None, True)"
    using assms(1,2) by (simp add: native_attempt_def initial_native_def Let_def)
  then have out: "native_stream_response env body = ns_out (native_flush (?st1\<lparr>ns_policy := state\<rparr>))"
    by (simp add: native_stream_response_def native_loop.simps)
  obtain out h where fl: "hb_flush (ns_hold ?st1) = (out, h)" by fastforce
  have "out = hb_events (ns_hold ?st1)" using hb_flush_conserves [OF fl] p by simp
  then show ?thesis using p by (simp add: out native_flush_def fl) (simp add: initial_native_def)
qed

text \<open>
  A provider that cuts the first reply inside a text block, with a clock on which that reply is no longer held
  back; the second reply is the recovery's, and repeats the text.
\<close>

definition frame_lines :: "frame list \<Rightarrow> pystr list" where
  "frame_lines fs = concat (map (\<lambda>(n, d). [u ''event: '' @ n, u ''data: '' @ json_dumps d, []]) fs)"

definition full_text :: "frame list" where
  "full_text =
     take 2 cut_text @
     [content_block_delta 0 (u ''text_delta'') (u ''Hello''), content_block_stop 0, success_delta (u ''end_turn''),
      (u ''message_stop'', JObj [(u ''type'', JStr (u ''message_stop''))])]"

definition cut_reply :: "pystr list \<times> py_exn option" where
  "cut_reply = (frame_lines cut_text, Some ReadTimeout)"

definition full_reply :: "pystr list \<times> py_exn option" where
  "full_reply = (frame_lines full_text, None)"

definition cut_env :: native_env where
  "cut_env =
     \<lparr>n_send = \<lambda>_ n. Inr (if n = 0 then cut_reply else full_reply), n_line_mode = False, n_openrouter = False, n_thinking = True,
      n_now = rat_of_nat, n_validates = \<lambda>_ _. Some True, n_tools = [], n_error_message = \<lambda>_. u ''down'', n_fresh_id = u ''msg_x'',
      n_model = u ''m'', n_input_tokens = JInt 1\<rparr>"

lemma read_wire: "list_all frame_ok fs \<Longrightarrow> read_frames (wire fs) = fs"
proof (induction fs)
  case Nil
  then show ?case
    by (simp add: read_frames_def wire_def parse_sse_text_def parse_sse_lines_def str_splitlines_def append_event_def)
next
  case (Cons f fs)
  then show ?case using parse_one_frame [of f "wire fs"] wire_append [of "[f]" fs]
    by (simp add: read_frames_def frame_event_def) (simp add: wire_def case_prod_beta)
qed

lemma legal_replyI:
  assumes "iter_stream_chunks env response (new_stream_state env) = (chunks, state, ending)" "concat chunks = wire fs"
    and "legal_frames allow env (ending = None) fs" "chunks = [] \<or> fs \<noteq> [] \<and> fst (hd fs) = u ''message_start''"
  shows "legal_reply allow env response"
  using assms read_wire [of fs] by (simp add: legal_reply_def legal_frames_def)

lemma cut_env_legal: "legal_provider False cut_env body"
proof -
  have "legal_reply False cut_env cut_reply"
    by (rule legal_replyI [where fs = cut_text and chunks = "map (\<lambda>(n, d). format_sse_event n d) cut_text" and ending = "Some ReadTimeout" and state = None])
      code_simp+
  moreover have "legal_reply False cut_env full_reply"
    by (rule legal_replyI [where fs = full_text and chunks = "map (\<lambda>(n, d). format_sse_event n d) full_text" and ending = None and state = None])
      code_simp+
  ultimately show ?thesis by (simp add: legal_provider_def cut_env_def)
qed


definition full_env :: native_env where
  "full_env = cut_env\<lparr>n_send := \<lambda>_ _. Inr full_reply\<rparr>"

theorem native_complete_unchanged_witness:
  "native_stream_response full_env (JObj []) = map (\<lambda>(n, d). format_sse_event n d) full_text"
proof (rule native_complete_unchanged)
  show "n_send full_env (JObj []) 0 = Inr full_reply" by (simp add: full_env_def)
  show "iter_stream_chunks full_env full_reply (new_stream_state full_env) = (map (\<lambda>(n, d). format_sse_event n d) full_text, None, None)"
    by code_simp
  have ok: "list_all frame_ok full_text" by code_simp
  have "tk_message_stopped (observe_all full_text EmittedNativeSseTracker)" unfolding observe_all_stopped by code_simp
  then show "tk_message_stopped (tracker_feed (concat (map (\<lambda>(n, d). format_sse_event n d) full_text)) EmittedNativeSseTracker)"
    by (simp only: feed_wire [OF ok, unfolded wire_def])
qed

text \<open>
  What the replies must keep to: the continuation of a text block that began with its text goes to that block,
  whose deltas the contract forbids; and a tool block that was closed with cut arguments is repaired after its end.
\<close>

lemma eager_text_continued:
  "contract_run False
     [(u ''content_block_start'', JObj [(u ''index'', JInt 0),
        (u ''content_block'', JObj [(u ''type'', JStr (u ''text'')), (u ''text'', JStr (u ''Hel''))])]),
      hd (fst (append_text_suffix (u ''lo'') (observe_start (JObj [(u ''index'', JInt 0),
        (u ''content_block'', JObj [(u ''type'', JStr (u ''text'')), (u ''text'', JStr (u ''Hel''))])]) EmittedNativeSseTracker)))]
     contract_init = Inl DeltaForStartStopBlock"
  by code_simp

definition closed_tool :: "frame list" where
  "closed_tool =
     [content_block_start 0 (u ''tool_use'') [(u ''id'', JStr (u ''toolu_1'')), (u ''name'', JStr (u ''Read''))],
      content_block_delta 0 (u ''input_json_delta'') (u ''{''), content_block_stop 0]"

lemma closed_tool_repaired:
  "contract_run False (closed_tool @ fst (append_tool_repair_suffix 0 (u ''}'') (observe_all closed_tool EmittedNativeSseTracker)))
     contract_init = Inl DeltaForUnopened"
  by code_simp

end
