(* ===== verification/RateLimit.thy ===== *)
theory RateLimit
  imports Complex_Main Prelude
begin

text \<open>
  Rate limiting: the strict sliding window (\<open>core/rate_limit.py\<close>) and the provider limiter
  built on it (\<open>providers/rate_limit.py\<close>), with its reactive block, its retry loop and the
  registry of scoped instances.  Times are rationals; a clock reading is an argument.  What
  runs under the limiter's lock is one atomic step, so an interleaving of tasks is a
  sequence of attempts.
\<close>

section \<open>The sliding window\<close>

record limiter =
  rl_limit :: nat
  rl_window :: rat
  rl_times :: "rat list"

definition StrictSlidingWindowLimiter :: "int \<Rightarrow> rat \<Rightarrow> py_exn + limiter" where
  "StrictSlidingWindowLimiter rate_limit rate_window =
     (if rate_limit \<le> 0 then Inl ValueError
      else if rate_window \<le> 0 then Inl ValueError
      else Inr \<lparr>rl_limit = nat rate_limit, rl_window = rate_window, rl_times = []\<rparr>)"

text \<open>
  One pass of \<open>acquire\<close> under the lock at clock reading \<open>now\<close>: \<open>None\<close> when the slot is
  taken, else the time to sleep before the next pass.
\<close>

definition attempt :: "rat \<Rightarrow> limiter \<Rightarrow> rat option \<times> limiter" where
  "attempt now l =
     (let times = dropWhile (\<lambda>t. t \<le> now - rl_window l) (rl_times l) in
      if length times < rl_limit l then (None, l\<lparr>rl_times := times @ [now]\<rparr>)
      else (Some (case times of [] \<Rightarrow> 0 | oldest # _ \<Rightarrow> max 0 ((oldest + rl_window l) - now)),
            l\<lparr>rl_times := times\<rparr>))"

text \<open>
  \<open>acquire\<close> by a task alone, started at time \<open>now\<close>: its k-th sleep takes \<open>lag k\<close> longer than
  asked.  The result is the number of sleeps so far, the time of the pass that took the slot and
  the limiter; \<open>None\<close> when the passes run out.
\<close>

fun acquire :: "nat \<Rightarrow> (nat \<Rightarrow> rat) \<Rightarrow> nat \<Rightarrow> rat \<Rightarrow> limiter \<Rightarrow> (nat \<times> rat \<times> limiter) option" where
  "acquire 0 lag k now l = None"
| "acquire (Suc fuel) lag k now l =
     (case attempt now l of
        (None, l') \<Rightarrow> Some (k, now, l')
      | (Some wait, l') \<Rightarrow> acquire fuel lag (Suc k) (now + wait + lag k) l')"

text \<open>Any interleaving: the attempts of all tasks, in time order, and the granted times.\<close>

fun grants :: "rat list \<Rightarrow> limiter \<Rightarrow> rat list \<times> limiter" where
  "grants [] l = ([], l)"
| "grants (now # ts) l =
     (case attempt now l of
        (None, l1) \<Rightarrow> (case grants ts l1 of (gs, l2) \<Rightarrow> (now # gs, l2))
      | (Some _, l1) \<Rightarrow> grants ts l1)"

section \<open>A limiter's contract\<close>

text \<open>
  What the clients of a limiter rely on: a refusal names a waiting time that is neither too
  short nor too long, and a refusal changes nothing that a later attempt would notice.
\<close>

locale window_limiter =
  fixes take_slot :: "rat \<Rightarrow> 's \<Rightarrow> rat option \<times> 's"
    and ok :: "'s \<Rightarrow> bool"
  assumes refused_ok: "ok s \<Longrightarrow> take_slot now s = (Some w, s') \<Longrightarrow> ok s'"
    and wait_nonneg: "ok s \<Longrightarrow> take_slot now s = (Some w, s') \<Longrightarrow> 0 \<le> w"
    and wait_enough: "ok s \<Longrightarrow> take_slot now s = (Some w, s') \<Longrightarrow> now + w \<le> later \<Longrightarrow>
      fst (take_slot later s') = None"
    and wait_needed: "ok s \<Longrightarrow> take_slot now s = (Some w, s') \<Longrightarrow> now \<le> later \<Longrightarrow> later < now + w \<Longrightarrow>
      fst (take_slot later s') \<noteq> None"
begin

text \<open>A task alone that sleeps as long as it is told needs two attempts at most.\<close>

lemma second_attempt:
  assumes "ok s" "take_slot now s = (r, s')"
  shows "r = None \<or> (\<forall>lag \<ge> 0. fst (take_slot (now + the r + lag) s') = None)"
  using assms wait_enough by (cases r) auto

text \<open>The first moment a refused task can be granted is the one it was told to wait for.\<close>

lemma granted_from:
  assumes "ok s" "take_slot now s = (Some w, s')" "now \<le> later"
  shows "fst (take_slot later s') = None \<longleftrightarrow> now + w \<le> later"
  using assms wait_enough wait_needed by (meson not_le_imp_less)

end

definition limiter_ok :: "limiter \<Rightarrow> bool" where
  "limiter_ok l \<longleftrightarrow> 0 < rl_limit l \<and> 0 < rl_window l \<and> sorted (rl_times l) \<and> length (rl_times l) \<le> rl_limit l"

lemma dropWhile_sorted_filter:
  "sorted ts \<Longrightarrow> dropWhile (\<lambda>t. t \<le> (c::rat)) ts = filter (\<lambda>t. c < t) ts"
  by (induction ts) (auto intro!: filter_True [symmetric])

lemma attempt_eq:
  assumes "sorted (rl_times l)"
  shows "attempt now l =
     (let times = filter (\<lambda>t. now - rl_window l < t) (rl_times l) in
      if length times < rl_limit l then (None, l\<lparr>rl_times := times @ [now]\<rparr>)
      else (Some (case times of [] \<Rightarrow> 0 | oldest # _ \<Rightarrow> max 0 ((oldest + rl_window l) - now)),
            l\<lparr>rl_times := times\<rparr>))"
  by (simp add: attempt_def dropWhile_sorted_filter [OF assms])

text \<open>The clock is monotonic: no recorded time is later than the reading.\<close>

definition not_after :: "rat \<Rightarrow> limiter \<Rightarrow> bool" where
  "not_after now l \<longleftrightarrow> (\<forall>t \<in> set (rl_times l). t \<le> now)"

lemma attempt_ok:
  assumes "limiter_ok l" "not_after now l"
  shows "limiter_ok (snd (attempt now l))" "not_after now (snd (attempt now l))"
    "rl_window (snd (attempt now l)) = rl_window l" "rl_limit (snd (attempt now l)) = rl_limit l"
proof -
  have "length (filter (\<lambda>t. now - rl_window l < t) (rl_times l)) \<le> rl_limit l"
    using assms(1) order_trans [OF length_filter_le] unfolding limiter_ok_def by blast
  then show "limiter_ok (snd (attempt now l))"
    using assms
    by (auto simp: limiter_ok_def attempt_eq Let_def not_after_def sorted_append sorted_wrt_filter)
  show "not_after now (snd (attempt now l))" "rl_window (snd (attempt now l)) = rl_window l"
    "rl_limit (snd (attempt now l)) = rl_limit l"
    using assms by (auto simp: limiter_ok_def attempt_eq Let_def not_after_def)
qed

lemma attempt_granted:
  assumes "sorted (rl_times l)"
  shows "attempt now l = (None, l') \<longleftrightarrow>
    length (filter (\<lambda>t. now - rl_window l < t) (rl_times l)) < rl_limit l \<and>
    l' = l\<lparr>rl_times := filter (\<lambda>t. now - rl_window l < t) (rl_times l) @ [now]\<rparr>"
  by (auto simp: attempt_eq [OF assms] Let_def)

lemma attempt_refused:
  assumes "limiter_ok l" "attempt now l = (Some w, l')"
  obtains oldest ts where "l' = l\<lparr>rl_times := oldest # ts\<rparr>"
    "filter (\<lambda>t. now - rl_window l < t) (rl_times l) = oldest # ts"
    "length (oldest # ts) = rl_limit l" "w = (oldest + rl_window l) - now" "0 < w" "sorted (oldest # ts)"
proof -
  have sorted: "sorted (rl_times l)" using assms(1) by (simp add: limiter_ok_def)
  let ?ts = "filter (\<lambda>t. now - rl_window l < t) (rl_times l)"
  have full: "\<not> length ?ts < rl_limit l" and l': "l' = l\<lparr>rl_times := ?ts\<rparr>"
    and w: "w = (case ?ts of [] \<Rightarrow> 0 | oldest # _ \<Rightarrow> max 0 ((oldest + rl_window l) - now))"
    using assms(2) by (auto simp: attempt_eq [OF sorted] Let_def split: if_splits)
  have "length ?ts \<le> rl_limit l"
    using assms(1) by (auto simp: limiter_ok_def intro: order_trans [OF length_filter_le])
  then have len: "length ?ts = rl_limit l" using full by simp
  then obtain oldest ts where ts: "?ts = oldest # ts"
    using assms(1) by (cases ?ts) (auto simp: limiter_ok_def)
  have "now - rl_window l < oldest" using ts [THEN arg_cong, of set] by auto
  moreover have "sorted (oldest # ts)" using sorted sorted_wrt_filter [of "(\<le>)"] ts by metis
  ultimately show ?thesis
    using that [of oldest ts] len l' w ts by simp
qed

interpretation slots: window_limiter attempt limiter_ok
proof
  fix s now w s'
  assume ok: "limiter_ok s" and att: "attempt now s = (Some w, s')"
  then obtain oldest ts where r: "s' = s\<lparr>rl_times := oldest # ts\<rparr>"
    "length (oldest # ts) = rl_limit s" "w = (oldest + rl_window s) - now" "0 < w" "sorted (oldest # ts)"
    by (rule attempt_refused)
  show ok': "limiter_ok s'" using ok r by (simp add: limiter_ok_def)
  show "0 \<le> w" using r by simp
  fix later
  have sorted': "sorted (rl_times s')" using ok' by (simp add: limiter_ok_def)
  show "fst (attempt later s') = None" if "now + w \<le> later"
  proof -
    have "length (filter (\<lambda>t. later - rl_window s < t) (oldest # ts)) \<le> length ts"
      using that r(3) by simp
    then have "length (filter (\<lambda>t. later - rl_window s' < t) (rl_times s')) < rl_limit s'"
      using r(1,2) by simp
    then show ?thesis by (simp add: attempt_eq [OF sorted'])
  qed
  show "fst (attempt later s') \<noteq> None" if "now \<le> later" "later < now + w"
  proof -
    have "filter (\<lambda>t. later - rl_window s < t) (oldest # ts) = oldest # ts"
      using that r(3,5) by (intro filter_True) (auto simp: algebra_simps)
    then have "\<not> length (filter (\<lambda>t. later - rl_window s' < t) (rl_times s')) < rl_limit s'"
      using r(1,2) by simp
    then show ?thesis by (simp add: attempt_eq [OF sorted'] Let_def)
  qed
qed

lemma acquire_alone:
  assumes "limiter_ok l" "\<forall>k. 0 \<le> lag k"
  shows "\<exists>j t l'. acquire 2 lag k now l = Some (j, t, l') \<and> j \<le> Suc k \<and> now \<le> t \<and> t \<in> set (rl_times l')"
proof -
  obtain r l1 where att: "attempt now l = (r, l1)" by fastforce
  have taken: "t \<in> set (rl_times l')" if "attempt t m = (None, l')" for t m l'
    using that by (auto simp: attempt_def Let_def split: if_splits)
  show ?thesis
  proof (cases r)
    case None
    then show ?thesis using att taken [of now l l1] by (simp add: numeral_2_eq_2)
  next
    case (Some w)
    let ?t = "now + w + lag k"
    obtain l2 where "attempt ?t l1 = (None, l2)"
      using slots.second_attempt [OF assms(1) att] assms(2) Some by (metis option.distinct(1) option.sel prod.collapse)
    then show ?thesis
      using att Some taken [of ?t l1 l2] slots.wait_nonneg [OF assms(1), of now w l1] assms(2)
      by (simp add: numeral_2_eq_2)
  qed
qed

text \<open>
  A task alone never starves: whatever the limiter holds, \<open>acquire\<close> takes a
  slot in its first pass or, after one sleep of the time it computed, in its second.
\<close>

theorem acquire_two_passes:
  assumes "limiter_ok l" "\<forall>k. 0 \<le> lag k"
  shows "\<exists>j t l'. acquire 2 lag k now l = Some (j, t, l') \<and> j \<le> Suc k \<and> now \<le> t \<and> t \<in> set (rl_times l')"
  by (rule acquire_alone [OF assms])

lemma acquire_two_passes_witness:
  "\<exists>j t l'. acquire 2 (\<lambda>_. 1) 0 7 \<lparr>rl_limit = 1, rl_window = 10, rl_times = [5]\<rparr> = Some (j, t, l') \<and>
     j \<le> Suc 0 \<and> 7 \<le> t \<and> t \<in> set (rl_times l')"
  by (rule acquire_two_passes) (simp_all add: limiter_ok_def)

subsection \<open>At most N in any window\<close>

definition in_window :: "rat \<Rightarrow> rat \<Rightarrow> rat list \<Rightarrow> rat list" where
  "in_window x w ts = filter (\<lambda>t. x < t \<and> t \<le> x + w) ts"

text \<open>The times a limiter has granted, of which it remembers those still in the window.\<close>

definition remembers :: "rat list \<Rightarrow> rat \<Rightarrow> limiter \<Rightarrow> bool" where
  "remembers gs now l \<longleftrightarrow> (\<forall>c \<ge> now - rl_window l. filter (\<lambda>t. c < t) gs = filter (\<lambda>t. c < t) (rl_times l))"

definition windows_ok :: "limiter \<Rightarrow> rat list \<Rightarrow> bool" where
  "windows_ok l gs \<longleftrightarrow> (\<forall>x. length (in_window x (rl_window l) gs) \<le> rl_limit l)"

lemma remembers_later: "remembers gs now l \<Longrightarrow> now \<le> now' \<Longrightarrow> remembers gs now' l"
  by (auto simp: remembers_def)

lemma filter_both: "c0 \<le> c \<Longrightarrow> filter (\<lambda>t. c0 < (t::rat) \<and> c < t) ts = filter (\<lambda>t. c < t) ts"
  by (auto intro!: filter_cong)

lemma attempt_remembers:
  assumes "sorted (rl_times l)" "remembers gs now l"
  shows "attempt now l = (None, l') \<Longrightarrow> remembers (gs @ [now]) now l'"
    "attempt now l = (Some w, l') \<Longrightarrow> remembers gs now l'"
  using assms(2)
  by (auto simp: attempt_eq [OF assms(1)] Let_def remembers_def filter_both split: if_splits)

lemma attempt_windows:
  assumes "limiter_ok l" "remembers gs now l" "windows_ok l gs" "\<forall>t \<in> set gs. t \<le> now" "attempt now l = (None, l')"
  shows "windows_ok l (gs @ [now])"
  unfolding windows_ok_def
proof
  fix x
  have sorted: "sorted (rl_times l)" using assms(1) by (simp add: limiter_ok_def)
  show "length (in_window x (rl_window l) (gs @ [now])) \<le> rl_limit l"
  proof (cases "x < now \<and> now \<le> x + rl_window l")
    case False
    then show ?thesis using assms(3) by (auto simp: windows_ok_def in_window_def)
  next
    case True
    then have "now - rl_window l \<le> x" by linarith
    have "length (in_window x (rl_window l) gs) \<le> length (filter (\<lambda>t. now - rl_window l < t) gs)"
      unfolding in_window_def using \<open>now - rl_window l \<le> x\<close>
      by (induction gs) auto
    also have "filter (\<lambda>t. now - rl_window l < t) gs = filter (\<lambda>t. now - rl_window l < t) (rl_times l)"
      using assms(2) by (simp add: remembers_def)
    also have "length \<dots> < rl_limit l" using assms(5) attempt_granted [OF sorted] by blast
    finally show ?thesis using True by (simp add: in_window_def)
  qed
qed

lemma grants_windows:
  "limiter_ok l \<Longrightarrow> not_after t0 l \<Longrightarrow> sorted (t0 # ts) \<Longrightarrow> remembers gs t0 l \<Longrightarrow> windows_ok l gs \<Longrightarrow>
     \<forall>t \<in> set gs. t \<le> t0 \<Longrightarrow> grants ts l = (hs, l') \<Longrightarrow> windows_ok l (gs @ hs)"
proof (induction ts arbitrary: t0 l gs hs)
  case Nil
  then show ?case by simp
next
  case (Cons now ts)
  have le: "t0 \<le> now" using Cons.prems(3) by simp
  have after: "not_after now l" using Cons.prems(2) le by (auto simp: not_after_def)
  have rem: "remembers gs now l" by (rule remembers_later [OF Cons.prems(4) le])
  have before: "\<forall>t \<in> set gs. t \<le> now" using Cons.prems(6) le by auto
  have sorted: "sorted (rl_times l)" using Cons.prems(1) by (simp add: limiter_ok_def)
  obtain r l1 where att: "attempt now l = (r, l1)" by fastforce
  have ok1: "limiter_ok l1" "not_after now l1" "rl_window l1 = rl_window l" "rl_limit l1 = rl_limit l"
    using attempt_ok [OF Cons.prems(1) after] att by simp_all
  have w1: "windows_ok l1 ks \<longleftrightarrow> windows_ok l ks" for ks by (simp add: windows_ok_def ok1)
  have sorted': "sorted (now # ts)" using Cons.prems(3) by simp
  show ?case
  proof (cases r)
    case (Some w)
    then have "grants ts l1 = (hs, l')" using Cons.prems(7) att by simp
    then show ?thesis
      using Cons.IH [OF ok1(1,2) sorted' _ _ before] attempt_remembers(2) [OF sorted rem] att Some
        Cons.prems(5) by (simp add: w1)
  next
    case None
    then obtain ks where ks: "grants ts l1 = (ks, l')" "hs = now # ks"
      using Cons.prems(7) att by (auto split: prod.splits)
    have "windows_ok l1 (gs @ [now])"
      using attempt_windows [OF Cons.prems(1) rem Cons.prems(5) before] att None by (simp add: w1)
    then show ?thesis
      using Cons.IH [OF ok1(1,2) sorted', of "gs @ [now]" ks] attempt_remembers(1) [OF sorted rem] att None
        before ks by (simp add: w1)
  qed
qed

text \<open>
  C3 (safety): however the tasks interleave, of the acquisitions a limiter grants at most
  \<open>rate_limit\<close> fall into any half-open interval of length \<open>rate_window\<close>.
\<close>

theorem sliding_window_bound:
  assumes "StrictSlidingWindowLimiter n w = Inr l" "sorted attempts"
  shows "int (length (in_window x w (fst (grants attempts l)))) \<le> n"
proof -
  have l: "limiter_ok l" "rl_times l = []" "int (rl_limit l) = n" "rl_window l = w"
    using assms(1) by (auto simp: StrictSlidingWindowLimiter_def limiter_ok_def split: if_splits)
  obtain hs l' where run: "grants attempts l = (hs, l')" by fastforce
  define t0 where "t0 = (case attempts of [] \<Rightarrow> 0 | t # _ \<Rightarrow> t)"
  have "sorted (t0 # attempts)" using assms(2) by (cases attempts) (auto simp: t0_def)
  then have "windows_ok l ([] @ hs)"
    using l(2) by (intro grants_windows [OF l(1) _ _ _ _ _ run, of t0])
      (auto simp: not_after_def remembers_def windows_ok_def in_window_def)
  then have "length (in_window x w hs) \<le> rl_limit l" by (simp add: windows_ok_def l(4))
  then show ?thesis using l(3) by (simp add: run)
qed

lemma sliding_window_bound_witness:
  "int (length (in_window 0 10 (fst (grants [1, 2, 3, 11, 12] \<lparr>rl_limit = 2, rl_window = 10, rl_times = []\<rparr>)))) \<le> 2"
  by (rule sliding_window_bound) (simp_all add: StrictSlidingWindowLimiter_def)

text \<open>
  The documented promise speaks of any interval; for a closed one it fails: an acquisition
  exactly one window after another is granted.
\<close>

lemma closed_interval_exceeds:
  "fst (grants [0, 10] \<lparr>rl_limit = 1, rl_window = 10, rl_times = []\<rparr>) = [0, 10]"
  by (simp add: attempt_def)

section \<open>The provider limiter\<close>

text \<open>
  \<open>GlobalRateLimiter\<close>: a sliding window, the time until which everything is blocked after an
  upstream 429 or 5xx, and the free slots of its semaphore.
\<close>

record provider_limiter =
  pl_rate_limit :: int
  pl_rate_window :: rat
  pl_max_concurrency :: int
  pl_proactive :: limiter
  pl_blocked_until :: rat
  pl_free_slots :: int

definition GlobalRateLimiter :: "int \<Rightarrow> rat \<Rightarrow> int \<Rightarrow> py_exn + provider_limiter" where
  "GlobalRateLimiter rate_limit rate_window max_concurrency =
     (if rate_limit \<le> 0 then Inl ValueError
      else if rate_window \<le> 0 then Inl ValueError
      else if max_concurrency \<le> 0 then Inl ValueError
      else case StrictSlidingWindowLimiter rate_limit rate_window of
             Inl e \<Rightarrow> Inl e
           | Inr l \<Rightarrow> Inr \<lparr>pl_rate_limit = rate_limit, pl_rate_window = rate_window,
               pl_max_concurrency = max_concurrency, pl_proactive = l, pl_blocked_until = 0,
               pl_free_slots = max_concurrency\<rparr>)"

definition matches_config :: "int \<Rightarrow> rat \<Rightarrow> int \<Rightarrow> provider_limiter \<Rightarrow> bool" where
  "matches_config rate_limit rate_window max_concurrency p \<longleftrightarrow>
     pl_rate_limit p = rate_limit \<and> pl_rate_window p = rate_window \<and> pl_max_concurrency p = max_concurrency"

text \<open>Python's \<open>x or d\<close> on an optional number: \<open>None\<close> and zero give \<open>d\<close>.\<close>

definition or_default :: "'a::zero option \<Rightarrow> 'a \<Rightarrow> 'a" where
  "or_default x d = (case x of None \<Rightarrow> d | Some v \<Rightarrow> if v = 0 then d else v)"

text \<open>The instance \<open>get_scoped_instance\<close> returns is the one stored under the scope.\<close>

definition get_scoped_instance ::
    "pystr \<Rightarrow> int option \<Rightarrow> rat option \<Rightarrow> int \<Rightarrow> (pystr, provider_limiter) dict \<Rightarrow>
     py_exn + (pystr, provider_limiter) dict" where
  "get_scoped_instance scope rate_limit rate_window max_concurrency reg =
     (if scope = [] then Inl ValueError
      else let desired_rate_limit = or_default rate_limit 40;
               desired_rate_window = or_default rate_window 60;
               rebuild = (case GlobalRateLimiter desired_rate_limit desired_rate_window max_concurrency of
                   Inl e \<Rightarrow> Inl e
                 | Inr p \<Rightarrow> Inr (dict_set scope p reg))
           in case dict_get reg scope of
                Some existing \<Rightarrow>
                  (if matches_config desired_rate_limit desired_rate_window max_concurrency existing
                   then Inr reg else rebuild)
              | None \<Rightarrow> rebuild)"

definition upstream_http_retryable :: "int \<Rightarrow> bool" where
  "upstream_http_retryable code \<longleftrightarrow> code = 429 \<or> 500 \<le> code \<and> code \<le> 599"

definition retryable_upstream_status :: "py_exn \<Rightarrow> int option" where
  "retryable_upstream_status exc =
     (case exc of
        RateLimitError \<Rightarrow> Some 429
      | HTTPStatusError status \<Rightarrow> if upstream_http_retryable status then Some status else None
      | APIStatusError (Some status) \<Rightarrow> if 500 \<le> status \<and> status \<le> 599 then Some status else None
      | _ \<Rightarrow> None)"

definition is_blocked :: "rat \<Rightarrow> provider_limiter \<Rightarrow> bool" where
  "is_blocked now p \<longleftrightarrow> now < pl_blocked_until p"

definition remaining_wait :: "rat \<Rightarrow> provider_limiter \<Rightarrow> rat" where
  "remaining_wait now p = max 0 (pl_blocked_until p - now)"

definition set_blocked :: "rat \<Rightarrow> rat \<Rightarrow> provider_limiter \<Rightarrow> provider_limiter" where
  "set_blocked seconds now p = p\<lparr>pl_blocked_until := now + seconds\<rparr>"

text \<open>
  A task's view of the time: \<open>(k, now)\<close> is the number of sleeps it has made and the clock; its
  k-th sleep takes \<open>lag k\<close> longer than asked.
\<close>

type_synonym clock = "nat \<times> rat"

definition sleep :: "(nat \<Rightarrow> rat) \<Rightarrow> rat \<Rightarrow> clock \<Rightarrow> clock" where
  "sleep lag d c = (Suc (fst c), snd c + max 0 d + lag (fst c))"

definition wait_if_blocked ::
    "nat \<Rightarrow> (nat \<Rightarrow> rat) \<Rightarrow> clock \<Rightarrow> provider_limiter \<Rightarrow> (bool \<times> clock \<times> provider_limiter) option" where
  "wait_if_blocked fuel lag c p =
     (let waited = is_blocked (snd c) p;
          c' = (if waited then sleep lag (pl_blocked_until p - snd c) c else c)
      in map_option (\<lambda>(k, now, l). (waited, (k, now), p\<lparr>pl_proactive := l\<rparr>))
           (acquire fuel lag (fst c') (snd c') (pl_proactive p)))"

definition backoff :: "rat \<Rightarrow> rat \<Rightarrow> nat \<Rightarrow> rat" where
  "backoff base_delay max_delay attempt_no = min (base_delay * 2 ^ attempt_no) max_delay"

text \<open>
  \<open>execute_with_retry\<close> by a task alone.  \<open>fn a\<close> is what the a-th call of the wrapped function
  does, \<open>jit a\<close> the random jitter drawn after it.  The result of the loop is the value or the
  exception, the clock readings of the calls, the clock and the limiter; \<open>None\<close> only when the
  passes granted to \<open>acquire\<close> run out.
\<close>

record retry_config =
  rc_max_retries :: int
  rc_base_delay :: rat
  rc_max_delay :: rat

type_synonym 'a retry_result = "(py_exn + 'a) \<times> rat list \<times> clock \<times> provider_limiter"

fun attempts_left ::
    "nat \<Rightarrow> (nat \<Rightarrow> rat) \<Rightarrow> (nat \<Rightarrow> rat) \<Rightarrow> (nat \<Rightarrow> py_exn + 'a) \<Rightarrow> retry_config \<Rightarrow> nat \<Rightarrow> nat \<Rightarrow>
     py_exn option \<Rightarrow> clock \<Rightarrow> provider_limiter \<Rightarrow> 'a retry_result option" where
  "attempts_left fuel lag jit fn cfg 0 a last_exc c p =
     Some (Inl (case last_exc of None \<Rightarrow> OtherException (u ''AssertionError'') | Some e \<Rightarrow> e), [], c, p)"
| "attempts_left fuel lag jit fn cfg (Suc left) a last_exc c p =
     (case wait_if_blocked fuel lag c p of
        None \<Rightarrow> None
      | Some (waited, c1, p1) \<Rightarrow>
          (case fn a of
             Inr v \<Rightarrow> Some (Inr v, [snd c1], c1, p1)
           | Inl e \<Rightarrow>
               (case retryable_upstream_status e of
                  None \<Rightarrow> Some (Inl e, [snd c1], c1, p1)
                | Some status \<Rightarrow>
                    if rc_max_retries cfg \<le> int a then Some (Inl e, [snd c1], c1, p1)
                    else let delay = backoff (rc_base_delay cfg) (rc_max_delay cfg) a + jit a in
                      map_option (\<lambda>(r, calls, c2, p2). (r, snd c1 # calls, c2, p2))
                        (attempts_left fuel lag jit fn cfg left (Suc a) (Some e)
                           (sleep lag delay c1) (set_blocked delay (snd c1) p1)))))"

definition execute_with_retry ::
    "nat \<Rightarrow> (nat \<Rightarrow> rat) \<Rightarrow> (nat \<Rightarrow> rat) \<Rightarrow> (nat \<Rightarrow> py_exn + 'a) \<Rightarrow> retry_config \<Rightarrow> clock \<Rightarrow>
     provider_limiter \<Rightarrow> 'a retry_result option" where
  "execute_with_retry fuel lag jit fn cfg c p =
     attempts_left fuel lag jit fn cfg (nat (1 + rc_max_retries cfg)) 0 None c p"

subsection \<open>What the retry loop promises\<close>

definition provider_ok :: "provider_limiter \<Rightarrow> bool" where
  "provider_ok p \<longleftrightarrow> limiter_ok (pl_proactive p)"

lemma attempt_limiter_ok: "limiter_ok l \<Longrightarrow> not_after now l \<Longrightarrow> limiter_ok (snd (attempt now l))"
  by (rule attempt_ok)

text \<open>The window holds no time later than the clock.\<close>

definition in_step :: "clock \<Rightarrow> provider_limiter \<Rightarrow> bool" where
  "in_step c p \<longleftrightarrow> limiter_ok (pl_proactive p) \<and> not_after (snd c) (pl_proactive p)"

lemma not_after_mono: "not_after now l \<Longrightarrow> now \<le> later \<Longrightarrow> not_after later l"
  by (auto simp: not_after_def)

lemma acquire_in_step:
  assumes "limiter_ok l" "not_after now l" "\<forall>k. 0 \<le> lag k" "acquire fuel lag k now l = Some (j, t, l')"
  shows "limiter_ok l' \<and> not_after t l' \<and> now \<le> t"
  using assms
proof (induction fuel arbitrary: k now l)
  case 0
  then show ?case by simp
next
  case (Suc fuel)
  obtain r l1 where att: "attempt now l = (r, l1)" by fastforce
  have ok1: "limiter_ok l1" "not_after now l1" using attempt_ok [OF Suc.prems(1,2)] att by simp_all
  show ?case
  proof (cases r)
    case None
    then show ?thesis using Suc.prems(4) att ok1 by simp
  next
    case (Some w)
    have "0 \<le> w" using slots.wait_nonneg [OF Suc.prems(1)] att Some by blast
    then have le: "now \<le> now + w + lag k" using Suc.prems(3) by simp
    have "acquire fuel lag (Suc k) (now + w + lag k) l1 = Some (j, t, l')" using Suc.prems(4) att Some by simp
    from Suc.IH [OF ok1(1) not_after_mono [OF ok1(2) le] Suc.prems(3) this] show ?thesis using le by simp
  qed
qed

text \<open>After waiting, the task is neither blocked nor early, and the window is in step.\<close>

lemma wait_if_blocked_spec:
  assumes "in_step c p" "\<forall>k. 0 \<le> lag k"
  obtains waited c' p' where "wait_if_blocked 2 lag c p = Some (waited, c', p')" "in_step c' p'"
    "snd c \<le> snd c'" "\<not> is_blocked (snd c') p'" "pl_blocked_until p' = pl_blocked_until p"
proof -
  define d where "d = (if is_blocked (snd c) p then sleep lag (pl_blocked_until p - snd c) c else c)"
  have d: "snd c \<le> snd d" "pl_blocked_until p \<le> snd d"
    using spec [OF assms(2), of "fst c"] by (auto simp: d_def sleep_def is_blocked_def)
  have ok: "limiter_ok (pl_proactive p)" "not_after (snd d) (pl_proactive p)"
    using assms(1) not_after_mono [OF _ d(1)] by (auto simp: in_step_def)
  obtain j t l' where acq: "acquire 2 lag (fst d) (snd d) (pl_proactive p) = Some (j, t, l')"
    using acquire_alone [OF ok(1) assms(2)] by blast
  note post = acquire_in_step [OF ok assms(2) acq]
  show ?thesis
  proof (rule that)
    show "wait_if_blocked 2 lag c p = Some (is_blocked (snd c) p, (j, t), p\<lparr>pl_proactive := l'\<rparr>)"
      using acq by (simp add: wait_if_blocked_def Let_def flip: d_def)
  qed (use post d in \<open>auto simp: in_step_def is_blocked_def\<close>)
qed

definition retryable :: "py_exn + 'a \<Rightarrow> bool" where
  "retryable r \<longleftrightarrow> (case r of Inl e \<Rightarrow> retryable_upstream_status e \<noteq> None | Inr _ \<Rightarrow> False)"

text \<open>Consecutive calls, the i-th counted from \<open>a\<close>, are at least their back-off apart.\<close>

fun spaced :: "retry_config \<Rightarrow> (nat \<Rightarrow> rat) \<Rightarrow> nat \<Rightarrow> rat list \<Rightarrow> bool" where
  "spaced cfg jit a (t # t' # ts) \<longleftrightarrow>
     t + backoff (rc_base_delay cfg) (rc_max_delay cfg) a + jit a \<le> t' \<and> spaced cfg jit (Suc a) (t' # ts)"
| "spaced cfg jit a ts \<longleftrightarrow> True"

definition retries_run ::
    "retry_config \<Rightarrow> (nat \<Rightarrow> rat) \<Rightarrow> (nat \<Rightarrow> py_exn + 'a) \<Rightarrow> nat \<Rightarrow> nat \<Rightarrow> (py_exn + 'a) \<Rightarrow> rat list \<Rightarrow> bool" where
  "retries_run cfg jit fn a left r calls \<longleftrightarrow>
     calls \<noteq> [] \<and> length calls \<le> Suc left \<and> r = fn (a + (length calls - 1)) \<and>
     (\<forall>i < length calls - 1. retryable (fn (a + i))) \<and>
     (length calls \<le> left \<longrightarrow> \<not> retryable r) \<and> spaced cfg jit a calls"

lemma retries_run_one: "\<not> retryable (fn a) \<or> left = 0 \<Longrightarrow> retries_run cfg jit fn a left (fn a) [t]"
  by (auto simp: retries_run_def)

lemma retries_run_Cons:
  assumes "retryable (fn a)" "retries_run cfg jit fn (Suc a) left r calls"
    "t + backoff (rc_base_delay cfg) (rc_max_delay cfg) a + jit a \<le> hd calls"
  shows "retries_run cfg jit fn a (Suc left) r (t # calls)"
proof -
  obtain t' ts where calls: "calls = t' # ts" using assms(2) by (cases calls) (auto simp: retries_run_def)
  have "retryable (fn (a + i))" if "i < Suc (length ts)" for i
    using that assms(1,2) by (cases i) (auto simp: retries_run_def calls)
  then show ?thesis using assms(2,3) by (auto simp: retries_run_def calls)
qed

lemma attempts_left_spec:
  assumes "in_step c p" "\<forall>k. 0 \<le> lag k" "rc_max_retries cfg = int (a + left)"
  shows "\<exists>r calls c' p'. attempts_left 2 lag jit fn cfg (Suc left) a last_exc c p = Some (r, calls, c', p') \<and>
     retries_run cfg jit fn a left r calls \<and> snd c \<le> hd calls"
  using assms
proof (induction left arbitrary: a last_exc c p)
  case 0
  obtain waited c1 p1 where w: "wait_if_blocked 2 lag c p = Some (waited, c1, p1)" "snd c \<le> snd c1"
    using wait_if_blocked_spec [OF "0.prems"(1,2)] .
  have "attempts_left 2 lag jit fn cfg (Suc 0) a last_exc c p = Some (fn a, [snd c1], c1, p1)"
    using w "0.prems"(3) by (simp split: sum.split option.split)
  then show ?case using w retries_run_one [of fn a 0] by fastforce
next
  case (Suc left)
  obtain waited c1 p1 where w: "wait_if_blocked 2 lag c p = Some (waited, c1, p1)" "snd c \<le> snd c1"
    "in_step c1 p1"
    using wait_if_blocked_spec [OF Suc.prems(1,2)] .
  show ?case
  proof (cases "retryable (fn a)")
    case False
    then have "attempts_left 2 lag jit fn cfg (Suc (Suc left)) a last_exc c p = Some (fn a, [snd c1], c1, p1)"
      using w by (auto simp: retryable_def split: sum.splits)
    then show ?thesis using w retries_run_one [of fn a "Suc left"] False by fastforce
  next
    case True
    then obtain e status where e: "fn a = Inl e" "retryable_upstream_status e = Some status"
      by (auto simp: retryable_def split: sum.splits)
    define delay where "delay = backoff (rc_base_delay cfg) (rc_max_delay cfg) a + jit a"
    let ?c = "sleep lag delay c1" and ?p = "set_blocked delay (snd c1) p1"
    have later: "snd c1 + delay \<le> snd ?c" "snd c1 \<le> snd ?c"
      using spec [OF Suc.prems(2), of "fst c1"] by (auto simp: sleep_def)
    have "in_step ?c ?p"
      using w(3) not_after_mono [OF _ later(2)] by (auto simp: in_step_def set_blocked_def)
    moreover have "rc_max_retries cfg = int (Suc a + left)" using Suc.prems(3) by simp
    ultimately obtain r calls c' p' where IH:
      "attempts_left 2 lag jit fn cfg (Suc left) (Suc a) (Some e) ?c ?p = Some (r, calls, c', p')"
      "retries_run cfg jit fn (Suc a) left r calls" "snd ?c \<le> hd calls"
      using Suc.IH [OF _ Suc.prems(2)] by blast
    have "attempts_left 2 lag jit fn cfg (Suc (Suc left)) a last_exc c p = Some (r, snd c1 # calls, c', p')"
      using w(1) e IH(1) Suc.prems(3) by (simp add: Let_def flip: delay_def del: attempts_left.simps(2))
         (simp add: delay_def)
    moreover have "retries_run cfg jit fn a (Suc left) r (snd c1 # calls)"
      using retries_run_Cons [OF True IH(2)] later(1) IH(3) by (simp add: delay_def)
    ultimately show ?thesis using w(2) by fastforce
  qed
qed

text \<open>
  \<open>execute_with_retry\<close> calls the wrapped function at least once and at most
  \<open>1 + max_retries\<close> times; every call but the last failed with a retryable status, the result is
  what the last call gave, the loop stops early only at an outcome that is not retryable, and
  consecutive calls are separated by the exponential back-off and its jitter.
\<close>

theorem execute_with_retry_calls:
  assumes "in_step c p" "\<forall>k. 0 \<le> lag k" "0 \<le> rc_max_retries cfg"
  shows "\<exists>r calls c' p'. execute_with_retry 2 lag jit fn cfg c p = Some (r, calls, c', p') \<and>
     retries_run cfg jit fn 0 (nat (rc_max_retries cfg)) r calls"
  using attempts_left_spec [OF assms(1,2), of cfg 0 "nat (rc_max_retries cfg)"] assms(3)
  by (force simp: execute_with_retry_def nat_add_distrib)

text \<open>Two overload answers and then a value: three calls, two seconds and then four apart.\<close>

definition fresh_provider :: provider_limiter where
  "fresh_provider = \<lparr>pl_rate_limit = 40, pl_rate_window = 60, pl_max_concurrency = 5,
     pl_proactive = \<lparr>rl_limit = 40, rl_window = 60, rl_times = []\<rparr>, pl_blocked_until = 0, pl_free_slots = 5\<rparr>"

lemma execute_with_retry_calls_witness:
  "\<exists>r calls c' p'. execute_with_retry 2 (\<lambda>_. 0) (\<lambda>_. 1 / 2)
       (\<lambda>a. if a < 2 then Inl (HTTPStatusError 503) else Inr (7 :: nat))
       \<lparr>rc_max_retries = 4, rc_base_delay = 2, rc_max_delay = 60\<rparr> (0, 100) fresh_provider = Some (r, calls, c', p') \<and>
     retries_run \<lparr>rc_max_retries = 4, rc_base_delay = 2, rc_max_delay = 60\<rparr> (\<lambda>_. 1 / 2)
       (\<lambda>a. if a < 2 then Inl (HTTPStatusError 503) else Inr (7 :: nat)) 0 (nat 4) r calls"
  using execute_with_retry_calls [of "(0, 100)" fresh_provider "\<lambda>_. 0" "\<lparr>rc_max_retries = 4, rc_base_delay = 2, rc_max_delay = 60\<rparr>"
      "\<lambda>_. 1 / 2" "\<lambda>a. if a < 2 then Inl (HTTPStatusError 503) else Inr (7 :: nat)"]
  by (simp add: in_step_def fresh_provider_def limiter_ok_def not_after_def)

text \<open>A shorter block replaces a longer one: the last writer wins, not the latest deadline.\<close>

lemma block_shortened:
  "is_blocked 10 (set_blocked 60 0 fresh_provider) \<and>
   \<not> is_blocked 10 (set_blocked 2 1 (set_blocked 60 0 fresh_provider))"
  by (simp add: is_blocked_def set_blocked_def)

text \<open>
  A scoped instance with the wanted configuration is reused with its window and its block, and
  no other scope is touched.
\<close>

lemma get_scoped_instance_reuses:
  assumes "scope \<noteq> []" "dict_get reg scope = Some p"
    "matches_config (or_default rate_limit 40) (or_default rate_window 60) max_concurrency p"
  shows "get_scoped_instance scope rate_limit rate_window max_concurrency reg = Inr reg"
  using assms by (simp add: get_scoped_instance_def)

lemma get_scoped_instance_config:
  assumes "get_scoped_instance scope rate_limit rate_window max_concurrency reg = Inr reg'"
  shows "(\<exists>p. dict_get reg' scope = Some p \<and>
      matches_config (or_default rate_limit 40) (or_default rate_window 60) max_concurrency p) \<and>
    (\<forall>s. s \<noteq> scope \<longrightarrow> dict_get reg' s = dict_get reg s)"
  using assms
  by (auto simp: get_scoped_instance_def Let_def GlobalRateLimiter_def matches_config_def dict_simps
      split: if_splits option.splits sum.splits)

end
