(* ===== verification/CircuitBreaker.thy ===== *)
theory CircuitBreaker
  imports Complex_Main Prelude
begin

text \<open>
  The circuit breaker (\<open>core/reliability/circuit_breaker.py\<close>): one state per provider, entered
  and left by any number of concurrent guarded calls.  The two halves of a guarded call are
  separate events, each atomic under the provider's lock, so an interleaving of calls is a list
  of events.  Clock readings are arguments.
\<close>

section \<open>The code's state and operations\<close>

datatype breaker_state = CLOSED | OPEN | HALF_OPEN

record provider_state =
  ps_state :: breaker_state
  ps_failures :: int
  ps_successes :: int
  ps_last_state_change :: rat

definition ProviderState :: provider_state where
  "ProviderState = \<lparr>ps_state = CLOSED, ps_failures = 0, ps_successes = 0, ps_last_state_change = 0\<rparr>"

record circuit_breaker =
  cb_failure_threshold :: int
  cb_recovery_timeout :: rat
  cb_success_threshold :: int
  cb_tripping :: "py_exn \<Rightarrow> bool"
  cb_states :: "(pystr, provider_state) dict"

definition CircuitBreaker_init :: "int \<Rightarrow> rat \<Rightarrow> int \<Rightarrow> (py_exn \<Rightarrow> bool) \<Rightarrow> circuit_breaker" where
  "CircuitBreaker_init failure_threshold recovery_timeout success_threshold tripping =
     \<lparr>cb_failure_threshold = failure_threshold, cb_recovery_timeout = recovery_timeout,
      cb_success_threshold = success_threshold, cb_tripping = tripping, cb_states = []\<rparr>"

text \<open>\<open>_get_state\<close>: the state of a provider, made on first use.\<close>

definition provider_entry :: "pystr \<Rightarrow> circuit_breaker \<Rightarrow> provider_state" where
  "provider_entry provider b = (case dict_get (cb_states b) provider of None \<Rightarrow> ProviderState | Some s \<Rightarrow> s)"

definition put_entry :: "pystr \<Rightarrow> provider_state \<Rightarrow> circuit_breaker \<Rightarrow> circuit_breaker" where
  "put_entry provider s b = b\<lparr>cb_states := dict_set provider s (cb_states b)\<rparr>"

text \<open>\<open>__aenter__\<close>: \<open>Inl\<close> the remaining cool-down of a \<open>CircuitBreakerOpenError\<close>.\<close>

definition guard_enter :: "pystr \<Rightarrow> rat \<Rightarrow> circuit_breaker \<Rightarrow> rat option \<times> circuit_breaker" where
  "guard_enter provider now b =
     (let s = provider_entry provider b in
      if ps_state s = OPEN then
        let elapsed = now - ps_last_state_change s in
        if cb_recovery_timeout b \<le> elapsed
        then (None, put_entry provider
               (s\<lparr>ps_state := HALF_OPEN, ps_successes := 0, ps_last_state_change := now\<rparr>) b)
        else (Some (cb_recovery_timeout b - elapsed), put_entry provider s b)
      else (None, put_entry provider s b))"

text \<open>\<open>__aexit__\<close> of a guard that was entered, with the exception it saw, if any.\<close>

definition guard_exit :: "pystr \<Rightarrow> rat \<Rightarrow> py_exn option \<Rightarrow> circuit_breaker \<Rightarrow> circuit_breaker" where
  "guard_exit provider now exc b =
     (let s = provider_entry provider b in
      case exc of
        None \<Rightarrow>
          if ps_state s = HALF_OPEN then
            let successes = ps_successes s + 1 in
            if cb_success_threshold b \<le> successes
            then put_entry provider
                   (s\<lparr>ps_state := CLOSED, ps_failures := 0, ps_successes := 0, ps_last_state_change := now\<rparr>) b
            else put_entry provider (s\<lparr>ps_successes := successes\<rparr>) b
          else if ps_state s = CLOSED then put_entry provider (s\<lparr>ps_failures := 0\<rparr>) b
          else b
      | Some e \<Rightarrow>
          if cb_tripping b e then
            if ps_state s = CLOSED then
              let failures = ps_failures s + 1 in
              if cb_failure_threshold b \<le> failures
              then put_entry provider
                     (s\<lparr>ps_failures := failures, ps_state := OPEN, ps_last_state_change := now\<rparr>) b
              else put_entry provider (s\<lparr>ps_failures := failures\<rparr>) b
            else if ps_state s = HALF_OPEN
              then put_entry provider
                     (s\<lparr>ps_state := OPEN, ps_failures := cb_failure_threshold b, ps_last_state_change := now\<rparr>) b
              else b
          else b)"

text \<open>
  \<open>call\<close>: \<open>Inl\<close> the rejection (the function is not called), \<open>Inr\<close> what the function gave.  It is
  entered at \<open>now\<close> and left at \<open>later\<close>.
\<close>

definition breaker_call ::
    "pystr \<Rightarrow> (unit \<Rightarrow> py_exn + 'a) \<Rightarrow> rat \<Rightarrow> rat \<Rightarrow> circuit_breaker \<Rightarrow> (rat + (py_exn + 'a)) \<times> circuit_breaker" where
  "breaker_call provider func now later b =
     (case guard_enter provider now b of
        (Some remaining, b1) \<Rightarrow> (Inl remaining, b1)
      | (None, b1) \<Rightarrow>
          (let r = func ()
           in (Inr r, guard_exit provider later (case r of Inl e \<Rightarrow> Some e | Inr v \<Rightarrow> None) b1)))"

text \<open>The state an administrator sees, and the three overrides.\<close>

definition get_state :: "pystr \<Rightarrow> rat \<Rightarrow> circuit_breaker \<Rightarrow> breaker_state" where
  "get_state provider now b =
     (case dict_get (cb_states b) provider of
        None \<Rightarrow> CLOSED
      | Some s \<Rightarrow> if ps_state s = OPEN \<and> cb_recovery_timeout b \<le> now - ps_last_state_change s
                  then HALF_OPEN else ps_state s)"

definition force_open :: "pystr \<Rightarrow> rat \<Rightarrow> circuit_breaker \<Rightarrow> circuit_breaker" where
  "force_open provider now b =
     put_entry provider ((provider_entry provider b)
       \<lparr>ps_state := OPEN, ps_last_state_change := now, ps_failures := cb_failure_threshold b\<rparr>) b"

definition force_closed :: "pystr \<Rightarrow> rat \<Rightarrow> circuit_breaker \<Rightarrow> circuit_breaker" where
  "force_closed provider now b =
     put_entry provider ((provider_entry provider b)
       \<lparr>ps_state := CLOSED, ps_failures := 0, ps_successes := 0, ps_last_state_change := now\<rparr>) b"

definition force_half_open :: "pystr \<Rightarrow> rat \<Rightarrow> circuit_breaker \<Rightarrow> circuit_breaker" where
  "force_half_open provider now b =
     put_entry provider ((provider_entry provider b)
       \<lparr>ps_state := HALF_OPEN, ps_successes := 0, ps_last_state_change := now\<rparr>) b"

section \<open>Events and runs\<close>

datatype breaker_op =
    Enter rat
  | Leave rat "py_exn option"
  | Force_Open rat
  | Force_Closed rat
  | Force_Half_Open rat

text \<open>The answer of an operation is whether it was rejected.\<close>

fun breaker_step :: "pystr \<times> breaker_op \<Rightarrow> circuit_breaker \<Rightarrow> rat option \<times> circuit_breaker" where
  "breaker_step (p, Enter t) b = guard_enter p t b"
| "breaker_step (p, Leave t exc) b = (None, guard_exit p t exc b)"
| "breaker_step (p, Force_Open t) b = (None, force_open p t b)"
| "breaker_step (p, Force_Closed t) b = (None, force_closed p t b)"
| "breaker_step (p, Force_Half_Open t) b = (None, force_half_open p t b)"

fun breaker_run :: "(pystr \<times> breaker_op) list \<Rightarrow> circuit_breaker \<Rightarrow> rat option list \<times> circuit_breaker" where
  "breaker_run [] b = ([], b)"
| "breaker_run (e # es) b =
     (case breaker_step e b of (r, b1) \<Rightarrow> case breaker_run es b1 of (rs, b2) \<Rightarrow> (r # rs, b2))"

named_theorems breaker_defs \<open>the operations of the breaker\<close>

declare guard_enter_def [breaker_defs] guard_exit_def [breaker_defs] force_open_def [breaker_defs]
  force_closed_def [breaker_defs] force_half_open_def [breaker_defs] Let_def [breaker_defs]

lemma provider_entry_put [simp]:
  "provider_entry p (put_entry q s b) = (if p = q then s else provider_entry p b)"
  by (simp add: provider_entry_def put_entry_def dict_simps)

lemma put_entry_params [simp]:
  "cb_failure_threshold (put_entry q s b) = cb_failure_threshold b"
  "cb_recovery_timeout (put_entry q s b) = cb_recovery_timeout b"
  "cb_success_threshold (put_entry q s b) = cb_success_threshold b"
  "cb_tripping (put_entry q s b) = cb_tripping b"
  by (simp_all add: put_entry_def)

lemma step_params [simp]:
  "cb_failure_threshold (snd (breaker_step e b)) = cb_failure_threshold b"
  "cb_recovery_timeout (snd (breaker_step e b)) = cb_recovery_timeout b"
  "cb_success_threshold (snd (breaker_step e b)) = cb_success_threshold b"
  "cb_tripping (snd (breaker_step e b)) = cb_tripping b"
  by (induction e b rule: breaker_step.induct) (simp_all add: breaker_defs split: option.split)

text \<open>Providers do not disturb each other.\<close>

lemma step_other_provider: "q \<noteq> fst e \<Longrightarrow> provider_entry q (snd (breaker_step e b)) = provider_entry q b"
  by (induction e b rule: breaker_step.induct) (simp_all add: breaker_defs split: option.split)

section \<open>The contract: an automaton with one counter\<close>

text \<open>
  What a breaker promises, for one provider: closed with the number of consecutive tripping
  failures, open since a moment, or half open with the number of successes since it opened.
\<close>

datatype automaton = Closed int | Open rat | Half int

fun a_enter :: "circuit_breaker \<Rightarrow> rat \<Rightarrow> automaton \<Rightarrow> rat option \<times> automaton" where
  "a_enter b now (Open t) =
     (if t + cb_recovery_timeout b \<le> now then (None, Half 0) else (Some (t + cb_recovery_timeout b - now), Open t))"
| "a_enter b now a = (None, a)"

fun a_success :: "circuit_breaker \<Rightarrow> automaton \<Rightarrow> automaton" where
  "a_success b (Closed n) = Closed 0"
| "a_success b (Open t) = Open t"
| "a_success b (Half k) = (if cb_success_threshold b \<le> k + 1 then Closed 0 else Half (k + 1))"

fun a_failure :: "circuit_breaker \<Rightarrow> rat \<Rightarrow> automaton \<Rightarrow> automaton" where
  "a_failure b now (Closed n) = (if cb_failure_threshold b \<le> n + 1 then Open now else Closed (n + 1))"
| "a_failure b now (Open t) = Open t"
| "a_failure b now (Half k) = Open now"

fun a_step :: "circuit_breaker \<Rightarrow> breaker_op \<Rightarrow> automaton \<Rightarrow> rat option \<times> automaton" where
  "a_step b (Enter t) a = a_enter b t a"
| "a_step b (Leave t None) a = (None, a_success b a)"
| "a_step b (Leave t (Some e)) a = (None, if cb_tripping b e then a_failure b t a else a)"
| "a_step b (Force_Open t) a = (None, Open t)"
| "a_step b (Force_Closed t) a = (None, Closed 0)"
| "a_step b (Force_Half_Open t) a = (None, Half 0)"

text \<open>A run of one automaton per provider.\<close>

fun a_run :: "circuit_breaker \<Rightarrow> (pystr \<times> breaker_op) list \<Rightarrow> (pystr \<Rightarrow> automaton) \<Rightarrow>
    rat option list \<times> (pystr \<Rightarrow> automaton)" where
  "a_run b [] m = ([], m)"
| "a_run b ((p, e) # es) m =
     (case a_step b e (m p) of (r, a) \<Rightarrow> case a_run b es (m(p := a)) of (rs, m') \<Rightarrow> (r # rs, m'))"

definition abs_state :: "provider_state \<Rightarrow> automaton" where
  "abs_state s = (case ps_state s of
     CLOSED \<Rightarrow> Closed (ps_failures s) | OPEN \<Rightarrow> Open (ps_last_state_change s) | HALF_OPEN \<Rightarrow> Half (ps_successes s))"

definition abs_breaker :: "circuit_breaker \<Rightarrow> pystr \<Rightarrow> automaton" where
  "abs_breaker b p = abs_state (provider_entry p b)"

lemma step_simulates_here:
  "breaker_step (p, e) b = (r, b') \<Longrightarrow> a_step b e (abs_breaker b p) = (r, abs_breaker b' p)"
  by (cases e; cases "ps_state (provider_entry p b)")
    (auto simp: breaker_defs abs_breaker_def abs_state_def algebra_simps split: option.splits if_splits)

lemma step_simulates:
  assumes "breaker_step (p, e) b = (r, b')"
  shows "a_step b e (abs_breaker b p) = (r, abs_breaker b' p) \<and>
    abs_breaker b' = (abs_breaker b)(p := abs_breaker b' p)"
  using step_simulates_here [OF assms] step_other_provider [of _ "(p, e)" b] assms
  by (auto simp: abs_breaker_def fun_eq_iff)

lemma a_step_params:
  assumes "cb_failure_threshold b' = cb_failure_threshold b" "cb_recovery_timeout b' = cb_recovery_timeout b"
    "cb_success_threshold b' = cb_success_threshold b" "cb_tripping b' = cb_tripping b"
  shows "a_step b' e a = a_step b e a"
  using assms by (cases "(b, e, a)" rule: a_step.cases; cases a) auto

lemma a_run_params:
  assumes "cb_failure_threshold b' = cb_failure_threshold b" "cb_recovery_timeout b' = cb_recovery_timeout b"
    "cb_success_threshold b' = cb_success_threshold b" "cb_tripping b' = cb_tripping b"
  shows "a_run b' es m = a_run b es m"
  by (induction es arbitrary: m) (auto simp: a_step_params [OF assms] split: prod.split)

text \<open>
  C4 (refinement): over any interleaving of guarded calls and overrides, on any number of
  providers, the breaker admits, rejects (with the same remaining cool-down) and moves exactly
  as one counter automaton per provider does.
\<close>

theorem breaker_refines_automaton:
  "a_run b es (abs_breaker b) = (fst (breaker_run es b), abs_breaker (snd (breaker_run es b)))"
proof (induction es arbitrary: b)
  case Nil
  then show ?case by simp
next
  case (Cons e es)
  obtain p op where e: "e = (p, op)" by fastforce
  obtain r b1 where step: "breaker_step (p, op) b = (r, b1)" by fastforce
  have run: "a_run b es (abs_breaker b1) = a_run b1 es (abs_breaker b1)"
    using step_params [of "(p, op)" b] by (intro a_run_params [symmetric]) (simp_all add: step)
  show ?case
    using step_simulates [OF step] Cons.IH [of b1]
    by (auto simp: e step run simp flip: fun_upd_apply split: prod.split)
qed

section \<open>Consequences\<close>

subsection \<open>Counters stay below their thresholds\<close>

definition entry_ok :: "circuit_breaker \<Rightarrow> provider_state \<Rightarrow> bool" where
  "entry_ok b s \<longleftrightarrow>
     (ps_state s = CLOSED \<longrightarrow> 0 \<le> ps_failures s \<and> ps_failures s < cb_failure_threshold b) \<and>
     (ps_state s = HALF_OPEN \<longrightarrow> 0 \<le> ps_successes s \<and> ps_successes s < cb_success_threshold b)"

definition breaker_ok :: "circuit_breaker \<Rightarrow> bool" where
  "breaker_ok b \<longleftrightarrow> 0 < cb_failure_threshold b \<and> 0 < cb_success_threshold b \<and> (\<forall>p. entry_ok b (provider_entry p b))"

lemma entry_ok_put [simp]: "entry_ok (put_entry p s b) = entry_ok b"
  by (simp add: entry_ok_def fun_eq_iff)

lemma breaker_ok_put: "breaker_ok b \<Longrightarrow> entry_ok b s \<Longrightarrow> breaker_ok (put_entry p s b)"
  by (simp add: breaker_ok_def)

lemma breaker_step_ok:
  assumes "breaker_ok b"
  shows "breaker_ok (snd (breaker_step (p, e) b))"
proof -
  note ok = assms [unfolded breaker_ok_def]
  have entry: "entry_ok b (provider_entry p b)" using ok by blast
  show ?thesis
  proof (cases e)
    case (Leave t exc)
    then show ?thesis
      using assms entry ok
      by (cases exc) (auto simp: breaker_defs entry_ok_def intro!: breaker_ok_put)
  qed (use assms entry ok in \<open>auto simp: breaker_defs entry_ok_def intro!: breaker_ok_put\<close>)
qed

lemma breaker_run_ok: "breaker_ok b \<Longrightarrow> breaker_ok (snd (breaker_run es b))"
proof (induction es arbitrary: b)
  case (Cons e es)
  have "breaker_ok (snd (breaker_step e b))" using breaker_step_ok [OF Cons.prems, of "fst e" "snd e"] by simp
  then show ?case using Cons.IH [of "snd (breaker_step e b)"] by (simp add: case_prod_unfold)
qed simp

text \<open>
  Whatever happens to a breaker with positive thresholds, a closed provider has
  fewer failures than trip it and a half-open one fewer successes than close it.
\<close>

theorem breaker_counters_bounded:
  assumes "0 < failure_threshold" "0 < success_threshold"
  shows "breaker_ok (snd (breaker_run es (CircuitBreaker_init failure_threshold recovery_timeout success_threshold tripping)))"
  by (rule breaker_run_ok)
    (use assms in \<open>simp add: breaker_ok_def entry_ok_def CircuitBreaker_init_def provider_entry_def ProviderState_def\<close>)

lemma breaker_counters_bounded_witness:
  "breaker_ok (snd (breaker_run [(u ''kimi'', Enter 1), (u ''kimi'', Leave 2 (Some ReadTimeout))] (CircuitBreaker_init 5 30 2 (\<lambda>_. True))))"
  by (rule breaker_counters_bounded) simp_all

subsection \<open>The legal changes of state\<close>

inductive legal_change :: "breaker_state \<Rightarrow> breaker_state \<Rightarrow> bool" where
  stay: "legal_change s s"
| trip: "legal_change CLOSED OPEN"
| probe: "legal_change OPEN HALF_OPEN"
| relapse: "legal_change HALF_OPEN OPEN"
| recover: "legal_change HALF_OPEN CLOSED"

inductive_simps legal_change_from [simp]: "legal_change CLOSED s" "legal_change OPEN s" "legal_change HALF_OPEN s"
inductive_cases legal_change_to: "legal_change s CLOSED" "legal_change s HALF_OPEN" "legal_change s OPEN"

fun is_override :: "breaker_op \<Rightarrow> bool" where
  "is_override (Enter t) = False"
| "is_override (Leave t exc) = False"
| "is_override op = True"

text \<open>
  A guarded call never closes an open breaker and never half-opens a closed one:
  without an override the state only moves closed, open, half open, and from there back to
  either, one change per event.
\<close>

theorem breaker_changes_legally:
  "is_override e \<or> legal_change (ps_state (provider_entry p b)) (ps_state (provider_entry p (snd (breaker_step (q, e) b))))"
proof (cases e)
  case (Leave t exc)
  then show ?thesis
    by (cases "ps_state (provider_entry q b)"; cases exc) (auto simp: breaker_defs intro: legal_change.intros)
next
  case (Enter t)
  then show ?thesis
    by (cases "ps_state (provider_entry q b)") (auto simp: breaker_defs intro: legal_change.intros)
qed simp_all

subsection \<open>What the administrator sees\<close>

text \<open>
  At the same clock reading, \<open>get_state\<close> shows OPEN exactly when the next
  guarded call would be rejected, and a rejected call never runs the function.
\<close>

theorem shown_open_iff_rejected:
  "get_state p now b = OPEN \<longleftrightarrow> (\<exists>remaining b'. breaker_call p func now later b = (Inl remaining, b'))"
  by (auto simp: get_state_def breaker_call_def guard_enter_def provider_entry_def ProviderState_def Let_def
      split: option.splits prod.splits if_splits)

subsection \<open>Tripping\<close>

text \<open>
  A run of failing guarded calls, one after the other, at the given times; the number of times
  the function was called.
\<close>

fun call_all :: "pystr \<Rightarrow> py_exn \<Rightarrow> rat list \<Rightarrow> circuit_breaker \<Rightarrow> nat \<times> circuit_breaker" where
  "call_all p e [] b = (0, b)"
| "call_all p e (t # ts) b =
     (case breaker_call p (\<lambda>_. Inl e :: py_exn + unit) t t b of
        (Inl remaining, b1) \<Rightarrow> call_all p e ts b1
      | (Inr r, b1) \<Rightarrow> (case call_all p e ts b1 of (n, b2) \<Rightarrow> (Suc n, b2)))"

lemma failing_call_closed:
  assumes "abs_breaker b p = Closed n" "cb_tripping b e"
  shows "\<exists>r b1. breaker_call p (\<lambda>_. Inl e :: py_exn + unit) t t b = (Inr r, b1) \<and> abs_breaker b1 p = a_failure b t (Closed n) \<and>
    cb_tripping b1 = cb_tripping b \<and> cb_failure_threshold b1 = cb_failure_threshold b \<and>
    cb_recovery_timeout b1 = cb_recovery_timeout b"
proof -
  have s: "ps_state (provider_entry p b) = CLOSED" "ps_failures (provider_entry p b) = n"
    using assms(1) by (auto simp: abs_breaker_def abs_state_def split: breaker_state.splits)
  then show ?thesis
    using assms(2) by (simp add: breaker_call_def breaker_defs abs_breaker_def abs_state_def)
qed

lemma failing_call_open:
  assumes "abs_breaker b p = Open t0" "t < t0 + cb_recovery_timeout b"
  shows "\<exists>r b1. breaker_call p (\<lambda>_. Inl e :: py_exn + unit) t t b = (Inl r, b1) \<and> abs_breaker b1 p = Open t0 \<and>
    cb_recovery_timeout b1 = cb_recovery_timeout b"
proof -
  have s: "ps_state (provider_entry p b) = OPEN" "ps_last_state_change (provider_entry p b) = t0"
    using assms(1) by (auto simp: abs_breaker_def abs_state_def split: breaker_state.splits)
  then show ?thesis
    using assms(2) by (simp add: breaker_call_def breaker_defs abs_breaker_def abs_state_def)
qed

lemma call_all_open:
  "abs_breaker b p = Open t0 \<Longrightarrow> \<forall>t \<in> set ts. t < t0 + cb_recovery_timeout b \<Longrightarrow> fst (call_all p e ts b) = 0"
proof (induction ts arbitrary: b)
  case (Cons t ts)
  obtain r b1 where call: "breaker_call p (\<lambda>_. Inl e :: py_exn + unit) t t b = (Inl r, b1)"
    "abs_breaker b1 p = Open t0" "cb_recovery_timeout b1 = cb_recovery_timeout b"
    using failing_call_open [OF Cons.prems(1)] Cons.prems(2) by fastforce
  then show ?case using Cons.IH [of b1] Cons.prems(2) by simp
qed simp

lemma call_all_closed:
  assumes "abs_breaker b p = Closed n" "n < cb_failure_threshold b" "cb_tripping b e" "sorted ts"
    "\<forall>t \<in> set ts. t < hd ts + cb_recovery_timeout b"
  shows "fst (call_all p e ts b) = min (length ts) (nat (cb_failure_threshold b - n))"
  using assms
proof (induction ts arbitrary: b n)
  case (Cons t ts)
  obtain r b1 where call: "breaker_call p (\<lambda>_. Inl e :: py_exn + unit) t t b = (Inr r, b1)"
    and b1: "abs_breaker b1 p = a_failure b t (Closed n)" "cb_tripping b1 = cb_tripping b"
      "cb_failure_threshold b1 = cb_failure_threshold b" "cb_recovery_timeout b1 = cb_recovery_timeout b"
    using failing_call_closed [OF Cons.prems(1,3)] by blast
  have fst: "fst (call_all p e (t # ts) b) = Suc (fst (call_all p e ts b1))"
    by (simp add: call split: prod.split)
  show ?case
  proof (cases "cb_failure_threshold b \<le> n + 1")
    case True
    then have one: "nat (cb_failure_threshold b - n) = 1" using Cons.prems(2) by simp
    have "fst (call_all p e ts b1) = 0"
      using True b1 Cons.prems(5) by (intro call_all_open [of b1 p t]) auto
    then show ?thesis using fst one by simp
  next
    case False
    have near: "\<forall>s \<in> set ts. s < hd ts + cb_recovery_timeout b1"
      using Cons.prems(4,5) b1(4) by (cases ts) force+
    have "fst (call_all p e ts b1) = min (length ts) (nat (cb_failure_threshold b1 - (n + 1)))"
      using False b1 Cons.prems near by (intro Cons.IH) auto
    then show ?thesis using fst False b1(3) by (simp add: min_def) linarith
  qed
qed simp

text \<open>
  However many guarded calls fail within one recovery time, a provider that was
  healthy is called exactly \<open>failure_threshold\<close> times (or as often as it was asked), and every
  later call is rejected.
\<close>

theorem breaker_limits_failing_calls:
  assumes "0 < failure_threshold" "tripping e" "sorted ts" "\<forall>t \<in> set ts. t < hd ts + recovery_timeout"
  shows "fst (call_all p e ts (CircuitBreaker_init failure_threshold recovery_timeout success_threshold tripping))
     = min (length ts) (nat failure_threshold)"
proof -
  let ?b = "CircuitBreaker_init failure_threshold recovery_timeout success_threshold tripping"
  have "abs_breaker ?b p = Closed 0"
    by (simp add: CircuitBreaker_init_def abs_breaker_def provider_entry_def ProviderState_def abs_state_def)
  from call_all_closed [OF this, of e ts] show ?thesis
    using assms by (simp add: CircuitBreaker_init_def)
qed

lemma breaker_limits_failing_calls_witness:
  "fst (call_all (u ''kimi'') ReadTimeout [0, 1, 2, 3, 4, 5, 6] (CircuitBreaker_init 5 30 2 (\<lambda>_. True))) =
     min (length [0, 1, 2, 3, 4, 5, 6 :: rat]) (nat 5)"
  by (rule breaker_limits_failing_calls) simp_all

end
