(* ===== verification/Numbers.thy ===== *)
theory Numbers
  imports Complex_Main Prelude
begin

text \<open>Python's \<open>round\<close> on exact numbers: to the nearest multiple, ties to even.\<close>

definition round_half_even :: "rat \<Rightarrow> int" where
  "round_half_even x =
     (let f = \<lfloor>x\<rfloor>; d = x - of_int f in
      if d < 1 / 2 then f else if 1 / 2 < d then f + 1 else if even f then f else f + 1)"

definition py_round :: "rat \<Rightarrow> nat \<Rightarrow> rat" where
  "py_round x digits = of_int (round_half_even (x * 10 ^ digits)) / 10 ^ digits"

lemma round_half_even_close: "\<bar>of_int (round_half_even x) - x\<bar> \<le> 1 / 2"
proof -
  have "of_int \<lfloor>x\<rfloor> \<le> x" "x < of_int \<lfloor>x\<rfloor> + 1" by linarith+
  then show ?thesis unfolding round_half_even_def Let_def by (auto simp: abs_le_iff)
qed

lemma py_round_close: "\<bar>py_round x digits - x\<bar> \<le> 1 / (2 * 10 ^ digits)"
proof -
  have "py_round x digits - x = (of_int (round_half_even (x * 10 ^ digits)) - x * 10 ^ digits) / 10 ^ digits"
    by (simp add: py_round_def diff_divide_distrib)
  then have "\<bar>py_round x digits - x\<bar> = \<bar>of_int (round_half_even (x * 10 ^ digits)) - x * 10 ^ digits\<bar> / 10 ^ digits"
    by (simp add: abs_divide)
  also have "\<dots> \<le> (1 / 2) / 10 ^ digits"
    by (rule divide_right_mono [OF round_half_even_close]) simp
  finally show ?thesis by simp
qed

lemma py_round_nonneg: "0 \<le> x \<Longrightarrow> 0 \<le> py_round x digits"
  by (auto simp: py_round_def round_half_even_def Let_def)

end
