(* ===== verification/KeyPool.thy ===== *)
theory KeyPool
  imports Numbers
begin

text \<open>
  The API key pool (\<open>core/reliability/key_pool.py\<close>, \<open>core/reliability/key_encrypt.py\<close>): per
  provider a list of keys handed out in turn, skipping what is revoked, cooling down or over its
  hourly quota; its administration; and its persistence.  Each public operation runs under the
  pool's lock and is one atomic step.  The two clocks, the cipher (\<open>Fernet\<close>) and \<open>hash\<close> are
  arguments; the file is the list of items written to it.
\<close>

section \<open>State\<close>

record key_entry =
  ke_key :: pystr
  ke_alias :: pystr
  ke_revoked :: bool
  ke_quota :: int
  ke_request_times :: "rat list"
  ke_cooldown_expiry :: rat

record key_pool =
  kp_db :: "(pystr, key_entry list) dict"
  kp_indices :: "(pystr, nat) dict"

definition empty_pool :: key_pool where
  "empty_pool = \<lparr>kp_db = [], kp_indices = []\<rparr>"

definition keys_of :: "pystr \<Rightarrow> key_pool \<Rightarrow> key_entry list" where
  "keys_of provider p = dict_get_default (kp_db p) provider []"

definition put_keys :: "pystr \<Rightarrow> key_entry list \<Rightarrow> key_pool \<Rightarrow> key_pool" where
  "put_keys provider ks p = p\<lparr>kp_db := dict_set provider ks (kp_db p)\<rparr>"

definition drop_provider :: "pystr \<Rightarrow> key_pool \<Rightarrow> key_pool" where
  "drop_provider provider p = p\<lparr>kp_db := dict_pop provider (kp_db p), kp_indices := dict_pop provider (kp_indices p)\<rparr>"

text \<open>The \<open>for k_entry in keys: if \<dots>: \<dots>; break\<close> loops: the first match is changed.\<close>

fun update_first :: "('a \<Rightarrow> bool) \<Rightarrow> ('a \<Rightarrow> 'a) \<Rightarrow> 'a list \<Rightarrow> 'a list" where
  "update_first P f [] = []"
| "update_first P f (x # xs) = (if P x then f x # xs else x # update_first P f xs)"

fun remove_first :: "('a \<Rightarrow> bool) \<Rightarrow> 'a list \<Rightarrow> 'a list" where
  "remove_first P [] = []"
| "remove_first P (x # xs) = (if P x then xs else x # remove_first P xs)"

section \<open>Adding keys\<close>

definition default_alias :: "pystr \<Rightarrow> pystr \<Rightarrow> pystr" where
  "default_alias provider key =
     provider @ u ''-'' @ (if 6 \<le> length key then drop (length key - 6) key else u ''key'')"

definition add_key_in_memory :: "pystr \<Rightarrow> pystr \<Rightarrow> pystr option \<Rightarrow> int \<Rightarrow> bool \<Rightarrow> key_pool \<Rightarrow> key_pool" where
  "add_key_in_memory provider key alias_name quota revoked p =
     (let ks = keys_of provider p in
      if \<exists>e \<in> set ks. ke_key e = key then
        put_keys provider
          (update_first (\<lambda>e. ke_key e = key)
            (\<lambda>e. e\<lparr>ke_alias := (case alias_name of Some a \<Rightarrow> if a = [] then ke_alias e else a | None \<Rightarrow> ke_alias e),
                   ke_quota := (if quota = 0 then ke_quota e else quota), ke_revoked := revoked\<rparr>) ks) p
      else
        put_keys provider
          (ks @ [\<lparr>ke_key = key,
                  ke_alias = (case alias_name of Some a \<Rightarrow> if a = [] then default_alias provider key else a
                                               | None \<Rightarrow> default_alias provider key),
                  ke_revoked = revoked, ke_quota = quota, ke_request_times = [], ke_cooldown_expiry = 0\<rparr>]) p)"

text \<open>Case mapping and digits for the ASCII characters environment names are made of.\<close>

definition ascii_upper :: "pystr \<Rightarrow> pystr" where
  "ascii_upper s = map (\<lambda>c. if 97 \<le> c \<and> c \<le> 122 then c - 32 else c) s"

definition ascii_lower :: "pystr \<Rightarrow> pystr" where
  "ascii_lower s = map (\<lambda>c. if 65 \<le> c \<and> c \<le> 90 then c + 32 else c) s"

definition ascii_isdigit :: "pystr \<Rightarrow> bool" where
  "ascii_isdigit s \<longleftrightarrow> s \<noteq> [] \<and> (\<forall>c \<in> set s. 48 \<le> c \<and> c \<le> 57)"

definition API_KEY :: pystr where "API_KEY = u ''_API_KEY''"

definition API_KEY_SEP :: pystr where "API_KEY_SEP = u ''_API_KEY_''"

text \<open>
  One variable: the provider and alias it configures.  \<open>split\<close> gives two parts exactly when the
  separator does not occur again after its first occurrence.
\<close>

definition env_key :: "pystr \<Rightarrow> (pystr \<times> pystr) option" where
  "env_key name =
     (let env_upper = ascii_upper name in
      if str_endswith env_upper API_KEY then
        let provider = ascii_lower (take (length env_upper - 8) env_upper)
        in Some (provider, provider @ u ''-env-primary'')
      else case str_partition API_KEY_SEP env_upper of
          (prefx, True, idx) \<Rightarrow>
            if \<not> str_contains API_KEY_SEP idx \<and> ascii_isdigit idx
            then Some (ascii_lower prefx, ascii_lower prefx @ u ''-env-'' @ idx) else None
        | (_, False, _) \<Rightarrow> None)"

fun scan_env_keys :: "(pystr \<times> pystr) list \<Rightarrow> key_pool \<Rightarrow> key_pool" where
  "scan_env_keys [] p = p"
| "scan_env_keys ((name, val) # env) p =
     scan_env_keys env
       (if str_strip val = [] then p
        else case env_key name of
               None \<Rightarrow> p
             | Some (provider, alias_name) \<Rightarrow> add_key_in_memory provider (str_strip val) (Some alias_name) 0 False p)"

section \<open>Persistence\<close>

text \<open>\<open>encrypt_key\<close> and \<open>decrypt_key\<close> over the cipher; a value that does not decrypt gives the empty string.\<close>

definition encrypt_key :: "(pystr \<Rightarrow> pystr) \<Rightarrow> pystr \<Rightarrow> pystr" where
  "encrypt_key fernet_encrypt v = (if v = [] then [] else fernet_encrypt v)"

definition decrypt_key :: "(pystr \<Rightarrow> pystr option) \<Rightarrow> pystr \<Rightarrow> pystr" where
  "decrypt_key fernet_decrypt v =
     (if v = [] then [] else case fernet_decrypt v of None \<Rightarrow> [] | Some k \<Rightarrow> k)"

record saved_key =
  sk_provider :: pystr
  sk_encrypted :: pystr
  sk_alias :: pystr
  sk_quota :: int
  sk_revoked :: bool

definition saved_item :: "(pystr \<Rightarrow> pystr) \<Rightarrow> pystr \<Rightarrow> key_entry \<Rightarrow> saved_key" where
  "saved_item enc provider e =
     \<lparr>sk_provider = provider, sk_encrypted = encrypt_key enc (ke_key e), sk_alias = ke_alias e,
      sk_quota = ke_quota e, sk_revoked = ke_revoked e\<rparr>"

definition save_persisted_keys :: "(pystr \<Rightarrow> pystr) \<Rightarrow> key_pool \<Rightarrow> saved_key list" where
  "save_persisted_keys enc p = concat (map (\<lambda>(provider, ks). map (saved_item enc provider) ks) (kp_db p))"

fun load_persisted_keys :: "(pystr \<Rightarrow> pystr option) \<Rightarrow> saved_key list \<Rightarrow> key_pool \<Rightarrow> key_pool" where
  "load_persisted_keys dec [] p = p"
| "load_persisted_keys dec (item # items) p =
     load_persisted_keys dec items
       (let raw_key = decrypt_key dec (sk_encrypted item) in
        if sk_provider item \<noteq> [] \<and> sk_encrypted item \<noteq> [] \<and> raw_key \<noteq> []
        then add_key_in_memory (sk_provider item) raw_key (Some (sk_alias item)) (sk_quota item) (sk_revoked item) p
        else p)"

text \<open>\<open>KeyPool(keys_by_provider)\<close>: the configured keys, the environment, then the file.\<close>

definition KeyPool_init ::
    "(pystr \<Rightarrow> pystr option) \<Rightarrow> (pystr \<times> pystr list) list \<Rightarrow> (pystr \<times> pystr) list \<Rightarrow> saved_key list \<Rightarrow> key_pool" where
  "KeyPool_init dec configured env saved =
     load_persisted_keys dec saved
       (scan_env_keys env
         (fold (\<lambda>(provider, ks). fold (\<lambda>k. add_key_in_memory provider k None 0 False) ks) configured empty_pool))"

section \<open>Handing out keys\<close>

definition recent :: "rat \<Rightarrow> rat list \<Rightarrow> rat list" where
  "recent now_real ts = filter (\<lambda>t. now_real - t < 3600) ts"

text \<open>
  The loop of \<open>get_key\<close> over \<open>i\<close>: the index of the key it returns, and the keys with their
  request times pruned and recorded.
\<close>

fun pick_key :: "rat \<Rightarrow> rat \<Rightarrow> nat \<Rightarrow> nat list \<Rightarrow> key_entry list \<Rightarrow> nat option \<times> key_entry list" where
  "pick_key now_monotonic now_real start_idx [] ks = (None, ks)"
| "pick_key now_monotonic now_real start_idx (i # is) ks =
     (let idx = (start_idx + i) mod length ks; candidate = ks ! idx in
      if ke_revoked candidate then pick_key now_monotonic now_real start_idx is ks
      else if now_monotonic < ke_cooldown_expiry candidate then pick_key now_monotonic now_real start_idx is ks
      else
        let pruned = (if 0 < ke_quota candidate
              then candidate\<lparr>ke_request_times := recent now_real (ke_request_times candidate)\<rparr> else candidate) in
        if 0 < ke_quota candidate \<and> ke_quota candidate \<le> int (length (ke_request_times pruned))
        then pick_key now_monotonic now_real start_idx is (ks[idx := pruned])
        else (Some idx, ks[idx := pruned\<lparr>ke_request_times := ke_request_times pruned @ [now_real]\<rparr>]))"

definition get_key :: "pystr \<Rightarrow> rat \<Rightarrow> rat \<Rightarrow> key_pool \<Rightarrow> pystr option \<times> key_pool" where
  "get_key provider now_monotonic now_real p =
     (let ks = keys_of provider p in
      if ks = [] then (None, p)
      else let n = length ks; start_idx = dict_get_default (kp_indices p) provider 0 in
        case pick_key now_monotonic now_real start_idx [0..<n] ks of
          (None, ks') \<Rightarrow> (None, put_keys provider ks' p)
        | (Some idx, ks') \<Rightarrow>
            (Some (ke_key (ks ! idx)),
             (put_keys provider ks' p)\<lparr>kp_indices := dict_set provider ((idx + 1) mod n) (kp_indices p)\<rparr>))"

section \<open>Reports and administration\<close>

definition on_key :: "pystr \<Rightarrow> (key_entry \<Rightarrow> bool) \<Rightarrow> (key_entry \<Rightarrow> key_entry) \<Rightarrow> key_pool \<Rightarrow> key_pool" where
  "on_key provider P f p =
     (if dict_get (kp_db p) provider = None then p else put_keys provider (update_first P f (keys_of provider p)) p)"

definition report_429 :: "pystr \<Rightarrow> pystr \<Rightarrow> rat \<Rightarrow> rat \<Rightarrow> key_pool \<Rightarrow> key_pool" where
  "report_429 provider key cooldown_duration now_monotonic p =
     on_key provider (\<lambda>e. ke_key e = key) (\<lambda>e. e\<lparr>ke_cooldown_expiry := now_monotonic + cooldown_duration\<rparr>) p"

definition report_success :: "pystr \<Rightarrow> pystr \<Rightarrow> key_pool \<Rightarrow> key_pool" where
  "report_success provider key p = on_key provider (\<lambda>e. ke_key e = key) (\<lambda>e. e\<lparr>ke_cooldown_expiry := 0\<rparr>) p"

definition is_on_cooldown :: "pystr \<Rightarrow> pystr \<Rightarrow> rat \<Rightarrow> key_pool \<Rightarrow> bool \<times> key_pool" where
  "is_on_cooldown provider key now_monotonic p =
     (case find (\<lambda>e. ke_key e = key) (keys_of provider p) of
        None \<Rightarrow> (False, p)
      | Some e \<Rightarrow>
          if now_monotonic < ke_cooldown_expiry e then (True, p)
          else (False, on_key provider (\<lambda>e. ke_key e = key) (\<lambda>e. e\<lparr>ke_cooldown_expiry := 0\<rparr>) p))"

definition has_keys :: "pystr \<Rightarrow> key_pool \<Rightarrow> bool" where
  "has_keys provider p \<longleftrightarrow> (\<exists>e \<in> set (keys_of provider p). \<not> ke_revoked e)"

definition remove_key :: "pystr \<Rightarrow> pystr \<Rightarrow> key_pool \<Rightarrow> key_pool" where
  "remove_key provider key p =
     (if dict_get (kp_db p) provider = None then p
      else let ks = filter (\<lambda>e. ke_key e \<noteq> key) (keys_of provider p) in
        if ks = [] then drop_provider provider p else put_keys provider ks p)"

text \<open>The operations by hash return whether a key was found.\<close>

definition hash_known :: "(pystr \<Rightarrow> int) \<Rightarrow> pystr \<Rightarrow> int \<Rightarrow> key_pool \<Rightarrow> bool" where
  "hash_known hash provider key_hash p \<longleftrightarrow> (\<exists>e \<in> set (keys_of provider p). hash (ke_key e) = key_hash)"

definition toggle_revoke_key :: "(pystr \<Rightarrow> int) \<Rightarrow> pystr \<Rightarrow> int \<Rightarrow> key_pool \<Rightarrow> bool \<times> key_pool" where
  "toggle_revoke_key hash provider key_hash p =
     (hash_known hash provider key_hash p,
      on_key provider (\<lambda>e. hash (ke_key e) = key_hash) (\<lambda>e. e\<lparr>ke_revoked := \<not> ke_revoked e\<rparr>) p)"

definition update_key_meta :: "(pystr \<Rightarrow> int) \<Rightarrow> pystr \<Rightarrow> int \<Rightarrow> pystr \<Rightarrow> int \<Rightarrow> key_pool \<Rightarrow> bool \<times> key_pool" where
  "update_key_meta hash provider key_hash alias_name quota p =
     (hash_known hash provider key_hash p,
      on_key provider (\<lambda>e. hash (ke_key e) = key_hash) (\<lambda>e. e\<lparr>ke_alias := alias_name, ke_quota := quota\<rparr>) p)"

definition remove_key_by_hash :: "(pystr \<Rightarrow> int) \<Rightarrow> pystr \<Rightarrow> int \<Rightarrow> key_pool \<Rightarrow> bool \<times> key_pool" where
  "remove_key_by_hash hash provider key_hash p =
     (if hash_known hash provider key_hash p then
        let ks = remove_first (\<lambda>e. hash (ke_key e) = key_hash) (keys_of provider p)
        in (True, if ks = [] then drop_provider provider p else put_keys provider ks p)
      else (False, p))"

text \<open>
  \<open>get_all_keys_status\<close> shows each key masked, and prunes its request times.
\<close>

record key_status =
  st_provider :: pystr
  st_alias :: pystr
  st_revoked :: bool
  st_quota :: int
  st_cooldown_remaining :: rat
  st_used_quota_hour :: nat
  st_masked_key :: pystr
  st_key_hash :: int

definition mask_key :: "pystr \<Rightarrow> pystr" where
  "mask_key k = (if 10 \<le> length k then take 6 k @ u ''...'' @ drop (length k - 4) k else u ''...'')"

definition prune_entry :: "rat \<Rightarrow> key_entry \<Rightarrow> key_entry" where
  "prune_entry now_real e = e\<lparr>ke_request_times := recent now_real (ke_request_times e)\<rparr>"

definition status_item :: "(pystr \<Rightarrow> int) \<Rightarrow> rat \<Rightarrow> pystr \<Rightarrow> key_entry \<Rightarrow> key_status" where
  "status_item hash now_monotonic provider e =
     \<lparr>st_provider = provider, st_alias = ke_alias e, st_revoked = ke_revoked e, st_quota = ke_quota e,
      st_cooldown_remaining = py_round (max 0 (ke_cooldown_expiry e - now_monotonic)) 1,
      st_used_quota_hour = length (ke_request_times e), st_masked_key = mask_key (ke_key e),
      st_key_hash = hash (ke_key e)\<rparr>"

definition get_all_keys_status :: "(pystr \<Rightarrow> int) \<Rightarrow> rat \<Rightarrow> rat \<Rightarrow> key_pool \<Rightarrow> key_status list \<times> key_pool" where
  "get_all_keys_status hash now_monotonic now_real p =
     (let db = map (\<lambda>(provider, ks). (provider, map (prune_entry now_real) ks)) (kp_db p)
      in (concat (map (\<lambda>(provider, ks). map (status_item hash now_monotonic provider) ks) db), p\<lparr>kp_db := db\<rparr>))"

section \<open>The next usable key\<close>

definition usable :: "rat \<Rightarrow> rat \<Rightarrow> key_entry \<Rightarrow> bool" where
  "usable now_monotonic now_real e \<longleftrightarrow>
     \<not> ke_revoked e \<and> ke_cooldown_expiry e \<le> now_monotonic \<and>
     (0 < ke_quota e \<longrightarrow> int (length (recent now_real (ke_request_times e))) < ke_quota e)"

lemma recent_recent: "r \<le> r' \<Longrightarrow> recent r' (recent r ts) = recent r' ts"
  unfolding recent_def by (auto intro!: filter_cong)

text \<open>What one call does to an entry: nothing, a pruning, and for the key it returns a record.\<close>

definition kept :: "rat \<Rightarrow> key_entry \<Rightarrow> key_entry \<Rightarrow> bool" where
  "kept now_real e e' \<longleftrightarrow> e' = e \<or> e' = prune_entry now_real e"

definition recorded :: "rat \<Rightarrow> key_entry \<Rightarrow> key_entry \<Rightarrow> bool" where
  "recorded now_real e e' \<longleftrightarrow>
     (\<exists>e1. kept now_real e e1 \<and> e' = e1\<lparr>ke_request_times := ke_request_times e1 @ [now_real]\<rparr>)"

lemma kept_trans: "kept r e e' \<Longrightarrow> kept r e' e'' \<Longrightarrow> kept r e e''"
  by (auto simp: kept_def prune_entry_def recent_recent)

lemma recorded_trans: "kept r e e' \<Longrightarrow> recorded r e' e'' \<Longrightarrow> recorded r e e''"
  by (auto simp: recorded_def intro: kept_trans)

lemma kept_usable: "kept r e e' \<Longrightarrow> usable m r e' = usable m r e"
  by (auto simp: kept_def prune_entry_def usable_def recent_recent)

lemma kept_pruned [intro]: "kept r e (prune_entry r e)" "kept r e e"
  by (simp_all add: kept_def)

text \<open>One round of the loop, in terms of \<open>usable\<close>.\<close>

lemma pick_key_Cons:
  assumes "ks \<noteq> []"
  shows "\<exists>e1. kept r (ks ! ((s + i) mod length ks)) e1 \<and>
     pick_key m r s (i # is) ks =
       (if usable m r (ks ! ((s + i) mod length ks))
        then (Some ((s + i) mod length ks),
              ks[(s + i) mod length ks := e1\<lparr>ke_request_times := ke_request_times e1 @ [r]\<rparr>])
        else pick_key m r s is (ks[(s + i) mod length ks := e1]))"
proof -
  let ?e = "ks ! ((s + i) mod length ks)"
  note pick_key.simps(2) [simp]
  show ?thesis
  proof (cases "0 < ke_quota ?e")
    case True
    show ?thesis
    proof (cases "ke_revoked ?e \<or> m < ke_cooldown_expiry ?e")
      case True
      then show ?thesis by (intro exI [of _ ?e]) (auto simp: usable_def Let_def)
    next
      case False
      then show ?thesis using True
        by (intro exI [of _ "prune_entry r ?e"]) (auto simp: usable_def Let_def prune_entry_def kept_def)
    qed
  next
    case False
    then show ?thesis by (intro exI [of _ ?e]) (auto simp: usable_def Let_def)
  qed
qed

declare pick_key.simps(2) [simp del]

lemma usable_update:
  assumes "kept r (ks ! j) e"
  shows "usable m r (ks[j := e] ! k) = usable m r (ks ! k)"
  using kept_usable [OF assms] by (cases "j < length ks") (auto simp: nth_list_update list_update_beyond)

lemma pick_key_find:
  assumes "ks \<noteq> []"
  shows "fst (pick_key m r s is ks) = find (\<lambda>j. usable m r (ks ! j)) (map (\<lambda>i. (s + i) mod length ks) is)"
  using assms
proof (induction "is" arbitrary: ks)
  case (Cons i "is")
  obtain e1 where e1: "kept r (ks ! ((s + i) mod length ks)) e1"
    "pick_key m r s (i # is) ks =
       (if usable m r (ks ! ((s + i) mod length ks))
        then (Some ((s + i) mod length ks),
              ks[(s + i) mod length ks := e1\<lparr>ke_request_times := ke_request_times e1 @ [r]\<rparr>])
        else pick_key m r s is (ks[(s + i) mod length ks := e1]))"
    using pick_key_Cons [OF Cons.prems] by blast
  show ?case
    using Cons.IH [of "ks[(s + i) mod length ks := e1]"] Cons.prems
    by (simp add: e1(2) usable_update [OF e1(1)])
qed simp

lemma pick_key_entries:
  assumes "ks \<noteq> []" "pick_key m r s is ks = (res, ks')"
  shows "length ks' = length ks \<and>
     (\<forall>j < length ks. if res = Some j then recorded r (ks ! j) (ks' ! j) else kept r (ks ! j) (ks' ! j)) \<and>
     (\<forall>j. res = Some j \<longrightarrow> j < length ks \<and> usable m r (ks ! j))"
  using assms
proof (induction "is" arbitrary: ks)
  case (Cons i "is")
  let ?j = "(s + i) mod length ks"
  have j: "?j < length ks" using Cons.prems(1) by simp
  obtain e1 where e1: "kept r (ks ! ?j) e1"
    "pick_key m r s (i # is) ks =
       (if usable m r (ks ! ?j) then (Some ?j, ks[?j := e1\<lparr>ke_request_times := ke_request_times e1 @ [r]\<rparr>])
        else pick_key m r s is (ks[?j := e1]))"
    using pick_key_Cons [OF Cons.prems(1)] by blast
  show ?case
  proof (cases "usable m r (ks ! ?j)")
    case True
    then have "res = Some ?j" "ks' = ks[?j := e1\<lparr>ke_request_times := ke_request_times e1 @ [r]\<rparr>]"
      using Cons.prems(2) e1(2) by auto
    then show ?thesis
      using True j e1(1) by (auto simp: nth_list_update recorded_def kept_def)
  next
    case False
    then have run: "pick_key m r s is (ks[?j := e1]) = (res, ks')" using Cons.prems(2) e1(2) by simp
    have ne: "ks[?j := e1] \<noteq> []" using Cons.prems(1) by simp
    have step: "kept r (ks ! k) (ks[?j := e1] ! k)" if "k < length ks" for k
      using that e1(1) j kept_pruned(2) by (cases "k = ?j") simp_all
    have "usable m r (ks ! k) = usable m r (ks[?j := e1] ! k)" for k
      using usable_update [OF e1(1)] by simp
    then show ?thesis
      using Cons.IH [OF ne run] step kept_trans recorded_trans by (simp split: if_splits) blast
  qed
qed (simp add: kept_def)

lemma find_map: "find P (map f xs) = map_option f (find (\<lambda>x. P (f x)) xs)"
  by (induction xs) auto

lemma rotate_eq_map: "rotate s ks = map (\<lambda>i. ks ! ((s + i) mod length ks)) [0..<length ks]"
  by (rule nth_equalityI) (simp_all add: nth_rotate)

text \<open>
  C24 (equivalence): \<open>get_key\<close> returns the first key, in the round-robin order that starts where
  the last call stopped, that is not revoked, not cooling down and under its hourly quota, and
  nothing exactly when there is none.
\<close>

theorem get_key_next_usable:
  "fst (get_key provider now_monotonic now_real p) =
     map_option ke_key (find (usable now_monotonic now_real)
       (rotate (dict_get_default (kp_indices p) provider 0) (keys_of provider p)))"
proof -
  let ?ks = "keys_of provider p" and ?s = "dict_get_default (kp_indices p) provider 0"
  show ?thesis
  proof (cases "?ks = []")
    case False
    obtain res ks' where run: "pick_key now_monotonic now_real ?s [0..<length ?ks] ?ks = (res, ks')" by fastforce
    have "fst (get_key provider now_monotonic now_real p) = map_option (\<lambda>j. ke_key (?ks ! j)) res"
      using False run by (simp add: get_key_def Let_def split: option.split)
    then show ?thesis
      using pick_key_find [OF False, of now_monotonic now_real ?s "[0..<length ?ks]"] run
      by (simp add: rotate_eq_map find_map option.map_comp comp_def)
  qed (simp add: get_key_def)
qed

section \<open>Quotas, cool-downs and fairness over many calls\<close>

text \<open>A sequence of calls for one provider, each at its two clock readings; the keys given out.\<close>

fun get_keys :: "pystr \<Rightarrow> (rat \<times> rat) list \<Rightarrow> key_pool \<Rightarrow> (rat \<times> pystr option) list \<times> key_pool" where
  "get_keys provider [] p = ([], p)"
| "get_keys provider ((m, r) # calls) p =
     (case get_key provider m r p of (k, p1) \<Rightarrow> case get_keys provider calls p1 of (ks, p2) \<Rightarrow> ((r, k) # ks, p2))"

lemma keys_of_put [simp]: "keys_of q (put_keys provider ks p) = (if q = provider then ks else keys_of q p)"
  by (simp add: keys_of_def put_keys_def dict_get_default_def dict_simps)

lemma indices_put [simp]: "kp_indices (put_keys provider ks p) = kp_indices p"
  by (simp add: put_keys_def)

lemma keys_of_indices [simp]: "keys_of q (p\<lparr>kp_indices := x\<rparr>) = keys_of q p"
  by (simp add: keys_of_def)

lemma get_key_entries:
  assumes "get_key provider m r p = (k, p')"
  shows "length (keys_of provider p') = length (keys_of provider p) \<and>
    (\<exists>res. k = map_option (\<lambda>j. ke_key (keys_of provider p ! j)) res \<and>
       (\<forall>j < length (keys_of provider p). if res = Some j then recorded r (keys_of provider p ! j) (keys_of provider p' ! j)
          else kept r (keys_of provider p ! j) (keys_of provider p' ! j)) \<and>
       (\<forall>j. res = Some j \<longrightarrow> j < length (keys_of provider p) \<and> usable m r (keys_of provider p ! j)))"
proof (cases "keys_of provider p = []")
  case True
  then show ?thesis using assms by (auto simp: get_key_def)
next
  case False
  let ?ks = "keys_of provider p" and ?s = "dict_get_default (kp_indices p) provider 0"
  obtain res ks' where run: "pick_key m r ?s [0..<length ?ks] ?ks = (res, ks')" by fastforce
  have "k = map_option (\<lambda>j. ke_key (?ks ! j)) res" "keys_of provider p' = ks'"
    using False run assms by (auto simp: get_key_def Let_def split: option.splits)
  then show ?thesis using pick_key_entries [OF False run] by auto
qed

text \<open>A call changes nothing of an entry but its request times.\<close>

lemma kept_fields:
  "kept r e e' \<or> recorded r e e' \<Longrightarrow> ke_key e' = ke_key e \<and> ke_quota e' = ke_quota e \<and> ke_revoked e' = ke_revoked e
    \<and> ke_cooldown_expiry e' = ke_cooldown_expiry e \<and> ke_alias e' = ke_alias e"
  by (auto simp: kept_def recorded_def prune_entry_def)

lemma get_key_fields:
  assumes "get_key provider m r p = (k, p')" "j < length (keys_of provider p)"
  shows "ke_key (keys_of provider p' ! j) = ke_key (keys_of provider p ! j)"
    "ke_quota (keys_of provider p' ! j) = ke_quota (keys_of provider p ! j)"
    "ke_revoked (keys_of provider p' ! j) = ke_revoked (keys_of provider p ! j)"
    "ke_cooldown_expiry (keys_of provider p' ! j) = ke_cooldown_expiry (keys_of provider p ! j)"
proof -
  have "kept r (keys_of provider p ! j) (keys_of provider p' ! j) \<or> recorded r (keys_of provider p ! j) (keys_of provider p' ! j)"
    using get_key_entries [OF assms(1)] assms(2) by meson
  then show "ke_key (keys_of provider p' ! j) = ke_key (keys_of provider p ! j)"
    "ke_quota (keys_of provider p' ! j) = ke_quota (keys_of provider p ! j)"
    "ke_revoked (keys_of provider p' ! j) = ke_revoked (keys_of provider p ! j)"
    "ke_cooldown_expiry (keys_of provider p' ! j) = ke_cooldown_expiry (keys_of provider p ! j)"
    by (simp_all add: kept_fields)
qed

lemma get_key_key_list:
  assumes "get_key provider m r p = (k, p')"
  shows "map ke_key (keys_of provider p') = map ke_key (keys_of provider p)"
  using get_key_entries [OF assms] get_key_fields(1) [OF assms]
  by (intro nth_equalityI) auto

definition grants_of :: "pystr \<Rightarrow> (rat \<times> pystr option) list \<Rightarrow> rat list" where
  "grants_of key gs = map fst (filter (\<lambda>(r, k). k = Some key) gs)"

text \<open>Within the hour an entry remembers what was granted, and that is within its quota.\<close>

definition accounts :: "rat \<Rightarrow> rat list \<Rightarrow> key_entry \<Rightarrow> bool" where
  "accounts now gs e \<longleftrightarrow>
     (\<forall>r \<ge> now. recent r (ke_request_times e) = recent r gs) \<and> int (length (recent now gs)) \<le> ke_quota e"

lemma recent_append: "recent r (xs @ ys) = recent r xs @ recent r ys"
  by (simp add: recent_def)

lemma length_recent_later: "r \<le> r' \<Longrightarrow> length (recent r' ts) \<le> length (recent r ts)"
  using length_filter_le [of "\<lambda>t. r' - t < 3600" "recent r ts"] recent_recent [of r r' ts] by (simp add: recent_def)

lemma accounts_later: "accounts now gs e \<Longrightarrow> now \<le> r \<Longrightarrow> accounts r gs e"
  using length_recent_later [of now r gs] unfolding accounts_def by (meson of_nat_mono order_trans)

lemma accounts_kept: "accounts r gs e \<Longrightarrow> kept r e e' \<Longrightarrow> accounts r gs e'"
  by (auto simp: accounts_def kept_def prune_entry_def recent_recent)

lemma accounts_recorded:
  assumes "accounts r gs e" "recorded r e e'" "usable m r e" "0 < ke_quota e"
  shows "accounts r (gs @ [r]) e'"
proof -
  obtain e1 where e1: "kept r e e1" "e' = e1\<lparr>ke_request_times := ke_request_times e1 @ [r]\<rparr>"
    using assms(2) by (auto simp: recorded_def)
  have "accounts r gs e1" by (rule accounts_kept [OF assms(1) e1(1)])
  moreover have "usable m r e1" "ke_quota e1 = ke_quota e"
    using kept_usable [OF e1(1)] kept_fields [of r e e1] assms(3) e1(1) by auto
  ultimately show ?thesis
    using assms(4) by (auto simp: accounts_def e1(2) recent_append usable_def) (auto simp: recent_def)
qed

lemma get_keys_accounts:
  "get_keys provider calls p = (gs, p') \<Longrightarrow> sorted (now # map snd calls) \<Longrightarrow> j < length (keys_of provider p) \<Longrightarrow>
    distinct (map ke_key (keys_of provider p)) \<Longrightarrow> 0 < ke_quota (keys_of provider p ! j) \<Longrightarrow>
    accounts now g0 (keys_of provider p ! j) \<Longrightarrow>
    \<exists>e'. accounts (last (now # map snd calls)) (g0 @ grants_of (ke_key (keys_of provider p ! j)) gs) e' \<and>
      ke_quota e' = ke_quota (keys_of provider p ! j)"
proof (induction calls arbitrary: p gs now g0)
  case Nil
  then show ?case by (auto simp: grants_of_def)
next
  case (Cons call calls)
  obtain m r where call: "call = (m, r)" by fastforce
  obtain k p1 where step: "get_key provider m r p = (k, p1)" by fastforce
  obtain hs where rest: "get_keys provider calls p1 = (hs, p')" and gs: "gs = (r, k) # hs"
    using Cons.prems(1) step by (auto simp: call split: prod.splits)
  let ?e = "keys_of provider p ! j" and ?e1 = "keys_of provider p1 ! j"
  have len: "length (keys_of provider p1) = length (keys_of provider p)"
    using get_key_entries [OF step] by simp
  obtain res where res: "k = map_option (\<lambda>j. ke_key (keys_of provider p ! j)) res"
    "if res = Some j then recorded r ?e ?e1 else kept r ?e ?e1"
    "res = Some j \<longrightarrow> usable m r ?e" "\<forall>i. res = Some i \<longrightarrow> i < length (keys_of provider p)"
    using get_key_entries [OF step] Cons.prems(3) by metis
  have le: "now \<le> r" and sorted: "sorted (r # map snd calls)" using Cons.prems(2) by (auto simp: call)
  have acc: "accounts r g0 ?e" by (rule accounts_later [OF Cons.prems(6) le])
  have mine: "k = Some (ke_key ?e) \<longleftrightarrow> res = Some j"
    using Cons.prems(3,4) res(1,4) by (cases res) (auto simp: distinct_conv_nth)
  define g1 where "g1 = g0 @ (if res = Some j then [r] else [])"
  have acc1: "accounts r g1 ?e1"
    using accounts_recorded [OF acc _ _ Cons.prems(5)] accounts_kept [OF acc] res by (auto simp: g1_def)
  note same = get_key_fields [OF step Cons.prems(3)]
  have "\<exists>e'. accounts (last (r # map snd calls)) (g1 @ grants_of (ke_key ?e1) hs) e' \<and> ke_quota e' = ke_quota ?e1"
    using Cons.IH [OF rest sorted _ _ _ acc1] len Cons.prems(3,4,5) get_key_key_list [OF step] same by simp
  moreover have "g1 @ grants_of (ke_key ?e1) hs = g0 @ grants_of (ke_key ?e) gs"
    using mine by (simp add: g1_def gs grants_of_def same)
  ultimately show ?case using same by (simp add: call)
qed

text \<open>
  Over any sequence of calls in time order, a fresh key with an hourly quota is given
  out at most quota times in the hour that ends at the last call (and so, calls being added one
  by one, in any hour).
\<close>

theorem hourly_quota_respected:
  assumes "e \<in> set (keys_of provider p)" "distinct (map ke_key (keys_of provider p))"
    "0 < ke_quota e" "ke_request_times e = []" "sorted (map snd calls)" "calls \<noteq> []"
  shows "int (length (recent (snd (last calls)) (grants_of (ke_key e) (fst (get_keys provider calls p))))) \<le> ke_quota e"
proof -
  obtain j where j: "j < length (keys_of provider p)" "keys_of provider p ! j = e"
    using assms(1) by (auto simp: in_set_conv_nth)
  obtain gs p' where run: "get_keys provider calls p = (gs, p')" by fastforce
  let ?now = "snd (hd calls)"
  have sorted: "sorted (?now # map snd calls)" using assms(5,6) by (cases calls) auto
  have "accounts ?now [] (keys_of provider p ! j)" using assms(3,4) j by (simp add: accounts_def recent_def)
  from get_keys_accounts [OF run sorted j(1) assms(2) _ this] obtain e' where
    "accounts (last (?now # map snd calls)) (grants_of (ke_key e) gs) e'" "ke_quota e' = ke_quota e"
    using j(2) assms(3) by auto
  then show ?thesis using assms(6) by (auto simp: accounts_def run last_map)
qed

definition one_key_pool :: key_pool where
  "one_key_pool = add_key_in_memory (u ''kimi'') (u ''sk-secret-key'') None 2 False empty_pool"

lemma hourly_quota_respected_witness:
  "int (length (recent (snd (last [(0, 0), (1, 1), (2 :: rat, 2)]))
      (grants_of (ke_key (hd (keys_of (u ''kimi'') one_key_pool)))
        (fst (get_keys (u ''kimi'') [(0, 0), (1, 1), (2, 2)] one_key_pool)))))
    \<le> ke_quota (hd (keys_of (u ''kimi'') one_key_pool))"
  by (rule hourly_quota_respected) (simp_all add: one_key_pool_def add_key_in_memory_def empty_pool_def
      keys_of_def put_keys_def dict_get_default_def)

text \<open>The quota above is used up by the third call.\<close>

lemma third_call_refused:
  "map snd (fst (get_keys (u ''kimi'') [(0, 0), (1, 1), (2, 2), (3600, 3600)] one_key_pool)) =
     [Some (u ''sk-secret-key''), Some (u ''sk-secret-key''), None, Some (u ''sk-secret-key'')]"
  by code_simp

text \<open>
  When no key is revoked, cooling down or limited, successive calls hand the keys
  out in strict rotation, whatever happened before.
\<close>

theorem keys_rotate:
  assumes "\<forall>e \<in> set (keys_of provider p). \<not> ke_revoked e \<and> ke_quota e \<le> 0 \<and> ke_cooldown_expiry e \<le> 0"
    "\<forall>(m, r) \<in> set calls. 0 \<le> m" "keys_of provider p \<noteq> []"
  shows "map snd (fst (get_keys provider calls p)) =
    map (\<lambda>i. Some (ke_key (keys_of provider p ! ((dict_get_default (kp_indices p) provider 0 + i) mod length (keys_of provider p)))))
      [0..<length calls]"
  using assms
proof (induction calls arbitrary: p)
  case Nil
  then show ?case by simp
next
  case (Cons call calls)
  obtain m r where call: "call = (m, r)" by fastforce
  let ?ks = "keys_of provider p" and ?n = "length (keys_of provider p)"
  let ?s = "dict_get_default (kp_indices p) provider 0"
  have n: "0 < ?n" using Cons.prems(3) by simp
  have free: "usable m r e" if "e \<in> set ?ks" for e
    using Cons.prems(1,2) that by (fastforce simp: usable_def call)
  obtain res ks' where run: "pick_key m r ?s [0..<?n] ?ks = (res, ks')" by fastforce
  have "[0..<?n] = 0 # [1..<?n]" using n by (simp add: upt_conv_Cons)
  then have res: "res = Some (?s mod ?n)"
    using pick_key_find [OF Cons.prems(3), of m r ?s "[0..<?n]"] run free n by simp
  define p1 where "p1 = (put_keys provider ks' p)\<lparr>kp_indices := dict_set provider ((?s mod ?n + 1) mod ?n) (kp_indices p)\<rparr>"
  have step: "get_key provider m r p = (Some (ke_key (?ks ! (?s mod ?n))), p1)"
    using Cons.prems(3) run res by (simp add: get_key_def p1_def Let_def)
  have idx: "dict_get_default (kp_indices p1) provider 0 = (?s mod ?n + 1) mod ?n"
    by (simp add: p1_def dict_get_default_def dict_simps)
  have len: "length (keys_of provider p1) = ?n" using get_key_entries [OF step] by simp
  note same = get_key_fields [OF step]
  have "\<not> ke_revoked e \<and> ke_quota e \<le> 0 \<and> ke_cooldown_expiry e \<le> 0" if "e \<in> set (keys_of provider p1)" for e
    using that Cons.prems(1) len same nth_mem by (metis in_set_conv_nth)
  moreover have "\<forall>(m, r) \<in> set calls. 0 \<le> m" "keys_of provider p1 \<noteq> []" using Cons.prems(2) n len by auto
  ultimately have IH: "map snd (fst (get_keys provider calls p1)) =
      map (\<lambda>i. Some (ke_key (?ks ! ((?s + Suc i) mod ?n)))) [0..<length calls]"
    using Cons.IH [of p1] n by (simp add: len idx same mod_simps)
  have "map f [0..<length (call # calls)] = f 0 # map (\<lambda>i. f (Suc i)) [0..<length calls]" for f :: "nat \<Rightarrow> pystr option"
    using map_upt_Suc [of f "length calls"] by simp
  then show ?case using IH by (simp add: call step case_prod_unfold del: upt_Suc)
qed

definition two_key_pool :: key_pool where
  "two_key_pool = add_key_in_memory (u ''kimi'') (u ''b'') None 0 False
     (add_key_in_memory (u ''kimi'') (u ''a'') None 0 False empty_pool)"

lemma keys_rotate_witness:
  "map snd (fst (get_keys (u ''kimi'') [(0, 0), (0, 0), (0, 0)] two_key_pool)) = [Some (u ''a''), Some (u ''b''), Some (u ''a'')]"
proof -
  have ks: "map ke_key (keys_of (u ''kimi'') two_key_pool) = [u ''a'', u ''b'']" by code_simp
  have "keys_of (u ''kimi'') two_key_pool \<noteq> []" using ks by auto
  moreover have "list_all (\<lambda>e. \<not> ke_revoked e \<and> ke_quota e \<le> 0 \<and> ke_cooldown_expiry e \<le> 0) (keys_of (u ''kimi'') two_key_pool)"
    by code_simp
  moreover have "dict_get_default (kp_indices two_key_pool) (u ''kimi'') 0 = 0" by code_simp
  ultimately have "map snd (fst (get_keys (u ''kimi'') [(0, 0), (0, 0), (0, 0)] two_key_pool)) =
      map (\<lambda>i. Some (map ke_key (keys_of (u ''kimi'') two_key_pool) ! (i mod 2))) [0..<3]"
    using keys_rotate [of "u ''kimi''" two_key_pool "[(0, 0), (0, 0), (0, 0)]"] ks
    by (auto simp: list_all_iff upt_rec)
  then show ?thesis by (simp add: ks upt_rec)
qed

section \<open>The pool's invariant\<close>

text \<open>No provider is kept without a key, and no key is kept twice.\<close>

definition provider_keys_ok :: "key_entry list \<Rightarrow> bool" where
  "provider_keys_ok ks \<longleftrightarrow> ks \<noteq> [] \<and> distinct (map ke_key ks)"

definition pool_ok :: "key_pool \<Rightarrow> bool" where
  "pool_ok p \<longleftrightarrow> dict_wf (kp_db p) \<and> (\<forall>ks \<in> set (dict_values (kp_db p)). provider_keys_ok ks)"

datatype pool_op =
    Add_Key pystr pystr "pystr option" int bool
  | Remove_Key pystr pystr
  | Get_Key pystr rat rat
  | Report_429 pystr pystr rat rat
  | Report_Success pystr pystr
  | Check_Cooldown pystr pystr rat
  | Show_Status rat rat
  | Toggle_Revoke pystr int
  | Update_Meta pystr int pystr int
  | Remove_By_Hash pystr int

fun pool_step :: "(pystr \<Rightarrow> int) \<Rightarrow> pool_op \<Rightarrow> key_pool \<Rightarrow> key_pool" where
  "pool_step hash (Add_Key pr k a q rv) p = add_key_in_memory pr k a q rv p"
| "pool_step hash (Remove_Key pr k) p = remove_key pr k p"
| "pool_step hash (Get_Key pr m r) p = snd (get_key pr m r p)"
| "pool_step hash (Report_429 pr k d m) p = report_429 pr k d m p"
| "pool_step hash (Report_Success pr k) p = report_success pr k p"
| "pool_step hash (Check_Cooldown pr k m) p = snd (is_on_cooldown pr k m p)"
| "pool_step hash (Show_Status m r) p = snd (get_all_keys_status hash m r p)"
| "pool_step hash (Toggle_Revoke pr h) p = snd (toggle_revoke_key hash pr h p)"
| "pool_step hash (Update_Meta pr h a q) p = snd (update_key_meta hash pr h a q p)"
| "pool_step hash (Remove_By_Hash pr h) p = snd (remove_key_by_hash hash pr h p)"

lemma dict_set_subset: "set (dict_set k w d) \<subseteq> insert (k, w) (set d)"
  by (induction d) auto

lemma pool_ok_put: "pool_ok p \<Longrightarrow> provider_keys_ok ks \<Longrightarrow> pool_ok (put_keys provider ks p)"
  using dict_set_subset [of provider ks "kp_db p"] by (fastforce simp: pool_ok_def put_keys_def dict_simps)

lemma dict_pop_subset: "set (dict_pop k d) \<subseteq> set d"
  by (induction d) auto

lemma pool_ok_drop: "pool_ok p \<Longrightarrow> pool_ok (drop_provider provider p)"
  using dict_pop_subset [of provider "kp_db p"] by (fastforce simp: pool_ok_def drop_provider_def dict_simps)

lemma pool_ok_indices [simp]: "pool_ok (p\<lparr>kp_indices := x\<rparr>) = pool_ok p"
  by (simp add: pool_ok_def)

lemma pool_ok_keys:
  assumes "pool_ok p"
  shows "keys_of provider p = [] \<or> provider_keys_ok (keys_of provider p)"
  using assms dict_get_in_set [of "kp_db p" provider]
  by (force simp: pool_ok_def keys_of_def dict_get_default_def split: option.splits)

lemma pool_ok_distinct: "pool_ok p \<Longrightarrow> distinct (map ke_key (keys_of provider p))"
  using pool_ok_keys [of p provider] by (auto simp: provider_keys_ok_def)

lemma map_update_first: "\<forall>e. g (f e) = g e \<Longrightarrow> map g (update_first P f ks) = map g ks"
  by (induction ks) auto

lemma provider_keys_update:
  assumes "provider_keys_ok ks" "\<forall>e. ke_key (f e) = ke_key e"
  shows "provider_keys_ok (update_first P f ks)"
proof -
  have "map ke_key (update_first P f ks) = map ke_key ks" by (rule map_update_first [OF assms(2)])
  then show ?thesis using assms(1) by (metis list.map_disc_iff provider_keys_ok_def)
qed

lemma pool_ok_on_key:
  assumes ok: "pool_ok p" and f: "\<forall>e. ke_key (f e) = ke_key e"
  shows "pool_ok (on_key provider P f p)"
proof (cases "dict_get (kp_db p) provider")
  case None
  then show ?thesis using ok by (simp add: on_key_def)
next
  case (Some ks)
  then have "provider_keys_ok ks" "keys_of provider p = ks"
    using ok dict_get_in_set [OF Some] by (force simp: pool_ok_def keys_of_def dict_get_default_def)+
  then show ?thesis using Some provider_keys_update [OF _ f] by (simp add: on_key_def pool_ok_put [OF ok])
qed

lemma pool_ok_add: "pool_ok p \<Longrightarrow> pool_ok (add_key_in_memory provider key a q rv p)"
proof -
  assume ok: "pool_ok p"
  let ?ks = "keys_of provider p"
  have d: "distinct (map ke_key ?ks)" by (rule pool_ok_distinct [OF ok])
  show ?thesis
  proof (cases "\<exists>e \<in> set ?ks. ke_key e = key")
    case True
    then have "provider_keys_ok ?ks" using d by (auto simp: provider_keys_ok_def)
    then show ?thesis using True
      by (simp add: add_key_in_memory_def Let_def pool_ok_put [OF ok] provider_keys_update)
  next
    case False
    then show ?thesis using d
      by (auto simp: add_key_in_memory_def Let_def provider_keys_ok_def intro!: pool_ok_put [OF ok])
  qed
qed

lemma pool_ok_get: "pool_ok p \<Longrightarrow> pool_ok (snd (get_key provider m r p))"
proof -
  assume ok: "pool_ok p"
  let ?ks = "keys_of provider p" and ?s = "dict_get_default (kp_indices p) provider 0"
  show ?thesis
  proof (cases "?ks = []")
    case False
    obtain res ks' where run: "pick_key m r ?s [0..<length ?ks] ?ks = (res, ks')" by fastforce
    obtain k p' where step: "get_key provider m r p = (k, p')" by fastforce
    have ks': "keys_of provider p' = ks'" "pool_ok p' = pool_ok (put_keys provider ks' p)"
      using False run step by (auto simp: get_key_def Let_def split: option.splits)
    have "map ke_key ks' = map ke_key ?ks" using get_key_key_list [OF step] ks' by simp
    then show ?thesis
      using ok False pool_ok_distinct [OF ok] ks' step by (auto simp: provider_keys_ok_def intro!: pool_ok_put)
  qed (use ok in \<open>simp add: get_key_def\<close>)
qed

lemma remove_first_subset: "set (remove_first P ks) \<subseteq> set ks"
  by (induction ks) auto

lemma distinct_remove_first: "distinct (map g ks) \<Longrightarrow> distinct (map g (remove_first P ks))"
  using remove_first_subset by (induction ks) (simp, fastforce)

lemma pool_ok_status: "pool_ok p \<Longrightarrow> pool_ok (snd (get_all_keys_status hash m r p))"
  by (auto simp: pool_ok_def get_all_keys_status_def Let_def provider_keys_ok_def comp_def prune_entry_def
      case_prod_unfold image_iff)

lemma pool_step_ok: "pool_ok p \<Longrightarrow> pool_ok (pool_step hash op p)"
proof (induction hash op p rule: pool_step.induct)
  case (2 hash pr k p)
  then show ?case
    using pool_ok_distinct [OF 2, of pr]
    by (auto simp: remove_key_def Let_def provider_keys_ok_def distinct_map_filter intro!: pool_ok_put pool_ok_drop)
next
  case (10 hash pr h p)
  then show ?case
    using pool_ok_distinct [OF 10, of pr]
    by (auto simp: remove_key_by_hash_def Let_def provider_keys_ok_def intro!: pool_ok_put pool_ok_drop distinct_remove_first)
qed (auto simp: report_429_def report_success_def is_on_cooldown_def toggle_revoke_key_def update_key_meta_def
      intro!: pool_ok_on_key pool_ok_add pool_ok_get pool_ok_status split: option.splits)

text \<open>
  Whatever is loaded at start and whatever the requests and the administrator do,
  no key occurs twice in a provider's rotation and no provider stays listed without a key.
\<close>

theorem pool_invariant:
  "pool_ok (fold (pool_step hash) ops (KeyPool_init dec configured env saved))"
proof -
  have scan: "pool_ok p \<Longrightarrow> pool_ok (scan_env_keys env p)" for p
  proof (induction env p rule: scan_env_keys.induct)
    case (2 name val env p)
    show ?case unfolding scan_env_keys.simps by (rule "2.IH") (auto intro: pool_ok_add 2 split: option.split)
  qed simp
  have load: "pool_ok p \<Longrightarrow> pool_ok (load_persisted_keys dec saved p)" for p
    by (induction saved arbitrary: p) (auto simp: Let_def intro: pool_ok_add)
  have keys: "pool_ok p \<Longrightarrow> pool_ok (fold (\<lambda>k. add_key_in_memory pr k None 0 False) ks p)" for pr ks p
    by (induction ks arbitrary: p) (auto intro: pool_ok_add)
  have "pool_ok p \<Longrightarrow> pool_ok (fold (\<lambda>(pr, ks). fold (\<lambda>k. add_key_in_memory pr k None 0 False) ks) configured p)" for p
    by (induction configured arbitrary: p) (auto intro: keys)
  moreover have "pool_ok empty_pool" by (simp add: pool_ok_def empty_pool_def)
  ultimately have "pool_ok (KeyPool_init dec configured env saved)"
    unfolding KeyPool_init_def by (intro load scan)
  then show ?thesis
    by (induction ops arbitrary: hash rule: rev_induct) (auto intro: pool_step_ok)
qed

section \<open>Cool-downs\<close>

lemma get_keys_cooling:
  assumes "\<forall>e \<in> set (keys_of provider p). ke_key e = key \<longrightarrow> limit \<le> ke_cooldown_expiry e"
    "\<forall>(m, r) \<in> set calls. m < limit"
  shows "\<forall>(r, k) \<in> set (fst (get_keys provider calls p)). k \<noteq> Some key"
  using assms
proof (induction calls arbitrary: p)
  case (Cons call calls)
  obtain m r where call: "call = (m, r)" by fastforce
  obtain k p1 where step: "get_key provider m r p = (k, p1)" by fastforce
  note entries = get_key_entries [OF step] and same = get_key_fields [OF step]
  have "k \<noteq> Some key" using entries Cons.prems by (fastforce simp: call usable_def)
  moreover have "\<forall>e \<in> set (keys_of provider p1). ke_key e = key \<longrightarrow> limit \<le> ke_cooldown_expiry e"
    using Cons.prems(1) entries same by (metis in_set_conv_nth)
  ultimately show ?case using Cons.IH [of p1] Cons.prems(2) by (auto simp: call step split: prod.splits)
qed simp

lemma update_first_keys:
  assumes "distinct (map ke_key ks)" "\<forall>e. ke_key (f e) = ke_key e" "e \<in> set (update_first (\<lambda>e. ke_key e = key) f ks)" "ke_key e = key"
  shows "\<exists>e0. e = f e0"
  using assms(1,3,4) by (induction ks) (force split: if_splits)+

text \<open>
  Once a key was answered with 429, no call before its cool-down is over returns it,
  however often it is asked for in between.
\<close>

theorem cooldown_respected:
  assumes "pool_ok p" "\<forall>(m, r) \<in> set calls. m < t + duration"
  shows "\<forall>(r, k) \<in> set (fst (get_keys provider calls (report_429 provider key duration t p))). k \<noteq> Some key"
proof (rule get_keys_cooling [OF _ assms(2)])
  show "\<forall>e \<in> set (keys_of provider (report_429 provider key duration t p)). ke_key e = key \<longrightarrow> t + duration \<le> ke_cooldown_expiry e"
  proof (cases "dict_get (kp_db p) provider")
    case None
    then show ?thesis by (simp add: report_429_def on_key_def keys_of_def dict_get_default_def)
  next
    case (Some ks)
    then have "keys_of provider p = ks" by (simp add: keys_of_def dict_get_default_def)
    then show ?thesis
      using Some update_first_keys [of ks "\<lambda>e. e\<lparr>ke_cooldown_expiry := t + duration\<rparr>" _ key] pool_ok_distinct [OF assms(1), of provider]
      by (fastforce simp: report_429_def on_key_def)
  qed
qed

lemma cooldown_respected_witness:
  "Some (u ''a'') \<notin> set (map snd (fst (get_keys (u ''kimi'') [(61, 1), (62, 2)]
     (report_429 (u ''kimi'') (u ''a'') 60 5 two_key_pool))))"
proof -
  have "pool_ok two_key_pool" unfolding two_key_pool_def
    by (intro pool_ok_add) (simp add: pool_ok_def empty_pool_def)
  from cooldown_respected [OF this, of "[(61, 1), (62, 2)]" 5 60 "u ''kimi''" "u ''a''"] show ?thesis by auto
qed

section \<open>Saving and loading\<close>

text \<open>What survives a restart: everything but the run-time fields.\<close>

definition at_rest :: "key_entry \<Rightarrow> key_entry" where
  "at_rest e = e\<lparr>ke_request_times := [], ke_cooldown_expiry := 0\<rparr>"

definition saveable :: "(pystr \<Rightarrow> pystr) \<Rightarrow> (pystr \<Rightarrow> pystr option) \<Rightarrow> key_entry \<Rightarrow> bool" where
  "saveable enc dec e \<longleftrightarrow> ke_key e \<noteq> [] \<and> ke_alias e \<noteq> [] \<and> enc (ke_key e) \<noteq> [] \<and> dec (enc (ke_key e)) = Some (ke_key e)"

lemma add_new_key:
  assumes "key \<notin> ke_key ` set (keys_of provider p)" "a \<noteq> []"
  shows "add_key_in_memory provider key (Some a) q rv p =
    put_keys provider (keys_of provider p @ [\<lparr>ke_key = key, ke_alias = a, ke_revoked = rv, ke_quota = q,
       ke_request_times = [], ke_cooldown_expiry = 0\<rparr>]) p"
  using assms by (auto simp: add_key_in_memory_def Let_def)

lemma put_twice [simp]: "put_keys provider ks (put_keys provider ks' p) = put_keys provider ks p"
  by (simp add: put_keys_def)

text \<open>Loading the items of one provider appends them to its keys.\<close>

lemma load_append: "load_persisted_keys dec (xs @ ys) p = load_persisted_keys dec ys (load_persisted_keys dec xs p)"
  by (induction xs arbitrary: p) auto

lemma load_saved_item:
  assumes "saveable enc dec e" "provider \<noteq> []" "ke_key e \<notin> ke_key ` set (keys_of provider p)"
  shows "load_persisted_keys dec (saved_item enc provider e # items) p =
    load_persisted_keys dec items (put_keys provider (keys_of provider p @ [at_rest e]) p)"
proof -
  have "\<lparr>ke_key = ke_key e, ke_alias = ke_alias e, ke_revoked = ke_revoked e, ke_quota = ke_quota e,
      ke_request_times = [], ke_cooldown_expiry = 0\<rparr> = at_rest e"
    by (simp add: at_rest_def)
  then show ?thesis
    using assms add_new_key [OF assms(3), of "ke_alias e" "ke_quota e" "ke_revoked e"]
    by (simp add: saveable_def saved_item_def encrypt_key_def decrypt_key_def)
qed

lemma load_provider:
  assumes "\<forall>e \<in> set ks. saveable enc dec e" "provider \<noteq> []"
    "distinct (map ke_key (keys_of provider p) @ map ke_key ks)" "ks \<noteq> []"
  shows "load_persisted_keys dec (map (saved_item enc provider) ks) p = put_keys provider (keys_of provider p @ map at_rest ks) p"
  using assms
proof (induction ks arbitrary: p)
  case (Cons e ks)
  let ?p1 = "put_keys provider (keys_of provider p @ [at_rest e]) p"
  have first: "load_persisted_keys dec (map (saved_item enc provider) (e # ks)) p =
      load_persisted_keys dec (map (saved_item enc provider) ks) ?p1"
    using load_saved_item [of enc dec e provider p] Cons.prems by auto
  show ?case
  proof (cases "ks = []")
    case False
    have key: "ke_key (at_rest e) = ke_key e" by (simp add: at_rest_def)
    have "distinct (map ke_key (keys_of provider ?p1) @ map ke_key ks)" using Cons.prems(3) by (simp add: key)
    then show ?thesis using Cons.IH [of ?p1] Cons.prems(1,2) False unfolding first by simp
  next
    case True
    then show ?thesis using load_saved_item [of enc dec e provider p "[]"] Cons.prems by auto
  qed
qed simp

lemma load_db:
  "\<forall>(provider, ks) \<in> set db. provider \<noteq> [] \<and> provider_keys_ok ks \<and> (\<forall>e \<in> set ks. saveable enc dec e) \<Longrightarrow>
     dict_wf (done_db @ db) \<Longrightarrow>
     load_persisted_keys dec (concat (map (\<lambda>(provider, ks). map (saved_item enc provider) ks) db))
       \<lparr>kp_db = done_db, kp_indices = []\<rparr> =
     \<lparr>kp_db = done_db @ map (\<lambda>(provider, ks). (provider, map at_rest ks)) db, kp_indices = []\<rparr>"
proof (induction db arbitrary: done_db)
  case (Cons entry db)
  obtain provider ks where entry: "entry = (provider, ks)" by fastforce
  let ?p = "\<lparr>kp_db = done_db, kp_indices = []\<rparr>"
  have new: "provider \<notin> fst ` set done_db" using Cons.prems(2) by (auto simp: entry)
  then have none: "keys_of provider ?p = []"
    using dict_get_None_iff [of done_db provider] by (simp add: keys_of_def dict_get_default_def)
  have "load_persisted_keys dec (map (saved_item enc provider) ks) ?p = put_keys provider (map at_rest ks) ?p"
    using load_provider [of ks enc dec provider ?p] Cons.prems(1) none by (auto simp: entry provider_keys_ok_def)
  also have "\<dots> = \<lparr>kp_db = done_db @ [(provider, map at_rest ks)], kp_indices = []\<rparr>"
    using dict_set_new [OF new] by (simp add: put_keys_def)
  finally show ?case
    using Cons.IH [of "done_db @ [(provider, map at_rest ks)]"] Cons.prems by (simp add: entry load_append)
qed simp

text \<open>
  A pool whose keys decrypt to themselves is restored from its file with the same
  providers, keys, aliases, quotas and revocations in the same order; cool-downs and request
  times start afresh.
\<close>

theorem saved_pool_restored:
  assumes "pool_ok p" "\<forall>(provider, ks) \<in> set (kp_db p). provider \<noteq> [] \<and> (\<forall>e \<in> set ks. saveable enc dec e)"
  shows "kp_db (load_persisted_keys dec (save_persisted_keys enc p) empty_pool) =
    map (\<lambda>(provider, ks). (provider, map at_rest ks)) (kp_db p)"
  using load_db [of "kp_db p" enc dec "[]"] assms
  by (fastforce simp: pool_ok_def empty_pool_def save_persisted_keys_def)

lemma saved_pool_restored_witness:
  "kp_db (load_persisted_keys (\<lambda>c. Some (map (\<lambda>x. x - 1) c)) (save_persisted_keys (map Suc) two_key_pool) empty_pool) =
    map (\<lambda>(provider, ks). (provider, map at_rest ks)) (kp_db two_key_pool)"
proof (rule saved_pool_restored)
  show "pool_ok two_key_pool" unfolding two_key_pool_def
    by (intro pool_ok_add) (simp add: pool_ok_def empty_pool_def)
  have "list_all (\<lambda>(provider, ks). provider \<noteq> [] \<and> list_all (saveable (map Suc) (\<lambda>c. Some (map (\<lambda>x. x - 1) c))) ks) (kp_db two_key_pool)"
    by code_simp
  then show "\<forall>(provider, ks) \<in> set (kp_db two_key_pool). provider \<noteq> [] \<and>
      (\<forall>e \<in> set ks. saveable (map Suc) (\<lambda>c. Some (map (\<lambda>x. x - 1) c)) e)"
    by (auto simp: list_all_iff)
qed

text \<open>A key without a quota keeps every request time: nothing prunes them between status calls.\<close>

lemma unlimited_key_times_grow:
  "length (ke_request_times (hd (keys_of (u ''kimi'') (snd (get_keys (u ''kimi'') [(0, 0), (0, 10000), (0, 20000), (0, 30000)]
     (add_key_in_memory (u ''kimi'') (u ''a'') None 0 False empty_pool)))))) = 4"
  by code_simp

end
