(* ===== verification/RequestQueue.thy ===== *)
theory RequestQueue
  imports PyJson "HOL-Library.Multiset" "HOL-Library.Product_Lexorder"
begin

text \<open>
  The request queue (\<open>core/reliability/request_queue.py\<close>): per provider an
  \<open>asyncio.PriorityQueue\<close> of (negated priority, sequence number, request), with a future per
  request.  Each operation runs under the queue's lock and is one atomic step.
\<close>

section \<open>What a priority queue promises\<close>

locale priority_queue =
  fixes put :: "'a \<Rightarrow> 'q \<Rightarrow> 'q"
    and take :: "'q \<Rightarrow> ('a \<times> 'q) option"
    and items :: "'q \<Rightarrow> 'a multiset"
    and rank :: "'a \<Rightarrow> 'b::linorder"
  assumes items_put: "items (put x q) = add_mset x (items q)"
    and take_none: "take q = None \<longleftrightarrow> items q = {#}"
    and take_some: "take q = Some (x, q') \<Longrightarrow>
      x \<in># items q \<and> items q' = items q - {#x#} \<and> (\<forall>y \<in># items q. rank x \<le> rank y)"
begin

text \<open>Items come out in the order of their ranks, each once.\<close>

lemma takes_sorted:
  assumes "take q = Some (x, q')" "take q' = Some (y, q'')"
  shows "rank x \<le> rank y"
proof -
  have "y \<in># items q'" "items q' = items q - {#x#}" using take_some assms by blast+
  then have "y \<in># items q" by (metis in_diffD)
  then show ?thesis using take_some [OF assms(1)] by blast
qed

lemma take_size: "take q = Some (x, q') \<Longrightarrow> size (items q) = Suc (size (items q'))"
  by (metis size_Suc_Diff1 take_some)

lemma take_after_put: "take (put x q) \<noteq> None"
  by (simp add: take_none items_put)

text \<open>An item that outranks all others is next.\<close>

lemma take_least:
  assumes "x \<in># items q" "\<forall>y \<in># items q. y \<noteq> x \<longrightarrow> rank x < rank y"
  shows "\<exists>q'. take q = Some (x, q')"
proof -
  have "take q \<noteq> None" using assms(1) take_none [of q] by auto
  then obtain y q' where "take q = Some (y, q')" by auto
  then show ?thesis using take_some assms by (metis not_le)
qed

end

section \<open>The code's state and operations\<close>

datatype future = Pending | Done | Cancelled

record queued_request =
  qr_provider :: pystr
  qr_payload :: json
  qr_priority :: int
  qr_future :: nat

type_synonym queue_item = "int \<times> nat \<times> queued_request"

record request_queue =
  rq_queues :: "(pystr, queue_item list) dict"
  rq_counter :: nat
  rq_futures :: "(nat, future) dict"

definition RequestQueue_init :: request_queue where
  "RequestQueue_init = \<lparr>rq_queues = [], rq_counter = 0, rq_futures = []\<rparr>"

text \<open>
  \<open>asyncio.PriorityQueue\<close>: \<open>put\<close>, and \<open>get\<close> of the least tuple; sequence numbers differ, so the
  requests themselves are never compared.
\<close>

definition item_rank :: "queue_item \<Rightarrow> int \<times> nat" where
  "item_rank x = (fst x, fst (snd x))"

definition pq_put :: "queue_item \<Rightarrow> queue_item list \<Rightarrow> queue_item list" where
  "pq_put x q = q @ [x]"

definition pq_get :: "queue_item list \<Rightarrow> (queue_item \<times> queue_item list) option" where
  "pq_get q = (if q = [] then None else let x = arg_min_list item_rank q in Some (x, remove1 x q))"

definition queue_of :: "pystr \<Rightarrow> request_queue \<Rightarrow> queue_item list" where
  "queue_of provider q = dict_get_default (rq_queues q) provider []"

text \<open>A request's future is a fresh one, numbered like the request.\<close>

definition enqueue :: "pystr \<Rightarrow> json \<Rightarrow> int \<Rightarrow> request_queue \<Rightarrow> queued_request \<times> request_queue" where
  "enqueue provider payload priority q =
     (let counter = rq_counter q + 1;
          req = \<lparr>qr_provider = provider, qr_payload = payload, qr_priority = priority, qr_future = counter\<rparr>
      in (req, q\<lparr>rq_queues := dict_set provider (pq_put (- priority, counter, req) (queue_of provider q)) (rq_queues q),
                 rq_counter := counter, rq_futures := dict_set counter Pending (rq_futures q)\<rparr>))"

definition dequeue :: "pystr \<Rightarrow> request_queue \<Rightarrow> queued_request option \<times> request_queue" where
  "dequeue provider q =
     (case pq_get (queue_of provider q) of
        None \<Rightarrow> (None, q)
      | Some ((_, _, req), rest) \<Rightarrow> (Some req, q\<lparr>rq_queues := dict_set provider rest (rq_queues q)\<rparr>))"

definition queue_size :: "pystr option \<Rightarrow> request_queue \<Rightarrow> nat" where
  "queue_size provider q =
     (case provider of Some p \<Rightarrow> length (queue_of p q) | None \<Rightarrow> sum_list (map length (dict_values (rq_queues q))))"

lemma pq_get_shorter: "pq_get q = Some (x, q') \<Longrightarrow> length q' < length q"
proof -
  assume get: "pq_get q = Some (x, q')"
  then have "q \<noteq> []" "x \<in> set q" "q' = remove1 x q"
    using arg_min_list_in [of q item_rank] by (auto simp: pq_get_def Let_def split: if_splits)
  then show ?thesis by (simp add: length_remove1)
qed

text \<open>\<open>clear\<close> empties each queue in its order, cancelling the futures that are not done.\<close>

definition cancel_future :: "nat \<Rightarrow> (nat, future) dict \<Rightarrow> (nat, future) dict" where
  "cancel_future f fs = (case dict_get fs f of Some Pending \<Rightarrow> dict_set f Cancelled fs | _ \<Rightarrow> fs)"

function drain_queue :: "queue_item list \<Rightarrow> (nat, future) dict \<Rightarrow> (nat, future) dict" where
  "drain_queue items fs =
     (case pq_get items of
        None \<Rightarrow> fs
      | Some ((_, _, req), rest) \<Rightarrow> drain_queue rest (cancel_future (qr_future req) fs))"
  by pat_completeness auto

termination
  by (relation "measure (\<lambda>(items, fs). length items)") (auto dest: pq_get_shorter)

declare drain_queue.simps [simp del]

definition clear_queues :: "request_queue \<Rightarrow> request_queue" where
  "clear_queues q = q\<lparr>rq_queues := [], rq_futures := fold drain_queue (dict_values (rq_queues q)) (rq_futures q)\<rparr>"

text \<open>A caller settles the future of a request it has dequeued.\<close>

definition settle :: "nat \<Rightarrow> request_queue \<Rightarrow> request_queue" where
  "settle f q = q\<lparr>rq_futures := dict_set f Done (rq_futures q)\<rparr>"

interpretation pq: priority_queue pq_put pq_get mset item_rank
proof
  fix x q
  show "mset (pq_put x q) = add_mset x (mset q)" by (simp add: pq_put_def)
next
  fix q
  show "pq_get q = None \<longleftrightarrow> mset q = {#}" by (simp add: pq_get_def Let_def)
next
  fix q x q'
  assume "pq_get q = Some (x, q')"
  then have "q \<noteq> []" "x = arg_min_list item_rank q" "q' = remove1 x q"
    by (auto simp: pq_get_def Let_def split: if_splits)
  then show "x \<in># mset q \<and> mset q' = mset q - {#x#} \<and> (\<forall>y \<in># mset q. item_rank x \<le> item_rank y)"
    using arg_min_list_in [of q item_rank] f_arg_min_list_f [of q item_rank] by auto
qed

section \<open>Highest priority first, first come first served\<close>

text \<open>The requests that wait for a provider, in the order they arrived.\<close>

definition waiting :: "pystr \<Rightarrow> request_queue \<Rightarrow> queued_request list" where
  "waiting provider q = map (snd \<circ> snd) (queue_of provider q)"

definition items_ok :: "nat \<Rightarrow> queue_item list \<Rightarrow> bool" where
  "items_ok n items \<longleftrightarrow> sorted_wrt (<) (map (fst \<circ> snd) items) \<and>
     (\<forall>(p, c, r) \<in> set items. p = - qr_priority r \<and> c \<le> n \<and> qr_future r = c)"

definition queue_ok :: "request_queue \<Rightarrow> bool" where
  "queue_ok q \<longleftrightarrow> dict_wf (rq_queues q) \<and> (\<forall>items \<in> set (dict_values (rq_queues q)). items_ok (rq_counter q) items)"

lemma queue_ok_items: "queue_ok q \<Longrightarrow> items_ok (rq_counter q) (queue_of provider q)"
  by (cases "dict_get (rq_queues q) provider")
    (auto simp: queue_ok_def queue_of_def dict_get_default_def items_ok_def dest!: dict_get_in_set)

lemma items_ok_mono: "items_ok n items \<Longrightarrow> n \<le> m \<Longrightarrow> items_ok m items"
  by (fastforce simp: items_ok_def)

lemma sorted_wrt_remove1: "sorted_wrt (<) (map f xs) \<Longrightarrow> sorted_wrt (<) (map f (remove1 x xs))"
  for f :: "'a \<Rightarrow> nat"
  by (induction xs) (auto dest: notin_set_remove1 set_remove1_subset [THEN subsetD])

lemma items_ok_remove: "items_ok n items \<Longrightarrow> items_ok n (remove1 x items)"
  using set_remove1_subset [of x items] by (auto simp: items_ok_def sorted_wrt_remove1 simp del: map_map)

lemma dict_set_in: "(k, v) \<in> set (dict_set a b d) \<Longrightarrow> (k, v) = (a, b) \<or> (k, v) \<in> set d"
  by (induction d) (auto split: if_splits)

lemma queue_ok_set:
  assumes "queue_ok q" "items_ok m items" "rq_counter q \<le> m" "rq_queues q' = dict_set provider items (rq_queues q)" "rq_counter q' = m"
  shows "queue_ok q'"
  using assms items_ok_mono [of "rq_counter q" _ m]
  by (auto simp: queue_ok_def dict_simps dest!: dict_set_in)

lemma enqueue_ok: "queue_ok q \<Longrightarrow> queue_ok (snd (enqueue provider payload priority q))"
proof -
  assume ok: "queue_ok q"
  have "items_ok (rq_counter q + 1) (pq_put (- priority, rq_counter q + 1, \<lparr>qr_provider = provider, qr_payload = payload,
      qr_priority = priority, qr_future = rq_counter q + 1\<rparr>) (queue_of provider q))"
    using queue_ok_items [OF ok, of provider]
    by (fastforce simp: items_ok_def pq_put_def sorted_wrt_append)
  then show ?thesis by (rule queue_ok_set [OF ok]) (simp_all add: enqueue_def Let_def)
qed

lemma dequeue_ok: "queue_ok q \<Longrightarrow> queue_ok (snd (dequeue provider q))"
proof -
  assume ok: "queue_ok q"
  show ?thesis
  proof (cases "pq_get (queue_of provider q)")
    case (Some r)
    then obtain a c req rest where r: "pq_get (queue_of provider q) = Some ((a, c, req), rest)" by (cases r) auto
    then have "items_ok (rq_counter q) rest"
      using items_ok_remove [OF queue_ok_items [OF ok]] by (auto simp: pq_get_def Let_def split: if_splits)
    then show ?thesis using r by (intro queue_ok_set [OF ok, of _ rest]) (simp_all add: dequeue_def)
  qed (use ok in \<open>simp add: dequeue_def\<close>)
qed

lemma clear_ok: "queue_ok (clear_queues q)"
  by (simp add: queue_ok_def clear_queues_def)

lemma settle_ok: "queue_ok q \<Longrightarrow> queue_ok (settle f q)"
  by (simp add: queue_ok_def settle_def)

lemmas queue_ops_ok = enqueue_ok dequeue_ok clear_ok settle_ok

text \<open>With increasing sequence numbers, the least item is the first of the stable order by priority.\<close>

lemma stable_by_rank:
  assumes "items_ok n items"
  shows "sort_key item_rank items = sort_key fst items"
proof (rule sym, rule properties_for_sort_key)
  let ?ys = "sort_key item_rank items"
  show "mset ?ys = mset items" by simp
  show "sorted (map fst ?ys)"
  proof -
    have "sorted (map item_rank ?ys)" by simp
    then show ?thesis by (auto simp: sorted_wrt_map item_rank_def elim!: sorted_wrt_mono_rel [rotated])
  qed
  fix k :: queue_item
  let ?P = "\<lambda>x :: queue_item. fst k = fst x"
  have "sorted_wrt (<) (map (fst \<circ> snd) (filter ?P items))"
    using assms by (auto simp: items_ok_def sorted_wrt_map sorted_wrt_filter)
  then have "sorted (map item_rank (filter ?P items))"
    unfolding sorted_wrt_map by (rule sorted_wrt_mono_rel [rotated]) (auto simp: item_rank_def)
  then show "filter ?P ?ys = filter ?P items" by (simp add: filter_sort sort_key_id_if_sorted)
qed

lemma arg_min_hd: "items \<noteq> [] \<Longrightarrow> inj_on f (set items) \<Longrightarrow> arg_min_list f items = hd (sort_key f items)"
proof -
  assume ne: "items \<noteq> []" and inj: "inj_on f (set items)"
  let ?x = "arg_min_list f items" and ?y = "hd (sort_key f items)"
  obtain y ys where y: "sort_key f items = y # ys"
    using ne by (metis list.exhaust length_0_conv length_sort)
  then have "y \<in> set items" by (metis list.set_intros(1) set_sort)
  have "sorted (map f (y # ys))" using sorted_sort_key [of f items] y by simp
  then have le: "f y \<le> f z" if "z \<in> set items" for z
    using that y set_sort [of f items] by auto
  have x: "?x \<in> set items" "f ?x = Min (f ` set items)"
    using arg_min_list_in [OF ne] f_arg_min_list_f [OF ne] by auto
  then have "f ?x \<le> f y" "f y \<le> f ?x" using \<open>y \<in> set items\<close> le [OF x(1)] by simp_all
  then have "?x = y" using inj x(1) \<open>y \<in> set items\<close> by (meson antisym inj_onD)
  then show ?thesis by (simp add: y)
qed

lemma sort_key_map: "sort_key g (map f xs) = map f (sort_key (\<lambda>x. g (f x)) xs)"
proof -
  have "insort_key g (f x) (map f ys) = map f (insort_key (\<lambda>x. g (f x)) x ys)" for x ys
    by (induction ys) auto
  then show ?thesis by (induction xs) auto
qed

lemma sort_key_same: "\<forall>x \<in> set xs. f x = g x \<Longrightarrow> sort_key f xs = sort_key g xs"
proof (induction xs)
  case (Cons x xs)
  have "insort_key f x ys = insort_key g x ys" if "\<forall>y \<in> set ys. f y = g y" for ys
    using that Cons.prems by (induction ys) auto
  then show ?case using Cons by simp
qed simp

lemma items_inj: "items_ok n items \<Longrightarrow> inj_on item_rank (set items)"
proof (rule inj_onI)
  fix x y
  assume ok: "items_ok n items" and xy: "x \<in> set items" "y \<in> set items" "item_rank x = item_rank y"
  have "distinct (map (fst \<circ> snd) items)"
    using ok unfolding items_ok_def strict_sorted_iff by blast
  then have "inj_on (fst \<circ> snd) (set items)" unfolding distinct_map by blast
  moreover have "(fst \<circ> snd) x = (fst \<circ> snd) y" using xy(3) by (simp add: item_rank_def)
  ultimately show "x = y" using xy(1,2) by (meson inj_onD)
qed

lemma waiting_sorted:
  assumes "items_ok n items"
  shows "sort_key (\<lambda>r. - qr_priority r) (map (snd \<circ> snd) items) = map (snd \<circ> snd) (sort_key item_rank items)"
proof -
  have "sort_key (\<lambda>x. - qr_priority ((snd \<circ> snd) x)) items = sort_key fst items"
    by (rule sort_key_same) (use assms in \<open>auto simp: items_ok_def\<close>)
  then show ?thesis by (simp add: sort_key_map stable_by_rank [OF assms] del: map_map)
qed

text \<open>
  C27 (functional): \<open>dequeue\<close> hands out, of the requests waiting for a provider, the first of the
  stable order by descending priority: the highest priority, and the oldest among equals; it
  takes exactly that request away, and is \<open>None\<close> when nobody waits.
\<close>

theorem dequeue_by_priority:
  assumes "queue_ok q" "dequeue provider q = (r, q')"
  shows "r = (case sort_key (\<lambda>r. - qr_priority r) (waiting provider q) of [] \<Rightarrow> None | r # rs \<Rightarrow> Some r) \<and>
    mset (waiting provider q) = (case r of None \<Rightarrow> {#} | Some x \<Rightarrow> add_mset x (mset (waiting provider q')))"
proof (cases "queue_of provider q = []")
  case True
  then show ?thesis using assms(2) by (auto simp: dequeue_def waiting_def pq_get_def)
next
  case False
  let ?items = "queue_of provider q"
  have ok: "items_ok (rq_counter q) ?items" by (rule queue_ok_items [OF assms(1)])
  let ?x = "arg_min_list item_rank ?items"
  have x: "?x = hd (sort_key item_rank ?items)" "?x \<in> set ?items"
    using arg_min_hd [OF False items_inj [OF ok]] arg_min_list_in [OF False, of item_rank] by simp_all
  have get: "pq_get ?items = Some (?x, remove1 ?x ?items)" using False by (simp add: pq_get_def Let_def)
  then have r: "r = Some (snd (snd ?x))" "queue_of provider q' = remove1 ?x ?items"
    using assms(2) by (auto simp: dequeue_def queue_of_def dict_get_default_def dict_simps split: prod.splits)
  obtain y ys where "sort_key item_rank ?items = y # ys"
    using False by (metis list.exhaust length_0_conv length_sort)
  then have "sort_key (\<lambda>r. - qr_priority r) (waiting provider q) = snd (snd ?x) # map (snd \<circ> snd) ys"
    using waiting_sorted [OF ok] x(1) by (simp add: waiting_def)
  moreover have "mset (waiting provider q) = add_mset (snd (snd ?x)) (mset (waiting provider q'))"
    unfolding waiting_def r(2) mset_map mset_remove1 using x(2)
    by (metis comp_apply image_mset_add_mset insert_DiffM set_mset_mset)
  ultimately show ?thesis by (simp add: r(1))
qed

definition busy_queue :: request_queue where
  "busy_queue =
     snd (enqueue (u ''kimi'') (JInt 3) 5 (snd (enqueue (u ''kimi'') (JInt 2) 5 (snd (enqueue (u ''kimi'') (JInt 1) 0 RequestQueue_init)))))"

lemma busy_queue_ok: "queue_ok busy_queue"
  unfolding busy_queue_def by (intro enqueue_ok) (simp add: queue_ok_def RequestQueue_init_def)

lemma dequeue_by_priority_witness:
  "fst (dequeue (u ''kimi'') busy_queue) =
     (case sort_key (\<lambda>r. - qr_priority r) (waiting (u ''kimi'') busy_queue) of [] \<Rightarrow> None | r # rs \<Rightarrow> Some r) \<and>
   mset (waiting (u ''kimi'') busy_queue) = (case fst (dequeue (u ''kimi'') busy_queue) of None \<Rightarrow> {#}
     | Some x \<Rightarrow> add_mset x (mset (waiting (u ''kimi'') (snd (dequeue (u ''kimi'') busy_queue)))))"
  by (rule dequeue_by_priority [OF busy_queue_ok]) simp

lemma busy_queue_served: "map_option qr_payload (fst (dequeue (u ''kimi'') busy_queue)) = Some (JInt 2)"
  by code_simp

text \<open>What arrives is waiting last, and only for its provider.\<close>

lemma enqueue_waits:
  "enqueue provider payload priority q = (r, q') \<Longrightarrow>
     waiting p q' = (if p = provider then waiting p q @ [r] else waiting p q)"
  by (auto simp: enqueue_def Let_def waiting_def queue_of_def dict_get_default_def dict_simps pq_put_def)

lemma size_waiting: "queue_size (Some provider) q = length (waiting provider q)"
  by (simp add: queue_size_def waiting_def)

section \<open>Clearing\<close>

lemma drain_queue_futures:
  "dict_get (drain_queue items fs) f =
     (if \<exists>x \<in> set items. qr_future (snd (snd x)) = f
      then (if dict_get fs f = Some Pending then Some Cancelled else dict_get fs f) else dict_get fs f)"
proof (induction items fs rule: drain_queue.induct)
  case (1 items fs)
  show ?case
  proof (cases "pq_get items")
    case None
    then have "items = []" by (simp add: pq.take_none)
    then show ?thesis by (simp add: drain_queue.simps [of "[]"] pq_get_def)
  next
    case (Some r)
    then obtain a c req rest where r: "pq_get items = Some ((a, c, req), rest)" by (cases r) auto
    have "mset items = add_mset (a, c, req) (mset rest)"
      using pq.take_some [OF r] by (metis insert_DiffM)
    then have "set items = insert (a, c, req) (set rest)" by (metis set_mset_add_mset_insert set_mset_mset)
    then show ?thesis
      using "1.IH" [OF r refl refl refl] r
      by (auto simp: drain_queue.simps [of items] cancel_future_def dict_simps split: option.splits future.splits)
  qed
qed

text \<open>
  \<open>clear\<close> leaves no request waiting, cancels the pending future of every request
  that was waiting for any provider, and touches no other future.
\<close>

theorem clear_cancels_waiting:
  "waiting p (clear_queues q) = [] \<and>
   dict_get (rq_futures (clear_queues q)) f =
     (if dict_get (rq_futures q) f = Some Pending \<and>
         (\<exists>items \<in> set (dict_values (rq_queues q)). \<exists>x \<in> set items. qr_future (snd (snd x)) = f)
      then Some Cancelled else dict_get (rq_futures q) f)"
proof -
  have "dict_get (fold drain_queue qs fs) f =
      (if dict_get fs f = Some Pending \<and> (\<exists>items \<in> set qs. \<exists>x \<in> set items. qr_future (snd (snd x)) = f)
       then Some Cancelled else dict_get fs f)" for qs fs
  proof (induction qs arbitrary: fs)
    case (Cons items qs)
    let ?mine = "\<exists>x \<in> set items. qr_future (snd (snd x)) = f"
    show ?case
    proof (cases "dict_get fs f = Some Pending \<and> ?mine")
      case True
      then have "dict_get (drain_queue items fs) f = Some Cancelled" by (simp add: drain_queue_futures)
      then show ?thesis using Cons.IH [of "drain_queue items fs"] True by simp
    next
      case False
      then have "dict_get (drain_queue items fs) f = dict_get fs f"
        unfolding drain_queue_futures by (simp split: if_splits)
      then show ?thesis using Cons.IH [of "drain_queue items fs"] False by simp
    qed
  qed simp
  then show ?thesis by (simp add: clear_queues_def waiting_def queue_of_def dict_get_default_def)
qed

end
