(* ===== verification/Dedup.thy ===== *)
theory Dedup
  imports Prelude
begin

text \<open>
  The request deduplicator (\<open>core/reliability/dedup.py\<close>): identical requests in flight share one
  coroutine and one future.  Callers, background tasks and the loop interleave at the awaits, so
  the component is a step relation: what runs between two awaits is one step.
\<close>

section \<open>State and steps\<close>

datatype 'a settled = Pending | Result 'a | Failure py_exn | Cancelled

datatype phase = Running | Leaving

text \<open>
  How a coroutine ends: with a value, with an \<open>Exception\<close>, or with a \<open>BaseException\<close> such as
  \<open>CancelledError\<close>, which \<open>except Exception\<close> does not catch.
\<close>

datatype 'a outcome = Value 'a | Raised py_exn | Aborted

text \<open>
  Futures are numbered; a task is the future it resolves, its key and whether the coroutine still
  runs or the \<open>finally\<close> clause is due; \<open>dd_waits\<close> is who awaits which future.
\<close>

record 'a dedup =
  dd_in_flight :: "(pystr, nat) dict"
  dd_futures :: "(nat, 'a settled) dict"
  dd_tasks :: "(nat, pystr \<times> phase) dict"
  dd_waits :: "(nat \<times> nat) list"
  dd_next :: nat

definition RequestDeduplicator :: "'a dedup" where
  "RequestDeduplicator = \<lparr>dd_in_flight = [], dd_futures = [], dd_tasks = [], dd_waits = [], dd_next = 0\<rparr>"

text \<open>\<open>execute\<close> up to \<open>await fut\<close>.\<close>

definition execute :: "nat \<Rightarrow> pystr \<Rightarrow> 'a dedup \<Rightarrow> 'a dedup" where
  "execute caller key s =
     (case dict_get (dd_in_flight s) key of
        Some fut \<Rightarrow> s\<lparr>dd_waits := (caller, fut) # dd_waits s\<rparr>
      | None \<Rightarrow>
          let fut = dd_next s in
          s\<lparr>dd_in_flight := dict_set key fut (dd_in_flight s), dd_futures := dict_set fut Pending (dd_futures s),
            dd_tasks := dict_set fut (key, Running) (dd_tasks s), dd_waits := (caller, fut) # dd_waits s,
            dd_next := Suc fut\<rparr>)"

text \<open>
  \<open>_run_and_resolve\<close> when its coroutine ends.  Settling a future that is already cancelled raises
  \<open>InvalidStateError\<close> in both branches and leaves it as it is.
\<close>

definition resolve :: "'a outcome \<Rightarrow> 'a settled \<Rightarrow> 'a settled" where
  "resolve out f =
     (case f of
        Pending \<Rightarrow> (case out of Value v \<Rightarrow> Result v | Raised e \<Rightarrow> Failure e | Aborted \<Rightarrow> Pending)
      | _ \<Rightarrow> f)"

definition finish :: "nat \<Rightarrow> 'a outcome \<Rightarrow> pystr \<Rightarrow> 'a settled \<Rightarrow> 'a dedup \<Rightarrow> 'a dedup" where
  "finish fut out key f s =
     s\<lparr>dd_futures := dict_set fut (resolve out f) (dd_futures s), dd_tasks := dict_set fut (key, Leaving) (dd_tasks s)\<rparr>"

text \<open>The \<open>finally\<close> clause.\<close>

definition leave :: "nat \<Rightarrow> pystr \<Rightarrow> 'a dedup \<Rightarrow> 'a dedup" where
  "leave fut key s =
     s\<lparr>dd_in_flight := (if dict_get (dd_in_flight s) key = Some fut then dict_pop key (dd_in_flight s) else dd_in_flight s),
       dd_tasks := dict_pop fut (dd_tasks s)\<rparr>"

text \<open>A waiting task that is cancelled cancels the future it awaits.\<close>

definition cancel_waiter :: "nat \<Rightarrow> 'a settled \<Rightarrow> 'a dedup \<Rightarrow> 'a dedup" where
  "cancel_waiter fut f s = s\<lparr>dd_futures := dict_set fut (if f = Pending then Cancelled else f) (dd_futures s)\<rparr>"

datatype 'a dd_event = Execute nat pystr | Finish nat "'a outcome" | Leave nat | Cancel_Waiter nat

inductive dedup_step :: "'a dedup \<Rightarrow> 'a dd_event \<Rightarrow> 'a dedup \<Rightarrow> bool" where
  Step_Execute: "dedup_step s (Execute caller key) (execute caller key s)"
| Step_Finish: "dict_get (dd_tasks s) fut = Some (key, Running) \<Longrightarrow> dict_get (dd_futures s) fut = Some f \<Longrightarrow>
    dedup_step s (Finish fut out) (finish fut out key f s)"
| Step_Leave: "dict_get (dd_tasks s) fut = Some (key, Leaving) \<Longrightarrow> dedup_step s (Leave fut) (leave fut key s)"
| Step_Cancel: "(caller, fut) \<in> set (dd_waits s) \<Longrightarrow> dict_get (dd_futures s) fut = Some f \<Longrightarrow>
    dedup_step s (Cancel_Waiter caller) (cancel_waiter fut f s)"

inductive_cases dedup_stepE:
  "dedup_step s (Execute caller key) s'" "dedup_step s (Finish fut out) s'" "dedup_step s (Leave fut) s'"
  "dedup_step s (Cancel_Waiter caller) s'"

inductive dedup_runs :: "'a dedup \<Rightarrow> 'a dd_event list \<Rightarrow> 'a dedup \<Rightarrow> bool" where
  Runs_Nil: "dedup_runs s [] s"
| Runs_Snoc: "dedup_runs s evs s1 \<Longrightarrow> dedup_step s1 ev s2 \<Longrightarrow> dedup_runs s (evs @ [ev]) s2"

named_theorems dedup_defs \<open>the effects of the steps\<close>

declare execute_def [dedup_defs] finish_def [dedup_defs] leave_def [dedup_defs] cancel_waiter_def [dedup_defs]
  Let_def [dedup_defs]

section \<open>One coroutine per key\<close>

text \<open>
  The requests in flight are exactly the tasks, by key; futures and tasks are numbered below the
  next number; who waits, waits on a future there is.
\<close>

definition tracked :: "(pystr, nat) dict \<Rightarrow> (nat, pystr \<times> phase) dict \<Rightarrow> bool" where
  "tracked fl ts \<longleftrightarrow> (\<forall>key fut. dict_get fl key = Some fut \<longleftrightarrow> (\<exists>ph. dict_get ts fut = Some (key, ph)))"

definition numbered :: "'a dedup \<Rightarrow> bool" where
  "numbered s \<longleftrightarrow>
     (\<forall>fut. dict_get (dd_futures s) fut \<noteq> None \<longleftrightarrow> fut < dd_next s) \<and>
     (\<forall>fut. dict_get (dd_tasks s) fut \<noteq> None \<longrightarrow> fut < dd_next s) \<and>
     (\<forall>(caller, fut) \<in> set (dd_waits s). fut < dd_next s)"

definition dedup_ok :: "'a dedup \<Rightarrow> bool" where
  "dedup_ok s \<longleftrightarrow> tracked (dd_in_flight s) (dd_tasks s) \<and> numbered s"

lemma tracked_start:
  "tracked fl ts \<Longrightarrow> dict_get ts fut = None \<Longrightarrow> dict_get fl key = None \<Longrightarrow>
     tracked (dict_set key fut fl) (dict_set fut (key, ph) ts)"
  unfolding tracked_def by (simp add: dict_simps) (metis option.distinct(1))

lemma tracked_phase:
  "tracked fl ts \<Longrightarrow> dict_get ts fut = Some (key, ph) \<Longrightarrow> tracked fl (dict_set fut (key, ph') ts)"
  unfolding tracked_def by (auto simp: dict_simps)

lemma tracked_stop:
  assumes "tracked fl ts" "dict_get ts fut = Some (key, ph)"
  shows "dict_get fl key = Some fut" "tracked (dict_pop key fl) (dict_pop fut ts)"
proof -
  show here: "dict_get fl key = Some fut" using assms unfolding tracked_def by blast
  show "tracked (dict_pop key fl) (dict_pop fut ts)"
    unfolding tracked_def
  proof (intro allI)
    fix k g
    have "dict_get fl k = Some g \<longleftrightarrow> (\<exists>ph. dict_get ts g = Some (k, ph))" using assms(1) unfolding tracked_def by blast
    then show "dict_get (dict_pop key fl) k = Some g \<longleftrightarrow> (\<exists>ph. dict_get (dict_pop fut ts) g = Some (k, ph))"
      using assms(2) here by (auto simp: dict_simps)
  qed
qed

lemma numbered_step: "dedup_step s ev s' \<Longrightarrow> numbered s \<Longrightarrow> tracked (dd_in_flight s) (dd_tasks s) \<Longrightarrow> numbered s'"
proof (induction rule: dedup_step.induct)
  case (Step_Execute s caller key)
  show ?case
  proof (cases "dict_get (dd_in_flight s) key")
    case None
    then show ?thesis using Step_Execute unfolding numbered_def by (auto simp: dedup_defs dict_simps less_Suc_eq)
  next
    case (Some fut)
    then obtain ph where "dict_get (dd_tasks s) fut = Some (key, ph)" using Step_Execute unfolding tracked_def by blast
    then have "fut < dd_next s" using Step_Execute unfolding numbered_def by fastforce
    then show ?thesis using Step_Execute Some unfolding numbered_def by (auto simp: dedup_defs)
  qed
next
  case (Step_Finish s fut key f out)
  then have "fut < dd_next s" unfolding numbered_def by fastforce
  then show ?case using Step_Finish unfolding numbered_def by (auto simp: dedup_defs dict_simps)
next
  case (Step_Leave s fut key)
  then show ?case unfolding numbered_def by (auto simp: dedup_defs dict_simps)
next
  case (Step_Cancel caller fut s f)
  then have "fut < dd_next s" unfolding numbered_def by fastforce
  then show ?case using Step_Cancel unfolding numbered_def by (auto simp: dedup_defs dict_simps)
qed

lemma dedup_step_ok: "dedup_step s ev s' \<Longrightarrow> dedup_ok s \<Longrightarrow> dedup_ok s'"
proof -
  assume step: "dedup_step s ev s'" and ok: "dedup_ok s"
  then have tr: "tracked (dd_in_flight s) (dd_tasks s)" and num: "numbered s" by (auto simp: dedup_ok_def)
  have "tracked (dd_in_flight s') (dd_tasks s')"
    using step tr num
  proof (induction rule: dedup_step.induct)
    case (Step_Execute s caller key)
    have "dict_get (dd_tasks s) (dd_next s) = None"
      using Step_Execute(2) unfolding numbered_def by (metis less_irrefl)
    then show ?case
      using Step_Execute(1) tracked_start by (auto simp: dedup_defs split: option.split)
  next
    case (Step_Finish s fut key f out)
    then show ?case by (auto simp: dedup_defs intro: tracked_phase)
  next
    case (Step_Leave s fut key)
    then show ?case using tracked_stop [OF Step_Leave(2,1)] by (simp add: dedup_defs)
  next
    case (Step_Cancel caller fut s f)
    then show ?case by (simp add: dedup_defs)
  qed
  then show "dedup_ok s'" using numbered_step [OF step num tr] by (simp add: dedup_ok_def)
qed

lemma dedup_runs_ok: "dedup_runs s evs s' \<Longrightarrow> dedup_ok s \<Longrightarrow> dedup_ok s'"
  by (induction rule: dedup_runs.induct) (auto intro: dedup_step_ok)

lemma dedup_init_ok: "dedup_ok RequestDeduplicator"
  by (simp add: dedup_ok_def tracked_def numbered_def RequestDeduplicator_def)

text \<open>
  C26 (invariant): at every moment of every interleaving at most one task, and so at most one
  coroutine, exists per key.
\<close>

theorem single_flight:
  assumes "dedup_runs RequestDeduplicator evs s" "dict_get (dd_tasks s) f1 = Some (key, ph1)"
    "dict_get (dd_tasks s) f2 = Some (key, ph2)"
  shows "f1 = f2"
proof -
  have "dedup_ok s" by (rule dedup_runs_ok [OF assms(1) dedup_init_ok])
  then have "tracked (dd_in_flight s) (dd_tasks s)" by (simp add: dedup_ok_def)
  then show ?thesis using tracked_stop(1) assms(2,3) by (metis option.inject)
qed

section \<open>What the waiters get\<close>

definition explained :: "'a dd_event list \<Rightarrow> 'a dedup \<Rightarrow> bool" where
  "explained evs s \<longleftrightarrow>
     (\<forall>fut f. dict_get (dd_futures s) fut = Some f \<longrightarrow>
       (case f of
          Pending \<Rightarrow> (\<exists>key. dict_get (dd_tasks s) fut = Some (key, Running)) \<or> Finish fut Aborted \<in> set evs
        | Result v \<Rightarrow> Finish fut (Value v) \<in> set evs
        | Failure e \<Rightarrow> Finish fut (Raised e) \<in> set evs
        | Cancelled \<Rightarrow> (\<exists>caller. Cancel_Waiter caller \<in> set evs)))"

lemma explained_step:
  "dedup_step s ev s' \<Longrightarrow> dedup_ok s \<Longrightarrow> explained evs s \<Longrightarrow> explained (evs @ [ev]) s'"
proof (induction rule: dedup_step.induct)
  case (Step_Execute s caller key)
  then show ?case
    unfolding explained_def
    by (auto simp: dedup_defs dict_simps split: option.splits settled.splits)
next
  case (Step_Finish s fut key f out)
  then show ?case
    unfolding explained_def resolve_def
    by (auto simp: dedup_defs resolve_def dict_simps split: settled.splits outcome.splits)
next
  case (Step_Leave s fut key)
  have "dict_get (dd_futures s) fut \<noteq> Some Pending \<or> Finish fut Aborted \<in> set evs"
    using Step_Leave unfolding explained_def by fastforce
  then show ?case
    using Step_Leave unfolding explained_def
    by (auto simp: dedup_defs dict_simps split: settled.splits)
next
  case (Step_Cancel caller fut s f)
  then show ?case
    unfolding explained_def by (auto simp: dedup_defs dict_simps split: settled.splits)
qed

lemma explained_runs: "dedup_runs s evs s' \<Longrightarrow> s = RequestDeduplicator \<Longrightarrow> explained evs s'"
proof (induction rule: dedup_runs.induct)
  case (Runs_Nil s)
  then show ?case by (simp add: explained_def RequestDeduplicator_def)
next
  case (Runs_Snoc s evs s1 ev s2)
  then show ?case using explained_step dedup_runs_ok dedup_init_ok by metis
qed

text \<open>Runs can be computed, step by step.\<close>

definition dedup_next :: "'a dd_event \<Rightarrow> 'a dedup \<Rightarrow> 'a dedup option" where
  "dedup_next ev s =
     (case ev of
        Execute caller key \<Rightarrow> Some (execute caller key s)
      | Finish fut out \<Rightarrow>
          (case (dict_get (dd_tasks s) fut, dict_get (dd_futures s) fut) of
             (Some (key, Running), Some f) \<Rightarrow> Some (finish fut out key f s)
           | _ \<Rightarrow> None)
      | Leave fut \<Rightarrow>
          (case dict_get (dd_tasks s) fut of Some (key, Leaving) \<Rightarrow> Some (leave fut key s) | _ \<Rightarrow> None)
      | Cancel_Waiter caller \<Rightarrow>
          (case dict_get (dd_waits s) caller of
             Some fut \<Rightarrow> map_option (\<lambda>f. cancel_waiter fut f s) (dict_get (dd_futures s) fut)
           | None \<Rightarrow> None))"

fun dedup_exec :: "'a dd_event list \<Rightarrow> 'a dedup \<Rightarrow> 'a dedup option" where
  "dedup_exec [] s = Some s"
| "dedup_exec (ev # evs) s = (case dedup_next ev s of None \<Rightarrow> None | Some s1 \<Rightarrow> dedup_exec evs s1)"

lemma dedup_next_step: "dedup_next ev s = Some s' \<Longrightarrow> dedup_step s ev s'"
  by (auto simp: dedup_next_def intro: dedup_step.intros dest: map_of_SomeD
      split: dd_event.splits option.splits prod.splits phase.splits)

lemma dedup_exec_runs: "dedup_exec evs s = Some s' \<Longrightarrow> dedup_runs s0 evs0 s \<Longrightarrow> dedup_runs s0 (evs0 @ evs) s'"
proof (induction evs arbitrary: s evs0)
  case (Cons ev evs)
  then obtain s1 where "dedup_next ev s = Some s1" "dedup_exec evs s1 = Some s'" by (auto split: option.splits)
  then show ?case
    using Cons.IH [of s1 "evs0 @ [ev]"] Runs_Snoc [OF Cons.prems(2) dedup_next_step] by simp
qed simp

lemma dedup_execI: "dedup_exec evs s = Some s' \<Longrightarrow> dedup_runs s evs s'"
  using dedup_exec_runs [OF _ Runs_Nil] by fastforce

text \<open>
  A result or a failure a waiter receives is the one its coroutine produced, and
  a waiter only sees a cancellation when some waiter was cancelled.
\<close>

theorem waiters_share_outcome:
  assumes "dedup_runs RequestDeduplicator evs s" "dict_get (dd_futures s) fut = Some f"
  shows "case f of
      Pending \<Rightarrow> (\<exists>key. dict_get (dd_tasks s) fut = Some (key, Running)) \<or> Finish fut Aborted \<in> set evs
    | Result v \<Rightarrow> Finish fut (Value v) \<in> set evs
    | Failure e \<Rightarrow> Finish fut (Raised e) \<in> set evs
    | Cancelled \<Rightarrow> (\<exists>caller. Cancel_Waiter caller \<in> set evs)"
  using explained_runs [OF assms(1) refl] assms(2) unfolding explained_def by blast

definition shared_run :: "nat dd_event list" where
  "shared_run = [Execute 1 (u ''k''), Execute 2 (u ''k''), Finish 0 (Value 7), Execute 3 (u ''k''), Leave 0, Execute 4 (u ''k'')]"

definition after_shared_run :: "nat dedup" where
  "after_shared_run = the (dedup_exec shared_run RequestDeduplicator)"

lemma shared_run_runs: "dedup_runs RequestDeduplicator shared_run after_shared_run"
proof -
  have "dedup_exec shared_run RequestDeduplicator \<noteq> None" by code_simp
  then show ?thesis unfolding after_shared_run_def by (intro dedup_execI) auto
qed

lemma waiters_share_outcome_witness: "dict_get (dd_futures after_shared_run) 0 = Some (Result 7) \<and> Finish 0 (Value 7) \<in> set shared_run"
proof -
  have f: "dict_get (dd_futures after_shared_run) 0 = Some (Result 7)" by code_simp
  then show ?thesis using waiters_share_outcome [OF shared_run_runs f] by simp
qed

lemma single_flight_witness: "{f. \<exists>ph. dict_get (dd_tasks after_shared_run) f = Some (u ''k'', ph)} = {1}"
proof -
  have one: "dict_get (dd_tasks after_shared_run) 1 = Some (u ''k'', Running)" by code_simp
  have "f = 1" if "dict_get (dd_tasks after_shared_run) f = Some (u ''k'', ph)" for f ph
    using single_flight [OF shared_run_runs that one] .
  then show ?thesis using one by blast
qed

text \<open>Callers 1, 2 and 3 share the first future, caller 4 starts a second coroutine.\<close>

lemma shared_run_waits: "dd_waits after_shared_run = [(4, 1), (3, 0), (2, 0), (1, 0)]"
  by code_simp

text \<open>
  As long as no coroutine is torn down by a \<open>BaseException\<close>, nobody waits in vain:
  every awaited future is settled or its coroutine still runs.
\<close>

theorem no_lost_waiter:
  assumes "dedup_runs RequestDeduplicator evs s" "\<forall>fut. Finish fut Aborted \<notin> set evs" "(caller, fut) \<in> set (dd_waits s)"
  shows "\<exists>f. dict_get (dd_futures s) fut = Some f \<and> (f \<noteq> Pending \<or> (\<exists>key. dict_get (dd_tasks s) fut = Some (key, Running)))"
proof -
  have "dedup_ok s" by (rule dedup_runs_ok [OF assms(1) dedup_init_ok])
  then obtain f where f: "dict_get (dd_futures s) fut = Some f"
    using assms(3) unfolding dedup_ok_def numbered_def by fastforce
  then show ?thesis
    using explained_runs [OF assms(1) refl] assms(2) unfolding explained_def by (fastforce split: settled.splits)
qed

lemma no_lost_waiter_witness:
  "dict_get (dd_futures after_shared_run) 1 = Some Pending \<and> (\<exists>key. dict_get (dd_tasks after_shared_run) 1 = Some (key, Running))"
proof -
  have "\<forall>fut. Finish fut Aborted \<notin> set shared_run" by (simp add: shared_run_def)
  moreover have "(4, 1) \<in> set (dd_waits after_shared_run)" by (simp add: shared_run_waits)
  moreover have "dict_get (dd_futures after_shared_run) 1 = Some Pending" by code_simp
  ultimately show ?thesis using no_lost_waiter [OF shared_run_runs, of 4 1] by simp
qed

text \<open>Cancelling one of two waiters cancels the other's future too, and the result is lost.\<close>

lemma cancelled_together:
  "map_option (\<lambda>s. (dict_get (dd_waits s) 2, dict_get (dd_futures s) 0))
     (dedup_exec [Execute 1 (u ''k''), Execute 2 (u ''k''), Cancel_Waiter 1, Finish 0 (Value (7 :: nat)), Leave 0] RequestDeduplicator) =
   Some (Some 0, Some Cancelled)"
  by code_simp

text \<open>A coroutine that ends with a \<open>BaseException\<close> leaves its waiters pending for ever.\<close>

lemma aborted_leaves_pending:
  "map_option (\<lambda>s. (dict_get (dd_waits s) 1, dict_get (dd_futures s) 0, dd_tasks s))
     (dedup_exec [Execute 1 (u ''k''), Finish 0 (Aborted :: nat outcome), Leave 0] RequestDeduplicator) =
   Some (Some 0, Some Pending, [])"
  by code_simp

end
