(* ===== verification/Cache.thy ===== *)
theory Cache
  imports Complex_Main PyJson "HOL-Library.List_Lexorder"
begin

text \<open>
  The response cache (\<open>core/reliability/cache.py\<close>): an \<open>OrderedDict\<close> from request digests to
  response chunks with expiry, exact and semantic look-up, and eviction of the least recently
  used entry.  SHA-256, \<open>str.lower\<close> and the Unicode test behind \<open>\\w\<close> are arguments, the clock
  reading too.
\<close>

section \<open>Words and their similarity\<close>

definition STOP_WORDS :: "pystr list" where
  "STOP_WORDS = map u [''the'', ''a'', ''an'', ''and'', ''or'', ''but'', ''is'', ''are'', ''was'', ''were'', ''to'', ''for'',
     ''in'', ''on'', ''at'', ''by'', ''of'', ''with'', ''from'', ''that'', ''this'', ''these'', ''those'', ''then'', ''it'',
     ''he'', ''she'', ''they'', ''we'', ''i'']"

text \<open>\<open>re.findall(r"\\w+", s)\<close>: the maximal runs of word characters.\<close>

fun word_runs :: "(nat \<Rightarrow> bool) \<Rightarrow> pystr \<Rightarrow> pystr \<Rightarrow> pystr list" where
  "word_runs word acc [] = (if acc = [] then [] else [rev acc])"
| "word_runs word acc (c # s) =
     (if word c then word_runs word (c # acc) s
      else (if acc = [] then [] else [rev acc]) @ word_runs word [] s)"

definition get_words :: "(nat \<Rightarrow> bool) \<Rightarrow> (pystr \<Rightarrow> pystr) \<Rightarrow> pystr \<Rightarrow> pystr list" where
  "get_words word lower text_in = filter (\<lambda>w. w \<notin> set STOP_WORDS) (word_runs word [] (lower text_in))"

definition word_counts :: "pystr list \<Rightarrow> (pystr, nat) dict" where
  "word_counts ws = fold (\<lambda>w v. dict_set w (dict_get_default v w 0 + 1) v) ws []"

definition dot_product :: "pystr list \<Rightarrow> pystr list \<Rightarrow> nat" where
  "dot_product words1 words2 =
     (let vec1 = word_counts words1; vec2 = word_counts words2
      in sum_list (map (\<lambda>(w, n). n * dict_get_default vec2 w 0) vec1))"

definition square_sum :: "pystr list \<Rightarrow> nat" where
  "square_sum ws = sum_list (map (\<lambda>(w, n). n ^ 2) (word_counts ws))"

definition cosine_similarity :: "pystr list \<Rightarrow> pystr list \<Rightarrow> real" where
  "cosine_similarity words1 words2 =
     (if words1 = [] \<or> words2 = [] then 0
      else let denominator = sqrt (square_sum words1) * sqrt (square_sum words2)
           in if denominator = 0 then 0 else dot_product words1 words2 / denominator)"

text \<open>The comparison with the threshold, without square roots.\<close>

definition similar_enough :: "rat \<Rightarrow> pystr list \<Rightarrow> pystr list \<Rightarrow> bool" where
  "similar_enough threshold words1 words2 \<longleftrightarrow>
     threshold \<le> 0 \<or>
     (words1 \<noteq> [] \<and> words2 \<noteq> [] \<and> square_sum words1 * square_sum words2 \<noteq> 0 \<and>
      threshold ^ 2 * rat_of_nat (square_sum words1 * square_sum words2) \<le> rat_of_nat (dot_product words1 words2) ^ 2)"

section \<open>The cache\<close>

record cache_entry =
  ce_chunks :: "pystr list"
  ce_expires_at :: rat
  ce_prompt_words :: "pystr list"
  ce_raw_request :: json

record response_cache =
  rc_ttl :: int
  rc_semantic_threshold :: rat
  rc_max_size :: int
  rc_cache :: "(pystr, cache_entry) dict"

record cache_env =
  ce_sha256 :: "pystr \<Rightarrow> pystr"
  ce_word :: "nat \<Rightarrow> bool"
  ce_lower :: "pystr \<Rightarrow> pystr"

definition ResponseCache :: "int \<Rightarrow> rat \<Rightarrow> int \<Rightarrow> response_cache" where
  "ResponseCache ttl semantic_threshold max_size =
     \<lparr>rc_ttl = ttl, rc_semantic_threshold = semantic_threshold, rc_max_size = max_size, rc_cache = []\<rparr>"

text \<open>\<open>json.dumps(\<dots>, sort_keys=True)\<close> sorts the keys of every object.\<close>

fun sort_keys :: "json \<Rightarrow> json" where
  "sort_keys (JArr xs) = JArr (map sort_keys xs)"
| "sort_keys (JObj d) = JObj (sort_key fst (map (\<lambda>(k, v). (k, sort_keys v)) d))"
| "sort_keys j = j"

definition normalized_request :: "json \<Rightarrow> json" where
  "normalized_request request =
     JObj (map (\<lambda>k. (u k, jget (u k) request)) [''model'', ''messages'', ''system'', ''tools'', ''temperature'', ''max_tokens''])"

definition generate_exact_key :: "cache_env \<Rightarrow> json \<Rightarrow> pystr" where
  "generate_exact_key env request = ce_sha256 env (json_dumps (sort_keys (normalized_request request)))"

text \<open>The text of the parts of a message; joining a \<open>text\<close> that is not a string raises.\<close>

fun text_parts :: "json list \<Rightarrow> py_exn + pystr list" where
  "text_parts [] = Inr []"
| "text_parts (part # parts) =
     (if is_dict part \<and> jget (u ''type'') part = JStr (u ''text'') then
        (case jget_default (u ''text'') (JStr []) part of
           JStr t \<Rightarrow> (case text_parts parts of Inl e \<Rightarrow> Inl e | Inr ts \<Rightarrow> Inr (t # ts))
         | _ \<Rightarrow> (case text_parts parts of Inl e \<Rightarrow> Inl e | Inr ts \<Rightarrow> Inl TypeError))
      else text_parts parts)"

definition message_text :: "json \<Rightarrow> py_exn + pystr" where
  "message_text m =
     (case jget (u ''content'') m of
        JArr parts \<Rightarrow> (case text_parts parts of Inl e \<Rightarrow> Inl e | Inr ts \<Rightarrow> Inr (str_join (u '' '') ts))
      | JStr t \<Rightarrow> Inr t
      | _ \<Rightarrow> Inr [])"

fun last_user_text :: "json list \<Rightarrow> py_exn + pystr" where
  "last_user_text [] = Inr []"
| "last_user_text (m # ms) =
     (if \<not> is_dict m then Inl AttributeError
      else if jget (u ''role'') m = JStr (u ''user'') then message_text m else last_user_text ms)"

definition extract_prompt_text :: "json \<Rightarrow> py_exn + pystr" where
  "extract_prompt_text request =
     (case jget_default (u ''messages'') (JArr []) request of
        JArr ms \<Rightarrow> last_user_text (rev ms)
      | j \<Rightarrow> if truthy j then Inl TypeError else Inr [])"

definition move_to_end :: "'k \<Rightarrow> ('k, 'v) dict \<Rightarrow> ('k, 'v) dict" where
  "move_to_end k d = (case dict_get d k of None \<Rightarrow> d | Some v \<Rightarrow> dict_pop k d @ [(k, v)])"

text \<open>The semantic pass over a snapshot of the entries.\<close>

fun semantic_scan ::
    "rat \<Rightarrow> rat \<Rightarrow> pystr list \<Rightarrow> json \<Rightarrow> (pystr, cache_entry) dict \<Rightarrow> (pystr, cache_entry) dict \<Rightarrow>
     pystr list option \<times> (pystr, cache_entry) dict" where
  "semantic_scan threshold now target model [] d = (None, d)"
| "semantic_scan threshold now target model ((k, e) # entries) d =
     (if ce_expires_at e \<le> now then semantic_scan threshold now target model entries (dict_pop k d)
      else if jget (u ''model'') (ce_raw_request e) \<noteq> model then semantic_scan threshold now target model entries d
      else if similar_enough threshold target (ce_prompt_words e) then (Some (ce_chunks e), move_to_end k d)
      else semantic_scan threshold now target model entries d)"

definition semantic_get ::
    "cache_env \<Rightarrow> rat \<Rightarrow> json \<Rightarrow> response_cache \<Rightarrow> (py_exn + pystr list option) \<times> response_cache" where
  "semantic_get env now request c =
     (case extract_prompt_text request of
        Inl e \<Rightarrow> (Inl e, c)
      | Inr prompt_text \<Rightarrow>
          if prompt_text = [] then (Inr None, c)
          else case semantic_scan (rc_semantic_threshold c) now (get_words (ce_word env) (ce_lower env) prompt_text)
                      (jget (u ''model'') request) (rc_cache c) (rc_cache c) of
                 (r, d) \<Rightarrow> (Inr r, c\<lparr>rc_cache := d\<rparr>))"

definition cache_get ::
    "cache_env \<Rightarrow> rat \<Rightarrow> bool \<Rightarrow> json \<Rightarrow> response_cache \<Rightarrow> (py_exn + pystr list option) \<times> response_cache" where
  "cache_get env now enable_semantic request c =
     (let exact_key = generate_exact_key env request;
          miss = (\<lambda>c. if enable_semantic then semantic_get env now request c else (Inr None, c)) in
      case dict_get (rc_cache c) exact_key of
        Some entry \<Rightarrow>
          if now < ce_expires_at entry
          then (Inr (Some (ce_chunks entry)), c\<lparr>rc_cache := move_to_end exact_key (rc_cache c)\<rparr>)
          else miss (c\<lparr>rc_cache := dict_pop exact_key (rc_cache c)\<rparr>)
      | None \<Rightarrow> miss c)"

text \<open>\<open>popitem\<close> of an empty dict raises: a cache of size 0 cannot store anything.\<close>

definition make_room :: "pystr \<Rightarrow> response_cache \<Rightarrow> py_exn + (pystr, cache_entry) dict" where
  "make_room exact_key c =
     (if dict_get (rc_cache c) exact_key \<noteq> None then Inr (dict_pop exact_key (rc_cache c))
      else if rc_max_size c \<le> int (length (rc_cache c))
        then (case rc_cache c of [] \<Rightarrow> Inl KeyError | _ # d \<Rightarrow> Inr d)
      else Inr (rc_cache c))"

definition cache_set ::
    "cache_env \<Rightarrow> rat \<Rightarrow> json \<Rightarrow> pystr list \<Rightarrow> int option \<Rightarrow> response_cache \<Rightarrow> py_exn + response_cache" where
  "cache_set env now request chunks custom_ttl c =
     (let exact_key = generate_exact_key env request;
          ttl = (case custom_ttl of Some t \<Rightarrow> t | None \<Rightarrow> rc_ttl c);
          expires_at = now + (if 0 < ttl then rat_of_int ttl else 999999999) in
      case extract_prompt_text request of
        Inl e \<Rightarrow> Inl e
      | Inr prompt_text \<Rightarrow>
          (case make_room exact_key c of
             Inl e \<Rightarrow> Inl e
           | Inr d \<Rightarrow>
               Inr (c\<lparr>rc_cache := dict_set exact_key
                  \<lparr>ce_chunks = chunks, ce_expires_at = expires_at,
                   ce_prompt_words = get_words (ce_word env) (ce_lower env) prompt_text, ce_raw_request = request\<rparr> d\<rparr>)))"

definition cache_clear :: "response_cache \<Rightarrow> response_cache" where
  "cache_clear c = c\<lparr>rc_cache := []\<rparr>"

section \<open>The invariant\<close>

definition cache_ok :: "response_cache \<Rightarrow> bool" where
  "cache_ok c \<longleftrightarrow> 0 < rc_max_size c \<and> dict_wf (rc_cache c) \<and> int (length (rc_cache c)) \<le> rc_max_size c"

text \<open>Looking up never adds: keys, values and their number only shrink or change place.\<close>

definition shrinks :: "('k, 'v) dict \<Rightarrow> ('k, 'v) dict \<Rightarrow> bool" where
  "shrinks d d' \<longleftrightarrow> dict_wf d' \<and> length d' \<le> length d \<and> set d' \<subseteq> set d"

lemma shrinks_refl: "dict_wf d \<Longrightarrow> shrinks d d"
  by (simp add: shrinks_def)

lemma shrinks_trans: "shrinks d d' \<Longrightarrow> shrinks d' d'' \<Longrightarrow> shrinks d d''"
  by (auto simp: shrinks_def)

lemma dict_pop_filter: "dict_pop k d = filter (\<lambda>x. fst x \<noteq> k) d"
  by (induction d) auto

lemma shrinks_pop: "dict_wf d \<Longrightarrow> shrinks d (dict_pop k d)"
  unfolding shrinks_def dict_pop_filter by (simp add: distinct_map_filter)

lemma length_pop: "dict_get d k = Some v \<Longrightarrow> length (dict_pop k d) < length d"
  unfolding dict_pop_filter using dict_get_in_set [of d k v]
  by (intro length_filter_less) auto

lemma shrinks_move: "dict_wf d \<Longrightarrow> shrinks d (move_to_end k d)"
proof (cases "dict_get d k")
  case (Some v)
  assume wf: "dict_wf d"
  have "k \<notin> fst ` set (dict_pop k d)" by (simp add: dict_simps)
  then show ?thesis
    using wf Some length_pop [OF Some] dict_get_in_set [OF Some] shrinks_pop [OF wf, of k]
    by (auto simp: shrinks_def move_to_end_def)
qed (simp add: move_to_end_def shrinks_refl)

lemma semantic_scan_shrinks:
  "dict_wf d \<Longrightarrow> semantic_scan th now target model entries d = (r, d') \<Longrightarrow> shrinks d d'"
proof (induction th now target model entries d rule: semantic_scan.induct)
  case (2 th now target model k e entries d)
  show ?case
  proof (cases "ce_expires_at e \<le> now")
    case True
    have pop: "shrinks d (dict_pop k d)" by (rule shrinks_pop [OF 2(4)])
    then have "shrinks (dict_pop k d) d'" using 2(1) [OF True] 2(5) True by (simp add: shrinks_def)
    then show ?thesis using pop shrinks_trans by blast
  next
    case False
    then show ?thesis using 2 shrinks_move by (auto split: if_splits)
  qed
qed (simp add: shrinks_refl)

lemma semantic_get_shrinks:
  assumes "dict_wf (rc_cache c)" "semantic_get env now request c = (r, c')"
  shows "shrinks (rc_cache c) (rc_cache c') \<and> rc_max_size c' = rc_max_size c"
  using assms semantic_scan_shrinks [OF assms(1)]
  by (auto simp: semantic_get_def shrinks_refl split: if_splits sum.splits prod.splits)

lemma cache_get_shrinks:
  assumes wf: "dict_wf (rc_cache c)" and get: "cache_get env now sem request c = (r, c')"
  shows "shrinks (rc_cache c) (rc_cache c') \<and> rc_max_size c' = rc_max_size c"
proof -
  let ?k = "generate_exact_key env request"
  have miss: "shrinks (rc_cache d) (rc_cache d') \<and> rc_max_size d' = rc_max_size d"
    if "dict_wf (rc_cache d)" "(if sem then semantic_get env now request d else (Inr None, d)) = (r, d')" for d d'
    using that semantic_get_shrinks [of d env now request r d'] by (cases sem) (simp_all add: shrinks_refl)
  show ?thesis
  proof (cases "dict_get (rc_cache c) ?k")
    case None
    then show ?thesis using get miss [OF wf] by (simp add: cache_get_def Let_def)
  next
    case (Some e)
    let ?d = "c\<lparr>rc_cache := dict_pop ?k (rc_cache c)\<rparr>"
    show ?thesis
    proof (cases "now < ce_expires_at e")
      case True
      then show ?thesis using get Some shrinks_move [OF wf] by (auto simp: cache_get_def Let_def)
    next
      case False
      then have "(if sem then semantic_get env now request ?d else (Inr None, ?d)) = (r, c')"
        using get Some by (simp add: cache_get_def Let_def)
      then have "shrinks (rc_cache ?d) (rc_cache c') \<and> rc_max_size c' = rc_max_size ?d"
        using miss [of ?d c'] dict_wf_pop [OF wf, of ?k] by simp
      then show ?thesis using shrinks_pop [OF wf, of ?k] by (auto intro: shrinks_trans)
    qed
  qed
qed

lemma make_room_ok:
  assumes "cache_ok c" "make_room k c = r"
  shows "\<exists>d. r = Inr d \<and> dict_wf d \<and> k \<notin> fst ` set d \<and> int (length d) < rc_max_size c \<and> set d \<subseteq> set (rc_cache c)"
proof (cases "dict_get (rc_cache c) k")
  case (Some v)
  then show ?thesis
    using assms shrinks_pop [of "rc_cache c" k] length_pop [OF Some]
    by (auto simp: make_room_def cache_ok_def shrinks_def dict_pop_filter)
next
  case None
  then have k: "k \<notin> fst ` set (rc_cache c)" by (simp add: dict_get_None_iff)
  then show ?thesis
    using assms None by (cases "rc_cache c") (auto simp: make_room_def cache_ok_def)
qed

lemma cache_set_shape:
  assumes "cache_ok c" "cache_set env now request chunks ttl c = Inr c'"
  shows "\<exists>d e. make_room (generate_exact_key env request) c = Inr d \<and> rc_cache c' = d @ [(generate_exact_key env request, e)] \<and>
     c' = c\<lparr>rc_cache := rc_cache c'\<rparr> \<and> ce_chunks e = chunks \<and> ce_raw_request e = request \<and>
     ce_expires_at e = now + (let t = (case ttl of Some t \<Rightarrow> t | None \<Rightarrow> rc_ttl c) in if 0 < t then rat_of_int t else 999999999)"
  using assms make_room_ok [OF assms(1) refl, of "generate_exact_key env request"]
  by (auto simp: cache_set_def Let_def dict_set_new split: sum.splits)

lemma cache_set_ok:
  assumes "cache_ok c" "cache_set env now request chunks ttl c = Inr c'"
  shows "cache_ok c'"
proof -
  obtain d e where d: "make_room (generate_exact_key env request) c = Inr d"
    "rc_cache c' = d @ [(generate_exact_key env request, e)]" "c' = c\<lparr>rc_cache := rc_cache c'\<rparr>"
    using cache_set_shape [OF assms] by blast
  have "rc_max_size c' = rc_max_size c" using d(3) by (metis response_cache.select_convs(3) response_cache.surjective response_cache.update_convs(4))
  then show ?thesis using make_room_ok [OF assms(1) d(1)] assms(1) d(2) by (auto simp: cache_ok_def)
qed

datatype cache_op = Cache_Get rat bool json | Cache_Set rat json "pystr list" "int option" | Cache_Clear

fun cache_step :: "cache_env \<Rightarrow> cache_op \<Rightarrow> response_cache \<Rightarrow> response_cache" where
  "cache_step env (Cache_Get now sem request) c = snd (cache_get env now sem request c)"
| "cache_step env (Cache_Set now request chunks ttl) c =
     (case cache_set env now request chunks ttl c of Inl e \<Rightarrow> c | Inr c' \<Rightarrow> c')"
| "cache_step env Cache_Clear c = cache_clear c"

lemma cache_step_ok: "cache_ok c \<Longrightarrow> cache_ok (cache_step env op c)"
proof (cases op)
  case (Cache_Get now sem request)
  assume ok: "cache_ok c"
  obtain r c' where get: "cache_get env now sem request c = (r, c')" by fastforce
  then show ?thesis
    using Cache_Get ok cache_get_shrinks [OF _ get] by (auto simp: cache_ok_def shrinks_def)
next
  case (Cache_Set now request chunks ttl)
  then show "cache_ok c \<Longrightarrow> cache_ok (cache_step env op c)"
    using cache_set_ok by (auto split: sum.split)
qed (simp add: cache_ok_def cache_clear_def)

text \<open>
  A cache made with a positive size never holds more entries than that, nor two for
  one request, whatever is looked up, stored and flushed.
\<close>

theorem cache_bounded:
  assumes "0 < max_size"
  shows "cache_ok (fold (cache_step env) ops (ResponseCache ttl threshold max_size))"
proof -
  have "cache_ok c \<Longrightarrow> cache_ok (fold (cache_step env) ops c)" for c
    by (induction ops arbitrary: c) (auto intro: cache_step_ok)
  then show ?thesis using assms by (simp add: cache_ok_def ResponseCache_def)
qed

definition plain_env :: cache_env where
  "plain_env = \<lparr>ce_sha256 = (\<lambda>s. s), ce_word = (\<lambda>c. 97 \<le> c \<and> c \<le> 122), ce_lower = (\<lambda>s. s)\<rparr>"

definition ask :: "string \<Rightarrow> json" where
  "ask t = JObj [(u ''model'', JStr (u ''m'')), (u ''messages'', JArr [JObj [(u ''role'', JStr (u ''user'')), (u ''content'', JStr (u t))]])]"

lemma cache_bounded_witness:
  "cache_ok (fold (cache_step plain_env) [Cache_Set 0 (ask ''hello'') [u ''x''] None, Cache_Get 1 True (ask ''hello there'')]
     (ResponseCache 3600 (9 / 10) 2))"
  by (rule cache_bounded) simp

section \<open>What a look-up may return\<close>

lemma semantic_scan_sound:
  "semantic_scan th now target model entries d = (Some chunks, d') \<Longrightarrow>
     \<exists>(k, e) \<in> set entries. ce_chunks e = chunks \<and> now < ce_expires_at e \<and> jget (u ''model'') (ce_raw_request e) = model \<and>
       similar_enough th target (ce_prompt_words e)"
  by (induction th now target model entries d rule: semantic_scan.induct) (auto split: if_splits)

text \<open>
  A hit is never stale and never another model's: the chunks returned are those of
  an unexpired entry, stored under the digest of this very request or, when the semantic pass is
  on, for the same model with similar words.
\<close>

theorem cache_hit_sound:
  assumes "fst (cache_get env now sem request c) = Inr (Some chunks)"
  shows "\<exists>(k, e) \<in> set (rc_cache c). ce_chunks e = chunks \<and> now < ce_expires_at e \<and>
     (k = generate_exact_key env request \<or>
      sem \<and> jget (u ''model'') (ce_raw_request e) = jget (u ''model'') request \<and>
      (\<exists>t. extract_prompt_text request = Inr t \<and>
         similar_enough (rc_semantic_threshold c) (get_words (ce_word env) (ce_lower env) t) (ce_prompt_words e)))"
proof -
  let ?k = "generate_exact_key env request"
  have sem: "\<exists>(k, e) \<in> set (rc_cache d). ce_chunks e = chunks \<and> now < ce_expires_at e \<and>
      sem \<and> jget (u ''model'') (ce_raw_request e) = jget (u ''model'') request \<and>
      (\<exists>t. extract_prompt_text request = Inr t \<and>
         similar_enough (rc_semantic_threshold d) (get_words (ce_word env) (ce_lower env) t) (ce_prompt_words e))"
    if "fst (if sem then semantic_get env now request d else (Inr None, d)) = Inr (Some chunks)" for d
    using that semantic_scan_sound [of "rc_semantic_threshold d" now _ "jget (u ''model'') request" "rc_cache d" "rc_cache d" chunks]
    by (fastforce simp: semantic_get_def split: if_splits sum.splits prod.splits)
  show ?thesis
  proof (cases "dict_get (rc_cache c) ?k")
    case None
    then show ?thesis using assms sem [of c] by (fastforce simp: cache_get_def Let_def)
  next
    case (Some e)
    note here = dict_get_in_set [OF Some]
    let ?d = "c\<lparr>rc_cache := dict_pop ?k (rc_cache c)\<rparr>"
    show ?thesis
    proof (cases "now < ce_expires_at e")
      case True
      then show ?thesis using assms Some here by (fastforce simp: cache_get_def Let_def)
    next
      case False
      then have "fst (if sem then semantic_get env now request ?d else (Inr None, ?d)) = Inr (Some chunks)"
        using assms Some by (simp add: cache_get_def Let_def)
      from sem [OF this] show ?thesis by (fastforce simp: dict_pop_filter)
    qed
  qed
qed

lemma cache_hit_sound_witness:
  "\<exists>c chunks. fst (cache_get plain_env 1 False (ask ''hello'') c) = Inr (Some chunks) \<and>
     (\<exists>(k, e) \<in> set (rc_cache c). ce_chunks e = chunks \<and> 1 < ce_expires_at e)"
proof -
  define c where "c = cache_step plain_env (Cache_Set 0 (ask ''hello'') [u ''x''] None) (ResponseCache 3600 (9 / 10) 2)"
  have hit: "fst (cache_get plain_env 1 False (ask ''hello'') c) = Inr (Some [u ''x''])"
    unfolding c_def by code_simp
  then show ?thesis using cache_hit_sound [OF hit] by fast
qed

section \<open>Storing and evicting\<close>

text \<open>
  What is stored is found again until it expires, by every request with the same
  model, messages, system, tools, temperature and token limit.
\<close>

theorem cache_set_get:
  assumes "cache_ok c" "cache_set env now request chunks ttl c = Inr c'"
    "generate_exact_key env request' = generate_exact_key env request"
    "later < now + (let t = (case ttl of Some t \<Rightarrow> t | None \<Rightarrow> rc_ttl c) in if 0 < t then rat_of_int t else 999999999)"
  shows "fst (cache_get env later sem request' c') = Inr (Some chunks)"
proof -
  obtain d e where d: "make_room (generate_exact_key env request) c = Inr d"
    "rc_cache c' = d @ [(generate_exact_key env request, e)]" "ce_chunks e = chunks"
    "ce_expires_at e = now + (let t = (case ttl of Some t \<Rightarrow> t | None \<Rightarrow> rc_ttl c) in if 0 < t then rat_of_int t else 999999999)"
    using cache_set_shape [OF assms(1,2)] by blast
  have "generate_exact_key env request \<notin> fst ` set d" using make_room_ok [OF assms(1) d(1)] by auto
  then have "dict_get (rc_cache c') (generate_exact_key env request') = Some e"
    by (simp add: d(2) assms(3) map_add_def dict_get_None_iff [THEN iffD2])
  then show ?thesis using assms(4) d(3,4) by (simp add: cache_get_def)
qed

lemma cache_set_get_witness:
  "\<exists>c'. cache_set plain_env 0 (ask ''hello'') [u ''x''] None (ResponseCache 3600 (9 / 10) 2) = Inr c' \<and>
     fst (cache_get plain_env 3599 False (ask ''hello'') c') = Inr (Some [u ''x''])"
proof -
  obtain c' where set: "cache_set plain_env 0 (ask ''hello'') [u ''x''] None (ResponseCache 3600 (9 / 10) 2) = Inr c'"
    by (simp add: cache_set_def ask_def extract_prompt_text_def message_text_def make_room_def ResponseCache_def)
  have "fst (cache_get plain_env 3599 False (ask ''hello'') c') = Inr (Some [u ''x''])"
    by (rule cache_set_get [OF _ set refl]) (simp_all add: cache_ok_def ResponseCache_def)
  then show ?thesis using set by blast
qed

text \<open>An entry is evicted only when as many others as fit have been stored after it.\<close>

definition newer :: "pystr \<Rightarrow> response_cache \<Rightarrow> nat" where
  "newer k c = length (takeWhile (\<lambda>x. fst x \<noteq> k) (rev (rc_cache c)))"

lemma newer_append:
  "rc_cache c = xs @ (k, e) # ys \<Longrightarrow> k \<notin> fst ` set ys \<Longrightarrow> newer k c = length ys"
  by (force simp: newer_def takeWhile_append takeWhile_eq_all_conv)

lemma set_other_keeps:
  assumes "cache_ok c" "cache_set env now request chunks ttl c = Inr c'" "generate_exact_key env request \<noteq> k"
    "dict_get (rc_cache c) k = Some e" "int (newer k c) + 1 < rc_max_size c"
  shows "dict_get (rc_cache c') k = Some e \<and> newer k c' \<le> Suc (newer k c) \<and> rc_max_size c' = rc_max_size c"
proof -
  let ?q = "generate_exact_key env request"
  have wf: "dict_wf (rc_cache c)" using assms(1) by (simp add: cache_ok_def)
  obtain xs ys where xy: "rc_cache c = xs @ (k, e) # ys" "k \<notin> fst ` set ys"
    using dict_get_in_set [OF assms(4)] wf by (force simp: in_set_conv_decomp)
  obtain d f where d: "make_room ?q c = Inr d" "rc_cache c' = d @ [(?q, f)]" "c' = c\<lparr>rc_cache := rc_cache c'\<rparr>"
    using cache_set_shape [OF assms(1,2)] by blast
  have room: "\<exists>us vs. d = us @ (k, e) # vs \<and> length vs \<le> length ys \<and> set vs \<subseteq> set ys"
  proof (cases "dict_get (rc_cache c) ?q = None")
    case False
    then have "d = filter (\<lambda>x. fst x \<noteq> ?q) (rc_cache c)" using d(1) by (auto simp: make_room_def dict_pop_filter)
    then have "d = filter (\<lambda>x. fst x \<noteq> ?q) xs @ (k, e) # filter (\<lambda>x. fst x \<noteq> ?q) ys"
      using assms(3) by (simp add: xy(1))
    then show ?thesis by (intro exI conjI) (assumption, auto)
  next
    case True
    show ?thesis
    proof (cases "rc_max_size c \<le> int (length (rc_cache c))")
      case True
      then have "xs \<noteq> []" using assms(5) newer_append [OF xy] xy(1) by auto
      then show ?thesis using d(1) True \<open>dict_get (rc_cache c) ?q = None\<close>
        by (cases xs) (auto simp: make_room_def xy(1))
    next
      case False
      then show ?thesis using d(1) True xy(1) by (auto simp: make_room_def)
    qed
  qed
  then obtain us vs where uv: "d = us @ (k, e) # vs" "length vs \<le> length ys" "set vs \<subseteq> set ys" by blast
  have c': "rc_cache c' = us @ (k, e) # (vs @ [(?q, f)])" using d(2) uv(1) by simp
  have "k \<notin> fst ` set (vs @ [(?q, f)])" using xy(2) uv(3) assms(3) by auto
  moreover have "dict_wf (rc_cache c')" using cache_set_ok [OF assms(1,2)] by (simp add: cache_ok_def)
  moreover have "rc_max_size c' = rc_max_size c"
    using d(3) by (metis response_cache.select_convs(3) response_cache.surjective response_cache.update_convs(4))
  ultimately show ?thesis
    using newer_append [OF c'] newer_append [OF xy] uv(2) dict_wf_get [of "rc_cache c'" k e] by (simp add: c')
qed

fun set_all :: "cache_env \<Rightarrow> (rat \<times> json \<times> pystr list) list \<Rightarrow> response_cache \<Rightarrow> response_cache" where
  "set_all env [] c = c"
| "set_all env ((now, request, chunks) # rs) c =
     set_all env rs (cache_step env (Cache_Set now request chunks None) c)"

lemma set_all_keeps:
  "cache_ok c \<Longrightarrow> \<forall>(now, request, chunks) \<in> set rs. generate_exact_key env request \<noteq> k \<Longrightarrow>
     dict_get (rc_cache c) k = Some e \<Longrightarrow> int (newer k c) + int (length rs) < rc_max_size c \<Longrightarrow>
     dict_get (rc_cache (set_all env rs c)) k = Some e"
proof (induction rs arbitrary: c)
  case (Cons r rs)
  obtain now request chunks where r: "r = (now, request, chunks)" by (cases r) auto
  show ?case
  proof (cases "cache_set env now request chunks None c")
    case (Inl x)
    then show ?thesis using Cons by (simp add: r)
  next
    case (Inr c')
    have other: "generate_exact_key env request \<noteq> k" "int (newer k c) + 1 < rc_max_size c"
      using Cons.prems(2,4) by (auto simp: r)
    have "dict_get (rc_cache c') k = Some e \<and> newer k c' \<le> Suc (newer k c) \<and> rc_max_size c' = rc_max_size c"
      by (rule set_other_keeps [OF Cons.prems(1) Inr other(1) Cons.prems(3) other(2)])
    then show ?thesis
      using Cons.IH [of c'] Cons.prems cache_set_ok [OF Cons.prems(1) Inr] by (auto simp: r Inr)
  qed
qed simp

text \<open>
  Eviction takes the oldest: an entry just stored survives the storing of any
  fewer than \<open>max_size\<close> others.
\<close>

theorem recent_entry_survives:
  assumes "cache_ok c" "cache_set env now request chunks ttl c = Inr c'" "int (length rs) < rc_max_size c"
    "\<forall>(t, q, ks) \<in> set rs. generate_exact_key env q \<noteq> generate_exact_key env request"
  shows "\<exists>e. dict_get (rc_cache (set_all env rs c')) (generate_exact_key env request) = Some e \<and> ce_chunks e = chunks"
proof -
  let ?k = "generate_exact_key env request"
  obtain d e where d: "make_room ?k c = Inr d" "rc_cache c' = d @ [(?k, e)]" "c' = c\<lparr>rc_cache := rc_cache c'\<rparr>" "ce_chunks e = chunks"
    using cache_set_shape [OF assms(1,2)] by blast
  have ok: "cache_ok c'" by (rule cache_set_ok [OF assms(1,2)])
  have "dict_get (rc_cache c') ?k = Some e" using dict_wf_get [of "rc_cache c'" ?k e] ok d(2) by (simp add: cache_ok_def)
  moreover have "newer ?k c' = 0" by (simp add: newer_def d(2))
  moreover have "rc_max_size c' = rc_max_size c"
    using d(3) by (metis response_cache.select_convs(3) response_cache.surjective response_cache.update_convs(4))
  ultimately show ?thesis using set_all_keeps [OF ok assms(4)] assms(3) d(4) by auto
qed

lemma recent_entry_survives_witness:
  "\<exists>c' e. cache_set plain_env 0 (ask ''a'') [u ''x''] None (ResponseCache 3600 (9 / 10) 2) = Inr c' \<and>
     dict_get (rc_cache (set_all plain_env [(1, ask ''b'', [u ''y''])] c')) (generate_exact_key plain_env (ask ''a'')) = Some e \<and>
     ce_chunks e = [u ''x'']"
proof -
  obtain c' where set: "cache_set plain_env 0 (ask ''a'') [u ''x''] None (ResponseCache 3600 (9 / 10) 2) = Inr c'"
    by (simp add: cache_set_def ask_def extract_prompt_text_def message_text_def make_room_def ResponseCache_def)
  have "generate_exact_key plain_env (ask ''b'') \<noteq> generate_exact_key plain_env (ask ''a'')" by code_simp
  then have "\<exists>e. dict_get (rc_cache (set_all plain_env [(1, ask ''b'', [u ''y''])] c')) (generate_exact_key plain_env (ask ''a'')) = Some e \<and>
      ce_chunks e = [u ''x'']"
    by (intro recent_entry_survives [OF _ set]) (simp_all add: cache_ok_def ResponseCache_def)
  then show ?thesis using set by blast
qed

text \<open>A cache of size 0 raises instead of storing.\<close>

lemma empty_cache_raises:
  "cache_set plain_env 0 (ask ''a'') [u ''x''] None (ResponseCache 3600 (9 / 10) 0) = Inl KeyError"
  by (simp add: cache_set_def ask_def extract_prompt_text_def message_text_def make_room_def ResponseCache_def)

section \<open>The threshold test is the cosine comparison\<close>

lemma similar_enough_cosine:
  "similar_enough threshold ws vs \<longleftrightarrow> real_of_rat threshold \<le> cosine_similarity ws vs"
proof (cases "threshold \<le> 0")
  case True
  have "0 \<le> cosine_similarity ws vs" by (simp add: cosine_similarity_def Let_def)
  then show ?thesis using True by (simp add: similar_enough_def order_trans [of _ 0])
next
  case False
  then have pos: "0 < real_of_rat threshold" by simp
  show ?thesis
  proof (cases "ws = [] \<or> vs = [] \<or> square_sum ws * square_sum vs = 0")
    case True
    then show ?thesis using False pos by (auto simp: similar_enough_def cosine_similarity_def)
  next
    case ne: False
    define n where "n = square_sum ws * square_sum vs"
    define k where "k = dot_product ws vs"
    have n: "0 < n" using ne by (simp add: n_def)
    have sq: "sqrt (square_sum ws) * sqrt (square_sum vs) = sqrt n" by (simp add: n_def real_sqrt_mult)
    have "real_of_rat threshold \<le> cosine_similarity ws vs \<longleftrightarrow> real_of_rat threshold * sqrt n \<le> real k"
      using ne n by (simp add: cosine_similarity_def sq k_def pos_le_divide_eq flip: n_def)
    also have "\<dots> \<longleftrightarrow> (real_of_rat threshold * sqrt n)\<^sup>2 \<le> (real k)\<^sup>2"
      using pos by (intro power_mono_iff [symmetric]) auto
    also have "\<dots> \<longleftrightarrow> real_of_rat (threshold ^ 2 * rat_of_nat n) \<le> real_of_rat (rat_of_nat k ^ 2)"
      by (simp add: power_mult_distrib of_rat_mult of_rat_power)
    also have "\<dots> \<longleftrightarrow> similar_enough threshold ws vs"
      using False ne by (simp add: of_rat_less_eq similar_enough_def n_def k_def)
    finally show ?thesis by simp
  qed
qed

end
