(* ===== verification/Retry.thy ===== *)
theory Retry
  imports Complex_Main Prelude
begin

text \<open>
  The retry decorator (\<open>core/reliability/retry.py\<close>) and the streaming watchdog
  (\<open>core/reliability/watchdog.py\<close>).  What a call of the wrapped function does, the random draws
  and the arrival times of a stream are arguments.
\<close>

section \<open>Back-off\<close>

text \<open>\<open>random.uniform(0.0, delay)\<close> is \<open>delay\<close> times a draw from the unit interval.\<close>

definition calculate_delay :: "int \<Rightarrow> rat \<Rightarrow> rat \<Rightarrow> rat \<Rightarrow> bool \<Rightarrow> rat \<Rightarrow> rat" where
  "calculate_delay attempt_no base_delay max_delay factor jitter draw =
     (let a = (if attempt_no < 1 then 1 else attempt_no);
          delay = min (base_delay * factor ^ nat (a - 1)) max_delay
      in if jitter then 0 + (delay - 0) * draw else delay)"

lemma calculate_delay_bounds:
  assumes "0 \<le> base_delay" "0 \<le> max_delay" "0 < factor" "0 \<le> draw" "draw \<le> 1"
  shows "0 \<le> calculate_delay a base_delay max_delay factor jitter draw"
    "calculate_delay a base_delay max_delay factor jitter draw \<le> max_delay"
proof -
  define d where "d = min (base_delay * factor ^ nat ((if a < 1 then 1 else a) - 1)) max_delay"
  have d: "0 \<le> d" "d \<le> max_delay" using assms(1-3) by (auto simp: d_def)
  have "d * draw \<le> d" using d(1) assms(5) by (simp add: mult_left_le)
  then show "0 \<le> calculate_delay a base_delay max_delay factor jitter draw"
    "calculate_delay a base_delay max_delay factor jitter draw \<le> max_delay"
    using d assms(4) by (auto simp: calculate_delay_def Let_def d_def [symmetric] simp del: mult_le_0_iff)
qed

text \<open>Without jitter the delays never decrease while the factor is at least one.\<close>

lemma calculate_delay_mono:
  assumes "0 \<le> base_delay" "1 \<le> factor" "a \<le> b"
  shows "calculate_delay a base_delay max_delay factor False x \<le> calculate_delay b base_delay max_delay factor False y"
proof -
  have "nat ((if a < 1 then 1 else a) - 1) \<le> nat ((if b < 1 then 1 else b) - 1)" using assms(3) by auto
  then have "base_delay * factor ^ nat ((if a < 1 then 1 else a) - 1) \<le> base_delay * factor ^ nat ((if b < 1 then 1 else b) - 1)"
    using assms(1,2) by (intro mult_left_mono power_increasing)
  then show ?thesis by (auto simp: calculate_delay_def Let_def)
qed

section \<open>The decorator\<close>

record retry_options =
  ro_max_retries :: int
  ro_base_delay :: rat
  ro_max_delay :: rat
  ro_factor :: rat
  ro_jitter :: bool
  ro_exceptions :: "py_exn \<Rightarrow> bool"
  ro_on_retry :: "py_exn \<Rightarrow> int \<Rightarrow> rat \<Rightarrow> py_exn option"

text \<open>The checks \<open>retry\<close> makes when the decorator is built; \<open>None\<close> when it is.\<close>

definition retry_check :: "retry_options \<Rightarrow> py_exn option" where
  "retry_check o1 =
     (if ro_max_retries o1 < 0 then Some ValueError
      else if ro_base_delay o1 < 0 then Some ValueError
      else if ro_max_delay o1 < 0 then Some ValueError
      else if ro_factor o1 \<le> 0 then Some ValueError
      else None)"

text \<open>
  The loop of both wrappers: the n-th call of the function does \<open>fn n\<close>, the n-th draw is \<open>draw n\<close>,
  and the callback may raise.  The result comes with the delays slept.
\<close>

function wrapper_loop ::
    "retry_options \<Rightarrow> (nat \<Rightarrow> rat) \<Rightarrow> (nat \<Rightarrow> py_exn + 'a) \<Rightarrow> nat \<Rightarrow> (py_exn + 'a) \<times> rat list" where
  "wrapper_loop o1 draw fn attempt_no =
     (case fn attempt_no of
        Inr v \<Rightarrow> (Inr v, [])
      | Inl e \<Rightarrow>
          if \<not> ro_exceptions o1 e then (Inl e, [])
          else if ro_max_retries o1 < int attempt_no + 1 then (Inl e, [])
          else
            let delay = calculate_delay (int attempt_no + 1) (ro_base_delay o1) (ro_max_delay o1) (ro_factor o1)
                          (ro_jitter o1) (draw attempt_no) in
            case ro_on_retry o1 e (int attempt_no + 1) delay of
              Some e' \<Rightarrow> (Inl e', [])
            | None \<Rightarrow> (case wrapper_loop o1 draw fn (Suc attempt_no) of (r, delays) \<Rightarrow> (r, delay # delays)))"
  by pat_completeness auto
termination
  by (relation "measure (\<lambda>(o1, draw, fn, a). nat (ro_max_retries o1 - int a))") auto

declare wrapper_loop.simps [simp del]

definition call_with_retry :: "retry_options \<Rightarrow> (nat \<Rightarrow> rat) \<Rightarrow> (nat \<Rightarrow> py_exn + 'a) \<Rightarrow> (py_exn + 'a) \<times> rat list" where
  "call_with_retry o1 draw fn = (case retry_check o1 of Some e \<Rightarrow> (Inl e, []) | None \<Rightarrow> wrapper_loop o1 draw fn 0)"

definition worth_retrying :: "retry_options \<Rightarrow> py_exn + 'a \<Rightarrow> bool" where
  "worth_retrying o1 r \<longleftrightarrow> (case r of Inl e \<Rightarrow> ro_exceptions o1 e | Inr v \<Rightarrow> False)"

definition quiet_callback :: "retry_options \<Rightarrow> bool" where
  "quiet_callback o1 \<longleftrightarrow> (\<forall>e a d. ro_on_retry o1 e a d = None)"

lemma wrapper_loop_spec:
  assumes "wrapper_loop o1 draw fn a = (r, delays)" "int a \<le> ro_max_retries o1" "quiet_callback o1"
  shows "r = fn (a + length delays) \<and> int (a + length delays) \<le> ro_max_retries o1 \<and>
     (\<forall>i < length delays. worth_retrying o1 (fn (a + i))) \<and>
     (int (a + length delays) < ro_max_retries o1 \<longrightarrow> \<not> worth_retrying o1 r) \<and>
     (\<forall>i < length delays. delays ! i = calculate_delay (int (a + i) + 1) (ro_base_delay o1) (ro_max_delay o1)
        (ro_factor o1) (ro_jitter o1) (draw (a + i)))"
  using assms
proof (induction o1 draw fn a arbitrary: r delays rule: wrapper_loop.induct)
  case (1 o1 draw fn a)
  let ?delay = "calculate_delay (int a + 1) (ro_base_delay o1) (ro_max_delay o1) (ro_factor o1) (ro_jitter o1) (draw a)"
  show ?case
  proof (cases "worth_retrying o1 (fn a) \<and> int a + 1 \<le> ro_max_retries o1")
    case False
    then have "r = fn a \<and> delays = [] \<and> (worth_retrying o1 (fn a) \<longrightarrow> ro_max_retries o1 < int a + 1)"
      using 1(2) by (auto simp: wrapper_loop.simps [of o1 draw fn a] worth_retrying_def split: sum.splits if_splits)
    then show ?thesis using 1(3) by auto
  next
    case True
    then obtain e where e: "fn a = Inl e" "ro_exceptions o1 e"
      by (auto simp: worth_retrying_def split: sum.splits)
    obtain ds where ds: "wrapper_loop o1 draw fn (Suc a) = (r, ds)" "delays = ?delay # ds"
      using 1(2,4) True e by (auto simp: wrapper_loop.simps [of o1 draw fn a] quiet_callback_def Let_def split: prod.splits)
    have IH: "r = fn (Suc a + length ds) \<and> int (Suc a + length ds) \<le> ro_max_retries o1 \<and>
        (\<forall>i < length ds. worth_retrying o1 (fn (Suc a + i))) \<and>
        (int (Suc a + length ds) < ro_max_retries o1 \<longrightarrow> \<not> worth_retrying o1 r) \<and>
        (\<forall>i < length ds. ds ! i = calculate_delay (int (Suc a + i) + 1) (ro_base_delay o1) (ro_max_delay o1)
           (ro_factor o1) (ro_jitter o1) (draw (Suc a + i)))"
      by (rule 1(1) [OF e(1) _ _ refl _ ds(1)]) (use 1(4) e(2) True in \<open>simp_all add: quiet_callback_def\<close>)
    have last: "int (a + length delays) < ro_max_retries o1 \<longrightarrow> \<not> worth_retrying o1 r"
      using IH [THEN conjunct2, THEN conjunct2, THEN conjunct2, THEN conjunct1] ds(2) by simp
    have rest: "r = fn (a + length delays)" "int (a + length delays) \<le> ro_max_retries o1"
      using IH ds(2) by simp_all
    have "P (fn (a + i))" if "i < length delays" "P (fn a)" "\<forall>i < length ds. P (fn (Suc a + i))" for P i
      using that ds(2) by (cases i) auto
    moreover have "delays ! i = calculate_delay (int (a + i) + 1) (ro_base_delay o1) (ro_max_delay o1)
        (ro_factor o1) (ro_jitter o1) (draw (a + i))" if "i < length delays" for i
      using that ds(2) IH by (cases i) auto
    ultimately have "\<forall>i < length delays. worth_retrying o1 (fn (a + i))"
      "\<forall>i < length delays. delays ! i = calculate_delay (int (a + i) + 1) (ro_base_delay o1) (ro_max_delay o1)
        (ro_factor o1) (ro_jitter o1) (draw (a + i))"
      using IH True by blast+
    then show ?thesis using last rest by blast
  qed
qed

text \<open>
  A decorated call always ends: after at most \<open>1 + max_retries\<close> calls of the
  function it gives what the last of them gave, all earlier ones having failed with a retryable
  exception; it stops early only at an outcome that is not retryable; every sleep is one of the
  capped back-off delays.
\<close>

theorem retried_call:
  assumes "retry_check o1 = None" "quiet_callback o1" "\<forall>n. 0 \<le> draw n \<and> draw n \<le> 1" "call_with_retry o1 draw fn = (r, delays)"
  shows "r = fn (length delays) \<and> int (length delays) \<le> ro_max_retries o1 \<and>
     (\<forall>i < length delays. worth_retrying o1 (fn i)) \<and>
     (int (length delays) < ro_max_retries o1 \<longrightarrow> \<not> worth_retrying o1 r) \<and>
     (\<forall>d \<in> set delays. 0 \<le> d \<and> d \<le> ro_max_delay o1)"
proof -
  have o1: "0 \<le> ro_max_retries o1" "0 \<le> ro_base_delay o1" "0 \<le> ro_max_delay o1" "0 < ro_factor o1"
    using assms(1) by (auto simp: retry_check_def split: if_splits)
  have "wrapper_loop o1 draw fn 0 = (r, delays)" using assms(1,4) by (simp add: call_with_retry_def)
  from wrapper_loop_spec [OF this _ assms(2)] o1 show ?thesis
    using calculate_delay_bounds [OF o1(2,3,4)] assms(3) by (auto simp: in_set_conv_nth)
qed

definition three_tries :: retry_options where
  "three_tries = \<lparr>ro_max_retries = 3, ro_base_delay = 1 / 2, ro_max_delay = 10, ro_factor = 2, ro_jitter = False,
     ro_exceptions = (\<lambda>_. True), ro_on_retry = (\<lambda>_ _ _. None)\<rparr>"

lemma retried_call_witness:
  "\<exists>r delays. call_with_retry three_tries (\<lambda>_. 0) (\<lambda>n. if n < 2 then Inl ReadTimeout else Inr n) = (r, delays) \<and>
     r = Inr 2 \<and> length delays = 2 \<and> int (length delays) \<le> 3"
proof -
  have run: "call_with_retry three_tries (\<lambda>_. 0) (\<lambda>n. if n < 2 then Inl ReadTimeout else Inr n) = (Inr 2, [1 / 2, 1])"
    by code_simp
  have "int (length [1 / 2, 1 :: rat]) \<le> ro_max_retries three_tries"
    using retried_call [OF _ _ _ run] by (simp add: three_tries_def retry_check_def quiet_callback_def)
  then show ?thesis using run by (simp add: three_tries_def)
qed

section \<open>The watchdog\<close>

text \<open>
  What the wrapped stream does next, and how long it takes: an item, the end, or an exception.
  A wait that reaches its limit is a time-out; after the listed arrivals nothing more comes.  A
  \<open>TimeoutError\<close> of the stream itself is taken for a stall.
\<close>

datatype 'a arrival = Item rat 'a | Ended rat | Failed rat py_exn

datatype stream_end = Normal | Stalled_Connecting | Stalled_Streaming | Broke py_exn

fun arrival_time :: "'a arrival \<Rightarrow> rat" where
  "arrival_time (Item t x) = t"
| "arrival_time (Ended t) = t"
| "arrival_time (Failed t e) = t"

fun watchdog_loop :: "rat \<Rightarrow> rat \<Rightarrow> bool \<Rightarrow> 'a arrival list \<Rightarrow> 'a list \<times> stream_end" where
  "watchdog_loop chunk_timeout current_timeout is_first [] = ([], if is_first then Stalled_Connecting else Stalled_Streaming)"
| "watchdog_loop chunk_timeout current_timeout is_first (a # as) =
     (if current_timeout \<le> arrival_time a
      then ([], if is_first then Stalled_Connecting else Stalled_Streaming)
      else case a of
          Item t x \<Rightarrow> (case watchdog_loop chunk_timeout chunk_timeout False as of (xs, end) \<Rightarrow> (x # xs, end))
        | Ended t \<Rightarrow> ([], Normal)
        | Failed t e \<Rightarrow>
            ([], if e = OtherException (u ''TimeoutError'') then (if is_first then Stalled_Connecting else Stalled_Streaming) else Broke e))"

definition watchdog_stream :: "rat \<Rightarrow> rat option \<Rightarrow> 'a arrival list \<Rightarrow> 'a list \<times> stream_end" where
  "watchdog_stream chunk_timeout connect_timeout as =
     watchdog_loop chunk_timeout (case connect_timeout of Some t \<Rightarrow> t | None \<Rightarrow> chunk_timeout) True as"

definition limit_of :: "rat \<Rightarrow> rat \<Rightarrow> nat \<Rightarrow> rat" where
  "limit_of chunk_timeout first i = (if i = 0 then first else chunk_timeout)"

lemma watchdog_loop_spec:
  "watchdog_loop ct cur first as = (xs, end) \<Longrightarrow>
     length xs \<le> length as \<and>
     (\<forall>i < length xs. \<exists>t. as ! i = Item t (xs ! i) \<and> t < limit_of ct cur i) \<and>
     (end = Normal \<longrightarrow> (\<exists>t. length xs < length as \<and> as ! length xs = Ended t \<and> t < limit_of ct cur (length xs)))"
proof (induction ct cur first as arbitrary: xs "end" rule: watchdog_loop.induct)
  case (2 ct cur first a as)
  show ?case
  proof (cases "\<exists>t x. a = Item t x \<and> t < cur")
    case True
    then obtain t x where a: "a = Item t x" "t < cur" by blast
    obtain ys where ys: "watchdog_loop ct ct False as = (ys, end)" "xs = x # ys"
      using 2(2) a by (auto split: prod.splits)
    have IH: "length ys \<le> length as \<and>
       (\<forall>i < length ys. \<exists>t. as ! i = Item t (ys ! i) \<and> t < limit_of ct ct i) \<and>
       (end = Normal \<longrightarrow> (\<exists>t. length ys < length as \<and> as ! length ys = Ended t \<and> t < limit_of ct ct (length ys)))"
      using 2(1) [OF _ a(1) ys(1)] a by simp
    have "\<exists>t. (a # as) ! i = Item t (xs ! i) \<and> t < limit_of ct cur i" if "i < length xs" for i
      using that IH a ys(2) by (cases i) (auto simp: limit_of_def)
    then show ?thesis using IH ys(2) by (auto simp: limit_of_def)
  next
    case False
    then show ?thesis using 2(2) by (cases a) (auto simp: limit_of_def split: if_splits)
  qed
qed auto

text \<open>
  The watchdog passes the items on unchanged and in order, as far as each came within
  its limit, and reports a normal end only when the stream had one in time.
\<close>

theorem watchdog_faithful:
  assumes "watchdog_stream chunk_timeout connect_timeout as = (xs, end)"
    "first = (case connect_timeout of Some t \<Rightarrow> t | None \<Rightarrow> chunk_timeout)"
  shows "length xs \<le> length as \<and>
     (\<forall>i < length xs. \<exists>t. as ! i = Item t (xs ! i) \<and> t < limit_of chunk_timeout first i) \<and>
     (end = Normal \<longrightarrow> (\<exists>t. length xs < length as \<and> as ! length xs = Ended t \<and> t < limit_of chunk_timeout first (length xs)))"
  using watchdog_loop_spec assms unfolding watchdog_stream_def by blast

lemma watchdog_faithful_witness:
  "watchdog_stream 5 (Some 20) [Item 12 (u ''a''), Item 4 (u ''b''), Item 5 (u ''c'')] = ([u ''a'', u ''b''], Stalled_Streaming) \<and>
   (\<exists>t. [Item 12 (u ''a''), Item 4 (u ''b''), Item 5 (u ''c'')] ! 1 = Item t ([u ''a'', u ''b''] ! 1) \<and> t < limit_of 5 20 1)"
proof -
  have run: "watchdog_stream 5 (Some 20) [Item 12 (u ''a''), Item 4 (u ''b''), Item 5 (u ''c'')] = ([u ''a'', u ''b''], Stalled_Streaming)"
    by code_simp
  have "\<forall>i < length [u ''a'', u ''b'']. \<exists>t. [Item 12 (u ''a''), Item 4 (u ''b''), Item 5 (u ''c'')] ! i = Item t ([u ''a'', u ''b''] ! i) \<and>
      t < limit_of 5 20 i"
    using watchdog_faithful [OF run, of 20] by simp
  from this [rule_format, of 1] show ?thesis using run by simp
qed

end
