(* ===== verification/Blackout.thy ===== *)
theory Blackout
  imports PyJson
begin

text \<open>
  Blackout windows (\<open>parse_blackout_windows\<close> and \<open>is_in_blackout\<close> of
  \<open>core/reliability/helpers.py\<close>): daily UTC intervals during which a provider is not used.
\<close>

section \<open>Times of day\<close>

text \<open>\<open>datetime.time\<close>, ordered as Python orders it.\<close>

datatype day_time = Time (hour: nat) (minute: nat) (seconds: nat) (micro: nat)

definition micros :: "day_time \<Rightarrow> nat" where
  "micros t = ((hour t * 60 + minute t) * 60 + seconds t) * 1000000 + micro t"

definition time_key :: "day_time \<Rightarrow> nat \<times> nat \<times> nat \<times> nat" where
  "time_key t = (hour t, minute t, seconds t, micro t)"

instantiation day_time :: linorder
begin

definition less_eq_day_time :: "day_time \<Rightarrow> day_time \<Rightarrow> bool" where
  "s \<le> t \<longleftrightarrow> hour s < hour t \<or> hour s = hour t \<and> (minute s < minute t \<or> minute s = minute t \<and>
     (seconds s < seconds t \<or> seconds s = seconds t \<and> micro s \<le> micro t))"

definition less_day_time :: "day_time \<Rightarrow> day_time \<Rightarrow> bool" where
  "(s :: day_time) < t \<longleftrightarrow> s \<le> t \<and> s \<noteq> t"

instance
proof
  fix r s t :: day_time
  show "s < t \<longleftrightarrow> s \<le> t \<and> \<not> t \<le> s"
    by (cases s; cases t) (auto simp: less_eq_day_time_def less_day_time_def)
  show "s \<le> s" by (simp add: less_eq_day_time_def)
  show "r \<le> s \<Longrightarrow> s \<le> t \<Longrightarrow> r \<le> t" by (auto simp: less_eq_day_time_def)
  show "s \<le> t \<Longrightarrow> t \<le> s \<Longrightarrow> s = t" by (cases s; cases t) (auto simp: less_eq_day_time_def)
  show "s \<le> t \<or> t \<le> s" by (auto simp: less_eq_day_time_def)
qed

end

definition valid_time :: "day_time \<Rightarrow> bool" where
  "valid_time t \<longleftrightarrow> hour t < 24 \<and> minute t < 60 \<and> seconds t < 60 \<and> micro t < 1000000"

text \<open>\<open>time(h, m)\<close>; \<open>None\<close> for its \<open>ValueError\<close>.\<close>

definition mk_time :: "int \<Rightarrow> int \<Rightarrow> day_time option" where
  "mk_time h m = (if 0 \<le> h \<and> h < 24 \<and> 0 \<le> m \<and> m < 60 then Some (Time (nat h) (nat m) 0 0) else None)"

section \<open>Parsing\<close>

fun str_split :: "nat \<Rightarrow> pystr \<Rightarrow> pystr list" where
  "str_split sep [] = [[]]"
| "str_split sep (c # s) =
     (if c = sep then [] # str_split sep s
      else case str_split sep s of [] \<Rightarrow> [[c]] | p # ps \<Rightarrow> (c # p) # ps)"

text \<open>
  \<open>int(s)\<close> for ASCII digits, with surrounding space, a sign, and single underscores between
  digits; \<open>None\<close> for \<open>ValueError\<close>.
\<close>

definition int_digits :: "pystr \<Rightarrow> nat option" where
  "int_digits s =
     (if \<forall>p \<in> set (str_split 95 s). p \<noteq> [] \<and> list_all is_digit p then Some (read_nat (filter is_digit s)) else None)"

definition py_int :: "pystr \<Rightarrow> int option" where
  "py_int s =
     (case str_strip s of
        [] \<Rightarrow> None
      | c # r \<Rightarrow>
          if c = 45 then map_option (\<lambda>n. - int n) (int_digits r)
          else if c = 43 then map_option int (int_digits r)
          else map_option int (int_digits (c # r)))"

definition all_digits :: "pystr \<Rightarrow> bool" where
  "all_digits s \<longleftrightarrow> s \<noteq> [] \<and> list_all is_digit s"

text \<open>\<open>h, m = map(int, s.strip().split(":"))\<close> and then \<open>time(h, m)\<close>.\<close>

definition parse_time :: "pystr \<Rightarrow> day_time option" where
  "parse_time s =
     (case str_split 58 (str_strip s) of
        [h, m] \<Rightarrow> (case (py_int h, py_int m) of (Some h, Some m) \<Rightarrow> mk_time h m | _ \<Rightarrow> None)
      | _ \<Rightarrow> None)"

type_synonym blackout_window = "pystr \<times> day_time \<times> day_time"

definition ANY_PROVIDER :: pystr where "ANY_PROVIDER = u ''*''"

text \<open>One comma-separated part: whom it is for, and the text of its range.\<close>

definition split_provider :: "pystr \<Rightarrow> pystr \<times> pystr" where
  "split_provider part =
     (case str_partition [58] part of
        (potential_id, found, rest) \<Rightarrow>
          if found then (if all_digits (str_strip potential_id) then (ANY_PROVIDER, part) else (str_strip potential_id, rest))
          else (ANY_PROVIDER, part))"

definition parse_window :: "pystr \<Rightarrow> blackout_window option" where
  "parse_window part =
     (case split_provider part of
        (provider, time_range) \<Rightarrow>
          (case str_partition [45] (str_strip time_range) of
             (start_str, found, end_str) \<Rightarrow>
               if \<not> found then None
               else (case (parse_time start_str, parse_time end_str) of
                       (Some s, Some e) \<Rightarrow> Some (provider, s, e)
                     | _ \<Rightarrow> None)))"

definition parse_blackout_windows :: "pystr \<Rightarrow> blackout_window list" where
  "parse_blackout_windows blackout_str =
     (if str_strip blackout_str = [] then []
      else List.map_filter (\<lambda>part. if str_strip part = [] then None else parse_window (str_strip part))
             (str_split 44 blackout_str))"

section \<open>Membership\<close>

definition in_window_of :: "pystr \<Rightarrow> day_time \<Rightarrow> blackout_window \<Rightarrow> bool" where
  "in_window_of provider now w =
     (case w of (p, start, end) \<Rightarrow>
        (if p \<noteq> ANY_PROVIDER \<and> p \<noteq> provider then False
         else if start \<le> end then start \<le> now \<and> now \<le> end
         else start \<le> now \<or> now \<le> end))"

definition is_in_blackout :: "pystr \<Rightarrow> pystr \<Rightarrow> day_time \<Rightarrow> bool" where
  "is_in_blackout provider blackout_str now \<longleftrightarrow>
     (if str_strip blackout_str = [] then False
      else \<exists>w \<in> set (parse_blackout_windows blackout_str). in_window_of provider now w)"

section \<open>A window is an arc of the day\<close>

lemma micros_less_eq: "valid_time s \<Longrightarrow> valid_time t \<Longrightarrow> s \<le> t \<longleftrightarrow> micros s \<le> micros t"
  by (auto simp: less_eq_day_time_def micros_def valid_time_def)

definition DAY :: nat where "DAY = 86400000000"

lemma micros_bound: "valid_time t \<Longrightarrow> micros t < DAY"
  by (simp add: micros_def valid_time_def DAY_def)

lemma parse_time_valid: "parse_time s = Some t \<Longrightarrow> valid_time t"
  by (auto simp: parse_time_def mk_time_def valid_time_def nat_less_iff split: list.splits option.splits if_splits)

lemma parse_window_valid: "parse_window part = Some (p, s, e) \<Longrightarrow> valid_time s \<and> valid_time e"
  by (auto simp: parse_window_def parse_time_valid split: if_splits option.splits prod.splits)

lemma parsed_window:
  "w \<in> set (parse_blackout_windows str) \<Longrightarrow> \<exists>part \<in> set (str_split 44 str). parse_window (str_strip part) = Some w"
  by (force simp: parse_blackout_windows_def List.map_filter_def split: if_splits)

lemma parsed_valid: "(p, s, e) \<in> set (parse_blackout_windows str) \<Longrightarrow> valid_time s \<and> valid_time e"
  using parsed_window parse_window_valid by blast

text \<open>Microseconds from one time of day forward to another.\<close>

definition ahead :: "day_time \<Rightarrow> day_time \<Rightarrow> int" where
  "ahead s t = (int (micros t) - int (micros s)) mod int DAY"

lemma ahead_eq:
  assumes "valid_time s" "valid_time t"
  shows "ahead s t = (if s \<le> t then int (micros t) - int (micros s) else int (micros t) - int (micros s) + int DAY)"
proof -
  have b: "micros s < DAY" "micros t < DAY" using micros_bound assms by auto
  show ?thesis
  proof (cases "s \<le> t")
    case True
    then show ?thesis using b micros_less_eq [OF assms] by (simp add: ahead_def mod_pos_pos_trivial)
  next
    case False
    then have "micros t < micros s" using micros_less_eq [OF assms] by simp
    then have "(int (micros t) - int (micros s) + int DAY) mod int DAY = int (micros t) - int (micros s) + int DAY"
      using b by (intro mod_pos_pos_trivial) auto
    then show ?thesis using False by (simp add: ahead_def)
  qed
qed

text \<open>
  A provider is blacked out exactly when the time lies on the closed arc of the
  clock from the start to the end of one of the parsed windows for it or for everyone, windows
  across midnight included.
\<close>

theorem blackout_is_arc:
  assumes "valid_time now"
  shows "is_in_blackout provider blackout_str now \<longleftrightarrow>
    (\<exists>(p, start, end) \<in> set (parse_blackout_windows blackout_str).
       (p = ANY_PROVIDER \<or> p = provider) \<and> ahead start now \<le> ahead start end)"
proof -
  have arc: "in_window_of provider now (p, s, e) \<longleftrightarrow> (p = ANY_PROVIDER \<or> p = provider) \<and> ahead s now \<le> ahead s e"
    if v: "valid_time s" "valid_time e" for p s e
  proof -
    note order = micros_less_eq [OF v(1) assms] micros_less_eq [OF v] micros_less_eq [OF assms v(2)]
    have "ahead s now \<le> ahead s e \<longleftrightarrow> (if s \<le> e then s \<le> now \<and> now \<le> e else s \<le> now \<or> now \<le> e)"
      using micros_bound [OF assms] micros_bound [OF v(1)] micros_bound [OF v(2)]
      unfolding ahead_eq [OF v(1) assms] ahead_eq [OF v] order by (simp split: if_split)
    then show ?thesis by (simp add: in_window_of_def)
  qed
  have "is_in_blackout provider blackout_str now \<longleftrightarrow> (\<exists>w \<in> set (parse_blackout_windows blackout_str). in_window_of provider now w)"
    by (simp add: is_in_blackout_def parse_blackout_windows_def)
  also have "\<dots> \<longleftrightarrow> (\<exists>(p, start, end) \<in> set (parse_blackout_windows blackout_str).
       (p = ANY_PROVIDER \<or> p = provider) \<and> ahead start now \<le> ahead start end)"
    using arc parsed_valid by (intro bex_cong) auto
  finally show ?thesis .
qed

lemma blackout_is_arc_witness:
  "is_in_blackout (u ''kimi'') (u ''kimi:23:30-01:00'') (Time 0 15 0 0) \<longleftrightarrow>
    (\<exists>(p, start, end) \<in> set (parse_blackout_windows (u ''kimi:23:30-01:00'')).
       (p = ANY_PROVIDER \<or> p = u ''kimi'') \<and> ahead start (Time 0 15 0 0) \<le> ahead start end)"
  by (rule blackout_is_arc) (simp add: valid_time_def)

lemma midnight_example: "is_in_blackout (u ''kimi'') (u ''kimi:23:30-01:00'') (Time 0 15 0 0)"
  by code_simp

text \<open>
  The documented format suggests that further ranges belong to the provider named first; each
  range without a name is for every provider.
\<close>

lemma second_range_is_for_everyone:
  "parse_blackout_windows (u ''kimi:01:00-02:00,03:00-04:00'') =
     [(u ''kimi'', Time 1 0 0 0, Time 2 0 0 0), (ANY_PROVIDER, Time 3 0 0 0, Time 4 0 0 0)]"
  by code_simp

section \<open>Printing and reading back\<close>

definition show_time :: "day_time \<Rightarrow> pystr" where
  "show_time t = show_nat (hour t) @ 58 # show_nat (minute t)"

definition show_window :: "blackout_window \<Rightarrow> pystr" where
  "show_window w = (case w of (p, s, e) \<Rightarrow> p @ 58 # show_time s @ 45 # show_time e)"

definition plain_provider :: "pystr \<Rightarrow> bool" where
  "plain_provider p \<longleftrightarrow> p \<noteq> [] \<and> 44 \<notin> set p \<and> 58 \<notin> set p \<and> \<not> is_space (hd p) \<and> \<not> is_space (last p) \<and> \<not> all_digits p"

definition whole_minute :: "day_time \<Rightarrow> bool" where
  "whole_minute t \<longleftrightarrow> hour t < 24 \<and> minute t < 60 \<and> seconds t = 0 \<and> micro t = 0"

lemma str_split_plain: "c \<notin> set s \<Longrightarrow> str_split c s = [s]"
  by (induction s) auto

lemma str_split_append: "c \<notin> set s \<Longrightarrow> str_split c (s @ c # r) = s # str_split c r"
  by (induction s) auto

lemma str_split_join: "xs \<noteq> [] \<Longrightarrow> \<forall>x \<in> set xs. c \<notin> set x \<Longrightarrow> str_split c (str_join [c] xs) = xs"
  by (induction "[c]" xs rule: str_join.induct) (auto simp: str_split_plain str_split_append)

lemma find_char: "c \<notin> set s \<Longrightarrow> str_find [c] (s @ c # r) = Some (length s)"
  by (induction s) auto

lemma partition_char: "c \<notin> set s \<Longrightarrow> str_partition [c] (s @ c # r) = (s, True, r)"
  by (simp add: str_partition_def find_char)

lemma digit_not_space: "is_digit c \<Longrightarrow> \<not> is_space c"
  by (auto simp: is_digit_def is_space_def)

lemma show_nat_set: "c \<in> set (show_nat n) \<Longrightarrow> is_digit c"
  using show_nat_digits by blast

lemma strip_ends: "is_digit (hd s) \<Longrightarrow> is_digit (last s) \<Longrightarrow> s \<noteq> [] \<Longrightarrow> str_strip s = s"
  by (simp add: strip_plain_ends digit_not_space)

lemma show_time_ends: "show_time t \<noteq> []" "is_digit (hd (show_time t))" "is_digit (last (show_time t))"
  using show_nat_nonempty [of "hour t"] show_nat_nonempty [of "minute t"]
    show_nat_set [of "hd (show_nat (hour t))" "hour t"] show_nat_set [of "last (show_nat (minute t))" "minute t"]
  by (auto simp: show_time_def)

lemma show_time_chars: "c \<in> set (show_time t) \<Longrightarrow> is_digit c \<or> c = 58"
  by (auto simp: show_time_def dest: show_nat_set)

lemma py_int_show_nat: "py_int (show_nat n) = Some (int n)"
proof -
  have digits: "list_all is_digit (show_nat n)" using show_nat_digits by (simp add: list_all_iff)
  have "95 \<notin> set (show_nat n)" using show_nat_set [of 95 n] by (auto simp: is_digit_def)
  then have "int_digits (show_nat n) = Some n"
    using digits show_nat_nonempty [of n]
    by (simp add: int_digits_def str_split_plain filter_id_conv [THEN iffD2] list_all_iff read_show_nat)
  moreover have "str_strip (show_nat n) = show_nat n"
    using show_nat_nonempty [of n] digits by (intro strip_ends) (auto simp: list_all_iff)
  moreover have "c \<noteq> 45 \<and> c \<noteq> 43" if "show_nat n = c # r" for c r
    using digits that by (auto simp: is_digit_def)
  ultimately show ?thesis using show_nat_nonempty [of n] by (auto simp: py_int_def split: list.split)
qed

lemma parse_show_time: "whole_minute t \<Longrightarrow> parse_time (show_time t) = Some t"
proof -
  assume ok: "whole_minute t"
  have "58 \<notin> set (show_nat n)" for n using show_nat_set [of 58 n] by (auto simp: is_digit_def)
  then have "str_split 58 (show_time t) = [show_nat (hour t), show_nat (minute t)]"
    by (simp add: show_time_def str_split_append str_split_plain)
  moreover have "mk_time (int (hour t)) (int (minute t)) = Some t"
    using ok by (cases t) (simp add: mk_time_def whole_minute_def)
  ultimately show ?thesis
    using strip_ends [of "show_time t"] show_time_ends [of t] by (simp add: parse_time_def py_int_show_nat)
qed

lemma parse_show_window:
  assumes "plain_provider p" "whole_minute s" "whole_minute e"
  shows "parse_window (show_window (p, s, e)) = Some (p, s, e)" "str_strip (show_window (p, s, e)) = show_window (p, s, e)"
    "show_window (p, s, e) \<noteq> []" "44 \<notin> set (show_window (p, s, e))"
proof -
  let ?range = "show_time s @ 45 # show_time e"
  have p: "p \<noteq> []" "58 \<notin> set p" "str_strip p = p" "\<not> all_digits p"
    using assms(1) by (auto simp: plain_provider_def strip_plain_ends)
  have "45 \<notin> set (show_time s)" using show_time_chars [of 45 s] by (auto simp: is_digit_def)
  moreover have "str_strip ?range = ?range"
    using show_time_ends [of s] show_time_ends [of e] by (intro strip_ends) auto
  ultimately show "parse_window (show_window (p, s, e)) = Some (p, s, e)"
    using p assms(2,3)
    by (simp add: parse_window_def show_window_def split_provider_def partition_char parse_show_time)
  show "str_strip (show_window (p, s, e)) = show_window (p, s, e)"
    using assms(1) show_time_ends [of e] digit_not_space
    by (intro strip_plain_ends) (auto simp: show_window_def plain_provider_def)
  show "show_window (p, s, e) \<noteq> []" by (simp add: show_window_def)
  show "44 \<notin> set (show_window (p, s, e))"
    using assms(1) show_time_chars [of 44] by (auto simp: show_window_def plain_provider_def is_digit_def)
qed

text \<open>
  Windows printed as \<open>id:H:M-H:M\<close> and joined with commas are read back, for any
  identifiers without commas and colons that are not numbers.
\<close>

theorem windows_roundtrip:
  assumes "\<forall>(p, s, e) \<in> set ws. plain_provider p \<and> whole_minute s \<and> whole_minute e"
  shows "parse_blackout_windows (str_join (u '','') (map show_window ws)) = ws"
proof (cases "ws = []")
  case True
  then show ?thesis by (simp add: parse_blackout_windows_def str_strip_def str_lstrip_def str_rstrip_def)
next
  case False
  have comma: "u '','' = [44]" by (simp add: str_eval)
  have one: "parse_window (show_window w) = Some w \<and> str_strip (show_window w) = show_window w \<and> show_window w \<noteq> [] \<and> 44 \<notin> set (show_window w)"
    if "w \<in> set ws" for w
    using assms that parse_show_window by (cases w) fast
  then have split: "str_split 44 (str_join [44] (map show_window ws)) = map show_window ws"
    using False by (intro str_split_join) auto
  have "List.map_filter (\<lambda>part. if str_strip part = [] then None else parse_window (str_strip part)) (map show_window ws) = ws"
    using one by (induction ws) (auto simp: map_filter_simps)
  moreover have "str_strip (str_join [44] (map show_window ws)) \<noteq> []"
  proof
    assume blank: "str_strip (str_join [44] (map show_window ws)) = []"
    obtain w vs where ws: "ws = w # vs" using False by (cases ws) auto
    have "hd (show_window w) \<in> set (str_join [44] (map show_window ws))"
      using one [of w] by (cases vs) (auto simp: ws)
    moreover have "\<not> is_space (hd (show_window w))"
      using assms ws by (cases w) (auto simp: show_window_def plain_provider_def)
    moreover have "\<forall>c \<in> set (str_join [44] (map show_window ws)). is_space c"
      using blank unfolding str_strip_def str_lstrip_def str_rstrip_def
      by (auto simp: dropWhile_eq_Nil_conv dest: set_dropWhileD)
         (metis dropWhile_eq_Nil_conv dropWhile_idem hd_dropWhile list.set_sel(1))
    ultimately show False by blast
  qed
  ultimately show ?thesis by (simp add: parse_blackout_windows_def comma split)
qed

lemma windows_roundtrip_witness:
  "parse_blackout_windows (str_join (u '','') (map show_window [(u ''kimi'', Time 23 30 0 0, Time 1 0 0 0), (ANY_PROVIDER, Time 3 0 0 0, Time 4 5 0 0)]))
     = [(u ''kimi'', Time 23 30 0 0, Time 1 0 0 0), (ANY_PROVIDER, Time 3 0 0 0, Time 4 5 0 0)]"
proof (rule windows_roundtrip)
  have "list_all (\<lambda>(p, s, e). plain_provider p \<and> whole_minute s \<and> whole_minute e)
      [(u ''kimi'', Time 23 30 0 0, Time 1 0 0 0), (ANY_PROVIDER, Time 3 0 0 0, Time 4 5 0 0)]"
    by code_simp
  then show "\<forall>(p, s, e) \<in> set [(u ''kimi'', Time 23 30 0 0, Time 1 0 0 0), (ANY_PROVIDER, Time 3 0 0 0, Time 4 5 0 0)].
      plain_provider p \<and> whole_minute s \<and> whole_minute e"
    by (simp add: list_all_iff)
qed

end
