(* ===== verification/Trees.thy ===== *)
theory Trees
  imports PyJson "HOL-Library.Sublist"
begin

text \<open>
  Message trees (\<open>messaging/trees/data.py\<close>): the nodes of a conversation with their states, the
  queue of nodes waiting to be processed, the walk over a branch, and the JSON form a tree is
  saved in.  Times are carried as their ISO texts; the clock reading is an argument.
\<close>

section \<open>The queue\<close>

text \<open>\<open>_SnapshotQueue\<close>: a deque with a set index beside it.\<close>

record snapshot_queue =
  sq_deque :: "pystr list"
  sq_set :: "pystr list"

definition SnapshotQueue :: snapshot_queue where
  "SnapshotQueue = \<lparr>sq_deque = [], sq_set = []\<rparr>"

definition put_nowait :: "pystr \<Rightarrow> snapshot_queue \<Rightarrow> snapshot_queue" where
  "put_nowait x q = \<lparr>sq_deque = sq_deque q @ [x], sq_set = List.insert x (sq_set q)\<rparr>"

definition get_nowait :: "snapshot_queue \<Rightarrow> (pystr \<times> snapshot_queue) option" where
  "get_nowait q = (case sq_deque q of [] \<Rightarrow> None | x # xs \<Rightarrow> Some (x, \<lparr>sq_deque = xs, sq_set = removeAll x (sq_set q)\<rparr>))"

definition qsize :: "snapshot_queue \<Rightarrow> nat" where
  "qsize q = length (sq_deque q)"

definition get_snapshot :: "snapshot_queue \<Rightarrow> pystr list" where
  "get_snapshot q = sq_deque q"

definition remove_if_present :: "pystr \<Rightarrow> snapshot_queue \<Rightarrow> bool \<times> snapshot_queue" where
  "remove_if_present x q =
     (if x \<notin> set (sq_set q) then (False, q)
      else (True, \<lparr>sq_deque = filter (\<lambda>y. y \<noteq> x) (sq_deque q), sq_set = removeAll x (sq_set q)\<rparr>))"

text \<open>What a removable FIFO queue promises, over an abstraction to lists.\<close>

locale removable_fifo =
  fixes enq :: "'a \<Rightarrow> 'q \<Rightarrow> 'q"
    and deq :: "'q \<Rightarrow> ('a \<times> 'q) option"
    and cut :: "'a \<Rightarrow> 'q \<Rightarrow> bool \<times> 'q"
    and contents :: "'q \<Rightarrow> 'a list"
    and good :: "'q \<Rightarrow> bool"
  assumes enq_contents: "good q \<Longrightarrow> contents (enq x q) = contents q @ [x]"
    and enq_good: "good q \<Longrightarrow> x \<notin> set (contents q) \<Longrightarrow> good (enq x q)"
    and deq_contents: "good q \<Longrightarrow> map_option (\<lambda>(x, q'). (x, contents q')) (deq q) =
      (case contents q of [] \<Rightarrow> None | x # xs \<Rightarrow> Some (x, xs))"
    and deq_good: "good q \<Longrightarrow> deq q = Some (x, q') \<Longrightarrow> good q'"
    and cut_contents: "good q \<Longrightarrow> contents (snd (cut x q)) = filter (\<lambda>y. y \<noteq> x) (contents q)"
    and cut_found: "good q \<Longrightarrow> fst (cut x q) = (x \<in> set (contents q))"
    and cut_good: "good q \<Longrightarrow> good (snd (cut x q))"
begin

text \<open>A removed item never comes out, the others keep their order.\<close>

lemma deq_after_cut:
  assumes "good q" "deq (snd (cut x q)) = Some (y, q')"
  shows "y \<noteq> x \<and> y # contents q' = filter (\<lambda>z. z \<noteq> x) (contents q)"
proof -
  have "Some (y, contents q') = (case contents (snd (cut x q)) of [] \<Rightarrow> None | x # xs \<Rightarrow> Some (x, xs))"
    using deq_contents [OF cut_good [OF assms(1)], of x] assms(2) by simp
  then have "contents (snd (cut x q)) = y # contents q'" by (auto split: list.splits)
  then show ?thesis using cut_contents [OF assms(1), of x]
    by (metis (mono_tags, lifting) filter_eq_Cons_iff)
qed

lemma deq_first:
  assumes "good q" "contents q = x # xs"
  obtains q' where "deq q = Some (x, q')" "contents q' = xs" "good q'"
  using deq_contents [OF assms(1)] assms(2) deq_good [OF assms(1)] by (cases "deq q") auto

end

text \<open>The index agrees with the deque as long as nothing is queued twice.\<close>

definition queue_good :: "snapshot_queue \<Rightarrow> bool" where
  "queue_good q \<longleftrightarrow> distinct (sq_deque q) \<and> set (sq_set q) = set (sq_deque q)"

interpretation fifo: removable_fifo put_nowait get_nowait remove_if_present get_snapshot queue_good
  by unfold_locales
    (auto simp: put_nowait_def get_nowait_def remove_if_present_def get_snapshot_def queue_good_def
      intro!: filter_True [symmetric] split: list.splits)

text \<open>A node queued twice loses its index entry with the first copy and cannot be removed any more.\<close>

lemma duplicate_not_removable:
  "map_option (\<lambda>(x, q). remove_if_present (u ''n'') q) (get_nowait (put_nowait (u ''n'') (put_nowait (u ''n'') SnapshotQueue))) =
     Some (False, \<lparr>sq_deque = [u ''n''], sq_set = []\<rparr>)"
  by code_simp

section \<open>Nodes\<close>

datatype message_state = PENDING | IN_PROGRESS | COMPLETED | ERROR

record incoming_message =
  im_text :: pystr
  im_chat_id :: pystr
  im_user_id :: pystr
  im_message_id :: pystr
  im_platform :: pystr
  im_reply_to_message_id :: "pystr option"
  im_message_thread_id :: "pystr option"
  im_username :: "pystr option"

record message_node =
  node_id :: pystr
  incoming :: incoming_message
  status_message_id :: pystr
  node_state :: message_state
  parent_id :: "pystr option"
  session_id :: "pystr option"
  children_ids :: "pystr list"
  created_at :: pystr
  completed_at :: "pystr option"
  error_message :: "pystr option"

definition MessageNode :: "pystr \<Rightarrow> incoming_message \<Rightarrow> pystr \<Rightarrow> pystr option \<Rightarrow> pystr \<Rightarrow> message_node" where
  "MessageNode nid inc status parent now =
     \<lparr>node_id = nid, incoming = inc, status_message_id = status, node_state = PENDING, parent_id = parent,
      session_id = None, children_ids = [], created_at = now, completed_at = None, error_message = None\<rparr>"

section \<open>Trees\<close>

record message_tree =
  root_id :: pystr
  nodes :: "(pystr, message_node) dict"
  status_to_node :: "(pystr, pystr) dict"
  queue :: snapshot_queue
  is_processing :: bool
  current_node_id :: "pystr option"
  current_task :: "nat option"

definition MessageTree :: "message_node \<Rightarrow> message_tree" where
  "MessageTree root_node =
     \<lparr>root_id = node_id root_node, nodes = [(node_id root_node, root_node)],
      status_to_node = [(status_message_id root_node, node_id root_node)], queue = SnapshotQueue,
      is_processing = False, current_node_id = None, current_task = None\<rparr>"

definition get_node :: "pystr \<Rightarrow> message_tree \<Rightarrow> message_node option" where
  "get_node nid t = dict_get (nodes t) nid"

definition has_node :: "pystr \<Rightarrow> message_tree \<Rightarrow> bool" where
  "has_node nid t \<longleftrightarrow> dict_get (nodes t) nid \<noteq> None"

definition put_node :: "message_node \<Rightarrow> message_tree \<Rightarrow> message_tree" where
  "put_node n t = t\<lparr>nodes := dict_set (node_id n) n (nodes t)\<rparr>"

definition add_node :: "pystr \<Rightarrow> incoming_message \<Rightarrow> pystr \<Rightarrow> pystr \<Rightarrow> pystr \<Rightarrow> message_tree \<Rightarrow> py_exn + message_tree" where
  "add_node nid inc status parent now t =
     (if dict_get (nodes t) parent = None then Inl ValueError
      else
        let ns = dict_set nid (MessageNode nid inc status (Some parent) now) (nodes t) in
        case dict_get ns parent of
          None \<Rightarrow> Inl KeyError
        | Some p \<Rightarrow>
            Inr (t\<lparr>nodes := dict_set parent (p\<lparr>children_ids := children_ids p @ [nid]\<rparr>) ns,
                   status_to_node := dict_set status nid (status_to_node t)\<rparr>))"

definition get_children :: "pystr \<Rightarrow> message_tree \<Rightarrow> message_node list" where
  "get_children nid t =
     (case get_node nid t of None \<Rightarrow> [] | Some n \<Rightarrow> List.map_filter (\<lambda>c. get_node c t) (children_ids n))"

definition get_parent :: "pystr \<Rightarrow> message_tree \<Rightarrow> message_node option" where
  "get_parent nid t =
     (case get_node nid t of
        None \<Rightarrow> None
      | Some n \<Rightarrow> (case parent_id n of None \<Rightarrow> None | Some p \<Rightarrow> if p = [] then None else get_node p t))"

definition get_parent_session_id :: "pystr \<Rightarrow> message_tree \<Rightarrow> pystr option" where
  "get_parent_session_id nid t = (case get_parent nid t of None \<Rightarrow> None | Some p \<Rightarrow> session_id p)"

text \<open>Python's \<open>if x:\<close> on an optional string keeps the old value for \<open>None\<close> and the empty string.\<close>

definition override :: "pystr option \<Rightarrow> pystr option \<Rightarrow> pystr option" where
  "override new old = (case new of Some s \<Rightarrow> if s = [] then old else new | None \<Rightarrow> old)"

definition update_state ::
    "pystr \<Rightarrow> message_state \<Rightarrow> pystr option \<Rightarrow> pystr option \<Rightarrow> pystr \<Rightarrow> message_tree \<Rightarrow> message_tree" where
  "update_state nid st session err now t =
     (case get_node nid t of
        None \<Rightarrow> t
      | Some n \<Rightarrow>
          t\<lparr>nodes := dict_set nid
             (n\<lparr>node_state := st, session_id := override session (session_id n), error_message := override err (error_message n),
                completed_at := (if st = COMPLETED \<or> st = ERROR then Some now else completed_at n)\<rparr>) (nodes t)\<rparr>)"

definition set_node_error_sync :: "pystr \<Rightarrow> pystr \<Rightarrow> pystr \<Rightarrow> message_tree \<Rightarrow> message_tree" where
  "set_node_error_sync nid err now t =
     (case get_node nid t of
        None \<Rightarrow> t
      | Some n \<Rightarrow> t\<lparr>nodes := dict_set nid (n\<lparr>node_state := ERROR, error_message := Some err, completed_at := Some now\<rparr>) (nodes t)\<rparr>)"

definition tree_enqueue :: "pystr \<Rightarrow> message_tree \<Rightarrow> nat \<times> message_tree" where
  "tree_enqueue nid t = (let t' = t\<lparr>queue := put_nowait nid (queue t)\<rparr> in (qsize (queue t'), t'))"

definition tree_dequeue :: "message_tree \<Rightarrow> pystr option \<times> message_tree" where
  "tree_dequeue t = (case get_nowait (queue t) of None \<Rightarrow> (None, t) | Some (x, q) \<Rightarrow> (Some x, t\<lparr>queue := q\<rparr>))"

definition remove_from_queue :: "pystr \<Rightarrow> message_tree \<Rightarrow> bool \<times> message_tree" where
  "remove_from_queue nid t = (case remove_if_present nid (queue t) of (b, q) \<Rightarrow> (b, t\<lparr>queue := q\<rparr>))"

definition set_processing_state :: "pystr option \<Rightarrow> bool \<Rightarrow> message_tree \<Rightarrow> message_tree" where
  "set_processing_state nid p t = t\<lparr>is_processing := p, current_node_id := (if p then nid else None)\<rparr>"

definition clear_current_node :: "message_tree \<Rightarrow> message_tree" where
  "clear_current_node t = t\<lparr>current_node_id := None\<rparr>"

definition is_current_node :: "pystr \<Rightarrow> message_tree \<Rightarrow> bool" where
  "is_current_node nid t \<longleftrightarrow> current_node_id t = Some nid"

definition reset_processing_state :: "message_tree \<Rightarrow> message_tree" where
  "reset_processing_state t = t\<lparr>is_processing := False, current_node_id := None\<rparr>"

definition find_node_by_status_message :: "pystr \<Rightarrow> message_tree \<Rightarrow> message_node option" where
  "find_node_by_status_message status t =
     (case dict_get (status_to_node t) status of None \<Rightarrow> None | Some nid \<Rightarrow> if nid = [] then None else get_node nid t)"

text \<open>\<open>drain_queue_and_mark_cancelled\<close>; the ids of the nodes it marked, in queue order.\<close>

fun drain_ids :: "pystr \<Rightarrow> pystr \<Rightarrow> pystr list \<Rightarrow> message_tree \<Rightarrow> pystr list \<times> message_tree" where
  "drain_ids err now [] t = ([], t)"
| "drain_ids err now (nid # ids) t =
     (case get_node nid t of
        None \<Rightarrow> drain_ids err now ids t
      | Some n \<Rightarrow> (case drain_ids err now ids (set_node_error_sync nid err now t) of (rs, t') \<Rightarrow> (nid # rs, t')))"

definition drain_queue_and_mark_cancelled :: "pystr \<Rightarrow> pystr \<Rightarrow> message_tree \<Rightarrow> pystr list \<times> message_tree" where
  "drain_queue_and_mark_cancelled err now t =
     drain_ids err now (sq_deque (queue t))
       (t\<lparr>queue := \<lparr>sq_deque = [], sq_set = filter (\<lambda>x. x \<notin> set (sq_deque (queue t))) (sq_set (queue t))\<rparr>\<rparr>)"

subsection \<open>Branches\<close>

text \<open>The loop of \<open>get_descendants\<close>; the end of the stack is its top.  \<open>None\<close> when the fuel runs out.\<close>

fun descend :: "nat \<Rightarrow> (pystr, message_node) dict \<Rightarrow> pystr list \<Rightarrow> pystr list \<Rightarrow> pystr list option" where
  "descend fuel ns res [] = Some res"
| "descend 0 ns res (x # xs) = None"
| "descend (Suc fuel) ns res (x # xs) =
     (let stack = x # xs; nid = last stack in
      descend fuel ns (res @ [nid])
        (butlast stack @ (case dict_get ns nid of None \<Rightarrow> [] | Some n \<Rightarrow> children_ids n)))"

definition get_descendants :: "nat \<Rightarrow> pystr \<Rightarrow> message_tree \<Rightarrow> pystr list option" where
  "get_descendants fuel nid t = (if \<not> has_node nid t then Some [] else descend fuel (nodes t) [] [nid])"

text \<open>The deletions of \<open>remove_branch\<close>; \<open>del\<close> of a missing status raises.\<close>

fun delete_nodes :: "pystr list \<Rightarrow> message_tree \<Rightarrow> py_exn + message_node list \<times> message_tree" where
  "delete_nodes [] t = Inr ([], t)"
| "delete_nodes (nid # ids) t =
     (case get_node nid t of
        None \<Rightarrow> delete_nodes ids t
      | Some n \<Rightarrow>
          if dict_get (status_to_node t) (status_message_id n) = None then Inl KeyError
          else case delete_nodes ids (t\<lparr>nodes := dict_pop nid (nodes t),
                   status_to_node := dict_pop (status_message_id n) (status_to_node t)\<rparr>) of
              Inl e \<Rightarrow> Inl e
            | Inr (removed, t') \<Rightarrow> Inr (n # removed, t'))"

definition remove_branch :: "nat \<Rightarrow> pystr \<Rightarrow> message_tree \<Rightarrow> (py_exn + message_node list \<times> message_tree) option" where
  "remove_branch fuel branch t =
     (if \<not> has_node branch t then Some (Inr ([], t))
      else map_option (\<lambda>ids.
        (case delete_nodes ids t of
           Inl e \<Rightarrow> Inl e
         | Inr (removed, t1) \<Rightarrow>
             (case get_parent branch t of
                None \<Rightarrow> Inr (removed, t1)
              | Some p \<Rightarrow>
                  (case get_node (node_id p) t1 of
                     None \<Rightarrow> Inr (removed, t1)
                   | Some p1 \<Rightarrow>
                       Inr (removed, t1\<lparr>nodes := dict_set (node_id p)
                         (p1\<lparr>children_ids := filter (\<lambda>c. c \<noteq> branch) (children_ids p1)\<rparr>) (nodes t1)\<rparr>)))))
        (get_descendants fuel branch t))"

section \<open>Well-formed trees\<close>

definition child_rel :: "message_tree \<Rightarrow> (pystr \<times> pystr) set" where
  "child_rel t = {(k, c). \<exists>n. get_node k t = Some n \<and> c \<in> set (children_ids n)}"

text \<open>
  Links agree in both directions, no child is listed twice, nothing is its own descendant, and
  every node is found under its own id and its status message.
\<close>

definition tree_wf :: "message_tree \<Rightarrow> bool" where
  "tree_wf t \<longleftrightarrow>
     dict_wf (nodes t) \<and> get_node [] t = None \<and>
     (\<forall>k n. get_node k t = Some n \<longrightarrow>
        node_id n = k \<and> distinct (children_ids n) \<and> dict_get (status_to_node t) (status_message_id n) = Some k) \<and>
     (\<forall>k c. (k, c) \<in> child_rel t \<longleftrightarrow> (\<exists>m. get_node c t = Some m \<and> parent_id m = Some k)) \<and>
     (\<exists>rank :: pystr \<Rightarrow> nat. \<forall>(k, c) \<in> child_rel t. rank k < rank c)"

lemma child_relI: "get_node k t = Some n \<Longrightarrow> c \<in> set (children_ids n) \<Longrightarrow> (k, c) \<in> child_rel t"
  by (auto simp: child_rel_def)

lemma wf_entry:
  assumes "tree_wf t" "get_node k t = Some n"
  shows "node_id n = k" "distinct (children_ids n)" "dict_get (status_to_node t) (status_message_id n) = Some k"
  using assms unfolding tree_wf_def by simp_all

lemma wf_link: "tree_wf t \<Longrightarrow> (k, c) \<in> child_rel t \<longleftrightarrow> (\<exists>m. get_node c t = Some m \<and> parent_id m = Some k)"
  by (simp add: tree_wf_def)

lemma wf_dict: "tree_wf t \<Longrightarrow> dict_wf (nodes t)"
  by (simp add: tree_wf_def)

lemma wf_no_empty: "tree_wf t \<Longrightarrow> get_node [] t = None"
  by (simp add: tree_wf_def)

lemma wf_rank:
  assumes "tree_wf t"
  obtains rank :: "pystr \<Rightarrow> nat" where "\<And>k c. (k, c) \<in> child_rel t \<Longrightarrow> rank k < rank c"
  using assms unfolding tree_wf_def by blast

text \<open>What the walks need: children exist, have one parent, are listed once, and nothing is its own descendant.\<close>

definition forest :: "message_tree \<Rightarrow> bool" where
  "forest t \<longleftrightarrow>
     (\<forall>k c. (k, c) \<in> child_rel t \<longrightarrow> has_node c t) \<and>
     (\<forall>k k' c. (k, c) \<in> child_rel t \<longrightarrow> (k', c) \<in> child_rel t \<longrightarrow> k = k') \<and>
     (\<forall>k n. get_node k t = Some n \<longrightarrow> distinct (children_ids n)) \<and>
     (\<exists>rank :: pystr \<Rightarrow> nat. \<forall>(k, c) \<in> child_rel t. rank k < rank c)"

lemma wf_forest: "tree_wf t \<Longrightarrow> forest t"
proof -
  assume wf: "tree_wf t"
  have "has_node c t" if "(k, c) \<in> child_rel t" for k c
    using that unfolding wf_link [OF wf] by (auto simp: has_node_def get_node_def)
  moreover have "k = k'" if "(k, c) \<in> child_rel t" "(k', c) \<in> child_rel t" for k k' c
    using that unfolding wf_link [OF wf] by auto
  moreover have "distinct (children_ids n)" if "get_node k t = Some n" for k n
    using wf_entry(2) [OF wf that] .
  moreover have "\<exists>rank :: pystr \<Rightarrow> nat. \<forall>(k, c) \<in> child_rel t. rank k < rank c"
    using wf by (simp add: tree_wf_def)
  ultimately show ?thesis unfolding forest_def by blast
qed

lemma forest_dom: "forest t \<Longrightarrow> (k, c) \<in> child_rel t \<Longrightarrow> has_node c t"
  unfolding forest_def by blast

lemma forest_parent: "forest t \<Longrightarrow> (k, c) \<in> child_rel t \<Longrightarrow> (k', c) \<in> child_rel t \<Longrightarrow> k = k'"
  unfolding forest_def by blast

lemma forest_children: "forest t \<Longrightarrow> get_node k t = Some n \<Longrightarrow> distinct (children_ids n)"
  unfolding forest_def by blast

lemma forest_acyclic: "forest t \<Longrightarrow> (b, k) \<in> (child_rel t)\<^sup>* \<Longrightarrow> (k, b) \<notin> child_rel t"
proof
  assume wf: "forest t" and bk: "(b, k) \<in> (child_rel t)\<^sup>*" and kb: "(k, b) \<in> child_rel t"
  obtain rank :: "pystr \<Rightarrow> nat" where rank: "\<forall>(k, c) \<in> child_rel t. rank k < rank c"
    using wf unfolding forest_def by blast
  have "rank b \<le> rank k" using bk by (induction rule: rtrancl_induct) (use rank in fastforce)+
  then show False using rank kb by fastforce
qed

lemmas child_dom = forest_dom [OF wf_forest]
lemmas one_parent = forest_parent [OF wf_forest]
lemmas no_cycle = forest_acyclic [OF wf_forest]

text \<open>The state of the walk: visited nodes, then the stack.\<close>

definition walking :: "message_tree \<Rightarrow> pystr \<Rightarrow> pystr list \<Rightarrow> pystr list \<Rightarrow> bool" where
  "walking t b res stack \<longleftrightarrow>
     distinct (res @ stack) \<and> b \<in> set (res @ stack) \<and>
     (\<forall>x \<in> set (res @ stack). has_node x t \<and> (b, x) \<in> (child_rel t)\<^sup>* \<and> (x = b \<or> (\<exists>k \<in> set res. (k, x) \<in> child_rel t))) \<and>
     (\<forall>k \<in> set res. \<forall>c. (k, c) \<in> child_rel t \<longrightarrow> c \<in> set (res @ stack))"

lemma walking_step:
  assumes wf: "forest t" and w: "walking t b res (st @ [nid])" and n: "get_node nid t = Some n"
  shows "walking t b (res @ [nid]) (st @ children_ids n)"
proof -
  have nid: "has_node nid t" "(b, nid) \<in> (child_rel t)\<^sup>*" "nid \<notin> set res" "nid \<notin> set st"
    using w by (auto simp: walking_def)
  have kids: "(nid, c) \<in> child_rel t" if "c \<in> set (children_ids n)" for c
    using n that by (rule child_relI)
  have fresh: "c \<notin> set (res @ st @ [nid])" if c: "c \<in> set (children_ids n)" for c
  proof
    assume "c \<in> set (res @ st @ [nid])"
    then have "c = b \<or> (\<exists>k \<in> set res. (k, c) \<in> child_rel t)" using w unfolding walking_def by auto
    then show False
      using forest_acyclic [OF wf nid(2)] kids [OF c] forest_parent [OF wf _ kids [OF c]] nid(3) by blast
  qed
  have "distinct (children_ids n)" using forest_children [OF wf n] .
  then have "distinct ((res @ [nid]) @ st @ children_ids n)" using w fresh by (auto simp: walking_def)
  moreover have "has_node x t \<and> (b, x) \<in> (child_rel t)\<^sup>* \<and> (x = b \<or> (\<exists>k \<in> set (res @ [nid]). (k, x) \<in> child_rel t))"
    if "x \<in> set ((res @ [nid]) @ st @ children_ids n)" for x
  proof (cases "x \<in> set (children_ids n)")
    case True
    then show ?thesis using kids [OF True] forest_dom [OF wf] nid(2) by (auto intro: rtrancl_into_rtrancl)
  next
    case False
    then show ?thesis using w that unfolding walking_def by auto
  qed
  moreover have "c \<in> set ((res @ [nid]) @ st @ children_ids n)" if "k \<in> set (res @ [nid])" "(k, c) \<in> child_rel t" for k c
  proof (cases "k = nid")
    case True
    then show ?thesis using that(2) n by (auto simp: child_rel_def)
  next
    case False
    then show ?thesis using w that unfolding walking_def by auto
  qed
  ultimately show ?thesis using w unfolding walking_def by auto
qed

lemma walking_short: "walking t b res stack \<Longrightarrow> length res + length stack \<le> length (nodes t)"
proof -
  assume w: "walking t b res stack"
  have "set (res @ stack) \<subseteq> fst ` set (nodes t)"
  proof
    fix x
    assume "x \<in> set (res @ stack)"
    then have "has_node x t" using w by (auto simp: walking_def)
    then show "x \<in> fst ` set (nodes t)" by (metis dict_get_None_iff has_node_def)
  qed
  then have "card (set (res @ stack)) \<le> card (fst ` set (nodes t))" by (intro card_mono) auto
  also have "\<dots> \<le> length (nodes t)" by (metis card_length length_map list.set_map)
  finally show ?thesis using w by (metis distinct_card length_append walking_def)
qed

lemma descend_snoc:
  "descend (Suc fuel) ns res (st @ [nid]) =
     descend fuel ns (res @ [nid]) (st @ (case dict_get ns nid of None \<Rightarrow> [] | Some n \<Rightarrow> children_ids n))"
  by (cases st) (simp_all add: Let_def)

lemma descend_walk:
  assumes "forest t"
  shows "walking t b res stack \<Longrightarrow> length (nodes t) \<le> fuel + length res \<Longrightarrow>
    \<exists>ids. descend fuel (nodes t) res stack = Some ids \<and> walking t b ids []"
proof (induction fuel arbitrary: res stack)
  case 0
  have "length stack = 0" using walking_short [OF "0.prems"(1)] "0.prems"(2) by linarith
  then have "stack = []" by simp
  then show ?case using 0 by simp
next
  case (Suc fuel)
  show ?case
  proof (cases stack rule: rev_cases)
    case Nil
    then show ?thesis using Suc.prems by simp
  next
    case (snoc st nid)
    then have "has_node nid t" using Suc.prems(1) by (simp add: walking_def)
    then obtain n where n: "get_node nid t = Some n" by (auto simp: has_node_def get_node_def)
    have "descend (Suc fuel) (nodes t) res stack = descend fuel (nodes t) (res @ [nid]) (st @ children_ids n)"
      using n snoc by (simp add: descend_snoc get_node_def del: descend.simps)
    then show ?thesis
      using Suc.IH [OF walking_step [OF assms _ n]] Suc.prems snoc by simp
  qed
qed

lemma walk_end: "walking t b ids [] \<Longrightarrow> distinct ids \<and> set ids = {x. (b, x) \<in> (child_rel t)\<^sup>*}"
proof -
  assume w: "walking t b ids []"
  have closed: "\<forall>k \<in> set ids. \<forall>c. (k, c) \<in> child_rel t \<longrightarrow> c \<in> set ids" and here: "b \<in> set ids"
    and below: "\<forall>x \<in> set ids. (b, x) \<in> (child_rel t)\<^sup>*" and once: "distinct ids"
    using w by (simp_all add: walking_def)
  have "x \<in> set ids" if "(b, x) \<in> (child_rel t)\<^sup>*" for x
    using that by (induction rule: rtrancl_induct) (use closed here in blast)+
  then show ?thesis using below once by blast
qed

lemma descendants:
  assumes "forest t" "has_node b t" "length (nodes t) \<le> fuel"
  shows "\<exists>ids. get_descendants fuel b t = Some ids \<and> distinct ids \<and> set ids = {x. (b, x) \<in> (child_rel t)\<^sup>*}"
proof -
  have "walking t b [] [b]" using assms(2) by (simp add: walking_def)
  from descend_walk [OF assms(1) this, of fuel] show ?thesis
    using assms(2,3) walk_end by (auto simp: get_descendants_def)
qed

text \<open>
  On a well-formed tree \<open>get_descendants\<close> ends after at most as many rounds as
  the tree has nodes, and lists the node and everything below it, each once.
\<close>

theorem descendants_exact:
  assumes "tree_wf t" "has_node b t"
  shows "\<exists>ids. get_descendants (length (nodes t)) b t = Some ids \<and> distinct ids \<and> set ids = {x. (b, x) \<in> (child_rel t)\<^sup>*}"
  by (rule descendants [OF wf_forest [OF assms(1)] assms(2) order_refl])

subsection \<open>Growing a tree\<close>

lemma get_node_put: "get_node k (t\<lparr>nodes := dict_set j n (nodes t)\<rparr>) = (if k = j then Some n else get_node k t)"
  by (simp add: get_node_def dict_simps)

lemma tree_wf_root: "node_id n \<noteq> [] \<Longrightarrow> children_ids n = [] \<Longrightarrow> parent_id n = None \<Longrightarrow> tree_wf (MessageTree n)"
  by (auto simp: tree_wf_def MessageTree_def get_node_def child_rel_def)

lemma add_node_ok:
  assumes "tree_wf t" "get_node nid t = None" "nid \<noteq> []" "dict_get (status_to_node t) status = None" "add_node nid inc status parent now t = Inr t'"
  shows "tree_wf t' \<and> child_rel t' = insert (parent, nid) (child_rel t) \<and> has_node nid t'"
proof -
  let ?new = "MessageNode nid inc status (Some parent) now"
  obtain p where p: "get_node parent t = Some p" using assms(5) by (auto simp: add_node_def get_node_def split: if_splits)
  have ne: "parent \<noteq> nid" using p assms(2) by auto
  then have t': "t' = t\<lparr>nodes := dict_set parent (p\<lparr>children_ids := children_ids p @ [nid]\<rparr>) (dict_set nid ?new (nodes t)),
      status_to_node := dict_set status nid (status_to_node t)\<rparr>"
    using assms(5) p by (auto simp: add_node_def get_node_def dict_simps Let_def)
  have get: "get_node k t' = (if k = parent then Some (p\<lparr>children_ids := children_ids p @ [nid]\<rparr>)
      else if k = nid then Some ?new else get_node k t)" for k
    by (simp add: t' get_node_def dict_simps)
  have rel: "child_rel t' = insert (parent, nid) (child_rel t)"
    using assms(2) p ne by (auto simp: child_rel_def get MessageNode_def split: if_splits)
  note wf = assms(1) [unfolded tree_wf_def]
  have nid_free: "(k, nid) \<notin> child_rel t" "(nid, c) \<notin> child_rel t" for k c
    using child_dom [OF assms(1), of k nid] assms(2) by (auto simp: child_rel_def has_node_def get_node_def)
  have links: "(k, c) \<in> child_rel t' \<longleftrightarrow> (\<exists>m. get_node c t' = Some m \<and> parent_id m = Some k)" for k c
  proof -
    have "(k, c) \<in> child_rel t \<longleftrightarrow> (\<exists>m. get_node c t = Some m \<and> parent_id m = Some k)" using wf by blast
    then show ?thesis using nid_free p ne by (auto simp: rel get MessageNode_def)
  qed
  obtain rank :: "pystr \<Rightarrow> nat" where rank: "\<forall>(k, c) \<in> child_rel t. rank k < rank c" using wf by blast
  have ranked: "\<exists>rank :: pystr \<Rightarrow> nat. \<forall>(k, c) \<in> child_rel t'. rank k < rank c"
    using rank nid_free ne by (intro exI [of _ "rank(nid := Suc (rank parent))"]) (auto simp: rel)
  have status: "status_message_id n \<noteq> status" if "get_node k t = Some n" for k n
    using wf that assms(4) by (metis option.distinct(1))
  have node: "node_id n = k \<and> distinct (children_ids n) \<and> dict_get (status_to_node t') (status_message_id n) = Some k"
    if got: "get_node k t' = Some n" for k n
  proof -
    have old: "node_id p = parent" "distinct (children_ids p)" "nid \<notin> set (children_ids p)"
      "dict_get (status_to_node t) (status_message_id p) = Some parent"
      using wf p nid_free(1) [of parent] child_relI [OF p] by blast+
    have st: "dict_get (status_to_node t') s = (if s = status then Some nid else dict_get (status_to_node t) s)" for s
      by (simp add: t' dict_simps)
    have "status_message_id p \<noteq> status" by (rule status [OF p])
    consider "k = parent" | "k = nid" "k \<noteq> parent" | "get_node k t = Some n" "k \<noteq> parent" "k \<noteq> nid"
      using got by (auto simp: get split: if_splits)
    then show ?thesis
    proof cases
      case 3
      then show ?thesis using wf_entry [OF assms(1) 3(1)] status [OF 3(1)] by (simp add: st)
    qed (use got ne old \<open>status_message_id p \<noteq> status\<close> in \<open>auto simp: get MessageNode_def st\<close>)
  qed
  have "dict_wf (nodes t')" using wf_dict [OF assms(1)] by (simp add: t' dict_simps)
  moreover have "get_node [] t' = None" using wf_no_empty [OF assms(1)] p assms(3) by (auto simp: get)
  ultimately have "tree_wf t'" unfolding tree_wf_def using links ranked node by (intro conjI allI impI) simp_all
  moreover have "has_node nid t'" unfolding has_node_def get_node_def [symmetric] by (simp add: get)
  ultimately show ?thesis using rel by simp
qed

text \<open>
  A node added under its own id replaces the root and becomes its own child; the walk over the
  branch then never ends.
\<close>

definition looped_tree :: message_tree where
  "looped_tree =
     (let inc = \<lparr>im_text = [], im_chat_id = [], im_user_id = [], im_message_id = u ''r'', im_platform = [],
            im_reply_to_message_id = None, im_message_thread_id = None, im_username = None\<rparr>
      in case add_node (u ''r'') inc (u ''s2'') (u ''r'') [] (MessageTree (MessageNode (u ''r'') inc (u ''s1'') None [])) of
           Inr t \<Rightarrow> t | Inl e \<Rightarrow> MessageTree (MessageNode [] inc [] None []))"

lemma looped_walk: "get_descendants fuel (u ''r'') looped_tree = None"
proof -
  have kids: "map_option children_ids (dict_get (nodes looped_tree) (u ''r'')) = Some [u ''r'']" by code_simp
  then obtain n where n: "dict_get (nodes looped_tree) (u ''r'') = Some n" "children_ids n = [u ''r'']" by auto
  have "descend fuel (nodes looped_tree) res [u ''r''] = None" for res
    by (induction fuel arbitrary: res) (simp_all add: Let_def n)
  then show ?thesis by (simp add: get_descendants_def has_node_def n)
qed

subsection \<open>Removing a branch\<close>

definition deleted :: "pystr list \<Rightarrow> message_tree \<Rightarrow> message_node list \<Rightarrow> message_tree \<Rightarrow> bool" where
  "deleted ids t removed t' \<longleftrightarrow>
     map Some removed = map (\<lambda>k. get_node k t) ids \<and>
     (\<forall>k. get_node k t' = (if k \<in> set ids then None else get_node k t)) \<and>
     (dict_wf (nodes t) \<longrightarrow> dict_wf (nodes t')) \<and>
     (\<forall>s. dict_get (status_to_node t') s =
        (if \<exists>k \<in> set ids. \<exists>n. get_node k t = Some n \<and> status_message_id n = s then None else dict_get (status_to_node t) s)) \<and>
     t' = t\<lparr>nodes := nodes t', status_to_node := status_to_node t'\<rparr>"

lemma delete_nodes_spec:
  "distinct ids \<Longrightarrow> \<forall>k \<in> set ids. \<exists>n. get_node k t = Some n \<and> dict_get (status_to_node t) (status_message_id n) = Some k \<Longrightarrow>
     \<exists>removed t'. delete_nodes ids t = Inr (removed, t') \<and> deleted ids t removed t'"
proof (induction ids arbitrary: t)
  case Nil
  then show ?case by (simp add: deleted_def)
next
  case (Cons nid ids)
  obtain n where n: "get_node nid t = Some n" "dict_get (status_to_node t) (status_message_id n) = Some nid"
    using Cons.prems(2) by auto
  define t1 where "t1 = t\<lparr>nodes := dict_pop nid (nodes t), status_to_node := dict_pop (status_message_id n) (status_to_node t)\<rparr>"
  have get1: "get_node k t1 = (if k = nid then None else get_node k t)" for k
    by (simp add: t1_def get_node_def dict_simps)
  have st1: "dict_get (status_to_node t1) s = (if s = status_message_id n then None else dict_get (status_to_node t) s)" for s
    by (simp add: t1_def dict_simps)
  have "\<exists>m. get_node k t1 = Some m \<and> dict_get (status_to_node t1) (status_message_id m) = Some k" if "k \<in> set ids" for k
  proof -
    have "k \<in> set (nid # ids)" using that by simp
    from Cons.prems(2) [rule_format, OF this] obtain m where
      m: "get_node k t = Some m" "dict_get (status_to_node t) (status_message_id m) = Some k" by blast
    have "k \<noteq> nid" using Cons.prems(1) that by auto
    then show ?thesis using m n(2) by (auto simp: get1 st1)
  qed
  then obtain removed t' where rest: "delete_nodes ids t1 = Inr (removed, t')" "deleted ids t1 removed t'"
    using Cons.IH [of t1] Cons.prems(1) by auto
  have "delete_nodes (nid # ids) t = Inr (n # removed, t')"
    using n rest(1) by (simp add: t1_def)
  moreover have "deleted (nid # ids) t (n # removed) t'"
    unfolding deleted_def
  proof (intro conjI allI)
    show "map Some (n # removed) = map (\<lambda>k. get_node k t) (nid # ids)"
      using rest(2) Cons.prems(1) n(1) by (auto simp: deleted_def get1 intro!: map_cong)
    show "get_node k t' = (if k \<in> set (nid # ids) then None else get_node k t)" for k
      using rest(2) by (simp add: deleted_def get1)
    show "dict_wf (nodes t) \<longrightarrow> dict_wf (nodes t')"
      using rest(2) by (auto simp: deleted_def t1_def dict_wf_pop)
    have "k \<in> set ids \<Longrightarrow> get_node k t1 = get_node k t" for k using Cons.prems(1) by (auto simp: get1)
    then show "dict_get (status_to_node t') s =
        (if \<exists>k \<in> set (nid # ids). \<exists>n. get_node k t = Some n \<and> status_message_id n = s then None else dict_get (status_to_node t) s)" for s
      using rest(2) n(1) by (auto simp: deleted_def st1)
    show "t' = t\<lparr>nodes := nodes t', status_to_node := status_to_node t'\<rparr>"
      using rest(2) unfolding deleted_def t1_def by simp
  qed
  ultimately show ?case by blast
qed

lemma outside_child:
  assumes wf: "tree_wf t" and kc: "(k, c) \<in> child_rel t" and k: "(b, k) \<notin> (child_rel t)\<^sup>*" and c: "(b, c) \<in> (child_rel t)\<^sup>*"
  shows "c = b"
  using c
proof (cases rule: rtranclE)
  case (step k')
  then show ?thesis using one_parent [OF wf kc, of k'] k by auto
qed simp

text \<open>What is left when a branch is cut off, its parent no longer naming it.\<close>

definition cut_off :: "pystr \<Rightarrow> message_tree \<Rightarrow> message_tree \<Rightarrow> bool" where
  "cut_off b t t' \<longleftrightarrow>
     (\<forall>k. get_node k t' =
        (if (b, k) \<in> (child_rel t)\<^sup>* then None
         else map_option (\<lambda>n. if (k, b) \<in> child_rel t then n\<lparr>children_ids := filter (\<lambda>c. c \<noteq> b) (children_ids n)\<rparr> else n) (get_node k t)))"

lemma cut_off_wf:
  assumes wf: "tree_wf t" and cut: "cut_off b t t'" and "dict_wf (nodes t')"
    and status: "\<forall>k n. get_node k t = Some n \<and> (b, k) \<notin> (child_rel t)\<^sup>* \<longrightarrow>
      dict_get (status_to_node t') (status_message_id n) = dict_get (status_to_node t) (status_message_id n)"
  shows "tree_wf t'"
proof -
  let ?B = "{k. (b, k) \<in> (child_rel t)\<^sup>*}"
  have get: "get_node k t' = Some n' \<longleftrightarrow> k \<notin> ?B \<and> (\<exists>n. get_node k t = Some n \<and>
      n' = (if (k, b) \<in> child_rel t then n\<lparr>children_ids := filter (\<lambda>c. c \<noteq> b) (children_ids n)\<rparr> else n))" for k n'
    using cut unfolding cut_off_def by auto
  have rel: "(k, c) \<in> child_rel t' \<longleftrightarrow> (k, c) \<in> child_rel t \<and> k \<notin> ?B \<and> c \<notin> ?B" for k c
  proof
    assume "(k, c) \<in> child_rel t'"
    then obtain n' where n': "get_node k t' = Some n'" "c \<in> set (children_ids n')" by (auto simp: child_rel_def)
    from n'(1) obtain n where n: "k \<notin> ?B" "get_node k t = Some n"
        "n' = (if (k, b) \<in> child_rel t then n\<lparr>children_ids := filter (\<lambda>c. c \<noteq> b) (children_ids n)\<rparr> else n)"
      unfolding get by blast
    have c: "c \<in> set (children_ids n)" "(k, b) \<in> child_rel t \<longrightarrow> c \<noteq> b"
      using n'(2) n(3) by (cases "(k, b) \<in> child_rel t"; simp)+
    have kc: "(k, c) \<in> child_rel t" using n(2) c(1) by (rule child_relI)
    have "c \<notin> ?B" using outside_child [OF wf kc] n(1) c(2) kc by blast
    then show "(k, c) \<in> child_rel t \<and> k \<notin> ?B \<and> c \<notin> ?B" using kc n(1) by blast
  next
    assume kc: "(k, c) \<in> child_rel t \<and> k \<notin> ?B \<and> c \<notin> ?B"
    then obtain n where n: "get_node k t = Some n" "c \<in> set (children_ids n)" by (auto simp: child_rel_def)
    have "c \<noteq> b" using kc by auto
    have "\<exists>n'. get_node k t' = Some n' \<and> c \<in> set (children_ids n')"
      using n kc \<open>c \<noteq> b\<close> by (cases "(k, b) \<in> child_rel t") (simp_all add: get)
    then show "(k, c) \<in> child_rel t'" by (auto intro: child_relI)
  qed
  have links: "(k, c) \<in> child_rel t' \<longleftrightarrow> (\<exists>m. get_node c t' = Some m \<and> parent_id m = Some k)" for k c
  proof -
    note old = wf_link [OF wf, of k c]
    have up: "k \<notin> ?B" if "c \<notin> ?B" "(k, c) \<in> child_rel t"
      using that by (auto intro: rtrancl_into_rtrancl)
    have new: "(\<exists>m. get_node c t' = Some m \<and> parent_id m = Some k) \<longleftrightarrow>
        c \<notin> ?B \<and> (\<exists>m. get_node c t = Some m \<and> parent_id m = Some k)"
      by (cases "(c, b) \<in> child_rel t") (auto simp: get)
    show ?thesis unfolding new rel using old up by blast
  qed
  have node: "node_id n' = k \<and> distinct (children_ids n') \<and> dict_get (status_to_node t') (status_message_id n') = Some k"
    if got: "get_node k t' = Some n'" for k n'
  proof -
    obtain n where n: "k \<notin> ?B" "get_node k t = Some n"
      "n' = (if (k, b) \<in> child_rel t then n\<lparr>children_ids := filter (\<lambda>c. c \<noteq> b) (children_ids n)\<rparr> else n)"
      using got unfolding get by blast
    note wf_entry [OF wf n(2)]
    moreover have "dict_get (status_to_node t') (status_message_id n) = dict_get (status_to_node t) (status_message_id n)"
      using status n(1,2) by blast
    ultimately show ?thesis using n(3) by simp
  qed
  obtain rank :: "pystr \<Rightarrow> nat" where rank: "\<And>k c. (k, c) \<in> child_rel t \<Longrightarrow> rank k < rank c" using wf_rank [OF wf] by blast
  then have ranked: "\<exists>rank :: pystr \<Rightarrow> nat. \<forall>(k, c) \<in> child_rel t'. rank k < rank c"
    using rel by (intro exI [of _ rank]) auto
  have "get_node [] t' = None" using wf_no_empty [OF wf] cut unfolding cut_off_def by simp
  then show ?thesis unfolding tree_wf_def using assms(3) links node ranked by (intro conjI allI impI) simp_all
qed

lemma removed_nodes:
  "map Some removed = map (\<lambda>k. get_node k t) ids \<Longrightarrow> \<forall>k n. get_node k t = Some n \<longrightarrow> node_id n = k \<Longrightarrow>
     set removed = {n. \<exists>k \<in> set ids. get_node k t = Some n} \<and> map node_id removed = ids"
proof (induction ids arbitrary: removed)
  case (Cons k ids)
  obtain n rest where r: "removed = n # rest" "get_node k t = Some n" "map Some rest = map (\<lambda>k. get_node k t) ids"
    using Cons.prems(1) by (cases removed) auto
  have "node_id n = k" using Cons.prems(2) r(2) by blast
  then show ?case using Cons.IH [OF r(3) Cons.prems(2)] r(1,2) by auto
qed simp

lemma remove_branch_spec:
  assumes wf: "tree_wf t" and b: "has_node b t"
  shows "\<exists>removed t'. remove_branch (length (nodes t)) b t = Some (Inr (removed, t')) \<and> cut_off b t t' \<and> tree_wf t' \<and>
     distinct (map node_id removed) \<and> set removed = {n. \<exists>k. (b, k) \<in> (child_rel t)\<^sup>* \<and> get_node k t = Some n}"
proof -
  obtain ids where ids: "get_descendants (length (nodes t)) b t = Some ids" "distinct ids" "set ids = {x. (b, x) \<in> (child_rel t)\<^sup>*}"
    using descendants [OF wf_forest [OF wf] b order_refl] by blast
  have there: "\<exists>n. get_node k t = Some n" if "k \<in> set ids" for k
  proof -
    have "(b, k) \<in> (child_rel t)\<^sup>*" using that ids(3) by simp
    then have "has_node k t" by (cases rule: rtranclE) (use b child_dom [OF wf] in auto)
    then show ?thesis by (auto simp: has_node_def get_node_def)
  qed
  have "\<forall>k \<in> set ids. \<exists>n. get_node k t = Some n \<and> dict_get (status_to_node t) (status_message_id n) = Some k"
  proof
    fix k
    assume "k \<in> set ids"
    then obtain n where "get_node k t = Some n" using there by blast
    then show "\<exists>n. get_node k t = Some n \<and> dict_get (status_to_node t) (status_message_id n) = Some k"
      using wf_entry(3) [OF wf] by blast
  qed
  from delete_nodes_spec [OF ids(2) this] obtain removed t1 where
    t1: "delete_nodes ids t = Inr (removed, t1)" and del: "deleted ids t removed t1" by blast
  have get1: "get_node k t1 = (if k \<in> set ids then None else get_node k t)" for k using del by (simp add: deleted_def)
  define t2 where "t2 = (case get_parent b t of None \<Rightarrow> t1 | Some p \<Rightarrow>
      (case get_node (node_id p) t1 of None \<Rightarrow> t1 | Some p1 \<Rightarrow>
         t1\<lparr>nodes := dict_set (node_id p) (p1\<lparr>children_ids := filter (\<lambda>c. c \<noteq> b) (children_ids p1)\<rparr>) (nodes t1)\<rparr>))"
  have run: "remove_branch (length (nodes t)) b t = Some (Inr (removed, t2))"
    using b ids(1) t1 by (simp add: remove_branch_def t2_def split: option.split)
  have cut: "cut_off b t t2 \<and> (dict_wf (nodes t1) \<longrightarrow> dict_wf (nodes t2)) \<and> status_to_node t2 = status_to_node t1"
  proof (cases "get_parent b t")
    case None
    have "(k, b) \<notin> child_rel t" for k
    proof
      assume kb: "(k, b) \<in> child_rel t"
      obtain m where "get_node b t = Some m" "parent_id m = Some k" using kb unfolding wf_link [OF wf] by blast
      moreover obtain n where "get_node k t = Some n" using kb unfolding child_rel_def by blast
      ultimately show False using None wf_no_empty [OF wf] by (auto simp: get_parent_def split: if_splits)
    qed
    then show ?thesis using None by (auto simp: t2_def cut_off_def get1 ids(3) option.map_ident)
  next
    case (Some p)
    then obtain m k where m: "get_node b t = Some m" "parent_id m = Some k" "get_node k t = Some p"
      by (auto simp: get_parent_def split: option.splits if_splits)
    have k: "k = node_id p" using wf_entry(1) [OF wf m(3)] by simp
    have pb: "(node_id p, b) \<in> child_rel t" unfolding wf_link [OF wf] using m(1,2) k by blast
    have out: "node_id p \<notin> set ids" using no_cycle [OF wf] pb ids(3) by auto
    have only: "(k, b) \<in> child_rel t \<longleftrightarrow> k = node_id p" for k using one_parent [OF wf _ pb] pb by blast
    have t2: "t2 = t1\<lparr>nodes := dict_set (node_id p) (p\<lparr>children_ids := filter (\<lambda>c. c \<noteq> b) (children_ids p)\<rparr>) (nodes t1)\<rparr>"
      using Some out m(3) k by (simp add: t2_def get1)
    have "get_node k t2 = (if k \<in> set ids then None else if k = node_id p
        then Some (p\<lparr>children_ids := filter (\<lambda>c. c \<noteq> b) (children_ids p)\<rparr>) else get_node k t)" for k
      using out by (simp add: t2 get_node_put get1)
    then have "cut_off b t t2"
      using m(3) k out by (simp add: cut_off_def only ids(3) option.map_ident)
    then show ?thesis by (simp add: t2 dict_wf_set)
  qed
  moreover have "dict_wf (nodes t1)" using del wf_dict [OF wf] by (simp add: deleted_def)
  moreover have kept: "dict_get (status_to_node t1) (status_message_id n) = dict_get (status_to_node t) (status_message_id n)"
    if "get_node k t = Some n" "(b, k) \<notin> (child_rel t)\<^sup>*" for k n
  proof -
    have "j = k" if "get_node j t = Some n'" "status_message_id n' = status_message_id n" for j n'
      using wf_entry(3) [OF wf that(1)] wf_entry(3) [OF wf \<open>get_node k t = Some n\<close>] that(2) by simp
    then have none: "\<not> (\<exists>j \<in> set ids. \<exists>n'. get_node j t = Some n' \<and> status_message_id n' = status_message_id n)"
      using that(2) ids(3) by blast
    have "dict_get (status_to_node t1) s =
        (if \<exists>k \<in> set ids. \<exists>n. get_node k t = Some n \<and> status_message_id n = s then None else dict_get (status_to_node t) s)" for s
      using del by (simp add: deleted_def)
    from this [of "status_message_id n"] show ?thesis unfolding if_not_P [OF none] .
  qed
  ultimately have wf2: "tree_wf t2" using cut_off_wf [OF wf, of b t2] kept by auto
  have "map Some removed = map (\<lambda>k. get_node k t) ids" using del by (simp add: deleted_def)
  then have "set removed = {n. \<exists>k. (b, k) \<in> (child_rel t)\<^sup>* \<and> get_node k t = Some n} \<and> map node_id removed = ids"
    using removed_nodes [of removed t ids] wf_entry(1) [OF wf] ids(3) by simp
  then show ?thesis using run cut wf2 ids(2) by (intro exI [of _ removed] exI [of _ t2]) simp
qed

subsection \<open>The claims on branches\<close>


definition sample_incoming :: incoming_message where
  "sample_incoming = \<lparr>im_text = u ''hi'', im_chat_id = u ''c'', im_user_id = u ''v'', im_message_id = u ''m'', im_platform = u ''telegram'',
     im_reply_to_message_id = None, im_message_thread_id = None, im_username = None\<rparr>"

definition sample_root :: message_tree where
  "sample_root = MessageTree (MessageNode (u ''r'') sample_incoming (u ''s1'') None (u ''t0''))"

definition sample_tree :: message_tree where
  "sample_tree = (case add_node (u ''n'') sample_incoming (u ''s2'') (u ''r'') (u ''t1'') sample_root of Inl e \<Rightarrow> sample_root | Inr t \<Rightarrow> t)"

lemma sample_root_wf: "tree_wf sample_root"
  unfolding sample_root_def by (rule tree_wf_root) (simp_all add: MessageNode_def u_def)

lemma sample_tree_wf: "tree_wf sample_tree \<and> has_node (u ''n'') sample_tree"
proof -
  have "add_node (u ''n'') sample_incoming (u ''s2'') (u ''r'') (u ''t1'') sample_root = Inr sample_tree" by code_simp
  moreover have "get_node (u ''n'') sample_root = None" by code_simp
  moreover have "dict_get (status_to_node sample_root) (u ''s2'') = None" by code_simp
  moreover have "u ''n'' \<noteq> []" by code_simp
  ultimately show ?thesis using add_node_ok [OF sample_root_wf] by blast
qed


theorem descendants_exact_witness:
  "\<exists>ids. get_descendants (length (nodes sample_tree)) (u ''n'') sample_tree = Some ids \<and> distinct ids"
  using descendants_exact [OF conjunct1 [OF sample_tree_wf] conjunct2 [OF sample_tree_wf]] by blast

subsection \<open>Draining the queue\<close>

definition cancelled_copy :: "pystr \<Rightarrow> pystr \<Rightarrow> message_node \<Rightarrow> message_node" where
  "cancelled_copy err now n = n\<lparr>node_state := ERROR, error_message := Some err, completed_at := Some now\<rparr>"

lemma get_node_set_error:
  "get_node k (set_node_error_sync nid err now t) =
     (if k = nid then map_option (cancelled_copy err now) (get_node k t) else get_node k t)"
  by (auto simp: set_node_error_sync_def get_node_def cancelled_copy_def dict_simps split: option.split)

lemma drain_ids_spec:
  "drain_ids err now ids t = (rs, t') \<Longrightarrow>
     rs = filter (\<lambda>k. get_node k t \<noteq> None) ids \<and>
     (\<forall>k. get_node k t' = (if k \<in> set ids then map_option (cancelled_copy err now) (get_node k t) else get_node k t)) \<and>
     t' = t\<lparr>nodes := nodes t'\<rparr>"
proof (induction ids arbitrary: t rs)
  case (Cons nid ids)
  show ?case
  proof (cases "get_node nid t")
    case None
    then show ?thesis using Cons by auto
  next
    case (Some n)
    let ?t1 = "set_node_error_sync nid err now t"
    obtain rs1 where rest: "drain_ids err now ids ?t1 = (rs1, t')" "rs = nid # rs1"
      using Cons.prems Some by (auto split: prod.splits)
    have same: "(get_node k ?t1 \<noteq> None) = (get_node k t \<noteq> None)" for k by (simp add: get_node_set_error)
    have twice: "map_option (cancelled_copy err now) (map_option (cancelled_copy err now) v) = map_option (cancelled_copy err now) v" for v
      by (cases v) (simp_all add: cancelled_copy_def)
    note IH = Cons.IH [OF rest(1)]
    have "get_node k t' = (if k \<in> set (nid # ids) then map_option (cancelled_copy err now) (get_node k t) else get_node k t)" for k
      using IH by (simp add: get_node_set_error twice)
    moreover have "t' = t\<lparr>nodes := nodes t'\<rparr>"
      using IH Some by (simp add: set_node_error_sync_def)
    ultimately show ?thesis using IH rest(2) Some same by auto
  qed
qed simp

section \<open>The saved form\<close>

fun state_value :: "message_state \<Rightarrow> pystr" where
  "state_value PENDING = u ''pending''"
| "state_value IN_PROGRESS = u ''in_progress''"
| "state_value COMPLETED = u ''completed''"
| "state_value ERROR = u ''error''"

definition MessageState :: "pystr \<Rightarrow> py_exn + message_state" where
  "MessageState s =
     (if s = u ''pending'' then Inr PENDING else if s = u ''in_progress'' then Inr IN_PROGRESS
      else if s = u ''completed'' then Inr COMPLETED else if s = u ''error'' then Inr ERROR else Inl ValueError)"

definition opt_str :: "pystr option \<Rightarrow> json" where
  "opt_str v = (case v of None \<Rightarrow> JNull | Some s \<Rightarrow> JStr s)"

definition node_to_dict :: "message_node \<Rightarrow> json" where
  "node_to_dict n = JObj
     [(u ''node_id'', JStr (node_id n)),
      (u ''incoming'', JObj
         [(u ''text'', JStr (im_text (incoming n))), (u ''chat_id'', JStr (im_chat_id (incoming n))),
          (u ''user_id'', JStr (im_user_id (incoming n))), (u ''message_id'', JStr (im_message_id (incoming n))),
          (u ''platform'', JStr (im_platform (incoming n))),
          (u ''reply_to_message_id'', opt_str (im_reply_to_message_id (incoming n))),
          (u ''message_thread_id'', opt_str (im_message_thread_id (incoming n))),
          (u ''username'', opt_str (im_username (incoming n)))]),
      (u ''status_message_id'', JStr (status_message_id n)),
      (u ''state'', JStr (state_value (node_state n))),
      (u ''parent_id'', opt_str (parent_id n)),
      (u ''session_id'', opt_str (session_id n)),
      (u ''children_ids'', JArr (map JStr (children_ids n))),
      (u ''created_at'', JStr (created_at n)),
      (u ''completed_at'', opt_str (completed_at n)),
      (u ''error_message'', opt_str (error_message n))]"

text \<open>
  \<open>d[k]\<close> and \<open>d.get(k)\<close> for a field annotated as text.  The annotations are read as types: a
  value of another type, which Python would carry along, is a \<open>TypeError\<close> here.
\<close>

definition str_item :: "pystr \<Rightarrow> json \<Rightarrow> py_exn + pystr" where
  "str_item k v = (case v of
     JObj d \<Rightarrow> (case dict_get d k of None \<Rightarrow> Inl KeyError | Some (JStr s) \<Rightarrow> Inr s | Some _ \<Rightarrow> Inl TypeError)
   | _ \<Rightarrow> Inl TypeError)"

definition opt_item :: "pystr \<Rightarrow> json \<Rightarrow> py_exn + pystr option" where
  "opt_item k v = (case v of
     JObj d \<Rightarrow> (case dict_get d k of None \<Rightarrow> Inr None | Some JNull \<Rightarrow> Inr None | Some (JStr s) \<Rightarrow> Inr (Some s) | Some _ \<Rightarrow> Inl TypeError)
   | _ \<Rightarrow> Inl TypeError)"

definition list_item :: "pystr \<Rightarrow> json \<Rightarrow> py_exn + pystr list" where
  "list_item k v = (case v of
     JObj d \<Rightarrow> (case dict_get d k of
         None \<Rightarrow> Inr []
       | Some (JArr xs) \<Rightarrow> (if list_all is_str xs then Inr (map text_of xs) else Inl TypeError)
       | Some _ \<Rightarrow> Inl TypeError)
   | _ \<Rightarrow> Inl TypeError)"

definition incoming_from_dict :: "json \<Rightarrow> py_exn + incoming_message" where
  "incoming_from_dict v =
     and_then (str_item (u ''text'') v) (\<lambda>text.
     and_then (str_item (u ''chat_id'') v) (\<lambda>chat.
     and_then (str_item (u ''user_id'') v) (\<lambda>user.
     and_then (str_item (u ''message_id'') v) (\<lambda>message.
     and_then (str_item (u ''platform'') v) (\<lambda>platform.
     and_then (opt_item (u ''reply_to_message_id'') v) (\<lambda>reply.
     and_then (opt_item (u ''message_thread_id'') v) (\<lambda>thread.
     and_then (opt_item (u ''username'') v) (\<lambda>username.
       Inr \<lparr>im_text = text, im_chat_id = chat, im_user_id = user, im_message_id = message, im_platform = platform,
            im_reply_to_message_id = reply, im_message_thread_id = thread, im_username = username\<rparr>))))))))"

text \<open>\<open>read_iso\<close> stands for \<open>datetime.fromisoformat(s).isoformat()\<close>, \<open>None\<close> where it raises.\<close>

definition iso_item :: "(pystr \<Rightarrow> pystr option) \<Rightarrow> pystr \<Rightarrow> py_exn + pystr" where
  "iso_item read_iso s = (case read_iso s of None \<Rightarrow> Inl ValueError | Some d \<Rightarrow> Inr d)"

definition node_from_dict :: "(pystr \<Rightarrow> pystr option) \<Rightarrow> json \<Rightarrow> py_exn + message_node" where
  "node_from_dict read_iso v =
     and_then (case v of JObj d \<Rightarrow> (case dict_get d (u ''incoming'') of None \<Rightarrow> Inl KeyError | Some w \<Rightarrow> Inr w) | _ \<Rightarrow> Inl TypeError) (\<lambda>inc.
     and_then (incoming_from_dict inc) (\<lambda>incoming.
     and_then (str_item (u ''node_id'') v) (\<lambda>nid.
     and_then (str_item (u ''status_message_id'') v) (\<lambda>status.
     and_then (str_item (u ''state'') v) (\<lambda>s.
     and_then (MessageState s) (\<lambda>st.
     and_then (opt_item (u ''parent_id'') v) (\<lambda>parent.
     and_then (opt_item (u ''session_id'') v) (\<lambda>session.
     and_then (list_item (u ''children_ids'') v) (\<lambda>children.
     and_then (str_item (u ''created_at'') v) (\<lambda>c.
     and_then (iso_item read_iso c) (\<lambda>created.
     and_then (opt_item (u ''completed_at'') v) (\<lambda>f.
     and_then (case f of None \<Rightarrow> Inr None | Some d \<Rightarrow> if d = [] then Inr None else map_sum id Some (iso_item read_iso d)) (\<lambda>completed.
     and_then (opt_item (u ''error_message'') v) (\<lambda>err.
       Inr \<lparr>node_id = nid, incoming = incoming, status_message_id = status, node_state = st, parent_id = parent,
            session_id = session, children_ids = children, created_at = created, completed_at = completed,
            error_message = err\<rparr>))))))))))))))"

definition tree_to_dict :: "message_tree \<Rightarrow> json" where
  "tree_to_dict t = JObj
     [(u ''root_id'', JStr (root_id t)),
      (u ''nodes'', JObj (map (\<lambda>(nid, n). (nid, node_to_dict n)) (nodes t)))]"

definition add_node_from_dict :: "message_node \<Rightarrow> message_tree \<Rightarrow> message_tree" where
  "add_node_from_dict n t =
     t\<lparr>nodes := dict_set (node_id n) n (nodes t), status_to_node := dict_set (status_message_id n) (node_id n) (status_to_node t)\<rparr>"

fun add_nodes_from_dict :: "(pystr \<Rightarrow> pystr option) \<Rightarrow> pystr \<Rightarrow> (pystr, json) dict \<Rightarrow> message_tree \<Rightarrow> py_exn + message_tree" where
  "add_nodes_from_dict read_iso root [] t = Inr t"
| "add_nodes_from_dict read_iso root ((nid, v) # rest) t =
     (if nid = root then add_nodes_from_dict read_iso root rest t
      else and_then (node_from_dict read_iso v) (\<lambda>n. add_nodes_from_dict read_iso root rest (add_node_from_dict n t)))"

definition tree_from_dict :: "(pystr \<Rightarrow> pystr option) \<Rightarrow> json \<Rightarrow> py_exn + message_tree" where
  "tree_from_dict read_iso v =
     and_then (str_item (u ''root_id'') v) (\<lambda>root.
     (case v of
        JObj d \<Rightarrow> (case dict_get d (u ''nodes'') of
            None \<Rightarrow> Inl KeyError
          | Some (JObj ns) \<Rightarrow> (case dict_get ns root of
                None \<Rightarrow> Inl KeyError
              | Some r \<Rightarrow> and_then (node_from_dict read_iso r) (\<lambda>n. add_nodes_from_dict read_iso root ns (MessageTree n)))
          | Some _ \<Rightarrow> Inl TypeError)
      | _ \<Rightarrow> Inl TypeError))"

lemma MessageState_value [simp]: "MessageState (state_value s) = Inr s"
  by (cases s) (simp_all add: MessageState_def)

text \<open>The times of a node are texts \<open>isoformat\<close> prints, which \<open>fromisoformat\<close> reads back.\<close>

definition times_ok :: "(pystr \<Rightarrow> pystr option) \<Rightarrow> message_node \<Rightarrow> bool" where
  "times_ok read_iso n \<longleftrightarrow> read_iso (created_at n) = Some (created_at n) \<and>
     (\<forall>d. completed_at n = Some d \<longrightarrow> d \<noteq> [] \<and> read_iso d = Some d)"

lemma node_roundtrip: "times_ok read_iso n \<Longrightarrow> node_from_dict read_iso (node_to_dict n) = Inr n"
proof -
  assume ok: "times_ok read_iso n"
  have o: "opt_item k (JObj ((k, opt_str v) # d)) = Inr v" for k v d
    by (cases v) (simp_all add: opt_item_def opt_str_def)
  have o2: "k \<noteq> k' \<Longrightarrow> opt_item k (JObj ((k', w) # d)) = opt_item k (JObj d)" for k k' w d
    by (simp add: opt_item_def)
  have s: "str_item k (JObj ((k', w) # d)) = (if k = k' then (case w of JStr s \<Rightarrow> Inr s | _ \<Rightarrow> Inl TypeError) else str_item k (JObj d))" for k k' w d
    by (simp add: str_item_def split: json.split)
  have inc: "incoming_from_dict (JObj
         [(u ''text'', JStr (im_text i)), (u ''chat_id'', JStr (im_chat_id i)),
          (u ''user_id'', JStr (im_user_id i)), (u ''message_id'', JStr (im_message_id i)),
          (u ''platform'', JStr (im_platform i)),
          (u ''reply_to_message_id'', opt_str (im_reply_to_message_id i)),
          (u ''message_thread_id'', opt_str (im_message_thread_id i)),
          (u ''username'', opt_str (im_username i))]) = Inr i" for i
    by (simp add: incoming_from_dict_def s o o2)
  show ?thesis
    using ok unfolding times_ok_def node_from_dict_def node_to_dict_def
    by (cases n; cases "completed_at n") (simp_all add: inc s o o2 iso_item_def list_item_def)
qed

definition index_status :: "(pystr, message_node) dict \<Rightarrow> (pystr, pystr) dict \<Rightarrow> (pystr, pystr) dict" where
  "index_status ns d = foldl (\<lambda>d (k, n). dict_set (status_message_id n) k d) d ns"

lemma add_nodes_roundtrip:
  "\<forall>(k, n) \<in> set ns. node_id n = k \<and> times_ok read_iso n \<and> k \<noteq> root \<Longrightarrow> dict_wf (nodes t @ ns) \<Longrightarrow>
     add_nodes_from_dict read_iso root (map (\<lambda>(k, n). (k, node_to_dict n)) ns) t =
       Inr (t\<lparr>nodes := nodes t @ ns, status_to_node := index_status ns (status_to_node t)\<rparr>)"
proof (induction ns arbitrary: t)
  case Nil
  then show ?case by (simp add: index_status_def)
next
  case (Cons kn ns)
  obtain k n where kn: "kn = (k, n)" by (cases kn)
  have "node_id n = k" "times_ok read_iso n" "k \<noteq> root" "k \<notin> fst ` set (nodes t)" using Cons.prems kn by auto
  moreover have "nodes (add_node_from_dict n t) = nodes t @ [(k, n)]"
    using calculation by (simp add: add_node_from_dict_def dict_set_new)
  moreover have "status_to_node (add_node_from_dict n t) = dict_set (status_message_id n) k (status_to_node t)"
    using calculation by (simp add: add_node_from_dict_def)
  moreover have "add_node_from_dict n t\<lparr>nodes := a, status_to_node := b\<rparr> = t\<lparr>nodes := a, status_to_node := b\<rparr>" for a b
    by (simp add: add_node_from_dict_def)
  ultimately show ?case
    using Cons.IH [of "add_node_from_dict n t"] Cons.prems kn by (simp add: node_roundtrip index_status_def)
qed

definition one_status :: "(pystr, message_node) dict \<Rightarrow> bool" where
  "one_status ns \<longleftrightarrow> (\<forall>x \<in> set ns. \<forall>y \<in> set ns. status_message_id (snd x) = status_message_id (snd y) \<longrightarrow> fst x = fst y)"

lemma one_status_mono: "set ns \<subseteq> set ms \<Longrightarrow> one_status ms \<Longrightarrow> one_status ns"
  unfolding one_status_def by (meson subset_iff)

lemma index_status_get:
  "one_status ns \<Longrightarrow> (k, n) \<in> set ns \<Longrightarrow>
     dict_get (index_status ns d) (status_message_id n) = Some k"
proof (induction ns rule: rev_induct)
  case (snoc x ns)
  obtain kx nx where x: "x = (kx, nx)" by (cases x)
  show ?case
  proof (cases "status_message_id nx = status_message_id n")
    case True
    then have "kx = k" using bspec [OF bspec [OF snoc.prems(1) [unfolded one_status_def], of x] snoc.prems(2)] x by simp
    then show ?thesis using True x by (simp add: index_status_def dict_simps)
  next
    case False
    then have kn: "(k, n) \<in> set ns" using snoc.prems(2) x by auto
    have "one_status ns" using snoc.prems(1) by (rule one_status_mono [rotated]) auto
    then have "dict_get (index_status ns d) (status_message_id n) = Some k" using kn by (rule snoc.IH)
    then show ?thesis using x False by (simp add: index_status_def dict_simps)
  qed
qed simp

lemma status_distinct:
  assumes wf: "tree_wf t" and "(k, n) \<in> set (nodes t)" "(k', n') \<in> set (nodes t)" "status_message_id n = status_message_id n'"
  shows "k = k'"
proof -
  have "get_node k t = Some n" "get_node k' t = Some n'"
    using assms(2,3) wf_dict [OF wf] by (simp_all add: get_node_def dict_wf_get)
  from wf_entry(3) [OF wf this(1)] wf_entry(3) [OF wf this(2)] show ?thesis using assms(4) by simp
qed

lemma tree_roundtrip:
  assumes wf: "tree_wf t" and ns: "nodes t = (root_id t, r) # rest" and times: "\<forall>(k, n) \<in> set (nodes t). times_ok read_iso n"
  shows "tree_from_dict read_iso (tree_to_dict t) =
    Inr (t\<lparr>status_to_node := index_status (nodes t) [], queue := SnapshotQueue, is_processing := False,
      current_node_id := None, current_task := None\<rparr>)"
proof -
  have id: "node_id n = k" if "(k, n) \<in> set (nodes t)" for k n
    using that wf_entry(1) [OF wf, of k n] wf_dict [OF wf] by (simp add: get_node_def dict_wf_get)
  have r: "node_id r = root_id t" "times_ok read_iso r" using id ns times by auto
  have rest: "\<forall>(k, n) \<in> set rest. node_id n = k \<and> times_ok read_iso n \<and> k \<noteq> root_id t"
  proof -
    have "root_id t \<notin> fst ` set rest" using wf_dict [OF wf] by (simp add: ns)
    then have "\<forall>(k, n) \<in> set rest. k \<noteq> root_id t" by (auto simp: image_iff)
    moreover have "\<forall>(k, n) \<in> set rest. node_id n = k"
    proof (intro ballI, clarify)
      fix k n
      assume "(k, n) \<in> set rest"
      then have "(k, n) \<in> set (nodes t)" by (simp add: ns)
      then show "node_id n = k" by (rule id)
    qed
    moreover have "\<forall>(k, n) \<in> set rest. times_ok read_iso n" using times by (simp add: ns)
    ultimately show ?thesis by (simp add: case_prod_unfold)
  qed
  have "dict_wf (nodes (MessageTree r) @ rest)" using wf_dict [OF wf] ns r(1) by (simp add: MessageTree_def)
  from add_nodes_roundtrip [OF rest this] have
    "add_nodes_from_dict read_iso (root_id t) (map (\<lambda>(k, n). (k, node_to_dict n)) (nodes t)) (MessageTree r) =
       Inr ((MessageTree r)\<lparr>nodes := nodes (MessageTree r) @ rest, status_to_node := index_status rest (status_to_node (MessageTree r))\<rparr>)"
    by (simp add: ns)
  moreover have "(MessageTree r)\<lparr>nodes := nodes (MessageTree r) @ rest, status_to_node := index_status rest (status_to_node (MessageTree r))\<rparr> =
      t\<lparr>status_to_node := index_status (nodes t) [], queue := SnapshotQueue, is_processing := False,
        current_node_id := None, current_task := None\<rparr>"
    using ns r(1) by (simp add: MessageTree_def index_status_def)
  ultimately show ?thesis
    using r(2) by (simp add: tree_from_dict_def tree_to_dict_def str_item_def ns node_roundtrip)
qed

text \<open>
  A well-formed tree whose root was added first survives saving: loading its saved form gives a
  well-formed tree with the same nodes in the same order and the same answer for the status message of
  each of them, with an empty queue and nothing being processed.
\<close>

theorem saved_tree_restored:
  assumes "tree_wf t" "nodes t = (root_id t, r) # rest" "\<forall>(k, n) \<in> set (nodes t). times_ok read_iso n"
  shows "\<exists>t'. tree_from_dict read_iso (tree_to_dict t) = Inr t' \<and> tree_wf t' \<and> nodes t' = nodes t \<and> root_id t' = root_id t \<and>
    (\<forall>(k, n) \<in> set (nodes t). dict_get (status_to_node t') (status_message_id n) = dict_get (status_to_node t) (status_message_id n)) \<and>
    queue t' = SnapshotQueue \<and> \<not> is_processing t' \<and> current_node_id t' = None"
proof -
  let ?t' = "t\<lparr>status_to_node := index_status (nodes t) [], queue := SnapshotQueue, is_processing := False,
      current_node_id := None, current_task := None\<rparr>"
  have same: "get_node k ?t' = get_node k t" for k by (simp add: get_node_def)
  then have rel: "child_rel ?t' = child_rel t" by (simp add: child_rel_def)
  have idx: "dict_get (status_to_node ?t') (status_message_id n) = Some k" if "(k, n) \<in> set (nodes t)" for k n
  proof -
    have "one_status (nodes t)"
      unfolding one_status_def using status_distinct [OF assms(1)] by (metis prod.collapse)
    from index_status_get [OF this that] show ?thesis by simp
  qed
  have old: "dict_get (status_to_node t) (status_message_id n) = Some k" if "(k, n) \<in> set (nodes t)" for k n
    using that wf_entry(3) [OF assms(1), of k n] wf_dict [OF assms(1)] by (simp add: get_node_def dict_wf_get)
  have "dict_get (status_to_node ?t') (status_message_id n) = Some k" if "get_node k t = Some n" for k n
    using idx [of k n] that by (auto simp: get_node_def dict_get_in_set)
  then have "tree_wf ?t'" using assms(1) unfolding tree_wf_def rel same by simp
  moreover have "\<forall>(k, n) \<in> set (nodes t). dict_get (status_to_node ?t') (status_message_id n) = dict_get (status_to_node t) (status_message_id n)"
    using idx old by auto
  ultimately show ?thesis using tree_roundtrip [OF assms] by (intro exI [of _ ?t']) simp
qed

theorem saved_tree_restored_witness:
  "\<exists>t'. tree_from_dict (\<lambda>s. Some s) (tree_to_dict sample_tree) = Inr t' \<and> nodes t' = nodes sample_tree"
proof -
  obtain r rest where ns: "nodes sample_tree = (root_id sample_tree, r) # rest"
    and times: "\<forall>(k, n) \<in> set (nodes sample_tree). times_ok (\<lambda>s. Some s) n"
  proof -
    have "map fst (nodes sample_tree) = [u ''r'', u ''n''] \<and> root_id sample_tree = u ''r'' \<and> list_all (\<lambda>(k, n). completed_at n = None) (nodes sample_tree)"
      by code_simp
    then show ?thesis using that by (cases "nodes sample_tree") (auto simp: list_all_iff times_ok_def)
  qed
  show ?thesis using saved_tree_restored [OF conjunct1 [OF sample_tree_wf] ns times] by blast
qed

end
