(* ===== verification/TreeQueue.thy ===== *)
theory TreeQueue
  imports Trees
begin

text \<open>
  Processing the queue of one tree (\<open>messaging/trees/queue_manager.py\<close>): \<open>TreeQueueProcessor\<close> and
  the operations of \<open>TreeQueueManager\<close> on a tree, as a system of the tree and its asyncio tasks.
  Every block under the tree's lock runs without suspending, so an operation is one step; the
  steps of different tasks and callers interleave freely.  \<open>now\<close> is the clock reading of a step.
\<close>

section \<open>The system\<close>

text \<open>
  A task runs \<open>process_node\<close>: created and not yet scheduled (\<open>Ready\<close>), awaiting the processor
  (\<open>Working\<close>), or awaiting the notification callbacks after it has handed on the tree (\<open>Telling\<close>).
  A task holds its node object: once the node has left the tree, the object is \<open>tk_gone\<close>.
\<close>

datatype task_phase = Ready | Working | Telling

record queue_task =
  tk_node :: pystr
  tk_phase :: task_phase
  tk_cancelled :: bool
  tk_gone :: "message_node option"

text \<open>A task that is done has left \<open>ts_tasks\<close>.\<close>

record tree_sys =
  ts_tree :: message_tree
  ts_tasks :: "(nat, queue_task) dict"
  ts_next :: nat

definition idle_sys :: "message_tree \<Rightarrow> tree_sys" where
  "idle_sys t = \<lparr>ts_tree = t, ts_tasks = [], ts_next = 0\<rparr>"

section \<open>The processor\<close>

definition create_task :: "pystr \<Rightarrow> tree_sys \<Rightarrow> tree_sys" where
  "create_task nid s =
     s\<lparr>ts_tree := (ts_tree s)\<lparr>current_task := Some (ts_next s)\<rparr>,
       ts_tasks := dict_set (ts_next s) \<lparr>tk_node = nid, tk_phase = Ready, tk_cancelled = False, tk_gone = None\<rparr> (ts_tasks s),
       ts_next := Suc (ts_next s)\<rparr>"

text \<open>Marking the tree busy with a node; a task is created only when the tree still has the node.\<close>

definition start_node :: "pystr \<Rightarrow> tree_sys \<Rightarrow> tree_sys" where
  "start_node nid s =
     (let s1 = s\<lparr>ts_tree := set_processing_state (Some nid) True (ts_tree s)\<rparr>
      in if has_node nid (ts_tree s1) then create_task nid s1 else s1)"

definition process_next :: "tree_sys \<Rightarrow> tree_sys" where
  "process_next s =
     (case tree_dequeue (ts_tree s) of
        (None, t) \<Rightarrow> s\<lparr>ts_tree := set_processing_state None False t\<rparr>
      | (Some nid, t) \<Rightarrow>
          if nid = [] then s\<lparr>ts_tree := set_processing_state None False t\<rparr>
          else start_node nid (s\<lparr>ts_tree := t\<rparr>))"

definition enqueue_and_start :: "pystr \<Rightarrow> tree_sys \<Rightarrow> bool \<times> tree_sys" where
  "enqueue_and_start nid s =
     (if is_processing (ts_tree s)
      then (True, s\<lparr>ts_tree := (ts_tree s)\<lparr>queue := put_nowait nid (queue (ts_tree s))\<rparr>\<rparr>)
      else (False, start_node nid s))"

definition set_phase :: "nat \<Rightarrow> task_phase \<Rightarrow> tree_sys \<Rightarrow> tree_sys" where
  "set_phase k ph s =
     (case dict_get (ts_tasks s) k of None \<Rightarrow> s | Some tk \<Rightarrow> s\<lparr>ts_tasks := dict_set k (tk\<lparr>tk_phase := ph\<rparr>) (ts_tasks s)\<rparr>)"

definition end_task :: "nat \<Rightarrow> tree_sys \<Rightarrow> tree_sys" where
  "end_task k s = s\<lparr>ts_tasks := dict_pop k (ts_tasks s)\<rparr>"

text \<open>\<open>await self._process_next(...)\<close> at the end of a task: it goes on to the callbacks or is done.\<close>

definition hand_on :: "nat \<Rightarrow> tree_sys \<Rightarrow> tree_sys" where
  "hand_on k s = (let s' = process_next s in if is_processing (ts_tree s') then set_phase k Telling s' else end_task k s')"

definition task_node :: "queue_task \<Rightarrow> message_tree \<Rightarrow> message_node option" where
  "task_node tk t = (case tk_gone tk of Some n \<Rightarrow> Some n | None \<Rightarrow> get_node (tk_node tk) t)"

definition begin_task :: "nat \<Rightarrow> queue_task \<Rightarrow> tree_sys \<Rightarrow> tree_sys" where
  "begin_task k tk s =
     (if map_option node_state (task_node tk (ts_tree s)) = Some ERROR then hand_on k s else set_phase k Working s)"

text \<open>How the processor's coroutine ends: normally, with an exception and its text, or cancelled.\<close>

datatype task_end = Returned | Raised pystr | Interrupted

definition finish_task :: "nat \<Rightarrow> queue_task \<Rightarrow> task_end \<Rightarrow> pystr \<Rightarrow> tree_sys \<Rightarrow> tree_sys" where
  "finish_task k tk r now s =
     (let t = (case r of Raised msg \<Rightarrow> update_state (tk_node tk) ERROR None (Some msg) now (ts_tree s) | _ \<Rightarrow> ts_tree s)
      in hand_on k (s\<lparr>ts_tree := clear_current_node t\<rparr>))"

definition cancel_current_task :: "tree_sys \<Rightarrow> bool \<times> tree_sys" where
  "cancel_current_task s =
     (case current_task (ts_tree s) of
        None \<Rightarrow> (False, s)
      | Some k \<Rightarrow>
          (case dict_get (ts_tasks s) k of
             None \<Rightarrow> (False, s)
           | Some tk \<Rightarrow> (True, s\<lparr>ts_tasks := dict_set k (tk\<lparr>tk_cancelled := True\<rparr>) (ts_tasks s)\<rparr>)))"

section \<open>The manager's operations on a tree\<close>

definition CANCELLED :: pystr where "CANCELLED = u ''Cancelled by user''"

definition finished :: "message_node \<Rightarrow> bool" where
  "finished n \<longleftrightarrow> node_state n = COMPLETED \<or> node_state n = ERROR"

definition cancel_current_node :: "pystr \<Rightarrow> message_tree \<Rightarrow> pystr list \<times> message_tree" where
  "cancel_current_node now t =
     (case current_node_id t of
        None \<Rightarrow> ([], t)
      | Some nid \<Rightarrow>
          if nid = [] then ([], t)
          else (case get_node nid t of
                  None \<Rightarrow> ([], t)
                | Some n \<Rightarrow> if finished n then ([], t) else ([nid], set_node_error_sync nid CANCELLED now t)))"

text \<open>The loops that mark every unfinished node, except those just cancelled; with their number.\<close>

definition stale :: "pystr list \<Rightarrow> message_node \<Rightarrow> bool" where
  "stale skip n \<longleftrightarrow> \<not> finished n \<and> node_id n \<notin> set skip"

definition mark_stale :: "pystr \<Rightarrow> pystr \<Rightarrow> pystr list \<Rightarrow> message_tree \<Rightarrow> nat \<times> message_tree" where
  "mark_stale err now skip t =
     (length (filter (stale skip) (dict_values (nodes t))),
      t\<lparr>nodes := map (\<lambda>(k, n). (k, if stale skip n then cancelled_copy err now n else n)) (nodes t)\<rparr>)"

definition cancel_tree :: "pystr \<Rightarrow> tree_sys \<Rightarrow> pystr list \<times> tree_sys" where
  "cancel_tree now s =
     (case cancel_current_task s of (was_running, s1) \<Rightarrow>
      case (if was_running then cancel_current_node now (ts_tree s1) else ([], ts_tree s1)) of (current, t1) \<Rightarrow>
      case drain_queue_and_mark_cancelled CANCELLED now t1 of (queued, t2) \<Rightarrow>
      case mark_stale (u ''Stale task cleaned up'') now (current @ queued) t2 of (_, t3) \<Rightarrow>
        (current @ queued, s1\<lparr>ts_tree := reset_processing_state t3\<rparr>))"

definition cancel_node :: "pystr \<Rightarrow> pystr \<Rightarrow> tree_sys \<Rightarrow> pystr list \<times> tree_sys" where
  "cancel_node nid now s =
     (case get_node nid (ts_tree s) of
        None \<Rightarrow> ([], s)
      | Some n \<Rightarrow>
          if finished n then ([], s)
          else
            let s1 = (if is_current_node nid (ts_tree s) then snd (cancel_current_task s) else s);
                t = snd (remove_from_queue nid (ts_tree s1))
            in ([nid], s1\<lparr>ts_tree := set_node_error_sync nid CANCELLED now t\<rparr>))"

definition cancel_one :: "pystr \<Rightarrow> pystr \<Rightarrow> tree_sys \<Rightarrow> pystr list \<times> tree_sys" where
  "cancel_one now nid s =
     (case get_node nid (ts_tree s) of
        None \<Rightarrow> ([], s)
      | Some n \<Rightarrow>
          if finished n then ([], s)
          else
            let s1 = (if is_current_node nid (ts_tree s) then snd (cancel_current_task s)
                      else s\<lparr>ts_tree := snd (remove_from_queue nid (ts_tree s))\<rparr>)
            in ([nid], s1\<lparr>ts_tree := set_node_error_sync nid CANCELLED now (ts_tree s1)\<rparr>))"

fun cancel_each :: "pystr \<Rightarrow> pystr list \<Rightarrow> tree_sys \<Rightarrow> pystr list \<times> tree_sys" where
  "cancel_each now [] s = ([], s)"
| "cancel_each now (nid # ids) s =
     (case cancel_one now nid s of (c, s1) \<Rightarrow> case cancel_each now ids s1 of (cs, s2) \<Rightarrow> (c @ cs, s2))"

text \<open>
  The branch is visited in the order of the walk; the source iterates over a set, so only the order
  of the answer differs.  \<open>None\<close> when the walk does not end within as many rounds as there are nodes.
\<close>

definition cancel_branch :: "pystr \<Rightarrow> pystr \<Rightarrow> tree_sys \<Rightarrow> (pystr list \<times> tree_sys) option" where
  "cancel_branch b now s =
     map_option (\<lambda>ids. cancel_each now ids s) (get_descendants (length (nodes (ts_tree s))) b (ts_tree s))"

text \<open>Task objects keep a node that leaves the tree, or is replaced under its id.\<close>

definition keep_object :: "message_tree \<Rightarrow> pystr list \<Rightarrow> queue_task \<Rightarrow> queue_task" where
  "keep_object t ids tk =
     (if tk_node tk \<in> set ids \<and> tk_gone tk = None then tk\<lparr>tk_gone := get_node (tk_node tk) t\<rparr> else tk)"

definition keep_objects :: "pystr list \<Rightarrow> tree_sys \<Rightarrow> tree_sys" where
  "keep_objects ids s = s\<lparr>ts_tasks := map (\<lambda>(k, tk). (k, keep_object (ts_tree s) ids tk)) (ts_tasks s)\<rparr>"

text \<open>The removal of a branch below the root.\<close>

definition cut_branch :: "pystr \<Rightarrow> tree_sys \<Rightarrow> (py_exn + message_node list \<times> tree_sys) option" where
  "cut_branch b s =
     map_option (\<lambda>r. case r of
         Inl e \<Rightarrow> Inl e
       | Inr (removed, t) \<Rightarrow> Inr (removed, (keep_objects (map node_id removed) s)\<lparr>ts_tree := t\<rparr>))
       (remove_branch (length (nodes (ts_tree s))) b (ts_tree s))"

definition add_child :: "pystr \<Rightarrow> incoming_message \<Rightarrow> pystr \<Rightarrow> pystr \<Rightarrow> pystr \<Rightarrow> tree_sys \<Rightarrow> py_exn + tree_sys" where
  "add_child nid inc status parent now s =
     map_sum id (\<lambda>t. (keep_objects [nid] s)\<lparr>ts_tree := t\<rparr>) (add_node nid inc status parent now (ts_tree s))"

text \<open>
  The loop of \<open>get_pending_children\<close>: the end of the stack is its top, the children found pending
  are appended to the answer and pushed.
\<close>

definition pending_of :: "pystr \<Rightarrow> message_tree \<Rightarrow> pystr list" where
  "pending_of nid t =
     (case get_node nid t of
        None \<Rightarrow> []
      | Some n \<Rightarrow> filter (\<lambda>c. map_option node_state (get_node c t) = Some PENDING) (children_ids n))"

fun pending_loop :: "nat \<Rightarrow> message_tree \<Rightarrow> pystr list \<Rightarrow> pystr list \<Rightarrow> pystr list option" where
  "pending_loop fuel t found [] = Some found"
| "pending_loop 0 t found (x # xs) = None"
| "pending_loop (Suc fuel) t found (x # xs) =
     (let stack = x # xs; new = pending_of (last stack) t in pending_loop fuel t (found @ new) (butlast stack @ new))"

definition get_pending_children :: "nat \<Rightarrow> pystr \<Rightarrow> message_tree \<Rightarrow> pystr list option" where
  "get_pending_children fuel nid t = pending_loop fuel t [] [nid]"

definition mark_error :: "pystr \<Rightarrow> pystr \<Rightarrow> pystr \<Rightarrow> message_tree \<Rightarrow> message_tree" where
  "mark_error err now nid t = update_state nid ERROR None (Some err) now t"

definition mark_node_error :: "pystr \<Rightarrow> pystr \<Rightarrow> bool \<Rightarrow> pystr \<Rightarrow> message_tree \<Rightarrow> (pystr list \<times> message_tree) option" where
  "mark_node_error nid err propagate now t =
     (let affected = (if has_node nid t then [nid] else []);
          t1 = (if has_node nid t then mark_error err now nid t else t)
      in if \<not> propagate then Some (affected, t1)
         else map_option (\<lambda>ids. (affected @ ids, fold (mark_error (u ''Parent failed: '' @ err) now) ids t1))
                (get_pending_children (Suc (length (nodes t1))) nid t1))"

section \<open>Runs\<close>

text \<open>
  What can happen next: a caller's operation, a task being scheduled for the first time, dropped
  because it was cancelled before that, its processor ending, or its callbacks ending.
\<close>

datatype tq_event =
    Add pystr incoming_message pystr pystr pystr
  | Enqueue pystr
  | Begin nat
  | Drop nat
  | Finish nat task_end pystr
  | Done nat
  | Update pystr message_state "pystr option" "pystr option" pystr
  | Fail pystr pystr bool pystr
  | Cancel_Tree pystr
  | Cancel_Node pystr pystr
  | Cancel_Branch pystr pystr
  | Remove_Branch pystr

definition with_task :: "nat \<Rightarrow> (queue_task \<Rightarrow> tree_sys option) \<Rightarrow> tree_sys \<Rightarrow> tree_sys option" where
  "with_task k f s = (case dict_get (ts_tasks s) k of None \<Rightarrow> None | Some tk \<Rightarrow> f tk)"

fun tq_next :: "tq_event \<Rightarrow> tree_sys \<Rightarrow> tree_sys option" where
  "tq_next (Add nid inc status parent now) s = Some (case add_child nid inc status parent now s of Inl e \<Rightarrow> s | Inr s' \<Rightarrow> s')"
| "tq_next (Enqueue nid) s = Some (snd (enqueue_and_start nid s))"
| "tq_next (Begin k) s = with_task k (\<lambda>tk. if tk_phase tk = Ready \<and> \<not> tk_cancelled tk then Some (begin_task k tk s) else None) s"
| "tq_next (Drop k) s = with_task k (\<lambda>tk. if tk_phase tk = Ready \<and> tk_cancelled tk then Some (end_task k s) else None) s"
| "tq_next (Finish k r now) s = with_task k (\<lambda>tk. if tk_phase tk = Working then Some (finish_task k tk r now s) else None) s"
| "tq_next (Done k) s = with_task k (\<lambda>tk. if tk_phase tk = Telling then Some (end_task k s) else None) s"
| "tq_next (Update nid st session err now) s = Some (s\<lparr>ts_tree := update_state nid st session err now (ts_tree s)\<rparr>)"
| "tq_next (Fail nid err propagate now) s =
     map_option (\<lambda>(affected, t). s\<lparr>ts_tree := t\<rparr>) (mark_node_error nid err propagate now (ts_tree s))"
| "tq_next (Cancel_Tree now) s = Some (snd (cancel_tree now s))"
| "tq_next (Cancel_Node nid now) s = Some (snd (cancel_node nid now s))"
| "tq_next (Cancel_Branch b now) s = map_option snd (cancel_branch b now s)"
| "tq_next (Remove_Branch b) s =
     (case cut_branch b s of None \<Rightarrow> None | Some (Inl e) \<Rightarrow> None | Some (Inr (removed, s')) \<Rightarrow> Some s')"

text \<open>The nodes a step creates a task for.\<close>

definition started :: "tree_sys \<Rightarrow> tree_sys \<Rightarrow> pystr list" where
  "started s s' = map tk_node (List.map_filter (dict_get (ts_tasks s')) [ts_next s ..< ts_next s'])"

text \<open>Runs whose events are allowed in the state they happen in; with the nodes started, in order.\<close>

inductive tq_runs :: "(tq_event \<Rightarrow> tree_sys \<Rightarrow> bool) \<Rightarrow> tree_sys \<Rightarrow> tq_event list \<Rightarrow> pystr list \<Rightarrow> tree_sys \<Rightarrow> bool"
  for ok :: "tq_event \<Rightarrow> tree_sys \<Rightarrow> bool" and s0 :: tree_sys where
  start: "tq_runs ok s0 [] [] s0"
| step: "tq_runs ok s0 evs hist s \<Longrightarrow> ok e s \<Longrightarrow> tq_next e s = Some s' \<Longrightarrow> tq_runs ok s0 (evs @ [e]) (hist @ started s s') s'"

fun tq_exec :: "tq_event list \<Rightarrow> tree_sys \<Rightarrow> tree_sys option" where
  "tq_exec [] s = Some s"
| "tq_exec (e # es) s = (case tq_next e s of None \<Rightarrow> None | Some s' \<Rightarrow> tq_exec es s')"

fun enqueued :: "tq_event list \<Rightarrow> pystr list" where
  "enqueued [] = []"
| "enqueued (Enqueue nid # es) = nid # enqueued es"
| "enqueued (e # es) = enqueued es"

lemma enqueued_append [simp]: "enqueued (es @ fs) = enqueued es @ enqueued fs"
  by (induction es rule: enqueued.induct) auto

section \<open>How the operations act on the queue and the tasks\<close>

abbreviation busy :: "tree_sys \<Rightarrow> bool" where
  "busy s \<equiv> is_processing (ts_tree s)"

abbreviation waiting_ids :: "tree_sys \<Rightarrow> pystr list" where
  "waiting_ids s \<equiv> sq_deque (queue (ts_tree s))"

text \<open>The tasks that have not handed on the tree yet.\<close>

definition live :: "tree_sys \<Rightarrow> nat set" where
  "live s = {k. \<exists>tk. dict_get (ts_tasks s) k = Some tk \<and> tk_phase tk \<noteq> Telling}"

definition fresh_next :: "tree_sys \<Rightarrow> bool" where
  "fresh_next s \<longleftrightarrow> (\<forall>k. dict_get (ts_tasks s) k \<noteq> None \<longrightarrow> k < ts_next s)"

text \<open>
  Operations of the first kind leave the processing flag, the live tasks and the task counter
  alone and at most take ids out of the queue.
\<close>

definition calm :: "tree_sys \<Rightarrow> tree_sys \<Rightarrow> bool" where
  "calm s s' \<longleftrightarrow> live s' = live s \<and> ts_next s' = ts_next s \<and> busy s' = busy s \<and>
     subseq (waiting_ids s') (waiting_ids s) \<and> (fresh_next s \<longrightarrow> fresh_next s')"

lemma calm_refl [simp]: "calm s s"
  by (simp add: calm_def)

lemma calm_trans [trans]: "calm s t \<Longrightarrow> calm t v \<Longrightarrow> calm s v"
  unfolding calm_def using subseq_order.order_trans by auto

lemma started_calm: "ts_next s' = ts_next s \<Longrightarrow> started s s' = []"
  by (simp add: started_def List.map_filter_def)

definition same_flow :: "message_tree \<Rightarrow> message_tree \<Rightarrow> bool" where
  "same_flow t t' \<longleftrightarrow> is_processing t' = is_processing t \<and> subseq (sq_deque (queue t')) (sq_deque (queue t))"

lemma calm_tree: "same_flow (ts_tree s) t \<Longrightarrow> calm s (s\<lparr>ts_tree := t\<rparr>)"
  by (simp add: calm_def same_flow_def live_def fresh_next_def)

lemma same_flow_refl [simp]: "same_flow t t"
  by (simp add: same_flow_def)

lemma same_flow_trans: "same_flow t v \<Longrightarrow> same_flow v w \<Longrightarrow> same_flow t w"
  unfolding same_flow_def using subseq_order.order_trans by auto

lemma same_flow_nodes [simp]: "same_flow t (t\<lparr>nodes := ns\<rparr>)" "same_flow t (t\<lparr>nodes := ns, status_to_node := st\<rparr>)"
  "same_flow t (clear_current_node t)"
  by (simp_all add: same_flow_def clear_current_node_def)

lemma same_flow_update [simp]: "same_flow t (update_state nid st session err now t)"
  by (simp add: update_state_def split: option.split)

lemma same_flow_error [simp]: "same_flow t (set_node_error_sync nid err now t)"
  by (simp add: set_node_error_sync_def split: option.split)

lemma same_flow_remove [simp]: "same_flow t (snd (remove_from_queue nid t))"
  by (simp add: same_flow_def remove_from_queue_def remove_if_present_def subseq_filter_left)

lemma same_flow_fold: "(\<And>x t. same_flow t (f x t)) \<Longrightarrow> same_flow t (fold f xs t)"
  by (induction xs arbitrary: t) (auto intro: same_flow_trans)

lemma calm_cancel_current: "calm s (snd (cancel_current_task s))"
proof -
  have "live (s\<lparr>ts_tasks := dict_set k (tk\<lparr>tk_cancelled := True\<rparr>) (ts_tasks s)\<rparr>) = live s \<and>
      (fresh_next s \<longrightarrow> fresh_next (s\<lparr>ts_tasks := dict_set k (tk\<lparr>tk_cancelled := True\<rparr>) (ts_tasks s)\<rparr>))"
    if "dict_get (ts_tasks s) k = Some tk" for k tk
    using that by (auto simp: live_def fresh_next_def dict_simps)
  then show ?thesis by (auto simp: calm_def cancel_current_task_def split: option.split)
qed

lemma calm_cancel_node: "calm s (snd (cancel_node nid now s))"
proof (cases "\<exists>n. get_node nid (ts_tree s) = Some n \<and> \<not> finished n")
  case True
  define s1 where "s1 = (if is_current_node nid (ts_tree s) then snd (cancel_current_task s) else s)"
  have "calm s s1" using calm_cancel_current by (simp add: s1_def)
  moreover have "calm s1 (s1\<lparr>ts_tree := set_node_error_sync nid CANCELLED now (snd (remove_from_queue nid (ts_tree s1)))\<rparr>)"
    by (rule calm_tree, rule same_flow_trans [OF same_flow_remove same_flow_error])
  moreover have "snd (cancel_node nid now s) = s1\<lparr>ts_tree := set_node_error_sync nid CANCELLED now (snd (remove_from_queue nid (ts_tree s1)))\<rparr>"
    using True by (auto simp: cancel_node_def s1_def Let_def)
  ultimately show ?thesis using calm_trans by simp
next
  case False
  then have "snd (cancel_node nid now s) = s" by (auto simp: cancel_node_def split: option.split)
  then show ?thesis by simp
qed

lemma calm_cancel_one: "calm s (snd (cancel_one now nid s))"
proof (cases "\<exists>n. get_node nid (ts_tree s) = Some n \<and> \<not> finished n")
  case True
  define s1 where "s1 = (if is_current_node nid (ts_tree s) then snd (cancel_current_task s)
      else s\<lparr>ts_tree := snd (remove_from_queue nid (ts_tree s))\<rparr>)"
  have "calm s s1" unfolding s1_def using calm_cancel_current calm_tree [OF same_flow_remove] by (rule if_split [THEN iffD2, OF conjI, OF impI impI])
  moreover have "calm s1 (s1\<lparr>ts_tree := set_node_error_sync nid CANCELLED now (ts_tree s1)\<rparr>)"
    by (intro calm_tree same_flow_error)
  moreover have "snd (cancel_one now nid s) = s1\<lparr>ts_tree := set_node_error_sync nid CANCELLED now (ts_tree s1)\<rparr>"
    using True by (auto simp: cancel_one_def s1_def Let_def)
  ultimately show ?thesis using calm_trans by simp
next
  case False
  then have "snd (cancel_one now nid s) = s" by (auto simp: cancel_one_def split: option.split)
  then show ?thesis by simp
qed

lemma calm_cancel_each: "calm s (snd (cancel_each now ids s))"
proof (induction ids arbitrary: s)
  case (Cons nid ids)
  have "calm s (snd (cancel_one now nid s))" by (rule calm_cancel_one)
  then have "calm s (snd (cancel_each now ids (snd (cancel_one now nid s))))" using Cons.IH by (rule calm_trans)
  then show ?case by (simp add: case_prod_unfold)
qed simp

lemma keep_objects_live: "live (keep_objects ids s) = live s" "fresh_next (keep_objects ids s) = fresh_next s"
proof -
  have get: "dict_get (map (\<lambda>(k, tk). (k, f tk)) d) k = map_option f (dict_get d k)" for f :: "queue_task \<Rightarrow> queue_task" and d :: "(nat, queue_task) dict" and k
    by (induction d) auto
  have phase: "tk_phase (keep_object t ids tk) = tk_phase tk" for t tk by (simp add: keep_object_def)
  show "live (keep_objects ids s) = live s" by (auto simp: live_def keep_objects_def get phase)
  show "fresh_next (keep_objects ids s) = fresh_next s" by (simp add: fresh_next_def keep_objects_def get)
qed

lemma calm_keep: "same_flow (ts_tree s) t \<Longrightarrow> calm s ((keep_objects ids s)\<lparr>ts_tree := t\<rparr>)"
proof -
  assume "same_flow (ts_tree s) t"
  then have "calm (keep_objects ids s) ((keep_objects ids s)\<lparr>ts_tree := t\<rparr>)" by (intro calm_tree) (simp add: keep_objects_def)
  moreover have "calm s (keep_objects ids s)" by (simp add: calm_def keep_objects_live) (simp add: keep_objects_def)
  ultimately show ?thesis by (rule calm_trans [rotated])
qed

lemma same_flow_add: "add_node nid inc status parent now t = Inr t' \<Longrightarrow> same_flow t t'"
  by (auto simp: add_node_def Let_def split: if_splits option.splits)

lemma same_flow_delete: "delete_nodes ids t = Inr (removed, t') \<Longrightarrow> same_flow t t'"
proof (induction ids arbitrary: t removed)
  case (Cons nid ids)
  show ?case
  proof (cases "get_node nid t")
    case None
    then show ?thesis using Cons by simp
  next
    case (Some n)
    let ?t1 = "t\<lparr>nodes := dict_pop nid (nodes t), status_to_node := dict_pop (status_message_id n) (status_to_node t)\<rparr>"
    obtain rest where "delete_nodes ids ?t1 = Inr (rest, t')"
      using Cons.prems Some by (auto split: if_splits sum.splits prod.splits)
    then show ?thesis using Cons.IH same_flow_trans [OF same_flow_nodes(2)] by blast
  qed
qed simp

lemma remove_branch_result:
  assumes "remove_branch fuel b t = Some (Inr (removed, t'))" "has_node b t"
  obtains ids t1 where "get_descendants fuel b t = Some ids" "delete_nodes ids t = Inr (removed, t1)"
    "t' = t1 \<or> (\<exists>p p1. get_node p t1 = Some p1 \<and>
       t' = t1\<lparr>nodes := dict_set p (p1\<lparr>children_ids := filter (\<lambda>c. c \<noteq> b) (children_ids p1)\<rparr>) (nodes t1)\<rparr>)"
proof -
  obtain ids where ids: "get_descendants fuel b t = Some ids" using assms by (auto simp: remove_branch_def)
  then obtain t1 where t1: "delete_nodes ids t = Inr (removed, t1)"
    using assms by (auto simp: remove_branch_def split: sum.splits prod.splits option.splits)
  show ?thesis
  proof (cases "get_parent b t")
    case None
    then show ?thesis using assms ids t1 that by (simp add: remove_branch_def)
  next
    case (Some p)
    then show ?thesis using assms ids t1 that by (cases "get_node (node_id p) t1") (auto simp: remove_branch_def)
  qed
qed

lemma same_flow_branch:
  assumes "remove_branch fuel b t = Some (Inr (removed, t'))"
  shows "same_flow t t'"
proof (cases "has_node b t")
  case True
  then obtain ids t1 where t1: "delete_nodes ids t = Inr (removed, t1)" and t': "t' = t1 \<or> (\<exists>ns. t' = t1\<lparr>nodes := ns\<rparr>)"
    using remove_branch_result [OF assms] by metis
  have "same_flow t t1" using t1 by (rule same_flow_delete)
  then show ?thesis using t' same_flow_trans [OF _ same_flow_nodes(1)] by blast
next
  case False
  then show ?thesis using assms by (simp add: remove_branch_def)
qed

lemma same_flow_mark: "mark_node_error nid err p now t = Some (ids, t') \<Longrightarrow> same_flow t t'"
proof -
  assume m: "mark_node_error nid err p now t = Some (ids, t')"
  define t1 where "t1 = (if has_node nid t then mark_error err now nid t else t)"
  have "same_flow t t1" by (simp add: t1_def mark_error_def)
  moreover have "same_flow t1 (fold (mark_error e now) xs t1)" for e xs
    by (rule same_flow_fold) (simp add: mark_error_def)
  moreover have "t' = t1 \<or> (\<exists>xs. t' = fold (mark_error (u ''Parent failed: '' @ err) now) xs t1)"
    using m by (auto simp: mark_node_error_def t1_def [symmetric] Let_def split: if_splits)
  ultimately show ?thesis using same_flow_trans by blast
qed

text \<open>Events that are calm steps.\<close>

fun calm_event :: "tq_event \<Rightarrow> bool" where
  "calm_event (Add _ _ _ _ _) = True"
| "calm_event (Update _ _ _ _ _) = True"
| "calm_event (Fail _ _ _ _) = True"
| "calm_event (Cancel_Node _ _) = True"
| "calm_event (Cancel_Branch _ _) = True"
| "calm_event (Remove_Branch _) = True"
| "calm_event _ = False"

lemma calm_step:
  assumes "calm_event e" "tq_next e s = Some s'"
  shows "calm s s'"
proof (cases e)
  case (Add nid inc status parent now)
  then show ?thesis
    using assms(2) calm_keep [OF same_flow_add] by (cases "add_node nid inc status parent now (ts_tree s)") (auto simp: add_child_def)
next
  case (Fail nid err p now)
  then show ?thesis using assms(2) calm_tree [OF same_flow_mark] by auto
next
  case (Cancel_Branch b now)
  then obtain ids where "s' = snd (cancel_each now ids s)" using assms(2) by (auto simp: cancel_branch_def) (metis snd_conv)
  then show ?thesis using calm_cancel_each by simp
next
  case (Remove_Branch b)
  show ?thesis
  proof (cases "remove_branch (length (nodes (ts_tree s))) b (ts_tree s)")
    case (Some r)
    then show ?thesis using assms(2) Remove_Branch calm_keep [OF same_flow_branch]
      by (cases r) (auto simp: cut_branch_def)
  qed (use assms(2) Remove_Branch in \<open>simp add: cut_branch_def\<close>)
qed (use assms calm_tree calm_cancel_node in auto)

text \<open>Starting a node, and handing on.\<close>

lemma live_create:
  "fresh_next s \<Longrightarrow> live (create_task nid s) = insert (ts_next s) (live s) \<and> ts_next (create_task nid s) = Suc (ts_next s) \<and>
     fresh_next (create_task nid s) \<and> started s (create_task nid s) = [nid]"
proof -
  assume f: "fresh_next s"
  have "live (create_task nid s) = insert (ts_next s) (live s)"
    using f by (auto simp: live_def create_task_def fresh_next_def dict_simps)
  moreover have "fresh_next (create_task nid s)" using f by (auto simp: fresh_next_def create_task_def dict_simps less_Suc_eq)
  moreover have "started s (create_task nid s) = [nid]" by (simp add: started_def create_task_def List.map_filter_def dict_simps)
  ultimately show ?thesis by (simp add: create_task_def)
qed

lemma tree_create: "ts_tree (create_task nid s) = (ts_tree s)\<lparr>current_task := Some (ts_next s)\<rparr>"
  by (simp add: create_task_def)

text \<open>What starting one node does; \<open>new\<close> is whether a task was created.\<close>

definition starts :: "tree_sys \<Rightarrow> pystr \<Rightarrow> tree_sys \<Rightarrow> bool" where
  "starts s nid s' \<longleftrightarrow> busy s' \<and> fresh_next s' \<and>
     (if has_node nid (ts_tree s) then live s' = insert (ts_next s) (live s) \<and> ts_next s' = Suc (ts_next s) \<and> started s s' = [nid]
      else live s' = live s \<and> ts_next s' = ts_next s \<and> started s s' = [])"

lemma start_node_starts:
  assumes "fresh_next s"
  shows "starts s nid (start_node nid s) \<and> waiting_ids (start_node nid s) = waiting_ids s \<and> nodes (ts_tree (start_node nid s)) = nodes (ts_tree s)"
proof -
  let ?s1 = "s\<lparr>ts_tree := set_processing_state (Some nid) True (ts_tree s)\<rparr>"
  have "fresh_next ?s1" "live ?s1 = live s" "has_node nid (ts_tree ?s1) = has_node nid (ts_tree s)"
    using assms by (simp_all add: fresh_next_def live_def has_node_def set_processing_state_def)
  moreover have "started ?s1 s' = started s s'" for s' by (simp add: started_def)
  ultimately show ?thesis
    using live_create [of ?s1 nid]
    by (simp add: starts_def start_node_def tree_create set_processing_state_def started_calm)
qed

text \<open>\<open>_process_next\<close>: the tree becomes free, or takes the first waiting node.\<close>

lemma process_next_cases:
  assumes "fresh_next s" "[] \<notin> set (waiting_ids s)"
  shows "(waiting_ids s = [] \<and> \<not> busy (process_next s) \<and> live (process_next s) = live s \<and> ts_next (process_next s) = ts_next s \<and>
      fresh_next (process_next s) \<and> waiting_ids (process_next s) = []) \<or>
    (\<exists>nid rest. waiting_ids s = nid # rest \<and> starts s nid (process_next s) \<and> waiting_ids (process_next s) = rest)"
  (is "?free \<or> ?taken")
proof (cases "waiting_ids s")
  case Nil
  then have "process_next s = s\<lparr>ts_tree := set_processing_state None False (ts_tree s)\<rparr>"
    by (simp add: process_next_def tree_dequeue_def get_nowait_def)
  then have ?free using Nil assms(1) by (simp add: set_processing_state_def live_def fresh_next_def)
  then show ?thesis ..
next
  case (Cons nid rest)
  define s1 where "s1 = s\<lparr>ts_tree := (ts_tree s)\<lparr>queue := \<lparr>sq_deque = rest, sq_set = removeAll nid (sq_set (queue (ts_tree s)))\<rparr>\<rparr>\<rparr>"
  have "process_next s = start_node nid s1"
    using Cons assms(2) by (auto simp: process_next_def tree_dequeue_def get_nowait_def s1_def)
  moreover have "fresh_next s1" "live s1 = live s" "ts_next s1 = ts_next s" "waiting_ids s1 = rest"
      "has_node nid (ts_tree s1) = has_node nid (ts_tree s)"
    using assms(1) by (simp_all add: s1_def fresh_next_def live_def has_node_def)
  moreover have "started s s' = started s1 s'" for s' by (simp add: started_def s1_def)
  ultimately have ?taken using start_node_starts [of s1 nid] Cons by (simp add: starts_def split: if_splits)
  then show ?thesis ..
qed

lemma leave_task:
  "live (set_phase k Telling s) = live s - {k} \<and> (fresh_next s \<longrightarrow> fresh_next (set_phase k Telling s))"
  "live (end_task k s) = live s - {k} \<and> (fresh_next s \<longrightarrow> fresh_next (end_task k s))"
proof -
  show "live (set_phase k Telling s) = live s - {k} \<and> (fresh_next s \<longrightarrow> fresh_next (set_phase k Telling s))"
    by (cases "dict_get (ts_tasks s) k") (auto simp: live_def fresh_next_def set_phase_def dict_simps)
  show "live (end_task k s) = live s - {k} \<and> (fresh_next s \<longrightarrow> fresh_next (end_task k s))"
    by (auto simp: live_def fresh_next_def end_task_def dict_simps)
qed

lemma set_phase_same [simp]: "ts_tree (set_phase k ph s) = ts_tree s" "ts_next (set_phase k ph s) = ts_next s"
  by (simp_all add: set_phase_def split: option.split)

lemma end_task_same [simp]: "ts_tree (end_task k s) = ts_tree s" "ts_next (end_task k s) = ts_next s"
  by (simp_all add: end_task_def)

lemma started_leave: "k < ts_next s \<Longrightarrow> started s (set_phase k Telling s') = started s s'"
  "k < ts_next s \<Longrightarrow> started s (end_task k s') = started s s'"
proof -
  assume k: "k < ts_next s"
  have "map tk_node (List.map_filter (dict_get (ts_tasks (set_phase k Telling s'))) ks) = map tk_node (List.map_filter (dict_get (ts_tasks s')) ks)"
    if "\<forall>j \<in> set ks. j \<noteq> k" for ks
    using that by (induction ks) (auto simp: List.map_filter_simps set_phase_def dict_simps split: option.split)
  then show "started s (set_phase k Telling s') = started s s'" using k by (simp add: started_def)
  have "map tk_node (List.map_filter (dict_get (ts_tasks (end_task k s'))) ks) = map tk_node (List.map_filter (dict_get (ts_tasks s')) ks)"
    if "\<forall>j \<in> set ks. j \<noteq> k" for ks
    using that by (induction ks) (auto simp: List.map_filter_simps end_task_def dict_simps split: option.split)
  then show "started s (end_task k s') = started s s'" using k by (simp add: started_def)
qed

text \<open>A task hands on: it is no longer live, and the tree is free or has taken the first waiting node.\<close>

lemma hand_on_cases:
  assumes "fresh_next s" "[] \<notin> set (waiting_ids s)" "k < ts_next s"
  shows "(waiting_ids s = [] \<and> \<not> busy (hand_on k s) \<and> live (hand_on k s) = live s - {k} \<and> ts_next (hand_on k s) = ts_next s \<and>
      fresh_next (hand_on k s) \<and> waiting_ids (hand_on k s) = []) \<or>
    (\<exists>nid rest. waiting_ids s = nid # rest \<and> busy (hand_on k s) \<and> fresh_next (hand_on k s) \<and> waiting_ids (hand_on k s) = rest \<and>
      (if has_node nid (ts_tree s) then live (hand_on k s) = insert (ts_next s) (live s - {k}) \<and> started s (hand_on k s) = [nid]
       else live (hand_on k s) = live s - {k} \<and> started s (hand_on k s) = []))"
  using process_next_cases [OF assms(1,2)]
proof
  assume free: "waiting_ids s = [] \<and> \<not> busy (process_next s) \<and> live (process_next s) = live s \<and> ts_next (process_next s) = ts_next s \<and>
      fresh_next (process_next s) \<and> waiting_ids (process_next s) = []"
  then have "hand_on k s = end_task k (process_next s)" by (simp add: hand_on_def)
  then show ?thesis using free leave_task(2) [of k "process_next s"] by simp
next
  assume "\<exists>nid rest. waiting_ids s = nid # rest \<and> starts s nid (process_next s) \<and> waiting_ids (process_next s) = rest"
  then obtain nid rest where taken: "waiting_ids s = nid # rest" "starts s nid (process_next s)" "waiting_ids (process_next s) = rest" by blast
  then have "hand_on k s = set_phase k Telling (process_next s)" by (simp add: hand_on_def starts_def)
  then show ?thesis
    using taken assms(3) leave_task(1) [of k "process_next s"] started_leave(1) [OF assms(3)]
    by (auto simp: starts_def split: if_splits)
qed

text \<open>Events that take nodes out of the queue or the tree.\<close>

fun cancels :: "tq_event \<Rightarrow> bool" where
  "cancels (Cancel_Tree _) = True"
| "cancels (Cancel_Node _ _) = True"
| "cancels (Cancel_Branch _ _) = True"
| "cancels (Remove_Branch _) = True"
| "cancels (Drop _) = True"
| "cancels _ = False"

lemma queue_update: "queue (update_state nid st session err now t) = queue t"
  by (simp add: update_state_def split: option.split)

lemma queue_fold_mark: "queue (fold (mark_error err now) ids t) = queue t"
  by (induction ids arbitrary: t) (simp_all add: mark_error_def queue_update)

lemma calm_event_queue:
  assumes "calm_event e" "tq_next e s = Some s'" "\<not> cancels e"
  shows "waiting_ids s' = waiting_ids s"
proof (cases e)
  case (Add nid inc status parent now)
  then show ?thesis using assms(2)
    by (cases "add_node nid inc status parent now (ts_tree s)") (auto simp: add_child_def add_node_def keep_objects_def Let_def split: if_splits option.splits)
next
  case (Fail nid err p now)
  then show ?thesis using assms(2)
    by (auto simp: mark_node_error_def mark_error_def queue_update queue_fold_mark Let_def split: if_splits)
qed (use assms in \<open>auto simp: queue_update\<close>)

text \<open>What one step can do to the queue, the flag and the live tasks.\<close>

inductive moved :: "tree_sys \<Rightarrow> tq_event \<Rightarrow> tree_sys \<Rightarrow> bool" where
  quiet: "calm s s' \<Longrightarrow> enqueued [e] = [] \<Longrightarrow> (\<not> cancels e \<Longrightarrow> waiting_ids s' = waiting_ids s) \<Longrightarrow> moved s e s'"
| queued: "busy s \<Longrightarrow> busy s' \<Longrightarrow> live s' = live s \<Longrightarrow> ts_next s' = ts_next s \<Longrightarrow> waiting_ids s' = waiting_ids s @ [nid] \<Longrightarrow>
    fresh_next s' \<Longrightarrow> moved s (Enqueue nid) s'"
| begun: "\<not> busy s \<Longrightarrow> starts s nid s' \<Longrightarrow> waiting_ids s' = waiting_ids s \<Longrightarrow> moved s (Enqueue nid) s'"
| freed: "k \<in> live s \<Longrightarrow> waiting_ids s = [] \<Longrightarrow> \<not> busy s' \<Longrightarrow> live s' = live s - {k} \<Longrightarrow> ts_next s' = ts_next s \<Longrightarrow> waiting_ids s' = [] \<Longrightarrow>
    fresh_next s' \<Longrightarrow> enqueued [e] = [] \<Longrightarrow> moved s e s'"
| taken: "k \<in> live s \<Longrightarrow> waiting_ids s = nid # waiting_ids s' \<Longrightarrow> busy s' \<Longrightarrow> fresh_next s' \<Longrightarrow>
    (if has_node nid (ts_tree s) then live s' = insert (ts_next s) (live s - {k}) \<and> started s s' = [nid]
     else live s' = live s - {k} \<and> started s s' = []) \<Longrightarrow> enqueued [e] = [] \<Longrightarrow> moved s e s'"
| dropped: "k \<in> live s \<Longrightarrow> live s' = live s - {k} \<Longrightarrow> busy s' = busy s \<Longrightarrow> waiting_ids s' = waiting_ids s \<Longrightarrow> ts_next s' = ts_next s \<Longrightarrow>
    fresh_next s' \<Longrightarrow> moved s (Drop k) s'"
| cleared: "live s' = live s \<Longrightarrow> \<not> busy s' \<Longrightarrow> waiting_ids s' = [] \<Longrightarrow> ts_next s' = ts_next s \<Longrightarrow> fresh_next s' \<Longrightarrow>
    moved s (Cancel_Tree now) s'"

lemma moved_hand_on:
  assumes "fresh_next s" "[] \<notin> set (waiting_ids s)" "k \<in> live s" "enqueued [e] = []"
    and "calm s s1" "waiting_ids s1 = waiting_ids s" "\<And>nid. has_node nid (ts_tree s1) = has_node nid (ts_tree s)" "ts_tasks s1 = ts_tasks s"
  shows "moved s e (hand_on k s1)"
proof -
  have next1: "ts_next s1 = ts_next s" "live s1 = live s" "fresh_next s1" using assms(1,5) by (simp_all add: calm_def)
  have "k < ts_next s1" using assms(1,3) next1(1) by (auto simp: fresh_next_def live_def)
  then have "k < ts_next s" using next1(1) by simp
  moreover have st: "started s1 (hand_on k s1) = started s (hand_on k s1)" by (simp add: started_def next1)
  ultimately show ?thesis
    using hand_on_cases [OF next1(3), of k, unfolded assms(6,7) next1(1,2) st] assms(2,3,4)
    by (auto intro: moved.freed moved.taken)
qed

lemma drain_tree:
  "sq_deque (queue (snd (drain_queue_and_mark_cancelled err now t))) = []"
proof -
  let ?t = "t\<lparr>queue := \<lparr>sq_deque = [], sq_set = filter (\<lambda>x. x \<notin> set (sq_deque (queue t))) (sq_set (queue t))\<rparr>\<rparr>"
  obtain rs t' where d: "drain_ids err now (sq_deque (queue t)) ?t = (rs, t')" by fastforce
  have "queue t' = queue ?t" using drain_ids_spec [OF d] by (metis (mono_tags) message_tree.select_convs(4) message_tree.surjective message_tree.update_convs(2))
  then show ?thesis using d by (simp add: drain_queue_and_mark_cancelled_def)
qed

lemma live_tree: "live (s\<lparr>ts_tree := t\<rparr>) = live s" "fresh_next (s\<lparr>ts_tree := t\<rparr>) = fresh_next s"
  by (simp_all add: live_def fresh_next_def)

lemma moved_cancel_tree:
  assumes "fresh_next s"
  shows "moved s (Cancel_Tree now) (snd (cancel_tree now s))"
proof -
  obtain b s1 where c: "cancel_current_task s = (b, s1)" by fastforce
  obtain ids1 t1 where t1: "(if b then cancel_current_node now (ts_tree s1) else ([], ts_tree s1)) = (ids1, t1)" by fastforce
  obtain ids2 t2 where t2: "drain_queue_and_mark_cancelled CANCELLED now t1 = (ids2, t2)" by fastforce
  have "sq_deque (queue t2) = []" using drain_tree [of CANCELLED now t1] t2 by simp
  moreover have "snd (cancel_tree now s) = s1\<lparr>ts_tree := reset_processing_state (snd (mark_stale (u ''Stale task cleaned up'') now (ids1 @ ids2) t2))\<rparr>"
    unfolding cancel_tree_def c prod.case t1 t2 by (simp add: case_prod_unfold)
  moreover have "calm s s1" using calm_cancel_current [of s] c by simp
  ultimately show ?thesis
    using assms by (intro moved.cleared) (simp_all add: calm_def live_tree reset_processing_state_def mark_stale_def)
qed

lemma has_node_update: "has_node k (update_state nid st session err now t) = has_node k t"
  by (simp add: update_state_def has_node_def get_node_def dict_simps split: option.split)

lemma tq_next_moved:
  assumes step: "tq_next e s = Some s'" and ok: "fresh_next s" "[] \<notin> set (waiting_ids s)"
  shows "moved s e s'"
proof (cases e)
  case (Enqueue nid)
  show ?thesis
  proof (cases "busy s")
    case True
    then have "s' = s\<lparr>ts_tree := (ts_tree s)\<lparr>queue := put_nowait nid (queue (ts_tree s))\<rparr>\<rparr>"
      using step Enqueue by (simp add: enqueue_and_start_def)
    then show ?thesis using True ok(1) unfolding Enqueue
      by (intro moved.queued) (simp_all add: put_nowait_def live_def fresh_next_def)
  next
    case False
    then have "s' = start_node nid s" using step Enqueue by (simp add: enqueue_and_start_def)
    then show ?thesis using False start_node_starts [OF ok(1)] unfolding Enqueue by (intro moved.begun) simp_all
  qed
next
  case (Begin k)
  then obtain tk where tk: "dict_get (ts_tasks s) k = Some tk" "tk_phase tk = Ready" "s' = begin_task k tk s"
    using step by (auto simp: with_task_def split: option.splits if_splits)
  then have k: "k \<in> live s" by (simp add: live_def)
  show ?thesis
  proof (cases "map_option node_state (task_node tk (ts_tree s)) = Some ERROR")
    case True
    then have "s' = hand_on k s" using tk(3) by (simp add: begin_task_def)
    then show ?thesis using moved_hand_on [OF ok k, of e s] Begin by simp
  next
    case False
    have "s' = set_phase k Working s" using tk(3) unfolding begin_task_def if_not_P [OF False] .
    moreover have "live (set_phase k Working s) = live s" "fresh_next (set_phase k Working s)"
      using tk ok(1) by (auto simp: live_def set_phase_def fresh_next_def dict_simps)
    ultimately show ?thesis using Begin by (intro moved.quiet) (simp_all add: calm_def)
  qed
next
  case (Drop k)
  then obtain tk where tk: "dict_get (ts_tasks s) k = Some tk" "tk_phase tk = Ready" "s' = end_task k s"
    using step by (auto simp: with_task_def split: option.splits if_splits)
  then have "k \<in> live s" by (simp add: live_def)
  then show ?thesis using tk(3) ok(1) leave_task(2) [of k s] unfolding Drop by (intro moved.dropped) simp_all
next
  case (Finish k r now)
  then obtain tk where tk: "dict_get (ts_tasks s) k = Some tk" "tk_phase tk = Working" "s' = finish_task k tk r now s"
    using step by (auto simp: with_task_def split: option.splits if_splits)
  then have k: "k \<in> live s" by (simp add: live_def)
  define t where "t = (case r of Raised msg \<Rightarrow> update_state (tk_node tk) ERROR None (Some msg) now (ts_tree s) | _ \<Rightarrow> ts_tree s)"
  let ?s1 = "s\<lparr>ts_tree := clear_current_node t\<rparr>"
  have "same_flow (ts_tree s) t \<and> queue t = queue (ts_tree s) \<and> (\<forall>nid. has_node nid t = has_node nid (ts_tree s))"
    by (simp add: t_def has_node_update split: task_end.split) (simp add: update_state_def split: option.split)
  then have "calm s ?s1 \<and> waiting_ids ?s1 = waiting_ids s \<and> (\<forall>nid. has_node nid (ts_tree ?s1) = has_node nid (ts_tree s))"
    by (intro conjI calm_tree same_flow_trans [OF _ same_flow_nodes(3)]) (simp_all add: clear_current_node_def has_node_def)
  then show ?thesis using moved_hand_on [OF ok k, of e ?s1] Finish tk(3) by (simp add: finish_task_def t_def)
next
  case (Done k)
  then obtain tk where tk: "dict_get (ts_tasks s) k = Some tk" "tk_phase tk = Telling" "s' = end_task k s"
    using step by (auto simp: with_task_def split: option.splits if_splits)
  then have "k \<notin> live s" by (simp add: live_def)
  then have "calm s s'" "waiting_ids s' = waiting_ids s" using tk(3) leave_task(2) [of k s] by (simp_all add: calm_def)
  then show ?thesis using Done by (intro moved.quiet) simp_all
next
  case (Cancel_Tree now)
  then show ?thesis using step moved_cancel_tree [OF ok(1)] by auto
qed (use calm_step [OF _ step] calm_event_queue [OF _ step] in \<open>auto intro: moved.quiet\<close>)

section \<open>One node at a time\<close>

definition base :: "tree_sys \<Rightarrow> bool" where
  "base s \<longleftrightarrow> fresh_next s \<and> [] \<notin> set (waiting_ids s)"

lemma moved_base:
  assumes "moved s e s'" "base s" "e \<noteq> Enqueue []"
  shows "base s'"
proof -
  have sub: "set xs \<subseteq> set ys" if "subseq xs ys" for xs ys :: "pystr list"
    using that by (meson subseq_order.order_trans subseq_singleton_left subsetI)
  show ?thesis using assms
  proof cases
    case quiet
    then show ?thesis using assms(2) sub unfolding base_def calm_def by blast
  qed (use assms in \<open>auto simp: base_def starts_def\<close>)
qed

lemma base_idle: "sq_deque (queue t) = [] \<Longrightarrow> base (idle_sys t)"
  by (simp add: base_def idle_sys_def fresh_next_def)

definition single :: "tree_sys \<Rightarrow> bool" where
  "single s \<longleftrightarrow> (\<forall>j \<in> live s. \<forall>k \<in> live s. j = k) \<and> (live s \<noteq> {} \<longrightarrow> busy s)"

lemma moved_single:
  assumes "moved s e s'" "single s" "\<forall>now. e \<noteq> Cancel_Tree now"
  shows "single s'"
  using assms
proof cases
  case (taken k nid)
  have none: "live s - {k} = {}" using taken(1) assms(2) unfolding single_def by blast
  have "live s' = {ts_next s} \<or> live s' = {}" using taken(5) unfolding none by (simp split: if_splits)
  then show ?thesis using taken(3) by (auto simp: single_def)
next
  case (freed k)
  then have "live s' = {}" using assms(2) unfolding single_def by blast
  then show ?thesis by (simp add: single_def)
next
  case (dropped k)
  then have "live s' = {}" using assms(2) unfolding single_def by blast
  then show ?thesis by (simp add: single_def)
next
  case (begun nid)
  then have "live s = {}" using assms(2) unfolding single_def by blast
  then show ?thesis using begun by (simp add: single_def starts_def split: if_splits)
qed (use assms in \<open>auto simp: single_def calm_def\<close>)

lemma runs_single:
  assumes "tq_runs (\<lambda>e s. e \<noteq> Enqueue [] \<and> (\<forall>now. e \<noteq> Cancel_Tree now)) s0 evs hist s" "base s0" "single s0"
  shows "base s \<and> single s"
  using assms(1)
proof induction
  case (step evs hist s e s')
  then have m: "moved s e s'" using tq_next_moved by (simp add: base_def)
  then show ?case using step moved_base moved_single by blast
qed (use assms in simp)

text \<open>
  C5 (safety): as long as the tree as a whole is not cancelled, at most one task of a tree has not
  yet handed on, whatever messages arrive and whatever nodes and branches are cancelled, removed or
  fail in between; and the tree is marked busy while there is one.
\<close>

theorem one_at_a_time:
  assumes "tq_runs (\<lambda>e s. e \<noteq> Enqueue [] \<and> (\<forall>now. e \<noteq> Cancel_Tree now)) (idle_sys t) evs hist s"
    "sq_deque (queue t) = []" "j \<in> live s" "k \<in> live s"
  shows "j = k \<and> busy s"
  using runs_single [OF assms(1) base_idle [OF assms(2)]] assms(3,4) unfolding single_def by (auto simp: idle_sys_def live_def)

section \<open>The tree is never stuck\<close>

abbreviation keeps :: "message_tree \<Rightarrow> message_tree \<Rightarrow> bool" where
  "keeps t t' \<equiv> \<forall>k. has_node k t \<longrightarrow> has_node k t'"

lemma keeps_ops:
  "keeps t (set_node_error_sync nid msg now t)" "keeps t (update_state nid st session err now t)"
  "keeps t (snd (remove_from_queue nid t))" "keeps t (clear_current_node t)" "keeps t (set_processing_state x b t)"
  "keeps t (reset_processing_state t)"
  by (auto simp: set_node_error_sync_def update_state_def remove_from_queue_def clear_current_node_def set_processing_state_def
      reset_processing_state_def has_node_def get_node_def dict_simps case_prod_unfold split: option.split)

lemma keeps_cancel_current: "ts_tree (snd (cancel_current_task s)) = ts_tree s"
  by (simp add: cancel_current_task_def split: option.split)

lemma keeps_cancel_node: "keeps (ts_tree s) (ts_tree (snd (cancel_node nid now s)))"
  using keeps_ops by (auto simp: cancel_node_def Let_def keeps_cancel_current split: option.split)

lemma keeps_cancel_one: "keeps (ts_tree s) (ts_tree (snd (cancel_one now nid s)))"
  using keeps_ops by (auto simp: cancel_one_def Let_def keeps_cancel_current split: option.split)

lemma keeps_cancel_each: "keeps (ts_tree s) (ts_tree (snd (cancel_each now ids s)))"
proof (induction ids arbitrary: s)
  case (Cons nid ids)
  then show ?case using keeps_cancel_one [of s now nid] by (simp add: case_prod_unfold)
qed simp

lemma keeps_start: "keeps (ts_tree s) (ts_tree (start_node nid s))"
  by (auto simp: start_node_def Let_def tree_create set_processing_state_def has_node_def)

lemma keeps_hand_on: "keeps (ts_tree s) (ts_tree (hand_on k s))"
proof -
  have "keeps (ts_tree s) (ts_tree (process_next s))"
    using keeps_start
    by (auto simp: process_next_def tree_dequeue_def set_processing_state_def has_node_def split: option.split)
  then show ?thesis by (simp add: hand_on_def Let_def)
qed

lemma keeps_drain: "keeps t (snd (drain_queue_and_mark_cancelled err now t))"
proof -
  let ?t = "t\<lparr>queue := \<lparr>sq_deque = [], sq_set = filter (\<lambda>x. x \<notin> set (sq_deque (queue t))) (sq_set (queue t))\<rparr>\<rparr>"
  obtain rs t' where d: "drain_ids err now (sq_deque (queue t)) ?t = (rs, t')" by fastforce
  have "get_node k t' = (if k \<in> set (sq_deque (queue t)) then map_option (cancelled_copy err now) (get_node k ?t) else get_node k ?t)" for k
    using drain_ids_spec [OF d] by blast
  then have "has_node k t' = has_node k t" for k by (simp add: has_node_def get_node_def)
  then show ?thesis using d by (simp add: drain_queue_and_mark_cancelled_def)
qed

lemma keeps_cancel_tree: "keeps (ts_tree s) (ts_tree (snd (cancel_tree now s)))"
proof -
  have stale: "keeps t (snd (mark_stale err now skip t))" for err skip t
  proof -
    have "fst ` set (map (\<lambda>(k, n). (k, f k n)) ns) = fst ` set ns" for f :: "pystr \<Rightarrow> message_node \<Rightarrow> message_node" and ns
      by (induction ns) auto
    then show ?thesis by (simp add: mark_stale_def has_node_def dict_get_None_iff del: set_map)
  qed
  have current: "keeps t (snd (cancel_current_node now t))" for t
    using keeps_ops(1) by (simp add: cancel_current_node_def split: option.split)
  show ?thesis
    using stale current keeps_drain keeps_ops(6) keeps_cancel_current [of s]
    by (simp add: cancel_tree_def case_prod_unfold)
qed

lemma keeps_mark: "mark_node_error nid err p now t = Some (ids, t') \<Longrightarrow> keeps t t'"
proof -
  have fold: "keeps t (fold (mark_error e now) xs t)" for e xs t
    by (induction xs arbitrary: t) (simp_all add: mark_error_def has_node_update)
  assume "mark_node_error nid err p now t = Some (ids, t')"
  then show ?thesis
    using fold by (auto simp: mark_node_error_def mark_error_def has_node_update Let_def split: if_splits)
qed

lemma keeps_step:
  assumes "tq_next e s = Some s'" "\<forall>b. e \<noteq> Remove_Branch b"
  shows "keeps (ts_tree s) (ts_tree s')"
proof (cases e)
  case (Add nid inc status parent now)
  then show ?thesis using assms(1)
    by (cases "add_node nid inc status parent now (ts_tree s)")
      (auto simp: add_child_def add_node_def keep_objects_def has_node_def dict_simps Let_def split: if_splits option.splits)
next
  case (Enqueue nid)
  then show ?thesis using assms(1) keeps_start by (auto simp: enqueue_and_start_def has_node_def)
next
  case (Begin k)
  then show ?thesis using assms(1) keeps_hand_on by (auto simp: with_task_def begin_task_def split: option.splits if_splits)
next
  case (Finish k r now)
  then obtain tk where "s' = finish_task k tk r now s" using assms(1) by (auto simp: with_task_def split: option.splits if_splits)
  moreover have "keeps (ts_tree s) (case r of Raised msg \<Rightarrow> update_state (tk_node tk) ERROR None (Some msg) now (ts_tree s) | _ \<Rightarrow> ts_tree s)"
    by (simp add: has_node_update split: task_end.split)
  ultimately show ?thesis
    using keeps_hand_on [of "s\<lparr>ts_tree := clear_current_node (case r of Raised msg \<Rightarrow> update_state (tk_node tk) ERROR None (Some msg) now (ts_tree s) | _ \<Rightarrow> ts_tree s)\<rparr>" k]
      keeps_ops(4) by (simp add: finish_task_def)
next
  case (Fail nid err p now)
  then show ?thesis using assms(1) keeps_mark by auto
next
  case (Cancel_Branch b now)
  then obtain ids where "s' = snd (cancel_each now ids s)" using assms(1) by (auto simp: cancel_branch_def) (metis snd_conv)
  then show ?thesis using keeps_cancel_each by simp
qed (use assms keeps_cancel_node keeps_cancel_tree in \<open>auto simp: with_task_def has_node_update split: option.splits if_splits\<close>)

text \<open>Runs in which no task is lost: nodes are there when enqueued and leave the tree only when not queued.\<close>

definition careful :: "tq_event \<Rightarrow> tree_sys \<Rightarrow> bool" where
  "careful e s =
     (case e of
        Enqueue nid \<Rightarrow> nid \<noteq> [] \<and> has_node nid (ts_tree s)
      | Drop k \<Rightarrow> False
      | Remove_Branch b \<Rightarrow>
          (case get_descendants (length (nodes (ts_tree s))) b (ts_tree s) of
             None \<Rightarrow> False | Some ids \<Rightarrow> set ids \<inter> set (waiting_ids s) = {})
      | _ \<Rightarrow> True)"

lemma delete_keeps: "delete_nodes ids t = Inr (removed, t') \<Longrightarrow> k \<notin> set ids \<Longrightarrow> has_node k t \<Longrightarrow> has_node k t'"
proof (induction ids arbitrary: t removed)
  case (Cons nid ids)
  show ?case
  proof (cases "get_node nid t")
    case None
    then show ?thesis using Cons by simp
  next
    case (Some n)
    let ?t1 = "t\<lparr>nodes := dict_pop nid (nodes t), status_to_node := dict_pop (status_message_id n) (status_to_node t)\<rparr>"
    obtain rest where "delete_nodes ids ?t1 = Inr (rest, t')"
      using Cons.prems(1) Some by (auto split: if_splits sum.splits prod.splits)
    moreover have "has_node k ?t1" using Cons.prems(2,3) by (simp add: has_node_def dict_simps)
    ultimately show ?thesis using Cons.IH Cons.prems(2) by simp
  qed
qed simp

lemma cut_keeps:
  assumes "tq_next (Remove_Branch b) s = Some s'" "careful (Remove_Branch b) s" "q \<in> set (waiting_ids s)" "has_node q (ts_tree s)"
  shows "has_node q (ts_tree s')"
proof -
  obtain removed t' where r: "remove_branch (length (nodes (ts_tree s))) b (ts_tree s) = Some (Inr (removed, t'))" "ts_tree s' = t'"
    using assms(1) by (cases "remove_branch (length (nodes (ts_tree s))) b (ts_tree s)") (auto simp: cut_branch_def split: sum.splits)
  show ?thesis
  proof (cases "has_node b (ts_tree s)")
    case True
    from remove_branch_result [OF r(1) this] obtain ids t1 where
      ids: "get_descendants (length (nodes (ts_tree s))) b (ts_tree s) = Some ids" "delete_nodes ids (ts_tree s) = Inr (removed, t1)"
        "t' = t1 \<or> (\<exists>p p1. get_node p t1 = Some p1 \<and>
           t' = t1\<lparr>nodes := dict_set p (p1\<lparr>children_ids := filter (\<lambda>c. c \<noteq> b) (children_ids p1)\<rparr>) (nodes t1)\<rparr>)" .
    have "q \<notin> set ids" using assms(2,3) ids(1) by (auto simp: careful_def)
    then have "has_node q t1" using delete_keeps [OF ids(2)] assms(4) by simp
    then show ?thesis using ids(3) r(2) by (auto simp: has_node_def dict_simps)
  next
    case False
    then show ?thesis using r assms(4) by (simp add: remove_branch_def)
  qed
qed

definition alive :: "tree_sys \<Rightarrow> bool" where
  "alive s \<longleftrightarrow> (busy s \<longrightarrow> live s \<noteq> {}) \<and> (\<forall>q \<in> set (waiting_ids s). has_node q (ts_tree s))"

lemma careful_kept:
  assumes "tq_next e s = Some s'" "careful e s" "alive s" "q \<in> set (waiting_ids s)"
  shows "has_node q (ts_tree s')"
proof (cases "\<exists>b. e = Remove_Branch b")
  case True
  then show ?thesis using cut_keeps assms unfolding alive_def by blast
next
  case False
  then show ?thesis using keeps_step [OF assms(1)] assms(3,4) unfolding alive_def by blast
qed

lemma moved_alive:
  assumes "moved s e s'" "tq_next e s = Some s'" "careful e s" "alive s"
  shows "alive s'"
proof -
  note kept = careful_kept [OF assms(2-4)]
  show ?thesis using assms(1)
  proof cases
    case quiet
    have "set (waiting_ids s') \<subseteq> set (waiting_ids s)"
      using quiet(1) unfolding calm_def by (meson subseq_order.order_trans subseq_singleton_left subsetI)
    then show ?thesis using kept quiet(1) assms(4) unfolding alive_def calm_def by blast
  next
    case (queued nid)
    have "has_node nid (ts_tree s)" using assms(3) queued(1) by (simp add: careful_def)
    then have "has_node nid (ts_tree s')" using keeps_step [OF assms(2)] queued(1) by blast
    then show ?thesis using queued kept assms(4) unfolding alive_def by auto
  next
    case (begun nid)
    then show ?thesis using kept assms(3) by (auto simp: alive_def careful_def starts_def)
  next
    case (taken k nid)
    then have "has_node nid (ts_tree s)" using assms(4) by (simp add: alive_def)
    then show ?thesis using taken kept by (auto simp: alive_def)
  next
    case (dropped k)
    then show ?thesis using assms(3) by (simp add: careful_def)
  qed (simp_all add: alive_def)
qed

lemma runs_alive:
  assumes "tq_runs careful s0 evs hist s" "base s0" "alive s0"
  shows "base s \<and> alive s"
  using assms(1)
proof induction
  case (step evs hist s e s')
  then have m: "moved s e s'" using tq_next_moved by (simp add: base_def)
  moreover have "e \<noteq> Enqueue []" using step.hyps(2) by (auto simp: careful_def)
  ultimately show ?case using step moved_base moved_alive by blast
qed (use assms in simp)

text \<open>
  In a run where no task is cancelled before it was ever scheduled and no queued node is
  removed from the tree, a tree marked busy always has a task that will hand it on.
\<close>

theorem never_stuck:
  assumes "tq_runs careful (idle_sys t) evs hist s" "sq_deque (queue t) = []" "\<not> is_processing t" "busy s"
  shows "live s \<noteq> {}"
proof -
  have "alive (idle_sys t)" using assms(2,3) by (simp add: alive_def idle_sys_def)
  then show ?thesis using runs_alive [OF assms(1) base_idle [OF assms(2)]] assms(4) by (simp add: alive_def)
qed

section \<open>First come, first served\<close>

definition in_order :: "pystr list \<Rightarrow> tq_event list \<Rightarrow> tree_sys \<Rightarrow> bool" where
  "in_order hist evs s \<longleftrightarrow> (\<not> busy s \<longrightarrow> waiting_ids s = []) \<and> subseq (hist @ waiting_ids s) (enqueued evs)"

lemma moved_in_order:
  assumes "moved s e s'" "in_order hist evs s"
  shows "in_order (hist @ started s s') (evs @ [e]) s'"
  using assms(1)
proof cases
  case quiet
  have "started s s' = []" using quiet(1) by (simp add: calm_def started_calm)
  moreover have "subseq (hist @ waiting_ids s') (hist @ waiting_ids s)"
    using quiet(1) unfolding calm_def by (blast intro: list_emb_append_mono subseq_order.order_refl)
  ultimately show ?thesis
    using quiet assms(2) unfolding in_order_def calm_def by (auto intro: subseq_order.order_trans)
next
  case (queued nid)
  then show ?thesis using assms(2) by (simp add: in_order_def started_calm flip: append_assoc)
next
  case (begun nid)
  then have "waiting_ids s = []" using assms(2) by (simp add: in_order_def)
  then show ?thesis using begun assms(2) by (auto simp: in_order_def starts_def split: if_splits)
next
  case (freed k)
  then show ?thesis using assms(2) by (simp add: in_order_def started_calm)
next
  case (taken k nid)
  have "subseq (hist @ waiting_ids s') (hist @ waiting_ids s)" using taken(2) by (auto intro: list_emb_append_mono)
  then have "subseq (hist @ waiting_ids s') (enqueued evs)"
    using assms(2) unfolding in_order_def by (auto intro: subseq_order.order_trans)
  then show ?thesis using taken assms(2) by (auto simp: in_order_def split: if_splits)
next
  case (dropped k)
  then show ?thesis using assms(2) by (simp add: in_order_def started_calm)
next
  case (cleared now)
  have "subseq hist (hist @ waiting_ids s)" by (rule subseq_rev_drop_many [of hist hist, OF subseq_order.order_refl])
  then show ?thesis using cleared assms(2) by (auto simp: in_order_def started_calm intro: subseq_order.order_trans)
qed

lemma runs_in_order:
  assumes "tq_runs (\<lambda>e s. e \<noteq> Enqueue []) s0 evs hist s" "base s0" "in_order [] [] s0"
  shows "base s \<and> in_order hist evs s"
  using assms(1)
proof induction
  case (step evs hist s e s')
  then have m: "moved s e s'" using tq_next_moved by (simp add: base_def)
  then show ?case using step moved_base moved_in_order by blast
qed (use assms in simp)

text \<open>
  C6 (safety): in every run, cancellations and removals included, the nodes that were started followed by the
  nodes still waiting are a subsequence of the nodes in the order they were enqueued.
\<close>

theorem fifo_order:
  assumes "tq_runs (\<lambda>e s. e \<noteq> Enqueue []) (idle_sys t) evs hist s" "sq_deque (queue t) = []"
  shows "subseq (hist @ waiting_ids s) (enqueued evs)"
  using runs_in_order [OF assms(1) base_idle [OF assms(2)]] assms(2) by (simp add: in_order_def idle_sys_def)

definition complete :: "pystr list \<Rightarrow> tq_event list \<Rightarrow> tree_sys \<Rightarrow> bool" where
  "complete hist evs s \<longleftrightarrow> (\<not> busy s \<longrightarrow> waiting_ids s = []) \<and> hist @ waiting_ids s = enqueued evs"

lemma moved_complete:
  assumes "moved s e s'" "\<not> cancels e" "careful e s" "alive s" "complete hist evs s"
  shows "complete (hist @ started s s') (evs @ [e]) s'"
  using assms(1)
proof cases
  case quiet
  have "started s s' = []" using quiet(1) by (simp add: calm_def started_calm)
  then show ?thesis using quiet assms(2,5) unfolding complete_def calm_def by simp
next
  case (queued nid)
  then show ?thesis using assms(5) by (simp add: complete_def started_calm flip: append_assoc)
next
  case (begun nid)
  have "has_node nid (ts_tree s)" using assms(3) begun(1) by (simp add: careful_def)
  moreover have "waiting_ids s = []" using begun(2) assms(5) by (simp add: complete_def)
  ultimately show ?thesis using begun assms(5) by (simp add: complete_def starts_def)
next
  case (freed k)
  then show ?thesis using assms(5) by (simp add: complete_def started_calm)
next
  case (taken k nid)
  have "has_node nid (ts_tree s)" using assms(4) taken(2) by (simp add: alive_def)
  then show ?thesis using taken assms(5) by (simp add: complete_def)
qed (use assms(2) in simp_all)

lemma runs_complete:
  assumes "tq_runs (\<lambda>e s. careful e s \<and> \<not> cancels e) s0 evs hist s" "base s0" "alive s0" "complete [] [] s0"
  shows "base s \<and> alive s \<and> complete hist evs s"
  using assms(1)
proof induction
  case (step evs hist s e s')
  then have m: "moved s e s'" using tq_next_moved by (simp add: base_def)
  have "e \<noteq> Enqueue []" using step.hyps(2) by (auto simp: careful_def)
  moreover have "alive s'" using moved_alive [OF m step.hyps(3)] step by blast
  moreover have "complete (hist @ started s s') (evs @ [e]) s'" using moved_complete [OF m] step by blast
  ultimately show ?case using moved_base [OF m] step by blast
qed (use assms in simp)

text \<open>
  Without cancellations and removals nothing is lost or reordered: every node enqueued was
  started, in order, or is waiting, in order; and once the tree is free all of them were started.
\<close>

theorem all_served_in_order:
  assumes "tq_runs (\<lambda>e s. careful e s \<and> \<not> cancels e) (idle_sys t) evs hist s" "sq_deque (queue t) = []" "\<not> is_processing t"
  shows "hist @ waiting_ids s = enqueued evs \<and> (\<not> busy s \<longrightarrow> hist = enqueued evs)"
proof -
  have "alive (idle_sys t)" "complete [] [] (idle_sys t)" using assms(2,3) by (simp_all add: alive_def complete_def idle_sys_def)
  then show ?thesis using runs_complete [OF assms(1) base_idle [OF assms(2)]] by (auto simp: complete_def)
qed

section \<open>The witness run\<close>

text \<open>Two messages of one conversation: the second waits for the first, and is started when that ends.\<close>

definition two_messages :: "tq_event list" where
  "two_messages =
     [Enqueue (u ''r''), Begin 0, Add (u ''n'') sample_incoming (u ''s2'') (u ''r'') (u ''t1''), Enqueue (u ''n''),
      Finish 0 Returned (u ''t2''), Begin 1]"

definition after_two :: tree_sys where
  "after_two = the (tq_exec two_messages (idle_sys sample_root))"

fun run_ok :: "(tq_event \<Rightarrow> tree_sys \<Rightarrow> bool) \<Rightarrow> tq_event list \<Rightarrow> tree_sys \<Rightarrow> bool" where
  "run_ok ok [] s = True"
| "run_ok ok (e # es) s = (ok e s \<and> (case tq_next e s of None \<Rightarrow> False | Some s' \<Rightarrow> run_ok ok es s'))"

fun history :: "tq_event list \<Rightarrow> tree_sys \<Rightarrow> pystr list" where
  "history [] s = []"
| "history (e # es) s = (case tq_next e s of None \<Rightarrow> [] | Some s' \<Rightarrow> started s s' @ history es s')"

lemma tq_runs_exec:
  "tq_runs ok s0 evs hist s \<Longrightarrow> run_ok ok es s \<Longrightarrow> tq_exec es s = Some s' \<Longrightarrow> tq_runs ok s0 (evs @ es) (hist @ history es s) s'"
proof (induction es arbitrary: evs hist s)
  case (Cons e es)
  obtain s1 where s1: "tq_next e s = Some s1" "ok e s" "run_ok ok es s1" "tq_exec es s1 = Some s'"
    using Cons.prems by (auto split: option.splits)
  have "tq_runs ok s0 (evs @ [e]) (hist @ started s s1) s1" using tq_runs.step [OF Cons.prems(1) s1(2,1)] .
  from Cons.IH [OF this s1(3,4)] show ?case using s1(1) by simp
qed simp

lemma two_messages_run:
  assumes "run_ok ok two_messages (idle_sys sample_root)"
  shows "tq_runs ok (idle_sys sample_root) two_messages [u ''r'', u ''n''] after_two"
proof -
  have "tq_exec two_messages (idle_sys sample_root) = Some after_two"
  proof -
    have "tq_exec two_messages (idle_sys sample_root) \<noteq> None" by code_simp
    then show ?thesis by (auto simp: after_two_def)
  qed
  moreover have "history two_messages (idle_sys sample_root) = [u ''r'', u ''n'']" by code_simp
  ultimately show ?thesis using tq_runs_exec [OF tq_runs.start [of ok "idle_sys sample_root"] assms] by simp
qed

lemma run_ok_weaken: "run_ok ok es s \<Longrightarrow> (\<And>e s. e \<in> set es \<Longrightarrow> ok e s \<Longrightarrow> ok' e s) \<Longrightarrow> run_ok ok' es s"
proof (induction es arbitrary: s)
  case (Cons e es)
  then show ?case by (cases "tq_next e s") auto
qed simp

lemma two_messages_careful: "run_ok (\<lambda>e s. careful e s \<and> \<not> cancels e) two_messages (idle_sys sample_root)"
  by code_simp

lemma sample_root_idle: "sq_deque (queue sample_root) = []" "\<not> is_processing sample_root"
  by code_simp+

theorem one_at_a_time_witness: "0 \<notin> live after_two \<and> busy after_two"
proof -
  have run: "tq_runs (\<lambda>e s. e \<noteq> Enqueue [] \<and> (\<forall>now. e \<noteq> Cancel_Tree now)) (idle_sys sample_root) two_messages [u ''r'', u ''n''] after_two"
    by (rule two_messages_run, rule run_ok_weaken [OF two_messages_careful]) (auto simp: careful_def)
  have one: "1 \<in> live after_two"
  proof -
    have "map_option tk_phase (dict_get (ts_tasks after_two) 1) = Some Working" by code_simp
    then show ?thesis by (auto simp: live_def)
  qed
  show ?thesis
    using one_at_a_time [OF run sample_root_idle(1) one, of 0] one_at_a_time [OF run sample_root_idle(1) one one] by auto
qed

theorem never_stuck_witness: "live after_two \<noteq> {}"
proof -
  have "tq_runs careful (idle_sys sample_root) two_messages [u ''r'', u ''n''] after_two"
    by (rule two_messages_run, rule run_ok_weaken [OF two_messages_careful]) simp
  moreover have "busy after_two" by code_simp
  ultimately show ?thesis using never_stuck sample_root_idle by blast
qed

theorem fifo_order_witness: "subseq ([u ''r'', u ''n''] @ waiting_ids after_two) (enqueued two_messages)"
proof (rule fifo_order)
  show "tq_runs (\<lambda>e s. e \<noteq> Enqueue []) (idle_sys sample_root) two_messages [u ''r'', u ''n''] after_two"
    by (rule two_messages_run, rule run_ok_weaken [OF two_messages_careful]) (auto simp: careful_def)
qed (rule sample_root_idle(1))

theorem all_served_in_order_witness: "[u ''r'', u ''n''] @ waiting_ids after_two = enqueued two_messages"
  using all_served_in_order [OF two_messages_run [OF two_messages_careful] sample_root_idle] by simp

section \<open>Three races\<close>

text \<open>
  After the tree is cancelled, a message enqueued before the cancelled task has ended starts at once: two
  tasks of the tree are at work, and the end of the first marks the tree free while the second still runs.
\<close>

definition overlap_run :: "tq_event list" where
  "overlap_run =
     [Enqueue (u ''r''), Begin 0, Cancel_Tree (u ''t1''), Add (u ''n'') sample_incoming (u ''s2'') (u ''r'') (u ''t2''),
      Enqueue (u ''n''), Begin 1]"

definition tasks_at_work :: "tq_event list \<Rightarrow> (bool \<times> task_phase list) option" where
  "tasks_at_work es = map_option (\<lambda>s. (busy s, map (\<lambda>(k, tk). tk_phase tk) (ts_tasks s))) (tq_exec es (idle_sys sample_root))"

lemma cancelled_tree_overlaps:
  "tasks_at_work overlap_run = Some (True, [Working, Working])"
  "tasks_at_work (overlap_run @ [Finish 0 Interrupted (u ''t3'')]) = Some (False, [Working])"
  by code_simp+

text \<open>
  A node cancelled between the creation of its task and the task's first step: the coroutine never
  runs, nor does its \<open>finally\<close>, and the tree stays busy with no task.
\<close>

lemma dropped_task_sticks:
  "tasks_at_work [Enqueue (u ''r''), Cancel_Node (u ''r'') (u ''t1''), Drop 0] = Some (True, [])"
  by code_simp

text \<open>
  A queued node that already failed with its parent is left in the queue when its branch is cancelled
  and removed; taking it from the queue marks the tree busy without a task.
\<close>

lemma removed_node_sticks:
  "tasks_at_work
     [Enqueue (u ''r''), Begin 0, Add (u ''n'') sample_incoming (u ''s2'') (u ''r'') (u ''t1''), Enqueue (u ''n''),
      Fail (u ''r'') (u ''boom'') True (u ''t2''), Cancel_Branch (u ''n'') (u ''t3''), Remove_Branch (u ''n''),
      Finish 0 Returned (u ''t4''), Done 0] = Some (True, [])"
  by code_simp

section \<open>The pending children of a node\<close>

definition pending_rel :: "message_tree \<Rightarrow> (pystr \<times> pystr) set" where
  "pending_rel t = {(k, c). (k, c) \<in> child_rel t \<and> map_option node_state (get_node c t) = Some PENDING}"

lemma pending_of_rel: "c \<in> set (pending_of k t) \<longleftrightarrow> (k, c) \<in> pending_rel t"
  by (cases "get_node k t") (auto simp: pending_of_def pending_rel_def child_rel_def)

text \<open>The tree with only the pending children listed; the loop is the walk over it.\<close>

definition pending_tree :: "message_tree \<Rightarrow> message_tree" where
  "pending_tree t = t\<lparr>nodes := map (\<lambda>(k, n). (k, n\<lparr>children_ids := pending_of k t\<rparr>)) (nodes t)\<rparr>"

lemma pending_tree_get: "get_node k (pending_tree t) = map_option (\<lambda>n. n\<lparr>children_ids := pending_of k t\<rparr>) (get_node k t)"
proof -
  have "dict_get (map (\<lambda>(k, n). (k, f k n)) ns) k = map_option (f k) (dict_get ns k)" for f :: "pystr \<Rightarrow> message_node \<Rightarrow> message_node" and ns
    by (induction ns) auto
  then show ?thesis by (simp add: get_node_def pending_tree_def)
qed

lemma pending_tree_rel: "child_rel (pending_tree t) = pending_rel t"
proof -
  have "(k, c) \<in> child_rel (pending_tree t) \<longleftrightarrow> get_node k t \<noteq> None \<and> c \<in> set (pending_of k t)" for k c
    by (auto simp: child_rel_def pending_tree_get)
  moreover have "pending_of k t = []" if "get_node k t = None" for k using that by (simp add: pending_of_def)
  ultimately have "(k, c) \<in> child_rel (pending_tree t) \<longleftrightarrow> c \<in> set (pending_of k t)" for k c by force
  then show ?thesis by (auto simp: pending_of_rel)
qed

lemma pending_tree_forest: "tree_wf t \<Longrightarrow> forest (pending_tree t)"
proof -
  assume wf: "tree_wf t"
  have sub: "pending_rel t \<subseteq> child_rel t" by (auto simp: pending_rel_def)
  have "distinct (pending_of k t)" for k
    using wf_entry(2) [OF wf] by (auto simp: pending_of_def split: option.split)
  moreover have "has_node c (pending_tree t)" if "(k, c) \<in> pending_rel t" for k c
    using that sub child_dom [OF wf] by (auto simp: has_node_def pending_tree_get simp flip: get_node_def)
  moreover obtain rank :: "pystr \<Rightarrow> nat" where "\<And>k c. (k, c) \<in> child_rel t \<Longrightarrow> rank k < rank c" using wf_rank [OF wf] by blast
  then have "\<exists>rank :: pystr \<Rightarrow> nat. \<forall>(k, c) \<in> pending_rel t. rank k < rank c" using sub by (intro exI [of _ rank]) auto
  moreover have "k = k'" if "(k, c) \<in> pending_rel t" "(k', c) \<in> pending_rel t" for k k' c
    using one_parent [OF wf] that sub by blast
  ultimately show ?thesis unfolding forest_def pending_tree_rel by (auto simp: pending_tree_get)
qed

lemma descend_extends: "descend fuel ns res stack = Some ids \<Longrightarrow> \<exists>ext. ids = res @ ext"
proof (induction fuel arbitrary: res stack)
  case 0
  then show ?case by (cases stack) auto
next
  case (Suc fuel)
  then show ?case by (cases stack) (fastforce simp: Let_def)+
qed

lemma pending_loop_descend:
  "descend fuel (nodes (pending_tree t)) res stack = Some (res @ ext) \<Longrightarrow>
     pending_loop fuel t found stack = Some (found @ concat (map (\<lambda>k. pending_of k t) ext))"
proof (induction fuel arbitrary: res stack ext found)
  case 0
  then show ?case by (cases stack) auto
next
  case (Suc fuel)
  show ?case
  proof (cases stack)
    case Nil
    then show ?thesis using Suc.prems by simp
  next
    case (Cons x xs)
    let ?nid = "last stack"
    have kids: "(case dict_get (nodes (pending_tree t)) ?nid of None \<Rightarrow> [] | Some n \<Rightarrow> children_ids n) = pending_of ?nid t"
      using pending_tree_get [of ?nid t] by (cases "get_node ?nid t") (auto simp: get_node_def pending_of_def)
    have run: "descend fuel (nodes (pending_tree t)) (res @ [?nid]) (butlast stack @ pending_of ?nid t) = Some (res @ ext)"
      using Suc.prems Cons kids by (simp add: Let_def)
    from descend_extends [OF this] obtain ext' where "res @ ext = (res @ [?nid]) @ ext'" by blast
    then have ext: "ext = ?nid # ext'" by simp
    show ?thesis
      using Suc.IH [of "res @ [?nid]" "butlast stack @ pending_of ?nid t" ext' "found @ pending_of ?nid t"] run Cons
      by (simp add: ext Let_def)
  qed
qed

lemma distinct_pending:
  assumes wf: "tree_wf t"
  shows "distinct ids \<Longrightarrow> distinct (concat (map (\<lambda>k. pending_of k t) ids))"
proof (induction ids)
  case (Cons k ids)
  have "distinct (pending_of k t)"
    using wf_entry(2) [OF wf] by (auto simp: pending_of_def split: option.split)
  moreover have "c \<notin> set (pending_of j t)" if "c \<in> set (pending_of k t)" "j \<in> set ids" for c j
    using that Cons.prems one_parent [OF wf] by (auto simp: pending_of_rel pending_rel_def)
  ultimately show ?case using Cons by auto
qed simp

text \<open>
  On a well-formed tree \<open>get_pending_children\<close> ends and lists, each once, exactly the nodes
  reached from the node through pending children only: the nodes an error is passed on to.
\<close>

theorem pending_children_exact:
  assumes "tree_wf t" "has_node nid t" "length (nodes t) \<le> fuel"
  shows "\<exists>ids. get_pending_children fuel nid t = Some ids \<and> distinct ids \<and> set ids = {c. (nid, c) \<in> (pending_rel t)\<^sup>+}"
proof -
  have len: "length (nodes (pending_tree t)) = length (nodes t)" by (simp add: pending_tree_def)
  have "has_node nid (pending_tree t)" using assms(2) pending_tree_get [of nid t] by (simp add: has_node_def get_node_def)
  from descendants [OF pending_tree_forest [OF assms(1)] this, of fuel] assms(3) obtain ids where
    ids: "descend fuel (nodes (pending_tree t)) [] [nid] = Some ids" "distinct ids" "set ids = {x. (nid, x) \<in> (pending_rel t)\<^sup>*}"
    using \<open>has_node nid (pending_tree t)\<close> unfolding get_descendants_def pending_tree_rel len by auto
  have "get_pending_children fuel nid t = Some (concat (map (\<lambda>k. pending_of k t) ids))"
    using pending_loop_descend [of fuel t "[]" "[nid]" ids "[]"] ids(1) by (simp add: get_pending_children_def)
  moreover have "set (concat (map (\<lambda>k. pending_of k t) ids)) = {c. (nid, c) \<in> (pending_rel t)\<^sup>+}"
    using ids(3) by (auto simp: pending_of_rel trancl_unfold_right)
  ultimately show ?thesis using distinct_pending [OF assms(1) ids(2)] by blast
qed

theorem pending_children_exact_witness:
  "\<exists>ids. get_pending_children (length (nodes sample_tree)) (u ''n'') sample_tree = Some ids \<and> distinct ids"
  using pending_children_exact [OF conjunct1 [OF sample_tree_wf] conjunct2 [OF sample_tree_wf] order_refl] by blast

end
