(* ===== verification/TreeManager.thy ===== *)
theory TreeManager
  imports TreeQueue
begin

text \<open>
  All conversations (\<open>messaging/trees/queue_manager.py\<close>): \<open>TreeRepository\<close>, the index of trees and
  nodes, and \<open>TreeQueueManager\<close>, whose operations find the tree and act on it as in \<open>TreeQueue\<close>.
  The repository holds each tree with its tasks.
\<close>

section \<open>The repository\<close>

record tree_repository =
  rp_trees :: "(pystr, tree_sys) dict"
  rp_node_to_tree :: "(pystr, pystr) dict"

definition TreeRepository :: tree_repository where
  "TreeRepository = \<lparr>rp_trees = [], rp_node_to_tree = []\<rparr>"

definition get_tree :: "pystr \<Rightarrow> tree_repository \<Rightarrow> tree_sys option" where
  "get_tree root r = dict_get (rp_trees r) root"

text \<open>The key of the tree a node is registered with; \<open>None\<close> and the empty id have no tree.\<close>

definition tree_key :: "pystr \<Rightarrow> tree_repository \<Rightarrow> pystr option" where
  "tree_key nid r =
     (case dict_get (rp_node_to_tree r) nid of
        None \<Rightarrow> None
      | Some root \<Rightarrow> if root = [] \<or> get_tree root r = None then None else Some root)"

definition get_tree_for_node :: "pystr \<Rightarrow> tree_repository \<Rightarrow> tree_sys option" where
  "get_tree_for_node nid r = (case tree_key nid r of None \<Rightarrow> None | Some root \<Rightarrow> get_tree root r)"

definition repo_get_node :: "pystr \<Rightarrow> tree_repository \<Rightarrow> message_node option" where
  "repo_get_node nid r = (case get_tree_for_node nid r of None \<Rightarrow> None | Some s \<Rightarrow> get_node nid (ts_tree s))"

definition put_tree :: "pystr \<Rightarrow> tree_sys \<Rightarrow> tree_repository \<Rightarrow> tree_repository" where
  "put_tree root s r = r\<lparr>rp_trees := dict_set root s (rp_trees r)\<rparr>"

definition register_node :: "pystr \<Rightarrow> pystr \<Rightarrow> tree_repository \<Rightarrow> tree_repository" where
  "register_node nid root r = r\<lparr>rp_node_to_tree := dict_set nid root (rp_node_to_tree r)\<rparr>"

definition add_tree :: "pystr \<Rightarrow> tree_sys \<Rightarrow> tree_repository \<Rightarrow> tree_repository" where
  "add_tree root s r = register_node root root (put_tree root s r)"

definition repo_has_node :: "pystr \<Rightarrow> tree_repository \<Rightarrow> bool" where
  "repo_has_node nid r \<longleftrightarrow> dict_get (rp_node_to_tree r) nid \<noteq> None"

definition tree_count :: "tree_repository \<Rightarrow> nat" where
  "tree_count r = length (rp_trees r)"

definition is_tree_busy :: "pystr \<Rightarrow> tree_repository \<Rightarrow> bool" where
  "is_tree_busy root r = (case get_tree root r of None \<Rightarrow> False | Some s \<Rightarrow> busy s)"

definition is_node_tree_busy :: "pystr \<Rightarrow> tree_repository \<Rightarrow> bool" where
  "is_node_tree_busy nid r = (case get_tree_for_node nid r of None \<Rightarrow> False | Some s \<Rightarrow> busy s)"

definition get_queue_size :: "pystr \<Rightarrow> tree_repository \<Rightarrow> nat" where
  "get_queue_size nid r = (case get_tree_for_node nid r of None \<Rightarrow> 0 | Some s \<Rightarrow> qsize (queue (ts_tree s)))"

definition resolve_parent_node_id :: "pystr \<Rightarrow> tree_repository \<Rightarrow> pystr option" where
  "resolve_parent_node_id msg r =
     (case get_tree_for_node msg r of
        None \<Rightarrow> None
      | Some s \<Rightarrow>
          if has_node msg (ts_tree s) then Some msg
          else map_option node_id (find_node_by_status_message msg (ts_tree s)))"

definition unregister_nodes :: "pystr list \<Rightarrow> tree_repository \<Rightarrow> tree_repository" where
  "unregister_nodes ids r = r\<lparr>rp_node_to_tree := fold dict_pop ids (rp_node_to_tree r)\<rparr>"

definition remove_tree :: "pystr \<Rightarrow> tree_repository \<Rightarrow> tree_sys option \<times> tree_repository" where
  "remove_tree root r =
     (case get_tree root r of
        None \<Rightarrow> (None, r)
      | Some s \<Rightarrow>
          (Some s, unregister_nodes (map node_id (dict_values (nodes (ts_tree s)))) (r\<lparr>rp_trees := dict_pop root (rp_trees r)\<rparr>)))"

text \<open>A set in the source: the ids in the order they are met, without repetitions.\<close>

definition message_ids_of :: "pystr \<Rightarrow> pystr \<Rightarrow> message_node \<Rightarrow> pystr list" where
  "message_ids_of platform chat n =
     (if im_platform (incoming n) = platform \<and> im_chat_id (incoming n) = chat
      then im_message_id (incoming n) # (if status_message_id n = [] then [] else [status_message_id n]) else [])"

definition get_message_ids_for_chat :: "pystr \<Rightarrow> pystr \<Rightarrow> tree_repository \<Rightarrow> pystr list" where
  "get_message_ids_for_chat platform chat r =
     remdups (concat (map (\<lambda>s. concat (map (message_ids_of platform chat) (dict_values (nodes (ts_tree s))))) (dict_values (rp_trees r))))"

definition repo_to_dict :: "tree_repository \<Rightarrow> json" where
  "repo_to_dict r = JObj
     [(u ''trees'', JObj (map (\<lambda>(root, s). (root, tree_to_dict (ts_tree s))) (rp_trees r))),
      (u ''node_to_tree'', JObj (map (\<lambda>(nid, root). (nid, JStr root)) (rp_node_to_tree r)))]"

fun trees_from_dict :: "(pystr \<Rightarrow> pystr option) \<Rightarrow> (pystr, json) dict \<Rightarrow> py_exn + (pystr, tree_sys) dict" where
  "trees_from_dict read_iso [] = Inr []"
| "trees_from_dict read_iso ((root, v) # rest) =
     and_then (tree_from_dict read_iso v) (\<lambda>t.
     and_then (trees_from_dict read_iso rest) (\<lambda>ts. Inr ((root, idle_sys t) # ts)))"

definition obj_item :: "pystr \<Rightarrow> json \<Rightarrow> py_exn + (pystr, json) dict" where
  "obj_item k v = (case jget_default k (JObj []) v of JObj d \<Rightarrow> Inr d | _ \<Rightarrow> Inl TypeError)"

definition repo_from_dict :: "(pystr \<Rightarrow> pystr option) \<Rightarrow> json \<Rightarrow> py_exn + tree_repository" where
  "repo_from_dict read_iso v =
     and_then (obj_item (u ''trees'') v) (\<lambda>ts.
     and_then (trees_from_dict read_iso ts) (\<lambda>trees.
     and_then (obj_item (u ''node_to_tree'') v) (\<lambda>index.
       if list_all (is_str \<circ> snd) index
       then Inr \<lparr>rp_trees = trees, rp_node_to_tree = map (\<lambda>(k, w). (k, text_of w)) index\<rparr>
       else Inl TypeError)))"

section \<open>The manager\<close>

definition create_tree :: "pystr \<Rightarrow> incoming_message \<Rightarrow> pystr \<Rightarrow> pystr \<Rightarrow> tree_repository \<Rightarrow> tree_repository" where
  "create_tree nid inc status now r = add_tree nid (idle_sys (MessageTree (MessageNode nid inc status None now))) r"

definition add_to_tree ::
    "pystr \<Rightarrow> pystr \<Rightarrow> incoming_message \<Rightarrow> pystr \<Rightarrow> pystr \<Rightarrow> tree_repository \<Rightarrow> py_exn + tree_repository" where
  "add_to_tree parent nid inc status now r =
     (case tree_key parent r of
        None \<Rightarrow> Inl ValueError
      | Some root \<Rightarrow>
          (case get_tree root r of
             None \<Rightarrow> Inl ValueError
           | Some s \<Rightarrow>
               and_then (add_child nid inc status parent now s)
                 (\<lambda>s'. Inr (register_node nid (root_id (ts_tree s')) (put_tree root s' r)))))"

text \<open>An operation on the tree of a node, with the answer given when there is none.\<close>

definition on_node_tree :: "pystr \<Rightarrow> 'a \<Rightarrow> (tree_sys \<Rightarrow> 'a \<times> tree_sys) \<Rightarrow> tree_repository \<Rightarrow> 'a \<times> tree_repository" where
  "on_node_tree nid none f r =
     (case tree_key nid r of
        None \<Rightarrow> (none, r)
      | Some root \<Rightarrow>
          (case get_tree root r of
             None \<Rightarrow> (none, r)
           | Some s \<Rightarrow> (case f s of (x, s') \<Rightarrow> (x, put_tree root s' r))))"

definition manager_enqueue :: "pystr \<Rightarrow> tree_repository \<Rightarrow> bool \<times> tree_repository" where
  "manager_enqueue nid = on_node_tree nid False (enqueue_and_start nid)"

definition manager_cancel_node :: "pystr \<Rightarrow> pystr \<Rightarrow> tree_repository \<Rightarrow> pystr list \<times> tree_repository" where
  "manager_cancel_node nid now = on_node_tree nid [] (cancel_node nid now)"

definition manager_cancel_tree :: "pystr \<Rightarrow> pystr \<Rightarrow> tree_repository \<Rightarrow> pystr list \<times> tree_repository" where
  "manager_cancel_tree root now r =
     (case get_tree root r of
        None \<Rightarrow> ([], r)
      | Some s \<Rightarrow> (case cancel_tree now s of (cancelled, s') \<Rightarrow> (cancelled, put_tree root s' r)))"

fun cancel_trees :: "pystr \<Rightarrow> pystr list \<Rightarrow> tree_repository \<Rightarrow> pystr list \<times> tree_repository" where
  "cancel_trees now [] r = ([], r)"
| "cancel_trees now (root # roots) r =
     (case manager_cancel_tree root now r of (c, r1) \<Rightarrow> case cancel_trees now roots r1 of (cs, r2) \<Rightarrow> (c @ cs, r2))"

definition cancel_all :: "pystr \<Rightarrow> tree_repository \<Rightarrow> pystr list \<times> tree_repository" where
  "cancel_all now r = cancel_trees now (dict_keys (rp_trees r)) r"

definition manager_cancel_branch :: "pystr \<Rightarrow> pystr \<Rightarrow> tree_repository \<Rightarrow> (pystr list \<times> tree_repository) option" where
  "manager_cancel_branch b now r =
     (case tree_key b r of
        None \<Rightarrow> Some ([], r)
      | Some root \<Rightarrow>
          (case get_tree root r of
             None \<Rightarrow> Some ([], r)
           | Some s \<Rightarrow> map_option (\<lambda>(ids, s'). (ids, put_tree root s' r)) (cancel_branch b now s)))"

definition manager_mark_node_error :: "pystr \<Rightarrow> pystr \<Rightarrow> bool \<Rightarrow> pystr \<Rightarrow> tree_repository \<Rightarrow> (pystr list \<times> tree_repository) option" where
  "manager_mark_node_error nid err propagate now r =
     (case tree_key nid r of
        None \<Rightarrow> Some ([], r)
      | Some root \<Rightarrow>
          (case get_tree root r of
             None \<Rightarrow> Some ([], r)
           | Some s \<Rightarrow>
               map_option (\<lambda>(ids, t). (ids, put_tree root (s\<lparr>ts_tree := t\<rparr>) r)) (mark_node_error nid err propagate now (ts_tree s))))"

text \<open>The removed nodes, the root's id and whether the whole tree went.\<close>

definition manager_remove_branch ::
    "pystr \<Rightarrow> pystr \<Rightarrow> tree_repository \<Rightarrow> (py_exn + (message_node list \<times> pystr \<times> bool) \<times> tree_repository) option" where
  "manager_remove_branch b now r =
     (case tree_key b r of
        None \<Rightarrow> Some (Inr (([], [], False), r))
      | Some key \<Rightarrow>
          (case get_tree key r of
             None \<Rightarrow> Some (Inr (([], [], False), r))
           | Some s \<Rightarrow>
               let root = root_id (ts_tree s) in
               if b = root then
                 (case manager_cancel_tree root now r of (_, r1) \<Rightarrow>
                  case remove_tree root r1 of
                    (Some s1, r2) \<Rightarrow> Some (Inr ((dict_values (nodes (ts_tree s1)), root, True), r2))
                  | (None, r2) \<Rightarrow> Some (Inr (([], root, True), r2)))
               else
                 map_option (map_sum id (\<lambda>(removed, s'). ((removed, root, False), unregister_nodes (map node_id removed) (put_tree key s' r))))
                   (cut_branch b s)))"

definition cleanup_stale_nodes :: "pystr \<Rightarrow> tree_repository \<Rightarrow> nat \<times> tree_repository" where
  "cleanup_stale_nodes now r =
     (sum_list (map (\<lambda>s. fst (mark_stale (u ''Lost during server restart'') now [] (ts_tree s))) (dict_values (rp_trees r))),
      r\<lparr>rp_trees := map (\<lambda>(root, s). (root, s\<lparr>ts_tree := snd (mark_stale (u ''Lost during server restart'') now [] (ts_tree s))\<rparr>)) (rp_trees r)\<rparr>)"

section \<open>What the index promises\<close>

text \<open>Every tree is stored under its root's id, is well formed, and has its nodes registered.\<close>

definition repo_ok :: "tree_repository \<Rightarrow> bool" where
  "repo_ok r \<longleftrightarrow>
     (\<forall>root s. get_tree root r = Some s \<longrightarrow> root \<noteq> [] \<and> root_id (ts_tree s) = root \<and> tree_wf (ts_tree s) \<and>
        (\<forall>k. has_node k (ts_tree s) \<longrightarrow> dict_get (rp_node_to_tree r) k = Some root))"

lemma repo_okD:
  assumes "repo_ok r" "get_tree root r = Some s"
  shows "root \<noteq> []" "root_id (ts_tree s) = root" "tree_wf (ts_tree s)"
    "\<And>k. has_node k (ts_tree s) \<Longrightarrow> dict_get (rp_node_to_tree r) k = Some root"
  using assms unfolding repo_ok_def by simp_all

lemma get_put_tree: "get_tree k (put_tree root s r) = (if k = root then Some s else get_tree k r)"
  by (simp add: get_tree_def put_tree_def dict_simps)

lemma put_tree_index [simp]: "rp_node_to_tree (put_tree root s r) = rp_node_to_tree r"
  by (simp add: put_tree_def)

lemma register_simps [simp]: "get_tree k (register_node nid root r) = get_tree k r"
  "dict_get (rp_node_to_tree (register_node nid root r)) k = (if k = nid then Some root else dict_get (rp_node_to_tree r) k)"
  by (simp_all add: register_node_def get_tree_def dict_simps)

lemma node_tree: "repo_ok r \<Longrightarrow> dict_get (rp_node_to_tree r) k = Some root \<Longrightarrow> get_tree root r = Some s \<Longrightarrow> get_tree_for_node k r = Some s"
  using repo_okD(1) by (auto simp: get_tree_for_node_def tree_key_def)

text \<open>A reply added to a conversation keeps the index right.\<close>

lemma add_to_tree_ok:
  assumes ok: "repo_ok r" and parent: "get_tree_for_node parent r = Some s" and "nid \<noteq> []"
    and fresh: "dict_get (rp_node_to_tree r) nid = None" "dict_get (status_to_node (ts_tree s)) status = None"
    and add: "add_to_tree parent nid inc status now r = Inr r'"
  obtains root s' where "get_tree root r = Some s" "add_child nid inc status parent now s = Inr s'"
    "r' = register_node nid root (put_tree root s' r)" "repo_ok r'" "tree_wf (ts_tree s')" "has_node nid (ts_tree s')"
    "child_rel (ts_tree s') = insert (parent, nid) (child_rel (ts_tree s))"
proof -
  obtain root where root: "tree_key parent r = Some root" "get_tree root r = Some s"
    using parent by (auto simp: get_tree_for_node_def split: option.splits)
  obtain s' where s': "add_child nid inc status parent now s = Inr s'"
    "r' = register_node nid (root_id (ts_tree s')) (put_tree root s' r)"
    using add root by (cases "add_child nid inc status parent now s") (auto simp: add_to_tree_def)
  obtain t where t: "add_node nid inc status parent now (ts_tree s) = Inr t" "ts_tree s' = t"
    using s'(1) by (cases "add_node nid inc status parent now (ts_tree s)") (auto simp: add_child_def)
  note rk = repo_okD [OF ok root(2)]
  have free: "get_node nid (ts_tree s) = None" using rk(4) [of nid] fresh(1) by (fastforce simp: has_node_def get_node_def)
  from add_node_ok [OF rk(3) free assms(3) fresh(2) t(1)] have
    wf: "tree_wf t" "child_rel t = insert (parent, nid) (child_rel (ts_tree s))" "has_node nid t" by simp_all
  have id: "root_id t = root" and dom: "has_node k t \<Longrightarrow> k = nid \<or> has_node k (ts_tree s)" for k
    using t(1) rk(2) by (auto simp: add_node_def has_node_def dict_simps Let_def split: if_splits option.splits)
  have "repo_ok r'"
    unfolding repo_ok_def
  proof (intro allI impI)
    fix k s1
    assume k: "get_tree k r' = Some s1"
    show "k \<noteq> [] \<and> root_id (ts_tree s1) = k \<and> tree_wf (ts_tree s1) \<and> (\<forall>j. has_node j (ts_tree s1) \<longrightarrow> dict_get (rp_node_to_tree r') j = Some k)"
    proof (cases "k = root")
      case True
      then have "s1 = s'" using k by (simp add: s'(2) get_put_tree)
      then show ?thesis using True rk wf id dom t(2) by (auto simp: s'(2))
    next
      case False
      then have old: "get_tree k r = Some s1" using k by (simp add: s'(2) get_put_tree)
      then show ?thesis using repo_okD [OF ok old] fresh(1) by (auto simp: s'(2))
    qed
  qed
  then show ?thesis using that root(2) s' wf id t(2) by simp
qed

text \<open>
  A reply added to a conversation, its status message registered, is found again: both
  the reply's own id and its status message resolve to the reply, and every other id as before.
\<close>

theorem added_reply_resolves:
  assumes "repo_ok r" "get_tree_for_node parent r = Some s" "nid \<noteq> []" "status \<noteq> nid"
    and "dict_get (rp_node_to_tree r) nid = None" "dict_get (rp_node_to_tree r) status = None"
    and "dict_get (status_to_node (ts_tree s)) status = None" "nid \<notin> set (dict_values (status_to_node (ts_tree s)))"
    and "add_to_tree parent nid inc status now r = Inr r1"
  defines "r2 \<equiv> register_node status (root_id (ts_tree s)) r1"
  shows "repo_ok r2 \<and> resolve_parent_node_id nid r2 = Some nid \<and> resolve_parent_node_id status r2 = Some nid \<and>
    (\<forall>m. m \<noteq> nid \<longrightarrow> m \<noteq> status \<longrightarrow> resolve_parent_node_id m r2 = resolve_parent_node_id m r)"
proof -
  from add_to_tree_ok [OF assms(1-3,5,7,9)] obtain root s' where
    a: "get_tree root r = Some s" "add_child nid inc status parent now s = Inr s'" "r1 = register_node nid root (put_tree root s' r)"
      "repo_ok r1" "tree_wf (ts_tree s')" "has_node nid (ts_tree s')" .
  note rk = repo_okD [OF assms(1) a(1)]
  have r2: "r2 = register_node status root r1" using rk(2) by (simp add: r2_def)
  obtain t where t: "add_node nid inc status parent now (ts_tree s) = Inr t" "ts_tree s' = t"
    using a(2) by (cases "add_node nid inc status parent now (ts_tree s)") (auto simp: add_child_def)
  have nodes: "has_node k t \<longleftrightarrow> k = nid \<or> has_node k (ts_tree s)" and
    index: "dict_get (status_to_node t) m = (if m = status then Some nid else dict_get (status_to_node (ts_tree s)) m)" for k m
    using t(1) by (auto simp: add_node_def has_node_def dict_simps Let_def split: if_splits option.splits)
  have get: "get_node nid t \<noteq> None" "k \<noteq> nid \<Longrightarrow> map_option node_id (get_node k t) = map_option node_id (get_node k (ts_tree s))" for k
    using t(1) by (auto simp: add_node_def get_node_def dict_simps Let_def split: if_splits option.splits)
  have st: "\<not> has_node status (ts_tree s)" using rk(4) assms(6) by force
  have ok2: "repo_ok r2"
    using a(4) st nodes assms(4,6) repo_okD [OF assms(1)] unfolding repo_ok_def r2
    by (auto simp: a(3) get_put_tree t(2) split: if_splits)
  have here: "get_tree_for_node m r2 = Some s'" if "m = nid \<or> m = status" for m
    using that node_tree [OF ok2, of m root s'] by (auto simp: r2 a(3) get_put_tree)
  have "node_id (the (get_node nid t)) = nid" using wf_entry(1) [OF a(5), of nid] get(1) t(2) by auto
  then have "map_option node_id (get_node nid t) = Some nid" using get(1) by auto
  then have new: "resolve_parent_node_id nid r2 = Some nid" "resolve_parent_node_id status r2 = Some nid"
    using here nodes st assms(3,4) by (auto simp: resolve_parent_node_id_def t(2) find_node_by_status_message_def index)
  have "resolve_parent_node_id m r2 = resolve_parent_node_id m r" if m: "m \<noteq> nid" "m \<noteq> status" for m
  proof (cases "tree_key m r")
    case None
    then have "get_tree_for_node m r2 = None" "get_tree_for_node m r = None"
      using m a(1) by (auto simp: get_tree_for_node_def tree_key_def r2 a(3) get_put_tree split: option.splits if_splits)
    then show ?thesis by (simp add: resolve_parent_node_id_def)
  next
    case (Some k)
    then have k: "tree_key m r2 = Some k" using m a(1) by (auto simp: tree_key_def r2 a(3) get_put_tree split: option.splits if_splits)
    show ?thesis
    proof (cases "k = root")
      case True
      have "map_option node_id (find_node_by_status_message m t) = map_option node_id (find_node_by_status_message m (ts_tree s))"
      proof (cases "dict_get (status_to_node (ts_tree s)) m")
        case (Some j)
        then have "j \<noteq> nid" using assms(8) by (force dest: dict_get_in_set)
        then show ?thesis using Some m get(2) by (simp add: find_node_by_status_message_def index)
      qed (use m in \<open>simp add: find_node_by_status_message_def index\<close>)
      then show ?thesis using True Some k a(1) m nodes t(2)
        by (simp add: resolve_parent_node_id_def get_tree_for_node_def r2 a(3) get_put_tree)
    next
      case False
      then show ?thesis using Some k by (simp add: resolve_parent_node_id_def get_tree_for_node_def r2 a(3) get_put_tree)
    qed
  qed
  then show ?thesis using ok2 new by blast
qed

text \<open>A first conversation and a reply to it.\<close>

definition one_conversation :: tree_repository where
  "one_conversation = register_node (u ''s1'') (u ''r'') (create_tree (u ''r'') sample_incoming (u ''s1'') (u ''t0'') TreeRepository)"

lemma one_conversation_ok: "repo_ok one_conversation"
proof -
  have tree: "get_tree k one_conversation = (if k = u ''r'' then Some (idle_sys sample_root) else None)" for k
    by (simp add: one_conversation_def create_tree_def add_tree_def get_put_tree sample_root_def) (simp add: get_tree_def TreeRepository_def)
  have "has_node k sample_root \<longleftrightarrow> k = u ''r''" for k
    by (auto simp: sample_root_def MessageTree_def MessageNode_def has_node_def)
  moreover have "dict_get (rp_node_to_tree one_conversation) (u ''r'') = Some (u ''r'')" "root_id sample_root = u ''r''" "u ''r'' \<noteq> []" by code_simp+
  ultimately show ?thesis using sample_root_wf by (simp add: repo_ok_def tree idle_sys_def)
qed

theorem added_reply_resolves_witness:
  "resolve_parent_node_id (u ''s2'')
     (register_node (u ''s2'') (u ''r'')
       (projr (add_to_tree (u ''r'') (u ''n'') sample_incoming (u ''s2'') (u ''t1'') one_conversation))) = Some (u ''n'')"
proof -
  obtain r1 where r1: "add_to_tree (u ''r'') (u ''n'') sample_incoming (u ''s2'') (u ''t1'') one_conversation = Inr r1"
  proof -
    have "isl (add_to_tree (u ''r'') (u ''n'') sample_incoming (u ''s2'') (u ''t1'') one_conversation) = False" by code_simp
    then show ?thesis using that by (metis isl_def sum.exhaust)
  qed
  have s: "get_tree_for_node (u ''r'') one_conversation = Some (idle_sys sample_root)" by code_simp
  have facts: "u ''n'' \<noteq> []" "u ''s2'' \<noteq> u ''n''" "dict_get (rp_node_to_tree one_conversation) (u ''n'') = None"
    "dict_get (rp_node_to_tree one_conversation) (u ''s2'') = None"
    "dict_get (status_to_node (ts_tree (idle_sys sample_root))) (u ''s2'') = None"
    "u ''n'' \<notin> set (dict_values (status_to_node (ts_tree (idle_sys sample_root))))"
    "root_id (ts_tree (idle_sys sample_root)) = u ''r''"
    by code_simp+
  show ?thesis using added_reply_resolves [OF one_conversation_ok s facts(1-6) r1] r1 facts(7) by simp
qed

end
