(* ===== verification/NativeRequest.thy ===== *)
theory NativeRequest
  imports Conversion
begin

text \<open>
  Request bodies in Anthropic's own format (\<open>core/anthropic/native_messages_request.py\<close>), and their
  adaptation to DeepSeek (\<open>providers/deepseek/request.py\<close>).  A request is the dict that Pydantic's
  \<open>model_dump\<close> gives, or the attributes of a light-weight object; types of blocks and tools are strings,
  as the request models demand.
\<close>

section \<open>The fields of a request\<close>

abbreviation field :: "string \<Rightarrow> (pystr, json) dict \<Rightarrow> json" where
  "field k d \<equiv> jget (u k) (JObj d)"

abbreviation has_field :: "string \<Rightarrow> (pystr, json) dict \<Rightarrow> bool" where
  "has_field k d \<equiv> dict_get d (u k) \<noteq> None"

definition setdefault :: "string \<Rightarrow> json \<Rightarrow> (pystr, json) dict \<Rightarrow> (pystr, json) dict" where
  "setdefault k v d = (if has_field k d then d else dict_set (u k) v d)"

definition REQUEST_FIELDS :: "pystr list" where
  "REQUEST_FIELDS = map u
     [''model'', ''messages'', ''system'', ''max_tokens'', ''stop_sequences'', ''stream'', ''temperature'', ''top_p'', ''top_k'',
      ''metadata'', ''tools'', ''tool_choice'', ''thinking'', ''context_management'', ''output_config'', ''mcp_servers'', ''extra_body'']"

definition OPENROUTER_EXTRA_BODY_FORBIDDEN_KEYS :: "pystr list" where
  "OPENROUTER_EXTRA_BODY_FORBIDDEN_KEYS = map u
     [''model'', ''messages'', ''system'', ''tools'', ''tool_choice'', ''stream'', ''max_tokens'', ''temperature'', ''top_p'', ''top_k'',
      ''metadata'', ''stop_sequences'', ''context_management'', ''output_config'', ''mcp_servers'']"

definition OpenRouterExtraBodyError :: py_exn where
  "OpenRouterExtraBodyError = OtherException (u ''OpenRouterExtraBodyError'')"

definition validate_openrouter_extra_body :: "json \<Rightarrow> py_exn + unit" where
  "validate_openrouter_extra_body extra =
     (case extra of
        JObj d \<Rightarrow> if list_ex (\<lambda>k. k \<in> set OPENROUTER_EXTRA_BODY_FORBIDDEN_KEYS) (dict_keys d) then Inl OpenRouterExtraBodyError else Inr ()
      | _ \<Rightarrow> Inr ())"

fun serialize_value :: "json \<Rightarrow> json" where
  "serialize_value (JObj d) = JObj (concat (map (\<lambda>(k, v). if v = JNull then [] else [(k, serialize_value v)]) d))"
| "serialize_value (JArr xs) = JArr (map serialize_value xs)"
| "serialize_value v = v"

text \<open>The fields that are set, in the order of the list; values of a light-weight object are serialized one by one.\<close>

definition dump_request_fields :: "bool \<Rightarrow> (pystr, json) dict \<Rightarrow> (pystr, json) dict" where
  "dump_request_fields pydantic raw =
     List.map_filter (\<lambda>f. case dict_get raw f of
         None \<Rightarrow> None
       | Some v \<Rightarrow> if v = JNull then None else Some (f, if pydantic then v else serialize_value v)) REQUEST_FIELDS"

definition dump_raw_messages_request :: "bool \<Rightarrow> (pystr, json) dict \<Rightarrow> (pystr, json) dict" where
  "dump_raw_messages_request = dump_request_fields"

section \<open>Sanitizing messages, system prompt and tools\<close>

text \<open>The assistant messages with a list of blocks, without the blocks that are dropped; nothing left is the empty string.\<close>

definition filter_assistant_blocks :: "(json \<Rightarrow> bool) \<Rightarrow> json \<Rightarrow> json" where
  "filter_assistant_blocks dropped message =
     (case message of
        JObj m \<Rightarrow>
          if field ''role'' m \<noteq> JStr (u ''assistant'') then message
          else (case field ''content'' m of
            JArr blocks \<Rightarrow>
              let kept = filter (\<lambda>b. \<not> dropped b) blocks
              in JObj (dict_set (u ''content'') (if kept = [] then JStr [] else JArr kept) m)
          | _ \<Rightarrow> message)
      | _ \<Rightarrow> message)"

definition on_messages :: "(json \<Rightarrow> json) \<Rightarrow> json \<Rightarrow> json" where
  "on_messages f messages = (case messages of JArr ms \<Rightarrow> JArr (map f ms) | _ \<Rightarrow> messages)"

abbreviation typed :: "string \<Rightarrow> json \<Rightarrow> bool" where
  "typed t block \<equiv> jget (u ''type'') block = JStr (u t)"

text \<open>\<open>str(v).strip()\<close> of a value that is true and no string is never empty.\<close>

definition blank :: "json \<Rightarrow> bool" where
  "blank v \<longleftrightarrow> \<not> truthy v \<or> (case v of JStr s \<Rightarrow> str_strip s = [] | _ \<Rightarrow> False)"

definition dropped_thinking :: "bool \<Rightarrow> json \<Rightarrow> bool" where
  "dropped_thinking thinking_enabled block \<longleftrightarrow>
     is_dict block \<and>
     (if \<not> thinking_enabled then typed ''thinking'' block \<or> typed ''redacted_thinking'' block
      else typed ''thinking'' block \<and> (\<not> is_str (jget (u ''signature'') block) \<or> blank (jget (u ''thinking'') block)))"

definition sanitize_native_messages_thinking_policy :: "bool \<Rightarrow> json \<Rightarrow> json" where
  "sanitize_native_messages_thinking_policy thinking_enabled =
     on_messages (filter_assistant_blocks (dropped_thinking thinking_enabled))"

definition system_texts :: "json list \<Rightarrow> pystr list" where
  "system_texts blocks =
     map (\<lambda>b. PyJson.text_of (jget (u ''text'') b)) (filter (\<lambda>b. is_dict b \<and> typed ''text'' b \<and> is_str (jget (u ''text'') b)) blocks)"

definition normalize_system_prompt_for_openrouter :: "json \<Rightarrow> json" where
  "normalize_system_prompt_for_openrouter system =
     (case system of
        JArr blocks \<Rightarrow> if system_texts blocks \<noteq> [] then JStr (str_strip (str_join [10, 10] (system_texts blocks))) else system
      | _ \<Rightarrow> system)"

definition apply_openrouter_reasoning_policy :: "json \<Rightarrow> (pystr, json) dict \<Rightarrow> (pystr, json) dict" where
  "apply_openrouter_reasoning_policy thinking_cfg body =
     (let body1 = setdefault ''reasoning'' (JObj [(u ''enabled'', JBool True)]) body in
      case field ''reasoning'' body1 of
        JObj r \<Rightarrow>
          let r1 = setdefault ''enabled'' (JBool True) r;
              budget = jget (u ''budget_tokens'') thinking_cfg;
              r2 = (if is_dict thinking_cfg \<and> as_int budget \<noteq> None then setdefault ''max_tokens'' budget r1 else r1)
          in dict_set (u ''reasoning'') (JObj r2) body1
      | _ \<Rightarrow> body1)"

definition ALLOWED_GATEWAY_TOOL_TYPES :: "pystr list" where
  "ALLOWED_GATEWAY_TOOL_TYPES = map u
     [''bash_20250124'', ''code_execution_20250522'', ''code_execution_20250825'', ''code_execution_20260120'', ''custom'',
      ''memory_20250818'', ''text_editor_20250124'', ''text_editor_20250429'', ''text_editor_20250728'', ''tool_search_tool_bm25'',
      ''tool_search_tool_bm25_20251119'', ''tool_search_tool_regex'', ''tool_search_tool_regex_20251119'', ''web_fetch_20250910'',
      ''web_fetch_20260209'', ''web_fetch_20260309'', ''web_search_20250305'', ''web_search_20260209'']"

definition tool_allowed :: "json \<Rightarrow> bool" where
  "tool_allowed t \<longleftrightarrow>
     \<not> is_dict t \<or> (case jget (u ''type'') t of JNull \<Rightarrow> True | JStr ty \<Rightarrow> ty \<in> set ALLOWED_GATEWAY_TOOL_TYPES | _ \<Rightarrow> False)"

definition sanitize_native_messages_tools :: "json \<Rightarrow> json" where
  "sanitize_native_messages_tools tools = (case tools of JArr ts \<Rightarrow> JArr (filter tool_allowed ts) | _ \<Rightarrow> tools)"

section \<open>The bodies\<close>

definition on_field :: "string \<Rightarrow> (json \<Rightarrow> json) \<Rightarrow> (pystr, json) dict \<Rightarrow> (pystr, json) dict" where
  "on_field k f body = (case dict_get body (u k) of None \<Rightarrow> body | Some v \<Rightarrow> dict_set (u k) (f v) body)"

text \<open>The payload of an enabled thinking configuration, with its budget passed through \<open>f\<close>.\<close>

definition thinking_payload :: "(json \<Rightarrow> json) \<Rightarrow> json \<Rightarrow> json" where
  "thinking_payload f cfg =
     (let budget = jget (u ''budget_tokens'') cfg in
      JObj ((u ''type'', JStr (u ''enabled'')) # (if as_int budget \<noteq> None then [(u ''budget_tokens'', f budget)] else [])))"

definition at_least :: "int \<Rightarrow> json \<Rightarrow> json" where
  "at_least m v = (case as_int v of Some i \<Rightarrow> if m > i then JInt m else v | None \<Rightarrow> v)"

definition build_base_native_anthropic_request_body :: "int \<Rightarrow> bool \<Rightarrow> bool \<Rightarrow> (pystr, json) dict \<Rightarrow> (pystr, json) dict" where
  "build_base_native_anthropic_request_body default_max_tokens thinking_enabled pydantic raw =
     (let body = dict_pop (u ''extra_body'') (dump_raw_messages_request pydantic raw);
          body1 = (case dict_get body (u ''thinking'') of
              None \<Rightarrow> body
            | Some cfg \<Rightarrow>
                let popped = dict_pop (u ''thinking'') body
                in if thinking_enabled \<and> is_dict cfg then dict_set (u ''thinking'') (thinking_payload (at_least 1024) cfg) popped else popped);
          body2 = setdefault ''max_tokens'' (JInt default_max_tokens) body1;
          body3 = on_field ''messages'' (sanitize_native_messages_thinking_policy thinking_enabled) body2
      in on_field ''tools'' sanitize_native_messages_tools body3)"

definition build_openrouter_native_request_body :: "int \<Rightarrow> bool \<Rightarrow> bool \<Rightarrow> (pystr, json) dict \<Rightarrow> py_exn + (pystr, json) dict" where
  "build_openrouter_native_request_body default_max_tokens thinking_enabled pydantic raw =
     (let dumped = dump_request_fields pydantic raw;
          extra = field ''extra_body'' dumped;
          cfg = field ''thinking'' dumped;
          body = filter (\<lambda>(k, _). k \<notin> {u ''thinking'', u ''extra_body''}) (dict_pop (u ''extra_body'') dumped)
      in and_then (validate_openrouter_extra_body extra) (\<lambda>_.
          let body1 = (case extra of JObj d \<Rightarrow> foldl (\<lambda>b (k, v). dict_set k v b) body d | _ \<Rightarrow> body);
              body2 = dict_set (u ''messages'') (sanitize_native_messages_thinking_policy thinking_enabled (field ''messages'' body1)) body1;
              body3 = on_field ''system'' normalize_system_prompt_for_openrouter body2;
              body4 = dict_set (u ''stream'') (JBool True) body3;
              body5 = (if field ''max_tokens'' body4 = JNull then dict_set (u ''max_tokens'') (JInt default_max_tokens) body4 else body4);
              body6 = (if thinking_enabled then apply_openrouter_reasoning_policy cfg body5 else body5)
          in Inr (on_field ''tools'' sanitize_native_messages_tools body6)))"

section \<open>The providers' bodies\<close>

text \<open>
  \<open>providers/open_router/request.py\<close>, \<open>fireworks/request.py\<close>, \<open>zai/request.py\<close> and \<open>kimi/request.py\<close>; \<open>extra\<close> is
  the attribute \<open>extra_body\<close> of the request.
\<close>

definition ANTHROPIC_DEFAULT_MAX_OUTPUT_TOKENS :: int where
  "ANTHROPIC_DEFAULT_MAX_OUTPUT_TOKENS = 81920"

definition InvalidRequestError :: py_exn where
  "InvalidRequestError = OtherException (u ''InvalidRequestError'')"

text \<open>\<open>except E as exc: raise InvalidRequestError(...) from exc\<close>.\<close>

definition reraise_invalid :: "py_exn \<Rightarrow> py_exn + 'a \<Rightarrow> py_exn + 'a" where
  "reraise_invalid e r = (case r of Inl x \<Rightarrow> Inl (if x = e then InvalidRequestError else x) | Inr y \<Rightarrow> Inr y)"

definition openrouter_request_body :: "bool \<Rightarrow> bool \<Rightarrow> (pystr, json) dict \<Rightarrow> py_exn + (pystr, json) dict" where
  "openrouter_request_body thinking_enabled pydantic raw =
     reraise_invalid OpenRouterExtraBodyError
       (build_openrouter_native_request_body ANTHROPIC_DEFAULT_MAX_OUTPUT_TOKENS thinking_enabled pydantic raw)"

definition fireworks_request_body :: "bool \<Rightarrow> bool \<Rightarrow> (pystr, json) dict \<Rightarrow> json \<Rightarrow> py_exn + (pystr, json) dict" where
  "fireworks_request_body thinking_enabled pydantic raw extra =
     (let body = build_base_native_anthropic_request_body ANTHROPIC_DEFAULT_MAX_OUTPUT_TOKENS thinking_enabled pydantic raw in
      and_then
        (case extra of
           JObj d \<Rightarrow> if d = [] then Inr body
             else and_then (reraise_invalid OpenRouterExtraBodyError (validate_openrouter_extra_body extra))
                    (\<lambda>_. Inr (foldl (\<lambda>b (k, v). dict_set k v b) body d))
         | _ \<Rightarrow> Inr body)
        (\<lambda>b. Inr (dict_set (u ''stream'') (JBool True) b)))"

definition strict_request_body :: "bool \<Rightarrow> bool \<Rightarrow> (pystr, json) dict \<Rightarrow> json \<Rightarrow> py_exn + (pystr, json) dict" where
  "strict_request_body thinking_enabled pydantic raw extra =
     (if truthy extra then Inl InvalidRequestError
      else Inr (dict_set (u ''stream'') (JBool True)
        (build_base_native_anthropic_request_body ANTHROPIC_DEFAULT_MAX_OUTPUT_TOKENS thinking_enabled pydantic raw)))"

definition zai_request_body :: "bool \<Rightarrow> bool \<Rightarrow> (pystr, json) dict \<Rightarrow> json \<Rightarrow> py_exn + (pystr, json) dict" where
  "zai_request_body = strict_request_body"

definition kimi_request_body :: "bool \<Rightarrow> bool \<Rightarrow> (pystr, json) dict \<Rightarrow> json \<Rightarrow> py_exn + (pystr, json) dict" where
  "kimi_request_body = strict_request_body"

section \<open>What the bodies keep\<close>

lemma field_set [simp]: "field k (dict_set (u k') v d) = (if k = k' then v else field k d)"
  by (simp add: dict_simps)

lemma get_setdefault: "dict_get (setdefault k v d) x = (if x = u k \<and> \<not> has_field k d then Some v else dict_get d x)"
  by (auto simp: setdefault_def dict_simps)

lemma get_on_field: "dict_get (on_field k f d) x = (if x = u k then map_option f (dict_get d x) else dict_get d x)"
  by (auto simp: on_field_def dict_simps split: option.split)

lemma get_update_all: "k \<notin> fst ` set d \<Longrightarrow> dict_get (foldl (\<lambda>b (k, v). dict_set k v b) body d) k = dict_get body k"
  by (induction d arbitrary: body) (auto simp: dict_simps)

lemma get_filter_keys: "dict_get (filter (\<lambda>(k, _). P k) d) k = (if P k then dict_get d k else None)"
  by (induction d) auto

text \<open>The blocks of all assistant messages.\<close>

definition assistant_blocks_of :: "json \<Rightarrow> json list" where
  "assistant_blocks_of messages =
     (case messages of
        JArr ms \<Rightarrow> concat (map (\<lambda>m. if jget (u ''role'') m = JStr (u ''assistant'') then
            (case jget (u ''content'') m of JArr bs \<Rightarrow> bs | _ \<Rightarrow> []) else []) ms)
      | _ \<Rightarrow> [])"

lemma filtered_blocks:
  "assistant_blocks_of (on_messages (filter_assistant_blocks dropped) messages) = filter (\<lambda>b. \<not> dropped b) (assistant_blocks_of messages)"
proof (cases messages)
  case (JArr ms)
  have one: "(if jget (u ''role'') (filter_assistant_blocks dropped m) = JStr (u ''assistant'') then
        (case jget (u ''content'') (filter_assistant_blocks dropped m) of JArr bs \<Rightarrow> bs | _ \<Rightarrow> []) else []) =
      filter (\<lambda>b. \<not> dropped b) (if jget (u ''role'') m = JStr (u ''assistant'') then (case jget (u ''content'') m of JArr bs \<Rightarrow> bs | _ \<Rightarrow> []) else [])"
    for m
  proof (cases m)
    case (JObj d)
    show ?thesis
    proof (cases "field ''role'' d = JStr (u ''assistant'')")
      case True
      then have role: "dict_get d (u ''role'') = Some (JStr (u ''assistant''))" by (simp split: option.splits)
      show ?thesis using True role unfolding JObj
        by (cases "field ''content'' d") (simp_all add: filter_assistant_blocks_def Let_def dict_simps)
    qed (simp add: JObj filter_assistant_blocks_def)
  qed (simp_all add: filter_assistant_blocks_def)
  show ?thesis unfolding JArr on_messages_def assistant_blocks_of_def json.case filter_concat list.map_comp comp_def one ..
qed (simp_all add: on_messages_def assistant_blocks_of_def)

text \<open>The fields other than some, in their order.\<close>

definition other_fields :: "string list \<Rightarrow> (pystr, json) dict \<Rightarrow> (pystr, json) dict" where
  "other_fields ks d = filter (\<lambda>(k, _). k \<notin> u ` set ks) d"

lemma other_set [simp]: "k \<in> set ks \<Longrightarrow> other_fields ks (dict_set (u k) v d) = other_fields ks d"
  by (induction d) (auto simp: other_fields_def)

lemma other_pop [simp]: "k \<in> set ks \<Longrightarrow> other_fields ks (dict_pop (u k) d) = other_fields ks d"
  by (induction d) (auto simp: other_fields_def)

lemma other_setdefault [simp]: "k \<in> set ks \<Longrightarrow> other_fields ks (setdefault k v d) = other_fields ks d"
  by (simp add: setdefault_def)

lemma other_on_field [simp]: "k \<in> set ks \<Longrightarrow> other_fields ks (on_field k f d) = other_fields ks d"
  by (simp add: on_field_def split: option.split)

lemma base_body_messages:
  "dict_get (build_base_native_anthropic_request_body n thinking pydantic raw) (u ''messages'') =
     map_option (sanitize_native_messages_thinking_policy thinking) (dict_get (dump_raw_messages_request pydantic raw) (u ''messages''))"
  by (auto simp: build_base_native_anthropic_request_body_def Let_def get_on_field get_setdefault dict_simps split: option.split)

text \<open>
  A native body carries every other field of the request unchanged and in order, a thinking
  configuration only when thinking is enabled, and the messages with exactly the thinking blocks that
  the policy drops taken out of the assistant turns.
\<close>

theorem native_body_faithful:
  "let dumped = dump_raw_messages_request pydantic raw;
       body = build_base_native_anthropic_request_body n thinking pydantic raw;
       ks = [''thinking'', ''extra_body'', ''max_tokens'', ''messages'', ''tools'']
   in other_fields ks body = other_fields ks dumped \<and>
      dict_get body (u ''thinking'') =
        (if thinking \<and> is_dict (field ''thinking'' dumped) then Some (thinking_payload (at_least 1024) (field ''thinking'' dumped)) else None) \<and>
      assistant_blocks_of (field ''messages'' body) =
        filter (\<lambda>b. \<not> dropped_thinking thinking b) (assistant_blocks_of (field ''messages'' dumped))"
proof -
  define dumped where "dumped = dump_raw_messages_request pydantic raw"
  define body where "body = build_base_native_anthropic_request_body n thinking pydantic raw"
  have "other_fields [''thinking'', ''extra_body'', ''max_tokens'', ''messages'', ''tools''] body =
      other_fields [''thinking'', ''extra_body'', ''max_tokens'', ''messages'', ''tools''] dumped"
    by (simp add: body_def dumped_def build_base_native_anthropic_request_body_def Let_def split: option.split)
  moreover have "dict_get body (u ''thinking'') =
      (if thinking \<and> is_dict (field ''thinking'' dumped) then Some (thinking_payload (at_least 1024) (field ''thinking'' dumped)) else None)"
    by (auto simp: body_def dumped_def build_base_native_anthropic_request_body_def Let_def get_on_field get_setdefault dict_simps
        split: option.split)
  moreover have "assistant_blocks_of (field ''messages'' body) =
      filter (\<lambda>b. \<not> dropped_thinking thinking b) (assistant_blocks_of (field ''messages'' dumped))"
    using base_body_messages [of n thinking pydantic raw] filtered_blocks [of "dropped_thinking thinking" "field ''messages'' dumped"]
    by (cases "dict_get dumped (u ''messages'')")
      (auto simp: body_def dumped_def sanitize_native_messages_thinking_policy_def assistant_blocks_of_def)
  ultimately show ?thesis unfolding Let_def dumped_def body_def by blast
qed

section \<open>OpenRouter's extra body\<close>

lemma get_reasoning_policy: "k \<noteq> u ''reasoning'' \<Longrightarrow> dict_get (apply_openrouter_reasoning_policy cfg b) k = dict_get b k"
  by (auto simp: apply_openrouter_reasoning_policy_def Let_def get_setdefault dict_simps split: json.split)

lemma get_dict_all:
  assumes "validate_openrouter_extra_body extra = Inr ()" "k \<in> set OPENROUTER_EXTRA_BODY_FORBIDDEN_KEYS"
  shows "dict_get (case extra of JObj d \<Rightarrow> foldl (\<lambda>b (k, v). dict_set k v b) body d | _ \<Rightarrow> body) k = dict_get body k"
proof (cases extra)
  case (JObj d)
  then have "k \<notin> fst ` set d" using assms by (auto simp: validate_openrouter_extra_body_def list_ex_iff split: if_splits)
  then show ?thesis using JObj get_update_all by simp
qed simp_all

definition kept_fields :: "pystr list" where
  "kept_fields = map u [''model'', ''tool_choice'', ''temperature'', ''top_p'', ''top_k'', ''metadata'', ''stop_sequences'',
     ''context_management'', ''output_config'', ''mcp_servers'']"

text \<open>
  Whatever the client's \<open>extra_body\<close> holds, a body for OpenRouter carries the routed model and the
  other canonical fields of the request, its messages and tools after the local policy, and is a stream.
\<close>

theorem openrouter_fields_kept:
  assumes "build_openrouter_native_request_body n thinking pydantic raw = Inr body"
  shows "map (dict_get body) kept_fields = map (dict_get (dump_request_fields pydantic raw)) kept_fields \<and>
    field ''messages'' body = sanitize_native_messages_thinking_policy thinking (field ''messages'' (dump_request_fields pydantic raw)) \<and>
    dict_get body (u ''tools'') = map_option sanitize_native_messages_tools (dict_get (dump_request_fields pydantic raw) (u ''tools'')) \<and>
    field ''stream'' body = JBool True \<and> field ''max_tokens'' body \<noteq> JNull"
proof -
  define dumped where "dumped = dump_request_fields pydantic raw"
  define extra where "extra = field ''extra_body'' dumped"
  define b0 where "b0 = filter (\<lambda>(k, _). k \<notin> {u ''thinking'', u ''extra_body''}) (dict_pop (u ''extra_body'') dumped)"
  define b1 where "b1 = (case extra of JObj d \<Rightarrow> foldl (\<lambda>b (k, v). dict_set k v b) b0 d | _ \<Rightarrow> b0)"
  have valid: "validate_openrouter_extra_body extra = Inr ()"
    using assms by (auto simp: build_openrouter_native_request_body_def Let_def and_then_Inr extra_def dumped_def)
  have b1: "dict_get b1 k = dict_get dumped k" if "k \<in> set OPENROUTER_EXTRA_BODY_FORBIDDEN_KEYS" for k
  proof -
    have "k \<notin> {u ''thinking'', u ''extra_body''}" using that by (auto simp: OPENROUTER_EXTRA_BODY_FORBIDDEN_KEYS_def)
    then have "dict_get b0 k = dict_get dumped k" unfolding b0_def get_filter_keys by (simp add: dict_simps)
    then show ?thesis unfolding b1_def get_dict_all [OF valid that] .
  qed
  define m where "m = sanitize_native_messages_thinking_policy thinking (field ''messages'' b1)"
  define b4 where "b4 = dict_set (u ''stream'') (JBool True) (on_field ''system'' normalize_system_prompt_for_openrouter (dict_set (u ''messages'') m b1))"
  define b5 where "b5 = (if field ''max_tokens'' b4 = JNull then dict_set (u ''max_tokens'') (JInt n) b4 else b4)"
  define b6 where "b6 = (if thinking then apply_openrouter_reasoning_policy (field ''thinking'' dumped) b5 else b5)"
  have "build_openrouter_native_request_body n thinking pydantic raw =
      and_then (validate_openrouter_extra_body extra) (\<lambda>_. Inr (on_field ''tools'' sanitize_native_messages_tools b6))"
    unfolding build_openrouter_native_request_body_def Let_def b6_def b5_def b4_def m_def b1_def b0_def extra_def dumped_def ..
  then have body: "body = on_field ''tools'' sanitize_native_messages_tools b6" using assms valid by simp
  have b6: "dict_get b6 k = dict_get b5 k" if "k \<noteq> u ''reasoning''" for k using that get_reasoning_policy by (simp add: b6_def)
  have b5: "dict_get b5 k = dict_get b4 k" if "k \<noteq> u ''max_tokens''" for k using that by (simp add: b5_def dict_simps)
  have b4: "dict_get b4 k = dict_get b1 k" if "k \<notin> u ` {''stream'', ''system'', ''messages''}" for k
    using that by (auto simp: b4_def dict_simps get_on_field)
  have kept: "dict_get body k = dict_get dumped k" if "k \<in> set kept_fields" for k
  proof -
    have "k \<noteq> u ''tools''" "k \<noteq> u ''reasoning''" "k \<noteq> u ''max_tokens''" "k \<notin> u ` {''stream'', ''system'', ''messages''}"
      "k \<in> set OPENROUTER_EXTRA_BODY_FORBIDDEN_KEYS"
      using that by (auto simp: kept_fields_def OPENROUTER_EXTRA_BODY_FORBIDDEN_KEYS_def)
    then have "dict_get body k = dict_get b6 k" "dict_get b6 k = dict_get b5 k" "dict_get b5 k = dict_get b4 k"
      "dict_get b4 k = dict_get b1 k" "dict_get b1 k = dict_get dumped k"
      using b6 b5 b4 b1 by (simp_all add: body get_on_field)
    then show ?thesis by simp
  qed
  have "u ''messages'' \<in> set OPENROUTER_EXTRA_BODY_FORBIDDEN_KEYS" "u ''tools'' \<in> set OPENROUTER_EXTRA_BODY_FORBIDDEN_KEYS"
    by (simp_all add: OPENROUTER_EXTRA_BODY_FORBIDDEN_KEYS_def)
  note b1 [OF this(1)] b1 [OF this(2)]
  moreover have "field ''messages'' body = m" "field ''stream'' body = JBool True"
    by (simp_all add: body get_on_field b6 b5) (simp_all add: b4_def get_on_field dict_simps)
  moreover have "dict_get body (u ''tools'') = map_option sanitize_native_messages_tools (dict_get b1 (u ''tools''))"
    by (simp add: body get_on_field b6 b5 b4)
  moreover have "field ''max_tokens'' body \<noteq> JNull" by (simp add: body get_on_field b6) (simp add: b5_def dict_simps)
  ultimately show ?thesis using kept by (simp add: m_def dumped_def)
qed

definition sample_extra :: "(pystr, json) dict" where
  "sample_extra =
     [(u ''model'', JStr (u ''m'')), (u ''messages'', JArr []), (u ''extra_body'', JObj [(u ''thinking'', JObj [(u ''type'', JStr (u ''enabled''))])])]"

lemma sample_extra_body:
  "build_openrouter_native_request_body 10 False True sample_extra =
     Inr [(u ''model'', JStr (u ''m'')), (u ''messages'', JArr []), (u ''thinking'', JObj [(u ''type'', JStr (u ''enabled''))]),
       (u ''stream'', JBool True), (u ''max_tokens'', JInt 10)]"
  by code_simp

theorem openrouter_fields_kept_witness:
  "dict_get (dump_request_fields True sample_extra) (u ''model'') = Some (JStr (u ''m''))"
  using openrouter_fields_kept [OF sample_extra_body] by (simp add: kept_fields_def)

text \<open>The body of that request turns thinking on, which is disabled: \<open>thinking\<close> is not among the forbidden keys.\<close>

lemma extra_body_enables_thinking:
  "map_sum id (field ''thinking'') (build_openrouter_native_request_body 10 False True sample_extra) = Inr (JObj [(u ''type'', JStr (u ''enabled''))])"
  unfolding sample_extra_body by code_simp

end
