(* ===== verification/DeepSeekRequest.thy ===== *)
theory DeepSeekRequest
  imports NativeRequest
begin

text \<open>
  The request body for DeepSeek's Anthropic-compatible endpoint (\<open>providers/deepseek/request.py\<close>): attachments are
  stripped, what the endpoint does not support is refused, thinking is disabled for a tool follow-up that
  cannot replay it, and tool results become strings.  Names and types are strings, as the request
  models demand; \<open>repr\<close> is \<open>str()\<close> of a value that is no string.
\<close>

section \<open>Attachments\<close>

definition UNSUPPORTED_MESSAGE_BLOCK_TYPES :: "string list" where
  "UNSUPPORTED_MESSAGE_BLOCK_TYPES = [''image'', ''document'', ''server_tool_use'', ''web_search_tool_result'', ''web_fetch_tool_result'']"

definition STRIPPABLE_MESSAGE_BLOCK_TYPES :: "string list" where
  "STRIPPABLE_MESSAGE_BLOCK_TYPES = [''image'', ''document'']"

definition OMITTED_ATTACHMENT_BLOCK :: json where
  "OMITTED_ATTACHMENT_BLOCK =
     JObj [(u ''type'', JStr (u ''text'')),
           (u ''text'', JStr (u ''[attachment omitted: DeepSeek does not support image or document inputs]''))]"

definition strippable :: "json \<Rightarrow> bool" where
  "strippable block \<longleftrightarrow> is_dict block \<and> list_ex (\<lambda>t. typed t block) STRIPPABLE_MESSAGE_BLOCK_TYPES"

definition strip_tool_result :: "json \<Rightarrow> json" where
  "strip_tool_result block =
     (if is_dict block \<and> typed ''tool_result'' block then
        (case jget (u ''content'') block of
           JArr inner \<Rightarrow>
             let kept = filter (\<lambda>sub. \<not> strippable sub) inner
             in jset (u ''content'') (JArr (if kept = [] then [OMITTED_ATTACHMENT_BLOCK] else kept)) block
         | _ \<Rightarrow> block)
      else block)"

definition strip_message :: "json \<Rightarrow> json" where
  "strip_message message =
     (case message of
        JObj m \<Rightarrow>
          (case field ''content'' m of
             JArr content \<Rightarrow>
               let kept = map strip_tool_result (filter (\<lambda>b. \<not> strippable b) content)
               in JObj (dict_set (u ''content'')
                    (JArr (if kept = [] \<and> list_ex strippable content then [OMITTED_ATTACHMENT_BLOCK] else kept)) m)
           | _ \<Rightarrow> message)
      | _ \<Rightarrow> message)"

definition strip_unsupported_attachment_blocks :: "json \<Rightarrow> json" where
  "strip_unsupported_attachment_blocks = on_messages strip_message"

section \<open>Validation\<close>

definition is_server_listed_tool :: "json \<Rightarrow> bool" where
  "is_server_listed_tool tool \<longleftrightarrow>
     str_strip (PyJson.text_of (jget (u ''name'') tool)) \<in> {u ''web_search'', u ''web_fetch''} \<or>
     (case jget (u ''type'') tool of
        JStr ty \<Rightarrow> str_startswith ty (u ''web_search'') \<or> str_startswith ty (u ''web_fetch'')
      | _ \<Rightarrow> False)"

lemma size_jget: "size (jget k v) \<le> size v"
proof (cases v)
  case (JObj d)
  have "dict_get d k = Some w \<Longrightarrow> size w \<le> size_list (size_prod (\<lambda>_. 0) size) d" for w
    by (induction d) (auto split: if_splits)
  then show ?thesis using JObj by (cases "dict_get d k") (force split: option.split)+
qed simp_all

text \<open>\<open>_walk_block_list_for_unsupported\<close> raises at the first unsupported block, tool results included.\<close>

function unsupported_block :: "json \<Rightarrow> bool" where
  "unsupported_block block =
     (is_dict block \<and>
      (list_ex (\<lambda>t. typed t block) UNSUPPORTED_MESSAGE_BLOCK_TYPES \<or>
       typed ''tool_result'' block \<and>
       (case jget (u ''content'') block of JArr inner \<Rightarrow> list_ex unsupported_block inner | _ \<Rightarrow> False)))"
  by pat_completeness auto
termination
proof (relation "measure size")
  fix block inner b
  assume "jget (u ''content'') block = JArr inner" "b \<in> set inner"
  then show "(b, block) \<in> measure size"
    using size_jget [of "u ''content''" block] size_list_estimation' [of b inner "size b" size] by simp
qed simp

definition elems :: "json \<Rightarrow> json list" where
  "elems v = (case v of JArr xs \<Rightarrow> xs | _ \<Rightarrow> [])"

definition walk_unsupported :: "json \<Rightarrow> bool" where
  "walk_unsupported blocks \<longleftrightarrow> list_ex unsupported_block (elems blocks)"

definition validate_deepseek_native_request_dict :: "(pystr, json) dict \<Rightarrow> py_exn + unit" where
  "validate_deepseek_native_request_dict data =
     (if truthy (field ''mcp_servers'' data) \<or>
         list_ex (\<lambda>tool. is_dict tool \<and> is_server_listed_tool tool) (elems (field ''tools'' data)) \<or>
         list_ex (\<lambda>message. is_dict message \<and> walk_unsupported (jget (u ''content'') message)) (elems (field ''messages'' data)) \<or>
         walk_unsupported (field ''system'' data)
      then Inl InvalidRequestError else Inr ())"

section \<open>Tool history and thinking\<close>

definition has_tool_history_blocks :: "json \<Rightarrow> bool" where
  "has_tool_history_blocks message \<longleftrightarrow>
     list_ex (\<lambda>b. is_dict b \<and>
         (jget (u ''role'') message = JStr (u ''assistant'') \<and> typed ''tool_use'' b \<or>
          jget (u ''role'') message = JStr (u ''user'') \<and> typed ''tool_result'' b))
       (elems (jget (u ''content'') message))"

fun replayable_from :: "bool \<Rightarrow> json list \<Rightarrow> bool" where
  "replayable_from has_thinking [] = False"
| "replayable_from has_thinking (b # bs) =
     (if \<not> is_dict b then replayable_from has_thinking bs
      else if typed ''thinking'' b \<and> is_str (jget (u ''thinking'') b) then replayable_from (truthy (jget (u ''thinking'') b)) bs
      else if typed ''tool_use'' b then has_thinking
      else replayable_from has_thinking bs)"

definition has_replayable_thinking_before_tool_use :: "json \<Rightarrow> bool" where
  "has_replayable_thinking_before_tool_use message \<longleftrightarrow>
     jget (u ''role'') message = JStr (u ''assistant'') \<and> replayable_from False (elems (jget (u ''content'') message))"

definition has_tool_history :: "(pystr, json) dict \<Rightarrow> bool" where
  "has_tool_history data \<longleftrightarrow> list_ex has_tool_history_blocks (elems (field ''messages'' data))"

definition has_replayable_tool_thinking :: "(pystr, json) dict \<Rightarrow> bool" where
  "has_replayable_tool_thinking data \<longleftrightarrow> list_ex has_replayable_thinking_before_tool_use (elems (field ''messages'' data))"

definition set_or_pop :: "string \<Rightarrow> (pystr, json) dict \<Rightarrow> (pystr, json) dict \<Rightarrow> (pystr, json) dict" where
  "set_or_pop k d data = (if d \<noteq> [] then dict_set (u k) (JObj d) data else dict_pop (u k) data)"

definition clears_thinking :: "json \<Rightarrow> bool" where
  "clears_thinking edit \<longleftrightarrow>
     is_dict edit \<and> (case jget (u ''type'') edit of JStr ty \<Rightarrow> str_startswith ty (u ''clear_thinking_'') | _ \<Rightarrow> False)"

definition remove_effort :: "(pystr, json) dict \<Rightarrow> (pystr, json) dict" where
  "remove_effort data =
     (case field ''output_config'' data of
        JObj cfg \<Rightarrow> if has_field ''effort'' cfg then set_or_pop ''output_config'' (dict_pop (u ''effort'') cfg) data else data
      | _ \<Rightarrow> data)"

definition remove_thinking_edits :: "(pystr, json) dict \<Rightarrow> (pystr, json) dict" where
  "remove_thinking_edits data =
     (case field ''context_management'' data of
        JObj cm \<Rightarrow>
          (case field ''edits'' cm of
             JArr edits \<Rightarrow>
               let kept = filter (\<lambda>e. \<not> clears_thinking e) edits in
               if length kept = length edits then data
               else if kept \<noteq> [] then dict_set (u ''context_management'') (JObj (dict_set (u ''edits'') (JArr kept) cm)) data
               else set_or_pop ''context_management'' (dict_pop (u ''edits'') cm) data
           | _ \<Rightarrow> data)
      | _ \<Rightarrow> data)"

definition remove_deepseek_thinking_hints :: "(pystr, json) dict \<Rightarrow> (pystr, json) dict" where
  "remove_deepseek_thinking_hints data = remove_thinking_edits (remove_effort data)"

section \<open>Messages\<close>

definition dropped_deepseek :: "bool \<Rightarrow> json \<Rightarrow> bool" where
  "dropped_deepseek thinking_enabled block \<longleftrightarrow>
     is_dict block \<and> (typed ''redacted_thinking'' block \<or> \<not> thinking_enabled \<and> typed ''thinking'' block)"

definition sanitize_deepseek_messages_for_native :: "bool \<Rightarrow> json \<Rightarrow> json" where
  "sanitize_deepseek_messages_for_native thinking_enabled = on_messages (filter_assistant_blocks (dropped_deepseek thinking_enabled))"

definition normalize_block :: "(json \<Rightarrow> pystr) \<Rightarrow> json \<Rightarrow> json" where
  "normalize_block repr block =
     (if is_dict block \<and> typed ''tool_result'' block
      then jset (u ''content'') (JStr (serialize_tool_result_content repr (jget (u ''content'') block))) block
      else block)"

definition normalize_message :: "(json \<Rightarrow> pystr) \<Rightarrow> json \<Rightarrow> json" where
  "normalize_message repr message =
     (case message of
        JObj m \<Rightarrow>
          (case field ''content'' m of
             JArr content \<Rightarrow> JObj (dict_set (u ''content'') (JArr (map (normalize_block repr) content)) m)
           | _ \<Rightarrow> message)
      | _ \<Rightarrow> message)"

definition normalize_tool_result_content :: "(json \<Rightarrow> pystr) \<Rightarrow> json \<Rightarrow> json" where
  "normalize_tool_result_content repr = on_messages (normalize_message repr)"

definition strip_reasoning_message :: "json \<Rightarrow> json" where
  "strip_reasoning_message message =
     (case message of JObj m \<Rightarrow> JObj (filter (\<lambda>(k, _). k \<noteq> u ''reasoning_content'') m) | _ \<Rightarrow> message)"

definition strip_reasoning_content_when_native :: "json \<Rightarrow> json" where
  "strip_reasoning_content_when_native = on_messages strip_reasoning_message"

definition downgrade_forced_tool_choice :: "(pystr, json) dict \<Rightarrow> (pystr, json) dict" where
  "downgrade_forced_tool_choice data =
     (let choice = field ''tool_choice'' data in
      if is_dict choice \<and> typed ''tool'' choice \<and> is_str (jget (u ''name'') choice)
      then dict_set (u ''tool_choice'') (JObj [(u ''type'', JStr (u ''auto''))]) data else data)"

section \<open>The body\<close>

definition unsafe_tool_followup :: "(pystr, json) dict \<Rightarrow> bool" where
  "unsafe_tool_followup data \<longleftrightarrow> has_tool_history data \<and> \<not> has_replayable_tool_thinking data"

definition finish_deepseek_body :: "(json \<Rightarrow> pystr) \<Rightarrow> bool \<Rightarrow> (pystr, json) dict \<Rightarrow> (pystr, json) dict" where
  "finish_deepseek_body repr thinking_enabled data =
     (let effective = (thinking_enabled \<and> \<not> unsafe_tool_followup data);
          data1 = (if thinking_enabled \<and> unsafe_tool_followup data then remove_deepseek_thinking_hints data else data);
          cfg = field ''thinking'' data1;
          popped = dict_pop (u ''thinking'') data1;
          data2 = (if effective \<and> is_dict cfg then dict_set (u ''thinking'') (thinking_payload id cfg) popped else popped);
          data3 = on_field ''messages'' (\<lambda>ms. strip_reasoning_content_when_native (normalize_tool_result_content repr
                     (sanitize_deepseek_messages_for_native effective ms))) data2;
          data4 = (if field ''max_tokens'' data3 = JNull then dict_set (u ''max_tokens'') (JInt ANTHROPIC_DEFAULT_MAX_OUTPUT_TOKENS) data3 else data3)
      in dict_set (u ''stream'') (JBool True) data4)"

definition deepseek_request_body :: "(json \<Rightarrow> pystr) \<Rightarrow> bool \<Rightarrow> bool \<Rightarrow> (pystr, json) dict \<Rightarrow> py_exn + (pystr, json) dict" where
  "deepseek_request_body repr thinking_enabled pydantic raw =
     (let data = on_field ''messages'' strip_unsupported_attachment_blocks (dump_raw_messages_request pydantic raw) in
      and_then (validate_deepseek_native_request_dict data) (\<lambda>_.
        Inr (finish_deepseek_body repr thinking_enabled (downgrade_forced_tool_choice (dict_pop (u ''extra_body'') data)))))"

section \<open>Messages step by step\<close>

abbreviation role_of :: "json \<Rightarrow> json" where
  "role_of m \<equiv> jget (u ''role'') m"

abbreviation blocks_of :: "json \<Rightarrow> json list" where
  "blocks_of m \<equiv> elems (jget (u ''content'') m)"

lemma elems_simps [simp]: "elems (JArr xs) = xs" "elems (JStr s) = []" "elems JNull = []"
  by (simp_all add: elems_def)

lemma elems_on_messages: "elems (on_messages f v) = map f (elems v)"
  by (cases v) (simp_all add: on_messages_def elems_def)

lemma filter_blocks_step:
  "role_of (filter_assistant_blocks P m) = role_of m"
  "blocks_of (filter_assistant_blocks P m) =
     (if role_of m = JStr (u ''assistant'') then filter (\<lambda>b. \<not> P b) (blocks_of m) else blocks_of m)"
proof -
  have "role_of (filter_assistant_blocks P m) = role_of m \<and>
    blocks_of (filter_assistant_blocks P m) =
      (if role_of m = JStr (u ''assistant'') then filter (\<lambda>b. \<not> P b) (blocks_of m) else blocks_of m)"
  proof (cases m)
    case (JObj d)
    show ?thesis
    proof (cases "field ''role'' d = JStr (u ''assistant'')")
      case True
      then have "dict_get d (u ''role'') = Some (JStr (u ''assistant''))" by (simp split: option.splits)
      then show ?thesis unfolding JObj
        by (cases "field ''content'' d") (auto simp: filter_assistant_blocks_def Let_def dict_simps elems_def)
    qed (simp add: JObj filter_assistant_blocks_def)
  qed (simp_all add: filter_assistant_blocks_def elems_def)
  then show "role_of (filter_assistant_blocks P m) = role_of m"
    "blocks_of (filter_assistant_blocks P m) =
       (if role_of m = JStr (u ''assistant'') then filter (\<lambda>b. \<not> P b) (blocks_of m) else blocks_of m)" by blast+
qed

lemma normalize_step:
  "role_of (normalize_message repr m) = role_of m"
  "blocks_of (normalize_message repr m) = map (normalize_block repr) (blocks_of m)"
proof -
  have "role_of (normalize_message repr m) = role_of m \<and> blocks_of (normalize_message repr m) = map (normalize_block repr) (blocks_of m)"
  proof (cases m)
    case (JObj d)
    show ?thesis unfolding JObj
      by (cases "field ''content'' d") (simp_all add: normalize_message_def dict_simps elems_def)
  qed (simp_all add: normalize_message_def elems_def)
  then show "role_of (normalize_message repr m) = role_of m"
    "blocks_of (normalize_message repr m) = map (normalize_block repr) (blocks_of m)" by blast+
qed

lemma reasoning_step: "jget k (strip_reasoning_message m) = (if k = u ''reasoning_content'' then JNull else jget k m)"
  by (cases m) (auto simp: strip_reasoning_message_def get_filter_keys)

lemma normalize_block_simps [simp]:
  "is_dict (normalize_block repr b) = is_dict b"
  "k \<noteq> u ''content'' \<Longrightarrow> jget k (normalize_block repr b) = jget k b"
  by (cases b; simp add: normalize_block_def dict_simps)+

lemma normalized_result: "is_dict b \<Longrightarrow> typed ''tool_result'' b \<Longrightarrow> is_str (jget (u ''content'') (normalize_block repr b))"
  by (cases b) (simp_all add: normalize_block_def dict_simps)

text \<open>The last three steps together.\<close>

definition final_message :: "(json \<Rightarrow> pystr) \<Rightarrow> bool \<Rightarrow> json \<Rightarrow> json" where
  "final_message repr effective m =
     strip_reasoning_message (normalize_message repr (filter_assistant_blocks (dropped_deepseek effective) m))"

lemma final_message_step:
  "role_of (final_message repr eff m) = role_of m"
  "jget (u ''reasoning_content'') (final_message repr eff m) = JNull"
  "blocks_of (final_message repr eff m) = map (normalize_block repr)
     (if role_of m = JStr (u ''assistant'') then filter (\<lambda>b. \<not> dropped_deepseek eff b) (blocks_of m) else blocks_of m)"
  by (simp_all add: final_message_def reasoning_step normalize_step filter_blocks_step)

lemma final_messages:
  "strip_reasoning_content_when_native (normalize_tool_result_content repr (sanitize_deepseek_messages_for_native eff ms)) =
     on_messages (final_message repr eff) ms"
  by (cases ms) (simp_all add: strip_reasoning_content_when_native_def normalize_tool_result_content_def
      sanitize_deepseek_messages_for_native_def on_messages_def final_message_def)

lemma final_tool_history: "has_tool_history_blocks (final_message repr eff m) = has_tool_history_blocks m"
  by (auto simp: has_tool_history_blocks_def final_message_step list_ex_iff dropped_deepseek_def)

lemma final_replayable: "has_replayable_thinking_before_tool_use (final_message repr True m) = has_replayable_thinking_before_tool_use m"
proof -
  have "replayable_from h (map (normalize_block repr) (filter (\<lambda>b. \<not> dropped_deepseek True b) bs)) = replayable_from h bs" for h bs
    by (induction bs arbitrary: h) (auto simp: dropped_deepseek_def)
  then show ?thesis by (auto simp: has_replayable_thinking_before_tool_use_def final_message_step)
qed

section \<open>What DeepSeek is sent\<close>

lemma get_remove_hints:
  "k \<notin> u ` {''output_config'', ''context_management''} \<Longrightarrow> dict_get (remove_deepseek_thinking_hints d) k = dict_get d k"
proof -
  have 1: "k \<noteq> u ''output_config'' \<Longrightarrow> dict_get (remove_effort d) k = dict_get d k" for d
    by (auto simp: remove_effort_def set_or_pop_def dict_simps split: json.split)
  have 2: "k \<noteq> u ''context_management'' \<Longrightarrow> dict_get (remove_thinking_edits d) k = dict_get d k" for d
    by (auto simp: remove_thinking_edits_def set_or_pop_def Let_def dict_simps split: json.split)
  show "k \<notin> u ` {''output_config'', ''context_management''} \<Longrightarrow> dict_get (remove_deepseek_thinking_hints d) k = dict_get d k"
    using 1 2 by (simp add: remove_deepseek_thinking_hints_def)
qed

lemma finish_body_get:
  fixes data :: "(pystr, json) dict" and thinking :: bool
  defines "eff \<equiv> thinking \<and> \<not> unsafe_tool_followup data"
  shows "dict_get (finish_deepseek_body repr thinking data) (u ''messages'') =
      map_option (on_messages (final_message repr eff)) (dict_get data (u ''messages''))"
    and "has_field ''thinking'' (finish_deepseek_body repr thinking data) \<Longrightarrow> eff"
    and "field ''stream'' (finish_deepseek_body repr thinking data) = JBool True"
    and "field ''max_tokens'' (finish_deepseek_body repr thinking data) \<noteq> JNull"
  using get_remove_hints [of "u ''messages''" data]
  by (auto simp: finish_deepseek_body_def Let_def get_on_field dict_simps final_messages eff_def split: if_splits option.splits)

text \<open>A built body, by the data that passed validation.\<close>

lemma deepseek_bodyE:
  assumes "deepseek_request_body repr thinking pydantic raw = Inr body"
  obtains data where "body = finish_deepseek_body repr thinking data"
    "\<forall>m \<in> set (elems (field ''messages'' data)). is_dict m \<longrightarrow> \<not> walk_unsupported (jget (u ''content'') m)"
proof -
  define checked where "checked = on_field ''messages'' strip_unsupported_attachment_blocks (dump_raw_messages_request pydantic raw)"
  have valid: "validate_deepseek_native_request_dict checked = Inr ()"
    and body: "body = finish_deepseek_body repr thinking (downgrade_forced_tool_choice (dict_pop (u ''extra_body'') checked))"
    using assms unfolding deepseek_request_body_def Let_def checked_def [symmetric] and_then_Inr by auto
  have "field ''messages'' (downgrade_forced_tool_choice (dict_pop (u ''extra_body'') checked)) = field ''messages'' checked"
    by (simp add: downgrade_forced_tool_choice_def Let_def dict_simps)
  then show ?thesis using that [OF body] valid
    by (auto simp: validate_deepseek_native_request_dict_def list_ex_iff split: if_splits)
qed

definition deepseek_block_ok :: "json \<Rightarrow> bool" where
  "deepseek_block_ok b \<longleftrightarrow> \<not> is_dict b \<or>
     \<not> list_ex (\<lambda>t. typed t b) UNSUPPORTED_MESSAGE_BLOCK_TYPES \<and> (\<not> typed ''tool_result'' b \<or> is_str (jget (u ''content'') b))"

definition deepseek_message_ok :: "json \<Rightarrow> bool" where
  "deepseek_message_ok m \<longleftrightarrow>
     \<not> is_dict m \<or> jget (u ''reasoning_content'') m = JNull \<and> list_all deepseek_block_ok (blocks_of m) \<and>
     (role_of m \<noteq> JStr (u ''assistant'') \<or> list_all (\<lambda>b. \<not> (is_dict b \<and> typed ''redacted_thinking'' b)) (blocks_of m))"

lemma final_message_ok:
  assumes "is_dict m \<Longrightarrow> \<not> walk_unsupported (jget (u ''content'') m)"
  shows "deepseek_message_ok (final_message repr eff m)"
proof (cases "is_dict m")
  case True
  have ok: "deepseek_block_ok (normalize_block repr b)" if "b \<in> set (blocks_of m)" for b
  proof -
    have "\<not> unsupported_block b" using assms [OF True] that by (auto simp: walk_unsupported_def list_ex_iff)
    then have "\<not> (is_dict b \<and> list_ex (\<lambda>t. typed t b) UNSUPPORTED_MESSAGE_BLOCK_TYPES)"
      by (subst (asm) unsupported_block.simps) blast
    then show ?thesis using normalized_result [of b repr] by (auto simp: deepseek_block_ok_def)
  qed
  then show ?thesis unfolding deepseek_message_ok_def final_message_step
    by (auto simp: list_all_iff dropped_deepseek_def)
next
  case False
  then have "\<not> is_dict (final_message repr eff m)"
    by (cases m) (simp_all add: final_message_def filter_assistant_blocks_def normalize_message_def strip_reasoning_message_def)
  then show ?thesis by (simp add: deepseek_message_ok_def)
qed

text \<open>
  C13 (type): a body for DeepSeek has the shape its endpoint takes: no block of an unsupported type, every
  tool result a string, no redacted thinking in an assistant turn and no \<open>reasoning_content\<close>; it asks for a
  stream and states its token limit.
\<close>

theorem deepseek_body_typed:
  assumes "deepseek_request_body repr thinking pydantic raw = Inr body"
  shows "list_all deepseek_message_ok (elems (field ''messages'' body)) \<and> field ''stream'' body = JBool True \<and>
    field ''max_tokens'' body \<noteq> JNull"
proof -
  obtain data where data: "body = finish_deepseek_body repr thinking data"
    "\<forall>m \<in> set (elems (field ''messages'' data)). is_dict m \<longrightarrow> \<not> walk_unsupported (jget (u ''content'') m)"
    using deepseek_bodyE [OF assms] .
  note f = finish_body_get [of repr thinking data, folded data(1)]
  have "list_all deepseek_message_ok (elems (field ''messages'' body))"
  proof (cases "dict_get data (u ''messages'')")
    case (Some ms)
    then show ?thesis using data(2) final_message_ok by (simp add: f(1) elems_on_messages list_all_iff)
  qed (simp add: f(1))
  then show ?thesis using f(3,4) by blast
qed

definition sends_thinking :: "(pystr, json) dict \<Rightarrow> bool" where
  "sends_thinking body \<longleftrightarrow> has_field ''thinking'' body \<or>
     list_ex (\<lambda>m. role_of m = JStr (u ''assistant'') \<and> list_ex (\<lambda>b. is_dict b \<and> typed ''thinking'' b) (blocks_of m))
       (elems (field ''messages'' body))"

lemma finish_followup:
  fixes data :: "(pystr, json) dict"
  assumes "thinking \<and> \<not> unsafe_tool_followup data"
  shows "\<not> unsafe_tool_followup (finish_deepseek_body repr thinking data)"
proof -
  have "elems (field ''messages'' (finish_deepseek_body repr thinking data)) = map (final_message repr True) (elems (field ''messages'' data))"
    using assms by (cases "dict_get data (u ''messages'')") (simp_all add: finish_body_get elems_on_messages)
  then show ?thesis using assms
    by (simp add: unsafe_tool_followup_def has_tool_history_def has_replayable_tool_thinking_def list_ex_iff final_tool_history final_replayable)
qed

text \<open>
  C14 (safety): a body for DeepSeek turns thinking on, or replays a thinking block, only when thinking is
  enabled and the body is no tool follow-up without thinking to replay before a tool use.
\<close>

theorem deepseek_thinking_safe:
  assumes "deepseek_request_body repr thinking pydantic raw = Inr body" "sends_thinking body"
  shows "thinking \<and> \<not> unsafe_tool_followup body"
proof -
  obtain data where data: "body = finish_deepseek_body repr thinking data" using deepseek_bodyE [OF assms(1)] by blast
  note f = finish_body_get [of repr thinking data, folded data]
  have eff: "thinking \<and> \<not> unsafe_tool_followup data"
  proof (rule ccontr)
    assume no: "\<not> (thinking \<and> \<not> unsafe_tool_followup data)"
    then have "list_ex (\<lambda>m. role_of m = JStr (u ''assistant'') \<and> list_ex (\<lambda>b. is_dict b \<and> typed ''thinking'' b) (blocks_of m))
        (elems (field ''messages'' body))"
      using assms(2) f(2) by (auto simp: sends_thinking_def)
    then show False using no f(1)
      by (cases "dict_get data (u ''messages'')") (auto simp: elems_on_messages list_ex_iff final_message_step dropped_deepseek_def)
  qed
  then show ?thesis using finish_followup [OF eff] data by simp
qed

text \<open>A follow-up to a tool call with its thinking, and an image in the tool's result.\<close>

definition sample_followup :: "(pystr, json) dict" where
  "sample_followup =
     [(u ''model'', JStr (u ''m'')), (u ''thinking'', JObj [(u ''type'', JStr (u ''enabled''))]),
      (u ''messages'', JArr
        [JObj [(u ''role'', JStr (u ''assistant'')), (u ''content'', JArr
           [JObj [(u ''type'', JStr (u ''thinking'')), (u ''thinking'', JStr (u ''t''))],
            JObj [(u ''type'', JStr (u ''tool_use'')), (u ''id'', JStr (u ''1'')), (u ''name'', JStr (u ''Read''))]])],
         JObj [(u ''role'', JStr (u ''user'')), (u ''content'', JArr
           [JObj [(u ''type'', JStr (u ''tool_result'')), (u ''tool_use_id'', JStr (u ''1'')),
                  (u ''content'', JArr [JObj [(u ''type'', JStr (u ''image''))]])]])]])]"

definition sample_deepseek_body :: "(pystr, json) dict" where
  "sample_deepseek_body =
     (case deepseek_request_body (\<lambda>_. []) True True sample_followup of Inr b \<Rightarrow> b | Inl _ \<Rightarrow> [])"

lemma sample_deepseek: "deepseek_request_body (\<lambda>_. []) True True sample_followup = Inr sample_deepseek_body"
  "sends_thinking sample_deepseek_body"
  by code_simp+

theorem deepseek_body_typed_witness: "list_all deepseek_message_ok (elems (field ''messages'' sample_deepseek_body))"
  using deepseek_body_typed [OF sample_deepseek(1)] by blast

theorem deepseek_thinking_safe_witness: "\<not> unsafe_tool_followup sample_deepseek_body"
  using deepseek_thinking_safe [OF sample_deepseek] by blast

text \<open>A tool result that was empty before is said to have lost an attachment.\<close>

lemma empty_result_omitted:
  "strip_tool_result (JObj [(u ''type'', JStr (u ''tool_result'')), (u ''content'', JArr [])]) =
     JObj [(u ''type'', JStr (u ''tool_result'')), (u ''content'', JArr [OMITTED_ATTACHMENT_BLOCK])]"
  by code_simp

end
