(* ===== verification/NimRequest.thy ===== *)
theory NimRequest
  imports NativeRequest OpenAIStream
begin

text \<open>
  The request body for NVIDIA NIM (\<open>providers/nvidia_nim/request.py\<close>): tool schemas without boolean subschemas and
  without parameter names the endpoint rejects, which are replaced by aliases; the bodies for its
  retries.  \<open>str.isalnum\<close> on characters is a parameter.
\<close>

section \<open>State passing\<close>

fun map_state :: "('a \<Rightarrow> 's \<Rightarrow> 'b \<times> 's) \<Rightarrow> 'a list \<Rightarrow> 's \<Rightarrow> 'b list \<times> 's" where
  "map_state f [] s = ([], s)"
| "map_state f (x # xs) s = (case f x s of (y, s1) \<Rightarrow> case map_state f xs s1 of (ys, s2) \<Rightarrow> (y # ys, s2))"

lemma map_state_cong [fundef_cong]:
  "xs = ys \<Longrightarrow> s = t \<Longrightarrow> (\<And>x s. x \<in> set ys \<Longrightarrow> f x s = g x s) \<Longrightarrow> map_state f xs s = map_state g ys t"
  by (induction ys arbitrary: xs s t) (auto split: prod.split)

section \<open>Schemas without booleans\<close>

definition SCHEMA_VALUE_KEYS :: "pystr list" where
  "SCHEMA_VALUE_KEYS = map u
     [''additionalProperties'', ''additionalItems'', ''unevaluatedProperties'', ''unevaluatedItems'', ''items'', ''contains'',
      ''propertyNames'', ''if'', ''then'', ''else'', ''not'']"

definition SCHEMA_LIST_KEYS :: "pystr list" where
  "SCHEMA_LIST_KEYS = map u [''allOf'', ''anyOf'', ''oneOf'', ''prefixItems'']"

definition SCHEMA_MAP_KEYS :: "pystr list" where
  "SCHEMA_MAP_KEYS = map u [''properties'', ''patternProperties'', ''$defs'', ''definitions'', ''dependentSchemas'']"

definition kept :: "'a option list \<Rightarrow> 'a list" where
  "kept xs = map the (filter (\<lambda>x. x \<noteq> None) xs)"

text \<open>One keyword of a schema, with \<open>f\<close> for its subschemas; \<open>None\<close> when it is not kept.\<close>

definition sanitize_keyword :: "(json \<Rightarrow> json option) \<Rightarrow> pystr \<times> json \<Rightarrow> (pystr \<times> json) option" where
  "sanitize_keyword f kv =
     (case kv of (key, item) \<Rightarrow>
        if key \<in> set SCHEMA_VALUE_KEYS then map_option (Pair key) (f item)
        else if key \<in> set SCHEMA_LIST_KEYS then
          (case item of
             JArr xs \<Rightarrow> let ys = kept (map f xs) in if ys \<noteq> [] then Some (key, JArr ys) else None
           | _ \<Rightarrow> Some (key, item))
        else if key \<in> set SCHEMA_MAP_KEYS then
          (case item of
             JObj m \<Rightarrow> Some (key, JObj (kept (map (\<lambda>(k, v). map_option (Pair k) (f v)) m)))
           | _ \<Rightarrow> Some (key, item))
        else Some (key, item))"

lemma size_member: "(k, v) \<in> set d \<Longrightarrow> size v < size (JObj d)"
  by (induction d) force+

lemma size_item: "x \<in> set xs \<Longrightarrow> size x < size (JArr xs)"
  by (induction xs) force+

lemma size_item_le: "item = JArr xs \<Longrightarrow> x \<in> set xs \<Longrightarrow> size x \<le> size item"
  using size_item [of x xs] by auto

lemma size_member_le: "item = JObj d \<Longrightarrow> (k, v) \<in> set d \<Longrightarrow> size v \<le> size item"
  using size_member [of k v d] by auto

lemma sanitize_keyword_cong [fundef_cong]:
  assumes "kv = kv'" "\<And>v. size v \<le> size (snd kv') \<Longrightarrow> f v = g v"
  shows "sanitize_keyword f kv = sanitize_keyword g kv'"
proof -
  obtain k item where kv: "kv' = (k, item)" by (cases kv')
  have eq: "size v \<le> size item \<Longrightarrow> f v = g v" for v using assms(2) kv by simp
  have 1: "map f xs = map g xs" if "item = JArr xs" for xs
    using eq [OF size_item_le [OF that]] by simp
  have 2: "map (\<lambda>(k, v). map_option (Pair k) (f v)) m = map (\<lambda>(k, v). map_option (Pair k) (g v)) m" if "item = JObj m" for m
    using eq [OF size_member_le [OF that]] by auto
  show ?thesis unfolding assms(1) kv sanitize_keyword_def
    using 1 2 eq [of item] by (cases item) (simp_all add: Let_def del: map_eq_conv)
qed

text \<open>\<open>_sanitize_nim_schema_node\<close>: \<open>None\<close> when the node is not kept.\<close>

function sanitize_nim_schema_node :: "json \<Rightarrow> json option" where
  "sanitize_nim_schema_node (JBool b) = None"
| "sanitize_nim_schema_node (JObj d) = Some (JObj (kept (map (\<lambda>kv. sanitize_keyword (\<lambda>v. sanitize_nim_schema_node v) kv) d)))"
| "sanitize_nim_schema_node (JArr xs) = Some (JArr (kept (map (\<lambda>x. sanitize_nim_schema_node x) xs)))"
| "sanitize_nim_schema_node JNull = Some JNull"
| "sanitize_nim_schema_node (JInt i) = Some (JInt i)"
| "sanitize_nim_schema_node (JReal r) = Some (JReal r)"
| "sanitize_nim_schema_node (JStr t) = Some (JStr t)"
  by pat_completeness auto
termination
  by (relation "measure size") (auto dest: size_item size_member)

section \<open>Aliases of parameter names\<close>

definition NIM_TOOL_ARGUMENT_ALIASES_KEY :: pystr where
  "NIM_TOOL_ARGUMENT_ALIASES_KEY = u ''_fcc_nim_tool_argument_aliases''"

definition NIM_TOOL_PARAMETER_ALIAS_PREFIX :: pystr where
  "NIM_TOOL_PARAMETER_ALIAS_PREFIX = u ''_fcc_arg_''"

definition needs_nim_tool_parameter_alias :: "pystr \<Rightarrow> bool" where
  "needs_nim_tool_parameter_alias name \<longleftrightarrow> name \<in> {u ''type''}"

definition strip_char :: "nat \<Rightarrow> pystr \<Rightarrow> pystr" where
  "strip_char c s = rev (dropWhile (\<lambda>x. x = c) (rev (dropWhile (\<lambda>x. x = c) s)))"

definition numbered :: "pystr \<Rightarrow> nat \<Rightarrow> pystr" where
  "numbered candidate n = candidate @ u ''_'' @ show_nat n"

text \<open>\<open>while alias in reserved\<close>: some numbered name is not reserved, so the loop ends.\<close>

lemma show_nat_inj: "show_nat m = show_nat n \<Longrightarrow> m = n"
  by (metis read_show_nat)

function next_alias :: "pystr \<Rightarrow> pystr list \<Rightarrow> nat \<Rightarrow> pystr" where
  "next_alias candidate reserved n =
     (if numbered candidate n \<in> set reserved then next_alias candidate reserved (Suc n) else numbered candidate n)"
  by pat_completeness auto
termination
proof (relation "measure (\<lambda>(candidate, reserved, n). card {m. n \<le> m \<and> numbered candidate m \<in> set reserved})")
  fix candidate :: pystr and reserved n
  assume used: "numbered candidate n \<in> set reserved"
  let ?S = "\<lambda>n. {m. n \<le> m \<and> numbered candidate m \<in> set reserved}"
  have "inj (numbered candidate)" by (auto simp: inj_def numbered_def dest: show_nat_inj)
  then have "finite {m. numbered candidate m \<in> set reserved}"
    using finite_vimageI [of "set reserved" "numbered candidate"] by (simp add: vimage_def)
  then have "finite (?S n)" by (rule rev_finite_subset) auto
  moreover have "n \<in> ?S n" "n \<notin> ?S (Suc n)" "?S (Suc n) \<subseteq> ?S n" using used by auto
  then have "?S (Suc n) \<subset> ?S n" by blast
  ultimately show "((candidate, reserved, Suc n), candidate, reserved, n)
      \<in> measure (\<lambda>(candidate, reserved, n). card {m. n \<le> m \<and> numbered candidate m \<in> set reserved})"
    using psubset_card_mono by auto
qed simp

declare next_alias.simps [simp del]

definition make_nim_tool_parameter_alias :: "(nat \<Rightarrow> bool) \<Rightarrow> pystr \<Rightarrow> pystr list \<Rightarrow> pystr" where
  "make_nim_tool_parameter_alias isalnum name reserved =
     (let tail = strip_char 95 (map (\<lambda>c. if isalnum c \<or> c = 95 then c else 95) name);
          candidate = NIM_TOOL_PARAMETER_ALIAS_PREFIX @ (if tail = [] then u ''arg'' else tail)
      in if candidate \<in> set reserved then next_alias candidate reserved 2 else candidate)"

fun collect_nim_tool_property_names :: "json \<Rightarrow> pystr list" where
  "collect_nim_tool_property_names (JObj d) =
     concat (map (\<lambda>(key, item).
       if key = u ''properties'' then
         (case item of JObj props \<Rightarrow> map fst props @ concat (map (\<lambda>(_, v). collect_nim_tool_property_names v) props) | _ \<Rightarrow> [])
       else collect_nim_tool_property_names item) d)"
| "collect_nim_tool_property_names (JArr xs) = concat (map collect_nim_tool_property_names xs)"
| "collect_nim_tool_property_names v = []"

record alias_state =
  as_reserved :: "pystr list"
  alias_to_original :: "(pystr, pystr) dict"
  original_to_alias :: "(pystr, pystr) dict"

text \<open>The alias of an unsafe name: the one it has, or a new one.\<close>

definition alias_of :: "(nat \<Rightarrow> bool) \<Rightarrow> pystr \<Rightarrow> alias_state \<Rightarrow> pystr \<times> alias_state" where
  "alias_of isalnum name s =
     (case dict_get (original_to_alias s) name of
        Some alias \<Rightarrow> (alias, s)
      | None \<Rightarrow>
          let alias = make_nim_tool_parameter_alias isalnum name (as_reserved s) in
          (alias, s\<lparr>as_reserved := alias # as_reserved s, alias_to_original := dict_set alias name (alias_to_original s),
                    original_to_alias := dict_set name alias (original_to_alias s)\<rparr>))"

definition alias_property :: "(nat \<Rightarrow> bool) \<Rightarrow> pystr \<Rightarrow> alias_state \<Rightarrow> pystr \<times> alias_state" where
  "alias_property isalnum name s = (if needs_nim_tool_parameter_alias name then alias_of isalnum name s else (name, s))"

text \<open>
  A property's schema is aliased before its name; the other keys follow the properties, and the
  required names are those of the same object.
\<close>

definition alias_required :: "(pystr, pystr) dict \<Rightarrow> json \<Rightarrow> json" where
  "alias_required local item = (case item of JStr r \<Rightarrow> JStr (dict_get_default local r r) | _ \<Rightarrow> item)"

definition local_aliases :: "(pystr, json) dict \<Rightarrow> pystr list \<Rightarrow> (pystr, pystr) dict" where
  "local_aliases props names = filter (\<lambda>(name, _). needs_nim_tool_parameter_alias name) (zip (map fst props) names)"

definition alias_props :: "(nat \<Rightarrow> bool) \<Rightarrow> (json \<Rightarrow> alias_state \<Rightarrow> json \<times> alias_state) \<Rightarrow> (pystr, json) dict \<Rightarrow> alias_state \<Rightarrow>
    (pystr, json) dict \<times> alias_state" where
  "alias_props isalnum f props s =
     map_state (\<lambda>(name, schema) s.
       case f schema s of (schema1, s1) \<Rightarrow> case alias_property isalnum name s1 of (name1, s2) \<Rightarrow> ((name1, schema1), s2)) props s"

definition is_array :: "json \<Rightarrow> bool" where
  "is_array v \<longleftrightarrow> (case v of JArr _ \<Rightarrow> True | _ \<Rightarrow> False)"

definition alias_rest :: "(json \<Rightarrow> alias_state \<Rightarrow> json \<times> alias_state) \<Rightarrow> (pystr, pystr) dict \<Rightarrow> (pystr, json) dict \<Rightarrow> alias_state \<Rightarrow>
    (pystr, json) dict \<times> alias_state" where
  "alias_rest f local d s =
     map_state (\<lambda>(key, item) s.
       if key = u ''required'' \<and> is_array item
       then ((key, JArr (case item of JArr rs \<Rightarrow> map (alias_required local) rs | _ \<Rightarrow> [])), s)
       else case f item s of (item1, s1) \<Rightarrow> ((key, item1), s1))
     (filter (\<lambda>(key, _). key \<noteq> u ''properties'') d) s"

definition alias_object :: "(nat \<Rightarrow> bool) \<Rightarrow> (json \<Rightarrow> alias_state \<Rightarrow> json \<times> alias_state) \<Rightarrow> (pystr, json) dict \<Rightarrow> alias_state \<Rightarrow>
    json \<times> alias_state" where
  "alias_object isalnum f d s =
     (case dict_get d (u ''properties'') of
        Some (JObj props) \<Rightarrow>
          (case alias_props isalnum f props s of (props1, s1) \<Rightarrow>
           case alias_rest f (local_aliases props (map fst props1)) d s1 of (rest, s2) \<Rightarrow>
             (JObj ((u ''properties'', JObj (dict_of_pairs props1)) # rest), s2))
      | _ \<Rightarrow> (case alias_rest f [] d s of (rest, s1) \<Rightarrow> (JObj rest, s1)))"

lemma alias_object_cong [fundef_cong]:
  assumes "d = e" "s = t" "\<And>v s. size v < size (JObj e) \<Longrightarrow> f v s = g v s"
  shows "alias_object isalnum f d s = alias_object isalnum g e t"
proof -
  have rest: "alias_rest f l e s = alias_rest g l e s" for l s
    unfolding alias_rest_def by (rule map_state_cong) (auto simp: assms(3) dest: size_member)
  have props: "alias_props isalnum f props s = alias_props isalnum g props s" if "dict_get e k = Some (JObj props)" for props k s
    unfolding alias_props_def
  proof (rule map_state_cong)
    fix x :: "pystr \<times> json" and s
    obtain n v where x: "x = (n, v)" by (cases x)
    assume "x \<in> set props"
    then have "(n, v) \<in> set props" by (simp add: x)
    then have "size v < size (JObj props)" by (rule size_member)
    also have "\<dots> < size (JObj e)" by (rule size_member [OF dict_get_in_set [OF that]])
    finally have "size v < size (JObj e)" .
    then show "(case x of (name, schema) \<Rightarrow> \<lambda>s. case f schema s of (schema1, s1) \<Rightarrow> case alias_property isalnum name s1 of
          (name1, s2) \<Rightarrow> ((name1, schema1), s2)) s =
        (case x of (name, schema) \<Rightarrow> \<lambda>s. case g schema s of (schema1, s1) \<Rightarrow> case alias_property isalnum name s1 of
          (name1, s2) \<Rightarrow> ((name1, schema1), s2)) s"
      using assms(3) by (simp add: x)
  qed simp_all
  show ?thesis unfolding assms(1,2) alias_object_def
    by (auto simp: rest props split: option.split json.split)
qed

fun alias_nim_schema_property_names :: "(nat \<Rightarrow> bool) \<Rightarrow> json \<Rightarrow> alias_state \<Rightarrow> json \<times> alias_state" where
  "alias_nim_schema_property_names isalnum (JArr xs) s =
     (case map_state (\<lambda>x s. alias_nim_schema_property_names isalnum x s) xs s of (ys, s1) \<Rightarrow> (JArr ys, s1))"
| "alias_nim_schema_property_names isalnum (JObj d) s =
     alias_object isalnum (\<lambda>v s. alias_nim_schema_property_names isalnum v s) d s"
| "alias_nim_schema_property_names isalnum v s = (v, s)"

definition alias_nim_tool_parameters :: "(nat \<Rightarrow> bool) \<Rightarrow> json \<Rightarrow> json \<times> (pystr, pystr) dict" where
  "alias_nim_tool_parameters isalnum parameters =
     (case alias_nim_schema_property_names isalnum parameters
         \<lparr>as_reserved = collect_nim_tool_property_names parameters, alias_to_original = [], original_to_alias = []\<rparr> of
        (aliased, s) \<Rightarrow> if alias_to_original s = [] then (parameters, []) else (aliased, alias_to_original s))"

section \<open>Tools\<close>

definition aliases_json :: "(pystr, pystr) dict \<Rightarrow> json" where
  "aliases_json al = JObj (map (\<lambda>(a, n). (a, JStr n)) al)"

text \<open>A tool with its schema sanitized, and the aliases of its arguments if it has a name.\<close>

definition sanitize_nim_tool :: "(nat \<Rightarrow> bool) \<Rightarrow> json \<Rightarrow> json \<times> (pystr \<times> (pystr, pystr) dict) option" where
  "sanitize_nim_tool isalnum tool =
     (case jget (u ''function'') tool of
        JObj function \<Rightarrow>
          let parameters = field ''parameters'' function in
          if \<not> is_dict parameters then (tool, None)
          else
            let (params, aliases) = alias_nim_tool_parameters isalnum (case sanitize_nim_schema_node parameters of Some v \<Rightarrow> v | None \<Rightarrow> JNull);
                tool1 = jset (u ''function'') (JObj (dict_set (u ''parameters'') params function)) tool
            in (tool1, case field ''name'' function of
                  JStr name \<Rightarrow> if aliases \<noteq> [] \<and> name \<noteq> [] then Some (name, aliases) else None
                | _ \<Rightarrow> None)
      | _ \<Rightarrow> (tool, None))"

definition sanitize_nim_tool_schemas :: "(nat \<Rightarrow> bool) \<Rightarrow> (pystr, json) dict \<Rightarrow> (pystr, json) dict" where
  "sanitize_nim_tool_schemas isalnum body =
     (case field ''tools'' body of
        JArr tools \<Rightarrow>
          let sanitized = map (sanitize_nim_tool isalnum) tools;
              aliases = foldl (\<lambda>d (_, a). case a of Some (name, al) \<Rightarrow> dict_set name (aliases_json al) d | None \<Rightarrow> d) [] sanitized;
              body1 = dict_set (u ''tools'') (JArr (map fst sanitized)) body
          in if aliases \<noteq> [] then dict_set NIM_TOOL_ARGUMENT_ALIASES_KEY (JObj aliases) body1
             else dict_pop NIM_TOOL_ARGUMENT_ALIASES_KEY body1
      | _ \<Rightarrow> body)"

definition nim_tool_argument_aliases_from_body :: "(pystr, json) dict \<Rightarrow> tool_aliases" where
  "nim_tool_argument_aliases_from_body body =
     (case jget NIM_TOOL_ARGUMENT_ALIASES_KEY (JObj body) of
        JObj raw \<Rightarrow>
          List.map_filter (\<lambda>(tool_name, tool_aliases).
            case tool_aliases of
              JObj al \<Rightarrow>
                let texts = List.map_filter (\<lambda>(a, v). case v of JStr n \<Rightarrow> Some (a, n) | _ \<Rightarrow> None) al
                in if texts \<noteq> [] then Some (tool_name, texts) else None
            | _ \<Rightarrow> None) raw
      | _ \<Rightarrow> [])"

definition body_without_nim_tool_argument_aliases :: "(pystr, json) dict \<Rightarrow> (pystr, json) dict" where
  "body_without_nim_tool_argument_aliases body = dict_pop NIM_TOOL_ARGUMENT_ALIASES_KEY body"

section \<open>Bodies for a retry\<close>

text \<open>A strip operation: the dict without the fields, and whether one of them was there (and not \<open>None\<close>).\<close>

definition popped :: "string \<Rightarrow> (pystr, json) dict \<Rightarrow> (pystr, json) dict \<times> bool" where
  "popped k d = (dict_pop (u k) d, field k d \<noteq> JNull)"

definition clone_strip_extra_body :: "(pystr, json) dict \<Rightarrow> ((pystr, json) dict \<Rightarrow> (pystr, json) dict \<times> bool) \<Rightarrow> (pystr, json) dict option" where
  "clone_strip_extra_body body strip =
     (case field ''extra_body'' body of
        JObj extra \<Rightarrow>
          (case strip extra of (extra1, removed) \<Rightarrow>
             if \<not> removed then None
             else Some (if extra1 = [] then dict_pop (u ''extra_body'') body else dict_set (u ''extra_body'') (JObj extra1) body))
      | _ \<Rightarrow> None)"

definition strip_reasoning_budget_fields :: "(pystr, json) dict \<Rightarrow> (pystr, json) dict \<times> bool" where
  "strip_reasoning_budget_fields extra =
     (case popped ''reasoning_budget'' extra of (extra1, removed) \<Rightarrow>
        (case field ''chat_template_kwargs'' extra1 of
           JObj kwargs \<Rightarrow> (case popped ''reasoning_budget'' kwargs of (kwargs1, removed1) \<Rightarrow>
             (dict_set (u ''chat_template_kwargs'') (JObj kwargs1) extra1, removed \<or> removed1))
         | _ \<Rightarrow> (extra1, removed)))"

definition strip_chat_template_field :: "(pystr, json) dict \<Rightarrow> (pystr, json) dict \<times> bool" where
  "strip_chat_template_field extra = popped ''chat_template'' extra"

definition strip_message_reasoning_content :: "(pystr, json) dict \<Rightarrow> (pystr, json) dict \<times> bool" where
  "strip_message_reasoning_content body =
     (case field ''messages'' body of
        JArr ms \<Rightarrow>
          (dict_set (u ''messages'') (JArr (map (jpop (u ''reasoning_content'')) ms)) body,
           list_ex (\<lambda>m. jget (u ''reasoning_content'') m \<noteq> JNull) ms)
      | _ \<Rightarrow> (body, False))"

definition clone_body_without_reasoning_budget :: "(pystr, json) dict \<Rightarrow> (pystr, json) dict option" where
  "clone_body_without_reasoning_budget body = clone_strip_extra_body body strip_reasoning_budget_fields"

definition clone_body_without_chat_template :: "(pystr, json) dict \<Rightarrow> (pystr, json) dict option" where
  "clone_body_without_chat_template body = clone_strip_extra_body body strip_chat_template_field"

definition clone_body_without_reasoning_content :: "(pystr, json) dict \<Rightarrow> (pystr, json) dict option" where
  "clone_body_without_reasoning_content body =
     (case strip_message_reasoning_content body of (body1, removed) \<Rightarrow> if removed then Some body1 else None)"

text \<open>\<open>_get_retry_request_body\<close> of the client (\<open>providers/nvidia_nim/client.py\<close>), by the lower-cased text of a 400 error.\<close>

definition nim_retry_body :: "bool \<Rightarrow> pystr \<Rightarrow> (pystr, json) dict \<Rightarrow> (pystr, json) dict option" where
  "nim_retry_body bad_request error_text body =
     (if \<not> bad_request then None
      else if str_contains (u ''reasoning_budget'') error_text then clone_body_without_reasoning_budget body
      else if str_contains (u ''chat_template'') error_text then clone_body_without_chat_template body
      else if str_contains (u ''reasoning_content'') error_text then clone_body_without_reasoning_content body
      else None)"

section \<open>The body\<close>

text \<open>\<open>NimSettings\<close>; its floats are the JSON numbers they print as, an unset option is \<open>JNull\<close>.\<close>

record nim_settings =
  nim_temperature :: json
  nim_top_p :: json
  nim_top_k :: int
  nim_max_tokens :: int
  nim_presence_penalty :: json
  nim_frequency_penalty :: json
  nim_min_p :: json
  nim_repetition_penalty :: json
  nim_seed :: json
  nim_stop :: json
  nim_parallel_tool_calls :: bool
  nim_ignore_eos :: bool
  nim_min_tokens :: int
  nim_chat_template :: json
  nim_request_id :: json

definition set_extra :: "string \<Rightarrow> json \<Rightarrow> (json \<Rightarrow> bool) \<Rightarrow> (pystr, json) dict \<Rightarrow> (pystr, json) dict" where
  "set_extra key v ignored extra = (if has_field key extra \<or> v = JNull \<or> ignored v then extra else dict_set (u key) v extra)"

definition capped_max_tokens :: "json \<Rightarrow> int \<Rightarrow> json" where
  "capped_max_tokens requested limit =
     (if requested = JNull then JInt limit
      else if limit \<noteq> 0 then (case as_int requested of Some i \<Rightarrow> if limit < i then JInt limit else requested | None \<Rightarrow> requested)
      else requested)"

definition nim_extra_body :: "nim_settings \<Rightarrow> bool \<Rightarrow> json \<Rightarrow> (pystr, json) dict \<Rightarrow> json \<Rightarrow> (pystr, json) dict" where
  "nim_extra_body nim thinking_enabled max_tokens request_extra req_top_k =
     (let e1 = (if thinking_enabled then
            let e = setdefault ''chat_template_kwargs'' (JObj [(u ''thinking'', JBool True), (u ''enable_thinking'', JBool True)]) request_extra in
            (case field ''chat_template_kwargs'' e of
               JObj kwargs \<Rightarrow> dict_set (u ''chat_template_kwargs'') (JObj (setdefault ''reasoning_budget'' max_tokens kwargs)) e
             | _ \<Rightarrow> e)
          else request_extra);
          top_k = (if req_top_k \<noteq> JNull then req_top_k else JInt (nim_top_k nim));
          e2 = set_extra ''top_k'' top_k (\<lambda>v. v = JInt (- 1)) e1;
          e3 = set_extra ''min_p'' (nim_min_p nim) (\<lambda>v. \<not> truthy v) e2;
          e4 = set_extra ''repetition_penalty'' (nim_repetition_penalty nim) (\<lambda>v. v = JReal (u ''1.0'')) e3;
          e5 = set_extra ''min_tokens'' (JInt (nim_min_tokens nim)) (\<lambda>v. v = JInt 0) e4;
          e6 = set_extra ''chat_template'' (nim_chat_template nim) (\<lambda>_. False) e5;
          e7 = set_extra ''request_id'' (nim_request_id nim) (\<lambda>_. False) e6
      in set_extra ''ignore_eos'' (JBool (nim_ignore_eos nim)) (\<lambda>_. False) e7)"

definition nim_request_body :: "(json \<Rightarrow> pystr) \<Rightarrow> (nat \<Rightarrow> bool) \<Rightarrow> nim_settings \<Rightarrow> bool \<Rightarrow> request_data \<Rightarrow> json \<Rightarrow> json \<Rightarrow>
    py_exn + (pystr, json) dict" where
  "nim_request_body repr isalnum nim thinking_enabled r request_extra req_top_k =
     and_then (reraise_invalid OpenAIConversionError
         (build_base_request_body repr JNull (if thinking_enabled then REASONING_CONTENT else DISABLED) r)) (\<lambda>built.
       let body = sanitize_nim_tool_schemas isalnum built;
           max_tokens = capped_max_tokens (if truthy (field ''max_tokens'' body) then field ''max_tokens'' body else rd_max_tokens r) (nim_max_tokens nim);
           b1 = set_if_not_none (u ''max_tokens'') max_tokens body;
           b2 = (if field ''temperature'' b1 = JNull \<and> nim_temperature nim \<noteq> JNull then dict_set (u ''temperature'') (nim_temperature nim) b1 else b1);
           b3 = (if field ''top_p'' b2 = JNull \<and> nim_top_p nim \<noteq> JNull then dict_set (u ''top_p'') (nim_top_p nim) b2 else b2);
           b4 = (if \<not> has_field ''stop'' b3 \<and> truthy (nim_stop nim) then dict_set (u ''stop'') (nim_stop nim) b3 else b3);
           b5 = (if truthy (nim_presence_penalty nim) then dict_set (u ''presence_penalty'') (nim_presence_penalty nim) b4 else b4);
           b6 = (if truthy (nim_frequency_penalty nim) then dict_set (u ''frequency_penalty'') (nim_frequency_penalty nim) b5 else b5);
           b7 = (if nim_seed nim \<noteq> JNull then dict_set (u ''seed'') (nim_seed nim) b6 else b6);
           b8 = dict_set (u ''parallel_tool_calls'') (JBool (nim_parallel_tool_calls nim)) b7;
           extra = nim_extra_body nim thinking_enabled max_tokens (case request_extra of JObj d \<Rightarrow> d | _ \<Rightarrow> []) req_top_k
       in Inr (if extra \<noteq> [] then dict_set (u ''extra_body'') (JObj extra) b8 else b8))"

section \<open>Sanitized schemas\<close>

definition clean_keyword :: "(json \<Rightarrow> bool) \<Rightarrow> pystr \<times> json \<Rightarrow> bool" where
  "clean_keyword c kv =
     (case kv of (key, item) \<Rightarrow>
        if key \<in> set SCHEMA_VALUE_KEYS then c item
        else if key \<in> set SCHEMA_LIST_KEYS then (case item of JArr xs \<Rightarrow> xs \<noteq> [] \<and> list_all c xs | _ \<Rightarrow> True)
        else if key \<in> set SCHEMA_MAP_KEYS then (case item of JObj m \<Rightarrow> list_all (\<lambda>(_, v). c v) m | _ \<Rightarrow> True)
        else True)"

lemma clean_keyword_cong [fundef_cong]:
  assumes "kv = kv'" "\<And>v. size v \<le> size (snd kv') \<Longrightarrow> c v = c' v"
  shows "clean_keyword c kv = clean_keyword c' kv'"
proof -
  obtain k item where kv: "kv' = (k, item)" by (cases kv')
  have eq: "size v \<le> size item \<Longrightarrow> c v = c' v" for v using assms(2) kv by simp
  have 1: "list_all c xs = list_all c' xs" if "item = JArr xs" for xs
    using eq [OF size_item_le [OF that]] by (simp add: list_all_iff)
  have 2: "list_all (\<lambda>(_, v). c v) m = list_all (\<lambda>(_, v). c' v) m" if "item = JObj m" for m
    using eq [OF size_member_le [OF that]] by (auto simp: list_all_iff)
  show ?thesis unfolding assms(1) kv clean_keyword_def
    using 1 2 eq [of item] by (cases item) simp_all
qed

text \<open>No boolean where a subschema stands, and no empty list of subschemas.\<close>

function clean_schema :: "json \<Rightarrow> bool" where
  "clean_schema (JBool b) = False"
| "clean_schema (JObj d) = list_all (\<lambda>kv. clean_keyword (\<lambda>v. clean_schema v) kv) d"
| "clean_schema (JArr xs) = list_all (\<lambda>x. clean_schema x) xs"
| "clean_schema JNull = True"
| "clean_schema (JInt i) = True"
| "clean_schema (JReal r) = True"
| "clean_schema (JStr t) = True"
  by pat_completeness auto
termination
  by (relation "measure size") (auto dest: size_item size_member)

lemma kept_in: "x \<in> set (kept xs) \<longleftrightarrow> Some x \<in> set xs"
  by (force simp: kept_def)

lemma kept_all: "(\<And>x. x \<in> set xs \<Longrightarrow> f x = Some x) \<Longrightarrow> kept (map f xs) = xs"
  by (induction xs) (auto simp: kept_def)

lemma keyword_sanitized:
  assumes "sanitize_keyword f (k, item) = Some kv" "\<And>v w. size v \<le> size item \<Longrightarrow> f v = Some w \<Longrightarrow> c w"
  shows "clean_keyword c kv"
proof -
  have 1: "c y" if "item = JArr xs" "x \<in> set xs" "f x = Some y" for xs x y
    using assms(2) [OF size_item_le [OF that(1,2)] that(3)] .
  have 2: "c y" if "item = JObj m" "(n, x) \<in> set m" "f x = Some y" for m n x y
    using assms(2) [OF size_member_le [OF that(1,2)] that(3)] .
  have 3: "list_all c (kept (map f xs))" if "item = JArr xs" for xs
    using 1 [OF that] by (auto simp: list_all_iff kept_in)
  have 4: "list_all (\<lambda>(_, v). c v) (kept (map (\<lambda>(k, v). map_option (Pair k) (f v)) m))" if "item = JObj m" for m
    using 2 [OF that] by (auto simp: list_all_iff kept_in) (metis (no_types, lifting) map_option_eq_Some prod.inject)
  show ?thesis using assms(1) assms(2) [of item] 3 4
    by (cases item) (auto simp: sanitize_keyword_def clean_keyword_def Let_def split: if_splits)
qed

lemma keyword_unchanged:
  assumes "clean_keyword c (k, item)" "\<And>v. size v \<le> size item \<Longrightarrow> c v \<Longrightarrow> f v = Some v"
  shows "sanitize_keyword f (k, item) = Some (k, item)"
proof -
  have 1: "kept (map f xs) = xs" if "item = JArr xs" "list_all c xs" for xs
    by (rule kept_all) (use assms(2) [OF size_item_le [OF that(1)]] that(2) in \<open>auto simp: list_all_iff\<close>)
  have 2: "kept (map (\<lambda>(k, v). map_option (Pair k) (f v)) m) = m" if "item = JObj m" "list_all (\<lambda>(_, v). c v) m" for m
    by (rule kept_all) (use assms(2) [OF size_member_le [OF that(1)]] that(2) in \<open>fastforce simp: list_all_iff\<close>)
  show ?thesis using assms(1) assms(2) [of item] 1 2
    by (cases item) (auto simp: sanitize_keyword_def clean_keyword_def Let_def split: if_splits)
qed

lemma sanitized_clean: "sanitize_nim_schema_node v = Some w \<Longrightarrow> clean_schema w"
proof (induction v arbitrary: w rule: measure_induct_rule [of size])
  case (less v)
  show ?case
  proof (cases v)
    case (JObj d)
    have "clean_keyword clean_schema kv" if "(k, item) \<in> set d" "sanitize_keyword sanitize_nim_schema_node (k, item) = Some kv" for k item kv
      by (rule keyword_sanitized [OF that(2)]) (rule less.IH, use size_member [OF that(1)] JObj in simp_all)
    then show ?thesis using less.prems JObj by (fastforce simp: kept_in list_all_iff)
  next
    case (JArr xs)
    then show ?thesis using less.prems less.IH size_item by (fastforce simp: kept_in list_all_iff)
  qed (use less.prems in auto)
qed

lemma clean_unchanged: "clean_schema w \<Longrightarrow> sanitize_nim_schema_node w = Some w"
proof (induction w rule: measure_induct_rule [of size])
  case (less w)
  show ?case
  proof (cases w)
    case (JObj d)
    have "sanitize_keyword sanitize_nim_schema_node kv = Some kv" if "kv \<in> set d" for kv
    proof -
      obtain k item where kv: "kv = (k, item)" by (cases kv)
      show ?thesis unfolding kv
      proof (rule keyword_unchanged [of clean_schema])
        show "clean_keyword clean_schema (k, item)" using less.prems that JObj kv by (simp add: list_all_iff)
        show "sanitize_nim_schema_node v = Some v" if "size v \<le> size item" "clean_schema v" for v
          by (rule less.IH [OF _ that(2)]) (use that(1) size_member [of k item d] \<open>kv \<in> set d\<close> kv JObj in simp)
      qed
    qed
    then have "kept (map (sanitize_keyword sanitize_nim_schema_node) d) = d" by (rule kept_all)
    then show ?thesis using JObj by simp
  next
    case (JArr xs)
    then show ?thesis using less size_item by (auto simp: list_all_iff intro!: kept_all)
  qed (use less.prems in auto)
qed

text \<open>
  A sanitized tool schema has no boolean in the place of a subschema at any depth, and sanitizing
  it again changes nothing.
\<close>

theorem nim_schema_clean:
  assumes "sanitize_nim_schema_node v = Some w"
  shows "clean_schema w \<and> sanitize_nim_schema_node w = Some w"
  using sanitized_clean [OF assms] clean_unchanged by blast

lemma nim_schema_clean_witness:
  "clean_schema (JObj [(u ''properties'', JObj [(u ''a'', JObj [])]), (u ''not'', JNull)])"
proof -
  have "sanitize_nim_schema_node (JObj [(u ''properties'', JObj [(u ''a'', JObj []), (u ''b'', JBool True)]),
      (u ''additionalProperties'', JBool False), (u ''not'', JNull), (u ''anyOf'', JArr [JBool True])]) =
    Some (JObj [(u ''properties'', JObj [(u ''a'', JObj [])]), (u ''not'', JNull)])" by code_simp
  from nim_schema_clean [OF this] show ?thesis by (rule conjunct1)
qed

section \<open>Aliases are fresh and undone\<close>

lemma map_state_inv: "(\<And>x s. x \<in> set xs \<Longrightarrow> I s \<Longrightarrow> I (snd (f x s))) \<Longrightarrow> I s \<Longrightarrow> I (snd (map_state f xs s))"
proof (induction xs arbitrary: s)
  case (Cons x xs)
  have "I (snd (f x s))" using Cons.prems by simp
  from Cons.IH [OF Cons.prems(1) this] show ?case by (simp add: case_prod_beta)
qed simp

lemma next_alias_fresh: "next_alias candidate reserved n \<notin> set reserved"
  by (induction candidate reserved n rule: next_alias.induct) (simp add: next_alias.simps)

lemma make_alias_fresh: "make_nim_tool_parameter_alias isalnum name reserved \<notin> set reserved"
  by (simp add: make_nim_tool_parameter_alias_def Let_def next_alias_fresh)

text \<open>The two dicts are inverse to each other, and no alias is one of the names taken at the start.\<close>

definition alias_inv :: "pystr list \<Rightarrow> alias_state \<Rightarrow> bool" where
  "alias_inv taken s \<longleftrightarrow>
     set taken \<subseteq> set (as_reserved s) \<and> dict_wf (alias_to_original s) \<and>
     (\<forall>a n. (dict_get (alias_to_original s) a = Some n) = (dict_get (original_to_alias s) n = Some a)) \<and>
     (\<forall>a \<in> fst ` set (alias_to_original s). a \<in> set (as_reserved s) \<and> a \<notin> set taken)"

lemma alias_property_inv: "alias_inv taken s \<Longrightarrow> alias_inv taken (snd (alias_property isalnum name s))"
proof -
  assume inv: "alias_inv taken s"
  have new: "alias_inv taken (s\<lparr>as_reserved := a # as_reserved s, alias_to_original := dict_set a name (alias_to_original s),
        original_to_alias := dict_set name a (original_to_alias s)\<rparr>)"
    if a: "a \<notin> set (as_reserved s)" and name: "dict_get (original_to_alias s) name = None" for a
  proof -
    have unused: "dict_get (alias_to_original s) a = None"
      using inv a by (auto simp: alias_inv_def dict_get_None_iff)
    show ?thesis
      using inv a name unused unfolding alias_inv_def
      by (auto simp: dict_simps split: if_splits)
  qed
  show ?thesis
    using inv new [OF make_alias_fresh]
    by (cases "dict_get (original_to_alias s) name") (simp_all add: alias_property_def alias_of_def Let_def)
qed

lemma alias_object_inv:
  assumes "\<And>v s. size v < size (JObj d) \<Longrightarrow> I s \<Longrightarrow> I (snd (f v s))"
    and "\<And>name s. I s \<Longrightarrow> I (snd (alias_property isalnum name s))" and "I s"
  shows "I (snd (alias_object isalnum f d s))"
proof -
  have rest: "I (snd (alias_rest f l d s))" if "I s" for l s
    unfolding alias_rest_def
  proof (rule map_state_inv [where I = I, rotated, OF that])
    fix x :: "pystr \<times> json" and s
    obtain n v where x: "x = (n, v)" by (cases x)
    assume "x \<in> set (filter (\<lambda>(key, _). key \<noteq> u ''properties'') d)" "I s"
    then show "I (snd ((case x of (key, item) \<Rightarrow> \<lambda>s. if key = u ''required'' \<and> is_array item
         then ((key, JArr (case item of JArr rs \<Rightarrow> map (alias_required l) rs | _ \<Rightarrow> [])), s)
         else case f item s of (item1, s1) \<Rightarrow> ((key, item1), s1)) s))"
      using assms(1) by (auto simp: x case_prod_beta dest: size_member simp del: json.size)
  qed
  have props: "I (snd (alias_props isalnum f props s))" if "dict_get d k = Some (JObj props)" "I s" for props k s
    unfolding alias_props_def
  proof (rule map_state_inv [where I = I, rotated, OF that(2)])
    fix x :: "pystr \<times> json" and s
    obtain n v where x: "x = (n, v)" by (cases x)
    assume "x \<in> set props" "I s"
    then have "(n, v) \<in> set props" by (simp add: x)
    then have "size v < size (JObj props)" by (rule size_member)
    also have "\<dots> < size (JObj d)" by (rule size_member [OF dict_get_in_set [OF that(1)]])
    finally have "I (snd (f v s))" using assms(1) \<open>I s\<close> by blast
    then show "I (snd ((case x of (name, schema) \<Rightarrow> \<lambda>s. case f schema s of (schema1, s1) \<Rightarrow>
        case alias_property isalnum name s1 of (name1, s2) \<Rightarrow> ((name1, schema1), s2)) s))"
      using assms(2) by (simp add: x case_prod_beta)
  qed
  have no: "I (snd (case alias_rest f [] d s of (rest, s1) \<Rightarrow> (JObj rest, s1)))"
    using rest [OF assms(3), of "[]"] by (simp add: case_prod_beta)
  have yes: "I (snd (case alias_props isalnum f props s of (props1, s1) \<Rightarrow>
           case alias_rest f (local_aliases props (map fst props1)) d s1 of (rest, s2) \<Rightarrow>
             (JObj ((u ''properties'', JObj (dict_of_pairs props1)) # rest), s2)))" if "dict_get d k = Some (JObj props)" for k props
    using rest [OF props [OF that assms(3)]] by (simp add: case_prod_beta)
  show ?thesis unfolding alias_object_def using no yes by (auto split: option.split json.split)
qed

lemma alias_schema_inv:
  assumes "alias_inv taken s"
  shows "alias_inv taken (snd (alias_nim_schema_property_names isalnum v s))"
  using assms
proof (induction v arbitrary: s rule: measure_induct_rule [of size])
  case (less v)
  show ?case
  proof (cases v)
    case (JArr xs)
    have "alias_inv taken (snd (map_state (\<lambda>x s. alias_nim_schema_property_names isalnum x s) xs s))"
      by (rule map_state_inv [where I = "alias_inv taken", rotated, OF less.prems]) (use less.IH size_item JArr in blast)
    then show ?thesis by (simp add: JArr case_prod_beta)
  next
    case (JObj d)
    have "alias_inv taken (snd (alias_object isalnum (\<lambda>v s. alias_nim_schema_property_names isalnum v s) d s))"
      by (rule alias_object_inv [where I = "alias_inv taken", OF _ alias_property_inv less.prems]) (use less.IH JObj in blast)+
    then show ?thesis by (simp add: JObj)
  qed (use less.prems in simp_all)
qed

lemma alias_parameters_inv:
  assumes "alias_nim_tool_parameters isalnum params = (params', al)"
  obtains o2a where "dict_wf al" "\<And>a n. (dict_get al a = Some n) = (dict_get o2a n = Some a)"
    "\<And>a. a \<in> fst ` set al \<Longrightarrow> a \<notin> set (collect_nim_tool_property_names params)"
proof -
  let ?names = "collect_nim_tool_property_names params"
  let ?s = "\<lparr>as_reserved = ?names, alias_to_original = [], original_to_alias = []\<rparr>"
  obtain w s where run: "alias_nim_schema_property_names isalnum params ?s = (w, s)" by fastforce
  have "alias_inv ?names ?s" by (simp add: alias_inv_def)
  from alias_schema_inv [OF this, of isalnum params] have inv: "alias_inv ?names s" by (simp add: run)
  have "al = alias_to_original s" using assms run by (auto simp: alias_nim_tool_parameters_def split: if_splits)
  then show ?thesis using that [of "original_to_alias s"] inv unfolding alias_inv_def by blast
qed

text \<open>Arguments as the model gives them: every aliased name under its alias.\<close>

definition inverse_aliases :: "(pystr, pystr) dict \<Rightarrow> (pystr, pystr) dict" where
  "inverse_aliases al = map (\<lambda>(a, n). (n, a)) al"

fun avoids :: "(pystr, pystr) dict \<Rightarrow> json \<Rightarrow> bool" where
  "avoids al (JObj d) \<longleftrightarrow> dict_wf d \<and> list_all (\<lambda>(k, v). dict_get al k = None \<and> avoids al v) d"
| "avoids al (JArr xs) \<longleftrightarrow> list_all (avoids al) xs"
| "avoids al v \<longleftrightarrow> True"

lemma get_inverse:
  assumes wf: "dict_wf al" and inv: "\<And>a n. (dict_get al a = Some n) = (dict_get o2a n = Some a)"
  shows "dict_get (inverse_aliases al) n = dict_get o2a n"
proof (cases "dict_get o2a n")
  case None
  have "n \<notin> fst ` set (inverse_aliases al)"
    using inv None dict_wf_get [OF wf] by (fastforce simp: inverse_aliases_def)
  then show ?thesis by (simp add: None dict_get_None_iff)
next
  case (Some a)
  have "inj_on snd (set al)"
  proof (rule inj_onI)
    fix p q assume "p \<in> set al" "q \<in> set al" "snd p = snd q"
    moreover have "dict_get o2a (snd x) = Some (fst x)" if "x \<in> set al" for x
      using that inv dict_wf_get [OF wf, of "fst x" "snd x"] by simp
    ultimately have "Some (fst p) = Some (fst q)" by metis
    then show "p = q" using \<open>snd p = snd q\<close> by (simp add: prod_eq_iff)
  qed
  moreover have "distinct al" using wf by (simp add: distinct_map)
  ultimately have "dict_wf (inverse_aliases al)"
    by (simp add: inverse_aliases_def distinct_map comp_def case_prod_beta)
  moreover have "(a, n) \<in> set al" using inv Some by (simp add: dict_get_in_set)
  then have "(n, a) \<in> set (inverse_aliases al)" by (force simp: inverse_aliases_def)
  ultimately show ?thesis using Some dict_wf_get by simp
qed

lemma restore_inverse:
  assumes wf: "dict_wf al" and inv: "\<And>a n. (dict_get al a = Some n) = (dict_get o2a n = Some a)"
  shows "avoids al v \<Longrightarrow> restore_value al (restore_value (inverse_aliases al) v) = v"
proof (induction v)
  case (JObj d)
  let ?r = "\<lambda>k. dict_get_default (inverse_aliases al) k k"
  have get: "dict_get (inverse_aliases al) n = dict_get o2a n" for n using wf inv by (rule get_inverse)
  have undo: "dict_get_default al (?r k) (?r k) = k" if "dict_get al k = None" for k
    using that inv [of "?r k" k] by (cases "dict_get o2a k") (auto simp: dict_get_default_def get)
  have "inj_on ?r (fst ` set d)"
  proof (rule inj_onI)
    fix p q assume "p \<in> fst ` set d" "q \<in> fst ` set d" and eq: "?r p = ?r q"
    then have "dict_get al p = None" "dict_get al q = None" using JObj.prems by (auto simp: list_all_iff)
    then have p: "dict_get_default al (?r p) (?r p) = p" and q: "dict_get_default al (?r q) (?r q) = q" using undo by blast+
    from eq have "dict_get_default al (?r p) (?r p) = dict_get_default al (?r q) (?r q)" by (rule arg_cong)
    then show "p = q" unfolding p q .
  qed
  then have dist: "dict_wf (map (\<lambda>(k, v). (?r k, restore_value (inverse_aliases al) v)) d)"
    using JObj.prems by (simp add: distinct_map comp_def case_prod_beta inj_on_def)
  have "map (\<lambda>(k, v). (dict_get_default al k k, restore_value al v)) (map (\<lambda>(k, v). (?r k, restore_value (inverse_aliases al) v)) d) = d"
    using JObj.IH JObj.prems undo by (auto simp: list_all_iff intro!: map_idI)
  then show ?case using dist JObj.prems by (simp add: dict_of_pairs_wf)
next
  case (JArr xs)
  then show ?case by (auto simp: list_all_iff intro!: map_idI)
qed simp_all

text \<open>C15 (roundtrip): a tool call that names the aliased parameters is delivered under the original names, exactly as if the model had
  never seen an alias.  The aliases computed for a tool's schema are none of the names its schema uses, and for arguments
  whose keys are none of the aliases, restoring the arguments with their aliased keys gives the arguments.\<close>
theorem nim_alias_roundtrip:
  assumes "alias_nim_tool_parameters isalnum params = (params', al)"
    and "is_dict args" and "avoids al args" and "json_ok (restore_value (inverse_aliases al) args)"
  shows "set (map fst al) \<inter> set (collect_nim_tool_property_names params) = {}
    \<and> restore_aliased_tool_arguments (json_dumps (restore_value (inverse_aliases al) args)) al = Some (json_dumps args)"
proof -
  obtain o2a where al: "dict_wf al" "\<And>a n. (dict_get al a = Some n) = (dict_get o2a n = Some a)"
    and fresh: "\<And>a. a \<in> fst ` set al \<Longrightarrow> a \<notin> set (collect_nim_tool_property_names params)"
    by (rule alias_parameters_inv [OF assms(1)]) (rule that)
  have "restore_value al (restore_value (inverse_aliases al) args) = args"
    using al assms(3) by (rule restore_inverse)
  moreover have "is_dict (restore_value (inverse_aliases al) args)" using assms(2) by (cases args) simp_all
  ultimately have "restore_aliased_tool_arguments (json_dumps (restore_value (inverse_aliases al) args)) al = Some (json_dumps args)"
    by (simp only: restore_aliased_tool_arguments_def dumps_loads [OF assms(4)] option.case simp_thms if_False)
  moreover have "set (map fst al) \<inter> set (collect_nim_tool_property_names params) = {}" using fresh by auto
  ultimately show ?thesis by blast
qed

definition typed_tool :: json where
  "typed_tool = JObj [(u ''properties'', JObj [(u ''type'', JObj [(u ''type'', JStr (u ''string''))])]), (u ''required'', JArr [JStr (u ''type'')])]"

definition typed_args :: json where
  "typed_args = JObj [(u ''type'', JStr (u ''bug'')), (u ''n'', JInt 1)]"

definition typed_aliases :: "(pystr, pystr) dict" where
  "typed_aliases = [(u ''_fcc_arg_type'', u ''type'')]"

definition aliased_args :: json where
  "aliased_args = restore_value (inverse_aliases typed_aliases) typed_args"

lemma nim_alias_roundtrip_witness:
  "aliased_args = JObj [(u ''_fcc_arg_type'', JStr (u ''bug'')), (u ''n'', JInt 1)]
   \<and> restore_aliased_tool_arguments (json_dumps aliased_args) typed_aliases = Some (json_dumps typed_args)"
proof -
  have tool: "alias_nim_tool_parameters (\<lambda>c. 97 \<le> c \<and> c \<le> 122) typed_tool =
     (JObj [(u ''properties'', JObj [(u ''_fcc_arg_type'', JObj [(u ''type'', JStr (u ''string''))])]),
        (u ''required'', JArr [JStr (u ''_fcc_arg_type'')])], typed_aliases)" by code_simp
  have args: "is_dict typed_args" "avoids typed_aliases typed_args" by code_simp+
  have aliased: "aliased_args = JObj [(u ''_fcc_arg_type'', JStr (u ''bug'')), (u ''n'', JInt 1)]" by code_simp
  have "json_ok (JObj [(u ''_fcc_arg_type'', JStr (u ''bug'')), (u ''n'', JInt 1)])" by (simp add: u_def scalar_value_def)
  then have "json_ok (restore_value (inverse_aliases typed_aliases) typed_args)"
    unfolding aliased [symmetric] aliased_args_def .
  from nim_alias_roundtrip [OF tool args this]
  have "restore_aliased_tool_arguments (json_dumps aliased_args) typed_aliases = Some (json_dumps typed_args)"
    unfolding aliased_args_def by (rule conjunct2)
  with aliased show ?thesis by blast
qed

end
