(* ===== verification/Transcript.thy ===== *)
theory Transcript
  imports Conversion "HOL-Library.List_Lexorder"
begin

text \<open>
  What the user sees of a running turn: the events of the command line client (\<open>messaging/event_parser.py\<close>) and the
  ordered transcript built from them (\<open>messaging/transcript.py\<close>).  The segments are mutable objects that
  several tables refer to: they live in a store and the tables hold addresses.  \<open>repr\<close> is \<open>str()\<close>
  of a value that is not a string, \<open>conv\<close> is \<open>int()\<close> of a string or a float.
\<close>

section \<open>Events of the command line client\<close>

definition str_or :: "(json \<Rightarrow> pystr) \<Rightarrow> pystr \<Rightarrow> json \<Rightarrow> pystr" where
  "str_or repr dflt v = (if truthy v then py_str repr v else dflt)"

definition get_str :: "(json \<Rightarrow> pystr) \<Rightarrow> string \<Rightarrow> json \<Rightarrow> pystr" where
  "get_str repr k ev = str_or repr [] (jget (u k) ev)"

definition event_of :: "string \<Rightarrow> (string \<times> json) list \<Rightarrow> json" where
  "event_of ty fs = JObj ((u ''type'', JStr (u ty)) # map (\<lambda>(k, v). (u k, v)) fs)"

text \<open>The object that holds the content blocks of a full message.\<close>

definition message_object :: "json \<Rightarrow> json" where
  "message_object event =
     (let etype = jget (u ''type'') event in
      if etype = JStr (u ''assistant'') \<or> etype = JStr (u ''user'') then jget (u ''message'') event
      else if etype = JStr (u ''result'') then
        (let res = jget (u ''result'') event;
             m1 = (if is_dict res then
                     (let m = jget (u ''message'') res in
                      case jget (u ''content'') res of
                        JArr c \<Rightarrow> if \<not> truthy m then JObj [(u ''content'', JArr c)] else m
                      | _ \<Rightarrow> m)
                   else JNull);
             m2 = (if \<not> truthy m1 then jget (u ''message'') event else m1)
         in case jget (u ''content'') event of
              JArr c \<Rightarrow> if \<not> truthy m2 then JObj [(u ''content'', JArr c)] else m2
            | _ \<Rightarrow> m2)
      else JNull)"

definition content_event :: "(json \<Rightarrow> pystr) \<Rightarrow> json \<Rightarrow> json list" where
  "content_event repr c =
     (if \<not> is_dict c then []
      else if jget (u ''type'') c = JStr (u ''text'') then
        [event_of ''text_chunk'' [(''text'', jget_default (u ''text'') (JStr []) c)]]
      else if jget (u ''type'') c = JStr (u ''thinking'') then
        [event_of ''thinking_chunk'' [(''text'', jget_default (u ''thinking'') (JStr []) c)]]
      else if jget (u ''type'') c = JStr (u ''tool_use'') then
        [event_of ''tool_use'' [(''id'', JStr (str_strip (get_str repr ''id'' c))),
           (''name'', jget_default (u ''name'') (JStr []) c), (''input'', jget (u ''input'') c)]]
      else if jget (u ''type'') c = JStr (u ''tool_result'') then
        [event_of ''tool_result'' [(''tool_use_id'', JStr (str_strip (get_str repr ''tool_use_id'' c))),
           (''content'', jget (u ''content'') c), (''is_error'', JBool (truthy (jget (u ''is_error'') c)))]]
      else [])"

definition message_events :: "(json \<Rightarrow> pystr) \<Rightarrow> json \<Rightarrow> json list" where
  "message_events repr msg =
     (if is_dict msg then
        (case jget (u ''content'') msg of JArr cs \<Rightarrow> concat (map (content_event repr) cs) | _ \<Rightarrow> [])
      else [])"

definition event_index :: "json \<Rightarrow> json" where
  "event_index event = jget_default (u ''index'') (JInt (- 1)) event"

definition delta_events :: "json \<Rightarrow> json list" where
  "delta_events event =
     (let delta = jget (u ''delta'') event; i = (''index'', event_index event) in
      if jget (u ''type'') delta = JStr (u ''text_delta'') then
        [event_of ''text_delta'' [i, (''text'', jget_default (u ''text'') (JStr []) delta)]]
      else if jget (u ''type'') delta = JStr (u ''thinking_delta'') then
        [event_of ''thinking_delta'' [i, (''text'', jget_default (u ''thinking'') (JStr []) delta)]]
      else if jget (u ''type'') delta = JStr (u ''input_json_delta'') then
        [event_of ''tool_use_delta'' [i, (''partial_json'', jget_default (u ''partial_json'') (JStr []) delta)]]
      else [])"

definition start_events :: "(json \<Rightarrow> pystr) \<Rightarrow> json \<Rightarrow> json list" where
  "start_events repr event =
     (let block = jget (u ''content_block'') event; i = (''index'', event_index event) in
      if jget (u ''type'') block = JStr (u ''thinking'') then [event_of ''thinking_start'' [i]]
      else if jget (u ''type'') block = JStr (u ''text'') then [event_of ''text_start'' [i]]
      else if jget (u ''type'') block = JStr (u ''tool_use'') then
        [event_of ''tool_use_start'' [i, (''id'', JStr (str_strip (get_str repr ''id'' block))),
           (''name'', jget_default (u ''name'') (JStr []) block), (''input'', jget (u ''input'') block)]]
      else [])"

definition is_zero :: "json \<Rightarrow> bool" where
  "is_zero v \<longleftrightarrow> (case v of JInt i \<Rightarrow> i = 0 | JBool b \<Rightarrow> \<not> b | JReal r \<Rightarrow> \<not> truthy v | _ \<Rightarrow> False)"

definition exit_events :: "(json \<Rightarrow> pystr) \<Rightarrow> json \<Rightarrow> json list" where
  "exit_events repr event =
     (let code = jget_default (u ''code'') (JInt 0) event; stderr = jget (u ''stderr'') event in
      if is_zero code then [event_of ''complete'' [(''status'', JStr (u ''success''))]]
      else [event_of ''error''
              [(''message'', if truthy stderr then stderr else JStr (u ''Process exited with code '' @ py_str repr code))],
            event_of ''complete'' [(''status'', JStr (u ''failed''))]])"

definition parse_cli_event :: "(json \<Rightarrow> pystr) \<Rightarrow> json \<Rightarrow> json list" where
  "parse_cli_event repr event =
     (let etype = jget (u ''type'') event; msg = message_object event; results = message_events repr msg in
      if \<not> is_dict event \<or> etype = JStr (u ''system'') then []
      else if results \<noteq> [] then results
      else if etype = JStr (u ''content_block_delta'') then delta_events event
      else if etype = JStr (u ''content_block_start'') then start_events repr event
      else if etype = JStr (u ''content_block_stop'') then [event_of ''block_stop'' [(''index'', event_index event)]]
      else if etype = JStr (u ''error'') then
        (let err = jget (u ''error'') event in
         [event_of ''error'' [(''message'', if is_dict err then jget (u ''message'') err else JStr (py_str repr err))]])
      else if etype = JStr (u ''exit'') then exit_events repr event
      else [])"

section \<open>Segments\<close>

text \<open>\<open>json.dumps(obj, indent=2, ensure_ascii=False, sort_keys=True)\<close>\<close>

definition new_line :: "nat \<Rightarrow> pystr" where
  "new_line level = 10 # replicate (2 * level) 32"

fun json_pretty :: "nat \<Rightarrow> json \<Rightarrow> pystr" where
  "json_pretty level (JObj d) =
     (if d = [] then u ''{}''
      else [123] @ new_line (Suc level) @
        str_join (44 # new_line (Suc level))
          (map snd (sort_key fst (map (\<lambda>(k, v). (k, json_string False k @ u '': '' @ json_pretty (Suc level) v)) d))) @
        new_line level @ [125])"
| "json_pretty level (JArr xs) =
     (if xs = [] then u ''[]''
      else [91] @ new_line (Suc level) @ str_join (44 # new_line (Suc level)) (map (json_pretty (Suc level)) xs) @
        new_line level @ [93])"
| "json_pretty level v = json_encode False [] [] v"

definition safe_json_dumps :: "json \<Rightarrow> pystr" where
  "safe_json_dumps obj = json_pretty 0 obj"

datatype segment =
    ThinkingSegment "pystr list"
  | TextSegment "pystr list"
  | ToolCallSegment pystr pystr bool nat
  | ToolResultSegment pystr "pystr option" pystr bool
  | SubagentSegment pystr nat "pystr list" "nat option"
  | ErrorSegment pystr

definition or_else :: "pystr \<Rightarrow> pystr \<Rightarrow> pystr" where
  "or_else s dflt = (if s = [] then dflt else s)"

definition tool_call_segment :: "pystr \<Rightarrow> pystr \<Rightarrow> nat \<Rightarrow> segment" where
  "tool_call_segment tool_use_id name indent_level = ToolCallSegment tool_use_id (or_else name (u ''tool'')) False indent_level"

definition tool_result_segment :: "pystr \<Rightarrow> json \<Rightarrow> pystr option \<Rightarrow> bool \<Rightarrow> segment" where
  "tool_result_segment tool_use_id content name is_error =
     ToolResultSegment tool_use_id name (case content of JStr s \<Rightarrow> s | _ \<Rightarrow> safe_json_dumps content) is_error"

definition subagent_segment :: "pystr \<Rightarrow> segment" where
  "subagent_segment description = SubagentSegment (or_else description (u ''Subagent'')) 0 [] None"

definition error_segment :: "pystr \<Rightarrow> segment" where
  "error_segment message = ErrorSegment (or_else message (u ''Unknown error''))"

definition append_part :: "pystr \<Rightarrow> segment \<Rightarrow> segment" where
  "append_part t seg =
     (if t = [] then seg
      else case seg of
             ThinkingSegment parts \<Rightarrow> ThinkingSegment (parts @ [t])
           | TextSegment parts \<Rightarrow> TextSegment (parts @ [t])
           | _ \<Rightarrow> seg)"

definition close_tool :: "segment \<Rightarrow> segment" where
  "close_tool seg = (case seg of ToolCallSegment i n _ l \<Rightarrow> ToolCallSegment i n True l | _ \<Rightarrow> seg)"

section \<open>The transcript\<close>

record transcript =
  tr_heap :: "segment list"
  tr_segments :: "nat list"
  open_thinking_by_index :: "(int, nat) dict"
  open_text_by_index :: "(int, nat) dict"
  open_tools_by_index :: "(int, nat) dict"
  tool_name_by_id :: "(pystr, pystr) dict"
  show_tool_results :: bool
  subagent_stack :: "pystr list"
  subagent_segments :: "nat list"

definition TranscriptBuffer :: "bool \<Rightarrow> transcript" where
  "TranscriptBuffer show_results =
     \<lparr>tr_heap = [], tr_segments = [], open_thinking_by_index = [], open_text_by_index = [], open_tools_by_index = [],
      tool_name_by_id = [], show_tool_results = show_results, subagent_stack = [], subagent_segments = []\<rparr>"

text \<open>A new object, and one that is put at the end of the transcript.\<close>

definition new_object :: "segment \<Rightarrow> transcript \<Rightarrow> nat \<times> transcript" where
  "new_object seg t = (length (tr_heap t), t\<lparr>tr_heap := tr_heap t @ [seg]\<rparr>)"

definition add_segment :: "segment \<Rightarrow> transcript \<Rightarrow> nat \<times> transcript" where
  "add_segment seg t = (case new_object seg t of (a, t1) \<Rightarrow> (a, t1\<lparr>tr_segments := tr_segments t1 @ [a]\<rparr>))"

definition on_object :: "nat \<Rightarrow> (segment \<Rightarrow> segment) \<Rightarrow> transcript \<Rightarrow> transcript" where
  "on_object a f t = t\<lparr>tr_heap := (tr_heap t)[a := f (tr_heap t ! a)]\<rparr>"

subsection \<open>Subagents\<close>

definition in_subagent :: "transcript \<Rightarrow> bool" where
  "in_subagent t \<longleftrightarrow> subagent_stack t \<noteq> []"

definition subagent_current :: "transcript \<Rightarrow> nat option" where
  "subagent_current t = (if subagent_segments t = [] then None else Some (last (subagent_segments t)))"

definition task_heading_from_input :: "(json \<Rightarrow> pystr) \<Rightarrow> json \<Rightarrow> pystr" where
  "task_heading_from_input repr inp =
     (let desc = str_strip (get_str repr ''description'' inp);
          subagent_type = str_strip (get_str repr ''subagent_type'' inp);
          typ = str_strip (get_str repr ''type'' inp)
      in if \<not> is_dict inp then u ''Subagent''
         else if desc \<noteq> [] then desc
         else if subagent_type \<noteq> [] then subagent_type
         else if typ \<noteq> [] then typ
         else u ''Subagent'')"

definition subagent_push :: "pystr \<Rightarrow> nat \<Rightarrow> transcript \<Rightarrow> transcript" where
  "subagent_push tool_id seg t =
     t\<lparr>subagent_stack := subagent_stack t @ [or_else (str_strip tool_id) (u ''__task_'' @ show_nat (length (subagent_stack t) + 1))],
       subagent_segments := subagent_segments t @ [seg]\<rparr>"

definition ids_roughly_match :: "pystr \<Rightarrow> pystr \<Rightarrow> bool" where
  "ids_roughly_match stack_id rid \<longleftrightarrow>
     stack_id \<noteq> [] \<and> rid \<noteq> [] \<and>
     (stack_id = rid \<or> str_startswith stack_id rid \<or> str_startswith rid stack_id)"

definition subagent_pop1 :: "transcript \<Rightarrow> transcript" where
  "subagent_pop1 t = t\<lparr>subagent_stack := butlast (subagent_stack t), subagent_segments := butlast (subagent_segments t)\<rparr>"

text \<open>The last index below \<open>n\<close> with \<open>f\<close>, and \<open>while len(stack) > idx\<close>.\<close>

fun last_index :: "(nat \<Rightarrow> bool) \<Rightarrow> nat \<Rightarrow> nat option" where
  "last_index f 0 = None"
| "last_index f (Suc i) = (if f i then Some i else last_index f i)"

function pop_to :: "nat \<Rightarrow> transcript \<Rightarrow> transcript" where
  "pop_to idx t = (if idx < length (subagent_stack t) then pop_to idx (subagent_pop1 t) else t)"
  by pat_completeness auto
termination
  by (relation "measure (\<lambda>(idx, t). length (subagent_stack t))") (auto simp: subagent_pop1_def)

declare pop_to.simps [simp del]

definition subagent_pop :: "pystr \<Rightarrow> transcript \<Rightarrow> bool \<times> transcript" where
  "subagent_pop tool_id0 t =
     (let tool_id = str_strip tool_id0; stack = subagent_stack t in
      if stack = [] then (False, t)
      else if tool_id \<noteq> [] then
        (if ids_roughly_match (last stack) tool_id then (True, subagent_pop1 t)
         else case last_index (\<lambda>i. ids_roughly_match (stack ! i) tool_id) (length stack) of
                None \<Rightarrow> (False, t)
              | Some idx \<Rightarrow> (True, pop_to idx t))
      else if str_startswith (last stack) (u ''__task_'') then (True, subagent_pop1 t)
      else (False, t))"

subsection \<open>Applying an event\<close>

definition int_of :: "(json \<Rightarrow> py_exn + int) \<Rightarrow> json \<Rightarrow> py_exn + int" where
  "int_of conv v =
     (case v of
        JInt i \<Rightarrow> Inr i
      | JBool b \<Rightarrow> Inr (if b then 1 else 0)
      | JReal _ \<Rightarrow> conv v
      | JStr _ \<Rightarrow> conv v
      | _ \<Rightarrow> Inl TypeError)"

definition has_type :: "string list \<Rightarrow> json \<Rightarrow> bool" where
  "has_type names ev \<longleftrightarrow> list_ex (\<lambda>n. jget (u ''type'') ev = JStr (u n)) names"

definition tool_use_stop :: "int \<Rightarrow> transcript \<Rightarrow> transcript" where
  "tool_use_stop idx t =
     (let t1 = t\<lparr>open_tools_by_index := dict_pop idx (open_tools_by_index t)\<rparr> in
      case dict_get (open_tools_by_index t) idx of None \<Rightarrow> t1 | Some a \<Rightarrow> on_object a close_tool t1)"

definition thinking_stop :: "int \<Rightarrow> transcript \<Rightarrow> transcript" where
  "thinking_stop idx t =
     (if 0 \<le> idx then t\<lparr>open_thinking_by_index := dict_pop idx (open_thinking_by_index t)\<rparr> else t)"

definition text_stop :: "int \<Rightarrow> transcript \<Rightarrow> transcript" where
  "text_stop idx t = (if 0 \<le> idx then t\<lparr>open_text_by_index := dict_pop idx (open_text_by_index t)\<rparr> else t)"

definition block_stop :: "int \<Rightarrow> transcript \<Rightarrow> transcript" where
  "block_stop idx t =
     (if dict_get (open_tools_by_index t) idx \<noteq> None then tool_use_stop idx t
      else if dict_get (open_thinking_by_index t) idx \<noteq> None then thinking_stop idx t
      else if dict_get (open_text_by_index t) idx \<noteq> None then text_stop idx t
      else t)"

definition stop_previous :: "int \<Rightarrow> transcript \<Rightarrow> transcript" where
  "stop_previous idx t = (if 0 \<le> idx then block_stop idx t else t)"

definition thinking_at :: "int \<Rightarrow> transcript \<Rightarrow> nat \<times> transcript" where
  "thinking_at idx t =
     (case add_segment (ThinkingSegment []) t of
        (a, t1) \<Rightarrow> (a, if 0 \<le> idx then t1\<lparr>open_thinking_by_index := dict_set idx a (open_thinking_by_index t1)\<rparr> else t1))"

definition text_at :: "int \<Rightarrow> transcript \<Rightarrow> nat \<times> transcript" where
  "text_at idx t =
     (case add_segment (TextSegment []) t of
        (a, t1) \<Rightarrow> (a, if 0 \<le> idx then t1\<lparr>open_text_by_index := dict_set idx a (open_text_by_index t1)\<rparr> else t1))"

definition append_to :: "nat \<times> transcript \<Rightarrow> pystr \<Rightarrow> transcript" where
  "append_to r s = (case r of (a, t) \<Rightarrow> on_object a (append_part s) t)"

definition thinking_delta :: "int \<Rightarrow> pystr \<Rightarrow> transcript \<Rightarrow> transcript" where
  "thinking_delta idx s t =
     append_to (case dict_get (open_thinking_by_index t) idx of Some a \<Rightarrow> (a, t) | None \<Rightarrow> thinking_at idx t) s"

definition text_delta :: "int \<Rightarrow> pystr \<Rightarrow> transcript \<Rightarrow> transcript" where
  "text_delta idx s t =
     append_to (case dict_get (open_text_by_index t) idx of Some a \<Rightarrow> (a, t) | None \<Rightarrow> text_at idx t) s"

text \<open>\<open>set_current_tool_call\<close> on the subagent at \<open>parent\<close>.\<close>

definition set_current_tool_call :: "nat \<Rightarrow> pystr \<Rightarrow> pystr \<Rightarrow> transcript \<Rightarrow> nat \<times> transcript" where
  "set_current_tool_call parent tool_use_id name t =
     (case new_object (tool_call_segment tool_use_id name 1) t of
        (a, t1) \<Rightarrow>
          (a, on_object parent (\<lambda>seg. case seg of
                SubagentSegment description calls used current \<Rightarrow>
                  SubagentSegment description (calls + 1) (List.insert (or_else name (u ''tool'')) used) (Some a)
              | _ \<Rightarrow> seg) t1))"

text \<open>A tool call, of either kind of event: the object of the call, none for a subagent.\<close>

definition tool_call :: "(json \<Rightarrow> pystr) \<Rightarrow> json \<Rightarrow> transcript \<Rightarrow> nat option \<times> transcript" where
  "tool_call repr ev t0 =
     (let tool_id = str_strip (get_str repr ''id'' ev);
          name = str_or repr (u ''tool'') (jget (u ''name'') ev);
          t = (if tool_id \<noteq> [] then t0\<lparr>tool_name_by_id := dict_set tool_id name (tool_name_by_id t0)\<rparr> else t0)
      in if name = u ''Task'' then
           (case add_segment (subagent_segment (task_heading_from_input repr (jget (u ''input'') ev))) t of
              (a, t1) \<Rightarrow> (None, subagent_push tool_id a t1))
         else map_prod Some id
           (case (if in_subagent t then subagent_current t else None) of
              Some parent \<Rightarrow> set_current_tool_call parent tool_id name t
            | None \<Rightarrow> add_segment (tool_call_segment tool_id name 0) t))"

text \<open>The result of a tool: it may end subagents.\<close>

definition end_subagents :: "(pystr \<Rightarrow> pystr) \<Rightarrow> pystr \<Rightarrow> transcript \<Rightarrow> transcript" where
  "end_subagents lower tool_id t =
     (if subagent_stack t = [] then t
      else case subagent_pop tool_id t of
        (popped, t1) \<Rightarrow>
          let top = (if subagent_stack t1 = [] then [] else last (subagent_stack t1));
              name = dict_get (tool_name_by_id t) tool_id
          in if \<not> popped \<and> tool_id \<noteq> [] \<and> str_startswith top (u ''__task_'')
                \<and> (name = None \<or> name = Some (u ''Task'')) \<and> str_contains (u ''task'') (lower tool_id)
             then snd (subagent_pop [] t1)
             else t1)"

definition tool_result :: "(pystr \<Rightarrow> pystr) \<Rightarrow> (json \<Rightarrow> pystr) \<Rightarrow> json \<Rightarrow> transcript \<Rightarrow> transcript" where
  "tool_result lower repr ev t =
     (let tool_id = str_strip (get_str repr ''tool_use_id'' ev);
          name = dict_get (tool_name_by_id t) tool_id;
          t1 = end_subagents lower tool_id t
      in if \<not> show_tool_results t then t1
         else snd (add_segment (tool_result_segment tool_id (jget (u ''content'') ev) name (truthy (jget (u ''is_error'') ev))) t1))"

record transcript_env =
  te_lower :: "pystr \<Rightarrow> pystr"
  te_repr :: "json \<Rightarrow> pystr"
  te_int :: "json \<Rightarrow> py_exn + int"

definition with_index :: "transcript_env \<Rightarrow> json \<Rightarrow> (int \<Rightarrow> transcript) \<Rightarrow> py_exn + transcript" where
  "with_index env ev f = and_then (int_of (te_int env) (event_index ev)) (\<lambda>idx. Inr (f idx))"

definition event_text :: "transcript_env \<Rightarrow> json \<Rightarrow> pystr" where
  "event_text env ev = py_str (te_repr env) (jget_default (u ''text'') (JStr []) ev)"

definition apply_event :: "transcript_env \<Rightarrow> json \<Rightarrow> transcript \<Rightarrow> py_exn + transcript" where
  "apply_event env ev t =
     (if in_subagent t \<and>
         has_type [''thinking_start'', ''thinking_delta'', ''thinking_chunk'', ''text_start'', ''text_delta'', ''text_chunk''] ev
      then Inr t
      else if has_type [''thinking_start''] ev then
        with_index env ev (\<lambda>idx. snd (thinking_at idx (stop_previous idx t)))
      else if has_type [''thinking_delta'', ''thinking_chunk''] ev then
        with_index env ev (\<lambda>idx. thinking_delta idx (event_text env ev) t)
      else if has_type [''thinking_stop''] ev then with_index env ev (\<lambda>idx. thinking_stop idx t)
      else if has_type [''text_start''] ev then
        with_index env ev (\<lambda>idx. snd (text_at idx (stop_previous idx t)))
      else if has_type [''text_delta'', ''text_chunk''] ev then
        with_index env ev (\<lambda>idx. text_delta idx (event_text env ev) t)
      else if has_type [''text_stop''] ev then with_index env ev (\<lambda>idx. text_stop idx t)
      else if has_type [''tool_use_start''] ev then
        with_index env ev (\<lambda>idx.
          case tool_call (te_repr env) ev (stop_previous idx t) of
            (None, t1) \<Rightarrow> t1
          | (Some a, t1) \<Rightarrow> if 0 \<le> idx then t1\<lparr>open_tools_by_index := dict_set idx a (open_tools_by_index t1)\<rparr> else t1)
      else if has_type [''tool_use_delta''] ev then Inr t
      else if has_type [''tool_use_stop''] ev then with_index env ev (\<lambda>idx. tool_use_stop idx t)
      else if has_type [''block_stop''] ev then with_index env ev (\<lambda>idx. block_stop idx t)
      else if has_type [''tool_use''] ev then
        Inr (case tool_call (te_repr env) ev t of
               (None, t1) \<Rightarrow> t1
             | (Some a, t1) \<Rightarrow> on_object a close_tool t1)
      else if has_type [''tool_result''] ev then Inr (tool_result (te_lower env) (te_repr env) ev t)
      else if has_type [''error''] ev then
        Inr (snd (add_segment (error_segment (py_str (te_repr env) (jget_default (u ''message'') (JStr []) ev))) t))
      else Inr t)"

fun apply_events :: "transcript_env \<Rightarrow> json list \<Rightarrow> transcript \<Rightarrow> py_exn + transcript" where
  "apply_events env [] t = Inr t"
| "apply_events env (ev # evs) t = and_then (apply_event env ev t) (apply_events env evs)"

section \<open>Rendering\<close>

record render_ctx =
  bold :: "pystr \<Rightarrow> py_exn + pystr"
  code_inline :: "pystr \<Rightarrow> py_exn + pystr"
  escape_code :: "pystr \<Rightarrow> py_exn + pystr"
  escape_text :: "pystr \<Rightarrow> py_exn + pystr"
  render_markdown :: "pystr \<Rightarrow> py_exn + pystr"
  thinking_tail_max :: "int option"
  tool_output_tail_max :: "int option"
  text_tail_max :: "int option"

text \<open>\<open>s[i:]\<close>, and the end of a text with dots before it when it is longer than allowed.\<close>

definition slice_from :: "int \<Rightarrow> 'a list \<Rightarrow> 'a list" where
  "slice_from i s = drop (nat (if i < 0 then int (length s) + i else i)) s"

definition tail_of :: "int option \<Rightarrow> pystr \<Rightarrow> pystr" where
  "tail_of limit raw =
     (case limit of
        Some m \<Rightarrow> if m < int (length raw) then u ''...'' @ slice_from (- (m - 3)) raw else raw
      | None \<Rightarrow> raw)"

definition fenced :: "pystr \<Rightarrow> pystr" where
  "fenced inner = [10] @ u ''```'' @ [10] @ inner @ [10] @ u ''```''"

definition render_tool_call :: "render_ctx \<Rightarrow> pystr \<Rightarrow> nat \<Rightarrow> py_exn + pystr" where
  "render_tool_call ctx name0 indent_level =
     and_then (code_inline ctx name0) (\<lambda>name.
     and_then (bold ctx (u ''Tool call:'')) (\<lambda>label.
       Inr (replicate (2 * indent_level) 32 @ [128736, 32] @ label @ [32] @ name)))"

definition render_current_tool :: "render_ctx \<Rightarrow> segment list \<Rightarrow> nat option \<Rightarrow> pystr list" where
  "render_current_tool ctx heap current =
     (case current of
        None \<Rightarrow> []
      | Some a \<Rightarrow>
          (case heap ! a of
             ToolCallSegment _ name _ indent_level \<Rightarrow>
               (case render_tool_call ctx name indent_level of
                  Inr rendered \<Rightarrow> if rendered \<noteq> [] then [rendered] else []
                | Inl _ \<Rightarrow> [])
           | _ \<Rightarrow> []))"

definition render_segment :: "render_ctx \<Rightarrow> segment list \<Rightarrow> segment \<Rightarrow> py_exn + pystr" where
  "render_segment ctx heap seg =
     (case seg of
        ThinkingSegment parts \<Rightarrow>
          and_then (escape_code ctx (tail_of (thinking_tail_max ctx) (concat parts))) (\<lambda>inner.
          and_then (bold ctx (u ''Thinking'')) (\<lambda>label. Inr ([128173, 32] @ label @ fenced inner)))
      | TextSegment parts \<Rightarrow> render_markdown ctx (tail_of (text_tail_max ctx) (concat parts))
      | ToolCallSegment _ name _ indent_level \<Rightarrow> render_tool_call ctx name indent_level
      | ToolResultSegment _ name content_text is_error \<Rightarrow>
          and_then (escape_code ctx (tail_of (tool_output_tail_max ctx) content_text)) (\<lambda>inner.
          and_then (case name of
                      Some n \<Rightarrow> if n \<noteq> [] then and_then (code_inline ctx n) (\<lambda>c. Inr (32 # c)) else Inr []
                    | None \<Rightarrow> Inr []) (\<lambda>maybe_name.
          and_then (bold ctx (u (if is_error then ''Tool error:'' else ''Tool result:''))) (\<lambda>label.
            Inr ([128228, 32] @ label @ maybe_name @ fenced inner))))
      | SubagentSegment description tool_calls tools_used current_tool \<Rightarrow>
          and_then (bold ctx (u ''Subagent:'')) (\<lambda>label.
          and_then (code_inline ctx description) (\<lambda>heading.
          and_then (bold ctx (u ''Tools used:'')) (\<lambda>used_label.
          and_then (code_inline ctx ([123] @ str_join (u '', '') (sort tools_used) @ [125])) (\<lambda>used.
          and_then (bold ctx (u ''Tool calls:'')) (\<lambda>calls_label.
          and_then (code_inline ctx (show_nat tool_calls)) (\<lambda>calls.
            Inr (str_join [10]
              ([[129302, 32] @ label @ [32] @ heading] @ render_current_tool ctx heap current_tool @
               [u ''  '' @ used_label @ [32] @ used, u ''  '' @ calls_label @ [32] @ calls]))))))))
      | ErrorSegment message \<Rightarrow>
          and_then (bold ctx (u ''Error:'')) (\<lambda>label.
          and_then (code_inline ctx message) (\<lambda>m. Inr ([9888, 65039, 32] @ label @ [32] @ m))))"

definition rendered_segments :: "render_ctx \<Rightarrow> transcript \<Rightarrow> pystr list" where
  "rendered_segments ctx t =
     concat (map (\<lambda>a. case render_segment ctx (tr_heap t) (tr_heap t ! a) of
                        Inr out \<Rightarrow> if out \<noteq> [] then [out] else []
                      | Inl _ \<Rightarrow> []) (tr_segments t))"

definition join_parts :: "pystr \<Rightarrow> pystr \<Rightarrow> pystr list \<Rightarrow> bool \<Rightarrow> pystr" where
  "join_parts marker status_text parts add_marker =
     (let body = str_join [10] parts;
          body1 = (if add_marker \<and> body \<noteq> [] then marker @ body else body)
      in if body1 \<noteq> [] \<or> status_text \<noteq> [] then body1 @ status_text else status_text)"

text \<open>The loop that drops the oldest parts: a text that fits, or the last part dropped.\<close>

fun drop_oldest :: "pystr \<Rightarrow> pystr \<Rightarrow> int \<Rightarrow> pystr option \<Rightarrow> pystr list \<Rightarrow> pystr + pystr option" where
  "drop_oldest marker status_text limit last_part [] = Inr last_part"
| "drop_oldest marker status_text limit last_part (p # parts) =
     (let candidate = join_parts marker status_text (p # parts) True in
      if int (length candidate) \<le> limit then Inl candidate
      else drop_oldest marker status_text limit (Some p) parts)"

definition last_part_tail :: "pystr \<Rightarrow> pystr \<Rightarrow> int \<Rightarrow> pystr \<Rightarrow> pystr option" where
  "last_part_tail marker status_text limit last_part =
     (let budget = limit - int (length marker) - int (length status_text) in
      if last_part \<noteq> [] \<and> 20 < budget then
        let cut = (if budget < int (length last_part) then u ''...'' @ slice_from (- (budget - 3)) last_part else last_part);
            candidate = marker @ cut @ status_text
        in if int (length candidate) \<le> limit then Some candidate else None
      else None)"

definition truncated_marker :: pystr where
  "truncated_marker = u ''... (truncated)'' @ [10]"

definition render_transcript :: "render_ctx \<Rightarrow> transcript \<Rightarrow> int \<Rightarrow> pystr option \<Rightarrow> py_exn + pystr" where
  "render_transcript ctx t limit_chars status0 =
     (let rendered = rendered_segments ctx t;
          status = (case status0 of Some s \<Rightarrow> s | None \<Rightarrow> []);
          status_text = (if status \<noteq> [] then [10, 10] @ status else [])
      in and_then (escape_text ctx truncated_marker) (\<lambda>marker.
           let candidate = join_parts marker status_text rendered False in
           if int (length candidate) \<le> limit_chars then Inr candidate
           else case drop_oldest marker status_text limit_chars None rendered of
             Inl fitting \<Rightarrow> Inr fitting
           | Inr None \<Rightarrow> Inr status
           | Inr (Some last_part) \<Rightarrow>
               (case last_part_tail marker status_text limit_chars last_part of
                  Some shortened \<Rightarrow> Inr shortened
                | None \<Rightarrow>
                    let minimal = marker @ dropWhile (\<lambda>c. c = 10) status_text in
                    if int (length minimal) \<le> limit_chars then Inr minimal else Inr status)))"

section \<open>Truncation\<close>

lemma drop_oldest_cases:
  "(\<exists>k < length parts. int (length (join_parts marker st (drop k parts) True)) \<le> limit
      \<and> (\<forall>j < k. limit < int (length (join_parts marker st (drop j parts) True)))
      \<and> drop_oldest marker st limit l parts = Inl (join_parts marker st (drop k parts) True))
   \<or> (\<forall>k < length parts. limit < int (length (join_parts marker st (drop k parts) True)))
      \<and> drop_oldest marker st limit l parts = Inr (if parts = [] then l else Some (last parts))"
proof (induction parts arbitrary: l)
  case (Cons p parts)
  let ?fits = "\<lambda>ps. int (length (join_parts marker st ps True)) \<le> limit"
  show ?case
  proof (cases "?fits (p # parts)")
    case True
    then show ?thesis by (intro disjI1 exI [of _ 0]) (simp add: Let_def)
  next
    case False
    from Cons.IH [of "Some p"] show ?thesis
    proof (elim disjE exE conjE)
      fix k assume k: "k < length parts" "?fits (drop k parts)" "\<forall>j<k. limit < int (length (join_parts marker st (drop j parts) True))"
        and res: "drop_oldest marker st limit (Some p) parts = Inl (join_parts marker st (drop k parts) True)"
      have "\<forall>j<Suc k. limit < int (length (join_parts marker st (drop j (p # parts)) True))"
        using k(3) False by (auto simp: less_Suc_eq_0_disj)
      then show ?thesis using k(1,2) res False by (intro disjI1 exI [of _ "Suc k"]) (simp add: Let_def)
    next
      assume none: "\<forall>k<length parts. limit < int (length (join_parts marker st (drop k parts) True))"
        and res: "drop_oldest marker st limit (Some p) parts = Inr (if parts = [] then Some p else Some (last parts))"
      have "\<forall>k<length (p # parts). limit < int (length (join_parts marker st (drop k (p # parts)) True))"
        using none False by (auto simp: less_Suc_eq_0_disj)
      then show ?thesis using res False by (intro disjI2) (simp add: Let_def)
    qed
  qed
qed simp

lemma str_join_nonempty: "xs \<noteq> [] \<Longrightarrow> hd xs \<noteq> [] \<Longrightarrow> str_join sep xs \<noteq> []"
  by (cases xs; cases "tl xs") auto

lemma last_part_tail_fits: "last_part_tail marker st limit p = Some c \<Longrightarrow> int (length c) \<le> limit"
  by (auto simp: last_part_tail_def Let_def split: if_splits)

text \<open>The rendered transcript is never longer than the platform allows, whatever the segments, the markup and
  the status line are, unless nothing but the status line is sent.\<close>

theorem transcript_bounded:
  assumes "render_transcript ctx t limit_chars status = Inr out"
  shows "int (length out) \<le> limit_chars \<or> out = (case status of Some s \<Rightarrow> s | None \<Rightarrow> [])"
proof -
  define st where "st = (case status of Some s \<Rightarrow> s | None \<Rightarrow> [])"
  define st_text where "st_text = (if st \<noteq> [] then [10, 10] @ st else [])"
  obtain marker where marker: "escape_text ctx truncated_marker = Inr marker"
    using assms by (cases "escape_text ctx truncated_marker") (simp_all add: render_transcript_def Let_def)
  note def = assms [unfolded render_transcript_def Let_def, folded st_def, folded st_text_def, unfolded marker and_then_simps]
  show ?thesis unfolding st_def [symmetric]
    using def drop_oldest_cases [where marker = marker and st = st_text and limit = limit_chars and l = None and
        parts = "rendered_segments ctx t"]
    by (auto split: if_splits option.splits dest: last_part_tail_fits)
qed

text \<open>A transcript that is too long loses its oldest segments and no more of them than it must: what is sent is
  the marker and the longest tail of the rendered segments that fits with it and the status line.\<close>

theorem transcript_keeps_longest_tail:
  assumes marker: "escape_text ctx truncated_marker = Inr marker"
    and status: "status \<noteq> []" and k: "k < length (rendered_segments ctx t)"
    and fits: "int (length (join_parts marker ([10, 10] @ status) (drop k (rendered_segments ctx t)) True)) \<le> limit_chars"
    and longest: "\<And>j. j < k \<Longrightarrow> limit_chars < int (length (join_parts marker ([10, 10] @ status) (drop j (rendered_segments ctx t)) True))"
    and long: "limit_chars < int (length (join_parts marker ([10, 10] @ status) (rendered_segments ctx t) False))"
  shows "render_transcript ctx t limit_chars (Some status) =
    Inr (marker @ str_join [10] (drop k (rendered_segments ctx t)) @ [10, 10] @ status)"
proof -
  let ?parts = "rendered_segments ctx t"
  have whole: "p \<noteq> []" if "p \<in> set ?parts" for p
    using that by (auto simp: rendered_segments_def split: sum.splits if_splits)
  have "drop k ?parts \<noteq> []" using k by simp
  then have "str_join [10] (drop k ?parts) \<noteq> []"
    using whole [OF in_set_dropD [OF hd_in_set]] by (intro str_join_nonempty)
  then have joined: "join_parts marker ([10, 10] @ status) (drop k ?parts) True = marker @ str_join [10] (drop k ?parts) @ [10, 10] @ status"
    by (simp add: join_parts_def Let_def)
  obtain k' where "k' < length ?parts" "int (length (join_parts marker ([10, 10] @ status) (drop k' ?parts) True)) \<le> limit_chars"
    "\<forall>j<k'. limit_chars < int (length (join_parts marker ([10, 10] @ status) (drop j ?parts) True))"
    "drop_oldest marker ([10, 10] @ status) limit_chars None ?parts = Inl (join_parts marker ([10, 10] @ status) (drop k' ?parts) True)"
    using drop_oldest_cases [of ?parts marker "[10, 10] @ status" limit_chars None] k fits by force
  moreover from this have "k' = k" using fits longest by (metis linorder_neqE_nat not_le)
  ultimately show ?thesis using long status joined
    unfolding render_transcript_def Let_def marker and_then_simps by simp
qed

section \<open>The tables stay consistent\<close>

text \<open>The \<open>kind\<close> of a segment.\<close>

fun segment_kind :: "segment \<Rightarrow> string" where
  "segment_kind (ThinkingSegment _) = ''thinking''"
| "segment_kind (TextSegment _) = ''text''"
| "segment_kind (ToolCallSegment _ _ _ _) = ''tool_call''"
| "segment_kind (ToolResultSegment _ _ _ _) = ''tool_result''"
| "segment_kind (SubagentSegment _ _ _ _) = ''subagent''"
| "segment_kind (ErrorSegment _) = ''error''"

definition refers :: "segment list \<Rightarrow> string \<Rightarrow> nat \<Rightarrow> bool" where
  "refers h k a \<longleftrightarrow> a < length h \<and> segment_kind (h ! a) = k"

text \<open>The shown tool of a subagent is a tool call.\<close>

definition tool_ok :: "segment list \<Rightarrow> segment \<Rightarrow> bool" where
  "tool_ok h seg \<longleftrightarrow> (case seg of SubagentSegment _ _ _ (Some b) \<Rightarrow> refers h ''tool_call'' b | _ \<Rightarrow> True)"

definition table_ok :: "segment list \<Rightarrow> string \<Rightarrow> (int, nat) dict \<Rightarrow> bool" where
  "table_ok h k d \<longleftrightarrow> (\<forall>i a. dict_get d i = Some a \<longrightarrow> refers h k a)"

definition transcript_ok :: "transcript \<Rightarrow> bool" where
  "transcript_ok t \<longleftrightarrow>
     distinct (tr_segments t) \<and> (\<forall>a \<in> set (tr_segments t). a < length (tr_heap t)) \<and>
     table_ok (tr_heap t) ''thinking'' (open_thinking_by_index t) \<and>
     table_ok (tr_heap t) ''text'' (open_text_by_index t) \<and>
     table_ok (tr_heap t) ''tool_call'' (open_tools_by_index t) \<and>
     list_all (tool_ok (tr_heap t)) (tr_heap t) \<and>
     length (subagent_stack t) = length (subagent_segments t) \<and> [] \<notin> set (subagent_stack t) \<and>
     (\<forall>a \<in> set (subagent_segments t). refers (tr_heap t) ''subagent'' a)"

lemma refers_append [simp]: "refers h k a \<Longrightarrow> refers (h @ hs) k a"
  by (simp add: refers_def nth_append)

lemma refers_new [simp]: "refers (h @ [seg]) k (length h) = (segment_kind seg = k)"
  by (simp add: refers_def)

lemma refers_update [simp]: "segment_kind seg = segment_kind (h ! b) \<Longrightarrow> refers (h[b := seg]) k a = refers h k a"
  by (cases "a = b") (auto simp: refers_def)

lemma table_ok_append [simp]: "table_ok h k d \<Longrightarrow> table_ok (h @ [seg]) k d"
  by (simp add: table_ok_def)

lemma table_ok_update [simp]: "segment_kind seg = segment_kind (h ! b) \<Longrightarrow> table_ok (h[b := seg]) k d = table_ok h k d"
  by (simp add: table_ok_def)

lemma tool_ok_append [simp]: "tool_ok h s \<Longrightarrow> tool_ok (h @ [seg]) s"
  by (auto simp: tool_ok_def split: segment.splits option.splits)

lemma tool_ok_update [simp]: "segment_kind seg = segment_kind (h ! b) \<Longrightarrow> tool_ok (h[b := seg]) s = tool_ok h s"
  by (auto simp: tool_ok_def split: segment.splits option.splits)

lemma table_set: "table_ok h k d \<Longrightarrow> refers h k a \<Longrightarrow> table_ok h k (dict_set i a d)"
  by (auto simp: table_ok_def dict_simps)

lemma table_pop: "table_ok h k d \<Longrightarrow> table_ok h k (dict_pop i d)"
  by (auto simp: table_ok_def dict_simps split: if_splits)

lemma ok_new_object: "transcript_ok t \<Longrightarrow> tool_ok (tr_heap t) seg \<Longrightarrow> transcript_ok (snd (new_object seg t))"
  by (auto simp: transcript_ok_def new_object_def list_all_iff intro: less_SucI)

lemma ok_add_segment:
  assumes "transcript_ok t" "tool_ok (tr_heap t) seg"
  shows "transcript_ok (snd (add_segment seg t))"
proof -
  have "transcript_ok (snd (new_object seg t))" using assms by (rule ok_new_object)
  moreover have "length (tr_heap t) \<notin> set (tr_segments t)" using assms(1) by (auto simp: transcript_ok_def)
  ultimately show ?thesis by (auto simp: add_segment_def new_object_def transcript_ok_def)
qed

lemma ok_on_object:
  assumes "transcript_ok t" "segment_kind (f (tr_heap t ! a)) = segment_kind (tr_heap t ! a)"
    and "tool_ok (tr_heap t) (f (tr_heap t ! a))"
  shows "transcript_ok (on_object a f t)"
  using assms by (auto simp: transcript_ok_def on_object_def list_all_iff dest!: set_update_subset_insert [THEN subsetD])

lemma kind_append_part [simp]: "segment_kind (append_part s seg) = segment_kind seg"
  by (simp add: append_part_def split: segment.split)

lemma kind_close_tool [simp]: "segment_kind (close_tool seg) = segment_kind seg"
  by (simp add: close_tool_def split: segment.split)

lemma tool_ok_append_part [simp]: "tool_ok h (append_part s seg) = tool_ok h seg"
  by (simp add: tool_ok_def append_part_def split: segment.split)

lemma tool_ok_close_tool [simp]: "tool_ok h (close_tool seg) = tool_ok h seg"
  by (simp add: tool_ok_def close_tool_def split: segment.split)

text \<open>An address beyond the store is not in use.\<close>

lemma ok_on_object_plain:
  assumes "transcript_ok t" "\<And>seg. segment_kind (f seg) = segment_kind seg" "\<And>h seg. tool_ok h (f seg) = tool_ok h seg"
  shows "transcript_ok (on_object a f t)"
proof (cases "a < length (tr_heap t)")
  case True
  then have "tool_ok (tr_heap t) (tr_heap t ! a)" using assms(1) by (simp add: transcript_ok_def list_all_iff)
  then show ?thesis using assms by (intro ok_on_object) simp_all
next
  case False
  then show ?thesis using assms(1) by (simp add: on_object_def not_less list_update_beyond)
qed

lemma ok_stops:
  assumes "transcript_ok t"
  shows "transcript_ok (tool_use_stop i t)" "transcript_ok (thinking_stop i t)" "transcript_ok (text_stop i t)"
    "transcript_ok (block_stop i t)" "transcript_ok (stop_previous i t)"
proof -
  have "transcript_ok (t\<lparr>open_tools_by_index := dict_pop i (open_tools_by_index t)\<rparr>)"
    using assms by (simp add: transcript_ok_def table_pop)
  then show tool: "transcript_ok (tool_use_stop i t)"
    by (simp add: tool_use_stop_def Let_def ok_on_object_plain split: option.split)
  show thinking: "transcript_ok (thinking_stop i t)" using assms by (simp add: transcript_ok_def thinking_stop_def table_pop)
  show words: "transcript_ok (text_stop i t)" using assms by (simp add: transcript_ok_def text_stop_def table_pop)
  show block: "transcript_ok (block_stop i t)" using assms tool thinking words by (simp add: block_stop_def)
  then show "transcript_ok (stop_previous i t)" using assms by (simp add: stop_previous_def)
qed

lemma ok_deltas:
  assumes "transcript_ok t"
  shows "transcript_ok (snd (thinking_at i t))" "transcript_ok (snd (text_at i t))"
    "transcript_ok (thinking_delta i s t)" "transcript_ok (text_delta i s t)"
proof -
  have new: "transcript_ok (snd (add_segment seg t))" "refers (tr_heap (snd (add_segment seg t))) (segment_kind seg) (fst (add_segment seg t))"
    if "tool_ok (tr_heap t) seg" for seg
    using ok_add_segment [OF assms that] by (simp_all add: add_segment_def new_object_def)
  have plain: "tool_ok (tr_heap t) (ThinkingSegment [])" "tool_ok (tr_heap t) (TextSegment [])" by (simp_all add: tool_ok_def)
  show thinking: "transcript_ok (snd (thinking_at i t))"
    using new [OF plain(1)] by (auto simp: thinking_at_def transcript_ok_def intro: table_set split: prod.split)
  show words: "transcript_ok (snd (text_at i t))"
    using new [OF plain(2)] by (auto simp: text_at_def transcript_ok_def intro: table_set split: prod.split)
  have appended: "transcript_ok (append_to r s)" if "transcript_ok (snd r)" for r
    using ok_on_object_plain [OF that, of "append_part s" "fst r"] by (simp add: append_to_def case_prod_beta)
  show "transcript_ok (thinking_delta i s t)" "transcript_ok (text_delta i s t)"
    using assms thinking words by (auto simp: thinking_delta_def text_delta_def intro!: appended split: option.split)
qed

lemma ok_push:
  "transcript_ok t \<Longrightarrow> refers (tr_heap t) ''subagent'' a \<Longrightarrow> transcript_ok (subagent_push i a t)"
  by (auto simp: transcript_ok_def subagent_push_def or_else_def u_def)

lemma ok_pop1: "transcript_ok t \<Longrightarrow> transcript_ok (subagent_pop1 t)"
  by (auto simp: transcript_ok_def subagent_pop1_def dest: in_set_butlastD)

lemma ok_pop_to: "transcript_ok t \<Longrightarrow> transcript_ok (pop_to i t)"
proof (induction i t rule: pop_to.induct)
  case (1 i t)
  then show ?case by (subst pop_to.simps) (simp add: ok_pop1)
qed

lemma ok_pop: "transcript_ok t \<Longrightarrow> transcript_ok (snd (subagent_pop i t))"
  by (simp add: subagent_pop_def Let_def ok_pop1 ok_pop_to split: option.split)

lemma ok_end_subagents: "transcript_ok t \<Longrightarrow> transcript_ok (end_subagents lower i t)"
  by (simp add: end_subagents_def Let_def case_prod_beta ok_pop)

lemma ok_set_current:
  assumes "transcript_ok t" "refers (tr_heap t) ''subagent'' parent"
  shows "transcript_ok (snd (set_current_tool_call parent i name t))"
    "refers (tr_heap (snd (set_current_tool_call parent i name t))) ''tool_call'' (fst (set_current_tool_call parent i name t))"
proof -
  define seg where "seg = tool_call_segment i name (Suc 0)"
  have seg: "segment_kind seg = ''tool_call''" "tool_ok h seg" for h
    by (simp_all add: seg_def tool_ok_def tool_call_segment_def)
  obtain d n us c where p: "tr_heap t ! parent = SubagentSegment d n us c"
    using assms(2) by (cases "tr_heap t ! parent") (auto simp: refers_def)
  then have p1: "tr_heap (snd (new_object seg t)) ! parent = SubagentSegment d n us c"
    using assms(2) by (simp add: refers_def nth_append new_object_def)
  have "refers (tr_heap (snd (new_object seg t))) ''tool_call'' (length (tr_heap t))" by (simp add: new_object_def seg)
  then have "transcript_ok (on_object parent (\<lambda>seg. case seg of
                SubagentSegment description calls used current \<Rightarrow>
                  SubagentSegment description (calls + 1) (List.insert (or_else name (u ''tool'')) used) (Some (length (tr_heap t)))
              | _ \<Rightarrow> seg) (snd (new_object seg t)))"
    using ok_new_object [OF assms(1) seg(2)] by (intro ok_on_object) (simp_all add: p1 tool_ok_def)
  then show "transcript_ok (snd (set_current_tool_call parent i name t))"
    by (simp add: set_current_tool_call_def new_object_def flip: seg_def)
  show "refers (tr_heap (snd (set_current_tool_call parent i name t))) ''tool_call'' (fst (set_current_tool_call parent i name t))"
    using seg by (simp add: set_current_tool_call_def new_object_def on_object_def flip: seg_def split: segment.split)
qed

lemma ok_tool_call:
  assumes "transcript_ok t"
  shows "transcript_ok (snd (tool_call repr ev t))"
    "fst (tool_call repr ev t) = Some a \<Longrightarrow> refers (tr_heap (snd (tool_call repr ev t))) ''tool_call'' a"
proof -
  define i name where "i = str_strip (get_str repr ''id'' ev)" and "name = str_or repr (u ''tool'') (jget (u ''name'') ev)"
  define t1 where "t1 = (if i \<noteq> [] then t\<lparr>tool_name_by_id := dict_set i name (tool_name_by_id t)\<rparr> else t)"
  have ok: "transcript_ok t1" using assms by (simp add: t1_def transcript_ok_def)
  have plain: "tool_ok (tr_heap t1) (tool_call_segment i name 0)" "tool_ok (tr_heap t1) (subagent_segment d)" for d
    by (simp_all add: tool_ok_def tool_call_segment_def subagent_segment_def)
  have parent: "refers (tr_heap t1) ''subagent'' p" if "(if in_subagent t1 then subagent_current t1 else None) = Some p" for p
    using that ok by (auto simp: subagent_current_def transcript_ok_def split: if_splits)
  have sub: "transcript_ok (subagent_push j (fst (add_segment (subagent_segment d) t1)) (snd (add_segment (subagent_segment d) t1)))" for j d
    using ok_add_segment [OF ok plain(2)] by (intro ok_push) (simp_all add: add_segment_def new_object_def subagent_segment_def)
  note step = tool_call_def [of repr ev t, unfolded Let_def, folded i_def name_def, folded t1_def]
  show "transcript_ok (snd (tool_call repr ev t))"
    unfolding step using sub ok_add_segment [OF ok plain(1)] ok_set_current(1) [OF ok parent]
    by (auto simp: case_prod_beta split: option.split)
  show "refers (tr_heap (snd (tool_call repr ev t))) ''tool_call'' a" if "fst (tool_call repr ev t) = Some a"
    using that ok_set_current(2) [OF ok parent] unfolding step
    by (auto simp: case_prod_beta add_segment_def new_object_def tool_call_segment_def split: option.splits if_splits)
qed

lemma transcript_ok_step:
  assumes "transcript_ok t" "apply_event env ev t = Inr t'"
  shows "transcript_ok t'"
proof -
  have open_tool: "transcript_ok (case tool_call repr ev t1 of (None, t2) \<Rightarrow> t2
      | (Some a, t2) \<Rightarrow> if 0 \<le> i then t2\<lparr>open_tools_by_index := dict_set i a (open_tools_by_index t2)\<rparr> else t2)"
    if "transcript_ok t1" for repr i t1
    using ok_tool_call [OF that, of repr ev]
    by (auto simp: transcript_ok_def intro: table_set split: prod.split option.split)
  have whole_tool: "transcript_ok (case tool_call repr ev t of (None, t2) \<Rightarrow> t2 | (Some a, t2) \<Rightarrow> on_object a close_tool t2)" for repr
    using ok_tool_call [OF assms(1), of repr ev] by (auto intro: ok_on_object_plain split: prod.split option.split)
  have results: "transcript_ok (tool_result lower repr ev t)" for lower repr
    unfolding tool_result_def Let_def using ok_end_subagents [OF assms(1)]
    by (simp add: ok_add_segment tool_ok_def tool_result_segment_def)
  have errors: "transcript_ok (snd (add_segment (error_segment m) t))" for m
    using assms(1) by (rule ok_add_segment) (simp add: tool_ok_def error_segment_def)
  show ?thesis
    using assms open_tool whole_tool results errors ok_stops ok_deltas
    unfolding apply_event_def with_index_def
    by (auto simp: and_then_Inr split: if_splits)
qed

text \<open>C19 (invariant): every sequence of events keeps the transcript consistent: each segment is listed once, the open blocks refer to segments of
  their kind, the tool shown by a subagent is a tool call, and the stack of waiting subagents has
  exactly one shown subagent for each entry.\<close>

theorem transcript_consistent:
  assumes "transcript_ok t" "apply_events env evs t = Inr t'"
  shows "transcript_ok t'"
  using assms by (induction evs arbitrary: t) (auto simp: and_then_Inr intro: transcript_ok_step)

section \<open>What is streamed is shown\<close>

text \<open>What a segment shows, as far as the rendering does not cut it.\<close>

fun view :: "segment \<Rightarrow> string \<times> pystr" where
  "view (ThinkingSegment parts) = (''thinking'', concat parts)"
| "view (TextSegment parts) = (''text'', concat parts)"
| "view (ToolCallSegment _ name _ _) = (''tool_call'', name)"
| "view (ToolResultSegment _ _ content_text _) = (''tool_result'', content_text)"
| "view (SubagentSegment description _ _ _) = (''subagent'', description)"
| "view (ErrorSegment message) = (''error'', message)"

definition views :: "transcript \<Rightarrow> (string \<times> pystr) list" where
  "views t = map (\<lambda>a. view (tr_heap t ! a)) (tr_segments t)"

text \<open>A content block as the command line client streams it.\<close>

datatype cli_block =
    ThinkingBlock int "pystr list"
  | TextBlock int "pystr list"
  | ToolBlock int pystr pystr json "pystr list"

definition start_event :: "int \<Rightarrow> json \<Rightarrow> json" where
  "start_event i block = event_of ''content_block_start'' [(''index'', JInt i), (''content_block'', block)]"

definition delta_event :: "int \<Rightarrow> string \<Rightarrow> string \<Rightarrow> pystr \<Rightarrow> json" where
  "delta_event i ty k s = event_of ''content_block_delta'' [(''index'', JInt i), (''delta'', event_of ty [(k, JStr s)])]"

definition stop_event :: "int \<Rightarrow> json" where
  "stop_event i = event_of ''content_block_stop'' [(''index'', JInt i)]"

fun block_events :: "cli_block \<Rightarrow> json list" where
  "block_events (ThinkingBlock i ds) =
     start_event i (event_of ''thinking'' [(''thinking'', JStr [])]) #
     map (delta_event i ''thinking_delta'' ''thinking'') ds @ [stop_event i]"
| "block_events (TextBlock i ds) =
     start_event i (event_of ''text'' [(''text'', JStr [])]) # map (delta_event i ''text_delta'' ''text'') ds @ [stop_event i]"
| "block_events (ToolBlock i tool_id name inp ds) =
     start_event i (event_of ''tool_use'' [(''id'', JStr tool_id), (''name'', JStr name), (''input'', inp)]) #
     map (delta_event i ''input_json_delta'' ''partial_json'') ds @ [stop_event i]"

fun block_view :: "cli_block \<Rightarrow> string \<times> pystr" where
  "block_view (ThinkingBlock i ds) = (''thinking'', concat ds)"
| "block_view (TextBlock i ds) = (''text'', concat ds)"
| "block_view (ToolBlock i tool_id name inp ds) = (''tool_call'', or_else name (u ''tool''))"

fun plain_block :: "cli_block \<Rightarrow> bool" where
  "plain_block (ThinkingBlock i ds) = (0 \<le> i)"
| "plain_block (TextBlock i ds) = (0 \<le> i)"
| "plain_block (ToolBlock i tool_id name inp ds) = (0 \<le> i \<and> name \<noteq> u ''Task'')"

lemmas event_eval = event_of_def start_event_def delta_event_def stop_event_def parse_cli_event_def message_object_def
  message_events_def delta_events_def start_events_def event_index_def Let_def

lemma parse_stream_events:
  "parse_cli_event repr (start_event i (event_of ''thinking'' [(''thinking'', JStr [])])) = [event_of ''thinking_start'' [(''index'', JInt i)]]"
  "parse_cli_event repr (start_event i (event_of ''text'' [(''text'', JStr [])])) = [event_of ''text_start'' [(''index'', JInt i)]]"
  "parse_cli_event repr (start_event i (event_of ''tool_use'' [(''id'', JStr tool_id), (''name'', JStr name), (''input'', inp)])) =
     [event_of ''tool_use_start'' [(''index'', JInt i), (''id'', JStr (str_strip tool_id)), (''name'', JStr name), (''input'', inp)]]"
  "parse_cli_event repr (delta_event i ''thinking_delta'' ''thinking'' s) = [event_of ''thinking_delta'' [(''index'', JInt i), (''text'', JStr s)]]"
  "parse_cli_event repr (delta_event i ''text_delta'' ''text'' s) = [event_of ''text_delta'' [(''index'', JInt i), (''text'', JStr s)]]"
  "parse_cli_event repr (delta_event i ''input_json_delta'' ''partial_json'' s) = [event_of ''tool_use_delta'' [(''index'', JInt i), (''partial_json'', JStr s)]]"
  "parse_cli_event repr (stop_event i) = [event_of ''block_stop'' [(''index'', JInt i)]]"
  by (simp_all add: event_eval get_str_def str_or_def py_str_def)

lemma apply_stream_events:
  assumes "subagent_stack t = []"
  shows "apply_event env (event_of ''thinking_start'' [(''index'', JInt i)]) t = Inr (snd (thinking_at i (stop_previous i t)))"
  "apply_event env (event_of ''text_start'' [(''index'', JInt i)]) t = Inr (snd (text_at i (stop_previous i t)))"
  "apply_event env (event_of ''thinking_delta'' [(''index'', JInt i), (''text'', JStr s)]) t = Inr (thinking_delta i s t)"
  "apply_event env (event_of ''text_delta'' [(''index'', JInt i), (''text'', JStr s)]) t = Inr (text_delta i s t)"
  "apply_event env (event_of ''tool_use_delta'' [(''index'', JInt i), (''partial_json'', JStr s)]) t = Inr t"
  "apply_event env (event_of ''block_stop'' [(''index'', JInt i)]) t = Inr (block_stop i t)"
  using assms
  by (simp_all add: apply_event_def in_subagent_def has_type_def with_index_def event_of_def event_index_def int_of_def event_text_def py_str_def)

lemma view_close [simp]: "view (close_tool seg) = view seg"
  by (simp add: close_tool_def split: segment.split)

lemma views_same:
  assumes "\<And>seg. view (f seg) = view seg"
  shows "views (on_object a f t) = views t"
proof -
  have "view ((tr_heap t)[a := f (tr_heap t ! a)] ! b) = view (tr_heap t ! b)" for b
    by (cases "a = b"; cases "a < length (tr_heap t)") (auto simp: assms list_update_beyond)
  then show ?thesis by (simp add: views_def on_object_def)
qed

lemma views_stops [simp]:
  "views (tool_use_stop i t) = views t" "views (thinking_stop i t) = views t" "views (text_stop i t) = views t"
  "views (block_stop i t) = views t" "views (stop_previous i t) = views t"
proof -
  show tool: "views (tool_use_stop i t) = views t"
    by (simp add: tool_use_stop_def Let_def views_same split: option.split) (simp add: views_def)
  show thinking: "views (thinking_stop i t) = views t" and words: "views (text_stop i t) = views t"
    by (simp_all add: views_def thinking_stop_def text_stop_def)
  show block: "views (block_stop i t) = views t" by (simp add: block_stop_def tool thinking words)
  show "views (stop_previous i t) = views t" by (simp add: stop_previous_def block)
qed

lemma stack_on_object [simp]: "subagent_stack (on_object a f t) = subagent_stack t"
  by (simp add: on_object_def)

lemma stack_stops [simp]: "subagent_stack (block_stop i t) = subagent_stack t" "subagent_stack (stop_previous i t) = subagent_stack t"
  by (auto simp: stop_previous_def block_stop_def tool_use_stop_def thinking_stop_def text_stop_def Let_def split: option.split)

lemma add_segment_view:
  assumes "transcript_ok t"
  shows "views (snd (add_segment seg t)) = views t @ [view seg]" "subagent_stack (snd (add_segment seg t)) = subagent_stack t"
    "tr_segments (snd (add_segment seg t)) = tr_segments t @ [fst (add_segment seg t)]"
  using assms by (auto simp: views_def add_segment_def new_object_def transcript_ok_def nth_append)

text \<open>An open block is the last segment.\<close>

definition last_open :: "(int, nat) dict \<Rightarrow> int \<Rightarrow> transcript \<Rightarrow> bool" where
  "last_open d i t \<longleftrightarrow> (\<exists>a as. tr_segments t = as @ [a] \<and> dict_get d i = Some a)"

lemma views_last:
  assumes "transcript_ok t" "tr_segments t = as @ [a]"
  shows "views (on_object a f t) = butlast (views t) @ [view (f (tr_heap t ! a))]"
  using assms by (auto simp: views_def on_object_def transcript_ok_def butlast_append nth_list_update)

lemma started:
  assumes "transcript_ok t" "subagent_stack t = []" "0 \<le> i"
  shows "views (snd (thinking_at i t)) = views t @ [(''thinking'', [])]" "subagent_stack (snd (thinking_at i t)) = []"
    "last_open (open_thinking_by_index (snd (thinking_at i t))) i (snd (thinking_at i t))"
    "views (snd (text_at i t)) = views t @ [(''text'', [])]" "subagent_stack (snd (text_at i t)) = []"
    "last_open (open_text_by_index (snd (text_at i t))) i (snd (text_at i t))"
  using add_segment_view [OF assms(1)] assms(2,3)
  by (auto simp: thinking_at_def text_at_def last_open_def case_prod_beta dict_simps views_def)

lemma thinking_delta_view:
  assumes "transcript_ok t" "last_open (open_thinking_by_index t) i t" "views t = v @ [(''thinking'', c)]"
  shows "views (thinking_delta i s t) = v @ [(''thinking'', c @ s)]" "subagent_stack (thinking_delta i s t) = subagent_stack t"
    "last_open (open_thinking_by_index (thinking_delta i s t)) i (thinking_delta i s t)"
proof -
  obtain a as where a: "tr_segments t = as @ [a]" "dict_get (open_thinking_by_index t) i = Some a"
    using assms(2) by (auto simp: last_open_def)
  have delta: "thinking_delta i s t = on_object a (append_part s) t" by (simp add: thinking_delta_def append_to_def a)
  have "segment_kind (tr_heap t ! a) = ''thinking''"
    using assms(1) a(2) unfolding transcript_ok_def table_ok_def refers_def by blast
  then obtain ps where ps: "tr_heap t ! a = ThinkingSegment ps" by (cases "tr_heap t ! a") simp_all
  have "concat ps = c" using assms(3) a ps by (simp add: views_def)
  then show "views (thinking_delta i s t) = v @ [(''thinking'', c @ s)]"
    unfolding delta views_last [OF assms(1) a(1)] by (simp add: assms(3) ps append_part_def)
  show "subagent_stack (thinking_delta i s t) = subagent_stack t" "last_open (open_thinking_by_index (thinking_delta i s t)) i (thinking_delta i s t)"
    using assms(2) by (simp_all add: delta last_open_def on_object_def)
qed

lemma text_delta_view:
  assumes "transcript_ok t" "last_open (open_text_by_index t) i t" "views t = v @ [(''text'', c)]"
  shows "views (text_delta i s t) = v @ [(''text'', c @ s)]" "subagent_stack (text_delta i s t) = subagent_stack t"
    "last_open (open_text_by_index (text_delta i s t)) i (text_delta i s t)"
proof -
  obtain a as where a: "tr_segments t = as @ [a]" "dict_get (open_text_by_index t) i = Some a"
    using assms(2) by (auto simp: last_open_def)
  have delta: "text_delta i s t = on_object a (append_part s) t" by (simp add: text_delta_def append_to_def a)
  have "segment_kind (tr_heap t ! a) = ''text''"
    using assms(1) a(2) unfolding transcript_ok_def table_ok_def refers_def by blast
  then obtain ps where ps: "tr_heap t ! a = TextSegment ps" by (cases "tr_heap t ! a") simp_all
  have "concat ps = c" using assms(3) a ps by (simp add: views_def)
  then show "views (text_delta i s t) = v @ [(''text'', c @ s)]"
    unfolding delta views_last [OF assms(1) a(1)] by (simp add: assms(3) ps append_part_def)
  show "subagent_stack (text_delta i s t) = subagent_stack t" "last_open (open_text_by_index (text_delta i s t)) i (text_delta i s t)"
    using assms(2) by (simp_all add: delta last_open_def on_object_def)
qed

text \<open>Running events that all succeed: the transcript after them.\<close>

definition shows_after :: "transcript_env \<Rightarrow> json list \<Rightarrow> transcript \<Rightarrow> (string \<times> pystr) list \<Rightarrow> bool" where
  "shows_after env evs t v \<longleftrightarrow>
     (\<exists>t'. apply_events env evs t = Inr t' \<and> transcript_ok t' \<and> subagent_stack t' = [] \<and> views t' = v)"

lemma shows_step:
  "apply_event env ev t = Inr t1 \<Longrightarrow> shows_after env evs t1 v \<Longrightarrow> shows_after env (ev # evs) t v"
  by (simp add: shows_after_def)

lemma shows_append:
  "shows_after env xs t v \<Longrightarrow>
    (\<And>t1. transcript_ok t1 \<Longrightarrow> subagent_stack t1 = [] \<Longrightarrow> views t1 = v \<Longrightarrow> shows_after env ys t1 w) \<Longrightarrow>
    shows_after env (xs @ ys) t w"
proof -
  have split: "apply_events env (xs @ ys) t = and_then (apply_events env xs t) (apply_events env ys)" for t
    by (induction xs arbitrary: t) (auto simp: and_then_def split: sum.split)
  show ?thesis if "shows_after env xs t v"
      "\<And>t1. transcript_ok t1 \<Longrightarrow> subagent_stack t1 = [] \<Longrightarrow> views t1 = v \<Longrightarrow> shows_after env ys t1 w"
    using that by (auto simp: shows_after_def split)
qed

lemma shows_thinking_deltas:
  assumes "transcript_ok t" "subagent_stack t = []" "last_open (open_thinking_by_index t) i t" "views t = v @ [(''thinking'', c)]"
  shows "shows_after env (map (\<lambda>s. event_of ''thinking_delta'' [(''index'', JInt i), (''text'', JStr s)]) ds @
      [event_of ''block_stop'' [(''index'', JInt i)]]) t (v @ [(''thinking'', c @ concat ds)])"
  using assms
proof (induction ds arbitrary: t c)
  case Nil
  then show ?case by (simp add: shows_after_def apply_stream_events ok_stops)
next
  case (Cons s ds)
  note d = thinking_delta_view [OF Cons.prems(1,3,4), of s]
  show ?case
    using Cons.IH [OF ok_deltas(3) [OF Cons.prems(1)] _ d(3) d(1)] Cons.prems(2) d(2)
    by (simp add: shows_step [OF apply_stream_events(3) [OF Cons.prems(2)]])
qed

lemma shows_text_deltas:
  assumes "transcript_ok t" "subagent_stack t = []" "last_open (open_text_by_index t) i t" "views t = v @ [(''text'', c)]"
  shows "shows_after env (map (\<lambda>s. event_of ''text_delta'' [(''index'', JInt i), (''text'', JStr s)]) ds @
      [event_of ''block_stop'' [(''index'', JInt i)]]) t (v @ [(''text'', c @ concat ds)])"
  using assms
proof (induction ds arbitrary: t c)
  case Nil
  then show ?case by (simp add: shows_after_def apply_stream_events ok_stops)
next
  case (Cons s ds)
  note d = text_delta_view [OF Cons.prems(1,3,4), of s]
  show ?case
    using Cons.IH [OF ok_deltas(4) [OF Cons.prems(1)] _ d(3) d(1)] Cons.prems(2) d(2)
    by (simp add: shows_step [OF apply_stream_events(4) [OF Cons.prems(2)]])
qed

lemma shows_tool_deltas:
  assumes "transcript_ok t" "subagent_stack t = []"
  shows "shows_after env (map (\<lambda>s. event_of ''tool_use_delta'' [(''index'', JInt i), (''partial_json'', JStr s)]) ds @
      [event_of ''block_stop'' [(''index'', JInt i)]]) t (views t)"
proof (induction ds)
  case Nil
  then show ?case using assms by (simp add: shows_after_def apply_stream_events ok_stops)
next
  case (Cons s ds)
  then show ?case by (simp add: shows_step [OF apply_stream_events(5) [OF assms(2)]])
qed

lemma tool_started:
  assumes "transcript_ok t" "subagent_stack t = []" "name \<noteq> u ''Task''"
  obtains t1 where
    "apply_event env (event_of ''tool_use_start'' [(''index'', JInt i), (''id'', JStr tool_id), (''name'', JStr name), (''input'', inp)]) t = Inr t1"
    "subagent_stack t1 = []" "views t1 = views t @ [(''tool_call'', or_else name (u ''tool''))]"
proof -
  define ev where "ev = event_of ''tool_use_start'' [(''index'', JInt i), (''id'', JStr tool_id), (''name'', JStr name), (''input'', inp)]"
  define t0 where "t0 = stop_previous i t"
  have ok: "transcript_ok t0" "subagent_stack t0 = []" "views t0 = views t" using assms by (simp_all add: t0_def ok_stops)
  have name: "str_or repr (u ''tool'') (jget (u ''name'') ev) = or_else name (u ''tool'')" for repr
    by (simp add: ev_def event_of_def str_or_def or_else_def py_str_def)
  have other: "or_else name (u ''tool'') \<noteq> u ''Task''" using assms(3) by (simp add: or_else_def)
  define tid where "tid = str_strip (get_str (te_repr env) ''id'' ev)"
  define nm where "nm = (if tid \<noteq> [] then dict_set tid (or_else name (u ''tool'')) (tool_name_by_id t0) else tool_name_by_id t0)"
  have call: "tool_call (te_repr env) ev t0 = map_prod Some id
      (add_segment (tool_call_segment tid (or_else name (u ''tool'')) 0) (t0\<lparr>tool_name_by_id := nm\<rparr>))"
    using ok(2) other by (cases "tid = []") (simp_all add: tool_call_def name Let_def in_subagent_def nm_def flip: tid_def)
  define seg where "seg = tool_call_segment tid (or_else name (u ''tool'')) 0"
  define t1 where "t1 = snd (add_segment seg (t0\<lparr>tool_name_by_id := nm\<rparr>))"
  define t2 where "t2 = (if 0 \<le> i then t1\<lparr>open_tools_by_index := dict_set i (fst (add_segment seg (t0\<lparr>tool_name_by_id := nm\<rparr>))) (open_tools_by_index t1)\<rparr> else t1)"
  have "transcript_ok (t0\<lparr>tool_name_by_id := nm\<rparr>)" using ok(1) by (simp add: transcript_ok_def)
  note added = add_segment_view [OF this, of seg, folded t1_def]
  have "apply_event env ev t = Inr t2"
  proof -
    have "apply_event env ev t = Inr (case tool_call (te_repr env) ev t0 of
          (None, t1) \<Rightarrow> t1 | (Some a, t1) \<Rightarrow> if 0 \<le> i then t1\<lparr>open_tools_by_index := dict_set i a (open_tools_by_index t1)\<rparr> else t1)"
      using assms(2) by (simp add: apply_event_def in_subagent_def has_type_def with_index_def ev_def event_of_def event_index_def int_of_def t0_def)
    then show ?thesis by (simp add: call t2_def t1_def seg_def case_prod_beta)
  qed
  moreover have "views t2 = views t1" by (simp add: t2_def views_def)
  moreover have "views t1 = views t @ [(''tool_call'', or_else name (u ''tool''))]"
    using added(1) ok(3) by (simp add: seg_def tool_call_segment_def or_else_def views_def)
  moreover have "subagent_stack t2 = []" using added(2) ok(2) by (simp add: t2_def)
  ultimately show ?thesis using that by (simp add: ev_def)
qed

lemma shows_block:
  assumes "transcript_ok t" "subagent_stack t = []" "plain_block b"
  shows "shows_after env (concat (map (parse_cli_event repr) (block_events b))) t (views t @ [block_view b])"
proof (cases b)
  case (ThinkingBlock i ds)
  let ?t0 = "stop_previous i t"
  have "transcript_ok ?t0" "subagent_stack ?t0 = []" "0 \<le> i" using assms ThinkingBlock by (simp_all add: ok_stops)
  from shows_thinking_deltas [OF ok_deltas(1) [OF this(1)] started(2) [OF this] started(3) [OF this] started(1) [OF this]]
  show ?thesis
    by (simp add: ThinkingBlock parse_stream_events comp_def shows_step [OF apply_stream_events(1) [OF assms(2)]])
next
  case (TextBlock i ds)
  let ?t0 = "stop_previous i t"
  have "transcript_ok ?t0" "subagent_stack ?t0 = []" "0 \<le> i" using assms TextBlock by (simp_all add: ok_stops)
  from shows_text_deltas [OF ok_deltas(2) [OF this(1)] started(5) [OF this] started(6) [OF this] started(4) [OF this]]
  show ?thesis
    by (simp add: TextBlock parse_stream_events comp_def shows_step [OF apply_stream_events(2) [OF assms(2)]])
next
  case (ToolBlock i tool_id name inp ds)
  have other: "name \<noteq> u ''Task''" using assms(3) ToolBlock by simp
  obtain t1 where t1: "apply_event env (event_of ''tool_use_start'' [(''index'', JInt i), (''id'', JStr (str_strip tool_id)), (''name'', JStr name), (''input'', inp)]) t = Inr t1"
    "subagent_stack t1 = []" "views t1 = views t @ [(''tool_call'', or_else name (u ''tool''))]"
    by (rule tool_started [OF assms(1,2) other]) (rule that)
  have "transcript_ok t1" using assms(1) t1(1) by (rule transcript_ok_step)
  from shows_tool_deltas [OF this t1(2), of env i ds] show ?thesis
    by (simp add: ToolBlock parse_stream_events comp_def t1(3) shows_step [OF t1(1)])
qed

text \<open>C18 (functional): outside subagents, the events of the content blocks that the client streams, read by
  \<open>parse_cli_event\<close> and applied in order, add exactly one segment per block in the order of the blocks, with
  the whole of its text or the name of its tool.\<close>

theorem streamed_blocks_shown:
  assumes "transcript_ok t" "subagent_stack t = []" "list_all plain_block bs"
  shows "\<exists>t'. apply_events env (concat (map (parse_cli_event repr) (concat (map block_events bs)))) t = Inr t'
    \<and> transcript_ok t' \<and> views t' = views t @ map block_view bs"
proof -
  have "shows_after env (concat (map (parse_cli_event repr) (concat (map block_events bs)))) t (views t @ map block_view bs)"
    using assms
  proof (induction bs arbitrary: t)
    case (Cons b bs)
    have sb: "shows_after env (concat (map (parse_cli_event repr) (block_events b))) t (views t @ [block_view b])"
      by (rule shows_block) (use Cons.prems in simp_all)
    have "shows_after env (concat (map (parse_cli_event repr) (block_events b)) @
        concat (map (parse_cli_event repr) (concat (map block_events bs)))) t (views t @ block_view b # map block_view bs)"
    proof (rule shows_append [OF sb])
      fix t1 assume t1: "transcript_ok t1" "subagent_stack t1 = []" "views t1 = views t @ [block_view b]"
      show "shows_after env (concat (map (parse_cli_event repr) (concat (map block_events bs)))) t1 (views t @ block_view b # map block_view bs)"
        using Cons.IH [OF t1(1,2)] Cons.prems(3) by (simp add: t1(3))
    qed
    then show ?case by simp
  qed (simp add: shows_after_def)
  then show ?thesis by (auto simp: shows_after_def)
qed

lemma ok_empty: "transcript_ok (TranscriptBuffer b)"
  by (simp add: transcript_ok_def TranscriptBuffer_def table_ok_def)

section \<open>Subagents end with their results\<close>

lemma last_index_Some: "last_index f n = Some i \<Longrightarrow> i < n \<and> f i \<and> (\<forall>j. i < j \<and> j < n \<longrightarrow> \<not> f j)"
  by (induction n) (auto split: if_splits simp: less_Suc_eq)

lemma pop_to_stack: "n \<le> length (subagent_stack t) \<Longrightarrow> subagent_stack (pop_to n t) = take n (subagent_stack t)"
proof (induction n t rule: pop_to.induct)
  case (1 n t)
  show ?case
  proof (cases "n < length (subagent_stack t)")
    case True
    then have "subagent_stack (pop_to n (subagent_pop1 t)) = take n (subagent_stack (subagent_pop1 t))"
      using 1 by (simp add: subagent_pop1_def)
    then show ?thesis using True by (subst pop_to.simps) (simp add: subagent_pop1_def take_butlast)
  next
    case False
    then show ?thesis using "1.prems" by (subst pop_to.simps) simp
  qed
qed

text \<open>A result closes the innermost subagent whose id it carries, with all subagents inside it, and no other.\<close>

lemma subagent_pop_innermost:
  assumes "subagent_stack t = outer @ i # inner" "ids_roughly_match i (str_strip rid)"
    and "list_all (\<lambda>j. \<not> ids_roughly_match j (str_strip rid)) inner"
  shows "subagent_stack (snd (subagent_pop rid t)) = outer"
proof -
  let ?f = "\<lambda>k. ids_roughly_match (subagent_stack t ! k) (str_strip rid)"
  have rid: "str_strip rid \<noteq> []" using assms(2) by (simp add: ids_roughly_match_def)
  show ?thesis
  proof (cases "inner = []")
    case True
    then show ?thesis using assms rid by (simp add: subagent_pop_def Let_def subagent_pop1_def)
  next
    case False
    then have top: "\<not> ids_roughly_match (last (subagent_stack t)) (str_strip rid)"
      using assms(1,3) by (simp add: list_all_iff)
    have f: "?f (length outer)" using assms(1,2) by simp
    have "\<not> ?f k" if "length outer < k" "k < length (subagent_stack t)" for k
      using that assms(1,3) by (simp add: nth_append nth_Cons' list_all_length)
    moreover obtain k where k: "last_index ?f (length (subagent_stack t)) = Some k"
    proof (cases "last_index ?f (length (subagent_stack t))")
      case None
      have "last_index f n = None \<Longrightarrow> k < n \<Longrightarrow> \<not> f k" for f n and k :: nat
        by (induction n) (auto split: if_splits simp: less_Suc_eq)
      from this [OF None, of "length outer"] f show ?thesis using assms(1) by simp
    qed blast
    ultimately have "k = length outer" using last_index_Some [OF k] f assms(1) by (metis length_append less_add_same_cancel1 linorder_neqE_nat list.size(4) zero_less_Suc add_gr_0 zero_less_one)
    then show ?thesis using k top rid assms(1) pop_to_stack [of "length outer" t] by (simp add: subagent_pop_def Let_def)
  qed
qed

text \<open>
  The ids are only compared up to a prefix: the result of a tool used inside the subagent \<open>call_10\<close> closes that
  subagent when the tool's id is \<open>call_1\<close>, and what the subagent says next is shown as the main agent's text.
\<close>

definition sample_env :: transcript_env where
  "sample_env = \<lparr>te_lower = id, te_repr = (\<lambda>_. []), te_int = (\<lambda>_. Inl ValueError)\<rparr>"

definition prefix_run :: "json list" where
  "prefix_run =
     [event_of ''tool_use'' [(''id'', JStr (u ''call_10'')), (''name'', JStr (u ''Task'')), (''input'', JObj [])],
      event_of ''tool_use'' [(''id'', JStr (u ''call_1'')), (''name'', JStr (u ''Read'')), (''input'', JObj [])],
      event_of ''tool_result'' [(''tool_use_id'', JStr (u ''call_1'')), (''content'', JStr (u ''data''))],
      event_of ''text_chunk'' [(''text'', JStr (u ''inner''))]]"

lemma prefix_id_closes_subagent:
  "map_sum id (\<lambda>t. (subagent_stack t, views t)) (apply_events sample_env prefix_run (TranscriptBuffer False)) =
     Inr ([], [(''subagent'', u ''Subagent''), (''text'', u ''inner'')])"
  by code_simp

section \<open>Concrete transcripts\<close>

definition plain_ctx :: render_ctx where
  "plain_ctx = \<lparr>bold = Inr, code_inline = Inr, escape_code = Inr, escape_text = Inr, render_markdown = Inr,
     thinking_tail_max = Some 1000, tool_output_tail_max = Some 1600, text_tail_max = Some 2000\<rparr>"

definition two_texts :: transcript where
  "two_texts = (TranscriptBuffer True)\<lparr>tr_heap := [TextSegment [replicate 30 97], TextSegment [replicate 30 98]], tr_segments := [0, 1]\<rparr>"

lemma two_texts_rendered: "rendered_segments plain_ctx two_texts = [replicate 30 97, replicate 30 98]"
  by code_simp

theorem transcript_bounded_witness:
  "map_sum id (\<lambda>out. length out) (render_transcript plain_ctx two_texts 55 (Some (u ''ok''))) = Inr (50 :: nat) \<and> (50 :: int) \<le> 55"
proof -
  define out where "out = truncated_marker @ replicate 30 98 @ [10, 10] @ u ''ok''"
  have r: "render_transcript plain_ctx two_texts 55 (Some (u ''ok'')) = Inr out" unfolding out_def by code_simp
  have "length out = 50" unfolding out_def by code_simp
  moreover have "out \<noteq> u ''ok''" unfolding out_def by code_simp
  ultimately show ?thesis using transcript_bounded [OF r] by (simp add: r)
qed

theorem transcript_keeps_longest_tail_witness:
  "render_transcript plain_ctx two_texts 55 (Some (u ''ok'')) = Inr (truncated_marker @ replicate 30 98 @ [10, 10] @ u ''ok'')"
proof -
  have "render_transcript plain_ctx two_texts 55 (Some (u ''ok'')) =
    Inr (truncated_marker @ str_join [10] (drop 1 (rendered_segments plain_ctx two_texts)) @ [10, 10] @ u ''ok'')"
  proof (rule transcript_keeps_longest_tail)
    show "escape_text plain_ctx truncated_marker = Inr truncated_marker" by (simp add: plain_ctx_def)
  next
    fix j :: nat assume "j < 1"
    then show "55 < int (length (join_parts truncated_marker ([10, 10] @ u ''ok'') (drop j (rendered_segments plain_ctx two_texts)) True))"
      by (simp add: two_texts_rendered join_parts_def truncated_marker_def Let_def)
  qed (simp_all add: two_texts_rendered join_parts_def truncated_marker_def Let_def)
  then show ?thesis by (simp add: two_texts_rendered)
qed

theorem transcript_consistent_witness:
  "transcript_ok ((TranscriptBuffer True)\<lparr>tr_heap := [TextSegment [u ''hi'']], tr_segments := [0]\<rparr>)"
proof -
  have "apply_events sample_env [event_of ''text_chunk'' [(''text'', JStr (u ''hi''))]] (TranscriptBuffer True) =
      Inr ((TranscriptBuffer True)\<lparr>tr_heap := [TextSegment [u ''hi'']], tr_segments := [0]\<rparr>)"
    by code_simp
  from transcript_consistent [OF ok_empty this] show ?thesis .
qed

theorem streamed_blocks_shown_witness:
  "\<exists>t'. apply_events sample_env (concat (map (parse_cli_event (\<lambda>_. []))
      (concat (map block_events [ThinkingBlock 0 [u ''why''], TextBlock 1 [u ''a'', u ''b''], ToolBlock 2 (u ''t1'') (u ''Read'') (JObj []) []]))))
      (TranscriptBuffer True) = Inr t'
    \<and> transcript_ok t' \<and> views t' = [(''thinking'', u ''why''), (''text'', u ''ab''), (''tool_call'', u ''Read'')]"
  using streamed_blocks_shown [OF ok_empty [of True], of "[ThinkingBlock 0 [u ''why''], TextBlock 1 [u ''a'', u ''b''], ToolBlock 2 (u ''t1'') (u ''Read'') (JObj []) []]"
      sample_env "\<lambda>_. []"]
  by (simp add: TranscriptBuffer_def views_def or_else_def u_def)

end
