(* ===== verification/MessageService.thy ===== *)
theory MessageService
  imports CircuitBreaker KeyPool RequestQueue Retry Blackout PyJson "HOL-Library.Multiset"
begin

text \<open>
  The service behind the messages route (\<open>api/services.py\<close>): the candidates for a request, the check which of them
  may be used, the attempts with retries and the fallback from one to the next, the race of two
  streams and the multiplexer of one stream to several readers.  It puts the circuit breaker, the key
  pool, the request queue, the back-off, the watchdog and the blackout windows together.
\<close>

section \<open>Candidates\<close>

type_synonym candidate = "pystr \<times> pystr \<times> bool"

definition IndexError :: py_exn where
  "IndexError = OtherException (u ''IndexError'')"

text \<open>\<open>Settings.parse_provider_type\<close> and \<open>parse_model_name\<close> (\<open>config/settings.py\<close>).\<close>

definition parse_provider_type :: "pystr \<Rightarrow> pystr" where
  "parse_provider_type s = fst (str_partition [47] s)"

definition parse_model_name :: "pystr \<Rightarrow> py_exn + pystr" where
  "parse_model_name s = (case str_partition [47] s of (_, found, model_name) \<Rightarrow> if found then Inr model_name else Inl IndexError)"

definition fallback_models :: "pystr \<Rightarrow> pystr \<Rightarrow> pystr list" where
  "fallback_models fallback_chain fallback_model =
     (if fallback_chain \<noteq> [] then filter (\<lambda>m. m \<noteq> []) (map str_strip (str_split 44 fallback_chain))
      else if fallback_model \<noteq> [] then [str_strip fallback_model] else [])"

fun fallback_candidates :: "pystr list \<Rightarrow> py_exn + candidate list" where
  "fallback_candidates [] = Inr []"
| "fallback_candidates (fb # fbs) =
     and_then (parse_model_name fb) (\<lambda>model_name.
     and_then (fallback_candidates fbs) (\<lambda>rest.
       Inr (if parse_provider_type fb \<noteq> [] \<and> model_name \<noteq> [] then (parse_provider_type fb, model_name, False) # rest else rest)))"

text \<open>The weights: \<open>parse_float\<close> is \<open>float()\<close>, \<open>lower\<close> is \<open>str.lower\<close>.\<close>

fun parse_weights :: "(pystr \<Rightarrow> rat option) \<Rightarrow> (pystr \<Rightarrow> pystr) \<Rightarrow> pystr list \<Rightarrow> (pystr, rat) dict \<Rightarrow> (pystr, rat) dict" where
  "parse_weights parse_float lower [] weights = weights"
| "parse_weights parse_float lower (part # parts) weights =
     parse_weights parse_float lower parts
       (case str_partition [58] part of
          (k, found, v) \<Rightarrow>
            if found then
              (case parse_float (str_strip v) of
                 Some w \<Rightarrow> dict_set (lower (str_strip k)) w weights
               | None \<Rightarrow> weights)
            else weights)"

text \<open>\<open>pow\<close> is the power of floats, \<open>draw i\<close> the random number drawn for the i-th candidate.\<close>

definition apply_load_balancing ::
    "(pystr \<Rightarrow> rat option) \<Rightarrow> (pystr \<Rightarrow> pystr) \<Rightarrow> (rat \<Rightarrow> rat \<Rightarrow> rat) \<Rightarrow> (nat \<Rightarrow> rat) \<Rightarrow> pystr \<Rightarrow> candidate list \<Rightarrow> candidate list" where
  "apply_load_balancing parse_float lower pow draw weights_str candidates =
     (let weights = parse_weights parse_float lower (str_split 44 weights_str) [] in
      if weights_str = [] \<or> weights = [] then candidates
      else map snd (sort_key (\<lambda>x. - fst x)
             (map (\<lambda>(i, c). (pow (draw i) (1 / max (dict_get_default weights (lower (fst c)) 1) (1 / 10000)), c))
               (enumerate 0 candidates))))"

section \<open>The state and what surrounds it\<close>

record provider_call =
  cl_provider :: pystr
  cl_key :: "pystr option"
  cl_model :: pystr
  cl_thinking :: bool
  cl_attempt :: nat

text \<open>An entry of the analytics, without its latencies.\<close>

record request_log =
  lg_provider :: pystr
  lg_model :: pystr
  lg_input :: json
  lg_output :: json
  lg_status :: int
  lg_fallback :: bool

record executor =
  ex_breaker :: circuit_breaker
  ex_pool :: key_pool
  ex_queue :: request_queue
  ex_calls :: "provider_call list"
  ex_analytics :: "request_log list"
  ex_dead :: "(pystr \<times> json) list"
  ex_last_ok :: "pystr option"
  ex_sleeps :: "rat list"
  ex_reads :: nat

text \<open>
  The clocks, numbered by the readings made so far (\<open>se_clock\<close> is the time that passes beside the sleeps); what opening a stream gives, numbered by the calls
  made so far; the settings and the request.
\<close>

record service_env =
  se_clock :: "nat \<Rightarrow> rat"
  se_real :: "nat \<Rightarrow> rat"
  se_day :: "nat \<Rightarrow> day_time"
  se_draw :: "nat \<Rightarrow> rat"
  se_open :: "nat \<Rightarrow> provider_call \<Rightarrow> py_exn + pystr arrival list"
  se_status :: "py_exn \<Rightarrow> int option"
  se_windows :: pystr
  se_timeout :: rat
  se_input_tokens :: int
  se_primary :: pystr
  se_payload :: json

definition tick :: "executor \<Rightarrow> executor" where
  "tick s = s\<lparr>ex_reads := ex_reads s + 1\<rparr>"

definition sleep_for :: "rat \<Rightarrow> executor \<Rightarrow> executor" where
  "sleep_for d s = s\<lparr>ex_sleeps := ex_sleeps s @ [d]\<rparr>"

text \<open>\<open>time.monotonic()\<close>: the time slept is part of it.\<close>

definition now :: "service_env \<Rightarrow> executor \<Rightarrow> rat" where
  "now env s = se_clock env (ex_reads s) + sum_list (ex_sleeps s)"

section \<open>Eligible candidates\<close>

definition default_key :: pystr where
  "default_key = u ''default_key''"

type_synonym eligible = "pystr \<times> pystr \<times> pystr \<times> bool"

definition check_candidate :: "service_env \<Rightarrow> candidate \<Rightarrow> executor \<Rightarrow> eligible option \<times> executor" where
  "check_candidate env c s0 =
     (case c of (provider_id, model_name, thinking) \<Rightarrow>
        let s1 = tick s0 in
        if is_in_blackout provider_id (se_windows env) (se_day env (ex_reads s0)) then (None, s1)
        else
          let s2 = tick s1 in
          if get_state provider_id (now env s1) (ex_breaker s1) = OPEN then (None, s2)
          else if has_keys provider_id (ex_pool s2) then
            (case get_key provider_id (now env s2) (se_real env (ex_reads s2)) (ex_pool s2) of
               (api_key, pool) \<Rightarrow>
                 (case api_key of
                    Some k \<Rightarrow> if k \<noteq> [] then Some (provider_id, k, model_name, thinking) else None
                  | None \<Rightarrow> None,
                  (tick s2)\<lparr>ex_pool := pool\<rparr>))
          else (Some (provider_id, default_key, model_name, thinking), s2))"

text \<open>All candidates, and the candidates up to the first eligible one.\<close>

fun check_all :: "service_env \<Rightarrow> candidate list \<Rightarrow> executor \<Rightarrow> eligible list \<times> executor" where
  "check_all env [] s = ([], s)"
| "check_all env (c # cs) s =
     (case check_candidate env c s of (e, s1) \<Rightarrow>
      case check_all env cs s1 of (es, s2) \<Rightarrow> ((case e of Some x \<Rightarrow> x # es | None \<Rightarrow> es), s2))"

fun check_first :: "service_env \<Rightarrow> candidate list \<Rightarrow> executor \<Rightarrow> eligible list \<times> executor" where
  "check_first env [] s = ([], s)"
| "check_first env (c # cs) s =
     (case check_candidate env c s of
        (Some x, s1) \<Rightarrow> ([x], s1)
      | (None, s1) \<Rightarrow> check_first env cs s1)"

text \<open>The polling loop: every round sleeps half a second, and none starts 30 seconds after the first.\<close>

fun poll :: "service_env \<Rightarrow> rat \<Rightarrow> candidate list \<Rightarrow> nat \<Rightarrow> executor \<Rightarrow> eligible list \<times> executor" where
  "poll env start cs 0 s = ([], s)"
| "poll env start cs (Suc fuel) s =
     (let s1 = tick s in
      if now env s - start < 30 then
        (case check_all env cs s1 of
           (es, s2) \<Rightarrow> if es \<noteq> [] then (es, s2) else poll env start cs fuel (sleep_for (1 / 2) s2))
      else ([], s1))"

section \<open>Tokens reported by a stream\<close>

definition tokens_of_data :: "json \<Rightarrow> json \<times> json \<Rightarrow> json \<times> json" where
  "tokens_of_data data io =
     (case io of (input_tokens, output_tokens) \<Rightarrow>
        if jget (u ''type'') data = JStr (u ''message_start'') then
          (let msg = jget_default (u ''message'') (JObj []) data;
               usage = jget_default (u ''usage'') (JObj []) msg
           in if is_dict msg \<and> is_dict usage then (jget_default (u ''input_tokens'') (JInt 0) usage, output_tokens) else io)
        else if jget (u ''type'') data = JStr (u ''message_delta'') then
          (let usage = jget_default (u ''usage'') (JObj []) data
           in if is_dict usage then (input_tokens, jget_default (u ''output_tokens'') (JInt 0) usage) else io)
        else io)"

definition tokens_of_line :: "pystr \<Rightarrow> json \<times> json \<Rightarrow> json \<times> json" where
  "tokens_of_line line io =
     (if str_startswith line (u ''data:'') then
        (case json_loads (str_strip (drop 5 line)) of
           Some data \<Rightarrow> if is_dict data then tokens_of_data data io else io
         | None \<Rightarrow> io)
      else io)"

definition extract_tokens_from_chunk :: "pystr \<Rightarrow> json \<times> json" where
  "extract_tokens_from_chunk chunk = foldl (\<lambda>io line. tokens_of_line line io) (JInt 0, JInt 0) (str_splitlines chunk)"

text \<open>Over the chunks of an answer: the first gives the start values, later ones replace them when not zero.\<close>

definition stream_tokens :: "pystr list \<Rightarrow> json \<times> json" where
  "stream_tokens chunks =
     (case chunks of
        [] \<Rightarrow> (JInt 0, JInt 0)
      | first_chunk # rest \<Rightarrow>
          foldl (\<lambda>(i, out) chunk. case extract_tokens_from_chunk chunk of
                    (inp, o1) \<Rightarrow> (if truthy inp then inp else i, if truthy o1 then o1 else out))
            (extract_tokens_from_chunk first_chunk) rest)"

section \<open>Attempts\<close>

definition StopAsyncIteration :: py_exn where
  "StopAsyncIteration = OtherException (u ''StopAsyncIteration'')"

definition StreamingTimeoutError :: py_exn where
  "StreamingTimeoutError = OtherException (u ''StreamingTimeoutError'')"

definition CircuitBreakerOpenError :: py_exn where
  "CircuitBreakerOpenError = OtherException (u ''CircuitBreakerOpenError'')"

text \<open>An exception that leaves an async generator: \<open>StopAsyncIteration\<close> is replaced by a \<open>RuntimeError\<close>.\<close>

definition generator_error :: "py_exn \<Rightarrow> py_exn" where
  "generator_error e = (if e = StopAsyncIteration then OtherException (u ''RuntimeError'') else e)"

text \<open>One pass of the \<open>try\<close> block: the chunks sent on, and the exception if it ends with one.\<close>

definition attempt_error :: "pystr list \<Rightarrow> stream_end \<Rightarrow> py_exn option" where
  "attempt_error chunks ending =
     (case ending of
        Normal \<Rightarrow> if chunks = [] then Some StopAsyncIteration else None
      | Stalled_Connecting \<Rightarrow> Some StreamingTimeoutError
      | Stalled_Streaming \<Rightarrow> Some StreamingTimeoutError
      | Broke e \<Rightarrow> Some e)"

definition run_attempt :: "service_env \<Rightarrow> provider_call \<Rightarrow> nat \<Rightarrow> pystr list \<times> py_exn option" where
  "run_attempt env call n =
     (case se_open env n call of
        Inl e \<Rightarrow> ([], Some e)
      | Inr arrivals \<Rightarrow>
          (case watchdog_stream 15 (Some (se_timeout env)) arrivals of
             (chunks, ending) \<Rightarrow> (chunks, attempt_error chunks ending)))"

definition log_success :: "service_env \<Rightarrow> eligible \<Rightarrow> pystr list \<Rightarrow> executor \<Rightarrow> executor" where
  "log_success env el chunks s =
     (case (el, stream_tokens chunks) of ((provider_id, api_key, model_name, thinking), (i, out)) \<Rightarrow>
        s\<lparr>ex_analytics := ex_analytics s @
             [\<lparr>lg_provider = provider_id, lg_model = model_name,
               lg_input = (if truthy i then i else JInt (se_input_tokens env)),
               lg_output = (if truthy out then out else JInt 10), lg_status = 200,
               lg_fallback = (provider_id \<noteq> se_primary env)\<rparr>],
           ex_last_ok := Some provider_id\<rparr>)"

definition log_failure :: "service_env \<Rightarrow> eligible \<Rightarrow> py_exn \<Rightarrow> executor \<Rightarrow> executor" where
  "log_failure env el e s =
     (case el of (provider_id, api_key, model_name, thinking) \<Rightarrow>
        s\<lparr>ex_analytics := ex_analytics s @
             [\<lparr>lg_provider = provider_id, lg_model = model_name, lg_input = JInt (se_input_tokens env), lg_output = JInt 0,
               lg_status = (case se_status env e of Some c \<Rightarrow> c | None \<Rightarrow> 500), lg_fallback = (provider_id \<noteq> se_primary env)\<rparr>]\<rparr>)"

definition key_used :: "eligible \<Rightarrow> pystr list \<Rightarrow> executor \<Rightarrow> executor" where
  "key_used el chunks s =
     (case el of (provider_id, api_key, model_name, thinking) \<Rightarrow>
        if chunks \<noteq> [] \<and> api_key \<noteq> default_key then s\<lparr>ex_pool := report_success provider_id api_key (ex_pool s)\<rparr> else s)"

definition key_limited :: "service_env \<Rightarrow> eligible \<Rightarrow> py_exn \<Rightarrow> executor \<Rightarrow> executor" where
  "key_limited env el e s =
     (case el of (provider_id, api_key, model_name, thinking) \<Rightarrow>
        if (e = RateLimitError \<or> se_status env e = Some 429) \<and> api_key \<noteq> default_key then
          (tick s)\<lparr>ex_pool := report_429 provider_id api_key 60 (now env s) (ex_pool s)\<rparr>
        else s)"

definition call_of :: "eligible \<Rightarrow> nat \<Rightarrow> provider_call" where
  "call_of el attempt_no =
     (case el of (provider_id, api_key, model_name, thinking) \<Rightarrow>
        \<lparr>cl_provider = provider_id, cl_key = (if api_key = default_key then None else Some api_key), cl_model = model_name,
         cl_thinking = thinking, cl_attempt = attempt_no\<rparr>)"

definition max_retries :: nat where
  "max_retries = 3"

text \<open>\<open>attempt_provider\<close>, with \<open>n\<close> attempts made: the chunks sent on by all attempts, the exception raised if any.\<close>

function attempt_provider :: "service_env \<Rightarrow> eligible \<Rightarrow> nat \<Rightarrow> executor \<Rightarrow> pystr list \<times> py_exn option \<times> executor" where
  "attempt_provider env el n s =
     (let attempt_no = n + 1;
          call = call_of el attempt_no;
          result = run_attempt env call (length (ex_calls s));
          chunks = fst result;
          s1 = key_used el chunks (s\<lparr>ex_calls := ex_calls s @ [call]\<rparr>)
      in case snd result of
           None \<Rightarrow> (chunks, None, log_success env el chunks s1)
         | Some e \<Rightarrow>
             let s2 = key_limited env el e s1 in
             if attempt_no \<le> max_retries then
               let delay = calculate_delay (int attempt_no) (1 / 2) 10 2 True (se_draw env (length (ex_sleeps s2))) in
               (case attempt_provider env el attempt_no (sleep_for delay s2) of
                  (more_chunks, r, s3) \<Rightarrow> (chunks @ more_chunks, r, s3))
             else (chunks, Some (generator_error e), log_failure env el e s2))"
  by pat_completeness auto
termination
  by (relation "measure (\<lambda>(env, el, n, s). max_retries - n)") (auto simp: max_retries_def)

declare attempt_provider.simps [simp del]

section \<open>From one candidate to the next\<close>

text \<open>\<open>None\<close> when a candidate has answered, else the last exception.\<close>

fun run_candidates :: "service_env \<Rightarrow> eligible list \<Rightarrow> py_exn option \<Rightarrow> executor \<Rightarrow> pystr list \<times> py_exn option option \<times> executor" where
  "run_candidates env [] last_exc s = ([], Some last_exc, s)"
| "run_candidates env (el # els) last_exc s =
     (case guard_enter (fst el) (now env s) (ex_breaker s) of
        (Some remaining, b) \<Rightarrow> run_candidates env els (Some CircuitBreakerOpenError) ((tick s)\<lparr>ex_breaker := b\<rparr>)
      | (None, b) \<Rightarrow>
          (case attempt_provider env el 0 ((tick s)\<lparr>ex_breaker := b\<rparr>) of
             (chunks, r, s1) \<Rightarrow>
               let s2 = (tick s1)\<lparr>ex_breaker := guard_exit (fst el) (now env s1) r (ex_breaker s1)\<rparr> in
               (case r of
                  None \<Rightarrow> (chunks, None, s2)
                | Some e \<Rightarrow>
                    (case run_candidates env els (Some e) s2 of
                       (more_chunks, result, s3) \<Rightarrow> (chunks @ more_chunks, result, s3)))))"

definition dead_letter :: "service_env \<Rightarrow> executor \<Rightarrow> executor" where
  "dead_letter env s = s\<lparr>ex_dead := ex_dead s @ [(se_primary env, se_payload env)]\<rparr>"

text \<open>\<open>_race_streams\<close> on the chunks and the end of each stream; \<open>first_done\<close> when the first task is in \<open>done\<close>.\<close>

definition race_streams :: "bool \<Rightarrow> pystr list \<times> py_exn option \<Rightarrow> pystr list \<times> py_exn option \<Rightarrow> pystr list \<times> py_exn option" where
  "race_streams first_done stream1 stream2 =
     (case (if first_done then (stream1, stream2) else (stream2, stream1)) of (early, late) \<Rightarrow>
        if fst early \<noteq> [] then early
        else if fst late \<noteq> [] then late
        else ([], Some (generator_error (case snd late of Some e \<Rightarrow> e | None \<Rightarrow> StopAsyncIteration))))"

text \<open>The eligible candidates: \<open>raced\<close> is what the race of the first two gave, when racing is enabled.\<close>

definition execute_eligible ::
    "service_env \<Rightarrow> (pystr list \<times> py_exn option) option \<Rightarrow> eligible list \<Rightarrow> executor \<Rightarrow> pystr list \<times> py_exn option \<times> executor" where
  "execute_eligible env raced els s =
     (let sequential = (\<lambda>els. case run_candidates env els None s of
            (chunks, None, s1) \<Rightarrow> (chunks, None, s1)
          | (chunks, Some last_exc, s1) \<Rightarrow>
              (chunks, Some (case last_exc of Some e \<Rightarrow> generator_error e | None \<Rightarrow> RateLimitError), dead_letter env s1))
      in case (if 2 \<le> length els then raced else None) of
           None \<Rightarrow> sequential els
         | Some (chunks, None) \<Rightarrow> (chunks, None, s)
         | Some (chunks, Some race_exc) \<Rightarrow>
             (case sequential (drop 2 els) of (more_chunks, r, s1) \<Rightarrow> (chunks @ more_chunks, r, s1)))"

definition poll_rounds :: nat where
  "poll_rounds = 61"

text \<open>\<open>_execute_request_with_retry_and_fallback\<close> from the balanced candidates on.\<close>

definition execute_request ::
    "service_env \<Rightarrow> (pystr list \<times> py_exn option) option \<Rightarrow> candidate list \<Rightarrow> executor \<Rightarrow> pystr list \<times> py_exn option \<times> executor" where
  "execute_request env raced candidates s =
     (case poll env (now env s) candidates poll_rounds (tick s) of
        (els, s1) \<Rightarrow>
          if els \<noteq> [] then execute_eligible env raced els s1
          else
            let s2 = sleep_for 5 (s1\<lparr>ex_queue := snd (enqueue (se_primary env) (se_payload env) 1 (ex_queue s1))\<rparr>) in
            (case check_first env candidates s2 of
               (els2, s3) \<Rightarrow>
                 let s4 = s3\<lparr>ex_queue := snd (dequeue (se_primary env) (ex_queue s3))\<rparr> in
                 if els2 = [] then ([], Some RateLimitError, dead_letter env s4)
                 else execute_eligible env raced els2 s4))"

definition request_candidates :: "candidate \<Rightarrow> pystr \<Rightarrow> pystr \<Rightarrow> py_exn + candidate list" where
  "request_candidates primary fallback_chain fallback_model =
     and_then (fallback_candidates (fallback_models fallback_chain fallback_model)) (\<lambda>cs. Inr (primary # cs))"

section \<open>Whole answers\<close>

text \<open>Every attempt that fails does so before its first chunk.\<close>

definition fails_early :: "service_env \<Rightarrow> bool" where
  "fails_early env \<longleftrightarrow> (\<forall>call n chunks e. run_attempt env call n = (chunks, Some e) \<longrightarrow> chunks = [])"

definition answers :: "service_env \<Rightarrow> eligible \<Rightarrow> pystr list \<Rightarrow> bool" where
  "answers env el chunks \<longleftrightarrow> (\<exists>a n. 0 < a \<and> a \<le> max_retries + 1 \<and> run_attempt env (call_of el a) n = (chunks, None))"

lemma attempt_whole:
  "fails_early env \<Longrightarrow> attempt_provider env el n s = (chunks, r, s') \<Longrightarrow> n \<le> max_retries \<Longrightarrow>
     (r = None \<longrightarrow> answers env el chunks) \<and> (r \<noteq> None \<longrightarrow> chunks = [])"
proof (induction env el n s arbitrary: chunks r s' rule: attempt_provider.induct)
  case (1 env el n s)
  obtain cs o1 where run: "run_attempt env (call_of el (n + 1)) (length (ex_calls s)) = (cs, o1)" by fastforce
  show ?case
  proof (cases o1)
    case None
    then have "chunks = cs" "r = None" using 1(3) run by (simp_all add: attempt_provider.simps [of env el n s] Let_def)
    moreover have "answers env el cs" unfolding answers_def
      by (rule exI [of _ "n + 1"], rule exI [of _ "length (ex_calls s)"]) (use run None 1(4) in auto)
    ultimately show ?thesis by simp
  next
    case (Some e)
    then have cs: "cs = []" using 1(2) run unfolding fails_early_def by blast
    show ?thesis
    proof (cases "n + 1 \<le> max_retries")
      case True
      obtain more r1 s3 where rest: "attempt_provider env el (n + 1) (sleep_for (calculate_delay (int (n + 1)) (1 / 2) 10 2 True
          (se_draw env (length (ex_sleeps (key_limited env el e (key_used el cs (s\<lparr>ex_calls := ex_calls s @ [call_of el (n + 1)]\<rparr>)))))))
          (key_limited env el e (key_used el cs (s\<lparr>ex_calls := ex_calls s @ [call_of el (n + 1)]\<rparr>)))) = (more, r1, s3)"
        using prod_cases3 by blast
      have "chunks = more" "r = r1" using 1(3) run Some True cs rest by (simp_all add: attempt_provider.simps [of env el n s] Let_def)
      moreover have "(r1 = None \<longrightarrow> answers env el more) \<and> (r1 \<noteq> None \<longrightarrow> more = [])"
        by (rule 1(1) [OF refl refl refl refl refl _ refl _ refl 1(2)]) (use run Some True rest in simp_all)
      ultimately show ?thesis by simp
    next
      case False
      then show ?thesis using 1(3) run Some cs by (auto simp: attempt_provider.simps [of env el n s] Let_def)
    qed
  qed
qed

lemma candidates_whole:
  "fails_early env \<Longrightarrow> run_candidates env els last_exc s = (chunks, r, s') \<Longrightarrow>
     (r = None \<longrightarrow> (\<exists>el \<in> set els. answers env el chunks)) \<and> (r \<noteq> None \<longrightarrow> chunks = [])"
proof (induction env els last_exc s arbitrary: chunks r s' rule: run_candidates.induct)
  case (2 env el els last_exc s)
  show ?case
  proof (cases "guard_enter (fst el) (now env s) (ex_breaker s)")
    case (Pair remaining b)
    show ?thesis
    proof (cases remaining)
      case None
      obtain cs r1 s1 where att: "attempt_provider env el 0 ((tick s)\<lparr>ex_breaker := b\<rparr>) = (cs, r1, s1)" using prod_cases3 by blast
      note whole = attempt_whole [OF 2(3) att]
      define s2 where "s2 = (tick s1)\<lparr>ex_breaker := guard_exit (fst el) (now env s1) r1 (ex_breaker s1)\<rparr>"
      show ?thesis
      proof (cases r1)
        case None
        then show ?thesis using 2(4) whole Pair \<open>remaining = None\<close> att by (auto simp: Let_def)
      next
        case (Some e)
        obtain more r2 s3 where rest: "run_candidates env els (Some e) s2 = (more, r2, s3)" using prod_cases3 by blast
        have "chunks = more" "r = r2" using 2(4) whole Pair \<open>remaining = None\<close> att Some rest by (auto simp: Let_def s2_def)
        moreover have "(r2 = None \<longrightarrow> (\<exists>el \<in> set els. answers env el more)) \<and> (r2 \<noteq> None \<longrightarrow> more = [])"
          by (rule 2(1) [OF Pair [symmetric] None att [symmetric] refl s2_def Some 2(3) rest])
        ultimately show ?thesis by auto
      qed
    next
      case (Some x)
      then have "run_candidates env els (Some CircuitBreakerOpenError) ((tick s)\<lparr>ex_breaker := b\<rparr>) = (chunks, r, s')" using 2(4) Pair by simp
      from 2(2) [OF Pair [symmetric] Some 2(3) this] show ?thesis by auto
    qed
  qed
qed simp

definition covers :: "candidate list \<Rightarrow> eligible \<Rightarrow> bool" where
  "covers cs el \<longleftrightarrow> (case el of (provider_id, api_key, model_name, thinking) \<Rightarrow> (provider_id, model_name, thinking) \<in> set cs)"

lemma check_candidate_covers: "check_candidate env c s = (Some el, s') \<Longrightarrow> covers [c] el"
  by (auto simp: check_candidate_def covers_def Let_def split: prod.splits if_splits option.splits)

lemma check_all_covers: "check_all env cs s = (els, s') \<Longrightarrow> list_all (covers cs) els"
proof (induction cs arbitrary: s els s')
  case (Cons c cs)
  obtain e s1 es s2 where step: "check_candidate env c s = (e, s1)" "check_all env cs s1 = (es, s2)" by fastforce
  have "list_all (covers (c # cs)) es" using Cons.IH [OF step(2)] by (auto simp: list_all_iff covers_def)
  moreover have "\<And>x. e = Some x \<Longrightarrow> covers (c # cs) x" using check_candidate_covers step(1) by (fastforce simp: covers_def)
  ultimately show ?case using Cons.prems step by (auto split: option.splits)
qed simp

lemma check_first_covers: "check_first env cs s = (els, s') \<Longrightarrow> list_all (covers cs) els \<and> length els \<le> 1"
proof (induction cs arbitrary: s)
  case (Cons c cs)
  obtain e s1 where step: "check_candidate env c s = (e, s1)" by fastforce
  show ?case
  proof (cases e)
    case None
    then have "list_all (covers cs) els \<and> length els \<le> 1" using Cons step by simp
    then show ?thesis by (auto simp: list_all_iff covers_def)
  next
    case (Some x)
    then show ?thesis using Cons.prems step check_candidate_covers [of env c s x s1] by (auto simp: covers_def)
  qed
qed simp

lemma poll_covers: "poll env start cs fuel s = (els, s') \<Longrightarrow> list_all (covers cs) els"
  by (induction env start cs fuel s rule: poll.induct)
    (auto simp: Let_def dest: check_all_covers split: prod.splits if_splits)

lemma execute_eligible_whole:
  assumes "fails_early env" "execute_eligible env None els s = (chunks, r, s')"
  shows "(r = None \<longrightarrow> (\<exists>el \<in> set els. answers env el chunks)) \<and> (r \<noteq> None \<longrightarrow> chunks = [])"
  using assms candidates_whole [OF assms(1), of els None s]
  by (auto simp: execute_eligible_def split: prod.splits option.splits)


section \<open>Bounds\<close>

lemma key_steps [simp]:
  "ex_calls (key_used el cs s) = ex_calls s" "ex_calls (key_limited env el e s) = ex_calls s"
  "ex_calls (log_success env el cs s) = ex_calls s" "ex_calls (log_failure env el e s) = ex_calls s"
  "ex_calls (tick s) = ex_calls s" "ex_calls (sleep_for d s) = ex_calls s" "ex_calls (dead_letter env s) = ex_calls s"
  by (simp_all add: key_used_def key_limited_def log_success_def log_failure_def tick_def sleep_for_def dead_letter_def split: prod.split)

lemma attempt_calls:
  "attempt_provider env el n s = (chunks, r, s') \<Longrightarrow> n \<le> max_retries \<Longrightarrow>
     (\<exists>k. n < k \<and> k \<le> max_retries + 1 \<and> ex_calls s' = ex_calls s @ map (call_of el) [n + 1..<k + 1])"
proof (induction env el n s arbitrary: chunks r s' rule: attempt_provider.induct)
  case (1 env el n s)
  obtain cs o1 where run: "run_attempt env (call_of el (n + 1)) (length (ex_calls s)) = (cs, o1)" by fastforce
  show ?case
  proof (cases "o1 = None \<or> max_retries < n + 1")
    case True
    then have "ex_calls s' = ex_calls s @ map (call_of el) [n + 1..<n + 2]"
      using 1(2) run by (auto simp: attempt_provider.simps [of env el n s] Let_def split: option.splits)
    then show ?thesis using 1(3) by (intro exI [of _ "n + 1"]) simp
  next
    case False
    then obtain e where e: "o1 = Some e" "n + 1 \<le> max_retries" by auto
    define s2 where "s2 = key_limited env el e (key_used el cs (s\<lparr>ex_calls := ex_calls s @ [call_of el (n + 1)]\<rparr>))"
    define s2' where "s2' = sleep_for (calculate_delay (int (n + 1)) (1 / 2) 10 2 True (se_draw env (length (ex_sleeps s2)))) s2"
    obtain more r1 s3 where rest: "attempt_provider env el (n + 1) s2' = (more, r1, s3)" using prod_cases3 by blast
    have "s' = s3" using 1(2) run e rest by (simp add: attempt_provider.simps [of env el n s] Let_def s2_def s2'_def)
    moreover obtain k where "n + 1 < k" "k \<le> max_retries + 1" "ex_calls s3 = ex_calls s2' @ map (call_of el) [n + 1 + 1..<k + 1]"
      using 1(1) [OF refl refl refl refl refl _ refl _ refl, of e more r1 s3] run e rest by (auto simp: s2_def s2'_def)
    ultimately show ?thesis by (intro exI [of _ k]) (simp add: s2_def s2'_def upt_conv_Cons)
  qed
qed

definition call_ok :: "eligible list \<Rightarrow> provider_call \<Rightarrow> bool" where
  "call_ok els c \<longleftrightarrow> (\<exists>el \<in> set els. \<exists>a. 0 < a \<and> a \<le> max_retries + 1 \<and> c = call_of el a)"

lemma call_ok_Cons: "call_ok els c \<Longrightarrow> call_ok (el # els) c"
  by (auto simp: call_ok_def)

lemma call_ok_here: "0 < a \<Longrightarrow> a \<le> Suc max_retries \<Longrightarrow> call_ok (el # els) (call_of el a)"
  unfolding call_ok_def by (rule bexI [of _ el], rule exI [of _ a]) simp_all

lemma candidates_calls:
  "run_candidates env els last_exc s = (chunks, r, s') \<Longrightarrow>
     \<exists>calls. ex_calls s' = ex_calls s @ calls \<and> length calls \<le> (max_retries + 1) * length els \<and> list_all (call_ok els) calls"
proof (induction env els last_exc s arbitrary: chunks r s' rule: run_candidates.induct)
  case (2 env el els last_exc s)
  show ?case
  proof (cases "guard_enter (fst el) (now env s) (ex_breaker s)")
    case (Pair remaining b)
    show ?thesis
    proof (cases remaining)
      case None
      obtain cs r1 s1 where att: "attempt_provider env el 0 ((tick s)\<lparr>ex_breaker := b\<rparr>) = (cs, r1, s1)" using prod_cases3 by blast
      then obtain k where k: "k \<le> max_retries + 1" "ex_calls s1 = ex_calls s @ map (call_of el) [1..<k + 1]"
        using attempt_calls [OF att] by auto
      define s2 where "s2 = (tick s1)\<lparr>ex_breaker := guard_exit (fst el) (now env s1) r1 (ex_breaker s1)\<rparr>"
      have own: "list_all (call_ok (el # els)) (map (call_of el) [1..<k + 1])"
        using k(1) by (auto simp: list_all_iff intro!: call_ok_here)
      show ?thesis
      proof (cases r1)
        case None
        then show ?thesis using 2(3) Pair \<open>remaining = None\<close> att k own
          by (intro exI [of _ "map (call_of el) [1..<k + 1]"]) (auto simp: Let_def)
      next
        case (Some e)
        obtain more r2 s3 where rest: "run_candidates env els (Some e) s2 = (more, r2, s3)" using prod_cases3 by blast
        have "s' = s3" using 2(3) Pair \<open>remaining = None\<close> att Some rest by (auto simp: Let_def s2_def)
        moreover obtain calls where calls: "ex_calls s3 = ex_calls s2 @ calls" "length calls \<le> (max_retries + 1) * length els" "list_all (call_ok els) calls"
          using 2(1) [OF Pair [symmetric] None att [symmetric] refl s2_def Some rest] by blast
        moreover have "list_all (call_ok (el # els)) calls"
          using calls(3) call_ok_Cons unfolding list_all_iff by blast
        ultimately show ?thesis using k own
          by (intro exI [of _ "map (call_of el) [1..<k + 1] @ calls"]) (auto simp: s2_def)
      qed
    next
      case (Some x)
      then have "run_candidates env els (Some CircuitBreakerOpenError) ((tick s)\<lparr>ex_breaker := b\<rparr>) = (chunks, r, s')" using 2(3) Pair by simp
      from 2(2) [OF Pair [symmetric] Some this] obtain calls where
        "ex_calls s' = ex_calls s @ calls" "length calls \<le> (max_retries + 1) * length els" "list_all (call_ok els) calls" by auto
      then show ?thesis using call_ok_Cons unfolding list_all_iff by (intro exI [of _ calls]) auto
    qed
  qed
qed simp

text \<open>C20 (bounds): however the providers behave, the sequential execution of a request makes at most four calls per eligible candidate, each
  with the key and model of an eligible candidate and numbered within the retry limit.\<close>

theorem provider_calls_bounded:
  assumes "execute_eligible env None els s = (chunks, r, s')"
  shows "\<exists>calls. ex_calls s' = ex_calls s @ calls \<and> length calls \<le> 4 * length els \<and> list_all (call_ok els) calls"
  using assms candidates_calls [of env els None s]
  by (auto simp: execute_eligible_def max_retries_def split: prod.splits option.splits)

section \<open>What may be tried\<close>

definition allowed :: "service_env \<Rightarrow> executor \<Rightarrow> eligible \<Rightarrow> bool" where
  "allowed env s el \<longleftrightarrow>
     (case el of (provider_id, api_key, model_name, thinking) \<Rightarrow>
        (\<exists>i \<ge> ex_reads s. \<not> is_in_blackout provider_id (se_windows env) (se_day env i)) \<and>
        (\<exists>i \<ge> ex_reads s. get_state provider_id (se_clock env i + sum_list (ex_sleeps s)) (ex_breaker s) \<noteq> OPEN))"

lemma check_candidate_kept:
  assumes "check_candidate env c s = (e, s')"
  shows "ex_breaker s' = ex_breaker s" "ex_sleeps s' = ex_sleeps s" "ex_reads s \<le> ex_reads s'"
  using assms by (auto simp: check_candidate_def tick_def Let_def split: prod.splits if_splits)

lemma check_candidate_allowed:
  assumes "check_candidate env c s = (Some el, s')"
  shows "allowed env s el"
proof -
  obtain p k m t where el: "el = (p, k, m, t)" by (cases el)
  have "\<not> is_in_blackout p (se_windows env) (se_day env (ex_reads s))"
    and "get_state p (se_clock env (ex_reads s + 1) + sum_list (ex_sleeps s)) (ex_breaker s) \<noteq> OPEN"
    using assms by (auto simp: el check_candidate_def tick_def now_def Let_def split: prod.splits if_splits option.splits)
  then show ?thesis unfolding allowed_def el by (auto intro: exI [of _ "ex_reads s"] exI [of _ "ex_reads s + 1"])
qed

lemma allowed_earlier:
  "allowed env s1 el \<Longrightarrow> ex_breaker s1 = ex_breaker s \<Longrightarrow> ex_sleeps s1 = ex_sleeps s \<Longrightarrow> ex_reads s \<le> ex_reads s1 \<Longrightarrow> allowed env s el"
  unfolding allowed_def by (auto intro: order_trans)

text \<open>Only candidates of the request are tried, in their order, and each of them was, when it was checked, outside the blackout windows of its provider
  with the provider's circuit not open.\<close>

theorem eligible_candidates_allowed:
  assumes "check_all env cs s = (els, s')"
  shows "subseq (map (\<lambda>(p, k, m, t). (p, m, t)) els) cs \<and> list_all (allowed env s) els"
  using assms
proof (induction cs arbitrary: s els s')
  case (Cons c cs)
  obtain e s1 es s2 where step: "check_candidate env c s = (e, s1)" "check_all env cs s1 = (es, s2)" by fastforce
  note IH = Cons.IH [OF step(2)] and keeps = check_candidate_kept [OF step(1)]
  have es: "list_all (allowed env s) es" using IH allowed_earlier [OF _ keeps] by (auto simp: list_all_iff)
  show ?case
  proof (cases e)
    case None
    then show ?thesis using Cons.prems step IH es by (auto intro: subseq_Cons')
  next
    case (Some x)
    have "(case x of (p, k, m, t) \<Rightarrow> (p, m, t)) = c" "allowed env s x"
      using check_candidate_covers [of env c s x s1] check_candidate_allowed [of env c s x s1] step(1) Some
      by (auto simp: covers_def)
    then show ?thesis using Cons.prems step IH es Some by auto
  qed
qed simp

text \<open>Load balancing only reorders the candidates: each is tried as often as without weights, and without usable weights the order stays.\<close>

theorem load_balancing_reorders:
  "mset (apply_load_balancing parse_float lower pow draw weights_str cs) = mset cs \<and>
   (parse_weights parse_float lower (str_split 44 weights_str) [] = [] \<longrightarrow>
      apply_load_balancing parse_float lower pow draw weights_str cs = cs)"
proof -
  have cands: "map snd (map (\<lambda>(i, c). (g i c, c)) (enumerate 0 cs)) = cs" for g :: "nat \<Rightarrow> candidate \<Rightarrow> rat"
    by (simp add: comp_def case_prod_beta)
  have sorted: "mset (map snd (sort_key k xs)) = mset (map snd xs)" for k :: "rat \<times> candidate \<Rightarrow> rat" and xs
    by (simp only: mset_map mset_sort)
  have "mset (map snd (sort_key k (map (\<lambda>(i, c). (g i c, c)) (enumerate 0 cs)))) = mset cs"
    for g :: "nat \<Rightarrow> candidate \<Rightarrow> rat" and k :: "rat \<times> candidate \<Rightarrow> rat" by (simp only: sorted cands)
  then show ?thesis unfolding apply_load_balancing_def Let_def by simp
qed

text \<open>The client of a race gets one of the two streams whole, whatever the order, and the other one never mixes in; it gets an error only if neither stream
  has a first chunk.\<close>

theorem race_keeps_one_stream:
  "race_streams first_done stream1 stream2 = stream1 \<and> fst stream1 \<noteq> [] \<or>
   race_streams first_done stream1 stream2 = stream2 \<and> fst stream2 \<noteq> [] \<or>
   fst stream1 = [] \<and> fst stream2 = [] \<and> (\<exists>e. race_streams first_done stream1 stream2 = ([], Some e))"
  by (auto simp: race_streams_def)

section \<open>The polling ends\<close>

lemma check_all_kept: "check_all env cs s = (els, s') \<Longrightarrow> ex_sleeps s' = ex_sleeps s \<and> ex_reads s \<le> ex_reads s'"
proof (induction cs arbitrary: s els s')
  case (Cons c cs)
  obtain e s1 es s2 where step: "check_candidate env c s = (e, s1)" "check_all env cs s1 = (es, s2)" by fastforce
  show ?case using Cons.IH [OF step(2)] check_candidate_kept(2,3) [OF step(1)] Cons.prems step by auto
qed simp

lemma poll_more_fuel:
  assumes "mono (se_clock env)" "60 \<le> 2 * (now env s - start) + of_nat fuel"
  shows "poll env start cs (Suc fuel + extra) s = poll env start cs (Suc fuel) s"
  using assms(2)
proof (induction fuel arbitrary: s)
  case 0
  then show ?case by (simp add: Let_def)
next
  case (Suc fuel)
  obtain es s2 where all: "check_all env cs (tick s) = (es, s2)" by fastforce
  have "ex_sleeps s2 = ex_sleeps s" "ex_reads s \<le> ex_reads s2" using check_all_kept [OF all] by (auto simp: tick_def)
  then have "now env s + 1 / 2 \<le> now env (sleep_for (1 / 2) s2)"
    using monoD [OF assms(1)] by (simp add: now_def sleep_for_def)
  then have "60 \<le> 2 * (now env (sleep_for (1 / 2) s2) - start) + of_nat fuel" using Suc.prems by simp
  from Suc.IH [OF this] show ?case by (simp add: all Let_def)
qed

text \<open>C21 (termination): the wait for an eligible candidate always ends: with a clock that does not run backwards the loop makes at most 61 rounds, since every round
  sleeps half a second, so the bound put on its rounds changes nothing.\<close>

theorem polling_ends:
  assumes "mono (se_clock env)"
  shows "poll env (now env s) cs (poll_rounds + extra) (tick s) = poll env (now env s) cs poll_rounds (tick s)"
proof -
  have "now env s \<le> now env (tick s)" using monoD [OF assms] by (simp add: now_def tick_def)
  then show ?thesis using poll_more_fuel [OF assms, of "tick s" "now env s" 60 cs extra] by (simp add: poll_rounds_def)
qed

section \<open>Concrete runs\<close>

definition message_start :: pystr where "message_start = u ''message_start''"

definition empty_executor :: executor where
  "empty_executor = \<lparr>ex_breaker = CircuitBreaker_init 5 30 2 (\<lambda>_. True), ex_pool = empty_pool, ex_queue = RequestQueue_init, ex_calls = [],
     ex_analytics = [], ex_dead = [], ex_last_ok = None, ex_sleeps = [], ex_reads = 0\<rparr>"

definition sample_service :: "(nat \<Rightarrow> provider_call \<Rightarrow> py_exn + pystr arrival list) \<Rightarrow> service_env" where
  "sample_service open_stream = \<lparr>se_clock = of_nat, se_real = of_nat, se_day = (\<lambda>_. Time 12 0 0 0), se_draw = (\<lambda>_. 0), se_open = open_stream,
     se_status = (\<lambda>_. None), se_windows = [], se_timeout = 30, se_input_tokens = 7, se_primary = u ''zai'', se_payload = JNull\<rparr>"

definition outcome :: "pystr list \<times> py_exn option \<times> executor \<Rightarrow> pystr list \<times> py_exn option" where
  "outcome r = (fst r, fst (snd r))"

text \<open>The first call breaks off after one chunk, the second one answers.\<close>

definition broken_once :: "nat \<Rightarrow> provider_call \<Rightarrow> py_exn + pystr arrival list" where
  "broken_once n call =
     (if n = 0 then Inr [Item 1 message_start, Failed 1 ReadError] else Inr [Item 1 message_start, Item 1 (u ''text''), Ended 1])"

text \<open>
  The retry does not ask whether chunks have been sent: the answer is sent again from its start after the part
  already sent, and the client gets \<open>message_start\<close> twice.
\<close>

lemma partial_answer_repeated:
  "outcome (execute_request (sample_service broken_once) None [(u ''zai'', u ''glm'', False)] empty_executor) =
     ([message_start, message_start, u ''text''], None)"
  by code_simp

text \<open>When the race of the only two candidates fails its error is forgotten: the request ends with another one.\<close>

lemma race_error_forgotten:
  "outcome (execute_request (sample_service broken_once) (Some ([], Some AuthenticationError))
      [(u ''zai'', u ''glm'', False), (u ''kimi'', u ''k2'', False)] empty_executor) = ([], Some RateLimitError)"
  by code_simp

definition fails_at_once :: "nat \<Rightarrow> provider_call \<Rightarrow> py_exn + pystr arrival list" where
  "fails_at_once n call = (if n < 5 then Inl ReadError else Inr [Item 1 message_start, Ended 1])"

lemma fails_at_once_early: "fails_early (sample_service fails_at_once)"
  by (auto simp: fails_early_def run_attempt_def sample_service_def fails_at_once_def attempt_error_def watchdog_stream_def split: if_splits)

definition two_candidates :: "candidate list" where
  "two_candidates = [(u ''zai'', u ''glm'', False), (u ''kimi'', u ''k2'', False)]"


definition sample_eligible :: "eligible list" where
  "sample_eligible = [(u ''zai'', default_key, u ''glm'', False), (u ''kimi'', default_key, u ''k2'', False)]"

theorem provider_calls_bounded_witness:
  "length (ex_calls (snd (snd (execute_eligible (sample_service fails_at_once) None sample_eligible empty_executor)))) = 6 \<and> (6 :: nat) \<le> 4 * length sample_eligible"
proof -
  obtain chunks e s' where run: "execute_eligible (sample_service fails_at_once) None sample_eligible empty_executor = (chunks, e, s')"
    using prod_cases3 by blast
  have six: "length (ex_calls (snd (snd (execute_eligible (sample_service fails_at_once) None sample_eligible empty_executor)))) = 6" by code_simp
  obtain calls where "ex_calls s' = ex_calls empty_executor @ calls" "length calls \<le> 4 * length sample_eligible"
    using provider_calls_bounded [OF run] by blast
  moreover have "length (ex_calls s') = 6" using six by (simp add: run)
  ultimately have "(6 :: nat) \<le> 4 * length sample_eligible" by (simp add: empty_executor_def)
  then show ?thesis using six by blast
qed

theorem eligible_candidates_allowed_witness:
  "subseq [(u ''zai'', u ''glm'', False), (u ''kimi'', u ''k2'', False)] two_candidates \<and> list_all (allowed (sample_service fails_at_once) empty_executor) sample_eligible"
proof -
  obtain s' where "check_all (sample_service fails_at_once) two_candidates empty_executor = (sample_eligible, s')"
  proof -
    have "fst (check_all (sample_service fails_at_once) two_candidates empty_executor) = sample_eligible" by code_simp
    then show ?thesis using that by (cases "check_all (sample_service fails_at_once) two_candidates empty_executor") simp
  qed
  from eligible_candidates_allowed [OF this] show ?thesis by (simp add: sample_eligible_def)
qed

theorem polling_ends_witness:
  "poll (sample_service fails_at_once) 0 two_candidates (poll_rounds + 9) (tick empty_executor) =
   poll (sample_service fails_at_once) 0 two_candidates poll_rounds (tick empty_executor)"
proof -
  have "mono (se_clock (sample_service fails_at_once))" by (simp add: sample_service_def mono_def)
  from polling_ends [OF this, of empty_executor two_candidates 9] show ?thesis by (simp add: now_def sample_service_def empty_executor_def)
qed

end
