(* ===== verification/Multiplexer.thy ===== *)
theory Multiplexer
  imports MessageService
begin

text \<open>
  One upstream stream for several readers: \<open>StreamMultiplexer\<close> of \<open>api/services.py\<close>, with the key under which
  requests share a stream and the simple fallback of streams.  The task that consumes the stream and
  the readers are interleaved at will; what happens between two suspensions is one step.
\<close>

section \<open>The key of a request\<close>

text \<open>\<open>hash_request\<close> on the dumped request; \<open>sha256\<close> and the encoding are parameters.\<close>

definition hash_request :: "(pystr \<Rightarrow> pystr) \<Rightarrow> (pystr \<Rightarrow> pystr) \<Rightarrow> json \<Rightarrow> pystr" where
  "hash_request sha256_hex encode request =
     sha256_hex
       (encode (text_of (jget (u ''model'') request)) @ encode (json_dumps (jget (u ''messages'') request)) @
        (let system = jget (u ''system'') request in
         if truthy system then encode (case system of JStr s \<Rightarrow> s | _ \<Rightarrow> json_dumps system) else []))"

text \<open>Requests that differ only in their tools or their temperature have the same key.\<close>

lemma hash_ignores_tools:
  "is_dict request \<Longrightarrow> hash_request sha enc (jset (u ''tools'') v request) = hash_request sha enc request"
  "is_dict request \<Longrightarrow> hash_request sha enc (jset (u ''temperature'') v request) = hash_request sha enc request"
  by (cases request; simp add: hash_request_def dict_simps)+

section \<open>Fallback before the first chunk\<close>

definition OverloadedError :: py_exn where
  "OverloadedError = OtherException (u ''OverloadedError'')"

definition stream_with_fallback :: "pystr list \<times> py_exn option \<Rightarrow> (pystr list \<times> py_exn option) option \<Rightarrow> pystr list \<times> py_exn option" where
  "stream_with_fallback primary fallback =
     (case (primary, fallback) of
        ((chunks, Some e), Some f) \<Rightarrow>
          if e \<in> {RateLimitError, AuthenticationError, OverloadedError} \<and> chunks = [] then f else primary
      | _ \<Rightarrow> primary)"

section \<open>The multiplexer\<close>

datatype reader_state = Running | Yielding | Finished "py_exn option" | Abandoned

record reader =
  rd_idx :: nat
  rd_got :: "pystr list"
  rd_state :: reader_state

record multiplexer =
  mx_chunks :: "pystr list"
  mx_error :: "py_exn option"
  mx_done :: bool
  mx_lock :: "nat option"
  mx_readers :: "(nat, reader) dict"

definition StreamMultiplexer :: multiplexer where
  "StreamMultiplexer = \<lparr>mx_chunks = [], mx_error = None, mx_done = False, mx_lock = None, mx_readers = []\<rparr>"

definition set_reader :: "nat \<Rightarrow> reader \<Rightarrow> multiplexer \<Rightarrow> multiplexer" where
  "set_reader r x m = m\<lparr>mx_readers := dict_set r x (mx_readers m)\<rparr>"

abbreviation reader_at :: "multiplexer \<Rightarrow> nat \<Rightarrow> reader option" where
  "reader_at m r \<equiv> dict_get (mx_readers m) r"

text \<open>
  The steps of \<open>_consume\<close> (a chunk under the lock, an error, the end) and of the readers.  A reader yields its
  chunk while it holds the lock, and gives the lock back when its own client asks for more or closes it.
\<close>

inductive mux_step :: "multiplexer \<Rightarrow> multiplexer \<Rightarrow> bool" where
  chunk: "mx_lock m = None \<Longrightarrow> mx_error m = None \<Longrightarrow> \<not> mx_done m \<Longrightarrow> mux_step m (m\<lparr>mx_chunks := mx_chunks m @ [c]\<rparr>)"
| failed: "mx_error m = None \<Longrightarrow> \<not> mx_done m \<Longrightarrow> mux_step m (m\<lparr>mx_error := Some e\<rparr>)"
| ended: "\<not> mx_done m \<Longrightarrow> mx_error m = None \<or> mx_lock m = None \<Longrightarrow> mux_step m (m\<lparr>mx_done := True\<rparr>)"
| join: "mx_lock m = None \<Longrightarrow> reader_at m r = None \<Longrightarrow>
    mux_step m (set_reader r \<lparr>rd_idx = 0, rd_got = [], rd_state = Running\<rparr> m)"
| take_chunk: "mx_lock m = None \<Longrightarrow> reader_at m r = Some x \<Longrightarrow> rd_state x = Running \<Longrightarrow> rd_idx x < length (mx_chunks m) \<Longrightarrow>
    mux_step m ((set_reader r (x\<lparr>rd_got := rd_got x @ [mx_chunks m ! rd_idx x], rd_state := Yielding\<rparr>) m)\<lparr>mx_lock := Some r\<rparr>)"
| resume: "reader_at m r = Some x \<Longrightarrow> rd_state x = Yielding \<Longrightarrow>
    mux_step m ((set_reader r (x\<lparr>rd_idx := rd_idx x + 1, rd_state := Running\<rparr>) m)\<lparr>mx_lock := None\<rparr>)"
| finish: "mx_lock m = None \<Longrightarrow> reader_at m r = Some x \<Longrightarrow> rd_state x = Running \<Longrightarrow> length (mx_chunks m) \<le> rd_idx x \<Longrightarrow> mx_done m \<Longrightarrow>
    mux_step m (set_reader r (x\<lparr>rd_state := Finished (mx_error m)\<rparr>) m)"
| close_yielding: "reader_at m r = Some x \<Longrightarrow> rd_state x = Yielding \<Longrightarrow>
    mux_step m ((set_reader r (x\<lparr>rd_state := Abandoned\<rparr>) m)\<lparr>mx_lock := None\<rparr>)"
| close_waiting: "reader_at m r = Some x \<Longrightarrow> rd_state x = Running \<Longrightarrow> mux_step m (set_reader r (x\<lparr>rd_state := Abandoned\<rparr>) m)"

text \<open>What a reader has got, by its state; exactly the reader that yields holds the lock.\<close>

definition reader_ok :: "multiplexer \<Rightarrow> nat \<Rightarrow> reader \<Rightarrow> bool" where
  "reader_ok m r x \<longleftrightarrow>
     (mx_lock m = Some r \<longleftrightarrow> rd_state x = Yielding) \<and>
     (case rd_state x of
        Running \<Rightarrow> rd_idx x \<le> length (mx_chunks m) \<and> rd_got x = take (rd_idx x) (mx_chunks m)
      | Yielding \<Rightarrow> rd_idx x < length (mx_chunks m) \<and> rd_got x = take (rd_idx x + 1) (mx_chunks m)
      | Finished e \<Rightarrow> mx_done m \<and> e = mx_error m \<and> rd_got x = mx_chunks m
      | Abandoned \<Rightarrow> prefix (rd_got x) (mx_chunks m))"

definition mux_ok :: "multiplexer \<Rightarrow> bool" where
  "mux_ok m \<longleftrightarrow> (\<forall>r x. reader_at m r = Some x \<longrightarrow> reader_ok m r x) \<and> (\<forall>r. mx_lock m = Some r \<longrightarrow> reader_at m r \<noteq> None)"

lemma reader_at_set [simp]: "reader_at (set_reader r x m) r' = (if r' = r then Some x else reader_at m r')"
  by (simp add: set_reader_def dict_simps)

lemma set_reader_fields [simp]:
  "mx_chunks (set_reader r x m) = mx_chunks m" "mx_error (set_reader r x m) = mx_error m"
  "mx_done (set_reader r x m) = mx_done m" "mx_lock (set_reader r x m) = mx_lock m"
  by (simp_all add: set_reader_def)

lemma ok_reader: "mux_ok m \<Longrightarrow> reader_at m r = Some x \<Longrightarrow> reader_ok m r x"
  by (simp add: mux_ok_def)

lemma ok_lock: "mux_ok m \<Longrightarrow> reader_at m r = Some x \<Longrightarrow> mx_lock m = Some r \<longleftrightarrow> rd_state x = Yielding"
  using ok_reader [of m r x] by (simp add: reader_ok_def)

lemma set_reader_same_lock [simp]: "(set_reader r x m)\<lparr>mx_lock := mx_lock m\<rparr> = set_reader r x m"
  by (simp add: set_reader_def)

lemma release_keeps_ok:
  assumes ok: "mux_ok m" and x: "reader_at m r = Some x"
    and new: "reader_ok (m\<lparr>mx_lock := if mx_lock m = Some r then None else mx_lock m\<rparr>) r x'"
  shows "mux_ok ((set_reader r x' m)\<lparr>mx_lock := if mx_lock m = Some r then None else mx_lock m\<rparr>)" (is "mux_ok ?m")
proof -
  have "reader_ok ?m r' y" if "reader_at ?m r' = Some y" for r' y
  proof (cases "r' = r")
    case True
    then show ?thesis using that new by (simp add: reader_ok_def cong: reader_state.case_cong)
  next
    case False
    then have "reader_ok m r' y" using that ok_reader [OF ok, of r' y] by simp
    moreover have "mx_lock ?m = Some r' \<longleftrightarrow> mx_lock m = Some r'" using False by simp
    ultimately show ?thesis by (simp add: reader_ok_def cong: reader_state.case_cong)
  qed
  moreover have "reader_at ?m r' \<noteq> None" if "mx_lock ?m = Some r'" for r'
    using that ok by (auto simp: mux_ok_def split: if_splits)
  ultimately show ?thesis by (simp add: mux_ok_def)
qed

lemma step_keeps_ok: "mux_step m m' \<Longrightarrow> mux_ok m \<Longrightarrow> mux_ok m'"
proof (induction rule: mux_step.induct)
  case (chunk m c)
  then have "reader_ok m r x \<Longrightarrow> reader_ok (m\<lparr>mx_chunks := mx_chunks m @ [c]\<rparr>) r x" for r x
    by (auto simp: reader_ok_def split: reader_state.splits)
  then show ?case using chunk.prems by (simp add: mux_ok_def)
next
  case (take_chunk m r x)
  then have "reader_ok m r x" by (simp add: mux_ok_def)
  then have "rd_got x @ [mx_chunks m ! rd_idx x] = take (rd_idx x + 1) (mx_chunks m)"
    using take_chunk by (simp add: reader_ok_def take_Suc_conv_app_nth)
  then show ?case using take_chunk by (auto simp: mux_ok_def reader_ok_def split: reader_state.splits)
next
  case (resume m r x)
  then have "reader_ok m r x" "mx_lock m = Some r" by (simp_all add: ok_reader ok_lock)
  then show ?case using resume release_keeps_ok [of m r x "x\<lparr>rd_idx := rd_idx x + 1, rd_state := Running\<rparr>"]
    by (simp add: reader_ok_def)
next
  case (close_yielding m r x)
  then have "reader_ok m r x" "mx_lock m = Some r" by (simp_all add: ok_reader ok_lock)
  then show ?case using close_yielding release_keeps_ok [of m r x "x\<lparr>rd_state := Abandoned\<rparr>"]
    by (simp add: reader_ok_def take_is_prefix)
next
  case (close_waiting m r x)
  then have "reader_ok m r x" "mx_lock m \<noteq> Some r" by (simp_all add: ok_reader ok_lock)
  then show ?case using close_waiting release_keeps_ok [of m r x "x\<lparr>rd_state := Abandoned\<rparr>"]
    by (simp add: reader_ok_def take_is_prefix)
qed (auto simp: mux_ok_def reader_ok_def split: reader_state.splits)

text \<open>C16 (invariant): in every interleaving, every reader of a shared stream, whenever it joined, has got the chunks from the first on, each once and in
  order; a reader that has ended has got all of them, and ends as the stream did.\<close>

theorem readers_get_the_stream:
  assumes "mux_step\<^sup>*\<^sup>* StreamMultiplexer m" "reader_at m r = Some x"
  shows "prefix (rd_got x) (mx_chunks m) \<and> (rd_state x = Finished e \<longrightarrow> mx_done m \<and> rd_got x = mx_chunks m \<and> e = mx_error m)"
proof -
  have "mux_ok StreamMultiplexer" by (simp add: mux_ok_def StreamMultiplexer_def)
  with assms(1) have "mux_ok m" by (induction rule: rtranclp_induct) (auto intro: step_keeps_ok)
  then have "reader_ok m r x" using assms(2) by (simp add: mux_ok_def)
  then show ?thesis by (auto simp: reader_ok_def take_is_prefix split: reader_state.splits)
qed

text \<open>
  While a client does not read on, nothing more is taken from the provider and no other reader gets a chunk: the
  lock is held across the \<open>yield\<close>.
\<close>

lemma stalled_reader_blocks:
  assumes "mux_ok m" "mx_lock m = Some r" "mux_step m m'" "mx_lock m' = Some r"
  shows "mx_chunks m' = mx_chunks m" "reader_at m' s = Some y \<Longrightarrow> \<exists>x. reader_at m s = Some x \<and> rd_got y = rd_got x"
  using assms(3,1,2,4) by (induction rule: mux_step.induct) (auto split: if_splits)

lemma free_reader_goes_on:
  "mx_lock m = None \<Longrightarrow> reader_at m r = Some x \<Longrightarrow> rd_state x = Running \<Longrightarrow> rd_idx x < length (mx_chunks m) \<Longrightarrow>
     \<exists>m' x'. mux_step m m' \<and> reader_at m' r = Some x' \<and> rd_got x' = rd_got x @ [mx_chunks m ! rd_idx x]"
  using mux_step.take_chunk [of m r x] by fastforce

text \<open>Two readers, the second joining after the first chunk.\<close>

definition after_join :: multiplexer where
  "after_join = \<lparr>mx_chunks = [u ''a''], mx_error = None, mx_done = False, mx_lock = None,
     mx_readers = [(0, \<lparr>rd_idx = 0, rd_got = [], rd_state = Running\<rparr>)]\<rparr>"

definition yielding :: multiplexer where
  "yielding = \<lparr>mx_chunks = [u ''a''], mx_error = None, mx_done = False, mx_lock = Some 0,
     mx_readers = [(0, \<lparr>rd_idx = 0, rd_got = [u ''a''], rd_state = Yielding\<rparr>)]\<rparr>"

lemma run_to_yielding: "mux_step\<^sup>*\<^sup>* StreamMultiplexer yielding"
proof -
  have s1: "mux_step StreamMultiplexer (StreamMultiplexer\<lparr>mx_chunks := [u ''a'']\<rparr>)"
    using mux_step.chunk [of StreamMultiplexer "u ''a''"] by (simp add: StreamMultiplexer_def)
  have s2: "mux_step (StreamMultiplexer\<lparr>mx_chunks := [u ''a'']\<rparr>) after_join"
    using mux_step.join [of "StreamMultiplexer\<lparr>mx_chunks := [u ''a'']\<rparr>" 0] by (simp add: StreamMultiplexer_def after_join_def set_reader_def)
  have s3: "mux_step after_join yielding"
    using mux_step.take_chunk [of after_join 0] by (simp add: after_join_def yielding_def set_reader_def)
  show ?thesis
    using converse_rtranclp_into_rtranclp [of mux_step, OF s1 converse_rtranclp_into_rtranclp [of mux_step, OF s2 r_into_rtranclp [of mux_step, OF s3]]] .
qed

theorem readers_get_the_stream_witness: "prefix [u ''a''] (mx_chunks yielding)"
  using readers_get_the_stream [OF run_to_yielding, of 0 "\<lparr>rd_idx = 0, rd_got = [u ''a''], rd_state = Yielding\<rparr>"]
  by (simp add: yielding_def)

end
