(* ===== verification/ServiceStream.thy ===== *)
theory ServiceStream
  imports OpenAIContract MessageService
begin

text \<open>
  The message service on top of the OpenAI chat transport: the streams that providers open are those of
  \<open>stream_response\<close> (\<open>providers/openai_compat.py\<close>), read by the executor of \<open>api/services.py\<close> through its watchdog.
\<close>

section \<open>Streams of the transport\<close>

text \<open>
  The arrivals of a generator that yields the frames \<open>out\<close> and then ends or raises; \<open>wait i\<close> is the time between the
  i-th item and the one before.
\<close>

fun arrivals :: "(nat \<Rightarrow> rat) \<Rightarrow> nat \<Rightarrow> pystr list \<Rightarrow> py_exn option \<Rightarrow> pystr arrival list" where
  "arrivals wait i [] e = [case e of None \<Rightarrow> Ended (wait i) | Some x \<Rightarrow> Failed (wait i) x]"
| "arrivals wait i (x # xs) e = Item (wait i) x # arrivals wait (Suc i) xs e"

text \<open>What the n-th call is answered with: the client of the provider and the request body are arbitrary.\<close>

definition openai_open ::
    "(nat \<Rightarrow> provider_call \<Rightarrow> stream_env \<times> json) \<Rightarrow> (nat \<Rightarrow> nat \<Rightarrow> rat) \<Rightarrow> nat \<Rightarrow> provider_call \<Rightarrow> py_exn + pystr arrival list" where
  "openai_open transport wait n call =
     (case transport n call of (env, body) \<Rightarrow>
      case stream_response env body of (out, e) \<Rightarrow>
        Inr (arrivals (wait n) 0 (map (\<lambda>(name, data). format_sse_event name data) out) e))"

lemma watchdog_passes:
  "(\<And>i. wait i < current) \<Longrightarrow> (\<And>i. wait i < limit) \<Longrightarrow>
     watchdog_loop limit current first (arrivals wait k xs None) = (xs, Normal)"
proof (induction wait k xs "None :: py_exn option" arbitrary: current first rule: arrivals.induct)
  case (1 wait i)
  then show ?case by (simp add: not_le)
next
  case (2 wait i x xs)
  have "watchdog_loop limit limit False (arrivals wait (Suc i) xs None) = (xs, Normal)"
    by (rule "2.hyps") (use "2.prems"(2) in auto)
  then show ?case using "2.prems"(1) [of i] by (simp add: not_le)
qed

lemma attempt_of_transport:
  assumes "se_open env = openai_open transport wait" "\<And>n i. wait n i < 15" "\<And>n i. wait n i < se_timeout env"
    and "transport n call = (tenv, body)" "stream_response tenv body = (out, e)"
  shows "run_attempt env call n = (map (\<lambda>(name, data). format_sse_event name data) out, None)" "out \<noteq> []"
proof -
  have ok: "e = None" "assert_anthropic_stream_contract True (map frame_event out) = Inr ()"
    using stream_response_complete [of tenv body] assms(5) by simp_all
  then show "out \<noteq> []" by (auto simp: assert_anthropic_stream_contract_def check_contract_def)
  then show "run_attempt env call n = (map (\<lambda>(name, data). format_sse_event name data) out, None)"
    using assms ok(1) watchdog_passes [of "wait n" "se_timeout env" 15]
    by (simp add: MessageService.run_attempt_def openai_open_def watchdog_stream_def attempt_error_def)
qed

text \<open>On the OpenAI transport a request whose waits stay within the watchdog's limits is answered by one call of its first eligible candidate: what
  that call streams is what the client gets, once and as a stream that meets the contract, whatever goes wrong at the provider.  So no failure of a provider is
  ever seen by the retries, the fallback, the key pool or the dead letters.\<close>

theorem transport_failures_unseen:
  assumes "se_open env = openai_open transport wait" "\<And>n i. wait n i < 15" "\<And>n i. wait n i < se_timeout env"
    and "guard_enter (fst el) (now env s) (ex_breaker s) = (None, b)"
    and "execute_eligible env None (el # els) s = (chunks, r, s')"
  shows "\<exists>out. assert_anthropic_stream_contract True (map frame_event out) = Inr () \<and>
      chunks = map (\<lambda>(name, data). format_sse_event name data) out \<and> r = None \<and>
      ex_calls s' = ex_calls s @ [call_of el 1] \<and> ex_dead s' = ex_dead s \<and>
      ex_analytics s' \<noteq> [] \<and> lg_status (last (ex_analytics s')) = 200 \<and> ex_last_ok s' = Some (fst el)"
proof -
  define n where "n = length (ex_calls s)"
  obtain tenv body where t: "transport n (call_of el 1) = (tenv, body)" by fastforce
  obtain out e where out: "stream_response tenv body = (out, e)" by fastforce
  note att = attempt_of_transport [OF assms(1-3) t out]
  have ok: "assert_anthropic_stream_contract True (map frame_event out) = Inr ()"
    using stream_response_complete [of tenv body] out by simp
  define s1 where "s1 = (tick s)\<lparr>ex_breaker := b\<rparr>"
  define cs where "cs = map (\<lambda>(name, data). format_sse_event name data) out"
  define s2 where "s2 = log_success env el cs (key_used el cs (s1\<lparr>ex_calls := ex_calls s1 @ [call_of el 1]\<rparr>))"
  have calls1: "length (ex_calls s1) = n" "ex_calls s1 = ex_calls s" "ex_dead s1 = ex_dead s" by (simp_all add: s1_def n_def tick_def)
  have "attempt_provider env el 0 s1 = (cs, None, s2)"
    using att(1) by (simp add: attempt_provider.simps [of env el 0 s1] calls1 cs_def s2_def Let_def flip: n_def)
  then have "run_candidates env (el # els) None s =
      (cs, None, (tick s2)\<lparr>ex_breaker := guard_exit (fst el) (now env s2) None (ex_breaker s2)\<rparr>)"
    using assms(4) by (simp add: s1_def)
  then have "chunks = cs" "r = None" and s': "s' = (tick s2)\<lparr>ex_breaker := guard_exit (fst el) (now env s2) None (ex_breaker s2)\<rparr>"
    using assms(5) by (simp_all add: execute_eligible_def split: if_splits)
  moreover obtain p k m th where el: "el = (p, k, m, th)" by (cases el)
  have "ex_calls s2 = ex_calls s @ [call_of el 1]" "ex_dead s2 = ex_dead s"
      "ex_analytics s2 \<noteq> [] \<and> lg_status (last (ex_analytics s2)) = 200" "ex_last_ok s2 = Some (fst el)"
    using calls1 by (simp_all add: s2_def el log_success_def key_used_def split: prod.splits)
  ultimately show ?thesis using ok by (intro exI [of _ out]) (simp add: cs_def tick_def)
qed

text \<open>
  The transport yields its \<open>message_start\<close> before it connects, so the limit for the first chunk never applies to
  the provider: a provider that takes 16 seconds to its first token is cut off by the limit between chunks although the
  time-out is 30 seconds, and every retry sends \<open>message_start\<close> again.
\<close>

definition slow_provider :: "nat \<Rightarrow> provider_call \<Rightarrow> py_exn + pystr arrival list" where
  "slow_provider n call = Inr [Item 0 message_start, Item 16 (u ''text''), Ended 0]"

lemma slow_first_token_repeats_start:
  "outcome (execute_request (sample_service slow_provider) None [(u ''zai'', u ''glm'', False)] empty_executor) =
     ([message_start, message_start, message_start, message_start], Some StreamingTimeoutError)"
  by code_simp

theorem transport_failures_unseen_witness:
  "\<exists>chunks s'. execute_eligible (sample_service (openai_open (\<lambda>n call. (cut_stream_env, JObj [])) (\<lambda>n i. 0))) None sample_eligible empty_executor = (chunks, None, s') \<and>
     length (ex_calls s') = 1"
proof -
  let ?env = "sample_service (openai_open (\<lambda>n call. (cut_stream_env, JObj [])) (\<lambda>n i. 0))"
  obtain chunks r s' where run: "execute_eligible ?env None (hd sample_eligible # tl sample_eligible) empty_executor = (chunks, r, s')"
    using prod_cases3 by blast
  obtain b where b: "guard_enter (fst (hd sample_eligible)) (now ?env empty_executor) (ex_breaker empty_executor) = (None, b)"
    by (simp add: guard_enter_def provider_entry_def empty_executor_def CircuitBreaker_init_def ProviderState_def)
  have waits: "0 < (15 :: rat)" "0 < se_timeout ?env" by (simp_all add: sample_service_def)
  from transport_failures_unseen [OF _ _ _ b run, of "\<lambda>n call. (cut_stream_env, JObj [])" "\<lambda>n i. 0"] waits
  have "r = None" "ex_calls s' = ex_calls empty_executor @ [call_of (hd sample_eligible) 1]" by (auto simp: sample_service_def)
  then show ?thesis using run by (simp add: sample_eligible_def empty_executor_def)
qed

end
