(* ===== verification/Catalog.thy ===== *)
theory Catalog
  imports Prelude
begin

text \<open>
  The catalog of providers (\<open>config/provider_catalog.py\<close>): one definition per base URL and per entry of
  \<open>PROVIDER_CATALOG\<close>, in the source's order.
\<close>

section \<open>Base URLs\<close>

definition NVIDIA_NIM_DEFAULT_BASE :: pystr where
  "NVIDIA_NIM_DEFAULT_BASE = u ''https://integrate.api.nvidia.com/v1''"

definition KIMI_DEFAULT_BASE :: pystr where
  "KIMI_DEFAULT_BASE = u ''https://api.moonshot.ai/anthropic/v1''"

definition WAFER_DEFAULT_BASE :: pystr where
  "WAFER_DEFAULT_BASE = u ''https://pass.wafer.ai/v1''"

definition DEEPSEEK_ANTHROPIC_DEFAULT_BASE :: pystr where
  "DEEPSEEK_ANTHROPIC_DEFAULT_BASE = u ''https://api.deepseek.com/anthropic''"

definition DEEPSEEK_DEFAULT_BASE :: pystr where
  "DEEPSEEK_DEFAULT_BASE = DEEPSEEK_ANTHROPIC_DEFAULT_BASE"

definition FIREWORKS_DEFAULT_BASE :: pystr where
  "FIREWORKS_DEFAULT_BASE = u ''https://api.fireworks.ai/inference/v1''"

definition OPENROUTER_DEFAULT_BASE :: pystr where
  "OPENROUTER_DEFAULT_BASE = u ''https://openrouter.ai/api/v1''"

definition MISTRAL_DEFAULT_BASE :: pystr where
  "MISTRAL_DEFAULT_BASE = u ''https://api.mistral.ai/v1''"

definition CODESTRAL_DEFAULT_BASE :: pystr where
  "CODESTRAL_DEFAULT_BASE = u ''https://codestral.mistral.ai/v1''"

definition LMSTUDIO_DEFAULT_BASE :: pystr where
  "LMSTUDIO_DEFAULT_BASE = u ''http://localhost:1234/v1''"

definition LLAMACPP_DEFAULT_BASE :: pystr where
  "LLAMACPP_DEFAULT_BASE = u ''http://localhost:8080/v1''"

definition OLLAMA_DEFAULT_BASE :: pystr where
  "OLLAMA_DEFAULT_BASE = u ''http://localhost:11434''"

definition OPENCODE_DEFAULT_BASE :: pystr where
  "OPENCODE_DEFAULT_BASE = u ''https://opencode.ai/zen/v1''"

definition OPENCODE_GO_DEFAULT_BASE :: pystr where
  "OPENCODE_GO_DEFAULT_BASE = u ''https://opencode.ai/zen/go/v1''"

definition ZAI_DEFAULT_BASE :: pystr where
  "ZAI_DEFAULT_BASE = u ''https://api.z.ai/api/anthropic/v1''"

definition GEMINI_DEFAULT_BASE :: pystr where
  "GEMINI_DEFAULT_BASE = u ''https://generativelanguage.googleapis.com/v1beta/openai/''"

definition GROQ_DEFAULT_BASE :: pystr where
  "GROQ_DEFAULT_BASE = u ''https://api.groq.com/openai/v1''"

definition CEREBRAS_DEFAULT_BASE :: pystr where
  "CEREBRAS_DEFAULT_BASE = u ''https://api.cerebras.ai/v1''"

definition AEROLINK_DEFAULT_BASE :: pystr where
  "AEROLINK_DEFAULT_BASE = u ''https://capi.aerolink.lat/v1''"

definition GITHUB_MODELS_DEFAULT_BASE :: pystr where
  "GITHUB_MODELS_DEFAULT_BASE = u ''https://models.inference.ai.azure.com''"

definition OPENAI_DEFAULT_BASE :: pystr where
  "OPENAI_DEFAULT_BASE = u ''https://api.openai.com/v1''"

section \<open>Descriptors\<close>

datatype transport_type = Openai_Chat | Anthropic_Messages

record provider_descriptor =
  pd_provider_id :: pystr
  pd_transport_type :: transport_type
  pd_capabilities :: "string list"
  pd_credential_env :: "pystr option"
  pd_credential_url :: "pystr option"
  pd_credential_attr :: "pystr option"
  pd_static_credential :: "pystr option"
  pd_default_base_url :: "pystr option"
  pd_base_url_attr :: "pystr option"
  pd_proxy_attr :: "pystr option"

definition descriptor_nvidia_nim :: provider_descriptor where
  "descriptor_nvidia_nim = \<lparr>pd_provider_id = u ''nvidia_nim'', pd_transport_type = Openai_Chat,
     pd_capabilities = [''chat'', ''streaming'', ''tools'', ''thinking'', ''rate_limit''],
     pd_credential_env = Some (u ''NVIDIA_NIM_API_KEY''), pd_credential_url = Some (u ''https://build.nvidia.com/settings/api-keys''),
     pd_credential_attr = Some (u ''nvidia_nim_api_key''), pd_static_credential = None,
     pd_default_base_url = Some NVIDIA_NIM_DEFAULT_BASE, pd_base_url_attr = None, pd_proxy_attr = Some (u ''nvidia_nim_proxy'')\<rparr>"

definition descriptor_open_router :: provider_descriptor where
  "descriptor_open_router = \<lparr>pd_provider_id = u ''open_router'', pd_transport_type = Anthropic_Messages,
     pd_capabilities = [''chat'', ''streaming'', ''tools'', ''thinking'', ''native_anthropic''],
     pd_credential_env = Some (u ''OPENROUTER_API_KEY''), pd_credential_url = Some (u ''https://openrouter.ai/keys''),
     pd_credential_attr = Some (u ''open_router_api_key''), pd_static_credential = None,
     pd_default_base_url = Some OPENROUTER_DEFAULT_BASE, pd_base_url_attr = None, pd_proxy_attr = Some (u ''open_router_proxy'')\<rparr>"

definition descriptor_gemini :: provider_descriptor where
  "descriptor_gemini = \<lparr>pd_provider_id = u ''gemini'', pd_transport_type = Openai_Chat,
     pd_capabilities = [''chat'', ''streaming'', ''tools'', ''thinking'', ''rate_limit''],
     pd_credential_env = Some (u ''GEMINI_API_KEY''), pd_credential_url = Some (u ''https://aistudio.google.com/apikey''),
     pd_credential_attr = Some (u ''gemini_api_key''), pd_static_credential = None,
     pd_default_base_url = Some GEMINI_DEFAULT_BASE, pd_base_url_attr = None, pd_proxy_attr = Some (u ''gemini_proxy'')\<rparr>"

definition descriptor_deepseek :: provider_descriptor where
  "descriptor_deepseek = \<lparr>pd_provider_id = u ''deepseek'', pd_transport_type = Anthropic_Messages,
     pd_capabilities = [''chat'', ''streaming'', ''tools'', ''thinking'', ''native_anthropic''],
     pd_credential_env = Some (u ''DEEPSEEK_API_KEY''), pd_credential_url = Some (u ''https://platform.deepseek.com/api_keys''),
     pd_credential_attr = Some (u ''deepseek_api_key''), pd_static_credential = None,
     pd_default_base_url = Some DEEPSEEK_ANTHROPIC_DEFAULT_BASE, pd_base_url_attr = None, pd_proxy_attr = None\<rparr>"

definition descriptor_mistral :: provider_descriptor where
  "descriptor_mistral = \<lparr>pd_provider_id = u ''mistral'', pd_transport_type = Openai_Chat,
     pd_capabilities = [''chat'', ''streaming'', ''tools'', ''thinking'', ''rate_limit''],
     pd_credential_env = Some (u ''MISTRAL_API_KEY''), pd_credential_url = Some (u ''https://console.mistral.ai/''),
     pd_credential_attr = Some (u ''mistral_api_key''), pd_static_credential = None,
     pd_default_base_url = Some MISTRAL_DEFAULT_BASE, pd_base_url_attr = None, pd_proxy_attr = Some (u ''mistral_proxy'')\<rparr>"

definition descriptor_mistral_codestral :: provider_descriptor where
  "descriptor_mistral_codestral = \<lparr>pd_provider_id = u ''mistral_codestral'', pd_transport_type = Openai_Chat,
     pd_capabilities = [''chat'', ''streaming'', ''tools'', ''thinking'', ''rate_limit''],
     pd_credential_env = Some (u ''CODESTRAL_API_KEY''), pd_credential_url = Some (u ''https://console.mistral.ai/''),
     pd_credential_attr = Some (u ''codestral_api_key''), pd_static_credential = None,
     pd_default_base_url = Some CODESTRAL_DEFAULT_BASE, pd_base_url_attr = None, pd_proxy_attr = Some (u ''codestral_proxy'')\<rparr>"

definition descriptor_opencode :: provider_descriptor where
  "descriptor_opencode = \<lparr>pd_provider_id = u ''opencode'', pd_transport_type = Openai_Chat,
     pd_capabilities = [''chat'', ''streaming'', ''tools'', ''thinking'', ''rate_limit''],
     pd_credential_env = Some (u ''OPENCODE_API_KEY''), pd_credential_url = Some (u ''https://opencode.ai/auth''),
     pd_credential_attr = Some (u ''opencode_api_key''), pd_static_credential = None,
     pd_default_base_url = Some OPENCODE_DEFAULT_BASE, pd_base_url_attr = None, pd_proxy_attr = Some (u ''opencode_proxy'')\<rparr>"

definition descriptor_opencode_go :: provider_descriptor where
  "descriptor_opencode_go = \<lparr>pd_provider_id = u ''opencode_go'', pd_transport_type = Openai_Chat,
     pd_capabilities = [''chat'', ''streaming'', ''tools'', ''thinking'', ''rate_limit''],
     pd_credential_env = Some (u ''OPENCODE_API_KEY''), pd_credential_url = Some (u ''https://opencode.ai/auth''),
     pd_credential_attr = Some (u ''opencode_api_key''), pd_static_credential = None,
     pd_default_base_url = Some OPENCODE_GO_DEFAULT_BASE, pd_base_url_attr = None, pd_proxy_attr = Some (u ''opencode_go_proxy'')\<rparr>"

definition descriptor_wafer :: provider_descriptor where
  "descriptor_wafer = \<lparr>pd_provider_id = u ''wafer'', pd_transport_type = Anthropic_Messages,
     pd_capabilities = [''chat'', ''streaming'', ''tools'', ''thinking'', ''native_anthropic''],
     pd_credential_env = Some (u ''WAFER_API_KEY''), pd_credential_url = Some (u ''https://www.wafer.ai/pass''),
     pd_credential_attr = Some (u ''wafer_api_key''), pd_static_credential = None,
     pd_default_base_url = Some WAFER_DEFAULT_BASE, pd_base_url_attr = None, pd_proxy_attr = Some (u ''wafer_proxy'')\<rparr>"

definition descriptor_kimi :: provider_descriptor where
  "descriptor_kimi = \<lparr>pd_provider_id = u ''kimi'', pd_transport_type = Anthropic_Messages,
     pd_capabilities = [''chat'', ''streaming'', ''tools'', ''thinking'', ''native_anthropic''],
     pd_credential_env = Some (u ''KIMI_API_KEY''), pd_credential_url = Some (u ''https://platform.moonshot.cn/console/api-keys''),
     pd_credential_attr = Some (u ''kimi_api_key''), pd_static_credential = None,
     pd_default_base_url = Some KIMI_DEFAULT_BASE, pd_base_url_attr = None, pd_proxy_attr = Some (u ''kimi_proxy'')\<rparr>"

definition descriptor_cerebras :: provider_descriptor where
  "descriptor_cerebras = \<lparr>pd_provider_id = u ''cerebras'', pd_transport_type = Openai_Chat,
     pd_capabilities = [''chat'', ''streaming'', ''tools'', ''thinking'', ''rate_limit''],
     pd_credential_env = Some (u ''CEREBRAS_API_KEY''), pd_credential_url = Some (u ''https://cloud.cerebras.ai''),
     pd_credential_attr = Some (u ''cerebras_api_key''), pd_static_credential = None,
     pd_default_base_url = Some CEREBRAS_DEFAULT_BASE, pd_base_url_attr = None, pd_proxy_attr = Some (u ''cerebras_proxy'')\<rparr>"

definition descriptor_groq :: provider_descriptor where
  "descriptor_groq = \<lparr>pd_provider_id = u ''groq'', pd_transport_type = Openai_Chat,
     pd_capabilities = [''chat'', ''streaming'', ''tools'', ''thinking'', ''rate_limit''],
     pd_credential_env = Some (u ''GROQ_API_KEY''), pd_credential_url = Some (u ''https://console.groq.com/keys''),
     pd_credential_attr = Some (u ''groq_api_key''), pd_static_credential = None,
     pd_default_base_url = Some GROQ_DEFAULT_BASE, pd_base_url_attr = None, pd_proxy_attr = Some (u ''groq_proxy'')\<rparr>"

definition descriptor_fireworks :: provider_descriptor where
  "descriptor_fireworks = \<lparr>pd_provider_id = u ''fireworks'', pd_transport_type = Anthropic_Messages,
     pd_capabilities = [''chat'', ''streaming'', ''tools'', ''thinking'', ''native_anthropic'', ''rate_limit''],
     pd_credential_env = Some (u ''FIREWORKS_API_KEY''), pd_credential_url = Some (u ''https://fireworks.ai/account/api-keys''),
     pd_credential_attr = Some (u ''fireworks_api_key''), pd_static_credential = None,
     pd_default_base_url = Some FIREWORKS_DEFAULT_BASE, pd_base_url_attr = None, pd_proxy_attr = Some (u ''fireworks_proxy'')\<rparr>"

definition descriptor_zai :: provider_descriptor where
  "descriptor_zai = \<lparr>pd_provider_id = u ''zai'', pd_transport_type = Anthropic_Messages,
     pd_capabilities = [''chat'', ''streaming'', ''tools'', ''thinking'', ''native_anthropic'', ''rate_limit''],
     pd_credential_env = Some (u ''ZAI_API_KEY''), pd_credential_url = None,
     pd_credential_attr = Some (u ''zai_api_key''), pd_static_credential = None,
     pd_default_base_url = Some ZAI_DEFAULT_BASE, pd_base_url_attr = None, pd_proxy_attr = Some (u ''zai_proxy'')\<rparr>"

definition descriptor_lmstudio :: provider_descriptor where
  "descriptor_lmstudio = \<lparr>pd_provider_id = u ''lmstudio'', pd_transport_type = Anthropic_Messages,
     pd_capabilities = [''chat'', ''streaming'', ''tools'', ''native_anthropic'', ''local''],
     pd_credential_env = None, pd_credential_url = None,
     pd_credential_attr = None, pd_static_credential = Some (u ''lm-studio''),
     pd_default_base_url = Some LMSTUDIO_DEFAULT_BASE, pd_base_url_attr = Some (u ''lm_studio_base_url''), pd_proxy_attr = Some (u ''lmstudio_proxy'')\<rparr>"

definition descriptor_llamacpp :: provider_descriptor where
  "descriptor_llamacpp = \<lparr>pd_provider_id = u ''llamacpp'', pd_transport_type = Anthropic_Messages,
     pd_capabilities = [''chat'', ''streaming'', ''tools'', ''native_anthropic'', ''local''],
     pd_credential_env = None, pd_credential_url = None,
     pd_credential_attr = None, pd_static_credential = Some (u ''llamacpp''),
     pd_default_base_url = Some LLAMACPP_DEFAULT_BASE, pd_base_url_attr = Some (u ''llamacpp_base_url''), pd_proxy_attr = Some (u ''llamacpp_proxy'')\<rparr>"

definition descriptor_ollama :: provider_descriptor where
  "descriptor_ollama = \<lparr>pd_provider_id = u ''ollama'', pd_transport_type = Anthropic_Messages,
     pd_capabilities = [''chat'', ''streaming'', ''tools'', ''thinking'', ''native_anthropic'', ''local''],
     pd_credential_env = None, pd_credential_url = None,
     pd_credential_attr = None, pd_static_credential = Some (u ''ollama''),
     pd_default_base_url = Some OLLAMA_DEFAULT_BASE, pd_base_url_attr = Some (u ''ollama_base_url''), pd_proxy_attr = None\<rparr>"

definition descriptor_aerolink :: provider_descriptor where
  "descriptor_aerolink = \<lparr>pd_provider_id = u ''aerolink'', pd_transport_type = Anthropic_Messages,
     pd_capabilities = [''chat'', ''streaming'', ''tools'', ''thinking'', ''native_anthropic'', ''rate_limit''],
     pd_credential_env = Some (u ''AEROLINK_API_KEY''), pd_credential_url = Some (u ''https://aerolink.lat/dashboard/api-keys''),
     pd_credential_attr = Some (u ''aerolink_api_key''), pd_static_credential = None,
     pd_default_base_url = Some AEROLINK_DEFAULT_BASE, pd_base_url_attr = Some (u ''aerolink_base_url''), pd_proxy_attr = Some (u ''aerolink_proxy'')\<rparr>"

definition descriptor_github_models :: provider_descriptor where
  "descriptor_github_models = \<lparr>pd_provider_id = u ''github_models'', pd_transport_type = Openai_Chat,
     pd_capabilities = [''chat'', ''streaming'', ''tools'', ''rate_limit''],
     pd_credential_env = Some (u ''GITHUB_TOKEN''), pd_credential_url = Some (u ''https://github.com/settings/tokens''),
     pd_credential_attr = Some (u ''github_token''), pd_static_credential = None,
     pd_default_base_url = Some GITHUB_MODELS_DEFAULT_BASE, pd_base_url_attr = None, pd_proxy_attr = Some (u ''github_models_proxy'')\<rparr>"

definition descriptor_openai :: provider_descriptor where
  "descriptor_openai = \<lparr>pd_provider_id = u ''openai'', pd_transport_type = Openai_Chat,
     pd_capabilities = [''chat'', ''streaming'', ''tools'', ''rate_limit''],
     pd_credential_env = Some (u ''OPENAI_API_KEY''), pd_credential_url = Some (u ''https://platform.openai.com/api-keys''),
     pd_credential_attr = Some (u ''openai_api_key''), pd_static_credential = None,
     pd_default_base_url = Some OPENAI_DEFAULT_BASE, pd_base_url_attr = None, pd_proxy_attr = Some (u ''openai_proxy'')\<rparr>"

definition PROVIDER_CATALOG :: "provider_descriptor list" where
  "PROVIDER_CATALOG =
     [descriptor_nvidia_nim, descriptor_open_router, descriptor_gemini, descriptor_deepseek, descriptor_mistral,
      descriptor_mistral_codestral, descriptor_opencode, descriptor_opencode_go, descriptor_wafer, descriptor_kimi,
      descriptor_cerebras, descriptor_groq, descriptor_fireworks, descriptor_zai, descriptor_lmstudio, descriptor_llamacpp,
      descriptor_ollama, descriptor_aerolink, descriptor_github_models, descriptor_openai]"

definition SUPPORTED_PROVIDER_IDS :: "pystr list" where
  "SUPPORTED_PROVIDER_IDS = map pd_provider_id PROVIDER_CATALOG"

definition provider_descriptor_of :: "pystr \<Rightarrow> provider_descriptor option" where
  "provider_descriptor_of provider_id = List.find (\<lambda>d. pd_provider_id d = provider_id) PROVIDER_CATALOG"

lemmas descriptor_defs = descriptor_nvidia_nim_def descriptor_open_router_def descriptor_gemini_def descriptor_deepseek_def
  descriptor_mistral_def descriptor_mistral_codestral_def descriptor_opencode_def descriptor_opencode_go_def
  descriptor_wafer_def descriptor_kimi_def descriptor_cerebras_def descriptor_groq_def descriptor_fireworks_def
  descriptor_zai_def descriptor_lmstudio_def descriptor_llamacpp_def descriptor_ollama_def descriptor_aerolink_def
  descriptor_github_models_def descriptor_openai_def

lemma supported_ids:
  "SUPPORTED_PROVIDER_IDS = map u
     [''nvidia_nim'', ''open_router'', ''gemini'', ''deepseek'', ''mistral'', ''mistral_codestral'', ''opencode'',
      ''opencode_go'', ''wafer'', ''kimi'', ''cerebras'', ''groq'', ''fireworks'', ''zai'', ''lmstudio'', ''llamacpp'',
      ''ollama'', ''aerolink'', ''github_models'', ''openai'']"
  by (simp add: SUPPORTED_PROVIDER_IDS_def PROVIDER_CATALOG_def descriptor_defs)

lemma supported_distinct: "distinct SUPPORTED_PROVIDER_IDS"
  by (simp add: supported_ids)

lemma descriptor_found: "p \<in> set SUPPORTED_PROVIDER_IDS \<longleftrightarrow> provider_descriptor_of p \<noteq> None"
  by (auto simp: SUPPORTED_PROVIDER_IDS_def provider_descriptor_of_def find_None_iff)

end
