(* ===== verification/Router.thy ===== *)
theory Router
  imports MessageService Catalog
begin

text \<open>
  Which provider and model answer a request: the model ids that the gateway advertises
  (\<open>api/gateway_model_ids.py\<close>), the mapping of Claude's model names by the settings (\<open>config/settings.py\<close>) and the
  routing rules with their sticky sessions (\<open>api/model_router.py\<close>).  \<open>lower\<close> is \<open>str.lower\<close>; the token count, the
  hour and the random number of a request are arguments.
\<close>

section \<open>Provider ids and gateway ids\<close>

definition GATEWAY_MODEL_ID_PREFIX :: pystr where
  "GATEWAY_MODEL_ID_PREFIX = u ''claude-freecc-thinking''"

definition NO_THINKING_GATEWAY_MODEL_ID_PREFIX :: pystr where
  "NO_THINKING_GATEWAY_MODEL_ID_PREFIX = u ''claude-3-freecc-no-thinking''"

definition gateway_model_id :: "pystr \<Rightarrow> pystr" where
  "gateway_model_id provider_model_ref = GATEWAY_MODEL_ID_PREFIX @ [47] @ provider_model_ref"

definition no_thinking_gateway_model_id :: "pystr \<Rightarrow> pystr" where
  "no_thinking_gateway_model_id provider_model_ref = NO_THINKING_GATEWAY_MODEL_ID_PREFIX @ [47] @ provider_model_ref"

record decoded_id =
  di_provider :: pystr
  di_model :: pystr
  di_force_thinking :: "bool option"

definition decode_gateway_model_id :: "pystr \<Rightarrow> decoded_id option" where
  "decode_gateway_model_id model_name =
     (case str_partition [47] model_name of (pre, separator, remainder) \<Rightarrow>
        if \<not> separator \<or> pre \<notin> {GATEWAY_MODEL_ID_PREFIX, NO_THINKING_GATEWAY_MODEL_ID_PREFIX} then None
        else (case str_partition [47] remainder of (provider_id, provider_separator, provider_model) \<Rightarrow>
          if \<not> provider_separator \<or> provider_model = [] then None
          else Some \<lparr>di_provider = provider_id, di_model = provider_model,
                     di_force_thinking = (if pre = GATEWAY_MODEL_ID_PREFIX then None else Some False)\<rparr>))"

section \<open>Settings\<close>

text \<open>
  The settings that routing reads.  \<open>st_api_key\<close> gives the value of a key field by its name; the names
  are \<open>API_KEY_FIELDS\<close>.
\<close>

record settings =
  st_model :: pystr
  st_model_opus :: "pystr option"
  st_model_sonnet :: "pystr option"
  st_model_haiku :: "pystr option"
  st_thinking :: bool
  st_opus_thinking :: "bool option"
  st_sonnet_thinking :: "bool option"
  st_haiku_thinking :: "bool option"
  st_aliases :: pystr
  st_context_routing :: bool
  st_context_threshold :: int
  st_context_model :: pystr
  st_tool_routing :: bool
  st_language_routing :: bool
  st_task_routing :: bool
  st_time_routing :: bool
  st_night_start :: int
  st_night_end :: int
  st_canary :: bool
  st_canary_model :: pystr
  st_canary_percentage :: rat
  st_cost_routing :: bool
  st_failover_memory :: bool
  st_priority_groups :: pystr
  st_sticky :: bool
  st_api_key :: "pystr \<Rightarrow> pystr"

definition API_KEY_FIELDS :: "pystr list" where
  "API_KEY_FIELDS = map u
     [''open_router_api_key'', ''mistral_api_key'', ''codestral_api_key'', ''deepseek_api_key'', ''kimi_api_key'',
      ''wafer_api_key'', ''opencode_api_key'', ''zai_api_key'', ''fireworks_api_key'', ''gemini_api_key'', ''groq_api_key'',
      ''cerebras_api_key'', ''aerolink_api_key'', ''openai_api_key'', ''nvidia_nim_api_key'']"

text \<open>\<open>validate_model_format\<close>: \<open>None\<close> stands for the \<open>ValueError\<close>.\<close>

definition validate_model_format :: "pystr option \<Rightarrow> pystr option option" where
  "validate_model_format v =
     (case v of
        None \<Rightarrow> Some None
      | Some s \<Rightarrow> if str_contains [47] s \<and> parse_provider_type s \<in> set SUPPORTED_PROVIDER_IDS then Some v else None)"

definition model_for :: "(pystr \<Rightarrow> pystr) \<Rightarrow> pystr \<Rightarrow> (string \<times> 'a option) list \<Rightarrow> 'a \<Rightarrow> 'a" where
  "model_for lower claude_model_name choices dflt =
     (case filter (\<lambda>(family, v). str_contains (u family) (lower claude_model_name) \<and> v \<noteq> None) choices of
        [] \<Rightarrow> dflt
      | (_, v) # _ \<Rightarrow> the v)"

definition resolve_model :: "(pystr \<Rightarrow> pystr) \<Rightarrow> settings \<Rightarrow> pystr \<Rightarrow> pystr" where
  "resolve_model lower st claude_model_name =
     model_for lower claude_model_name
       [(''opus'', st_model_opus st), (''haiku'', st_model_haiku st), (''sonnet'', st_model_sonnet st)] (st_model st)"

definition resolve_thinking :: "(pystr \<Rightarrow> pystr) \<Rightarrow> settings \<Rightarrow> pystr \<Rightarrow> bool" where
  "resolve_thinking lower st claude_model_name =
     model_for lower claude_model_name
       [(''opus'', st_opus_thinking st), (''haiku'', st_haiku_thinking st), (''sonnet'', st_sonnet_thinking st)] (st_thinking st)"

text \<open>\<open>configured_chat_model_refs\<close>: every configured reference once, with the variables that set it.\<close>

record model_ref =
  mr_ref :: pystr
  mr_provider :: pystr
  mr_model :: pystr
  mr_sources :: "string list"

fun sources_by_ref :: "(string \<times> pystr option) list \<Rightarrow> (pystr, string list) dict \<Rightarrow> (pystr, string list) dict" where
  "sources_by_ref [] d = d"
| "sources_by_ref ((source, None) # cs) d = sources_by_ref cs d"
| "sources_by_ref ((source, Some r) # cs) d = sources_by_ref cs (dict_set r (dict_get_default d r [] @ [source]) d)"

fun collect :: "('a \<Rightarrow> py_exn + 'b) \<Rightarrow> 'a list \<Rightarrow> py_exn + 'b list" where
  "collect f [] = Inr []"
| "collect f (x # xs) = and_then (f x) (\<lambda>y. and_then (collect f xs) (\<lambda>ys. Inr (y # ys)))"

definition configured_chat_model_refs :: "settings \<Rightarrow> py_exn + model_ref list" where
  "configured_chat_model_refs st =
     collect (\<lambda>(r, sources). and_then (parse_model_name r) (\<lambda>model_id.
         Inr \<lparr>mr_ref = r, mr_provider = parse_provider_type r, mr_model = model_id, mr_sources = sources\<rparr>))
       (sources_by_ref [(''MODEL'', Some (st_model st)), (''MODEL_OPUS'', st_model_opus st),
          (''MODEL_SONNET'', st_model_sonnet st), (''MODEL_HAIKU'', st_model_haiku st)] [])"

section \<open>Resolving a model name\<close>

record resolved_model =
  rm_original_model :: pystr
  rm_provider_id :: pystr
  rm_provider_model :: pystr
  rm_provider_model_ref :: pystr
  rm_thinking_enabled :: bool

fun parse_aliases :: "pystr list \<Rightarrow> (pystr, pystr) dict \<Rightarrow> (pystr, pystr) dict" where
  "parse_aliases [] aliases = aliases"
| "parse_aliases (item # items) aliases =
     parse_aliases items
       (case str_partition [58] item of
          (k, found, v) \<Rightarrow> if found then dict_set (str_strip k) (str_strip v) aliases else aliases)"

definition apply_aliases :: "settings \<Rightarrow> pystr \<Rightarrow> pystr" where
  "apply_aliases st model_name =
     (if st_aliases st = [] then model_name
      else dict_get_default (parse_aliases (str_split 44 (st_aliases st)) []) model_name model_name)"

definition direct_provider_model :: "pystr \<Rightarrow> (pystr \<times> pystr \<times> bool option) option" where
  "direct_provider_model model_name =
     (case decode_gateway_model_id model_name of
        Some d \<Rightarrow>
          if di_provider d \<notin> set SUPPORTED_PROVIDER_IDS then None
          else Some (di_provider d, di_model d, di_force_thinking d)
      | None \<Rightarrow>
          (case str_partition [47] model_name of (provider_id, separator, provider_model) \<Rightarrow>
             if \<not> separator \<or> provider_id \<notin> set SUPPORTED_PROVIDER_IDS \<or> provider_model = [] then None
             else Some (provider_id, provider_model, None)))"

definition resolve :: "(pystr \<Rightarrow> pystr) \<Rightarrow> settings \<Rightarrow> pystr \<Rightarrow> py_exn + resolved_model" where
  "resolve lower st name0 =
     (let claude_model_name = apply_aliases st name0 in
      case direct_provider_model claude_model_name of
        Some (provider_id, provider_model, force) \<Rightarrow>
          Inr \<lparr>rm_original_model = claude_model_name, rm_provider_id = provider_id, rm_provider_model = provider_model,
               rm_provider_model_ref = claude_model_name,
               rm_thinking_enabled = (case force of Some b \<Rightarrow> b | None \<Rightarrow> resolve_thinking lower st provider_model)\<rparr>
      | None \<Rightarrow>
          (let r = resolve_model lower st claude_model_name in
           and_then (parse_model_name r) (\<lambda>provider_model.
             Inr \<lparr>rm_original_model = claude_model_name, rm_provider_id = parse_provider_type r,
                  rm_provider_model = provider_model, rm_provider_model_ref = r,
                  rm_thinking_enabled = resolve_thinking lower st claude_model_name\<rparr>)))"

section \<open>The routing rules\<close>

text \<open>
  A part of a message's content is a plain dict or a validated block (a pydantic model).  Requests
  that come in through the API hold validated blocks only.
\<close>

datatype content_part = DictPart json | BlockPart json
datatype message_content = ContentText pystr | ContentParts "content_part list"

record messages_request =
  rq_model :: pystr
  rq_messages :: "(pystr \<times> message_content) list"
  rq_system :: json
  rq_tools :: "json list"

record route_env =
  ro_lower :: "pystr \<Rightarrow> pystr"
  ro_tokens :: "messages_request \<Rightarrow> int"
  ro_hour :: int
  ro_random :: rat

fun parts_text :: "content_part list \<Rightarrow> pystr \<Rightarrow> py_exn + pystr" where
  "parts_text [] acc = Inr acc"
| "parts_text (DictPart part # ps) acc =
     (if jget (u ''type'') part = JStr (u ''text'') then
        (case jget_default (u ''text'') (JStr []) part of
           JStr t \<Rightarrow> parts_text ps (acc @ [32] @ t)
         | _ \<Rightarrow> Inl TypeError)
      else parts_text ps acc)"
| "parts_text (BlockPart part # ps) acc = parts_text ps acc"

fun user_text :: "(pystr \<times> message_content) list \<Rightarrow> pystr \<Rightarrow> py_exn + pystr" where
  "user_text [] acc = Inr acc"
| "user_text ((role, content) # ms) acc =
     (if role = u ''user'' then
        (case content of
           ContentText t \<Rightarrow> user_text ms (acc @ [32] @ t)
         | ContentParts ps \<Rightarrow> and_then (parts_text ps acc) (user_text ms))
      else user_text ms acc)"

definition coding_keywords :: "string list" where
  "coding_keywords = [''def '', ''function'', ''class '', ''import '', ''git'', ''docker'', ''rust'', ''java'', ''python'',
     ''code'', ''bug'', ''refactor'', ''lint'']"

definition math_keywords :: "string list" where
  "math_keywords = [''math'', ''equation'', ''solve'', ''integral'', ''matrix'', ''derivative'', ''formula'', ''calculate'']"

definition mentions :: "string list \<Rightarrow> pystr \<Rightarrow> bool" where
  "mentions keywords text_lower \<longleftrightarrow> list_ex (\<lambda>kw. str_contains (u kw) text_lower) keywords"

definition mostly_foreign :: "pystr \<Rightarrow> bool" where
  "mostly_foreign txt \<longleftrightarrow> 0 < length txt \<and> 15 / 100 < (of_nat (length (filter (\<lambda>c. 127 < c) txt)) / of_nat (length txt) :: rat)"

definition is_night :: "settings \<Rightarrow> int \<Rightarrow> bool" where
  "is_night st hr \<longleftrightarrow>
     (if st_night_start st > st_night_end st then hr \<ge> st_night_start st \<or> hr < st_night_end st
      else st_night_start st \<le> hr \<and> hr < st_night_end st)"

text \<open>Rules 3 to 9: the first rule that is switched on decides, whether it changes the model or not.\<close>

definition apply_rules :: "route_env \<Rightarrow> settings \<Rightarrow> messages_request \<Rightarrow> pystr \<Rightarrow> pystr \<Rightarrow> pystr" where
  "apply_rules env st req txt model_name =
     (if st_context_routing st then
        (if st_context_threshold st < ro_tokens env req then st_context_model st else model_name)
      else if st_tool_routing st \<and> rq_tools req \<noteq> [] then u ''openai/gpt-4o''
      else if st_language_routing st then
        (if mostly_foreign txt then u ''gemini/gemini-2.5-pro'' else model_name)
      else if st_task_routing st then
        (if mentions coding_keywords (ro_lower env txt) then u ''github_models/claude-3-5-sonnet''
         else if mentions math_keywords (ro_lower env txt) then u ''gemini/gemini-2.5-pro''
         else model_name)
      else if st_time_routing st then
        (if is_night st (ro_hour env) then u ''aerolink/claude-sonnet-4-6'' else model_name)
      else if st_canary st then
        (if st_canary_model st \<noteq> [] \<and> ro_random env * 100 < st_canary_percentage st then st_canary_model st else model_name)
      else if st_cost_routing st then
        (if \<not> str_contains [47] model_name then u ''aerolink/claude-sonnet-4-6'' else model_name)
      else model_name)"

definition failover_memory :: "settings \<Rightarrow> pystr option \<Rightarrow> pystr \<Rightarrow> pystr" where
  "failover_memory st last_successful model_name =
     (case last_successful of
        Some p \<Rightarrow> if st_failover_memory st \<and> p \<noteq> [] \<and> \<not> str_contains [47] model_name then p @ [47] @ model_name else model_name
      | None \<Rightarrow> model_name)"

definition has_api_key :: "settings \<Rightarrow> pystr \<Rightarrow> bool" where
  "has_api_key st p \<longleftrightarrow>
     p @ u ''_api_key'' \<in> set API_KEY_FIELDS \<and> st_api_key st (p @ u ''_api_key'') \<noteq> []"

fun priority_groups :: "pystr list \<Rightarrow> pystr list list" where
  "priority_groups [] = []"
| "priority_groups (group_part # parts) =
     (case str_partition [58] group_part of
        (_, found, provs) \<Rightarrow>
          if found then map str_strip (str_split 44 provs) # priority_groups parts else priority_groups parts)"

definition target_provider :: "settings \<Rightarrow> pystr option" where
  "target_provider st =
     List.find (\<lambda>p. p = u ''aerolink'' \<or> has_api_key st p) (concat (priority_groups (str_split 59 (st_priority_groups st))))"

definition provider_priority :: "settings \<Rightarrow> pystr \<Rightarrow> pystr" where
  "provider_priority st model_name =
     (if st_priority_groups st \<noteq> [] \<and> \<not> str_contains [47] model_name then
        (case target_provider st of Some p \<Rightarrow> if p \<noteq> [] then p @ [47] @ model_name else model_name | None \<Rightarrow> model_name)
      else model_name)"

text \<open>\<open>extract_claude_session_id_from_headers\<close> of \<open>core/trace.py\<close>; the headers are strings.\<close>

definition extract_session_id :: "(pystr \<Rightarrow> pystr) \<Rightarrow> (pystr, pystr) dict \<Rightarrow> pystr option" where
  "extract_session_id lower headers =
     (let lowered = foldl (\<lambda>d (k, v). dict_set (lower k) v d) [] headers in
      case filter (\<lambda>v. v \<noteq> []) (map (\<lambda>key. dict_get_default lowered (u key) [])
        [''anthropic-session-id'', ''x-anthropic-session-id'', ''claude-session-id'', ''x-claude-session-id'']) of
        [] \<Rightarrow> None
      | sid # _ \<Rightarrow> Some sid)"

record router =
  session_provider_map :: "(pystr, resolved_model) dict"
  last_successful_provider :: "pystr option"

definition set_last_successful_provider :: "pystr \<Rightarrow> router \<Rightarrow> router" where
  "set_last_successful_provider provider_id ro = ro\<lparr>last_successful_provider := Some provider_id\<rparr>"

definition session_of :: "route_env \<Rightarrow> settings \<Rightarrow> (pystr, pystr) dict \<Rightarrow> pystr option" where
  "session_of env st headers = (if headers \<noteq> [] \<and> st_sticky st then extract_session_id (ro_lower env) headers else None)"

definition save_session :: "pystr option \<Rightarrow> resolved_model \<Rightarrow> router \<Rightarrow> router" where
  "save_session session resolved ro =
     (case session of
        None \<Rightarrow> ro
      | Some sid \<Rightarrow>
          let m = dict_set sid resolved (session_provider_map ro) in
          ro\<lparr>session_provider_map := if 1000 < length m then tl m else m\<rparr>)"

text \<open>The request is returned with the provider's model in place of the model asked for.\<close>

definition routed :: "messages_request \<Rightarrow> resolved_model \<Rightarrow> messages_request \<times> resolved_model" where
  "routed req resolved = (req\<lparr>rq_model := rm_provider_model resolved\<rparr>, resolved)"

definition resolve_messages_request ::
    "route_env \<Rightarrow> settings \<Rightarrow> messages_request \<Rightarrow> (pystr, pystr) dict \<Rightarrow> router \<Rightarrow>
     (py_exn + messages_request \<times> resolved_model) \<times> router" where
  "resolve_messages_request env st req headers ro =
     (let model_name = apply_aliases st (rq_model req);
          session = session_of env st headers
      in case Option.bind session (dict_get (session_provider_map ro)) of
           Some resolved \<Rightarrow> (Inr (routed req resolved), ro)
         | None \<Rightarrow>
             (case and_then (user_text (rq_messages req) []) (\<lambda>txt.
                 resolve (ro_lower env) st
                   (provider_priority st
                     (failover_memory st (last_successful_provider ro) (apply_rules env st req txt model_name)))) of
                Inl e \<Rightarrow> (Inl e, ro)
              | Inr resolved \<Rightarrow> (Inr (routed req resolved), save_session session resolved ro)))"

definition resolve_token_count_request :: "(pystr \<Rightarrow> pystr) \<Rightarrow> settings \<Rightarrow> messages_request \<Rightarrow> py_exn + messages_request \<times> resolved_model" where
  "resolve_token_count_request lower st req = and_then (resolve lower st (rq_model req)) (\<lambda>resolved. Inr (routed req resolved))"

section \<open>Advertised ids\<close>

lemma no_slash:
  "p \<in> set SUPPORTED_PROVIDER_IDS \<Longrightarrow> 47 \<notin> set p"
  "47 \<notin> set GATEWAY_MODEL_ID_PREFIX" "47 \<notin> set NO_THINKING_GATEWAY_MODEL_ID_PREFIX"
  by (auto simp: supported_ids GATEWAY_MODEL_ID_PREFIX_def NO_THINKING_GATEWAY_MODEL_ID_PREFIX_def u_def)

lemma prefixes_differ [simp]: "NO_THINKING_GATEWAY_MODEL_ID_PREFIX \<noteq> GATEWAY_MODEL_ID_PREFIX"
  by (simp add: GATEWAY_MODEL_ID_PREFIX_def NO_THINKING_GATEWAY_MODEL_ID_PREFIX_def)

lemma slash_partition: "47 \<notin> set p \<Longrightarrow> str_partition [47] (p @ 47 # m) = (p, True, m)"
  by (rule partition_char)

lemma gateway_decoded:
  assumes "p \<in> set SUPPORTED_PROVIDER_IDS" "m \<noteq> []"
  shows "decode_gateway_model_id (gateway_model_id (p @ [47] @ m)) = Some \<lparr>di_provider = p, di_model = m, di_force_thinking = None\<rparr>"
    "decode_gateway_model_id (no_thinking_gateway_model_id (p @ [47] @ m)) = Some \<lparr>di_provider = p, di_model = m, di_force_thinking = Some False\<rparr>"
  using no_slash(1) [OF assms(1)] assms(2)
  by (simp_all add: decode_gateway_model_id_def gateway_model_id_def no_thinking_gateway_model_id_def slash_partition no_slash)

text \<open>C30 (roundtrip): the ids that the gateway advertises for a provider and model resolve to exactly that provider and model, unless an alias takes them; the
  id without thinking turns thinking off, the other one leaves it to the settings.\<close>

theorem advertised_ids_resolve:
  assumes "p \<in> set SUPPORTED_PROVIDER_IDS" "m \<noteq> []"
    and "apply_aliases st (gateway_model_id (p @ [47] @ m)) = gateway_model_id (p @ [47] @ m)"
    and "apply_aliases st (no_thinking_gateway_model_id (p @ [47] @ m)) = no_thinking_gateway_model_id (p @ [47] @ m)"
  shows "map_sum id (\<lambda>r. (rm_provider_id r, rm_provider_model r, rm_thinking_enabled r)) (resolve lower st (gateway_model_id (p @ [47] @ m))) =
      Inr (p, m, resolve_thinking lower st m) \<and>
    map_sum id (\<lambda>r. (rm_provider_id r, rm_provider_model r, rm_thinking_enabled r)) (resolve lower st (no_thinking_gateway_model_id (p @ [47] @ m))) =
      Inr (p, m, False)"
  using assms(1,3,4) gateway_decoded [OF assms(1,2)] by (simp add: resolve_def direct_provider_model_def Let_def)

section \<open>Every request is routed to a supported provider\<close>

definition valid_settings :: "settings \<Rightarrow> bool" where
  "valid_settings st \<longleftrightarrow>
     list_all (\<lambda>v. validate_model_format v \<noteq> None) [Some (st_model st), st_model_opus st, st_model_sonnet st, st_model_haiku st]"

lemma model_for_valid:
  assumes "P dflt" "list_all (\<lambda>(family, v). case v of None \<Rightarrow> True | Some x \<Rightarrow> P x) choices"
  shows "P (model_for lower name choices dflt)"
proof (cases "filter (\<lambda>(family, v). str_contains (u family) (lower name) \<and> v \<noteq> None) choices")
  case Nil
  then show ?thesis using assms(1) by (simp add: model_for_def)
next
  case (Cons c cs)
  obtain family v where c: "c = (family, v)" by (cases c)
  have "c \<in> set (filter (\<lambda>(family, v). str_contains (u family) (lower name) \<and> v \<noteq> None) choices)" by (simp only: Cons list.set_intros)
  then have "v \<noteq> None" "(family, v) \<in> set choices" by (auto simp: c)
  then show ?thesis using assms(2) Cons c by (auto simp: model_for_def list_all_iff)
qed

definition valid_ref :: "pystr \<Rightarrow> bool" where
  "valid_ref s \<longleftrightarrow> str_contains [47] s \<and> parse_provider_type s \<in> set SUPPORTED_PROVIDER_IDS"

lemma valid_settings_refs:
  assumes "valid_settings st"
  shows "valid_ref (st_model st)" "st_model_opus st = Some s \<Longrightarrow> valid_ref s" "st_model_sonnet st = Some s \<Longrightarrow> valid_ref s"
    "st_model_haiku st = Some s \<Longrightarrow> valid_ref s"
  using assms by (auto simp: valid_settings_def validate_model_format_def valid_ref_def split: if_splits)

lemma resolve_model_valid: "valid_settings st \<Longrightarrow> valid_ref (resolve_model lower st name)"
  unfolding resolve_model_def by (rule model_for_valid) (auto simp: valid_settings_refs split: option.splits)

lemma valid_ref_model: "valid_ref s \<Longrightarrow> \<exists>m. parse_model_name s = Inr m"
  by (auto simp: valid_ref_def parse_model_name_def str_contains_def str_partition_def)

lemma resolve_supported:
  assumes "valid_settings st"
  shows "\<exists>r. resolve lower st name = Inr r \<and> rm_provider_id r \<in> set SUPPORTED_PROVIDER_IDS"
proof (cases "direct_provider_model (apply_aliases st name)")
  case None
  have r: "valid_ref (resolve_model lower st (apply_aliases st name))" using assms by (rule resolve_model_valid)
  obtain m where "parse_model_name (resolve_model lower st (apply_aliases st name)) = Inr m" using valid_ref_model [OF r] by blast
  then show ?thesis using None r by (simp add: resolve_def Let_def valid_ref_def)
next
  case (Some d)
  obtain p m f where d: "d = (p, m, f)" by (cases d)
  have "p \<in> set SUPPORTED_PROVIDER_IDS"
    using Some d by (auto simp: direct_provider_model_def split: option.splits prod.splits if_splits)
  then show ?thesis using Some d by (simp add: resolve_def Let_def)
qed

text \<open>What happens to the router: requests, and successes of providers.\<close>

datatype router_event = Route route_env messages_request "(pystr, pystr) dict" | Succeeded pystr

fun route_events :: "settings \<Rightarrow> router_event list \<Rightarrow> router \<Rightarrow> (py_exn + messages_request \<times> resolved_model) list \<times> router" where
  "route_events st [] ro = ([], ro)"
| "route_events st (Succeeded p # evs) ro = route_events st evs (set_last_successful_provider p ro)"
| "route_events st (Route env req headers # evs) ro =
     (case resolve_messages_request env st req headers ro of
        (r, ro1) \<Rightarrow> (case route_events st evs ro1 of (rs, ro2) \<Rightarrow> (r # rs, ro2)))"

definition validated_request :: "messages_request \<Rightarrow> bool" where
  "validated_request req \<longleftrightarrow>
     list_all (\<lambda>(role, content). case content of ContentText _ \<Rightarrow> True
        | ContentParts ps \<Rightarrow> list_all (\<lambda>p. case p of BlockPart _ \<Rightarrow> True | DictPart _ \<Rightarrow> False) ps) (rq_messages req)"

definition router_ok :: "router \<Rightarrow> bool" where
  "router_ok ro \<longleftrightarrow> dict_wf (session_provider_map ro) \<and> length (session_provider_map ro) \<le> 1000 \<and>
     list_all (\<lambda>(sid, r). rm_provider_id r \<in> set SUPPORTED_PROVIDER_IDS) (session_provider_map ro)"

text \<open>The text of validated blocks is not looked at.\<close>

lemma blocks_ignored:
  "list_all (\<lambda>p. case p of BlockPart _ \<Rightarrow> True | DictPart _ \<Rightarrow> False) ps \<Longrightarrow> parts_text ps acc = Inr acc"
  by (induction ps acc rule: parts_text.induct) auto

lemma validated_text:
  assumes "validated_request req"
  shows "\<exists>txt. user_text (rq_messages req) acc = Inr txt"
proof -
  have "list_all (\<lambda>(role, content). case content of ContentText _ \<Rightarrow> True
        | ContentParts ps \<Rightarrow> list_all (\<lambda>p. case p of BlockPart _ \<Rightarrow> True | DictPart _ \<Rightarrow> False) ps) ms \<Longrightarrow>
      \<exists>txt. user_text ms acc = Inr txt" for ms
    by (induction ms acc rule: user_text.induct) (auto simp: blocks_ignored split: message_content.splits)
  then show ?thesis using assms by (simp add: validated_request_def)
qed

lemma session_lookup:
  "Option.bind session (dict_get m) = Some r \<longleftrightarrow> (\<exists>sid. session = Some sid \<and> dict_get m sid = Some r)"
  "Option.bind session (dict_get m) = None \<longleftrightarrow> (\<forall>sid. session = Some sid \<longrightarrow> dict_get m sid = None)"
  by (cases session; simp)+

lemma set_tl: "set (tl xs) \<subseteq> set xs"
  by (cases xs) auto

lemma save_session_ok:
  assumes "router_ok ro" "Option.bind session (dict_get (session_provider_map ro)) = None" "rm_provider_id r \<in> set SUPPORTED_PROVIDER_IDS"
  shows "router_ok (save_session session r ro)"
proof (cases session)
  case (Some sid)
  let ?m = "session_provider_map ro"
  have "dict_set sid r ?m = ?m @ [(sid, r)]" "sid \<notin> fst ` set ?m"
    using assms(2) Some by (simp_all add: dict_set_new dict_get_None_iff)
  moreover have "set (tl (?m @ [(sid, r)])) \<subseteq> set (?m @ [(sid, r)])" by (rule set_tl)
  moreover have "distinct (map fst (tl (?m @ [(sid, r)])))" if "distinct (map fst (?m @ [(sid, r)]))"
    using that by (simp only: map_tl distinct_tl)
  ultimately show ?thesis using assms Some by (auto simp: save_session_def router_ok_def Let_def list_all_iff)
qed (use assms in \<open>simp add: save_session_def\<close>)

lemma route_ok:
  assumes "valid_settings st" "router_ok ro" "resolve_messages_request env st req headers ro = (res, ro')"
  shows "router_ok ro'" "res = Inr (q, r) \<Longrightarrow> rm_provider_id r \<in> set SUPPORTED_PROVIDER_IDS \<and> q = req\<lparr>rq_model := rm_provider_model r\<rparr>"
    "validated_request req \<Longrightarrow> \<exists>q r. res = Inr (q, r)"
proof -
  let ?session = "session_of env st headers"
  have "router_ok ro' \<and> (\<forall>q r. res = Inr (q, r) \<longrightarrow> rm_provider_id r \<in> set SUPPORTED_PROVIDER_IDS \<and> q = req\<lparr>rq_model := rm_provider_model r\<rparr>) \<and>
      (validated_request req \<longrightarrow> (\<exists>q r. res = Inr (q, r)))"
  proof (cases "Option.bind ?session (dict_get (session_provider_map ro))")
    case (Some r)
    then have "rm_provider_id r \<in> set SUPPORTED_PROVIDER_IDS"
      using assms(2) by (auto simp: session_lookup router_ok_def list_all_iff dest!: dict_get_in_set)
    then show ?thesis using assms(2,3) Some by (auto simp: resolve_messages_request_def routed_def Let_def)
  next
    case None
    show ?thesis
    proof (cases "user_text (rq_messages req) []")
      case (Inl e)
      then show ?thesis using assms(2,3) None validated_text [of req "[]"] by (auto simp: resolve_messages_request_def Let_def)
    next
      case (Inr words)
      let ?name = "provider_priority st (failover_memory st (last_successful_provider ro) (apply_rules env st req words (apply_aliases st (rq_model req))))"
      obtain r where r: "resolve (ro_lower env) st ?name = Inr r" "rm_provider_id r \<in> set SUPPORTED_PROVIDER_IDS"
        using resolve_supported [OF assms(1)] by blast
      then show ?thesis using save_session_ok [OF assms(2) None r(2)] assms(3) None Inr
        by (auto simp: resolve_messages_request_def routed_def Let_def)
    qed
  qed
  then show "router_ok ro'" "res = Inr (q, r) \<Longrightarrow> rm_provider_id r \<in> set SUPPORTED_PROVIDER_IDS \<and> q = req\<lparr>rq_model := rm_provider_model r\<rparr>"
    "validated_request req \<Longrightarrow> \<exists>q r. res = Inr (q, r)" by blast+
qed

definition ROUTER_START :: router where
  "ROUTER_START = \<lparr>session_provider_map = [], last_successful_provider = None\<rparr>"

lemma start_ok: "router_ok ROUTER_START"
  by (simp add: ROUTER_START_def router_ok_def)

lemma events_ok:
  "valid_settings st \<Longrightarrow> router_ok ro \<Longrightarrow> route_events st evs ro = (results, ro') \<Longrightarrow>
     router_ok ro' \<and> list_all (\<lambda>res. case res of Inl e \<Rightarrow> True | Inr (q, r) \<Rightarrow> rm_provider_id r \<in> set SUPPORTED_PROVIDER_IDS) results \<and>
     (list_all (\<lambda>ev. case ev of Route _ req _ \<Rightarrow> validated_request req | Succeeded _ \<Rightarrow> True) evs \<longrightarrow> list_all (\<lambda>res. \<not> isl res) results)"
proof (induction st evs ro arbitrary: results ro' rule: route_events.induct)
  case (2 st p evs ro)
  have "router_ok (set_last_successful_provider p ro)" using "2.prems"(2) by (simp add: router_ok_def set_last_successful_provider_def)
  from "2.IH" [OF "2.prems"(1) this] "2.prems"(3) show ?case by simp
next
  case (3 st env req headers evs ro)
  obtain r ro1 where step: "resolve_messages_request env st req headers ro = (r, ro1)" by fastforce
  obtain rs ro2 where rest: "route_events st evs ro1 = (rs, ro2)" by fastforce
  note ok = route_ok [OF "3.prems"(1,2) step]
  have eq: "results = r # rs" "ro' = ro2" using "3.prems"(3) step rest by simp_all
  have "case r of Inl e \<Rightarrow> True | Inr (q, m) \<Rightarrow> rm_provider_id m \<in> set SUPPORTED_PROVIDER_IDS"
    using ok(2) by (auto split: sum.split)
  moreover have "validated_request req \<Longrightarrow> \<not> isl r" using ok(3) by auto
  ultimately show ?case using "3.IH" [OF step [symmetric] "3.prems"(1) ok(1) rest] eq by auto
qed simp

text \<open>C28 (type): with validated settings, however requests and provider successes follow each other and whatever models are asked for, every request of validated
  messages is routed, to a supported provider, and the memory of sessions never holds more than 1000.\<close>

theorem requests_routed:
  assumes "valid_settings st" "route_events st evs ROUTER_START = (results, ro)"
    and "list_all (\<lambda>ev. case ev of Route _ req _ \<Rightarrow> validated_request req | Succeeded _ \<Rightarrow> True) evs"
  shows "list_all (\<lambda>res. \<exists>q r. res = Inr (q, r) \<and> rm_provider_id r \<in> set SUPPORTED_PROVIDER_IDS) results \<and> length (session_provider_map ro) \<le> 1000"
proof -
  note ok = events_ok [OF assms(1) start_ok assms(2)]
  have "\<exists>q r. res = Inr (q, r) \<and> rm_provider_id r \<in> set SUPPORTED_PROVIDER_IDS"
    if "\<not> isl res" "case res of Inl e \<Rightarrow> True | Inr (q, r) \<Rightarrow> rm_provider_id r \<in> set SUPPORTED_PROVIDER_IDS" for res :: "py_exn + messages_request \<times> resolved_model"
    using that by (cases res) auto
  then show ?thesis using ok assms(3) by (auto simp: list_all_iff router_ok_def)
qed

section \<open>Sticky sessions\<close>

text \<open>The session is in the memory, with at most \<open>k\<close> newer ones.\<close>

definition remembered :: "pystr \<Rightarrow> resolved_model \<Rightarrow> nat \<Rightarrow> router \<Rightarrow> bool" where
  "remembered sid r k ro \<longleftrightarrow> dict_wf (session_provider_map ro) \<and> (\<exists>a b. session_provider_map ro = a @ (sid, r) # b \<and> length b \<le> k)"

lemma remembered_get: "remembered sid r k ro \<Longrightarrow> dict_get (session_provider_map ro) sid = Some r"
  by (auto simp: remembered_def intro: dict_wf_get)

lemma remembered_mono: "remembered sid r k ro \<Longrightarrow> k \<le> l \<Longrightarrow> remembered sid r l ro"
  unfolding remembered_def by (meson order_trans)

lemma save_remembered:
  assumes "remembered sid r k ro" "k < 999" "Option.bind session (dict_get (session_provider_map ro)) = None"
  shows "remembered sid r (Suc k) (save_session session r' ro)"
proof (cases session)
  case None
  then show ?thesis using assms(1) by (simp add: save_session_def remembered_mono [of sid r k])
next
  case (Some s)
  let ?m = "session_provider_map ro"
  obtain a b where m: "?m = a @ (sid, r) # b" "length b \<le> k" using assms(1) by (auto simp: remembered_def)
  have new: "dict_set s r' ?m = ?m @ [(s, r')]" "s \<notin> fst ` set ?m"
    using assms(3) Some by (simp_all add: dict_set_new dict_get_None_iff)
  have wf: "dict_wf (?m @ [(s, r')])" using assms(1) new(2) by (simp add: remembered_def)
  show ?thesis
  proof (cases "1000 < length (?m @ [(s, r')])")
    case True
    then obtain e a' where "a = e # a'" using m assms(2) by (cases a) auto
    then have "session_provider_map (save_session session r' ro) = a' @ (sid, r) # b @ [(s, r')]"
      using m True new Some by (simp add: save_session_def Let_def)
    moreover have "dict_wf (a' @ (sid, r) # b @ [(s, r')])" using wf m \<open>a = e # a'\<close> by simp
    ultimately show ?thesis using m unfolding remembered_def by fastforce
  next
    case False
    then have "session_provider_map (save_session session r' ro) = a @ (sid, r) # b @ [(s, r')]"
      using m new Some by (simp add: save_session_def Let_def)
    then show ?thesis using wf m unfolding remembered_def by fastforce
  qed
qed

lemma route_remembered:
  assumes "remembered sid r k ro" "k < 999" "resolve_messages_request env st req headers ro = (res, ro')"
  shows "remembered sid r (Suc k) ro'"
  using assms save_remembered [OF assms(1,2)]
  by (auto simp: resolve_messages_request_def Let_def remembered_mono [of sid r k] split: option.splits sum.splits)

lemma events_remembered:
  "remembered sid r k ro \<Longrightarrow> k + length evs \<le> 999 \<Longrightarrow> route_events st evs ro = (results, ro') \<Longrightarrow> remembered sid r (k + length evs) ro'"
proof (induction st evs ro arbitrary: k results ro' rule: route_events.induct)
  case (2 st p evs ro)
  have "remembered sid r (Suc k) (set_last_successful_provider p ro)"
    using "2.prems"(1) by (auto simp: remembered_def set_last_successful_provider_def le_Suc_eq intro: le_SucI)
  from "2.IH" [OF this] "2.prems"(2,3) show ?case by simp
next
  case (3 st env req headers evs ro)
  obtain res ro1 where step: "resolve_messages_request env st req headers ro = (res, ro1)" by fastforce
  obtain rs ro2 where rest: "route_events st evs ro1 = (rs, ro2)" by fastforce
  have "remembered sid r (Suc k) ro1" using route_remembered [OF "3.prems"(1) _ step] "3.prems"(2) by simp
  from "3.IH" [OF step [symmetric] this _ rest] "3.prems"(2,3) show ?case by (simp add: step rest)
qed simp

text \<open>C29 (safety): a session keeps the provider and model it was first routed to for at least the next 999 events, whatever the other sessions do and whatever model the session
  asks for then.\<close>

theorem sticky_session_kept:
  assumes "router_ok ro" "session_of env st headers = Some sid" "dict_get (session_provider_map ro) sid = None"
    and "resolve_messages_request env st req headers ro = (Inr (q, r), ro1)"
    and "route_events st evs ro1 = (results, ro2)" "length evs < 1000" "session_of env' st headers' = Some sid"
  shows "resolve_messages_request env' st req' headers' ro2 = (Inr (routed req' r), ro2)"
proof -
  let ?m = "session_provider_map ro"
  have ro1: "ro1 = save_session (Some sid) r ro"
    using assms(2,3,4) by (auto simp: resolve_messages_request_def routed_def Let_def split: sum.splits)
  have new: "dict_set sid r ?m = ?m @ [(sid, r)]" "sid \<notin> fst ` set ?m"
    using assms(3) by (simp_all add: dict_set_new dict_get_None_iff)
  have wf: "dict_wf (?m @ [(sid, r)])" using assms(1) new(2) by (simp add: router_ok_def)
  have "remembered sid r 0 ro1"
  proof (cases "1000 < length (?m @ [(sid, r)])")
    case True
    then obtain e m' where m: "?m = e # m'" by (cases ?m) auto
    then have "session_provider_map ro1 = m' @ [(sid, r)]" using True new unfolding ro1 by (simp add: save_session_def Let_def)
    then show ?thesis using wf m unfolding remembered_def by auto
  next
    case False
    then have "session_provider_map ro1 = ?m @ [(sid, r)]" using new unfolding ro1 by (simp add: save_session_def Let_def)
    then show ?thesis using wf unfolding remembered_def by auto
  qed
  from events_remembered [OF this _ assms(5)] have "dict_get (session_provider_map ro2) sid = Some r"
    using assms(6) remembered_get by force
  then show ?thesis using assms(7) by (simp add: resolve_messages_request_def Let_def)
qed

section \<open>Concrete routing\<close>

definition plain_settings :: settings where
  "plain_settings = \<lparr>st_model = u ''nvidia_nim/nvidia/nemotron'', st_model_opus = Some (u ''deepseek/deepseek-chat''), st_model_sonnet = None,
     st_model_haiku = None, st_thinking = True, st_opus_thinking = None, st_sonnet_thinking = None, st_haiku_thinking = None, st_aliases = [],
     st_context_routing = False, st_context_threshold = 100000, st_context_model = u ''gemini/gemini-2.5-pro'', st_tool_routing = False,
     st_language_routing = False, st_task_routing = False, st_time_routing = False, st_night_start = 22, st_night_end = 7, st_canary = False,
     st_canary_model = [], st_canary_percentage = 5, st_cost_routing = False, st_failover_memory = False, st_priority_groups = [],
     st_sticky = True, st_api_key = (\<lambda>_. [])\<rparr>"

definition sample_route :: route_env where
  "sample_route = \<lparr>ro_lower = id, ro_tokens = (\<lambda>_. 10), ro_hour = 12, ro_random = 0\<rparr>"

definition ask :: "string \<Rightarrow> message_content \<Rightarrow> messages_request" where
  "ask name content = \<lparr>rq_model = u name, rq_messages = [(u ''user'', content)], rq_system = JNull, rq_tools = []\<rparr>"

definition routed_to :: "(py_exn + messages_request \<times> resolved_model) \<times> router \<Rightarrow> py_exn + pystr \<times> pystr" where
  "routed_to r = map_sum id (\<lambda>(q, m). (rm_provider_id m, rm_provider_model m)) (fst r)"

lemma plain_valid: "valid_settings plain_settings"
  unfolding valid_settings_def by code_simp

lemma opus_mapped:
  "routed_to (resolve_messages_request sample_route plain_settings (ask ''claude-opus-4'' (ContentText [])) [] ROUTER_START) =
     Inr (u ''deepseek'', u ''deepseek-chat'')"
  by code_simp

text \<open>
  The memory of the last working provider puts that provider before the name the client asked for, so the
  mapping of Claude's names by the settings no longer applies: the provider is asked for Claude's model.
\<close>

lemma failover_skips_mapping:
  "routed_to (resolve_messages_request sample_route (plain_settings\<lparr>st_failover_memory := True\<rparr>) (ask ''claude-opus-4'' (ContentText [])) []
      (set_last_successful_provider (u ''nvidia_nim'') ROUTER_START)) =
     Inr (u ''nvidia_nim'', u ''claude-opus-4'')"
  by code_simp

text \<open>The task of a request is recognised in a plain string but not in a content block, which is what clients send.\<close>

lemma task_in_blocks_missed:
  "routed_to (resolve_messages_request sample_route (plain_settings\<lparr>st_task_routing := True\<rparr>) (ask ''claude-opus-4'' (ContentText (u ''fix this bug''))) [] ROUTER_START) =
     Inr (u ''github_models'', u ''claude-3-5-sonnet'')"
  "routed_to (resolve_messages_request sample_route (plain_settings\<lparr>st_task_routing := True\<rparr>)
      (ask ''claude-opus-4'' (ContentParts [BlockPart (JObj [(u ''type'', JStr (u ''text'')), (u ''text'', JStr (u ''fix this bug''))])])) [] ROUTER_START) =
     Inr (u ''deepseek'', u ''deepseek-chat'')"
  by code_simp+

text \<open>With context length routing on, a short prompt switches all later rules off.\<close>

lemma short_prompt_ends_rules:
  "st_context_routing st \<Longrightarrow> ro_tokens env req \<le> st_context_threshold st \<Longrightarrow> apply_rules env st req txt name = name"
  by (simp add: apply_rules_def)

text \<open>The key of GitHub Models is in \<open>github_token\<close>: no priority group ever selects that provider.\<close>

lemma github_never_preferred: "\<not> has_api_key st (u ''github_models'')"
proof -
  have "list_all (\<lambda>n. n \<noteq> u ''github_models'' @ u ''_api_key'') API_KEY_FIELDS" by code_simp
  then show ?thesis by (auto simp: has_api_key_def list_all_iff)
qed

text \<open>A session that first asked for one model gets that model's provider for every other model too.\<close>

definition session_headers :: "(pystr, pystr) dict" where
  "session_headers = [(u ''x-claude-session-id'', u ''s1'')]"

lemma sticky_ignores_model:
  "map (map_sum id (\<lambda>(q, m). rm_provider_id m)) (fst (route_events plain_settings
      [Route sample_route (ask ''claude-haiku'' (ContentText [])) session_headers,
       Route sample_route (ask ''claude-opus-4'' (ContentText [])) session_headers] ROUTER_START)) =
     [Inr (u ''nvidia_nim''), Inr (u ''nvidia_nim'')]"
  by code_simp

theorem advertised_ids_resolve_witness:
  "map_sum id (\<lambda>r. (rm_provider_id r, rm_provider_model r, rm_thinking_enabled r))
      (resolve id plain_settings (gateway_model_id (u ''zai'' @ [47] @ u ''glm-4.6''))) = Inr (u ''zai'', u ''glm-4.6'', True)"
proof -
  have "u ''zai'' \<in> set SUPPORTED_PROVIDER_IDS" "u ''glm-4.6'' \<noteq> []" by (simp_all add: supported_ids)
  moreover have "apply_aliases plain_settings x = x" for x by (simp add: apply_aliases_def plain_settings_def)
  moreover have "resolve_thinking id plain_settings (u ''glm-4.6'')" by code_simp
  ultimately show ?thesis using advertised_ids_resolve [of "u ''zai''" "u ''glm-4.6''" plain_settings id] by simp
qed

theorem requests_routed_witness:
  "length (session_provider_map (snd (route_events plain_settings [Route sample_route (ask ''claude-opus-4'' (ContentText [])) session_headers] ROUTER_START))) \<le> 1000"
proof -
  obtain results ro where run: "route_events plain_settings [Route sample_route (ask ''claude-opus-4'' (ContentText [])) session_headers] ROUTER_START = (results, ro)"
    by fastforce
  have "length (session_provider_map ro) \<le> 1000"
    using requests_routed [OF plain_valid run] by (simp add: validated_request_def ask_def)
  then show ?thesis by (simp only: run snd_conv)
qed

theorem sticky_session_kept_witness:
  "\<exists>r ro. rm_provider_model r = u ''deepseek-chat'' \<and>
     resolve_messages_request sample_route plain_settings (ask ''claude-haiku'' (ContentText [])) session_headers ro =
       (Inr (routed (ask ''claude-haiku'' (ContentText [])) r), ro)"
proof -
  have session: "session_of sample_route plain_settings session_headers = Some (u ''s1'')" by code_simp
  have "routed_to (resolve_messages_request sample_route plain_settings (ask ''claude-opus-4'' (ContentText [])) session_headers ROUTER_START) =
      Inr (u ''deepseek'', u ''deepseek-chat'')" by code_simp
  then obtain q r ro1 where first: "resolve_messages_request sample_route plain_settings (ask ''claude-opus-4'' (ContentText [])) session_headers ROUTER_START = (Inr (q, r), ro1)"
    and r: "rm_provider_model r = u ''deepseek-chat''"
    by (cases "resolve_messages_request sample_route plain_settings (ask ''claude-opus-4'' (ContentText [])) session_headers ROUTER_START")
       (rename_tac a b, case_tac a, auto simp: routed_to_def)
  have "dict_get (session_provider_map ROUTER_START) (u ''s1'') = None" by (simp add: ROUTER_START_def)
  from sticky_session_kept [OF start_ok session this first route_events.simps(1) _ session] r show ?thesis by auto
qed

end
