(* ===== verification/Registry.thy ===== *)
theory Registry
  imports Router "HOL-Library.List_Lexorder"
begin

text \<open>
  The registry of providers with its cache of model lists (\<open>providers/registry.py\<close>), the reading of those lists
  (\<open>providers/model_listing.py\<close>), the list of models offered to the client (\<open>api/routes.py\<close>) and the check of the
  client's key (\<open>api/dependencies.py\<close>).  A provider is whatever its factory makes of its configuration.
\<close>

section \<open>Configuration of a provider\<close>

text \<open>The attributes of the settings by name; a missing one is \<open>JNull\<close>, which is no string either.\<close>

type_synonym attributes = "pystr \<Rightarrow> json"

definition string_attr :: "attributes \<Rightarrow> pystr option \<Rightarrow> pystr \<Rightarrow> pystr" where
  "string_attr attrs attr_name dflt =
     (case attr_name of
        None \<Rightarrow> dflt
      | Some a \<Rightarrow> (case attrs a of JStr s \<Rightarrow> s | _ \<Rightarrow> dflt))"

definition credential_for :: "provider_descriptor \<Rightarrow> attributes \<Rightarrow> pystr" where
  "credential_for descriptor attrs =
     (case pd_static_credential descriptor of
        Some c \<Rightarrow> c
      | None \<Rightarrow>
          (case pd_credential_attr descriptor of
             Some a \<Rightarrow> if a \<noteq> [] then string_attr attrs (Some a) [] else []
           | None \<Rightarrow> []))"

definition require_credential :: "provider_descriptor \<Rightarrow> pystr \<Rightarrow> py_exn + unit" where
  "require_credential descriptor credential =
     (if pd_credential_env descriptor = None \<or> credential \<noteq> [] \<and> str_strip credential \<noteq> [] then Inr ()
      else Inl AuthenticationError)"

record provider_config =
  pc_api_key :: pystr
  pc_base_url :: "pystr option"
  pc_options :: "(string \<times> json) list"
  pc_proxy :: pystr

definition attr_or :: "attributes \<Rightarrow> string \<times> json \<Rightarrow> string \<times> json" where
  "attr_or attrs = (\<lambda>(a, dflt). (a, if attrs (u a) = JNull then dflt else attrs (u a)))"

definition config_options :: "(string \<times> json) list" where
  "config_options =
     [(''provider_rate_limit'', JInt 40), (''provider_rate_window'', JInt 60), (''provider_max_concurrency'', JInt 5),
      (''http_read_timeout'', JReal (u ''120.0'')), (''http_write_timeout'', JReal (u ''10.0'')), (''http_connect_timeout'', JReal (u ''10.0'')),
      (''enable_model_thinking'', JBool True), (''log_raw_sse_events'', JBool False), (''log_api_error_tracebacks'', JBool False)]"

definition build_provider_config :: "provider_descriptor \<Rightarrow> attributes \<Rightarrow> py_exn + provider_config" where
  "build_provider_config descriptor attrs =
     (let credential = credential_for descriptor attrs;
          dflt = (case pd_default_base_url descriptor of Some b \<Rightarrow> b | None \<Rightarrow> []);
          base_url = string_attr attrs (pd_base_url_attr descriptor) dflt
      in and_then (require_credential descriptor credential) (\<lambda>_.
           Inr \<lparr>pc_api_key = credential, pc_base_url = (if base_url \<noteq> [] then Some base_url else pd_default_base_url descriptor),
                pc_options = map (attr_or attrs) config_options, pc_proxy = string_attr attrs (pd_proxy_attr descriptor) []\<rparr>))"

definition UnknownProviderTypeError :: py_exn where
  "UnknownProviderTypeError = OtherException (u ''UnknownProviderTypeError'')"

definition create_provider ::
    "(pystr \<Rightarrow> provider_config \<Rightarrow> py_exn + 'p) \<Rightarrow> pystr \<Rightarrow> attributes \<Rightarrow> pystr option \<Rightarrow> py_exn + 'p" where
  "create_provider factory provider_id attrs api_key =
     (case provider_descriptor_of provider_id of
        None \<Rightarrow> Inl UnknownProviderTypeError
      | Some descriptor \<Rightarrow>
          and_then (build_provider_config descriptor attrs) (\<lambda>config.
            factory provider_id (case api_key of Some k \<Rightarrow> config\<lparr>pc_api_key := k\<rparr> | None \<Rightarrow> config)))"

section \<open>The registry\<close>

record model_info =
  mi_model_id :: pystr
  mi_supports_thinking :: "bool option"

record 'p registry =
  rg_providers :: "(pystr, 'p) dict"
  rg_model_infos :: "(pystr, (pystr, model_info) dict) dict"

definition ProviderRegistry :: "'p registry" where
  "ProviderRegistry = \<lparr>rg_providers = [], rg_model_infos = []\<rparr>"

definition cache_key :: "pystr \<Rightarrow> pystr option \<Rightarrow> pystr" where
  "cache_key provider_id api_key =
     (case api_key of Some k \<Rightarrow> if k \<noteq> [] then provider_id @ u ''::'' @ k else provider_id | None \<Rightarrow> provider_id)"

definition get_provider ::
    "(pystr \<Rightarrow> provider_config \<Rightarrow> py_exn + 'p) \<Rightarrow> pystr \<Rightarrow> attributes \<Rightarrow> pystr option \<Rightarrow> 'p registry \<Rightarrow> (py_exn + 'p) \<times> 'p registry" where
  "get_provider factory provider_id attrs api_key r =
     (case dict_get (rg_providers r) (cache_key provider_id api_key) of
        Some p \<Rightarrow> (Inr p, r)
      | None \<Rightarrow>
          (case create_provider factory provider_id attrs api_key of
             Inl e \<Rightarrow> (Inl e, r)
           | Inr p \<Rightarrow> (Inr p, r\<lparr>rg_providers := dict_set (cache_key provider_id api_key) p (rg_providers r)\<rparr>)))"

definition cache_model_infos :: "pystr \<Rightarrow> model_info list \<Rightarrow> 'p registry \<Rightarrow> 'p registry" where
  "cache_model_infos provider_id infos r =
     (let clean_infos = foldl (\<lambda>d i. dict_set (mi_model_id i) i d) [] (filter (\<lambda>i. str_strip (mi_model_id i) \<noteq> []) infos)
      in r\<lparr>rg_model_infos := dict_set provider_id clean_infos (rg_model_infos r)\<rparr>)"

definition model_infos_from_ids :: "pystr list \<Rightarrow> bool option \<Rightarrow> model_info list" where
  "model_infos_from_ids model_ids supports_thinking =
     map (\<lambda>m. \<lparr>mi_model_id = m, mi_supports_thinking = supports_thinking\<rparr>) (filter (\<lambda>m. str_strip m \<noteq> []) model_ids)"

definition cache_model_ids :: "pystr \<Rightarrow> pystr list \<Rightarrow> 'p registry \<Rightarrow> 'p registry" where
  "cache_model_ids provider_id model_ids r = cache_model_infos provider_id (model_infos_from_ids model_ids None) r"

definition infos_of :: "'p registry \<Rightarrow> pystr \<Rightarrow> (pystr, model_info) dict" where
  "infos_of r provider_id = dict_get_default (rg_model_infos r) provider_id []"

definition cached_model_ids :: "'p registry \<Rightarrow> pystr \<Rightarrow> pystr list option" where
  "cached_model_ids r provider_id = map_option dict_keys (dict_get (rg_model_infos r) provider_id)"

definition cached_model_supports_thinking :: "'p registry \<Rightarrow> pystr \<Rightarrow> pystr \<Rightarrow> bool option" where
  "cached_model_supports_thinking r provider_id model_id =
     Option.bind (dict_get (infos_of r provider_id) model_id) mi_supports_thinking"

definition cached_prefixed_model_infos :: "'p registry \<Rightarrow> model_info list" where
  "cached_prefixed_model_infos r =
     concat (map (\<lambda>provider_id.
         map (\<lambda>info. \<lparr>mi_model_id = provider_id @ [47] @ mi_model_id info, mi_supports_thinking = mi_supports_thinking info\<rparr>)
           (sort_key mi_model_id (dict_values (infos_of r provider_id)))) SUPPORTED_PROVIDER_IDS)"

definition cached_prefixed_model_refs :: "'p registry \<Rightarrow> pystr list" where
  "cached_prefixed_model_refs r = map mi_model_id (cached_prefixed_model_infos r)"

definition model_list_provider_ids :: "settings \<Rightarrow> attributes \<Rightarrow> py_exn + pystr list" where
  "model_list_provider_ids st attrs =
     and_then (configured_chat_model_refs st) (\<lambda>refs.
       Inr (map pd_provider_id (filter (\<lambda>d.
         if pd_static_credential d \<noteq> None then pd_provider_id d \<in> set (map mr_provider refs)
         else pd_credential_env d \<noteq> None \<and> str_strip (credential_for d attrs) \<noteq> []) PROVIDER_CATALOG)))"

text \<open>
  \<open>_refresh_model_ids\<close>: the providers are made one after another, their lists (\<open>listing\<close>) are asked for together.
  Only a cancellation gets out.
\<close>

definition CancelledError :: py_exn where
  "CancelledError = OtherException (u ''CancelledError'')"

fun open_providers ::
    "(pystr \<Rightarrow> provider_config \<Rightarrow> py_exn + 'p) \<Rightarrow> attributes \<Rightarrow> pystr list \<Rightarrow> 'p registry \<Rightarrow> (pystr \<times> (py_exn + 'p)) list \<times> 'p registry" where
  "open_providers factory attrs [] r = ([], r)"
| "open_providers factory attrs (p # ps) r =
     (case get_provider factory p attrs None r of
        (res, r1) \<Rightarrow> (case open_providers factory attrs ps r1 of (ress, r2) \<Rightarrow> ((p, res) # ress, r2)))"

fun store_lists :: "('p \<Rightarrow> py_exn + model_info list) \<Rightarrow> (pystr \<times> (py_exn + 'p)) list \<Rightarrow> 'p registry \<Rightarrow> py_exn option \<times> 'p registry" where
  "store_lists listing [] r = (None, r)"
| "store_lists listing ((provider_id, Inl e) # ps) r = store_lists listing ps r"
| "store_lists listing ((provider_id, Inr p) # ps) r =
     (case listing p of
        Inl e \<Rightarrow> if e = CancelledError then (Some e, r) else store_lists listing ps r
      | Inr infos \<Rightarrow> store_lists listing ps (cache_model_infos provider_id infos r))"

definition refresh_model_ids ::
    "(pystr \<Rightarrow> provider_config \<Rightarrow> py_exn + 'p) \<Rightarrow> ('p \<Rightarrow> py_exn + model_info list) \<Rightarrow> attributes \<Rightarrow> pystr list \<Rightarrow> 'p registry \<Rightarrow> py_exn option \<times> 'p registry" where
  "refresh_model_ids factory listing attrs provider_ids r =
     (case open_providers factory attrs provider_ids r of (opened, r1) \<Rightarrow> store_lists listing opened r1)"

definition refresh_model_list_cache ::
    "(pystr \<Rightarrow> provider_config \<Rightarrow> py_exn + 'p) \<Rightarrow> ('p \<Rightarrow> py_exn + model_info list) \<Rightarrow> settings \<Rightarrow> attributes \<Rightarrow> bool \<Rightarrow> 'p registry \<Rightarrow> py_exn option \<times> 'p registry" where
  "refresh_model_list_cache factory listing st attrs only_missing r =
     (case model_list_provider_ids st attrs of
        Inl e \<Rightarrow> (Some e, r)
      | Inr ids \<Rightarrow>
          refresh_model_ids factory listing attrs
            (if only_missing then filter (\<lambda>p. dict_get (rg_model_infos r) p = None) ids else ids) r)"

text \<open>
  \<open>validate_configured_models\<close>: the references that the \<open>ServiceUnavailableError\<close> lists (it groups them by provider), none when the
  models are valid, or the cancellation that gets out.
\<close>

definition ref_fails :: "('p \<Rightarrow> py_exn + model_info list) \<Rightarrow> (pystr \<times> (py_exn + 'p)) list \<Rightarrow> model_ref \<Rightarrow> bool" where
  "ref_fails listing opened ref \<longleftrightarrow>
     (case dict_get opened (mr_provider ref) of
        Some (Inr p) \<Rightarrow>
          (case listing p of
             Inl e \<Rightarrow> True
           | Inr infos \<Rightarrow> mr_model ref \<notin> set (map mi_model_id (filter (\<lambda>i. str_strip (mi_model_id i) \<noteq> []) infos)))
      | _ \<Rightarrow> True)"

definition validate_configured_models ::
    "(pystr \<Rightarrow> provider_config \<Rightarrow> py_exn + 'p) \<Rightarrow> ('p \<Rightarrow> py_exn + model_info list) \<Rightarrow> settings \<Rightarrow> attributes \<Rightarrow> 'p registry \<Rightarrow>
     (py_exn + model_ref list) \<times> 'p registry" where
  "validate_configured_models factory listing st attrs r =
     (case configured_chat_model_refs st of
        Inl e \<Rightarrow> (Inl e, r)
      | Inr refs \<Rightarrow>
          (case open_providers factory attrs (rev (remdups (rev (map mr_provider refs)))) r of
             (opened, r1) \<Rightarrow>
               (case store_lists listing opened r1 of
                  (Some e, r2) \<Rightarrow> (Inl e, r2)
                | (None, r2) \<Rightarrow> (Inr (filter (ref_fails listing opened) refs), r2))))"

text \<open>
  \<open>cleanup\<close> tries every provider, also after one has failed, and empties the registry.  The refresh task that it cancels first is not
  part of the registry's state here.
\<close>

definition ExceptionGroup :: py_exn where
  "ExceptionGroup = OtherException (u ''ExceptionGroup'')"

definition cleanup_registry :: "('p \<Rightarrow> py_exn option) \<Rightarrow> 'p registry \<Rightarrow> py_exn option \<times> 'p registry" where
  "cleanup_registry cleanup r =
     ((case List.map_filter cleanup (dict_values (rg_providers r)) of
         [] \<Rightarrow> None
       | [e] \<Rightarrow> Some e
       | _ \<Rightarrow> Some ExceptionGroup), r\<lparr>rg_providers := [], rg_model_infos := []\<rparr>)"

section \<open>Model lists of the providers\<close>

definition ModelListResponseError :: py_exn where
  "ModelListResponseError = OtherException (u ''ModelListResponseError'')"

definition nonblank :: "json \<Rightarrow> pystr option" where
  "nonblank v = (case v of JStr s \<Rightarrow> if str_strip s \<noteq> [] then Some s else None | _ \<Rightarrow> None)"

definition extract_openai_model_ids :: "json \<Rightarrow> py_exn + pystr list" where
  "extract_openai_model_ids payload =
     (case jget (u ''data'') payload of
        JArr data \<Rightarrow>
          and_then (collect (\<lambda>item. case nonblank (jget (u ''id'') item) of Some m \<Rightarrow> Inr m | None \<Rightarrow> Inl ModelListResponseError) data)
            (\<lambda>ids. if ids = [] then Inl ModelListResponseError else Inr (remdups ids))
      | _ \<Rightarrow> Inl ModelListResponseError)"

definition tool_info :: "json \<Rightarrow> py_exn + model_info list" where
  "tool_info item =
     (case nonblank (jget (u ''id'') item) of
        None \<Rightarrow> Inl ModelListResponseError
      | Some model_id \<Rightarrow>
          (case jget (u ''supported_parameters'') item of
             JArr params \<Rightarrow>
               if JStr (u ''tools'') \<in> set params \<or> JStr (u ''tool_choice'') \<in> set params then
                 Inr [\<lparr>mi_model_id = model_id, mi_supports_thinking = Some (JStr (u ''reasoning'') \<in> set params)\<rparr>]
               else Inr []
           | _ \<Rightarrow> Inr []))"

definition extract_openrouter_tool_model_infos :: "json \<Rightarrow> py_exn + model_info list" where
  "extract_openrouter_tool_model_infos payload =
     (case jget (u ''data'') payload of
        JArr data \<Rightarrow> and_then (collect tool_info data) (\<lambda>infos. Inr (remdups (concat infos)))
      | _ \<Rightarrow> Inl ModelListResponseError)"

definition extract_openrouter_tool_model_ids :: "json \<Rightarrow> py_exn + pystr list" where
  "extract_openrouter_tool_model_ids payload =
     and_then (extract_openrouter_tool_model_infos payload) (\<lambda>infos. Inr (remdups (map mi_model_id infos)))"

definition ollama_ids :: "json \<Rightarrow> py_exn + pystr list" where
  "ollama_ids item =
     (case List.map_filter (\<lambda>key. nonblank (jget (u key) item)) [''model'', ''name''] of
        [] \<Rightarrow> Inl ModelListResponseError
      | ids \<Rightarrow> Inr ids)"

definition extract_ollama_model_ids :: "json \<Rightarrow> py_exn + pystr list" where
  "extract_ollama_model_ids payload =
     (case jget (u ''models'') payload of
        JArr models \<Rightarrow>
          and_then (collect ollama_ids models)
            (\<lambda>idss. if concat idss = [] then Inl ModelListResponseError else Inr (remdups (concat idss)))
      | _ \<Rightarrow> Inl ModelListResponseError)"

section \<open>The models offered to the client\<close>

record model_response =
  mo_id :: pystr
  mo_display_name :: pystr
  mo_created_at :: string

definition DISCOVERED_MODEL_CREATED_AT :: string where
  "DISCOVERED_MODEL_CREATED_AT = ''1970-01-01T00:00:00Z''"

definition SUPPORTED_CLAUDE_MODELS :: "model_response list" where
  "SUPPORTED_CLAUDE_MODELS = map (\<lambda>(i, n, c). \<lparr>mo_id = u i, mo_display_name = u n, mo_created_at = c\<rparr>)
     [(''claude-opus-4-20250514'', ''Claude Opus 4'', ''2025-05-14T00:00:00Z''),
      (''claude-sonnet-4-20250514'', ''Claude Sonnet 4'', ''2025-05-14T00:00:00Z''),
      (''claude-haiku-4-20250514'', ''Claude Haiku 4'', ''2025-05-14T00:00:00Z''),
      (''claude-3-opus-20240229'', ''Claude 3 Opus'', ''2024-02-29T00:00:00Z''),
      (''claude-3-5-sonnet-20241022'', ''Claude 3.5 Sonnet'', ''2024-10-22T00:00:00Z''),
      (''claude-3-haiku-20240307'', ''Claude 3 Haiku'', ''2024-03-07T00:00:00Z''),
      (''claude-3-5-haiku-20241022'', ''Claude 3.5 Haiku'', ''2024-10-22T00:00:00Z'')]"

definition discovered_model_response :: "pystr \<Rightarrow> pystr \<Rightarrow> model_response" where
  "discovered_model_response model_id display_name =
     \<lparr>mo_id = model_id, mo_display_name = display_name, mo_created_at = DISCOVERED_MODEL_CREATED_AT\<rparr>"

text \<open>\<open>seen\<close> is the set of the ids of \<open>models\<close>.\<close>

definition append_unique_model :: "model_response list \<Rightarrow> model_response \<Rightarrow> model_response list" where
  "append_unique_model models m = (if mo_id m \<in> set (map mo_id models) then models else models @ [m])"

definition append_provider_model_variants :: "model_response list \<Rightarrow> pystr \<times> bool option \<Rightarrow> model_response list" where
  "append_provider_model_variants models r =
     (case r of (provider_model_ref, supports_thinking) \<Rightarrow>
        append_unique_model
          (if supports_thinking \<noteq> Some False
           then append_unique_model models (discovered_model_response (gateway_model_id provider_model_ref) provider_model_ref)
           else models)
          (discovered_model_response (no_thinking_gateway_model_id provider_model_ref) (provider_model_ref @ u '' (no thinking)'')))"

definition build_models_list_response :: "settings \<Rightarrow> 'p registry option \<Rightarrow> py_exn + model_response list" where
  "build_models_list_response st reg =
     and_then (configured_chat_model_refs st) (\<lambda>refs.
       let configured = map (\<lambda>ref. (mr_ref ref, Option.bind reg (\<lambda>r. cached_model_supports_thinking r (mr_provider ref) (mr_model ref)))) refs;
           discovered = (case reg of None \<Rightarrow> [] | Some r \<Rightarrow> map (\<lambda>i. (mi_model_id i, mi_supports_thinking i)) (cached_prefixed_model_infos r))
       in Inr (foldl append_unique_model (foldl append_provider_model_variants [] (configured @ discovered)) SUPPORTED_CLAUDE_MODELS))"

section \<open>The client's key\<close>

text \<open>\<open>require_api_key\<close> on the first of the three headers that is not empty.\<close>

definition sent_header :: "pystr option \<Rightarrow> pystr option \<Rightarrow> pystr option \<Rightarrow> pystr" where
  "sent_header x_api_key authorization anthropic_auth_token =
     (case filter (\<lambda>h. h \<noteq> []) (map (\<lambda>h. case h of Some v \<Rightarrow> v | None \<Rightarrow> []) [x_api_key, authorization, anthropic_auth_token]) of
        [] \<Rightarrow> []
      | h # _ \<Rightarrow> h)"

definition header_token :: "(pystr \<Rightarrow> pystr) \<Rightarrow> pystr \<Rightarrow> pystr" where
  "header_token lower header =
     (let token = (if str_startswith (lower header) (u ''bearer '') then str_strip (snd (snd (str_partition [32] header))) else str_strip header)
      in if str_contains [58] token then str_strip (fst (str_partition [58] token)) else token)"

definition HTTPException_401 :: py_exn where
  "HTTPException_401 = HTTPStatusError 401"

definition require_api_key :: "(pystr \<Rightarrow> pystr) \<Rightarrow> pystr \<Rightarrow> pystr \<Rightarrow> py_exn + unit" where
  "require_api_key lower configured header =
     (let anthropic_auth_token = str_strip configured in
      if anthropic_auth_token = [] then Inr ()
      else if header = [] then Inl HTTPException_401
      else if header_token lower header = anthropic_auth_token then Inr ()
      else Inl HTTPException_401)"

section \<open>Offered models can be used\<close>

lemma append_unique_in: "m \<in> set (append_unique_model models x) \<Longrightarrow> m \<in> set models \<or> m = x"
  by (auto simp: append_unique_model_def split: if_splits)

lemma foldl_unique_in: "m \<in> set (foldl append_unique_model models xs) \<Longrightarrow> m \<in> set models \<or> m \<in> set xs"
  by (induction xs arbitrary: models) (auto dest: append_unique_in)

definition variant_of :: "pystr \<Rightarrow> model_response \<Rightarrow> bool" where
  "variant_of r m \<longleftrightarrow> m = discovered_model_response (gateway_model_id r) r \<or>
     m = discovered_model_response (no_thinking_gateway_model_id r) (r @ u '' (no thinking)'')"

lemma foldl_variants_in:
  "m \<in> set (foldl append_provider_model_variants models rs) \<Longrightarrow> m \<in> set models \<or> (\<exists>(r, t) \<in> set rs. variant_of r m)"
proof (induction rs arbitrary: models)
  case (Cons e rs)
  obtain r t where e: "e = (r, t)" by (cases e)
  have "m \<in> set (append_provider_model_variants models e) \<Longrightarrow> m \<in> set models \<or> variant_of r m"
    by (auto simp: append_provider_model_variants_def e variant_of_def split: if_splits dest!: append_unique_in)
  then show ?case using Cons.IH [of "append_provider_model_variants models e"] Cons.prems e by auto
qed simp

lemma sources_keys: "fst ` set (sources_by_ref cs d) \<subseteq> fst ` set d \<union> {r. \<exists>source. (source, Some r) \<in> set cs}"
proof (induction cs d rule: sources_by_ref.induct)
  case (3 source r cs d)
  then show ?case by (auto simp: set_keys_set)
qed auto

lemma collect_in: "collect f xs = Inr ys \<Longrightarrow> y \<in> set ys \<Longrightarrow> \<exists>x \<in> set xs. f x = Inr y"
  by (induction xs arbitrary: ys) (auto simp: and_then_Inr)

lemma configured_ref_valid:
  assumes "valid_settings st" "configured_chat_model_refs st = Inr refs" "ref \<in> set refs"
  shows "valid_ref (mr_ref ref)"
proof -
  define cs where "cs = [(''MODEL'', Some (st_model st)), (''MODEL_OPUS'', st_model_opus st),
          (''MODEL_SONNET'', st_model_sonnet st), (''MODEL_HAIKU'', st_model_haiku st)]"
  have keys: "fst ` set (sources_by_ref cs []) \<subseteq> {r. \<exists>source. (source, Some r) \<in> set cs}" using sources_keys [of cs "[]"] by simp
  obtain e where e: "e \<in> set (sources_by_ref cs [])" "(case e of (r, sources) \<Rightarrow> and_then (parse_model_name r) (\<lambda>model_id.
         Inr \<lparr>mr_ref = r, mr_provider = parse_provider_type r, mr_model = model_id, mr_sources = sources\<rparr>)) = Inr ref"
    using collect_in [OF assms(2) [unfolded configured_chat_model_refs_def, folded cs_def] assms(3)] by blast
  have "fst e = mr_ref ref" using e(2) by (auto simp: and_then_Inr split: prod.splits)
  then have "mr_ref ref \<in> {r. \<exists>source. (source, Some r) \<in> set cs}" using subsetD [OF keys imageI [OF e(1)]] by simp
  then show ?thesis using valid_settings_refs [OF assms(1)] by (auto simp: cs_def)
qed

lemma valid_ref_parts:
  assumes "valid_ref r"
  obtains p m where "p \<in> set SUPPORTED_PROVIDER_IDS" "r = p @ [47] @ m"
proof -
  obtain i where i: "str_find [47] r = Some i" using assms by (auto simp: valid_ref_def str_contains_def)
  then have "parse_provider_type r = take i r" by (simp add: parse_provider_type_def str_partition_def)
  then have "take i r \<in> set SUPPORTED_PROVIDER_IDS" using assms by (simp add: valid_ref_def)
  moreover have "r = take i r @ [47] @ drop (i + 1) r" using str_find_split [OF i] by simp
  ultimately show ?thesis by (rule that)
qed


section \<open>Nobody gets in without the key\<close>

lemma strip_sublist: "sublist (str_strip s) s"
proof -
  have "suffix (str_lstrip s) s" by (simp add: str_lstrip_def suffix_dropWhile)
  moreover have "prefix (str_rstrip t) t" for t
    using suffix_dropWhile [of is_space "rev t"] by (simp add: str_rstrip_def suffix_to_prefix)
  ultimately show ?thesis unfolding str_strip_def
    by (meson prefix_imp_sublist suffix_imp_sublist sublist_order.order_trans)
qed

lemma partition_sublist: "sublist (fst (str_partition c s)) s" "sublist (snd (snd (str_partition c s))) s"
  by (auto simp: str_partition_def sublist_take sublist_drop split: option.splits)

lemma header_token_sublist: "sublist (header_token lower header) header"
proof -
  define token where "token = (if str_startswith (lower header) (u ''bearer '') then str_strip (snd (snd (str_partition [32] header))) else str_strip header)"
  have "sublist token header"
    using strip_sublist partition_sublist(2) unfolding token_def by (auto intro: sublist_order.order_trans)
  moreover have "sublist (str_strip (fst (str_partition [58] token))) token"
    using strip_sublist partition_sublist(1) by (rule sublist_order.order_trans)
  ultimately show ?thesis unfolding header_token_def Let_def token_def [symmetric] by (auto intro: sublist_order.order_trans)
qed


text \<open>What follows the first colon of a sent key is cut off: a configured key with a colon lets nobody in.\<close>

lemma header_token_no_colon: "58 \<notin> set (header_token lower header)"
proof -
  have cut: "58 \<notin> set (fst (str_partition [58] t))" for t
  proof (cases "str_find [58] t")
    case None
    then show ?thesis using str_find_NoneD [OF None] by (auto simp: str_partition_def in_set_conv_nth) (metis Cons_nth_drop_Suc less_imp_le_nat prefix_Cons Nil_prefix)
  next
    case (Some i)
    have "t ! j \<noteq> 58" if "j < i" for j
    proof
      assume "t ! j = 58"
      moreover have "j < length t" using that str_find_le_length [OF Some] by simp
      ultimately have "prefix [58] (drop j t)" by (simp add: Cons_nth_drop_Suc [symmetric])
      then show False using str_find_Some_first [OF Some that] by simp
    qed
    then show ?thesis using Some str_find_le_length [OF Some] by (auto simp: str_partition_def in_set_conv_nth)
  qed
  have "set (str_strip (fst (str_partition [58] t))) \<subseteq> set (fst (str_partition [58] t))" for t by (rule set_mono_sublist [OF strip_sublist])
  moreover have "\<not> str_contains [58] t \<Longrightarrow> 58 \<notin> set t" for t
    using cut [of t] by (simp add: str_contains_def str_partition_def)
  ultimately show ?thesis unfolding header_token_def Let_def using cut by (auto split: if_splits)
qed

lemma colon_key_locks_out: "58 \<in> set (str_strip configured) \<Longrightarrow> require_api_key lower configured header = Inl HTTPException_401"
  using header_token_no_colon [of lower header] by (auto simp: require_api_key_def Let_def)

text \<open>A key of the pool does not help a provider whose key is not in the settings.\<close>

lemma pool_key_needs_setting:
  assumes "provider_descriptor_of p = Some d" "pd_credential_env d \<noteq> None" "str_strip (credential_for d attrs) = []"
  shows "create_provider factory p attrs (Some k) = Inl AuthenticationError"
proof -
  have "require_credential d (credential_for d attrs) = Inl AuthenticationError"
    using assms(2,3) by (auto simp: require_credential_def)
  then show ?thesis using assms(1) by (simp add: create_provider_def build_provider_config_def Let_def)
qed

section \<open>Concrete lists\<close>

lemma sample_list:
  "map_sum id (\<lambda>ms. discovered_model_response (gateway_model_id (u ''nvidia_nim/nvidia/nemotron'')) (u ''nvidia_nim/nvidia/nemotron'') \<in> set ms)
     (build_models_list_response plain_settings (None :: unit registry option)) = Inr True"
  by code_simp



end
