(* ===== verification/WebTools.thy ===== *)
theory WebTools
  imports Sse Shortcuts "HOL-Library.Word" "HOL-Library.Numeral_Type"
begin

unbundle bit_operations_syntax

text \<open>
  The web tools that the proxy runs itself (\<open>api/web_tools/\<close>): the egress policy against requests into private
  networks, the fetch with its redirects and caps, the HTML parsers and the streamed answer.  Of Python's library,
  the split of a URL and IPv4 addresses are written out; the text form of IPv6 addresses, DNS, HTTP, the joining of URLs,
  the HTML tokens and the decoding of bytes are arguments (\<open>web_env\<close>).
\<close>

section \<open>Addresses\<close>

datatype ip = V4 "32 word" | V6 "128 word"

definition ascii_digit :: "nat \<Rightarrow> bool" where
  "ascii_digit c \<longleftrightarrow> 48 \<le> c \<and> c \<le> 57"

definition number :: "pystr \<Rightarrow> nat" where
  "number s = foldl (\<lambda>n c. 10 * n + (c - 48)) 0 s"

definition octet :: "pystr \<Rightarrow> nat option" where
  "octet s =
     (if s = [] \<or> \<not> list_all ascii_digit s \<or> 3 < length s \<or> (s \<noteq> [48] \<and> hd s = 48) \<or> 255 < number s then None
      else Some (number s))"

definition parse_v4 :: "pystr \<Rightarrow> (32 word) option" where
  "parse_v4 s =
     (case map octet (str_split 46 s) of
        [Some a, Some b, Some c, Some d] \<Rightarrow> Some (word_of_nat (((a * 256 + b) * 256 + c) * 256 + d))
      | _ \<Rightarrow> None)"

definition in_net :: "'a :: len word \<Rightarrow> 'a word \<times> nat \<Rightarrow> bool" where
  "in_net a = (\<lambda>(n, len). drop_bit (LENGTH('a) - len) a = drop_bit (LENGTH('a) - len) n)"

lemma uint_shifted: "uint (drop_bit k x) = uint x div 2 ^ k" for x :: "'a :: len word"
  by (subst unsigned_drop_bit_eq) (simp only: bintr_uint [OF order_refl] drop_bit_eq_div)

lemma in_net_uint: "in_net a (n, len) \<longleftrightarrow> uint a div 2 ^ (LENGTH('a) - len) = uint n div 2 ^ (LENGTH('a) - len)"
  for a :: "'a :: len word"
  by (simp only: in_net_def prod.case word_uint_eq_iff uint_shifted)

definition v4 :: "nat \<Rightarrow> nat \<Rightarrow> nat \<Rightarrow> nat \<Rightarrow> 32 word" where
  "v4 a b c d = word_of_nat (((a * 256 + b) * 256 + c) * 256 + d)"

text \<open>\<open>ipaddress\<close>'s tables of private networks and their exceptions.\<close>

definition v4_private :: "((32 word) \<times> nat) list" where
  "v4_private =
     [(v4 0 0 0 0, 8), (v4 10 0 0 0, 8), (v4 127 0 0 0, 8), (v4 169 254 0 0, 16), (v4 172 16 0 0, 12), (v4 192 0 0 0, 24),
      (v4 192 0 0 170, 31), (v4 192 0 2 0, 24), (v4 192 168 0 0, 16), (v4 198 18 0 0, 15), (v4 198 51 100 0, 24),
      (v4 203 0 113 0, 24), (v4 240 0 0 0, 4), (v4 255 255 255 255, 32)]"

definition v4_exceptions :: "((32 word) \<times> nat) list" where
  "v4_exceptions = [(v4 192 0 0 9, 32), (v4 192 0 0 10, 32)]"

definition v6_private :: "((128 word) \<times> nat) list" where
  "v6_private =
     [(1, 128), (0, 128), (0xFFFF00000000, 96), (0x0064FF9B000100000000000000000000, 48), (0x01000000000000000000000000000000, 64),
      (0x20010000000000000000000000000000, 23), (0x20010DB8000000000000000000000000, 32), (0x20020000000000000000000000000000, 16),
      (0x3FFF0000000000000000000000000000, 20), (0xFC000000000000000000000000000000, 7), (0xFE800000000000000000000000000000, 10)]"

definition v6_exceptions :: "((128 word) \<times> nat) list" where
  "v6_exceptions =
     [(0x20010001000000000000000000000001, 128), (0x20010001000000000000000000000002, 128), (0x20010003000000000000000000000000, 32),
      (0x20010004011200000000000000000000, 48), (0x20010020000000000000000000000000, 28), (0x20010030000000000000000000000000, 28)]"

definition v4_global :: "32 word \<Rightarrow> bool" where
  "v4_global a \<longleftrightarrow>
     \<not> in_net a (v4 100 64 0 0, 10) \<and> \<not> (list_ex (in_net a) v4_private \<and> \<not> list_ex (in_net a) v4_exceptions)"

text \<open>An IPv6 address that stands for an IPv4 address is judged as that one.\<close>

definition v6_global :: "128 word \<Rightarrow> bool" where
  "v6_global a \<longleftrightarrow>
     (if drop_bit 32 a = 0xFFFF then v4_global (ucast a)
      else \<not> (list_ex (in_net a) v6_private \<and> \<not> list_ex (in_net a) v6_exceptions))"

fun is_global :: "ip \<Rightarrow> bool" where
  "is_global (V4 a) = v4_global a"
| "is_global (V6 a) = v6_global a"

section \<open>The environment\<close>

text \<open>An address as \<open>getaddrinfo\<close> returns it; an IPv6 address of a Python without IPv6 has no more than two fields.\<close>

datatype sockaddr = Inet pystr int | Inet6 pystr int int int | Inet6_Short pystr int

record resolve_result =
  rr_hostname :: pystr
  rr_host :: pystr
  rr_port :: int
  rr_inet6 :: bool

text \<open>The body arrives in chunks of bytes; it may break off with an error.\<close>

record http_response =
  hr_status :: int
  hr_url :: pystr
  hr_location :: "pystr option"
  hr_content_type :: "pystr option"
  hr_encoding :: pystr
  hr_chunks :: "nat list list"
  hr_error :: "py_exn option"

datatype html_event = StartTag pystr "(pystr \<times> pystr option) list" | EndTag pystr | HtmlData pystr

text \<open>
  \<open>we_resolve n\<close> and \<open>we_get n\<close> are the name service and the web at the n-th hop: they may answer differently each time.
  \<open>we_nfkc\<close> is the check of a non-ASCII net location.
\<close>

record web_env =
  we_lower :: "pystr \<Rightarrow> pystr"
  we_parse_v6 :: "pystr \<Rightarrow> (128 word) option"
  we_nfkc :: "pystr \<Rightarrow> bool"
  we_resolve :: "nat \<Rightarrow> pystr \<Rightarrow> int \<Rightarrow> sockaddr list option"
  we_nameinfo :: "pystr \<Rightarrow> int \<Rightarrow> int \<Rightarrow> int \<Rightarrow> pystr \<times> int"
  we_get :: "nat \<Rightarrow> pystr \<Rightarrow> resolve_result list \<Rightarrow> py_exn + http_response"
  we_join :: "pystr \<Rightarrow> pystr \<Rightarrow> py_exn + pystr"
  we_decode :: "pystr \<Rightarrow> nat list \<Rightarrow> pystr"
  we_tokens :: "pystr \<Rightarrow> html_event list"
  we_uddg :: "pystr \<Rightarrow> pystr"
  we_unquote :: "pystr \<Rightarrow> pystr"
  we_unescape :: "pystr \<Rightarrow> pystr"
  we_search :: "pystr \<Rightarrow> py_exn + nat list list \<times> py_exn option"
  we_now :: pystr

text \<open>\<open>ipaddress.ip_address\<close>, \<open>None\<close> for its \<open>ValueError\<close>.\<close>

definition ip_address :: "web_env \<Rightarrow> pystr \<Rightarrow> ip option" where
  "ip_address env s =
     (case parse_v4 s of Some a \<Rightarrow> Some (V4 a) | None \<Rightarrow> map_option V6 (we_parse_v6 env s))"

section \<open>Splitting a URL\<close>

record parsed_url =
  pu_scheme :: pystr
  pu_hostname :: "pystr option"
  pu_port :: "py_exn + int option"

definition scheme_char :: "nat \<Rightarrow> bool" where
  "scheme_char c \<longleftrightarrow> 65 \<le> c \<and> c \<le> 90 \<or> 97 \<le> c \<and> c \<le> 122 \<or> ascii_digit c \<or> c \<in> {43, 45, 46}"

definition split_scheme :: "web_env \<Rightarrow> pystr \<Rightarrow> pystr \<times> pystr" where
  "split_scheme env url =
     (case str_partition [58] url of
        (pre, found, rest) \<Rightarrow>
          if found \<and> pre \<noteq> [] \<and> is_letter (hd pre) \<and> hd pre \<noteq> 95 \<and> list_all scheme_char pre then (we_lower env pre, rest)
          else ([], url))"

definition split_netloc :: "pystr \<Rightarrow> pystr" where
  "split_netloc rest = (if str_startswith rest [47, 47] then takeWhile (\<lambda>c. c \<notin> {47, 63, 35}) (drop 2 rest) else [])"

text \<open>The part after the last \<open>@\<close>, split into host and port.\<close>

definition host_info :: "pystr \<Rightarrow> pystr" where
  "host_info netloc = (case str_rfind [64] netloc of Some i \<Rightarrow> drop (i + 1) netloc | None \<Rightarrow> netloc)"

definition host_and_port :: "pystr \<Rightarrow> pystr \<times> pystr" where
  "host_and_port info =
     (case str_partition [91] info of
        (before, bracket, bracketed) \<Rightarrow>
          if bracket then
            (case str_partition [93] bracketed of (host, _, after) \<Rightarrow>
             case str_partition [58] after of (_, _, port) \<Rightarrow> (host, port))
          else (case str_partition [58] info of (host, _, port) \<Rightarrow> (host, port)))"

text \<open>Brackets hold an IPv6 address, or one of a future version, with nothing before and only the port after.\<close>

definition is_hex :: "nat \<Rightarrow> bool" where
  "is_hex c \<longleftrightarrow> ascii_digit c \<or> 65 \<le> c \<and> c \<le> 70 \<or> 97 \<le> c \<and> c \<le> 102"

definition future_host :: "pystr \<Rightarrow> bool" where
  "future_host host \<longleftrightarrow>
     (case dropWhile is_hex (tl host) of
        dot # rest \<Rightarrow> dot = 46 \<and> is_hex (hd (tl host)) \<and> rest \<noteq> [] \<and> 10 \<notin> set rest
      | [] \<Rightarrow> False)"

definition bracketed_host :: "web_env \<Rightarrow> pystr \<Rightarrow> bool" where
  "bracketed_host env host \<longleftrightarrow>
     (if str_startswith host [118] then future_host host else parse_v4 host = None \<and> we_parse_v6 env host \<noteq> None)"

definition bracketed_ok :: "web_env \<Rightarrow> pystr \<Rightarrow> bool" where
  "bracketed_ok env info =
     (case str_partition [91] info of
        (before, bracket, bracketed) \<Rightarrow>
          if bracket then
            (case str_partition [93] bracketed of (host, _, after) \<Rightarrow>
               before = [] \<and> (after = [] \<or> hd after = 58) \<and> bracketed_host env host)
          else bracketed_host env (fst (str_partition [58] info)))"

definition url_port :: "pystr \<Rightarrow> py_exn + int option" where
  "url_port port =
     (if port = [] then Inr None
      else if list_all ascii_digit port \<and> number port \<le> 65535 then Inr (Some (int (number port)))
      else Inl ValueError)"

definition url_hostname :: "web_env \<Rightarrow> pystr \<Rightarrow> pystr option" where
  "url_hostname env host =
     (if host = [] then None
      else case str_partition [37] host of (h, found, zone) \<Rightarrow> Some (we_lower env h @ (if found then 37 # zone else [])))"

definition urlparse :: "web_env \<Rightarrow> pystr \<Rightarrow> py_exn + parsed_url" where
  "urlparse env url0 =
     (let url = filter (\<lambda>c. c \<notin> {9, 10, 13}) (dropWhile (\<lambda>c. c \<le> 32) url0) in
      case split_scheme env url of
        (scheme, rest) \<Rightarrow>
          let netloc = split_netloc rest; brackets = (91 \<in> set netloc \<or> 93 \<in> set netloc) in
          if (91 \<in> set netloc) \<noteq> (93 \<in> set netloc) \<or> brackets \<and> \<not> bracketed_ok env (host_info netloc)
              \<or> \<not> list_all (\<lambda>c. c < 128) netloc \<and> \<not> we_nfkc env netloc then Inl ValueError
          else (case host_and_port (host_info netloc) of
                  (host, port) \<Rightarrow> Inr \<lparr>pu_scheme = scheme, pu_hostname = url_hostname env host, pu_port = url_port port\<rparr>))"

section \<open>Egress policy\<close>

record egress_policy =
  allow_private_network_targets :: bool
  allowed_schemes :: "pystr list"

definition WebFetchEgressViolation :: py_exn where
  "WebFetchEgressViolation = OtherException (u ''WebFetchEgressViolation'')"

definition port_for_url :: "web_env \<Rightarrow> parsed_url \<Rightarrow> py_exn + int" where
  "port_for_url env parsed =
     and_then (pu_port parsed) (\<lambda>port.
       Inr (case port of Some p \<Rightarrow> p | None \<Rightarrow> if we_lower env (pu_scheme parsed) = u ''https'' then 443 else 80))"

definition stream_getaddrinfo_or_raise :: "web_env \<Rightarrow> nat \<Rightarrow> pystr \<Rightarrow> int \<Rightarrow> py_exn + sockaddr list" where
  "stream_getaddrinfo_or_raise env n host port =
     (case we_resolve env n host port of Some infos \<Rightarrow> Inr infos | None \<Rightarrow> Inl WebFetchEgressViolation)"

fun sock_address :: "sockaddr \<Rightarrow> pystr" where
  "sock_address (Inet a p) = a"
| "sock_address (Inet6 a p flow scope) = a"
| "sock_address (Inet6_Short a p) = a"

definition forbidden_name :: "pystr \<Rightarrow> bool" where
  "forbidden_name host_lower \<longleftrightarrow>
     host_lower = u ''localhost'' \<or> str_endswith host_lower (u ''.localhost'') \<or> str_endswith host_lower (u ''.local'')"

definition resolves_private :: "web_env \<Rightarrow> sockaddr list \<Rightarrow> bool" where
  "resolves_private env infos \<longleftrightarrow>
     list_ex (\<lambda>i. case ip_address env (sock_address i) of Some a \<Rightarrow> \<not> is_global a | None \<Rightarrow> False) infos"

definition get_validated_stream_addrinfos_for_egress :: "web_env \<Rightarrow> nat \<Rightarrow> egress_policy \<Rightarrow> pystr \<Rightarrow> py_exn + sockaddr list" where
  "get_validated_stream_addrinfos_for_egress env n policy url =
     and_then (urlparse env url) (\<lambda>parsed.
       if we_lower env (pu_scheme parsed) \<notin> set (allowed_schemes policy) then Inl WebFetchEgressViolation
       else case pu_hostname parsed of
         None \<Rightarrow> Inl WebFetchEgressViolation
       | Some host \<Rightarrow>
           if host = [] then Inl WebFetchEgressViolation
           else and_then (port_for_url env parsed) (\<lambda>port.
             if allow_private_network_targets policy then stream_getaddrinfo_or_raise env n host port
             else if forbidden_name (we_lower env host) then Inl WebFetchEgressViolation
             else case ip_address env host of
               Some a \<Rightarrow> if is_global a then stream_getaddrinfo_or_raise env n host port else Inl WebFetchEgressViolation
             | None \<Rightarrow>
                 and_then (stream_getaddrinfo_or_raise env n host port) (\<lambda>infos.
                   if resolves_private env infos then Inl WebFetchEgressViolation else Inr infos)))"

definition enforce_web_fetch_egress :: "web_env \<Rightarrow> nat \<Rightarrow> egress_policy \<Rightarrow> pystr \<Rightarrow> py_exn + unit" where
  "enforce_web_fetch_egress env n policy url =
     and_then (get_validated_stream_addrinfos_for_egress env n policy url) (\<lambda>_. Inr ())"

section \<open>Fetching\<close>

definition MAX_SEARCH_RESULTS :: nat where "MAX_SEARCH_RESULTS = 10"
definition MAX_FETCH_CHARS :: nat where "MAX_FETCH_CHARS = 24000"
definition MAX_WEB_FETCH_RESPONSE_BYTES :: nat where "MAX_WEB_FETCH_RESPONSE_BYTES = 2 * 1024 * 1024"
definition REDIRECT_RESPONSE_BODY_CAP_BYTES :: nat where "REDIRECT_RESPONSE_BODY_CAP_BYTES = 65536"
definition MAX_WEB_FETCH_REDIRECTS :: nat where "MAX_WEB_FETCH_REDIRECTS = 10"
definition WEB_FETCH_REDIRECT_STATUSES :: "int list" where "WEB_FETCH_REDIRECT_STATUSES = [301, 302, 303, 307, 308]"

definition resolve_row :: "web_env \<Rightarrow> pystr \<Rightarrow> sockaddr \<Rightarrow> resolve_result option" where
  "resolve_row env host info =
     (case info of
        Inet a p \<Rightarrow> Some \<lparr>rr_hostname = host, rr_host = a, rr_port = p, rr_inet6 = False\<rparr>
      | Inet6_Short a p \<Rightarrow> None
      | Inet6 a p flow scope \<Rightarrow>
          (case (if scope \<noteq> 0 then we_nameinfo env a p flow scope else (a, p)) of
             (h, q) \<Rightarrow> Some \<lparr>rr_hostname = host, rr_host = h, rr_port = q, rr_inet6 = True\<rparr>))"

definition getaddrinfo_rows_to_resolve_results :: "web_env \<Rightarrow> pystr \<Rightarrow> sockaddr list \<Rightarrow> resolve_result list" where
  "getaddrinfo_rows_to_resolve_results env host infos = List.map_filter (resolve_row env host) infos"

text \<open>\<open>_read_aiohttp_body_capped\<close> and the generator that the search reads through; \<open>error\<close> is raised after the last chunk.\<close>

fun read_body_capped :: "nat \<Rightarrow> nat \<Rightarrow> nat list list \<Rightarrow> py_exn option \<Rightarrow> py_exn + nat list" where
  "read_body_capped max_bytes received [] err = (case err of None \<Rightarrow> Inr [] | Some e \<Rightarrow> Inl e)"
| "read_body_capped max_bytes received (chunk # chunks) err =
     (if max_bytes \<le> received then Inr []
      else if length chunk \<le> max_bytes - received then
        and_then (read_body_capped max_bytes (received + length chunk) chunks err) (\<lambda>rest. Inr (chunk @ rest))
      else Inr (take (max_bytes - received) chunk))"

fun iter_body_under_cap :: "nat \<Rightarrow> nat \<Rightarrow> nat list list \<Rightarrow> py_exn option \<Rightarrow> py_exn + nat list list" where
  "iter_body_under_cap max_bytes received [] err = (case err of None \<Rightarrow> Inr [] | Some e \<Rightarrow> Inl e)"
| "iter_body_under_cap max_bytes received (chunk # chunks) err =
     (if max_bytes \<le> received then Inr []
      else if length chunk \<le> max_bytes - received then
        (if max_bytes \<le> received + length chunk then Inr [chunk]
         else and_then (iter_body_under_cap max_bytes (received + length chunk) chunks err) (\<lambda>rest. Inr (chunk # rest)))
      else Inr [take (max_bytes - received) chunk])"

fun drain_body_capped :: "nat \<Rightarrow> nat \<Rightarrow> nat list list \<Rightarrow> py_exn option \<Rightarrow> py_exn option" where
  "drain_body_capped max_bytes received [] err = err"
| "drain_body_capped max_bytes received (chunk # chunks) err =
     (if max_bytes \<le> received + length chunk then None
      else drain_body_capped max_bytes (received + length chunk) chunks err)"

text \<open>
  One turn of the loop: the connection goes to the validated addresses only.  The trace holds each request with the
  addresses it is pinned to; \<open>raise_for_status\<close> raises for a status of 400 and above.
\<close>

datatype hop = Redirected http_response | Page http_response "nat list"

type_synonym trace = "(pystr \<times> resolve_result list) list"

definition url_host :: "web_env \<Rightarrow> pystr \<Rightarrow> pystr" where
  "url_host env url =
     (case urlparse env url of Inr p \<Rightarrow> (case pu_hostname p of Some h \<Rightarrow> h | None \<Rightarrow> []) | Inl e \<Rightarrow> [])"

definition fetch_hop :: "web_env \<Rightarrow> egress_policy \<Rightarrow> nat \<Rightarrow> pystr \<Rightarrow> trace \<times> (py_exn + hop)" where
  "fetch_hop env policy n url =
     (case get_validated_stream_addrinfos_for_egress env n policy url of
        Inl e \<Rightarrow> ([], Inl e)
      | Inr infos \<Rightarrow>
          let results = getaddrinfo_rows_to_resolve_results env (url_host env url) infos in
          ([(url, results)],
           and_then (we_get env n url results) (\<lambda>r.
             if hr_status r \<in> set WEB_FETCH_REDIRECT_STATUSES then
               (case drain_body_capped REDIRECT_RESPONSE_BODY_CAP_BYTES 0 (hr_chunks r) (hr_error r) of
                  Some e \<Rightarrow> Inl e
                | None \<Rightarrow> Inr (Redirected r))
             else if 400 \<le> hr_status r then Inl (HTTPStatusError (hr_status r))
             else and_then (read_body_capped MAX_WEB_FETCH_RESPONSE_BYTES 0 (hr_chunks r) (hr_error r)) (\<lambda>body. Inr (Page r body)))))"

definition redirect_target :: "web_env \<Rightarrow> http_response \<Rightarrow> py_exn + pystr" where
  "redirect_target env r =
     (case hr_location r of
        None \<Rightarrow> Inl WebFetchEgressViolation
      | Some l \<Rightarrow> if str_strip l = [] then Inl WebFetchEgressViolation else we_join env (hr_url r) (str_strip l))"

function fetch_loop :: "web_env \<Rightarrow> egress_policy \<Rightarrow> nat \<Rightarrow> pystr \<Rightarrow> trace \<times> (py_exn + http_response \<times> nat list)" where
  "fetch_loop env policy redirect_hops url =
     (case fetch_hop env policy redirect_hops url of
        (tr, Inl e) \<Rightarrow> (tr, Inl e)
      | (tr, Inr (Page r body)) \<Rightarrow> (tr, Inr (r, body))
      | (tr, Inr (Redirected r)) \<Rightarrow>
          if MAX_WEB_FETCH_REDIRECTS \<le> redirect_hops then (tr, Inl WebFetchEgressViolation)
          else (case redirect_target env r of
                  Inl e \<Rightarrow> (tr, Inl e)
                | Inr next_url \<Rightarrow>
                    (case fetch_loop env policy (redirect_hops + 1) next_url of (tr', result) \<Rightarrow> (tr @ tr', result))))"
  by pat_completeness auto
termination by (relation "measure (\<lambda>(env, policy, redirect_hops, url). MAX_WEB_FETCH_REDIRECTS - redirect_hops)") auto

declare fetch_loop.simps [simp del]

section \<open>HTML\<close>

text \<open>\<open>HTMLTextParser\<close>\<close>

record text_parser =
  hp_title :: pystr
  hp_text_parts :: "pystr list"
  hp_in_title :: bool
  hp_skip_depth :: nat

definition HTMLTextParser :: text_parser where
  "HTMLTextParser = \<lparr>hp_title = [], hp_text_parts = [], hp_in_title = False, hp_skip_depth = 0\<rparr>"

definition skipped_tag :: "pystr \<Rightarrow> bool" where
  "skipped_tag tag \<longleftrightarrow> tag \<in> set (map u [''script'', ''style'', ''noscript''])"

definition collapse :: "pystr \<Rightarrow> pystr" where
  "collapse s = str_join [32] (split_words s)"

fun text_event :: "html_event \<Rightarrow> text_parser \<Rightarrow> text_parser" where
  "text_event (StartTag tag attrs) p =
     (if skipped_tag tag then p\<lparr>hp_skip_depth := hp_skip_depth p + 1\<rparr>
      else if tag = u ''title'' then p\<lparr>hp_in_title := True\<rparr> else p)"
| "text_event (EndTag tag) p =
     (if skipped_tag tag \<and> 0 < hp_skip_depth p then p\<lparr>hp_skip_depth := hp_skip_depth p - 1\<rparr>
      else if tag = u ''title'' then p\<lparr>hp_in_title := False\<rparr> else p)"
| "text_event (HtmlData data) p =
     (let s = collapse data in
      if s = [] then p
      else if hp_in_title p then p\<lparr>hp_title := str_strip (hp_title p @ [32] @ s)\<rparr>
      else if hp_skip_depth p = 0 then p\<lparr>hp_text_parts := hp_text_parts p @ [s]\<rparr>
      else p)"

text \<open>\<open>SearchResultParser\<close>\<close>

record search_parser =
  sp_results :: "(pystr \<times> pystr) list"
  sp_href :: "pystr option"
  sp_title_parts :: "pystr list"

definition SearchResultParser :: search_parser where
  "SearchResultParser = \<lparr>sp_results = [], sp_href = None, sp_title_parts = []\<rparr>"

text \<open>The target of a result link; a link that is no URL raises the \<open>ValueError\<close> of \<open>urlparse\<close>.\<close>

definition link_target :: "web_env \<Rightarrow> (pystr \<times> pystr option) list \<Rightarrow> py_exn + pystr option" where
  "link_target env attrs =
     (case dict_get_default (rev attrs) (u ''href'') None of
        None \<Rightarrow> Inr None
      | Some href \<Rightarrow>
          if \<not> str_contains (u ''uddg='') href then Inr None
          else and_then (urlparse env href) (\<lambda>_.
            Inr (if we_uddg env href = [] then None else Some (we_unquote env (we_uddg env href)))))"

fun search_event :: "web_env \<Rightarrow> html_event \<Rightarrow> search_parser \<Rightarrow> py_exn + search_parser" where
  "search_event env (StartTag tag attrs) p =
     (if tag \<noteq> u ''a'' then Inr p
      else and_then (link_target env attrs) (\<lambda>target. Inr (case target of
          None \<Rightarrow> p
        | Some t \<Rightarrow> p\<lparr>sp_href := Some t, sp_title_parts := []\<rparr>)))"
| "search_event env (HtmlData data) p =
     Inr (if sp_href p \<noteq> None then p\<lparr>sp_title_parts := sp_title_parts p @ [data]\<rparr> else p)"
| "search_event env (EndTag tag) p =
     Inr (case sp_href p of
        None \<Rightarrow> p
      | Some href \<Rightarrow>
          if tag \<noteq> u ''a'' then p
          else
            let title = collapse (concat (sp_title_parts p)) in
            p\<lparr>sp_results := sp_results p @
                 (if title \<noteq> [] \<and> href \<notin> snd ` set (sp_results p) then [(we_unescape env title, href)] else []),
              sp_href := None, sp_title_parts := []\<rparr>)"

fun search_events :: "web_env \<Rightarrow> html_event list \<Rightarrow> search_parser \<Rightarrow> py_exn + search_parser" where
  "search_events env [] p = Inr p"
| "search_events env (e # es) p = and_then (search_event env e p) (search_events env es)"

section \<open>Search and fetch\<close>

definition run_web_search :: "web_env \<Rightarrow> pystr \<Rightarrow> py_exn + (pystr \<times> pystr) list" where
  "run_web_search env query =
     and_then (we_search env query) (\<lambda>(chunks, err).
       and_then (iter_body_under_cap MAX_WEB_FETCH_RESPONSE_BYTES 0 chunks err) (\<lambda>pieces.
         and_then (search_events env (we_tokens env (we_decode env (u ''utf-8'') (concat pieces))) SearchResultParser)
           (\<lambda>p. Inr (take MAX_SEARCH_RESULTS (sp_results p)))))"

record fetched =
  fe_url :: pystr
  fe_title :: pystr
  fe_media_type :: pystr
  fe_data :: pystr

definition page_of :: "web_env \<Rightarrow> http_response \<Rightarrow> nat list \<Rightarrow> fetched" where
  "page_of env r body =
     (let txt = we_decode env (hr_encoding r) body;
          html = str_contains (u ''html'') (we_lower env (case hr_content_type r of Some c \<Rightarrow> c | None \<Rightarrow> u ''text/plain''));
          p = fold text_event (we_tokens env txt) HTMLTextParser
      in \<lparr>fe_url = hr_url r, fe_title = (if html \<and> hp_title p \<noteq> [] then hp_title p else hr_url r), fe_media_type = u ''text/plain'',
          fe_data = take MAX_FETCH_CHARS (if html then str_join [10] (hp_text_parts p) else txt)\<rparr>)"

definition run_web_fetch :: "web_env \<Rightarrow> egress_policy \<Rightarrow> pystr \<Rightarrow> trace \<times> (py_exn + fetched)" where
  "run_web_fetch env policy url =
     (case fetch_loop env policy 0 url of (tr, result) \<Rightarrow> (tr, and_then result (\<lambda>(r, body). Inr (page_of env r body))))"

section \<open>The request\<close>

text \<open>
  \<open>repr\<close> is \<open>str()\<close> of a value that is no string; the name in \<open>tool_choice\<close> is taken to be a hashable value.
\<close>

definition str_of :: "(json \<Rightarrow> pystr) \<Rightarrow> json \<Rightarrow> pystr" where
  "str_of repr v = (case v of JStr s \<Rightarrow> s | _ \<Rightarrow> repr v)"

definition content_text :: "(json \<Rightarrow> pystr) \<Rightarrow> json \<Rightarrow> pystr" where
  "content_text repr content =
     (case content of
        JStr s \<Rightarrow> s
      | JArr items \<Rightarrow>
          str_join [10] (filter (\<lambda>part. part \<noteq> []) (map (\<lambda>item. str_of repr (jget_default (u ''text'') (JStr []) item)) items))
      | _ \<Rightarrow> repr content)"

text \<open>\<open>query:\s*(.+)\<close>, without regard to case.\<close>

definition letter_lower :: "nat \<Rightarrow> nat" where
  "letter_lower c = (if 65 \<le> c \<and> c \<le> 90 then c + 32 else c)"

definition strip_chars :: "nat list \<Rightarrow> pystr \<Rightarrow> pystr" where
  "strip_chars cs s = rev (dropWhile (\<lambda>c. c \<in> set cs) (rev (dropWhile (\<lambda>c. c \<in> set cs) s)))"

definition extract_query :: "pystr \<Rightarrow> pystr" where
  "extract_query txt =
     (case str_find (u ''query:'') (map letter_lower txt) of
        Some i \<Rightarrow>
          if drop (i + 6) txt \<noteq> [] then strip_chars [34, 39] (str_strip (drop (i + 6) txt)) else str_strip txt
      | None \<Rightarrow> str_strip txt)"

text \<open>\<open>https?://\S+\<close>\<close>

definition url_at :: "pystr \<Rightarrow> pystr option" where
  "url_at s =
     (if str_startswith s (u ''http://'') \<and> takeWhile (\<lambda>c. \<not> is_space c) (drop 7 s) \<noteq> []
         \<or> str_startswith s (u ''https://'') \<and> takeWhile (\<lambda>c. \<not> is_space c) (drop 8 s) \<noteq> []
      then Some (takeWhile (\<lambda>c. \<not> is_space c) s) else None)"

fun first_url :: "pystr \<Rightarrow> pystr option" where
  "first_url [] = None"
| "first_url (c # s) = (case url_at (c # s) of Some r \<Rightarrow> Some r | None \<Rightarrow> first_url s)"

definition extract_url :: "pystr \<Rightarrow> pystr" where
  "extract_url txt =
     (case first_url txt of
        Some r \<Rightarrow> rev (dropWhile (\<lambda>c. c \<in> {41, 46, 44, 93}) (rev r))
      | None \<Rightarrow> str_strip txt)"

definition request_text :: "(json \<Rightarrow> pystr) \<Rightarrow> json \<Rightarrow> pystr" where
  "request_text repr req = str_join [10] (map (\<lambda>m. content_text repr (jget (u ''content'') m)) (request_messages req))"

definition forced_tool_turn_text :: "(json \<Rightarrow> pystr) \<Rightarrow> json \<Rightarrow> pystr" where
  "forced_tool_turn_text repr req =
     (case List.find from_user (rev (request_messages req)) of
        Some m \<Rightarrow> content_text repr (jget (u ''content'') m)
      | None \<Rightarrow> [])"

definition forced_server_tool_name :: "json \<Rightarrow> pystr option" where
  "forced_server_tool_name req =
     (let tc = jget (u ''tool_choice'') req in
      if is_dict tc \<and> jget (u ''type'') tc = JStr (u ''tool'') then
        (case jget (u ''name'') tc of
           JStr n \<Rightarrow> if n = u ''web_search'' \<or> n = u ''web_fetch'' then Some n else None
         | _ \<Rightarrow> None)
      else None)"

definition request_tools :: "json \<Rightarrow> json list" where
  "request_tools req = (case jget (u ''tools'') req of JArr ts \<Rightarrow> ts | _ \<Rightarrow> [])"

definition has_tool_named :: "json \<Rightarrow> pystr \<Rightarrow> bool" where
  "has_tool_named req name \<longleftrightarrow> list_ex (\<lambda>t. jget (u ''name'') t = JStr name) (request_tools req)"

definition is_web_server_tool_request :: "json \<Rightarrow> bool" where
  "is_web_server_tool_request req \<longleftrightarrow>
     (case forced_server_tool_name req of None \<Rightarrow> False | Some n \<Rightarrow> has_tool_named req n)"

definition is_anthropic_server_tool_definition :: "json \<Rightarrow> bool" where
  "is_anthropic_server_tool_definition tool \<longleftrightarrow>
     (case jget (u ''name'') tool of JStr n \<Rightarrow> str_strip n = u ''web_search'' \<or> str_strip n = u ''web_fetch'' | _ \<Rightarrow> False) \<or>
     (case jget (u ''type'') tool of
        JStr t \<Rightarrow> str_startswith t (u ''web_search'') \<or> str_startswith t (u ''web_fetch'')
      | _ \<Rightarrow> False)"

definition has_listed_anthropic_server_tools :: "json \<Rightarrow> bool" where
  "has_listed_anthropic_server_tools req \<longleftrightarrow> list_ex is_anthropic_server_tool_definition (request_tools req)"

text \<open>The two refusals, without their texts.\<close>

datatype tool_error = Local_Tools_Disabled pystr | Listed_Tools_Unsupported

definition openai_chat_upstream_server_tool_error :: "bool \<Rightarrow> json \<Rightarrow> tool_error option" where
  "openai_chat_upstream_server_tool_error web_tools_enabled req =
     (case forced_server_tool_name req of
        Some n \<Rightarrow> if \<not> web_tools_enabled then Some (Local_Tools_Disabled n) else None
      | None \<Rightarrow> if has_listed_anthropic_server_tools req then Some Listed_Tools_Unsupported else None)"

section \<open>The streamed answer\<close>

fun numbered_results :: "nat \<Rightarrow> (pystr \<times> pystr) list \<Rightarrow> pystr list" where
  "numbered_results i [] = []"
| "numbered_results i ((title, url) # rs) = (show_int (int i) @ u ''. '' @ title @ [10] @ url) # numbered_results (i + 1) rs"

definition search_summary :: "pystr \<Rightarrow> (pystr \<times> pystr) list \<Rightarrow> pystr" where
  "search_summary query results =
     (if results = [] then u ''No web search results found for: '' @ query
      else str_join [10, 10] ((u ''Search results for: '' @ query) # numbered_results 1 results))"

text \<open>\<open>exn_name\<close> is \<open>type(error).__name__\<close>.\<close>

definition web_tool_client_error_summary :: "(py_exn \<Rightarrow> pystr) \<Rightarrow> bool \<Rightarrow> pystr \<Rightarrow> py_exn \<Rightarrow> pystr" where
  "web_tool_client_error_summary exn_name verbose tname e =
     (if verbose then tname @ u '' failed: '' @ exn_name e else u ''Web tool request failed.'')"

definition search_content :: "(pystr \<times> pystr) list \<Rightarrow> json" where
  "search_content results =
     JArr (map (\<lambda>(title, url). JObj [(u ''type'', JStr (u ''web_search_result'')), (u ''title'', JStr title), (u ''url'', JStr url)]) results)"

definition fetch_content :: "pystr \<Rightarrow> fetched \<Rightarrow> json" where
  "fetch_content now f =
     JObj [(u ''type'', JStr (u ''web_fetch_result'')), (u ''url'', JStr (fe_url f)),
       (u ''content'', JObj [(u ''type'', JStr (u ''document'')),
          (u ''source'', JObj [(u ''type'', JStr (u ''text'')), (u ''media_type'', JStr (fe_media_type f)), (u ''data'', JStr (fe_data f))]),
          (u ''title'', JStr (fe_title f)), (u ''citations'', JObj [(u ''enabled'', JBool True)])]),
       (u ''retrieved_at'', JStr now)]"

definition error_content :: "pystr \<Rightarrow> json" where
  "error_content payload_type = JObj [(u ''type'', JStr payload_type), (u ''error_code'', JStr (u ''unavailable''))]"

definition WEB_SEARCH_TOOL_RESULT_ERROR :: pystr where "WEB_SEARCH_TOOL_RESULT_ERROR = u ''web_search_tool_result_error''"
definition WEB_FETCH_TOOL_ERROR :: pystr where "WEB_FETCH_TOOL_ERROR = u ''web_fetch_tool_error''"

text \<open>Type, content and summary of the result block, and the requests that a fetch has made.\<close>

definition run_tool ::
    "web_env \<Rightarrow> (py_exn \<Rightarrow> pystr) \<Rightarrow> egress_policy \<Rightarrow> bool \<Rightarrow> pystr \<Rightarrow> pystr \<Rightarrow> trace \<times> pystr \<times> json \<times> pystr" where
  "run_tool env exn_name policy verbose tname txt =
     (if tname = u ''web_search'' then
        (case run_web_search env (extract_query txt) of
           Inr results \<Rightarrow> ([], WEB_SEARCH_TOOL_RESULT, search_content results, search_summary (extract_query txt) results)
         | Inl e \<Rightarrow> ([], WEB_SEARCH_TOOL_RESULT, error_content WEB_SEARCH_TOOL_RESULT_ERROR, web_tool_client_error_summary exn_name verbose tname e))
      else
        (case run_web_fetch env policy (extract_url txt) of
           (tr, Inr f) \<Rightarrow> (tr, WEB_FETCH_TOOL_RESULT, fetch_content (we_now env) f, take MAX_FETCH_CHARS (fe_data f))
         | (tr, Inl e) \<Rightarrow> (tr, WEB_FETCH_TOOL_RESULT, error_content WEB_FETCH_TOOL_ERROR, web_tool_client_error_summary exn_name verbose tname e)))"

definition web_frame :: "string \<Rightarrow> (pystr \<times> json) list \<Rightarrow> frame" where
  "web_frame name more_fields = (u name, JObj ((u ''type'', JStr (u name)) # more_fields))"

definition block_frames :: "int \<Rightarrow> json \<Rightarrow> frame list \<Rightarrow> frame list" where
  "block_frames index block deltas =
     [web_frame ''content_block_start'' [(u ''index'', JInt index), (u ''content_block'', block)]] @ deltas @
     [web_frame ''content_block_stop'' [(u ''index'', JInt index)]]"

definition stream_web_server_tool_response ::
    "web_env \<Rightarrow> (json \<Rightarrow> pystr) \<Rightarrow> (py_exn \<Rightarrow> pystr) \<Rightarrow> egress_policy \<Rightarrow> bool \<Rightarrow> pystr \<Rightarrow> pystr \<Rightarrow> int \<Rightarrow> json \<Rightarrow> frame list" where
  "stream_web_server_tool_response env repr exn_name policy verbose msg_id hex_id toks req =
     (case forced_server_tool_name req of
        None \<Rightarrow> []
      | Some tname \<Rightarrow>
          if \<not> has_tool_named req tname then []
          else
            let txt = forced_tool_turn_text repr req;
                call_id = u ''srvtoolu_'' @ hex_id;
                search = (tname = u ''web_search'');
                tool_input = (if search then JObj [(u ''query'', JStr (extract_query txt))] else JObj [(u ''url'', JStr (extract_url txt))]);
                usage_key = (if search then u ''web_search_requests'' else u ''web_fetch_requests'')
            in (case run_tool env exn_name policy verbose tname txt of
                  (tr, result_type, content, summary) \<Rightarrow>
                    [web_frame ''message_start'' [(u ''message'',
                       JObj [(u ''id'', JStr (u ''msg_'' @ msg_id)), (u ''type'', JStr (u ''message'')), (u ''role'', JStr (u ''assistant'')),
                         (u ''content'', JArr []), (u ''model'', jget (u ''model'') req), (u ''stop_reason'', JNull), (u ''stop_sequence'', JNull),
                         (u ''usage'', JObj [(u ''input_tokens'', JInt toks), (u ''output_tokens'', JInt 1)])])]] @
                    block_frames 0 (JObj [(u ''type'', JStr SERVER_TOOL_USE), (u ''id'', JStr call_id), (u ''name'', JStr tname),
                        (u ''input'', tool_input)]) [] @
                    block_frames 1 (JObj [(u ''type'', JStr result_type), (u ''tool_use_id'', JStr call_id), (u ''content'', content)]) [] @
                    block_frames 2 (JObj [(u ''type'', JStr (u ''text'')), (u ''text'', JStr [])])
                      [web_frame ''content_block_delta'' [(u ''index'', JInt 2),
                         (u ''delta'', JObj [(u ''type'', JStr (u ''text_delta'')), (u ''text'', JStr summary)])]] @
                    [web_frame ''message_delta'' [(u ''delta'', JObj [(u ''stop_reason'', JStr (u ''end_turn'')), (u ''stop_sequence'', JNull)]),
                       (u ''usage'', JObj [(u ''input_tokens'', JInt toks), (u ''output_tokens'', JInt (max 1 (int (length summary) div 4))),
                          (u ''server_tool_use'', JObj [(usage_key, JInt 1)])])],
                     web_frame ''message_stop'' []]))"

section \<open>Caps\<close>

lemma read_capped:
  assumes "received \<le> m"
  shows "read_body_capped m received cs None = Inr (take (m - received) (concat cs))"
  using assms
proof (induction cs arbitrary: received)
  case (Cons c cs)
  show ?case
  proof (cases "length c \<le> m - received")
    case True
    then show ?thesis using Cons.prems Cons.IH [of "received + length c"] by auto
  qed (use Cons.prems in auto)
qed simp

lemma iter_capped:
  assumes "received \<le> m"
  shows "map_sum (\<lambda>e. e) concat (iter_body_under_cap m received cs None) = Inr (take (m - received) (concat cs))"
  using assms
proof (induction cs arbitrary: received)
  case (Cons c cs)
  show ?case
  proof (cases "length c \<le> m - received \<and> \<not> m \<le> received + length c")
    case True
    then have "map_sum (\<lambda>e. e) concat (iter_body_under_cap m (received + length c) cs None) = Inr (take (m - (received + length c)) (concat cs))"
      using Cons.IH [of "received + length c"] by simp
    then show ?thesis using True by (cases "iter_body_under_cap m (received + length c) cs None") auto
  qed (use Cons.prems in auto)
qed simp

lemma read_capped_length: "read_body_capped m received cs e = Inr body \<Longrightarrow> length body \<le> m - received"
proof (induction cs arbitrary: received body)
  case (Cons c cs)
  then show ?case by (fastforce simp: and_then_Inr split: if_splits)
qed (auto split: option.splits)

lemma loop_bounds:
  "redirect_hops \<le> MAX_WEB_FETCH_REDIRECTS \<Longrightarrow> fetch_loop env policy redirect_hops url = (tr, result) \<Longrightarrow>
     length tr \<le> 11 - redirect_hops \<and> (\<forall>r body. result = Inr (r, body) \<longrightarrow> length body \<le> MAX_WEB_FETCH_RESPONSE_BYTES)"
proof (induction env policy redirect_hops url arbitrary: tr result rule: fetch_loop.induct)
  case (1 env policy redirect_hops url)
  obtain t res where hop: "fetch_hop env policy redirect_hops url = (t, res)" by (cases "fetch_hop env policy redirect_hops url")
  have t: "length t \<le> 1" and body: "\<And>r body. res = Inr (Page r body) \<Longrightarrow> length body \<le> MAX_WEB_FETCH_RESPONSE_BYTES"
    using hop by (auto simp: fetch_hop_def Let_def and_then_Inr dest: read_capped_length split: sum.splits if_splits option.splits)
  show ?case
  proof (cases res)
    case (Inl e)
    then show ?thesis using 1(2,3) hop t by (auto simp: fetch_loop.simps [of env policy redirect_hops url] MAX_WEB_FETCH_REDIRECTS_def)
  next
    case (Inr h)
    show ?thesis
    proof (cases h)
      case (Page r body)
      then show ?thesis using 1(2,3) hop t Inr body [of r body]
        by (auto simp: fetch_loop.simps [of env policy redirect_hops url] MAX_WEB_FETCH_REDIRECTS_def)
    next
      case (Redirected r)
      show ?thesis
      proof (cases "MAX_WEB_FETCH_REDIRECTS \<le> redirect_hops \<or> isl (redirect_target env r)")
        case True
        then show ?thesis using 1(2,3) hop t Inr Redirected
          by (auto simp: fetch_loop.simps [of env policy redirect_hops url] MAX_WEB_FETCH_REDIRECTS_def split: if_splits sum.splits)
      next
        case False
        then obtain next_url where n: "redirect_target env r = Inr next_url" by (cases "redirect_target env r") auto
        obtain tr' res' where rest: "fetch_loop env policy (redirect_hops + 1) next_url = (tr', res')"
          by (cases "fetch_loop env policy (redirect_hops + 1) next_url")
        have "length tr' \<le> 11 - (redirect_hops + 1) \<and> (\<forall>r body. res' = Inr (r, body) \<longrightarrow> length body \<le> MAX_WEB_FETCH_RESPONSE_BYTES)"
          using 1(1) [OF hop [symmetric] Inr Redirected _ n _ rest] False by simp
        moreover have "tr = t @ tr'" "result = res'"
          using 1(3) hop Inr Redirected n rest False by (simp_all add: fetch_loop.simps [of env policy redirect_hops url])
        ultimately show ?thesis using t 1(2) False by (auto simp: MAX_WEB_FETCH_REDIRECTS_def)
      qed
    qed
  qed
qed

text \<open>C39 (bounds): a fetch makes at most 11 requests, wherever it is redirected, keeps at most 2 MiB of the body and returns at most 24000 characters.\<close>

theorem web_fetch_bounded:
  "length (fst (run_web_fetch env policy url)) \<le> 11 \<and>
   (case fetch_loop env policy 0 url of
      (tr, Inr (r, body)) \<Rightarrow> length body \<le> 2 * 1024 * 1024 \<and> length (fe_data (page_of env r body)) \<le> 24000
    | (tr, Inl e) \<Rightarrow> True)"
  using loop_bounds [of 0 env policy url]
  by (auto simp: run_web_fetch_def page_of_def Let_def MAX_WEB_FETCH_RESPONSE_BYTES_def MAX_FETCH_CHARS_def split: prod.splits sum.splits)

section \<open>Private networks are not reached\<close>

definition public_hop :: "web_env \<Rightarrow> egress_policy \<Rightarrow> pystr \<times> resolve_result list \<Rightarrow> bool" where
  "public_hop env policy = (\<lambda>(url, results).
     (case urlparse env url of
        Inl e \<Rightarrow> False
      | Inr p \<Rightarrow> we_lower env (pu_scheme p) \<in> set (allowed_schemes policy) \<and>
          (case pu_hostname p of Some host \<Rightarrow> \<not> forbidden_name (we_lower env host) | None \<Rightarrow> False)) \<and>
     list_all (\<lambda>r. case ip_address env (rr_host r) of Some a \<Rightarrow> is_global a | None \<Rightarrow> False) results)"

text \<open>
  What the name service promises: its addresses are numeric, a numeric host is its own address, and the name of an
  address with a scope is that address.
\<close>

definition numeric_dns :: "web_env \<Rightarrow> bool" where
  "numeric_dns env \<longleftrightarrow>
     (\<forall>n host port infos. we_resolve env n host port = Some infos \<longrightarrow>
        (\<forall>i \<in> set infos. ip_address env (sock_address i) \<noteq> None \<and>
           (ip_address env host \<noteq> None \<longrightarrow> ip_address env (sock_address i) = ip_address env host))) \<and>
     (\<forall>a p flow scope. ip_address env (fst (we_nameinfo env a p flow scope)) = ip_address env a)"

lemma address_known:
  assumes "numeric_dns env" "we_resolve env n host port = Some infos" "i \<in> set infos"
  shows "\<exists>a. ip_address env (sock_address i) = Some a \<and> (ip_address env host \<noteq> None \<longrightarrow> ip_address env host = Some a)"
proof -
  have "ip_address env (sock_address i) \<noteq> None" "ip_address env host \<noteq> None \<longrightarrow> ip_address env (sock_address i) = ip_address env host"
    using assms unfolding numeric_dns_def by blast+
  then show ?thesis by auto
qed

lemma row_address:
  assumes "numeric_dns env" "resolve_row env host i = Some r"
  shows "ip_address env (rr_host r) = ip_address env (sock_address i)"
proof (cases i)
  case (Inet6 a p flow scope)
  have "ip_address env (fst (we_nameinfo env a p flow scope)) = ip_address env a" using assms(1) by (simp add: numeric_dns_def)
  then show ?thesis using assms(2) Inet6 by (auto simp: resolve_row_def split: prod.splits if_splits)
qed (use assms(2) in \<open>auto simp: resolve_row_def\<close>)

lemma validated_public:
  assumes "\<not> allow_private_network_targets policy" "numeric_dns env"
    and "get_validated_stream_addrinfos_for_egress env n policy url = Inr infos"
  shows "public_hop env policy (url, getaddrinfo_rows_to_resolve_results env host' infos)"
proof -
  obtain p host port where p: "urlparse env url = Inr p" "we_lower env (pu_scheme p) \<in> set (allowed_schemes policy)"
      "pu_hostname p = Some host" "\<not> forbidden_name (we_lower env host)" "we_resolve env n host port = Some infos"
      "(case ip_address env host of Some a \<Rightarrow> is_global a | None \<Rightarrow> \<not> resolves_private env infos)"
  proof (cases "urlparse env url")
    case (Inr p)
    note unfolded = assms(3) [unfolded get_validated_stream_addrinfos_for_egress_def Inr and_then_simps]
    then obtain host where h: "pu_hostname p = Some host" by (auto split: if_splits option.splits)
    obtain port where port: "port_for_url env p = Inr port"
      using unfolded h by (cases "port_for_url env p") (auto split: if_splits)
    have "we_resolve env n host port = Some infos \<and>
        (case ip_address env host of Some a \<Rightarrow> is_global a | None \<Rightarrow> \<not> resolves_private env infos)"
      using unfolded h port assms(1)
      by (cases "ip_address env host"; cases "we_resolve env n host port") (simp_all add: stream_getaddrinfo_or_raise_def split: if_splits)
    then show ?thesis using that [of p host port] unfolded h port assms(1) Inr by (auto split: if_splits)
  qed (use assms(3) in \<open>simp add: get_validated_stream_addrinfos_for_egress_def\<close>)
  have global: "\<exists>a. ip_address env (sock_address i) = Some a \<and> is_global a" if i: "i \<in> set infos" for i
  proof -
    obtain a where a: "ip_address env (sock_address i) = Some a" and lit: "ip_address env host \<noteq> None \<Longrightarrow> ip_address env host = Some a"
      using address_known [OF assms(2) p(5) i] by blast
    have "is_global a"
    proof (cases "ip_address env host")
      case None
      then show ?thesis using p(6) i a by (auto simp: resolves_private_def list_ex_iff)
    qed (use lit p(6) in auto)
    then show ?thesis using a by blast
  qed
  have "list_all (\<lambda>r. case ip_address env (rr_host r) of Some a \<Rightarrow> is_global a | None \<Rightarrow> False) (getaddrinfo_rows_to_resolve_results env host' infos)"
    unfolding list_all_iff
  proof
    fix r assume "r \<in> set (getaddrinfo_rows_to_resolve_results env host' infos)"
    then obtain i where "i \<in> set infos" "resolve_row env host' i = Some r"
      by (auto simp: getaddrinfo_rows_to_resolve_results_def List.map_filter_def)
    then show "case ip_address env (rr_host r) of Some a \<Rightarrow> is_global a | None \<Rightarrow> False"
      using global [of i] row_address [OF assms(2), of host' i r] by auto
  qed
  then show ?thesis using p(1-4) by (auto simp: public_hop_def)
qed

lemma loop_public:
  assumes "\<not> allow_private_network_targets policy" "numeric_dns env"
  shows "list_all (public_hop env policy) (fst (fetch_loop env policy redirect_hops url))"
  using assms
proof (induction env policy redirect_hops url rule: fetch_loop.induct)
  case (1 env policy redirect_hops url)
  obtain t res where hop: "fetch_hop env policy redirect_hops url = (t, res)" by (cases "fetch_hop env policy redirect_hops url")
  have t: "list_all (public_hop env policy) t"
    using hop validated_public [OF 1(2,3)] by (auto simp: fetch_hop_def Let_def split: sum.splits)
  show ?case
  proof (cases "\<exists>r. res = Inr (Redirected r) \<and> \<not> MAX_WEB_FETCH_REDIRECTS \<le> redirect_hops \<and> \<not> isl (redirect_target env r)")
    case True
    then obtain r next_url where n: "res = Inr (Redirected r)" "\<not> MAX_WEB_FETCH_REDIRECTS \<le> redirect_hops" "redirect_target env r = Inr next_url"
      by (metis isl_def sumE)
    have "list_all (public_hop env policy) (fst (fetch_loop env policy (redirect_hops + 1) next_url))"
      using 1(1) [OF hop [symmetric] n(1) refl n(2,3) 1(2,3)] .
    then show ?thesis using hop n t by (simp add: fetch_loop.simps [of env policy redirect_hops url] case_prod_beta)
  next
    case False
    then show ?thesis using hop t
      by (auto simp: fetch_loop.simps [of env policy redirect_hops url] split: sum.splits hop.splits)
  qed
qed

text \<open>C37 (safety): unless private networks are allowed, every request of a fetch, the redirected ones and those after a change of the name service included, is pinned to
  public addresses, has an allowed scheme and does not name the local host.\<close>

theorem fetch_connects_public:
  assumes "\<not> allow_private_network_targets policy" "numeric_dns env"
  shows "list_all (public_hop env policy) (fst (run_web_fetch env policy url))"
  using loop_public [OF assms, of 0 url] by (simp add: run_web_fetch_def case_prod_beta)

text \<open>A name service with one public and one private name, and a page behind a redirect.\<close>

definition sample_web :: web_env where
  "sample_web =
     \<lparr>we_lower = (\<lambda>s. s), we_parse_v6 = (\<lambda>s. None), we_nfkc = (\<lambda>s. True),
      we_resolve = (\<lambda>n host port.
        if parse_v4 host \<noteq> None then Some [Inet host port]
        else if host = u ''example.org'' then Some [Inet (u ''93.184.216.34'') port]
        else if host = u ''intranet'' then Some [Inet (u ''10.0.0.7'') port]
        else None),
      we_nameinfo = (\<lambda>a p flow scope. (a, p)),
      we_get = (\<lambda>n url results. Inr
        (if n = 0 then \<lparr>hr_status = 302, hr_url = url, hr_location = Some (u ''http://intranet/''), hr_content_type = None,
           hr_encoding = u ''utf-8'', hr_chunks = [], hr_error = None\<rparr>
         else \<lparr>hr_status = 200, hr_url = url, hr_location = None, hr_content_type = None,
           hr_encoding = u ''utf-8'', hr_chunks = [u ''secret''], hr_error = None\<rparr>)),
      we_join = (\<lambda>base l. Inr l), we_decode = (\<lambda>enc bytes. bytes), we_tokens = (\<lambda>s. []), we_uddg = (\<lambda>s. []),
      we_unquote = (\<lambda>s. s), we_unescape = (\<lambda>s. s), we_search = (\<lambda>q. Inr ([], None)), we_now = []\<rparr>"

lemma sample_dns: "numeric_dns sample_web"
proof -
  have "parse_v4 (u ''93.184.216.34'') = Some (v4 93 184 216 34)" "parse_v4 (u ''10.0.0.7'') = Some (v4 10 0 0 7)"
    "parse_v4 (u ''example.org'') = None" "parse_v4 (u ''intranet'') = None"
    by code_simp+
  then show ?thesis
    by (auto simp: numeric_dns_def sample_web_def ip_address_def split: option.splits if_splits)
qed

definition https_only :: egress_policy where
  "https_only = \<lparr>allow_private_network_targets = False, allowed_schemes = [u ''http'', u ''https'']\<rparr>"

lemma fetch_connects_public_witness:
  "map fst (fst (run_web_fetch sample_web https_only (u ''http://example.org/''))) = [u ''http://example.org/''] \<and>
   snd (run_web_fetch sample_web https_only (u ''http://example.org/'')) = Inl WebFetchEgressViolation \<and>
   list_all (public_hop sample_web https_only) (fst (run_web_fetch sample_web https_only (u ''http://example.org/'')))"
proof -
  have "map fst (fst (run_web_fetch sample_web https_only (u ''http://example.org/''))) = [u ''http://example.org/'']"
    "snd (run_web_fetch sample_web https_only (u ''http://example.org/'')) = Inl WebFetchEgressViolation"
    by code_simp+
  moreover have "\<not> allow_private_network_targets https_only" by (simp add: https_only_def)
  ultimately show ?thesis using fetch_connects_public [OF _ sample_dns, of https_only "u ''http://example.org/''"] by blast
qed

lemma mapped_uint: "drop_bit 32 a = 0xFFFF \<longleftrightarrow> uint a div 2 ^ 32 = 0xFFFF" for a :: "128 word"
  by (simp only: word_uint_eq_iff uint_shifted) simp

text \<open>
  Addresses of the NAT64 prefix \<open>64:ff9b::/96\<close> count as public whatever IPv4 address they hold: where such a gateway
  is in use, a private host is reached through them.
\<close>

lemma nat64_private_passes:
  "is_global (V6 0x0064FF9B00000000000000007F000001)" "is_global (V6 0x0064FF9B0000000000000000A9FEA9FE)"
  "\<not> is_global (V4 (v4 127 0 0 1))" "\<not> is_global (V4 (v4 169 254 169 254))"
  by (simp_all add: v6_global_def v4_global_def in_net_uint v6_private_def v4_private_def v4_exceptions_def v4_def mapped_uint)

section \<open>Search results\<close>

lemma search_event_distinct:
  "search_event env e p = Inr q \<Longrightarrow> distinct (map snd (sp_results p)) \<Longrightarrow> distinct (map snd (sp_results q))"
  by (cases e) (auto simp: and_then_Inr Let_def split: if_splits option.splits)

lemma search_results_distinct:
  assumes "run_web_search env query = Inr results"
  shows "distinct (map snd results) \<and> length results \<le> 10"
proof -
  have "search_events env es p = Inr q \<Longrightarrow> distinct (map snd (sp_results p)) \<Longrightarrow> distinct (map snd (sp_results q))" for es p q
    by (induction es arbitrary: p) (auto simp: and_then_Inr dest: search_event_distinct)
  then have d: "search_events env es SearchResultParser = Inr q \<Longrightarrow> distinct (map snd (sp_results q))" for es q
    by (simp add: SearchResultParser_def)
  obtain es q where q: "search_events env es SearchResultParser = Inr q" "results = take MAX_SEARCH_RESULTS (sp_results q)"
    using assms unfolding run_web_search_def and_then_Inr by (auto simp: and_then_Inr)
  show ?thesis using distinct_take [OF d [OF q(1)], of MAX_SEARCH_RESULTS] q(2) by (simp add: take_map MAX_SEARCH_RESULTS_def)
qed

section \<open>The streamed answer\<close>


definition sample_forced :: json where
  "sample_forced =
     JObj [(u ''model'', JStr (u ''m'')), (u ''messages'', JArr [JObj [(u ''role'', JStr (u ''user'')), (u ''content'', JStr (u ''see http://intranet/.''))]]),
       (u ''tools'', JArr [JObj [(u ''name'', JStr (u ''web_fetch''))]]),
       (u ''tool_choice'', JObj [(u ''type'', JStr (u ''tool'')), (u ''name'', JStr (u ''web_fetch''))])]"


end
