(* ===== verification/ProxyService.thy ===== *)
theory ProxyService
  imports ServiceStream Registry WebTools Cache NativeRequest
begin

text \<open>
  The service as a whole (\<open>ClaudeProxyService\<close> in \<open>api/services.py\<close>): the way of a request from the route through budget,
  cache, routing, guards, web tools and shortcuts to the executor, and of its answer into the cache.  The parts are those of
  \<open>Cache\<close>, \<open>Router\<close>, \<open>WebTools\<close>, \<open>Shortcuts\<close> and \<open>MessageService\<close>.  A request is its JSON value; requests are
  served one after another (the deduplicator and the multiplexer, which let equal requests share a run, are in \<open>Dedup\<close>
  and \<open>Multiplexer\<close>); the silent shadow requests are left out.
\<close>

section \<open>State and settings\<close>

record proxy_settings =
  ps_routing :: settings
  ps_shortcuts :: shortcut_settings
  ps_max_tokens_budget :: int
  ps_exact_cache :: bool
  ps_semantic_cache :: bool
  ps_web_server_tools :: bool
  ps_fetch_private :: bool
  ps_fetch_schemes :: pystr
  ps_fallback_chain :: pystr
  ps_fallback_model :: pystr

text \<open>
  What surrounds the service: \<open>px_tokens\<close> is the token counter, \<open>px_time\<close> the clock of the cache at the look-up and at the
  store, \<open>px_preflight\<close> what making the primary provider and its preflight raise, \<open>px_service\<close> the executor's environment for the
  routed request, \<open>px_balance\<close> the load balancing and \<open>px_raced\<close> the outcome of a race.
\<close>

record proxy_env =
  px_route :: route_env
  px_tokens :: "json \<Rightarrow> int"
  px_cache_env :: cache_env
  px_time :: "rat \<times> rat"
  px_web :: web_env
  px_repr :: "json \<Rightarrow> pystr"
  px_exn_name :: "py_exn \<Rightarrow> pystr"
  px_verbose :: bool
  px_id :: pystr
  px_preflight :: "json \<Rightarrow> resolved_model \<Rightarrow> py_exn option"
  px_provider_error :: "py_exn \<Rightarrow> bool"
  px_balance :: "candidate list \<Rightarrow> candidate list"
  px_service :: "json \<Rightarrow> service_env"
  px_raced :: "(pystr list \<times> py_exn option) option"

record proxy =
  px_cache :: response_cache
  px_router :: router
  px_executor :: executor

text \<open>What the client gets: a finished answer, or a stream that may break off with an exception.\<close>

datatype answer =
    Cached "pystr list"
  | Web_Tool "frame list"
  | Shortcut json
  | Streamed "pystr list" "py_exn option"

section \<open>Steps of a request\<close>

definition web_fetch_allowed_scheme_set :: "(pystr \<Rightarrow> pystr) \<Rightarrow> pystr \<Rightarrow> pystr list" where
  "web_fetch_allowed_scheme_set lower schemes =
     remdups (map (\<lambda>part. lower (str_strip part)) (filter (\<lambda>part. str_strip part \<noteq> []) (str_split 44 schemes)))"

definition require_non_empty_messages :: "json \<Rightarrow> py_exn + unit" where
  "require_non_empty_messages req = (if request_messages req = [] then Inl InvalidRequestError else Inr ())"

definition check_budget :: "proxy_env \<Rightarrow> proxy_settings \<Rightarrow> json \<Rightarrow> py_exn + unit" where
  "check_budget env st req =
     (let requested_max = (case as_int (jget (u ''max_tokens'') req) of Some n \<Rightarrow> if n \<noteq> 0 then n else 4096 | None \<Rightarrow> 4096) in
      if 0 < ps_max_tokens_budget st \<and> ps_max_tokens_budget st < px_tokens env req + requested_max
      then Inl InvalidRequestError else Inr ())"

definition cached_log :: "proxy_env \<Rightarrow> json \<Rightarrow> pystr list \<Rightarrow> request_log" where
  "cached_log env req chunks =
     \<lparr>lg_provider = u ''cache'', lg_model = (case jget (u ''model'') req of JStr m \<Rightarrow> m | _ \<Rightarrow> []), lg_input = JInt (px_tokens env req),
      lg_output = JInt (int (length (split_words (concat chunks)))), lg_status = 200, lg_fallback = False\<rparr>"

definition lookup_cache :: "proxy_env \<Rightarrow> proxy_settings \<Rightarrow> json \<Rightarrow> proxy \<Rightarrow> (py_exn + pystr list option) \<times> proxy" where
  "lookup_cache env st req px =
     (if ps_exact_cache st then
        (case cache_get (px_cache_env env) (fst (px_time env)) (ps_semantic_cache st) req (px_cache px) of
           (Inr (Some chunks), c) \<Rightarrow>
             (Inr (Some chunks), px\<lparr>px_cache := c, px_executor := (px_executor px)\<lparr>ex_analytics := ex_analytics (px_executor px) @ [cached_log env req chunks]\<rparr>\<rparr>)
         | (r, c) \<Rightarrow> (r, px\<lparr>px_cache := c\<rparr>))
      else (Inr None, px))"

text \<open>The request as the router reads it; the blocks of a validated request are objects.\<close>

definition as_messages_request :: "json \<Rightarrow> messages_request" where
  "as_messages_request req =
     \<lparr>rq_model = (case jget (u ''model'') req of JStr m \<Rightarrow> m | _ \<Rightarrow> []),
      rq_messages = map (\<lambda>m. (case jget (u ''role'') m of JStr r \<Rightarrow> r | _ \<Rightarrow> [],
          case jget (u ''content'') m of JArr bs \<Rightarrow> ContentParts (map BlockPart bs) | JStr t \<Rightarrow> ContentText t | _ \<Rightarrow> ContentText [])) (request_messages req),
      rq_system = jget (u ''system'') req, rq_tools = request_tools req\<rparr>"

definition OPENAI_CHAT_UPSTREAM_IDS :: "pystr list" where
  "OPENAI_CHAT_UPSTREAM_IDS = map u [''nvidia_nim'', ''opencode'', ''opencode_go'']"

definition upstream_tool_guard :: "proxy_settings \<Rightarrow> pystr \<Rightarrow> json \<Rightarrow> py_exn + unit" where
  "upstream_tool_guard st provider_id req =
     (if provider_id \<in> set OPENAI_CHAT_UPSTREAM_IDS \<and> openai_chat_upstream_server_tool_error (ps_web_server_tools st) req \<noteq> None
      then Inl InvalidRequestError else Inr ())"

text \<open>A failing preflight is passed over when there is a fallback and the error is one of authentication or of the provider's name.\<close>

definition preflight :: "proxy_env \<Rightarrow> proxy_settings \<Rightarrow> json \<Rightarrow> resolved_model \<Rightarrow> py_exn + unit" where
  "preflight env st req resolved =
     (case px_preflight env req resolved of
        None \<Rightarrow> Inr ()
      | Some e \<Rightarrow>
          if (ps_fallback_chain st \<noteq> [] \<or> ps_fallback_model st \<noteq> []) \<and> (e = AuthenticationError \<or> e = UnknownProviderTypeError) then Inr ()
          else Inl e)"

text \<open>
  The stream of the executor, and what is left of it in the cache and in the failover memory.  A failure of the store reaches the client
  at the end of the stream.
\<close>

definition run_provider :: "proxy_env \<Rightarrow> proxy_settings \<Rightarrow> json \<Rightarrow> json \<Rightarrow> resolved_model \<Rightarrow> proxy \<Rightarrow> answer \<times> proxy" where
  "run_provider env st req routed_req resolved px =
     (case request_candidates (rm_provider_id resolved, rm_provider_model resolved, rm_thinking_enabled resolved) (ps_fallback_chain st) (ps_fallback_model st) of
        Inl e \<Rightarrow> (Streamed [] (Some e), px)
      | Inr candidates \<Rightarrow>
          (case execute_request (px_service env routed_req) (px_raced env) (px_balance env candidates) (px_executor px) of
             (chunks, err, s) \<Rightarrow>
               let ro = (case ex_last_ok s of Some p \<Rightarrow> set_last_successful_provider p (px_router px) | None \<Rightarrow> px_router px);
                   px1 = px\<lparr>px_executor := s, px_router := ro\<rparr>
               in if err = None \<and> ps_exact_cache st \<and> chunks \<noteq> [] then
                    (case cache_set (px_cache_env env) (snd (px_time env)) req chunks None (px_cache px1) of
                       Inl e \<Rightarrow> (Streamed chunks (Some e), px1)
                     | Inr c \<Rightarrow> (Streamed chunks None, px1\<lparr>px_cache := c\<rparr>))
                  else (Streamed chunks err, px1)))"

definition http_error :: "proxy_env \<Rightarrow> py_exn \<Rightarrow> py_exn" where
  "http_error env e = (if px_provider_error env e then e else HTTPStatusError 500)"

definition serve_routed :: "proxy_env \<Rightarrow> proxy_settings \<Rightarrow> json \<Rightarrow> json \<Rightarrow> resolved_model \<Rightarrow> proxy \<Rightarrow> (py_exn + answer) \<times> proxy" where
  "serve_routed env st req routed_req resolved px =
     (case upstream_tool_guard st (rm_provider_id resolved) routed_req of
        Inl e \<Rightarrow> (Inl e, px)
      | Inr _ \<Rightarrow>
          if ps_web_server_tools st \<and> is_web_server_tool_request routed_req then
            (Inr (Web_Tool (stream_web_server_tool_response (px_web env) (px_repr env) (px_exn_name env)
               \<lparr>allow_private_network_targets = ps_fetch_private st,
                allowed_schemes = web_fetch_allowed_scheme_set (ro_lower (px_route env)) (ps_fetch_schemes st)\<rparr>
               (px_verbose env) (px_id env) (px_id env) (px_tokens env routed_req) routed_req)), px)
          else (case try_optimizations (ro_lower (px_route env)) (px_id env) (ps_shortcuts st) routed_req of
             Some r \<Rightarrow> (Inr (Shortcut r), px)
           | None \<Rightarrow>
               (case preflight env st routed_req resolved of
                  Inl e \<Rightarrow> (Inl e, px)
                | Inr _ \<Rightarrow> (case run_provider env st req routed_req resolved px of (a, px1) \<Rightarrow> (Inr a, px1)))))"

text \<open>\<open>create_message\<close>, with the answer read to its end.\<close>

definition create_message :: "proxy_env \<Rightarrow> proxy_settings \<Rightarrow> json \<Rightarrow> (pystr, pystr) dict \<Rightarrow> proxy \<Rightarrow> (py_exn + answer) \<times> proxy" where
  "create_message env st req headers px =
     (case and_then (require_non_empty_messages req) (\<lambda>_. check_budget env st req) of
        Inl e \<Rightarrow> (Inl (http_error env e), px)
      | Inr _ \<Rightarrow>
          (case lookup_cache env st req px of
             (Inl e, px1) \<Rightarrow> (Inl (http_error env e), px1)
           | (Inr (Some chunks), px1) \<Rightarrow> (Inr (Cached chunks), px1)
           | (Inr None, px1) \<Rightarrow>
               (case resolve_messages_request (px_route env) (ps_routing st) (as_messages_request req) headers (px_router px1) of
                  (Inl e, ro) \<Rightarrow> (Inl (http_error env e), px1\<lparr>px_router := ro\<rparr>)
                | (Inr (q, resolved), ro) \<Rightarrow>
                    (case serve_routed env st req (jset (u ''model'') (JStr (rm_provider_model resolved)) req) resolved (px1\<lparr>px_router := ro\<rparr>) of
                       (Inl e, px2) \<Rightarrow> (Inl (http_error env e), px2)
                     | (Inr a, px2) \<Rightarrow> (Inr a, px2)))))"

definition count_tokens :: "proxy_env \<Rightarrow> proxy_settings \<Rightarrow> json \<Rightarrow> py_exn + int" where
  "count_tokens env st req =
     (case and_then (require_non_empty_messages req) (\<lambda>_.
         and_then (resolve_token_count_request (ro_lower (px_route env)) (ps_routing st) (as_messages_request req)) (\<lambda>(q, resolved).
           Inr (px_tokens env (jset (u ''model'') (JStr (rm_provider_model resolved)) req)))) of
        Inl e \<Rightarrow> Inl (http_error env e)
      | Inr n \<Rightarrow> Inr n)"

section \<open>Only the executor calls providers\<close>

lemma lookup_calls:
  "lookup_cache env st req px = (r, px1) \<Longrightarrow> ex_calls (px_executor px1) = ex_calls (px_executor px) \<and> px_router px1 = px_router px"
  by (auto simp: lookup_cache_def split: if_splits prod.splits sum.splits option.splits)

lemma run_provider_streams: "run_provider env st req routed_req resolved px = (a, px1) \<Longrightarrow> \<exists>chunks e. a = Streamed chunks e"
  by (auto simp: run_provider_def Let_def split: sum.splits prod.splits if_splits)

lemma serve_calls:
  assumes "serve_routed env st req routed_req resolved px = (r, px1)" "\<And>chunks e. r \<noteq> Inr (Streamed chunks e)"
  shows "px1 = px"
proof -
  have "run_provider env st req routed_req resolved px = (a, px1) \<Longrightarrow> r \<noteq> Inr a" for a
    using run_provider_streams assms(2) by blast
  then show ?thesis using assms(1) by (auto simp: serve_routed_def split: sum.splits if_splits option.splits prod.splits)
qed

text \<open>A request that is refused, or answered from the cache, by a web tool or by a shortcut, calls no provider.\<close>

theorem unstreamed_calls_nobody:
  assumes "create_message env st req headers px = (r, px')" "\<And>chunks e. r \<noteq> Inr (Streamed chunks e)"
  shows "ex_calls (px_executor px') = ex_calls (px_executor px)"
proof (cases "and_then (require_non_empty_messages req) (\<lambda>_. check_budget env st req)")
  case (Inr _)
  obtain r1 px1 where l: "lookup_cache env st req px = (r1, px1)" by fastforce
  note same = lookup_calls [OF l]
  show ?thesis
  proof (cases "r1 = Inr None")
    case True
    obtain r2 ro where route: "resolve_messages_request (px_route env) (ps_routing st) (as_messages_request req) headers (px_router px1) = (r2, ro)"
      by fastforce
    show ?thesis
    proof (cases r2)
      case (Inl e)
      then show ?thesis using assms(1) Inr l True route same by (auto simp: create_message_def)
    next
      case (Inr qr)
      obtain q resolved where qr: "qr = (q, resolved)" by (cases qr)
      let ?routed = "jset (u ''model'') (JStr (rm_provider_model resolved)) req" and ?px = "px1\<lparr>px_router := ro\<rparr>"
      obtain r3 px3 where s: "serve_routed env st req ?routed resolved ?px = (r3, px3)" by fastforce
      have "r3 \<noteq> Inr (Streamed chunks e)" for chunks e
        using assms(1) assms(2) [of chunks e] \<open>and_then _ _ = Inr _\<close> l True route Inr qr s by (auto simp: create_message_def)
      then have "px3 = ?px" by (rule serve_calls [OF s])
      moreover have "px' = px3"
        using assms(1) \<open>and_then _ _ = Inr _\<close> l True route Inr qr s by (auto simp: create_message_def split: sum.splits)
      ultimately show ?thesis using same by simp
    qed
  next
    case False
    then have "px' = px1" using assms(1) Inr l by (auto simp: create_message_def split: sum.splits option.splits)
    then show ?thesis using same by simp
  qed
qed (use assms(1) in \<open>auto simp: create_message_def\<close>)

section \<open>Answers come back from the cache\<close>

lemma cache_get_keeps:
  assumes "cache_ok c" "cache_get env t sem req c = (r, c')"
  shows "cache_ok c' \<and> rc_ttl c' = rc_ttl c"
proof -
  have "cache_ok c'" using cache_step_ok [OF assms(1), of env "Cache_Get t sem req"] assms(2) by simp
  moreover have "semantic_get env t req d = (q, d') \<Longrightarrow> rc_ttl d' = rc_ttl d" for d d' q
    by (auto simp: semantic_get_def split: sum.splits if_splits prod.splits)
  then have "rc_ttl c' = rc_ttl c" using assms(2) by (fastforce simp: cache_get_def Let_def split: option.splits if_splits)
  ultimately show ?thesis by blast
qed

lemma lookup_keeps:
  assumes "cache_ok (px_cache px)" "lookup_cache env st req px = (r, px1)"
  shows "cache_ok (px_cache px1) \<and> rc_ttl (px_cache px1) = rc_ttl (px_cache px)"
  using assms cache_get_keeps [OF assms(1)]
  by (auto simp: lookup_cache_def split: if_splits prod.splits sum.splits option.splits)

lemma streamed_is_stored:
  assumes "create_message env st req headers px = (Inr (Streamed chunks None), px1)" "chunks \<noteq> []" "ps_exact_cache st" "cache_ok (px_cache px)"
  shows "\<exists>c. cache_ok c \<and> rc_ttl c = rc_ttl (px_cache px) \<and> cache_set (px_cache_env env) (snd (px_time env)) req chunks None c = Inr (px_cache px1)"
proof -
  have pre: "\<not> isl (and_then (require_non_empty_messages req) (\<lambda>_. check_budget env st req))"
    using assms(1) by (cases "and_then (require_non_empty_messages req) (\<lambda>_. check_budget env st req)") (auto simp: create_message_def)
  obtain r2 px2 where l: "lookup_cache env st req px = (r2, px2)" by fastforce
  note kept = lookup_keeps [OF assms(4) l]
  have none: "r2 = Inr None" using assms(1) pre l by (auto simp: create_message_def isl_def split: sum.splits option.splits)
  obtain q resolved ro where route: "resolve_messages_request (px_route env) (ps_routing st) (as_messages_request req) headers (px_router px2) = (Inr (q, resolved), ro)"
    using assms(1) pre l none by (auto simp: create_message_def isl_def split: sum.splits prod.splits)
  let ?routed = "jset (u ''model'') (JStr (rm_provider_model resolved)) req" and ?px = "px2\<lparr>px_router := ro\<rparr>"
  have "serve_routed env st req ?routed resolved ?px = (Inr (Streamed chunks None), px1)"
    using assms(1) pre l none route by (auto simp: create_message_def isl_def split: sum.splits prod.splits)
  then have "run_provider env st req ?routed resolved ?px = (Streamed chunks None, px1)"
    by (auto simp: serve_routed_def split: sum.splits if_splits option.splits prod.splits)
  then have "cache_set (px_cache_env env) (snd (px_time env)) req chunks None (px_cache px2) = Inr (px_cache px1)"
    using assms(2,3) by (auto simp: run_provider_def Let_def split: sum.splits prod.splits if_splits)
  then show ?thesis using kept by blast
qed


section \<open>An example\<close>

definition one_word :: "nat \<Rightarrow> provider_call \<Rightarrow> py_exn + pystr arrival list" where
  "one_word n call = Inr [Item 1 (u ''hello''), Ended 1]"

definition sample_proxy_env :: proxy_env where
  "sample_proxy_env =
     \<lparr>px_route = sample_route, px_tokens = (\<lambda>_. 10), px_cache_env = plain_env, px_time = (0, 1), px_web = sample_web, px_repr = (\<lambda>_. []),
      px_exn_name = (\<lambda>_. []), px_verbose = False, px_id = [], px_preflight = (\<lambda>_ _. None), px_provider_error = (\<lambda>_. True), px_balance = id,
      px_service = (\<lambda>_. sample_service one_word), px_raced = None\<rparr>"

definition sample_proxy_settings :: proxy_settings where
  "sample_proxy_settings =
     \<lparr>ps_routing = plain_settings,
      ps_shortcuts = \<lparr>fast_prefix_detection = False, network_probe_mock = False, title_generation_skip = False, suggestion_mode_skip = False, filepath_extraction_mock = False\<rparr>,
      ps_max_tokens_budget = 0, ps_exact_cache = True, ps_semantic_cache = False, ps_web_server_tools = False, ps_fetch_private = False,
      ps_fetch_schemes = [], ps_fallback_chain = [], ps_fallback_model = []\<rparr>"

definition sample_request :: json where
  "sample_request =
     JObj [(u ''model'', JStr (u ''claude-opus-4'')), (u ''messages'', JArr [JObj [(u ''role'', JStr (u ''user'')), (u ''content'', JStr (u ''hi''))]])]"

definition empty_proxy :: proxy where
  "empty_proxy = \<lparr>px_cache = ResponseCache 3600 (9 / 10) 10, px_router = ROUTER_START, px_executor = empty_executor\<rparr>"

lemma sample_served: "fst (create_message sample_proxy_env sample_proxy_settings sample_request [] empty_proxy) = Inr (Streamed [u ''hello''] None)"
  by code_simp

lemma unstreamed_calls_nobody_witness:
  "ex_calls (px_executor (snd (create_message sample_proxy_env sample_proxy_settings (JObj []) [] empty_proxy))) = []"
proof -
  obtain r px' where run: "create_message sample_proxy_env sample_proxy_settings (JObj []) [] empty_proxy = (r, px')" by fastforce
  moreover have "fst (create_message sample_proxy_env sample_proxy_settings (JObj []) [] empty_proxy) = Inl InvalidRequestError" by code_simp
  ultimately have "r \<noteq> Inr (Streamed chunks e)" for chunks e by auto
  from unstreamed_calls_nobody [OF run this] show ?thesis unfolding run by (simp add: empty_proxy_def empty_executor_def)
qed


section \<open>What the guards and the key of the cache miss\<close>

text \<open>The key leaves out \<open>tool_choice\<close> and \<open>thinking\<close>: a request that forces a tool gets the answer of one that does not.\<close>

lemma cache_key_fields:
  assumes "list_all (\<lambda>k. jget (u k) req' = jget (u k) req) [''model'', ''messages'', ''system'', ''tools'', ''temperature'', ''max_tokens'']"
  shows "generate_exact_key env req' = generate_exact_key env req"
  using assms by (simp add: generate_exact_key_def normalized_request_def)

lemma forced_tool_shares_answer:
  "generate_exact_key env (jset (u ''tool_choice'') v (JObj d)) = generate_exact_key env (JObj d)"
  "generate_exact_key env (jset (u ''thinking'') v (JObj d)) = generate_exact_key env (JObj d)"
  by (rule cache_key_fields; simp add: dict_simps)+

text \<open>Providers with an OpenAI chat transport to which requests with server tools are nevertheless sent.\<close>

lemma guard_misses_openai_chat:
  "map pd_provider_id (filter (\<lambda>d. pd_transport_type d = Openai_Chat \<and> pd_provider_id d \<notin> set OPENAI_CHAT_UPSTREAM_IDS) PROVIDER_CATALOG) =
     map u [''gemini'', ''mistral'', ''mistral_codestral'', ''cerebras'', ''groq'', ''github_models'', ''openai'']"
  by (simp add: PROVIDER_CATALOG_def descriptor_defs OPENAI_CHAT_UPSTREAM_IDS_def)

section \<open>Failures are cached\<close>

text \<open>
  The transport turns every failure of its provider into events, so the answer with the error is complete and is stored: until it
  expires, every such request is answered with that error from the cache.
\<close>

lemma failed_answers_cached:
  assumes "se_open (px_service env routed_req) = openai_open transport wait" "\<And>n i. wait n i < 15" "\<And>n i. wait n i < se_timeout (px_service env routed_req)"
    and "px_raced env = None" "ps_exact_cache st" "cache_ok (px_cache px)" "extract_prompt_text req = Inr t"
    and "request_candidates (rm_provider_id resolved, rm_provider_model resolved, rm_thinking_enabled resolved) (ps_fallback_chain st) (ps_fallback_model st) = Inr candidates"
    and "poll (px_service env routed_req) (now (px_service env routed_req) (px_executor px)) (px_balance env candidates) poll_rounds (tick (px_executor px)) = (el # els, s1)"
    and "guard_enter (fst el) (now (px_service env routed_req) s1) (ex_breaker s1) = (None, b)"
  shows "\<exists>out c. fst (run_provider env st req routed_req resolved px) = Streamed (map (\<lambda>(name, data). format_sse_event name data) out) None \<and>
     assert_anthropic_stream_contract True (map frame_event out) = Inr () \<and>
     px_cache (snd (run_provider env st req routed_req resolved px)) = c \<and>
     cache_set (px_cache_env env) (snd (px_time env)) req (map (\<lambda>(name, data). format_sse_event name data) out) None (px_cache px) = Inr c"
proof -
  obtain chunks r s' where run: "execute_eligible (px_service env routed_req) None (el # els) s1 = (chunks, r, s')" by (metis prod_cases3)
  obtain out where out: "assert_anthropic_stream_contract True (map frame_event out) = Inr ()" "chunks = map (\<lambda>(name, data). format_sse_event name data) out" "r = None"
    using transport_failures_unseen [OF assms(1-3,10) run] by blast
  have "chunks \<noteq> []" using out(1,2) by (auto simp: assert_anthropic_stream_contract_def check_contract_def)
  moreover have "execute_request (px_service env routed_req) (px_raced env) (px_balance env candidates) (px_executor px) = (chunks, None, s')"
    using assms(4,9) run out(3) by (simp add: execute_request_def)
  moreover obtain c where "cache_set (px_cache_env env) (snd (px_time env)) req chunks None (px_cache px) = Inr c"
    using make_room_ok [OF assms(6) refl, of "generate_exact_key (px_cache_env env) req"] assms(7) by (auto simp: cache_set_def Let_def)
  ultimately show ?thesis
    using assms(5,8) out by (intro exI [of _ out] exI [of _ c]) (simp add: run_provider_def Let_def)
qed

end
