(* ===== verification/MessageLimiter.thy ===== *)
theory MessageLimiter
  imports Complex_Main Shortcuts
begin

text \<open>
  The limiter of outgoing chat messages (\<open>messaging/limiter.py\<close>): a queue in which a newer version of a message
  takes the place of an older one, and a worker that sends one message after another.  An operation
  under the condition's lock is one step; between taking a message and its end the worker is suspended, and
  anything may be enqueued.  The sliding window between two messages is the one of \<open>core/rate_limit.py\<close>.
\<close>

section \<open>State\<close>

text \<open>An exception of a send: its text in lower case, and its attribute \<open>seconds\<close> if it has one.\<close>

datatype send_error = SendError pystr "json option"

datatype 'r outcome = Result 'r | Raised send_error | Cancelled

record ('f, 'r) message_limiter =
  queue_list :: "pystr list"
  queue_map :: "(pystr, 'f \<times> nat list) dict"
  paused_until :: rat
  current :: "('f \<times> nat list \<times> rat) option"
  answered :: "(nat, 'r outcome) dict"
  next_future :: nat
  worker_stopped :: bool

definition MessagingRateLimiter :: "('f, 'r) message_limiter" where
  "MessagingRateLimiter = \<lparr>queue_list = [], queue_map = [], paused_until = 0, current = None, answered = [], next_future = 0, worker_stopped = False\<rparr>"

section \<open>Operations\<close>

definition enqueue_internal_multi :: "'f \<Rightarrow> nat list \<Rightarrow> pystr \<Rightarrow> bool \<Rightarrow> ('f, 'r) message_limiter \<Rightarrow> ('f, 'r) message_limiter" where
  "enqueue_internal_multi func futures dedup_key front l =
     (case dict_get (queue_map l) dedup_key of
        Some (old_func, old_futures) \<Rightarrow> l\<lparr>queue_map := dict_set dedup_key (func, old_futures @ futures) (queue_map l)\<rparr>
      | None \<Rightarrow>
          l\<lparr>queue_map := dict_set dedup_key (func, futures) (queue_map l),
            queue_list := if front then dedup_key # queue_list l else queue_list l @ [dedup_key]\<rparr>)"

definition enqueue_internal :: "'f \<Rightarrow> nat \<Rightarrow> pystr \<Rightarrow> bool \<Rightarrow> ('f, 'r) message_limiter \<Rightarrow> ('f, 'r) message_limiter" where
  "enqueue_internal func fut dedup_key front l = enqueue_internal_multi func [fut] dedup_key front l"

text \<open>\<open>enqueue\<close> up to its \<open>await\<close>: a new future is queued with the function.\<close>

definition enqueue_message :: "'f \<Rightarrow> pystr \<Rightarrow> ('f, 'r) message_limiter \<Rightarrow> ('f, 'r) message_limiter" where
  "enqueue_message func dedup_key l =
     enqueue_internal func (next_future l) dedup_key False (l\<lparr>next_future := next_future l + 1\<rparr>)"

text \<open>The worker takes the next message; it starts after the pause, if there is one.\<close>

definition worker_take :: "rat \<Rightarrow> ('f, 'r) message_limiter \<Rightarrow> ('f, 'r) message_limiter" where
  "worker_take now l =
     (case queue_list l of
        [] \<Rightarrow> l
      | dedup_key # ks \<Rightarrow>
          (case dict_get (queue_map l) dedup_key of
             None \<Rightarrow> l\<lparr>queue_list := ks\<rparr>
           | Some (func, futures) \<Rightarrow>
               l\<lparr>queue_list := ks, queue_map := dict_pop dedup_key (queue_map l),
                 current := Some (func, futures, if now < paused_until l then paused_until l else now)\<rparr>))"

text \<open>The futures that are not done get the outcome.\<close>

fun set_futures :: "'r outcome \<Rightarrow> nat list \<Rightarrow> (nat, 'r outcome) dict \<Rightarrow> (nat, 'r outcome) dict" where
  "set_futures r [] m = m"
| "set_futures r (f # fs) m = set_futures r fs (if dict_get m f = None then dict_set f r m else m)"

text \<open>The pause after an error of flood control; \<open>to_float\<close> is \<open>float()\<close> of a value, \<open>None\<close> for its \<open>ValueError\<close>.\<close>

definition retry_after :: "pystr \<Rightarrow> int option" where
  "retry_after error_msg =
     (case str_find (u ''after '') error_msg of
        None \<Rightarrow> None
      | Some i \<Rightarrow>
          let rest = drop (i + length (u ''after '')) error_msg;
              part = (case str_find (u ''after '') rest of None \<Rightarrow> rest | Some j \<Rightarrow> take j rest)
          in (case split_words part of [] \<Rightarrow> None | w # _ \<Rightarrow> py_int w))"

definition flood_seconds :: "(json \<Rightarrow> rat option) \<Rightarrow> send_error \<Rightarrow> rat option" where
  "flood_seconds to_float e =
     (case e of SendError error_msg secs \<Rightarrow>
        (case secs of
           Some v \<Rightarrow> (case v of JInt i \<Rightarrow> Some (of_int i) | JBool b \<Rightarrow> Some (if b then 1 else 0) | JReal _ \<Rightarrow> to_float v | JStr _ \<Rightarrow> to_float v | _ \<Rightarrow> Some 30)
         | None \<Rightarrow> Some (case retry_after error_msg of Some n \<Rightarrow> of_int n | None \<Rightarrow> 30)))"

definition is_flood :: "send_error \<Rightarrow> bool" where
  "is_flood e \<longleftrightarrow> (case e of SendError error_msg secs \<Rightarrow> str_contains (u ''flood'') error_msg \<or> str_contains (u ''wait'') error_msg)"

text \<open>The end of a message at time \<open>now\<close>; a cancellation ends the worker.\<close>

definition worker_finish :: "(json \<Rightarrow> rat option) \<Rightarrow> 'r outcome \<Rightarrow> rat \<Rightarrow> ('f, 'r) message_limiter \<Rightarrow> ('f, 'r) message_limiter" where
  "worker_finish to_float result now l =
     (case current l of
        None \<Rightarrow> l
      | Some (func, futures, start) \<Rightarrow>
          let l1 = l\<lparr>current := None\<rparr>; l2 = l1\<lparr>answered := set_futures result futures (answered l)\<rparr> in
          (case result of
             Cancelled \<Rightarrow> l1\<lparr>worker_stopped := True\<rparr>
           | Result _ \<Rightarrow> l2
           | Raised e \<Rightarrow>
               (case (if is_flood e then flood_seconds to_float e else None) of
                  Some s \<Rightarrow> l2\<lparr>paused_until := now + s\<rparr>
                | None \<Rightarrow> l2)))"

text \<open>A caller that is cancelled cancels its future.\<close>

definition cancel_future :: "nat \<Rightarrow> ('f, 'r) message_limiter \<Rightarrow> ('f, 'r) message_limiter" where
  "cancel_future f l = (if f < next_future l then l\<lparr>answered := set_futures Cancelled [f] (answered l)\<rparr> else l)"

datatype ('f, 'r) limiter_event =
    Enqueue 'f pystr
  | Take rat
  | Finish "'r outcome" rat
  | CancelCaller nat

text \<open>The worker takes only when it is idle and has not stopped.\<close>

definition limiter_step :: "(json \<Rightarrow> rat option) \<Rightarrow> ('f, 'r) limiter_event \<Rightarrow> ('f, 'r) message_limiter \<Rightarrow> ('f, 'r) message_limiter" where
  "limiter_step to_float ev l =
     (case ev of
        Enqueue func dedup_key \<Rightarrow> enqueue_message func dedup_key l
      | Take now \<Rightarrow> if current l = None \<and> \<not> worker_stopped l then worker_take now l else l
      | Finish result now \<Rightarrow> worker_finish to_float result now l
      | CancelCaller f \<Rightarrow> cancel_future f l)"

fun limiter_run :: "(json \<Rightarrow> rat option) \<Rightarrow> ('f, 'r) limiter_event list \<Rightarrow> ('f, 'r) message_limiter \<Rightarrow> ('f, 'r) message_limiter" where
  "limiter_run to_float [] l = l"
| "limiter_run to_float (ev # evs) l = limiter_run to_float evs (limiter_step to_float ev l)"

text \<open>
  The attempts of \<open>fire_and_forget\<close>: transient errors are tried again, at most twice.  \<open>answer i\<close> is the outcome of
  the i-th \<open>enqueue\<close>; the result holds the waits between the attempts.
\<close>

definition transient :: "send_error \<Rightarrow> bool" where
  "transient e \<longleftrightarrow> (case e of SendError error_msg secs \<Rightarrow>
     list_ex (\<lambda>x. str_contains (u x) error_msg) [''connect'', ''timeout'', ''broken''])"

fun fire_and_forget :: "(nat \<Rightarrow> 'r outcome) \<Rightarrow> nat list \<Rightarrow> nat list \<times> 'r outcome option" where
  "fire_and_forget answer [] = ([], None)"
| "fire_and_forget answer (attempt # rest) =
     (case answer attempt of
        Raised e \<Rightarrow>
          if attempt < 2 \<and> transient e then
            (case fire_and_forget answer rest of (ws, r) \<Rightarrow> (2 ^ attempt # ws, r))
          else ([], Some (Raised e))
      | r \<Rightarrow> ([], Some r))"

section \<open>One ordered queue\<close>

text \<open>The deque of keys and the map of entries together are one list of entries in order.\<close>

definition pending :: "('f, 'r) message_limiter \<Rightarrow> (pystr \<times> 'f \<times> nat list) list" where
  "pending l = map (\<lambda>k. (k, the (dict_get (queue_map l) k))) (queue_list l)"

definition spec_enqueue :: "pystr \<Rightarrow> 'f \<Rightarrow> nat \<Rightarrow> (pystr \<times> 'f \<times> nat list) list \<Rightarrow> (pystr \<times> 'f \<times> nat list) list" where
  "spec_enqueue k func fut q =
     (if k \<in> fst ` set q then map (\<lambda>(k', f, fs). if k' = k then (k', func, fs @ [fut]) else (k', f, fs)) q
      else q @ [(k, func, [fut])])"

definition limiter_ok :: "('f, 'r) message_limiter \<Rightarrow> bool" where
  "limiter_ok l \<longleftrightarrow> distinct (queue_list l) \<and> dict_wf (queue_map l) \<and> set (queue_list l) = fst ` set (queue_map l)"

lemma queued_key: "limiter_ok l \<Longrightarrow> k \<in> set (queue_list l) \<longleftrightarrow> dict_get (queue_map l) k \<noteq> None"
  by (simp add: limiter_ok_def dict_get_None_iff)

lemma keys_pending [simp]: "map fst (pending l) = queue_list l" "fst ` set (pending l) = set (queue_list l)"
  by (simp_all add: pending_def comp_def image_image)

lemma compacting_enqueue_ok:
  assumes "limiter_ok l"
  shows "limiter_ok (enqueue_message f k l)"
proof (cases "dict_get (queue_map l) k")
  case None
  then have "k \<notin> set (queue_list l)" using queued_key [OF assms] by simp
  then show ?thesis using None assms
    by (simp add: limiter_ok_def enqueue_message_def enqueue_internal_def enqueue_internal_multi_def dict_simps)
next
  case (Some e)
  then have "k \<in> set (queue_list l)" using queued_key [OF assms] by simp
  then show ?thesis using Some assms
    by (auto simp: limiter_ok_def enqueue_message_def enqueue_internal_def enqueue_internal_multi_def dict_simps split: prod.splits)
qed

lemma pending_enqueue:
  assumes "limiter_ok l"
  shows "pending (enqueue_message f k l) = spec_enqueue k f (next_future l) (pending l)"
proof (cases "dict_get (queue_map l) k")
  case None
  then have "k \<notin> set (queue_list l)" using queued_key [OF assms] by simp
  then show ?thesis using None
    by (auto simp: pending_def spec_enqueue_def enqueue_message_def enqueue_internal_def enqueue_internal_multi_def dict_simps image_iff)
next
  case (Some e)
  then have "k \<in> set (queue_list l)" using queued_key [OF assms] by simp
  then show ?thesis using Some
    by (auto simp: pending_def spec_enqueue_def enqueue_message_def enqueue_internal_def enqueue_internal_multi_def dict_simps image_iff split: prod.splits)
qed

lemma take_ok: "limiter_ok l \<Longrightarrow> limiter_ok (worker_take t l)"
  by (cases "queue_list l") (auto simp: limiter_ok_def worker_take_def dict_simps dict_get_None_iff split: option.splits)

lemma pending_take:
  assumes "limiter_ok l" "pending l = (k, f, fs) # q"
  shows "pending (worker_take t l) = q \<and> current (worker_take t l) = Some (f, fs, max t (paused_until l))"
proof -
  obtain ks where ks: "queue_list l = k # ks" using assms(2) by (cases "queue_list l") (auto simp: pending_def)
  then have "dict_get (queue_map l) k = Some (f, fs)" "k \<notin> set ks"
    using assms queued_key [OF assms(1), of k] by (auto simp: pending_def limiter_ok_def)
  then show ?thesis using assms(2) ks by (auto simp: pending_def worker_take_def dict_simps max_def)
qed

lemma finish_fields:
  "queue_list (worker_finish to_float r t l) = queue_list l" "queue_map (worker_finish to_float r t l) = queue_map l"
  "next_future (worker_finish to_float r t l) = next_future l" "pending (worker_finish to_float r t l) = pending l"
  by (auto simp: worker_finish_def pending_def Let_def split: option.splits outcome.splits)

lemma cancel_fields:
  "queue_list (cancel_future f l) = queue_list l" "queue_map (cancel_future f l) = queue_map l" "current (cancel_future f l) = current l"
  "next_future (cancel_future f l) = next_future l" "pending (cancel_future f l) = pending l"
  by (simp_all add: cancel_future_def pending_def)

lemma step_ok:
  assumes "limiter_ok l"
  shows "limiter_ok (limiter_step to_float ev l)"
proof (cases ev)
  case (Finish r t)
  then show ?thesis using assms by (simp add: limiter_step_def limiter_ok_def finish_fields)
next
  case (CancelCaller f)
  then show ?thesis using assms by (simp add: limiter_step_def limiter_ok_def cancel_fields)
qed (use assms in \<open>simp_all add: limiter_step_def compacting_enqueue_ok take_ok\<close>)

text \<open>The specification: the same limiter with one ordered queue.\<close>

record ('f, 'r) send_queue =
  sq_pending :: "(pystr \<times> 'f \<times> nat list) list"
  sq_paused :: rat
  sq_current :: "('f \<times> nat list \<times> rat) option"
  sq_answered :: "(nat, 'r outcome) dict"
  sq_next :: nat
  sq_stopped :: bool

definition abs_limiter :: "('f, 'r) message_limiter \<Rightarrow> ('f, 'r) send_queue" where
  "abs_limiter l = \<lparr>sq_pending = pending l, sq_paused = paused_until l, sq_current = current l, sq_answered = answered l,
     sq_next = next_future l, sq_stopped = worker_stopped l\<rparr>"

definition spec_finish :: "(json \<Rightarrow> rat option) \<Rightarrow> 'r outcome \<Rightarrow> rat \<Rightarrow> 'f \<times> nat list \<times> rat \<Rightarrow> ('f, 'r) send_queue \<Rightarrow> ('f, 'r) send_queue" where
  "spec_finish to_float r t cur q =
     (if r = Cancelled then q\<lparr>sq_current := None, sq_stopped := True\<rparr>
      else q\<lparr>sq_current := None, sq_answered := set_futures r (fst (snd cur)) (sq_answered q),
             sq_paused := (case r of
                Raised e \<Rightarrow> (case flood_seconds to_float e of Some s \<Rightarrow> if is_flood e then t + s else sq_paused q | None \<Rightarrow> sq_paused q)
              | _ \<Rightarrow> sq_paused q)\<rparr>)"

fun spec_step :: "(json \<Rightarrow> rat option) \<Rightarrow> ('f, 'r) limiter_event \<Rightarrow> ('f, 'r) send_queue \<Rightarrow> ('f, 'r) send_queue" where
  "spec_step to_float (Enqueue f k) q = q\<lparr>sq_pending := spec_enqueue k f (sq_next q) (sq_pending q), sq_next := sq_next q + 1\<rparr>"
| "spec_step to_float (Take t) q =
     (case (sq_current q, sq_stopped q, sq_pending q) of
        (None, False, (k, f, fs) # rest) \<Rightarrow> q\<lparr>sq_pending := rest, sq_current := Some (f, fs, max t (sq_paused q))\<rparr>
      | _ \<Rightarrow> q)"
| "spec_step to_float (Finish r t) q = (case sq_current q of None \<Rightarrow> q | Some cur \<Rightarrow> spec_finish to_float r t cur q)"
| "spec_step to_float (CancelCaller f) q =
     (if f < sq_next q then q\<lparr>sq_answered := set_futures Cancelled [f] (sq_answered q)\<rparr> else q)"

fun spec_run :: "(json \<Rightarrow> rat option) \<Rightarrow> ('f, 'r) limiter_event list \<Rightarrow> ('f, 'r) send_queue \<Rightarrow> ('f, 'r) send_queue" where
  "spec_run to_float [] q = q"
| "spec_run to_float (ev # evs) q = spec_run to_float evs (spec_step to_float ev q)"

lemma take_fields:
  "paused_until (worker_take t l) = paused_until l" "answered (worker_take t l) = answered l" "next_future (worker_take t l) = next_future l"
  "worker_stopped (worker_take t l) = worker_stopped l"
  by (auto simp: worker_take_def split: list.splits option.splits)

lemma enqueue_fields:
  "paused_until (enqueue_message f k l) = paused_until l" "answered (enqueue_message f k l) = answered l"
  "next_future (enqueue_message f k l) = next_future l + 1" "worker_stopped (enqueue_message f k l) = worker_stopped l"
  "current (enqueue_message f k l) = current l"
  by (auto simp: enqueue_message_def enqueue_internal_def enqueue_internal_multi_def split: option.splits)

lemma abs_take:
  assumes "limiter_ok l" "current l = None" "\<not> worker_stopped l"
  shows "abs_limiter (worker_take t l) = spec_step to_float (Take t) (abs_limiter l)"
proof (cases "pending l")
  case Nil
  then have "worker_take t l = l" by (simp add: pending_def worker_take_def)
  then show ?thesis using Nil assms by (simp add: abs_limiter_def)
next
  case (Cons e q)
  obtain k f fs where "e = (k, f, fs)" by (cases e)
  then show ?thesis using pending_take [OF assms(1), of k f fs q t] Cons assms(2,3) by (simp add: abs_limiter_def take_fields)
qed

lemma abs_finish: "abs_limiter (worker_finish to_float r t l) = spec_step to_float (Finish r t) (abs_limiter l)"
  by (auto simp: abs_limiter_def worker_finish_def spec_finish_def pending_def Let_def split: option.splits outcome.splits)

text \<open>C33 (refinement): the deque of keys and the map of entries behave as one ordered queue, in which a newer version takes the place of the waiting one and the callers of both wait for
  it, however enqueuing, the worker and cancelled callers interleave.\<close>

theorem compaction_refines_queue:
  assumes "limiter_ok l"
  shows "abs_limiter (limiter_run to_float evs l) = spec_run to_float evs (abs_limiter l)"
  using assms
proof (induction evs arbitrary: l)
  case (Cons ev evs)
  have "abs_limiter (limiter_step to_float ev l) = spec_step to_float ev (abs_limiter l)"
  proof (cases ev)
    case (Enqueue f k)
    then show ?thesis using pending_enqueue [OF Cons.prems, of f k] by (simp add: limiter_step_def abs_limiter_def enqueue_fields)
  next
    case (Take t)
    show ?thesis
    proof (cases "current l = None \<and> \<not> worker_stopped l")
      case True
      then show ?thesis using Take abs_take [OF Cons.prems, of t to_float] by (simp add: limiter_step_def)
    next
      case False
      then show ?thesis using Take by (auto simp: limiter_step_def abs_limiter_def split: option.splits bool.splits)
    qed
  next
    case (Finish r t)
    then show ?thesis using abs_finish [of to_float r t l] by (simp add: limiter_step_def)
  next
    case (CancelCaller f)
    then show ?thesis by (simp add: limiter_step_def abs_limiter_def cancel_future_def pending_def)
  qed
  then show ?case using Cons.IH [OF step_ok [OF Cons.prems]] by simp
qed simp

section \<open>No caller is forgotten\<close>

lemma set_futures_get:
  "dict_get (set_futures r fs d) f = (if dict_get d f = None \<and> f \<in> set fs then Some r else dict_get d f)"
  by (induction r fs d rule: set_futures.induct) (auto simp: dict_simps)

text \<open>A future that is not done waits in an entry of the queue or with the message being sent.\<close>

definition accounted :: "('f, 'r) message_limiter \<Rightarrow> bool" where
  "accounted l \<longleftrightarrow>
     (\<forall>f < next_future l. dict_get (answered l) f \<noteq> None \<or>
        (\<exists>(k, func, fs) \<in> set (pending l). f \<in> set fs) \<or>
        (case current l of Some (func, fs, start) \<Rightarrow> f \<in> set fs | None \<Rightarrow> False))"

lemma accountedD:
  "accounted l \<Longrightarrow> f < next_future l \<Longrightarrow> dict_get (answered l) f \<noteq> None \<or>
     (\<exists>(k, func, fs) \<in> set (pending l). f \<in> set fs) \<or> (case current l of Some (func, fs, start) \<Rightarrow> f \<in> set fs | None \<Rightarrow> False)"
  by (simp add: accounted_def)

lemma spec_enqueue_keeps:
  assumes "\<exists>(k', func, fs) \<in> set q. f \<in> set fs"
  shows "\<exists>(k', func, fs) \<in> set (spec_enqueue k g fut q). f \<in> set fs"
proof -
  obtain k' h fs where e: "(k', h, fs) \<in> set q" "f \<in> set fs" using assms by blast
  show ?thesis
  proof (cases "k \<in> fst ` set q")
    case True
    then have "(if k' = k then (k', g, fs @ [fut]) else (k', h, fs)) \<in> set (spec_enqueue k g fut q)"
      using e(1) by (force simp: spec_enqueue_def image_iff)
    then show ?thesis using e(2) by (intro bexI) auto
  next
    case False
    then show ?thesis using e by (auto simp: spec_enqueue_def)
  qed
qed

lemma spec_enqueue_new: "\<exists>(k', func, fs) \<in> set (spec_enqueue k g fut q). fut \<in> set fs"
proof (cases "k \<in> fst ` set q")
  case True
  then obtain h fs where "(k, h, fs) \<in> set q" by auto
  then have "(k, g, fs @ [fut]) \<in> set (spec_enqueue k g fut q)" using True by (force simp: spec_enqueue_def image_iff)
  then show ?thesis by force
qed (simp add: spec_enqueue_def)

fun send_cancelled :: "('f, 'r) limiter_event \<Rightarrow> bool" where
  "send_cancelled (Finish Cancelled _) = True"
| "send_cancelled _ = False"

lemma pending_answered: "pending (l\<lparr>answered := x\<rparr>) = pending l"
  by (simp add: pending_def)

lemma step_accounted:
  assumes "limiter_ok l" "accounted l" "\<not> send_cancelled ev"
  shows "accounted (limiter_step to_float ev l)"
proof (cases ev)
  case (Enqueue g k)
  show ?thesis unfolding accounted_def Enqueue limiter_step_def limiter_event.case enqueue_fields pending_enqueue [OF assms(1)]
  proof (intro allI impI)
    fix f assume "f < next_future l + 1"
    then consider "f = next_future l" | "f < next_future l" by linarith
    then show "dict_get (answered l) f \<noteq> None \<or> (\<exists>(k', func, fs) \<in> set (spec_enqueue k g (next_future l) (pending l)). f \<in> set fs) \<or>
        (case current l of Some (func, fs, start) \<Rightarrow> f \<in> set fs | None \<Rightarrow> False)"
      using accountedD [OF assms(2), of f] spec_enqueue_keeps [of "pending l" f k g "next_future l"] spec_enqueue_new [of k g "next_future l" "pending l"]
      by cases blast+
  qed
next
  case (Take t)
  show ?thesis
  proof (cases "current l = None \<and> \<not> worker_stopped l \<and> pending l \<noteq> []")
    case True
    then obtain k g fs q where p: "pending l = (k, g, fs) # q" by (cases "pending l") auto
    note taken = pending_take [OF assms(1) p, of t]
    show ?thesis unfolding accounted_def using accountedD [OF assms(2)] True p taken
      by (auto simp: Take limiter_step_def take_fields)
  next
    case False
    then have "limiter_step to_float ev l = l" by (auto simp: Take limiter_step_def worker_take_def pending_def)
    then show ?thesis using assms(2) by simp
  qed
next
  case (Finish r t)
  then have "r \<noteq> Cancelled" using assms(3) by auto
  then have "current l = Some (g, fs, st) \<Longrightarrow> answered (worker_finish to_float r t l) = set_futures r fs (answered l) \<and>
      current (worker_finish to_float r t l) = None" for g fs st
    by (auto simp: worker_finish_def Let_def split: option.splits outcome.splits)
  moreover have "current l = None \<Longrightarrow> worker_finish to_float r t l = l" by (simp add: worker_finish_def)
  ultimately show ?thesis using assms(2) unfolding accounted_def Finish limiter_step_def limiter_event.case finish_fields
    by (cases "current l") (auto simp: set_futures_get split: if_splits)
next
  case (CancelCaller g)
  then show ?thesis using assms(2) unfolding accounted_def
    by (auto simp: limiter_step_def cancel_future_def pending_answered dict_simps split: if_splits)
qed

lemma initial_limiter_ok: "limiter_ok MessagingRateLimiter" "accounted MessagingRateLimiter"
  by (simp_all add: MessagingRateLimiter_def limiter_ok_def accounted_def)

text \<open>C34 (liveness): unless the function of a message is cancelled, a limiter with nothing queued and nothing being sent has answered every caller, whatever was replaced,
  failed, paused or given up before.\<close>

theorem idle_limiter_answered_all:
  assumes "\<not> list_ex send_cancelled evs" "limiter_run to_float evs MessagingRateLimiter = l"
    and "queue_list l = []" "current l = None" "f < next_future l"
  shows "dict_get (answered l) f \<noteq> None"
proof -
  have "limiter_ok l' \<Longrightarrow> accounted l' \<Longrightarrow> accounted (limiter_run to_float evs l')" for l'
    using assms(1) by (induction evs arbitrary: l') (simp_all add: step_ok step_accounted)
  then have "accounted l" using initial_limiter_ok assms(2) by blast
  then show ?thesis using accountedD [OF _ assms(5)] assms(3,4) by (fastforce simp: pending_def)
qed

text \<open>
  When the function of a message is cancelled itself, the worker takes that for its own cancellation and ends:
  the callers of that message and of every later one wait for ever.
\<close>

definition cancelled_send :: "(nat, nat) limiter_event list" where
  "cancelled_send = [Enqueue 1 (u ''a''), Take 0, Finish Cancelled 1, Enqueue 2 (u ''b''), Take 2, Finish (Result 7) 3]"

lemma cancelled_send_ends_worker:
  "(let l = limiter_run (\<lambda>_. None) cancelled_send MessagingRateLimiter in
      (worker_stopped l, queue_list l, map (dict_get (answered l)) [0, 1])) = (True, [u ''b''], [None, None])"
  by code_simp

section \<open>The latest version is sent\<close>

definition versions :: "pystr \<Rightarrow> nat \<Rightarrow> ('f \<times> pystr) list \<Rightarrow> ('f \<times> nat) list" where
  "versions k n msgs = map (\<lambda>(i, (g, _)). (g, i)) (filter (\<lambda>(i, (_, k')). k' = k) (enumerate n msgs))"

lemma versions_snoc: "versions k n (msgs @ [(g, k')]) = versions k n msgs @ (if k' = k then [(g, n + length msgs)] else [])"
  by (simp add: versions_def enumerate_append_eq)

text \<open>When messages are enqueued one after another, the next one sent for a key is its latest version, and the callers of all its versions
  wait for that one.\<close>

theorem latest_version_waits:
  assumes "k \<notin> fst ` set (queue_map l)" "versions k (next_future l) msgs \<noteq> []"
  shows "dict_get (queue_map (limiter_run to_float (map (\<lambda>(g, k'). Enqueue g k') msgs) l)) k =
    Some (fst (last (versions k (next_future l) msgs)), map snd (versions k (next_future l) msgs))"
proof -
  have run_snoc: "limiter_run to_float (evs @ [ev]) l = limiter_step to_float ev (limiter_run to_float evs l)" for evs ev
    by (induction evs arbitrary: l) simp_all
  have "next_future (limiter_run to_float (map (\<lambda>(g, k'). Enqueue g k') msgs) l) = next_future l + length msgs \<and>
      dict_get (queue_map (limiter_run to_float (map (\<lambda>(g, k'). Enqueue g k') msgs) l)) k =
      (if versions k (next_future l) msgs = [] then None
       else Some (fst (last (versions k (next_future l) msgs)), map snd (versions k (next_future l) msgs)))"
  proof (induction msgs rule: rev_induct)
    case Nil
    then show ?case using assms(1) by (simp add: versions_def dict_get_None_iff)
  next
    case (snoc m msgs)
    obtain g k' where m: "m = (g, k')" by (cases m)
    show ?case
    proof (cases "k' = k")
      case True
      then show ?thesis using snoc
        by (auto simp: m run_snoc versions_snoc limiter_step_def enqueue_message_def enqueue_internal_def enqueue_internal_multi_def dict_simps split: if_splits)
    next
      case False
      then show ?thesis using snoc
        by (auto simp: m run_snoc versions_snoc limiter_step_def enqueue_message_def enqueue_internal_def enqueue_internal_multi_def dict_simps split: option.splits)
    qed
  qed
  then show ?thesis using assms(2) by simp
qed

text \<open>A message that is not transiently failing is tried at most three times, with the pauses 1 and 2.\<close>

lemma fire_and_forget_bounded:
  "fire_and_forget answer [0, 1, 2] = (ws, r) \<Longrightarrow> r \<noteq> None \<and> prefix ws [1, 2]"
  by (auto split: outcome.splits if_splits prod.splits)

section \<open>Concrete runs\<close>

definition two_versions :: "(nat, nat) limiter_event list" where
  "two_versions = [Enqueue 1 (u ''a''), Enqueue 2 (u ''a''), Take 0, Finish (Result 7) 1]"

theorem compaction_refines_queue_witness:
  "abs_limiter (limiter_run (\<lambda>_. None) two_versions MessagingRateLimiter) = spec_run (\<lambda>_. None) two_versions (abs_limiter MessagingRateLimiter)"
  by (rule compaction_refines_queue [OF initial_limiter_ok(1)])

theorem idle_limiter_answered_all_witness:
  "dict_get (answered (limiter_run (\<lambda>_. None) two_versions MessagingRateLimiter)) 0 \<noteq> None"
proof -
  have "map (queue_list :: (nat, nat) message_limiter \<Rightarrow> _) [limiter_run (\<lambda>_. None) two_versions MessagingRateLimiter] = [[]]"
    "current (limiter_run (\<lambda>_. None) two_versions MessagingRateLimiter) = None"
    "next_future (limiter_run (\<lambda>_. None) two_versions MessagingRateLimiter) = 2" by code_simp+
  then show ?thesis using idle_limiter_answered_all [of two_versions "\<lambda>_. None" _ 0, OF _ refl] by (simp add: two_versions_def)
qed

theorem latest_version_waits_witness:
  "dict_get (queue_map (limiter_run (\<lambda>_. None) [Enqueue (5 :: nat) (u ''a''), Enqueue 6 (u ''b''), Enqueue 7 (u ''a'')]
      (MessagingRateLimiter :: (nat, nat) message_limiter))) (u ''a'') = Some (7, [0, 2])"
proof -
  have v: "versions (u ''a'') 0 [(5 :: nat, u ''a''), (6, u ''b''), (7, u ''a'')] = [(5, 0), (7, 2)]" by code_simp
  show ?thesis
    using latest_version_waits [of "u ''a''" "MessagingRateLimiter :: (nat, nat) message_limiter" "[(5, u ''a''), (6, u ''b''), (7, u ''a'')]" "\<lambda>_. None"]
    by (simp add: MessagingRateLimiter_def v)
qed

end
