(* ===== verification/SessionStore.thy ===== *)
theory SessionStore
  imports Conversion
begin

text \<open>
  The store of message trees and message ids (\<open>messaging/session.py\<close>), which a delayed timer thread writes to a file.  The
  file is the JSON value last written; an operation under the lock is one step, a write happens outside
  the lock and is a step of its own.  \<open>repr\<close> is \<open>str()\<close> of a value that is not a string.
\<close>

section \<open>State\<close>

record message_record =
  mr_id :: pystr
  mr_ts :: pystr
  mr_direction :: pystr
  mr_kind :: pystr

record session_store =
  ss_trees :: "(pystr, json) dict"
  ss_node_to_tree :: "(pystr, pystr) dict"
  ss_message_log :: "(pystr, message_record list) dict"
  ss_message_ids :: "(pystr, pystr list) dict"
  ss_dirty :: bool
  ss_timer :: bool
  ss_cap :: "int option"
  ss_writing :: "json list"
  ss_file :: "json option"

definition SessionStore_init :: "int option \<Rightarrow> json option \<Rightarrow> session_store" where
  "SessionStore_init message_log_cap stored =
     \<lparr>ss_trees = [], ss_node_to_tree = [], ss_message_log = [], ss_message_ids = [], ss_dirty = False, ss_timer = False,
      ss_cap = message_log_cap, ss_writing = [], ss_file = stored\<rparr>"

definition make_chat_key :: "pystr \<Rightarrow> pystr \<Rightarrow> pystr" where
  "make_chat_key platform chat_id = platform @ [58] @ chat_id"

section \<open>Reading and writing the file\<close>

definition field_text :: "(json \<Rightarrow> pystr) \<Rightarrow> string \<Rightarrow> json \<Rightarrow> pystr" where
  "field_text repr k it = (let v = jget (u k) it in if truthy v then py_str repr v else [])"

fun clean_items :: "(json \<Rightarrow> pystr) \<Rightarrow> pystr list \<Rightarrow> json list \<Rightarrow> message_record list \<times> pystr list" where
  "clean_items repr seen [] = ([], seen)"
| "clean_items repr seen (it # items) =
     (if \<not> is_dict it \<or> jget (u ''message_id'') it = JNull then clean_items repr seen items
      else let mid = py_str repr (jget (u ''message_id'') it) in
        if mid \<in> set seen then clean_items repr seen items
        else (case clean_items repr (seen @ [mid]) items of
           (cleaned, ids) \<Rightarrow>
             (\<lparr>mr_id = mid, mr_ts = field_text repr ''ts'' it, mr_direction = field_text repr ''direction'' it,
               mr_kind = field_text repr ''kind'' it\<rparr> # cleaned, ids)))"

fun load_log :: "(json \<Rightarrow> pystr) \<Rightarrow> (pystr \<times> json) list \<Rightarrow> session_store \<Rightarrow> session_store" where
  "load_log repr [] s = s"
| "load_log repr ((chat_key, JArr items) # chats) s =
     (case clean_items repr [] items of
        (cleaned, ids) \<Rightarrow>
          load_log repr chats (s\<lparr>ss_message_log := dict_set chat_key cleaned (ss_message_log s),
            ss_message_ids := dict_set chat_key ids (ss_message_ids s)\<rparr>))"
| "load_log repr (_ # chats) s = load_log repr chats s"

text \<open>The trees and the node mapping of a stored file are objects, the values of the mapping strings.\<close>

definition dict_of :: "json \<Rightarrow> (pystr, json) dict" where
  "dict_of v = (case v of JObj d \<Rightarrow> d | _ \<Rightarrow> [])"

definition load_data :: "(json \<Rightarrow> pystr) \<Rightarrow> json \<Rightarrow> session_store \<Rightarrow> session_store" where
  "load_data repr data s =
     (if is_dict data then
        let s1 = s\<lparr>ss_trees := dict_of (jget (u ''trees'') data),
                   ss_node_to_tree := map (\<lambda>(k, v). (k, text_of v)) (dict_of (jget (u ''node_to_tree'') data))\<rparr>;
            raw_log = jget (u ''message_log'') data
        in if truthy raw_log \<and> \<not> is_dict raw_log then s1
           else load_log repr (dict_of raw_log) (s1\<lparr>ss_message_log := [], ss_message_ids := []\<rparr>)
      else s)"

definition load_store :: "(json \<Rightarrow> pystr) \<Rightarrow> session_store \<Rightarrow> session_store" where
  "load_store repr s = (case ss_file s of None \<Rightarrow> s | Some data \<Rightarrow> load_data repr data s)"

definition record_json :: "message_record \<Rightarrow> json" where
  "record_json r = JObj [(u ''message_id'', JStr (mr_id r)), (u ''ts'', JStr (mr_ts r)), (u ''direction'', JStr (mr_direction r)),
     (u ''kind'', JStr (mr_kind r))]"

definition store_snapshot :: "session_store \<Rightarrow> json" where
  "store_snapshot s =
     JObj [(u ''trees'', JObj (ss_trees s)), (u ''node_to_tree'', JObj (map (\<lambda>(k, v). (k, JStr v)) (ss_node_to_tree s))),
       (u ''message_log'', JObj (map (\<lambda>(k, rs). (k, JArr (map record_json rs))) (ss_message_log s)))]"

text \<open>\<open>_schedule_save\<close>; the timer's callback up to its write; the end of a write, which may fail.\<close>

definition schedule_save :: "session_store \<Rightarrow> session_store" where
  "schedule_save s = s\<lparr>ss_dirty := True, ss_timer := True\<rparr>"

definition save_from_timer :: "session_store \<Rightarrow> session_store" where
  "save_from_timer s =
     (if \<not> ss_dirty s then s\<lparr>ss_timer := False\<rparr>
      else s\<lparr>ss_writing := ss_writing s @ [store_snapshot s], ss_dirty := False, ss_timer := False\<rparr>)"

definition flush_save :: "session_store \<Rightarrow> session_store" where
  "flush_save s = s\<lparr>ss_timer := False, ss_dirty := False, ss_writing := ss_writing s @ [store_snapshot s]\<rparr>"

definition write_done :: "nat \<Rightarrow> bool \<Rightarrow> session_store \<Rightarrow> session_store" where
  "write_done i success s =
     (if i < length (ss_writing s) then
        let s1 = s\<lparr>ss_writing := take i (ss_writing s) @ drop (Suc i) (ss_writing s)\<rparr> in
        if success then s1\<lparr>ss_file := Some (ss_writing s ! i)\<rparr> else s1\<lparr>ss_dirty := True\<rparr>
      else s)"

section \<open>Operations\<close>

definition record_message_id :: "pystr \<Rightarrow> pystr \<Rightarrow> pystr \<Rightarrow> pystr option \<Rightarrow> pystr \<Rightarrow> pystr \<Rightarrow> session_store \<Rightarrow> session_store" where
  "record_message_id ts platform chat_id message direction kind s =
     (case message of
        None \<Rightarrow> s
      | Some mid \<Rightarrow>
          let chat_key = make_chat_key platform chat_id;
              seen = dict_get_default (ss_message_ids s) chat_key [];
              s0 = s\<lparr>ss_message_ids := dict_set chat_key seen (ss_message_ids s)\<rparr>
          in if mid \<in> set seen then s0
             else
               let items = dict_get_default (ss_message_log s) chat_key [] @ [\<lparr>mr_id = mid, mr_ts = ts, mr_direction = direction, mr_kind = kind\<rparr>];
                   kept = (case ss_cap s of
                       Some n \<Rightarrow> if 0 < n \<and> n < int (length items) then drop (length items - nat n) items else items
                     | None \<Rightarrow> items);
                   ids = (case ss_cap s of
                       Some n \<Rightarrow> if 0 < n \<and> n < int (length items) then map mr_id kept else seen @ [mid]
                     | None \<Rightarrow> seen @ [mid])
               in schedule_save (s0\<lparr>ss_message_log := dict_set chat_key kept (ss_message_log s), ss_message_ids := dict_set chat_key ids (ss_message_ids s0)\<rparr>))"

definition get_message_ids_for_chat :: "pystr \<Rightarrow> pystr \<Rightarrow> session_store \<Rightarrow> pystr list" where
  "get_message_ids_for_chat platform chat_id s = map mr_id (dict_get_default (ss_message_log s) (make_chat_key platform chat_id) [])"

definition clear_all :: "session_store \<Rightarrow> session_store" where
  "clear_all s = flush_save (s\<lparr>ss_trees := [], ss_node_to_tree := [], ss_message_log := [], ss_message_ids := []\<rparr>)"

definition tree_node_ids :: "json \<Rightarrow> pystr list" where
  "tree_node_ids tree_data = dict_keys (dict_of (jget (u ''nodes'') tree_data))"

definition save_tree :: "pystr \<Rightarrow> json \<Rightarrow> session_store \<Rightarrow> session_store" where
  "save_tree root_id tree_data s =
     schedule_save (s\<lparr>ss_trees := dict_set root_id tree_data (ss_trees s),
       ss_node_to_tree := foldl (\<lambda>m node_id. dict_set node_id root_id m) (ss_node_to_tree s) (tree_node_ids tree_data)\<rparr>)"

definition get_stored_tree :: "pystr \<Rightarrow> session_store \<Rightarrow> json option" where
  "get_stored_tree root_id s = dict_get (ss_trees s) root_id"

definition register_node :: "pystr \<Rightarrow> pystr \<Rightarrow> session_store \<Rightarrow> session_store" where
  "register_node node_id root_id s = schedule_save (s\<lparr>ss_node_to_tree := dict_set node_id root_id (ss_node_to_tree s)\<rparr>)"

definition remove_node_mappings :: "pystr list \<Rightarrow> session_store \<Rightarrow> session_store" where
  "remove_node_mappings node_ids s =
     schedule_save (s\<lparr>ss_node_to_tree := foldl (\<lambda>m nid. dict_pop nid m) (ss_node_to_tree s) node_ids\<rparr>)"

definition remove_tree :: "pystr \<Rightarrow> session_store \<Rightarrow> session_store" where
  "remove_tree root_id s =
     (let s1 = s\<lparr>ss_trees := dict_pop root_id (ss_trees s)\<rparr> in
      case dict_get (ss_trees s) root_id of
        Some tree_data \<Rightarrow>
          if truthy tree_data then
            schedule_save (s1\<lparr>ss_node_to_tree := foldl (\<lambda>m nid. dict_pop nid m) (ss_node_to_tree s) (tree_node_ids tree_data)\<rparr>)
          else s1
      | None \<Rightarrow> s1)"

definition sync_from_tree_data :: "(pystr, json) dict \<Rightarrow> (pystr, pystr) dict \<Rightarrow> session_store \<Rightarrow> session_store" where
  "sync_from_tree_data trees node_to_tree s = schedule_save (s\<lparr>ss_trees := trees, ss_node_to_tree := node_to_tree\<rparr>)"

datatype store_event =
    RecordMessage pystr pystr pystr "pystr option" pystr pystr
  | ClearAll
  | SaveTree pystr json
  | RegisterNode pystr pystr
  | RemoveMappings "pystr list"
  | RemoveTree pystr
  | Sync "(pystr, json) dict" "(pystr, pystr) dict"
  | TimerFires
  | FlushPending
  | WriteEnds nat bool

fun store_step :: "store_event \<Rightarrow> session_store \<Rightarrow> session_store" where
  "store_step (RecordMessage ts platform chat_id mid direction kind) s = record_message_id ts platform chat_id mid direction kind s"
| "store_step ClearAll s = clear_all s"
| "store_step (SaveTree root_id tree_data) s = save_tree root_id tree_data s"
| "store_step (RegisterNode node_id root_id) s = register_node node_id root_id s"
| "store_step (RemoveMappings ids) s = remove_node_mappings ids s"
| "store_step (RemoveTree root_id) s = remove_tree root_id s"
| "store_step (Sync trees node_to_tree) s = sync_from_tree_data trees node_to_tree s"
| "store_step TimerFires s = save_from_timer s"
| "store_step FlushPending s = flush_save s"
| "store_step (WriteEnds i success) s = write_done i success s"

fun store_run :: "store_event list \<Rightarrow> session_store \<Rightarrow> session_store" where
  "store_run [] s = s"
| "store_run (ev # evs) s = store_run evs (store_step ev s)"

section \<open>The log of a chat\<close>

definition log_ok :: "session_store \<Rightarrow> bool" where
  "log_ok s \<longleftrightarrow> (\<forall>k. set (dict_get_default (ss_message_ids s) k []) = mr_id ` set (dict_get_default (ss_message_log s) k []) \<and>
     distinct (map mr_id (dict_get_default (ss_message_log s) k [])))"

lemma log_okD:
  assumes "log_ok s"
  shows "set (dict_get_default (ss_message_ids s) k []) = mr_id ` set (dict_get_default (ss_message_log s) k [])"
    "distinct (map mr_id (dict_get_default (ss_message_log s) k []))"
  using assms by (auto simp: log_ok_def)

lemma get_default_set [simp]: "dict_get_default (dict_set k v d) k' w = (if k' = k then v else dict_get_default d k' w)"
  by (simp add: dict_get_default_def dict_simps)

lemma log_ok_fields: "ss_message_log s' = ss_message_log s \<Longrightarrow> ss_message_ids s' = ss_message_ids s \<Longrightarrow> log_ok s \<Longrightarrow> log_ok s'"
  by (simp add: log_ok_def)

lemma record_new:
  fixes ts d k :: pystr
  assumes "log_ok s" "mid \<notin> set (dict_get_default (ss_message_ids s) (make_chat_key p c) [])"
  defines "s' \<equiv> record_message_id ts p c (Some mid) d k s"
    and "items \<equiv> dict_get_default (ss_message_log s) (make_chat_key p c) [] @ [\<lparr>mr_id = mid, mr_ts = ts, mr_direction = d, mr_kind = k\<rparr>]"
  shows "\<exists>n. dict_get_default (ss_message_log s') (make_chat_key p c) [] = drop n items \<and> n < length items \<and>
      (\<forall>cap. ss_cap s = Some cap \<longrightarrow> 0 < cap \<longrightarrow> int (length items - n) \<le> cap)" "log_ok s'"
proof -
  let ?key = "make_chat_key p c"
  have new: "distinct (map mr_id items)" using log_okD [OF assms(1), of ?key] assms(2) by (simp add: items_def)
  define n where "n = (case ss_cap s of Some cap \<Rightarrow> if 0 < cap \<and> cap < int (length items) then length items - nat cap else 0 | None \<Rightarrow> 0)"
  have n: "n < length items" by (auto simp: n_def items_def split: option.splits)
  have log: "ss_message_log s' = dict_set ?key (drop n items) (ss_message_log s)"
    using assms(2) by (auto simp: s'_def record_message_id_def schedule_save_def Let_def n_def items_def split: option.splits)
  have ids: "set (dict_get_default (ss_message_ids s') ?key []) = mr_id ` set (drop n items)"
    using assms(2) log_okD(1) [OF assms(1), of ?key]
    by (auto simp: s'_def record_message_id_def schedule_save_def Let_def n_def items_def split: option.splits)
  have others: "k' \<noteq> ?key \<Longrightarrow> dict_get_default (ss_message_ids s') k' [] = dict_get_default (ss_message_ids s) k' []" for k'
    using assms(2) by (auto simp: s'_def record_message_id_def schedule_save_def Let_def split: option.splits)
  show "\<exists>n. dict_get_default (ss_message_log s') ?key [] = drop n items \<and> n < length items \<and>
      (\<forall>cap. ss_cap s = Some cap \<longrightarrow> 0 < cap \<longrightarrow> int (length items - n) \<le> cap)"
    using n by (intro exI [of _ n]) (auto simp: log n_def)
  show "log_ok s'" unfolding log_ok_def
    using log_okD [OF assms(1)] new ids others by (auto simp: log distinct_drop simp flip: drop_map)
qed

lemma record_known:
  assumes "log_ok s" "mid \<in> set (dict_get_default (ss_message_ids s) (make_chat_key p c) [])"
  shows "log_ok (record_message_id ts p c (Some mid) d k s)"
    "ss_message_log (record_message_id ts p c (Some mid) d k s) = ss_message_log s"
  using assms by (auto simp: record_message_id_def log_ok_def Let_def)

lemma step_log_ok: "log_ok s \<Longrightarrow> log_ok (store_step ev s)"
proof (induction ev s rule: store_step.induct)
  case (1 ts p c mid d k s)
  then show ?case
    by (cases mid; cases "the mid \<in> set (dict_get_default (ss_message_ids s) (make_chat_key p c) [])")
       (auto simp: record_known record_new record_message_id_def [of _ _ _ None])
next
  case (2 s)
  show ?case by (simp add: log_ok_def clear_all_def flush_save_def dict_get_default_def)
qed (auto intro: log_ok_fields [rotated 2] simp: save_tree_def register_node_def remove_node_mappings_def remove_tree_def
    sync_from_tree_data_def save_from_timer_def flush_save_def write_done_def schedule_save_def Let_def split: option.splits)

text \<open>In every run no message id is logged twice for a chat, and recording a message leaves it as the last of a log that is at most as long as the cap.\<close>

theorem message_log_capped:
  assumes "log_ok s" "store_run evs s = s1" "ss_cap s1 = Some cap" "0 < cap"
    and "mid \<notin> set (dict_get_default (ss_message_ids s1) (make_chat_key p c) [])"
  shows "(let ids = get_message_ids_for_chat p c (record_message_id ts p c (Some mid) d k s1) in
      distinct ids \<and> int (length ids) \<le> cap \<and> ids \<noteq> [] \<and> last ids = mid)"
proof -
  have "log_ok s1" using assms(1,2) by (induction evs arbitrary: s) (auto intro: step_log_ok)
  note new = record_new [OF this assms(5), of ts d k]
  obtain n where n: "dict_get_default (ss_message_log (record_message_id ts p c (Some mid) d k s1)) (make_chat_key p c) [] =
      drop n (dict_get_default (ss_message_log s1) (make_chat_key p c) [] @ [\<lparr>mr_id = mid, mr_ts = ts, mr_direction = d, mr_kind = k\<rparr>])"
    "n < length (dict_get_default (ss_message_log s1) (make_chat_key p c) [] @ [\<lparr>mr_id = mid, mr_ts = ts, mr_direction = d, mr_kind = k\<rparr>])"
    "int (length (dict_get_default (ss_message_log s1) (make_chat_key p c) [] @ [\<lparr>mr_id = mid, mr_ts = ts, mr_direction = d, mr_kind = k\<rparr>]) - n) \<le> cap"
    using new(1) assms(3,4) by blast
  then show ?thesis using log_okD(2) [OF new(2), of "make_chat_key p c"]
    by (auto simp: get_message_ids_for_chat_def Let_def last_map)
qed

section \<open>What is written\<close>

text \<open>Writes that end in order and succeed; no tree is the empty object (\<open>remove_tree\<close> of one schedules nothing).\<close>

fun orderly :: "store_event \<Rightarrow> bool" where
  "orderly (WriteEnds i success) \<longleftrightarrow> i = 0 \<and> success"
| "orderly (SaveTree root_id tree_data) \<longleftrightarrow> truthy tree_data"
| "orderly (Sync trees node_to_tree) \<longleftrightarrow> list_all (\<lambda>(r, t). truthy t) trees"
| "orderly _ \<longleftrightarrow> True"

text \<open>What is not dirty is in the last write, and what is dirty has a timer.\<close>

definition saving :: "session_store \<Rightarrow> bool" where
  "saving s \<longleftrightarrow> (if ss_dirty s then ss_timer s
     else if ss_writing s = [] then ss_file s = Some (store_snapshot s) else last (ss_writing s) = store_snapshot s)"

lemma snapshot_fields:
  "ss_trees s' = ss_trees s \<Longrightarrow> ss_node_to_tree s' = ss_node_to_tree s \<Longrightarrow> ss_message_log s' = ss_message_log s \<Longrightarrow>
     store_snapshot s' = store_snapshot s"
  by (simp add: store_snapshot_def)

definition filled :: "session_store \<Rightarrow> bool" where
  "filled s \<longleftrightarrow> list_all (\<lambda>(r, t). truthy t) (ss_trees s)"

lemma set_dict_set: "set (dict_set k v d) \<subseteq> insert (k, v) (set d)"
  by (induction d) auto

lemma set_dict_pop: "set (dict_pop k d) \<subseteq> set d"
  by (auto simp: AList.delete_eq)

lemma step_filled:
  assumes "filled s" "orderly ev"
  shows "filled (store_step ev s)"
  using assms
proof (induction ev s rule: store_step.induct)
  case (1 ts p c mid d k s)
  then show ?case by (auto simp: filled_def record_message_id_def schedule_save_def Let_def split: option.splits)
next
  case (3 root_id tree_data s)
  then show ?case using set_dict_set [of root_id tree_data "ss_trees s"] by (fastforce simp: filled_def save_tree_def schedule_save_def list_all_iff)
next
  case (6 root_id s)
  then show ?case using set_dict_pop [of root_id "ss_trees s"]
    by (auto 0 3 simp: filled_def remove_tree_def schedule_save_def list_all_iff Let_def split: option.splits)
qed (auto simp: filled_def clear_all_def flush_save_def register_node_def remove_node_mappings_def sync_from_tree_data_def
    save_from_timer_def write_done_def schedule_save_def Let_def)

lemma saving_scheduled: "saving (schedule_save s)"
  by (simp add: saving_def schedule_save_def)

lemma saving_flushed: "saving (flush_save s)"
  by (simp add: saving_def flush_save_def store_snapshot_def)

lemma saving_same:
  assumes "saving s" "store_snapshot s' = store_snapshot s" "ss_dirty s' = ss_dirty s" "ss_timer s' = ss_timer s"
    "ss_writing s' = ss_writing s" "ss_file s' = ss_file s"
  shows "saving s'"
  using assms by (simp add: saving_def)

lemma saving_write: "saving s \<Longrightarrow> saving (write_done 0 True s)"
proof (cases "ss_writing s")
  case (Cons w ws)
  have "store_snapshot (write_done 0 True s) = store_snapshot s" by (simp add: write_done_def Let_def store_snapshot_def)
  moreover assume "saving s"
  ultimately show ?thesis using Cons by (auto simp: saving_def write_done_def Let_def split: if_splits)
qed (simp add: write_done_def)

lemma step_saving:
  assumes "saving s" "orderly ev" "filled s"
  shows "saving (store_step ev s)"
  using assms
proof (induction ev s rule: store_step.induct)
  case (1 ts p c mid d k s)
  then show ?case
    by (cases mid) (auto simp: record_message_id_def Let_def saving_scheduled intro!: saving_same [OF 1(1)] snapshot_fields)
next
  case (6 root_id s)
  show ?case
  proof (cases "dict_get (ss_trees s) root_id")
    case None
    then have "dict_pop root_id (ss_trees s) = ss_trees s" by (simp add: delete_id dict_get_None_iff)
    then show ?thesis using 6(1) None by (simp add: remove_tree_def)
  next
    case (Some tree_data)
    then have "truthy tree_data" using 6(3) by (auto simp: filled_def list_all_iff dest!: dict_get_in_set)
    then show ?thesis using Some by (simp add: remove_tree_def saving_scheduled Let_def)
  qed
next
  case (8 s)
  then show ?case by (auto simp: save_from_timer_def saving_def store_snapshot_def)
qed (auto simp: clear_all_def save_tree_def register_node_def remove_node_mappings_def sync_from_tree_data_def saving_scheduled
    saving_flushed saving_write)

text \<open>C35 (liveness): as long as writes succeed and end in their order, every change is on its way to the file: what is not yet taken over has a timer, and when the timer has fired and the writes
  have ended the file holds the current state.\<close>

theorem changes_reach_the_file:
  assumes "saving s" "filled s" "list_all orderly evs" "store_run evs s = s1"
  shows "if ss_dirty s1 then ss_timer s1
    else if ss_writing s1 = [] then ss_file s1 = Some (store_snapshot s1) else last (ss_writing s1) = store_snapshot s1"
proof -
  have "saving (store_run evs s)" using assms(1-3) by (induction evs arbitrary: s) (simp_all add: step_saving step_filled)
  then have "saving s1" using assms(4) by simp
  then show ?thesis by (simp add: saving_def)
qed

text \<open>
  Two writes may end in the other order: the older state then overwrites the newer one, and nothing is
  left to repair it.
\<close>

definition slow_write :: "store_event list" where
  "slow_write = [RegisterNode (u ''n1'') (u ''r''), TimerFires, RegisterNode (u ''n2'') (u ''r''), TimerFires, WriteEnds 1 True, WriteEnds 0 True]"

lemma older_state_wins:
  "(let s = store_run slow_write (SessionStore_init None None) in
     (ss_dirty s, ss_timer s, ss_writing s, dict_keys (ss_node_to_tree s),
      map_option (\<lambda>f. dict_keys (dict_of (jget (u ''node_to_tree'') f))) (ss_file s))) =
   (False, False, [], [u ''n1'', u ''n2''], Some [u ''n1''])"
  by code_simp

text \<open>A write that fails marks the store as changed but starts no timer: nothing is saved until the next change.\<close>

lemma failed_write_not_repeated:
  "(let s = store_run [RegisterNode (u ''n1'') (u ''r''), TimerFires, WriteEnds 0 False] (SessionStore_init None None) in
     (ss_dirty s, ss_timer s, ss_file s)) = (True, False, None)"
  by code_simp

section \<open>Reading back\<close>

lemma record_back: "field_text repr ''ts'' (record_json r) = mr_ts r" "field_text repr ''direction'' (record_json r) = mr_direction r"
  "field_text repr ''kind'' (record_json r) = mr_kind r" "jget (u ''message_id'') (record_json r) = JStr (mr_id r)"
  by (simp_all add: field_text_def record_json_def py_str_def)

lemma clean_back:
  "distinct (seen @ map mr_id rs) \<Longrightarrow> clean_items repr seen (map record_json rs) = (rs, seen @ map mr_id rs)"
proof (induction rs arbitrary: seen)
  case (Cons r rs)
  have "clean_items repr (seen @ [mr_id r]) (map record_json rs) = (rs, (seen @ [mr_id r]) @ map mr_id rs)"
    by (rule Cons.IH) (use Cons.prems in auto)
  moreover have "is_dict (record_json r)" by (simp add: record_json_def)
  ultimately show ?case using Cons.prems by (simp add: record_back py_str_def Let_def)
qed simp

lemma load_log_back:
  assumes "dict_wf (ss_message_log s @ d)" "map fst (ss_message_ids s) = map fst (ss_message_log s)" "list_all (\<lambda>(k, rs). distinct (map mr_id rs)) d"
  shows "load_log repr (map (\<lambda>(k, rs). (k, JArr (map record_json rs))) d) s =
    s\<lparr>ss_message_log := ss_message_log s @ d, ss_message_ids := ss_message_ids s @ map (\<lambda>(k, rs). (k, map mr_id rs)) d\<rparr>"
  using assms
proof (induction d arbitrary: s)
  case (Cons e d)
  obtain k rs where e: "e = (k, rs)" by (cases e)
  have new: "k \<notin> fst ` set (ss_message_log s)" "k \<notin> fst ` set (ss_message_ids s)"
    using Cons.prems(1,2) e by (auto simp flip: set_map)
  let ?s = "s\<lparr>ss_message_log := dict_set k rs (ss_message_log s), ss_message_ids := dict_set k (map mr_id rs) (ss_message_ids s)\<rparr>"
  have "load_log repr (map (\<lambda>(k, rs). (k, JArr (map record_json rs))) d) ?s =
      ?s\<lparr>ss_message_log := ss_message_log ?s @ d, ss_message_ids := ss_message_ids ?s @ map (\<lambda>(k, rs). (k, map mr_id rs)) d\<rparr>"
    by (rule Cons.IH) (use Cons.prems e new in \<open>auto simp: dict_set_new\<close>)
  moreover have "clean_items repr [] (map record_json rs) = (rs, map mr_id rs)" using Cons.prems(3) e clean_back [of "[]" rs] by simp
  ultimately show ?case using new by (simp add: e dict_set_new)
qed simp

text \<open>C36 (roundtrip): a store that is written to its file and loaded again has the same trees, node mapping and message log, and its sets of ids are those of the log.\<close>

theorem store_file_roundtrip:
  fixes repr :: "json \<Rightarrow> pystr" and cap :: "int option"
  assumes "dict_wf (ss_message_log s)" "list_all (\<lambda>(k, rs). distinct (map mr_id rs)) (ss_message_log s)"
  defines "s1 \<equiv> load_store repr (SessionStore_init cap (Some (store_snapshot s)))"
  shows "ss_trees s1 = ss_trees s \<and> ss_node_to_tree s1 = ss_node_to_tree s \<and> ss_message_log s1 = ss_message_log s \<and>
    ss_message_ids s1 = map (\<lambda>(k, rs). (k, map mr_id rs)) (ss_message_log s)"
proof -
  have "map (\<lambda>(k, v). (k, text_of v)) (map (\<lambda>(k, v). (k, JStr v)) d) = d" for d :: "(pystr, pystr) dict"
    by (induction d) (auto simp: text_of_def)
  then show ?thesis using load_log_back [of "SessionStore_init cap (Some (store_snapshot s))" "ss_message_log s" repr] assms(1,2)
    load_log_back [of "(SessionStore_init cap (Some (store_snapshot s)))\<lparr>ss_trees := ss_trees s, ss_node_to_tree := ss_node_to_tree s\<rparr>" "ss_message_log s" repr]
    by (simp add: s1_def load_store_def load_data_def store_snapshot_def SessionStore_init_def dict_of_def Let_def)
qed

section \<open>Concrete runs\<close>

definition capped_store :: session_store where
  "capped_store = SessionStore_init (Some 2) None"

definition three_messages :: "store_event list" where
  "three_messages = map (\<lambda>m. RecordMessage [] (u ''tg'') (u ''1'') (Some (u m)) (u ''in'') (u ''user'')) [''a'', ''b'', ''c'']"

lemma capped_ok: "log_ok capped_store"
  by (simp add: capped_store_def SessionStore_init_def log_ok_def dict_get_default_def)

theorem message_log_capped_witness:
  "get_message_ids_for_chat (u ''tg'') (u ''1'') (record_message_id [] (u ''tg'') (u ''1'') (Some (u ''d'')) (u ''in'') (u ''user'')
      (store_run three_messages capped_store)) = [u ''c'', u ''d''] \<and> length [u ''c'', u ''d''] \<le> 2"
proof -
  have ids: "get_message_ids_for_chat (u ''tg'') (u ''1'') (record_message_id [] (u ''tg'') (u ''1'') (Some (u ''d'')) (u ''in'') (u ''user'')
      (store_run three_messages capped_store)) = [u ''c'', u ''d'']" by code_simp
  have "ss_cap (store_run three_messages capped_store) = Some 2" by code_simp
  moreover have "list_all (\<lambda>i. i \<noteq> u ''d'') (dict_get_default (ss_message_ids (store_run three_messages capped_store)) (make_chat_key (u ''tg'') (u ''1'')) [])"
    by code_simp
  ultimately show ?thesis
    using message_log_capped [OF capped_ok refl, of three_messages 2 "u ''d''" "u ''tg''" "u ''1''" "[]" "u ''in''" "u ''user''"] ids
    by (auto simp: list_all_iff Let_def)
qed

theorem changes_reach_the_file_witness:
  "ss_file (store_run [RegisterNode (u ''n1'') (u ''r''), TimerFires, WriteEnds 0 True] (clear_all capped_store)) \<noteq> None"
proof -
  let ?s = "clear_all capped_store"
  have "saving ?s" by (simp add: clear_all_def saving_flushed)
  moreover have "filled ?s" by (simp add: clear_all_def flush_save_def filled_def)
  ultimately show ?thesis
    using changes_reach_the_file [of ?s "[RegisterNode (u ''n1'') (u ''r''), TimerFires, WriteEnds 0 True]", OF _ _ _ refl]
    by (simp add: clear_all_def flush_save_def capped_store_def SessionStore_init_def register_node_def schedule_save_def
        save_from_timer_def write_done_def Let_def split: if_splits)
qed

theorem store_file_roundtrip_witness:
  "ss_message_log (load_store (\<lambda>_. []) (SessionStore_init None (Some (store_snapshot (store_run three_messages capped_store))))) =
   ss_message_log (store_run three_messages capped_store)"
proof -
  have "dict_wf (ss_message_log (store_run three_messages capped_store))" by code_simp
  moreover have "list_all (\<lambda>(k, rs). distinct (map mr_id rs)) (ss_message_log (store_run three_messages capped_store))" by code_simp
  ultimately show ?thesis using store_file_roundtrip [of "store_run three_messages capped_store" "\<lambda>_. []" None] by simp
qed

end
