(* ===== verification/Monitoring.thy ===== *)
theory Monitoring
  imports Complex_Main Sse Catalog
begin

text \<open>
  What the gateway records about its requests: the rolling history with its summary (\<open>core/reliability/analytics.py\<close>), the
  file of failed requests (\<open>core/reliability/dead_letter.py\<close>) and the health of the providers
  (\<open>core/reliability/heartbeat.py\<close>).  Times and latencies are rationals, and so are the percentages, without the
  rounding of floats; \<open>round(x, n)\<close> is a parameter.
\<close>

section \<open>History\<close>

definition MODEL_PRICING :: "(string \<times> rat \<times> rat) list" where
  "MODEL_PRICING =
     [(''claude-3-5-sonnet'', 3, 15), (''claude-3-7-sonnet'', 3, 15), (''claude-3-haiku'', 1 / 4, 5 / 4),
      (''claude-3-5-haiku'', 4 / 5, 4), (''claude-3-opus'', 15, 75)]"

definition estimate_cost :: "(pystr \<Rightarrow> pystr) \<Rightarrow> pystr \<Rightarrow> pystr \<Rightarrow> int \<Rightarrow> int \<Rightarrow> rat" where
  "estimate_cost lower provider_id model_id inp outp =
     (if provider_id \<in> {u ''aerolink'', u ''github_models'', u ''github''} then 0
      else case (case List.find (\<lambda>(model_name, _). str_contains (u model_name) (lower model_id)) MODEL_PRICING of
                   Some (_, prices) \<Rightarrow> prices
                 | None \<Rightarrow> (1, 3)) of
        (input_price, output_price) \<Rightarrow>
          (of_int inp / 1000000) * input_price + (of_int outp / 1000000) * output_price)"

record log_entry =
  le_timestamp :: rat
  le_request_id :: pystr
  le_provider_id :: pystr
  le_model_id :: pystr
  le_input_tokens :: int
  le_output_tokens :: int
  le_cost_usd :: rat
  le_latency_ms :: rat
  le_first_byte_latency_ms :: rat
  le_status_code :: int
  le_is_streaming :: bool
  le_fallback_triggered :: bool

definition le_total_tokens :: "log_entry \<Rightarrow> int" where
  "le_total_tokens e = le_input_tokens e + le_output_tokens e"

record analytics =
  an_limit :: nat
  an_history :: "log_entry list"

definition AnalyticsEngine :: "nat \<Rightarrow> analytics" where
  "AnalyticsEngine history_limit = \<lparr>an_limit = history_limit, an_history = []\<rparr>"

text \<open>\<open>append\<close> on a deque with \<open>maxlen\<close>.\<close>

definition push_history :: "log_entry \<Rightarrow> analytics \<Rightarrow> analytics" where
  "push_history e a =
     (let h = an_history a @ [e] in a\<lparr>an_history := if an_limit a < length h then drop (length h - an_limit a) h else h\<rparr>)"

definition record_request ::
    "(pystr \<Rightarrow> pystr) \<Rightarrow> rat \<Rightarrow> pystr \<Rightarrow> pystr \<Rightarrow> pystr \<Rightarrow> int \<Rightarrow> int \<Rightarrow> rat \<Rightarrow> rat \<Rightarrow> int \<Rightarrow> bool \<Rightarrow> bool \<Rightarrow> analytics \<Rightarrow> analytics" where
  "record_request lower timestamp request_id provider_id model_id inp outp total_latency_ms first_byte_latency_ms
     status_code is_streaming fallback_triggered a =
     push_history \<lparr>le_timestamp = timestamp, le_request_id = request_id, le_provider_id = provider_id, le_model_id = model_id,
       le_input_tokens = inp, le_output_tokens = outp,
       le_cost_usd = estimate_cost lower provider_id model_id inp outp, le_latency_ms = total_latency_ms,
       le_first_byte_latency_ms = first_byte_latency_ms, le_status_code = status_code, le_is_streaming = is_streaming,
       le_fallback_triggered = fallback_triggered\<rparr> a"

section \<open>Summary\<close>

definition get_percentile :: "rat list \<Rightarrow> rat \<Rightarrow> rat" where
  "get_percentile sorted_list pct =
     (let idx = \<lceil>(pct / 100) * of_nat (length sorted_list)\<rceil> - 1
      in sorted_list ! nat (max 0 (min idx (int (length sorted_list) - 1))))"

definition percent :: "nat \<Rightarrow> nat \<Rightarrow> rat" where
  "percent k n = of_nat k / of_nat n * 100"

fun count_providers :: "log_entry list \<Rightarrow> (pystr, nat) dict \<Rightarrow> (pystr, nat) dict" where
  "count_providers [] counts = counts"
| "count_providers (e # es) counts =
     count_providers es (dict_set (le_provider_id e) (dict_get_default counts (le_provider_id e) 0 + 1) counts)"

record summary =
  su_total_requests :: nat
  su_total_tokens :: int
  su_total_cost_usd :: rat
  su_error_rate :: rat
  su_avg_latency_ms :: rat
  su_p50_latency_ms :: rat
  su_p95_latency_ms :: rat
  su_p99_latency_ms :: rat
  su_avg_first_byte_latency_ms :: rat
  su_provider_split :: "(pystr, rat) dict"
  su_streaming_percentage :: rat
  su_fallback_count :: nat

definition get_summary :: "(nat \<Rightarrow> rat \<Rightarrow> rat) \<Rightarrow> analytics \<Rightarrow> summary" where
  "get_summary round_to a =
     (let h = an_history a; n = length h in
      if h = [] then
        \<lparr>su_total_requests = 0, su_total_tokens = 0, su_total_cost_usd = 0, su_error_rate = 0, su_avg_latency_ms = 0, su_p50_latency_ms = 0,
         su_p95_latency_ms = 0, su_p99_latency_ms = 0, su_avg_first_byte_latency_ms = 0, su_provider_split = [],
         su_streaming_percentage = 0, su_fallback_count = 0\<rparr>
      else
        let latencies = sort (map le_latency_ms h);
            fb_latencies = filter (\<lambda>t. 0 < t) (map le_first_byte_latency_ms h)
        in \<lparr>su_total_requests = n,
            su_total_tokens = sum_list (map le_total_tokens h),
            su_total_cost_usd = round_to 4 (sum_list (map le_cost_usd h)),
            su_error_rate = round_to 1 (percent (length (filter (\<lambda>e. 400 \<le> le_status_code e) h)) n),
            su_avg_latency_ms = round_to 1 (sum_list latencies / of_nat n),
            su_p50_latency_ms = round_to 1 (get_percentile latencies 50),
            su_p95_latency_ms = round_to 1 (get_percentile latencies 95),
            su_p99_latency_ms = round_to 1 (get_percentile latencies 99),
            su_avg_first_byte_latency_ms = round_to 1 (if fb_latencies = [] then 0 else sum_list fb_latencies / of_nat (length fb_latencies)),
            su_provider_split = map (\<lambda>(p, k). (p, percent k n)) (count_providers h []),
            su_streaming_percentage = round_to 1 (percent (length (filter le_is_streaming h)) n),
            su_fallback_count = length (filter le_fallback_triggered h)\<rparr>)"

section \<open>Dead letters\<close>

text \<open>The file is its text; it is opened in text mode, so every line ending is read as a line feed.\<close>

fun universal_newlines :: "pystr \<Rightarrow> pystr" where
  "universal_newlines [] = []"
| "universal_newlines [c] = [if c = 13 then 10 else c]"
| "universal_newlines (c # d # s) =
     (if c = 13 then (if d = 10 then 10 # universal_newlines s else 10 # universal_newlines (d # s))
      else c # universal_newlines (d # s))"

fun line_of :: "pystr \<Rightarrow> pystr \<Rightarrow> pystr list" where
  "line_of acc [] = (if acc = [] then [] else [acc])"
| "line_of acc (c # s) = (if c = 10 then (acc @ [10]) # line_of [] s else line_of (acc @ [c]) s)"

definition file_lines :: "pystr \<Rightarrow> pystr list" where
  "file_lines s = line_of [] (universal_newlines s)"

definition failure_entry :: "pystr \<Rightarrow> pystr \<Rightarrow> json \<Rightarrow> pystr \<Rightarrow> json \<Rightarrow> json" where
  "failure_entry timestamp provider_id payload problem metadata =
     JObj [(u ''timestamp'', JReal timestamp), (u ''provider_id'', JStr provider_id), (u ''payload'', payload), (u ''error'', JStr problem),
       (u ''metadata'', if truthy metadata then metadata else JObj [])]"

definition append_entry :: "json \<Rightarrow> pystr \<Rightarrow> pystr" where
  "append_entry entry file = file @ json_dumps entry @ [10]"

definition record_failure :: "pystr \<Rightarrow> pystr \<Rightarrow> json \<Rightarrow> pystr \<Rightarrow> json \<Rightarrow> pystr option \<Rightarrow> pystr option" where
  "record_failure timestamp provider_id payload problem metadata stored =
     Some (append_entry (failure_entry timestamp provider_id payload problem metadata) (case stored of Some s \<Rightarrow> s | None \<Rightarrow> []))"

definition read_entries :: "pystr \<Rightarrow> json list" where
  "read_entries s =
     List.map_filter (\<lambda>line. let stripped = str_strip line in if stripped = [] then None else json_loads stripped) (file_lines s)"

definition read_failures :: "pystr option \<Rightarrow> json list" where
  "read_failures stored = (case stored of None \<Rightarrow> [] | Some s \<Rightarrow> read_entries s)"

definition clear_failures :: "pystr option \<Rightarrow> pystr option" where
  "clear_failures stored = None"

section \<open>Health\<close>

text \<open>The credential attributes as strings; an attribute that is no string is \<open>None\<close>.\<close>

definition get_active_provider_ids :: "(pystr \<Rightarrow> pystr option) \<Rightarrow> provider_descriptor list \<Rightarrow> pystr list" where
  "get_active_provider_ids attr catalog =
     map pd_provider_id (filter (\<lambda>d. pd_static_credential d \<noteq> None \<or>
       (case pd_credential_attr d of
          Some a \<Rightarrow> a \<noteq> [] \<and> (case attr a of Some v \<Rightarrow> str_strip v \<noteq> [] | None \<Rightarrow> False)
        | None \<Rightarrow> False)) catalog)"

text \<open>How the check of a provider ends; a cancellation is no \<open>Exception\<close>.\<close>

datatype check_result = Listed | Check_Failed | Check_Cancelled

definition is_healthy :: "pystr \<Rightarrow> (pystr, bool) dict \<Rightarrow> bool" where
  "is_healthy provider_id health = dict_get_default health provider_id True"

definition opened_providers :: "(pystr \<Rightarrow> bool) \<Rightarrow> pystr list \<Rightarrow> (pystr, bool) dict \<Rightarrow> pystr list \<times> (pystr, bool) dict" where
  "opened_providers opens active_ids health =
     (filter opens active_ids, foldl (\<lambda>h p. dict_set p False h) health (filter (\<lambda>p. \<not> opens p) active_ids))"

definition check_all_providers :: "(pystr \<Rightarrow> bool) \<Rightarrow> (pystr \<Rightarrow> check_result) \<Rightarrow> pystr list \<Rightarrow> (pystr, bool) dict \<Rightarrow> (pystr, bool) dict" where
  "check_all_providers opens result active_ids health =
     (case opened_providers opens active_ids health of
        (opened, h) \<Rightarrow> foldl (\<lambda>h p. dict_set p (result p \<noteq> Check_Failed) h) h opened)"

section \<open>Percentiles are nearest ranks\<close>

lemma sorted_count:
  fixes xs :: "'a :: linorder list"
  assumes "sorted xs" "i < length xs"
  shows "i + 1 \<le> length (filter (\<lambda>x. x \<le> xs ! i) xs)" "length (filter (\<lambda>x. x < xs ! i) xs) \<le> i"
proof -
  have split: "xs = take (i + 1) xs @ drop (i + 1) xs" by simp
  have "list_all (\<lambda>x. x \<le> xs ! i) (take (i + 1) xs)"
    using assms by (auto simp: list_all_length sorted_iff_nth_mono)
  then have "filter (\<lambda>x. x \<le> xs ! i) (take (i + 1) xs) = take (i + 1) xs" by (simp add: list_all_iff)
  then have "length (filter (\<lambda>x. x \<le> xs ! i) (take (i + 1) xs)) = i + 1" using assms(2) by simp
  then show "i + 1 \<le> length (filter (\<lambda>x. x \<le> xs ! i) xs)" by (subst split) (simp only: filter_append length_append)
  have "filter (\<lambda>x. x < xs ! i) (drop i xs) = []"
    using assms by (auto simp: filter_empty_conv in_set_conv_nth not_less sorted_iff_nth_mono)
  then have "length (filter (\<lambda>x. x < xs ! i) xs) = length (filter (\<lambda>x. x < xs ! i) (take i xs))"
    by (metis append_Nil2 append_take_drop_id filter_append)
  then show "length (filter (\<lambda>x. x < xs ! i) xs) \<le> i" using length_filter_le [of "\<lambda>x. x < xs ! i" "take i xs"] by simp
qed

text \<open>A percentile of the latencies is one of them, at least that share of the latencies is at most as long and less than that share is shorter.\<close>

theorem percentile_is_nearest_rank:
  assumes "latencies \<noteq> []" "0 < pct" "pct \<le> 100" "v = get_percentile (sort latencies) pct"
  shows "v \<in> set latencies \<and> pct / 100 * of_nat (length latencies) \<le> of_nat (length (filter (\<lambda>x. x \<le> v) (sort latencies))) \<and>
    of_nat (length (filter (\<lambda>x. x < v) (sort latencies))) < pct / 100 * of_nat (length latencies)"
proof -
  let ?xs = "sort latencies" and ?r = "pct / 100 * of_nat (length latencies)"
  define i where "i = nat (\<lceil>?r\<rceil> - 1)"
  have "0 < ?r" "?r \<le> of_nat (length latencies)" using assms(1-3) by (auto simp: mult_left_le_one_le)
  then have c: "0 < \<lceil>?r\<rceil>" "\<lceil>?r\<rceil> \<le> int (length latencies)" by (simp_all add: ceiling_le_iff)
  have idx: "nat (max 0 (min (\<lceil>?r\<rceil> - 1) (int (length ?xs) - 1))) = i" using c by (simp add: i_def min_def)
  have v: "v = ?xs ! i" using assms(4) unfolding get_percentile_def Let_def idx [symmetric] by simp
  have i: "i < length ?xs" using c unfolding i_def length_sort by linarith
  have "of_nat i < ?r" using c ceiling_less_iff less_ceiling_iff by (simp add: i_def) linarith
  moreover have "?r \<le> of_nat (i + 1)" using c le_of_int_ceiling [of ?r] by (simp add: i_def)
  moreover note sorted_count [OF sorted_sort i, folded v]
  ultimately show ?thesis using i v nth_mem [OF i]
    by (simp del: of_nat_add)
qed

lemma percentile_is_nearest_rank_witness:
  "get_percentile (sort [30, 10, 20]) 50 = (20 :: rat) \<and> (20 :: rat) \<in> set [30, 10, 20]"
proof -
  have v: "get_percentile (sort [30, 10, 20]) 50 = (20 :: rat)"
  proof -
    have c: "\<lceil>(50 / 100) * of_nat (length (sort [30, 10, 20 :: rat])) :: rat\<rceil> = 2" by (simp add: ceiling_eq_iff)
    show ?thesis unfolding get_percentile_def Let_def c by simp
  qed
  show ?thesis using percentile_is_nearest_rank [of "[30, 10, 20]" 50 20] v by simp
qed

section \<open>The history is bounded\<close>

lemma limit_kept: "an_limit (foldl (\<lambda>a e. push_history e a) a es) = an_limit a"
  by (induction es arbitrary: a) (simp_all add: push_history_def Let_def)

lemma history_suffix:
  "an_history (foldl (\<lambda>a e. push_history e a) (AnalyticsEngine n) es) = drop (length es - n) es"
proof (induction es rule: rev_induct)
  case (snoc e es)
  have lim: "an_limit (foldl (\<lambda>a e. push_history e a) (AnalyticsEngine n) es) = n"
    by (simp add: limit_kept) (simp add: AnalyticsEngine_def)
  show ?case
  proof (cases "length es < n")
    case False
    then have "Suc (length es) - n = Suc (length es - n)" by simp
    then show ?thesis using False snoc lim by (cases "n = 0") (auto simp: push_history_def Let_def)
  qed (use snoc lim in \<open>auto simp: push_history_def Let_def\<close>)
qed (simp add: AnalyticsEngine_def)

section \<open>Dead letters are read back\<close>

definition dead_letters :: "json list \<Rightarrow> pystr" where
  "dead_letters entries = foldl (\<lambda>s e. append_entry e s) [] entries"

lemma newlines_printable:
  "list_all ascii_printable s \<Longrightarrow> universal_newlines (s @ 10 # t) = s @ 10 # universal_newlines t"
proof (induction s)
  case Nil show ?case by (cases t) simp_all
next
  case (Cons c s)
  then show ?case by (cases "s @ 10 # t") (auto simp: ascii_printable_def)
qed

lemma line_of_printable:
  "list_all ascii_printable s \<Longrightarrow> line_of acc (s @ 10 # t) = (acc @ s @ [10]) # line_of [] t"
  by (induction s arbitrary: acc) (auto simp: ascii_printable_def)

lemma dead_letters_lines:
  assumes "\<forall>e\<in>set entries. json_ok e"
  shows "dead_letters entries = concat (map (\<lambda>e. json_dumps e @ [10]) entries)"
    "file_lines (dead_letters entries) = map (\<lambda>e. json_dumps e @ [10]) entries"
proof -
  show c: "dead_letters entries = concat (map (\<lambda>e. json_dumps e @ [10]) entries)"
    by (induction entries rule: rev_induct) (simp_all add: dead_letters_def append_entry_def)
  show "file_lines (dead_letters entries) = map (\<lambda>e. json_dumps e @ [10]) entries"
    using assms unfolding c file_lines_def
    by (induction entries) (simp_all add: newlines_printable line_of_printable printable_dumps)
qed

lemma strip_entry_line:
  "is_dict e \<Longrightarrow> str_strip (json_dumps e @ [10]) = json_dumps e"
  using dumps_dict_ends [of e] strip_dumps [of e]
  by (cases "json_dumps e") (simp_all add: str_strip_def str_lstrip_def str_rstrip_def is_space_def)

text \<open>The failures written one after the other are read back in order, none lost and none split.\<close>

theorem dead_letters_roundtrip:
  assumes "\<forall>e\<in>set entries. is_dict e \<and> json_ok e"
  shows "read_failures (Some (dead_letters entries)) = entries"
proof -
  have "\<forall>e\<in>set entries. json_ok e" using assms by blast
  note lines = dead_letters_lines(2) [OF this]
  show ?thesis using assms unfolding read_failures_def option.case read_entries_def lines
    by (induction entries) (simp_all add: strip_entry_line dumps_dict_ends dumps_loads List.map_filter_simps)
qed

lemma dead_letters_roundtrip_witness:
  "read_failures (Some (dead_letters [JObj [(u ''error'', JStr (u ''boom''))], JObj []])) =
     [JObj [(u ''error'', JStr (u ''boom''))], JObj []]"
  by (rule dead_letters_roundtrip) (simp add: u_def scalar_value_def)

section \<open>Health after a check\<close>

lemma get_after_sets:
  "dict_get_default (foldl (\<lambda>h p. dict_set p (f p) h) h ps) p d = (if p \<in> set ps then f p else dict_get_default h p d)"
  by (induction ps arbitrary: h) (auto simp: dict_get_default_def dict_simps)

lemma health_of_check:
  "is_healthy p (check_all_providers opens result active_ids h) =
     (if p \<in> set active_ids then opens p \<and> result p \<noteq> Check_Failed else is_healthy p h)"
  by (auto simp: is_healthy_def check_all_providers_def opened_providers_def get_after_sets)

end
